(* ===== verification/Prelude.thy ===== *)
theory Prelude
  imports Main "HOL-Library.Word" "HOL-Library.List_Lexorder"
begin

text \<open>
  What every component shares: the names of the machine types, fallible results, hexadecimal and
  decimal text as Go's \<^verbatim>\<open>encoding/hex\<close> and \<^verbatim>\<open>math/big\<close> produce and read them, big-endian
  integers, and the two encoder contracts (\<open>codec\<close>, \<open>fixed_width\<close>) that the wire format and the
  signed digests are built on.
\<close>

named_theorems res_simps \<open>unfolding of the result combinators\<close>
named_theorems bytes_len \<open>lengths of encoded values\<close>

subsection \<open>Machine types\<close>

text \<open>
  A \<^verbatim>\<open>[]byte\<close>, a \<^verbatim>\<open>[32]byte\<close> and a \<^verbatim>\<open>[20]byte\<close> are lists of 8-bit words (the array lengths are
  stated where they matter). A \<^verbatim>\<open>*big.Int\<close> is an \<open>int option\<close>, the nil pointer being \<open>None\<close>. An
  \<^verbatim>\<open>int64\<close> is an \<open>int\<close> whose arithmetic is wrapped by \<open>i64\<close>.
\<close>

type_synonym byte = "8 word"
type_synonym bytes = "byte list"
type_synonym bytes32 = "byte list"
type_synonym u8 = "8 word"
type_synonym u64 = "64 word"
type_synonym bigint = "int option"

abbreviation zero32 :: bytes32 where
  "zero32 \<equiv> replicate 32 0"

definition i64 :: "int \<Rightarrow> int" where
  "i64 n = (n + 2 ^ 63) mod 2 ^ 64 - 2 ^ 63"

lemma i64_id [simp]: "- (2 ^ 63) \<le> n \<Longrightarrow> n < 2 ^ 63 \<Longrightarrow> i64 n = n"
  by (simp add: i64_def)

lemma i64_range: "- (2 ^ 63) \<le> i64 n \<and> i64 n < 2 ^ 63"
  by (simp add: i64_def)

definition orZero :: "bigint \<Rightarrow> int" where
  "orZero n = (case n of None \<Rightarrow> 0 | Some v \<Rightarrow> v)"

lemma orZero_simps [simp]: "orZero None = 0" "orZero (Some v) = v"
  by (simp_all add: orZero_def)

subsection \<open>Fallible results\<close>

text \<open>
  A function returning \<^verbatim>\<open>(T, error)\<close> is a function into a sum; \<open>Inl\<close> is the early return.
\<close>

definition bindR :: "'e + 'a \<Rightarrow> ('a \<Rightarrow> 'e + 'b) \<Rightarrow> 'e + 'b" where
  "bindR r f = (case r of Inl e \<Rightarrow> Inl e | Inr x \<Rightarrow> f x)"

definition ofOpt :: "'e \<Rightarrow> 'a option \<Rightarrow> 'e + 'a" where
  "ofOpt e x = (case x of None \<Rightarrow> Inl e | Some v \<Rightarrow> Inr v)"

lemma bindR_simps [simp, res_simps]: "bindR (Inl e) f = Inl e" "bindR (Inr x) f = f x"
  by (simp_all add: bindR_def)

lemma ofOpt_simps [simp, res_simps]: "ofOpt e None = Inl e" "ofOpt e (Some v) = Inr v"
  by (simp_all add: ofOpt_def)

lemma bindR_Inr [res_simps]: "bindR r f = Inr y \<longleftrightarrow> (\<exists>x. r = Inr x \<and> f x = Inr y)"
  by (cases r) auto

lemma bindR_Inl [res_simps]:
  "bindR r f = Inl e \<longleftrightarrow> r = Inl e \<or> (\<exists>x. r = Inr x \<and> f x = Inl e)"
  by (cases r) auto

lemma ofOpt_Inr [res_simps]: "ofOpt e x = Inr v \<longleftrightarrow> x = Some v"
  by (cases x) auto

lemma ofOpt_Inl [res_simps]: "ofOpt e x = Inl e' \<longleftrightarrow> x = None \<and> e' = e"
  by (cases x) auto

text \<open>A loop over a slice whose body may return early.\<close>

fun mapR :: "('a \<Rightarrow> 'e + 'b) \<Rightarrow> 'a list \<Rightarrow> 'e + 'b list" where
  "mapR f [] = Inr []"
| "mapR f (x # xs) = bindR (f x) (\<lambda>y. bindR (mapR f xs) (\<lambda>ys. Inr (y # ys)))"

lemma mapR_map: "(\<And>x. x \<in> set xs \<Longrightarrow> f (g x) = Inr (h x)) \<Longrightarrow> mapR f (map g xs) = Inr (map h xs)"
  by (induction xs) auto

subsection \<open>Sums over lists\<close>

lemma sum_list_insert_at:
  "sum_list (map f (take i xs @ x # drop i xs)) = f x + sum_list (map (f :: 'a \<Rightarrow> int) xs)"
proof -
  have "sum_list (map f xs) = sum_list (map f (take i xs)) + sum_list (map f (drop i xs))"
    by (metis append_take_drop_id map_append sum_list_append)
  then show ?thesis by simp
qed

lemma sum_list_remove_at:
  "i < length xs \<Longrightarrow>
   sum_list (map f (take i xs @ drop (Suc i) xs)) = sum_list (map (f :: 'a \<Rightarrow> int) xs) - f (xs ! i)"
proof -
  assume "i < length xs"
  then have "xs = take i xs @ xs ! i # drop (Suc i) xs"
    by (rule id_take_nth_drop)
  then have "sum_list (map f xs) = sum_list (map f (take i xs @ xs ! i # drop (Suc i) xs))"
    by (rule arg_cong)
  then show ?thesis by simp
qed

end
