(* ===== verification/Text_Codec.thy ===== *)
theory Text_Codec
  imports Prelude
begin

text \<open>
  The text and byte encodings the channel package relies on: \<^verbatim>\<open>hex.EncodeToString\<close> and
  \<^verbatim>\<open>hex.DecodeString\<close>, \<^verbatim>\<open>big.Int.String\<close> and \<^verbatim>\<open>big.Int.SetString(s, 10)\<close>, and
  \<^verbatim>\<open>big.Int.Bytes\<close> / \<^verbatim>\<open>SetBytes\<close>. These belong to Go's standard library and are modelled by what
  they compute. The two locales are the contracts the wire format and the digests use.
\<close>

subsection \<open>Encoder contracts\<close>

text \<open>A partial decoder that undoes a total encoder on well-formed values.\<close>

locale codec =
  fixes enc :: "'a \<Rightarrow> 'b"
    and dec :: "'b \<Rightarrow> 'a option"
    and wf :: "'a \<Rightarrow> bool"
  assumes dec_enc: "wf x \<Longrightarrow> dec (enc x) = Some x"
begin

lemma enc_inj: "wf x \<Longrightarrow> wf y \<Longrightarrow> enc x = enc y \<longleftrightarrow> x = y"
  by (metis dec_enc option.inject)

lemma enc_eqD: "enc x = enc y \<Longrightarrow> wf x \<Longrightarrow> wf y \<Longrightarrow> x = y"
  by (simp add: enc_inj)

end

text \<open>
  An encoder into exactly \<open>width\<close> list elements, injective on well-formed values: what makes a
  concatenation of fields unambiguous.
\<close>

locale fixed_width =
  fixes enc :: "'a \<Rightarrow> 'b list"
    and width :: nat
    and wf :: "'a \<Rightarrow> bool"
  assumes enc_width: "wf x \<Longrightarrow> length (enc x) = width"
    and enc_unique: "wf x \<Longrightarrow> wf y \<Longrightarrow> enc x = enc y \<Longrightarrow> x = y"
begin

lemma field_split:
  assumes "wf x" "wf y"
  shows "enc x @ r = enc y @ s \<longleftrightarrow> x = y \<and> r = s"
proof
  assume eq: "enc x @ r = enc y @ s"
  have len: "length (enc x) = length (enc y)"
    using assms by (simp add: enc_width)
  from eq len have "enc x = enc y" and "r = s"
    by simp_all
  with assms show "x = y \<and> r = s"
    by (blast dest: enc_unique)
qed simp

lemma concat_unique:
  assumes "0 < width"
  shows "list_all wf xs \<Longrightarrow> list_all wf ys \<Longrightarrow>
    concat (map enc xs) = concat (map enc ys) \<Longrightarrow> xs = ys"
proof (induction xs arbitrary: ys)
  case Nil
  show ?case
  proof (cases ys)
    case (Cons y zs)
    with Nil.prems have "wf y" and "enc y = []" by simp_all
    with enc_width [of y] assms show ?thesis by simp
  qed simp
next
  case (Cons x xs)
  then have wfx: "wf x" by simp
  with enc_width [of x] assms have ne: "enc x \<noteq> []" by auto
  with Cons.prems(3) obtain y zs where ys: "ys = y # zs"
    by (cases ys) auto
  with Cons.prems(2) have wfy: "wf y" by simp
  from Cons.prems(3) have "enc x @ concat (map enc xs) = enc y @ concat (map enc zs)"
    by (simp only: ys list.map concat.simps)
  then have "x = y" and "concat (map enc xs) = concat (map enc zs)"
    unfolding field_split [OF wfx wfy] by blast+
  with Cons ys show ?case by auto
qed

end

subsection \<open>Hexadecimal\<close>

definition hexNibble :: "nat \<Rightarrow> char" where
  "hexNibble n = (if n < 10 then char_of (48 + n) else char_of (87 + n))"

definition fromHexChar :: "char \<Rightarrow> nat option" where
  "fromHexChar c =
     (let k = (of_char c :: nat) in
      if 48 \<le> k \<and> k \<le> 57 then Some (k - 48)
      else if 97 \<le> k \<and> k \<le> 102 then Some (k - 87)
      else if 65 \<le> k \<and> k \<le> 70 then Some (k - 55)
      else None)"

fun hexEncode :: "bytes \<Rightarrow> string" where
  "hexEncode [] = []"
| "hexEncode (b # bs) = hexNibble (unat b div 16) # hexNibble (unat b mod 16) # hexEncode bs"

fun hexDecode :: "string \<Rightarrow> bytes option" where
  "hexDecode [] = Some []"
| "hexDecode [c] = None"
| "hexDecode (c # d # r) =
     (case (fromHexChar c, fromHexChar d) of
        (Some hi, Some lo) \<Rightarrow> map_option (\<lambda>bs. of_nat (16 * hi + lo) # bs) (hexDecode r)
      | _ \<Rightarrow> None)"

lemma fromHexChar_hexNibble [simp]: "n < 16 \<Longrightarrow> fromHexChar (hexNibble n) = Some n"
  by (auto simp: fromHexChar_def hexNibble_def of_char_of take_bit_eq_mod Let_def)

lemma unat_byte_less: "unat (b :: byte) < 256"
  using unsigned_less [of b] by simp

lemma hexDecode_hexEncode [simp]: "hexDecode (hexEncode bs) = Some bs"
proof (induction bs)
  case (Cons b bs)
  have "unat b div 16 < 16"
    using unat_byte_less [of b] by simp
  then show ?case using Cons by simp
qed simp

lemma length_hexEncode [bytes_len, simp]: "length (hexEncode bs) = 2 * length bs"
  by (induction bs) auto

interpretation hex: codec hexEncode hexDecode "\<lambda>_. True"
  by unfold_locales simp

subsection \<open>Decimal\<close>

function natDec :: "nat \<Rightarrow> string" where
  "natDec n = (if n < 10 then [char_of (48 + n)] else natDec (n div 10) @ [char_of (48 + n mod 10)])"
  by pat_completeness auto
termination
  by (relation "measure id") auto

declare natDec.simps [simp del]

definition decimal :: "int \<Rightarrow> string" where
  "decimal i = (if i < 0 then CHR ''-'' # natDec (nat (- i)) else natDec (nat i))"

definition digitVal :: "char \<Rightarrow> nat option" where
  "digitVal c = (let k = (of_char c :: nat) in if 48 \<le> k \<and> k \<le> 57 then Some (k - 48) else None)"

fun digitsVal :: "nat \<Rightarrow> string \<Rightarrow> nat option" where
  "digitsVal acc [] = Some acc"
| "digitsVal acc (c # cs) =
     (case digitVal c of None \<Rightarrow> None | Some d \<Rightarrow> digitsVal (10 * acc + d) cs)"

definition unsignedVal :: "string \<Rightarrow> nat option" where
  "unsignedVal s = (if s = [] then None else digitsVal 0 s)"

definition setString :: "string \<Rightarrow> int option" where
  "setString s = (case s of
       [] \<Rightarrow> None
     | c # r \<Rightarrow>
         if c = CHR ''-'' then map_option (\<lambda>n. - int n) (unsignedVal r)
         else if c = CHR ''+'' then map_option int (unsignedVal r)
         else map_option int (unsignedVal s))"

lemma digitVal_char [simp]: "d < 10 \<Longrightarrow> digitVal (char_of (48 + d)) = Some d"
  by (simp add: digitVal_def of_char_of take_bit_eq_mod Let_def)

lemma digitsVal_append:
  "digitsVal acc (xs @ ys) = Option.bind (digitsVal acc xs) (\<lambda>a. digitsVal a ys)"
  by (induction xs arbitrary: acc) (auto split: option.splits)

lemma digitsVal_natDec: "digitsVal 0 (natDec n) = Some n"
proof (induction n rule: natDec.induct)
  case (1 n)
  then show ?case
    by (cases "n < 10") (simp_all add: natDec.simps [of n] digitsVal_append)
qed

lemma natDec_hd: "\<exists>d r. d < (10 :: nat) \<and> natDec n = char_of (48 + d) # r"
proof (induction n rule: natDec.induct)
  case (1 n)
  then show ?case
    by (cases "n < 10") (auto simp: natDec.simps [of n])
qed

lemma setString_natDec: "setString (natDec n) = Some (int n)"
proof -
  obtain d r where d: "d < (10 :: nat)" and n: "natDec n = char_of (48 + d) # r"
    using natDec_hd by blast
  have "of_char (char_of (48 + d) :: char) = 48 + d"
    using d by (simp add: of_char_of take_bit_eq_mod)
  then have "char_of (48 + d) \<noteq> CHR ''-''" and "char_of (48 + d) \<noteq> CHR ''+''"
    using d by (auto dest: arg_cong [of _ _ "of_char :: char \<Rightarrow> nat"])
  then show ?thesis
    using digitsVal_natDec [of n] by (simp add: setString_def unsignedVal_def n)
qed

lemma setString_decimal [simp]: "setString (decimal i) = Some i"
proof (cases "i < 0")
  case True
  have "natDec (nat (- i)) \<noteq> []"
    using natDec_hd [of "nat (- i)"] by auto
  with True show ?thesis
    by (simp add: decimal_def setString_def unsignedVal_def digitsVal_natDec)
next
  case False
  then show ?thesis
    by (simp add: decimal_def setString_natDec)
qed

lemma decimal_nonempty [simp]: "decimal i \<noteq> []"
  using natDec_hd [of "nat i"] by (auto simp: decimal_def)

interpretation dec: codec decimal setString "\<lambda>_. True"
  by unfold_locales simp

subsection \<open>Big-endian integers\<close>

function natBytes :: "nat \<Rightarrow> bytes" where
  "natBytes n = (if n = 0 then [] else natBytes (n div 256) @ [of_nat (n mod 256)])"
  by pat_completeness auto
termination
  by (relation "measure id") auto

declare natBytes.simps [simp del]

definition bigBytes :: "int \<Rightarrow> bytes" where
  \<comment> \<open>\<^verbatim>\<open>big.Int.Bytes\<close>: the absolute value, minimal and big-endian\<close>
  "bigBytes i = natBytes (nat \<bar>i\<bar>)"

definition bytesNat :: "bytes \<Rightarrow> nat" where
  \<comment> \<open>\<^verbatim>\<open>big.Int.SetBytes\<close>\<close>
  "bytesNat bs = foldl (\<lambda>a b. 256 * a + unat b) 0 bs"

lemma bytesNat_Nil [simp]: "bytesNat [] = 0"
  by (simp add: bytesNat_def)

lemma bytesNat_snoc [simp]: "bytesNat (bs @ [b]) = 256 * bytesNat bs + unat b"
  by (simp add: bytesNat_def)

lemma bytesNat_zeros [simp]: "bytesNat (replicate k 0 @ bs) = bytesNat bs"
  by (induction k) (simp_all add: bytesNat_def)

lemma bytesNat_natBytes [simp]: "bytesNat (natBytes n) = n"
proof (induction n rule: natBytes.induct)
  case (1 n)
  then show ?case
    by (cases "n = 0") (simp_all add: natBytes.simps [of n] natBytes.simps [of 0] unat_of_nat)
qed

lemma length_natBytes: "n < 256 ^ k \<Longrightarrow> length (natBytes n) \<le> k"
proof (induction n arbitrary: k rule: natBytes.induct)
  case (1 n)
  show ?case
  proof (cases "n = 0")
    case False
    with "1.prems" obtain j where k: "k = Suc j"
      by (cases k) auto
    with "1.prems" have "n div 256 < 256 ^ j"
      by (simp add: less_mult_imp_div_less mult.commute)
    with "1.IH" False k show ?thesis
      by (simp add: natBytes.simps [of n])
  qed (simp add: natBytes.simps)
qed

lemma bytesNat_bound: "bytesNat bs < 256 ^ length bs"
proof (induction bs rule: rev_induct)
  case (snoc b bs)
  then have "256 * bytesNat bs + 256 \<le> 256 * 256 ^ length bs"
    by simp
  with unat_byte_less [of b] show ?case by simp
qed simp

end
