(* ===== verification/Encoding.thy ===== *)
theory Encoding
  imports Text_Codec
begin

text \<open>
  Addresses, ABI words, the signed digests and signature recovery of
  \<^verbatim>\<open>src/internal/channel/state.go\<close>. The hash (\<^verbatim>\<open>golang.org/x/crypto/sha3\<close>) and the curve
  (\<^verbatim>\<open>dcrec/secp256k1\<close>) are not part of the repository: they are the two fields of \<open>crypto\<close>, a
  parameter of every definition that hashes or recovers.
\<close>

subsection \<open>The errors of the package\<close>

text \<open>
  One constructor per exported error value; an error built by \<^verbatim>\<open>fmt.Errorf\<close> with \<^verbatim>\<open>%w\<close> is the error
  it wraps, one without is \<open>ErrText\<close>, carrying its fixed text.
\<close>

datatype chan_error =
    ErrBadAddress | ErrBadStateSignature | ErrHighS | ErrNotConserved | ErrNegative
  | ErrWrongChannel | ErrDuplicateHTLC | ErrHTLCExpiryPast | ErrNotOpen
  | ErrUnknownKind | ErrNoSuchLock | ErrLockExists | ErrPreimageBad | ErrLocksRemain
  | ErrAmountNotPositive | ErrNotAParty | ErrInsufficient | ErrNonceRegressed
  | ErrNoSuchChannel | ErrChannelExists | ErrStateUnreadable
  | ErrMalformed | ErrLocksUnsorted | ErrBadVersion | ErrSCPPFrameTooLarge
  | ErrConflicted | ErrNoPending | ErrIntentMismatch | ErrAlreadySigned | ErrNeedsReconcile
  | ErrChannelNotOnChain | ErrNotFromChain | ErrChainUnreachable
  | ErrChannelNotAdopted | ErrNotAParticipant
  | ErrStaleDeposit | ErrNotVerifiable | ErrVaultNotDurable | ErrIO
  | ErrText string

subsection \<open>Third-party cryptography\<close>

record crypto =
  keccak256 :: "bytes \<Rightarrow> bytes"
  RecoverCompact :: "bytes \<Rightarrow> bytes \<Rightarrow> bytes option"

definition keccak :: "crypto \<Rightarrow> bytes list \<Rightarrow> bytes" where
  "keccak cr parts = keccak256 cr (concat parts)"

definition copyArr :: "nat \<Rightarrow> bytes \<Rightarrow> bytes" where
  \<comment> \<open>\<^verbatim>\<open>copy(a[:], bs)\<close> into a zeroed array of the given length\<close>
  "copyArr n bs = take n bs @ replicate (n - length bs) 0"

lemma length_copyArr [simp, bytes_len]: "length (copyArr n bs) = n"
  by (simp add: copyArr_def)

lemma copyArr_id [simp]: "length bs = n \<Longrightarrow> copyArr n bs = bs"
  by (simp add: copyArr_def)

subsection \<open>Addresses\<close>

datatype address = Address (addrBytes: bytes)

definition wfAddr :: "address \<Rightarrow> bool" where
  "wfAddr a \<longleftrightarrow> length (addrBytes a) = 20"

definition addressLess :: "address \<Rightarrow> address \<Rightarrow> bool" where
  \<comment> \<open>\<^verbatim>\<open>Address.Less\<close>: \<^verbatim>\<open>bytes.Compare\<close> is the lexicographic order\<close>
  "addressLess a b \<longleftrightarrow> addrBytes a < addrBytes b"

instantiation address :: linorder
begin

definition less_address :: "address \<Rightarrow> address \<Rightarrow> bool" where
  "a < b \<longleftrightarrow> addressLess a b"

definition less_eq_address :: "address \<Rightarrow> address \<Rightarrow> bool" where
  "a \<le> b \<longleftrightarrow> addrBytes a \<le> addrBytes b"

instance
  by standard (auto simp: less_address_def addressLess_def less_eq_address_def address.expand)

end

definition ParseAddress :: "string \<Rightarrow> chan_error + address" where
  "ParseAddress s =
     (let s' = (if length s \<ge> 2 \<and> (take 2 s = ''0x'' \<or> take 2 s = ''0X'') then drop 2 s else s)
      in case hexDecode s' of
           None \<Rightarrow> Inl ErrBadAddress
         | Some raw \<Rightarrow> if length raw \<noteq> 20 then Inl ErrBadAddress else Inr (Address raw))"

definition addrHex :: "address \<Rightarrow> string" where
  "addrHex a = ''0x'' @ hexEncode (addrBytes a)"

definition IsZero :: "address \<Rightarrow> bool" where
  "IsZero a \<longleftrightarrow> addrBytes a = replicate 20 0"

definition SortParties :: "address \<Rightarrow> address \<Rightarrow> address \<times> address" where
  "SortParties x y = (if addressLess x y then (x, y) else (y, x))"

lemma ParseAddress_addrHex [simp]: "wfAddr a \<Longrightarrow> ParseAddress (addrHex a) = Inr a"
  by (cases a) (simp add: ParseAddress_def addrHex_def wfAddr_def)

lemma SortParties_commute: "SortParties x y = SortParties y x"
  by (auto simp: SortParties_def not_less less_address_def [symmetric] intro: antisym)

lemma SortParties_order: "SortParties x y = (a, b) \<Longrightarrow> a \<le> b \<and> {a, b} = {x, y}"
  by (auto simp: SortParties_def less_address_def [symmetric] split: if_splits)

subsection \<open>ABI words\<close>

definition abiWord :: "bytes \<Rightarrow> bytes" where
  "abiWord b = (let b' = (if length b > 32 then drop (length b - 32) b else b)
             in replicate (32 - length b') 0 @ b')"

definition u256 :: "bigint \<Rightarrow> bytes" where
  "u256 n = (case n of None \<Rightarrow> replicate 32 0 | Some v \<Rightarrow> abiWord (bigBytes v))"

definition u64word :: "u64 \<Rightarrow> bytes" where
  "u64word n = abiWord (natBytes (unat n))"

definition isU256 :: "int \<Rightarrow> bool" where
  "isU256 v \<longleftrightarrow> 0 \<le> v \<and> v < 2 ^ 256"

lemma length_abiWord [simp, bytes_len]: "length (abiWord b) = 32"
  by (simp add: abiWord_def Let_def)

lemma length_u256 [simp, bytes_len]: "length (u256 n) = 32"
  by (simp add: u256_def split: option.splits)

lemma length_u64word [simp, bytes_len]: "length (u64word n) = 32"
  by (simp add: u64word_def)

lemma bytesNat_abiWord: "length b \<le> 32 \<Longrightarrow> bytesNat (abiWord b) = bytesNat b"
  by (simp add: abiWord_def)

lemma u256_orZero: "u256 n = abiWord (bigBytes (orZero n))"
  by (cases n) (simp_all add: u256_def abiWord_def bigBytes_def natBytes.simps [of 0])

lemma bytesNat_u256: "isU256 (orZero n) \<Longrightarrow> bytesNat (u256 n) = nat (orZero n)"
proof -
  assume "isU256 (orZero n)"
  then have "nat \<bar>orZero n\<bar> < 256 ^ 32"
    by (simp add: isU256_def nat_less_iff)
  then have "length (natBytes (nat \<bar>orZero n\<bar>)) \<le> 32"
    by (rule length_natBytes)
  then show ?thesis
    using \<open>isU256 (orZero n)\<close>
    by (simp add: u256_orZero bytesNat_abiWord bigBytes_def isU256_def)
qed

lemma u256_inj:
  assumes "isU256 (orZero m)" "isU256 (orZero n)" "u256 m = u256 n"
  shows "orZero m = orZero n"
proof -
  have "nat (orZero m) = nat (orZero n)"
    using assms by (metis bytesNat_u256)
  with assms show ?thesis by (simp add: isU256_def nat_eq_iff)
qed

lemma bytesNat_u64word: "bytesNat (u64word n) = unat n"
proof -
  have "unat n < 256 ^ 32"
    using unsigned_less [of n] by (rule order.strict_trans) simp
  then show ?thesis
    by (simp add: u64word_def bytesNat_abiWord length_natBytes)
qed

lemma u64word_inj: "u64word m = u64word n \<Longrightarrow> m = n"
  by (metis bytesNat_u64word word_unat_eq_iff)

lemma abiWord_addr: "wfAddr a \<Longrightarrow> abiWord (addrBytes a) = replicate 12 0 @ addrBytes a"
  by (simp add: abiWord_def wfAddr_def)

interpretation fw_u256: fixed_width "\<lambda>v. u256 (Some v)" 32 isU256
  using u256_inj by unfold_locales (simp, metis orZero_simps(2))

interpretation fw_u64: fixed_width u64word 32 "\<lambda>_. True"
  by unfold_locales (simp, rule u64word_inj)

interpretation fw_addr: fixed_width "\<lambda>a. abiWord (addrBytes a)" 32 wfAddr
proof unfold_locales
  show "wfAddr x \<Longrightarrow> length (abiWord (addrBytes x)) = 32" for x
    by simp
  show "wfAddr x \<Longrightarrow> wfAddr y \<Longrightarrow> abiWord (addrBytes x) = abiWord (addrBytes y) \<Longrightarrow> x = y" for x y
    by (simp add: abiWord_addr address.expand)
qed

interpretation fw_id: fixed_width "\<lambda>i :: bytes32. i" 32 "\<lambda>i. length i = 32"
  by unfold_locales auto

subsection \<open>Channel identifiers and digests\<close>

definition DeriveChannelID :: "crypto \<Rightarrow> address \<Rightarrow> address \<Rightarrow> bytes32" where
  "DeriveChannelID cr x y =
     (case SortParties x y of
        (a, b) \<Rightarrow> copyArr 32 (keccak cr [abiWord (addrBytes a), abiWord (addrBytes b)]))"

definition StateDigestV1 ::
  "crypto \<Rightarrow> bigint \<Rightarrow> address \<Rightarrow> bytes32 \<Rightarrow> u64 \<Rightarrow> bigint \<Rightarrow> bigint \<Rightarrow> bytes32" where
  "StateDigestV1 cr chainID contract i nonce balanceA balanceB =
     copyArr 32 (keccak cr
       [u256 chainID, abiWord (addrBytes contract), i, u64word nonce, u256 balanceA, u256 balanceB])"

definition StateDigest ::
  "crypto \<Rightarrow> u8 \<Rightarrow> bigint \<Rightarrow> address \<Rightarrow> bytes32 \<Rightarrow> u64 \<Rightarrow> bigint \<Rightarrow> bigint \<Rightarrow> bytes32
    \<Rightarrow> bigint \<Rightarrow> bigint \<Rightarrow> bytes32" where
  "StateDigest cr op chainID contract i nonce balanceA balanceB htlcRoot withdrawA withdrawB =
     copyArr 32 (keccak cr
       [u256 (Some (uint op)), u256 chainID, abiWord (addrBytes contract), i, u64word nonce,
        u256 balanceA, u256 balanceB, htlcRoot, u256 withdrawA, u256 withdrawB])"

definition eip191Prefix :: bytes where
  \<comment> \<open>the byte 0x19, then "Ethereum Signed Message:", a newline and "32"\<close>
  "eip191Prefix = map (\<lambda>c. of_nat (of_char c))
     (char_of (25 :: nat) # ''Ethereum Signed Message:'' @ [char_of (10 :: nat)] @ ''32'')"

definition PersonalDigest :: "crypto \<Rightarrow> bytes32 \<Rightarrow> bytes32" where
  "PersonalDigest cr raw = copyArr 32 (keccak cr [eip191Prefix, raw])"

definition halfOrder :: nat where
  "halfOrder = 0x7FFFFFFFFFFFFFFFFFFFFFFFFFFFFFFF5D576E7357A4501DDFE92F46681B20A0"

definition RecoverSigner :: "crypto \<Rightarrow> bytes32 \<Rightarrow> bytes \<Rightarrow> chan_error + address" where
  "RecoverSigner cr raw sig =
     (if length sig \<noteq> 65 then Inl ErrBadStateSignature
      else if bytesNat (take 32 (drop 32 sig)) > halfOrder then Inl ErrHighS
      else
        let v = sig ! 64 in
        if v \<noteq> 0 \<and> v \<noteq> 1 \<and> v \<noteq> 27 \<and> v \<noteq> 28 then Inl ErrBadStateSignature
        else
          let v' = (if v = 0 \<or> v = 1 then v + 27 else v);
              compact = v' # take 32 sig @ take 32 (drop 32 sig)
          in case RecoverCompact cr compact (PersonalDigest cr raw) of
               None \<Rightarrow> Inl ErrBadStateSignature
             | Some uncompressed \<Rightarrow>
                 let addr = Address (copyArr 20 (drop 12 (keccak cr [drop 1 uncompressed])))
                 in if IsZero addr then Inl ErrBadStateSignature else Inr addr)"

lemma length_StateDigest [simp, bytes_len]:
  "length (StateDigest cr op c k i n a b r wa wb) = 32"
  by (simp add: StateDigest_def)

lemma RecoverSigner_InrD:
  assumes "RecoverSigner cr raw sig = Inr a"
  shows "length sig = 65" "bytesNat (take 32 (drop 32 sig)) \<le> halfOrder" "\<not> IsZero a" "wfAddr a"
  using assms
  by (auto simp: RecoverSigner_def Let_def wfAddr_def split: if_splits option.splits)

lemma RecoverSigner_split:
  assumes "length r = 32" "length s = 32" "bytesNat s \<le> halfOrder"
  shows "RecoverSigner cr raw (r @ s @ [v]) =
    (if v \<noteq> 0 \<and> v \<noteq> 1 \<and> v \<noteq> 27 \<and> v \<noteq> 28 then Inl ErrBadStateSignature
     else case RecoverCompact cr ((if v = 0 \<or> v = 1 then v + 27 else v) # r @ s) (PersonalDigest cr raw) of
        None \<Rightarrow> Inl ErrBadStateSignature
      | Some pub \<Rightarrow>
          let addr = Address (copyArr 20 (drop 12 (keccak cr [drop 1 pub])))
          in if IsZero addr then Inl ErrBadStateSignature else Inr addr)"
proof -
  have "(r @ s @ [v]) ! 64 = v"
    using assms by (simp add: nth_append)
  then show ?thesis
    using assms by (simp add: RecoverSigner_def)
qed

text \<open>The ten words a digest hashes determine every field that was signed.\<close>

definition digestWords ::
  "u8 \<Rightarrow> bigint \<Rightarrow> address \<Rightarrow> bytes32 \<Rightarrow> u64 \<Rightarrow> bigint \<Rightarrow> bigint \<Rightarrow> bytes32 \<Rightarrow> bigint \<Rightarrow> bigint
    \<Rightarrow> bytes" where
  "digestWords op chainID contract i nonce balanceA balanceB htlcRoot withdrawA withdrawB =
     concat [u256 (Some (uint op)), u256 chainID, abiWord (addrBytes contract), i, u64word nonce,
        u256 balanceA, u256 balanceB, htlcRoot, u256 withdrawA, u256 withdrawB]"

lemma StateDigest_words:
  "StateDigest cr op c k i n a b r wa wb
     = copyArr 32 (keccak256 cr (digestWords op c k i n a b r wa wb))"
  by (simp add: StateDigest_def digestWords_def keccak_def)

lemma digestWords_inj:
  assumes "digestWords op c k i n a b r wa wb = digestWords op' c' k' i' n' a' b' r' wa' wb'"
    and "wfAddr k" "wfAddr k'"
    and len: "length i = 32" "length i' = 32" "length r = 32" "length r' = 32"
    and rng: "\<forall>v \<in> {c, c', a, a', b, b', wa, wa', wb, wb'}. isU256 (orZero v)"
  shows "op = op' \<and> orZero c = orZero c' \<and> k = k' \<and> i = i' \<and> n = n' \<and> orZero a = orZero a'
    \<and> orZero b = orZero b' \<and> r = r' \<and> orZero wa = orZero wa' \<and> orZero wb = orZero wb'"
proof -
  have op: "u256 (Some (uint op)) = u256 (Some (uint op')) \<Longrightarrow> op = op'"
  proof -
    have "isU256 (uint (w :: u8))" for w
      using uint_lt2p [of w] uint_ge_0 [of w] by (simp add: isU256_def)
    then show "u256 (Some (uint op)) = u256 (Some (uint op')) \<Longrightarrow> op = op'"
      using u256_inj [of "Some (uint op)" "Some (uint op')"] by (simp add: word_uint_eq_iff)
  qed
  have kk: "abiWord (addrBytes k) = abiWord (addrBytes k') \<Longrightarrow> k = k'"
    using fw_addr.enc_unique assms(2,3) by blast
  from assms(1) show ?thesis
    unfolding digestWords_def
    using op kk u64word_inj [of n n'] u256_inj [of c c'] u256_inj [of a a'] u256_inj [of b b']
      u256_inj [of wa wa'] u256_inj [of wb wb'] rng len
    by simp
qed

end
