(* ===== verification/Channel_Types.thy ===== *)
theory Channel_Types
  imports Encoding
begin

text \<open>
  The data of the payment channel, as declared in \<^verbatim>\<open>state.go\<close>, \<^verbatim>\<open>transition.go\<close>, \<^verbatim>\<open>history.go\<close> and
  \<^verbatim>\<open>payout.go\<close> of \<^verbatim>\<open>src/internal/channel\<close>: locks, states, signed states, proposals, the payment
  log, the payout record and the channel itself. Go's string-valued enumerations are datatypes; a
  value outside the declared constants is the \<open>Other\<close> constructor where the code can meet one.
\<close>

subsection \<open>Locks and states\<close>

record HTLC =
  h_ID :: bytes32
  h_Hash :: bytes32
  h_Amount :: bigint
  h_Expiry :: int
  h_PayerIsA :: bool

record State =
  st_Channel :: bytes32
  st_Nonce :: u64
  st_BalanceA :: bigint
  st_BalanceB :: bigint
  st_Pending :: "HTLC list"
  st_WithdrawA :: bigint
  st_WithdrawB :: bigint
  st_Op :: u8

definition emptyState :: State where
  \<comment> \<open>Go's zero value \<^verbatim>\<open>State{}\<close>\<close>
  "emptyState = \<lparr> st_Channel = zero32, st_Nonce = 0, st_BalanceA = None, st_BalanceB = None,
     st_Pending = [], st_WithdrawA = None, st_WithdrawB = None, st_Op = 0 \<rparr>"

record SignedState =
  ss_State :: State
  ss_SigA :: bytes
  ss_SigB :: bytes

definition emptySigned :: SignedState where
  "emptySigned = \<lparr> ss_State = emptyState, ss_SigA = [], ss_SigB = [] \<rparr>"

subsection \<open>Transitions\<close>

datatype TransitionKind =
    KindPay | KindLockAdd | KindLockSettle | KindLockRefund | KindClose | KindCheckpoint
  | KindOther string

record StateTransition =
  tr_Kind :: TransitionKind
  tr_Amount :: bigint
  tr_LockID :: bytes32
  tr_Hash :: bytes32
  tr_Expiry :: int
  tr_Preimage :: bytes32

subsection \<open>Status and operation domains\<close>

type_synonym Status = u8

definition StatusNone :: Status where "StatusNone = 0"
definition StatusOpen :: Status where "StatusOpen = 1"
definition StatusClosing :: Status where "StatusClosing = 2"
definition StatusSettled :: Status where "StatusSettled = 3"

lemmas Status_defs = StatusNone_def StatusOpen_def StatusClosing_def StatusSettled_def

definition OpState :: u8 where "OpState = 1"
definition OpCoopClose :: u8 where "OpCoopClose = 2"
definition OpCheckpoint :: u8 where "OpCheckpoint = 3"

lemmas Op_defs = OpState_def OpCoopClose_def OpCheckpoint_def

subsection \<open>Proposals, conflicts and the payment log\<close>

record PendingProposal =
  pp_Intent :: bytes32
  pp_Transition :: StateTransition
  pp_State :: State
  pp_Sig :: bytes

record ConflictRecord =
  cf_Nonce :: u64
  cf_Mine :: SignedState
  cf_Theirs :: SignedState

datatype PayStatus =
  PayInitiated | PayInFlight | PayCompleted | PayRefunded | PayRejected | PayUnknown

datatype PayRoute = RouteUnset | RouteDirect | RouteRouted

record PaymentRecord =
  pr_Intent :: bytes32
  pr_Kind :: TransitionKind
  pr_Route :: PayRoute
  pr_Incoming :: bool
  pr_Amount :: string
  pr_Status :: PayStatus
  pr_LockID :: bytes32
  pr_Nonce :: u64
  pr_CreatedAt :: int
  pr_ResolvedAt :: int
  pr_Detail :: string

subsection \<open>Payout record\<close>

datatype PayoutMode = PayoutOnClose | PayoutOnInterval | PayoutModeOther string

record PayoutPolicy =
  py_Mode :: PayoutMode
  py_IntervalSeconds :: int

datatype PayoutPhase = PhaseUnset | PhaseNone | PhaseSubmitted | PhaseConfirmed | PhaseFailed

record PayoutRecord =
  po_Policy :: PayoutPolicy
  po_Phase :: PayoutPhase
  po_TxHash :: string
  po_Nonce :: u64
  po_SubmittedAt :: int
  po_ConfirmedAt :: int
  po_LastAttemptAt :: int
  po_Attempts :: int
  po_LastError :: string
  po_DueAt :: int

subsection \<open>The channel\<close>

record Channel =
  ch_ID :: bytes32
  ch_PartyA :: address
  ch_PartyB :: address
  ch_DepositA :: bigint
  ch_DepositB :: bigint
  ch_Status :: Status
  ch_ChainID :: bigint
  ch_Contract :: address
  ch_Latest :: SignedState
  ch_Signed :: "u64 \<rightharpoonup> bytes32"
  ch_Applied :: "bytes32 \<rightharpoonup> u64"
  ch_Pending :: "PendingProposal option"
  ch_Conflict :: "ConflictRecord option"
  ch_History :: "PaymentRecord list"
  ch_Payout :: "PayoutRecord option"
  ch_NeedsReconcile :: bool

abbreviation latestNonce :: "Channel \<Rightarrow> u64" where
  "latestNonce c \<equiv> st_Nonce (ss_State (ch_Latest c))"

abbreviation latestState :: "Channel \<Rightarrow> State" where
  "latestState c \<equiv> ss_State (ch_Latest c)"

end
