(* ===== verification/Channel_State.thy ===== *)
theory Channel_State
  imports Channel_Types
begin

text \<open>
  The channel state machine of \<^verbatim>\<open>src/internal/channel/state.go\<close>: the lock root and digest of a
  state, conservation, the signed-nonce ledger, and \<^verbatim>\<open>Channel.Accept\<close>, the one function through
  which a state becomes a channel's latest.
\<close>

subsection \<open>Locks and the lock root\<close>

definition HTLC_Matches :: "crypto \<Rightarrow> HTLC \<Rightarrow> bytes32 \<Rightarrow> bool" where
  "HTLC_Matches cr h preimage \<longleftrightarrow> copyArr 32 (keccak cr [preimage]) = h_Hash h"

definition st_op :: "State \<Rightarrow> u8" where
  "st_op s = (if st_Op s = 0 then OpState else st_Op s)"

definition htlcBytes :: "HTLC \<Rightarrow> bytes" where
  "htlcBytes h = h_ID h @ h_Hash h @ u256 (h_Amount h) @ abiWord (bigBytes (h_Expiry h))
     @ [if h_PayerIsA h then 1 else 0]"

definition HTLCRoot :: "crypto \<Rightarrow> State \<Rightarrow> bytes32" where
  "HTLCRoot cr s =
     (if st_Pending s = [] then zero32
      else copyArr 32 (keccak cr (map htlcBytes (sort_key h_ID (st_Pending s)))))"

definition Digest :: "crypto \<Rightarrow> State \<Rightarrow> bigint \<Rightarrow> address \<Rightarrow> bytes32" where
  "Digest cr s chainID contract =
     StateDigest cr (st_op s) chainID contract (st_Channel s) (st_Nonce s)
       (st_BalanceA s) (st_BalanceB s) (HTLCRoot cr s) (st_WithdrawA s) (st_WithdrawB s)"

subsection \<open>Conservation\<close>

definition lockedTotal :: "State \<Rightarrow> int" where
  "lockedTotal s = sum_list (map (\<lambda>h. orZero (h_Amount h)) (st_Pending s))"

definition stateTotal :: "State \<Rightarrow> int" where
  \<comment> \<open>the left-hand side of \<^verbatim>\<open>Conserved\<close>\<close>
  "stateTotal s = orZero (st_BalanceA s) + orZero (st_BalanceB s) + lockedTotal s
     + orZero (st_WithdrawA s) + orZero (st_WithdrawB s)"

definition Conserved :: "State \<Rightarrow> bigint \<Rightarrow> bigint \<Rightarrow> bool" where
  "Conserved s depositA depositB \<longleftrightarrow> stateTotal s = orZero depositA + orZero depositB"

definition anyNegative :: "bigint list \<Rightarrow> bool" where
  "anyNegative ns \<longleftrightarrow> list_ex (\<lambda>n. n \<noteq> None \<and> orZero n < 0) ns"

definition Complete :: "SignedState \<Rightarrow> bool" where
  "Complete ss \<longleftrightarrow> length (ss_SigA ss) = 65 \<and> length (ss_SigB ss) = 65"

subsection \<open>Channel bookkeeping\<close>

definition NewChannel :: "crypto \<Rightarrow> bigint \<Rightarrow> address \<Rightarrow> address \<Rightarrow> address \<Rightarrow> Channel" where
  "NewChannel cr chainID contract x y =
     (case SortParties x y of (a, b) \<Rightarrow>
       \<lparr> ch_ID = DeriveChannelID cr a b, ch_PartyA = a, ch_PartyB = b,
         ch_DepositA = Some 0, ch_DepositB = Some 0, ch_Status = StatusOpen,
         ch_ChainID = chainID, ch_Contract = contract, ch_Latest = emptySigned,
         ch_Signed = Map.empty, ch_Applied = Map.empty, ch_Pending = None, ch_Conflict = None,
         ch_History = [], ch_Payout = None, ch_NeedsReconcile = False \<rparr>)"

definition IsA :: "Channel \<Rightarrow> address \<Rightarrow> bool" where
  "IsA c addr \<longleftrightarrow> addr = ch_PartyA c"

definition Party :: "Channel \<Rightarrow> bool \<Rightarrow> address" where
  "Party c isA = (if isA then ch_PartyA c else ch_PartyB c)"

definition BalanceOf :: "Channel \<Rightarrow> address \<Rightarrow> int" where
  "BalanceOf c addr =
     (if IsA c addr then orZero (st_BalanceA (latestState c))
      else orZero (st_BalanceB (latestState c)))"

definition HasSigned :: "Channel \<Rightarrow> u64 \<Rightarrow> bytes32 option" where
  "HasSigned c nonce = ch_Signed c nonce"

definition pruneSigned :: "u64 \<Rightarrow> (u64 \<rightharpoonup> bytes32) \<Rightarrow> (u64 \<rightharpoonup> bytes32)" where
  "pruneSigned latest m = (\<lambda>n. if n \<le> latest then None else m n)"

definition NoteSigned :: "Channel \<Rightarrow> u64 \<Rightarrow> bytes32 \<Rightarrow> Channel" where
  "NoteSigned c nonce digest =
     c\<lparr>ch_Signed := pruneSigned (latestNonce c) ((ch_Signed c)(nonce \<mapsto> digest))\<rparr>"

definition NoteApplied :: "Channel \<Rightarrow> bytes32 \<Rightarrow> u64 \<Rightarrow> Channel" where
  "NoteApplied c intent nonce = c\<lparr>ch_Applied := (ch_Applied c)(intent \<mapsto> nonce)\<rparr>"

definition AppliedAt :: "Channel \<Rightarrow> bytes32 \<Rightarrow> u64 option" where
  "AppliedAt c intent = ch_Applied c intent"

subsection \<open>Accept\<close>

text \<open>Check 4: the loop that looks for a repeated id and then for an unset expiry, in slice order.\<close>

fun locksWellFormed :: "bytes32 list \<Rightarrow> HTLC list \<Rightarrow> chan_error + unit" where
  "locksWellFormed seen [] = Inr ()"
| "locksWellFormed seen (h # hs) =
     (if h_ID h \<in> set seen then Inl ErrDuplicateHTLC
      else if h_Expiry h \<le> 0 then Inl ErrHTLCExpiryPast
      else locksWellFormed (h_ID h # seen) hs)"

definition signedByParties :: "crypto \<Rightarrow> Channel \<Rightarrow> bytes32 \<Rightarrow> SignedState \<Rightarrow> chan_error + unit" where
  \<comment> \<open>the end of check 6: both signatures recover to the two parties\<close>
  "signedByParties cr c raw cand =
     bindR (RecoverSigner cr raw (ss_SigA cand)) (\<lambda>signerA.
     bindR (RecoverSigner cr raw (ss_SigB cand)) (\<lambda>signerB.
       if signerA \<noteq> ch_PartyA c \<or> signerB \<noteq> ch_PartyB c then Inl ErrBadStateSignature
       else Inr ()))"

definition isFirst :: "Channel \<Rightarrow> bool" where
  \<comment> \<open>no state has been agreed yet: \<^verbatim>\<open>Latest.State.Nonce == 0 && !Latest.Complete()\<close>\<close>
  "isFirst c \<longleftrightarrow> latestNonce c = 0 \<and> \<not> Complete (ch_Latest c)"

definition Accept :: "crypto \<Rightarrow> Channel \<Rightarrow> SignedState \<Rightarrow> chan_error + Channel" where
  "Accept cr c cand =
     (let st = ss_State cand in
      if ch_Status c \<noteq> StatusOpen then Inl ErrNotOpen
      else if st_Channel st \<noteq> ch_ID c then Inl ErrWrongChannel
      else if st_Nonce st \<le> latestNonce c \<and> \<not> isFirst c then Inl ErrNonceRegressed
      else if anyNegative [st_BalanceA st, st_BalanceB st] then Inl ErrNegative
      else if list_ex (\<lambda>h. h_Amount h = None \<or> orZero (h_Amount h) \<le> 0) (st_Pending st)
        then Inl ErrNegative
      else bindR (locksWellFormed [] (st_Pending st)) (\<lambda>_.
        if \<not> Conserved st (ch_DepositA c) (ch_DepositB c) then Inl ErrNotConserved
        else if \<not> Complete cand then Inl ErrBadStateSignature
        else bindR (signedByParties cr c (Digest cr st (ch_ChainID c) (ch_Contract c)) cand) (\<lambda>_.
          Inr (c\<lparr>ch_Latest := cand, ch_Signed := pruneSigned (st_Nonce st) (ch_Signed c)\<rparr>))))"

definition ReplayKey :: "bytes32 \<Rightarrow> u64 \<Rightarrow> string" where
  "ReplayKey i nonce = hexEncode i @ '':'' @ natDec (unat nonce)"

subsection \<open>What Accept guarantees\<close>

text \<open>The validity a state must have to be stored, and the clauses of it that \<^verbatim>\<open>Accept\<close> establishes.\<close>

definition locksOK :: "HTLC list \<Rightarrow> bool" where
  "locksOK hs \<longleftrightarrow> distinct (map h_ID hs) \<and> (\<forall>h \<in> set hs. 0 < orZero (h_Amount h) \<and> 0 < h_Expiry h)"

definition signedBoth :: "crypto \<Rightarrow> Channel \<Rightarrow> SignedState \<Rightarrow> bool" where
  "signedBoth cr c ss \<longleftrightarrow>
     (let raw = Digest cr (ss_State ss) (ch_ChainID c) (ch_Contract c) in
      RecoverSigner cr raw (ss_SigA ss) = Inr (ch_PartyA c) \<and>
      RecoverSigner cr raw (ss_SigB ss) = Inr (ch_PartyB c))"

definition validState :: "crypto \<Rightarrow> Channel \<Rightarrow> SignedState \<Rightarrow> bool" where
  "validState cr c ss \<longleftrightarrow>
     st_Channel (ss_State ss) = ch_ID c \<and>
     0 \<le> orZero (st_BalanceA (ss_State ss)) \<and> 0 \<le> orZero (st_BalanceB (ss_State ss)) \<and>
     locksOK (st_Pending (ss_State ss)) \<and>
     Conserved (ss_State ss) (ch_DepositA c) (ch_DepositB c) \<and>
     Complete ss \<and> signedBoth cr c ss"

lemma locksWellFormed_iff:
  "locksWellFormed seen hs = Inr () \<longleftrightarrow>
     distinct (map h_ID hs) \<and> set (map h_ID hs) \<inter> set seen = {} \<and> (\<forall>h \<in> set hs. 0 < h_Expiry h)"
  by (induction hs arbitrary: seen) auto

lemma signedByParties_iff:
  "signedByParties cr c raw cand = Inr () \<longleftrightarrow>
     RecoverSigner cr raw (ss_SigA cand) = Inr (ch_PartyA c) \<and>
     RecoverSigner cr raw (ss_SigB cand) = Inr (ch_PartyB c)"
  by (auto simp: signedByParties_def res_simps)

lemma anyNegative_iff: "anyNegative [a, b] \<longleftrightarrow> orZero a < 0 \<or> orZero b < 0"
  by (cases a; cases b) (auto simp: anyNegative_def)

lemma badAmount_iff: "h_Amount h = None \<or> orZero (h_Amount h) \<le> 0 \<longleftrightarrow> orZero (h_Amount h) \<le> 0"
  by (cases "h_Amount h") auto

lemma Accept_iff:
  "Accept cr c cand = Inr c' \<longleftrightarrow>
     ch_Status c = StatusOpen \<and>
     (latestNonce c < st_Nonce (ss_State cand) \<or> isFirst c) \<and>
     validState cr c cand \<and>
     c' = c\<lparr>ch_Latest := cand, ch_Signed := pruneSigned (st_Nonce (ss_State cand)) (ch_Signed c)\<rparr>"
  by (auto simp: Accept_def Let_def validState_def locksOK_def signedBoth_def res_simps
      anyNegative_iff badAmount_iff list_ex_iff locksWellFormed_iff signedByParties_iff not_le not_less)

lemma lockedTotal_nonneg: "locksOK (st_Pending s) \<Longrightarrow> 0 \<le> lockedTotal s"
  unfolding locksOK_def lockedTotal_def by (rule sum_list_nonneg) auto

lemma Accept_latest:
  "Accept cr c cand = Inr c' \<Longrightarrow> ch_Latest c' = cand"
  by (simp add: Accept_iff)

text \<open>Everything but the latest state and the ledger is left alone.\<close>

lemma Accept_frame:
  assumes "Accept cr c cand = Inr c'"
  shows "ch_ID c' = ch_ID c" "ch_PartyA c' = ch_PartyA c" "ch_PartyB c' = ch_PartyB c"
    "ch_DepositA c' = ch_DepositA c" "ch_DepositB c' = ch_DepositB c" "ch_Status c' = ch_Status c"
    "ch_ChainID c' = ch_ChainID c" "ch_Contract c' = ch_Contract c" "ch_Applied c' = ch_Applied c"
    "ch_Pending c' = ch_Pending c" "ch_Conflict c' = ch_Conflict c" "ch_History c' = ch_History c"
    "ch_Payout c' = ch_Payout c" "ch_NeedsReconcile c' = ch_NeedsReconcile c"
  using assms by (auto simp: Accept_iff)

lemma Accept_nonce_mono: "Accept cr c cand = Inr c' \<Longrightarrow> latestNonce c \<le> latestNonce c'"
  by (auto simp: Accept_iff isFirst_def)

lemma validState_frame:
  "ch_ID c' = ch_ID c \<Longrightarrow> ch_PartyA c' = ch_PartyA c \<Longrightarrow> ch_PartyB c' = ch_PartyB c \<Longrightarrow>
   ch_DepositA c' = ch_DepositA c \<Longrightarrow> ch_DepositB c' = ch_DepositB c \<Longrightarrow>
   ch_ChainID c' = ch_ChainID c \<Longrightarrow> ch_Contract c' = ch_Contract c \<Longrightarrow>
   validState cr c' ss = validState cr c ss"
  by (simp add: validState_def signedBoth_def)

lemma pruneSigned_apply [simp]:
  "pruneSigned k m n = (if n \<le> k then None else m n)"
  by (simp add: pruneSigned_def)

end
