(* ===== verification/Transition.thy ===== *)
theory Transition
  imports Channel_State
begin

text \<open>
  \<^verbatim>\<open>src/internal/channel/transition.go\<close>: the deterministic rule that turns a payment intent into the
  next state, and the comparison a payee makes between the state it was sent and the state the
  transition produces.
\<close>

subsection \<open>Balance and lock-set helpers\<close>

definition requirePositive :: "bigint \<Rightarrow> chan_error + int" where
  \<comment> \<open>yields the dereferenced amount, so that no later step can meet a nil one\<close>
  "requirePositive n =
     (case n of None \<Rightarrow> Inl ErrAmountNotPositive
      | Some v \<Rightarrow> if v \<le> 0 then Inl ErrAmountNotPositive else Inr v)"

definition balance :: "State \<Rightarrow> bool \<Rightarrow> int" where
  "balance s sideA = orZero (if sideA then st_BalanceA s else st_BalanceB s)"

definition setBalance :: "State \<Rightarrow> bool \<Rightarrow> int \<Rightarrow> State" where
  "setBalance s sideA v = (if sideA then s\<lparr>st_BalanceA := Some v\<rparr> else s\<lparr>st_BalanceB := Some v\<rparr>)"

definition takeFrom :: "State \<Rightarrow> bool \<Rightarrow> int \<Rightarrow> chan_error + State" where
  "takeFrom s fromA amount =
     (if balance s fromA < amount then Inl ErrInsufficient
      else Inr (setBalance s fromA (balance s fromA - amount)))"

definition give :: "State \<Rightarrow> bool \<Rightarrow> int \<Rightarrow> State" where
  "give s toA amount = setBalance s toA (balance s toA + amount)"

definition move :: "State \<Rightarrow> bool \<Rightarrow> int \<Rightarrow> chan_error + State" where
  "move s fromA amount = bindR (takeFrom s fromA amount) (\<lambda>s'. Inr (give s' (\<not> fromA) amount))"

definition clonePending :: "HTLC list \<Rightarrow> HTLC list" where
  "clonePending hs = map (\<lambda>h. h\<lparr>h_Amount := Some (orZero (h_Amount h))\<rparr>) hs"

fun findLock :: "HTLC list \<Rightarrow> bytes32 \<Rightarrow> nat option" where
  "findLock [] i = None"
| "findLock (h # hs) i = (if h_ID h = i then Some 0 else map_option Suc (findLock hs i))"

fun lessID :: "bytes32 \<Rightarrow> bytes32 \<Rightarrow> bool" where
  "lessID (a # as) (b # bs) = (if a \<noteq> b then a < b else lessID as bs)"
| "lessID _ _ = False"

fun insertLock :: "HTLC list \<Rightarrow> HTLC \<Rightarrow> HTLC list" where
  "insertLock [] add = [add]"
| "insertLock (h # hs) add =
     (if lessID (h_ID add) (h_ID h) then add # h # hs else h # insertLock hs add)"

definition removeAt :: "HTLC list \<Rightarrow> nat \<Rightarrow> HTLC list" where
  "removeAt hs i = take i hs @ drop (Suc i) hs"

subsection \<open>Apply\<close>

definition opForKind :: "TransitionKind \<Rightarrow> u8" where
  "opForKind k = (case k of KindCheckpoint \<Rightarrow> OpCheckpoint | KindClose \<Rightarrow> OpCoopClose | _ \<Rightarrow> OpState)"

definition baseState :: "Channel \<Rightarrow> State" where
  \<comment> \<open>the state \<^verbatim>\<open>next\<close> before the switch on the kind\<close>
  "baseState ch =
     (let prev = latestState ch in
      \<lparr> st_Channel = ch_ID ch,
        st_Nonce = st_Nonce prev + 1,
        st_BalanceA = Some (orZero (if isFirst ch then ch_DepositA ch else st_BalanceA prev)),
        st_BalanceB = Some (orZero (if isFirst ch then ch_DepositB ch else st_BalanceB prev)),
        st_Pending = clonePending (st_Pending prev),
        st_WithdrawA = None, st_WithdrawB = None, st_Op = 0 \<rparr>)"

definition applyKind :: "crypto \<Rightarrow> StateTransition \<Rightarrow> State \<Rightarrow> bool \<Rightarrow> chan_error + State" where
  \<comment> \<open>the switch on the kind\<close>
  "applyKind cr t nxt proposerIsA =
     (case tr_Kind t of
        KindPay \<Rightarrow>
          bindR (requirePositive (tr_Amount t)) (\<lambda>amt. move nxt proposerIsA amt)
      | KindLockAdd \<Rightarrow>
          bindR (requirePositive (tr_Amount t)) (\<lambda>amt.
            if tr_Expiry t \<le> 0 then Inl ErrHTLCExpiryPast
            else if findLock (st_Pending nxt) (tr_LockID t) \<noteq> None then Inl ErrLockExists
            else bindR (takeFrom nxt proposerIsA amt) (\<lambda>s.
              Inr (s\<lparr>st_Pending := insertLock (st_Pending s)
                \<lparr> h_ID = tr_LockID t, h_Hash = tr_Hash t, h_Amount = Some amt,
                  h_Expiry = tr_Expiry t, h_PayerIsA = proposerIsA \<rparr>\<rparr>)))
      | KindLockSettle \<Rightarrow>
          (case findLock (st_Pending nxt) (tr_LockID t) of
             None \<Rightarrow> Inl ErrNoSuchLock
           | Some i \<Rightarrow>
               let lock = st_Pending nxt ! i in
               if \<not> HTLC_Matches cr lock (tr_Preimage t) then Inl ErrPreimageBad
               else let s = give nxt (\<not> h_PayerIsA lock) (orZero (h_Amount lock))
                    in Inr (s\<lparr>st_Pending := removeAt (st_Pending s) i\<rparr>))
      | KindLockRefund \<Rightarrow>
          (case findLock (st_Pending nxt) (tr_LockID t) of
             None \<Rightarrow> Inl ErrNoSuchLock
           | Some i \<Rightarrow>
               let lock = st_Pending nxt ! i;
                   s = give nxt (h_PayerIsA lock) (orZero (h_Amount lock))
               in Inr (s\<lparr>st_Pending := removeAt (st_Pending s) i\<rparr>))
      | KindCheckpoint \<Rightarrow>
          bindR (requirePositive (tr_Amount t)) (\<lambda>amt.
            bindR (takeFrom nxt proposerIsA amt) (\<lambda>s.
              Inr (if proposerIsA then s\<lparr>st_WithdrawA := Some amt\<rparr>
                   else s\<lparr>st_WithdrawB := Some amt\<rparr>)))
      | KindClose \<Rightarrow> if st_Pending nxt \<noteq> [] then Inl ErrLocksRemain else Inr nxt
      | KindOther _ \<Rightarrow> Inl ErrUnknownKind)"

definition Apply :: "crypto \<Rightarrow> StateTransition \<Rightarrow> Channel \<Rightarrow> address \<Rightarrow> chan_error + State" where
  "Apply cr t ch proposer =
     (if proposer \<noteq> ch_PartyA ch \<and> proposer \<noteq> ch_PartyB ch then Inl ErrNotAParty
      else bindR (applyKind cr t (baseState ch) (IsA ch proposer)) (\<lambda>nxt.
        Inr (nxt\<lparr>st_Op := opForKind (tr_Kind t)\<rparr>)))"

subsection \<open>Matches and Equal\<close>

definition lockEqual :: "HTLC \<Rightarrow> HTLC \<Rightarrow> bool" where
  "lockEqual a b \<longleftrightarrow> h_ID a = h_ID b \<and> h_Hash a = h_Hash b
     \<and> orZero (h_Amount a) = orZero (h_Amount b) \<and> h_Expiry a = h_Expiry b
     \<and> h_PayerIsA a = h_PayerIsA b"

definition StateEqual :: "State \<Rightarrow> State \<Rightarrow> chan_error + unit" where
  \<comment> \<open>\<^verbatim>\<open>State.Equal\<close>: the texts of the refusals are kept, their operands are not\<close>
  "StateEqual s s' =
     (if st_Channel s \<noteq> st_Channel s' then Inl (ErrText ''channel differs'')
      else if st_Nonce s \<noteq> st_Nonce s' then Inl (ErrText ''nonce'')
      else if orZero (st_BalanceA s) \<noteq> orZero (st_BalanceA s') then Inl (ErrText ''balanceA'')
      else if orZero (st_BalanceB s) \<noteq> orZero (st_BalanceB s') then Inl (ErrText ''balanceB'')
      else if orZero (st_WithdrawA s) \<noteq> orZero (st_WithdrawA s') then Inl (ErrText ''withdrawA'')
      else if orZero (st_WithdrawB s) \<noteq> orZero (st_WithdrawB s') then Inl (ErrText ''withdrawB'')
      else if length (st_Pending s) \<noteq> length (st_Pending s') then Inl (ErrText ''lock count'')
      else if \<not> list_all2 lockEqual (st_Pending s) (st_Pending s') then Inl (ErrText ''lock differs'')
      else Inr ())"

definition Matches ::
  "crypto \<Rightarrow> StateTransition \<Rightarrow> Channel \<Rightarrow> address \<Rightarrow> State \<Rightarrow> chan_error + unit" where
  "Matches cr t ch proposer state = bindR (Apply cr t ch proposer) (\<lambda>want. StateEqual want state)"

subsection \<open>Lemmas on the helpers\<close>

lemma balance_setBalance [simp]:
  "balance (setBalance s a v) b = (if a = b then v else balance s b)"
  by (cases a; cases b) (simp_all add: balance_def setBalance_def)

lemma setBalance_frame [simp]:
  "st_Pending (setBalance s a v) = st_Pending s" "st_WithdrawA (setBalance s a v) = st_WithdrawA s"
  "st_WithdrawB (setBalance s a v) = st_WithdrawB s" "st_Nonce (setBalance s a v) = st_Nonce s"
  "st_Channel (setBalance s a v) = st_Channel s" "st_Op (setBalance s a v) = st_Op s"
  by (simp_all add: setBalance_def)

lemma balance_frame [simp]:
  "balance (s\<lparr>st_Pending := p\<rparr>) a = balance s a" "balance (s\<lparr>st_Op := k\<rparr>) a = balance s a"
  "balance (s\<lparr>st_WithdrawA := w\<rparr>) a = balance s a" "balance (s\<lparr>st_WithdrawB := w\<rparr>) a = balance s a"
  by (simp_all add: balance_def)

lemma stateTotal_balance:
  "stateTotal s = balance s True + balance s False + lockedTotal s
     + orZero (st_WithdrawA s) + orZero (st_WithdrawB s)"
  by (simp add: stateTotal_def balance_def)

lemma balance_sides: "balance s True + balance s False = balance s b + balance s (\<not> b)"
  by (cases b) simp_all

lemma requirePositive_iff [res_simps]: "requirePositive n = Inr v \<longleftrightarrow> n = Some v \<and> 0 < v"
  by (auto simp: requirePositive_def split: option.splits if_splits)

lemma takeFrom_iff [res_simps]:
  "takeFrom s a v = Inr s' \<longleftrightarrow> v \<le> balance s a \<and> s' = setBalance s a (balance s a - v)"
  by (auto simp: takeFrom_def)

lemma findLock_SomeD:
  "findLock hs i = Some k \<Longrightarrow> k < length hs \<and> h_ID (hs ! k) = i"
  by (induction hs arbitrary: k) (auto split: if_splits)

lemma findLock_None_iff: "findLock hs i = None \<longleftrightarrow> i \<notin> h_ID ` set hs"
  by (induction hs) auto

lemma insertLock_split:
  "\<exists>k \<le> length hs. insertLock hs add = take k hs @ add # drop k hs"
proof (induction hs)
  case (Cons h hs)
  then obtain k where "k \<le> length hs" "insertLock hs add = take k hs @ add # drop k hs"
    by blast
  then show ?case
    by (cases "lessID (h_ID add) (h_ID h)") (auto intro: exI [of _ 0] exI [of _ "Suc k"])
qed simp

lemma sum_insertLock:
  "sum_list (map f (insertLock hs add)) = f add + sum_list (map (f :: HTLC \<Rightarrow> int) hs)"
  using insertLock_split [of hs add] sum_list_insert_at by metis

lemma set_insertLock [simp]: "set (insertLock hs add) = insert add (set hs)"
  by (induction hs) auto

lemma distinct_insertLock:
  "distinct (map h_ID (insertLock hs add)) \<longleftrightarrow> h_ID add \<notin> h_ID ` set hs \<and> distinct (map h_ID hs)"
  by (induction hs) auto

lemma sum_removeAt:
  "k < length hs \<Longrightarrow>
   sum_list (map f (removeAt hs k)) = sum_list (map (f :: HTLC \<Rightarrow> int) hs) - f (hs ! k)"
  by (simp only: removeAt_def sum_list_remove_at)

lemma set_removeAt: "set (removeAt hs k) \<subseteq> set hs"
  by (auto simp: removeAt_def dest: in_set_takeD in_set_dropD)

lemma distinct_removeAt: "distinct (map f hs) \<Longrightarrow> distinct (map f (removeAt hs k))"
proof -
  assume "distinct (map f hs)"
  then have "distinct (map f (take k hs) @ map f (drop k hs))"
    by (metis append_take_drop_id map_append)
  moreover have "drop (Suc k) hs = tl (drop k hs)"
    by (simp add: drop_Suc tl_drop)
  ultimately show ?thesis
    by (cases "drop k hs") (auto simp: removeAt_def)
qed

lemma clonePending_sums [simp]:
  "sum_list (map (\<lambda>h. orZero (h_Amount h)) (clonePending hs)) = sum_list (map (\<lambda>h. orZero (h_Amount h)) hs)"
  "map h_ID (clonePending hs) = map h_ID hs" "length (clonePending hs) = length hs"
  by (simp_all add: clonePending_def comp_def)

lemma locksOK_clonePending [simp]: "locksOK (clonePending hs) \<longleftrightarrow> locksOK hs"
  by (auto simp: locksOK_def clonePending_def comp_def)

subsection \<open>The canonical lock order\<close>

lemma lessID_iff: "length a = length b \<Longrightarrow> lessID a b \<longleftrightarrow> a < b"
  by (induction a b rule: lessID.induct) auto

definition canonical :: "HTLC list \<Rightarrow> bool" where
  \<comment> \<open>strictly increasing 32-byte identifiers: what the contract and \<^verbatim>\<open>decodeStateWire\<close> require\<close>
  "canonical hs \<longleftrightarrow> (\<forall>h \<in> set hs. length (h_ID h) = 32) \<and> sorted_wrt (\<lambda>a b. h_ID a < h_ID b) hs"

lemma canonical_insertLock:
  assumes "canonical hs" "length (h_ID add) = 32" "h_ID add \<notin> h_ID ` set hs"
  shows "canonical (insertLock hs add)"
  using assms
proof (induction hs)
  case (Cons h hs)
  then have IH: "canonical (insertLock hs add)"
    by (auto simp: canonical_def)
  show ?case
  proof (cases "h_ID add < h_ID h")
    case True
    with Cons.prems have "\<forall>x \<in> set hs. h_ID add < h_ID x"
      by (fastforce simp: canonical_def)
    with True Cons.prems show ?thesis
      by (auto simp: canonical_def lessID_iff)
  next
    case False
    with Cons.prems have "h_ID h < h_ID add"
      by auto
    with False Cons.prems IH show ?thesis
      by (auto simp: canonical_def lessID_iff)
  qed
qed (simp add: canonical_def)

lemma canonical_removeAt: "canonical hs \<Longrightarrow> canonical (removeAt hs k)"
proof -
  assume c: "canonical hs"
  then have "sorted_wrt (\<lambda>a b. h_ID a < h_ID b) (take k hs @ drop k hs)"
    by (simp add: canonical_def)
  then have "sorted_wrt (\<lambda>a b. h_ID a < h_ID b) (take k hs @ tl (drop k hs))"
    by (cases "drop k hs") (auto simp: sorted_wrt_append)
  then show ?thesis
    using c set_removeAt [of hs k] by (auto simp: canonical_def removeAt_def drop_Suc tl_drop)
qed

lemma canonical_clonePending [simp]: "canonical (clonePending hs) \<longleftrightarrow> canonical hs"
  by (simp add: canonical_def clonePending_def sorted_wrt_map)

subsection \<open>What the switch on the kind preserves\<close>

text \<open>
  The successful outcomes of \<open>applyKind\<close>, one clause per kind. The component's proofs go through
  this elimination rule.
\<close>

lemma applyKind_cases:
  assumes "applyKind cr t nxt p = Inr s"
  obtains (pay) amt where "tr_Kind t = KindPay" "tr_Amount t = Some amt" "0 < amt"
      "amt \<le> balance nxt p"
      "s = setBalance (setBalance nxt p (balance nxt p - amt)) (\<not> p) (balance nxt (\<not> p) + amt)"
  | (lockAdd) amt where "tr_Kind t = KindLockAdd" "tr_Amount t = Some amt" "0 < amt"
      "0 < tr_Expiry t" "tr_LockID t \<notin> h_ID ` set (st_Pending nxt)" "amt \<le> balance nxt p"
      "s = (setBalance nxt p (balance nxt p - amt))\<lparr>st_Pending := insertLock (st_Pending nxt)
        \<lparr> h_ID = tr_LockID t, h_Hash = tr_Hash t, h_Amount = Some amt, h_Expiry = tr_Expiry t,
          h_PayerIsA = p \<rparr>\<rparr>"
  | (lockSettle) i lock where "tr_Kind t = KindLockSettle"
      "findLock (st_Pending nxt) (tr_LockID t) = Some i" "lock = st_Pending nxt ! i"
      "i < length (st_Pending nxt)" "h_ID lock = tr_LockID t" "HTLC_Matches cr lock (tr_Preimage t)"
      "s = (give nxt (\<not> h_PayerIsA lock) (orZero (h_Amount lock)))
             \<lparr>st_Pending := removeAt (st_Pending nxt) i\<rparr>"
  | (lockRefund) i lock where "tr_Kind t = KindLockRefund"
      "findLock (st_Pending nxt) (tr_LockID t) = Some i" "lock = st_Pending nxt ! i"
      "i < length (st_Pending nxt)" "h_ID lock = tr_LockID t"
      "s = (give nxt (h_PayerIsA lock) (orZero (h_Amount lock)))
             \<lparr>st_Pending := removeAt (st_Pending nxt) i\<rparr>"
  | (checkpoint) amt where "tr_Kind t = KindCheckpoint" "tr_Amount t = Some amt" "0 < amt"
      "amt \<le> balance nxt p"
      "s = (let s' = setBalance nxt p (balance nxt p - amt)
            in if p then s'\<lparr>st_WithdrawA := Some amt\<rparr> else s'\<lparr>st_WithdrawB := Some amt\<rparr>)"
  | (close) "tr_Kind t = KindClose" "st_Pending nxt = []" "s = nxt"
  using assms
proof (cases "tr_Kind t")
  case KindPay
  with assms pay show ?thesis
    by (auto simp: applyKind_def move_def give_def res_simps)
next
  case KindLockAdd
  with assms lockAdd show ?thesis
    by (auto simp: applyKind_def res_simps findLock_None_iff split: if_splits)
next
  case KindLockSettle
  with assms obtain i where "findLock (st_Pending nxt) (tr_LockID t) = Some i"
    by (auto simp: applyKind_def split: option.splits)
  with KindLockSettle assms lockSettle [of i "st_Pending nxt ! i"] show ?thesis
    by (auto simp: applyKind_def Let_def give_def dest: findLock_SomeD split: if_splits)
next
  case KindLockRefund
  with assms obtain i where "findLock (st_Pending nxt) (tr_LockID t) = Some i"
    by (auto simp: applyKind_def split: option.splits)
  with KindLockRefund assms lockRefund [of i "st_Pending nxt ! i"] show ?thesis
    by (auto simp: applyKind_def Let_def give_def dest: findLock_SomeD)
next
  case KindCheckpoint
  with assms checkpoint show ?thesis
    by (auto simp: applyKind_def res_simps Let_def)
next
  case KindClose
  with assms close show ?thesis
    by (auto simp: applyKind_def split: if_splits)
next
  case (KindOther k)
  with assms show ?thesis by (simp add: applyKind_def)
qed

lemma lockedTotal_simps [simp]:
  "lockedTotal (setBalance s a v) = lockedTotal s"
  "lockedTotal (s\<lparr>st_WithdrawA := w\<rparr>) = lockedTotal s"
  "lockedTotal (s\<lparr>st_WithdrawB := w\<rparr>) = lockedTotal s"
  "lockedTotal (s\<lparr>st_Op := k\<rparr>) = lockedTotal s"
  by (simp_all add: lockedTotal_def)

lemma lockedTotal_insertLock:
  "lockedTotal (s\<lparr>st_Pending := insertLock hs h\<rparr>)
     = orZero (h_Amount h) + sum_list (map (\<lambda>h. orZero (h_Amount h)) hs)"
  by (simp add: lockedTotal_def sum_insertLock)

lemma lockedTotal_removeAt:
  "i < length hs \<Longrightarrow> lockedTotal (s\<lparr>st_Pending := removeAt hs i\<rparr>)
     = sum_list (map (\<lambda>h. orZero (h_Amount h)) hs) - orZero (h_Amount (hs ! i))"
  by (simp add: lockedTotal_def sum_removeAt)

lemma applyKind_total:
  assumes "applyKind cr t nxt p = Inr s" "st_WithdrawA nxt = None" "st_WithdrawB nxt = None"
  shows "stateTotal s = stateTotal nxt"
  using assms(1)
proof (cases rule: applyKind_cases)
  case pay
  then show ?thesis by (cases p) (simp_all add: stateTotal_balance)
next
  case lockAdd
  then show ?thesis
    by (cases p) (simp_all add: stateTotal_balance lockedTotal_insertLock lockedTotal_def [of nxt])
next
  case (lockSettle i lock)
  then show ?thesis
    by (cases "h_PayerIsA lock")
      (simp_all add: stateTotal_balance lockedTotal_removeAt give_def lockedTotal_def [of nxt])
next
  case (lockRefund i lock)
  then show ?thesis
    by (cases "h_PayerIsA lock")
      (simp_all add: stateTotal_balance lockedTotal_removeAt give_def lockedTotal_def [of nxt])
next
  case checkpoint
  then show ?thesis using assms(2,3)
    by (cases p) (simp_all add: stateTotal_balance Let_def)
next
  case close
  then show ?thesis by simp
qed

lemma applyKind_frame:
  assumes "applyKind cr t nxt p = Inr s"
  shows "st_Channel s = st_Channel nxt" "st_Nonce s = st_Nonce nxt"
  using assms by (auto elim!: applyKind_cases simp: give_def Let_def)

lemma locksOK_removeAt: "locksOK hs \<Longrightarrow> locksOK (removeAt hs i)"
  using set_removeAt [of hs i] by (auto simp: locksOK_def distinct_removeAt)

lemma applyKind_locksOK:
  "applyKind cr t nxt p = Inr s \<Longrightarrow> locksOK (st_Pending nxt) \<Longrightarrow> locksOK (st_Pending s)"
  by (erule applyKind_cases)
    (auto simp: Let_def locksOK_removeAt, auto simp: locksOK_def distinct_insertLock)

lemma applyKind_canonical:
  "applyKind cr t nxt p = Inr s \<Longrightarrow> length (tr_LockID t) = 32 \<Longrightarrow> canonical (st_Pending nxt) \<Longrightarrow>
   canonical (st_Pending s)"
  by (erule applyKind_cases)
    (auto simp: Let_def canonical_removeAt intro!: canonical_insertLock)

lemma applyKind_nonneg:
  assumes "applyKind cr t nxt p = Inr s" "\<forall>b. 0 \<le> balance nxt b" "locksOK (st_Pending nxt)"
  shows "0 \<le> balance s b"
proof -
  have lockpos: "i < length (st_Pending nxt) \<Longrightarrow> 0 \<le> orZero (h_Amount (st_Pending nxt ! i))" for i
    using assms(3) by (fastforce simp: locksOK_def intro: less_imp_le)
  from assms(1) show ?thesis
    using assms(2) lockpos
    by (cases rule: applyKind_cases) (auto simp: give_def Let_def add_nonneg_nonneg)
qed

end
