(* ===== verification/Wire.thy ===== *)
theory Wire
  imports Transition
begin

text \<open>
  The form a state takes on the wire and on disk: the conversions of \<^verbatim>\<open>src/internal/channel/scpp.go\<close>
  with the parsers of \<^verbatim>\<open>store.go\<close> they share, the message bodies, and the framing. Amounts are decimal
  strings, 32-byte values are hex. The JSON text of a struct is below the model: the conversions are
  between the protocol's structs, as in the source, and the framing takes \<^verbatim>\<open>json.Marshal\<close> and
  \<^verbatim>\<open>json.Unmarshal\<close> of the envelope as arguments.
\<close>

subsection \<open>Stored and transmitted structs\<close>

record storedHTLC =
  sh_ID :: string
  sh_Hash :: string
  sh_Amount :: string
  sh_Expiry :: int
  sh_PayerIsA :: bool

record storedState =
  sw_Channel :: string
  sw_Nonce :: u64
  sw_BalanceA :: string
  sw_BalanceB :: string
  sw_Pending :: "storedHTLC list"
  sw_WithdrawA :: string
  sw_WithdrawB :: string
  sw_Op :: u8

definition emptyStored :: storedState where
  \<comment> \<open>Go's zero value\<close>
  "emptyStored = \<lparr> sw_Channel = [], sw_Nonce = 0, sw_BalanceA = [], sw_BalanceB = [], sw_Pending = [],
     sw_WithdrawA = [], sw_WithdrawB = [], sw_Op = 0 \<rparr>"

record wireTransition =
  wt_Kind :: TransitionKind
  wt_Amount :: string
  wt_LockID :: string
  wt_Hash :: string
  wt_Expiry :: int
  wt_Preimage :: string

subsection \<open>Message types, reject codes and bodies\<close>

datatype MessageType =
    MsgHello | MsgChannelAnnounce | MsgStatePropose | MsgStateAccept | MsgStateReject
  | MsgStateRequest | MsgStateResponse | MsgConflict | MsgClosing | MsgError | MsgOther string

datatype RejectCode =
    RejectNonceStale | RejectAlreadySignedNonce | RejectNotConserved | RejectBadSignature
  | RejectLocksMalformed | RejectTransitionMismatch | RejectPreimageBad | RejectLockNotExpired
  | RejectLockExpired | RejectInsufficient | RejectConflicted | RejectClosing
  | RejectUnknownChannel | RejectOther string

definition Retryable :: "RejectCode \<Rightarrow> bool" where
  "Retryable c = (case c of
      RejectNonceStale \<Rightarrow> True | RejectLockNotExpired \<Rightarrow> True | RejectInsufficient \<Rightarrow> True
    | _ \<Rightarrow> False)"

record StateProposeBody =
  bp_Intent :: string
  bp_Transition :: wireTransition
  bp_State :: storedState
  bp_Sig :: string

record StateAcceptBody =
  ba_Intent :: string
  ba_Nonce :: u64
  ba_Sig :: string

record StateRejectBody =
  br_Intent :: string
  br_Code :: RejectCode
  br_Detail :: string

record StateResponseBody =
  bs_Have :: bool
  bs_State :: storedState
  bs_SigA :: string
  bs_SigB :: string

record ConflictBody =
  bc_Nonce :: u64
  bc_Mine :: storedState
  bc_MineA :: string
  bc_MineB :: string
  bc_Yours :: storedState
  bc_YoursA :: string
  bc_YoursB :: string

subsection \<open>Parsers\<close>

definition decString :: "bigint \<Rightarrow> string" where
  "decString n = (case n of None \<Rightarrow> ''0'' | Some v \<Rightarrow> decimal v)"

definition parseDec :: "string \<Rightarrow> chan_error + bigint" where
  "parseDec s =
     (if s = [] then Inr (Some 0)
      else case setString s of
             None \<Rightarrow> Inl (ErrText ''not a decimal amount'')
           | Some n \<Rightarrow> Inr (Some n))"

definition parseUnsignedDec :: "string \<Rightarrow> chan_error + bigint" where
  "parseUnsignedDec s =
     bindR (parseDec s) (\<lambda>n. if orZero n < 0 then Inl (ErrText ''may not be negative'') else Inr n)"

definition parseBytes32 :: "string \<Rightarrow> chan_error + bytes32" where
  "parseBytes32 s =
     (case hexDecode s of
        None \<Rightarrow> Inl (ErrText ''not 32 hex bytes'')
      | Some raw \<Rightarrow> if length raw \<noteq> 32 then Inl (ErrText ''not 32 hex bytes'') else Inr raw)"

definition parseSig :: "string \<Rightarrow> chan_error + bytes" where
  "parseSig s =
     (case hexDecode s of
        None \<Rightarrow> Inl ErrMalformed
      | Some raw \<Rightarrow> if length raw \<noteq> 65 then Inl ErrMalformed else Inr raw)"

definition hexField :: "string \<Rightarrow> chan_error + bytes" where
  \<comment> \<open>\<^verbatim>\<open>hex.DecodeString\<close> with its error returned\<close>
  "hexField s = ofOpt (ErrText ''encoding/hex: invalid'') (hexDecode s)"

subsection \<open>States\<close>

definition encodeHTLC :: "HTLC \<Rightarrow> storedHTLC" where
  "encodeHTLC h = \<lparr> sh_ID = hexEncode (h_ID h), sh_Hash = hexEncode (h_Hash h),
     sh_Amount = decString (h_Amount h), sh_Expiry = h_Expiry h, sh_PayerIsA = h_PayerIsA h \<rparr>"

definition encodeStateWire :: "State \<Rightarrow> storedState" where
  "encodeStateWire s =
     \<lparr> sw_Channel = hexEncode (st_Channel s), sw_Nonce = st_Nonce s,
       sw_BalanceA = decString (st_BalanceA s), sw_BalanceB = decString (st_BalanceB s),
       sw_Pending = map encodeHTLC (st_Pending s),
       sw_WithdrawA = (if orZero (st_WithdrawA s) > 0 then decString (st_WithdrawA s) else []),
       sw_WithdrawB = (if orZero (st_WithdrawB s) > 0 then decString (st_WithdrawB s) else []),
       sw_Op = (if st_Op s \<noteq> 0 \<and> st_Op s \<noteq> OpState then st_Op s else 0) \<rparr>"

text \<open>The lock loop of the decoder; \<open>previous\<close> is \<open>None\<close> on the first iteration (\<^verbatim>\<open>i > 0\<close> fails).\<close>

fun decodeLocks :: "bytes32 option \<Rightarrow> storedHTLC list \<Rightarrow> chan_error + HTLC list" where
  "decodeLocks previous [] = Inr []"
| "decodeLocks previous (h # hs) =
     bindR (parseBytes32 (sh_ID h)) (\<lambda>i.
       if (case previous of None \<Rightarrow> False | Some p \<Rightarrow> \<not> lessID p i) then Inl ErrLocksUnsorted
       else
         bindR (parseBytes32 (sh_Hash h)) (\<lambda>hash.
         bindR (parseDec (sh_Amount h)) (\<lambda>amount.
         bindR (decodeLocks (Some i) hs) (\<lambda>rest.
           Inr (\<lparr> h_ID = i, h_Hash = hash, h_Amount = amount, h_Expiry = sh_Expiry h,
                  h_PayerIsA = sh_PayerIsA h \<rparr> # rest)))))"

definition decodeStateWire :: "storedState \<Rightarrow> chan_error + State" where
  "decodeStateWire w =
     bindR (parseBytes32 (sw_Channel w)) (\<lambda>channel.
     bindR (parseDec (sw_BalanceA w)) (\<lambda>balanceA.
     bindR (parseDec (sw_BalanceB w)) (\<lambda>balanceB.
     bindR (parseUnsignedDec (sw_WithdrawA w)) (\<lambda>withdrawA.
     bindR (parseUnsignedDec (sw_WithdrawB w)) (\<lambda>withdrawB.
       let op = (if sw_Op w = 0 then OpState else sw_Op w) in
       if op \<noteq> OpState \<and> op \<noteq> OpCoopClose \<and> op \<noteq> OpCheckpoint
       then Inl (ErrText ''unknown operation domain'')
       else
         bindR (decodeLocks None (sw_Pending w)) (\<lambda>locks.
           Inr \<lparr> st_Channel = channel, st_Nonce = sw_Nonce w, st_BalanceA = balanceA,
                 st_BalanceB = balanceB, st_Pending = locks, st_WithdrawA = withdrawA,
                 st_WithdrawB = withdrawB, st_Op = op \<rparr>))))))"

definition decodeSignedWire :: "storedState \<Rightarrow> string \<Rightarrow> string \<Rightarrow> chan_error + SignedState" where
  "decodeSignedWire w sigA sigB =
     bindR (decodeStateWire w) (\<lambda>state.
     bindR (hexField sigA) (\<lambda>a.
     bindR (hexField sigB) (\<lambda>b.
       Inr \<lparr> ss_State = state, ss_SigA = a, ss_SigB = b \<rparr>)))"

subsection \<open>Transitions\<close>

definition hexUnlessZero :: "bytes32 \<Rightarrow> string" where
  "hexUnlessZero v = (if v \<noteq> zero32 then hexEncode v else [])"

definition encodeTransitionWire :: "StateTransition \<Rightarrow> wireTransition" where
  "encodeTransitionWire t =
     \<lparr> wt_Kind = tr_Kind t,
       wt_Amount = (if tr_Amount t \<noteq> None \<and> orZero (tr_Amount t) \<noteq> 0 then decString (tr_Amount t) else []),
       wt_LockID = hexUnlessZero (tr_LockID t), wt_Hash = hexUnlessZero (tr_Hash t),
       wt_Expiry = tr_Expiry t, wt_Preimage = hexUnlessZero (tr_Preimage t) \<rparr>"

definition optBytes32 :: "string \<Rightarrow> chan_error + bytes32" where
  \<comment> \<open>one turn of the field loop: an empty string leaves the zero array\<close>
  "optBytes32 s = (if s = [] then Inr zero32 else parseBytes32 s)"

definition decodeTransitionWire :: "wireTransition \<Rightarrow> chan_error + StateTransition" where
  "decodeTransitionWire w =
     bindR (if wt_Amount w \<noteq> [] then parseDec (wt_Amount w) else Inr (Some 0)) (\<lambda>amount.
     bindR (optBytes32 (wt_LockID w)) (\<lambda>lockID.
     bindR (optBytes32 (wt_Hash w)) (\<lambda>hash.
     bindR (optBytes32 (wt_Preimage w)) (\<lambda>preimage.
       Inr \<lparr> tr_Kind = wt_Kind w, tr_Amount = amount, tr_LockID = lockID, tr_Hash = hash,
             tr_Expiry = wt_Expiry w, tr_Preimage = preimage \<rparr>))))"

subsection \<open>Framing\<close>

record Envelope =
  en_V :: int
  en_Type :: MessageType
  en_Channel :: string
  en_Body :: bytes

definition MaxFrameBytes :: nat where
  "MaxFrameBytes = 2 ^ 20"

definition ProtocolVersion :: int where
  "ProtocolVersion = 1"

definition putUint32 :: "nat \<Rightarrow> bytes" where
  \<comment> \<open>\<^verbatim>\<open>binary.BigEndian.PutUint32\<close> of \<^verbatim>\<open>uint32(n)\<close>\<close>
  "putUint32 n = map (\<lambda>k. of_nat (n div 256 ^ k mod 256)) [3, 2, 1, 0]"

definition WriteFrame :: "(Envelope \<Rightarrow> bytes) \<Rightarrow> Envelope \<Rightarrow> chan_error + bytes" where
  \<comment> \<open>the bytes handed to the writer\<close>
  "WriteFrame marshal msg =
     (let msg' = (if en_V msg = 0 then msg\<lparr>en_V := ProtocolVersion\<rparr> else msg);
          raw = marshal msg'
      in if length raw > MaxFrameBytes then Inl ErrSCPPFrameTooLarge
         else Inr (putUint32 (length raw) @ raw))"

definition readFull :: "nat \<Rightarrow> bytes \<Rightarrow> chan_error + bytes \<times> bytes" where
  \<comment> \<open>\<^verbatim>\<open>io.ReadFull\<close>: exactly \<open>n\<close> bytes or an error\<close>
  "readFull n r = (if length r < n then Inl ErrIO else Inr (take n r, drop n r))"

definition ReadFrame :: "(bytes \<Rightarrow> Envelope option) \<Rightarrow> bytes \<Rightarrow> chan_error + Envelope \<times> bytes" where
  "ReadFrame unmarshal r =
     bindR (readFull 4 r) (\<lambda>(header, r1).
       let size = bytesNat header in
       if size > MaxFrameBytes then Inl ErrSCPPFrameTooLarge
       else
         bindR (readFull size r1) (\<lambda>(raw, r2).
           case unmarshal raw of
             None \<Rightarrow> Inl ErrMalformed
           | Some msg \<Rightarrow>
               if en_V msg \<noteq> ProtocolVersion then Inl ErrBadVersion else Inr (msg, r2)))"

end
