(* ===== verification/Demo.thy ===== *)
theory Demo
  imports Channel_State
begin

text \<open>
  Concrete inputs for the witnesses: a hash that keeps the first 32 bytes, a recovery function that
  reads the signer out of the signature, two addresses, an open channel with deposits 100 and 50 and
  signatures of its two parties. None of it models the repository; it shows that the hypotheses of
  the theorems can hold together.
\<close>

definition demoCrypto :: crypto where
  "demoCrypto = \<lparr> keccak256 = take 32, RecoverCompact = (\<lambda>compact digest. Some (4 # drop 1 compact)) \<rparr>"

definition demoA :: address where
  "demoA = Address (1 # replicate 19 0)"

definition demoB :: address where
  "demoB = Address (2 # replicate 19 0)"

definition demoSig :: "address \<Rightarrow> bytes" where
  "demoSig a = replicate 12 0 @ addrBytes a @ replicate 32 0 @ [27]"

definition demoID :: bytes32 where
  "demoID = replicate 31 0 @ [7]"

definition demoChannel :: Channel where
  "demoChannel = \<lparr> ch_ID = demoID, ch_PartyA = demoA, ch_PartyB = demoB,
     ch_DepositA = Some 100, ch_DepositB = Some 50, ch_Status = StatusOpen,
     ch_ChainID = Some 1, ch_Contract = demoB, ch_Latest = emptySigned,
     ch_Signed = Map.empty, ch_Applied = Map.empty, ch_Pending = None, ch_Conflict = None,
     ch_History = [], ch_Payout = None, ch_NeedsReconcile = False \<rparr>"

definition demoPay :: "int \<Rightarrow> StateTransition" where
  "demoPay amt = \<lparr> tr_Kind = KindPay, tr_Amount = Some amt, tr_LockID = zero32, tr_Hash = zero32,
     tr_Expiry = 0, tr_Preimage = zero32 \<rparr>"

definition demoLock :: "TransitionKind \<Rightarrow> StateTransition" where
  "demoLock k = \<lparr> tr_Kind = k, tr_Amount = Some 30, tr_LockID = demoID, tr_Hash = demoID,
     tr_Expiry = 5000, tr_Preimage = demoID \<rparr>"

definition demoSigned :: "State \<Rightarrow> SignedState" where
  "demoSigned s = \<lparr> ss_State = s, ss_SigA = demoSig demoA, ss_SigB = demoSig demoB \<rparr>"

lemma demoSig_recover:
  assumes "wfAddr a" "\<not> IsZero a"
  shows "RecoverSigner demoCrypto raw (demoSig a) = Inr a"
proof -
  let ?r = "replicate 12 0 @ addrBytes a" and ?s = "replicate 32 0 :: bytes"
  have s: "demoSig a = ?r @ ?s @ [27]"
    by (simp add: demoSig_def)
  have r: "length ?r = 32" and l: "length (addrBytes a) = 20"
    using assms by (simp_all add: wfAddr_def)
  have z: "bytesNat ?s \<le> halfOrder"
    using bytesNat_zeros [of 32 "[]"] by simp
  show ?thesis
    unfolding s RecoverSigner_split [OF r length_replicate z]
    using assms l by (simp add: demoCrypto_def keccak_def Let_def)
qed

lemma demo_recover [simp]:
  "RecoverSigner demoCrypto raw (demoSig demoA) = Inr demoA"
  "RecoverSigner demoCrypto raw (demoSig demoB) = Inr demoB"
  by (rule demoSig_recover; simp add: demoA_def demoB_def wfAddr_def IsZero_def eval_nat_numeral)+

lemma demo_signedBoth [simp]:
  "ch_PartyA c = demoA \<Longrightarrow> ch_PartyB c = demoB \<Longrightarrow> signedBoth demoCrypto c (demoSigned s)"
  by (simp add: signedBoth_def demoSigned_def Let_def)

lemma demo_complete [simp]: "Complete (demoSigned s)"
  by (simp add: Complete_def demoSigned_def demoSig_def demoA_def demoB_def)

lemma demoSigned_state [simp]: "ss_State (demoSigned s) = s"
  by (simp add: demoSigned_def)

lemmas demo_defs = demoChannel_def demoPay_def demoLock_def emptySigned_def emptyState_def
  Status_defs

end
