(* ===== verification/Channel_Props.thy ===== *)
theory Channel_Props
  imports Channel_State Transition Demo
begin

text \<open>
  Properties of the state machine on its own: which states \<^verbatim>\<open>Accept\<close> takes, what it leaves behind,
  and that the digest the parties sign pins down every field of a state.
\<close>

subsection \<open>The lock root determines the locks\<close>

definition wfLock :: "HTLC \<Rightarrow> bool" where
  \<comment> \<open>array lengths, an amount that fits uint256, an expiry that \<^verbatim>\<open>Accept\<close> lets through\<close>
  "wfLock h \<longleftrightarrow> length (h_ID h) = 32 \<and> length (h_Hash h) = 32 \<and> h_Amount h \<noteq> None
     \<and> isU256 (orZero (h_Amount h)) \<and> 0 \<le> h_Expiry h \<and> h_Expiry h < 2 ^ 63"

lemma bigBytes_u256: "abiWord (bigBytes v) = u256 (Some v)"
  by (simp add: u256_def)

lemma htlcBytes_unique:
  assumes "wfLock a" "wfLock b" "htlcBytes a = htlcBytes b"
  shows "a = b"
proof -
  have rng: "isU256 (h_Expiry a)" "isU256 (h_Expiry b)"
    using assms(1,2) by (auto simp: wfLock_def isU256_def)
  from assms have
    eqs: "h_ID a = h_ID b" "h_Hash a = h_Hash b" "u256 (h_Amount a) = u256 (h_Amount b)"
      "u256 (Some (h_Expiry a)) = u256 (Some (h_Expiry b))" "h_PayerIsA a = h_PayerIsA b"
    by (auto simp: wfLock_def htlcBytes_def bigBytes_u256 split: if_splits)
  have "orZero (h_Amount a) = orZero (h_Amount b)"
    using assms(1,2) eqs(3) by (intro u256_inj) (auto simp: wfLock_def)
  then have "h_Amount a = h_Amount b"
    using assms(1,2) by (auto simp: wfLock_def)
  moreover have "h_Expiry a = h_Expiry b"
    using fw_u256.enc_unique [OF rng] eqs(4) by simp
  ultimately show ?thesis
    using eqs by simp
qed

interpretation fw_lock: fixed_width htlcBytes 129 wfLock
  using htlcBytes_unique
  by unfold_locales (auto simp: htlcBytes_def wfLock_def)

definition rootBytes :: "State \<Rightarrow> bytes" where
  "rootBytes s = concat (map htlcBytes (sort_key h_ID (st_Pending s)))"

definition hash32 :: "crypto \<Rightarrow> bytes \<Rightarrow> bytes32" where
  "hash32 cr x = copyArr 32 (keccak256 cr x)"

definition stateWords :: "crypto \<Rightarrow> State \<Rightarrow> bigint \<Rightarrow> address \<Rightarrow> bytes" where
  "stateWords cr s chainID contract =
     digestWords (st_op s) chainID contract (st_Channel s) (st_Nonce s) (st_BalanceA s) (st_BalanceB s)
       (HTLCRoot cr s) (st_WithdrawA s) (st_WithdrawB s)"

definition wfDigest :: "State \<Rightarrow> bool" where
  \<comment> \<open>a state the contract can represent\<close>
  "wfDigest s \<longleftrightarrow> length (st_Channel s) = 32 \<and> list_all wfLock (st_Pending s) \<and>
     isU256 (orZero (st_BalanceA s)) \<and> isU256 (orZero (st_BalanceB s)) \<and>
     isU256 (orZero (st_WithdrawA s)) \<and> isU256 (orZero (st_WithdrawB s))"

lemma Digest_hash32: "Digest cr s c k = hash32 cr (stateWords cr s c k)"
  by (simp add: Digest_def StateDigest_words hash32_def stateWords_def)

lemma HTLCRoot_hash32:
  "HTLCRoot cr s = (if st_Pending s = [] then zero32 else hash32 cr (rootBytes s))"
  by (simp add: HTLCRoot_def keccak_def hash32_def rootBytes_def)

lemma length_HTLCRoot [simp, bytes_len]: "length (HTLCRoot cr s) = 32"
  by (simp add: HTLCRoot_def)

lemma rootBytes_unique:
  assumes "list_all wfLock (st_Pending s)" "list_all wfLock (st_Pending s')" "rootBytes s = rootBytes s'"
  shows "sort_key h_ID (st_Pending s) = sort_key h_ID (st_Pending s')"
proof -
  have "list_all wfLock (sort_key h_ID (st_Pending s))" "list_all wfLock (sort_key h_ID (st_Pending s'))"
    using assms(1,2) by (simp_all only: list_all_iff set_sort)
  then show ?thesis
    using assms(3) unfolding rootBytes_def by (intro fw_lock.concat_unique) simp_all
qed

text \<open>
  (C17) A signature binds the whole state. If two representable states have the same digest for one
  chain and contract, and the hash does not collide on the four byte strings that were hashed (nor
  hash a lock set to the zero root), then they agree on the operation domain, channel, nonce, both
  balances, both withdrawals and the whole lock set in canonical order: no lock, amount or domain can
  be exchanged under a signature.
\<close>

theorem Digest_binds_state:
  assumes eq: "Digest cr s chainID contract = Digest cr s' chainID contract"
    and wf: "wfDigest s" "wfDigest s'" "wfAddr contract" "isU256 (orZero chainID)"
    and nocol: "inj_on (hash32 cr) {stateWords cr s chainID contract, stateWords cr s' chainID contract,
      rootBytes s, rootBytes s'}"
    and nozero: "st_Pending s \<noteq> [] \<Longrightarrow> hash32 cr (rootBytes s) \<noteq> zero32"
      "st_Pending s' \<noteq> [] \<Longrightarrow> hash32 cr (rootBytes s') \<noteq> zero32"
  shows "st_op s = st_op s' \<and> st_Channel s = st_Channel s' \<and> st_Nonce s = st_Nonce s' \<and>
    orZero (st_BalanceA s) = orZero (st_BalanceA s') \<and> orZero (st_BalanceB s) = orZero (st_BalanceB s') \<and>
    orZero (st_WithdrawA s) = orZero (st_WithdrawA s') \<and> orZero (st_WithdrawB s) = orZero (st_WithdrawB s') \<and>
    sort_key h_ID (st_Pending s) = sort_key h_ID (st_Pending s')"
proof -
  have words: "stateWords cr s chainID contract = stateWords cr s' chainID contract"
    by (rule inj_onD [OF nocol]) (simp_all only: eq [unfolded Digest_hash32] insert_iff simp_thms)
  have lens: "length (st_Channel s) = 32" "length (st_Channel s') = 32"
    and rng: "\<forall>v \<in> {chainID, chainID, st_BalanceA s, st_BalanceA s', st_BalanceB s, st_BalanceB s',
      st_WithdrawA s, st_WithdrawA s', st_WithdrawB s, st_WithdrawB s'}. isU256 (orZero v)"
    using wf by (simp_all add: wfDigest_def)
  note fields = digestWords_inj [OF words [unfolded stateWords_def] wf(3) wf(3) lens
      length_HTLCRoot length_HTLCRoot rng]
  then have root: "HTLCRoot cr s = HTLCRoot cr s'" by (elim conjE)
  have "sort_key h_ID (st_Pending s) = sort_key h_ID (st_Pending s')"
  proof (cases "st_Pending s = [] \<or> st_Pending s' = []")
    case True
    then have "st_Pending s = [] \<and> st_Pending s' = []"
      using root nozero by (auto simp: HTLCRoot_hash32 split: if_splits)
    then show ?thesis by simp
  next
    case False
    then have "rootBytes s = rootBytes s'"
      using root by - (rule inj_onD [OF nocol], simp_all add: HTLCRoot_hash32)
    then show ?thesis
      using wf(1,2) by (intro rootBytes_unique) (auto simp: wfDigest_def)
  qed
  with fields show ?thesis by (elim conjE) (intro conjI)
qed

lemma demo_stateWords: "hash32 demoCrypto x = copyArr 32 (take 32 x)"
  by (simp add: hash32_def demoCrypto_def)

theorem Digest_binds_state_witness:
  "st_BalanceA (emptyState\<lparr>st_BalanceA := Some 0\<rparr>) \<noteq> st_BalanceA emptyState \<and>
   orZero (st_BalanceA (emptyState\<lparr>st_BalanceA := Some 0\<rparr>)) = orZero (st_BalanceA emptyState)"
proof -
  let ?s = "emptyState\<lparr>st_BalanceA := Some 0\<rparr>"
  have "HTLCRoot demoCrypto ?s = HTLCRoot demoCrypto emptyState"
    by (simp add: HTLCRoot_def emptyState_def)
  then have w: "stateWords demoCrypto ?s (Some 1) demoB = stateWords demoCrypto emptyState (Some 1) demoB"
    by (simp add: stateWords_def st_op_def emptyState_def digestWords_def u256_orZero)
  have d: "Digest demoCrypto ?s (Some 1) demoB = Digest demoCrypto emptyState (Some 1) demoB"
    by (simp add: Digest_hash32 w)
  have wf: "wfDigest ?s" "wfDigest emptyState" "wfAddr demoB" "isU256 (orZero (Some 1))"
    by (simp_all add: wfDigest_def emptyState_def isU256_def wfAddr_def demoB_def)
  have "u256 (Some (uint OpState)) \<noteq> u256 (Some 0)"
    using fw_u256.enc_unique [of "uint OpState" 0] by (auto simp: OpState_def isU256_def)
  moreover have "u256 (Some 0) = replicate 32 0"
    by (simp add: u256_def abiWord_def bigBytes_def natBytes.simps)
  ultimately have ops: "hash32 demoCrypto (stateWords demoCrypto emptyState (Some 1) demoB)
      \<noteq> hash32 demoCrypto []"
    by (simp add: demo_stateWords stateWords_def digestWords_def st_op_def emptyState_def copyArr_def)
  have inj: "inj_on (hash32 demoCrypto) {stateWords demoCrypto ?s (Some 1) demoB,
      stateWords demoCrypto emptyState (Some 1) demoB, rootBytes ?s, rootBytes emptyState}"
    unfolding w
    using ops by (simp add: inj_on_def rootBytes_def emptyState_def)
  show ?thesis
    using Digest_binds_state [OF d wf inj] by (simp add: emptyState_def)
qed

lemma not_Complete_empty: "\<not> Complete \<lparr>ss_State = s, ss_SigA = [], ss_SigB = b\<rparr>"
  by (simp add: Complete_def)

subsection \<open>What Accept lets through\<close>

text \<open>A run of offers: a refused one leaves the channel as it was.\<close>

definition offer :: "crypto \<Rightarrow> Channel \<Rightarrow> SignedState \<Rightarrow> Channel" where
  "offer cr c cand = (case Accept cr c cand of Inl _ \<Rightarrow> c | Inr c' \<Rightarrow> c')"

definition settled :: "crypto \<Rightarrow> Channel \<Rightarrow> bool" where
  \<comment> \<open>no state yet, or a valid one\<close>
  "settled cr c \<longleftrightarrow> ch_Latest c = emptySigned \<or> validState cr c (ch_Latest c)"

lemma offer_cases:
  obtains (kept) "offer cr c cand = c"
  | (taken) "Accept cr c cand = Inr (offer cr c cand)"
  by (cases "Accept cr c cand") (auto simp: offer_def)

lemma offer_step:
  "(settled cr c \<longrightarrow> settled cr (offer cr c cand)) \<and> latestNonce c \<le> latestNonce (offer cr c cand) \<and>
   (Complete (ch_Latest c) \<longrightarrow> offer cr c cand \<noteq> c \<longrightarrow> latestNonce c < latestNonce (offer cr c cand)) \<and>
   (ch_Latest (offer cr c cand) = ch_Latest c \<or> ch_Latest (offer cr c cand) = cand \<and> Complete cand) \<and>
   ch_DepositA (offer cr c cand) = ch_DepositA c \<and> ch_DepositB (offer cr c cand) = ch_DepositB c"
proof (cases rule: offer_cases [of cr c cand])
  case taken
  then have v: "validState cr (offer cr c cand) (ch_Latest (offer cr c cand))"
    by (simp add: Accept_iff validState_def signedBoth_def)
  with taken show ?thesis
    by (auto simp: settled_def Accept_iff isFirst_def validState_def)
qed simp

text \<open>
  (C4) Acceptance. \<^verbatim>\<open>Channel.Accept\<close> takes a candidate exactly when the channel is open, the nonce is
  above the stored one (or nothing was agreed yet), the state is this channel's, both balances and all
  locks are sound, the value adds up to the deposits and both parties' signatures recover over the
  channel's own digest; and then it changes nothing but the latest state and the ledger of signatures
  given out, which it prunes below the new nonce.
\<close>

theorem Accept_exactly:
  "Accept cr c cand = Inr c' \<longleftrightarrow>
     ch_Status c = StatusOpen \<and>
     (latestNonce c < st_Nonce (ss_State cand) \<or> isFirst c) \<and>
     validState cr c cand \<and>
     c' = c\<lparr>ch_Latest := cand, ch_Signed := pruneSigned (st_Nonce (ss_State cand)) (ch_Signed c)\<rparr>"
  by (rule Accept_iff)

text \<open>
  Over any sequence of candidate states offered to a channel, in any order and with any number
  of replays, the stored state stays valid, its nonce never falls, and a state once agreed is replaced
  only by one with a larger nonce.
\<close>

theorem Accept_run_safe:
  assumes "settled cr c"
  shows "settled cr (foldl (offer cr) c cands) \<and> latestNonce c \<le> latestNonce (foldl (offer cr) c cands) \<and>
    (Complete (ch_Latest c) \<longrightarrow> ch_Latest (foldl (offer cr) c cands) = ch_Latest c
       \<or> latestNonce c < latestNonce (foldl (offer cr) c cands))"
  using assms
proof (induction cands arbitrary: c)
  case (Cons x xs)
  let ?d = "offer cr c x"
  from Cons.prems offer_step [of cr c x] have "settled cr ?d" by simp
  note IH = Cons.IH [OF this]
  then show ?case
    using offer_step [of cr c x] by (auto intro: order.trans dest: order.strict_trans1 order.strict_trans2)
qed simp

text \<open>
  The sign checks of \<^verbatim>\<open>Accept\<close> stop at the balances and the locks. A state that both parties
  signed with a negative withdrawal is accepted although the first party's balance then exceeds
  everything that was ever deposited.
\<close>

definition overdrawn :: State where
  "overdrawn = emptyState\<lparr>st_Channel := demoID, st_Nonce := 1, st_BalanceA := Some 1000, st_BalanceB := Some 0,
     st_WithdrawB := Some (-850)\<rparr>"

theorem Accept_negative_withdrawal:
  "\<exists>c'. Accept demoCrypto demoChannel (demoSigned overdrawn) = Inr c' \<and>
     BalanceOf c' demoA > orZero (ch_DepositA c') + orZero (ch_DepositB c')"
  by (simp add: Accept_iff validState_def isFirst_def overdrawn_def demo_defs locksOK_def Conserved_def
      stateTotal_def lockedTotal_def BalanceOf_def IsA_def not_Complete_empty)

theorem Accept_run_safe_witness:
  "settled demoCrypto (foldl (offer demoCrypto) demoChannel [demoSigned overdrawn, demoSigned overdrawn])"
  using Accept_run_safe [of demoCrypto demoChannel "[demoSigned overdrawn, demoSigned overdrawn]"]
  by (simp add: settled_def demo_defs)

end
