(* ===== verification/Transition_Props.thy ===== *)
theory Transition_Props
  imports Transition Demo
begin

text \<open>
  What a transition does to the money: it conserves value, it can only take from the party that
  proposes it, its result is always acceptable to the state machine, and a lock that is added and
  resolved moves exactly what a direct payment would have moved, or nothing.
\<close>

subsection \<open>From the switch to Apply\<close>

lemma Apply_iff:
  "Apply cr t ch p = Inr s \<longleftrightarrow>
     (p = ch_PartyA ch \<or> p = ch_PartyB ch) \<and>
     (\<exists>s'. applyKind cr t (baseState ch) (IsA ch p) = Inr s' \<and> s = s'\<lparr>st_Op := opForKind (tr_Kind t)\<rparr>)"
  by (auto simp: Apply_def res_simps)

lemma baseState_simps [simp]:
  "st_Channel (baseState ch) = ch_ID ch" "st_Nonce (baseState ch) = latestNonce ch + 1"
  "st_Pending (baseState ch) = clonePending (st_Pending (latestState ch))"
  "st_WithdrawA (baseState ch) = None" "st_WithdrawB (baseState ch) = None"
  by (simp_all add: baseState_def Let_def)

definition baseTotal :: "Channel \<Rightarrow> int" where
  \<comment> \<open>the value in the channel before a transition: deposits if nothing was agreed yet\<close>
  "baseTotal ch =
     (if isFirst ch then orZero (ch_DepositA ch) + orZero (ch_DepositB ch)
      else orZero (st_BalanceA (latestState ch)) + orZero (st_BalanceB (latestState ch)))
     + lockedTotal (latestState ch)"

lemma stateTotal_baseState: "stateTotal (baseState ch) = baseTotal ch"
  by (simp add: stateTotal_def baseTotal_def lockedTotal_def baseState_def Let_def)

lemma Apply_frame:
  assumes "Apply cr t ch p = Inr s"
  shows "st_Channel s = ch_ID ch" "st_Nonce s = latestNonce ch + 1" "st_Op s = opForKind (tr_Kind t)"
  using assms by (auto simp: Apply_iff applyKind_frame)

lemma stateTotal_Op [simp]: "stateTotal (s\<lparr>st_Op := k\<rparr>) = stateTotal s"
  by (simp add: stateTotal_def)

lemma Apply_total: "Apply cr t ch p = Inr s \<Longrightarrow> stateTotal s = baseTotal ch"
  by (auto simp: Apply_iff stateTotal_baseState dest: applyKind_total)

text \<open>
  The condition a channel record keeps between transitions: either nothing was agreed and the
  deposits are not negative, or the latest state is valid and takes nothing out.
\<close>

definition settledBase :: "crypto \<Rightarrow> Channel \<Rightarrow> bool" where
  "settledBase cr ch \<longleftrightarrow>
     (if isFirst ch
      then st_Pending (latestState ch) = [] \<and> 0 \<le> orZero (ch_DepositA ch) \<and> 0 \<le> orZero (ch_DepositB ch)
      else validState cr ch (ch_Latest ch) \<and> orZero (st_WithdrawA (latestState ch)) = 0
        \<and> orZero (st_WithdrawB (latestState ch)) = 0)"

lemma settledBase_total:
  "settledBase cr ch \<Longrightarrow> baseTotal ch = orZero (ch_DepositA ch) + orZero (ch_DepositB ch)"
  by (auto simp: settledBase_def baseTotal_def validState_def Conserved_def stateTotal_def
      lockedTotal_def split: if_splits)

lemma settledBase_nonneg: "settledBase cr ch \<Longrightarrow> 0 \<le> balance (baseState ch) b"
  by (auto simp: settledBase_def validState_def balance_def baseState_def Let_def split: if_splits)

lemma settledBase_locksOK: "settledBase cr ch \<Longrightarrow> locksOK (st_Pending (latestState ch))"
  by (auto simp: settledBase_def validState_def locksOK_def split: if_splits)

lemma Apply_locksOK:
  "Apply cr t ch p = Inr s \<Longrightarrow> locksOK (st_Pending (latestState ch)) \<Longrightarrow> locksOK (st_Pending s)"
  by (auto simp: Apply_iff dest: applyKind_locksOK)

lemma Apply_nonneg:
  assumes "Apply cr t ch p = Inr s" "settledBase cr ch"
  shows "0 \<le> balance s b"
proof -
  from assms(1) obtain s' where
    s': "applyKind cr t (baseState ch) (IsA ch p) = Inr s'" "s = s'\<lparr>st_Op := opForKind (tr_Kind t)\<rparr>"
    by (auto simp: Apply_iff)
  from applyKind_nonneg [OF s'(1)] settledBase_nonneg [OF assms(2)] settledBase_locksOK [OF assms(2)]
  show ?thesis by (simp add: s'(2))
qed

lemma nonce_succ_greater: "(n :: u64) + 1 \<noteq> 0 \<Longrightarrow> n < n + 1"
  using unatSuc [of n] by (simp add: word_less_nat_alt add.commute)

lemma Apply_validState:
  assumes "Apply cr t ch p = Inr s" "settledBase cr ch"
    and "Complete \<lparr>ss_State = s, ss_SigA = sa, ss_SigB = sb\<rparr>"
    and "signedBoth cr ch \<lparr>ss_State = s, ss_SigA = sa, ss_SigB = sb\<rparr>"
  shows "validState cr ch \<lparr>ss_State = s, ss_SigA = sa, ss_SigB = sb\<rparr>"
proof -
  have "Conserved s (ch_DepositA ch) (ch_DepositB ch)"
    using Apply_total [OF assms(1)] settledBase_total [OF assms(2)] by (simp add: Conserved_def)
  moreover have "0 \<le> orZero (st_BalanceA s)" "0 \<le> orZero (st_BalanceB s)"
    using Apply_nonneg [OF assms(1,2), of True] Apply_nonneg [OF assms(1,2), of False]
    by (simp_all add: balance_def)
  ultimately show ?thesis
    using assms(3,4) Apply_locksOK [OF assms(1) settledBase_locksOK [OF assms(2)]] Apply_frame [OF assms(1)]
    by (simp add: validState_def)
qed

subsection \<open>Inserting and finding a lock\<close>

lemma findLock_append:
  "i \<notin> h_ID ` set xs \<Longrightarrow> findLock (xs @ h # ys) i = (if h_ID h = i then Some (length xs)
     else map_option (\<lambda>k. k + Suc (length xs)) (findLock ys i))"
  by (induction xs) (auto simp: option.map_comp comp_def)

lemma findLock_insertLock:
  assumes "h_ID add \<notin> h_ID ` set hs"
  obtains k where "findLock (insertLock hs add) (h_ID add) = Some k"
    "insertLock hs add ! k = add" "removeAt (insertLock hs add) k = hs"
proof -
  obtain k where k: "k \<le> length hs" "insertLock hs add = take k hs @ add # drop k hs"
    using insertLock_split by blast
  have "h_ID add \<notin> h_ID ` set (take k hs)"
    using assms by (auto dest: in_set_takeD)
  then have "findLock (insertLock hs add) (h_ID add) = Some k"
    using k by (simp add: findLock_append)
  moreover have "insertLock hs add ! k = add"
    using k by (simp add: nth_append)
  moreover have "removeAt (insertLock hs add) k = hs"
    using k by (simp add: removeAt_def)
  ultimately show thesis by (rule that)
qed

lemma clonePending_idem [simp]: "clonePending (clonePending hs) = clonePending hs"
  by (simp add: clonePending_def comp_def)

lemma clonePending_insertLock:
  "clonePending (insertLock hs add) = insertLock (clonePending hs) (add\<lparr>h_Amount := Some (orZero (h_Amount add))\<rparr>)"
  by (induction hs) (simp_all add: clonePending_def)

definition withLatest :: "Channel \<Rightarrow> State \<Rightarrow> bytes \<Rightarrow> bytes \<Rightarrow> Channel" where
  \<comment> \<open>the record after a state was agreed\<close>
  "withLatest ch s sa sb = ch\<lparr>ch_Latest := \<lparr>ss_State = s, ss_SigA = sa, ss_SigB = sb\<rparr>\<rparr>"

lemma balance_base_withLatest:
  assumes "length sa = 65" "length sb = 65"
  shows "balance (baseState (withLatest ch s sa sb)) b = balance s b"
  using assms by (simp add: balance_def baseState_def withLatest_def isFirst_def Complete_def Let_def)

lemma withLatest_simps [simp]:
  "latestState (withLatest ch s sa sb) = s" "ch_PartyA (withLatest ch s sa sb) = ch_PartyA ch"
  "ch_PartyB (withLatest ch s sa sb) = ch_PartyB ch" "IsA (withLatest ch s sa sb) p = IsA ch p"
  by (simp_all add: withLatest_def IsA_def)

lemma lockAdd_next:
  assumes add: "Apply cr t ch p = Inr s1" "tr_Kind t = KindLockAdd"
    and sig: "length sa = 65" "length sb = 65"
  obtains amt lock k where "tr_Amount t = Some amt" "0 < amt" "amt \<le> balance (baseState ch) (IsA ch p)"
    "h_Hash lock = tr_Hash t" "h_Amount lock = Some amt" "h_PayerIsA lock = IsA ch p"
    "findLock (st_Pending (baseState (withLatest ch s1 sa sb))) (tr_LockID t) = Some k"
    "st_Pending (baseState (withLatest ch s1 sa sb)) ! k = lock"
    "removeAt (st_Pending (baseState (withLatest ch s1 sa sb))) k = clonePending (st_Pending (latestState ch))"
    "\<forall>c. balance (baseState (withLatest ch s1 sa sb)) c
        = balance (baseState ch) c - (if c = IsA ch p then amt else 0)"
proof -
  let ?A = "IsA ch p" and ?P = "clonePending (st_Pending (latestState ch))"
  from add(1) obtain s where
    s: "applyKind cr t (baseState ch) ?A = Inr s" "s1 = s\<lparr>st_Op := opForKind (tr_Kind t)\<rparr>"
    by (auto simp: Apply_iff)
  from s(1) add(2) obtain amt where amt: "tr_Amount t = Some amt" "0 < amt" "amt \<le> balance (baseState ch) ?A"
    and fresh: "tr_LockID t \<notin> h_ID ` set ?P"
    and s_eq: "s = (setBalance (baseState ch) ?A (balance (baseState ch) ?A - amt))
      \<lparr>st_Pending := insertLock ?P
        \<lparr>h_ID = tr_LockID t, h_Hash = tr_Hash t, h_Amount = Some amt, h_Expiry = tr_Expiry t, h_PayerIsA = ?A\<rparr>\<rparr>"
    by (cases rule: applyKind_cases) auto
  define lock where "lock = \<lparr>h_ID = tr_LockID t, h_Hash = tr_Hash t, h_Amount = Some amt,
    h_Expiry = tr_Expiry t, h_PayerIsA = ?A\<rparr>"
  have pend: "st_Pending (baseState (withLatest ch s1 sa sb)) = insertLock ?P lock"
    by (simp add: s(2) s_eq clonePending_insertLock lock_def)
  obtain k where k: "findLock (insertLock ?P lock) (tr_LockID t) = Some k"
    "insertLock ?P lock ! k = lock" "removeAt (insertLock ?P lock) k = ?P"
    using findLock_insertLock [of lock ?P] fresh by (auto simp: lock_def)
  have "balance (baseState (withLatest ch s1 sa sb)) c
      = balance (baseState ch) c - (if c = ?A then amt else 0)" for c
    using sig by (simp add: balance_base_withLatest s(2) s_eq)
  then show thesis
    using amt k that [of amt lock k] unfolding pend by (simp add: lock_def)
qed

lemma Apply_takes:
  assumes ap: "Apply cr t ch p = Inr s" and ok: "locksOK (st_Pending (latestState ch))"
  shows "balance (baseState ch) (\<not> IsA ch p) \<le> balance s (\<not> IsA ch p) \<and>
    (tr_Kind t \<in> {KindPay, KindLockAdd, KindCheckpoint} \<longrightarrow>
       (\<exists>amt > 0. tr_Amount t = Some amt \<and> balance s (IsA ch p) = balance (baseState ch) (IsA ch p) - amt))"
proof -
  from ap obtain s' where
    s': "applyKind cr t (baseState ch) (IsA ch p) = Inr s'" "s = s'\<lparr>st_Op := opForKind (tr_Kind t)\<rparr>"
    by (auto simp: Apply_iff)
  have "locksOK (clonePending (st_Pending (latestState ch)))"
    using ok by simp
  then have pos: "i < length (st_Pending (latestState ch)) \<Longrightarrow>
      0 \<le> orZero (h_Amount (clonePending (st_Pending (latestState ch)) ! i))" for i
    unfolding locksOK_def by (metis clonePending_sums(3) less_imp_le nth_mem)
  from s'(1) show ?thesis
    by (cases rule: applyKind_cases) (auto simp: s'(2) give_def Let_def pos)
qed

subsection \<open>Properties\<close>

text \<open>
  (C5) Value conservation of a transition. Whatever its kind and whoever proposes it, the balances,
  the live locks and the withdrawals of the state \<^verbatim>\<open>Apply\<close> produces add up to the balances and locks
  of the state it starts from (the deposits, when nothing was agreed yet).
\<close>

theorem Apply_conserves_value:
  assumes "Apply cr t ch p = Inr s"
  shows "orZero (st_BalanceA s) + orZero (st_BalanceB s) + lockedTotal s
      + orZero (st_WithdrawA s) + orZero (st_WithdrawB s)
    = (if isFirst ch then orZero (ch_DepositA ch) + orZero (ch_DepositB ch)
       else orZero (st_BalanceA (latestState ch)) + orZero (st_BalanceB (latestState ch)))
      + lockedTotal (latestState ch)"
  using Apply_total [OF assms] by (simp only: stateTotal_def baseTotal_def)

lemma demo_pay_state:
  "Apply demoCrypto (demoPay 30) demoChannel demoA =
     Inr \<lparr> st_Channel = demoID, st_Nonce = 1, st_BalanceA = Some 70, st_BalanceB = Some 80,
       st_Pending = [], st_WithdrawA = None, st_WithdrawB = None, st_Op = 1 \<rparr>"
  by (simp add: Apply_def applyKind_def baseState_def Let_def requirePositive_def move_def takeFrom_def
      give_def setBalance_def balance_def demo_defs isFirst_def Complete_def IsA_def opForKind_def
      Op_defs clonePending_def)

lemma demo_pay_ok: "\<exists>s. Apply demoCrypto (demoPay 30) demoChannel demoA = Inr s"
  by (simp add: demo_pay_state)

theorem Apply_conserves_value_witness:
  "\<exists>s. Apply demoCrypto (demoPay 30) demoChannel demoA = Inr s \<and>
     orZero (st_BalanceA s) + orZero (st_BalanceB s) + lockedTotal s
       + orZero (st_WithdrawA s) + orZero (st_WithdrawB s) = 150"
proof -
  obtain s where s: "Apply demoCrypto (demoPay 30) demoChannel demoA = Inr s"
    using demo_pay_ok by blast
  from Apply_conserves_value [OF s] show ?thesis
    using s by (simp add: demo_defs isFirst_def Complete_def lockedTotal_def)
qed

text \<open>
  (C13) A proposal takes from nobody but its proposer. In the state \<^verbatim>\<open>Apply\<close> produces, the balance of
  the party that did not propose is never smaller than before; and for PAY, LOCK_ADD and CHECKPOINT
  the proposer's balance is smaller by exactly the positive amount stated.
\<close>

theorem Apply_takes_only_from_proposer:
  assumes ap: "Apply cr t ch p = Inr s" and ok: "locksOK (st_Pending (latestState ch))"
  shows "balance (baseState ch) (\<not> IsA ch p) \<le> balance s (\<not> IsA ch p) \<and>
    (tr_Kind t \<in> {KindPay, KindLockAdd, KindCheckpoint} \<longrightarrow>
       (\<exists>amt > 0. tr_Amount t = Some amt \<and> balance s (IsA ch p) = balance (baseState ch) (IsA ch p) - amt))"
  using Apply_takes [OF assms] .

theorem Apply_takes_only_from_proposer_witness:
  "balance (baseState demoChannel) False \<le> 80 \<and>
   (\<exists>amt > 0. tr_Amount (demoPay 30) = Some amt \<and> (70 :: int) = 100 - amt)"
proof -
  have ok: "locksOK (st_Pending (latestState demoChannel))"
    by (simp add: demo_defs locksOK_def)
  have "IsA demoChannel demoA"
    by (simp add: IsA_def demo_defs)
  then show ?thesis
    using Apply_takes_only_from_proposer [OF demo_pay_state ok]
    by (simp add: demo_defs balance_def baseState_def isFirst_def Complete_def Let_def)
qed

text \<open>
  (C14) What a transition produces is acceptable. On an open channel whose last agreed state is valid
  and took nothing out (or on a fresh one), if \<^verbatim>\<open>Apply\<close> succeeds, the nonce does not wrap, and both
  parties sign the resulting state, then \<^verbatim>\<open>Accept\<close> takes it and it becomes the latest state.
\<close>

theorem Apply_then_Accept:
  assumes ap: "Apply cr t ch p = Inr s" and base: "settledBase cr ch"
    and "ch_Status ch = StatusOpen" "latestNonce ch + 1 \<noteq> 0"
    and "Complete \<lparr>ss_State = s, ss_SigA = sa, ss_SigB = sb\<rparr>"
    and "signedBoth cr ch \<lparr>ss_State = s, ss_SigA = sa, ss_SigB = sb\<rparr>"
  shows "\<exists>ch'. Accept cr ch \<lparr>ss_State = s, ss_SigA = sa, ss_SigB = sb\<rparr> = Inr ch' \<and>
    latestState ch' = s \<and> latestNonce ch' = latestNonce ch + 1"
  using assms Apply_validState [OF ap base assms(5,6)] Apply_frame [OF ap]
    nonce_succ_greater [of "latestNonce ch"]
  by (simp add: Accept_iff)

theorem Apply_then_Accept_witness:
  "\<exists>s ch'. Accept demoCrypto demoChannel (demoSigned s) = Inr ch' \<and> latestNonce ch' = 1"
proof -
  obtain s where s: "Apply demoCrypto (demoPay 30) demoChannel demoA = Inr s"
    using demo_pay_ok by blast
  have base: "settledBase demoCrypto demoChannel" and "ch_Status demoChannel = StatusOpen"
    "latestNonce demoChannel + 1 \<noteq> 0"
    by (simp_all add: settledBase_def demo_defs isFirst_def Complete_def)
  moreover have "Complete (demoSigned s)" "signedBoth demoCrypto demoChannel (demoSigned s)"
    by (simp_all add: demoChannel_def)
  ultimately show ?thesis
    using Apply_then_Accept [OF s base, of "demoSig demoA" "demoSig demoB"]
    by (auto simp: demoSigned_def demo_defs)
qed

text \<open>
  (C15) A conditional payment that is offered and then settled with its preimage moves exactly what a
  direct payment of the same amount would have moved: the same two balances and the same remaining
  locks, two nonces later.
\<close>

theorem lock_settle_equals_pay:
  assumes add: "Apply cr t ch p = Inr s1" "tr_Kind t = KindLockAdd"
    and sig: "length sa = 65" "length sb = 65"
    and pre: "copyArr 32 (keccak cr [x]) = tr_Hash t"
    and settle: "tr_Kind t' = KindLockSettle" "tr_LockID t' = tr_LockID t" "tr_Preimage t' = x"
    and q: "q = ch_PartyA ch \<or> q = ch_PartyB ch"
  shows "\<exists>s2 s'. Apply cr t' (withLatest ch s1 sa sb) q = Inr s2 \<and>
    Apply cr (t\<lparr>tr_Kind := KindPay\<rparr>) ch p = Inr s' \<and>
    balance s2 b = balance s' b \<and> st_Pending s2 = st_Pending s'"
proof -
  let ?ch = "withLatest ch s1 sa sb" and ?A = "IsA ch p"
  obtain amt lock k where n: "tr_Amount t = Some amt" "0 < amt" "amt \<le> balance (baseState ch) ?A"
    "h_Hash lock = tr_Hash t" "h_Amount lock = Some amt" "h_PayerIsA lock = ?A"
    "findLock (st_Pending (baseState ?ch)) (tr_LockID t) = Some k" "st_Pending (baseState ?ch) ! k = lock"
    "removeAt (st_Pending (baseState ?ch)) k = clonePending (st_Pending (latestState ch))"
    and bal: "\<forall>c. balance (baseState ?ch) c = balance (baseState ch) c - (if c = ?A then amt else 0)"
    by (rule lockAdd_next [OF add sig]) blast
  have "HTLC_Matches cr lock x"
    by (simp add: HTLC_Matches_def n pre)
  then have s2: "Apply cr t' ?ch q = Inr ((give (baseState ?ch) (\<not> ?A) amt)
      \<lparr>st_Pending := clonePending (st_Pending (latestState ch)), st_Op := opForKind (tr_Kind t')\<rparr>)"
    using q settle n by (simp del: baseState_simps add: Apply_def applyKind_def Let_def give_def)
  have p: "p = ch_PartyA ch \<or> p = ch_PartyB ch"
    using add(1) by (auto simp: Apply_iff)
  have pay: "Apply cr (t\<lparr>tr_Kind := KindPay\<rparr>) ch p
      = Inr ((give (setBalance (baseState ch) ?A (balance (baseState ch) ?A - amt)) (\<not> ?A) amt)
          \<lparr>st_Op := opForKind KindPay\<rparr>)"
    using p n by (auto simp: Apply_def applyKind_def requirePositive_def move_def takeFrom_def)
  show ?thesis
    using s2 pay by (simp add: give_def bal)
qed

definition demoOffered :: State where
  "demoOffered = \<lparr> st_Channel = demoID, st_Nonce = 1, st_BalanceA = Some 70, st_BalanceB = Some 50,
     st_Pending = [\<lparr> h_ID = demoID, h_Hash = demoID, h_Amount = Some 30, h_Expiry = 5000,
       h_PayerIsA = True \<rparr>], st_WithdrawA = None, st_WithdrawB = None, st_Op = 1 \<rparr>"

lemma demo_offer: "Apply demoCrypto (demoLock KindLockAdd) demoChannel demoA = Inr demoOffered"
  by (simp add: Apply_def applyKind_def baseState_def Let_def requirePositive_def takeFrom_def
      setBalance_def balance_def demo_defs isFirst_def Complete_def IsA_def opForKind_def
      Op_defs clonePending_def demoOffered_def)

lemma demo_sig_len: "length (demoSig demoA) = 65" "length (demoSig demoB) = 65"
  by (simp_all add: demoSig_def demoA_def demoB_def)

lemma demo_preimage: "copyArr 32 (keccak demoCrypto [demoID]) = demoID"
  by (simp add: keccak_def demoCrypto_def demoID_def)

theorem lock_settle_equals_pay_witness:
  "\<exists>s2 s'. Apply demoCrypto (demoLock KindLockSettle)
       (withLatest demoChannel demoOffered (demoSig demoA) (demoSig demoB)) demoB = Inr s2 \<and>
     Apply demoCrypto ((demoLock KindLockAdd)\<lparr>tr_Kind := KindPay\<rparr>) demoChannel demoA = Inr s' \<and>
     balance s2 False = balance s' False \<and> st_Pending s2 = st_Pending s'"
  by (rule lock_settle_equals_pay [OF demo_offer _ demo_sig_len, where x = demoID])
    (simp_all add: demoLock_def demo_preimage demoChannel_def)

text \<open>
  A conditional payment that is offered and then refunded moves nothing: both balances and the
  locks that were live before it are back.
\<close>

theorem lock_refund_restores:
  assumes add: "Apply cr t ch p = Inr s1" "tr_Kind t = KindLockAdd"
    and sig: "length sa = 65" "length sb = 65"
    and refund: "tr_Kind t' = KindLockRefund" "tr_LockID t' = tr_LockID t"
    and q: "q = ch_PartyA ch \<or> q = ch_PartyB ch"
  shows "\<exists>s2. Apply cr t' (withLatest ch s1 sa sb) q = Inr s2 \<and>
    balance s2 b = balance (baseState ch) b \<and> st_Pending s2 = st_Pending (baseState ch)"
proof -
  let ?ch = "withLatest ch s1 sa sb" and ?A = "IsA ch p"
  obtain amt lock k where n: "h_Amount lock = Some amt" "h_PayerIsA lock = ?A"
    "findLock (st_Pending (baseState ?ch)) (tr_LockID t) = Some k" "st_Pending (baseState ?ch) ! k = lock"
    "removeAt (st_Pending (baseState ?ch)) k = clonePending (st_Pending (latestState ch))"
    and bal: "\<forall>c. balance (baseState ?ch) c = balance (baseState ch) c - (if c = ?A then amt else 0)"
    by (rule lockAdd_next [OF add sig]) blast
  then have "Apply cr t' ?ch q = Inr ((give (baseState ?ch) ?A amt)
      \<lparr>st_Pending := clonePending (st_Pending (latestState ch)), st_Op := opForKind (tr_Kind t')\<rparr>)"
    using q refund by (simp del: baseState_simps add: Apply_def applyKind_def Let_def give_def)
  then show ?thesis
    by (simp add: give_def bal)
qed

theorem lock_refund_restores_witness:
  "\<exists>s2. Apply demoCrypto (demoLock KindLockRefund)
       (withLatest demoChannel demoOffered (demoSig demoA) (demoSig demoB)) demoA = Inr s2 \<and>
     balance s2 True = balance (baseState demoChannel) True \<and>
     st_Pending s2 = st_Pending (baseState demoChannel)"
  by (rule lock_refund_restores [OF demo_offer _ demo_sig_len])
    (simp_all add: demoLock_def demoChannel_def)

end
