(* ===== verification/Wire_Props.thy ===== *)
theory Wire_Props
  imports Wire Channel_Props Transition_Props
begin

text \<open>
  What survives the wire and the disk: a state decodes to itself up to the representation of absent
  values, its digest is unchanged, and what the strict decoder lets in has one canonical lock order,
  a known operation domain and no negative withdrawal.
\<close>

subsection \<open>Field parsers\<close>

lemma parseDec_decString [simp]: "parseDec (decString n) = Inr (Some (orZero n))"
proof (cases n)
  case None
  have "''0'' = decimal 0"
    by code_simp
  then show ?thesis
    using setString_decimal [of 0] by (simp add: None decString_def parseDec_def)
qed (simp add: decString_def parseDec_def)

lemma parseDec_Nil [simp]: "parseDec [] = Inr (Some 0)"
  by (simp add: parseDec_def)

lemma parseUnsignedDec_omitted [simp]:
  "0 \<le> orZero n \<Longrightarrow> parseUnsignedDec (if orZero n > 0 then decString n else []) = Inr (Some (orZero n))"
  by (auto simp: parseUnsignedDec_def)

lemma parseBytes32_iff [res_simps]: "parseBytes32 s = Inr v \<longleftrightarrow> hexDecode s = Some v \<and> length v = 32"
  by (auto simp: parseBytes32_def split: option.splits)

lemma parseBytes32_hex [simp]: "length v = 32 \<Longrightarrow> parseBytes32 (hexEncode v) = Inr v"
  by (simp add: parseBytes32_iff)

lemma parseSig_iff [res_simps]: "parseSig s = Inr v \<longleftrightarrow> hexDecode s = Some v \<and> length v = 65"
  by (auto simp: parseSig_def split: option.splits)

lemma hexField_hex [simp]: "hexField (hexEncode v) = Inr v"
  by (simp add: hexField_def)

lemma parseUnsignedDec_nonneg: "parseUnsignedDec s = Inr n \<Longrightarrow> n \<noteq> None \<and> 0 \<le> orZero n"
  by (auto simp: parseUnsignedDec_def parseDec_def res_simps split: if_splits option.splits)

lemma parseDec_Some: "parseDec s = Inr n \<Longrightarrow> n \<noteq> None"
  by (cases n) (auto simp: parseDec_def split: if_splits option.splits)

lemma optBytes32_hex [simp]: "length v = 32 \<Longrightarrow> optBytes32 (hexUnlessZero v) = Inr v"
proof -
  assume len: "length v = 32"
  then have "hexEncode v \<noteq> []"
    by (cases v) auto
  with len show ?thesis
    by (simp add: optBytes32_def hexUnlessZero_def)
qed

subsection \<open>Locks\<close>

lemma decodeLocks_encode:
  "canonical hs \<Longrightarrow> (\<forall>h \<in> set hs. length (h_Hash h) = 32) \<Longrightarrow>
   (case p of None \<Rightarrow> True | Some i \<Rightarrow> length i = 32 \<and> (\<forall>h \<in> set hs. i < h_ID h)) \<Longrightarrow>
   decodeLocks p (map encodeHTLC hs) = Inr (clonePending hs)"
proof (induction hs arbitrary: p)
  case (Cons h hs)
  have enc: "map encodeHTLC (h # hs) = \<lparr> sh_ID = hexEncode (h_ID h), sh_Hash = hexEncode (h_Hash h),
     sh_Amount = decString (h_Amount h), sh_Expiry = h_Expiry h, sh_PayerIsA = h_PayerIsA h \<rparr>
     # map encodeHTLC hs"
    by (simp add: encodeHTLC_def)
  have "decodeLocks (Some (h_ID h)) (map encodeHTLC hs) = Inr (clonePending hs)"
    using Cons.prems by (intro Cons.IH) (auto simp: canonical_def)
  moreover have "\<not> (case p of None \<Rightarrow> False | Some i \<Rightarrow> \<not> lessID i (h_ID h))"
    using Cons.prems by (cases p) (auto simp: canonical_def lessID_iff)
  ultimately show ?case
    unfolding enc using Cons.prems by (simp add: canonical_def clonePending_def)
qed (simp add: clonePending_def)

lemma decodeLocks_canonical:
  "decodeLocks p ws = Inr hs \<Longrightarrow> (case p of None \<Rightarrow> True | Some i \<Rightarrow> length i = 32) \<Longrightarrow>
   canonical hs \<and> (\<forall>h \<in> set hs. length (h_Hash h) = 32 \<and> h_Amount h \<noteq> None) \<and>
   (case p of None \<Rightarrow> True | Some i \<Rightarrow> (\<forall>h \<in> set hs. i < h_ID h))"
proof (induction p ws arbitrary: hs rule: decodeLocks.induct)
  case (2 p w ws)
  from "2.prems"(1) obtain i hash amount rest where
    i: "parseBytes32 (sh_ID w) = Inr i"
    and ord: "\<not> (case p of None \<Rightarrow> False | Some q \<Rightarrow> \<not> lessID q i)"
    and hash: "parseBytes32 (sh_Hash w) = Inr hash" and amount: "parseDec (sh_Amount w) = Inr amount"
    and rest: "decodeLocks (Some i) ws = Inr rest"
    and hs: "hs = \<lparr> h_ID = i, h_Hash = hash, h_Amount = amount, h_Expiry = sh_Expiry w,
                  h_PayerIsA = sh_PayerIsA w \<rparr> # rest"
    by (simp add: bindR_Inr split: if_splits) blast
  have len: "length i = 32" "length hash = 32"
    using i hash by (simp_all add: parseBytes32_iff)
  have IH: "canonical rest" "\<forall>h \<in> set rest. length (h_Hash h) = 32 \<and> h_Amount h \<noteq> None"
    "\<forall>h \<in> set rest. i < h_ID h"
    using "2.IH" [OF ord rest] len by auto
  have "case p of None \<Rightarrow> True | Some q \<Rightarrow> q < i"
    using ord "2.prems"(2) len by (cases p) (auto simp: lessID_iff)
  with IH len hs parseDec_Some [OF amount] show ?case
    by (cases p) (auto simp: canonical_def dest: order.strict_trans)
qed (auto simp: canonical_def split: option.splits)

subsection \<open>States\<close>

definition wireOK :: "State \<Rightarrow> bool" where
  \<comment> \<open>array lengths, canonical locks, a declared domain, no negative withdrawal\<close>
  "wireOK s \<longleftrightarrow> length (st_Channel s) = 32 \<and> canonical (st_Pending s) \<and>
     (\<forall>h \<in> set (st_Pending s). length (h_Hash h) = 32) \<and>
     0 \<le> orZero (st_WithdrawA s) \<and> 0 \<le> orZero (st_WithdrawB s) \<and>
     st_op s \<in> {OpState, OpCoopClose, OpCheckpoint}"

definition normState :: "State \<Rightarrow> State" where
  \<comment> \<open>nil amounts read back as zero, an unset domain as the ordinary one\<close>
  "normState s = s\<lparr>st_BalanceA := Some (orZero (st_BalanceA s)), st_BalanceB := Some (orZero (st_BalanceB s)),
     st_Pending := clonePending (st_Pending s), st_WithdrawA := Some (orZero (st_WithdrawA s)),
     st_WithdrawB := Some (orZero (st_WithdrawB s)), st_Op := st_op s\<rparr>"

definition normSigned :: "SignedState \<Rightarrow> SignedState" where
  "normSigned ss = ss\<lparr>ss_State := normState (ss_State ss)\<rparr>"

lemma st_op_norm [simp]: "st_op (normState s) = st_op s"
  by (simp add: st_op_def normState_def Op_defs)

lemma htlcBytes_orZero: "htlcBytes (h\<lparr>h_Amount := Some (orZero (h_Amount h))\<rparr>) = htlcBytes h"
  by (simp add: htlcBytes_def u256_orZero)

lemma htlcBytes_clone:
  "map htlcBytes (sort_key h_ID (clonePending hs)) = map htlcBytes (sort_key h_ID hs)"
proof -
  let ?f = "\<lambda>h. h\<lparr>h_Amount := Some (orZero (h_Amount h))\<rparr>"
  have ins: "map ?f (insort_key h_ID x ys) = insort_key h_ID (?f x) (map ?f ys)" for x ys
    by (induction ys) auto
  have "sort_key h_ID (map ?f hs) = map ?f (sort_key h_ID hs)"
    by (induction hs) (simp_all add: ins)
  then show ?thesis
    by (simp add: clonePending_def htlcBytes_orZero comp_def)
qed

lemma HTLCRoot_norm [simp]: "HTLCRoot cr (normState s) = HTLCRoot cr s"
proof -
  have "st_Pending (normState s) = clonePending (st_Pending s)"
    by (simp add: normState_def)
  then show ?thesis
    unfolding HTLCRoot_def by (simp only: htlcBytes_clone) (simp add: clonePending_def)
qed

lemma Digest_norm [simp]: "Digest cr (normState s) c k = Digest cr s c k"
  unfolding Digest_def StateDigest_def st_op_norm HTLCRoot_norm
  by (simp add: normState_def u256_orZero)

lemma normState_nonce [simp]:
  "st_Nonce (normState s) = st_Nonce s" "st_Channel (normState s) = st_Channel s"
  by (simp_all add: normState_def)

lemma normState_idem [simp]: "normState (normState s) = normState s"
  by (simp add: normState_def st_op_def clonePending_def Op_defs)

lemma decode_encode_state: "wireOK s \<Longrightarrow> decodeStateWire (encodeStateWire s) = Inr (normState s)"
  by (auto simp: decodeStateWire_def encodeStateWire_def wireOK_def normState_def Let_def
      decodeLocks_encode [where p = None, simplified] st_op_def Op_defs split: if_splits)

lemma clonePending_id: "(\<And>h. h \<in> set hs \<Longrightarrow> h_Amount h \<noteq> None) \<Longrightarrow> clonePending hs = hs"
  unfolding clonePending_def by (rule map_idI) (force intro!: HTLC.equality)

lemma decodeStateWire_D:
  assumes "decodeStateWire w = Inr s"
  shows "wireOK s \<and> normState s = s \<and> st_Nonce s = sw_Nonce w"
  using assms
  by (auto simp: decodeStateWire_def Let_def bindR_Inr parseBytes32_iff wireOK_def normState_def st_op_def
      dest!: parseUnsignedDec_nonneg parseDec_Some decodeLocks_canonical
      split: if_splits intro!: clonePending_id)

text \<open>The state encoding as a codec: distinct normal states have distinct encodings.\<close>

definition decodeStateOpt :: "storedState \<Rightarrow> State option" where
  "decodeStateOpt w = (case decodeStateWire w of Inl _ \<Rightarrow> None | Inr s \<Rightarrow> Some s)"

interpretation wire: codec encodeStateWire decodeStateOpt "\<lambda>s. wireOK s \<and> normState s = s"
  by unfold_locales (simp add: decodeStateOpt_def decode_encode_state)

definition normTransition :: "StateTransition \<Rightarrow> StateTransition" where
  "normTransition t = t\<lparr>tr_Amount := Some (orZero (tr_Amount t))\<rparr>"

lemma decimal_Some: "decimal v = decString (Some v)"
  by (simp add: decString_def)

lemma decString_nonempty [simp]: "decString n \<noteq> []"
  by (simp add: decString_def split: option.split)

lemma decode_encode_transition:
  assumes "length (tr_LockID t) = 32" "length (tr_Hash t) = 32" "length (tr_Preimage t) = 32"
  shows "decodeTransitionWire (encodeTransitionWire t) = Inr (normTransition t)"
  using assms
  by (cases "tr_Amount t")
    (auto simp: decodeTransitionWire_def encodeTransitionWire_def normTransition_def decimal_Some
      intro!: StateTransition.equality)

lemma decode_encode_signed:
  "wireOK (ss_State ss) \<Longrightarrow>
   decodeSignedWire (encodeStateWire (ss_State ss)) (hexEncode (ss_SigA ss)) (hexEncode (ss_SigB ss))
     = Inr (normSigned ss)"
  by (simp add: decodeSignedWire_def decode_encode_state normSigned_def)

subsection \<open>Framing\<close>

lemma length_putUint32 [simp, bytes_len]: "length (putUint32 n) = 4"
  by (simp add: putUint32_def)

lemma bytesNat_putUint32:
  assumes "n < 2 ^ 32"
  shows "bytesNat (putUint32 n) = n"
proof -
  define q1 where "q1 = n div 256"
  define q2 where "q2 = q1 div 256"
  define q3 where "q3 = q2 div 256"
  have divs: "n div 256 ^ 2 = q2" "n div 256 ^ 3 = q3" "n div 256 = q1"
    by (simp_all add: q1_def q2_def q3_def div_mult2_eq [symmetric])
  have "q3 < 256"
    using assms unfolding q1_def q2_def q3_def by (simp add: div_mult2_eq [symmetric] less_mult_imp_div_less)
  then have "bytesNat (putUint32 n) = 256 * (256 * (256 * q3 + q2 mod 256) + q1 mod 256) + n mod 256"
    by (simp add: putUint32_def bytesNat_def unat_of_nat divs [simplified])
  also have "\<dots> = n"
    by (simp only: q3_def q2_def q1_def mult_div_mod_eq)
  finally show ?thesis .
qed

subsection \<open>Properties\<close>

text \<open>
  (C18) A state survives the disk and the wire. Encoding a state with a known domain, canonical locks
  and no negative withdrawal and decoding it again gives the same state with nil amounts read as zero,
  and both parties' signatures still cover it: its digest is unchanged for every chain and contract.
\<close>

theorem state_roundtrip:
  assumes "wireOK s"
  shows "\<exists>s'. decodeStateWire (encodeStateWire s) = Inr s' \<and> s' = normState s \<and>
    (\<forall>chainID contract. Digest cr s' chainID contract = Digest cr s chainID contract)"
  using decode_encode_state [OF assms] by simp

theorem state_roundtrip_witness:
  "\<exists>s'. decodeStateWire (encodeStateWire demoOffered) = Inr s' \<and> st_Pending s' \<noteq> [] \<and>
     Digest demoCrypto s' (Some 1) demoB = Digest demoCrypto demoOffered (Some 1) demoB"
proof -
  have "wireOK demoOffered"
    by (simp add: wireOK_def demoOffered_def canonical_def demoID_def st_op_def Op_defs)
  from state_roundtrip [OF this, of demoCrypto] show ?thesis
    by (auto simp: normState_def demoOffered_def clonePending_def)
qed

text \<open>
  The decoder is strict. Whatever a peer sends, a state that \<^verbatim>\<open>decodeStateWire\<close> returns has a
  32-byte channel, locks with strictly increasing 32-byte ids (so none is repeated), a declared
  operation domain, no negative withdrawal and no nil amount; and each such state is returned for its
  own encoding, so a lock set has exactly one order on the wire.
\<close>

theorem decodeStateWire_strict:
  "(\<exists>w. decodeStateWire w = Inr s) \<longleftrightarrow> wireOK s \<and> normState s = s"
  using decodeStateWire_D decode_encode_state by metis

text \<open>
  Framing. A message that \<^verbatim>\<open>WriteFrame\<close> accepts is read back unchanged by \<^verbatim>\<open>ReadFrame\<close>, whatever
  follows it in the stream, and exactly the bytes of the frame are consumed. The JSON encoder is taken
  to be undone by the decoder.
\<close>

theorem frame_roundtrip:
  assumes json: "unmarshal (marshal (msg\<lparr>en_V := ProtocolVersion\<rparr>)) = Some (msg\<lparr>en_V := ProtocolVersion\<rparr>)"
    and version: "en_V msg = 0 \<or> en_V msg = ProtocolVersion"
    and written: "WriteFrame marshal msg = Inr frame"
  shows "ReadFrame unmarshal (frame @ rest) = Inr (msg\<lparr>en_V := ProtocolVersion\<rparr>, rest)"
proof -
  let ?m = "msg\<lparr>en_V := ProtocolVersion\<rparr>"
  have m: "(if en_V msg = 0 then ?m else msg) = ?m"
    using version by auto
  have len: "length (marshal ?m) \<le> MaxFrameBytes" and frame: "frame = putUint32 (length (marshal ?m)) @ marshal ?m"
    using written by (simp_all only: WriteFrame_def Let_def m) (simp_all split: if_splits)
  have "bytesNat (putUint32 (length (marshal ?m))) = length (marshal ?m)"
    using len by (intro bytesNat_putUint32) (simp add: MaxFrameBytes_def)
  then show ?thesis
    using len json by (simp add: frame ReadFrame_def readFull_def)
qed

definition demoEnvelope :: Envelope where
  "demoEnvelope = \<lparr> en_V = 0, en_Type = MsgStateRequest, en_Channel = [], en_Body = [1, 2, 3] \<rparr>"

definition demoUnmarshal :: "bytes \<Rightarrow> Envelope option" where
  "demoUnmarshal b = Some \<lparr> en_V = 1, en_Type = MsgStateRequest, en_Channel = [], en_Body = b \<rparr>"

theorem frame_roundtrip_witness:
  "ReadFrame demoUnmarshal ([0, 0, 0, 3, 1, 2, 3] @ [9]) = Inr (demoEnvelope\<lparr>en_V := ProtocolVersion\<rparr>, [9])"
  by (rule frame_roundtrip [where marshal = en_Body])
    (simp_all add: demoEnvelope_def demoUnmarshal_def ProtocolVersion_def WriteFrame_def MaxFrameBytes_def
      putUint32_def Let_def)

text \<open>
  \<^verbatim>\<open>State.Equal\<close> does not look at the operation domain, so the check a payee makes before signing accepts
  the proposed state under any domain the peer chose, although the domain is the first word of what is
  signed.
\<close>

theorem Matches_ignores_domain:
  "Matches cr t ch proposer (s\<lparr>st_Op := k\<rparr>) = Matches cr t ch proposer s"
  by (simp add: Matches_def StateEqual_def cong: if_cong)

end
