(* ===== verification/History.thy ===== *)
theory History
  imports Wire_Props
begin

text \<open>
  The payment log of a channel, \<^verbatim>\<open>src/internal/channel/history.go\<close>: one record per intent, updated in
  place until it is resolved, bounded by \<^verbatim>\<open>historyCap\<close>.
\<close>

definition Resolved :: "PaymentRecord \<Rightarrow> bool" where
  "Resolved r = (case pr_Status r of
      PayCompleted \<Rightarrow> True | PayRefunded \<Rightarrow> True | PayRejected \<Rightarrow> True | _ \<Rightarrow> False)"

definition historyCap :: nat where
  "historyCap = 256"

definition mergeRecord :: "PaymentRecord \<Rightarrow> PaymentRecord \<Rightarrow> PaymentRecord" where
  \<comment> \<open>the update of an existing, unresolved record\<close>
  "mergeRecord existing r =
     r\<lparr>pr_CreatedAt := pr_CreatedAt existing,
       pr_Amount := (if pr_Amount r = [] \<or> pr_Amount r = ''0'' then pr_Amount existing else pr_Amount r),
       pr_Route := (if pr_Route r = RouteUnset then pr_Route existing else pr_Route r)\<rparr>"

text \<open>The loop over the slice: \<open>None\<close> when no record has the intent, so that the caller appends.\<close>

fun updateRecord :: "PaymentRecord list \<Rightarrow> PaymentRecord \<Rightarrow> PaymentRecord list option" where
  "updateRecord [] r = None"
| "updateRecord (h # hs) r =
     (if pr_Intent h \<noteq> pr_Intent r then map_option (\<lambda>hs'. h # hs') (updateRecord hs r)
      else if Resolved h then Some (h # hs)
      else Some (mergeRecord h r # hs))"

definition noteHistory :: "PaymentRecord list \<Rightarrow> PaymentRecord \<Rightarrow> PaymentRecord list" where
  "noteHistory hs r =
     (case updateRecord hs r of
        Some hs' \<Rightarrow> hs'
      | None \<Rightarrow>
          let hs' = hs @ [r]
          in if length hs' > historyCap then drop (length hs' - historyCap) hs' else hs')"

definition NotePayment :: "Channel \<Rightarrow> PaymentRecord \<Rightarrow> Channel" where
  "NotePayment c r = c\<lparr>ch_History := noteHistory (ch_History c) r\<rparr>"

definition PaymentAt :: "Channel \<Rightarrow> bytes32 \<Rightarrow> PaymentRecord option" where
  "PaymentAt c intent = find (\<lambda>r. pr_Intent r = intent) (ch_History c)"

definition recordFor ::
  "bytes32 \<Rightarrow> StateTransition \<Rightarrow> bool \<Rightarrow> PayStatus \<Rightarrow> int \<Rightarrow> PaymentRecord" where
  "recordFor intent tr incoming status now =
     \<lparr> pr_Intent = intent, pr_Kind = tr_Kind tr,
       pr_Route = (if tr_Kind tr \<in> {KindLockAdd, KindLockSettle, KindLockRefund} then RouteRouted
                   else RouteDirect),
       pr_Incoming = incoming,
       pr_Amount = (if tr_Amount tr \<noteq> None then decString (tr_Amount tr) else []),
       pr_Status = status, pr_LockID = tr_LockID tr, pr_Nonce = 0, pr_CreatedAt = now,
       pr_ResolvedAt = 0, pr_Detail = [] \<rparr>"

definition outcomeRecord ::
  "bytes32 \<Rightarrow> StateTransition \<Rightarrow> bool \<Rightarrow> u64 \<Rightarrow> int \<Rightarrow> PaymentRecord" where
  "outcomeRecord intent tr incoming nonce now =
     (let status = (case tr_Kind tr of KindLockAdd \<Rightarrow> PayInFlight | KindLockRefund \<Rightarrow> PayRefunded
                    | _ \<Rightarrow> PayCompleted)
      in (recordFor intent tr incoming status now)
           \<lparr>pr_Nonce := nonce, pr_ResolvedAt := (if status \<noteq> PayInFlight then now else 0)\<rparr>)"

subsection \<open>The log is a bounded map from intents to records\<close>

definition historyOK :: "PaymentRecord list \<Rightarrow> bool" where
  "historyOK hs \<longleftrightarrow> distinct (map pr_Intent hs) \<and> length hs \<le> historyCap"

lemma mergeRecord_intent [simp]: "pr_Intent (mergeRecord h r) = pr_Intent r"
  by (simp add: mergeRecord_def)

lemma updateRecord_None: "updateRecord hs r = None \<longleftrightarrow> pr_Intent r \<notin> pr_Intent ` set hs"
  by (induction hs) auto

lemma updateRecord_intents: "updateRecord hs r = Some hs' \<Longrightarrow> map pr_Intent hs' = map pr_Intent hs"
  by (induction hs arbitrary: hs') (auto split: if_splits)

lemma updateRecord_find:
  "updateRecord hs r = Some hs' \<Longrightarrow>
   find (\<lambda>x. pr_Intent x = i) hs' =
     (if i \<noteq> pr_Intent r then find (\<lambda>x. pr_Intent x = i) hs
      else map_option (\<lambda>h. if Resolved h then h else mergeRecord h r) (find (\<lambda>x. pr_Intent x = i) hs))"
  by (induction hs arbitrary: hs') (auto split: if_splits)

lemma historyOK_note: "historyOK hs \<Longrightarrow> historyOK (noteHistory hs r)"
proof (cases "updateRecord hs r")
  case None
  moreover assume "historyOK hs"
  ultimately have "distinct (map pr_Intent (hs @ [r]))" "length hs \<le> historyCap"
    by (auto simp: historyOK_def updateRecord_None)
  then show ?thesis
    using None distinct_drop [of "map pr_Intent (hs @ [r])"]
    by (auto simp: noteHistory_def Let_def historyOK_def drop_map simp del: map_append drop_append)
next
  case (Some hs')
  assume ok: "historyOK hs"
  have "map pr_Intent hs' = map pr_Intent hs"
    using Some by (rule updateRecord_intents)
  then have "length hs' = length hs"
    by (metis length_map)
  with ok Some updateRecord_intents [OF Some] show ?thesis
    by (simp add: noteHistory_def historyOK_def)
qed

lemma find_append: "find P (xs @ ys) = (case find P xs of None \<Rightarrow> find P ys | Some x \<Rightarrow> Some x)"
  by (induction xs) auto

lemma PaymentAt_resolved:
  assumes "PaymentAt c i = Some r" "Resolved r" "length (ch_History c) < historyCap"
  shows "PaymentAt (NotePayment c x) i = Some r"
proof (cases "updateRecord (ch_History c) x")
  case None
  with assms show ?thesis
    by (auto simp: PaymentAt_def NotePayment_def noteHistory_def find_append)
next
  case (Some hs')
  with assms updateRecord_find [OF Some, of i] show ?thesis
    by (auto simp: PaymentAt_def NotePayment_def noteHistory_def)
qed

lemma NotePayment_frame [simp]:
  "ch_ID (NotePayment c r) = ch_ID c" "ch_PartyA (NotePayment c r) = ch_PartyA c"
  "ch_PartyB (NotePayment c r) = ch_PartyB c" "ch_DepositA (NotePayment c r) = ch_DepositA c"
  "ch_DepositB (NotePayment c r) = ch_DepositB c" "ch_Status (NotePayment c r) = ch_Status c"
  "ch_ChainID (NotePayment c r) = ch_ChainID c" "ch_Contract (NotePayment c r) = ch_Contract c"
  "ch_Latest (NotePayment c r) = ch_Latest c" "ch_Signed (NotePayment c r) = ch_Signed c"
  "ch_Applied (NotePayment c r) = ch_Applied c" "ch_Pending (NotePayment c r) = ch_Pending c"
  "ch_Conflict (NotePayment c r) = ch_Conflict c" "ch_NeedsReconcile (NotePayment c r) = ch_NeedsReconcile c"
  "ch_Payout (NotePayment c r) = ch_Payout c"
  by (simp_all add: NotePayment_def)

lemma length_noteHistory: "length (noteHistory hs x) \<le> Suc (length hs)"
proof (cases "updateRecord hs x")
  case (Some hs')
  then have "length hs' = length hs"
    by (metis updateRecord_intents length_map)
  with Some show ?thesis by (simp add: noteHistory_def)
qed (simp add: noteHistory_def Let_def historyCap_def)

lemma PaymentAt_resolved_run:
  "PaymentAt c i = Some r \<Longrightarrow> Resolved r \<Longrightarrow> length (ch_History c) + length recs \<le> historyCap \<Longrightarrow>
   PaymentAt (foldl NotePayment c recs) i = Some r"
proof (induction recs arbitrary: c)
  case (Cons x xs)
  have "length (ch_History (NotePayment c x)) + length xs \<le> historyCap"
    using length_noteHistory [of "ch_History c" x] Cons.prems(3) by (simp add: NotePayment_def)
  with Cons show ?case
    by (simp add: PaymentAt_resolved)
qed simp

lemma PaymentAt_open:
  assumes "PaymentAt c (pr_Intent x) = Some r" "\<not> Resolved r"
  shows "PaymentAt (NotePayment c x) (pr_Intent x) = Some (mergeRecord r x)"
proof (cases "updateRecord (ch_History c) x")
  case None
  moreover from assms(1) have "pr_Intent x \<in> pr_Intent ` set (ch_History c)"
    unfolding PaymentAt_def find_Some_iff by (auto simp: image_iff) (metis nth_mem)
  ultimately show ?thesis
    by (simp add: updateRecord_None)
next
  case (Some hs')
  with assms updateRecord_find [OF Some, of "pr_Intent x"] show ?thesis
    by (simp add: PaymentAt_def NotePayment_def noteHistory_def)
qed

text \<open>
  The payment log. Over any run of notes it keeps one record per intent and at most
  \<^verbatim>\<open>historyCap\<close> records; while it stays below the cap a resolved record is final, whatever the status
  of later notes; and a note for an intent that is still open (initiated, in flight, unknown) takes its
  place, keeping the time the payment began.
\<close>

theorem NotePayment_log:
  assumes "historyOK (ch_History c)"
  shows "historyOK (ch_History (foldl NotePayment c recs)) \<and>
    (\<forall>i r. PaymentAt c i = Some r \<longrightarrow> Resolved r \<longrightarrow> length (ch_History c) + length recs \<le> historyCap \<longrightarrow>
      PaymentAt (foldl NotePayment c recs) i = Some r) \<and>
    (\<forall>x r. PaymentAt c (pr_Intent x) = Some r \<longrightarrow> \<not> Resolved r \<longrightarrow>
      PaymentAt (NotePayment c x) (pr_Intent x) = Some (mergeRecord r x) \<and>
      pr_CreatedAt (mergeRecord r x) = pr_CreatedAt r \<and> pr_Status (mergeRecord r x) = pr_Status x)"
proof -
  have "historyOK (ch_History (foldl NotePayment c recs))"
    using assms by (induction recs arbitrary: c) (auto simp: NotePayment_def historyOK_note)
  then show ?thesis
    by (simp add: PaymentAt_resolved_run PaymentAt_open) (simp add: mergeRecord_def)
qed

definition demoRecord :: "PayStatus \<Rightarrow> PaymentRecord" where
  "demoRecord s = recordFor demoID (demoPay 30) True s 7"

theorem NotePayment_log_witness:
  "PaymentAt (foldl NotePayment demoChannel
     [demoRecord PayUnknown, demoRecord PayCompleted, demoRecord PayRejected]) demoID
     = Some (demoRecord PayCompleted)"
proof -
  define c where "c = foldl NotePayment demoChannel [demoRecord PayUnknown, demoRecord PayCompleted]"
  have h: "ch_History c = [demoRecord PayCompleted]"
    by (simp add: c_def NotePayment_def noteHistory_def demoChannel_def demoRecord_def recordFor_def
        Resolved_def mergeRecord_def historyCap_def demoPay_def decString_def)
  have "PaymentAt c demoID = Some (demoRecord PayCompleted)" "Resolved (demoRecord PayCompleted)"
    by (simp_all add: h PaymentAt_def demoRecord_def recordFor_def Resolved_def)
  moreover have "historyOK (ch_History c)" "length (ch_History c) + length [demoRecord PayRejected] \<le> historyCap"
    by (simp_all add: h historyOK_def historyCap_def)
  ultimately have "PaymentAt (foldl NotePayment c [demoRecord PayRejected]) demoID = Some (demoRecord PayCompleted)"
    using NotePayment_log [of c "[demoRecord PayRejected]"] by blast
  then show ?thesis by (simp add: c_def)
qed

end
