(* ===== verification/Chain.thy ===== *)
theory Chain
  imports Wire_Props
begin

text \<open>
  Where collateral comes from, \<^verbatim>\<open>src/internal/channel/chain.go\<close>: the facts \<^verbatim>\<open>ChannelManagerV2\<close> reports about
  a channel, the decoder of the eleven ABI words its getter returns, and the in-memory chain of the
  package. The HTTP exchange with the RPC endpoint is outside the model: the reader is given the reply
  text as an argument. The locale \<open>chain_reader\<close> is the contract every reader satisfies.
\<close>

record OnChainChannel =
  oc_ID :: bytes32
  oc_PartyA :: address
  oc_PartyB :: address
  oc_DepositA :: bigint
  oc_DepositB :: bigint
  oc_Status :: Status
  oc_Nonce :: u64
  oc_ChallengeEnds :: int
  oc_BalanceA :: bigint
  oc_BalanceB :: bigint
  oc_LockedTotal :: bigint
  oc_fromChain :: bool

subsection \<open>Decoding the getter's reply\<close>

definition trim0x :: "string \<Rightarrow> string" where
  "trim0x s = (if length s \<ge> 2 \<and> (take 2 s = ''0x'' \<or> take 2 s = ''0X'') then drop 2 s else s)"

definition wordAt :: "bytes \<Rightarrow> nat \<Rightarrow> bytes" where
  "wordAt raw i = take 32 (drop (i * 32) raw)"

definition addrAt :: "bytes \<Rightarrow> nat \<Rightarrow> address" where
  "addrAt raw i = Address (copyArr 20 (drop 12 (wordAt raw i)))"

definition bigAt :: "bytes \<Rightarrow> nat \<Rightarrow> bigint" where
  "bigAt raw i = Some (int (bytesNat (wordAt raw i)))"

definition decodeChannelsReturn :: "crypto \<Rightarrow> bytes32 \<Rightarrow> string \<Rightarrow> chan_error + OnChainChannel" where
  "decodeChannelsReturn cr i result =
     (case hexDecode (trim0x result) of
        None \<Rightarrow> Inl ErrChainUnreachable
      | Some raw \<Rightarrow>
          if length raw < 11 * 32 then Inl (ErrText ''not a ChannelManagerV2'')
          else
            let out = \<lparr> oc_ID = i, oc_PartyA = addrAt raw 0, oc_PartyB = addrAt raw 1,
                  oc_DepositA = bigAt raw 2, oc_DepositB = bigAt raw 3,
                  oc_Status = of_nat (bytesNat (wordAt raw 4) mod 2 ^ 64),
                  oc_Nonce = of_nat (bytesNat (wordAt raw 7)),
                  oc_ChallengeEnds = i64 (int (bytesNat (wordAt raw 8))),
                  oc_BalanceA = bigAt raw 5, oc_BalanceB = bigAt raw 6,
                  oc_LockedTotal = bigAt raw 10, oc_fromChain = True \<rparr>
            in if oc_Status out = StatusNone \<or> (IsZero (oc_PartyA out) \<and> IsZero (oc_PartyB out))
               then Inl ErrChannelNotOnChain
               else if DeriveChannelID cr (oc_PartyA out) (oc_PartyB out) \<noteq> i then Inl ErrChainUnreachable
               else Inr out)"

definition canSignReply :: "string \<Rightarrow> chan_error + bool" where
  \<comment> \<open>what \<^verbatim>\<open>CallCanSign\<close> makes of the reply to \<^verbatim>\<open>canSign(party, signer, op)\<close>\<close>
  "canSignReply result =
     (case hexDecode (trim0x result) of
        None \<Rightarrow> Inl ErrChainUnreachable
      | Some raw \<Rightarrow>
          if length raw \<noteq> 32 then Inl ErrChainUnreachable
          else if raw ! 31 = 0 then Inr False
          else if raw ! 31 = 1 then Inr True
          else Inl ErrChainUnreachable)"

definition leftPad32 :: "bytes \<Rightarrow> bytes" where
  \<comment> \<open>for at most 32 bytes, the only way the source calls it\<close>
  "leftPad32 b = replicate (32 - length b) 0 @ b"

subsection \<open>The in-memory chain\<close>

record FakeChain =
  fk_Channels :: "bytes32 \<rightharpoonup> OnChainChannel"
  fk_Err :: "chan_error option"

definition NewFakeChain :: FakeChain where
  "NewFakeChain = \<lparr> fk_Channels = Map.empty, fk_Err = None \<rparr>"

definition FakeAdd ::
  "crypto \<Rightarrow> FakeChain \<Rightarrow> address \<Rightarrow> address \<Rightarrow> bigint \<Rightarrow> bigint \<Rightarrow> FakeChain \<times> bytes32" where
  "FakeAdd cr f partyA partyB depositA depositB =
     (let (a, b) = SortParties partyA partyB;
          i = DeriveChannelID cr a b;
          (da, db) = (if \<not> partyA < partyB then (depositB, depositA) else (depositA, depositB))
      in (f\<lparr>fk_Channels := (fk_Channels f)(i \<mapsto>
            \<lparr> oc_ID = i, oc_PartyA = a, oc_PartyB = b, oc_DepositA = Some (orZero da),
              oc_DepositB = Some (orZero db), oc_Status = StatusOpen, oc_Nonce = 0, oc_ChallengeEnds = 0,
              oc_BalanceA = None, oc_BalanceB = None, oc_LockedTotal = None, oc_fromChain = True \<rparr>)\<rparr>, i))"

definition FakeStartClose :: "FakeChain \<Rightarrow> bytes32 \<Rightarrow> u64 \<Rightarrow> int \<Rightarrow> FakeChain" where
  "FakeStartClose f i nonce challengeEnds =
     (case fk_Channels f i of
        None \<Rightarrow> f
      | Some ch \<Rightarrow> f\<lparr>fk_Channels := (fk_Channels f)(i \<mapsto>
          ch\<lparr>oc_Status := StatusClosing, oc_Nonce := nonce, oc_ChallengeEnds := challengeEnds\<rparr>)\<rparr>)"

definition FakeSettled :: "FakeChain \<Rightarrow> bytes32 \<Rightarrow> FakeChain" where
  "FakeSettled f i =
     (case fk_Channels f i of
        None \<Rightarrow> f
      | Some ch \<Rightarrow> f\<lparr>fk_Channels := (fk_Channels f)(i \<mapsto> ch\<lparr>oc_Status := StatusSettled\<rparr>)\<rparr>)"

definition FakeRead :: "FakeChain \<Rightarrow> bytes32 \<Rightarrow> chan_error + OnChainChannel" where
  "FakeRead f i =
     (case fk_Err f of
        Some e \<Rightarrow> Inl e
      | None \<Rightarrow> (case fk_Channels f i of None \<Rightarrow> Inl ErrChannelNotOnChain | Some ch \<Rightarrow> Inr ch))"

subsection \<open>The contract of a reader\<close>

text \<open>
  What the rest of the package relies on when it reads a channel: the answer is marked as a chain fact,
  it is about the channel asked for, its parties derive that channel's id, and the channel exists.
\<close>

locale chain_reader =
  fixes cr :: crypto
    and ReadChannel :: "bytes32 \<Rightarrow> chan_error + OnChainChannel"
  assumes read_marked: "ReadChannel i = Inr occ \<Longrightarrow> oc_fromChain occ"
    and read_id: "ReadChannel i = Inr occ \<Longrightarrow> oc_ID occ = i"
    and read_derives: "ReadChannel i = Inr occ \<Longrightarrow> DeriveChannelID cr (oc_PartyA occ) (oc_PartyB occ) = i"
    and read_exists: "ReadChannel i = Inr occ \<Longrightarrow> oc_Status occ \<noteq> StatusNone"
begin

lemma read_id_length: "ReadChannel i = Inr occ \<Longrightarrow> length i = 32"
  by (drule read_derives) (auto simp: DeriveChannelID_def split: prod.splits)

lemma read_same_parties:
  assumes "ReadChannel i = Inr occ" "ReadChannel j = Inr occ'"
    "oc_PartyA occ = oc_PartyA occ'" "oc_PartyB occ = oc_PartyB occ'"
  shows "i = j"
  using assms read_derives by metis

end

lemma decodeChannelsReturn_Inr:
  assumes "decodeChannelsReturn cr i result = Inr occ"
  shows "oc_fromChain occ \<and> oc_ID occ = i \<and> DeriveChannelID cr (oc_PartyA occ) (oc_PartyB occ) = i \<and>
    oc_Status occ \<noteq> StatusNone"
  using assms by (auto simp: decodeChannelsReturn_def Let_def split: option.splits if_splits)

interpretation rpc: chain_reader cr "\<lambda>i. decodeChannelsReturn cr i (reply i)"
  for cr :: crypto and reply :: "bytes32 \<Rightarrow> string"
  by unfold_locales (simp_all add: decodeChannelsReturn_Inr)

definition fakeOK :: "crypto \<Rightarrow> FakeChain \<Rightarrow> bool" where
  "fakeOK cr f \<longleftrightarrow> (\<forall>i ch. fk_Channels f i = Some ch \<longrightarrow> oc_fromChain ch \<and> oc_ID ch = i \<and>
     DeriveChannelID cr (oc_PartyA ch) (oc_PartyB ch) = i \<and> oc_Status ch \<noteq> StatusNone)"

inductive fakeReach :: "crypto \<Rightarrow> FakeChain \<Rightarrow> bool" for cr where
  start: "fakeReach cr NewFakeChain"
| add: "fakeReach cr f \<Longrightarrow> fakeReach cr (fst (FakeAdd cr f x y dx dy))"
| close: "fakeReach cr f \<Longrightarrow> fakeReach cr (FakeStartClose f i n t)"
| settle: "fakeReach cr f \<Longrightarrow> fakeReach cr (FakeSettled f i)"
| fail: "fakeReach cr f \<Longrightarrow> fakeReach cr (f\<lparr>fk_Err := e\<rparr>)"

lemma DeriveChannelID_sorted:
  "SortParties x y = (a, b) \<Longrightarrow> DeriveChannelID cr a b = DeriveChannelID cr x y"
  by (auto simp: DeriveChannelID_def SortParties_def less_address_def [symmetric] split: if_splits)

lemma fakeReach_ok: "fakeReach cr f \<Longrightarrow> fakeOK cr f"
proof (induction rule: fakeReach.induct)
  case (add f x y dx dy)
  then show ?case
    by (auto simp: fakeOK_def FakeAdd_def Let_def DeriveChannelID_sorted Status_defs split: prod.splits)
qed (auto simp: fakeOK_def NewFakeChain_def FakeStartClose_def FakeSettled_def Status_defs split: option.splits)

text \<open>Every chain that its own operations can build satisfies the reader contract.\<close>

interpretation fake: chain_reader cr "\<lambda>i. if fakeOK cr f then FakeRead f i else Inl ErrChainUnreachable"
  for cr :: crypto and f :: FakeChain
  by unfold_locales (auto simp: FakeRead_def fakeOK_def split: if_splits option.splits)

subsection \<open>Properties\<close>

text \<open>
  A chain read names its own channel. Whatever text the RPC endpoint returns, a channel decoded
  from it carries the mark of a chain read and the id that was asked for, its parties hash to that id,
  it is not the empty answer for a channel that was never opened, and its deposits are
  non-negative numbers: an endpoint cannot substitute another channel's parties or deposits.
\<close>

theorem decodeChannelsReturn_sound:
  assumes "decodeChannelsReturn cr i result = Inr occ"
  shows "oc_fromChain occ \<and> oc_ID occ = i \<and> DeriveChannelID cr (oc_PartyA occ) (oc_PartyB occ) = i \<and>
    oc_Status occ \<noteq> StatusNone \<and> \<not> (IsZero (oc_PartyA occ) \<and> IsZero (oc_PartyB occ)) \<and>
    0 \<le> orZero (oc_DepositA occ) \<and> 0 \<le> orZero (oc_DepositB occ) \<and>
    - (2 ^ 63) \<le> oc_ChallengeEnds occ \<and> oc_ChallengeEnds occ < 2 ^ 63"
  using assms i64_range
  by (auto simp: decodeChannelsReturn_def Let_def bigAt_def split: option.splits if_splits)

definition demoReply :: bytes where
  "demoReply = concat (map (\<lambda>v. replicate 12 0 @ v) [addrBytes demoA, addrBytes demoB,
     replicate 19 0 @ [100], replicate 19 0 @ [50], replicate 19 0 @ [1]]) @ replicate 192 0"

theorem decodeChannelsReturn_sound_witness:
  "\<exists>occ. decodeChannelsReturn demoCrypto (replicate 12 0 @ addrBytes demoA) (hexEncode demoReply) = Inr occ \<and>
     oc_fromChain occ \<and> oc_PartyA occ = demoA"
proof -
  let ?i = "replicate 12 0 @ addrBytes demoA"
  have reply: "hexDecode (trim0x (hexEncode demoReply)) = Some demoReply"
  proof -
    have "replicate 12 (0 :: byte) = 0 # replicate 11 0"
      by (simp add: eval_nat_numeral)
    then have "\<exists>r. demoReply = 0 # r"
      by (simp only: demoReply_def list.map concat.simps append_Cons) blast
    then obtain r where r: "demoReply = 0 # r" ..
    have "hexNibble 0 = CHR ''0''"
      by code_simp
    then have "trim0x (hexEncode demoReply) = hexEncode demoReply"
      by (simp add: r trim0x_def)
    then show ?thesis
      by simp
  qed
  have words: "demoReply = (replicate 12 0 @ addrBytes demoA) @ (replicate 12 0 @ addrBytes demoB) @
      replicate 31 0 @ [100] @ replicate 31 0 @ [50] @ replicate 31 0 @ [1] @ replicate 192 0"
    by (simp add: demoReply_def flip: replicate_add append_assoc)
  have lens: "length (addrBytes demoA) = 20" "length (addrBytes demoB) = 20"
    by (simp_all add: demoA_def demoB_def)
  have "addrAt demoReply 0 = demoA" "addrAt demoReply 1 = demoB" "length demoReply = 352"
    unfolding addrAt_def wordAt_def words by (simp_all add: lens)
  moreover have "wordAt demoReply 4 = replicate 31 0 @ [1]"
    unfolding wordAt_def words by (simp add: lens)
  then have "bytesNat (wordAt demoReply 4) = 1"
    using bytesNat_zeros [of 31 "[1]"] bytesNat_snoc [of "[]" 1] by simp
  moreover have "DeriveChannelID demoCrypto demoA demoB = ?i"
    by (simp add: DeriveChannelID_def SortParties_def demoA_def demoB_def addressLess_def keccak_def
        demoCrypto_def abiWord_def)
  ultimately have "\<exists>occ. decodeChannelsReturn demoCrypto ?i (hexEncode demoReply) = Inr occ \<and> oc_PartyA occ = demoA"
    by (simp add: decodeChannelsReturn_def reply Let_def Status_defs) (simp add: demoA_def IsZero_def eval_nat_numeral)
  then show ?thesis
    using decodeChannelsReturn_sound by blast
qed

text \<open>
  The reply to \<^verbatim>\<open>canSign\<close> is read by its last byte alone: a word that is neither zero nor one, such as one
  with its top byte set, is taken for a clean yes.
\<close>

theorem canSign_ignores_high_bytes:
  "canSignReply (hexEncode (255 # replicate 30 0 @ [1])) = Inr True"
  by (simp add: canSignReply_def trim0x_def nth_append del: hexEncode.simps) (simp add: hexNibble_def)

end
