(* ===== verification/Store.thy ===== *)
theory Store
  imports History Chain "HOL-Library.AList" "HOL-Library.Char_ord"
begin

text \<open>
  The durable home of channel state, \<^verbatim>\<open>src/internal/channel/store.go\<close> with the quarantine of
  \<^verbatim>\<open>reconcile.go\<close>. The directory is part of the store's state: one record per file, and whether the
  restore marker is present. A write can fail before the rename that publishes it (nothing on disk
  changes) or after it (the new record is on disk, yet the caller is told of a failure), which is every
  outcome of \<^verbatim>\<open>persist\<close>. Losing power is to drop the memory and open the directory again. The mutex makes
  each operation atomic. The JSON text of a record is below the model; the keys of its two objects
  (\<^verbatim>\<open>signed\<close> by nonce, \<^verbatim>\<open>applied\<close> by intent) are kept typed.
\<close>

subsection \<open>The on-disk record\<close>

record storedPending =
  sp_Intent :: string
  sp_Transition :: wireTransition
  sp_State :: storedState
  sp_Sig :: string

record storedConflict =
  sf_Nonce :: u64
  sf_Mine :: storedState
  sf_MineA :: string
  sf_MineB :: string
  sf_Theirs :: storedState
  sf_TheirsA :: string
  sf_TheirsB :: string

record storedPayment =
  sy_Intent :: string
  sy_Kind :: TransitionKind
  sy_Route :: PayRoute
  sy_Incoming :: bool
  sy_Amount :: string
  sy_Status :: PayStatus
  sy_LockID :: string
  sy_Nonce :: u64
  sy_CreatedAt :: int
  sy_ResolvedAt :: int
  sy_Detail :: string

record storedChannel =
  sc_Version :: int
  sc_ID :: string
  sc_PartyA :: string
  sc_PartyB :: string
  sc_DepositA :: string
  sc_DepositB :: string
  sc_Status :: u8
  sc_ChainID :: string
  sc_Contract :: string
  sc_State :: storedState
  sc_SigA :: string
  sc_SigB :: string
  sc_Signed :: "u64 \<rightharpoonup> string"
  sc_Applied :: "bytes32 \<rightharpoonup> u64"
  sc_Pending :: "storedPending option"
  sc_Conflict :: "storedConflict option"
  sc_History :: "storedPayment list"

definition encodePending :: "PendingProposal \<Rightarrow> storedPending" where
  "encodePending p = \<lparr> sp_Intent = hexEncode (pp_Intent p),
     sp_Transition = encodeTransitionWire (pp_Transition p),
     sp_State = encodeStateWire (pp_State p), sp_Sig = hexEncode (pp_Sig p) \<rparr>"

definition encodePayment :: "PaymentRecord \<Rightarrow> storedPayment" where
  "encodePayment h = \<lparr> sy_Intent = hexEncode (pr_Intent h), sy_Kind = pr_Kind h, sy_Route = pr_Route h,
     sy_Incoming = pr_Incoming h, sy_Amount = pr_Amount h, sy_Status = pr_Status h,
     sy_LockID = hexEncode (pr_LockID h), sy_Nonce = pr_Nonce h, sy_CreatedAt = pr_CreatedAt h,
     sy_ResolvedAt = pr_ResolvedAt h, sy_Detail = pr_Detail h \<rparr>"

definition encodeConflict :: "ConflictRecord \<Rightarrow> storedConflict" where
  "encodeConflict c = \<lparr> sf_Nonce = cf_Nonce c,
     sf_Mine = encodeStateWire (ss_State (cf_Mine c)), sf_MineA = hexEncode (ss_SigA (cf_Mine c)),
     sf_MineB = hexEncode (ss_SigB (cf_Mine c)),
     sf_Theirs = encodeStateWire (ss_State (cf_Theirs c)), sf_TheirsA = hexEncode (ss_SigA (cf_Theirs c)),
     sf_TheirsB = hexEncode (ss_SigB (cf_Theirs c)) \<rparr>"

definition encodeChannel :: "Channel \<Rightarrow> storedChannel" where
  "encodeChannel ch =
     \<lparr> sc_Version = 2, sc_ID = hexEncode (ch_ID ch),
       sc_PartyA = addrHex (ch_PartyA ch), sc_PartyB = addrHex (ch_PartyB ch),
       sc_DepositA = decString (ch_DepositA ch), sc_DepositB = decString (ch_DepositB ch),
       sc_Status = ch_Status ch, sc_ChainID = decString (ch_ChainID ch),
       sc_Contract = addrHex (ch_Contract ch), sc_State = encodeStateWire (ss_State (ch_Latest ch)),
       sc_SigA = hexEncode (ss_SigA (ch_Latest ch)), sc_SigB = hexEncode (ss_SigB (ch_Latest ch)),
       sc_Signed = map_option hexEncode \<circ> ch_Signed ch, sc_Applied = ch_Applied ch,
       sc_Pending = map_option encodePending (ch_Pending ch),
       sc_Conflict = map_option encodeConflict (ch_Conflict ch),
       sc_History = map encodePayment (ch_History ch) \<rparr>"

subsection \<open>Reading it back\<close>

definition optR :: "('a \<Rightarrow> 'e + 'b) \<Rightarrow> 'a option \<Rightarrow> 'e + 'b option" where
  "optR f x = (case x of None \<Rightarrow> Inr None | Some v \<Rightarrow> bindR (f v) (\<lambda>y. Inr (Some y)))"

definition decodeSigned :: "(u64 \<rightharpoonup> string) \<Rightarrow> chan_error + (u64 \<rightharpoonup> bytes32)" where
  \<comment> \<open>every value must parse, in whatever order the map is walked\<close>
  "decodeSigned m =
     (if \<forall>v \<in> ran m. isl (parseBytes32 v) = False
      then Inr (\<lambda>n. Option.bind (m n) (\<lambda>v. case parseBytes32 v of Inl _ \<Rightarrow> None | Inr d \<Rightarrow> Some d))
      else Inl (ErrText ''not 32 hex bytes''))"

definition decodeApplied :: "(bytes32 \<rightharpoonup> u64) \<Rightarrow> chan_error + (bytes32 \<rightharpoonup> u64)" where
  "decodeApplied m =
     (if \<forall>k \<in> dom m. length k = 32 then Inr m else Inl (ErrText ''not 32 hex bytes''))"

definition decodePending :: "storedPending \<Rightarrow> chan_error + PendingProposal" where
  "decodePending p =
     bindR (parseBytes32 (sp_Intent p)) (\<lambda>intent.
     bindR (decodeTransitionWire (sp_Transition p)) (\<lambda>tr.
     bindR (decodeStateWire (sp_State p)) (\<lambda>state.
     bindR (hexField (sp_Sig p)) (\<lambda>sig.
       Inr \<lparr> pp_Intent = intent, pp_Transition = tr, pp_State = state, pp_Sig = sig \<rparr>))))"

definition decodePayment :: "storedPayment \<Rightarrow> chan_error + PaymentRecord" where
  "decodePayment h =
     bindR (parseBytes32 (sy_Intent h)) (\<lambda>intent.
     bindR (parseBytes32 (sy_LockID h)) (\<lambda>lockID.
       Inr \<lparr> pr_Intent = intent, pr_Kind = sy_Kind h, pr_Route = sy_Route h, pr_Incoming = sy_Incoming h,
             pr_Amount = sy_Amount h, pr_Status = sy_Status h, pr_LockID = lockID, pr_Nonce = sy_Nonce h,
             pr_CreatedAt = sy_CreatedAt h, pr_ResolvedAt = sy_ResolvedAt h, pr_Detail = sy_Detail h \<rparr>))"

definition decodeConflict :: "storedConflict \<Rightarrow> chan_error + ConflictRecord" where
  "decodeConflict c =
     bindR (decodeSignedWire (sf_Mine c) (sf_MineA c) (sf_MineB c)) (\<lambda>mine.
     bindR (decodeSignedWire (sf_Theirs c) (sf_TheirsA c) (sf_TheirsB c)) (\<lambda>theirs.
       Inr \<lparr> cf_Nonce = sf_Nonce c, cf_Mine = mine, cf_Theirs = theirs \<rparr>))"

definition decodeChannel :: "storedChannel \<Rightarrow> chan_error + Channel" where
  "decodeChannel r =
     (if sc_Version r \<noteq> 2 then Inl (ErrText ''unknown record version'')
      else
     bindR (parseBytes32 (sc_ID r)) (\<lambda>i.
     bindR (ParseAddress (sc_PartyA r)) (\<lambda>partyA.
     bindR (ParseAddress (sc_PartyB r)) (\<lambda>partyB.
     bindR (ParseAddress (sc_Contract r)) (\<lambda>contract.
     bindR (parseDec (sc_DepositA r)) (\<lambda>depositA.
     bindR (parseDec (sc_DepositB r)) (\<lambda>depositB.
     bindR (parseDec (sc_ChainID r)) (\<lambda>chainID.
     bindR (hexField (sc_SigA r)) (\<lambda>sigA.
     bindR (hexField (sc_SigB r)) (\<lambda>sigB.
     bindR (decodeStateWire (sc_State r)) (\<lambda>latest.
     bindR (decodeSigned (sc_Signed r)) (\<lambda>signed.
     bindR (decodeApplied (sc_Applied r)) (\<lambda>applied.
     bindR (optR decodePending (sc_Pending r)) (\<lambda>pending.
     bindR (mapR decodePayment (sc_History r)) (\<lambda>history.
     bindR (optR decodeConflict (sc_Conflict r)) (\<lambda>conflict.
       Inr \<lparr> ch_ID = i, ch_PartyA = partyA, ch_PartyB = partyB, ch_DepositA = depositA,
             ch_DepositB = depositB, ch_Status = sc_Status r, ch_ChainID = chainID,
             ch_Contract = contract,
             ch_Latest = \<lparr> ss_State = latest, ss_SigA = sigA, ss_SigB = sigB \<rparr>,
             ch_Signed = signed, ch_Applied = applied, ch_Pending = pending, ch_Conflict = conflict,
             ch_History = history, ch_Payout = None, ch_NeedsReconcile = False \<rparr>))))))))))))))))"

definition verifyLoaded :: "crypto \<Rightarrow> Channel \<Rightarrow> chan_error + unit" where
  "verifyLoaded cr ch =
     (if \<not> Complete (ch_Latest ch) then Inr ()
      else
        let raw = Digest cr (latestState ch) (ch_ChainID ch) (ch_Contract ch) in
        case (RecoverSigner cr raw (ss_SigA (ch_Latest ch)), RecoverSigner cr raw (ss_SigB (ch_Latest ch))) of
          (Inr a, Inr b) \<Rightarrow>
            if a \<noteq> ch_PartyA ch \<or> b \<noteq> ch_PartyB ch then Inl ErrStateUnreadable else Inr ()
        | _ \<Rightarrow> Inl ErrStateUnreadable)"

subsection \<open>The store and its directory\<close>

record Disk =
  dk_Files :: "(bytes32 \<times> storedChannel) list"
  dk_Restored :: bool

record Store =
  sto_channels :: "(bytes32 \<times> Channel) list"
  sto_unreconciled :: "bytes32 set"
  sto_disk :: Disk

datatype WriteFault = WriteOK | FailBeforeRename | FailAfterRename

fun loadAll ::
  "crypto \<Rightarrow> bool \<Rightarrow> (bytes32 \<times> storedChannel) list \<Rightarrow> (bytes32 \<times> Channel) list \<times> bytes32 set
    \<Rightarrow> chan_error + (bytes32 \<times> Channel) list \<times> bytes32 set" where
  "loadAll cr restored [] acc = Inr acc"
| "loadAll cr restored ((name, raw) # rest) (chs, unrec) =
     bindR (decodeChannel raw) (\<lambda>ch.
     bindR (verifyLoaded cr ch) (\<lambda>_.
       loadAll cr restored rest
         (AList.update (ch_ID ch) ch chs, if restored then insert (ch_ID ch) unrec else unrec)))"

definition OpenStore :: "crypto \<Rightarrow> Disk \<Rightarrow> chan_error + Store" where
  "OpenStore cr d =
     bindR (loadAll cr (dk_Restored d) (dk_Files d) ([], {})) (\<lambda>(chs, unrec).
       Inr \<lparr> sto_channels = chs, sto_unreconciled = unrec,
             sto_disk = (if dk_Restored d \<and> unrec = {} then d\<lparr>dk_Restored := False\<rparr> else d) \<rparr>)"

definition persist :: "WriteFault \<Rightarrow> Disk \<Rightarrow> Channel \<Rightarrow> (chan_error + unit) \<times> Disk" where
  "persist w d ch =
     (let d' = d\<lparr>dk_Files := AList.update (ch_ID ch) (encodeChannel ch) (dk_Files d)\<rparr> in
      case w of
        WriteOK \<Rightarrow> (Inr (), d')
      | FailBeforeRename \<Rightarrow> (Inl ErrIO, d)
      | FailAfterRename \<Rightarrow> (Inl ErrIO, d'))"

definition lookupCh :: "Store \<Rightarrow> bytes32 \<Rightarrow> Channel option" where
  "lookupCh s i = map_of (sto_channels s) i"

definition commitCh :: "WriteFault \<Rightarrow> Store \<Rightarrow> bytes32 \<Rightarrow> Channel \<Rightarrow> (chan_error + unit) \<times> Store" where
  \<comment> \<open>the shared tail of \<^verbatim>\<open>Accept\<close>, \<^verbatim>\<open>Update\<close> and \<^verbatim>\<open>TrackFromChain\<close>: disk first, then memory\<close>
  "commitCh w s i ch =
     (case persist w (sto_disk s) ch of
        (Inl e, d) \<Rightarrow> (Inl e, s\<lparr>sto_disk := d\<rparr>)
      | (Inr _, d) \<Rightarrow> (Inr (), s\<lparr>sto_disk := d, sto_channels := AList.update i ch (sto_channels s)\<rparr>))"

definition StoreUpdate ::
  "WriteFault \<Rightarrow> Store \<Rightarrow> bytes32 \<Rightarrow> (Channel \<Rightarrow> chan_error + Channel) \<Rightarrow> (chan_error + unit) \<times> Store" where
  "StoreUpdate w s i mutate =
     (case lookupCh s i of
        None \<Rightarrow> (Inl ErrNoSuchChannel, s)
      | Some ch \<Rightarrow>
          (case mutate ch of
             Inl e \<Rightarrow> (Inl e, s)
           | Inr trial \<Rightarrow> commitCh w s i trial))"

definition StoreAccept ::
  "crypto \<Rightarrow> WriteFault \<Rightarrow> Store \<Rightarrow> bytes32 \<Rightarrow> SignedState \<Rightarrow> (chan_error + unit) \<times> Store" where
  "StoreAccept cr w s i candidate =
     (case lookupCh s i of
        None \<Rightarrow> (Inl ErrNoSuchChannel, s)
      | Some ch \<Rightarrow>
          (case Accept cr ch candidate of
             Inl e \<Rightarrow> (Inl e, s)
           | Inr trial \<Rightarrow> commitCh w s i trial))"

definition trackedChannel :: "bigint \<Rightarrow> address \<Rightarrow> OnChainChannel \<Rightarrow> Channel" where
  \<comment> \<open>the record \<^verbatim>\<open>TrackFromChain\<close> writes\<close>
  "trackedChannel chainID contract occ =
     \<lparr> ch_ID = oc_ID occ, ch_PartyA = oc_PartyA occ, ch_PartyB = oc_PartyB occ,
       ch_DepositA = Some (orZero (oc_DepositA occ)), ch_DepositB = Some (orZero (oc_DepositB occ)),
       ch_Status = StatusOpen, ch_ChainID = Some (orZero chainID), ch_Contract = contract,
       ch_Latest = emptySigned, ch_Signed = Map.empty, ch_Applied = Map.empty, ch_Pending = None,
       ch_Conflict = None, ch_History = [], ch_Payout = None, ch_NeedsReconcile = False \<rparr>"

definition TrackFromChain ::
  "crypto \<Rightarrow> WriteFault \<Rightarrow> Store \<Rightarrow> bigint \<Rightarrow> address \<Rightarrow> OnChainChannel \<Rightarrow> (chan_error + unit) \<times> Store" where
  "TrackFromChain cr w s chainID contract occ =
     (if \<not> oc_fromChain occ then (Inl ErrNotFromChain, s)
      else if oc_Status occ \<noteq> StatusOpen then (Inl (ErrText ''on-chain status is not open''), s)
      else if DeriveChannelID cr (oc_PartyA occ) (oc_PartyB occ) \<noteq> oc_ID occ
      then (Inl (ErrText ''on-chain parties do not derive the channel id''), s)
      else if lookupCh s (oc_ID occ) \<noteq> None then (Inl ErrChannelExists, s)
      else commitCh w s (oc_ID occ) (trackedChannel chainID contract occ))"

definition refreshFrom :: "OnChainChannel \<Rightarrow> Channel \<Rightarrow> chan_error + Channel" where
  \<comment> \<open>the mutation \<^verbatim>\<open>RefreshFromChain\<close> passes to \<^verbatim>\<open>Update\<close>\<close>
  "refreshFrom occ c =
     (if oc_PartyA occ \<noteq> ch_PartyA c \<or> oc_PartyB occ \<noteq> ch_PartyB c
      then Inl (ErrText ''on-chain parties do not match the stored record'')
      else Inr (c\<lparr>ch_DepositA := Some (orZero (oc_DepositA occ)),
                  ch_DepositB := Some (orZero (oc_DepositB occ)), ch_Status := oc_Status occ\<rparr>))"

definition RefreshFromChain :: "WriteFault \<Rightarrow> Store \<Rightarrow> OnChainChannel \<Rightarrow> (chan_error + unit) \<times> Store" where
  "RefreshFromChain w s occ =
     (if \<not> oc_fromChain occ then (Inl ErrNotFromChain, s)
      else StoreUpdate w s (oc_ID occ) (refreshFrom occ))"

definition StoreGet :: "Store \<Rightarrow> bytes32 \<Rightarrow> Channel option" where
  "StoreGet s i = map_option (\<lambda>ch. ch\<lparr>ch_NeedsReconcile := i \<in> sto_unreconciled s\<rparr>) (lookupCh s i)"

definition StoreIDs :: "Store \<Rightarrow> bytes32 list" where
  "StoreIDs s = sort_key hexEncode (map fst (sto_channels s))"

subsection \<open>The quarantine of a restored store\<close>

definition NeedsReconcile :: "Store \<Rightarrow> bytes32 \<Rightarrow> bool" where
  "NeedsReconcile s i \<longleftrightarrow> i \<in> sto_unreconciled s"

definition clearReconcile :: "bool \<Rightarrow> Store \<Rightarrow> bytes32 \<Rightarrow> (chan_error + unit) \<times> Store" where
  \<comment> \<open>the first argument says whether removing the marker file works\<close>
  "clearReconcile removeOK s i =
     (let s' = s\<lparr>sto_unreconciled := sto_unreconciled s - {i}\<rparr> in
      if sto_unreconciled s' \<noteq> {} then (Inr (), s')
      else if \<not> dk_Restored (sto_disk s') then (Inr (), s')
      else if removeOK then (Inr (), s'\<lparr>sto_disk := (sto_disk s')\<lparr>dk_Restored := False\<rparr>\<rparr>)
      else (Inl ErrIO, s'))"

definition MarkRestored :: "Disk \<Rightarrow> Disk" where
  "MarkRestored d = d\<lparr>dk_Restored := True\<rparr>"

end
