(* ===== verification/Preimages.thy ===== *)
theory Preimages
  imports Store
begin

text \<open>
  The preimage vault, \<^verbatim>\<open>src/internal/channel/preimages.go\<close>: secrets this node has learned, on disk before
  the settlement that revealed them is signed. The file is part of the vault's state; a write can fail
  before or after the rename, as in the store.
\<close>

record PreimageVault =
  pv_known :: "(bytes32 \<times> bytes32) list"
  pv_file :: "(string \<times> string) list option"

definition encodeVault :: "(bytes32 \<times> bytes32) list \<Rightarrow> (string \<times> string) list" where
  "encodeVault known = map (\<lambda>(hash, preimage). (hexEncode hash, hexEncode preimage)) known"

fun loadVault ::
  "crypto \<Rightarrow> (string \<times> string) list \<Rightarrow> (bytes32 \<times> bytes32) list \<Rightarrow> chan_error + (bytes32 \<times> bytes32) list" where
  "loadVault cr [] known = Inr known"
| "loadVault cr ((hashHex, preimageHex) # rest) known =
     bindR (parseBytes32 hashHex) (\<lambda>hash.
     bindR (parseBytes32 preimageHex) (\<lambda>preimage.
       if \<not> HTLC_Matches cr \<lparr> h_ID = zero32, h_Hash = hash, h_Amount = None, h_Expiry = 0, h_PayerIsA = False \<rparr>
              preimage
       then Inl (ErrText ''preimage vault entry does not match its hash'')
       else loadVault cr rest (AList.update hash preimage known)))"

definition OpenPreimageVault :: "crypto \<Rightarrow> (string \<times> string) list option \<Rightarrow> chan_error + PreimageVault" where
  "OpenPreimageVault cr file =
     (case file of
        None \<Rightarrow> Inr \<lparr> pv_known = [], pv_file = None \<rparr>
      | Some stored \<Rightarrow> bindR (loadVault cr stored []) (\<lambda>known. Inr \<lparr> pv_known = known, pv_file = file \<rparr>))"

definition persistVault ::
  "WriteFault \<Rightarrow> (string \<times> string) list option \<Rightarrow> (bytes32 \<times> bytes32) list
    \<Rightarrow> (chan_error + unit) \<times> (string \<times> string) list option" where
  "persistVault w file known =
     (case w of
        WriteOK \<Rightarrow> (Inr (), Some (encodeVault known))
      | FailBeforeRename \<Rightarrow> (Inl ErrIO, file)
      | FailAfterRename \<Rightarrow> (Inl ErrIO, Some (encodeVault known)))"

definition Learn :: "crypto \<Rightarrow> WriteFault \<Rightarrow> PreimageVault \<Rightarrow> bytes32 \<Rightarrow> (chan_error + unit) \<times> PreimageVault" where
  "Learn cr w v preimage =
     (let hash = copyArr 32 (keccak cr [preimage]) in
      if map_of (pv_known v) hash = Some preimage then (Inr (), v)
      else
        let nxt = AList.update hash preimage (pv_known v) in
        case persistVault w (pv_file v) nxt of
          (Inl e, file) \<Rightarrow> (Inl e, v\<lparr>pv_file := file\<rparr>)
        | (Inr _, file) \<Rightarrow> (Inr (), v\<lparr>pv_file := file, pv_known := nxt\<rparr>))"

definition Lookup :: "PreimageVault \<Rightarrow> bytes32 \<Rightarrow> bytes32 option" where
  "Lookup v hash = map_of (pv_known v) hash"

subsection \<open>Invariant and durability\<close>

definition keccak32 :: "crypto \<Rightarrow> bytes32 \<Rightarrow> bytes32" where
  "keccak32 cr p = copyArr 32 (keccak cr [p])"

definition entriesOK :: "crypto \<Rightarrow> (bytes32 \<times> bytes32) list \<Rightarrow> bool" where
  "entriesOK cr known \<longleftrightarrow> distinct (map fst known) \<and>
     (\<forall>(h, p) \<in> set known. length p = 32 \<and> h = keccak32 cr p)"

definition vaultOK :: "crypto \<Rightarrow> PreimageVault \<Rightarrow> bool" where
  \<comment> \<open>every secret hashes to its key, and every key that is known is on disk\<close>
  "vaultOK cr v \<longleftrightarrow> entriesOK cr (pv_known v) \<and>
     (\<exists>stored. entriesOK cr stored \<and> fst ` set (pv_known v) \<subseteq> fst ` set stored \<and>
       (pv_file v = Some (encodeVault stored) \<or> pv_file v = None \<and> stored = []))"

lemma entriesOK_update:
  assumes "entriesOK cr known" "length p = 32"
  shows "entriesOK cr (AList.update (keccak32 cr p) p known)"
  unfolding entriesOK_def
proof
  show "distinct (map fst (AList.update (keccak32 cr p) p known))"
    using assms by (simp add: entriesOK_def distinct_update)
  show "\<forall>(h, q) \<in> set (AList.update (keccak32 cr p) p known). length q = 32 \<and> h = keccak32 cr q"
  proof (clarify)
    fix h q
    assume "(h, q) \<in> set (AList.update (keccak32 cr p) p known)"
    then have "map_of (AList.update (keccak32 cr p) p known) h = Some q"
      using assms by (intro map_of_is_SomeI) (simp_all add: entriesOK_def distinct_update)
    then show "length q = 32 \<and> h = keccak32 cr q"
      using assms by (auto simp: entriesOK_def update_conv' split: if_splits dest!: map_of_SomeD)
  qed
qed

lemma update_fresh: "k \<notin> fst ` set al \<Longrightarrow> AList.update k v al = al @ [(k, v)]"
  by (induction al) auto

lemma loadVault_encode:
  "entriesOK cr stored \<Longrightarrow> (\<forall>(h, p) \<in> set stored. h \<notin> fst ` set acc) \<Longrightarrow>
   loadVault cr (encodeVault stored) acc = Inr (acc @ stored)"
proof (induction stored arbitrary: acc)
  case (Cons e es)
  obtain h p where e: "e = (h, p)" by force
  have hp: "length p = 32" "h = keccak32 cr p" "length h = 32"
    using Cons.prems(1) by (auto simp: e entriesOK_def keccak32_def)
  have upd: "AList.update h p acc = acc @ [(h, p)]"
    by (rule update_fresh) (use Cons.prems(2) in \<open>auto simp: e\<close>)
  have "loadVault cr (encodeVault es) (acc @ [(h, p)]) = Inr ((acc @ [(h, p)]) @ es)"
    using Cons.prems by (intro Cons.IH) (auto simp: e entriesOK_def image_iff)
  with hp show ?case
    by (simp add: e encodeVault_def HTLC_Matches_def keccak32_def upd [unfolded hp(2) keccak32_def])
qed (simp add: encodeVault_def)

lemma fst_update: "fst ` set (AList.update k v al) = insert k (fst ` set al)"
  using dom_update [of k v al] by (simp add: dom_map_of_conv_image_fst)

lemma Learn_step:
  assumes "vaultOK cr v" "length p = 32"
  shows "vaultOK cr (snd (Learn cr w v p)) \<and>
    fst ` set (pv_known v) \<subseteq> fst ` set (pv_known (snd (Learn cr w v p))) \<and>
    (fst (Learn cr w v p) = Inr () \<longrightarrow> keccak32 cr p \<in> fst ` set (pv_known (snd (Learn cr w v p))))"
proof (cases "map_of (pv_known v) (keccak32 cr p) = Some p")
  case True
  then show ?thesis
    using assms(1) by (auto simp: Learn_def Let_def simp flip: keccak32_def dest!: map_of_SomeD intro: rev_image_eqI)
next
  case False
  let ?n = "AList.update (keccak32 cr p) p (pv_known v)"
  have n: "entriesOK cr ?n"
    using assms by (intro entriesOK_update) (simp_all add: vaultOK_def)
  have k: "entriesOK cr (pv_known v)" and sub: "fst ` set (pv_known v) \<subseteq> fst ` set ?n"
    and key: "keccak32 cr p \<in> fst ` set ?n"
    using assms(1) by (simp add: vaultOK_def, unfold fst_update) auto
  have "vaultOK cr (v\<lparr>pv_file := Some (encodeVault ?n), pv_known := ?n\<rparr>)"
    "vaultOK cr (v\<lparr>pv_file := Some (encodeVault ?n)\<rparr>)"
    using n k sub unfolding vaultOK_def by (simp, blast)+
  then show ?thesis
    using False sub key assms(1)
    by (cases w) (simp_all add: Learn_def Let_def persistVault_def flip: keccak32_def)
qed

lemma Open_vaultOK:
  assumes "vaultOK cr v"
  shows "\<exists>v'. OpenPreimageVault cr (pv_file v) = Inr v' \<and> vaultOK cr v' \<and>
    fst ` set (pv_known v) \<subseteq> fst ` set (pv_known v')"
proof -
  obtain stored where "entriesOK cr stored" "fst ` set (pv_known v) \<subseteq> fst ` set stored"
    "pv_file v = Some (encodeVault stored) \<or> pv_file v = None \<and> stored = []"
    using assms by (auto simp: vaultOK_def)
  then show ?thesis
    using loadVault_encode [of cr stored "[]"] by (auto simp: OpenPreimageVault_def vaultOK_def)
qed

subsection \<open>Durability\<close>

text \<open>What can happen to a vault: another secret learned, with any outcome of the write, or a restart.\<close>

inductive vaultStep :: "crypto \<Rightarrow> PreimageVault \<Rightarrow> PreimageVault \<Rightarrow> bool" for cr where
  learn: "length p = 32 \<Longrightarrow> vaultStep cr v (snd (Learn cr w v p))"
| restart: "OpenPreimageVault cr (pv_file v) = Inr v' \<Longrightarrow> vaultStep cr v v'"

lemma vaultStep_mono:
  assumes "vaultStep cr v v'" "vaultOK cr v"
  shows "vaultOK cr v' \<and> fst ` set (pv_known v) \<subseteq> fst ` set (pv_known v')"
  using assms
proof (cases rule: vaultStep.cases)
  case restart
  then show ?thesis
    using Open_vaultOK [OF assms(2)] by auto
qed (use assms(2) Learn_step in \<open>blast dest: Learn_step\<close>)

lemma Lookup_known:
  assumes "vaultOK cr v" "h \<in> fst ` set (pv_known v)"
  shows "\<exists>q. Lookup v h = Some q \<and> keccak32 cr q = h"
proof -
  obtain q where "map_of (pv_known v) h = Some q"
    using assms(2) by (metis not_Some_eq map_of_eq_None_iff)
  then show ?thesis
    using assms(1) by (auto simp: Lookup_def vaultOK_def entriesOK_def dest!: map_of_SomeD)
qed

text \<open>
  A secret that was learned is never lost. Once \<^verbatim>\<open>Learn\<close> has reported success for a preimage, then
  after any number of further secrets, failed writes and restarts the vault still opens, and looking up
  the hash returns a secret that opens a lock on it.
\<close>

theorem Learn_durable:
  assumes "vaultOK cr v" "length p = 32" "Learn cr w v p = (Inr (), v')" "(vaultStep cr)\<^sup>*\<^sup>* v' v''"
  shows "(\<exists>q. Lookup v'' (copyArr 32 (keccak cr [p])) = Some q \<and>
      HTLC_Matches cr \<lparr> h_ID = i, h_Hash = copyArr 32 (keccak cr [p]), h_Amount = a, h_Expiry = t,
        h_PayerIsA = b \<rparr> q) \<and>
    (\<exists>v3. OpenPreimageVault cr (pv_file v'') = Inr v3)"
proof -
  have start: "vaultOK cr v' \<and> keccak32 cr p \<in> fst ` set (pv_known v')"
    using Learn_step [OF assms(1,2), of w] assms(3) by simp
  from assms(4) have "vaultOK cr v'' \<and> keccak32 cr p \<in> fst ` set (pv_known v'')"
    by (induction rule: rtranclp_induct) (use start vaultStep_mono in blast)+
  then show ?thesis
    using Lookup_known [of cr v'' "keccak32 cr p"] Open_vaultOK [of cr v'']
    by (auto simp: keccak32_def HTLC_Matches_def)
qed

theorem Learn_durable_witness:
  "\<exists>q. Lookup \<lparr> pv_known = [(demoID, demoID)], pv_file = Some [(hexEncode demoID, hexEncode demoID)] \<rparr> demoID = Some q"
proof -
  let ?v = "\<lparr> pv_known = [], pv_file = None \<rparr>"
    and ?v' = "\<lparr> pv_known = [(demoID, demoID)], pv_file = Some [(hexEncode demoID, hexEncode demoID)] \<rparr>"
  have ok: "vaultOK demoCrypto ?v"
    by (simp add: vaultOK_def entriesOK_def)
  have len: "length demoID = 32"
    by (simp add: demoID_def)
  have learn: "Learn demoCrypto WriteOK ?v demoID = (Inr (), ?v')"
    by (simp add: Learn_def demo_preimage persistVault_def encodeVault_def)
  show ?thesis
    using Learn_durable [OF ok len learn rtranclp.rtrancl_refl] unfolding demo_preimage by blast
qed

end
