(* ===== verification/Store_Props.thy ===== *)
theory Store_Props
  imports Preimages
begin

text \<open>
  Durability of the store: a record decodes to the channel that was written, an invariant that every
  committed channel satisfies survives any mixture of operations, write failures and restarts
  (\<open>durable\<close>), and a failed commit is invisible (\<open>committer\<close>, the interface the protocol engine uses).
\<close>

subsection \<open>A record reads back as the channel that was written\<close>

definition wfPending :: "PendingProposal \<Rightarrow> bool" where
  "wfPending p \<longleftrightarrow> length (pp_Intent p) = 32 \<and> wireOK (pp_State p) \<and>
     length (tr_LockID (pp_Transition p)) = 32 \<and> length (tr_Hash (pp_Transition p)) = 32 \<and>
     length (tr_Preimage (pp_Transition p)) = 32"

definition wfChannel :: "Channel \<Rightarrow> bool" where
  \<comment> \<open>array lengths, and every state in the record has a wire form\<close>
  "wfChannel c \<longleftrightarrow>
     length (ch_ID c) = 32 \<and> wfAddr (ch_PartyA c) \<and> wfAddr (ch_PartyB c) \<and> wfAddr (ch_Contract c) \<and>
     wireOK (latestState c) \<and> (\<forall>d \<in> ran (ch_Signed c). length d = 32) \<and>
     (\<forall>k \<in> dom (ch_Applied c). length k = 32) \<and>
     pred_option wfPending (ch_Pending c) \<and>
     pred_option (\<lambda>x. wireOK (ss_State (cf_Mine x)) \<and> wireOK (ss_State (cf_Theirs x))) (ch_Conflict c) \<and>
     (\<forall>r \<in> set (ch_History c). length (pr_Intent r) = 32 \<and> length (pr_LockID r) = 32)"

definition normPending :: "PendingProposal \<Rightarrow> PendingProposal" where
  "normPending p = p\<lparr>pp_Transition := normTransition (pp_Transition p), pp_State := normState (pp_State p)\<rparr>"

definition normConflict :: "ConflictRecord \<Rightarrow> ConflictRecord" where
  "normConflict x = x\<lparr>cf_Mine := normSigned (cf_Mine x), cf_Theirs := normSigned (cf_Theirs x)\<rparr>"

definition normChannel :: "Channel \<Rightarrow> Channel" where
  \<comment> \<open>nil numbers read back as zero; the payout record and the quarantine flag are not in the file\<close>
  "normChannel c = c\<lparr>ch_DepositA := Some (orZero (ch_DepositA c)), ch_DepositB := Some (orZero (ch_DepositB c)),
     ch_ChainID := Some (orZero (ch_ChainID c)), ch_Latest := normSigned (ch_Latest c),
     ch_Pending := map_option normPending (ch_Pending c),
     ch_Conflict := map_option normConflict (ch_Conflict c),
     ch_Payout := None, ch_NeedsReconcile := False\<rparr>"

lemma decode_encode_pending: "wfPending p \<Longrightarrow> decodePending (encodePending p) = Inr (normPending p)"
  by (simp add: decodePending_def encodePending_def wfPending_def decode_encode_transition
      decode_encode_state normPending_def)

lemma decode_encode_payment:
  "length (pr_Intent r) = 32 \<Longrightarrow> length (pr_LockID r) = 32 \<Longrightarrow> decodePayment (encodePayment r) = Inr r"
  by (simp add: decodePayment_def encodePayment_def)

lemma decode_encode_conflict:
  "wireOK (ss_State (cf_Mine x)) \<Longrightarrow> wireOK (ss_State (cf_Theirs x)) \<Longrightarrow>
   decodeConflict (encodeConflict x) = Inr (normConflict x)"
  by (simp add: decodeConflict_def encodeConflict_def decode_encode_signed normConflict_def)

lemma optR_encode:
  "pred_option P x \<Longrightarrow> (\<And>v. P v \<Longrightarrow> f (g v) = Inr (h v)) \<Longrightarrow> optR f (map_option g x) = Inr (map_option h x)"
  by (cases x) (auto simp: optR_def)

lemma decode_encode_signedMap:
  assumes "\<forall>d \<in> ran m. length d = 32"
  shows "decodeSigned (map_option hexEncode \<circ> m) = Inr m"
proof -
  have ran: "\<exists>d \<in> ran m. v = hexEncode d" if "v \<in> ran (map_option hexEncode \<circ> m)" for v
    using that by (auto simp: ran_def)
  have ok: "\<forall>v \<in> ran (map_option hexEncode \<circ> m). isl (parseBytes32 v) = False"
    using ran assms by fastforce
  have "Option.bind (map_option hexEncode (m n)) (\<lambda>v. case parseBytes32 v of Inl _ \<Rightarrow> None | Inr d \<Rightarrow> Some d)
      = m n" for n
    using assms by (cases "m n") (simp_all add: ranI)
  with ok show ?thesis
    by (simp add: decodeSigned_def)
qed

lemma decode_encode_channel:
  assumes "wfChannel c"
  shows "decodeChannel (encodeChannel c) = Inr (normChannel c)"
proof -
  have "optR decodePending (map_option encodePending (ch_Pending c)) = Inr (map_option normPending (ch_Pending c))"
    using assms by (intro optR_encode [where P = wfPending] decode_encode_pending) (simp_all add: wfChannel_def)
  moreover have "optR decodeConflict (map_option encodeConflict (ch_Conflict c))
      = Inr (map_option normConflict (ch_Conflict c))"
    using assms
    by (intro optR_encode [where P = "\<lambda>x. wireOK (ss_State (cf_Mine x)) \<and> wireOK (ss_State (cf_Theirs x))"])
      (simp_all add: wfChannel_def decode_encode_conflict)
  moreover have "mapR decodePayment (map encodePayment (ch_History c)) = Inr (map (\<lambda>x. x) (ch_History c))"
    using assms by (intro mapR_map) (simp add: decode_encode_payment wfChannel_def)
  ultimately show ?thesis
    using assms
    by (simp add: decodeChannel_def encodeChannel_def wfChannel_def decode_encode_state
        decode_encode_signedMap decodeApplied_def normChannel_def normSigned_def)
qed

lemma normChannel_simps [simp]:
  "ch_ID (normChannel c) = ch_ID c" "ch_PartyA (normChannel c) = ch_PartyA c"
  "ch_PartyB (normChannel c) = ch_PartyB c" "ch_Status (normChannel c) = ch_Status c"
  "ch_Contract (normChannel c) = ch_Contract c" "ch_Signed (normChannel c) = ch_Signed c"
  "ch_Applied (normChannel c) = ch_Applied c" "ch_History (normChannel c) = ch_History c"
  "ch_Latest (normChannel c) = normSigned (ch_Latest c)"
  "orZero (ch_DepositA (normChannel c)) = orZero (ch_DepositA c)"
  "orZero (ch_DepositB (normChannel c)) = orZero (ch_DepositB c)"
  "ch_ChainID (normChannel c) = Some (orZero (ch_ChainID c))"
  by (simp_all add: normChannel_def)

lemma normSigned_simps [simp]:
  "ss_State (normSigned ss) = normState (ss_State ss)" "ss_SigA (normSigned ss) = ss_SigA ss"
  "ss_SigB (normSigned ss) = ss_SigB ss" "Complete (normSigned ss) = Complete ss"
  by (simp_all add: normSigned_def Complete_def)

lemma Digest_chainID: "Digest cr s (Some (orZero c)) k = Digest cr s c k"
  by (simp add: Digest_def StateDigest_def u256_orZero)

lemma norm_dropped: "ch_Payout (normChannel c) = None" "\<not> ch_NeedsReconcile (normChannel c)"
  by (simp_all add: normChannel_def)

lemma norm_pending:
  "rel_option (\<lambda>p' p. pp_Intent p' = pp_Intent p \<and> pp_Sig p' = pp_Sig p \<and>
     Digest cr (pp_State p') chain contract = Digest cr (pp_State p) chain contract)
     (ch_Pending (normChannel c)) (ch_Pending c)"
  by (cases "ch_Pending c") (simp_all add: normChannel_def normPending_def)

lemma verifyLoaded_norm [simp]: "verifyLoaded cr (normChannel c) = verifyLoaded cr c"
  by (simp add: verifyLoaded_def Digest_chainID cong: if_cong sum.case_cong)

lemma verifyLoaded_iff:
  "verifyLoaded cr c = Inr () \<longleftrightarrow> (Complete (ch_Latest c) \<longrightarrow> signedBoth cr c (ch_Latest c))"
  by (auto simp: verifyLoaded_def signedBoth_def Let_def split: sum.splits)

lemma wireOK_norm [simp]: "wireOK (normState s) = wireOK s"
  by (auto simp: wireOK_def normState_def st_op_def clonePending_def canonical_def sorted_wrt_map Op_defs)

lemma wfChannel_norm [simp]: "wfChannel c \<Longrightarrow> wfChannel (normChannel c)"
  by (auto simp: wfChannel_def normChannel_def normSigned_def normPending_def normConflict_def wfPending_def
      normTransition_def option.pred_map pred_option_def)


subsection \<open>Invariants that survive the disk\<close>

definition storeHolds :: "(bytes32 \<Rightarrow> Channel \<Rightarrow> bool) \<Rightarrow> Store \<Rightarrow> bool" where
  \<comment> \<open>in memory and on disk, and nothing in memory is missing on disk\<close>
  "storeHolds good s \<longleftrightarrow> distinct (map fst (dk_Files (sto_disk s))) \<and>
     (\<forall>i. lookupCh s i \<noteq> None \<longrightarrow> map_of (dk_Files (sto_disk s)) i \<noteq> None) \<and>
     (\<forall>i c. lookupCh s i = Some c \<longrightarrow> good i c) \<and>
     (\<forall>i r. map_of (dk_Files (sto_disk s)) i = Some r \<longrightarrow> (\<exists>c. r = encodeChannel c \<and> good i c))"

text \<open>
  An invariant of single channels that implies a readable, verifying record and that reading back keeps.
  It then holds of everything in memory and on disk, whatever writes fail and whenever the node restarts.
\<close>

locale durable =
  fixes cr :: crypto
    and good :: "bytes32 \<Rightarrow> Channel \<Rightarrow> bool"
  assumes good_readable: "good i c \<Longrightarrow> ch_ID c = i \<and> wfChannel c \<and> verifyLoaded cr c = Inr ()"
    and good_norm: "good i c \<Longrightarrow> good i (normChannel c)"
begin

abbreviation holds :: "Store \<Rightarrow> bool" where
  "holds \<equiv> storeHolds good"

lemma holds_commit:
  assumes "holds s" "good i c"
  shows "holds (snd (commitCh w s i c))"
  using assms good_readable [OF assms(2)]
  by (cases w) (auto simp: commitCh_def persist_def storeHolds_def lookupCh_def update_conv' distinct_update Let_def)

lemma holds_update:
  assumes "holds s" "\<And>c c'. lookupCh s i = Some c \<Longrightarrow> good i c \<Longrightarrow> f c = Inr c' \<Longrightarrow> good i c'"
  shows "holds (snd (StoreUpdate w s i f))"
proof (cases "\<exists>c c'. lookupCh s i = Some c \<and> f c = Inr c'")
  case True
  then obtain c c' where c: "lookupCh s i = Some c" "f c = Inr c'" by blast
  have "good i c"
    using assms(1) c(1) by (simp add: storeHolds_def)
  then have "good i c'"
    using assms(2) [OF c(1) _ c(2)] by blast
  with assms(1) c show ?thesis
    by (simp add: StoreUpdate_def holds_commit)
next
  case False
  then have "snd (StoreUpdate w s i f) = s"
    by (auto simp: StoreUpdate_def split: option.split sum.split)
  with assms(1) show ?thesis by simp
qed

lemma loadAll_total:
  assumes "distinct (map fst files)" "\<And>i r. map_of files i = Some r \<Longrightarrow> \<exists>c. r = encodeChannel c \<and> good i c"
  shows "\<exists>chs unrec. loadAll cr restored files (chs0, unrec0) = Inr (chs, unrec) \<and>
    (\<forall>i. map_of chs i = (case map_of files i of None \<Rightarrow> map_of chs0 i
       | Some r \<Rightarrow> Some (projr (decodeChannel r))))"
  using assms
proof (induction files arbitrary: chs0 unrec0)
  case (Cons e files)
  obtain i r where e: "e = (i, r)" by force
  from Cons.prems(2) [of i r] obtain c where r: "r = encodeChannel c" and c: "good i c"
    by (auto simp: e)
  have dec: "decodeChannel r = Inr (normChannel c)" and id: "ch_ID c = i"
    and ver: "verifyLoaded cr (normChannel c) = Inr ()"
    using good_readable [OF c] by (simp_all add: r decode_encode_channel)
  have none: "map_of files i = None"
    using Cons.prems(1) by (simp add: e map_of_eq_None_iff)
  then have goods: "\<exists>c. r = encodeChannel c \<and> good j c" if "map_of files j = Some r" for j r
    using Cons.prems(2) [of j r] that by (cases "j = i") (auto simp: e)
  obtain chs unrec where
    rest: "loadAll cr restored files (AList.update i (normChannel c) chs0,
        if restored then insert i unrec0 else unrec0) = Inr (chs, unrec)"
    and look: "\<forall>j. map_of chs j = (case map_of files j of None \<Rightarrow> map_of (AList.update i (normChannel c) chs0) j
       | Some r \<Rightarrow> Some (projr (decodeChannel r)))"
    using Cons.IH [of "AList.update i (normChannel c) chs0" "if restored then insert i unrec0 else unrec0"]
      Cons.prems(1) goods by auto
  with none rest look dec ver id show ?case
    by (auto simp: e update_conv' split: option.split)
qed simp

lemma open_total:
  assumes "holds s"
  shows "\<exists>s'. OpenStore cr (sto_disk s) = Inr s' \<and> holds s' \<and>
    (\<forall>i. lookupCh s' i = map_option (\<lambda>r. projr (decodeChannel r)) (map_of (dk_Files (sto_disk s)) i))"
proof -
  let ?files = "dk_Files (sto_disk s)"
  have d: "distinct (map fst ?files)" using assms by (simp add: storeHolds_def)
  have g: "\<exists>c. r = encodeChannel c \<and> good i c" if "map_of ?files i = Some r" for i r
    using assms that by (simp add: storeHolds_def)
  obtain chs unrec where load: "loadAll cr (dk_Restored (sto_disk s)) ?files ([], {}) = Inr (chs, unrec)"
    and look: "\<forall>i. map_of chs i = (case map_of ?files i of None \<Rightarrow> map_of [] i | Some r \<Rightarrow> Some (projr (decodeChannel r)))"
    using loadAll_total [OF d g, of "dk_Restored (sto_disk s)" "[]" "{}"] by blast
  define s' where "s' = \<lparr> sto_channels = chs, sto_unreconciled = unrec,
    sto_disk = (if dk_Restored (sto_disk s) \<and> unrec = {} then (sto_disk s)\<lparr>dk_Restored := False\<rparr> else sto_disk s) \<rparr>"
  have look': "lookupCh s' i = map_option (\<lambda>r. projr (decodeChannel r)) (map_of ?files i)" for i
    using look by (simp add: s'_def lookupCh_def split: option.split)
  have files: "dk_Files (sto_disk s') = ?files"
    by (simp add: s'_def)
  have "holds s'"
    unfolding storeHolds_def
  proof (intro conjI allI impI)
    fix i c assume "lookupCh s' i = Some c"
    then obtain r where r: "map_of ?files i = Some r" "c = projr (decodeChannel r)"
      by (auto simp: look')
    from g [OF r(1)] obtain c0 where "r = encodeChannel c0" "good i c0" by blast
    with r good_readable [of i c0] good_norm show "good i c"
      by (simp add: decode_encode_channel)
  qed (simp_all add: files d g look' option.map_disc_iff)
  moreover have "OpenStore cr (sto_disk s) = Inr s'"
    by (simp add: OpenStore_def load s'_def)
  ultimately show ?thesis
    using look' by blast
qed

end

subsection \<open>The interface of the protocol engine\<close>

text \<open>
  \<^verbatim>\<open>Committer\<close> of \<^verbatim>\<open>session.go\<close>: a snapshot and an atomic change. \<open>live\<close> is the record behind the snapshot,
  \<open>flag\<close> the quarantine stamp that a snapshot carries.
\<close>

locale committer =
  fixes live :: "'s \<Rightarrow> bytes32 \<Rightarrow> Channel option"
    and flag :: "'s \<Rightarrow> bytes32 \<Rightarrow> bool"
    and snapshot :: "'s \<Rightarrow> bytes32 \<Rightarrow> Channel option"
    and commit :: "WriteFault \<Rightarrow> 's \<Rightarrow> bytes32 \<Rightarrow> (Channel \<Rightarrow> chan_error + Channel) \<Rightarrow> (chan_error + unit) \<times> 's"
  assumes snapshot_live: "snapshot s i = map_option (\<lambda>c. c\<lparr>ch_NeedsReconcile := flag s i\<rparr>) (live s i)"
    and commit_done: "commit w s i f = (Inr (), s') \<Longrightarrow>
      \<exists>c c'. live s i = Some c \<and> f c = Inr c' \<and> live s' = (live s)(i \<mapsto> c') \<and> flag s' = flag s"
    and commit_failed: "commit w s i f = (Inl e, s') \<Longrightarrow> live s' = live s \<and> flag s' = flag s"
    and commit_works: "live s i = Some c \<Longrightarrow> f c = Inr c' \<Longrightarrow> fst (commit WriteOK s i f) = Inr ()"
begin

lemma snapshot_failed: "commit w s i f = (Inl e, s') \<Longrightarrow> snapshot s' j = snapshot s j"
  using commit_failed by (simp add: snapshot_live)

lemma snapshot_done:
  assumes "commit w s i f = (Inr (), s')"
  obtains c c' where "live s i = Some c" "f c = Inr c'"
    "snapshot s' i = Some (c'\<lparr>ch_NeedsReconcile := flag s i\<rparr>)" "j \<noteq> i \<Longrightarrow> snapshot s' j = snapshot s j"
  using commit_done [OF assms] by (auto simp: snapshot_live)

lemma commit_cases:
  obtains (fail) e where "fst (commit w s i f) = Inl e" "live (snd (commit w s i f)) = live s"
  | (ok) c c' where "fst (commit w s i f) = Inr ()" "live s i = Some c" "f c = Inr c'"
      "live (snd (commit w s i f)) = (live s)(i \<mapsto> c')"
proof (cases "commit w s i f")
  case (Pair r s')
  show thesis
  proof (cases r)
    case (Inl e)
    with Pair show thesis
      using commit_failed [of w s i f e s'] fail by simp
  next
    case (Inr u)
    with Pair show thesis
      using commit_done [of w s i f s'] ok by auto
  qed
qed

end

lemma lookup_commitCh:
  "commitCh w s i c = (r, s') \<Longrightarrow>
   (r = Inr () \<and> w = WriteOK \<and> lookupCh s' = (lookupCh s)(i \<mapsto> c) \<or> r = Inl ErrIO \<and> lookupCh s' = lookupCh s) \<and>
   sto_unreconciled s' = sto_unreconciled s"
  by (cases w) (auto simp: commitCh_def persist_def lookupCh_def update_conv' Let_def fun_eq_iff)

interpretation sto: committer lookupCh NeedsReconcile StoreGet StoreUpdate
proof unfold_locales
  fix w s i f s'
  assume "StoreUpdate w s i f = (Inr (), s')"
  then show "\<exists>c c'. lookupCh s i = Some c \<and> f c = Inr c' \<and> lookupCh s' = (lookupCh s)(i \<mapsto> c')
      \<and> NeedsReconcile s' = NeedsReconcile s"
    by (auto simp: StoreUpdate_def NeedsReconcile_def fun_eq_iff dest!: lookup_commitCh
        split: option.splits sum.splits)
next
  fix w s i f e s'
  assume "StoreUpdate w s i f = (Inl e, s')"
  then show "lookupCh s' = lookupCh s \<and> NeedsReconcile s' = NeedsReconcile s"
    by (auto simp: StoreUpdate_def NeedsReconcile_def fun_eq_iff dest!: lookup_commitCh
        split: option.splits sum.splits)
qed (auto simp: StoreGet_def NeedsReconcile_def StoreUpdate_def commitCh_def persist_def Let_def)

subsection \<open>What can happen to a store\<close>

definition readable :: "crypto \<Rightarrow> bytes32 \<Rightarrow> Channel \<Rightarrow> bool" where
  "readable cr i c \<longleftrightarrow> ch_ID c = i \<and> wfChannel c \<and> verifyLoaded cr c = Inr ()"

definition sameChannel :: "Channel \<Rightarrow> Channel \<Rightarrow> bool" where
  "sameChannel c c' \<longleftrightarrow> ch_ID c' = ch_ID c \<and> ch_PartyA c' = ch_PartyA c \<and> ch_PartyB c' = ch_PartyB c \<and>
     ch_ChainID c' = ch_ChainID c \<and> ch_Contract c' = ch_Contract c"

definition advances :: "crypto \<Rightarrow> Channel \<Rightarrow> Channel \<Rightarrow> bool" where
  \<comment> \<open>the same channel with the same agreed state, or with one that \<^verbatim>\<open>Accept\<close> took\<close>
  "advances cr c c' \<longleftrightarrow> wfChannel c' \<and> sameChannel c c' \<and>
     (ch_Latest c' = ch_Latest c \<or> (\<exists>cand c1. Accept cr c cand = Inr c1 \<and> ch_Latest c' = cand))"

definition advancing :: "crypto \<Rightarrow> (Channel \<Rightarrow> chan_error + Channel) \<Rightarrow> bool" where
  \<comment> \<open>a mutation passed to \<^verbatim>\<open>Update\<close> that replaces the agreed state by way of \<^verbatim>\<open>Accept\<close> only, whatever it does
    to the rest of the record\<close>
  "advancing cr f \<longleftrightarrow> (\<forall>c c'. wfChannel c \<longrightarrow> f c = Inr c' \<longrightarrow> advances cr c c')"

inductive storeStep :: "crypto \<Rightarrow> Store \<Rightarrow> Store \<Rightarrow> bool" for cr where
  track: "wfAddr (oc_PartyA occ) \<Longrightarrow> wfAddr (oc_PartyB occ) \<Longrightarrow> wfAddr contract \<Longrightarrow>
    storeStep cr s (snd (TrackFromChain cr w s chainID contract occ))"
| refresh: "storeStep cr s (snd (RefreshFromChain w s occ))"
| accept: "wireOK (ss_State cand) \<Longrightarrow> storeStep cr s (snd (StoreAccept cr w s i cand))"
| update: "advancing cr f \<Longrightarrow> storeStep cr s (snd (StoreUpdate w s i f))"
| release: "storeStep cr s (snd (clearReconcile removeOK s i))"
| restart: "OpenStore cr (sto_disk s) = Inr s' \<Longrightarrow> storeStep cr s s'"

inductive_cases storeStepE: "storeStep cr s s'"

lemma verifyLoaded_same:
  "ch_Latest c' = ch_Latest c \<Longrightarrow> ch_PartyA c' = ch_PartyA c \<Longrightarrow> ch_PartyB c' = ch_PartyB c \<Longrightarrow>
   ch_ChainID c' = ch_ChainID c \<Longrightarrow> ch_Contract c' = ch_Contract c \<Longrightarrow> verifyLoaded cr c' = verifyLoaded cr c"
  by (simp add: verifyLoaded_def cong: if_cong sum.case_cong)

lemma advancing_refresh: "advancing cr (refreshFrom occ)"
  by (auto simp: advancing_def advances_def sameChannel_def refreshFrom_def wfChannel_def split: if_splits)

lemma wfChannel_Accept:
  assumes "Accept cr c cand = Inr c'" "wfChannel c" "wireOK (ss_State cand)"
  shows "wfChannel c'"
  using assms by (auto simp: Accept_iff wfChannel_def ran_def split: if_splits)

lemma readable_Accept:
  assumes "Accept cr c cand = Inr c'" "readable cr i c" "wireOK (ss_State cand)"
  shows "readable cr i c'"
proof -
  have "verifyLoaded cr c' = Inr ()"
    using assms(1) by (auto simp: verifyLoaded_iff Accept_iff validState_def signedBoth_def)
  with assms wfChannel_Accept [OF assms(1)] show ?thesis
    by (auto simp: readable_def Accept_frame)
qed

text \<open>
  The invariant of one channel: its record is readable, and if it is the channel \<open>i\<close> a state with
  nonce \<open>n\<close> has been acknowledged on, it holds a complete state at least that new.
\<close>

definition holdsNonce :: "crypto \<Rightarrow> bytes32 \<Rightarrow> u64 \<Rightarrow> bytes32 \<Rightarrow> Channel \<Rightarrow> bool" where
  "holdsNonce cr i n j c \<longleftrightarrow> readable cr j c \<and> (j = i \<longrightarrow> n \<le> latestNonce c \<and> Complete (ch_Latest c))"

lemma advances_Accept:
  "Accept cr c cand = Inr c' \<Longrightarrow> wfChannel c \<Longrightarrow> wireOK (ss_State cand) \<Longrightarrow> advances cr c c'"
  using wfChannel_Accept [of cr c cand c'] Accept_latest [of cr c cand c']
  by (auto simp: advances_def sameChannel_def Accept_frame)

lemma advances_note:
  assumes "advances cr c c1" "sameChannel c1 c'" "ch_Latest c' = ch_Latest c1" "wfChannel c'"
  shows "advances cr c c'"
  using assms by (auto simp: advances_def sameChannel_def)

lemma advancing_Accept: "wireOK (ss_State cand) \<Longrightarrow> advancing cr (\<lambda>c. Accept cr c cand)"
  by (simp add: advancing_def advances_Accept)

lemma Accept_Complete: "Accept cr c cand = Inr c' \<Longrightarrow> Complete (ch_Latest c')"
  by (auto simp: Accept_iff validState_def)

lemma readable_advances:
  assumes "advances cr c c'" "readable cr i c"
  shows "readable cr i c'" "latestNonce c \<le> latestNonce c'"
    "Complete (ch_Latest c) \<longrightarrow> Complete (ch_Latest c')"
proof -
  have same: "verifyLoaded cr c' = verifyLoaded cr d" if "sameChannel c d" "ch_Latest c' = ch_Latest d" for d
    using that assms(1) by (intro verifyLoaded_same) (simp_all add: advances_def sameChannel_def)
  have "readable cr i c' \<and> latestNonce c \<le> latestNonce c' \<and> (Complete (ch_Latest c) \<longrightarrow> Complete (ch_Latest c'))"
  proof (cases "ch_Latest c' = ch_Latest c")
    case True
    with same [of c] assms show ?thesis
      by (simp add: advances_def readable_def sameChannel_def)
  next
    case False
    then obtain cand c1 where acc: "Accept cr c cand = Inr c1" "ch_Latest c' = cand"
      using assms(1) by (auto simp: advances_def)
    have "verifyLoaded cr c1 = Inr ()"
      using acc(1) by (auto simp: verifyLoaded_iff Accept_iff validState_def signedBoth_def)
    then have "verifyLoaded cr c' = Inr ()"
      using same [of c1] Accept_frame [OF acc(1)] Accept_latest [OF acc(1)] acc(2) by (simp add: sameChannel_def)
    then show ?thesis
      using assms Accept_nonce_mono [OF acc(1)] Accept_latest [OF acc(1)] Accept_Complete [OF acc(1)] acc(2)
      by (simp add: advances_def readable_def sameChannel_def)
  qed
  then show "readable cr i c'" "latestNonce c \<le> latestNonce c'"
    "Complete (ch_Latest c) \<longrightarrow> Complete (ch_Latest c')" by simp_all
qed

lemma readable_tracked:
  assumes "wfAddr (oc_PartyA occ)" "wfAddr (oc_PartyB occ)" "wfAddr contract" "length (oc_ID occ) = 32"
  shows "readable cr (oc_ID occ) (trackedChannel chainID contract occ)"
  using assms
  by (simp add: readable_def trackedChannel_def wfChannel_def verifyLoaded_def Complete_def emptySigned_def
      emptyState_def wireOK_def canonical_def st_op_def Op_defs)

text \<open>
  A durable invariant that a channel tracked for the first time has, unless it is one of those in \<open>kept\<close>,
  which are tracked already.
\<close>

lemma length_DeriveChannelID: "length (DeriveChannelID cr x y) = 32"
  by (simp add: DeriveChannelID_def split: prod.split)

locale durable_kept = durable +
  fixes kept :: "bytes32 set"
  assumes good_new: "j \<notin> kept \<Longrightarrow> readable cr j c \<Longrightarrow> ch_Latest c = emptySigned \<Longrightarrow> ch_Pending c = None \<Longrightarrow> good j c"
begin

definition inv :: "Store \<Rightarrow> bool" where
  "inv s \<longleftrightarrow> holds s \<and> (\<forall>j \<in> kept. lookupCh s j \<noteq> None)"

lemma dom_update: "lookupCh s j \<noteq> None \<Longrightarrow> lookupCh (snd (commitCh w s i c)) j \<noteq> None"
  using lookup_commitCh [of w s i c "fst (commitCh w s i c)" "snd (commitCh w s i c)"] by auto

lemma inv_commit: "inv s \<Longrightarrow> good i c \<Longrightarrow> inv (snd (commitCh w s i c))"
  by (simp add: inv_def holds_commit dom_update)

lemma inv_update:
  assumes "inv s" "\<And>c c'. lookupCh s i = Some c \<Longrightarrow> good i c \<Longrightarrow> f c = Inr c' \<Longrightarrow> good i c'"
  shows "inv (snd (StoreUpdate w s i f))"
proof -
  have "lookupCh s j \<noteq> None \<Longrightarrow> lookupCh (snd (StoreUpdate w s i f)) j \<noteq> None" for j
    using dom_update [of s j w i] by (simp add: StoreUpdate_def split: option.split sum.split)
  with assms show ?thesis
    by (simp add: inv_def holds_update)
qed

lemma inv_track:
  assumes "inv s" "wfAddr (oc_PartyA occ)" "wfAddr (oc_PartyB occ)" "wfAddr contract"
  shows "inv (snd (TrackFromChain cr w s chainID contract occ))"
proof (cases "oc_fromChain occ \<and> oc_Status occ = StatusOpen \<and>
    DeriveChannelID cr (oc_PartyA occ) (oc_PartyB occ) = oc_ID occ \<and> lookupCh s (oc_ID occ) = None")
  case True
  then have "length (oc_ID occ) = 32"
    using length_DeriveChannelID [of cr "oc_PartyA occ" "oc_PartyB occ"] by simp
  moreover have "oc_ID occ \<notin> kept"
    using True assms(1) by (auto simp: inv_def)
  ultimately have "good (oc_ID occ) (trackedChannel chainID contract occ)"
    using assms by (intro good_new readable_tracked) (simp_all add: trackedChannel_def)
  with True assms(1) show ?thesis
    by (simp add: TrackFromChain_def inv_commit)
qed (use assms(1) in \<open>auto simp: TrackFromChain_def\<close>)

lemma inv_open:
  assumes "inv s"
  shows "\<exists>s'. OpenStore cr (sto_disk s) = Inr s' \<and> inv s'"
proof -
  from assms have h: "holds s" and k: "\<forall>j \<in> kept. map_of (dk_Files (sto_disk s)) j \<noteq> None"
    unfolding inv_def storeHolds_def by blast+
  from open_total [OF h] obtain s' where "OpenStore cr (sto_disk s) = Inr s'" "holds s'"
    "\<forall>i. lookupCh s' i = map_option (\<lambda>r. projr (decodeChannel r)) (map_of (dk_Files (sto_disk s)) i)"
    by blast
  with k show ?thesis
    by (simp add: inv_def option.map_disc_iff)
qed

lemma inv_release: "inv s \<Longrightarrow> inv (snd (clearReconcile removeOK s i))"
  by (auto simp: clearReconcile_def inv_def storeHolds_def lookupCh_def Let_def)

end

text \<open>One that advancing mutations keep as well holds after every step.\<close>

locale durable_steps = durable_kept +
  assumes good_advances: "good j c \<Longrightarrow> advances cr c c' \<Longrightarrow> good j c'"
begin

lemma good_update: "good j c \<Longrightarrow> advancing cr f \<Longrightarrow> f c = Inr c' \<Longrightarrow> good j c'"
  using good_advances good_readable unfolding advancing_def by blast

lemma inv_accept: "inv s \<Longrightarrow> wireOK (ss_State cand) \<Longrightarrow> inv (snd (StoreAccept cr w s i cand))"
  using inv_update [of s i "\<lambda>c. Accept cr c cand" w] good_update [OF _ advancing_Accept, of i _ cand]
  by (simp add: StoreAccept_def StoreUpdate_def)

lemma inv_step: "storeStep cr s s' \<Longrightarrow> inv s \<Longrightarrow> inv s'"
proof (induction rule: storeStep.induct)
  case (refresh s w occ)
  then show ?case
    using inv_update [of s "oc_ID occ" "refreshFrom occ" w] good_update [OF _ advancing_refresh]
    by (auto simp: RefreshFromChain_def)
next
  case (update f s w i)
  then show ?case using inv_update good_update by blast
next
  case (restart s s')
  then show ?case using inv_open [of s] by auto
qed (simp_all add: inv_accept inv_track inv_release)

lemma inv_run: "(storeStep cr)\<^sup>*\<^sup>* s s' \<Longrightarrow> inv s \<Longrightarrow> inv s'"
  by (induction rule: rtranclp_induct) (auto intro: inv_step)

end

interpretation rd: durable_steps cr "readable cr" "{}" for cr
  using readable_advances(1)
  by unfold_locales (blast | simp add: readable_def)+

interpretation nn: durable_steps cr "holdsNonce cr i n" "{i}" for cr i n
proof unfold_locales
  fix j c c'
  assume "holdsNonce cr i n j c" "advances cr c c'"
  then show "holdsNonce cr i n j c'"
    using readable_advances [of cr c c' j] by (auto simp: holdsNonce_def)
qed (auto simp: holdsNonce_def readable_def)

definition emptyDisk :: Disk where
  "emptyDisk = \<lparr> dk_Files = [], dk_Restored = False \<rparr>"

lemma open_empty: "OpenStore cr emptyDisk = Inr s \<Longrightarrow> rd.inv cr s"
  by (auto simp: OpenStore_def emptyDisk_def rd.inv_def storeHolds_def lookupCh_def)

text \<open>A successful commit may establish a stronger invariant on its channel.\<close>

lemma holds_switch:
  assumes h: "storeHolds P s" and id: "ch_ID c = i" and "Q i c" and mono: "\<And>j d. j \<noteq> i \<Longrightarrow> P j d \<Longrightarrow> Q j d"
  shows "storeHolds Q (snd (commitCh WriteOK s i c))"
proof -
  let ?s' = "snd (commitCh WriteOK s i c)"
  have mem: "lookupCh ?s' j = (if j = i then Some c else lookupCh s j)"
    and onDisk: "map_of (dk_Files (sto_disk ?s')) j =
      (if j = i then Some (encodeChannel c) else map_of (dk_Files (sto_disk s)) j)" for j
    by (simp_all add: commitCh_def persist_def lookupCh_def update_conv' Let_def id)
  have "distinct (map fst (dk_Files (sto_disk ?s')))"
    using h by (simp add: commitCh_def persist_def distinct_update Let_def storeHolds_def)
  moreover have mem0: "P j d" if "lookupCh s j = Some d" for j d
    using h that by (simp add: storeHolds_def)
  moreover have dom0: "map_of (dk_Files (sto_disk s)) j \<noteq> None" if "lookupCh s j \<noteq> None" for j
    using h that unfolding storeHolds_def by blast
  moreover have disk0: "\<exists>c. r = encodeChannel c \<and> P j c" if "map_of (dk_Files (sto_disk s)) j = Some r" for j r
    using h that unfolding storeHolds_def by blast
  ultimately show ?thesis
    unfolding storeHolds_def mem onDisk
  proof (intro conjI allI impI)
    fix j r assume "(if j = i then Some (encodeChannel c) else map_of (dk_Files (sto_disk s)) j) = Some r"
    then show "\<exists>d. r = encodeChannel d \<and> Q j d"
      using disk0 [of j r] mono assms(3) by (cases "j = i") auto
  next
    fix j assume "(if j = i then Some c else lookupCh s j) \<noteq> None"
    then show "(if j = i then Some (encodeChannel c) else map_of (dk_Files (sto_disk s)) j) \<noteq> None"
      using dom0 [of j] by (cases "j = i") simp_all
  qed (use mono assms(3) mem0 in \<open>auto split: if_splits\<close>)
qed

text \<open>
  What a snapshot shows is on disk: the file of a channel whose agreed state is complete holds a complete
  state that is at least as new. A write that failed after its rename may leave the file ahead of memory,
  never behind it.
\<close>

definition ahead :: "crypto \<Rightarrow> Store \<Rightarrow> bool" where
  "ahead cr s \<longleftrightarrow> (\<forall>i c. lookupCh s i = Some c \<longrightarrow> Complete (ch_Latest c) \<longrightarrow>
     (\<exists>d. map_of (dk_Files (sto_disk s)) i = Some (encodeChannel d) \<and> holdsNonce cr i (latestNonce c) i d))"

lemma disk_commitCh:
  "map_of (dk_Files (sto_disk (snd (commitCh w s i c)))) j =
    (if w \<noteq> FailBeforeRename \<and> j = ch_ID c then Some (encodeChannel c) else map_of (dk_Files (sto_disk s)) j)"
  "lookupCh (snd (commitCh w s i c)) j = (if w = WriteOK \<and> j = i then Some c else lookupCh s j)"
  by (cases w; simp add: commitCh_def persist_def lookupCh_def update_conv' Let_def)+

lemma ahead_commit:
  assumes "ahead cr s" and good: "readable cr i c'"
    and "\<And>c. lookupCh s i = Some c \<Longrightarrow> advances cr c c' \<and> readable cr i c"
  shows "ahead cr (snd (commitCh w s i c'))"
  unfolding ahead_def
proof (intro allI impI)
  fix j d
  assume d: "lookupCh (snd (commitCh w s i c')) j = Some d" "Complete (ch_Latest d)"
  have id: "ch_ID c' = i" using good by (simp add: readable_def)
  show "\<exists>e. map_of (dk_Files (sto_disk (snd (commitCh w s i c')))) j = Some (encodeChannel e) \<and>
      holdsNonce cr j (latestNonce d) j e"
  proof (cases "j = i \<and> w \<noteq> FailBeforeRename")
    case True
    have "latestNonce d \<le> latestNonce c' \<and> Complete (ch_Latest c')"
    proof (cases "w = WriteOK")
      case True
      with d \<open>j = i \<and> _\<close> show ?thesis by (simp add: disk_commitCh)
    next
      case False
      then have "lookupCh s i = Some d"
        using d(1) \<open>j = i \<and> _\<close> by (simp add: disk_commitCh)
      with assms(3) readable_advances(2,3) d(2) show ?thesis by blast
    qed
    with good have "holdsNonce cr i (latestNonce d) i c'" by (simp add: holdsNonce_def)
    with True show ?thesis by (auto simp: disk_commitCh id)
  next
    case False
    then have "lookupCh s j = Some d"
      using d(1) by (cases w) (auto simp: disk_commitCh split: if_splits)
    with assms(1) d(2) False show ?thesis
      by (auto simp: ahead_def disk_commitCh id)
  qed
qed

lemma rd_readable: "rd.inv cr s \<Longrightarrow> lookupCh s i = Some c \<Longrightarrow> readable cr i c"
  by (simp add: rd.inv_def storeHolds_def)

lemma ahead_update:
  assumes "ahead cr s" "rd.inv cr s" "advancing cr f"
  shows "ahead cr (snd (StoreUpdate w s i f))"
proof (cases "\<exists>c c'. lookupCh s i = Some c \<and> f c = Inr c'")
  case True
  then obtain c c' where c: "lookupCh s i = Some c" "f c = Inr c'" by blast
  have r: "readable cr i c" using rd_readable [OF assms(2) c(1)] .
  then have adv: "advances cr c c'"
    using assms(3) c(2) unfolding advancing_def readable_def by blast
  have "ahead cr (snd (commitCh w s i c'))"
    using readable_advances(1) [OF adv r] adv r c(1) by (intro ahead_commit [OF assms(1)]) auto
  with c show ?thesis by (simp add: StoreUpdate_def)
next
  case False
  then have "snd (StoreUpdate w s i f) = s"
    by (auto simp: StoreUpdate_def split: option.split sum.split)
  with assms(1) show ?thesis by simp
qed

lemma ahead_track:
  assumes "ahead cr s" "wfAddr (oc_PartyA occ)" "wfAddr (oc_PartyB occ)" "wfAddr contract"
  shows "ahead cr (snd (TrackFromChain cr w s chainID contract occ))"
proof (cases "oc_fromChain occ \<and> oc_Status occ = StatusOpen \<and>
    DeriveChannelID cr (oc_PartyA occ) (oc_PartyB occ) = oc_ID occ \<and> lookupCh s (oc_ID occ) = None")
  case True
  then have "length (oc_ID occ) = 32"
    using length_DeriveChannelID [of cr "oc_PartyA occ" "oc_PartyB occ"] by simp
  then have "ahead cr (snd (commitCh w s (oc_ID occ) (trackedChannel chainID contract occ)))"
    using True assms by (intro ahead_commit readable_tracked) simp_all
  with True show ?thesis by (simp add: TrackFromChain_def)
qed (use assms(1) in \<open>auto simp: TrackFromChain_def\<close>)

lemma ahead_open:
  assumes "rd.inv cr s" "OpenStore cr (sto_disk s) = Inr s'"
  shows "ahead cr s'"
  unfolding ahead_def
proof (intro allI impI)
  fix i c assume c: "lookupCh s' i = Some c" "Complete (ch_Latest c)"
  have h: "storeHolds (readable cr) s" using assms(1) by (simp add: rd.inv_def)
  have look: "lookupCh s' i = map_option (\<lambda>r. projr (decodeChannel r)) (map_of (dk_Files (sto_disk s)) i)"
    using rd.open_total [OF h] assms(2) by auto
  then obtain r where r: "map_of (dk_Files (sto_disk s)) i = Some r" "c = projr (decodeChannel r)"
    using c(1) by (cases "map_of (dk_Files (sto_disk s)) i") simp_all
  then obtain d where d: "r = encodeChannel d" "readable cr i d"
    using h unfolding storeHolds_def by blast
  then have "c = normChannel d"
    using r(2) by (simp add: decode_encode_channel readable_def)
  moreover have "dk_Files (sto_disk s') = dk_Files (sto_disk s)"
    using assms(2) by (auto simp: OpenStore_def bindR_Inr split: prod.splits)
  ultimately show "\<exists>d. map_of (dk_Files (sto_disk s')) i = Some (encodeChannel d) \<and> holdsNonce cr i (latestNonce c) i d"
    using c(2) r(1) d by (auto simp: holdsNonce_def)
qed

lemma ahead_step: "storeStep cr s t \<Longrightarrow> rd.inv cr s \<Longrightarrow> ahead cr s \<Longrightarrow> ahead cr t"
proof (induction rule: storeStep.induct)
  case (refresh s w occ)
  then show ?case by (simp add: RefreshFromChain_def ahead_update advancing_refresh)
next
  case (accept cand s w i)
  then show ?case
    using ahead_update [OF _ _ advancing_Accept [OF accept(1)], of cr s w i] by (simp add: StoreAccept_def StoreUpdate_def)
next
  case (release s removeOK i)
  then show ?case by (auto simp: clearReconcile_def ahead_def lookupCh_def Let_def)
qed (simp_all add: ahead_track ahead_update ahead_open)

text \<open>So a complete state that a snapshot shows stays on disk from there on.\<close>

lemma snapshot_held:
  assumes "rd.inv cr s" "ahead cr s" "StoreGet s i = Some c" "Complete (ch_Latest c)"
  shows "nn.inv cr i (latestNonce c) s"
proof -
  obtain c0 where c0: "lookupCh s i = Some c0" "ch_Latest c = ch_Latest c0"
    using assms(3) by (auto simp: sto.snapshot_live)
  obtain d where d: "map_of (dk_Files (sto_disk s)) i = Some (encodeChannel d)" "holdsNonce cr i (latestNonce c) i d"
    using assms(2,4) c0 unfolding ahead_def by force
  have base: "distinct (map fst (dk_Files (sto_disk s)))"
    "\<forall>j. lookupCh s j \<noteq> None \<longrightarrow> map_of (dk_Files (sto_disk s)) j \<noteq> None"
    and mem: "\<And>j e. lookupCh s j = Some e \<Longrightarrow> readable cr j e"
    and files: "\<And>j r. map_of (dk_Files (sto_disk s)) j = Some r \<Longrightarrow> \<exists>e. r = encodeChannel e \<and> readable cr j e"
    using assms(1) unfolding rd.inv_def storeHolds_def by blast+
  have "holdsNonce cr i (latestNonce c) j e" if "lookupCh s j = Some e" for j e
    using mem [OF that] that c0 assms(4) by (auto simp: holdsNonce_def)
  moreover have "\<exists>e. r = encodeChannel e \<and> holdsNonce cr i (latestNonce c) j e"
    if "map_of (dk_Files (sto_disk s)) j = Some r" for j r
    using files [OF that] that d by (cases "j = i") (auto simp: holdsNonce_def)
  ultimately have "storeHolds (holdsNonce cr i (latestNonce c)) s"
    unfolding storeHolds_def using base by blast
  with c0 show ?thesis by (simp add: nn.inv_def)
qed

lemma nn_final:
  assumes "nn.inv cr i n s"
  shows "(\<exists>s'. OpenStore cr (sto_disk s) = Inr s' \<and>
      (\<exists>c. StoreGet s' i = Some c \<and> n \<le> latestNonce c \<and> Complete (ch_Latest c) \<and> signedBoth cr c (ch_Latest c))) \<and>
    (\<exists>c. StoreGet s i = Some c \<and> n \<le> latestNonce c \<and> Complete (ch_Latest c) \<and> signedBoth cr c (ch_Latest c))"
proof -
  have shown: "\<exists>c. StoreGet s i = Some c \<and> n \<le> latestNonce c \<and> Complete (ch_Latest c) \<and> signedBoth cr c (ch_Latest c)"
    if inv: "nn.inv cr i n s" for s
  proof -
    obtain d where d: "lookupCh s i = Some d" "holdsNonce cr i n i d"
      using inv by (auto simp: nn.inv_def storeHolds_def)
    then have "signedBoth cr d (ch_Latest d)"
      by (simp add: holdsNonce_def readable_def verifyLoaded_iff)
    with d show ?thesis
      by (auto simp: StoreGet_def holdsNonce_def signedBoth_def)
  qed
  from nn.inv_open [OF assms] shown [OF assms] shown show ?thesis by blast
qed

lemma StoreAccept_done:
  assumes "StoreAccept cr w s i cand = (Inr (), s')"
  obtains c where "StoreGet s' i = Some c" "ch_Latest c = cand" "Complete cand"
proof -
  have up: "StoreUpdate w s i (\<lambda>c. Accept cr c cand) = (Inr (), s')"
    using assms by (simp add: StoreAccept_def StoreUpdate_def)
  obtain c c' where c: "Accept cr c cand = Inr c'"
    "StoreGet s' i = Some (c'\<lparr>ch_NeedsReconcile := NeedsReconcile s i\<rparr>)"
    using sto.snapshot_done [OF up] by blast
  show thesis
    by (rule that [OF c(2)]) (use Accept_latest [OF c(1)] Accept_Complete [OF c(1)] in simp_all)
qed

subsection \<open>Properties\<close>

text \<open>
  (C16) A channel record reads back, except for what its file does not hold. Decoding the record written
  for a well-formed channel gives that channel with nil numbers read as zero, without its payout record
  and with the quarantine flag down (\<^verbatim>\<open>storedChannel\<close> has no field for the payout; the flag belongs to the
  open store). The parties, the collateral, the status, the ledger of signatures given out, the applied
  intents, the payment log, the nonce, the signatures and the digest of the latest state are exactly
  those that were written; so are the pending proposal's intent, signature and digest; and the signature
  check made on loading gives the same verdict.
\<close>

theorem channel_roundtrip:
  assumes "wfChannel c"
  shows "\<exists>c'. decodeChannel (encodeChannel c) = Inr c' \<and> c' = normChannel c \<and>
    ch_ID c' = ch_ID c \<and> ch_PartyA c' = ch_PartyA c \<and> ch_PartyB c' = ch_PartyB c \<and> ch_Contract c' = ch_Contract c \<and>
    orZero (ch_DepositA c') = orZero (ch_DepositA c) \<and> orZero (ch_DepositB c') = orZero (ch_DepositB c) \<and>
    ch_Status c' = ch_Status c \<and> ch_Signed c' = ch_Signed c \<and> ch_Applied c' = ch_Applied c \<and>
    ch_History c' = ch_History c \<and> latestNonce c' = latestNonce c \<and>
    ss_SigA (ch_Latest c') = ss_SigA (ch_Latest c) \<and> ss_SigB (ch_Latest c') = ss_SigB (ch_Latest c) \<and>
    Digest cr (latestState c') (ch_ChainID c') (ch_Contract c') = Digest cr (latestState c) (ch_ChainID c) (ch_Contract c) \<and>
    rel_option (\<lambda>p' p. pp_Intent p' = pp_Intent p \<and> pp_Sig p' = pp_Sig p \<and>
      Digest cr (pp_State p') (ch_ChainID c') (ch_Contract c') = Digest cr (pp_State p) (ch_ChainID c) (ch_Contract c))
      (ch_Pending c') (ch_Pending c) \<and>
    ch_Payout c' = None \<and> \<not> ch_NeedsReconcile c' \<and>
    verifyLoaded cr c' = verifyLoaded cr c"
  using decode_encode_channel [OF assms]
  by (simp add: Digest_chainID norm_dropped norm_pending)

theorem channel_roundtrip_witness:
  "\<exists>c'. decodeChannel (encodeChannel (demoChannel\<lparr>ch_Signed := [7 \<mapsto> demoID]\<rparr>)) = Inr c' \<and> ch_Signed c' 7 = Some demoID"
proof -
  have "wfChannel (demoChannel\<lparr>ch_Signed := [7 \<mapsto> demoID]\<rparr>)"
    by (simp add: wfChannel_def demoChannel_def demoID_def wfAddr_def demoA_def demoB_def emptySigned_def
        emptyState_def wireOK_def canonical_def st_op_def Op_defs)
  from channel_roundtrip [OF this, of demoCrypto] show ?thesis
    by auto
qed

definition demoKey :: bytes32 where
  "demoKey = replicate 12 0 @ addrBytes demoA"

definition demoOcc :: OnChainChannel where
  "demoOcc = \<lparr> oc_ID = demoKey, oc_PartyA = demoA, oc_PartyB = demoB, oc_DepositA = Some 100,
     oc_DepositB = Some 50, oc_Status = StatusOpen, oc_Nonce = 0, oc_ChallengeEnds = 0, oc_BalanceA = None,
     oc_BalanceB = None, oc_LockedTotal = None, oc_fromChain = True \<rparr>"

definition demoOpening :: State where
  "demoOpening = emptyState\<lparr>st_Channel := demoKey, st_Nonce := 1, st_BalanceA := Some 100, st_BalanceB := Some 50\<rparr>"

definition demoEmpty :: Store where
  "demoEmpty = \<lparr> sto_channels = [], sto_unreconciled = {}, sto_disk = emptyDisk \<rparr>"

definition demoTracked :: Store where
  "demoTracked = snd (commitCh WriteOK demoEmpty demoKey (trackedChannel (Some 1) demoB demoOcc))"

lemma demo_derive: "DeriveChannelID demoCrypto demoA demoB = demoKey"
  by (simp add: demoKey_def DeriveChannelID_def SortParties_def demoA_def demoB_def addressLess_def
      keccak_def demoCrypto_def abiWord_def)

lemma demo_addr [simp]: "wfAddr demoA" "wfAddr demoB" "length demoKey = 32"
  by (simp_all add: wfAddr_def demoA_def demoB_def demoKey_def)

lemma demo_track: "TrackFromChain demoCrypto WriteOK demoEmpty (Some 1) demoB demoOcc = (Inr (), demoTracked)"
  by (simp add: TrackFromChain_def demoOcc_def demo_derive demoTracked_def commitCh_def persist_def Let_def
      lookupCh_def demoEmpty_def)

lemma demo_open_empty: "OpenStore cr emptyDisk = Inr demoEmpty"
  by (simp add: OpenStore_def emptyDisk_def demoEmpty_def)

lemma demo_lookup: "lookupCh demoTracked demoKey = Some (trackedChannel (Some 1) demoB demoOcc)"
  by (simp add: demoTracked_def commitCh_def persist_def Let_def lookupCh_def update_conv')

lemma demo_accept:
  "\<exists>c'. Accept demoCrypto (trackedChannel (Some 1) demoB demoOcc) (demoSigned demoOpening) = Inr c'"
  by (auto simp: Accept_iff trackedChannel_def demoOcc_def demoOpening_def isFirst_def not_Complete_empty
      emptySigned_def validState_def locksOK_def Conserved_def stateTotal_def lockedTotal_def emptyState_def)

text \<open>
  A commit is all or nothing. If \<^verbatim>\<open>Store.Update\<close> reports an error (an unknown channel, a mutation that
  refused, a write that failed before or after its rename) then every snapshot is what it was; if it
  reports success then the write was complete, the channel's snapshot and its file are the mutated
  record, and no other channel changed.
\<close>

theorem Update_all_or_nothing:
  "case StoreUpdate w s i mutate of
     (Inl e, s') \<Rightarrow> (\<forall>j. StoreGet s' j = StoreGet s j)
   | (Inr _, s') \<Rightarrow> (\<exists>c c'. lookupCh s i = Some c \<and> mutate c = Inr c' \<and> w = WriteOK \<and>
       StoreGet s' i = Some (c'\<lparr>ch_NeedsReconcile := NeedsReconcile s i\<rparr>) \<and>
       map_of (dk_Files (sto_disk s')) (ch_ID c') = Some (encodeChannel c') \<and>
       (\<forall>j. j \<noteq> i \<longrightarrow> StoreGet s' j = StoreGet s j))"
proof (cases "StoreUpdate w s i mutate")
  case (Pair r s')
  show ?thesis
  proof (cases r)
    case (Inl e)
    then show ?thesis
      using Pair sto.snapshot_failed [of w s i mutate e s'] by simp
  next
    case (Inr u)
    with Pair have ok: "StoreUpdate w s i mutate = (Inr (), s')" by simp
    then obtain c c' where c: "lookupCh s i = Some c" "mutate c = Inr c'" and s': "commitCh w s i c' = (Inr (), s')"
      by (auto simp: StoreUpdate_def split: option.splits sum.splits)
    have "w = WriteOK" and f: "map_of (dk_Files (sto_disk s')) (ch_ID c') = Some (encodeChannel c')"
      using s' by (cases w; auto simp: commitCh_def persist_def Let_def update_conv')+
    moreover have "StoreGet s' i = Some (c'\<lparr>ch_NeedsReconcile := NeedsReconcile s i\<rparr>)"
      "\<forall>j. j \<noteq> i \<longrightarrow> StoreGet s' j = StoreGet s j"
      using sto.commit_done [OF ok] c by (auto simp: sto.snapshot_live)
    ultimately show ?thesis
      using Pair Inr c by simp
  qed
qed

theorem Update_all_or_nothing_witness:
  "StoreGet (snd (StoreUpdate FailAfterRename demoTracked demoKey (\<lambda>c. Inr (c\<lparr>ch_Status := StatusClosing\<rparr>)))) demoKey
     = StoreGet demoTracked demoKey"
proof -
  let ?u = "StoreUpdate FailAfterRename demoTracked demoKey (\<lambda>c. Inr (c\<lparr>ch_Status := StatusClosing\<rparr>))"
  have "fst ?u = Inl ErrIO"
    by (simp add: StoreUpdate_def demo_lookup commitCh_def persist_def Let_def)
  then show ?thesis
    using Update_all_or_nothing [where w = FailAfterRename and s = demoTracked and i = demoKey
      and mutate = "\<lambda>c. Inr (c\<lparr>ch_Status := StatusClosing\<rparr>)"]
    by (cases ?u) auto
qed

text \<open>The payout record of a channel is not part of its file: after a restart it is gone.\<close>

theorem payout_lost_on_reload: "decodeChannel (encodeChannel c) = Inr c' \<Longrightarrow> ch_Payout c' = None"
  by (auto simp: decodeChannel_def bindR_Inr split: if_splits)

text \<open>
  \<^verbatim>\<open>Accept\<close> does not look at the order of the locks, the decoder does: a state whose locks are out of order
  is accepted and written, and the store then refuses to open.
\<close>

lemma lessID_zeros: "\<not> lessID xs (replicate n 0)"
proof (induction xs arbitrary: n)
  case (Cons x xs)
  then show ?case by (cases n) auto
qed simp

definition demoUnsorted :: State where
  "demoUnsorted = demoOpening\<lparr>st_BalanceA := Some 40,
     st_Pending := [\<lparr> h_ID = demoID, h_Hash = demoID, h_Amount = Some 30, h_Expiry = 5000, h_PayerIsA = True \<rparr>,
       \<lparr> h_ID = zero32, h_Hash = demoID, h_Amount = Some 30, h_Expiry = 5000, h_PayerIsA = True \<rparr>]\<rparr>"

theorem accepted_but_unreadable:
  "\<exists>s1. StoreAccept demoCrypto WriteOK demoTracked demoKey (demoSigned demoUnsorted) = (Inr (), s1) \<and>
     OpenStore demoCrypto (sto_disk s1) = Inl ErrLocksUnsorted"
proof -
  let ?c = "trackedChannel (Some 1) demoB demoOcc"
  let ?c' = "?c\<lparr>ch_Latest := demoSigned demoUnsorted\<rparr>"
  have "last demoID \<noteq> last zero32"
    by (simp add: demoID_def)
  then have ne: "demoID \<noteq> zero32"
    by (rule contrapos_nn) (simp only:)
  have "length demoID = 32"
    by (simp add: demoID_def)
  note ids = this ne lessID_zeros [of demoID 32]
  have "Accept demoCrypto ?c (demoSigned demoUnsorted) = Inr ?c'"
    using ids(2)
    by (simp add: Accept_iff trackedChannel_def demoOcc_def demoUnsorted_def demoOpening_def isFirst_def
        not_Complete_empty emptySigned_def validState_def locksOK_def Conserved_def stateTotal_def
        lockedTotal_def emptyState_def fun_eq_iff)
  then have acc: "StoreAccept demoCrypto WriteOK demoTracked demoKey (demoSigned demoUnsorted)
      = commitCh WriteOK demoTracked demoKey ?c'"
    by (simp add: StoreAccept_def demo_lookup)
  have "decodeStateWire (encodeStateWire demoUnsorted) = Inl ErrLocksUnsorted"
    using ids by (simp add: decodeStateWire_def encodeStateWire_def demoUnsorted_def demoOpening_def
        emptyState_def encodeHTLC_def Let_def parseUnsignedDec_def)
  then have dec: "decodeChannel (encodeChannel ?c') = Inl ErrLocksUnsorted"
    by (simp add: decodeChannel_def encodeChannel_def trackedChannel_def demoOcc_def)
  have "ch_ID ?c' = demoKey" "ch_ID ?c = demoKey"
    by (simp_all add: trackedChannel_def demoOcc_def)
  with dec show ?thesis
    unfolding acc
    by (simp add: commitCh_def persist_def Let_def OpenStore_def demoTracked_def demoEmpty_def emptyDisk_def)
qed

end
