(* ===== verification/Session.thy ===== *)
theory Session
  imports Store_Props
begin

text \<open>
  The protocol engine, \<^verbatim>\<open>src/internal/channel/session.go\<close>: proposing, accepting, rejecting, resynchronising
  and stopping on a conflict. A message is the channel field of its envelope and its body as decoded for
  its type; a body that does not decode is \<open>BodyMalformed\<close>. The texts meant for humans (\<^verbatim>\<open>Detail\<close>) are kept
  where they are constants. The clock, the tolerances and the signer are fields of \<open>PeerSession\<close>, whose
  value may differ from call to call; the store and the vault are the state.
\<close>

subsection \<open>Messages and session\<close>

datatype Body =
    BodyHello | BodyAnnounce
  | BodyPropose StateProposeBody
  | BodyAccept StateAcceptBody
  | BodyReject StateRejectBody
  | BodyRequest
  | BodyResponse StateResponseBody
  | BodyConflict ConflictBody
  | BodyClosing | BodyError
  | BodyMalformed MessageType

record Message =
  ms_Channel :: string
  ms_Body :: Body

definition newEnvelope :: "bytes32 \<Rightarrow> Body \<Rightarrow> Message" where
  "newEnvelope i b = \<lparr> ms_Channel = hexEncode i, ms_Body = b \<rparr>"

record PeerSession =
  ps_self :: address
  ps_sign :: "bytes32 \<Rightarrow> chan_error + bytes"
  ps_now :: int
  ps_skew :: int
  ps_minLockWindow :: int

record Node =
  nd_store :: Store
  nd_vault :: "PreimageVault option"

definition signFor :: "PeerSession \<Rightarrow> Channel \<Rightarrow> bytes32 \<Rightarrow> chan_error + bytes" where
  "signFor ps ch raw = (if ch_NeedsReconcile ch then Inl ErrNeedsReconcile else ps_sign ps raw)"

definition intentOf :: "string \<Rightarrow> bytes32" where
  "intentOf s = (case hexDecode s of
      Some raw \<Rightarrow> if length raw = 32 then raw else zero32
    | None \<Rightarrow> zero32)"

definition assemble :: "Channel \<Rightarrow> State \<Rightarrow> bytes \<Rightarrow> address \<Rightarrow> bytes \<Rightarrow> SignedState" where
  "assemble ch state sig signer otherSig =
     (if IsA ch signer then \<lparr> ss_State = state, ss_SigA = sig, ss_SigB = otherSig \<rparr>
      else \<lparr> ss_State = state, ss_SigA = otherSig, ss_SigB = sig \<rparr>)"

definition rejectText :: "RejectCode \<Rightarrow> string" where
  "rejectText c = (case c of
      RejectNonceStale \<Rightarrow> ''NONCE_STALE'' | RejectAlreadySignedNonce \<Rightarrow> ''ALREADY_SIGNED_NONCE''
    | RejectNotConserved \<Rightarrow> ''NOT_CONSERVED'' | RejectBadSignature \<Rightarrow> ''BAD_SIGNATURE''
    | RejectLocksMalformed \<Rightarrow> ''LOCKS_MALFORMED'' | RejectTransitionMismatch \<Rightarrow> ''TRANSITION_MISMATCH''
    | RejectPreimageBad \<Rightarrow> ''PREIMAGE_BAD'' | RejectLockNotExpired \<Rightarrow> ''LOCK_NOT_EXPIRED''
    | RejectLockExpired \<Rightarrow> ''LOCK_EXPIRED'' | RejectInsufficient \<Rightarrow> ''INSUFFICIENT_CAPACITY''
    | RejectConflicted \<Rightarrow> ''CHANNEL_CONFLICTED'' | RejectClosing \<Rightarrow> ''CHANNEL_CLOSING''
    | RejectUnknownChannel \<Rightarrow> ''UNKNOWN_CHANNEL'' | RejectOther s \<Rightarrow> s)"

subsection \<open>Timing\<close>

definition checkTiming :: "PeerSession \<Rightarrow> Channel \<Rightarrow> StateTransition \<Rightarrow> RejectCode option" where
  "checkTiming ps ch tr =
     (case tr_Kind tr of
        KindLockAdd \<Rightarrow>
          if tr_Expiry tr < i64 (ps_now ps + ps_minLockWindow ps) then Some RejectLocksMalformed else None
      | KindLockSettle \<Rightarrow>
          (case findLock (st_Pending (latestState ch)) (tr_LockID tr) of
             None \<Rightarrow> Some RejectTransitionMismatch
           | Some k \<Rightarrow>
               if h_Expiry (st_Pending (latestState ch) ! k) \<le> i64 (ps_now ps + ps_skew ps)
               then Some RejectLockExpired else None)
      | KindLockRefund \<Rightarrow>
          (case findLock (st_Pending (latestState ch)) (tr_LockID tr) of
             None \<Rightarrow> Some RejectTransitionMismatch
           | Some k \<Rightarrow>
               if h_Expiry (st_Pending (latestState ch) ! k) > i64 (ps_now ps - ps_skew ps)
               then Some RejectLockNotExpired else None)
      | _ \<Rightarrow> None)"

subsection \<open>Payer side\<close>

definition proposalEnvelope :: "Channel \<Rightarrow> PendingProposal \<Rightarrow> Message" where
  "proposalEnvelope ch p = newEnvelope (ch_ID ch) (BodyPropose
     \<lparr> bp_Intent = hexEncode (pp_Intent p), bp_Transition = encodeTransitionWire (pp_Transition p),
       bp_State = encodeStateWire (pp_State p), bp_Sig = hexEncode (pp_Sig p) \<rparr>)"

text \<open>
  \<^verbatim>\<open>Propose\<close> reads a snapshot, decides and signs on it, and commits; nothing holds the channel between the
  two. \<open>proposePrepare\<close> is the part on the snapshot, \<open>proposeCommit\<close> the rest.
\<close>

datatype Prepared = Resend PendingProposal | Fresh PendingProposal bytes32

definition signedOther :: "Channel \<Rightarrow> u64 \<Rightarrow> bytes32 \<Rightarrow> bool" where
  \<comment> \<open>the I4 test: a different digest was signed at this nonce\<close>
  "signedOther ch nonce raw = (case HasSigned ch nonce of None \<Rightarrow> False | Some digest \<Rightarrow> digest \<noteq> raw)"

definition proposePrepare ::
  "crypto \<Rightarrow> PeerSession \<Rightarrow> Channel \<Rightarrow> bytes32 \<Rightarrow> StateTransition \<Rightarrow> chan_error + Prepared" where
  "proposePrepare cr ps ch intent tr =
     (if ch_Conflict ch \<noteq> None then Inl ErrConflicted
      else case ch_Pending ch of
        Some p \<Rightarrow> if pp_Intent p = intent then Inr (Resend p)
                  else Inl (ErrText ''a different proposal is already pending'')
      | None \<Rightarrow>
          bindR (Apply cr tr ch (ps_self ps)) (\<lambda>nxt.
            if tr_Kind tr = KindLockSettle \<and> checkTiming ps ch tr \<noteq> None
            then Inl (ErrText ''refusing to sign'')
            else
              let raw = Digest cr nxt (ch_ChainID ch) (ch_Contract ch) in
              if signedOther ch (st_Nonce nxt) raw then Inl ErrAlreadySigned
              else bindR (signFor ps ch raw) (\<lambda>sig.
                Inr (Fresh \<lparr> pp_Intent = intent, pp_Transition = tr, pp_State = nxt, pp_Sig = sig \<rparr> raw))))"

definition proposeMutate :: "PeerSession \<Rightarrow> PendingProposal \<Rightarrow> bytes32 \<Rightarrow> Channel \<Rightarrow> chan_error + Channel" where
  "proposeMutate ps p raw c =
     Inr (NotePayment (NoteSigned (c\<lparr>ch_Pending := Some p\<rparr>) (st_Nonce (pp_State p)) raw)
       (recordFor (pp_Intent p) (pp_Transition p) False PayInitiated (ps_now ps)))"

definition proposeCommit ::
  "PeerSession \<Rightarrow> WriteFault \<Rightarrow> Store \<Rightarrow> bytes32 \<Rightarrow> Channel \<Rightarrow> Prepared \<Rightarrow> (chan_error + Message) \<times> Store" where
  "proposeCommit ps w s i ch prepared =
     (case prepared of
        Resend p \<Rightarrow> (Inr (proposalEnvelope ch p), s)
      | Fresh p raw \<Rightarrow>
          (case StoreUpdate w s i (proposeMutate ps p raw) of
             (Inl e, s') \<Rightarrow> (Inl e, s')
           | (Inr _, s') \<Rightarrow> (Inr (proposalEnvelope ch p), s')))"

definition Propose ::
  "crypto \<Rightarrow> PeerSession \<Rightarrow> WriteFault \<Rightarrow> Store \<Rightarrow> bytes32 \<Rightarrow> bytes32 \<Rightarrow> StateTransition
    \<Rightarrow> (chan_error + Message) \<times> Store" where
  "Propose cr ps w s i intent tr =
     (case StoreGet s i of
        None \<Rightarrow> (Inl ErrNoSuchChannel, s)
      | Some ch \<Rightarrow>
          (case proposePrepare cr ps ch intent tr of
             Inl e \<Rightarrow> (Inl e, s)
           | Inr prepared \<Rightarrow> proposeCommit ps w s i ch prepared))"

definition completeMutate ::
  "crypto \<Rightarrow> PeerSession \<Rightarrow> PendingProposal \<Rightarrow> SignedState \<Rightarrow> Channel \<Rightarrow> chan_error + Channel" where
  \<comment> \<open>what \<^verbatim>\<open>HandleAccept\<close> commits\<close>
  "completeMutate cr ps p complete c =
     bindR (Accept cr c complete) (\<lambda>c1.
       Inr (NotePayment ((NoteApplied c1 (pp_Intent p) (st_Nonce (pp_State p)))\<lparr>ch_Pending := None\<rparr>)
         (outcomeRecord (pp_Intent p) (pp_Transition p) False (st_Nonce (pp_State p)) (ps_now ps))))"

definition HandleAccept ::
  "crypto \<Rightarrow> PeerSession \<Rightarrow> WriteFault \<Rightarrow> Store \<Rightarrow> Message \<Rightarrow> (chan_error + unit) \<times> Store" where
  "HandleAccept cr ps w s m =
     (case parseBytes32 (ms_Channel m) of
        Inl e \<Rightarrow> (Inl e, s)
      | Inr i \<Rightarrow>
     (case ms_Body m of
        BodyAccept body \<Rightarrow>
          (case StoreGet s i of
             None \<Rightarrow> (Inl ErrNoSuchChannel, s)
           | Some ch \<Rightarrow>
               (case ch_Pending ch of
                  None \<Rightarrow> if AppliedAt ch (intentOf (ba_Intent body)) \<noteq> None then (Inr (), s)
                          else (Inl ErrNoPending, s)
                | Some p \<Rightarrow>
                    if hexEncode (pp_Intent p) \<noteq> ba_Intent body then (Inl ErrIntentMismatch, s)
                    else
                      (case parseSig (ba_Sig body) of
                         Inl e \<Rightarrow> (Inl e, s)
                       | Inr theirs \<Rightarrow>
                           StoreUpdate w s i (completeMutate cr ps p
                             (assemble ch (pp_State p) (pp_Sig p) (ps_self ps) theirs)))))
      | _ \<Rightarrow> (Inl ErrMalformed, s)))"

definition rejectMutate :: "PeerSession \<Rightarrow> StateRejectBody \<Rightarrow> Channel \<Rightarrow> chan_error + Channel" where
  "rejectMutate ps body c =
     (case ch_Pending c of
        Some p \<Rightarrow>
          if hexEncode (pp_Intent p) = br_Intent body
          then Inr ((NotePayment c
            ((recordFor (pp_Intent p) (pp_Transition p) False PayRejected (ps_now ps))
               \<lparr>pr_ResolvedAt := ps_now ps, pr_Detail := rejectText (br_Code body)\<rparr>))\<lparr>ch_Pending := None\<rparr>)
          else Inr c
      | None \<Rightarrow> Inr c)"

definition HandleReject ::
  "PeerSession \<Rightarrow> WriteFault \<Rightarrow> Store \<Rightarrow> Message \<Rightarrow> (chan_error + RejectCode) \<times> Store" where
  "HandleReject ps w s m =
     (case parseBytes32 (ms_Channel m) of
        Inl e \<Rightarrow> (Inl e, s)
      | Inr i \<Rightarrow>
     (case ms_Body m of
        BodyReject body \<Rightarrow>
          (case StoreUpdate w s i (rejectMutate ps body) of
             (Inl e, s') \<Rightarrow> (Inl e, s')
           | (Inr _, s') \<Rightarrow> (Inr (br_Code body), s'))
      | _ \<Rightarrow> (Inl ErrMalformed, s)))"

subsection \<open>Payee side\<close>

definition rejectMsg :: "bytes32 \<Rightarrow> string \<Rightarrow> RejectCode \<Rightarrow> string \<Rightarrow> Message" where
  "rejectMsg i intentHex code detail =
     newEnvelope i (BodyReject \<lparr> br_Intent = intentHex, br_Code = code, br_Detail = detail \<rparr>)"

definition acceptEnvelope :: "PeerSession \<Rightarrow> Channel \<Rightarrow> string \<Rightarrow> u64 \<Rightarrow> Message" where
  "acceptEnvelope ps ch intentHex nonce =
     newEnvelope (ch_ID ch) (BodyAccept \<lparr> ba_Intent = intentHex, ba_Nonce = nonce,
       ba_Sig = hexEncode (if \<not> IsA ch (ps_self ps) then ss_SigB (ch_Latest ch) else ss_SigA (ch_Latest ch)) \<rparr>)"

definition stateResponse :: "Channel \<Rightarrow> Message" where
  "stateResponse ch = newEnvelope (ch_ID ch) (BodyResponse
     (if Complete (ch_Latest ch)
      then \<lparr> bs_Have = True, bs_State = encodeStateWire (latestState ch),
             bs_SigA = hexEncode (ss_SigA (ch_Latest ch)), bs_SigB = hexEncode (ss_SigB (ch_Latest ch)) \<rparr>
      else \<lparr> bs_Have = False, bs_State = emptyStored, bs_SigA = [], bs_SigB = [] \<rparr>))"

definition codeFor :: "chan_error \<Rightarrow> RejectCode" where
  "codeFor e = (case e of
      ErrNonceRegressed \<Rightarrow> RejectNonceStale
    | ErrNotConserved \<Rightarrow> RejectNotConserved
    | ErrBadStateSignature \<Rightarrow> RejectBadSignature | ErrHighS \<Rightarrow> RejectBadSignature
    | ErrDuplicateHTLC \<Rightarrow> RejectLocksMalformed | ErrHTLCExpiryPast \<Rightarrow> RejectLocksMalformed
    | ErrNegative \<Rightarrow> RejectLocksMalformed
    | ErrInsufficient \<Rightarrow> RejectInsufficient
    | ErrPreimageBad \<Rightarrow> RejectPreimageBad
    | _ \<Rightarrow> RejectTransitionMismatch)"

record Screened =
  sr_State :: State
  sr_Transition :: StateTransition
  sr_Sig :: bytes
  sr_Proposer :: address

definition otherParty :: "Channel \<Rightarrow> address \<Rightarrow> address" where
  "otherParty ch self = (if ch_PartyA ch = self then ch_PartyB ch else ch_PartyA ch)"

definition screenProposal ::
  "crypto \<Rightarrow> PeerSession \<Rightarrow> bytes32 \<Rightarrow> Channel \<Rightarrow> StateProposeBody \<Rightarrow> Message + Screened" where
  \<comment> \<open>the checks of \<^verbatim>\<open>HandlePropose\<close> up to the point where the secret is stored; \<open>Inl\<close> is the reply\<close>
  "screenProposal cr ps i ch body =
     (let refuse = (\<lambda>code detail. Inl (rejectMsg i (bp_Intent body) code detail)) in
      if ch_Conflict ch \<noteq> None then refuse RejectConflicted ''channel stopped after a conflict''
      else if ch_Status ch \<noteq> StatusOpen then refuse RejectClosing ''channel is not open''
      else case AppliedAt ch (intentOf (bp_Intent body)) of
        Some nonce \<Rightarrow>
          Inl (if latestNonce ch = nonce then acceptEnvelope ps ch (bp_Intent body) nonce else stateResponse ch)
      | None \<Rightarrow>
          (case decodeStateWire (bp_State body) of
             Inl e \<Rightarrow> refuse RejectLocksMalformed []
           | Inr proposed \<Rightarrow>
          (case decodeTransitionWire (bp_Transition body) of
             Inl e \<Rightarrow> refuse RejectLocksMalformed []
           | Inr tr \<Rightarrow>
          (case parseSig (bp_Sig body) of
             Inl e \<Rightarrow> refuse RejectBadSignature []
           | Inr theirSig \<Rightarrow>
               let proposer = otherParty ch (ps_self ps) in
               if isl (Matches cr tr ch proposer proposed) then refuse RejectTransitionMismatch []
               else case checkTiming ps ch tr of
                 Some code \<Rightarrow> refuse code []
               | None \<Rightarrow> Inr \<lparr> sr_State = proposed, sr_Transition = tr, sr_Sig = theirSig,
                               sr_Proposer = proposer \<rparr>))))"

definition learnFirst :: "crypto \<Rightarrow> WriteFault \<Rightarrow> Node \<Rightarrow> StateTransition \<Rightarrow> (chan_error + unit) \<times> Node" where
  "learnFirst cr w nd tr =
     (case nd_vault nd of
        Some v \<Rightarrow>
          if tr_Kind tr = KindLockSettle
          then (case Learn cr w v (tr_Preimage tr) of (r, v') \<Rightarrow> (r, nd\<lparr>nd_vault := Some v'\<rparr>))
          else (Inr (), nd)
      | None \<Rightarrow> (Inr (), nd))"

definition acceptMutate ::
  "crypto \<Rightarrow> PeerSession \<Rightarrow> bytes32 \<Rightarrow> Screened \<Rightarrow> bytes32 \<Rightarrow> SignedState \<Rightarrow> Channel \<Rightarrow> chan_error + Channel" where
  "acceptMutate cr ps intent scr raw complete c =
     bindR (Accept cr c complete) (\<lambda>c1.
       Inr (NotePayment
         (NoteSigned (NoteApplied c1 intent (st_Nonce (sr_State scr))) (st_Nonce (sr_State scr)) raw)
         (outcomeRecord intent (sr_Transition scr) True (st_Nonce (sr_State scr)) (ps_now ps))))"

record Accepting =
  ac_ID :: bytes32
  ac_Snapshot :: Channel
  ac_Intent :: string
  ac_Screened :: Screened
  ac_Sig :: bytes

definition acceptRaw :: "crypto \<Rightarrow> Channel \<Rightarrow> Screened \<Rightarrow> bytes32" where
  "acceptRaw cr ch scr = Digest cr (sr_State scr) (ch_ChainID ch) (ch_Contract ch)"

text \<open>
  Like \<^verbatim>\<open>Propose\<close>, \<^verbatim>\<open>HandlePropose\<close> checks and signs on a snapshot and commits afterwards: \<open>acceptRead\<close> is the
  part up to the signature, with the secret learnt on the way, \<open>acceptCommit\<close> the rest.
\<close>

definition acceptRead ::
  "crypto \<Rightarrow> PeerSession \<Rightarrow> WriteFault \<Rightarrow> Node \<Rightarrow> Message \<Rightarrow> ((chan_error + Message) + Accepting) \<times> Node" where
  "acceptRead cr ps wv nd m =
     (case parseBytes32 (ms_Channel m) of
        Inl e \<Rightarrow> (Inl (Inl e), nd)
      | Inr i \<Rightarrow>
     (case ms_Body m of
        BodyPropose body \<Rightarrow>
          (case StoreGet (nd_store nd) i of
             None \<Rightarrow> (Inl (Inr (rejectMsg i (bp_Intent body) RejectUnknownChannel ''no such channel'')), nd)
           | Some ch \<Rightarrow>
          (case screenProposal cr ps i ch body of
             Inl reply \<Rightarrow> (Inl (Inr reply), nd)
           | Inr scr \<Rightarrow>
          (case learnFirst cr wv nd (sr_Transition scr) of
             (Inl e, nd1) \<Rightarrow> (Inl (Inl e), nd1)
           | (Inr _, nd1) \<Rightarrow>
               if signedOther ch (st_Nonce (sr_State scr)) (acceptRaw cr ch scr)
               then (Inl (Inr (rejectMsg i (bp_Intent body) RejectAlreadySignedNonce
                       ''already signed a different state at that nonce'')), nd1)
               else
                 (case signFor ps ch (acceptRaw cr ch scr) of
                    Inl e \<Rightarrow> (Inl (Inl e), nd1)
                  | Inr mySig \<Rightarrow> (Inr \<lparr> ac_ID = i, ac_Snapshot = ch, ac_Intent = bp_Intent body,
                                     ac_Screened = scr, ac_Sig = mySig \<rparr>, nd1)))))
      | _ \<Rightarrow> (Inl (Inl ErrMalformed), nd)))"

definition acceptChange :: "crypto \<Rightarrow> PeerSession \<Rightarrow> Accepting \<Rightarrow> Channel \<Rightarrow> chan_error + Channel" where
  "acceptChange cr ps a =
     acceptMutate cr ps (intentOf (ac_Intent a)) (ac_Screened a) (acceptRaw cr (ac_Snapshot a) (ac_Screened a))
       (assemble (ac_Snapshot a) (sr_State (ac_Screened a)) (sr_Sig (ac_Screened a))
         (sr_Proposer (ac_Screened a)) (ac_Sig a))"

definition acceptCommit ::
  "crypto \<Rightarrow> PeerSession \<Rightarrow> WriteFault \<Rightarrow> Store \<Rightarrow> Accepting \<Rightarrow> (chan_error + Message) \<times> Store" where
  "acceptCommit cr ps w s a =
     (case StoreUpdate w s (ac_ID a) (acceptChange cr ps a) of
        (Inl e, s') \<Rightarrow> (Inr (rejectMsg (ac_ID a) (ac_Intent a) (codeFor e) []), s')
      | (Inr _, s') \<Rightarrow>
          (case StoreGet s' (ac_ID a) of
             Some fresh \<Rightarrow> (Inr (acceptEnvelope ps fresh (ac_Intent a) (st_Nonce (sr_State (ac_Screened a)))), s')
           | None \<Rightarrow> (Inl ErrNoSuchChannel, s')))"

definition HandlePropose ::
  "crypto \<Rightarrow> PeerSession \<Rightarrow> WriteFault \<Rightarrow> WriteFault \<Rightarrow> Node \<Rightarrow> Message \<Rightarrow> (chan_error + Message) \<times> Node" where
  "HandlePropose cr ps w wv nd m =
     (case acceptRead cr ps wv nd m of
        (Inl r, nd1) \<Rightarrow> (r, nd1)
      | (Inr a, nd1) \<Rightarrow> (case acceptCommit cr ps w (nd_store nd1) a of (r, s') \<Rightarrow> (r, nd1\<lparr>nd_store := s'\<rparr>)))"

lemma HandlePropose_unfold:
  "HandlePropose cr ps w wv nd m =
     (case parseBytes32 (ms_Channel m) of
        Inl e \<Rightarrow> (Inl e, nd)
      | Inr i \<Rightarrow>
     (case ms_Body m of
        BodyPropose body \<Rightarrow>
          (case StoreGet (nd_store nd) i of
             None \<Rightarrow> (Inr (rejectMsg i (bp_Intent body) RejectUnknownChannel ''no such channel''), nd)
           | Some ch \<Rightarrow>
          (case screenProposal cr ps i ch body of
             Inl reply \<Rightarrow> (Inr reply, nd)
           | Inr scr \<Rightarrow>
          (case learnFirst cr wv nd (sr_Transition scr) of
             (Inl e, nd1) \<Rightarrow> (Inl e, nd1)
           | (Inr _, nd1) \<Rightarrow>
               let raw = Digest cr (sr_State scr) (ch_ChainID ch) (ch_Contract ch) in
               if signedOther ch (st_Nonce (sr_State scr)) raw
               then (Inr (rejectMsg i (bp_Intent body) RejectAlreadySignedNonce
                       ''already signed a different state at that nonce''), nd1)
               else
                 (case signFor ps ch raw of
                    Inl e \<Rightarrow> (Inl e, nd1)
                  | Inr mySig \<Rightarrow>
                 (case StoreUpdate w (nd_store nd1) i (acceptMutate cr ps (intentOf (bp_Intent body)) scr raw
                         (assemble ch (sr_State scr) (sr_Sig scr) (sr_Proposer scr) mySig)) of
                    (Inl e, s') \<Rightarrow> (Inr (rejectMsg i (bp_Intent body) (codeFor e) []), nd1\<lparr>nd_store := s'\<rparr>)
                  | (Inr _, s') \<Rightarrow>
                      (case StoreGet s' i of
                         Some fresh \<Rightarrow> (Inr (acceptEnvelope ps fresh (bp_Intent body) (st_Nonce (sr_State scr))),
                                         nd1\<lparr>nd_store := s'\<rparr>)
                       | None \<Rightarrow> (Inl ErrNoSuchChannel, nd1\<lparr>nd_store := s'\<rparr>)))))))
      | _ \<Rightarrow> (Inl ErrMalformed, nd)))"
proof (cases "parseBytes32 (ms_Channel m)")
  case (Inr i)
  show ?thesis
  proof (cases "\<exists>body ch scr. ms_Body m = BodyPropose body \<and> StoreGet (nd_store nd) i = Some ch \<and>
      screenProposal cr ps i ch body = Inr scr")
    case True
    then obtain body ch scr where pre: "ms_Body m = BodyPropose body" "StoreGet (nd_store nd) i = Some ch"
      "screenProposal cr ps i ch body = Inr scr" by blast
    show ?thesis
      by (cases "learnFirst cr wv nd (sr_Transition scr)"; cases "fst (learnFirst cr wv nd (sr_Transition scr))";
          cases "signFor ps ch (acceptRaw cr ch scr)")
        (simp_all add: HandlePropose_def acceptRead_def acceptCommit_def acceptChange_def Inr pre Let_def
          acceptRaw_def split: prod.split sum.split option.split)
  next
    case False
    then show ?thesis
      by (auto simp: HandlePropose_def acceptRead_def Inr split: Body.split option.split sum.split)
  qed
qed (simp add: HandlePropose_def acceptRead_def)

subsection \<open>Resynchronisation, conflicts and restart\<close>

definition RequestState :: "bytes32 \<Rightarrow> Message" where
  "RequestState i = newEnvelope i BodyRequest"

definition HandleRequest :: "Store \<Rightarrow> Message \<Rightarrow> chan_error + Message" where
  "HandleRequest s m =
     bindR (parseBytes32 (ms_Channel m)) (\<lambda>i.
       case StoreGet s i of None \<Rightarrow> Inl ErrNoSuchChannel | Some ch \<Rightarrow> Inr (stateResponse ch))"

datatype ResyncOutcome =
  ResyncAdopted | ResyncStale | ResyncSame | ResyncNone | ResyncConflict | ResyncRejected chan_error

definition adoptMutate :: "crypto \<Rightarrow> PeerSession \<Rightarrow> SignedState \<Rightarrow> Channel \<Rightarrow> chan_error + Channel" where
  "adoptMutate cr ps theirs c =
     bindR (Accept cr c theirs) (\<lambda>c1.
       case ch_Pending c1 of
         Some p \<Rightarrow>
           if st_Nonce (pp_State p) \<le> st_Nonce (ss_State theirs)
           then Inr ((NotePayment (NoteApplied c1 (pp_Intent p) (st_Nonce (pp_State p)))
                  (outcomeRecord (pp_Intent p) (pp_Transition p) False (st_Nonce (pp_State p)) (ps_now ps)))
                  \<lparr>ch_Pending := None\<rparr>)
           else Inr c1
       | None \<Rightarrow> Inr c1)"

definition conflictMutate :: "u64 \<Rightarrow> SignedState \<Rightarrow> SignedState \<Rightarrow> Channel \<Rightarrow> chan_error + Channel" where
  "conflictMutate nonce mine theirs c =
     Inr (c\<lparr>ch_Conflict := Some \<lparr> cf_Nonce = nonce, cf_Mine = mine, cf_Theirs = theirs \<rparr>, ch_Pending := None\<rparr>)"

definition HandleResponse ::
  "crypto \<Rightarrow> PeerSession \<Rightarrow> WriteFault \<Rightarrow> Store \<Rightarrow> Message \<Rightarrow> (chan_error + ResyncOutcome) \<times> Store" where
  \<comment> \<open>\<open>ResyncRejected e\<close> is the pair of that outcome and the error\<close>
  "HandleResponse cr ps w s m =
     (case parseBytes32 (ms_Channel m) of
        Inl e \<Rightarrow> (Inl e, s)
      | Inr i \<Rightarrow>
     (case ms_Body m of
        BodyResponse body \<Rightarrow>
          (case StoreGet s i of
             None \<Rightarrow> (Inl ErrNoSuchChannel, s)
           | Some ch \<Rightarrow>
               if \<not> bs_Have body then (Inr ResyncNone, s)
               else
                 (case decodeSignedWire (bs_State body) (bs_SigA body) (bs_SigB body) of
                    Inl e \<Rightarrow> (Inl e, s)
                  | Inr theirs \<Rightarrow>
                      if st_Nonce (ss_State theirs) > latestNonce ch
                      then (case StoreUpdate w s i (adoptMutate cr ps theirs) of
                              (Inl e, s') \<Rightarrow> (Inr (ResyncRejected e), s')
                            | (Inr _, s') \<Rightarrow> (Inr ResyncAdopted, s'))
                      else if st_Nonce (ss_State theirs) < latestNonce ch then (Inr ResyncStale, s)
                      else if StateEqual (latestState ch) (ss_State theirs) = Inr () then (Inr ResyncSame, s)
                      else (case StoreUpdate w s i
                                (conflictMutate (st_Nonce (ss_State theirs)) (ch_Latest ch) theirs) of
                              (Inl e, s') \<Rightarrow> (Inl e, s')
                            | (Inr _, s') \<Rightarrow> (Inr ResyncConflict, s'))))
      | _ \<Rightarrow> (Inl ErrMalformed, s)))"

definition ConflictMessage :: "Store \<Rightarrow> bytes32 \<Rightarrow> chan_error + Message" where
  "ConflictMessage s i =
     (case StoreGet s i of
        None \<Rightarrow> Inl ErrNoSuchChannel
      | Some ch \<Rightarrow>
          (case ch_Conflict ch of
             None \<Rightarrow> Inl (ErrText ''no conflict recorded on that channel'')
           | Some c \<Rightarrow> Inr (newEnvelope i (BodyConflict
               \<lparr> bc_Nonce = cf_Nonce c, bc_Mine = encodeStateWire (ss_State (cf_Mine c)),
                 bc_MineA = hexEncode (ss_SigA (cf_Mine c)), bc_MineB = hexEncode (ss_SigB (cf_Mine c)),
                 bc_Yours = encodeStateWire (ss_State (cf_Theirs c)),
                 bc_YoursA = hexEncode (ss_SigA (cf_Theirs c)),
                 bc_YoursB = hexEncode (ss_SigB (cf_Theirs c)) \<rparr>))))"

definition verifyBothParties :: "crypto \<Rightarrow> Channel \<Rightarrow> SignedState \<Rightarrow> chan_error + unit" where
  "verifyBothParties cr ch ss =
     (if \<not> Complete ss then Inl ErrBadStateSignature
      else signedByParties cr ch (Digest cr (ss_State ss) (ch_ChainID ch) (ch_Contract ch)) ss)"

definition HandleConflict ::
  "crypto \<Rightarrow> WriteFault \<Rightarrow> Store \<Rightarrow> Message \<Rightarrow> (chan_error + bool) \<times> Store" where
  "HandleConflict cr w s m =
     (case parseBytes32 (ms_Channel m) of
        Inl e \<Rightarrow> (Inl e, s)
      | Inr i \<Rightarrow>
     (case ms_Body m of
        BodyConflict body \<Rightarrow>
          (case decodeSignedWire (bc_Mine body) (bc_MineA body) (bc_MineB body) of
             Inl e \<Rightarrow> (Inl e, s)
           | Inr theirs \<Rightarrow>
          (case decodeSignedWire (bc_Yours body) (bc_YoursA body) (bc_YoursB body) of
             Inl e \<Rightarrow> (Inl e, s)
           | Inr ours \<Rightarrow>
               if st_Nonce (ss_State theirs) \<noteq> st_Nonce (ss_State ours)
               then (Inl (ErrText ''the two states are not at one nonce; not a conflict''), s)
               else if StateEqual (ss_State theirs) (ss_State ours) = Inr ()
               then (Inl (ErrText ''the two states are identical; not a conflict''), s)
               else
                 (case StoreGet s i of
                    None \<Rightarrow> (Inl ErrNoSuchChannel, s)
                  | Some ch \<Rightarrow>
                      if ch_Conflict ch \<noteq> None then (Inr True, s)
                      else
                        (case bindR (verifyBothParties cr ch theirs) (\<lambda>_. verifyBothParties cr ch ours) of
                           Inl e \<Rightarrow> (Inl e, s)
                         | Inr _ \<Rightarrow>
                             (case StoreUpdate w s i (conflictMutate (st_Nonce (ss_State theirs)) ours theirs) of
                                (Inl e, s') \<Rightarrow> (Inl e, s')
                              | (Inr _, s') \<Rightarrow> (Inr True, s'))))))
      | _ \<Rightarrow> (Inl ErrMalformed, s)))"

definition Resume :: "Store \<Rightarrow> bytes32 \<Rightarrow> chan_error + Message option" where
  "Resume s i =
     (case StoreGet s i of
        None \<Rightarrow> Inl ErrNoSuchChannel
      | Some ch \<Rightarrow>
          if ch_Conflict ch \<noteq> None then Inl ErrConflicted
          else if ch_Pending ch = None then Inr None
          else Inr (Some (RequestState i)))"

subsection \<open>What the handlers change\<close>

text \<open>
  Like the two signing calls, the handlers of an acceptance, of a response and of a conflict read a snapshot
  first and make at most one \<^verbatim>\<open>Commit\<close> afterwards. These are the channel and the change of that commit, as
  computed on the snapshot; \<open>None\<close> where the handler changes nothing.
\<close>

type_synonym change = "bytes32 \<times> (Channel \<Rightarrow> chan_error + Channel)"

definition acceptedChange :: "crypto \<Rightarrow> PeerSession \<Rightarrow> Store \<Rightarrow> Message \<Rightarrow> change option" where
  "acceptedChange cr ps s m =
     (case (parseBytes32 (ms_Channel m), ms_Body m) of
        (Inr i, BodyAccept body) \<Rightarrow>
          (case StoreGet s i of
             None \<Rightarrow> None
           | Some ch \<Rightarrow>
               (case (ch_Pending ch, parseSig (ba_Sig body)) of
                  (Some p, Inr theirs) \<Rightarrow>
                    if hexEncode (pp_Intent p) \<noteq> ba_Intent body then None
                    else Some (i, completeMutate cr ps p (assemble ch (pp_State p) (pp_Sig p) (ps_self ps) theirs))
                | _ \<Rightarrow> None))
      | _ \<Rightarrow> None)"

definition responseChange :: "crypto \<Rightarrow> PeerSession \<Rightarrow> Store \<Rightarrow> Message \<Rightarrow> change option" where
  "responseChange cr ps s m =
     (case (parseBytes32 (ms_Channel m), ms_Body m) of
        (Inr i, BodyResponse body) \<Rightarrow>
          (case (StoreGet s i, decodeSignedWire (bs_State body) (bs_SigA body) (bs_SigB body)) of
             (Some ch, Inr theirs) \<Rightarrow>
               if \<not> bs_Have body then None
               else if st_Nonce (ss_State theirs) > latestNonce ch then Some (i, adoptMutate cr ps theirs)
               else if st_Nonce (ss_State theirs) < latestNonce ch then None
               else if StateEqual (latestState ch) (ss_State theirs) = Inr () then None
               else Some (i, conflictMutate (st_Nonce (ss_State theirs)) (ch_Latest ch) theirs)
           | _ \<Rightarrow> None)
      | _ \<Rightarrow> None)"

definition conflictChange :: "crypto \<Rightarrow> Store \<Rightarrow> Message \<Rightarrow> change option" where
  "conflictChange cr s m =
     (case (parseBytes32 (ms_Channel m), ms_Body m) of
        (Inr i, BodyConflict body) \<Rightarrow>
          (case (decodeSignedWire (bc_Mine body) (bc_MineA body) (bc_MineB body),
                 decodeSignedWire (bc_Yours body) (bc_YoursA body) (bc_YoursB body), StoreGet s i) of
             (Inr theirs, Inr ours, Some ch) \<Rightarrow>
               if st_Nonce (ss_State theirs) \<noteq> st_Nonce (ss_State ours)
                 \<or> StateEqual (ss_State theirs) (ss_State ours) = Inr () \<or> ch_Conflict ch \<noteq> None
                 \<or> isl (bindR (verifyBothParties cr ch theirs) (\<lambda>_. verifyBothParties cr ch ours))
               then None
               else Some (i, conflictMutate (st_Nonce (ss_State theirs)) ours theirs)
           | _ \<Rightarrow> None)
      | _ \<Rightarrow> None)"

definition commitChange :: "WriteFault \<Rightarrow> Store \<Rightarrow> change option \<Rightarrow> Store" where
  "commitChange w s u = (case u of None \<Rightarrow> s | Some (i, f) \<Rightarrow> snd (StoreUpdate w s i f))"

text \<open>Run without interruption, a handler leaves the store exactly as that change does.\<close>

lemma HandleAccept_change: "snd (HandleAccept cr ps w s m) = commitChange w s (acceptedChange cr ps s m)"
  by (auto simp: HandleAccept_def acceptedChange_def commitChange_def split: sum.split Body.split option.split)

lemma HandleResponse_change: "snd (HandleResponse cr ps w s m) = commitChange w s (responseChange cr ps s m)"
  by (auto simp: HandleResponse_def responseChange_def commitChange_def
      split: sum.split Body.split option.split prod.split)

lemma HandleConflict_change: "snd (HandleConflict cr w s m) = commitChange w s (conflictChange cr s m)"
  by (auto simp: HandleConflict_def conflictChange_def commitChange_def
      split: sum.split Body.split option.split prod.split)

end
