(* ===== verification/Session_Props.thy ===== *)
theory Session_Props
  imports Session
begin

text \<open>
  Invariant I4 of the protocol: this node never lets two different states at one nonce leave under its
  signature. A run is a sequence of the atomic sections of the engine's calls, so calls overlap as they do in
  the program; the ghost log records every signature a call made and released, and every one it released
  again from an outstanding proposal. The invariant of a channel is that each logged nonce is either at or
  below the nonce of the stored state or still in the ledger with the logged digest, and that an outstanding
  proposal agrees with both; it is durable, so it survives failed writes and restarts.
\<close>

subsection \<open>Well-formedness of what the handlers write\<close>

definition wfTransition :: "StateTransition \<Rightarrow> bool" where
  "wfTransition t \<longleftrightarrow> length (tr_LockID t) = 32 \<and> length (tr_Hash t) = 32 \<and> length (tr_Preimage t) = 32"

definition wfRecord :: "PaymentRecord \<Rightarrow> bool" where
  "wfRecord r \<longleftrightarrow> length (pr_Intent r) = 32 \<and> length (pr_LockID r) = 32"

lemma wfChannel_simps [simp]:
  "wfChannel (c\<lparr>ch_Pending := Some p\<rparr>) \<longleftrightarrow> wfChannel (c\<lparr>ch_Pending := None\<rparr>) \<and> wfPending p"
  "wfChannel (c\<lparr>ch_NeedsReconcile := b\<rparr>) = wfChannel c"
  by (auto simp: wfChannel_def)

lemma wfChannel_conflict:
  "wfChannel c \<Longrightarrow> wireOK (ss_State (cf_Mine x)) \<Longrightarrow> wireOK (ss_State (cf_Theirs x)) \<Longrightarrow>
   wfChannel (c\<lparr>ch_Conflict := Some x, ch_Pending := None\<rparr>)"
  by (simp add: wfChannel_def)

lemma wfChannel_dropPending: "wfChannel c \<Longrightarrow> wfChannel (c\<lparr>ch_Pending := None\<rparr>)"
  by (simp add: wfChannel_def)

lemma updateRecord_set: "updateRecord hs r = Some hs' \<Longrightarrow> x \<in> set hs' \<Longrightarrow> x \<in> set hs \<or> x = r \<or> (\<exists>h. x = mergeRecord h r)"
  by (induction hs arbitrary: hs') (auto split: if_splits)

lemma wfRecord_note: "\<forall>x \<in> set hs. wfRecord x \<Longrightarrow> wfRecord r \<Longrightarrow> \<forall>x \<in> set (noteHistory hs r). wfRecord x"
  by (auto simp: noteHistory_def Let_def wfRecord_def mergeRecord_def split: option.splits if_splits
      dest: in_set_dropD dest!: updateRecord_set)

lemma wfChannel_NotePayment: "wfChannel c \<Longrightarrow> wfRecord r \<Longrightarrow> wfChannel (NotePayment c r)"
  using wfRecord_note [of "ch_History c" r] by (simp add: wfChannel_def NotePayment_def wfRecord_def)

lemma wfChannel_NoteSigned: "wfChannel c \<Longrightarrow> length d = 32 \<Longrightarrow> wfChannel (NoteSigned c n d)"
  by (auto simp: wfChannel_def NoteSigned_def ran_def split: if_splits)

lemma wfChannel_NoteApplied: "wfChannel c \<Longrightarrow> length k = 32 \<Longrightarrow> wfChannel (NoteApplied c k n)"
  by (auto simp: wfChannel_def NoteApplied_def split: if_splits)

lemma wfRecord_recordFor [simp]: "wfRecord (recordFor k t b st now) \<longleftrightarrow> length k = 32 \<and> length (tr_LockID t) = 32"
  by (simp add: wfRecord_def recordFor_def)

lemma wfRecord_outcomeRecord [simp]:
  "wfRecord (outcomeRecord k t b n now) \<longleftrightarrow> length k = 32 \<and> length (tr_LockID t) = 32"
  by (simp add: wfRecord_def outcomeRecord_def recordFor_def Let_def)

lemma length_intentOf [simp]: "length (intentOf s) = 32"
  by (simp add: intentOf_def split: option.split)

lemma length_Digest [simp]: "length (Digest cr s c k) = 32"
  by (simp add: Digest_def)

lemma wireOK_Op: "wireOK s \<Longrightarrow> k \<in> {OpState, OpCoopClose, OpCheckpoint} \<Longrightarrow> wireOK (s\<lparr>st_Op := k\<rparr>)"
  by (auto simp: wireOK_def st_op_def Op_defs)

lemma wireOK_baseState: "wfChannel ch \<Longrightarrow> wireOK (baseState ch)"
  by (auto simp: wireOK_def baseState_def Let_def wfChannel_def st_op_def Op_defs clonePending_def)
    (auto simp: canonical_def sorted_wrt_map)

lemma applyKind_wireOK:
  assumes "applyKind cr t nxt p = Inr s" "wireOK nxt" "wfTransition t"
  shows "wireOK s"
proof -
  have can: "canonical (st_Pending s)"
    using assms by (intro applyKind_canonical [OF assms(1)]) (auto simp: wireOK_def wfTransition_def)
  show ?thesis
    using assms can
    by (elim applyKind_cases)
      (auto simp: wireOK_def Let_def wfTransition_def st_op_def setBalance_def give_def dest: set_removeAt [THEN subsetD])
qed

lemma Apply_wireOK:
  assumes "Apply cr t ch p = Inr s" "wfChannel ch" "wfTransition t"
  shows "wireOK s"
proof -
  obtain s0 where s0: "applyKind cr t (baseState ch) (IsA ch p) = Inr s0" and s: "s = s0\<lparr>st_Op := opForKind (tr_Kind t)\<rparr>"
    using assms(1) by (auto simp: Apply_def res_simps split: if_splits)
  have "wireOK s0"
    using applyKind_wireOK [OF s0 wireOK_baseState [OF assms(2)] assms(3)] .
  then show ?thesis
    unfolding s by (rule wireOK_Op) (auto simp: opForKind_def split: TransitionKind.split)
qed

lemma decodeTransition_wf: "decodeTransitionWire w = Inr t \<Longrightarrow> wfTransition t"
  by (auto simp: decodeTransitionWire_def bindR_Inr optBytes32_def wfTransition_def parseBytes32_iff split: if_splits)

lemma decodeSigned_wf: "decodeSignedWire w a b = Inr ss \<Longrightarrow> wireOK (ss_State ss)"
  by (auto simp: decodeSignedWire_def bindR_Inr dest: decodeStateWire_D)

subsection \<open>The invariant of one channel\<close>

type_synonym siglog = "(bytes32 \<times> u64 \<times> bytes32) set"

definition recorded :: "Channel \<Rightarrow> u64 \<Rightarrow> bytes32 \<Rightarrow> bool" where
  \<comment> \<open>the channel is past the nonce, or its ledger names the digest signed there\<close>
  "recorded c n d \<longleftrightarrow> n \<le> latestNonce c \<or> ch_Signed c n = Some d"

definition covers :: "siglog \<Rightarrow> bytes32 \<Rightarrow> Channel \<Rightarrow> bool" where
  "covers L i c \<longleftrightarrow> (\<forall>n d. (i, n, d) \<in> L \<longrightarrow> n \<noteq> 0 \<longrightarrow> recorded c n d)"

definition consistent :: "siglog \<Rightarrow> bool" where
  "consistent L \<longleftrightarrow> (\<forall>i n d d'. (i, n, d) \<in> L \<longrightarrow> (i, n, d') \<in> L \<longrightarrow> n \<noteq> 0 \<longrightarrow> d = d')"

definition proposalDigest :: "crypto \<Rightarrow> Channel \<Rightarrow> PendingProposal \<Rightarrow> bytes32" where
  "proposalDigest cr c p = Digest cr (pp_State p) (ch_ChainID c) (ch_Contract c)"

definition pendingOK :: "crypto \<Rightarrow> siglog \<Rightarrow> bytes32 \<Rightarrow> Channel \<Rightarrow> bool" where
  \<comment> \<open>the outstanding proposal is recorded, and nothing else was released at its nonce\<close>
  "pendingOK cr L i c \<longleftrightarrow> (\<forall>p. ch_Pending c = Some p \<longrightarrow> st_Nonce (pp_State p) \<noteq> 0 \<longrightarrow>
     recorded c (st_Nonce (pp_State p)) (proposalDigest cr c p) \<and>
     (\<forall>d. (i, st_Nonce (pp_State p), d) \<in> L \<longrightarrow> d = proposalDigest cr c p))"

definition good :: "crypto \<Rightarrow> siglog \<Rightarrow> bytes32 \<Rightarrow> Channel \<Rightarrow> bool" where
  "good cr L i c \<longleftrightarrow> readable cr i c \<and> covers L i c \<and> pendingOK cr L i c"

definition logged :: "siglog \<Rightarrow> bytes32 set" where
  "logged L = fst ` L"

lemma recorded_norm [simp]: "recorded (normChannel c) = recorded c"
  by (simp add: recorded_def fun_eq_iff)

lemma covers_norm [simp]: "covers L i (normChannel c) = covers L i c"
  by (simp add: covers_def)

lemma pending_norm:
  "ch_Pending (normChannel c) = map_option normPending (ch_Pending c)"
  "st_Nonce (pp_State (normPending p)) = st_Nonce (pp_State p)"
  "proposalDigest cr (normChannel c) (normPending p) = proposalDigest cr c p"
  by (simp_all add: normPending_def proposalDigest_def Digest_chainID) (simp add: normChannel_def)

lemma pendingOK_norm [simp]: "pendingOK cr L i (normChannel c) = pendingOK cr L i c"
  by (cases "ch_Pending c") (simp_all add: pendingOK_def pending_norm)

interpretation i4: durable_kept cr "good cr L" "logged L" for cr L
proof unfold_locales
  fix i c assume "good cr L i c"
  then show "ch_ID c = i \<and> wfChannel c \<and> verifyLoaded cr c = Inr ()" "good cr L i (normChannel c)"
    by (simp_all add: good_def readable_def)
next
  fix j c assume "j \<notin> logged L" "readable cr j c" "ch_Pending c = None"
  then show "good cr L j c"
    by (auto simp: good_def covers_def logged_def rev_image_eqI pendingOK_def)
qed

text \<open>A record that is fine for a log is fine for a larger one that says no more than its own proposal does.\<close>

lemma good_extend:
  assumes "good cr M i c"
    and "\<And>n d. (i, n, d) \<in> M' \<Longrightarrow> (i, n, d) \<in> M \<or>
      (\<exists>p. ch_Pending c = Some p \<and> n = st_Nonce (pp_State p) \<and> d = proposalDigest cr c p)"
  shows "good cr M' i c"
  using assms unfolding good_def covers_def pendingOK_def by (metis option.inject)

lemma good_subset: "good cr M' i c \<Longrightarrow> M \<subseteq> M' \<Longrightarrow> good cr M i c"
  by (rule good_extend) blast+

lemma good_other: "good cr M j c \<Longrightarrow> j \<noteq> i \<Longrightarrow> good cr (insert (i, n, d) M) j c"
  by (erule good_extend) auto

subsection \<open>Every change the engine makes advances the channel\<close>

definition ledgerKept :: "Channel \<Rightarrow> Channel \<Rightarrow> bool" where
  \<comment> \<open>no record of a signature is lost and no new proposal appears\<close>
  "ledgerKept c c' \<longleftrightarrow> (\<forall>n d. recorded c n d \<longrightarrow> recorded c' n d) \<and>
     (ch_Pending c' = None \<or> ch_Pending c' = ch_Pending c)"

definition safe :: "crypto \<Rightarrow> (Channel \<Rightarrow> chan_error + Channel) \<Rightarrow> bool" where
  \<comment> \<open>a change that signs nothing\<close>
  "safe cr f \<longleftrightarrow> advancing cr f \<and> (\<forall>c c'. wfChannel c \<longrightarrow> f c = Inr c' \<longrightarrow> ledgerKept c c')"

lemmas note_frames = NoteSigned_def NoteApplied_def

lemma safeI:
  "(\<And>c c'. wfChannel c \<Longrightarrow> f c = Inr c' \<Longrightarrow> advances cr c c' \<and> ledgerKept c c') \<Longrightarrow> safe cr f"
  by (simp add: safe_def advancing_def)

lemma safe_advancing: "safe cr f \<Longrightarrow> advancing cr f"
  by (simp add: safe_def)

lemma advances_self: "wfChannel c' \<Longrightarrow> sameChannel c c' \<Longrightarrow> ch_Latest c' = ch_Latest c \<Longrightarrow> advances cr c c'"
  by (simp add: advances_def)

lemma ledgerKept_Accept: "Accept cr c cand = Inr c' \<Longrightarrow> ledgerKept c c'"
  using Accept_nonce_mono [of cr c cand c']
  by (auto simp: ledgerKept_def recorded_def Accept_iff)

lemma ledgerKept_note:
  assumes "ledgerKept c c1" "ch_Signed c' = ch_Signed c1" "latestNonce c' = latestNonce c1"
    "ch_Pending c' = None \<or> ch_Pending c' = ch_Pending c1"
  shows "ledgerKept c c'"
  using assms unfolding ledgerKept_def recorded_def by metis

lemma ledgerKept_refl: "ledgerKept c c"
  by (simp add: ledgerKept_def)

lemma good_safe:
  assumes "good cr L i c" "safe cr f" "f c = Inr c'"
  shows "good cr L i c'" "sameChannel c c'" "ch_Pending c' = None \<or> ch_Pending c' = ch_Pending c"
proof -
  have wf: "wfChannel c" and r: "readable cr i c" using assms(1) by (simp_all add: good_def readable_def)
  have adv: "advances cr c c'" and kept: "ledgerKept c c'"
    using assms(2,3) wf unfolding safe_def advancing_def by blast+
  then show same: "sameChannel c c'" and pend: "ch_Pending c' = None \<or> ch_Pending c' = ch_Pending c"
    by (simp_all add: advances_def ledgerKept_def)
  have "proposalDigest cr c' = proposalDigest cr c"
    using same by (simp add: proposalDigest_def sameChannel_def fun_eq_iff)
  then have "pendingOK cr L i c'"
    using assms(1) pend kept by (cases "ch_Pending c'") (simp_all add: good_def pendingOK_def ledgerKept_def)
  moreover have "covers L i c'"
    using assms(1) kept unfolding good_def covers_def ledgerKept_def by blast
  ultimately show "good cr L i c'"
    using readable_advances(1) [OF adv r] by (simp add: good_def)
qed

text \<open>What follows an \<open>Accept\<close> in the handlers is bookkeeping.\<close>

lemma noteOutcome:
  assumes "wfChannel c" "length k = 32" "length (tr_LockID t) = 32"
    and "c' = NotePayment (NoteApplied c k n) (outcomeRecord k t b n' now) \<or>
      c' = (NotePayment (NoteApplied c k n) (outcomeRecord k t b n' now))\<lparr>ch_Pending := None\<rparr> \<or>
      c' = NotePayment ((NoteApplied c k n)\<lparr>ch_Pending := None\<rparr>) (outcomeRecord k t b n' now)"
  shows "wfChannel c'" "sameChannel c c'" "ch_Latest c' = ch_Latest c" "ch_Signed c' = ch_Signed c"
    "ch_Pending c' = None \<or> ch_Pending c' = ch_Pending c"
  using assms wfChannel_NoteApplied [OF assms(1,2)]
  by (auto simp: NoteApplied_def sameChannel_def intro!: wfChannel_dropPending wfChannel_NotePayment)

lemma accept_then_note:
  assumes "Accept cr c cand = Inr c1" "wfChannel c" "wireOK (ss_State cand)"
    and "wfChannel c1 \<Longrightarrow> wfChannel c'" "sameChannel c1 c'" "ch_Latest c' = ch_Latest c1" "ch_Signed c' = ch_Signed c1"
    "ch_Pending c' = None \<or> ch_Pending c' = ch_Pending c1"
  shows "advances cr c c' \<and> ledgerKept c c'"
  using advances_note [OF advances_Accept [OF assms(1-3)] assms(5,6)] ledgerKept_note [OF ledgerKept_Accept [OF assms(1)]]
    assms wfChannel_Accept by auto

lemma wfPending_of: "wfChannel c \<Longrightarrow> ch_Pending c = Some p \<Longrightarrow> wfPending p"
  by (simp add: wfChannel_def)

lemma safe_completeMutate:
  assumes "wfPending p" "wireOK (ss_State complete)"
  shows "safe cr (completeMutate cr ps p complete)"
proof (rule safeI)
  fix c c' assume wf: "wfChannel c" and c': "completeMutate cr ps p complete c = Inr c'"
  then obtain c1 where acc: "Accept cr c complete = Inr c1" and eq: "c' = NotePayment
      ((NoteApplied c1 (pp_Intent p) (st_Nonce (pp_State p)))\<lparr>ch_Pending := None\<rparr>)
      (outcomeRecord (pp_Intent p) (pp_Transition p) False (st_Nonce (pp_State p)) (ps_now ps))"
    by (auto simp: completeMutate_def bindR_Inr)
  note n = noteOutcome [OF wfChannel_Accept [OF acc wf assms(2)] _ _ disjI2 [OF disjI2 [OF eq]]]
  show "advances cr c c' \<and> ledgerKept c c'"
    using assms(1) by (intro accept_then_note [OF acc wf assms(2)] n) (simp_all add: wfPending_def)
qed

lemma safe_adoptMutate:
  assumes "wireOK (ss_State theirs)"
  shows "safe cr (adoptMutate cr ps theirs)"
proof (rule safeI)
  fix c c' assume wf: "wfChannel c" and c': "adoptMutate cr ps theirs c = Inr c'"
  then obtain c1 where acc: "Accept cr c theirs = Inr c1" by (auto simp: adoptMutate_def bindR_Inr)
  have wf1: "wfChannel c1" using wfChannel_Accept [OF acc wf assms] .
  show "advances cr c c' \<and> ledgerKept c c'"
  proof (cases "\<exists>p. ch_Pending c1 = Some p \<and> st_Nonce (pp_State p) \<le> st_Nonce (ss_State theirs)")
    case True
    then obtain p where p: "ch_Pending c1 = Some p" "st_Nonce (pp_State p) \<le> st_Nonce (ss_State theirs)" by blast
    have eq: "c' = (NotePayment (NoteApplied c1 (pp_Intent p) (st_Nonce (pp_State p)))
        (outcomeRecord (pp_Intent p) (pp_Transition p) False (st_Nonce (pp_State p)) (ps_now ps)))\<lparr>ch_Pending := None\<rparr>"
      using c' p by (simp add: adoptMutate_def acc)
    note n = noteOutcome [OF wf1 _ _ disjI2 [OF disjI1 [OF eq]]]
    show ?thesis
      using wfPending_of [OF wf1 p(1)]
      by (intro accept_then_note [OF acc wf assms] n) (simp_all add: wfPending_def)
  next
    case False
    then have "c' = c1"
      using c' by (auto simp: adoptMutate_def acc split: option.splits)
    then show ?thesis
      using advances_Accept [OF acc wf assms] ledgerKept_Accept [OF acc] by simp
  qed
qed

lemma safe_rejectMutate: "safe cr (rejectMutate ps body)"
proof (rule safeI)
  fix c c' assume wf: "wfChannel c" and c': "rejectMutate ps body c = Inr c'"
  show "advances cr c c' \<and> ledgerKept c c'"
  proof (cases "\<exists>p. ch_Pending c = Some p \<and> hexEncode (pp_Intent p) = br_Intent body")
    case True
    then obtain p where p: "ch_Pending c = Some p" "hexEncode (pp_Intent p) = br_Intent body" by blast
    let ?r = "(recordFor (pp_Intent p) (pp_Transition p) False PayRejected (ps_now ps))
      \<lparr>pr_ResolvedAt := ps_now ps, pr_Detail := rejectText (br_Code body)\<rparr>"
    have eq: "c' = (NotePayment c ?r)\<lparr>ch_Pending := None\<rparr>"
      using c' p by (simp add: rejectMutate_def)
    have "wfRecord ?r"
      using wfPending_of [OF wf p(1)] by (simp add: wfRecord_def recordFor_def wfPending_def)
    then have "wfChannel c'"
      unfolding eq using wf by (intro wfChannel_dropPending wfChannel_NotePayment)
    then show ?thesis
      by (auto simp: eq sameChannel_def intro!: advances_self intro: ledgerKept_note [OF ledgerKept_refl])
  next
    case False
    then have "c' = c"
      using c' by (auto simp: rejectMutate_def split: option.splits if_splits)
    with wf show ?thesis by (simp add: advances_self sameChannel_def ledgerKept_refl)
  qed
qed

lemma safe_conflictMutate:
  assumes "wireOK (ss_State mine)" "wireOK (ss_State theirs)"
  shows "safe cr (conflictMutate n mine theirs)"
proof (rule safeI)
  fix c c' assume wf: "wfChannel c" and c': "conflictMutate n mine theirs c = Inr c'"
  have "wfChannel c'"
    using c' assms wfChannel_conflict [OF wf, of "\<lparr> cf_Nonce = n, cf_Mine = mine, cf_Theirs = theirs \<rparr>"]
    by (auto simp: conflictMutate_def)
  then show "advances cr c c' \<and> ledgerKept c c'"
    using c' by (auto simp: conflictMutate_def sameChannel_def intro!: advances_self
        intro: ledgerKept_note [OF ledgerKept_refl])
qed

lemma safe_note: "wfRecord r \<Longrightarrow> safe cr (\<lambda>c. Inr (NotePayment c r))"
  using wfChannel_NotePayment
  by (auto simp: sameChannel_def intro!: safeI advances_self intro: ledgerKept_note [OF ledgerKept_refl])

lemma safe_refresh: "safe cr (refreshFrom occ)"
  using advancing_refresh [of cr occ]
  by (auto simp: safe_def refreshFrom_def split: if_splits intro: ledgerKept_note [OF ledgerKept_refl])

lemma safe_payout: "safe cr (\<lambda>c. Inr (c\<lparr>ch_Payout := g c\<rparr>))"
  by (auto simp: sameChannel_def wfChannel_def intro!: safeI advances_self intro: ledgerKept_note [OF ledgerKept_refl])

lemma safe_Accept: "wireOK (ss_State cand) \<Longrightarrow> safe cr (\<lambda>c. Accept cr c cand)"
  using advances_Accept ledgerKept_Accept by (intro safeI) blast

text \<open>The two changes that come with a new signature.\<close>

lemma proposeMutate_facts:
  assumes "proposeMutate ps p raw c = Inr c'" "wfChannel c" "wfPending p" "length raw = 32"
  shows "advances cr c c'" "ch_Pending c' = Some p" "recorded c' (st_Nonce (pp_State p)) raw"
    "recorded c n d \<Longrightarrow> n \<noteq> st_Nonce (pp_State p) \<Longrightarrow> recorded c' n d"
proof -
  let ?c1 = "NoteSigned (c\<lparr>ch_Pending := Some p\<rparr>) (st_Nonce (pp_State p)) raw"
  have c': "c' = NotePayment ?c1 (recordFor (pp_Intent p) (pp_Transition p) False PayInitiated (ps_now ps))"
    using assms(1) by (simp add: proposeMutate_def)
  have "wfChannel c'"
    unfolding c' using assms(2-4)
    by (intro wfChannel_NotePayment wfChannel_NoteSigned) (simp_all add: wfPending_def wfChannel_dropPending)
  then show "advances cr c c'"
    by (rule advances_self) (simp_all add: c' sameChannel_def NoteSigned_def)
  show "ch_Pending c' = Some p" "recorded c' (st_Nonce (pp_State p)) raw"
    "recorded c n d \<Longrightarrow> n \<noteq> st_Nonce (pp_State p) \<Longrightarrow> recorded c' n d"
    by (auto simp: c' NoteSigned_def recorded_def)
qed

lemma acceptMutate_facts:
  assumes "acceptMutate cr ps k scr raw complete c = Inr c'" "wfChannel c"
    and scr: "wireOK (sr_State scr)" "wfTransition (sr_Transition scr)" "ss_State complete = sr_State scr"
    and len: "length k = 32" "length raw = 32"
  shows "advances cr c c'" "ch_Pending c' = ch_Pending c" "recorded c' (st_Nonce (sr_State scr)) raw"
    "recorded c n d \<Longrightarrow> n \<noteq> st_Nonce (sr_State scr) \<Longrightarrow> recorded c' n d"
proof -
  obtain c1 where acc: "Accept cr c complete = Inr c1" and c': "c' = NotePayment
       (NoteSigned (NoteApplied c1 k (st_Nonce (sr_State scr))) (st_Nonce (sr_State scr)) raw)
       (outcomeRecord k (sr_Transition scr) True (st_Nonce (sr_State scr)) (ps_now ps))"
    using assms(1) by (auto simp: acceptMutate_def bindR_Inr)
  have w: "wireOK (ss_State complete)" using scr(1,3) by simp
  have wf1: "wfChannel c1" using wfChannel_Accept [OF acc assms(2) w] .
  then have "wfChannel c'"
    unfolding c' using scr(2) len
    by (intro wfChannel_NotePayment wfChannel_NoteSigned wfChannel_NoteApplied) (simp_all add: wfTransition_def)
  then show "advances cr c c'"
    by (intro advances_note [OF advances_Accept [OF acc assms(2) w]]) (simp_all add: c' sameChannel_def note_frames)
  have n1: "latestNonce c1 = st_Nonce (sr_State scr)"
    using Accept_latest [OF acc] scr(3) by simp
  show "ch_Pending c' = ch_Pending c"
    using Accept_frame(10) [OF acc] by (simp add: c' note_frames)
  show "recorded c' (st_Nonce (sr_State scr)) raw"
    using n1 by (simp add: c' note_frames recorded_def)
  assume "recorded c n d" "n \<noteq> st_Nonce (sr_State scr)"
  moreover from this have "recorded c1 n d"
    using ledgerKept_Accept [OF acc] by (simp add: ledgerKept_def)
  ultimately show "recorded c' n d"
    by (auto simp: c' note_frames recorded_def)
qed

subsection \<open>The steps of a node\<close>

text \<open>
  A call in progress, after the section that read the snapshot and before its commit: a call of \<^verbatim>\<open>Propose\<close>
  with what it prepared, a call of \<^verbatim>\<open>HandlePropose\<close> with what it will countersign, any other handler with
  the change it is about to commit.
\<close>

datatype Call =
    Proposing PeerSession bytes32 Channel Prepared
  | Countersigning PeerSession Accepting
  | Changing bytes32 "Channel \<Rightarrow> chan_error + Channel"

fun prepared :: "Prepared \<Rightarrow> PendingProposal" where
  "prepared (Resend p) = p"
| "prepared (Fresh p raw) = p"

fun signsAt :: "Call \<Rightarrow> bytes32 option" where
  \<comment> \<open>the channel on which a call has made a signature that its commit has yet to record\<close>
  "signsAt (Proposing ps i ch (Fresh p raw)) = Some i"
| "signsAt (Proposing ps i ch (Resend p)) = None"
| "signsAt (Countersigning ps a) = Some (ac_ID a)"
| "signsAt (Changing i f) = None"

definition signing :: "Call list \<Rightarrow> bytes32 list" where
  "signing F = List.map_filter signsAt F"

type_synonym run = "Node \<times> Call list \<times> siglog"

text \<open>
  The steps. A call begins by reading the store and ends with its commit, and between the two the others go
  on; \<open>propose\<close> and \<open>countersign\<close> ask that no other call has signed on the channel and not committed yet.
  A proposal is released when \<^verbatim>\<open>proposeCommit\<close> returns it, made afresh or sent again; a counter-signature is
  taken as released when its commit succeeds. Operations that hold the store's lock are one step. A restart
  loses the calls in progress, at any point.
\<close>

inductive nodeStep :: "crypto \<Rightarrow> run \<Rightarrow> run \<Rightarrow> bool" for cr where
  propose: "length intent = 32 \<Longrightarrow> wfTransition tr \<Longrightarrow> StoreGet (nd_store nd) i = Some ch \<Longrightarrow>
    proposePrepare cr ps ch intent tr = Inr prep \<Longrightarrow> signsAt (Proposing ps i ch prep) = Some i \<longrightarrow> i \<notin> set (signing F) \<Longrightarrow>
    nodeStep cr (nd, F, L) (nd, Proposing ps i ch prep # F, L)"
| proposed: "Proposing ps i ch prep \<in> set F \<Longrightarrow> proposeCommit ps w (nd_store nd) i ch prep = (r, s') \<Longrightarrow>
    nodeStep cr (nd, F, L) (nd\<lparr>nd_store := s'\<rparr>, remove1 (Proposing ps i ch prep) F,
      if isl r then L else insert (i, st_Nonce (pp_State (prepared prep)), proposalDigest cr ch (prepared prep)) L)"
| countersign: "acceptRead cr ps wv nd m = (Inr a, nd1) \<Longrightarrow> ac_ID a \<notin> set (signing F) \<Longrightarrow>
    nodeStep cr (nd, F, L) (nd1, Countersigning ps a # F, L)"
| refused: "acceptRead cr ps wv nd m = (Inl reply, nd1) \<Longrightarrow> nodeStep cr (nd, F, L) (nd1, F, L)"
| countersigned: "Countersigning ps a \<in> set F \<Longrightarrow> acceptCommit cr ps w (nd_store nd) a = (reply, s') \<Longrightarrow>
    fst (StoreUpdate w (nd_store nd) (ac_ID a) (acceptChange cr ps a)) = r \<Longrightarrow>
    nodeStep cr (nd, F, L) (nd\<lparr>nd_store := s'\<rparr>, remove1 (Countersigning ps a) F,
      if isl r then L else insert (ac_ID a, st_Nonce (sr_State (ac_Screened a)),
        acceptRaw cr (ac_Snapshot a) (ac_Screened a)) L)"
| handle: "Some (i, f) \<in> {acceptedChange cr ps (nd_store nd) m, responseChange cr ps (nd_store nd) m,
      conflictChange cr (nd_store nd) m} \<Longrightarrow>
    nodeStep cr (nd, F, L) (nd, Changing i f # F, L)"
| handled: "Changing i f \<in> set F \<Longrightarrow>
    nodeStep cr (nd, F, L) (nd\<lparr>nd_store := snd (StoreUpdate w (nd_store nd) i f)\<rparr>, remove1 (Changing i f) F, L)"
| rejected: "nodeStep cr (nd, F, L) (nd\<lparr>nd_store := snd (HandleReject ps w (nd_store nd) m)\<rparr>, F, L)"
| accept: "wireOK (ss_State cand) \<Longrightarrow>
    nodeStep cr (nd, F, L) (nd\<lparr>nd_store := snd (StoreAccept cr w (nd_store nd) i cand)\<rparr>, F, L)"
| noted: "wfRecord r \<Longrightarrow>
    nodeStep cr (nd, F, L) (nd\<lparr>nd_store := snd (StoreUpdate w (nd_store nd) i (\<lambda>c. Inr (NotePayment c r)))\<rparr>, F, L)"
| payout: "nodeStep cr (nd, F, L)
      (nd\<lparr>nd_store := snd (StoreUpdate w (nd_store nd) i (\<lambda>c. Inr (c\<lparr>ch_Payout := g c\<rparr>)))\<rparr>, F, L)"
| track: "wfAddr (oc_PartyA occ) \<Longrightarrow> wfAddr (oc_PartyB occ) \<Longrightarrow> wfAddr contract \<Longrightarrow>
    nodeStep cr (nd, F, L) (nd\<lparr>nd_store := snd (TrackFromChain cr w (nd_store nd) chainID contract occ)\<rparr>, F, L)"
| refresh: "nodeStep cr (nd, F, L) (nd\<lparr>nd_store := snd (RefreshFromChain w (nd_store nd) occ)\<rparr>, F, L)"
| release: "nodeStep cr (nd, F, L) (nd\<lparr>nd_store := snd (clearReconcile removeOK (nd_store nd) i)\<rparr>, F, L)"
| restart: "OpenStore cr (sto_disk (nd_store nd)) = Inr s' \<Longrightarrow>
    nodeStep cr (nd, F, L) (nd\<lparr>nd_store := s', nd_vault := v\<rparr>, [], L)"

text \<open>Run without interruption, the two signing calls are two steps each.\<close>

lemma Propose_steps:
  assumes "length intent = 32" "wfTransition tr" "StoreGet (nd_store nd) i = Some ch"
    "proposePrepare cr ps ch intent tr = Inr prep" "Propose cr ps w (nd_store nd) i intent tr = (Inr m, s')"
  shows "(nodeStep cr)\<^sup>*\<^sup>* (nd, [], L) (nd\<lparr>nd_store := s'\<rparr>, [],
    insert (i, st_Nonce (pp_State (prepared prep)), proposalDigest cr ch (prepared prep)) L)"
proof -
  have "proposeCommit ps w (nd_store nd) i ch prep = (Inr m, s')"
    using assms(3-5) by (simp add: Propose_def)
  from nodeStep.proposed [OF _ this, of "[Proposing ps i ch prep]"]
  have "nodeStep cr (nd, [Proposing ps i ch prep], L) (nd\<lparr>nd_store := s'\<rparr>, [],
      insert (i, st_Nonce (pp_State (prepared prep)), proposalDigest cr ch (prepared prep)) L)" by simp
  moreover have "nodeStep cr (nd, [], L) (nd, [Proposing ps i ch prep], L)"
    by (rule nodeStep.propose [OF assms(1-4)]) (simp add: signing_def map_filter_simps)
  ultimately show ?thesis by (meson converse_rtranclp_into_rtranclp r_into_rtranclp)
qed

lemma HandlePropose_steps:
  assumes "acceptRead cr ps wv nd m = (Inr a, nd1)"
    "fst (StoreUpdate w (nd_store nd1) (ac_ID a) (acceptChange cr ps a)) = Inr ()"
  shows "(nodeStep cr)\<^sup>*\<^sup>* (nd, [], L) (snd (HandlePropose cr ps w wv nd m), [],
    insert (ac_ID a, st_Nonce (sr_State (ac_Screened a)), acceptRaw cr (ac_Snapshot a) (ac_Screened a)) L)"
proof -
  obtain reply s' where com: "acceptCommit cr ps w (nd_store nd1) a = (reply, s')" by force
  from nodeStep.countersigned [OF _ com assms(2), of "[Countersigning ps a]"]
  have "nodeStep cr (nd1, [Countersigning ps a], L) (nd1\<lparr>nd_store := s'\<rparr>, [],
      insert (ac_ID a, st_Nonce (sr_State (ac_Screened a)), acceptRaw cr (ac_Snapshot a) (ac_Screened a)) L)" by simp
  moreover have "nodeStep cr (nd, [], L) (nd1, [Countersigning ps a], L)"
    by (rule nodeStep.countersign [OF assms(1)]) (simp add: signing_def map_filter_simps)
  moreover have "snd (HandlePropose cr ps w wv nd m) = nd1\<lparr>nd_store := s'\<rparr>"
    using assms(1) com by (simp add: HandlePropose_def)
  ultimately show ?thesis by (simp add: rtranclp.rtrancl_into_rtrancl)
qed

subsection \<open>The invariant of a run\<close>

definition frozen :: "siglog \<Rightarrow> bytes32 \<Rightarrow> u64 \<Rightarrow> bytes32 \<Rightarrow> bool" where
  "frozen M i n raw \<longleftrightarrow> (\<forall>d. (i, n, d) \<in> M \<longrightarrow> n \<noteq> 0 \<longrightarrow> d = raw)"

definition sameIn :: "Store \<Rightarrow> bytes32 \<Rightarrow> Channel \<Rightarrow> bool" where
  "sameIn s i ch \<longleftrightarrow> (\<exists>c. lookupCh s i = Some c \<and> ch_ChainID c = ch_ChainID ch \<and> ch_Contract c = ch_Contract ch)"

fun soundCall :: "crypto \<Rightarrow> Call \<Rightarrow> bool" where
  \<comment> \<open>what a call will commit has the form the store can read back\<close>
  "soundCall cr (Proposing ps i ch (Fresh p raw)) \<longleftrightarrow> wfPending p \<and> raw = proposalDigest cr ch p"
| "soundCall cr (Proposing ps i ch (Resend p)) \<longleftrightarrow> True"
| "soundCall cr (Countersigning ps a) \<longleftrightarrow> wireOK (sr_State (ac_Screened a)) \<and> wfTransition (sr_Transition (ac_Screened a))"
| "soundCall cr (Changing i f) \<longleftrightarrow> safe cr f"

fun callOK :: "crypto \<Rightarrow> siglog \<Rightarrow> Store \<Rightarrow> Call \<Rightarrow> bool" where
  "callOK cr M s (Proposing ps i ch (Fresh p raw)) \<longleftrightarrow> frozen M i (st_Nonce (pp_State p)) raw \<and> sameIn s i ch"
| "callOK cr M s (Proposing ps i ch (Resend p)) \<longleftrightarrow> (i, st_Nonce (pp_State p), proposalDigest cr ch p) \<in> M"
| "callOK cr M s (Countersigning ps a) \<longleftrightarrow> frozen M (ac_ID a) (st_Nonce (sr_State (ac_Screened a)))
     (acceptRaw cr (ac_Snapshot a) (ac_Screened a))"
| "callOK cr M s (Changing i f) \<longleftrightarrow> True"

definition pendingsIn :: "crypto \<Rightarrow> siglog \<Rightarrow> Store \<Rightarrow> bool" where
  "pendingsIn cr M s \<longleftrightarrow> (\<forall>i c p. lookupCh s i = Some c \<longrightarrow> ch_Pending c = Some p \<longrightarrow>
     (i, st_Nonce (pp_State p), proposalDigest cr c p) \<in> M)"

text \<open>
  The log of the invariant is larger than the log of the run: it also holds the outstanding proposals in
  memory, which a call may send again.
\<close>

definition storeInv :: "crypto \<Rightarrow> siglog \<Rightarrow> Store \<Rightarrow> bool" where
  "storeInv cr M s \<longleftrightarrow> consistent M \<and> i4.inv cr M s \<and> pendingsIn cr M s"

definition nodeInv :: "crypto \<Rightarrow> run \<Rightarrow> bool" where
  "nodeInv cr x \<longleftrightarrow> (case x of (nd, F, L) \<Rightarrow> \<exists>M. L \<subseteq> M \<and> storeInv cr M (nd_store nd) \<and>
     (\<forall>k \<in> set F. soundCall cr k \<and> callOK cr M (nd_store nd) k) \<and> distinct (signing F))"

lemma frozen_insert: "frozen M i n raw \<Longrightarrow> frozen (insert (i, n, raw) M) i n raw"
  by (auto simp: frozen_def)

lemma consistent_insert: "consistent M \<Longrightarrow> frozen M i n raw \<Longrightarrow> consistent (insert (i, n, raw) M)"
  by (auto simp: consistent_def frozen_def)

lemma callOK_mono:
  assumes "callOK cr M s k" "\<And>j ch. sameIn s j ch \<Longrightarrow> sameIn s' j ch"
    "M' = M \<or> M' = insert (i, n, d) M \<and> signsAt k \<noteq> Some i"
  shows "callOK cr M' s' k"
  using assms by (cases k rule: signsAt.cases) (auto simp: frozen_def)

lemma signing_remove:
  "distinct (signing F) \<Longrightarrow> distinct (signing (remove1 k F))"
  "distinct (signing F) \<Longrightarrow> k \<in> set F \<Longrightarrow> k' \<in> set (remove1 k F) \<Longrightarrow> signsAt k = Some i \<Longrightarrow> signsAt k' \<noteq> Some i"
proof -
  have set: "set (signing F) = {i. \<exists>k \<in> set F. signsAt k = Some i}" for F
    by (force simp: signing_def map_filter_def)
  show "distinct (signing F) \<Longrightarrow> distinct (signing (remove1 k F))"
  proof (induction F)
    case (Cons x F)
    have "set (signing (remove1 k F)) \<subseteq> set (signing F)"
      using set_remove1_subset [of k F] by (auto simp: set)
    with Cons show ?case
      by (cases "signsAt x") (auto simp: signing_def map_filter_simps)
  qed simp
  show "distinct (signing F) \<Longrightarrow> k \<in> set F \<Longrightarrow> k' \<in> set (remove1 k F) \<Longrightarrow> signsAt k = Some i \<Longrightarrow> signsAt k' \<noteq> Some i"
  proof (induction F)
    case (Cons x F)
    show ?case
    proof (cases "x = k")
      case True
      then have "i \<notin> set (signing F)"
        using Cons.prems(1,4) by (simp add: signing_def map_filter_simps)
      with Cons.prems(3) True show ?thesis by (auto simp: set)
    next
      case False
      then have k: "k \<in> set F" and k': "k' = x \<or> k' \<in> set (remove1 k F)" and d: "distinct (signing F)"
        using Cons.prems by (auto simp: signing_def map_filter_simps split: option.splits)
      have "i \<in> set (signing F)" using k Cons.prems(4) by (auto simp: set)
      then have "signsAt x \<noteq> Some i"
        using Cons.prems(1) by (auto simp: signing_def map_filter_simps)
      with k' Cons.IH [OF d k _ Cons.prems(4)] show ?thesis by blast
    qed
  qed simp
qed

text \<open>A change under the invariant, with or without a new entry of the log.\<close>

lemma inv_good: "storeInv cr M s \<Longrightarrow> lookupCh s i = Some c \<Longrightarrow> good cr M i c"
  by (simp add: storeInv_def i4.inv_def storeHolds_def)

lemma inv_rd: "storeInv cr M s \<Longrightarrow> rd.inv cr s"
  unfolding storeInv_def i4.inv_def rd.inv_def storeHolds_def good_def by blast

lemma inv_snapshot:
  assumes "storeInv cr M s" "StoreGet s i = Some ch"
  obtains c where "lookupCh s i = Some c" "ch = c\<lparr>ch_NeedsReconcile := NeedsReconcile s i\<rparr>" "good cr M i c"
    "wfChannel ch" "sameIn s i ch"
proof -
  obtain c where c: "lookupCh s i = Some c" "ch = c\<lparr>ch_NeedsReconcile := NeedsReconcile s i\<rparr>"
    using assms(2) by (auto simp: sto.snapshot_live)
  have "good cr M i c" using inv_good [OF assms(1) c(1)] .
  moreover from this have "wfChannel ch" using c(2) by (simp add: good_def readable_def)
  moreover have "sameIn s i ch" using c by (simp add: sameIn_def)
  ultimately show thesis using c that by blast
qed

lemma sameIn_change:
  assumes "sameIn s j ch" "\<And>c c'. lookupCh s i = Some c \<Longrightarrow> f c = Inr c' \<Longrightarrow> sameChannel c c'"
  shows "sameIn (snd (StoreUpdate w s i f)) j ch"
proof (cases rule: sto.commit_cases [of w s i f])
  case fail
  with assms(1) show ?thesis by (simp add: sameIn_def)
next
  case (ok c c')
  then have "sameChannel c c'" using assms(2) by blast
  with assms(1) ok show ?thesis by (auto simp: sameIn_def sameChannel_def)
qed

lemma change_inv:
  assumes inv: "storeInv cr M s"
    and f: "\<And>c c'. lookupCh s i = Some c \<Longrightarrow> good cr M i c \<Longrightarrow> f c = Inr c' \<Longrightarrow> good cr M i c' \<and>
      (\<forall>p. ch_Pending c' = Some p \<longrightarrow> (i, st_Nonce (pp_State p), proposalDigest cr c' p) \<in> M)"
  shows "storeInv cr M (snd (StoreUpdate w s i f))"
proof -
  have h: "i4.inv cr M s" using inv by (simp add: storeInv_def)
  have "i4.inv cr M (snd (StoreUpdate w s i f))"
    using f by (intro i4.inv_update [OF h]) blast
  moreover have "pendingsIn cr M (snd (StoreUpdate w s i f))"
  proof (cases rule: sto.commit_cases [of w s i f])
    case fail
    with inv show ?thesis by (simp add: storeInv_def pendingsIn_def)
  next
    case (ok c c')
    with f [OF ok(2) inv_good [OF inv ok(2)] ok(3)] inv show ?thesis
      by (auto simp: storeInv_def pendingsIn_def)
  qed
  ultimately show ?thesis using inv by (simp add: storeInv_def)
qed

lemma safe_inv:
  assumes inv: "storeInv cr M s" and f: "safe cr f"
  shows "storeInv cr M (snd (StoreUpdate w s i f))"
    and "sameIn s j ch \<Longrightarrow> sameIn (snd (StoreUpdate w s i f)) j ch"
proof -
  have pend: "(i, st_Nonce (pp_State p), proposalDigest cr c' p) \<in> M"
    if "lookupCh s i = Some c" "f c = Inr c'" "ch_Pending c' = Some p" for c c' p
  proof -
    note g = good_safe [OF inv_good [OF inv that(1)] f that(2)]
    have "proposalDigest cr c' p = proposalDigest cr c p"
      using g(2) by (simp add: proposalDigest_def sameChannel_def)
    moreover have "ch_Pending c = Some p" using g(3) that(3) by auto
    ultimately show ?thesis using inv that(1) by (simp add: storeInv_def pendingsIn_def)
  qed
  show "storeInv cr M (snd (StoreUpdate w s i f))"
    using good_safe(1) [OF _ f] pend by (intro change_inv [OF inv]) blast
  show "sameIn s j ch \<Longrightarrow> sameIn (snd (StoreUpdate w s i f)) j ch"
    using good_safe(2) [OF inv_good [OF inv] f] by (intro sameIn_change) blast+
qed

lemma signing_good:
  assumes c: "good cr M i c" and adv: "advances cr c c'" and raw: "frozen M i n raw" "recorded c' n raw"
    and keep: "\<And>m d. recorded c m d \<Longrightarrow> m \<noteq> n \<Longrightarrow> recorded c' m d"
    and pend: "\<And>p. ch_Pending c' = Some p \<Longrightarrow> st_Nonce (pp_State p) = n \<and> proposalDigest cr c' p = raw \<or>
      ch_Pending c = Some p \<and> (i, st_Nonce (pp_State p), proposalDigest cr c p) \<in> M"
  shows "good cr (insert (i, n, raw) M) i c'"
    and "\<And>p. ch_Pending c' = Some p \<Longrightarrow> (i, st_Nonce (pp_State p), proposalDigest cr c' p) \<in> insert (i, n, raw) M"
proof -
  have same: "proposalDigest cr c' p = proposalDigest cr c p" for p
    using adv by (simp add: advances_def sameChannel_def proposalDigest_def)
  show inM: "\<And>p. ch_Pending c' = Some p \<Longrightarrow> (i, st_Nonce (pp_State p), proposalDigest cr c' p) \<in> insert (i, n, raw) M"
    using pend same by auto
  have "covers (insert (i, n, raw) M) i c'"
    unfolding covers_def
  proof (intro allI impI)
    fix m d assume "(i, m, d) \<in> insert (i, n, raw) M" "m \<noteq> 0"
    with raw keep c show "recorded c' m d"
      by (cases "m = n") (auto simp: frozen_def good_def covers_def)
  qed
  moreover have "pendingOK cr (insert (i, n, raw) M) i c'"
    unfolding pendingOK_def
  proof (intro allI impI)
    fix p assume p: "ch_Pending c' = Some p" "st_Nonce (pp_State p) \<noteq> 0"
    let ?m = "st_Nonce (pp_State p)" and ?d = "proposalDigest cr c' p"
    show "recorded c' ?m ?d \<and> (\<forall>d. (i, ?m, d) \<in> insert (i, n, raw) M \<longrightarrow> d = ?d)"
    proof (cases "?m = n")
      case True
      then have "?d = raw"
        using pend [OF p(1)] raw(1) p(2) same by (auto simp: frozen_def)
      with True raw p(2) show ?thesis by (auto simp: frozen_def)
    next
      case False
      then have "ch_Pending c = Some p" using pend [OF p(1)] by blast
      with c p(2) have "recorded c ?m ?d" "\<forall>d. (i, ?m, d) \<in> M \<longrightarrow> d = ?d"
        by (auto simp: good_def pendingOK_def same)
      with keep False show ?thesis by auto
    qed
  qed
  ultimately show "good cr (insert (i, n, raw) M) i c'"
    using readable_advances(1) [OF adv] c by (simp add: good_def)
qed

lemma signing_inv:
  assumes inv: "storeInv cr M s" and fr: "frozen M i n raw"
    and f: "\<And>c c'. lookupCh s i = Some c \<Longrightarrow> f c = Inr c' \<Longrightarrow> good cr (insert (i, n, raw) M) i c' \<and> sameChannel c c' \<and>
      (\<forall>p. ch_Pending c' = Some p \<longrightarrow> (i, st_Nonce (pp_State p), proposalDigest cr c' p) \<in> insert (i, n, raw) M)"
  shows "storeInv cr (if isl (fst (StoreUpdate w s i f)) then M else insert (i, n, raw) M) (snd (StoreUpdate w s i f))"
    and "sameIn s j ch \<Longrightarrow> sameIn (snd (StoreUpdate w s i f)) j ch"
proof -
  have h: "i4.inv cr M s" using inv by (simp add: storeInv_def)
  show "storeInv cr (if isl (fst (StoreUpdate w s i f)) then M else insert (i, n, raw) M) (snd (StoreUpdate w s i f))"
  proof (cases rule: sto.commit_cases [of w s i f])
    case (fail e)
    have "i4.inv cr M (snd (StoreUpdate w s i f))"
      using f good_subset [of cr "insert (i, n, raw) M" i _ M] by (intro i4.inv_update [OF h]) blast
    with fail inv show ?thesis by (simp add: storeInv_def pendingsIn_def)
  next
    case (ok c c')
    note g = f [OF ok(2,3)]
    have com: "fst (commitCh w s i c') = Inr ()" "snd (StoreUpdate w s i f) = snd (commitCh w s i c')"
      using ok by (auto simp: StoreUpdate_def)
    then have "w = WriteOK"
      by (cases w) (simp_all add: commitCh_def persist_def Let_def)
    with com(2) have s': "snd (StoreUpdate w s i f) = snd (commitCh WriteOK s i c')" by simp
    have "storeHolds (good cr (insert (i, n, raw) M)) (snd (commitCh WriteOK s i c'))"
    proof (rule holds_switch [where P = "good cr M"])
      show "storeHolds (good cr M) s" using h by (simp add: i4.inv_def)
      show "ch_ID c' = i" using g by (simp add: good_def readable_def)
    qed (use g good_other in blast)+
    moreover have "\<forall>j \<in> logged M. lookupCh s j \<noteq> None" using h by (simp add: i4.inv_def)
    then have "\<forall>j \<in> logged (insert (i, n, raw) M). lookupCh (snd (StoreUpdate w s i f)) j \<noteq> None"
      using ok(4) by (auto simp: logged_def)
    ultimately have "i4.inv cr (insert (i, n, raw) M) (snd (StoreUpdate w s i f))"
      by (simp add: i4.inv_def s')
    moreover have "pendingsIn cr (insert (i, n, raw) M) (snd (StoreUpdate w s i f))"
      using inv g ok(4) by (auto simp: storeInv_def pendingsIn_def)
    ultimately show ?thesis
      using inv consistent_insert [OF _ fr] ok(1) by (simp add: storeInv_def)
  qed
  show "sameIn s j ch \<Longrightarrow> sameIn (snd (StoreUpdate w s i f)) j ch"
    using f by (intro sameIn_change) blast+
qed

text \<open>A restart: what the files hold in outstanding proposals joins the log of the invariant.\<close>

lemma restart_inv:
  assumes inv: "storeInv cr M s" and op: "OpenStore cr (sto_disk s) = Inr s'"
  shows "\<exists>M'. M \<subseteq> M' \<and> storeInv cr M' s'"
proof -
  have h: "i4.inv cr M s" and cons: "consistent M" using inv by (simp_all add: storeInv_def)
  have h': "i4.inv cr M s'" using i4.inv_open [OF h] op by auto
  have files: "dk_Files (sto_disk s') = dk_Files (sto_disk s)"
    using op by (auto simp: OpenStore_def bindR_Inr split: prod.splits)
  have hs: "storeHolds (good cr M) s" using h by (simp add: i4.inv_def)
  have look: "lookupCh s' i = map_option (\<lambda>r. projr (decodeChannel r)) (map_of (dk_Files (sto_disk s)) i)" for i
    using i4.open_total [OF hs] op by auto
  define M' where "M' = M \<union> {(i, st_Nonce (pp_State p), proposalDigest cr c p) | i c p.
    lookupCh s' i = Some c \<and> ch_Pending c = Some p}"
  have gc: "good cr M i c" if "lookupCh s' i = Some c" for i c
    using h' that by (simp add: i4.inv_def storeHolds_def)
  have mem: "good cr M' i c" if "lookupCh s' i = Some c" for i c
    by (rule good_extend [OF gc [OF that]]) (use that in \<open>auto simp: M'_def\<close>)
  have disk: "\<exists>d. r = encodeChannel d \<and> good cr M' i d" if r: "map_of (dk_Files (sto_disk s)) i = Some r" for i r
  proof -
    obtain d where d: "r = encodeChannel d" "good cr M i d"
      using hs r unfolding storeHolds_def by blast
    then have "lookupCh s' i = Some (normChannel d)"
      using r by (simp add: look decode_encode_channel good_def readable_def)
    then have "good cr M' i d"
      by (intro good_extend [OF d(2)]) (auto simp: M'_def pending_norm)
    with d(1) show ?thesis by blast
  qed
  have "consistent M'"
    unfolding consistent_def
  proof (intro allI impI)
    fix i n d d' assume e: "(i, n, d) \<in> M'" "(i, n, d') \<in> M'" "n \<noteq> 0"
    have own: "(i, n, d) \<in> M \<or> (\<exists>c p. lookupCh s' i = Some c \<and> ch_Pending c = Some p \<and>
        n = st_Nonce (pp_State p) \<and> d = proposalDigest cr c p)" if "(i, n, d) \<in> M'" for d
      using that by (auto simp: M'_def)
    have pend: "d = d'" if "lookupCh s' i = Some c" "ch_Pending c = Some p" "n = st_Nonce (pp_State p)"
        "d = proposalDigest cr c p" "(i, n, d') \<in> M'" for c p d d'
      using mem [OF that(1)] that e(3) by (simp add: good_def pendingOK_def)
    show "d = d'"
      using own [OF e(1)] own [OF e(2)] pend [OF _ _ _ _ e(2)] pend [OF _ _ _ _ e(1)] cons e(3)
      unfolding consistent_def by metis
  qed
  moreover have "storeHolds (good cr M') s'"
    using h' mem disk unfolding i4.inv_def storeHolds_def files by blast
  moreover have "\<forall>j \<in> logged M. lookupCh s' j \<noteq> None" using h' by (simp add: i4.inv_def)
  then have "\<forall>j \<in> logged M'. lookupCh s' j \<noteq> None" by (auto simp: logged_def M'_def)
  moreover have "pendingsIn cr M' s'" by (auto simp: pendingsIn_def M'_def)
  ultimately have "storeInv cr M' s'" by (simp add: storeInv_def i4.inv_def)
  moreover have "M \<subseteq> M'" by (auto simp: M'_def)
  ultimately show ?thesis by blast
qed

subsection \<open>Calls begin sound\<close>

lemma prepare_cases:
  assumes "proposePrepare cr ps ch intent tr = Inr prep"
  obtains (again) p where "prep = Resend p" "ch_Pending ch = Some p"
  | (fresh) p raw where "prep = Fresh p raw" "Apply cr tr ch (ps_self ps) = Inr (pp_State p)" "pp_Intent p = intent"
      "pp_Transition p = tr" "raw = proposalDigest cr ch p" "\<not> signedOther ch (st_Nonce (pp_State p)) raw"
      "\<not> ch_NeedsReconcile ch"
proof (cases prep)
  case (Resend p)
  with assms show thesis
    by (intro again) (auto simp: proposePrepare_def Let_def bindR_Inr split: if_splits option.splits)
next
  case (Fresh p raw)
  with assms show thesis
    by (intro fresh)
      (auto simp: proposePrepare_def Let_def bindR_Inr signFor_def proposalDigest_def split: if_splits option.splits)
qed

lemma screen_facts:
  assumes "screenProposal cr ps i ch body = Inr scr"
  shows "wireOK (sr_State scr)" "wfTransition (sr_Transition scr)" "st_Nonce (sr_State scr) = latestNonce ch + 1"
proof -
  from assms have dec: "decodeStateWire (bp_State body) = Inr (sr_State scr)"
    and tr: "decodeTransitionWire (bp_Transition body) = Inr (sr_Transition scr)"
    and mt: "\<not> isl (Matches cr (sr_Transition scr) ch (otherParty ch (ps_self ps)) (sr_State scr))"
    by (auto simp: screenProposal_def Let_def split: if_splits option.splits sum.splits)
  show "wireOK (sr_State scr)" "wfTransition (sr_Transition scr)"
    using decodeStateWire_D [OF dec] decodeTransition_wf [OF tr] by simp_all
  from mt obtain want where "Apply cr (sr_Transition scr) ch (otherParty ch (ps_self ps)) = Inr want"
    "StateEqual want (sr_State scr) = Inr ()"
    by (cases "Matches cr (sr_Transition scr) ch (otherParty ch (ps_self ps)) (sr_State scr)")
      (auto simp: Matches_def bindR_Inr)
  then show "st_Nonce (sr_State scr) = latestNonce ch + 1"
    using Apply_frame(2) by (auto simp: StateEqual_def split: if_splits)
qed

lemma learnFirst_store: "nd_store (snd (learnFirst cr wv nd tr)) = nd_store nd"
  by (simp add: learnFirst_def split: option.split prod.split)

lemma assemble_state [simp]: "ss_State (assemble ch st a p b) = st"
  by (simp add: assemble_def)

lemma acceptRead_store:
  assumes "acceptRead cr ps wv nd m = (r, nd1)"
  shows "nd_store nd1 = nd_store nd"
proof (cases "\<exists>i body ch scr. parseBytes32 (ms_Channel m) = Inr i \<and> ms_Body m = BodyPropose body \<and>
    StoreGet (nd_store nd) i = Some ch \<and> screenProposal cr ps i ch body = Inr scr")
  case False
  with assms show ?thesis
    by (auto simp: acceptRead_def split: sum.splits Body.splits option.splits)
next
  case True
  then obtain i body ch scr where pre: "parseBytes32 (ms_Channel m) = Inr i" "ms_Body m = BodyPropose body"
    "StoreGet (nd_store nd) i = Some ch" "screenProposal cr ps i ch body = Inr scr" by blast
  with assms learnFirst_store [of cr wv nd "sr_Transition scr"] show ?thesis
    by (auto simp: acceptRead_def Let_def split: prod.splits sum.splits if_splits)
qed

lemma acceptRead_facts:
  assumes "acceptRead cr ps wv nd m = (Inr a, nd1)"
  shows "StoreGet (nd_store nd) (ac_ID a) = Some (ac_Snapshot a)"
    "\<exists>body. ms_Body m = BodyPropose body \<and> parseBytes32 (ms_Channel m) = Inr (ac_ID a) \<and> ac_Intent a = bp_Intent body \<and>
      screenProposal cr ps (ac_ID a) (ac_Snapshot a) body = Inr (ac_Screened a)"
    "\<not> signedOther (ac_Snapshot a) (st_Nonce (sr_State (ac_Screened a))) (acceptRaw cr (ac_Snapshot a) (ac_Screened a))"
  using assms
  by (auto simp: acceptRead_def Let_def split: sum.splits Body.splits option.splits prod.splits if_splits)

lemma unsigned_frozen:
  assumes g: "good cr M i c" and n: "n = latestNonce c + 1" and so: "\<not> signedOther c n raw"
  shows "frozen M i n raw"
  unfolding frozen_def
proof (intro allI impI)
  fix d assume d: "(i, n, d) \<in> M" "n \<noteq> 0"
  then have "latestNonce c < n" using n nonce_succ_greater [of "latestNonce c"] by simp
  with d g have "ch_Signed c n = Some d"
    by (auto simp: good_def covers_def recorded_def not_le [symmetric])
  with so show "d = raw" by (simp add: signedOther_def HasSigned_def)
qed

lemma propose_begins:
  assumes inv: "storeInv cr M (nd_store nd)" and wf: "length intent = 32" "wfTransition tr"
    and ch: "StoreGet (nd_store nd) i = Some ch" and prep: "proposePrepare cr ps ch intent tr = Inr prep"
  shows "soundCall cr (Proposing ps i ch prep) \<and> callOK cr M (nd_store nd) (Proposing ps i ch prep)"
proof -
  obtain c where c: "lookupCh (nd_store nd) i = Some c" "ch = c\<lparr>ch_NeedsReconcile := NeedsReconcile (nd_store nd) i\<rparr>"
    "good cr M i c" "wfChannel ch" "sameIn (nd_store nd) i ch"
    by (rule inv_snapshot [OF inv ch])
  have dig: "proposalDigest cr ch p = proposalDigest cr c p" for p
    by (simp add: proposalDigest_def c(2))
  show ?thesis
  proof (cases rule: prepare_cases [OF prep])
    case (1 p)
    then show ?thesis
      using inv c(1,2) dig [of p] by (simp add: storeInv_def pendingsIn_def)
  next
    case (2 p raw)
    have "wfPending p"
      using Apply_wireOK [OF 2(2) c(4) wf(2)] wf 2(3,4) by (simp add: wfPending_def wfTransition_def)
    moreover have "frozen M i (st_Nonce (pp_State p)) raw"
      using Apply_frame(2) [OF 2(2)] 2(6) c(2)
      by (intro unsigned_frozen [OF c(3)]) (simp_all add: signedOther_def HasSigned_def)
    ultimately show ?thesis
      using 2(1,5) c(5) by simp
  qed
qed

lemma countersign_begins:
  assumes inv: "storeInv cr M (nd_store nd)" and read: "acceptRead cr ps wv nd m = (Inr a, nd1)"
  shows "soundCall cr (Countersigning ps a) \<and> callOK cr M (nd_store nd1) (Countersigning ps a)"
proof -
  note f = acceptRead_facts [OF read]
  obtain c where c: "lookupCh (nd_store nd) (ac_ID a) = Some c"
    "ac_Snapshot a = c\<lparr>ch_NeedsReconcile := NeedsReconcile (nd_store nd) (ac_ID a)\<rparr>" "good cr M (ac_ID a) c"
    by (rule inv_snapshot [OF inv f(1)])
  obtain body where scr: "screenProposal cr ps (ac_ID a) (ac_Snapshot a) body = Inr (ac_Screened a)"
    using f(2) by blast
  have "frozen M (ac_ID a) (st_Nonce (sr_State (ac_Screened a))) (acceptRaw cr (ac_Snapshot a) (ac_Screened a))"
    using f(3) c(2) screen_facts(3) [OF scr]
    by (intro unsigned_frozen [OF c(3)]) (simp_all add: signedOther_def HasSigned_def)
  then show ?thesis
    using screen_facts(1,2) [OF scr] by simp
qed

lemma handle_begins:
  assumes inv: "rd.inv cr s"
    and f: "Some (i, f) \<in> {acceptedChange cr ps s m, responseChange cr ps s m, conflictChange cr s m}"
  shows "safe cr f"
proof -
  have wfp: "safe cr (completeMutate cr ps p (assemble ch (pp_State p) a b d))"
    if "wfChannel ch" "ch_Pending ch = Some p" for ch p a b d
    using wfPending_of [OF that] by (intro safe_completeMutate) (simp_all add: wfPending_def)
  have wf: "wfChannel ch" if "StoreGet s j = Some ch" for j ch
    using that rd_readable [OF inv] by (auto simp: sto.snapshot_live readable_def)
  from f consider (a) "acceptedChange cr ps s m = Some (i, f)" | (r) "responseChange cr ps s m = Some (i, f)"
    | (c) "conflictChange cr s m = Some (i, f)" by auto
  then show ?thesis
  proof cases
    case a
    then show ?thesis
      by (auto simp: acceptedChange_def split: sum.splits Body.splits option.splits if_splits
          intro!: wfp dest: wf)
  next
    case r
    have "wireOK (ss_State (ch_Latest ch))" if "StoreGet s j = Some ch" for j ch
      using wf [OF that] by (simp add: wfChannel_def)
    with r show ?thesis
      by (auto simp: responseChange_def split: sum.splits Body.splits option.splits if_splits
          intro!: safe_adoptMutate safe_conflictMutate dest: decodeSigned_wf)
  next
    case c
    then show ?thesis
      by (auto simp: conflictChange_def split: sum.splits Body.splits option.splits if_splits
          intro!: safe_conflictMutate dest: decodeSigned_wf)
  qed
qed

subsection \<open>Every step keeps the invariant\<close>

lemma length_proposalDigest [simp]: "length (proposalDigest cr c p) = 32"
  by (simp add: proposalDigest_def)

lemma length_acceptRaw [simp]: "length (acceptRaw cr c scr) = 32"
  by (simp add: acceptRaw_def)

lemma acceptChange_facts:
  assumes "acceptChange cr ps a c = Inr c'" "wfChannel c" "soundCall cr (Countersigning ps a)"
  shows "advances cr c c'" "ch_Pending c' = ch_Pending c"
    "recorded c' (st_Nonce (sr_State (ac_Screened a))) (acceptRaw cr (ac_Snapshot a) (ac_Screened a))"
    "recorded c n d \<Longrightarrow> n \<noteq> st_Nonce (sr_State (ac_Screened a)) \<Longrightarrow> recorded c' n d"
  using acceptMutate_facts [OF assms(1) [unfolded acceptChange_def] assms(2)] assms(3) by simp_all

lemma proposeCommit_store:
  "proposeCommit ps w s i ch (Fresh p raw) = (r, s') \<Longrightarrow>
   s' = snd (StoreUpdate w s i (proposeMutate ps p raw)) \<and> isl r = isl (fst (StoreUpdate w s i (proposeMutate ps p raw)))"
  "proposeCommit ps w s i ch (Resend p) = (r, s') \<Longrightarrow> s' = s \<and> \<not> isl r"
  by (auto simp: proposeCommit_def split: prod.splits sum.splits)

lemma acceptCommit_store:
  "acceptCommit cr ps w s a = (r, s') \<Longrightarrow> s' = snd (StoreUpdate w s (ac_ID a) (acceptChange cr ps a))"
  by (auto simp: acceptCommit_def split: prod.splits sum.splits option.splits)

lemma propose_commits:
  assumes inv: "storeInv cr M s" and ok: "soundCall cr (Proposing ps i ch (Fresh p raw))"
    "callOK cr M s (Proposing ps i ch (Fresh p raw))"
    and u: "u = StoreUpdate w s i (proposeMutate ps p raw)"
  shows "storeInv cr (if isl (fst u) then M else insert (i, st_Nonce (pp_State p), raw) M) (snd u)"
    and "sameIn s j ch' \<Longrightarrow> sameIn (snd u) j ch'"
proof -
  have fr: "frozen M i (st_Nonce (pp_State p)) raw" and same: "sameIn s i ch" and wfp: "wfPending p"
    and raw: "raw = proposalDigest cr ch p" using ok by simp_all
  have step: "good cr (insert (i, st_Nonce (pp_State p), raw) M) i c' \<and> sameChannel c c' \<and>
      (\<forall>p'. ch_Pending c' = Some p' \<longrightarrow>
        (i, st_Nonce (pp_State p'), proposalDigest cr c' p') \<in> insert (i, st_Nonce (pp_State p), raw) M)"
    if c: "lookupCh s i = Some c" "proposeMutate ps p raw c = Inr c'" for c c'
  proof -
    have g: "good cr M i c" using inv_good [OF inv c(1)] .
    then have "wfChannel c" by (simp add: good_def readable_def)
    note f = proposeMutate_facts [OF c(2) this wfp]
    have len: "length raw = 32" by (simp add: raw)
    have sc: "sameChannel c c'" using f(1) [OF len] by (simp add: advances_def)
    then have "proposalDigest cr c' p = raw"
      using same c(1) by (auto simp: raw proposalDigest_def sameIn_def sameChannel_def)
    then have pend: "ch_Pending c' = Some p' \<Longrightarrow> st_Nonce (pp_State p') = st_Nonce (pp_State p) \<and>
        proposalDigest cr c' p' = raw \<or> ch_Pending c = Some p' \<and> (i, st_Nonce (pp_State p'), proposalDigest cr c p') \<in> M" for p'
      using f(2) [OF len] by simp
    note sg = signing_good [OF g f(1) [OF len] fr f(3) [OF len] f(4) [OF len] pend]
    from sg sc show ?thesis by blast
  qed
  show "storeInv cr (if isl (fst u) then M else insert (i, st_Nonce (pp_State p), raw) M) (snd u)"
    unfolding u by (rule signing_inv(1) [OF inv fr]) (rule step)
  show "sameIn s j ch' \<Longrightarrow> sameIn (snd u) j ch'"
    unfolding u by (erule signing_inv(2) [OF inv fr, rotated]) (rule step)
qed

lemma countersign_commits:
  assumes inv: "storeInv cr M s" and ok: "soundCall cr (Countersigning ps a)" "callOK cr M s (Countersigning ps a)"
    and u: "u = StoreUpdate w s (ac_ID a) (acceptChange cr ps a)"
    and e: "e = (ac_ID a, st_Nonce (sr_State (ac_Screened a)), acceptRaw cr (ac_Snapshot a) (ac_Screened a))"
  shows "storeInv cr (if isl (fst u) then M else insert e M) (snd u)"
    and "sameIn s j ch' \<Longrightarrow> sameIn (snd u) j ch'"
proof -
  have fr: "frozen M (ac_ID a) (st_Nonce (sr_State (ac_Screened a))) (acceptRaw cr (ac_Snapshot a) (ac_Screened a))"
    using ok(2) by simp
  have step: "good cr (insert e M) (ac_ID a) c' \<and> sameChannel c c' \<and>
      (\<forall>p'. ch_Pending c' = Some p' \<longrightarrow> (ac_ID a, st_Nonce (pp_State p'), proposalDigest cr c' p') \<in> insert e M)"
    if c: "lookupCh s (ac_ID a) = Some c" "acceptChange cr ps a c = Inr c'" for c c'
  proof -
    have g: "good cr M (ac_ID a) c" using inv_good [OF inv c(1)] .
    then have "wfChannel c" by (simp add: good_def readable_def)
    note f = acceptChange_facts [OF c(2) this ok(1)]
    have pend: "ch_Pending c' = Some p' \<Longrightarrow> st_Nonce (pp_State p') = st_Nonce (sr_State (ac_Screened a)) \<and>
        proposalDigest cr c' p' = acceptRaw cr (ac_Snapshot a) (ac_Screened a) \<or>
        ch_Pending c = Some p' \<and> (ac_ID a, st_Nonce (pp_State p'), proposalDigest cr c p') \<in> M" for p'
      using f(2) inv c(1) by (simp add: storeInv_def pendingsIn_def)
    note sg = signing_good [OF g f(1) fr f(3,4) pend]
    from sg f(1) show ?thesis unfolding e advances_def by blast
  qed
  show "storeInv cr (if isl (fst u) then M else insert e M) (snd u)"
    unfolding u e by (rule signing_inv(1) [OF inv fr]) (rule step [unfolded e])
  show "sameIn s j ch' \<Longrightarrow> sameIn (snd u) j ch'"
    unfolding u by (erule signing_inv(2) [OF inv fr, rotated]) (rule step [unfolded e])
qed

lemma calls_kept:
  assumes "\<forall>k \<in> set F. soundCall cr k \<and> callOK cr M s k" "distinct (signing F)" "k0 \<in> set F"
    and "\<And>j ch. sameIn s j ch \<Longrightarrow> sameIn s' j ch"
    and "M' = M \<or> M' = insert (i, n, d) M \<and> signsAt k0 = Some i"
  shows "(\<forall>k \<in> set (remove1 k0 F). soundCall cr k \<and> callOK cr M' s' k) \<and> distinct (signing (remove1 k0 F))"
proof (intro conjI ballI)
  fix k assume k: "k \<in> set (remove1 k0 F)"
  then have "k \<in> set F" using set_remove1_subset [of k0 F] by blast
  moreover have "signsAt k \<noteq> Some i" if "signsAt k0 = Some i"
    using signing_remove(2) [OF assms(2,3) k that] .
  ultimately show "soundCall cr k" "callOK cr M' s' k"
    using assms(1,4,5) callOK_mono [of cr M s k s' M' i n d] by blast+
qed (rule signing_remove(1) [OF assms(2)])

lemma nodeInv_I:
  assumes "L \<subseteq> M" "storeInv cr M (nd_store nd)" "\<forall>k \<in> set F. soundCall cr k \<and> callOK cr M (nd_store nd) k"
    "distinct (signing F)"
  shows "nodeInv cr (nd, F, L)"
  using assms unfolding nodeInv_def by blast

text \<open>A step that changes the store by a change that signs nothing, the calls in progress going on.\<close>

lemma nodeInv_safe:
  assumes inv: "nodeInv cr (nd, F, L)" and f: "safe cr f"
  shows "nodeInv cr (nd\<lparr>nd_store := snd (StoreUpdate w (nd_store nd) i f)\<rparr>, F, L)"
proof -
  obtain M where M: "L \<subseteq> M" "storeInv cr M (nd_store nd)" "\<forall>k \<in> set F. soundCall cr k \<and> callOK cr M (nd_store nd) k"
    "distinct (signing F)" using inv unfolding nodeInv_def by blast
  have "callOK cr M (snd (StoreUpdate w (nd_store nd) i f)) k" if "k \<in> set F" for k
    using callOK_mono [OF _ safe_inv(2) [OF M(2) f]] M(3) that by blast
  with M safe_inv(1) [OF M(2) f] show ?thesis by (intro nodeInv_I [of L M]) simp_all
qed

lemma nodeInv_track:
  assumes inv: "nodeInv cr (nd, F, L)" and wf: "wfAddr (oc_PartyA occ)" "wfAddr (oc_PartyB occ)" "wfAddr contract"
  shows "nodeInv cr (nd\<lparr>nd_store := snd (TrackFromChain cr w (nd_store nd) chainID contract occ)\<rparr>, F, L)"
proof -
  let ?s = "nd_store nd" and ?s' = "snd (TrackFromChain cr w (nd_store nd) chainID contract occ)"
  obtain M where M: "L \<subseteq> M" "storeInv cr M ?s" "\<forall>k \<in> set F. soundCall cr k \<and> callOK cr M ?s k"
    "distinct (signing F)" using inv unfolding nodeInv_def by blast
  have new: "lookupCh ?s' j = lookupCh ?s j \<or>
      lookupCh ?s j = None \<and> lookupCh ?s' j = Some (trackedChannel chainID contract occ)" for j
    by (auto simp: TrackFromChain_def disk_commitCh)
  have "pendingsIn cr M ?s'"
    unfolding pendingsIn_def
  proof (intro allI impI)
    fix j c p assume c: "lookupCh ?s' j = Some c" "ch_Pending c = Some p"
    then have "lookupCh ?s j = Some c"
      using new [of j] by (auto simp: trackedChannel_def)
    with c(2) M(2) show "(j, st_Nonce (pp_State p), proposalDigest cr c p) \<in> M"
      by (simp add: storeInv_def pendingsIn_def)
  qed
  then have "storeInv cr M ?s'"
    using M(2) wf by (simp add: storeInv_def i4.inv_track)
  moreover have "sameIn ?s' j ch" if "sameIn ?s j ch" for j ch
    using that new [of j] by (auto simp: sameIn_def)
  then have "callOK cr M ?s' k" if "k \<in> set F" for k
    using callOK_mono [of cr M ?s k ?s' M] M(3) that by blast
  ultimately show ?thesis
    using M by (intro nodeInv_I [of L M]) simp_all
qed

lemma commitChange_reject: "snd (HandleReject ps w s m) = s \<or>
    (\<exists>i body. snd (HandleReject ps w s m) = snd (StoreUpdate w s i (rejectMutate ps body)))"
  by (auto simp: HandleReject_def split: sum.split Body.split prod.split)
    (metis snd_conv)+

lemma safe_store_step: "safe cr f \<Longrightarrow> storeStep cr s (snd (StoreUpdate w s i f))"
  by (intro storeStep.update safe_advancing)

lemma StoreAccept_change: "StoreAccept cr w s i cand = StoreUpdate w s i (\<lambda>c. Accept cr c cand)"
  by (simp add: StoreAccept_def StoreUpdate_def)

lemma nodeStep_inv: "nodeStep cr x y \<Longrightarrow> nodeInv cr x \<Longrightarrow> nodeInv cr y"
proof (induction rule: nodeStep.induct)
  case (propose intent tr nd i ch ps prep F L)
  obtain M where M: "L \<subseteq> M" "storeInv cr M (nd_store nd)" "\<forall>k \<in> set F. soundCall cr k \<and> callOK cr M (nd_store nd) k"
    "distinct (signing F)" using propose.prems unfolding nodeInv_def by blast
  have "distinct (signing (Proposing ps i ch prep # F))"
    using propose(5) M(4) by (cases prep) (simp_all add: signing_def map_filter_simps)
  then show ?case
    using M propose_begins [OF M(2) propose(1-4)] by (intro nodeInv_I [of L M]) auto
next
  case (proposed ps i ch prep F w nd r s' L)
  obtain M where M: "L \<subseteq> M" "storeInv cr M (nd_store nd)" "\<forall>k \<in> set F. soundCall cr k \<and> callOK cr M (nd_store nd) k"
    "distinct (signing F)" using proposed.prems unfolding nodeInv_def by blast
  note kept = calls_kept [OF M(3,4) proposed(1)]
  show ?case
  proof (cases prep)
    case (Resend p)
    then have s': "s' = nd_store nd" "\<not> isl r" using proposeCommit_store(2) proposed(2) by blast+
    have "(i, st_Nonce (pp_State p), proposalDigest cr ch p) \<in> M"
      using M(3) proposed(1) Resend by fastforce
    with M s' kept [of "nd_store nd" M] Resend show ?thesis by (intro nodeInv_I [of _ M]) auto
  next
    case (Fresh p raw)
    let ?u = "StoreUpdate w (nd_store nd) i (proposeMutate ps p raw)"
    have s': "s' = snd ?u" "isl r = isl (fst ?u)" using proposeCommit_store(1) proposed(2) Fresh by blast+
    have ok: "soundCall cr (Proposing ps i ch (Fresh p raw))" "callOK cr M (nd_store nd) (Proposing ps i ch (Fresh p raw))"
      using M(3) proposed(1) Fresh by blast+
    note com = propose_commits [OF M(2) ok refl]
    define M' where "M' = (if isl (fst ?u) then M else insert (i, st_Nonce (pp_State p), raw) M)"
    have "(\<forall>k \<in> set (remove1 (Proposing ps i ch prep) F). soundCall cr k \<and> callOK cr M' s' k) \<and>
        distinct (signing (remove1 (Proposing ps i ch prep) F))"
      using com(2) by (intro kept [where i = i and n = "st_Nonce (pp_State p)" and d = raw])
        (simp_all add: M'_def s' Fresh)
    moreover have "storeInv cr M' s'" using com(1) by (simp add: M'_def s')
    moreover have "(if isl r then L else insert (i, st_Nonce (pp_State (prepared prep)),
        proposalDigest cr ch (prepared prep)) L) \<subseteq> M'"
      using M(1) ok(1) Fresh by (auto simp: M'_def s'(2))
    ultimately show ?thesis by (intro nodeInv_I [of _ M']) simp_all
  qed
next
  case (countersign ps wv nd m a nd1 F L)
  obtain M where M: "L \<subseteq> M" "storeInv cr M (nd_store nd)" "\<forall>k \<in> set F. soundCall cr k \<and> callOK cr M (nd_store nd) k"
    "distinct (signing F)" using countersign.prems unfolding nodeInv_def by blast
  have st: "nd_store nd1 = nd_store nd" using acceptRead_store [OF countersign(1)] .
  have "distinct (signing (Countersigning ps a # F))"
    using countersign(2) M(4) by (simp add: signing_def map_filter_simps)
  then show ?case
    using M countersign_begins [OF M(2) countersign(1)] by (intro nodeInv_I [of L M]) (auto simp: st)
next
  case (refused ps wv nd m reply nd1 F L)
  then show ?case using acceptRead_store [OF refused(1)] by (simp add: nodeInv_def)
next
  case (countersigned ps a F w nd reply s' r L)
  obtain M where M: "L \<subseteq> M" "storeInv cr M (nd_store nd)" "\<forall>k \<in> set F. soundCall cr k \<and> callOK cr M (nd_store nd) k"
    "distinct (signing F)" using countersigned.prems unfolding nodeInv_def by blast
  let ?u = "StoreUpdate w (nd_store nd) (ac_ID a) (acceptChange cr ps a)"
    and ?e = "(ac_ID a, st_Nonce (sr_State (ac_Screened a)), acceptRaw cr (ac_Snapshot a) (ac_Screened a))"
  have s': "s' = snd ?u" using acceptCommit_store [OF countersigned(2)] .
  have ok: "soundCall cr (Countersigning ps a)" "callOK cr M (nd_store nd) (Countersigning ps a)"
    using M(3) countersigned(1) by blast+
  note com = countersign_commits [OF M(2) ok refl refl]
  define M' where "M' = (if isl (fst ?u) then M else insert ?e M)"
  have "(\<forall>k \<in> set (remove1 (Countersigning ps a) F). soundCall cr k \<and> callOK cr M' s' k) \<and>
      distinct (signing (remove1 (Countersigning ps a) F))"
    using com(2) by (intro calls_kept [OF M(3,4) countersigned(1), where i = "ac_ID a"
        and n = "st_Nonce (sr_State (ac_Screened a))" and d = "acceptRaw cr (ac_Snapshot a) (ac_Screened a)"])
      (simp_all add: M'_def s')
  moreover have "storeInv cr M' s'" using com(1) by (simp add: M'_def s')
  moreover have "(if isl r then L else insert ?e L) \<subseteq> M'"
    using M(1) countersigned(3) by (auto simp: M'_def)
  ultimately show ?case by (intro nodeInv_I [of _ M']) simp_all
next
  case (handle i f ps nd m F L)
  obtain M where M: "L \<subseteq> M" "storeInv cr M (nd_store nd)" "\<forall>k \<in> set F. soundCall cr k \<and> callOK cr M (nd_store nd) k"
    "distinct (signing F)" using handle.prems unfolding nodeInv_def by blast
  then show ?case
    using handle_begins [OF inv_rd [OF M(2)] handle(1)]
    by (intro nodeInv_I [of L M]) (auto simp: signing_def map_filter_simps)
next
  case (handled i f F nd L w)
  obtain M where M: "L \<subseteq> M" "storeInv cr M (nd_store nd)" "\<forall>k \<in> set F. soundCall cr k \<and> callOK cr M (nd_store nd) k"
    "distinct (signing F)" using handled.prems unfolding nodeInv_def by blast
  have f: "safe cr f" using M(3) handled(1) by fastforce
  then show ?case
    using M(1) safe_inv [OF M(2) f] calls_kept [OF M(3,4) handled(1), of "snd (StoreUpdate w (nd_store nd) i f)" M]
    by (intro nodeInv_I [of L M]) simp_all
next
  case (rejected nd F L ps w m)
  consider "snd (HandleReject ps w (nd_store nd) m) = nd_store nd"
    | i body where "snd (HandleReject ps w (nd_store nd) m) = snd (StoreUpdate w (nd_store nd) i (rejectMutate ps body))"
    using commitChange_reject by blast
  then show ?case
    using rejected nodeInv_safe [OF rejected safe_rejectMutate] by cases simp_all
next
  case (accept cand nd F L w i)
  then show ?case by (simp add: StoreAccept_change nodeInv_safe safe_Accept)
next
  case (noted r nd F L w i)
  then show ?case by (simp add: nodeInv_safe safe_note)
next
  case (payout nd F L w i g)
  then show ?case by (rule nodeInv_safe [OF _ safe_payout])
next
  case (track occ contract nd F L w chainID)
  then show ?case by (simp add: nodeInv_track)
next
  case (refresh nd F L w occ)
  then show ?case
    using nodeInv_safe [OF refresh(1) safe_refresh, of w "oc_ID occ" occ]
    by (auto simp: RefreshFromChain_def nodeInv_def)
next
  case (release nd F L removeOK i)
  have "lookupCh (snd (clearReconcile removeOK (nd_store nd) i)) = lookupCh (nd_store nd)"
    by (auto simp: clearReconcile_def lookupCh_def Let_def fun_eq_iff)
  moreover from this have "callOK cr M (snd (clearReconcile removeOK (nd_store nd) i)) k = callOK cr M (nd_store nd) k" for M k
    by (cases k rule: signsAt.cases) (simp_all add: sameIn_def)
  ultimately show ?case
    using release by (auto simp: nodeInv_def storeInv_def i4.inv_release pendingsIn_def)
next
  case (restart nd s' F L v)
  obtain M where M: "L \<subseteq> M" "storeInv cr M (nd_store nd)"
    using restart.prems unfolding nodeInv_def by blast
  then obtain M' where "M \<subseteq> M'" "storeInv cr M' s'" using restart_inv [OF M(2) restart(1)] by blast
  with M(1) show ?case by (intro nodeInv_I [of L M']) (auto simp: signing_def map_filter_simps)
qed

lemma nodeInv_run: "(nodeStep cr)\<^sup>*\<^sup>* x y \<Longrightarrow> nodeInv cr x \<Longrightarrow> nodeInv cr y"
  by (induction rule: rtranclp_induct) (auto intro: nodeStep_inv)

definition newNode :: Node where
  "newNode = \<lparr> nd_store = demoEmpty, nd_vault = None \<rparr>"

lemma nodeInv_start: "nodeInv cr (newNode, [], {})"
proof -
  have "i4.inv cr {} demoEmpty" "pendingsIn cr {} demoEmpty"
    unfolding i4.inv_def
    by (simp_all add: storeHolds_def demoEmpty_def emptyDisk_def lookupCh_def logged_def pendingsIn_def)
  then show ?thesis
    by (intro nodeInv_I [of "{}" "{}"]) (simp_all add: storeInv_def newNode_def consistent_def signing_def map_filter_simps)
qed

subsection \<open>What the engine does to the store\<close>

text \<open>
  Whatever the calls are, the store moves by its own operations, and what \<^verbatim>\<open>Update\<close> is given replaces the agreed
  state by way of \<^verbatim>\<open>Accept\<close> only.
\<close>

lemma proposeMutate_advancing: "wfPending p \<Longrightarrow> length raw = 32 \<Longrightarrow> advancing cr (proposeMutate ps p raw)"
  using proposeMutate_facts(1) unfolding advancing_def by blast

lemma acceptChange_advancing: "soundCall cr (Countersigning ps a) \<Longrightarrow> advancing cr (acceptChange cr ps a)"
  using acceptChange_facts(1) unfolding advancing_def by blast

lemma soundCalls_remove: "\<forall>k \<in> set F. soundCall cr k \<Longrightarrow> \<forall>k \<in> set (remove1 k0 F). soundCall cr k"
  using set_remove1_subset [of k0 F] by blast

lemma proposeCommit_step:
  assumes "proposeCommit ps w s i ch prep = (r, s')" "soundCall cr (Proposing ps i ch prep)"
  shows "s' = s \<or> storeStep cr s s'"
proof (cases prep)
  case (Fresh p raw)
  then have "storeStep cr s (snd (StoreUpdate w s i (proposeMutate ps p raw)))"
    using assms(2) by (intro storeStep.update proposeMutate_advancing) simp_all
  then show ?thesis
    using proposeCommit_store(1) [OF assms(1) [unfolded Fresh]] by simp
qed (use proposeCommit_store(2) assms(1) in blast)

lemma nodeStep_store:
  assumes "nodeStep cr (nd, F, L) (nd', F', L')" "rd.inv cr (nd_store nd)" "\<forall>k \<in> set F. soundCall cr k"
  shows "(nd_store nd' = nd_store nd \<or> storeStep cr (nd_store nd) (nd_store nd')) \<and> (\<forall>k \<in> set F'. soundCall cr k)"
  using assms(1)
proof cases
  case (propose intent tr i ch ps prep)
  have wf: "wfChannel ch"
    using propose(6) rd_readable [OF assms(2)] by (auto simp: sto.snapshot_live readable_def)
  have "soundCall cr (Proposing ps i ch prep)"
  proof (cases rule: prepare_cases [OF propose(7)])
    case (2 p raw)
    then show ?thesis
      using Apply_wireOK [OF 2(2) wf propose(5)] propose(4,5) by (simp add: wfPending_def wfTransition_def)
  qed simp
  with assms(3) propose(1,2) show ?thesis by simp
next
  case (proposed ps i ch prep w r s')
  have "soundCall cr (Proposing ps i ch prep)" using assms(3) proposed(4) by blast
  then show ?thesis
    using proposeCommit_step [OF proposed(5)] soundCalls_remove [OF assms(3)] proposed(1,2) by simp
next
  case (countersign ps wv m a)
  obtain body where "screenProposal cr ps (ac_ID a) (ac_Snapshot a) body = Inr (ac_Screened a)"
    using acceptRead_facts(2) [OF countersign(3)] by blast
  then have "soundCall cr (Countersigning ps a)" using screen_facts(1,2) by simp
  with assms(3) countersign(1) acceptRead_store [OF countersign(3)] show ?thesis by simp
next
  case (refused ps wv m reply)
  with assms(3) acceptRead_store [OF refused(3)] show ?thesis by simp
next
  case (countersigned ps a w reply s' r)
  have "soundCall cr (Countersigning ps a)" using assms(3) countersigned(4) by blast
  then have "storeStep cr (nd_store nd) s'"
    unfolding acceptCommit_store [OF countersigned(5)] by (intro storeStep.update acceptChange_advancing)
  with countersigned(1,2) soundCalls_remove [OF assms(3)] show ?thesis by simp
next
  case (handle i f ps m)
  with assms(3) handle_begins [OF assms(2) handle(4)] show ?thesis by simp
next
  case (handled i f w)
  have "safe cr f" using assms(3) handled(4) by fastforce
  with handled(1,2) soundCalls_remove [OF assms(3)] show ?thesis by (simp add: safe_store_step)
next
  case (rejected ps w m)
  have "storeStep cr (nd_store nd) (snd (StoreUpdate w (nd_store nd) i (rejectMutate ps body)))" for i body
    using safe_store_step [OF safe_rejectMutate] .
  with assms(3) rejected(1,2) commitChange_reject [of ps w "nd_store nd" m] show ?thesis by force
next
  case (accept cand w i)
  then show ?thesis using assms(3) by (simp add: storeStep.accept)
next
  case (noted r w i)
  then show ?thesis using assms(3) by (simp add: safe_store_step safe_note)
next
  case (payout w i g)
  then show ?thesis using assms(3) by (simp add: safe_store_step safe_payout)
next
  case (track occ contract w chainID)
  then show ?thesis using assms(3) by (simp add: storeStep.track)
next
  case (refresh w occ)
  then show ?thesis using assms(3) by (simp add: storeStep.refresh)
next
  case (release removeOK i)
  then show ?thesis using assms(3) by (simp add: storeStep.release)
next
  case (restart s' v)
  then show ?thesis by (simp add: storeStep.restart)
qed

end
