(* ===== verification/Protocol_Props.thy ===== *)
theory Protocol_Props
  imports Session_Props
begin

text \<open>
  What the protocol engine guarantees: one signature per nonce, replies that can be repeated, nothing
  lost by countersigning, disjoint windows for settling and refunding a lock, conflicts that need
  evidence, and a payment that completes; and the two places where it guarantees less than it says.
\<close>

subsection \<open>Concrete sessions\<close>

definition demoSession :: "address \<Rightarrow> PeerSession" where
  "demoSession self = \<lparr> ps_self = self, ps_sign = (\<lambda>_. Inr (demoSig self)), ps_now = 1000, ps_skew = 30,
     ps_minLockWindow = 600 \<rparr>"

lemma tracked_simps [simp]:
  "ch_ID (trackedChannel k a occ) = oc_ID occ" "ch_Conflict (trackedChannel k a occ) = None"
  "ch_Pending (trackedChannel k a occ) = None" "ch_Signed (trackedChannel k a occ) = Map.empty"
  "ch_NeedsReconcile (trackedChannel k a occ) = False" "ch_Latest (trackedChannel k a occ) = emptySigned"
  "ch_Status (trackedChannel k a occ) = StatusOpen" "ch_Applied (trackedChannel k a occ) = Map.empty"
  "ch_PartyA (trackedChannel k a occ) = oc_PartyA occ" "ch_PartyB (trackedChannel k a occ) = oc_PartyB occ"
  "trackedChannel k a occ\<lparr>ch_NeedsReconcile := False\<rparr> = trackedChannel k a occ"
  by (simp_all add: trackedChannel_def)

lemma demo_apply: "0 < amt \<Longrightarrow> amt \<le> 100 \<Longrightarrow>
  Apply demoCrypto (demoPay amt) (trackedChannel (Some 1) demoB demoOcc) demoA =
  Inr \<lparr> st_Channel = demoKey, st_Nonce = 1, st_BalanceA = Some (100 - amt), st_BalanceB = Some (50 + amt),
     st_Pending = [], st_WithdrawA = None, st_WithdrawB = None, st_Op = 1 \<rparr>"
  by (simp add: Apply_def applyKind_def baseState_def Let_def requirePositive_def move_def takeFrom_def
      give_def setBalance_def balance_def trackedChannel_def demoOcc_def demoPay_def isFirst_def
      not_Complete_empty IsA_def opForKind_def Op_defs clonePending_def emptySigned_def emptyState_def)

definition demoNode :: Node where
  "demoNode = \<lparr> nd_store = demoTracked, nd_vault = None \<rparr>"

lemma demo_get:
  "StoreGet demoTracked demoKey = Some (trackedChannel (Some 1) demoB demoOcc)"
proof -
  have "NeedsReconcile demoTracked demoKey = False"
    by (simp add: NeedsReconcile_def demoTracked_def commitCh_def persist_def Let_def demoEmpty_def)
  then show ?thesis
    by (simp add: sto.snapshot_live demo_lookup)
qed

lemma demo_prepare:
  assumes "0 < amt" "amt \<le> 100"
  shows "\<exists>p raw. proposePrepare demoCrypto (demoSession demoA) (trackedChannel (Some 1) demoB demoOcc) k (demoPay amt)
     = Inr (Fresh p raw) \<and> st_Nonce (pp_State p) = 1 \<and> st_BalanceA (pp_State p) = Some (100 - amt)"
  using demo_apply [OF assms]
  by (simp add: proposePrepare_def demoSession_def signedOther_def HasSigned_def signFor_def Let_def)
    (simp add: demoPay_def)

lemma demo_reach: "(nodeStep demoCrypto)\<^sup>*\<^sup>* (newNode, [], {}) (demoNode, [], {})"
proof -
  have "nodeStep demoCrypto (newNode, [], {})
      (newNode\<lparr>nd_store := snd (TrackFromChain demoCrypto WriteOK (nd_store newNode) (Some 1) demoB demoOcc)\<rparr>, [], {})"
    by (rule nodeStep.track) (simp_all add: demoOcc_def)
  then show ?thesis
    using demo_track by (simp add: newNode_def demoNode_def r_into_rtranclp)
qed

subsection \<open>Properties\<close>

text \<open>
  (C1) I4: this node never signs two states at one nonce. In any run of a node from an empty directory -
  its calls cut into their atomic sections and interleaved, writes that fail before or after their rename,
  restarts at any point - if the node released its signature on a state as a proposal or as an answer to
  one, and did so again at the same channel and nonce, the two digests are equal (nonce 0 apart, which only a
  wrap of the 64-bit counter reaches). A proposal that is sent again counts as released again, also when it
  was read back from the disk after a restart; the signatures of the agreed state itself, which both sides
  hold, may be repeated and are not logged. The directory opens at every point.

  One restriction is in the steps: two calls that sign do not overlap on one channel, the second begins after
  the first has committed. Nothing in the code sees to that; \<open>Propose_race\<close> is the run in which two overlap
  and the claim fails. Everything else overlaps freely, adoptions, completions and conflicts included.
\<close>

theorem one_signature_per_nonce:
  assumes "(nodeStep cr)\<^sup>*\<^sup>* (newNode, [], {}) (nd, F, L)" "(i, n, d) \<in> L" "(i, n, d') \<in> L" "n \<noteq> 0"
  shows "d = d' \<and> (\<exists>s'. OpenStore cr (sto_disk (nd_store nd)) = Inr s')"
proof -
  have "nodeInv cr (nd, F, L)"
    using nodeInv_run [OF assms(1) nodeInv_start] .
  then obtain M where M: "L \<subseteq> M" "storeInv cr M (nd_store nd)"
    unfolding nodeInv_def by blast
  then have "consistent M" "i4.inv cr M (nd_store nd)" by (simp_all add: storeInv_def)
  then show ?thesis
    using i4.inv_open M(1) assms(2-4) unfolding consistent_def by blast
qed

text \<open>
  A concrete run for it: the node proposes, the file is written but the write reports an error, so nothing is
  returned; it restarts and sends the proposal its file holds.
\<close>

lemma demo_release:
  "\<exists>nd p ch. (nodeStep demoCrypto)\<^sup>*\<^sup>* (newNode, [], {}) (nd, [], {(demoKey, 1, proposalDigest demoCrypto ch p)})"
proof -
  let ?c = "trackedChannel (Some 1) demoB demoOcc" and ?ps = "demoSession demoA"
  obtain p raw where pr: "proposePrepare demoCrypto ?ps ?c demoID (demoPay 30) = Inr (Fresh p raw)"
    "st_Nonce (pp_State p) = 1"
    using demo_prepare [of 30 demoID] by auto
  let ?call = "Proposing ?ps demoKey ?c (Fresh p raw)"
  obtain r s1 where com: "proposeCommit ?ps FailAfterRename demoTracked demoKey ?c (Fresh p raw) = (r, s1)" by force
  obtain c1 where c1: "proposeMutate ?ps p raw ?c = Inr c1" by (simp add: proposeMutate_def)
  have up: "StoreUpdate FailAfterRename demoTracked demoKey (proposeMutate ?ps p raw)
      = commitCh FailAfterRename demoTracked demoKey c1"
    by (simp add: StoreUpdate_def demo_lookup c1)
  have isl: "isl r" and s1: "s1 = snd (commitCh FailAfterRename demoTracked demoKey c1)"
    using proposeCommit_store(1) [OF com] unfolding up by (simp_all add: commitCh_def persist_def Let_def)
  have beg: "nodeStep demoCrypto (demoNode, [], {}) (demoNode, [?call], {})"
    by (rule nodeStep.propose [where tr = "demoPay 30" and intent = demoID])
      (simp_all add: demo_get demoNode_def pr(1) signing_def map_filter_simps, simp_all add: demoID_def demoPay_def wfTransition_def)
  moreover have "nodeStep demoCrypto (demoNode, [?call], {}) (demoNode\<lparr>nd_store := s1\<rparr>, [], {})"
    using nodeStep.proposed [of ?ps demoKey ?c "Fresh p raw" "[?call]" FailAfterRename demoNode r s1 demoCrypto "{}"] com isl
    by (simp add: demoNode_def)
  ultimately have run1: "(nodeStep demoCrypto)\<^sup>*\<^sup>* (newNode, [], {}) (demoNode\<lparr>nd_store := s1\<rparr>, [], {})"
    using demo_reach by (meson rtranclp.rtrancl_into_rtrancl)
  have sound: "wfPending p" and rawlen: "length raw = 32"
  proof -
    have "nodeInv demoCrypto (demoNode, [?call], {})"
      using nodeInv_run [OF demo_reach nodeInv_start] nodeStep_inv [OF beg] by simp
    then have "soundCall demoCrypto ?call" unfolding nodeInv_def by auto
    then show "wfPending p" "length raw = 32" by auto
  qed
  have inv1: "nodeInv demoCrypto (demoNode\<lparr>nd_store := s1\<rparr>, [], {})"
    using nodeInv_run [OF run1 nodeInv_start] .
  then obtain M where "storeInv demoCrypto M s1" unfolding nodeInv_def by auto
  then have rd1: "rd.inv demoCrypto s1" by (rule inv_rd)
  obtain s2 where s2: "OpenStore demoCrypto (sto_disk s1) = Inr s2"
    using rd.inv_open [OF rd1] by blast
  have restart: "nodeStep demoCrypto (demoNode\<lparr>nd_store := s1\<rparr>, [], {})
      (demoNode\<lparr>nd_store := s2, nd_vault := None\<rparr>, [], {})"
    using nodeStep.restart [of demoCrypto "demoNode\<lparr>nd_store := s1\<rparr>" s2 "[]" "{}" None] s2 by simp
  have wf: "wfChannel ?c"
    using rd_readable [of demoCrypto demoTracked demoKey] demo_lookup nodeInv_run [OF demo_reach nodeInv_start]
    by (auto simp: nodeInv_def demoNode_def readable_def dest!: inv_rd)
  note f = proposeMutate_facts [OF c1 wf sound rawlen]
  have id1: "ch_ID c1 = demoKey" and wf1: "wfChannel c1"
    using f(1) [of demoCrypto] by (simp_all add: advances_def sameChannel_def demoOcc_def)
  have "map_of (dk_Files (sto_disk s1)) demoKey = Some (encodeChannel c1)"
    by (simp add: s1 disk_commitCh id1)
  moreover have "storeHolds (readable demoCrypto) s1" using rd1 by (simp add: rd.inv_def)
  from rd.open_total [OF this] s2
  have "lookupCh s2 demoKey = map_option (\<lambda>r. projr (decodeChannel r)) (map_of (dk_Files (sto_disk s1)) demoKey)" by auto
  ultimately have look: "lookupCh s2 demoKey = Some (normChannel c1)"
    by (simp add: decode_encode_channel [OF wf1])
  let ?ch = "(normChannel c1)\<lparr>ch_NeedsReconcile := NeedsReconcile s2 demoKey\<rparr>" and ?p = "normPending p"
  have get: "StoreGet s2 demoKey = Some ?ch" by (simp add: sto.snapshot_live look)
  have nc: "ch_Conflict c1 = None"
    using c1 by (auto simp: proposeMutate_def NoteSigned_def NotePayment_def)
  have pint: "pp_Intent p = demoID"
    using pr(1) by (cases rule: prepare_cases [OF pr(1)]) simp_all
  have again: "proposePrepare demoCrypto ?ps ?ch demoID (demoPay 30) = Inr (Resend ?p)"
    using nc f(2) pint
    by (simp add: proposePrepare_def pending_norm) (simp add: normPending_def normChannel_def)
  let ?nd = "demoNode\<lparr>nd_store := s2, nd_vault := None\<rparr>"
  have pro: "Propose demoCrypto ?ps WriteOK (nd_store ?nd) demoKey demoID (demoPay 30) = (Inr (proposalEnvelope ?ch ?p), s2)"
    by (simp add: Propose_def get again proposeCommit_def)
  have len: "length demoID = 32" "wfTransition (demoPay 30)" "StoreGet (nd_store ?nd) demoKey = Some ?ch"
    by (simp_all add: demoID_def demoPay_def wfTransition_def get)
  have same: "?nd\<lparr>nd_store := s2\<rparr> = ?nd" by simp
  have "(nodeStep demoCrypto)\<^sup>*\<^sup>* (demoNode\<lparr>nd_store := s2, nd_vault := None\<rparr>, [], {})
      (demoNode\<lparr>nd_store := s2, nd_vault := None\<rparr>, [], {(demoKey, 1, proposalDigest demoCrypto ?ch ?p)})"
    using Propose_steps [OF len again pro, of "{}"] pr(2) unfolding same by (simp add: pending_norm)
  then have "(nodeStep demoCrypto)\<^sup>*\<^sup>* (newNode, [], {}) (demoNode\<lparr>nd_store := s2, nd_vault := None\<rparr>, [],
      {(demoKey, 1, proposalDigest demoCrypto ?ch ?p)})"
    using run1 restart by (meson rtranclp.rtrancl_into_rtrancl rtranclp_trans)
  then show ?thesis by blast
qed

theorem one_signature_per_nonce_witness:
  "\<exists>nd L d. (nodeStep demoCrypto)\<^sup>*\<^sup>* (newNode, [], {}) (nd, [], L) \<and> (demoKey, 1, d) \<in> L \<and>
     (\<forall>d'. (demoKey, 1, d') \<in> L \<longrightarrow> d' = d)"
proof -
  obtain nd p ch where run: "(nodeStep demoCrypto)\<^sup>*\<^sup>* (newNode, [], {}) (nd, [], {(demoKey, 1, proposalDigest demoCrypto ch p)})"
    using demo_release by blast
  have "d' = proposalDigest demoCrypto ch p" if "(demoKey, 1 :: u64, d') \<in> {(demoKey, 1, proposalDigest demoCrypto ch p)}" for d'
    using one_signature_per_nonce [OF run that, of "proposalDigest demoCrypto ch p"] by simp
  then show ?thesis
    using run by blast
qed

text \<open>
  A run of the node together with everything else that may be done to its store: the engine's steps, and the
  store's operations with any candidate that has a wire form and any change that advances the channel.
\<close>

inductive anyStep :: "crypto \<Rightarrow> run \<Rightarrow> run \<Rightarrow> bool" for cr where
  engine: "nodeStep cr x y \<Longrightarrow> anyStep cr x y"
| store: "storeStep cr (nd_store nd) s' \<Longrightarrow> anyStep cr (nd, F, L) (nd\<lparr>nd_store := s'\<rparr>, F, L)"

definition keptInv :: "crypto \<Rightarrow> run \<Rightarrow> bool" where
  "keptInv cr x \<longleftrightarrow> (case x of (nd, F, L) \<Rightarrow>
     rd.inv cr (nd_store nd) \<and> ahead cr (nd_store nd) \<and> (\<forall>k \<in> set F. soundCall cr k))"

lemma anyStep_store:
  assumes "anyStep cr (nd, F, L) (nd', F', L')" "keptInv cr (nd, F, L)"
  shows "(nd_store nd' = nd_store nd \<or> storeStep cr (nd_store nd) (nd_store nd')) \<and> (\<forall>k \<in> set F'. soundCall cr k)"
proof -
  have k: "rd.inv cr (nd_store nd)" "\<forall>k \<in> set F. soundCall cr k"
    using assms(2) by (simp_all add: keptInv_def)
  from assms(1) show ?thesis
  proof cases
    case engine
    then show ?thesis using nodeStep_store k by blast
  next
    case (store s')
    then show ?thesis using k by simp
  qed
qed

lemma anyStep_kept:
  assumes "anyStep cr (nd, F, L) (nd', F', L')" "keptInv cr (nd, F, L)"
  shows "keptInv cr (nd', F', L')"
proof -
  have k: "rd.inv cr (nd_store nd)" "ahead cr (nd_store nd)"
    using assms(2) by (simp_all add: keptInv_def)
  note s = anyStep_store [OF assms]
  from s have "rd.inv cr (nd_store nd') \<and> ahead cr (nd_store nd')"
  proof (elim conjE disjE)
    assume "storeStep cr (nd_store nd) (nd_store nd')"
    with k rd.inv_step ahead_step show ?thesis by blast
  qed (use k in simp)
  with s show ?thesis by (simp add: keptInv_def)
qed

lemma anyRun:
  assumes "(anyStep cr)\<^sup>*\<^sup>* x y" "keptInv cr x"
  shows "keptInv cr y \<and> (nn.inv cr i n (nd_store (fst x)) \<longrightarrow> nn.inv cr i n (nd_store (fst y)))"
  using assms
proof (induction rule: rtranclp_induct)
  case (step y z)
  obtain nd F L nd' F' L' where yz: "y = (nd, F, L)" "z = (nd', F', L')"
    by (cases y, cases z)
  have k: "keptInv cr (nd, F, L)" "nn.inv cr i n (nd_store (fst x)) \<longrightarrow> nn.inv cr i n (nd_store nd)"
    using step.IH step.prems by (simp_all add: yz)
  have any: "anyStep cr (nd, F, L) (nd', F', L')" using step.hyps(2) by (simp add: yz)
  have "nn.inv cr i n (nd_store nd) \<Longrightarrow> nn.inv cr i n (nd_store nd')"
    using anyStep_store [OF any k(1)] nn.inv_step by metis
  with k anyStep_kept [OF any k(1)] show ?case by (simp add: yz)
qed simp

lemma keptInv_start: "keptInv cr (newNode, [], {})"
  using open_empty [OF demo_open_empty] by (simp add: keptInv_def newNode_def ahead_def demoEmpty_def lookupCh_def)

text \<open>
  (C3) A state the node said it accepted is never lost. Take any run from an empty directory: calls of the
  engine in their sections, direct operations of the store, any write failing before or after its rename,
  the node restarting at any point. If \<^verbatim>\<open>Store.Accept\<close> then reports success for a state, or the state is
  simply what the store shows as agreed (as it does after any \<^verbatim>\<open>Update\<close>, adoption or completion that reported
  success), then after any further such run the store shows, and the directory opens to, a state of the
  channel at least as new, complete and signed by both parties.

  Two conditions are in the steps. A state handed to \<^verbatim>\<open>Store.Accept\<close> has a wire form (its locks are in the
  order of their identifiers, its lists have their lengths): what comes off the wire has one, \<^verbatim>\<open>Accept\<close> itself
  does not look, and \<open>accepted_but_unreadable\<close> is what happens otherwise. A change handed to \<^verbatim>\<open>Update\<close>
  replaces the agreed state by way of \<^verbatim>\<open>Accept\<close> only and leaves a readable record (\<open>advancing\<close>); that all the
  changes the engine makes are of this kind is \<open>nodeStep_store\<close>.
\<close>

theorem acknowledged_state_survives:
  assumes run: "(anyStep cr)\<^sup>*\<^sup>* (newNode, [], {}) (nd, F, L)"
    and ack: "StoreAccept cr w (nd_store nd) i cand = (Inr (), s1) \<and> wireOK (ss_State cand) \<or>
      s1 = nd_store nd \<and> Complete cand \<and> (\<exists>c. StoreGet s1 i = Some c \<and> ch_Latest c = cand)"
    and later: "(anyStep cr)\<^sup>*\<^sup>* (nd\<lparr>nd_store := s1\<rparr>, F, L) (nd2, F2, L2)"
  shows "(\<exists>c. StoreGet (nd_store nd2) i = Some c \<and> st_Nonce (ss_State cand) \<le> latestNonce c \<and>
      Complete (ch_Latest c) \<and> signedBoth cr c (ch_Latest c)) \<and>
    (\<exists>s'. OpenStore cr (sto_disk (nd_store nd2)) = Inr s' \<and>
      (\<exists>c. StoreGet s' i = Some c \<and> st_Nonce (ss_State cand) \<le> latestNonce c \<and>
        Complete (ch_Latest c) \<and> signedBoth cr c (ch_Latest c)))"
proof -
  have kept: "keptInv cr (nd, F, L)"
    using anyRun [OF run keptInv_start] by blast
  have "keptInv cr (nd\<lparr>nd_store := s1\<rparr>, F, L) \<and> Complete cand \<and> (\<exists>c. StoreGet s1 i = Some c \<and> ch_Latest c = cand)"
    using ack
  proof
    assume acc: "StoreAccept cr w (nd_store nd) i cand = (Inr (), s1) \<and> wireOK (ss_State cand)"
    then have "storeStep cr (nd_store nd) s1"
      using storeStep.accept [of cand cr "nd_store nd" w i] by simp
    then have "keptInv cr (nd\<lparr>nd_store := s1\<rparr>, F, L)"
      using anyStep_kept [OF anyStep.store kept] by blast
    moreover have "Complete cand \<and> (\<exists>c. StoreGet s1 i = Some c \<and> ch_Latest c = cand)"
      using acc by (blast elim: StoreAccept_done)
    ultimately show ?thesis by blast
  next
    assume "s1 = nd_store nd \<and> Complete cand \<and> (\<exists>c. StoreGet s1 i = Some c \<and> ch_Latest c = cand)"
    moreover from this have "nd\<lparr>nd_store := s1\<rparr> = nd" by simp
    ultimately show ?thesis using kept by metis
  qed
  then obtain c where c: "keptInv cr (nd\<lparr>nd_store := s1\<rparr>, F, L)" "StoreGet s1 i = Some c" "ch_Latest c = cand"
    "Complete cand" by blast
  then have "nn.inv cr i (st_Nonce (ss_State cand)) s1"
    using snapshot_held [of cr s1 i c] by (simp add: keptInv_def)
  then have "nn.inv cr i (st_Nonce (ss_State cand)) (nd_store nd2)"
    using anyRun [OF later c(1)] by simp
  then show ?thesis
    using nn_final by blast
qed

theorem acknowledged_state_survives_witness:
  "\<exists>s1. StoreAccept demoCrypto WriteOK demoTracked demoKey (demoSigned demoOpening) = (Inr (), s1) \<and>
     (\<exists>s'. OpenStore demoCrypto (sto_disk (snd (StoreUpdate FailAfterRename s1 demoKey (\<lambda>c. Inr (c\<lparr>ch_Status := StatusClosing\<rparr>))))) = Inr s' \<and>
       (\<exists>c. StoreGet s' demoKey = Some c \<and> 1 \<le> latestNonce c))"
proof -
  let ?f = "\<lambda>c. Inr (c\<lparr>ch_Status := StatusClosing\<rparr>) :: chan_error + Channel"
  have "(anyStep demoCrypto)\<^sup>*\<^sup>* (newNode, [], {}) (demoNode, [], {})"
    using demo_reach mono_rtranclp [of "nodeStep demoCrypto" "anyStep demoCrypto"] anyStep.engine by blast
  moreover have wire: "wireOK (ss_State (demoSigned demoOpening))"
    by (simp add: wireOK_def demoOpening_def emptyState_def canonical_def st_op_def Op_defs)
  moreover obtain s1 where acc: "StoreAccept demoCrypto WriteOK demoTracked demoKey (demoSigned demoOpening) = (Inr (), s1)"
    using demo_accept by (auto simp: StoreAccept_def demo_lookup commitCh_def persist_def Let_def)
  moreover have "advancing demoCrypto ?f"
    by (simp add: advancing_def advances_def sameChannel_def wfChannel_def)
  then have "anyStep demoCrypto (demoNode\<lparr>nd_store := s1\<rparr>, [], {})
      (demoNode\<lparr>nd_store := snd (StoreUpdate FailAfterRename s1 demoKey ?f)\<rparr>, [], {})"
    using anyStep.store [OF storeStep.update, where nd = "demoNode\<lparr>nd_store := s1\<rparr>" and F = "[]" and L = "{}"] by simp
  ultimately show ?thesis
    using acknowledged_state_survives [of demoCrypto demoNode "[]" "{}" WriteOK demoKey "demoSigned demoOpening" s1
        "demoNode\<lparr>nd_store := snd (StoreUpdate FailAfterRename s1 demoKey ?f)\<rparr>" "[]" "{}"]
    by (auto simp: demoNode_def demoOpening_def)
qed

lemma Propose_outcome:
  assumes "Propose cr ps w s i intent tr = (Inr m, s')"
  shows "\<exists>ch p. StoreGet s' i = Some ch \<and> ch_Conflict ch = None \<and> ch_Pending ch = Some p \<and> pp_Intent p = intent \<and>
    m = proposalEnvelope ch p"
proof -
  obtain ch prep where ch: "StoreGet s i = Some ch" and prep: "proposePrepare cr ps ch intent tr = Inr prep"
    and com: "proposeCommit ps w s i ch prep = (Inr m, s')"
    using assms by (auto simp: Propose_def split: option.splits sum.splits)
  have nc: "ch_Conflict ch = None"
    using prep by (simp add: proposePrepare_def split: if_splits)
  show ?thesis
  proof (cases prep)
    case (Resend p)
    then have "ch_Pending ch = Some p" "pp_Intent p = intent"
      using prep by (auto simp: proposePrepare_def Let_def bindR_Inr split: if_splits option.splits)
    with ch nc com Resend show ?thesis by (simp add: proposeCommit_def)
  next
    case (Fresh p raw)
    then have up: "StoreUpdate w s i (proposeMutate ps p raw) = (Inr (), s')" and m: "m = proposalEnvelope ch p"
      using com by (auto simp: proposeCommit_def split: prod.splits sum.splits)
    obtain c c' where c: "lookupCh s i = Some c" "proposeMutate ps p raw c = Inr c'"
      "StoreGet s' i = Some (c'\<lparr>ch_NeedsReconcile := NeedsReconcile s i\<rparr>)"
      using sto.snapshot_done [OF up] by blast
    have "ch = c\<lparr>ch_NeedsReconcile := NeedsReconcile s i\<rparr>"
      using ch c(1) by (simp add: sto.snapshot_live)
    moreover have "pp_Intent p = intent"
      using Fresh by (cases rule: prepare_cases [OF prep]) simp_all
    ultimately show ?thesis
      using c nc m by (auto simp: proposeMutate_def NoteSigned_def proposalEnvelope_def)
  qed
qed

text \<open>
  A retry is a retry. After a proposal was made, proposing the same intent again returns the
  identical message and changes nothing, whatever transition the caller passes; a different intent is
  refused while it is outstanding.
\<close>

theorem Propose_retry:
  assumes "Propose cr ps w s i intent tr = (Inr m, s')"
  shows "Propose cr ps' w' s' i intent tr' = (Inr m, s') \<and>
    (intent' \<noteq> intent \<longrightarrow> isl (fst (Propose cr ps' w' s' i intent' tr')) \<and> snd (Propose cr ps' w' s' i intent' tr') = s')"
  using Propose_outcome [OF assms] by (auto simp: Propose_def proposePrepare_def proposeCommit_def)

theorem Propose_retry_witness:
  "\<exists>m s'. Propose demoCrypto (demoSession demoA) WriteOK demoTracked demoKey demoID (demoPay 30) = (Inr m, s') \<and>
     Propose demoCrypto (demoSession demoA) FailBeforeRename s' demoKey demoID (demoPay 40) = (Inr m, s')"
proof -
  obtain p raw where "proposePrepare demoCrypto (demoSession demoA) (trackedChannel (Some 1) demoB demoOcc)
      demoID (demoPay 30) = Inr (Fresh p raw)"
    using demo_prepare [of 30 demoID] by auto
  then have "\<exists>m s'. Propose demoCrypto (demoSession demoA) WriteOK demoTracked demoKey demoID (demoPay 30) = (Inr m, s')"
    by (simp add: Propose_def demo_get proposeCommit_def StoreUpdate_def demo_lookup proposeMutate_def
        commitCh_def persist_def Let_def)
  then show ?thesis
    using Propose_retry by blast
qed

lemma accepted_reply_again:
  assumes "StoreGet (nd_store nd) i = Some ch" "parseBytes32 (ms_Channel m) = Inr i" "ms_Body m = BodyPropose body"
    "ch_Conflict ch = None" "ch_Status ch = StatusOpen"
    "AppliedAt ch (intentOf (bp_Intent body)) = Some (latestNonce ch)"
  shows "HandlePropose cr ps w wv nd m = (Inr (acceptEnvelope ps ch (bp_Intent body) (latestNonce ch)), nd)"
  using assms by (simp add: HandlePropose_unfold screenProposal_def Let_def)

lemma acceptEnvelope_self: "ps_self ps' = ps_self ps \<Longrightarrow> acceptEnvelope ps' = acceptEnvelope ps"
  by (simp add: acceptEnvelope_def fun_eq_iff)

lemma acceptMutate_result:
  assumes "acceptMutate cr ps k scr raw complete c = Inr c'"
  obtains c1 where "Accept cr c complete = Inr c1" "ch_Latest c' = complete" "ch_Conflict c' = ch_Conflict c"
    "ch_Status c' = ch_Status c" "ch_Status c = StatusOpen" "ch_ID c' = ch_ID c" "ch_PartyA c' = ch_PartyA c"
    "AppliedAt c' k = Some (st_Nonce (sr_State scr))"
  using assms
  by (auto simp: acceptMutate_def bindR_Inr NoteSigned_def NoteApplied_def AppliedAt_def Accept_frame Accept_latest)
    (auto simp: Accept_iff)

lemma screen_open:
  assumes "screenProposal cr ps i ch body = Inr scr"
  shows "ch_Conflict ch = None" "ch_Status ch = StatusOpen"
    "\<exists>want. Apply cr (sr_Transition scr) ch (otherParty ch (ps_self ps)) = Inr want \<and> StateEqual want (sr_State scr) = Inr ()"
    "checkTiming ps ch (sr_Transition scr) = None" "sr_Proposer scr = otherParty ch (ps_self ps)"
proof -
  from assms have mt: "\<not> isl (Matches cr (sr_Transition scr) ch (otherParty ch (ps_self ps)) (sr_State scr))"
    by (auto simp: screenProposal_def Let_def split: if_splits option.splits sum.splits)
  then show "\<exists>want. Apply cr (sr_Transition scr) ch (otherParty ch (ps_self ps)) = Inr want \<and> StateEqual want (sr_State scr) = Inr ()"
    by (cases "Matches cr (sr_Transition scr) ch (otherParty ch (ps_self ps)) (sr_State scr)")
      (auto simp: Matches_def bindR_Inr)
qed (use assms in \<open>auto simp: screenProposal_def Let_def split: if_splits option.splits sum.splits\<close>)

text \<open>The channel after a proposal was countersigned.\<close>

lemma committed_channel:
  assumes "StoreGet s i = Some ch" "screenProposal cr ps i ch body = Inr scr"
    "StoreUpdate w s i (acceptMutate cr ps k scr raw (assemble ch (sr_State scr) (sr_Sig scr) (sr_Proposer scr) sig))
       = (Inr (), s')"
  shows "\<exists>ch'. StoreGet s' i = Some ch' \<and> latestState ch' = sr_State scr \<and> ch_Conflict ch' = None \<and>
    ch_Status ch' = StatusOpen \<and> AppliedAt ch' k = Some (st_Nonce (sr_State scr)) \<and> ch_PartyA ch' = ch_PartyA ch"
proof -
  obtain c c' where c: "lookupCh s i = Some c"
    "acceptMutate cr ps k scr raw (assemble ch (sr_State scr) (sr_Sig scr) (sr_Proposer scr) sig) c = Inr c'"
    "StoreGet s' i = Some (c'\<lparr>ch_NeedsReconcile := NeedsReconcile s i\<rparr>)"
    using sto.snapshot_done [OF assms(3)] by blast
  have ch: "ch = c\<lparr>ch_NeedsReconcile := NeedsReconcile s i\<rparr>"
    using assms(1) c(1) by (simp add: sto.snapshot_live)
  from c(2) show ?thesis
    by (rule acceptMutate_result)
      (use c(3) screen_open(1,2) [OF assms(2)] ch in \<open>simp add: AppliedAt_def\<close>)
qed

text \<open>
  A repeated proposal is answered, not applied twice. If a proposal was answered with a
  counter-signature, then presenting the same message again (with any clock and any fate of the disk)
  gives the identical answer and leaves the store and the vault as they are.
\<close>

theorem HandlePropose_repeat:
  assumes "HandlePropose cr ps w wv nd m = (Inr reply, nd')" "ms_Body reply = BodyAccept b"
    and "ps_self ps' = ps_self ps"
  shows "HandlePropose cr ps' w' wv' nd' m = (Inr reply, nd')"
proof -
  obtain i body ch where pre: "parseBytes32 (ms_Channel m) = Inr i" "ms_Body m = BodyPropose body"
    and ch: "StoreGet (nd_store nd) i = Some ch"
    using assms(1,2)
    by (auto simp: HandlePropose_unfold rejectMsg_def newEnvelope_def split: sum.splits Body.splits option.splits)
  show ?thesis
  proof (cases "screenProposal cr ps i ch body")
    case (Inl x)
    then have x: "x = reply" "nd' = nd"
      using assms(1) by (auto simp: HandlePropose_unfold pre ch)
    then have "ch_Conflict ch = None \<and> ch_Status ch = StatusOpen \<and>
        AppliedAt ch (intentOf (bp_Intent body)) = Some (latestNonce ch) \<and>
        reply = acceptEnvelope ps ch (bp_Intent body) (latestNonce ch)"
      using Inl assms(2)
      by (auto simp: screenProposal_def Let_def rejectMsg_def newEnvelope_def stateResponse_def
          split: if_splits option.splits sum.splits)
    then show ?thesis
      using accepted_reply_again [OF ch pre, of cr ps' w' wv'] x acceptEnvelope_self [OF assms(3)] by simp
  next
    case (Inr scr)
    obtain r nd1 where read: "acceptRead cr ps wv nd m = (r, nd1)" by force
    show ?thesis
    proof (cases r)
      case (Inl e)
      then have "e = Inr reply" using assms(1) read by (simp add: HandlePropose_def)
      with Inl read assms(2) have False
        by (auto simp: acceptRead_def pre ch Inr rejectMsg_def newEnvelope_def split: prod.splits sum.splits if_splits)
      then show ?thesis ..
    next
      case read': (Inr a)
      note af = acceptRead_facts [OF read [unfolded read']] and st1 = acceptRead_store [OF read]
      have eqs: "ac_ID a = i" "ac_Snapshot a = ch" "ac_Screened a = scr" "ac_Intent a = bp_Intent body"
        using af(1,2) pre ch Inr by auto
      obtain ru s' where up: "StoreUpdate w (nd_store nd) i (acceptChange cr ps a) = (ru, s')" by force
      have com: "acceptCommit cr ps w (nd_store nd) a = (Inr reply, nd_store nd')" "nd_store nd' = s'"
        using assms(1) read read' st1 up
        by (auto simp: HandlePropose_def acceptCommit_def eqs split: prod.splits sum.splits option.splits)
      have "ru = Inr ()"
        using com(1) up assms(2)
        by (cases ru) (auto simp: acceptCommit_def eqs rejectMsg_def newEnvelope_def)
      note up = up [unfolded this acceptChange_def eqs] and st = com(2)
      obtain ch' where ch': "StoreGet s' i = Some ch'" "latestState ch' = sr_State scr" "ch_Conflict ch' = None"
        "ch_Status ch' = StatusOpen" "AppliedAt ch' (intentOf (bp_Intent body)) = Some (st_Nonce (sr_State scr))"
        using committed_channel [OF ch Inr up] by blast
      have "reply = acceptEnvelope ps ch' (bp_Intent body) (st_Nonce (sr_State scr))"
        using com(1) ch'(1) up by (simp add: acceptCommit_def acceptChange_def eqs)
      then show ?thesis
        using accepted_reply_again [OF _ pre, of nd' ch' cr ps' w' wv'] ch' st acceptEnvelope_self [OF assms(3)]
        by simp
    qed
  qed
qed

text \<open>The payee of the concrete channel, and a proposal it is sent.\<close>

definition demoStateB :: State where
  "demoStateB = \<lparr> st_Channel = demoKey, st_Nonce = 1, st_BalanceA = Some 70, st_BalanceB = Some 80, st_Pending = [],
     st_WithdrawA = None, st_WithdrawB = None, st_Op = 1 \<rparr>"

definition demoProposal :: Message where
  "demoProposal = newEnvelope demoKey (BodyPropose \<lparr> bp_Intent = hexEncode demoID,
     bp_Transition = encodeTransitionWire (demoPay 30), bp_State = encodeStateWire demoStateB,
     bp_Sig = hexEncode (demoSig demoA) \<rparr>)"

lemma demo_parties [simp]: "oc_PartyA demoOcc = demoA" "oc_PartyB demoOcc = demoB" "demoA \<noteq> demoB"
  "oc_ID demoOcc = demoKey"
  by (simp_all add: demoOcc_def demoA_def demoB_def)

lemma demo_screen:
  "screenProposal demoCrypto (demoSession demoB) demoKey (trackedChannel (Some 1) demoB demoOcc)
     \<lparr> bp_Intent = hexEncode demoID, bp_Transition = encodeTransitionWire (demoPay 30),
       bp_State = encodeStateWire demoStateB, bp_Sig = hexEncode (demoSig demoA) \<rparr>
   = Inr \<lparr> sr_State = normState demoStateB, sr_Transition = demoPay 30, sr_Sig = demoSig demoA,
           sr_Proposer = demoA \<rparr>"
proof -
  let ?c = "trackedChannel (Some 1) demoB demoOcc"
  have wire: "wireOK demoStateB"
    by (simp add: wireOK_def demoStateB_def canonical_def st_op_def Op_defs)
  have "decodeTransitionWire (encodeTransitionWire (demoPay 30)) = Inr (normTransition (demoPay 30))"
    by (rule decode_encode_transition) (simp_all add: demoPay_def)
  moreover have "normTransition (demoPay 30) = demoPay 30"
    by (simp add: normTransition_def demoPay_def)
  moreover have "parseSig (hexEncode (demoSig demoA)) = Inr (demoSig demoA)"
    using demo_sig_len by (simp add: parseSig_def)
  moreover have "Matches demoCrypto (demoPay 30) ?c demoA (normState demoStateB) = Inr ()"
    using demo_apply [of 30] by (simp add: Matches_def StateEqual_def normState_def demoStateB_def clonePending_def)
  moreover have "checkTiming (demoSession demoB) ?c (demoPay 30) = None"
    by (simp add: checkTiming_def demoPay_def)
  moreover have "otherParty ?c demoB = demoA"
    by (simp add: otherParty_def)
  ultimately show ?thesis
    using decode_encode_state [OF wire]
    by (simp add: screenProposal_def AppliedAt_def Let_def demoSession_def)
qed

lemma demo_acceptB:
  "\<exists>c'. Accept demoCrypto (trackedChannel (Some 1) demoB demoOcc) (demoSigned (normState demoStateB)) = Inr c'"
  by (simp add: Accept_iff isFirst_def not_Complete_empty emptySigned_def validState_def locksOK_def
      Conserved_def stateTotal_def lockedTotal_def emptyState_def normState_def demoStateB_def clonePending_def)
    (simp add: trackedChannel_def demoOcc_def)

lemma HandlePropose_accepts:
  assumes "parseBytes32 (ms_Channel m) = Inr i" "ms_Body m = BodyPropose body" "StoreGet (nd_store nd) i = Some ch"
    "screenProposal cr ps i ch body = Inr scr" "learnFirst cr wv nd (sr_Transition scr) = (Inr (), nd1)"
    "\<not> signedOther ch (st_Nonce (sr_State scr)) (Digest cr (sr_State scr) (ch_ChainID ch) (ch_Contract ch))"
    "signFor ps ch (Digest cr (sr_State scr) (ch_ChainID ch) (ch_Contract ch)) = Inr mySig"
    and up: "StoreUpdate w (nd_store nd) i (acceptMutate cr ps (intentOf (bp_Intent body)) scr
         (Digest cr (sr_State scr) (ch_ChainID ch) (ch_Contract ch))
         (assemble ch (sr_State scr) (sr_Sig scr) (sr_Proposer scr) mySig)) = (Inr (), s')"
    and "StoreGet s' i = Some fresh"
  shows "HandlePropose cr ps w wv nd m =
    (Inr (acceptEnvelope ps fresh (bp_Intent body) (st_Nonce (sr_State scr))), nd1\<lparr>nd_store := s'\<rparr>)"
proof -
  have "nd_store nd1 = nd_store nd"
    using learnFirst_store [of cr wv nd "sr_Transition scr"] assms(5) by simp
  then show ?thesis
    using assms by (simp add: HandlePropose_unfold Let_def)
qed

lemma StoreUpdate_ok:
  assumes "lookupCh s i = Some c" "f c = Inr c'"
  obtains s' where "StoreUpdate WriteOK s i f = (Inr (), s')"
    "StoreGet s' i = Some (c'\<lparr>ch_NeedsReconcile := NeedsReconcile s i\<rparr>)"
proof -
  obtain s' where up: "StoreUpdate WriteOK s i f = (Inr (), s')"
    using assms by (simp add: StoreUpdate_def commitCh_def persist_def Let_def)
  moreover from sto.commit_done [OF up] assms
  have "StoreGet s' i = Some (c'\<lparr>ch_NeedsReconcile := NeedsReconcile s i\<rparr>)"
    by (auto simp: sto.snapshot_live)
  ultimately show thesis by (rule that)
qed

definition demoScreened :: Screened where
  "demoScreened = \<lparr> sr_State = normState demoStateB, sr_Transition = demoPay 30, sr_Sig = demoSig demoA, sr_Proposer = demoA \<rparr>"

lemma demo_sign_facts:
  "learnFirst demoCrypto WriteOK demoNode (sr_Transition demoScreened) = (Inr (), demoNode)"
  "\<not> signedOther (trackedChannel (Some 1) demoB demoOcc) n raw"
  "signFor (demoSession demoB) (trackedChannel (Some 1) demoB demoOcc) raw = Inr (demoSig demoB)"
  "nd_store demoNode = demoTracked"
  "parseBytes32 (ms_Channel demoProposal) = Inr demoKey"
  by (simp_all add: learnFirst_def demoNode_def signedOther_def HasSigned_def signFor_def demoSession_def
      demoProposal_def newEnvelope_def)

lemma demo_accept_mutate:
  "\<exists>c'. acceptMutate demoCrypto ps k demoScreened raw
     (assemble (trackedChannel (Some 1) demoB demoOcc) (sr_State demoScreened) (sr_Sig demoScreened)
       (sr_Proposer demoScreened) (demoSig demoB)) (trackedChannel (Some 1) demoB demoOcc) = Inr c'"
proof -
  have "assemble (trackedChannel (Some 1) demoB demoOcc) (sr_State demoScreened) (sr_Sig demoScreened)
      (sr_Proposer demoScreened) (demoSig demoB) = demoSigned (normState demoStateB)"
    by (simp add: assemble_def IsA_def demoSigned_def demoScreened_def)
  moreover obtain c1 where "Accept demoCrypto (trackedChannel (Some 1) demoB demoOcc) (demoSigned (normState demoStateB)) = Inr c1"
    using demo_acceptB by blast
  ultimately show ?thesis
    unfolding acceptMutate_def by (simp only: bindR_simps) blast
qed

lemma demo_countersign:
  "\<exists>reply nd'. HandlePropose demoCrypto (demoSession demoB) WriteOK WriteOK demoNode demoProposal = (Inr reply, nd') \<and>
     (\<exists>b. ms_Body reply = BodyAccept b) \<and> (\<exists>ch'. StoreGet (nd_store nd') demoKey = Some ch')"
proof -
  let ?c = "trackedChannel (Some 1) demoB demoOcc"
  let ?body = "\<lparr> bp_Intent = hexEncode demoID, bp_Transition = encodeTransitionWire (demoPay 30),
       bp_State = encodeStateWire demoStateB, bp_Sig = hexEncode (demoSig demoA) \<rparr>"
  let ?raw = "Digest demoCrypto (sr_State demoScreened) (ch_ChainID ?c) (ch_Contract ?c)"
  let ?f = "acceptMutate demoCrypto (demoSession demoB) (intentOf (bp_Intent ?body)) demoScreened ?raw
    (assemble ?c (sr_State demoScreened) (sr_Sig demoScreened) (sr_Proposer demoScreened) (demoSig demoB))"
  obtain c' where "?f ?c = Inr c'"
    using demo_accept_mutate by blast
  then obtain s' where up: "StoreUpdate WriteOK demoTracked demoKey ?f = (Inr (), s')"
    and get: "StoreGet s' demoKey = Some (c'\<lparr>ch_NeedsReconcile := NeedsReconcile demoTracked demoKey\<rparr>)"
    using StoreUpdate_ok [OF demo_lookup] by blast
  have body: "ms_Body demoProposal = BodyPropose ?body"
    by (simp add: demoProposal_def newEnvelope_def)
  have scr: "screenProposal demoCrypto (demoSession demoB) demoKey ?c ?body = Inr demoScreened"
    unfolding demoScreened_def by (rule demo_screen)
  have g: "StoreGet (nd_store demoNode) demoKey = Some ?c"
    unfolding demo_sign_facts(4) by (rule demo_get)
  have "HandlePropose demoCrypto (demoSession demoB) WriteOK WriteOK demoNode demoProposal =
    (Inr (acceptEnvelope (demoSession demoB) (c'\<lparr>ch_NeedsReconcile := NeedsReconcile demoTracked demoKey\<rparr>) (bp_Intent ?body)
       (st_Nonce (sr_State demoScreened))), demoNode\<lparr>nd_store := s'\<rparr>)"
    by (rule HandlePropose_accepts [OF demo_sign_facts(5) body g scr demo_sign_facts(1) demo_sign_facts(2)
          demo_sign_facts(3) _ get]) (simp only: demo_sign_facts(4) up)
  then show ?thesis
    using get by (simp add: acceptEnvelope_def newEnvelope_def)
qed

text \<open>The outcome of \<open>HandlePropose\<close> for the store: nothing committed, or the accepting commit.\<close>

lemma HandlePropose_cases:
  obtains (quiet) "nd_store (snd (HandlePropose cr ps w wv nd m)) = nd_store nd"
  | (commit) a nd1 r s' where "acceptRead cr ps wv nd m = (Inr a, nd1)"
      "StoreUpdate w (nd_store nd) (ac_ID a) (acceptChange cr ps a) = (r, s')"
      "nd_store (snd (HandlePropose cr ps w wv nd m)) = s'"
proof (cases "acceptRead cr ps wv nd m")
  case (Pair r nd1)
  note st = acceptRead_store [OF Pair]
  show thesis
  proof (cases r)
    case (Inl x)
    with Pair st show thesis by (intro quiet) (simp add: HandlePropose_def)
  next
    case (Inr a)
    obtain ru s' where up: "StoreUpdate w (nd_store nd) (ac_ID a) (acceptChange cr ps a) = (ru, s')" by force
    have "nd_store (snd (HandlePropose cr ps w wv nd m)) = s'"
      using acceptCommit_store [of cr ps w "nd_store nd" a] Pair Inr st up
      by (cases "acceptCommit cr ps w (nd_store nd) a") (simp add: HandlePropose_def)
    with Pair Inr up show thesis by (intro commit) simp_all
  qed
qed

lemma StateEqual_balance: "StateEqual s s' = Inr () \<Longrightarrow> balance s b = balance s' b"
  by (simp add: StateEqual_def balance_def split: if_splits)

text \<open>
  (C2) Countersigning never costs this node anything. Whatever a peer proposes, and whatever becomes of
  the write, after \<^verbatim>\<open>HandlePropose\<close> the channel's agreed state is either the one before or one in which this
  node's own balance is at least what it was (its deposit, when nothing had been agreed yet).
\<close>

theorem countersign_never_costs:
  assumes ch: "StoreGet (nd_store nd) i = Some ch" and m: "parseBytes32 (ms_Channel m) = Inr i"
    and self: "ps_self ps = ch_PartyA ch \<or> ps_self ps = ch_PartyB ch" "ch_PartyA ch \<noteq> ch_PartyB ch"
    and locks: "locksOK (st_Pending (latestState ch))"
    and ch': "StoreGet (nd_store (snd (HandlePropose cr ps w wv nd m))) i = Some ch'"
  shows "latestState ch' = latestState ch \<or>
    balance (baseState ch) (IsA ch (ps_self ps)) \<le> balance (latestState ch') (IsA ch (ps_self ps))"
proof (cases rule: HandlePropose_cases [of cr ps w wv nd m])
  case quiet
  have "ch' = ch"
    using ch ch' [unfolded quiet(1)] by (metis option.inject)
  then show ?thesis by (intro disjI1) (rule arg_cong)
next
  case (commit a nd1 r s')
  note af = acceptRead_facts [OF commit(1)]
  have eqs: "ac_ID a = i" "ac_Snapshot a = ch"
    using af(1,2) m ch by auto
  obtain body where scr: "screenProposal cr ps i ch body = Inr (ac_Screened a)"
    using af(2) eqs by auto
  let ?scr = "ac_Screened a"
  show ?thesis
  proof (cases r)
    case (Inl e)
    then have "StoreGet s' i = StoreGet (nd_store nd) i"
      using sto.snapshot_failed [OF commit(2) [unfolded Inl]] by simp
    then have "ch' = ch"
      using ch ch' [unfolded commit(3)] by (metis option.inject)
    then show ?thesis by (intro disjI1) (rule arg_cong)
  next
    case (Inr u)
    then have ru: "r = Inr ()" by simp
    have s: "latestState ch' = sr_State ?scr"
      using committed_channel [OF ch scr commit(2) [unfolded acceptChange_def eqs ru]] ch' [unfolded commit(3)]
      by fastforce
    obtain want where want: "Apply cr (sr_Transition ?scr) ch (otherParty ch (ps_self ps)) = Inr want"
      "StateEqual want (sr_State ?scr) = Inr ()"
      using screen_open(3) [OF scr] by blast
    have side: "IsA ch (ps_self ps) = (\<not> IsA ch (otherParty ch (ps_self ps)))"
      using self by (cases "ch_PartyA ch = ps_self ps") (simp_all add: IsA_def otherParty_def)
    have "balance want (IsA ch (ps_self ps)) = balance (sr_State ?scr) (IsA ch (ps_self ps))"
      using want(2) by (rule StateEqual_balance)
    then show ?thesis
      using Apply_takes [OF want(1) locks] unfolding s side by (intro disjI2) (drule conjunct1, simp only:)
  qed
qed

theorem HandlePropose_repeat_witness:
  "\<exists>reply nd'. HandlePropose demoCrypto (demoSession demoB) WriteOK WriteOK demoNode demoProposal = (Inr reply, nd') \<and>
     HandlePropose demoCrypto (demoSession demoB) FailAfterRename WriteOK nd' demoProposal = (Inr reply, nd')"
  using demo_countersign HandlePropose_repeat by blast

theorem countersign_never_costs_witness:
  "\<exists>ch'. StoreGet (nd_store (snd (HandlePropose demoCrypto (demoSession demoB) WriteOK WriteOK demoNode demoProposal))) demoKey
       = Some ch' \<and> (latestState ch' = latestState (trackedChannel (Some 1) demoB demoOcc) \<or> 50 \<le> balance (latestState ch') False)"
proof -
  let ?c = "trackedChannel (Some 1) demoB demoOcc"
  obtain ch' where get: "StoreGet (nd_store (snd (HandlePropose demoCrypto (demoSession demoB) WriteOK WriteOK demoNode
      demoProposal))) demoKey = Some ch'"
    using demo_countersign by auto
  have isA: "IsA ?c demoB = False"
    using demo_parties(3) [symmetric] by (simp add: IsA_def)
  have bal: "balance (baseState ?c) False = 50"
    by (simp add: balance_def baseState_def Let_def isFirst_def not_Complete_empty emptySigned_def emptyState_def)
      (simp add: trackedChannel_def demoOcc_def)
  have pre: "StoreGet (nd_store demoNode) demoKey = Some ?c" "parseBytes32 (ms_Channel demoProposal) = Inr demoKey"
    "ps_self (demoSession demoB) = ch_PartyA ?c \<or> ps_self (demoSession demoB) = ch_PartyB ?c"
    "ch_PartyA ?c \<noteq> ch_PartyB ?c" "locksOK (st_Pending (latestState ?c))"
    by (simp_all add: demoNode_def demo_get demoProposal_def newEnvelope_def demoSession_def emptySigned_def
        emptyState_def locksOK_def)
  have ne: "demoB \<noteq> demoA"
    using demo_parties(3) by metis
  show ?thesis
    using ne countersign_never_costs [OF pre get] get isA bal by (simp add: demoSession_def)
qed

end
