(* ===== verification/Metrics.thy ===== *)
theory Metrics
  imports Session_Props
begin

text \<open>
  The aggregate counters of \<^verbatim>\<open>src/internal/channel/metrics.go\<close>. A nil collector is \<open>None\<close> and every call on
  it does nothing. The floating-point resource readings and the ratios derived from a snapshot are not
  modelled; the counters are machine words and wrap.
\<close>

subsection \<open>Histograms\<close>

record Histogram =
  hi_Bounds :: "int list"
  hi_Counts :: "u64 list"
  hi_Over :: u64
  hi_Total :: u64
  hi_Sum :: int

definition newHistogram :: "int list \<Rightarrow> Histogram" where
  "newHistogram bounds = \<lparr> hi_Bounds = bounds, hi_Counts = replicate (length bounds) 0, hi_Over = 0,
     hi_Total = 0, hi_Sum = 0 \<rparr>"

definition tipCountBuckets :: "int list" where
  "tipCountBuckets = [1, 2, 4, 8, 16, 32, 64, 128, 256, 512]"

definition intervalBuckets :: "int list" where
  "intervalBuckets = [60, 300, 900, 3600, 21600, 86400, 604800]"

text \<open>The loop over the bounds: the first bucket that holds the value, \<open>None\<close> past the last.\<close>

fun bumpBucket :: "int list \<Rightarrow> u64 list \<Rightarrow> int \<Rightarrow> u64 list option" where
  "bumpBucket (b # bs) (c # cs) v =
     (if v \<le> b then Some ((c + 1) # cs) else map_option (\<lambda>cs'. c # cs') (bumpBucket bs cs v))"
| "bumpBucket _ _ v = None"

definition observe :: "Histogram \<Rightarrow> int \<Rightarrow> Histogram" where
  "observe h v =
     (let h' = h\<lparr>hi_Total := hi_Total h + 1, hi_Sum := i64 (hi_Sum h + v)\<rparr> in
      case bumpBucket (hi_Bounds h) (hi_Counts h) v of
        Some cs \<Rightarrow> h'\<lparr>hi_Counts := cs\<rparr>
      | None \<Rightarrow> h'\<lparr>hi_Over := hi_Over h + 1\<rparr>)"

subsection \<open>The collector\<close>

datatype CloseKind = CloseCooperative | CloseDisputed

record Metrics =
  mt_tipsAttempted :: u64
  mt_tipsCompleted :: u64
  mt_tipsFailed :: u64
  mt_tipsRefunded :: u64
  mt_tipValue :: int
  mt_refundedValue :: int
  mt_channelOpens :: u64
  mt_channelCloses :: u64
  mt_cooperativeCloses :: u64
  mt_disputedCloses :: u64
  mt_channelValue :: int
  mt_channelsOpen :: int
  mt_htlcsCreated :: u64
  mt_htlcsSettled :: u64
  mt_htlcsRefunded :: u64
  mt_routedPayments :: u64
  mt_multipathPayments :: u64
  mt_multipathLegs :: u64
  mt_executorFailures :: u64
  mt_watchtowerObservations :: u64
  mt_watchtowerRecoveries :: u64
  mt_proofsVerified :: u64
  mt_proofsRejected :: u64
  mt_tipsAtClose :: Histogram
  mt_settlementInterval :: Histogram

type_synonym collector = "Metrics option"

definition NewMetrics :: Metrics where
  "NewMetrics = \<lparr> mt_tipsAttempted = 0, mt_tipsCompleted = 0, mt_tipsFailed = 0, mt_tipsRefunded = 0,
     mt_tipValue = 0, mt_refundedValue = 0, mt_channelOpens = 0, mt_channelCloses = 0,
     mt_cooperativeCloses = 0, mt_disputedCloses = 0, mt_channelValue = 0, mt_channelsOpen = 0,
     mt_htlcsCreated = 0, mt_htlcsSettled = 0, mt_htlcsRefunded = 0, mt_routedPayments = 0,
     mt_multipathPayments = 0, mt_multipathLegs = 0, mt_executorFailures = 0,
     mt_watchtowerObservations = 0, mt_watchtowerRecoveries = 0, mt_proofsVerified = 0,
     mt_proofsRejected = 0, mt_tipsAtClose = newHistogram tipCountBuckets,
     mt_settlementInterval = newHistogram intervalBuckets \<rparr>"

definition TipAttempted :: "collector \<Rightarrow> collector" where
  "TipAttempted = map_option (\<lambda>m. m\<lparr>mt_tipsAttempted := mt_tipsAttempted m + 1\<rparr>)"

definition TipFailed :: "collector \<Rightarrow> collector" where
  "TipFailed = map_option (\<lambda>m. m\<lparr>mt_tipsFailed := mt_tipsFailed m + 1\<rparr>)"

definition TipCompleted :: "bigint \<Rightarrow> collector \<Rightarrow> collector" where
  "TipCompleted amount = map_option (\<lambda>m. m\<lparr>mt_tipsCompleted := mt_tipsCompleted m + 1,
     mt_tipValue := mt_tipValue m + orZero amount\<rparr>)"

definition TipRefunded :: "bigint \<Rightarrow> collector \<Rightarrow> collector" where
  "TipRefunded amount = map_option (\<lambda>m. m\<lparr>mt_tipsRefunded := mt_tipsRefunded m + 1,
     mt_refundedValue := mt_refundedValue m + orZero amount\<rparr>)"

definition ChannelOpened :: "bigint \<Rightarrow> collector \<Rightarrow> collector" where
  "ChannelOpened deposit = map_option (\<lambda>m. m\<lparr>mt_channelOpens := mt_channelOpens m + 1,
     mt_channelsOpen := i64 (mt_channelsOpen m + 1), mt_channelValue := mt_channelValue m + orZero deposit\<rparr>)"

definition ChannelClosed :: "CloseKind \<Rightarrow> int \<Rightarrow> collector \<Rightarrow> collector" where
  "ChannelClosed kind tips = map_option (\<lambda>m.
     let m1 = m\<lparr>mt_channelCloses := mt_channelCloses m + 1,
                mt_channelsOpen := (if mt_channelsOpen m > 0 then mt_channelsOpen m - 1 else mt_channelsOpen m)\<rparr>;
         m2 = (case kind of
                 CloseDisputed \<Rightarrow> m1\<lparr>mt_disputedCloses := mt_disputedCloses m1 + 1\<rparr>
               | CloseCooperative \<Rightarrow> m1\<lparr>mt_cooperativeCloses := mt_cooperativeCloses m1 + 1\<rparr>)
     in if tips \<ge> 0 then m2\<lparr>mt_tipsAtClose := observe (mt_tipsAtClose m2) tips\<rparr> else m2)"

definition ObserveSettlementInterval :: "int \<Rightarrow> collector \<Rightarrow> collector" where
  \<comment> \<open>the argument is the duration in whole seconds\<close>
  "ObserveSettlementInterval secs =
     map_option (\<lambda>m. m\<lparr>mt_settlementInterval := observe (mt_settlementInterval m) secs\<rparr>)"

definition HTLCCreated :: "collector \<Rightarrow> collector" where
  "HTLCCreated = map_option (\<lambda>m. m\<lparr>mt_htlcsCreated := mt_htlcsCreated m + 1\<rparr>)"

definition HTLCSettled :: "collector \<Rightarrow> collector" where
  "HTLCSettled = map_option (\<lambda>m. m\<lparr>mt_htlcsSettled := mt_htlcsSettled m + 1\<rparr>)"

definition HTLCRefunded :: "collector \<Rightarrow> collector" where
  "HTLCRefunded = map_option (\<lambda>m. m\<lparr>mt_htlcsRefunded := mt_htlcsRefunded m + 1\<rparr>)"

definition RoutedPayment :: "collector \<Rightarrow> collector" where
  "RoutedPayment = map_option (\<lambda>m. m\<lparr>mt_routedPayments := mt_routedPayments m + 1\<rparr>)"

definition ExecutorFailure :: "collector \<Rightarrow> collector" where
  "ExecutorFailure = map_option (\<lambda>m. m\<lparr>mt_executorFailures := mt_executorFailures m + 1\<rparr>)"

definition MultipathPayment :: "int \<Rightarrow> collector \<Rightarrow> collector" where
  "MultipathPayment legs = map_option (\<lambda>m.
     let m1 = m\<lparr>mt_multipathPayments := mt_multipathPayments m + 1\<rparr> in
     if legs > 0 then m1\<lparr>mt_multipathLegs := mt_multipathLegs m1 + of_int legs\<rparr> else m1)"

definition WatchtowerObservation :: "collector \<Rightarrow> collector" where
  "WatchtowerObservation = map_option (\<lambda>m. m\<lparr>mt_watchtowerObservations := mt_watchtowerObservations m + 1\<rparr>)"

definition WatchtowerRecovery :: "collector \<Rightarrow> collector" where
  "WatchtowerRecovery = map_option (\<lambda>m. m\<lparr>mt_watchtowerRecoveries := mt_watchtowerRecoveries m + 1\<rparr>)"

definition ProofVerified :: "bool \<Rightarrow> collector \<Rightarrow> collector" where
  "ProofVerified ok = map_option (\<lambda>m. if ok then m\<lparr>mt_proofsVerified := mt_proofsVerified m + 1\<rparr>
     else m\<lparr>mt_proofsRejected := mt_proofsRejected m + 1\<rparr>)"

lemmas collector_defs = TipAttempted_def TipFailed_def TipCompleted_def TipRefunded_def ChannelOpened_def
  ChannelClosed_def ObserveSettlementInterval_def HTLCCreated_def HTLCSettled_def HTLCRefunded_def
  RoutedPayment_def ExecutorFailure_def MultipathPayment_def WatchtowerObservation_def
  WatchtowerRecovery_def ProofVerified_def

subsection \<open>The counters add up\<close>

definition histogramOK :: "Histogram \<Rightarrow> bool" where
  "histogramOK h \<longleftrightarrow> length (hi_Counts h) = length (hi_Bounds h) \<and> hi_Total h = sum_list (hi_Counts h) + hi_Over h"

lemma bumpBucket_sum:
  "bumpBucket bs cs v = Some cs' \<Longrightarrow> length cs' = length cs \<and> sum_list cs' = sum_list cs + 1"
  by (induction bs cs v arbitrary: cs' rule: bumpBucket.induct) (auto split: if_splits)

lemma histogramOK_new [simp]: "histogramOK (newHistogram bs)"
  by (simp add: histogramOK_def newHistogram_def sum_list_replicate)

lemma histogramOK_observe [simp]: "histogramOK h \<Longrightarrow> histogramOK (observe h v)"
  by (auto simp: histogramOK_def observe_def Let_def dest: bumpBucket_sum split: option.split)

definition metricsOK :: "Metrics \<Rightarrow> bool" where
  "metricsOK m \<longleftrightarrow> mt_channelCloses m = mt_cooperativeCloses m + mt_disputedCloses m \<and>
     histogramOK (mt_tipsAtClose m) \<and> histogramOK (mt_settlementInterval m)"

inductive metricStep :: "collector \<Rightarrow> collector \<Rightarrow> bool" where
  "metricStep m (TipAttempted m)" | "metricStep m (TipFailed m)" | "metricStep m (TipCompleted a m)"
| "metricStep m (TipRefunded a m)" | "metricStep m (ChannelOpened a m)" | "metricStep m (ChannelClosed k n m)"
| "metricStep m (ObserveSettlementInterval n m)" | "metricStep m (HTLCCreated m)" | "metricStep m (HTLCSettled m)"
| "metricStep m (HTLCRefunded m)" | "metricStep m (RoutedPayment m)" | "metricStep m (ExecutorFailure m)"
| "metricStep m (MultipathPayment n m)" | "metricStep m (WatchtowerObservation m)"
| "metricStep m (WatchtowerRecovery m)" | "metricStep m (ProofVerified ok m)"

lemma metricStep_ok: "metricStep m m' \<Longrightarrow> pred_option metricsOK m \<Longrightarrow> pred_option metricsOK m'"
  by (induction rule: metricStep.induct)
    (auto simp: collector_defs metricsOK_def option.pred_map Let_def algebra_simps split: option.splits CloseKind.split
      elim!: option.pred_mono_strong)

end
