(* ===== verification/Coordinator.thy ===== *)
theory Coordinator
  imports Protocol_Props Metrics
begin

text \<open>
  The payment coordinator, \<^verbatim>\<open>src/internal/channel/coordinator.go\<close> (and \<^verbatim>\<open>History\<close> of \<^verbatim>\<open>history.go\<close>): adopting a
  channel from the chain, running a payment to a result, dispatching inbound messages, recovery, and
  opening and funding channels. The chain, the peer and the transaction writer are arguments: a read is
  a function of the contract and the id, an exchange a function from the message sent to the reply or
  the text of an error, a broadcast a function from the transaction to its hash or the text of an error.
\<close>

subsection \<open>The coordinator and its surroundings\<close>

record Coordinator =
  co_chainID :: bigint
  co_contract :: address
  co_self :: address
  co_sess :: PeerSession
  co_now :: int

type_synonym reader = "address \<Rightarrow> bytes32 \<Rightarrow> chan_error + OnChainChannel"
type_synonym exchange = "Message \<Rightarrow> string + Message"

record CoordState =
  cs_node :: Node
  cs_metrics :: collector

record CoordFaults =
  \<comment> \<open>the fate of the writes of one call: adoption, the session's commit, the record of an unknown outcome,
      the vault\<close>
  cf_adopt :: WriteFault
  cf_commit :: WriteFault
  cf_unknown :: WriteFault
  cf_vault :: WriteFault

definition NewCoordinator ::
  "bigint \<Rightarrow> address \<Rightarrow> address \<Rightarrow> (bytes32 \<Rightarrow> chan_error + bytes) \<Rightarrow> int \<Rightarrow> int \<Rightarrow> int \<Rightarrow> Coordinator" where
  \<comment> \<open>the last arguments are the session's tolerances and the clock\<close>
  "NewCoordinator chainID contract self sign skew window now =
     \<lparr> co_chainID = Some (orZero chainID), co_contract = contract, co_self = self,
       co_sess = \<lparr> ps_self = self, ps_sign = sign, ps_now = now, ps_skew = skew, ps_minLockWindow = window \<rparr>,
       co_now = now \<rparr>"

subsection \<open>Adoption\<close>

definition Adopt ::
  "crypto \<Rightarrow> Coordinator \<Rightarrow> WriteFault \<Rightarrow> reader \<Rightarrow> Store \<Rightarrow> bytes32 \<Rightarrow> (chan_error + unit) \<times> Store" where
  "Adopt cr c w ReadChannel s i =
     (if StoreGet s i \<noteq> None then (Inr (), s)
      else
        (case ReadChannel (co_contract c) i of
           Inl e \<Rightarrow> (Inl e, s)
         | Inr occ \<Rightarrow>
             if oc_PartyA occ \<noteq> co_self c \<and> oc_PartyB occ \<noteq> co_self c then (Inl ErrNotAParticipant, s)
             else
               (case TrackFromChain cr w s (co_chainID c) (co_contract c) occ of
                  (Inl e, s') \<Rightarrow> (if e = ErrChannelExists then Inr () else Inl e, s')
                | (Inr _, s') \<Rightarrow> (Inr (), s'))))"

definition Refresh ::
  "Coordinator \<Rightarrow> WriteFault \<Rightarrow> reader \<Rightarrow> Store \<Rightarrow> bytes32 \<Rightarrow> (chan_error + unit) \<times> Store" where
  "Refresh c w ReadChannel s i =
     (if StoreGet s i = None then (Inl ErrChannelNotAdopted, s)
      else
        (case ReadChannel (co_contract c) i of
           Inl e \<Rightarrow> (Inl e, s)
         | Inr occ \<Rightarrow> RefreshFromChain w s occ))"

definition AdoptAnnounced ::
  "crypto \<Rightarrow> Coordinator \<Rightarrow> WriteFault \<Rightarrow> reader \<Rightarrow> Store \<Rightarrow> Message \<Rightarrow> (chan_error + unit) \<times> Store" where
  "AdoptAnnounced cr c w ReadChannel s m =
     (case parseBytes32 (ms_Channel m) of
        Inl e \<Rightarrow> (Inl e, s)
      | Inr i \<Rightarrow> Adopt cr c w ReadChannel s i)"

subsection \<open>Outgoing payments\<close>

record PaymentResult =
  pt_Done :: bool
  pt_Nonce :: u64
  pt_Route :: string
  pt_Rejected :: "RejectCode option"
  pt_Detail :: string

definition noResult :: PaymentResult where
  "noResult = \<lparr> pt_Done = False, pt_Nonce = 0, pt_Route = [], pt_Rejected = None, pt_Detail = [] \<rparr>"

definition paidResult :: "u64 \<Rightarrow> PaymentResult" where
  "paidResult nonce = noResult\<lparr>pt_Done := True, pt_Nonce := nonce, pt_Route := ''direct''\<rparr>"

definition ResultRetryable :: "PaymentResult \<Rightarrow> bool" where
  "ResultRetryable r = (case pt_Rejected r of None \<Rightarrow> False | Some c \<Rightarrow> Retryable c)"

definition msgType :: "Message \<Rightarrow> MessageType" where
  "msgType m = (case ms_Body m of
      BodyHello \<Rightarrow> MsgHello | BodyAnnounce \<Rightarrow> MsgChannelAnnounce | BodyPropose _ \<Rightarrow> MsgStatePropose
    | BodyAccept _ \<Rightarrow> MsgStateAccept | BodyReject _ \<Rightarrow> MsgStateReject | BodyRequest \<Rightarrow> MsgStateRequest
    | BodyResponse _ \<Rightarrow> MsgStateResponse | BodyConflict _ \<Rightarrow> MsgConflict | BodyClosing \<Rightarrow> MsgClosing
    | BodyError \<Rightarrow> MsgError | BodyMalformed t \<Rightarrow> t)"

definition recordCompletion :: "StateTransition \<Rightarrow> collector \<Rightarrow> collector" where
  "recordCompletion tr m = (case tr_Kind tr of
      KindPay \<Rightarrow> TipCompleted (tr_Amount tr) m
    | KindLockAdd \<Rightarrow> HTLCCreated m
    | KindLockSettle \<Rightarrow> HTLCSettled m
    | KindLockRefund \<Rightarrow> HTLCRefunded m
    | _ \<Rightarrow> m)"

definition rejectDetail :: "Message \<Rightarrow> string" where
  "rejectDetail m = (case ms_Body m of BodyReject b \<Rightarrow> br_Detail b | _ \<Rightarrow> [])"

definition noteUnknown :: "bytes32 \<Rightarrow> StateTransition \<Rightarrow> int \<Rightarrow> string \<Rightarrow> Channel \<Rightarrow> chan_error + Channel" where
  \<comment> \<open>what \<^verbatim>\<open>Pay\<close> writes when the exchange failed\<close>
  "noteUnknown intent tr now text ch =
     Inr (NotePayment ch ((recordFor intent tr False PayUnknown now)\<lparr>pr_Detail := text\<rparr>))"

definition payReply ::
  "crypto \<Rightarrow> Coordinator \<Rightarrow> CoordFaults \<Rightarrow> CoordState \<Rightarrow> bytes32 \<Rightarrow> bytes32 \<Rightarrow> StateTransition \<Rightarrow> Message
    \<Rightarrow> (chan_error + PaymentResult) \<times> CoordState" where
  \<comment> \<open>the switch on the type of the reply; a channel that has gone missing would be a nil dereference\<close>
  "payReply cr c w cs i intent tr reply =
     (let s = nd_store (cs_node cs); put = (\<lambda>s'. cs\<lparr>cs_node := (cs_node cs)\<lparr>nd_store := s'\<rparr>\<rparr>) in
      case msgType reply of
        MsgStateAccept \<Rightarrow>
          (case HandleAccept cr (co_sess c) (cf_commit w) s reply of
             (Inl e, s') \<Rightarrow> (Inl e, put s')
           | (Inr _, s') \<Rightarrow>
               (case StoreGet s' i of
                  None \<Rightarrow> (Inl (ErrText ''nil channel''), put s')
                | Some fresh \<Rightarrow> (Inr (paidResult (latestNonce fresh)),
                    (put s')\<lparr>cs_metrics := recordCompletion tr (cs_metrics cs)\<rparr>)))
      | MsgStateReject \<Rightarrow>
          (case HandleReject (co_sess c) (cf_commit w) s reply of
             (Inl e, s') \<Rightarrow> (Inl e, put s')
           | (Inr code, s') \<Rightarrow> (Inr (noResult\<lparr>pt_Rejected := Some code, pt_Detail := rejectDetail reply\<rparr>),
               (put s')\<lparr>cs_metrics := TipFailed (cs_metrics cs)\<rparr>))
      | MsgStateResponse \<Rightarrow>
          (case HandleResponse cr (co_sess c) (cf_commit w) s reply of
             (Inl e, s') \<Rightarrow> (Inl e, put s')
           | (Inr (ResyncRejected e), s') \<Rightarrow> (Inl e, put s')
           | (Inr _, s') \<Rightarrow>
               (case StoreGet s' i of
                  None \<Rightarrow> (Inl (ErrText ''nil channel''), put s')
                | Some fresh \<Rightarrow>
                    (case AppliedAt fresh intent of
                       Some nonce \<Rightarrow> (Inr (paidResult nonce), put s')
                     | None \<Rightarrow> (Inr noResult, put s'))))
      | _ \<Rightarrow> (Inl (ErrText ''unexpected reply''), cs))"

definition Pay ::
  "crypto \<Rightarrow> Coordinator \<Rightarrow> CoordFaults \<Rightarrow> reader \<Rightarrow> exchange \<Rightarrow> CoordState \<Rightarrow> bytes32 \<Rightarrow> bytes32 \<Rightarrow> StateTransition
    \<Rightarrow> (chan_error + PaymentResult) \<times> CoordState" where
  "Pay cr c w ReadChannel Exchange cs i intent tr =
     (let put = (\<lambda>s'. cs\<lparr>cs_node := (cs_node cs)\<lparr>nd_store := s'\<rparr>\<rparr>) in
      case Adopt cr c (cf_adopt w) ReadChannel (nd_store (cs_node cs)) i of
        (Inl e, s1) \<Rightarrow> (Inl e, put s1)
      | (Inr _, s1) \<Rightarrow>
          (case StoreGet s1 i of
             None \<Rightarrow> (Inl ErrChannelNotAdopted, put s1)
           | Some ch \<Rightarrow>
               if ch_Conflict ch \<noteq> None then (Inl ErrConflicted, put s1)
               else
                 (case AppliedAt ch intent of
                    Some nonce \<Rightarrow> (Inr (paidResult nonce), put s1)
                  | None \<Rightarrow>
                      let m1 = TipAttempted (cs_metrics cs) in
                      (case Propose cr (co_sess c) (cf_commit w) s1 i intent tr of
                         (Inl e, s2) \<Rightarrow> (Inl e, (put s2)\<lparr>cs_metrics := TipFailed m1\<rparr>)
                       | (Inr msg, s2) \<Rightarrow>
                           (case Exchange msg of
                              Inl text \<Rightarrow>
                                (Inl (ErrText text),
                                 (put (snd (StoreUpdate (cf_unknown w) s2 i (noteUnknown intent tr (co_now c) text))))
                                   \<lparr>cs_metrics := TipFailed m1\<rparr>)
                            | Inr reply \<Rightarrow> payReply cr c w ((put s2)\<lparr>cs_metrics := m1\<rparr>) i intent tr reply)))))"

subsection \<open>Incoming messages\<close>

definition Handle ::
  "crypto \<Rightarrow> Coordinator \<Rightarrow> CoordFaults \<Rightarrow> reader \<Rightarrow> CoordState \<Rightarrow> Message
    \<Rightarrow> (chan_error + Message option) \<times> CoordState" where
  "Handle cr c w ReadChannel cs m =
     (let s = nd_store (cs_node cs);
          put = (\<lambda>s'. cs\<lparr>cs_node := (cs_node cs)\<lparr>nd_store := s'\<rparr>\<rparr>);
          done = (\<lambda>r. case r of Inl e \<Rightarrow> Inl e | Inr _ \<Rightarrow> Inr None) in
      case msgType m of
        MsgChannelAnnounce \<Rightarrow>
          (case AdoptAnnounced cr c (cf_adopt w) ReadChannel s m of (r, s') \<Rightarrow> (done r, put s'))
      | MsgStatePropose \<Rightarrow>
          (case parseBytes32 (ms_Channel m) of
             Inl e \<Rightarrow> (Inl e, cs)
           | Inr i \<Rightarrow>
               (case Adopt cr c (cf_adopt w) ReadChannel s i of
                  (Inl e, s') \<Rightarrow> (Inl e, put s')
                | (Inr _, s') \<Rightarrow>
                    (case HandlePropose cr (co_sess c) (cf_commit w) (cf_vault w) (cs_node (put s')) m of
                       (Inl e, nd) \<Rightarrow> (Inl e, cs\<lparr>cs_node := nd\<rparr>)
                     | (Inr reply, nd) \<Rightarrow> (Inr (Some reply), cs\<lparr>cs_node := nd\<rparr>))))
      | MsgStateRequest \<Rightarrow>
          (case parseBytes32 (ms_Channel m) of
             Inl e \<Rightarrow> (Inl e, cs)
           | Inr i \<Rightarrow>
               (case Adopt cr c (cf_adopt w) ReadChannel s i of
                  (Inl e, s') \<Rightarrow> (Inl e, put s')
                | (Inr _, s') \<Rightarrow>
                    (case HandleRequest s' m of
                       Inl e \<Rightarrow> (Inl e, put s')
                     | Inr reply \<Rightarrow> (Inr (Some reply), put s'))))
      | MsgStateResponse \<Rightarrow>
          (case HandleResponse cr (co_sess c) (cf_commit w) s m of
             (Inr (ResyncRejected e), s') \<Rightarrow> (Inl e, put s')
           | (r, s') \<Rightarrow> (done (case r of Inl e \<Rightarrow> Inl e | Inr _ \<Rightarrow> Inr ()), put s'))
      | MsgStateAccept \<Rightarrow> (case HandleAccept cr (co_sess c) (cf_commit w) s m of (r, s') \<Rightarrow> (done r, put s'))
      | MsgStateReject \<Rightarrow>
          (case HandleReject (co_sess c) (cf_commit w) s m of
             (r, s') \<Rightarrow> (done (case r of Inl e \<Rightarrow> Inl e | Inr _ \<Rightarrow> Inr ()), put s'))
      | MsgConflict \<Rightarrow>
          (case HandleConflict cr (cf_commit w) s m of
             (r, s') \<Rightarrow> (done (case r of Inl e \<Rightarrow> Inl e | Inr _ \<Rightarrow> Inr ()), put s'))
      | MsgHello \<Rightarrow> (Inr None, cs)
      | MsgClosing \<Rightarrow> (Inr None, cs)
      | MsgError \<Rightarrow> (Inr None, cs)
      | MsgOther t \<Rightarrow> (Inl (ErrText ''unhandled message''), cs))"

subsection \<open>Recovery\<close>

definition Recover ::
  "crypto \<Rightarrow> Coordinator \<Rightarrow> WriteFault \<Rightarrow> exchange \<Rightarrow> Store \<Rightarrow> bytes32 \<Rightarrow> (chan_error + ResyncOutcome) \<times> Store" where
  "Recover cr c w Exchange s i =
     (case Resume s i of
        Inl e \<Rightarrow> (Inl e, s)
      | Inr None \<Rightarrow> (Inr ResyncSame, s)
      | Inr (Some request) \<Rightarrow>
          (case Exchange request of
             Inl text \<Rightarrow> (Inl (ErrText text), s)
           | Inr reply \<Rightarrow>
               if msgType reply \<noteq> MsgStateResponse
               then (Inl (ErrText ''peer answered a state request with something else''), s)
               else HandleResponse cr (co_sess c) w s reply))"

fun recoverEach ::
  "crypto \<Rightarrow> Coordinator \<Rightarrow> (bytes32 \<Rightarrow> WriteFault) \<Rightarrow> exchange \<Rightarrow> Store \<Rightarrow> bytes32 list
    \<Rightarrow> (bytes32 \<rightharpoonup> chan_error + ResyncOutcome) \<times> Store" where
  "recoverEach cr c w Exchange s [] = (Map.empty, s)"
| "recoverEach cr c w Exchange s (i # rest) =
     (case Recover cr c (w i) Exchange s i of
        (r, s') \<Rightarrow> (case recoverEach cr c w Exchange s' rest of
            (out, s'') \<Rightarrow> (out(i \<mapsto> (case r of Inr (ResyncRejected e) \<Rightarrow> Inl e | _ \<Rightarrow> r)), s'')))"

definition RecoverAll ::
  "crypto \<Rightarrow> Coordinator \<Rightarrow> (bytes32 \<Rightarrow> WriteFault) \<Rightarrow> exchange \<Rightarrow> Store
    \<Rightarrow> (bytes32 \<rightharpoonup> chan_error + ResyncOutcome) \<times> Store" where
  "RecoverAll cr c w Exchange s = recoverEach cr c w Exchange s (StoreIDs s)"

subsection \<open>Observation\<close>

record Balances =
  ba_ChannelID :: bytes32
  ba_PartyA :: address
  ba_PartyB :: address
  ba_Mine :: int
  ba_Theirs :: int
  ba_Locked :: int
  ba_Nonce :: u64
  ba_Conflicted :: bool

definition ChannelBalances :: "Coordinator \<Rightarrow> Store \<Rightarrow> bytes32 \<Rightarrow> chan_error + Balances" where
  "ChannelBalances c s i =
     (case StoreGet s i of
        None \<Rightarrow> Inl ErrChannelNotAdopted
      | Some ch \<Rightarrow>
          let other = (if ch_PartyA ch = co_self c then ch_PartyB ch else ch_PartyA ch) in
          Inr \<lparr> ba_ChannelID = i, ba_PartyA = ch_PartyA ch, ba_PartyB = ch_PartyB ch,
                ba_Mine = BalanceOf ch (co_self c), ba_Theirs = BalanceOf ch other,
                ba_Locked = lockedTotal (latestState ch), ba_Nonce = latestNonce ch,
                ba_Conflicted = (ch_Conflict ch \<noteq> None) \<rparr>)"

definition Channels :: "Store \<Rightarrow> bytes32 list" where
  "Channels s = StoreIDs s"

definition CoordHistory :: "Store \<Rightarrow> bytes32 \<Rightarrow> chan_error + PaymentRecord list" where
  "CoordHistory s i = (case StoreGet s i of None \<Rightarrow> Inl ErrChannelNotAdopted | Some ch \<Rightarrow> Inr (ch_History ch))"

subsection \<open>Opening and funding a channel\<close>

datatype ChainCall =
    ApproveTx address address bigint
  | OpenChannelTx address address bigint
  | DepositTx address bytes32 bigint
  | CheckpointTx address Channel
  | CloseCooperativeTx address Channel
  | ClaimLockTx address bytes32 "HTLC list" nat bytes32
  | ExpireLockTx address bytes32 "HTLC list" nat
  | ChallengeTx address SignedState

type_synonym writer = "ChainCall \<Rightarrow> string + string"
type_synonym allowance = "address \<Rightarrow> address \<Rightarrow> address \<Rightarrow> chan_error + int"

record OpenResult =
  or_ChannelID :: bytes32
  or_ApprovalTx :: string
  or_OpenTx :: string
  or_AlreadyOpen :: bool

definition approveIfShort ::
  "Coordinator \<Rightarrow> writer \<Rightarrow> allowance option \<Rightarrow> address \<Rightarrow> int \<Rightarrow> (chan_error + string) \<times> ChainCall list" where
  \<comment> \<open>the allowance check shared by \<^verbatim>\<open>OpenChannel\<close> and \<^verbatim>\<open>Deposit\<close>; the hash is empty when nothing was sent\<close>
  "approveIfShort c Send allow token amount =
     (case allow of
        None \<Rightarrow> (Inr [], [])
      | Some Allowance \<Rightarrow>
          (case Allowance token (co_self c) (co_contract c) of
             Inl e \<Rightarrow> (Inl e, [])
           | Inr current \<Rightarrow>
               if current < amount
               then (let call = ApproveTx token (co_contract c) (Some amount) in
                     case Send call of
                       Inl text \<Rightarrow> (Inl (ErrText text), [call])
                     | Inr tx \<Rightarrow> (Inr tx, [call]))
               else (Inr [], [])))"

definition OpenChannel ::
  "crypto \<Rightarrow> Coordinator \<Rightarrow> WriteFault \<Rightarrow> reader \<Rightarrow> reader \<Rightarrow> writer \<Rightarrow> allowance option \<Rightarrow> Store \<Rightarrow> address \<Rightarrow> address
    \<Rightarrow> bigint \<Rightarrow> (chan_error + unit) \<times> OpenResult \<times> ChainCall list \<times> Store" where
  \<comment> \<open>the transactions broadcast are the third component; \<^verbatim>\<open>Adopt\<close> reads the chain again\<close>
  "OpenChannel cr c w ReadChannel ReadAgain Send allow s token partner deposit =
     (let none = \<lparr> or_ChannelID = zero32, or_ApprovalTx = [], or_OpenTx = [], or_AlreadyOpen = False \<rparr> in
      if partner = co_self c then (Inl (ErrText ''cannot open a channel with yourself''), none, [], s)
      else
        (case deposit of
           None \<Rightarrow> (Inl ErrAmountNotPositive, none, [], s)
         | Some amount \<Rightarrow>
             if amount < 0 then (Inl ErrAmountNotPositive, none, [], s)
             else
               let out = none\<lparr>or_ChannelID := DeriveChannelID cr (co_self c) partner\<rparr> in
               (case ReadChannel (co_contract c) (or_ChannelID out) of
                  Inr _ \<Rightarrow>
                    (case Adopt cr c w ReadAgain s (or_ChannelID out) of
                       (r, s') \<Rightarrow> (r, out\<lparr>or_AlreadyOpen := True\<rparr>, [], s'))
                | Inl e \<Rightarrow>
                    if e \<noteq> ErrChannelNotOnChain then (Inl e, out, [], s)
                    else
                      (case (if amount > 0 then approveIfShort c Send allow token amount else (Inr [], [])) of
                         (Inl e, calls) \<Rightarrow> (Inl e, out, calls, s)
                       | (Inr approval, calls) \<Rightarrow>
                           let out1 = out\<lparr>or_ApprovalTx := approval\<rparr>;
                               call = OpenChannelTx (co_contract c) partner deposit in
                           (case Send call of
                              Inl text \<Rightarrow> (Inl (ErrText text), out1, calls @ [call], s)
                            | Inr tx \<Rightarrow> (Inr (), out1\<lparr>or_OpenTx := tx\<rparr>, calls @ [call], s))))))"

definition Deposit ::
  "Coordinator \<Rightarrow> writer \<Rightarrow> allowance option \<Rightarrow> Store \<Rightarrow> address \<Rightarrow> bytes32 \<Rightarrow> bigint
    \<Rightarrow> (chan_error + string) \<times> ChainCall list" where
  "Deposit c Send allow s token i amount =
     (if amount = None \<or> orZero amount \<le> 0 then (Inl ErrAmountNotPositive, [])
      else if StoreGet s i = None then (Inl ErrChannelNotAdopted, [])
      else
        (case approveIfShort c Send allow token (orZero amount) of
           (Inl e, calls) \<Rightarrow> (Inl e, calls)
         | (Inr _, calls) \<Rightarrow>
             let call = DepositTx (co_contract c) i amount in
             (case Send call of
                Inl text \<Rightarrow> (Inl (ErrText text), calls @ [call])
              | Inr tx \<Rightarrow> (Inr tx, calls @ [call]))))"

end
