(* ===== verification/Vault.thy ===== *)
theory Vault
  imports Coordinator
begin

text \<open>
  The state vault, \<^verbatim>\<open>src/internal/channel/vault.go\<close>, and its durable custody, \<^verbatim>\<open>vaultstore.go\<close>. A
  submission is three steps, as in the code: the checks against a snapshot of what is held (\<open>submitCheck\<close>),
  the write to the backend (\<open>persistRecord\<close>, outside the lock) and the activation under the lock
  (\<open>activate\<close>), which looks again because another submission may have won the race. AES-GCM, JSON and
  the random source are parameters; the backend is a map from keys to blobs whose calls may fail.
\<close>

subsection \<open>Entries and the vault\<close>

record VaultEntry =
  ve_Channel :: bytes32
  ve_Signed :: SignedState
  ve_PartyA :: address
  ve_PartyB :: address
  ve_DepositA :: bigint
  ve_DepositB :: bigint
  ve_Accepted :: int
  ve_Rejected :: int

definition EntryNonce :: "VaultEntry \<Rightarrow> u64" where
  "EntryNonce e = st_Nonce (ss_State (ve_Signed e))"

definition emptyEntry :: VaultEntry where
  "emptyEntry = \<lparr> ve_Channel = zero32, ve_Signed = emptySigned, ve_PartyA = Address (replicate 20 0),
     ve_PartyB = Address (replicate 20 0), ve_DepositA = None, ve_DepositB = None, ve_Accepted = 0, ve_Rejected = 0 \<rparr>"

record vaultRecord =
  vr_Channel :: string
  vr_State :: storedState
  vr_SigA :: string
  vr_SigB :: string

text \<open>A \<^verbatim>\<open>cipher.AEAD\<close> (the additional data is always nil) and the JSON text of a record.\<close>

record aead =
  ae_NonceSize :: nat
  ae_Seal :: "bytes \<Rightarrow> bytes \<Rightarrow> bytes"
  ae_Open :: "bytes \<Rightarrow> bytes \<Rightarrow> bytes option"

record record_json =
  rj_Marshal :: "vaultRecord \<Rightarrow> bytes option"
  rj_Unmarshal :: "bytes \<Rightarrow> vaultRecord option"

record Vault =
  va_Chain :: "reader option"
  va_Contract :: address
  va_ChainID :: bigint
  va_entries :: "(bytes32 \<times> VaultEntry) list"
  va_backend :: "(string \<rightharpoonup> bytes) option"
  va_aead :: "aead option"

definition NewVault :: "reader option \<Rightarrow> bigint \<Rightarrow> address \<Rightarrow> Vault" where
  "NewVault chain chainID contract = \<lparr> va_Chain = chain, va_Contract = contract, va_ChainID = chainID,
     va_entries = [], va_backend = None, va_aead = None \<rparr>"

definition entryOf :: "Vault \<Rightarrow> bytes32 \<Rightarrow> VaultEntry option" where
  "entryOf v i = map_of (va_entries v) i"

definition putEntry :: "bytes32 \<Rightarrow> VaultEntry \<Rightarrow> Vault \<Rightarrow> Vault" where
  "putEntry i e v = v\<lparr>va_entries := AList.update i e (va_entries v)\<rparr>"

subsection \<open>Storage keys and sealed records\<close>

definition VaultKeyPrefix :: string where
  "VaultKeyPrefix = ''vault/''"

definition padDec :: "nat \<Rightarrow> nat \<Rightarrow> string" where
  \<comment> \<open>\<^verbatim>\<open>%0<width>d\<close> of a non-negative number\<close>
  "padDec width n = (let s = natDec n in replicate (width - length s) (CHR ''0'') @ s)"

definition recordKey :: "bytes32 \<Rightarrow> u64 \<Rightarrow> bytes32 \<Rightarrow> string" where
  "recordKey i nonce digest =
     VaultKeyPrefix @ hexEncode i @ ''/'' @ padDec 20 (unat nonce) @ ''/'' @ hexEncode digest"

definition channelPrefix :: "bytes32 \<Rightarrow> string" where
  "channelPrefix i = VaultKeyPrefix @ hexEncode i @ ''/''"

definition SetBackend ::
  "(bytes \<Rightarrow> string + aead) \<Rightarrow> (string \<rightharpoonup> bytes) option \<Rightarrow> bytes \<Rightarrow> Vault \<Rightarrow> (chan_error + unit) \<times> Vault" where
  \<comment> \<open>the first argument is \<^verbatim>\<open>aes.NewCipher\<close> followed by \<^verbatim>\<open>cipher.NewGCM\<close>\<close>
  "SetBackend newGCM backend key v =
     (if backend = None then (Inl (ErrText ''no backend''), v)
      else if length key \<noteq> 32 then (Inl (ErrText ''the record key must be 32 bytes''), v)
      else (case newGCM key of
              Inl text \<Rightarrow> (Inl (ErrText text), v)
            | Inr a \<Rightarrow> (Inr (), v\<lparr>va_backend := backend, va_aead := Some a\<rparr>)))"

definition sealRecord :: "record_json \<Rightarrow> bytes option \<Rightarrow> aead \<Rightarrow> vaultRecord \<Rightarrow> chan_error + bytes" where
  \<comment> \<open>\<open>rnd\<close> is what \<^verbatim>\<open>io.ReadFull(rand.Reader, nonce)\<close> delivers\<close>
  "sealRecord js rnd a rec =
     (case rj_Marshal js rec of
        None \<Rightarrow> Inl (ErrText ''marshal'')
      | Some plain \<Rightarrow>
          (case rnd of
             None \<Rightarrow> Inl ErrIO
           | Some nonce \<Rightarrow> Inr (nonce @ ae_Seal a nonce plain)))"

definition openRecord :: "record_json \<Rightarrow> aead \<Rightarrow> bytes \<Rightarrow> chan_error + vaultRecord" where
  "openRecord js a blob =
     (let size = ae_NonceSize a in
      if length blob < size then Inl (ErrText ''stored record is too short to be one'')
      else (case ae_Open a (take size blob) (drop size blob) of
              None \<Rightarrow> Inl (ErrText ''stored record does not authenticate'')
            | Some plain \<Rightarrow> ofOpt (ErrText ''stored record is not readable'') (rj_Unmarshal js plain)))"

definition recordOf :: "SignedState \<Rightarrow> vaultRecord" where
  "recordOf cand = \<lparr> vr_Channel = hexEncode (st_Channel (ss_State cand)),
     vr_State = encodeStateWire (ss_State cand), vr_SigA = hexEncode (ss_SigA cand),
     vr_SigB = hexEncode (ss_SigB cand) \<rparr>"

definition stateKey :: "crypto \<Rightarrow> Vault \<Rightarrow> State \<Rightarrow> string" where
  "stateKey cr v st = recordKey (st_Channel st) (st_Nonce st) (Digest cr st (va_ChainID v) (va_Contract v))"

definition persistRecord ::
  "crypto \<Rightarrow> record_json \<Rightarrow> bytes option \<Rightarrow> WriteFault \<Rightarrow> Vault \<Rightarrow> SignedState \<Rightarrow> (chan_error + unit) \<times> Vault" where
  "persistRecord cr js rnd w v cand =
     (case (va_backend v, va_aead v) of
        (Some blobs, Some a) \<Rightarrow>
          (case sealRecord js rnd a (recordOf cand) of
             Inl _ \<Rightarrow> (Inl ErrVaultNotDurable, v)
           | Inr blob \<Rightarrow>
               let stored = v\<lparr>va_backend := Some (blobs(stateKey cr v (ss_State cand) \<mapsto> blob))\<rparr> in
               (case w of
                  WriteOK \<Rightarrow> (Inr (), stored)
                | FailBeforeRename \<Rightarrow> (Inl ErrVaultNotDurable, v)
                | FailAfterRename \<Rightarrow> (Inl ErrVaultNotDurable, stored)))
      | _ \<Rightarrow> (Inr (), v))"

subsection \<open>Submitting a state\<close>

definition requireBothParties ::
  "crypto \<Rightarrow> bytes32 \<Rightarrow> SignedState \<Rightarrow> address \<Rightarrow> address \<Rightarrow> chan_error + unit" where
  "requireBothParties cr digest cand partyA partyB =
     bindR (RecoverSigner cr digest (ss_SigA cand)) (\<lambda>gotA.
     bindR (RecoverSigner cr digest (ss_SigB cand)) (\<lambda>gotB.
       if gotA \<noteq> partyA then Inl (ErrText ''signature A is not party A'')
       else if gotB \<noteq> partyB then Inl (ErrText ''signature B is not party B'')
       else Inr ()))"

record Facts =
  \<comment> \<open>the fields of \<^verbatim>\<open>OnChainChannel\<close> a submission uses\<close>
  fa_PartyA :: address
  fa_PartyB :: address
  fa_DepositA :: bigint
  fa_DepositB :: bigint

definition factsFor :: "Vault \<Rightarrow> bytes32 \<Rightarrow> chan_error + Facts" where
  \<comment> \<open>check 2: what is held settles it, the chain otherwise\<close>
  "factsFor v i =
     (case entryOf v i of
        Some held \<Rightarrow> Inr \<lparr> fa_PartyA = ve_PartyA held, fa_PartyB = ve_PartyB held,
                          fa_DepositA = ve_DepositA held, fa_DepositB = ve_DepositB held \<rparr>
      | None \<Rightarrow>
          (case va_Chain v of
             None \<Rightarrow> Inl ErrNotVerifiable
           | Some ReadChannel \<Rightarrow>
               (case ReadChannel (va_Contract v) i of
                  Inl _ \<Rightarrow> Inl ErrNotVerifiable
                | Inr occ \<Rightarrow> Inr \<lparr> fa_PartyA = oc_PartyA occ, fa_PartyB = oc_PartyB occ,
                                  fa_DepositA = oc_DepositA occ, fa_DepositB = oc_DepositB occ \<rparr>)))"

definition verifyState :: "crypto \<Rightarrow> Vault \<Rightarrow> Facts \<Rightarrow> SignedState \<Rightarrow> chan_error + unit" where
  \<comment> \<open>checks 4 and 5\<close>
  "verifyState cr v fa cand =
     (if \<not> Conserved (ss_State cand) (fa_DepositA fa) (fa_DepositB fa)
      then Inl (ErrText ''the state does not conserve the deposited value'')
      else requireBothParties cr (Digest cr (ss_State cand) (va_ChainID v) (va_Contract v)) cand
             (fa_PartyA fa) (fa_PartyB fa))"

definition refuse :: "bytes32 \<Rightarrow> VaultEntry \<Rightarrow> Vault \<Rightarrow> VaultEntry \<times> Vault" where
  \<comment> \<open>count a submission that did not advance the entry\<close>
  "refuse i held v = (let e = held\<lparr>ve_Rejected := ve_Rejected held + 1\<rparr> in (e, putEntry i e v))"

definition submitCheck ::
  "crypto \<Rightarrow> Vault \<Rightarrow> SignedState \<Rightarrow> (chan_error + Facts) \<times> VaultEntry \<times> Vault" where
  "submitCheck cr v cand =
     (let i = st_Channel (ss_State cand) in
      if va_Chain v = None then (Inl ErrNotVerifiable, emptyEntry, v)
      else if \<not> Complete cand then (Inl (ErrText ''a state must carry both signatures''), emptyEntry, v)
      else
        (case factsFor v i of
           Inl e \<Rightarrow> (Inl e, emptyEntry, v)
         | Inr fa \<Rightarrow>
             (case entryOf v i of
                Some held \<Rightarrow>
                  if st_Nonce (ss_State cand) \<le> EntryNonce held
                  then (Inl ErrStaleDeposit, refuse i held v)
                  else (bindR (verifyState cr v fa cand) (\<lambda>_. Inr fa), emptyEntry, v)
              | None \<Rightarrow> (bindR (verifyState cr v fa cand) (\<lambda>_. Inr fa), emptyEntry, v))))"

definition activate :: "Facts \<Rightarrow> SignedState \<Rightarrow> Vault \<Rightarrow> (chan_error + unit) \<times> VaultEntry \<times> Vault" where
  "activate fa cand v =
     (let i = st_Channel (ss_State cand);
          adopt = (\<lambda>e. let e' = e\<lparr>ve_Signed := cand, ve_Accepted := ve_Accepted e + 1\<rparr>
                       in (Inr (), e', putEntry i e' v)) in
      case entryOf v i of
        None \<Rightarrow> adopt \<lparr> ve_Channel = i, ve_Signed = emptySigned, ve_PartyA = fa_PartyA fa, ve_PartyB = fa_PartyB fa,
                        ve_DepositA = fa_DepositA fa, ve_DepositB = fa_DepositB fa, ve_Accepted = 0, ve_Rejected = 0 \<rparr>
      | Some e \<Rightarrow>
          if st_Nonce (ss_State cand) \<le> EntryNonce e then (Inl ErrStaleDeposit, refuse i e v)
          else adopt e)"

definition submitVerified ::
  "crypto \<Rightarrow> record_json \<Rightarrow> bytes option \<Rightarrow> WriteFault \<Rightarrow> Vault \<Rightarrow> SignedState
    \<Rightarrow> (chan_error + unit) \<times> VaultEntry \<times> Vault" where
  "submitVerified cr js rnd w v cand =
     (case submitCheck cr v cand of
        (Inl e, entry, v1) \<Rightarrow> (Inl e, entry, v1)
      | (Inr fa, _, v1) \<Rightarrow>
          (case persistRecord cr js rnd w v1 cand of
             (Inl e, v2) \<Rightarrow> (Inl e, emptyEntry, v2)
           | (Inr _, v2) \<Rightarrow> activate fa cand v2))"

definition Submit where
  "Submit = submitVerified"

definition Best :: "Vault \<Rightarrow> bytes32 \<Rightarrow> SignedState option" where
  "Best v i = map_option ve_Signed (entryOf v i)"

definition VaultIDs :: "Vault \<Rightarrow> bytes32 list" where
  \<comment> \<open>in no particular order\<close>
  "VaultIDs v = map fst (va_entries v)"

definition VaultStoreGet :: "Vault \<Rightarrow> bytes32 \<Rightarrow> Channel option" where
  \<comment> \<open>\<^verbatim>\<open>VaultStore.Get\<close>; the fields it does not set have Go's zero values\<close>
  "VaultStoreGet v i =
     map_option (\<lambda>entry. \<lparr> ch_ID = i, ch_PartyA = ve_PartyA entry, ch_PartyB = ve_PartyB entry,
       ch_DepositA = ve_DepositA entry, ch_DepositB = ve_DepositB entry, ch_Status = StatusNone,
       ch_ChainID = va_ChainID v, ch_Contract = va_Contract v, ch_Latest = ve_Signed entry,
       ch_Signed = Map.empty, ch_Applied = Map.empty, ch_Pending = None, ch_Conflict = None,
       ch_History = [], ch_Payout = None, ch_NeedsReconcile = False \<rparr>) (entryOf v i)"

subsection \<open>Loading\<close>

definition loadOne ::
  "crypto \<Rightarrow> record_json \<Rightarrow> (string \<Rightarrow> bool) \<Rightarrow> (string \<rightharpoonup> bytes) \<Rightarrow> Vault \<Rightarrow> string \<Rightarrow> SignedState option" where
  \<comment> \<open>\<open>got key\<close> says whether the backend answers \<^verbatim>\<open>Get\<close>; a nil cipher cannot open anything\<close>
  "loadOne cr js got blobs v key =
     (if take (length VaultKeyPrefix) key \<noteq> VaultKeyPrefix \<or> \<not> got key then None
      else
        (case (blobs key, va_aead v) of
           (Some blob, Some a) \<Rightarrow>
             (case openRecord js a blob of
                Inl _ \<Rightarrow> None
              | Inr rec \<Rightarrow>
                  (case decodeStateWire (vr_State rec) of
                     Inl _ \<Rightarrow> None
                   | Inr st \<Rightarrow>
                       (case (hexDecode (vr_SigA rec), hexDecode (vr_SigB rec)) of
                          (Some sigA, Some sigB) \<Rightarrow>
                            if key \<noteq> stateKey cr v st then None
                            else Some \<lparr> ss_State = st, ss_SigA = sigA, ss_SigB = sigB \<rparr>
                        | _ \<Rightarrow> None)))
         | _ \<Rightarrow> None))"

record LoadFaults =
  lf_list :: "chan_error + string list"
  lf_got :: "string \<Rightarrow> bool"
  lf_rnd :: "string \<Rightarrow> bytes option"
  lf_put :: "string \<Rightarrow> WriteFault"

definition loadStep :: "crypto \<Rightarrow> record_json \<Rightarrow> LoadFaults \<Rightarrow> string \<Rightarrow> Vault \<times> nat \<Rightarrow> Vault \<times> nat" where
  "loadStep cr js lf key x =
     (case x of (v, skipped) \<Rightarrow>
        (case loadOne cr js (lf_got lf) (case va_backend v of Some b \<Rightarrow> b | None \<Rightarrow> Map.empty) v key of
           None \<Rightarrow> (v, Suc skipped)
         | Some cand \<Rightarrow>
             (case submitVerified cr js (lf_rnd lf key) (lf_put lf key) v cand of
                (Inr _, _, v') \<Rightarrow> (v', skipped)
              | (Inl e, _, v') \<Rightarrow> (v', if e = ErrStaleDeposit then skipped else Suc skipped))))"

definition Load :: "crypto \<Rightarrow> record_json \<Rightarrow> LoadFaults \<Rightarrow> Vault \<Rightarrow> (chan_error + nat \<times> nat) \<times> Vault" where
  \<comment> \<open>the channels recovered and the records skipped\<close>
  "Load cr js lf v =
     (case va_backend v of
        None \<Rightarrow> (Inl (ErrText ''no backend to load from''), v)
      | Some _ \<Rightarrow>
          (case lf_list lf of
             Inl e \<Rightarrow> (Inl (ErrText ''listing stored records''), v)
           | Inr keys \<Rightarrow>
               (case fold (loadStep cr js lf) (sort keys) (v, 0) of
                  (v', skipped) \<Rightarrow> (Inr (length (VaultIDs v'), skipped), v'))))"

end
