(* ===== verification/Coordinator_Props.thy ===== *)
theory Coordinator_Props
  imports Coordinator
begin

text \<open>
  What the coordinator guarantees: a payment between two nodes that agree completes, collateral comes
  from the chain and nowhere else, and funds are approved before they are deposited; and what its
  result does not guarantee.
\<close>

subsection \<open>Two nodes that agree\<close>

text \<open>
  The same channel as two nodes hold it: the same facts of the chain and the same agreed state, up to
  nil amounts that the wire turns into zeros.
\<close>

definition twins :: "Channel \<Rightarrow> Channel \<Rightarrow> bool" where
  "twins a b \<longleftrightarrow> ch_ID a = ch_ID b \<and> ch_PartyA a = ch_PartyA b \<and> ch_PartyB a = ch_PartyB b \<and>
     orZero (ch_DepositA a) = orZero (ch_DepositA b) \<and> orZero (ch_DepositB a) = orZero (ch_DepositB b) \<and>
     ch_ChainID a = ch_ChainID b \<and> ch_Contract a = ch_Contract b \<and>
     ch_Status a = ch_Status b \<and> normSigned (ch_Latest a) = normSigned (ch_Latest b)"

lemma normState_sel:
  "st_BalanceA (normState s) = Some (orZero (st_BalanceA s))" "st_BalanceB (normState s) = Some (orZero (st_BalanceB s))"
  "st_Pending (normState s) = clonePending (st_Pending s)" "st_Op (normState s) = st_op s"
  "st_WithdrawA (normState s) = Some (orZero (st_WithdrawA s))" "st_WithdrawB (normState s) = Some (orZero (st_WithdrawB s))"
  by (simp_all add: normState_def)

lemma normState_eq:
  assumes "normState s = normState s'"
  shows "st_Nonce s = st_Nonce s'" "st_Channel s = st_Channel s'" "orZero (st_BalanceA s) = orZero (st_BalanceA s')"
    "orZero (st_BalanceB s) = orZero (st_BalanceB s')" "clonePending (st_Pending s) = clonePending (st_Pending s')"
    "orZero (st_WithdrawA s) = orZero (st_WithdrawA s')" "orZero (st_WithdrawB s) = orZero (st_WithdrawB s')"
  using assms normState_nonce normState_sel by (metis option.inject)+

lemma normSigned_sel:
  "ss_State (normSigned x) = normState (ss_State x)" "ss_SigA (normSigned x) = ss_SigA x" "ss_SigB (normSigned x) = ss_SigB x"
  by (simp_all add: normSigned_def)

lemma twins_latest:
  assumes "twins a b"
  shows "normState (latestState a) = normState (latestState b)" "ss_SigA (ch_Latest a) = ss_SigA (ch_Latest b)"
    "ss_SigB (ch_Latest a) = ss_SigB (ch_Latest b)"
  using assms normSigned_sel unfolding twins_def by metis+

lemma twins_base:
  assumes "twins a b"
  shows "baseState a = baseState b" "IsA a = IsA b" "isFirst a = isFirst b" "latestNonce a = latestNonce b"
proof -
  note l = twins_latest [OF assms] and n = normState_eq [OF twins_latest(1) [OF assms]]
  show "latestNonce a = latestNonce b" using n(1) .
  show f: "isFirst a = isFirst b"
    using l n(1) by (simp add: isFirst_def Complete_def)
  show "IsA a = IsA b"
    using assms by (simp add: IsA_def twins_def fun_eq_iff)
  show "baseState a = baseState b"
    using assms n f by (simp add: baseState_def Let_def twins_def)
qed

lemma twins_Apply: "twins a b \<Longrightarrow> Apply cr t a p = Apply cr t b p"
  using twins_base [of a b] by (simp add: Apply_def twins_def)

lemma normTransition_sel:
  "tr_Kind (normTransition t) = tr_Kind t" "tr_Amount (normTransition t) = Some (orZero (tr_Amount t))"
  "tr_LockID (normTransition t) = tr_LockID t" "tr_Hash (normTransition t) = tr_Hash t"
  "tr_Expiry (normTransition t) = tr_Expiry t" "tr_Preimage (normTransition t) = tr_Preimage t"
  by (simp_all add: normTransition_def)

lemma Apply_normTransition: "Apply cr (normTransition t) ch p = Apply cr t ch p"
proof -
  have "applyKind cr (normTransition t) nxt q = applyKind cr t nxt q" for nxt q
    unfolding applyKind_def normTransition_sel
    by (cases "tr_Amount t") (simp_all add: requirePositive_def split: TransitionKind.split)
  then show ?thesis
    unfolding Apply_def normTransition_sel by simp
qed

lemma validState_norm: "validState cr c (normSigned ss) = validState cr c ss"
proof -
  have locks: "locksOK (clonePending hs) = locksOK hs" for hs
    by (auto simp: locksOK_def clonePending_def comp_def)
  have total: "Conserved (normState s) x y = Conserved s x y" for s x y
    by (simp add: Conserved_def stateTotal_def normState_sel lockedTotal_def clonePending_def comp_def)
  show ?thesis
    by (simp add: validState_def normSigned_sel normState_sel locks total signedBoth_def Complete_def)
qed

lemma validState_twins: "twins a b \<Longrightarrow> validState cr a ss = validState cr b ss"
  by (simp add: validState_def signedBoth_def twins_def Conserved_def)

lemma settledBase_twins: "twins a b \<Longrightarrow> settledBase cr a \<Longrightarrow> settledBase cr b"
proof -
  assume tw: "twins a b" and s: "settledBase cr a"
  have "validState cr a (ch_Latest a) = validState cr b (ch_Latest b)"
    using validState_norm validState_twins [OF tw] tw unfolding twins_def by metis
  moreover have "st_Pending (latestState a) = [] \<longleftrightarrow> st_Pending (latestState b) = []"
    using normState_eq(5) [OF twins_latest(1) [OF tw]] by (metis clonePending_def list.map_disc_iff)
  ultimately show ?thesis
    using s tw twins_base(3) [OF tw] normState_eq [OF twins_latest(1) [OF tw]]
    by (simp add: settledBase_def twins_def split: if_splits)
qed

subsection \<open>One exchange\<close>

lemma StateEqual_norm [simp]: "StateEqual s (normState s) = Inr ()"
  by (auto simp: StateEqual_def normState_sel clonePending_def list_all2_map2 lockEqual_def list.rel_refl)

definition signs :: "crypto \<Rightarrow> PeerSession \<Rightarrow> bool" where
  \<comment> \<open>the node holds its key: it signs anything, and what it signs recovers to its own address\<close>
  "signs cr ps \<longleftrightarrow> (\<forall>raw. \<exists>sig. ps_sign ps raw = Inr sig \<and> length sig = 65 \<and> RecoverSigner cr raw sig = Inr (ps_self ps))"

definition freeAt :: "Channel \<Rightarrow> u64 \<Rightarrow> bool" where
  \<comment> \<open>open, not stopped, not quarantined, and nothing signed at that nonce yet\<close>
  "freeAt ch n \<longleftrightarrow> ch_Status ch = StatusOpen \<and> ch_Conflict ch = None \<and> \<not> ch_NeedsReconcile ch \<and> HasSigned ch n = None"

lemma signs_signFor:
  assumes "signs cr ps" "\<not> ch_NeedsReconcile ch"
  obtains sig where "signFor ps ch raw = Inr sig" "length sig = 65" "RecoverSigner cr raw sig = Inr (ps_self ps)"
  using assms by (metis signFor_def signs_def)

lemma Propose_fresh:
  assumes get: "StoreGet s i = Some ch" and free: "freeAt ch (st_Nonce nxt)" "ch_Pending ch = None"
    and ap: "Apply cr t ch (ps_self ps) = Inr nxt"
    and time: "tr_Kind t = KindLockSettle \<Longrightarrow> checkTiming ps ch t = None"
    and sig: "signFor ps ch (Digest cr nxt (ch_ChainID ch) (ch_Contract ch)) = Inr sig"
  shows "\<exists>s' ch'. Propose cr ps WriteOK s i intent t =
      (Inr (proposalEnvelope ch \<lparr> pp_Intent = intent, pp_Transition = t, pp_State = nxt, pp_Sig = sig \<rparr>), s') \<and>
    StoreGet s' i = Some ch' \<and> ch_Pending ch' = Some \<lparr> pp_Intent = intent, pp_Transition = t, pp_State = nxt, pp_Sig = sig \<rparr> \<and>
    ch_Latest ch' = ch_Latest ch \<and> ch_Status ch' = ch_Status ch \<and> ch_ID ch' = ch_ID ch \<and>
    ch_PartyA ch' = ch_PartyA ch \<and> ch_PartyB ch' = ch_PartyB ch \<and> ch_ChainID ch' = ch_ChainID ch \<and>
    ch_Contract ch' = ch_Contract ch \<and> ch_DepositA ch' = ch_DepositA ch \<and> ch_DepositB ch' = ch_DepositB ch \<and>
    ch_Conflict ch' = None \<and> \<not> ch_NeedsReconcile ch'"
proof -
  let ?p = "\<lparr> pp_Intent = intent, pp_Transition = t, pp_State = nxt, pp_Sig = sig \<rparr>"
  let ?raw = "Digest cr nxt (ch_ChainID ch) (ch_Contract ch)"
  obtain c where c: "lookupCh s i = Some c" "ch = c\<lparr>ch_NeedsReconcile := NeedsReconcile s i\<rparr>"
    using get by (auto simp: sto.snapshot_live)
  have nr: "NeedsReconcile s i = False"
    using free(1) c(2) by (simp add: freeAt_def)
  have prep: "proposePrepare cr ps ch intent t = Inr (Fresh ?p ?raw)"
    using free ap time sig by (auto simp: proposePrepare_def freeAt_def signedOther_def Let_def)
  obtain c' where c': "proposeMutate ps ?p ?raw c = Inr c'"
    by (simp add: proposeMutate_def)
  obtain s' where s': "StoreUpdate WriteOK s i (proposeMutate ps ?p ?raw) = (Inr (), s')"
    "StoreGet s' i = Some (c'\<lparr>ch_NeedsReconcile := NeedsReconcile s i\<rparr>)"
    using StoreUpdate_ok [of s i c "proposeMutate ps ?p ?raw" c'] c(1) c' by blast
  have "Propose cr ps WriteOK s i intent t = (Inr (proposalEnvelope ch ?p), s')"
    by (simp add: Propose_def get prep proposeCommit_def s'(1))
  moreover have "c' = NotePayment (NoteSigned (c\<lparr>ch_Pending := Some ?p\<rparr>) (st_Nonce nxt) ?raw)
      (recordFor intent t False PayInitiated (ps_now ps))"
    using c' by (simp add: proposeMutate_def)
  ultimately show ?thesis
    using s'(2) free c(2) nr by (auto simp: NoteSigned_def NotePayment_def freeAt_def)
qed

lemma learnFirst_ok: "\<exists>nd'. learnFirst cr WriteOK nd t = (Inr (), nd') \<and> nd_store nd' = nd_store nd"
  by (auto simp: learnFirst_def Learn_def persistVault_def Let_def split: option.split)

lemma assemble_sigs:
  "ch_PartyA ch \<noteq> ch_PartyB ch \<Longrightarrow> p = ch_PartyA ch \<or> p = ch_PartyB ch \<Longrightarrow>
   ss_SigA (assemble ch st sp p sq) = (if p = ch_PartyA ch then sp else sq) \<and>
   ss_SigB (assemble ch st sp p sq) = (if p = ch_PartyA ch then sq else sp)"
  by (auto simp: assemble_def IsA_def)

lemma assembled_valid:
  assumes ap: "Apply cr t ch p = Inr s" and base: "settledBase cr ch"
    and parties: "ch_PartyA ch \<noteq> ch_PartyB ch" "q = otherParty ch p" "p = ch_PartyA ch \<or> p = ch_PartyB ch"
    and sigs: "length sp = 65" "length sq = 65"
    and rec: "RecoverSigner cr (Digest cr s (ch_ChainID ch) (ch_Contract ch)) sp = Inr p"
      "RecoverSigner cr (Digest cr s (ch_ChainID ch) (ch_Contract ch)) sq = Inr q"
  shows "validState cr ch (assemble ch s sp p sq)" "validState cr ch (assemble ch (normState s) sp p sq)"
proof -
  have sh: "assemble ch x sp p sq = \<lparr>ss_State = x, ss_SigA = ss_SigA (assemble ch x sp p sq),
      ss_SigB = ss_SigB (assemble ch x sp p sq)\<rparr>" for x
    by (simp add: assemble_def)
  have c: "Complete (assemble ch s sp p sq)"
    using sigs by (simp add: assemble_def Complete_def)
  have sb: "signedBoth cr ch (assemble ch s sp p sq)"
    using rec parties assemble_sigs [OF parties(1,3), of s sp sq] by (auto simp: signedBoth_def Let_def otherParty_def)
  show v: "validState cr ch (assemble ch s sp p sq)"
    using Apply_validState [OF ap base] c sb sh [of s] by metis
  have "assemble ch (normState s) sp p sq = normSigned (assemble ch s sp p sq)"
    by (simp add: assemble_def normSigned_def)
  then show "validState cr ch (assemble ch (normState s) sp p sq)"
    using v validState_norm by metis
qed

lemma Accept_valid:
  assumes "validState cr ch ss" "ch_Status ch = StatusOpen" "st_Nonce (ss_State ss) = latestNonce ch + 1"
    "latestNonce ch + 1 \<noteq> 0"
  shows "Accept cr ch ss = Inr (ch\<lparr>ch_Latest := ss, ch_Signed := pruneSigned (st_Nonce (ss_State ss)) (ch_Signed ch)\<rparr>)"
  using assms nonce_succ_greater [of "latestNonce ch"] by (simp add: Accept_iff)

lemma screen_passes:
  assumes free: "freeAt ch n" "AppliedAt ch (intentOf (hexEncode k)) = None"
    and wire: "wireOK s" "wfTransition t" "length sig = 65"
    and ap: "Apply cr t ch (otherParty ch (ps_self ps)) = Inr s"
    and time: "checkTiming ps ch (normTransition t) = None"
  shows "screenProposal cr ps i ch \<lparr> bp_Intent = hexEncode k, bp_Transition = encodeTransitionWire t,
      bp_State = encodeStateWire s, bp_Sig = hexEncode sig \<rparr>
    = Inr \<lparr> sr_State = normState s, sr_Transition = normTransition t, sr_Sig = sig,
            sr_Proposer = otherParty ch (ps_self ps) \<rparr>"
proof -
  have "Matches cr (normTransition t) ch (otherParty ch (ps_self ps)) (normState s) = Inr ()"
    by (simp add: Matches_def Apply_normTransition ap)
  moreover have "decodeTransitionWire (encodeTransitionWire t) = Inr (normTransition t)"
    using wire(2) by (intro decode_encode_transition) (simp_all add: wfTransition_def)
  moreover have "parseSig (hexEncode sig) = Inr sig"
    using wire(3) by (simp add: parseSig_def)
  ultimately show ?thesis
    using free decode_encode_state [OF wire(1)] time
    by (simp add: screenProposal_def freeAt_def Let_def)
qed

lemma intentOf_hex [simp]: "length k = 32 \<Longrightarrow> intentOf (hexEncode k) = k"
  by (simp add: intentOf_def)

lemma HandlePropose_completes:
  assumes get: "StoreGet (nd_store nd) i = Some ch" and i: "length i = 32" "length k = 32"
    and free: "freeAt ch (st_Nonce s)" "AppliedAt ch k = None"
    and wire: "wireOK s" "wfTransition t" "length sig = 65"
    and ap: "Apply cr t ch p = Inr s" and p: "p = otherParty ch (ps_self ps)"
    and time: "checkTiming ps ch (normTransition t) = None"
    and base: "settledBase cr ch" "latestNonce ch + 1 \<noteq> 0"
    and parties: "ch_PartyA ch \<noteq> ch_PartyB ch" "ps_self ps = ch_PartyA ch \<or> ps_self ps = ch_PartyB ch"
    and sgn: "signs cr ps" "RecoverSigner cr (Digest cr s (ch_ChainID ch) (ch_Contract ch)) sig = Inr p"
    and m: "m = newEnvelope i (BodyPropose \<lparr> bp_Intent = hexEncode k, bp_Transition = encodeTransitionWire t,
      bp_State = encodeStateWire s, bp_Sig = hexEncode sig \<rparr>)"
  shows "\<exists>nd' ch' mySig. HandlePropose cr ps WriteOK WriteOK nd m =
      (Inr (acceptEnvelope ps ch' (hexEncode k) (st_Nonce s)), nd') \<and>
    StoreGet (nd_store nd') i = Some ch' \<and> ch_Latest ch' = assemble ch (normState s) sig p mySig \<and>
    length mySig = 65 \<and> RecoverSigner cr (Digest cr s (ch_ChainID ch) (ch_Contract ch)) mySig = Inr (ps_self ps) \<and>
    AppliedAt ch' k = Some (st_Nonce s) \<and> ch_ID ch' = ch_ID ch \<and> ch_PartyA ch' = ch_PartyA ch \<and>
    ch_PartyB ch' = ch_PartyB ch \<and> ch_DepositA ch' = ch_DepositA ch \<and> ch_DepositB ch' = ch_DepositB ch \<and>
    ch_ChainID ch' = ch_ChainID ch \<and> ch_Contract ch' = ch_Contract ch \<and> ch_Status ch' = StatusOpen \<and>
    ch_Conflict ch' = None \<and> \<not> ch_NeedsReconcile ch'"
proof -
  let ?body = "\<lparr> bp_Intent = hexEncode k, bp_Transition = encodeTransitionWire t,
      bp_State = encodeStateWire s, bp_Sig = hexEncode sig \<rparr>"
  let ?raw = "Digest cr (normState s) (ch_ChainID ch) (ch_Contract ch)"
  let ?scr = "\<lparr> sr_State = normState s, sr_Transition = normTransition t, sr_Sig = sig, sr_Proposer = p \<rparr>"
  obtain c where c: "lookupCh (nd_store nd) i = Some c" "ch = c\<lparr>ch_NeedsReconcile := NeedsReconcile (nd_store nd) i\<rparr>"
    using get by (auto simp: sto.snapshot_live)
  have nr: "\<not> ch_NeedsReconcile ch" "NeedsReconcile (nd_store nd) i = False"
    using free(1) c(2) by (simp_all add: freeAt_def)
  obtain mySig where mine: "signFor ps ch ?raw = Inr mySig" "length mySig = 65" "RecoverSigner cr ?raw mySig = Inr (ps_self ps)"
    using signs_signFor [OF sgn(1) nr(1)] by blast
  have pp: "p = ch_PartyA ch \<or> p = ch_PartyB ch" "ps_self ps = otherParty ch p"
    using p parties by (auto simp: otherParty_def)
  let ?ss = "assemble ch (normState s) sig p mySig"
  have v: "validState cr ch ?ss"
    using assembled_valid(2) [OF ap base(1) parties(1) pp(2,1) wire(3) mine(2)] mine(3) sgn(2) by simp
  have n: "st_Nonce s = latestNonce ch + 1"
    using Apply_frame(2) [OF ap] by simp
  have vc: "validState cr c ?ss" "ch_Status c = StatusOpen" "latestNonce c = latestNonce ch"
    using v free(1) c(2) validState_frame [of c ch cr ?ss] by (simp_all add: freeAt_def)
  have acc: "Accept cr c ?ss = Inr (c\<lparr>ch_Latest := ?ss, ch_Signed := pruneSigned (st_Nonce s) (ch_Signed c)\<rparr>)"
    using Accept_valid [OF vc(1,2)] vc(3) n base(2) by simp
  obtain c' where c': "acceptMutate cr ps k ?scr ?raw ?ss c = Inr c'"
    by (simp add: acceptMutate_def acc)
  then have c'eq: "c' = NotePayment (NoteSigned (NoteApplied (c\<lparr>ch_Latest := ?ss,
      ch_Signed := pruneSigned (st_Nonce s) (ch_Signed c)\<rparr>) k (st_Nonce s)) (st_Nonce s) ?raw)
      (outcomeRecord k (normTransition t) True (st_Nonce s) (ps_now ps))"
    by (simp add: acceptMutate_def acc)
  have f: "ch_Latest c' = ?ss" "AppliedAt c' k = Some (st_Nonce s)" "ch_ID c' = ch_ID ch" "ch_PartyA c' = ch_PartyA ch"
    "ch_PartyB c' = ch_PartyB ch" "ch_DepositA c' = ch_DepositA ch" "ch_DepositB c' = ch_DepositB ch"
    "ch_ChainID c' = ch_ChainID ch" "ch_Contract c' = ch_Contract ch" "ch_Status c' = StatusOpen" "ch_Conflict c' = None"
    unfolding c'eq using free(1) c(2)
    by (auto simp: NotePayment_def NoteSigned_def NoteApplied_def AppliedAt_def freeAt_def)
  obtain s' where s': "StoreUpdate WriteOK (nd_store nd) i (acceptMutate cr ps k ?scr ?raw ?ss) = (Inr (), s')"
    "StoreGet s' i = Some (c'\<lparr>ch_NeedsReconcile := NeedsReconcile (nd_store nd) i\<rparr>)"
    using StoreUpdate_ok [of "nd_store nd" i c "acceptMutate cr ps k ?scr ?raw ?ss" c'] c(1) c' by blast
  obtain nd1 where nd1: "learnFirst cr WriteOK nd (normTransition t) = (Inr (), nd1)"
    using learnFirst_ok by blast
  have scr: "screenProposal cr ps i ch ?body = Inr ?scr"
    using screen_passes [of ch "st_Nonce s" k s t sig cr ps i] free i(2) wire ap time p by simp
  have parse: "parseBytes32 (ms_Channel m) = Inr i" "ms_Body m = BodyPropose ?body"
    using i(1) by (simp_all add: m newEnvelope_def)
  let ?fresh = "c'\<lparr>ch_NeedsReconcile := NeedsReconcile (nd_store nd) i\<rparr>"
  have "HandlePropose cr ps WriteOK WriteOK nd m =
      (Inr (acceptEnvelope ps ?fresh (bp_Intent ?body) (st_Nonce (sr_State ?scr))), nd1\<lparr>nd_store := s'\<rparr>)"
    by (rule HandlePropose_accepts [OF parse get scr]) (use nd1 free(1) mine(1) s' i(2) in
        \<open>simp_all add: signedOther_def freeAt_def\<close>)
  then show ?thesis
    using s'(2) f mine nr by (intro exI [of _ "nd1\<lparr>nd_store := s'\<rparr>"] exI [of _ ?fresh] exI [of _ mySig])
      (simp add: AppliedAt_def)
qed

lemma HandleAccept_completes:
  assumes get: "StoreGet s i = Some ch" and i: "length i = 32"
    and pend: "ch_Pending ch = Some \<lparr> pp_Intent = k, pp_Transition = t, pp_State = nxt, pp_Sig = sig \<rparr>"
    and ap: "Apply cr t ch p = Inr nxt" and p: "p = ps_self ps" "q = otherParty ch p"
    and base: "settledBase cr ch" "latestNonce ch + 1 \<noteq> 0" "ch_Status ch = StatusOpen"
    and parties: "ch_PartyA ch \<noteq> ch_PartyB ch" "p = ch_PartyA ch \<or> p = ch_PartyB ch"
    and sgn: "length sig = 65" "length theirs = 65" "RecoverSigner cr (Digest cr nxt (ch_ChainID ch) (ch_Contract ch)) sig = Inr p"
      "RecoverSigner cr (Digest cr nxt (ch_ChainID ch) (ch_Contract ch)) theirs = Inr q"
    and m: "ms_Channel m = hexEncode i" "ms_Body m = BodyAccept b" "ba_Intent b = hexEncode k" "ba_Sig b = hexEncode theirs"
  shows "\<exists>s' ch'. HandleAccept cr ps WriteOK s m = (Inr (), s') \<and> StoreGet s' i = Some ch' \<and>
    ch_Latest ch' = assemble ch nxt sig p theirs \<and> ch_Pending ch' = None \<and> AppliedAt ch' k = Some (st_Nonce nxt) \<and>
    ch_ID ch' = ch_ID ch \<and> ch_PartyA ch' = ch_PartyA ch \<and> ch_PartyB ch' = ch_PartyB ch \<and>
    ch_DepositA ch' = ch_DepositA ch \<and> ch_DepositB ch' = ch_DepositB ch \<and> ch_ChainID ch' = ch_ChainID ch \<and>
    ch_Contract ch' = ch_Contract ch \<and> ch_Status ch' = StatusOpen \<and> ch_Conflict ch' = ch_Conflict ch \<and>
    ch_NeedsReconcile ch' = ch_NeedsReconcile ch"
proof -
  let ?ss = "assemble ch nxt sig p theirs" and ?p = "\<lparr> pp_Intent = k, pp_Transition = t, pp_State = nxt, pp_Sig = sig \<rparr>"
  obtain c where c: "lookupCh s i = Some c" "ch = c\<lparr>ch_NeedsReconcile := NeedsReconcile s i\<rparr>"
    using get by (auto simp: sto.snapshot_live)
  have v: "validState cr ch ?ss"
    using assembled_valid(1) [OF ap base(1) parties(1) p(2) parties(2) sgn(1,2)] sgn(3,4) by simp
  have n: "st_Nonce nxt = latestNonce ch + 1"
    using Apply_frame(2) [OF ap] by simp
  have vc: "validState cr c ?ss" "ch_Status c = StatusOpen" "latestNonce c = latestNonce ch"
    using v base(3) c(2) validState_frame [of c ch cr ?ss] by simp_all
  have acc: "Accept cr c ?ss = Inr (c\<lparr>ch_Latest := ?ss, ch_Signed := pruneSigned (st_Nonce nxt) (ch_Signed c)\<rparr>)"
    using Accept_valid [OF vc(1,2)] vc(3) n base(2) by simp
  obtain c' where c': "completeMutate cr ps ?p ?ss c = Inr c'"
    by (simp add: completeMutate_def acc)
  then have c'eq: "c' = NotePayment ((NoteApplied (c\<lparr>ch_Latest := ?ss,
      ch_Signed := pruneSigned (st_Nonce nxt) (ch_Signed c)\<rparr>) k (st_Nonce nxt))\<lparr>ch_Pending := None\<rparr>)
      (outcomeRecord k t False (st_Nonce nxt) (ps_now ps))"
    by (simp add: completeMutate_def acc)
  obtain s' where s': "StoreUpdate WriteOK s i (completeMutate cr ps ?p ?ss) = (Inr (), s')"
    "StoreGet s' i = Some (c'\<lparr>ch_NeedsReconcile := NeedsReconcile s i\<rparr>)"
    using StoreUpdate_ok [of s i c "completeMutate cr ps ?p ?ss" c'] c(1) c' by blast
  have "HandleAccept cr ps WriteOK s m = (Inr (), s')"
    using i sgn(2) s'(1) by (simp add: HandleAccept_def m get pend parseSig_def p(1) [symmetric])
  then show ?thesis
    using s'(2) c(2) vc(2) unfolding c'eq
    by (intro exI [of _ s'] exI [of _ "c'\<lparr>ch_NeedsReconcile := NeedsReconcile s i\<rparr>"], unfold c'eq)
      (simp add: NotePayment_def NoteApplied_def AppliedAt_def)
qed

subsection \<open>A payment between two coordinators\<close>

text \<open>
  What \<^verbatim>\<open>Pay\<close> and \<^verbatim>\<open>Handle\<close> need to find: both nodes track the channel and agree about it, both hold
  their keys, nothing is outstanding, and the transition is one the agreed state allows now.
\<close>

definition readyToPay ::
  "crypto \<Rightarrow> Coordinator \<Rightarrow> Coordinator \<Rightarrow> bytes32 \<Rightarrow> bytes32 \<Rightarrow> StateTransition \<Rightarrow> Channel \<Rightarrow> Channel \<Rightarrow> State \<Rightarrow> bool" where
  "readyToPay cr a b i k t chA chB nxt \<longleftrightarrow>
     length i = 32 \<and> length k = 32 \<and> wfTransition t \<and> wfChannel chA \<and> ch_ID chA = i \<and> twins chA chB \<and>
     ch_PartyA chA \<noteq> ch_PartyB chA \<and> {co_self a, co_self b} = {ch_PartyA chA, ch_PartyB chA} \<and>
     ps_self (co_sess a) = co_self a \<and> ps_self (co_sess b) = co_self b \<and>
     signs cr (co_sess a) \<and> signs cr (co_sess b) \<and> settledBase cr chA \<and> latestNonce chA + 1 \<noteq> 0 \<and>
     freeAt chA (latestNonce chA + 1) \<and> freeAt chB (latestNonce chA + 1) \<and> ch_Pending chA = None \<and>
     AppliedAt chA k = None \<and> AppliedAt chB k = None \<and> Apply cr t chA (co_self a) = Inr nxt \<and>
     (tr_Kind t = KindLockSettle \<longrightarrow> checkTiming (co_sess a) chA t = None) \<and>
     checkTiming (co_sess b) chB (normTransition t) = None"

definition allWritesOK :: CoordFaults where
  "allWritesOK = \<lparr> cf_adopt = WriteOK, cf_commit = WriteOK, cf_unknown = WriteOK, cf_vault = WriteOK \<rparr>"

lemma allWritesOK_sel [simp]:
  "cf_adopt allWritesOK = WriteOK" "cf_commit allWritesOK = WriteOK" "cf_unknown allWritesOK = WriteOK"
  "cf_vault allWritesOK = WriteOK"
  by (simp_all add: allWritesOK_def)

definition answeredBy :: "crypto \<Rightarrow> Coordinator \<Rightarrow> reader \<Rightarrow> CoordState \<Rightarrow> exchange" where
  \<comment> \<open>a peer that runs \<^verbatim>\<open>Handle\<close> on the message and sends its reply back\<close>
  "answeredBy cr b ReadChannel csB m =
     (case fst (Handle cr b allWritesOK ReadChannel csB m) of
        Inr (Some reply) \<Rightarrow> Inr reply
      | Inr None \<Rightarrow> Inl ''no reply''
      | Inl e \<Rightarrow> Inl ''refused'')"

lemma msgType_simps [simp]:
  "ms_Body m = BodyAccept x \<Longrightarrow> msgType m = MsgStateAccept" "ms_Body m = BodyPropose y \<Longrightarrow> msgType m = MsgStatePropose"
  "ms_Body m = BodyReject z \<Longrightarrow> msgType m = MsgStateReject"
  by (simp_all add: msgType_def)

lemma Adopt_known: "StoreGet s i \<noteq> None \<Longrightarrow> Adopt cr c w rd s i = (Inr (), s)"
  by (simp add: Adopt_def)

lemma acceptEnvelope_fields:
  "ms_Channel (acceptEnvelope ps ch k n) = hexEncode (ch_ID ch)"
  "ms_Body (acceptEnvelope ps ch k n) = BodyAccept \<lparr> ba_Intent = k, ba_Nonce = n,
     ba_Sig = hexEncode (if \<not> IsA ch (ps_self ps) then ss_SigB (ch_Latest ch) else ss_SigA (ch_Latest ch)) \<rparr>"
  by (simp_all add: acceptEnvelope_def newEnvelope_def)

text \<open>A payment over two nodes that agree, from the proposal to the completed state.\<close>

lemma payment_runs:
  assumes A: "StoreGet (nd_store (cs_node csA)) i = Some chA" and B: "StoreGet (nd_store (cs_node csB)) i = Some chB"
    and ready: "readyToPay cr a b i k t chA chB nxt"
  shows "\<exists>csA' msg chA' chB'.
    fst (Propose cr (co_sess a) WriteOK (nd_store (cs_node csA)) i k t) = Inr msg \<and>
    (\<forall>ex. ex msg = answeredBy cr b rdB csB msg \<longrightarrow>
      Pay cr a allWritesOK rdA ex csA i k t = (Inr (paidResult (st_Nonce nxt)), csA')) \<and>
    StoreGet (nd_store (cs_node csA')) i = Some chA' \<and>
    StoreGet (nd_store (cs_node (snd (Handle cr b allWritesOK rdB csB msg)))) i = Some chB' \<and>
    latestState chA' = nxt \<and> twins chA' chB' \<and> ch_Pending chA' = None \<and>
    Complete (ch_Latest chA') \<and> signedBoth cr chA' (ch_Latest chA') \<and>
    Complete (ch_Latest chB') \<and> signedBoth cr chB' (ch_Latest chB') \<and>
    AppliedAt chA' k = Some (st_Nonce nxt) \<and> AppliedAt chB' k = Some (st_Nonce nxt)"
proof -
  have r: "length i = 32" "length k = 32" "wfTransition t" "wfChannel chA" "ch_ID chA = i" "twins chA chB"
    "ch_PartyA chA \<noteq> ch_PartyB chA" "{co_self a, co_self b} = {ch_PartyA chA, ch_PartyB chA}"
    and selfs: "ps_self (co_sess a) = co_self a" "ps_self (co_sess b) = co_self b"
    and keys: "signs cr (co_sess a)" "signs cr (co_sess b)"
    and base: "settledBase cr chA" "latestNonce chA + 1 \<noteq> 0"
    and free: "freeAt chA (latestNonce chA + 1)" "freeAt chB (latestNonce chA + 1)" "ch_Pending chA = None"
    and fresh: "AppliedAt chA k = None" "AppliedAt chB k = None"
    and ap: "Apply cr t chA (co_self a) = Inr nxt"
    and time: "tr_Kind t = KindLockSettle \<Longrightarrow> checkTiming (co_sess a) chA t = None"
      "checkTiming (co_sess b) chB (normTransition t) = None"
    using ready unfolding readyToPay_def by blast+
  let ?sA = "nd_store (cs_node csA)" and ?p = "co_self a" and ?raw = "Digest cr nxt (ch_ChainID chA) (ch_Contract chA)"
  have n: "st_Nonce nxt = latestNonce chA + 1"
    using Apply_frame(2) [OF ap] .
  have nr: "\<not> ch_NeedsReconcile chA"
    using free(1) by (simp add: freeAt_def)
  obtain sig where sig: "signFor (co_sess a) chA ?raw = Inr sig" "length sig = 65" "RecoverSigner cr ?raw sig = Inr ?p"
    using signs_signFor [OF keys(1) nr] selfs(1) by metis
  let ?pend = "\<lparr> pp_Intent = k, pp_Transition = t, pp_State = nxt, pp_Sig = sig \<rparr>"
  let ?m = "proposalEnvelope chA ?pend"
  have apA: "Apply cr t chA (ps_self (co_sess a)) = Inr nxt"
    using ap selfs(1) by simp
  obtain s1 ch1 where P: "Propose cr (co_sess a) WriteOK ?sA i k t = (Inr ?m, s1)" "StoreGet s1 i = Some ch1"
    "ch_Pending ch1 = Some ?pend" and same: "ch_Latest ch1 = ch_Latest chA" "ch_Status ch1 = ch_Status chA" "ch_ID ch1 = ch_ID chA"
    "ch_PartyA ch1 = ch_PartyA chA" "ch_PartyB ch1 = ch_PartyB chA" "ch_ChainID ch1 = ch_ChainID chA"
    "ch_Contract ch1 = ch_Contract chA" "ch_DepositA ch1 = ch_DepositA chA" "ch_DepositB ch1 = ch_DepositB chA"
    "ch_Conflict ch1 = None"
    using Propose_fresh [OF A free(1) [folded n] free(3) apA time(1) sig(1)] by blast
  have m: "?m = newEnvelope i (BodyPropose \<lparr> bp_Intent = hexEncode k, bp_Transition = encodeTransitionWire t,
      bp_State = encodeStateWire nxt, bp_Sig = hexEncode sig \<rparr>)"
    using r(5) by (simp add: proposalEnvelope_def)
  have tw: "ch_PartyA chB = ch_PartyA chA" "ch_PartyB chB = ch_PartyB chA" "ch_ChainID chB = ch_ChainID chA"
    "ch_Contract chB = ch_Contract chA"
    using r(6) by (simp_all add: twins_def)
  have parties: "?p = otherParty chB (ps_self (co_sess b))" "?p = ch_PartyA chA \<or> ?p = ch_PartyB chA"
    "co_self b = otherParty chA ?p" "ps_self (co_sess b) = ch_PartyA chB \<or> ps_self (co_sess b) = ch_PartyB chB"
    using r(7,8) unfolding tw otherParty_def selfs(2) doubleton_eq_iff by metis+
  have apB: "Apply cr t chB ?p = Inr nxt"
    using twins_Apply [OF r(6), of cr t ?p] ap by simp
  have freeB: "freeAt chB (st_Nonce nxt)"
    using free(2) n by simp
  have baseB: "settledBase cr chB" "latestNonce chB + 1 \<noteq> 0"
    using settledBase_twins [OF r(6) base(1)] twins_base(4) [OF r(6)] base(2) by simp_all
  have difB: "ch_PartyA chB \<noteq> ch_PartyB chB"
    using r(7) tw by simp
  have sigB: "RecoverSigner cr (Digest cr nxt (ch_ChainID chB) (ch_Contract chB)) sig = Inr ?p"
    using sig(3) tw by simp
  obtain nd2 ch2 mySig where H: "HandlePropose cr (co_sess b) WriteOK WriteOK (cs_node csB) ?m =
      (Inr (acceptEnvelope (co_sess b) ch2 (hexEncode k) (st_Nonce nxt)), nd2)"
    "StoreGet (nd_store nd2) i = Some ch2" "ch_Latest ch2 = assemble chB (normState nxt) sig ?p mySig"
    "length mySig = 65" "RecoverSigner cr (Digest cr nxt (ch_ChainID chB) (ch_Contract chB)) mySig = Inr (ps_self (co_sess b))"
    "AppliedAt ch2 k = Some (st_Nonce nxt)"
    and same2: "ch_ID ch2 = ch_ID chB" "ch_PartyA ch2 = ch_PartyA chB" "ch_PartyB ch2 = ch_PartyB chB"
    "ch_DepositA ch2 = ch_DepositA chB" "ch_DepositB ch2 = ch_DepositB chB" "ch_ChainID ch2 = ch_ChainID chB"
    "ch_Contract ch2 = ch_Contract chB" "ch_Status ch2 = StatusOpen"
    using HandlePropose_completes [OF B r(1,2) freeB fresh(2) Apply_wireOK [OF ap r(4,3)] r(3) sig(2) apB parties(1)
        time(2) baseB difB parties(4) keys(2) sigB m] by blast
  let ?reply = "acceptEnvelope (co_sess b) ch2 (hexEncode k) (st_Nonce nxt)"
  have theirs: "(if \<not> IsA ch2 (ps_self (co_sess b)) then ss_SigB (ch_Latest ch2) else ss_SigA (ch_Latest ch2)) = mySig"
  proof (cases "ch_PartyA chA = ps_self (co_sess b)")
    case True
    then show ?thesis
      using parties(1) difB tw unfolding H(3) IsA_def same2 by (simp add: assemble_def IsA_def otherParty_def)
  next
    case False
    then show ?thesis
      using parties(1,4) difB tw unfolding H(3) IsA_def same2 by (simp add: assemble_def IsA_def otherParty_def)
  qed
  have ch1: "Apply cr t ch1 ?p = Inr nxt" "settledBase cr ch1" "latestNonce ch1 + 1 \<noteq> 0" "ch_Status ch1 = StatusOpen"
    "ch_PartyA ch1 \<noteq> ch_PartyB ch1" "?p = ch_PartyA ch1 \<or> ?p = ch_PartyB ch1" "co_self b = otherParty ch1 ?p"
    "RecoverSigner cr (Digest cr nxt (ch_ChainID ch1) (ch_Contract ch1)) sig = Inr ?p"
    "RecoverSigner cr (Digest cr nxt (ch_ChainID ch1) (ch_Contract ch1)) mySig = Inr (co_self b)"
  proof -
    have tw1: "twins chA ch1"
      using same by (simp add: twins_def)
    show "Apply cr t ch1 ?p = Inr nxt" using twins_Apply [OF tw1, of cr t ?p] ap by simp
    show "settledBase cr ch1" using settledBase_twins [OF tw1 base(1)] .
    show "latestNonce ch1 + 1 \<noteq> 0" using base(2) same by simp
    show "ch_Status ch1 = StatusOpen" using free(1) same by (simp add: freeAt_def)
    show "ch_PartyA ch1 \<noteq> ch_PartyB ch1" using r(7) same by simp
    show "?p = ch_PartyA ch1 \<or> ?p = ch_PartyB ch1" using parties(2) unfolding same .
    show "co_self b = otherParty ch1 ?p" using parties(3) unfolding otherParty_def same .
    show "RecoverSigner cr (Digest cr nxt (ch_ChainID ch1) (ch_Contract ch1)) sig = Inr ?p" using sig(3) unfolding same .
    show "RecoverSigner cr (Digest cr nxt (ch_ChainID ch1) (ch_Contract ch1)) mySig = Inr (co_self b)"
      using H(5) unfolding same tw selfs(2) .
  qed
  have reply: "ms_Channel ?reply = hexEncode i" "ms_Body ?reply = BodyAccept \<lparr> ba_Intent = hexEncode k,
      ba_Nonce = st_Nonce nxt, ba_Sig = hexEncode mySig \<rparr>"
    using r(5,6) by (simp_all add: acceptEnvelope_fields theirs same2 twins_def)
  obtain s3 ch3 where C: "HandleAccept cr (co_sess a) WriteOK s1 ?reply = (Inr (), s3)" "StoreGet s3 i = Some ch3"
    "ch_Latest ch3 = assemble ch1 nxt sig ?p mySig" "ch_Pending ch3 = None" "AppliedAt ch3 k = Some (st_Nonce nxt)"
    and same3: "ch_ID ch3 = ch_ID ch1" "ch_PartyA ch3 = ch_PartyA ch1" "ch_PartyB ch3 = ch_PartyB ch1"
    "ch_DepositA ch3 = ch_DepositA ch1" "ch_DepositB ch3 = ch_DepositB ch1" "ch_ChainID ch3 = ch_ChainID ch1"
    "ch_Contract ch3 = ch_Contract ch1" "ch_Status ch3 = StatusOpen"
    using HandleAccept_completes [OF P(2) r(1) P(3) ch1(1) selfs(1) [symmetric] ch1(7,2,3,4,5,6) sig(2) H(4) ch1(8,9) reply]
    by auto
  have handled: "Handle cr b allWritesOK rdB csB ?m = (Inr (Some ?reply), csB\<lparr>cs_node := nd2\<rparr>)"
    using r(1) H(1) B by (simp add: Handle_def m newEnvelope_def msgType_def Adopt_known)
  have paid: "Pay cr a allWritesOK rdA ex csA i k t
      = (Inr (paidResult (st_Nonce nxt)), csA\<lparr>cs_node := (cs_node csA)\<lparr>nd_store := s3\<rparr>,
          cs_metrics := recordCompletion t (TipAttempted (cs_metrics csA))\<rparr>)"
    if "ex ?m = answeredBy cr b rdB csB ?m" for ex
    using free(1) fresh(1) A P(1) C that
    by (simp add: Pay_def Adopt_known answeredBy_def handled Let_def payReply_def reply(2) freeAt_def
        assemble_def)
  have latest: "latestState ch3 = nxt" "twins ch3 ch2"
    using r(6) same C(3) H(3) same2 same3
    by (simp_all add: twins_def assemble_def IsA_def normSigned_def)
  have "validState cr ch1 (ch_Latest ch3)"
    unfolding C(3) using assembled_valid(1) [OF ch1(1,2,5,7,6) sig(2) H(4) ch1(8,9)] .
  then have vA: "validState cr ch3 (ch_Latest ch3)"
    using validState_frame [of ch3 ch1 cr] same3 by simp
  have "validState cr ch3 (ch_Latest ch2)"
    using vA validState_norm latest(2) unfolding twins_def by metis
  then have vB: "validState cr ch2 (ch_Latest ch2)"
    using validState_twins [OF latest(2)] by simp
  have both: "Complete (ch_Latest ch3) \<and> signedBoth cr ch3 (ch_Latest ch3) \<and>
      Complete (ch_Latest ch2) \<and> signedBoth cr ch2 (ch_Latest ch2)"
    using vA vB by (simp add: validState_def)
  show ?thesis
    using paid handled C(2,4,5) H(2,6) latest both P(1)
    by (intro exI [of _ "csA\<lparr>cs_node := (cs_node csA)\<lparr>nd_store := s3\<rparr>,
          cs_metrics := recordCompletion t (TipAttempted (cs_metrics csA))\<rparr>"] exI [of _ ?m] exI [of _ ch3] exI [of _ ch2]) simp
qed

text \<open>
  (C19) A payment between two honest nodes completes. If both track the channel and agree about it, both
  hold their keys, nothing is outstanding, the transition is one the agreed state allows at the two
  nodes' clocks, and every write of the two nodes succeeds (\<open>allWritesOK\<close>), then \<^verbatim>\<open>Pay\<close> sends the proposal that
  \<^verbatim>\<open>Propose\<close> returned, and over any exchange that answers that one message as a peer running \<^verbatim>\<open>Handle\<close> does it
  reports the payment done. The payer and the peer that handled that message then hold the same next state,
  complete and signed by both parties, with the intent applied at its nonce and nothing outstanding, and
  agree about the channel again, so that the next payment can follow.
\<close>

theorem Pay_completes:
  assumes A: "StoreGet (nd_store (cs_node csA)) i = Some chA" and B: "StoreGet (nd_store (cs_node csB)) i = Some chB"
    and ready: "readyToPay cr a b i k t chA chB nxt"
  shows "\<exists>csA' msg chA' chB'.
    fst (Propose cr (co_sess a) WriteOK (nd_store (cs_node csA)) i k t) = Inr msg \<and>
    (\<forall>ex. ex msg = answeredBy cr b rdB csB msg \<longrightarrow>
      Pay cr a allWritesOK rdA ex csA i k t = (Inr (paidResult (st_Nonce nxt)), csA')) \<and>
    StoreGet (nd_store (cs_node csA')) i = Some chA' \<and>
    StoreGet (nd_store (cs_node (snd (Handle cr b allWritesOK rdB csB msg)))) i = Some chB' \<and>
    latestState chA' = nxt \<and> twins chA' chB' \<and> ch_Pending chA' = None \<and>
    Complete (ch_Latest chA') \<and> signedBoth cr chA' (ch_Latest chA') \<and>
    Complete (ch_Latest chB') \<and> signedBoth cr chB' (ch_Latest chB') \<and>
    AppliedAt chA' k = Some (st_Nonce nxt) \<and> AppliedAt chB' k = Some (st_Nonce nxt)"
  by (rule payment_runs [OF assms])

definition demoCoordinator :: "address \<Rightarrow> Coordinator" where
  "demoCoordinator self = NewCoordinator (Some 1) demoB self (\<lambda>_. Inr (demoSig self)) 30 600 1000"

definition demoCoordState :: CoordState where
  "demoCoordState = \<lparr> cs_node = demoNode, cs_metrics = Some NewMetrics \<rparr>"

lemma demo_ready:
  "\<exists>nxt. readyToPay demoCrypto (demoCoordinator demoA) (demoCoordinator demoB) demoKey demoID (demoPay 30)
     (trackedChannel (Some 1) demoB demoOcc) (trackedChannel (Some 1) demoB demoOcc) nxt \<and> st_BalanceB nxt = Some 80"
proof -
  let ?c = "trackedChannel (Some 1) demoB demoOcc"
  have sel: "co_self (demoCoordinator x) = x" "ps_self (co_sess (demoCoordinator x)) = x" for x
    by (simp_all add: demoCoordinator_def NewCoordinator_def)
  have sign: "signs demoCrypto (co_sess (demoCoordinator demoA))" "signs demoCrypto (co_sess (demoCoordinator demoB))"
    using demo_sig_len by (simp_all add: signs_def demoCoordinator_def NewCoordinator_def)
  have first: "isFirst ?c" "latestNonce ?c = 0" "st_Pending (latestState ?c) = []"
    by (simp_all add: isFirst_def not_Complete_empty emptySigned_def emptyState_def)
  have base: "settledBase demoCrypto ?c"
    using first by (simp add: settledBase_def) (simp add: trackedChannel_def demoOcc_def)
  have wf: "wfChannel ?c"
    by (simp add: wfChannel_def wireOK_def emptySigned_def emptyState_def canonical_def st_op_def Op_defs)
      (simp add: trackedChannel_def)
  have free: "freeAt ?c n" for n
    by (simp add: freeAt_def HasSigned_def)
  have time: "checkTiming ps ?c (normTransition (demoPay 30)) = None" for ps
    by (simp add: checkTiming_def normTransition_def demoPay_def)
  have "length demoID = 32" "wfTransition (demoPay 30)" "tr_Kind (demoPay 30) \<noteq> KindLockSettle"
    by (simp_all add: demoID_def wfTransition_def demoPay_def)
  moreover have "{demoA, demoB} = {ch_PartyA ?c, ch_PartyB ?c}" "twins ?c ?c" "AppliedAt ?c k = None" for k
    by (simp_all add: twins_def AppliedAt_def)
  ultimately show ?thesis
    using sign base wf free time demo_apply [of 30] first(2)
    by (simp add: readyToPay_def sel)
qed

theorem Pay_completes_witness:
  "\<exists>cs' ch'. Pay demoCrypto (demoCoordinator demoA) allWritesOK (\<lambda>_ _. Inl ErrChainUnreachable)
      (answeredBy demoCrypto (demoCoordinator demoB) (\<lambda>_ _. Inl ErrChainUnreachable) demoCoordState)
      demoCoordState demoKey demoID (demoPay 30) = (Inr (paidResult 1), cs') \<and>
    StoreGet (nd_store (cs_node cs')) demoKey = Some ch' \<and> st_BalanceB (latestState ch') = Some 80"
proof -
  let ?c = "trackedChannel (Some 1) demoB demoOcc"
  obtain nxt where ready: "readyToPay demoCrypto (demoCoordinator demoA) (demoCoordinator demoB) demoKey demoID (demoPay 30)
     ?c ?c nxt" and bal: "st_BalanceB nxt = Some 80"
    using demo_ready by blast
  have get: "StoreGet (nd_store (cs_node demoCoordState)) demoKey = Some ?c"
    using demo_get by (simp add: demoCoordState_def demoNode_def)
  have "latestNonce ?c = 0"
    by (simp add: emptySigned_def emptyState_def)
  moreover have "Apply demoCrypto (demoPay 30) ?c (co_self (demoCoordinator demoA)) = Inr nxt"
    using ready unfolding readyToPay_def by blast
  ultimately have "st_Nonce nxt = 1"
    using Apply_frame(2) by fastforce
  then show ?thesis
    using Pay_completes [OF get get ready] bal by metis
qed

subsection \<open>Collateral comes from the chain\<close>

text \<open>The facts of a channel that only the chain may set.\<close>

definition chainFacts :: "Channel \<Rightarrow> bytes32 \<times> address \<times> address \<times> bigint \<times> bigint \<times> bigint \<times> address \<times> Status" where
  "chainFacts c = (ch_ID c, ch_PartyA c, ch_PartyB c, ch_DepositA c, ch_DepositB c, ch_ChainID c, ch_Contract c, ch_Status c)"

definition keepsFacts :: "(Channel \<Rightarrow> chan_error + Channel) \<Rightarrow> bool" where
  "keepsFacts f \<longleftrightarrow> (\<forall>c c'. f c = Inr c' \<longrightarrow> chainFacts c' = chainFacts c)"

definition factsAt :: "Store \<Rightarrow> bytes32 \<Rightarrow> _" where
  "factsAt s j = map_option chainFacts (lookupCh s j)"

lemma factsAt_StoreUpdate: "keepsFacts f \<Longrightarrow> factsAt (snd (StoreUpdate w s i f)) = factsAt s"
  by (cases rule: sto.commit_cases [of w s i f]) (auto simp: factsAt_def keepsFacts_def fun_eq_iff)

lemma chainFacts_Accept: "Accept cr c cand = Inr c' \<Longrightarrow> chainFacts c' = chainFacts c"
  using Accept_frame [of cr c cand c'] by (simp add: chainFacts_def)

lemma chainFacts_notes [simp]:
  "chainFacts (NotePayment c r) = chainFacts c" "chainFacts (NoteSigned c n d) = chainFacts c"
  "chainFacts (NoteApplied c k n) = chainFacts c" "chainFacts (c\<lparr>ch_Pending := p\<rparr>) = chainFacts c"
  "chainFacts (c\<lparr>ch_Conflict := x\<rparr>) = chainFacts c"
  by (simp_all add: chainFacts_def NotePayment_def NoteSigned_def NoteApplied_def)

lemma keepsFacts_mutations:
  "keepsFacts (proposeMutate ps p raw)" "keepsFacts (completeMutate cr ps p ss)" "keepsFacts (rejectMutate ps body)"
  "keepsFacts (acceptMutate cr ps k scr raw ss)" "keepsFacts (adoptMutate cr ps ss)"
  "keepsFacts (conflictMutate n x y)" "keepsFacts (noteUnknown k t now text)"
  by (auto simp: keepsFacts_def proposeMutate_def completeMutate_def rejectMutate_def acceptMutate_def adoptMutate_def
      conflictMutate_def noteUnknown_def bindR_Inr chainFacts_Accept split: option.splits if_splits)

lemma factsAt_commit: "StoreUpdate w s i f = (r, s') \<Longrightarrow> keepsFacts f \<Longrightarrow> factsAt s' = factsAt s"
  using factsAt_StoreUpdate [of f w s i] by simp

lemma factsAt_HandleAccept: "factsAt (snd (HandleAccept cr ps w s m)) = factsAt s"
  by (simp add: HandleAccept_def factsAt_StoreUpdate keepsFacts_mutations split: sum.split Body.split option.split)

lemma factsAt_HandleReject: "factsAt (snd (HandleReject ps w s m)) = factsAt s"
  by (auto simp: HandleReject_def keepsFacts_mutations split: sum.split Body.split prod.split dest: factsAt_commit)

lemma factsAt_HandleResponse: "factsAt (snd (HandleResponse cr ps w s m)) = factsAt s"
  by (auto simp: HandleResponse_def keepsFacts_mutations split: sum.split Body.split prod.split option.split
      dest: factsAt_commit)

lemma factsAt_HandleConflict: "factsAt (snd (HandleConflict cr w s m)) = factsAt s"
  by (auto simp: HandleConflict_def keepsFacts_mutations split: sum.split Body.split prod.split option.split
      dest: factsAt_commit)

lemma factsAt_HandlePropose: "factsAt (nd_store (snd (HandlePropose cr ps w wv nd m))) = factsAt (nd_store nd)"
proof (cases rule: HandlePropose_cases [of cr ps w wv nd m])
  case quiet
  then show ?thesis by simp
next
  case (commit a nd1 r s')
  show ?thesis
    unfolding commit(3) using commit(2) by (rule factsAt_commit) (simp add: acceptChange_def keepsFacts_mutations(4))
qed

lemma factsAt_Propose: "factsAt (snd (Propose cr ps w s i k t)) = factsAt s"
  by (auto simp: Propose_def proposeCommit_def keepsFacts_mutations split: sum.split prod.split option.split Prepared.split
      dest: factsAt_commit)

lemma factsAt_Adopt:
  assumes "Adopt cr c w rd s i = (r, s')"
  shows "factsAt s' j = factsAt s j \<or> factsAt s j = None \<and> (\<exists>occ. rd (co_contract c) i = Inr occ \<and> oc_ID occ = j \<and>
    oc_fromChain occ \<and> oc_Status occ = StatusOpen \<and> DeriveChannelID cr (oc_PartyA occ) (oc_PartyB occ) = j \<and>
    co_self c \<in> {oc_PartyA occ, oc_PartyB occ} \<and>
    factsAt s' j = Some (chainFacts (trackedChannel (co_chainID c) (co_contract c) occ)))"
proof -
  consider "s' = s"
    | occ where "rd (co_contract c) i = Inr occ" "co_self c \<in> {oc_PartyA occ, oc_PartyB occ}"
      "s' = snd (TrackFromChain cr w s (co_chainID c) (co_contract c) occ)"
    using assms by (auto simp: Adopt_def split: if_splits sum.splits prod.splits)
  then show ?thesis
  proof cases
    case 2
    let ?ch = "trackedChannel (co_chainID c) (co_contract c) occ"
    consider "s' = s" | "oc_fromChain occ" "oc_Status occ = StatusOpen"
      "DeriveChannelID cr (oc_PartyA occ) (oc_PartyB occ) = oc_ID occ" "lookupCh s (oc_ID occ) = None"
      "s' = snd (commitCh w s (oc_ID occ) ?ch)"
      using 2(3) by (auto simp: TrackFromChain_def split: if_splits)
    then show ?thesis
    proof cases
      case 2
      then show ?thesis
        using lookup_commitCh [of w s "oc_ID occ" ?ch "fst (commitCh w s (oc_ID occ) ?ch)" s'] \<open>rd (co_contract c) i = Inr occ\<close>
          \<open>co_self c \<in> {oc_PartyA occ, oc_PartyB occ}\<close>
        by (cases "j = oc_ID occ") (auto simp: factsAt_def prod_eq_iff)
    qed simp
  qed simp
qed

text \<open>What a message does to the facts in the store: nothing, or an adoption.\<close>

lemma Handle_effect:
  assumes "Handle cr c w rd cs m = (r, cs')"
    and s: "s = nd_store (cs_node cs)" "s' = nd_store (cs_node cs')"
  shows "factsAt s' = factsAt s \<or> (\<exists>i r1 s1. Adopt cr c (cf_adopt w) rd s i = (r1, s1) \<and> factsAt s' = factsAt s1)"
proof -
  have H: "s' = nd_store (cs_node (snd (Handle cr c w rd cs m)))"
    using assms by simp
  show ?thesis
  proof (cases "msgType m")
    case MsgChannelAnnounce
    then show ?thesis
      unfolding H by (auto simp: Handle_def Let_def AdoptAnnounced_def s(1) split: sum.split prod.split)
  next
    case MsgStateRequest
    then show ?thesis
      unfolding H by (auto simp: Handle_def Let_def s(1) split: sum.split prod.split)
  next
    case MsgStatePropose
    have hp: "factsAt (nd_store nd') = factsAt (nd_store nd)"
      if "HandlePropose cr (co_sess c) (cf_commit w) (cf_vault w) nd m = (x, nd')" for nd nd' x
      using factsAt_HandlePropose [of cr "co_sess c" "cf_commit w" "cf_vault w" nd m] that by simp
    from MsgStatePropose show ?thesis
      unfolding H by (auto simp: Handle_def Let_def s(1) split: sum.split prod.split dest!: hp) blast+
  next
    case MsgStateAccept
    then show ?thesis
      unfolding H using factsAt_HandleAccept [of cr "co_sess c" "cf_commit w" s m]
      by (auto simp: Handle_def Let_def s(1) split: prod.split)
  next
    case MsgStateReject
    then show ?thesis
      unfolding H using factsAt_HandleReject [of "co_sess c" "cf_commit w" s m]
      by (auto simp: Handle_def Let_def s(1) split: prod.split)
  next
    case MsgStateResponse
    then show ?thesis
      unfolding H using factsAt_HandleResponse [of cr "co_sess c" "cf_commit w" s m]
      by (auto simp: Handle_def Let_def s(1) split: prod.split sum.split ResyncOutcome.split)
  next
    case MsgConflict
    then show ?thesis
      unfolding H using factsAt_HandleConflict [of cr "cf_commit w" s m]
      by (auto simp: Handle_def Let_def s(1) split: prod.split)
  qed (simp_all add: H s(1) Handle_def Let_def)
qed

text \<open>
  Collateral comes from the chain and nowhere else. Whatever message arrives, the parties, deposits,
  status, chain and contract of a tracked channel stay as they are; and a channel that appears was read
  from the chain during that call, is open there, has an id its parties derive, has this node as a party,
  and carries exactly the deposits the chain reported. A peer can name a channel; it cannot describe one.
\<close>

theorem Handle_facts_from_chain:
  "factsAt (nd_store (cs_node (snd (Handle cr c w rd cs m)))) j = factsAt (nd_store (cs_node cs)) j \<or>
    factsAt (nd_store (cs_node cs)) j = None \<and>
    (\<exists>i occ. rd (co_contract c) i = Inr occ \<and> oc_ID occ = j \<and> oc_fromChain occ \<and>
      oc_Status occ = StatusOpen \<and> DeriveChannelID cr (oc_PartyA occ) (oc_PartyB occ) = j \<and>
      co_self c \<in> {oc_PartyA occ, oc_PartyB occ} \<and>
      factsAt (nd_store (cs_node (snd (Handle cr c w rd cs m)))) j
        = Some (chainFacts (trackedChannel (co_chainID c) (co_contract c) occ)))"
proof -
  let ?s = "nd_store (cs_node cs)" and ?s' = "nd_store (cs_node (snd (Handle cr c w rd cs m)))"
  consider "factsAt ?s' = factsAt ?s"
    | i r1 s1 where "Adopt cr c (cf_adopt w) rd ?s i = (r1, s1)" "factsAt ?s' = factsAt s1"
    using Handle_effect [OF prod.collapse [symmetric] refl refl, of cr c w rd cs m] by blast
  then show ?thesis
  proof cases
    case (2 i r1 s1)
    show ?thesis
      unfolding 2(2) using factsAt_Adopt [OF 2(1), of j] by blast
  qed simp
qed

subsection \<open>Funding a channel\<close>

text \<open>
  Opening a channel sends nothing it need not. A transaction leaves this node only when the chain
  said the channel does not exist, the partner is somebody else and the deposit is not negative; the
  token is approved only when the allowance is short, and before the channel is opened, and the channel
  is not opened when the approval failed; and while nothing is found on chain the store is not touched.
\<close>

theorem OpenChannel_sends:
  assumes "OpenChannel cr c w rd rd' Send allow s token partner deposit = (r, out, calls, s')" "calls \<noteq> []"
  shows "partner \<noteq> co_self c \<and> rd (co_contract c) (DeriveChannelID cr (co_self c) partner) = Inl ErrChannelNotOnChain \<and>
    s' = s \<and> \<not> or_AlreadyOpen out \<and>
    (\<exists>amount \<ge> 0. deposit = Some amount \<and>
      (calls = [OpenChannelTx (co_contract c) partner deposit] \<or>
       (\<exists>f current. allow = Some f \<and> f token (co_self c) (co_contract c) = Inr current \<and> current < amount \<and>
          (calls = [ApproveTx token (co_contract c) deposit] \<and> isl r \<or>
           calls = [ApproveTx token (co_contract c) deposit, OpenChannelTx (co_contract c) partner deposit]))) \<and>
      (r = Inr () \<longrightarrow> last calls = OpenChannelTx (co_contract c) partner deposit))"
  using assms
  by (auto simp: OpenChannel_def Let_def approveIfShort_def split: if_splits option.splits sum.splits prod.splits)

theorem OpenChannel_sends_witness:
  "\<exists>out. OpenChannel demoCrypto (demoCoordinator demoA) WriteOK (\<lambda>_ _. Inl ErrChannelNotOnChain) (\<lambda>_ _. Inl ErrIO)
      (\<lambda>_. Inr ''0xab'') (Some (\<lambda>_ _ _. Inr 10)) demoEmpty demoB demoB (Some 30)
    = (Inr (), out, [ApproveTx demoB demoB (Some 30), OpenChannelTx demoB demoB (Some 30)], demoEmpty) \<and>
    \<not> or_AlreadyOpen out"
proof -
  have "co_self (demoCoordinator demoA) = demoA" "co_contract (demoCoordinator demoA) = demoB" "demoB \<noteq> demoA"
    using demo_parties(3) [symmetric] by (simp_all add: demoCoordinator_def NewCoordinator_def)
  then have "\<exists>out. OpenChannel demoCrypto (demoCoordinator demoA) WriteOK (\<lambda>_ _. Inl ErrChannelNotOnChain) (\<lambda>_ _. Inl ErrIO)
      (\<lambda>_. Inr ''0xab'') (Some (\<lambda>_ _ _. Inr 10)) demoEmpty demoB demoB (Some 30)
    = (Inr (), out, [ApproveTx demoB demoB (Some 30), OpenChannelTx demoB demoB (Some 30)], demoEmpty)"
    by (simp add: OpenChannel_def approveIfShort_def Let_def)
  then show ?thesis
    using OpenChannel_sends by blast
qed

subsection \<open>What a result does not guarantee\<close>

lemma Propose_others:
  assumes "Propose cr ps w s i k t = (Inr m, s1)" "j \<noteq> i"
  shows "StoreGet s1 j = StoreGet s j"
proof -
  consider "s1 = s" | f where "StoreUpdate w s i f = (Inr (), s1)"
    using assms(1) by (auto simp: Propose_def proposeCommit_def split: option.splits sum.splits prod.splits Prepared.splits)
  then show ?thesis
  proof cases
    case 2
    then show ?thesis
      using sto.snapshot_done [OF 2] assms(2) by metis
  qed simp
qed

text \<open>
  \<^verbatim>\<open>Pay\<close> does not check which channel the reply is about. A peer that answers a proposal on one channel
  with a STATE_ACCEPT naming another channel of this node, on which nothing is pending and some intent was
  applied earlier, gets the payment reported as done, at the nonce of whatever state is stored, although
  nothing was countersigned: the proposal is still pending on the channel that was to pay.
\<close>

theorem Pay_believes_other_channel:
  assumes get: "StoreGet (nd_store (cs_node cs)) i = Some ch" "ch_Conflict ch = None" "AppliedAt ch k = None"
    and pr: "Propose cr (co_sess c) (cf_commit w) (nd_store (cs_node cs)) i k t = (Inr m, s1)"
    and other: "StoreGet (nd_store (cs_node cs)) j = Some z" "j \<noteq> i" "ch_Pending z = None" "AppliedAt z k' \<noteq> None"
    and len: "length j = 32" "length k' = 32"
    and reply: "ms_Channel reply = hexEncode j" "ms_Body reply = BodyAccept b" "ba_Intent b = hexEncode k'"
  shows "\<exists>fresh cs'. Pay cr c w rd (\<lambda>_. Inr reply) cs i k t = (Inr (paidResult (latestNonce fresh)), cs') \<and>
    StoreGet (nd_store (cs_node cs')) i = Some fresh \<and> ch_Pending fresh \<noteq> None"
proof -
  obtain fresh p where fresh: "StoreGet s1 i = Some fresh" "ch_Pending fresh = Some p"
    using Propose_outcome [OF pr] by blast
  have "StoreGet s1 j = Some z"
    using Propose_others [OF pr other(2)] other(1) by simp
  then have acc: "HandleAccept cr (co_sess c) (cf_commit w) s1 reply = (Inr (), s1)"
    using len other(3,4) by (simp add: HandleAccept_def reply)
  show ?thesis
    using get pr fresh acc by (simp add: Pay_def Adopt_known payReply_def reply(2) Let_def)
qed

definition demoPaidBefore :: Channel where
  "demoPaidBefore = demoChannel\<lparr>ch_Applied := [demoID \<mapsto> 1]\<rparr>"

definition demoTwo :: CoordState where
  "demoTwo = \<lparr> cs_node = demoNode\<lparr>nd_store := demoTracked\<lparr>sto_channels :=
     AList.update demoID demoPaidBefore (sto_channels demoTracked)\<rparr>\<rparr>, cs_metrics = None \<rparr>"

lemma demo_two:
  "StoreGet (nd_store (cs_node demoTwo)) demoKey = Some (trackedChannel (Some 1) demoB demoOcc)"
  "StoreGet (nd_store (cs_node demoTwo)) demoID = Some demoPaidBefore" "demoID \<noteq> demoKey"
proof -
  have ne: "demoID \<noteq> demoKey"
  proof
    assume "demoID = demoKey"
    then have "last demoID = last demoKey" by simp
    then show False by (simp add: demoID_def demoKey_def demoA_def)
  qed
  have q: "sto_unreconciled demoTracked = {}"
    by (simp add: demoTracked_def commitCh_def persist_def Let_def demoEmpty_def)
  have look: "lookupCh (nd_store (cs_node demoTwo)) k = (if k = demoID then Some demoPaidBefore else lookupCh demoTracked k)" for k
    by (simp add: demoTwo_def lookupCh_def update_conv')
  show "demoID \<noteq> demoKey" using ne .
  show "StoreGet (nd_store (cs_node demoTwo)) demoKey = Some (trackedChannel (Some 1) demoB demoOcc)"
    using ne by (simp add: StoreGet_def look demo_lookup) (simp add: demoTwo_def q)
  show "StoreGet (nd_store (cs_node demoTwo)) demoID = Some demoPaidBefore"
    by (simp add: StoreGet_def look) (simp add: demoTwo_def q demoPaidBefore_def demoChannel_def)
qed

theorem Pay_believes_other_channel_witness:
  "\<exists>reply fresh cs'. Pay demoCrypto (demoCoordinator demoA) allWritesOK (\<lambda>_ _. Inl ErrIO) (\<lambda>_. Inr reply) demoTwo
      demoKey demoID (demoPay 30) = (Inr (paidResult (latestNonce fresh)), cs') \<and>
    StoreGet (nd_store (cs_node cs')) demoKey = Some fresh \<and> ch_Pending fresh \<noteq> None"
proof -
  let ?c = "trackedChannel (Some 1) demoB demoOcc"
  obtain nxt where ready: "readyToPay demoCrypto (demoCoordinator demoA) (demoCoordinator demoB) demoKey demoID (demoPay 30)
     ?c ?c nxt"
    using demo_ready by blast
  then have r: "freeAt ?c (latestNonce ?c + 1)" "Apply demoCrypto (demoPay 30) ?c demoA = Inr nxt"
    "signs demoCrypto (co_sess (demoCoordinator demoA))" "AppliedAt ?c demoID = None"
    and sel: "ps_self (co_sess (demoCoordinator demoA)) = demoA"
    by (simp_all add: readyToPay_def demoCoordinator_def NewCoordinator_def)
  obtain sig where sig: "signFor (co_sess (demoCoordinator demoA)) ?c (Digest demoCrypto nxt (ch_ChainID ?c) (ch_Contract ?c)) = Inr sig"
    using signs_signFor [OF r(3)] r(1) unfolding freeAt_def by metis
  have kind: "tr_Kind (demoPay 30) = KindLockSettle \<Longrightarrow> checkTiming ps ?c (demoPay 30) = None" for ps
    by (simp add: demoPay_def)
  obtain s1 m where pr: "Propose demoCrypto (co_sess (demoCoordinator demoA)) WriteOK (nd_store (cs_node demoTwo))
      demoKey demoID (demoPay 30) = (Inr m, s1)"
    using Propose_fresh [OF demo_two(1), of nxt demoCrypto "demoPay 30" "co_sess (demoCoordinator demoA)" sig demoID]
      r Apply_frame(2) [OF r(2)] sig kind sel by auto
  let ?b = "\<lparr> ba_Intent = hexEncode demoID, ba_Nonce = 0, ba_Sig = [] \<rparr>"
  have "StoreGet (nd_store (cs_node demoTwo)) demoID = Some demoPaidBefore" "ch_Pending demoPaidBefore = None"
    "AppliedAt demoPaidBefore demoID \<noteq> None" "length demoID = 32" "ch_Conflict ?c = None"
    using demo_two(2) by (simp_all add: demoPaidBefore_def demoChannel_def AppliedAt_def) (simp add: demoID_def)
  then show ?thesis
    using Pay_believes_other_channel [OF demo_two(1) _ r(4), where c = "demoCoordinator demoA" and w = allWritesOK
        and j = demoID and k' = demoID and reply = "newEnvelope demoID (BodyAccept ?b)" and b = ?b] pr demo_two(3)
    by (simp add: newEnvelope_def) blast
qed

text \<open>
  A payment whose countersignature turns out not to verify is counted as attempted and neither as
  completed nor as failed.
\<close>

theorem Pay_uncounted_failure:
  assumes "StoreGet (nd_store (cs_node cs)) i = Some ch" "ch_Conflict ch = None" "AppliedAt ch k = None"
    and "Propose cr (co_sess c) (cf_commit w) (nd_store (cs_node cs)) i k t = (Inr m, s1)"
    and "msgType reply = MsgStateAccept" "HandleAccept cr (co_sess c) (cf_commit w) s1 reply = (Inl e, s2)"
  shows "cs_metrics (snd (Pay cr c w rd (\<lambda>_. Inr reply) cs i k t)) = TipAttempted (cs_metrics cs)"
  using assms by (simp add: Pay_def Adopt_known payReply_def Let_def)

end
