(* ===== verification/Protocol_Limits.thy ===== *)
theory Protocol_Limits
  imports Coordinator_Props
begin

text \<open>
  Timing, conflicts and races: the windows in which a lock may be settled and refunded do not meet, a
  conflict report is believed only with two signed states, a recorded conflict stops the channel; and the
  two places where a channel can be stopped, or made to sign twice, although nobody misbehaved.
\<close>

subsection \<open>Clocks\<close>

definition inI64 :: "int \<Rightarrow> bool" where
  "inI64 n \<longleftrightarrow> - (2 ^ 63) \<le> n \<and> n < 2 ^ 63"

text \<open>
  (C20) The window in which a lock may be settled and the window in which it may be refunded do not meet.
  If one node would co-sign the settlement of a lock and another (or the same, later) its refund, then the
  second clock is ahead of the first by more than the two tolerances together, as long as the sums of the
  clocks and tolerances stay within 64 bits.
\<close>

theorem settle_refund_disjoint:
  assumes "checkTiming p ch t = None" "tr_Kind t = KindLockSettle"
    and "checkTiming q ch' t' = None" "tr_Kind t' = KindLockRefund"
    and "tr_LockID t' = tr_LockID t" "st_Pending (latestState ch') = st_Pending (latestState ch)"
    and "inI64 (ps_now p + ps_skew p)" "inI64 (ps_now q - ps_skew q)"
  shows "ps_skew p + ps_skew q < ps_now q - ps_now p"
  using assms by (auto simp: checkTiming_def inI64_def split: option.splits if_splits)

theorem settle_refund_disjoint_witness:
  "\<exists>p q ch. checkTiming p ch (demoLock KindLockSettle) = None \<and> checkTiming q ch (demoLock KindLockRefund) = None \<and>
     ps_skew p + ps_skew q < ps_now q - ps_now p"
proof -
  let ?p = "demoSession demoA" and ?q = "(demoSession demoB)\<lparr>ps_now := 6000\<rparr>"
  let ?ch = "demoChannel\<lparr>ch_Latest := demoSigned demoOffered\<rparr>"
  have t: "checkTiming ?p ?ch (demoLock KindLockSettle) = None" "checkTiming ?q ?ch (demoLock KindLockRefund) = None"
    by (simp_all add: checkTiming_def demoLock_def demoSession_def demoOffered_def)
  have "ps_skew ?p + ps_skew ?q < ps_now ?q - ps_now ?p"
    by (rule settle_refund_disjoint [OF t(1) _ t(2)]) (simp_all add: demoLock_def demoSession_def inI64_def)
  with t show ?thesis by blast
qed

subsection \<open>Conflicts\<close>

lemma verifyBothParties_iff:
  "verifyBothParties cr ch ss = Inr () \<longleftrightarrow> Complete ss \<and> signedBoth cr ch ss"
  by (simp add: verifyBothParties_def signedByParties_iff signedBoth_def Let_def)

lemma HandleConflict_effect:
  "snd (HandleConflict cr w s m) = s \<or> (\<exists>j x mine theirs r. StoreGet s j = Some x \<and>
     st_Nonce (ss_State theirs) = st_Nonce (ss_State mine) \<and> StateEqual (ss_State theirs) (ss_State mine) \<noteq> Inr () \<and>
     verifyBothParties cr x theirs = Inr () \<and> verifyBothParties cr x mine = Inr () \<and>
     StoreUpdate w s j (conflictMutate (st_Nonce (ss_State theirs)) mine theirs) = (r, snd (HandleConflict cr w s m)))"
proof (cases "\<exists>j body theirs mine x. parseBytes32 (ms_Channel m) = Inr j \<and> ms_Body m = BodyConflict body \<and>
    decodeSignedWire (bc_Mine body) (bc_MineA body) (bc_MineB body) = Inr theirs \<and>
    decodeSignedWire (bc_Yours body) (bc_YoursA body) (bc_YoursB body) = Inr mine \<and>
    st_Nonce (ss_State theirs) = st_Nonce (ss_State mine) \<and> StateEqual (ss_State theirs) (ss_State mine) \<noteq> Inr () \<and>
    StoreGet s j = Some x \<and> ch_Conflict x = None \<and> verifyBothParties cr x theirs = Inr () \<and>
    verifyBothParties cr x mine = Inr ()")
  case True
  then obtain j body theirs mine x where pre: "parseBytes32 (ms_Channel m) = Inr j" "ms_Body m = BodyConflict body"
    "decodeSignedWire (bc_Mine body) (bc_MineA body) (bc_MineB body) = Inr theirs"
    "decodeSignedWire (bc_Yours body) (bc_YoursA body) (bc_YoursB body) = Inr mine"
    "st_Nonce (ss_State theirs) = st_Nonce (ss_State mine)" "StateEqual (ss_State theirs) (ss_State mine) \<noteq> Inr ()"
    "StoreGet s j = Some x" "ch_Conflict x = None" "verifyBothParties cr x theirs = Inr ()"
    "verifyBothParties cr x mine = Inr ()" by blast
  obtain r s' where up: "StoreUpdate w s j (conflictMutate (st_Nonce (ss_State mine)) mine theirs) = (r, s')" by fastforce
  then have "snd (HandleConflict cr w s m) = s'"
    by (cases r) (simp_all add: HandleConflict_def pre)
  then show ?thesis
    using pre up by metis
next
  case False
  have "snd (HandleConflict cr w s m) = s"
  proof (cases "parseBytes32 (ms_Channel m)")
    case (Inr j)
    note j = this
    show ?thesis
    proof (cases "\<exists>body. ms_Body m = BodyConflict body")
      case True
      then obtain body where "ms_Body m = BodyConflict body" by blast
      with False j show ?thesis
        by (auto simp: HandleConflict_def split: sum.split option.split) (auto simp: bindR_Inr)
    qed (simp add: HandleConflict_def j split: Body.split)
  qed (simp add: HandleConflict_def)
  then show ?thesis by blast
qed

text \<open>
  A conflict report needs evidence. A report that makes this node record a conflict carried two
  complete states of one nonce that differ, each signed by both parties over this channel's digest; and
  every other report leaves the record as it is.
\<close>

theorem HandleConflict_needs_evidence:
  assumes ch: "StoreGet s i = Some ch" and no: "ch_Conflict ch = None"
    and ch': "StoreGet (snd (HandleConflict cr w s m)) i = Some ch'"
  shows "ch' = ch \<or> (\<exists>mine theirs. ch_Conflict ch' = Some \<lparr> cf_Nonce = st_Nonce (ss_State theirs), cf_Mine = mine, cf_Theirs = theirs \<rparr> \<and>
    st_Nonce (ss_State mine) = st_Nonce (ss_State theirs) \<and> StateEqual (ss_State theirs) (ss_State mine) \<noteq> Inr () \<and>
    Complete mine \<and> Complete theirs \<and> signedBoth cr ch mine \<and> signedBoth cr ch theirs)"
proof -
  consider "snd (HandleConflict cr w s m) = s"
    | j x mine theirs r where "StoreGet s j = Some x" "st_Nonce (ss_State theirs) = st_Nonce (ss_State mine)"
      "StateEqual (ss_State theirs) (ss_State mine) \<noteq> Inr ()" "verifyBothParties cr x theirs = Inr ()"
      "verifyBothParties cr x mine = Inr ()"
      "StoreUpdate w s j (conflictMutate (st_Nonce (ss_State theirs)) mine theirs) = (r, snd (HandleConflict cr w s m))"
    using HandleConflict_effect [of cr w s m] by blast
  then show ?thesis
  proof cases
    case 1
    with ch ch' show ?thesis by simp
  next
    case (2 j x mine theirs r)
    show ?thesis
    proof (cases r)
      case (Inl e)
      then show ?thesis
        using sto.snapshot_failed [OF 2(6) [unfolded Inl]] ch ch' by simp
    next
      case (Inr u)
      then have up: "StoreUpdate w s j (conflictMutate (st_Nonce (ss_State theirs)) mine theirs) = (Inr (), snd (HandleConflict cr w s m))"
        using 2(6) by simp
      obtain c c' where c: "conflictMutate (st_Nonce (ss_State theirs)) mine theirs c = Inr c'"
        "StoreGet (snd (HandleConflict cr w s m)) j = Some (c'\<lparr>ch_NeedsReconcile := NeedsReconcile s j\<rparr>)"
        "i \<noteq> j \<Longrightarrow> StoreGet (snd (HandleConflict cr w s m)) i = StoreGet s i"
        using sto.snapshot_done [OF up] by metis
      show ?thesis
      proof (cases "i = j")
        case True
        then have "x = ch" using ch 2(1) by simp
        then show ?thesis
          using True c(1,2) ch' 2(2-5) unfolding verifyBothParties_iff by (auto simp: conflictMutate_def)
      qed (use c(3) ch ch' in simp)
    qed
  qed
qed

definition demoStateC :: State where
  "demoStateC = demoStateB\<lparr>st_BalanceA := Some 60, st_BalanceB := Some 90\<rparr>"

definition demoReport :: Message where
  "demoReport = newEnvelope demoKey (BodyConflict \<lparr> bc_Nonce = 1, bc_Mine = encodeStateWire demoStateB,
     bc_MineA = hexEncode (demoSig demoA), bc_MineB = hexEncode (demoSig demoB), bc_Yours = encodeStateWire demoStateC,
     bc_YoursA = hexEncode (demoSig demoA), bc_YoursB = hexEncode (demoSig demoB) \<rparr>)"

lemma demo_conflict:
  "\<exists>s' ch'. HandleConflict demoCrypto WriteOK demoTracked demoReport = (Inr True, s') \<and>
     StoreGet s' demoKey = Some ch' \<and> ch_Conflict ch' \<noteq> None"
proof -
  let ?c = "trackedChannel (Some 1) demoB demoOcc"
  let ?B = "demoSigned (normState demoStateB)" and ?C = "demoSigned (normState demoStateC)"
  have wire: "wireOK demoStateB" "wireOK demoStateC"
    by (simp_all add: wireOK_def demoStateC_def demoStateB_def canonical_def st_op_def Op_defs)
  have dec: "decodeSignedWire (encodeStateWire demoStateB) (hexEncode (demoSig demoA)) (hexEncode (demoSig demoB)) = Inr ?B"
    "decodeSignedWire (encodeStateWire demoStateC) (hexEncode (demoSig demoA)) (hexEncode (demoSig demoB)) = Inr ?C"
    using wire by (simp_all add: decodeSignedWire_def decode_encode_state demoSigned_def)
  have neq: "StateEqual (ss_State ?B) (ss_State ?C) \<noteq> Inr ()" "st_Nonce (ss_State ?B) = st_Nonce (ss_State ?C)"
    by (simp_all add: StateEqual_def normState_sel demoStateC_def demoStateB_def)
  have ver: "verifyBothParties demoCrypto ?c ?B = Inr ()" "verifyBothParties demoCrypto ?c ?C = Inr ()"
    by (simp_all add: verifyBothParties_iff)
  let ?f = "conflictMutate (st_Nonce (ss_State ?B)) ?C ?B"
  obtain c' where c': "?f ?c = Inr c'" "ch_Conflict c' \<noteq> None"
    by (simp add: conflictMutate_def)
  obtain s' where s': "StoreUpdate WriteOK demoTracked demoKey ?f = (Inr (), s')"
    "StoreGet s' demoKey = Some (c'\<lparr>ch_NeedsReconcile := NeedsReconcile demoTracked demoKey\<rparr>)"
    using StoreUpdate_ok [where f = ?f, OF demo_lookup c'(1)] by blast
  have "HandleConflict demoCrypto WriteOK demoTracked demoReport = (Inr True, s')"
    using neq ver s'(1) dec demo_get
    by (simp add: HandleConflict_def demoReport_def newEnvelope_def)
  then show ?thesis
    using s'(2) c'(2) by simp
qed

theorem HandleConflict_needs_evidence_witness:
  "\<exists>ch' mine theirs. StoreGet (snd (HandleConflict demoCrypto WriteOK demoTracked demoReport)) demoKey = Some ch' \<and>
     ch_Conflict ch' = Some \<lparr> cf_Nonce = st_Nonce (ss_State theirs), cf_Mine = mine, cf_Theirs = theirs \<rparr> \<and> Complete mine"
proof -
  obtain s' ch' where s': "HandleConflict demoCrypto WriteOK demoTracked demoReport = (Inr True, s')"
    "StoreGet s' demoKey = Some ch'" "ch_Conflict ch' \<noteq> None"
    using demo_conflict by blast
  have "ch_Conflict (trackedChannel (Some 1) demoB demoOcc) = None" by simp
  then show ?thesis
    using HandleConflict_needs_evidence [OF demo_get, of demoCrypto WriteOK demoReport ch'] s' by auto
qed

text \<open>
  A recorded conflict stops the channel: nothing is proposed, whatever is proposed to it is rejected
  as conflicted, no payment is started and recovery refuses, and none of these changes anything.
\<close>

theorem conflict_stops:
  assumes ch: "StoreGet (nd_store (cs_node cs)) i = Some ch" "ch_Conflict ch \<noteq> None"
  shows "Propose cr ps w (nd_store (cs_node cs)) i k t = (Inl ErrConflicted, nd_store (cs_node cs)) \<and>
    (parseBytes32 (ms_Channel m) = Inr i \<longrightarrow> ms_Body m = BodyPropose body \<longrightarrow>
       HandlePropose cr ps w wv (cs_node cs) m =
         (Inr (rejectMsg i (bp_Intent body) RejectConflicted ''channel stopped after a conflict''), cs_node cs)) \<and>
    Pay cr c f rd Exchange cs i k t = (Inl ErrConflicted, cs) \<and>
    Resume (nd_store (cs_node cs)) i = Inl ErrConflicted"
  using assms
  by (simp add: Propose_def proposePrepare_def HandlePropose_unfold screenProposal_def Pay_def Adopt_known Resume_def Let_def)

theorem conflict_stops_witness:
  "\<exists>s'. Propose demoCrypto (demoSession demoA) WriteOK s' demoKey demoID (demoPay 30) = (Inl ErrConflicted, s') \<and>
     Resume s' demoKey = Inl ErrConflicted"
proof -
  obtain s' ch' where s': "StoreGet s' demoKey = Some ch'" "ch_Conflict ch' \<noteq> None"
    using demo_conflict by blast
  let ?cs = "\<lparr> cs_node = \<lparr> nd_store = s', nd_vault = None \<rparr>, cs_metrics = None \<rparr>"
  show ?thesis
    using conflict_stops [of ?cs demoKey ch' demoCrypto "demoSession demoA" WriteOK demoID "demoPay 30"] s'
    by (intro exI [of _ s']) simp
qed

text \<open>
  A channel can be frozen by anybody. A STATE_RESPONSE that names the nonce this node holds and any
  other state there makes \<^verbatim>\<open>HandleResponse\<close> record a conflict: no signature in it is looked at. From then on
  nothing can be proposed on the channel.
\<close>

theorem unsigned_response_freezes:
  assumes ch: "StoreGet s i = Some ch" and m: "parseBytes32 (ms_Channel m) = Inr i" "ms_Body m = BodyResponse body" "bs_Have body"
    and dec: "decodeSignedWire (bs_State body) (bs_SigA body) (bs_SigB body) = Inr theirs"
    and clash: "st_Nonce (ss_State theirs) = latestNonce ch" "StateEqual (latestState ch) (ss_State theirs) \<noteq> Inr ()"
  shows "\<exists>s'. HandleResponse cr ps WriteOK s m = (Inr ResyncConflict, s') \<and>
    (\<forall>w k t. Propose cr ps w s' i k t = (Inl ErrConflicted, s'))"
proof -
  obtain c where c: "lookupCh s i = Some c"
    using ch by (auto simp: sto.snapshot_live)
  let ?f = "conflictMutate (st_Nonce (ss_State theirs)) (ch_Latest ch) theirs"
  obtain c' where c': "?f c = Inr c'" "ch_Conflict c' \<noteq> None"
    by (simp add: conflictMutate_def)
  obtain s' where s': "StoreUpdate WriteOK s i ?f = (Inr (), s')"
    "StoreGet s' i = Some (c'\<lparr>ch_NeedsReconcile := NeedsReconcile s i\<rparr>)"
    using StoreUpdate_ok [where f = ?f, OF c c'(1)] by blast
  have "HandleResponse cr ps WriteOK s m = (Inr ResyncConflict, s')"
    using clash s'(1) by (simp add: HandleResponse_def m ch dec)
  moreover have "Propose cr ps w s' i k t = (Inl ErrConflicted, s')" for w k t
    using s'(2) c'(2) by (simp add: Propose_def proposePrepare_def)
  ultimately show ?thesis by blast
qed

theorem unsigned_response_freezes_witness:
  "\<exists>m s'. HandleResponse demoCrypto (demoSession demoA) WriteOK demoTracked m = (Inr ResyncConflict, s') \<and>
     Propose demoCrypto (demoSession demoA) WriteOK s' demoKey demoID (demoPay 30) = (Inl ErrConflicted, s')"
proof -
  let ?st = "demoStateB\<lparr>st_Nonce := 0\<rparr>"
  let ?body = "\<lparr> bs_Have = True, bs_State = encodeStateWire ?st, bs_SigA = [], bs_SigB = [] \<rparr>"
  have wire: "wireOK ?st"
    by (simp add: wireOK_def demoStateB_def canonical_def st_op_def Op_defs)
  let ?theirs = "\<lparr> ss_State = normState ?st, ss_SigA = [], ss_SigB = [] \<rparr>" and ?m = "newEnvelope demoKey (BodyResponse ?body)"
  have dec: "decodeSignedWire (bs_State ?body) (bs_SigA ?body) (bs_SigB ?body) = Inr ?theirs"
    using decode_encode_state [OF wire] by (simp add: decodeSignedWire_def hexField_def)
  have clash: "StateEqual (latestState (trackedChannel (Some 1) demoB demoOcc)) (ss_State ?theirs) \<noteq> Inr ()"
    "st_Nonce (ss_State ?theirs) = latestNonce (trackedChannel (Some 1) demoB demoOcc)"
    by (simp_all add: StateEqual_def normState_sel demoStateB_def emptySigned_def emptyState_def)
  have m: "parseBytes32 (ms_Channel ?m) = Inr demoKey" "ms_Body ?m = BodyResponse ?body" "bs_Have ?body"
    by (simp_all add: newEnvelope_def)
  show ?thesis
    using unsigned_response_freezes [OF demo_get m dec clash(2,1), of demoCrypto "demoSession demoA"] by blast
qed

text \<open>
  \<^verbatim>\<open>HandleResponse\<close> does not ask whether the channel is stopped: a conflicted channel still adopts a
  later state.
\<close>

theorem conflicted_channel_adopts:
  assumes ch: "StoreGet s i = Some ch" "ch_Conflict ch \<noteq> None" and m: "parseBytes32 (ms_Channel m) = Inr i" "ms_Body m = BodyResponse body" "bs_Have body"
    and dec: "decodeSignedWire (bs_State body) (bs_SigA body) (bs_SigB body) = Inr theirs"
    and later: "st_Nonce (ss_State theirs) > latestNonce ch" "validState cr ch theirs" "ch_Status ch = StatusOpen"
  shows "\<exists>s'. HandleResponse cr ps WriteOK s m = (Inr ResyncAdopted, s')"
proof -
  obtain c where c: "lookupCh s i = Some c" "ch = c\<lparr>ch_NeedsReconcile := NeedsReconcile s i\<rparr>"
    using ch by (auto simp: sto.snapshot_live)
  have "\<exists>c1. Accept cr c theirs = Inr c1"
    using later c(2) validState_frame [of c ch cr theirs] by (simp add: Accept_iff)
  then have "\<not> isl (adoptMutate cr ps theirs c)"
    by (auto simp: adoptMutate_def split: option.splits if_splits)
  then obtain c' where "adoptMutate cr ps theirs c = Inr c'"
    by (cases "adoptMutate cr ps theirs c") auto
  then obtain s' where "StoreUpdate WriteOK s i (adoptMutate cr ps theirs) = (Inr (), s')"
    using StoreUpdate_ok [OF c(1)] by blast
  then show ?thesis
    using later(1) by (simp add: HandleResponse_def m ch dec)
qed

subsection \<open>A race\<close>

text \<open>
  Two proposals that overlap sign twice at one nonce. \<^verbatim>\<open>Propose\<close> decides and signs on a snapshot and
  commits afterwards without looking again; when two calls take their snapshots before either commits,
  both commits succeed and both signed proposals are returned, at the same nonce.
\<close>

theorem Propose_race:
  assumes ch: "StoreGet s i = Some ch"
    and a: "proposePrepare cr ps ch k1 t1 = Inr (Fresh p1 r1)" and b: "proposePrepare cr ps ch k2 t2 = Inr (Fresh p2 r2)"
  shows "\<exists>s1 s2. proposeCommit ps WriteOK s i ch (Fresh p1 r1) = (Inr (proposalEnvelope ch p1), s1) \<and>
    proposeCommit ps WriteOK s1 i ch (Fresh p2 r2) = (Inr (proposalEnvelope ch p2), s2) \<and>
    st_Nonce (pp_State p1) = st_Nonce (pp_State p2)"
proof -
  obtain c where c: "lookupCh s i = Some c"
    using ch by (auto simp: sto.snapshot_live)
  obtain c1 where c1: "proposeMutate ps p1 r1 c = Inr c1" by (simp add: proposeMutate_def)
  obtain s1 where s1: "StoreUpdate WriteOK s i (proposeMutate ps p1 r1) = (Inr (), s1)"
    "StoreGet s1 i = Some (c1\<lparr>ch_NeedsReconcile := NeedsReconcile s i\<rparr>)"
    using StoreUpdate_ok [where f = "proposeMutate ps p1 r1", OF c c1] by blast
  obtain d where d: "lookupCh s1 i = Some d"
    using s1(2) by (auto simp: sto.snapshot_live)
  obtain c2 where c2: "proposeMutate ps p2 r2 d = Inr c2" by (simp add: proposeMutate_def)
  obtain s2 where s2: "StoreUpdate WriteOK s1 i (proposeMutate ps p2 r2) = (Inr (), s2)"
    using StoreUpdate_ok [where f = "proposeMutate ps p2 r2", OF d c2] by blast
  have "st_Nonce (pp_State p1) = st_Nonce (pp_State p2)"
    using Apply_frame(2) [of cr t1 ch "ps_self ps" "pp_State p1"] Apply_frame(2) [of cr t2 ch "ps_self ps" "pp_State p2"]
    by (cases rule: prepare_cases [OF a]; cases rule: prepare_cases [OF b]) simp_all
  with s1(1) s2 show ?thesis
    by (simp add: proposeCommit_def)
qed

theorem Propose_race_witness:
  "\<exists>p1 p2 s1 s2. proposeCommit (demoSession demoA) WriteOK demoTracked demoKey (trackedChannel (Some 1) demoB demoOcc) p1
      = (Inr s1, s2) \<and> (\<exists>q1 q2 r1 r2 s3 m. p1 = Fresh q1 r1 \<and> p2 = Fresh q2 r2 \<and>
     proposeCommit (demoSession demoA) WriteOK s2 demoKey (trackedChannel (Some 1) demoB demoOcc) p2 = (Inr m, s3) \<and>
     st_Nonce (pp_State q1) = st_Nonce (pp_State q2) \<and> st_BalanceA (pp_State q1) \<noteq> st_BalanceA (pp_State q2))"
proof -
  let ?c = "trackedChannel (Some 1) demoB demoOcc"
  obtain q1 r1 q2 r2 where pr: "proposePrepare demoCrypto (demoSession demoA) ?c demoID (demoPay 30) = Inr (Fresh q1 r1)"
    "st_BalanceA (pp_State q1) = Some 70"
    "proposePrepare demoCrypto (demoSession demoA) ?c demoKey (demoPay 40) = Inr (Fresh q2 r2)" "st_BalanceA (pp_State q2) = Some 60"
    using demo_prepare [of 30 demoID] demo_prepare [of 40 demoKey] by auto
  show ?thesis
    using Propose_race [OF demo_get pr(1,3)] pr(2,4) by fastforce
qed

end
