(* ===== verification/Reconcile.thy ===== *)
theory Reconcile
  imports Vault Protocol_Limits
begin

text \<open>
  Releasing a channel restored from a backup, \<^verbatim>\<open>src/internal/channel/reconcile.go\<close>. A source is anything
  with a \<^verbatim>\<open>Best\<close>: a function from the channel id to the state it offers, if any.
\<close>

type_synonym StateSource = "bytes32 \<Rightarrow> SignedState option"

definition Unreconciled :: "Store \<Rightarrow> bytes32 set" where
  \<comment> \<open>in no particular order\<close>
  "Unreconciled s = sto_unreconciled s"

definition usable :: "crypto \<Rightarrow> Coordinator \<Rightarrow> Channel \<Rightarrow> SignedState \<Rightarrow> chan_error + unit" where
  "usable cr c ch candidate =
     (if \<not> Conserved (ss_State candidate) (ch_DepositA ch) (ch_DepositB ch)
      then Inl (ErrText ''candidate does not conserve the deposits'')
      else
        (let digest = Digest cr (ss_State candidate) (ch_ChainID ch) (ch_Contract ch) in
         bindR (requireBothParties cr digest candidate (ch_PartyA ch) (ch_PartyB ch)) (\<lambda>_.
         let mine = (if ch_PartyB ch = co_self c then ss_SigB candidate else ss_SigA candidate) in
         bindR (RecoverSigner cr digest mine) (\<lambda>signer.
           if signer \<noteq> co_self c then Inl (ErrText ''this node did not sign the candidate'') else Inr ()))))"

fun bestOf ::
  "crypto \<Rightarrow> Coordinator \<Rightarrow> Channel \<Rightarrow> bytes32 \<Rightarrow> StateSource list \<Rightarrow> SignedState \<Rightarrow> SignedState" where
  "bestOf cr c ch i [] best = best"
| "bestOf cr c ch i (source # rest) best =
     (case source i of
        None \<Rightarrow> bestOf cr c ch i rest best
      | Some candidate \<Rightarrow>
          if \<not> Complete candidate then bestOf cr c ch i rest best
          else if Complete best \<and> st_Nonce (ss_State candidate) \<le> st_Nonce (ss_State best)
            then bestOf cr c ch i rest best
          else (case usable cr c ch candidate of
                  Inl _ \<Rightarrow> bestOf cr c ch i rest best
                | Inr _ \<Rightarrow> bestOf cr c ch i rest candidate))"

definition Reconcile ::
  "crypto \<Rightarrow> Coordinator \<Rightarrow> WriteFault \<Rightarrow> WriteFault \<Rightarrow> bool \<Rightarrow> reader \<Rightarrow> StateSource list \<Rightarrow> Store \<Rightarrow> bytes32
    \<Rightarrow> (chan_error + unit) \<times> Store" where
  \<comment> \<open>the faults are those of \<^verbatim>\<open>Adopt\<close>, of \<^verbatim>\<open>Update\<close> and of removing the marker\<close>
  "Reconcile cr c wa wu removeOK ReadChannel sources s i =
     (if \<not> NeedsReconcile s i then (Inr (), s)
      else
        (case Adopt cr c wa ReadChannel s i of
           (Inl e, s1) \<Rightarrow> (Inl e, s1)
         | (Inr _, s1) \<Rightarrow>
             (case StoreGet s1 i of
                None \<Rightarrow> (Inl ErrChannelNotAdopted, s1)
              | Some ch \<Rightarrow>
                  let best = bestOf cr c ch i sources (ch_Latest ch) in
                  if Complete best \<and> (\<not> Complete (ch_Latest ch) \<or> latestNonce ch < st_Nonce (ss_State best))
                  then (case StoreUpdate wu s1 i (\<lambda>live. Accept cr live best) of
                          (Inl e, s2) \<Rightarrow> (Inl e, s2)
                        | (Inr _, s2) \<Rightarrow> clearReconcile removeOK s2 i)
                  else clearReconcile removeOK s1 i)))"

fun reconcileEach ::
  "crypto \<Rightarrow> Coordinator \<Rightarrow> (bytes32 \<Rightarrow> WriteFault \<times> WriteFault \<times> bool) \<Rightarrow> reader \<Rightarrow> StateSource list \<Rightarrow> Store
    \<Rightarrow> bytes32 list \<Rightarrow> (chan_error + unit) \<times> Store" where
  "reconcileEach cr c f rd sources s [] = (Inr (), s)"
| "reconcileEach cr c f rd sources s (i # rest) =
     (case f i of (wa, wu, ok) \<Rightarrow>
      case Reconcile cr c wa wu ok rd sources s i of
        (Inr _, s1) \<Rightarrow> reconcileEach cr c f rd sources s1 rest
      | (Inl e, s1) \<Rightarrow> (Inl e, snd (reconcileEach cr c f rd sources s1 rest)))"

definition ReconcileAll ::
  "crypto \<Rightarrow> Coordinator \<Rightarrow> (bytes32 \<Rightarrow> WriteFault \<times> WriteFault \<times> bool) \<Rightarrow> reader \<Rightarrow> StateSource list
    \<Rightarrow> (bytes32 set \<Rightarrow> bytes32 list) \<Rightarrow> Store \<Rightarrow> (chan_error + unit) \<times> Store" where
  \<comment> \<open>\<open>order\<close> is the order in which the map of quarantined channels is walked\<close>
  "ReconcileAll cr c f rd sources order s = reconcileEach cr c f rd sources s (order (Unreconciled s))"

subsection \<open>What the search finds\<close>

lemma usable_D:
  "usable cr c ch s = Inr u \<Longrightarrow> Conserved (ss_State s) (ch_DepositA ch) (ch_DepositB ch) \<and>
   RecoverSigner cr (Digest cr (ss_State s) (ch_ChainID ch) (ch_Contract ch)) (ss_SigA s) = Inr (ch_PartyA ch) \<and>
   RecoverSigner cr (Digest cr (ss_State s) (ch_ChainID ch) (ch_Contract ch)) (ss_SigB s) = Inr (ch_PartyB ch)"
  by (auto simp: usable_def requireBothParties_def Let_def bindR_Inr split: if_splits)

lemma bestOf_from:
  "bestOf cr c ch i sources best = best \<or>
   (\<exists>source \<in> set sources. source i = Some (bestOf cr c ch i sources best)) \<and>
   Complete (bestOf cr c ch i sources best) \<and> usable cr c ch (bestOf cr c ch i sources best) = Inr ()"
proof (induction sources arbitrary: best)
  case (Cons source rest)
  show ?case
  proof (cases "bestOf cr c ch i (source # rest) best = bestOf cr c ch i rest best")
    case True
    then show ?thesis using Cons.IH [of best] by auto
  next
    case False
    then obtain cand where "source i = Some cand" "Complete cand" "usable cr c ch cand = Inr ()"
        "bestOf cr c ch i (source # rest) best = bestOf cr c ch i rest cand"
      by (auto split: option.splits if_splits sum.splits)
    then show ?thesis using Cons.IH [of cand] by auto
  qed
qed simp

lemma bestOf_ge:
  "Complete best \<Longrightarrow> Complete (bestOf cr c ch i sources best) \<and>
     st_Nonce (ss_State best) \<le> st_Nonce (ss_State (bestOf cr c ch i sources best))"
proof (induction sources arbitrary: best)
  case (Cons source rest)
  show ?case
    using Cons.IH [OF Cons.prems] Cons.IH Cons.prems
    by (auto split: option.splits sum.splits) (meson dual_order.trans le_cases)
qed simp

lemma bestOf_beats:
  "source \<in> set sources \<Longrightarrow> source i = Some cand \<Longrightarrow> Complete cand \<Longrightarrow> usable cr c ch cand = Inr () \<Longrightarrow>
   Complete (bestOf cr c ch i sources best) \<and> st_Nonce (ss_State cand) \<le> st_Nonce (ss_State (bestOf cr c ch i sources best))"
proof (induction sources arbitrary: best)
  case (Cons x rest)
  show ?case
  proof (cases "x = source")
    case False
    then show ?thesis
      using Cons by (auto split: option.splits sum.splits)
  next
    case True
    show ?thesis
    proof (cases "Complete best \<and> st_Nonce (ss_State cand) \<le> st_Nonce (ss_State best)")
      case old: True
      then show ?thesis
        using True Cons.prems bestOf_ge [of best cr c ch i rest] by auto
    next
      case False
      then show ?thesis
        using True Cons.prems bestOf_ge [of cand cr c ch i rest] by auto
    qed
  qed
qed simp

lemma StoreGet_clear:
  "clearReconcile ok s i = (r, s') \<Longrightarrow> lookupCh s' j = lookupCh s j \<and>
   (NeedsReconcile s' j \<longleftrightarrow> NeedsReconcile s j \<and> j \<noteq> i) \<and> (ok \<longrightarrow> r = Inr ())"
  by (auto simp: clearReconcile_def Let_def NeedsReconcile_def lookupCh_def split: if_splits)

lemma StoreUpdate_quarantine:
  "StoreUpdate w s i f = (r, s') \<Longrightarrow> NeedsReconcile s' j = NeedsReconcile s j"
  by (auto simp: StoreUpdate_def commitCh_def NeedsReconcile_def split: option.splits sum.splits prod.splits)

lemma StoreGet_lookup: "StoreGet s i = Some ch \<Longrightarrow> \<exists>c. lookupCh s i = Some c \<and> ch = c\<lparr>ch_NeedsReconcile := NeedsReconcile s i\<rparr>"
  by (auto simp: StoreGet_def NeedsReconcile_def)

lemma Accept_quarantine [simp]:
  "Accept cr (c\<lparr>ch_NeedsReconcile := b\<rparr>) cand = map_sum id (\<lambda>c'. c'\<lparr>ch_NeedsReconcile := b\<rparr>) (Accept cr c cand)"
  by (auto simp: Accept_def Let_def isFirst_def signedByParties_def bindR_def IsA_def split: sum.splits if_splits)

text \<open>What a reconciliation of a tracked channel does, in one equation: the chain is not asked.\<close>

lemma Reconcile_tracked:
  assumes "NeedsReconcile s i" "StoreGet s i = Some ch"
  shows "Reconcile cr c wa wu ok rd sources s i =
    (let best = bestOf cr c ch i sources (ch_Latest ch) in
     if Complete best \<and> (\<not> Complete (ch_Latest ch) \<or> latestNonce ch < st_Nonce (ss_State best))
     then (case StoreUpdate wu s i (\<lambda>live. Accept cr live best) of
             (Inl e, s2) \<Rightarrow> (Inl e, s2) | (Inr _, s2) \<Rightarrow> clearReconcile ok s2 i)
     else clearReconcile ok s i)"
  using assms by (simp add: Reconcile_def Adopt_known)

subsection \<open>Properties\<close>

text \<open>
  A released channel has accounted for every source. When \<^verbatim>\<open>Reconcile\<close> succeeds on a quarantined
  channel, the channel may sign again, its stored state is the old one or one that some source offered,
  complete, signed by both parties and by this node among them, and its nonce is at least that of every
  complete and usable state any source offered. When it fails although the marker can be removed, the
  channel stays quarantined and its record is as it was; and while a channel is quarantined, nothing is
  signed for it.
\<close>

theorem Reconcile_accounts_for_all:
  assumes q: "NeedsReconcile s i" "StoreGet s i = Some ch"
    and run: "Reconcile cr c wa wu ok rd sources s i = (r, s')"
  shows "(r = Inr () \<longrightarrow> \<not> NeedsReconcile s' i \<and> (\<exists>ch'. StoreGet s' i = Some ch' \<and>
      (ch_Latest ch' = ch_Latest ch \<or> (\<exists>source \<in> set sources. source i = Some (ch_Latest ch') \<and> Complete (ch_Latest ch') \<and>
         usable cr c ch (ch_Latest ch') = Inr ())) \<and>
      (\<forall>source \<in> set sources. \<forall>cand. source i = Some cand \<longrightarrow> Complete cand \<longrightarrow> usable cr c ch cand = Inr () \<longrightarrow>
         Complete (ch_Latest ch') \<and> st_Nonce (ss_State cand) \<le> latestNonce ch'))) \<and>
    (r \<noteq> Inr () \<longrightarrow> ok \<longrightarrow> NeedsReconcile s' i \<and> lookupCh s' i = lookupCh s i) \<and>
    signFor ps ch raw = Inl ErrNeedsReconcile"
proof -
  obtain c0 where c0: "lookupCh s i = Some c0" "ch = c0\<lparr>ch_NeedsReconcile := True\<rparr>"
    using StoreGet_lookup [OF q(2)] q(1) by auto
  let ?best = "bestOf cr c ch i sources (ch_Latest ch)"
  note tracked = run [unfolded Reconcile_tracked [OF q] Let_def]
  have sign: "signFor ps ch raw = Inl ErrNeedsReconcile"
    by (simp add: signFor_def c0)
  have all: "Complete (ch_Latest d) \<and> st_Nonce (ss_State cand) \<le> latestNonce d"
    if "source \<in> set sources" "source i = Some cand" "Complete cand" "usable cr c ch cand = Inr ()"
      "Complete ?best \<longrightarrow> Complete (ch_Latest d) \<and> st_Nonce (ss_State ?best) \<le> latestNonce d" for source cand d
    using bestOf_beats [OF that(1-4)] that(5) by (meson order.trans)
  show ?thesis
  proof (cases "Complete ?best \<and> (\<not> Complete (ch_Latest ch) \<or> latestNonce ch < st_Nonce (ss_State ?best))")
    case False
    then have cl: "clearReconcile ok s i = (r, s')"
      using tracked unfolding if_not_P [OF False] by blast
    note l = StoreGet_clear [OF cl, of i]
    have get: "StoreGet s' i = Some (c0\<lparr>ch_NeedsReconcile := False\<rparr>)" "\<not> NeedsReconcile s' i"
      using l c0(1) by (simp_all add: StoreGet_def NeedsReconcile_def)
    have "Complete ?best \<longrightarrow> Complete (ch_Latest c0) \<and> st_Nonce (ss_State ?best) \<le> latestNonce c0"
      using False c0(2) by (auto simp: not_less)
    then show ?thesis
      using get sign l c0(2) all [where d = c0] by auto
  next
    case True
    obtain r2 s2 where up: "StoreUpdate wu s i (\<lambda>live. Accept cr live ?best) = (r2, s2)"
      by fastforce
    show ?thesis
    proof (cases r2)
      case (Inl e)
      then have res: "r = Inl e" "s' = s2"
        using tracked unfolding if_P [OF True] up by simp_all
      have "lookupCh s2 i = lookupCh s i" "NeedsReconcile s2 i"
        using up Inl q(1) c0(1)
        by (auto simp: StoreUpdate_def commitCh_def NeedsReconcile_def lookupCh_def split: option.splits sum.splits prod.splits)
      then show ?thesis using res sign by simp
    next
      case (Inr u)
      then have cl: "clearReconcile ok s2 i = (r, s')"
        using tracked unfolding if_P [OF True] up by simp
      have upd: "StoreUpdate wu s i (\<lambda>live. Accept cr live ?best) = (Inr (), s2)"
        using up Inr by simp
      obtain c1 where c1: "Accept cr c0 ?best = Inr c1" "lookupCh s2 i = Some c1"
        using sto.commit_done [OF upd] c0(1) by auto
      have lat: "ch_Latest c1 = ?best"
        by (rule Accept_latest [OF c1(1)])
      note l = StoreGet_clear [OF cl, of i]
      have get: "StoreGet s' i = Some (c1\<lparr>ch_NeedsReconcile := False\<rparr>)" "\<not> NeedsReconcile s' i" "ok \<longrightarrow> r = Inr ()"
        using l c1(2) by (simp_all add: StoreGet_def NeedsReconcile_def)
      have offered: "?best = ch_Latest ch \<or> (\<exists>source \<in> set sources. source i = Some ?best) \<and> Complete ?best \<and> usable cr c ch ?best = Inr ()"
        by (rule bestOf_from)
      show ?thesis
        using get sign offered lat all [where d = c1] by auto
    qed
  qed
qed


definition demoRestored :: Store where
  "demoRestored = demoTracked\<lparr>sto_unreconciled := {demoKey}\<rparr>"

lemma demo_restored:
  "NeedsReconcile demoRestored demoKey"
  "lookupCh demoRestored demoKey = Some (trackedChannel (Some 1) demoB demoOcc)"
  "StoreGet demoRestored demoKey = Some ((trackedChannel (Some 1) demoB demoOcc)\<lparr>ch_NeedsReconcile := True\<rparr>)"
  using demo_lookup by (simp_all add: demoRestored_def NeedsReconcile_def StoreGet_def lookupCh_def)

lemma demo_usable:
  assumes "Conserved s (Some 100) (Some 50)"
  shows "usable demoCrypto (demoCoordinator demoA) ((trackedChannel (Some 1) demoB demoOcc)\<lparr>ch_NeedsReconcile := True\<rparr>)
    (demoSigned s) = Inr ()"
proof -
  have "co_self (demoCoordinator demoA) = demoA"
    by (simp add: demoCoordinator_def NewCoordinator_def)
  moreover have "demoB \<noteq> demoA"
    by (simp add: demoA_def demoB_def)
  ultimately show ?thesis
    using assms by (simp add: usable_def requireBothParties_def trackedChannel_def demoOcc_def Let_def demoSigned_def)
qed

theorem Reconcile_accounts_for_all_witness:
  "\<exists>s' ch'. Reconcile demoCrypto (demoCoordinator demoA) WriteOK WriteOK True (\<lambda>_ _. Inl ErrChainUnreachable)
      [\<lambda>_. None, \<lambda>_. Some (demoSigned demoStateB)] demoRestored demoKey = (Inr (), s') \<and>
    \<not> NeedsReconcile s' demoKey \<and> StoreGet s' demoKey = Some ch' \<and> 1 \<le> latestNonce ch'"
proof -
  let ?ch = "(trackedChannel (Some 1) demoB demoOcc)\<lparr>ch_NeedsReconcile := True\<rparr>"
  let ?src = "[\<lambda>_. None, \<lambda>_. Some (demoSigned demoStateB)] :: StateSource list"
  have cons: "Conserved demoStateB (Some 100) (Some 50)"
    by (simp add: Conserved_def stateTotal_def lockedTotal_def demoStateB_def)
  have none: "\<not> Complete emptySigned"
    by (simp add: Complete_def emptySigned_def)
  have lat: "ch_Latest ?ch = emptySigned"
    by (simp add: trackedChannel_def)
  have best: "bestOf demoCrypto (demoCoordinator demoA) ?ch demoKey ?src (ch_Latest ?ch) = demoSigned demoStateB"
    using demo_usable [OF cons] by (simp add: lat none)
  obtain c' where "Accept demoCrypto (trackedChannel (Some 1) demoB demoOcc) (demoSigned demoStateB) = Inr c'"
    using cons by (auto simp: Accept_iff trackedChannel_def demoOcc_def isFirst_def not_Complete_empty validState_def locksOK_def)
      (auto simp: demoStateB_def emptySigned_def emptyState_def)
  then obtain s2 where up: "StoreUpdate WriteOK demoRestored demoKey (\<lambda>live. Accept demoCrypto live (demoSigned demoStateB)) = (Inr (), s2)"
    using StoreUpdate_ok [where f = "\<lambda>live. Accept demoCrypto live (demoSigned demoStateB)", OF demo_restored(2)] by blast
  obtain r s' where cl: "clearReconcile True s2 demoKey = (r, s')"
    by fastforce
  have "r = Inr ()"
    using StoreGet_clear [OF cl] by blast
  then have run: "Reconcile demoCrypto (demoCoordinator demoA) WriteOK WriteOK True (\<lambda>_ _. Inl ErrChainUnreachable) ?src demoRestored demoKey = (Inr (), s')"
    using cl unfolding Reconcile_tracked [OF demo_restored(1,3)] best Let_def up by (simp add: lat none)
  have "\<not> NeedsReconcile s' demoKey \<and> (\<exists>ch'. StoreGet s' demoKey = Some ch' \<and>
      (\<forall>source \<in> set ?src. \<forall>cand. source demoKey = Some cand \<longrightarrow> Complete cand \<longrightarrow>
        usable demoCrypto (demoCoordinator demoA) ?ch cand = Inr () \<longrightarrow> st_Nonce (ss_State cand) \<le> latestNonce ch'))"
    using Reconcile_accounts_for_all [OF demo_restored(1,3) run, of undefined undefined] by blast
  then show ?thesis
    using run demo_usable [OF cons] by (auto simp: demoStateB_def)
qed

text \<open>
  The deposits a restored channel is judged by are those of the backup. \<^verbatim>\<open>Adopt\<close> returns at once for a
  channel the store already tracks, so \<^verbatim>\<open>Reconcile\<close> never reads the chain for one; if the deposits have
  grown since the backup, no state signed under the new deposits is usable, and the channel is released
  with its old state although the sources hold newer states this node signed.
\<close>

theorem Reconcile_misses_topup:
  assumes q: "NeedsReconcile s i" "StoreGet s i = Some ch"
    and stale: "\<And>source cand. source \<in> set sources \<Longrightarrow> source i = Some cand \<Longrightarrow>
      \<not> Conserved (ss_State cand) (ch_DepositA ch) (ch_DepositB ch)"
  shows "\<exists>s'. Reconcile cr c wa wu True rd sources s i = (Inr (), s') \<and> \<not> NeedsReconcile s' i \<and> lookupCh s' i = lookupCh s i"
proof -
  have best: "bestOf cr c ch i sources best = best" for best
    using stale
  proof (induction sources arbitrary: best)
    case (Cons source rest)
    have ih: "bestOf cr c ch i rest best = best" for best
      by (rule Cons.IH) (use Cons.prems in auto)
    show ?case
    proof (cases "source i")
      case (Some cand)
      then have "usable cr c ch cand = Inl (ErrText ''candidate does not conserve the deposits'')"
        using Cons.prems [of source cand] by (simp add: usable_def)
      then show ?thesis using Some ih by simp
    qed (simp add: ih)
  qed simp
  obtain r s' where cl: "clearReconcile True s i = (r, s')"
    by fastforce
  have "Reconcile cr c wa wu True rd sources s i = clearReconcile True s i"
    by (simp add: Reconcile_tracked [OF q] best)
  then show ?thesis
    using cl StoreGet_clear [OF cl] by simp
qed

definition demoTopped :: State where
  \<comment> \<open>what both parties signed after the second one added 100 to its deposit\<close>
  "demoTopped = demoStateB\<lparr>st_Nonce := 9, st_BalanceB := Some 180\<rparr>"

theorem Reconcile_misses_topup_witness:
  "Conserved demoTopped (Some 100) (Some 150) \<and>
   (\<exists>s'. Reconcile demoCrypto (demoCoordinator demoA) WriteOK WriteOK True
      (\<lambda>_ _. Inr (demoOcc\<lparr>oc_DepositB := Some 150\<rparr>)) [\<lambda>_. Some (demoSigned demoTopped)] demoRestored demoKey = (Inr (), s') \<and>
    \<not> NeedsReconcile s' demoKey \<and> lookupCh s' demoKey = lookupCh demoRestored demoKey)"
proof
  show "Conserved demoTopped (Some 100) (Some 150)"
    by (simp add: demoTopped_def demoStateB_def Conserved_def stateTotal_def lockedTotal_def)
  show "\<exists>s'. Reconcile demoCrypto (demoCoordinator demoA) WriteOK WriteOK True
      (\<lambda>_ _. Inr (demoOcc\<lparr>oc_DepositB := Some 150\<rparr>)) [\<lambda>_. Some (demoSigned demoTopped)] demoRestored demoKey = (Inr (), s') \<and>
    \<not> NeedsReconcile s' demoKey \<and> lookupCh s' demoKey = lookupCh demoRestored demoKey"
    by (rule Reconcile_misses_topup [OF demo_restored(1,3)])
      (auto simp: trackedChannel_def demoOcc_def demoTopped_def demoStateB_def Conserved_def stateTotal_def lockedTotal_def)
qed

end
