(* ===== verification/Challenge_Budget.thy ===== *)
theory Challenge_Budget
  imports Coordinator
begin

text \<open>
  The challenge period and where it comes from, \<^verbatim>\<open>src/internal/channel/challengebudget.go\<close>. A
  \<^verbatim>\<open>time.Duration\<close> is a count of nanoseconds in an int64, so sums and products wrap (\<open>i64\<close>).
\<close>

type_synonym duration = int

definition Second :: duration where "Second = 1000000000"
definition Minute :: duration where "Minute = 60 * Second"
definition Hour :: duration where "Hour = 60 * Minute"

lemmas duration_defs = Second_def Minute_def Hour_def

record ChallengeBudget =
  bu_Detection :: duration
  bu_Outage :: duration
  bu_Local :: duration
  bu_Inclusion :: duration
  bu_Repricing :: duration
  bu_RPCFailure :: duration
  bu_Reorg :: duration
  bu_Safety :: duration

definition Terms :: "ChallengeBudget \<Rightarrow> (string \<times> duration) list" where
  "Terms b = [(''detection'', bu_Detection b), (''watchtower outage'', bu_Outage b), (''local work'', bu_Local b),
     (''inclusion'', bu_Inclusion b), (''repricing'', bu_Repricing b), (''rpc failure'', bu_RPCFailure b),
     (''reorg depth'', bu_Reorg b), (''safety'', bu_Safety b)]"

definition Total :: "ChallengeBudget \<Rightarrow> duration" where
  "Total b = foldl (\<lambda>sum t. i64 (sum + snd t)) 0 (Terms b)"

definition Recommend :: "ChallengeBudget \<Rightarrow> duration" where
  "Recommend b =
     (let total = Total b in
      if total \<le> 0 then 0
      else let hours = total div Hour in
           i64 ((if total mod Hour \<noteq> 0 then hours + 1 else hours) * Hour))"

definition MainnetChallengeBudget :: ChallengeBudget where
  "MainnetChallengeBudget = \<lparr> bu_Detection = 30 * Minute, bu_Outage = 4 * Hour, bu_Local = 1 * Minute,
     bu_Inclusion = 30 * Minute, bu_Repricing = 30 * Minute, bu_RPCFailure = 30 * Minute, bu_Reorg = 30 * Minute,
     bu_Safety = 1 * Hour \<rparr>"

definition RecommendedChallengePeriod :: int where
  "RecommendedChallengePeriod = Recommend MainnetChallengeBudget div Second"

definition WatchMarginFor :: "duration \<Rightarrow> duration" where
  "WatchMarginFor period =
     (let b = MainnetChallengeBudget;
          remaining = i64 (i64 (i64 (i64 (bu_Local b + bu_Inclusion b) + bu_Repricing b) + bu_RPCFailure b) + bu_Reorg b)
      in if remaining \<ge> period then period else remaining)"

subsection \<open>The numbers\<close>

lemma Total_mainnet: "Total MainnetChallengeBudget = 7 * Hour + 31 * Minute"
  by (simp add: Total_def Terms_def MainnetChallengeBudget_def duration_defs)

lemma Recommend_mainnet: "Recommend MainnetChallengeBudget = 8 * Hour"
  by (simp add: Recommend_def Total_mainnet Let_def) (simp add: duration_defs)

lemma RecommendedChallengePeriod_value: "RecommendedChallengePeriod = 28800"
  by (simp add: RecommendedChallengePeriod_def Recommend_mainnet duration_defs)

lemma WatchMarginFor_value: "WatchMarginFor period = (if period \<le> 2 * Hour + Minute then period else 2 * Hour + Minute)"
  by (simp add: WatchMarginFor_def MainnetChallengeBudget_def Let_def duration_defs)

subsection \<open>Rounding up\<close>

text \<open>A budget whose terms are not negative and do not add up to more than 290 years has an exact sum.\<close>

definition budgetOK :: "ChallengeBudget \<Rightarrow> bool" where
  "budgetOK b \<longleftrightarrow> (\<forall>t \<in> set (Terms b). 0 \<le> snd t) \<and> sum_list (map snd (Terms b)) + Hour < 2 ^ 63"

lemma Total_exact: "budgetOK b \<Longrightarrow> Total b = sum_list (map snd (Terms b))"
  by (simp add: budgetOK_def Total_def Terms_def Hour_def Minute_def Second_def)

text \<open>
  \<^verbatim>\<open>Recommend\<close> is the least whole number of hours that is not below the sum of the terms.
\<close>

lemma Recommend_least:
  assumes "budgetOK b"
  shows "\<exists>h. Recommend b = h * Hour \<and> Total b \<le> Recommend b \<and> Recommend b < Total b + Hour \<and>
    (\<forall>k. Total b \<le> k * Hour \<longrightarrow> Recommend b \<le> k * Hour)"
proof -
  let ?t = "Total b"
  have t: "0 \<le> ?t" "?t + Hour < 2 ^ 63"
    using assms Total_exact [OF assms] by (auto simp: budgetOK_def intro!: sum_list_nonneg)
  have h: "0 < Hour"
    by (simp add: duration_defs)
  show ?thesis
  proof (cases "?t = 0")
    case True
    then show ?thesis
      using h by (auto simp: Recommend_def zero_le_mult_iff intro!: exI [of _ 0])
  next
    case False
    define d m where "d = ?t div Hour" and "m = ?t mod Hour"
    define q where "q = (if m \<noteq> 0 then d + 1 else d)"
    have split: "?t = d * Hour + m" and m: "0 \<le> m" "m < Hour"
      using h by (simp_all add: d_def m_def)
    have q: "?t \<le> q * Hour" "q * Hour < ?t + Hour"
      unfolding split using m h by (auto simp: q_def algebra_simps)
    have "Recommend b = i64 (q * Hour)"
      using False t(1) by (simp add: Recommend_def q_def d_def m_def Let_def)
    also have "\<dots> = q * Hour"
      using q t by (intro i64_id) simp_all
    finally have r: "Recommend b = q * Hour" .
    have "q * Hour \<le> k * Hour" if "?t \<le> k * Hour" for k
    proof (rule ccontr)
      assume "\<not> q * Hour \<le> k * Hour"
      then have "k + 1 \<le> q"
        using h by (simp add: mult_le_cancel_right)
      then have "(k + 1) * Hour \<le> q * Hour"
        using h by (simp add: mult_right_mono)
      then show False
        using that q(2) by (simp add: algebra_simps)
    qed
    then show ?thesis
      using r q by auto
  qed
qed

end
