(* ===== verification/Watchtower.thy ===== *)
theory Watchtower
  imports Challenge_Budget Vault
begin

text \<open>
  The watchtower, \<^verbatim>\<open>src/internal/channel/watchtower.go\<close>: one look at one channel (\<open>Check\<close>), a sweep, and the
  loop of sweeps. What a look reads besides its own settings - the states it holds, the chain, the clock -
  is an argument; the challenges it broadcasts are a list of calls. The text of an error is a tag.
\<close>

datatype WatchOutcome = WatchQuiet | WatchHonest | WatchChallenged | WatchFailed | WatchSettled

datatype watch_error = ErrReadingChain chan_error | ErrTooLate | ErrInsideMargin | ErrNoSender | ErrSubmitting string

record Watch =
  wa_Channel :: bytes32
  wa_Outcome :: WatchOutcome
  wa_OnChainNonce :: u64
  wa_BestNonce :: u64
  wa_Deadline :: int
  wa_Remaining :: int
  wa_TxHash :: string
  wa_Err :: "watch_error option"

record ChannelSource =
  src_IDs :: "bytes32 list"
  src_Get :: "bytes32 \<Rightarrow> Channel option"

record Watchtower =
  wt_Contract :: address
  wt_Sender :: "writer option"
  wt_Interval :: duration
  wt_Margin :: duration

text \<open>The surroundings of one look: the states held, the chain and the clock in Unix seconds.\<close>

record Surroundings =
  su_Store :: "ChannelSource option"
  su_Chain :: reader
  su_Now :: int

definition DefaultWatchInterval :: duration where
  "DefaultWatchInterval = 30 * Second"

definition DefaultWatchMargin :: duration where
  "DefaultWatchMargin = WatchMarginFor (Recommend MainnetChallengeBudget)"

definition watchInterval :: "Watchtower \<Rightarrow> duration" where
  "watchInterval w = (if wt_Interval w > 0 then wt_Interval w else DefaultWatchInterval)"

definition watchMargin :: "Watchtower \<Rightarrow> duration" where
  "watchMargin w = (if wt_Margin w > 0 then wt_Margin w else DefaultWatchMargin)"

definition Check ::
  "Watchtower \<Rightarrow> Surroundings \<Rightarrow> (bytes32 \<Rightarrow> Channel option) \<Rightarrow> collector \<Rightarrow> bytes32 \<Rightarrow> Watch \<times> collector \<times> ChainCall list" where
  "Check w su Get m i =
     (let r0 = \<lparr> wa_Channel = i, wa_Outcome = WatchQuiet, wa_OnChainNonce = 0, wa_BestNonce = 0, wa_Deadline = 0,
                 wa_Remaining = 0, wa_TxHash = [], wa_Err = None \<rparr> in
      case Get i of
        None \<Rightarrow> (r0, m, [])
      | Some ch \<Rightarrow>
          let r1 = (if Complete (ch_Latest ch) then r0\<lparr>wa_BestNonce := latestNonce ch\<rparr> else r0) in
          (case su_Chain su (wt_Contract w) i of
             Inl e \<Rightarrow> (r1\<lparr>wa_Outcome := WatchFailed, wa_Err := Some (ErrReadingChain e)\<rparr>, m, [])
           | Inr onChain \<Rightarrow>
               let r2 = r1\<lparr>wa_OnChainNonce := oc_Nonce onChain, wa_Deadline := oc_ChallengeEnds onChain\<rparr> in
               if oc_Status onChain \<noteq> StatusClosing
               then (if oc_Status onChain = StatusSettled then (r2\<lparr>wa_Outcome := WatchSettled\<rparr>, m, [])
                     else (r2\<lparr>wa_Outcome := WatchQuiet\<rparr>, m, []))
               else
                 let remaining = i64 (oc_ChallengeEnds onChain - su_Now su);
                     r3 = r2\<lparr>wa_Remaining := remaining\<rparr> in
                 if \<not> Complete (ch_Latest ch) \<or> latestNonce ch \<le> oc_Nonce onChain
                 then (r3\<lparr>wa_Outcome := WatchHonest\<rparr>, m, [])
                 else if remaining \<le> 0 then (r3\<lparr>wa_Outcome := WatchFailed, wa_Err := Some ErrTooLate\<rparr>, m, [])
                 else if i64 (remaining * Second) < watchMargin w
                   then (r3\<lparr>wa_Outcome := WatchFailed, wa_Err := Some ErrInsideMargin\<rparr>, m, [])
                 else
                   (case wt_Sender w of
                      None \<Rightarrow> (r3\<lparr>wa_Outcome := WatchFailed, wa_Err := Some ErrNoSender\<rparr>, m, [])
                    | Some Challenge \<Rightarrow>
                        let call = ChallengeTx (wt_Contract w) (ch_Latest ch) in
                        (case Challenge call of
                           Inl text \<Rightarrow> (r3\<lparr>wa_Outcome := WatchFailed, wa_Err := Some (ErrSubmitting text)\<rparr>, m, [call])
                         | Inr tx \<Rightarrow> (r3\<lparr>wa_Outcome := WatchChallenged, wa_TxHash := tx\<rparr>, WatchtowerRecovery m, [call])))))"

fun sweepEach ::
  "Watchtower \<Rightarrow> Surroundings \<Rightarrow> (bytes32 \<Rightarrow> Channel option) \<Rightarrow> collector \<Rightarrow> bytes32 list
    \<Rightarrow> Watch list \<times> collector \<times> ChainCall list" where
  "sweepEach w su Get m [] = ([], m, [])"
| "sweepEach w su Get m (i # rest) =
     (case Check w su Get (WatchtowerObservation m) i of
        (r, m1, calls) \<Rightarrow>
          (case sweepEach w su Get m1 rest of (rs, m2, calls') \<Rightarrow> (r # rs, m2, calls @ calls')))"

definition Sweep :: "Watchtower \<Rightarrow> Surroundings \<Rightarrow> collector \<Rightarrow> Watch list \<times> collector \<times> ChainCall list" where
  "Sweep w su m =
     (case su_Store su of
        None \<Rightarrow> ([], m, [])
      | Some src \<Rightarrow> sweepEach w su (src_Get src) m (src_IDs src))"

text \<open>
  \<^verbatim>\<open>Run\<close>: a sweep at once, then one at every tick until a tick finds the tower stopped. The list has one
  entry for each tick up to the end of the context: whether \<^verbatim>\<open>Stop\<close> was called by then, and what the sweep
  sees.
\<close>

fun runTicks :: "Watchtower \<Rightarrow> collector \<Rightarrow> (bool \<times> Surroundings) list \<Rightarrow> Watch list list \<times> collector \<times> ChainCall list" where
  "runTicks w m [] = ([], m, [])"
| "runTicks w m ((stopped, su) # rest) =
     (if stopped then ([], m, [])
      else (case Sweep w su m of (rs, m1, calls) \<Rightarrow>
            (case runTicks w m1 rest of (rss, m2, calls') \<Rightarrow> (rs # rss, m2, calls @ calls'))))"

definition Run :: "Watchtower \<Rightarrow> Surroundings \<Rightarrow> (bool \<times> Surroundings) list \<Rightarrow> collector \<Rightarrow> Watch list list \<times> collector \<times> ChainCall list" where
  "Run w su ticks m =
     (case Sweep w su m of (rs, m1, calls) \<Rightarrow>
      (case runTicks w m1 ticks of (rss, m2, calls') \<Rightarrow> (rs # rss, m2, calls @ calls')))"

definition VaultSource :: "Vault \<Rightarrow> ChannelSource" where
  \<comment> \<open>\<^verbatim>\<open>VaultStore\<close> as a source\<close>
  "VaultSource v = \<lparr> src_IDs = VaultIDs v, src_Get = VaultStoreGet v \<rparr>"

definition StoreSource :: "Store \<Rightarrow> ChannelSource" where
  "StoreSource s = \<lparr> src_IDs = StoreIDs s, src_Get = StoreGet s \<rparr>"

end
