(* ===== verification/Vault_Props.thy ===== *)
theory Vault_Props
  imports Vault Protocol_Limits
begin

text \<open>
  What the vault promises: whatever the interleaving of submissions, every entry is a complete state
  signed by the two parties the chain named, and it only moves forward; and an acknowledged state
  survives the process, because its record was sealed under its key before it was activated.
\<close>

subsection \<open>Looking up and updating\<close>

lemma entryOf_putEntry [simp]: "entryOf (putEntry i e v) j = (if j = i then Some e else entryOf v j)"
  by (simp add: entryOf_def putEntry_def update_conv')

lemma putEntry_sel [simp]:
  "va_Chain (putEntry i e v) = va_Chain v" "va_Contract (putEntry i e v) = va_Contract v"
  "va_ChainID (putEntry i e v) = va_ChainID v" "va_backend (putEntry i e v) = va_backend v"
  "va_aead (putEntry i e v) = va_aead v"
  by (simp_all add: putEntry_def)

lemma entryOf_more [simp]: "entryOf (v\<lparr>va_backend := b\<rparr>) i = entryOf v i" "entryOf (v\<lparr>va_Chain := c\<rparr>) i = entryOf v i"
  by (simp_all add: entryOf_def)

lemma EntryNonce_more [simp]:
  "EntryNonce (e\<lparr>ve_Rejected := r\<rparr>) = EntryNonce e" "EntryNonce (e\<lparr>ve_Accepted := a\<rparr>) = EntryNonce e"
  "EntryNonce (e\<lparr>ve_Signed := s\<rparr>) = st_Nonce (ss_State s)"
  by (simp_all add: EntryNonce_def)

lemma refuse_sel [simp]: "snd (refuse i e v) = putEntry i (e\<lparr>ve_Rejected := ve_Rejected e + 1\<rparr>) v"
  by (simp add: refuse_def Let_def)

definition sameVault :: "Vault \<Rightarrow> Vault \<Rightarrow> bool" where
  \<comment> \<open>the same chain, contract and cipher\<close>
  "sameVault v v' \<longleftrightarrow> va_Chain v' = va_Chain v \<and> va_Contract v' = va_Contract v \<and> va_ChainID v' = va_ChainID v \<and>
     va_aead v' = va_aead v"

lemma sameVault_refl [simp]: "sameVault v v"
  by (simp add: sameVault_def)

lemma sameVault_trans [trans]: "sameVault a b \<Longrightarrow> sameVault b c \<Longrightarrow> sameVault a c"
  by (simp add: sameVault_def)

lemma submitCheck_vault:
  "submitCheck cr v s = (r, e, v') \<Longrightarrow>
   v' = v \<or> (\<exists>held. entryOf v (st_Channel (ss_State s)) = Some held \<and>
     v' = putEntry (st_Channel (ss_State s)) (held\<lparr>ve_Rejected := ve_Rejected held + 1\<rparr>) v)"
  by (auto simp: submitCheck_def refuse_def Let_def split: if_splits sum.splits option.splits)

lemma submitCheck_Inr:
  "submitCheck cr v s = (Inr fa, e, v') \<Longrightarrow>
   v' = v \<and> Complete s \<and> factsFor v (st_Channel (ss_State s)) = Inr fa \<and> verifyState cr v fa s = Inr () \<and>
   (\<forall>held. entryOf v (st_Channel (ss_State s)) = Some held \<longrightarrow> EntryNonce held < st_Nonce (ss_State s))"
  by (auto simp: submitCheck_def Let_def res_simps not_le split: if_splits sum.splits option.splits)

lemma persist_vault:
  "persistRecord cr js rnd w v s = (r, v') \<Longrightarrow> sameVault v v' \<and> va_entries v' = va_entries v"
  by (auto simp: persistRecord_def sameVault_def Let_def split: option.splits sum.splits WriteFault.splits)

lemma persist_entryOf: "persistRecord cr js rnd w v s = (r, v') \<Longrightarrow> entryOf v' i = entryOf v i"
  using persist_vault [of cr js rnd w v s r v'] by (simp add: entryOf_def)

lemma persist_backend: "persistRecord cr js rnd w v s = (r, v') \<Longrightarrow> (va_backend v' = None) = (va_backend v = None)"
  by (auto simp: persistRecord_def Let_def split: option.splits sum.splits WriteFault.splits)

lemma activate_vault: "activate fa s v = (r, e, v') \<Longrightarrow> sameVault v v' \<and> va_backend v' = va_backend v"
  by (auto simp: activate_def refuse_def sameVault_def Let_def split: option.splits if_splits)

lemma verifyState_cong:
  "va_ChainID v' = va_ChainID v \<Longrightarrow> va_Contract v' = va_Contract v \<Longrightarrow> verifyState cr v' fa s = verifyState cr v fa s"
  by (simp add: verifyState_def)

lemma stateKey_cong:
  "va_ChainID v' = va_ChainID v \<Longrightarrow> va_Contract v' = va_Contract v \<Longrightarrow> stateKey cr v' st = stateKey cr v st"
  by (simp add: stateKey_def)

subsection \<open>Keys name one state\<close>

lemma digitsVal_zeros: "digitsVal 0 (replicate k (CHR ''0'') @ s) = digitsVal 0 s"
  by (induction k) (simp_all add: digitVal_def Let_def)

lemma padDec_val: "digitsVal 0 (padDec w n) = Some n"
  by (simp add: padDec_def Let_def digitsVal_zeros digitsVal_natDec)

lemma length_natDec: "n < 10 ^ Suc k \<Longrightarrow> length (natDec n) \<le> Suc k"
proof (induction k arbitrary: n)
  case 0
  then show ?case by (simp add: natDec.simps [of n])
next
  case (Suc k)
  then have "n div 10 < 10 ^ Suc k"
    by (simp add: less_mult_imp_div_less mult.commute)
  then show ?case
    using Suc.IH [of "n div 10"] by (auto simp: natDec.simps [of n])
qed

lemma length_padDec_u64: "length (padDec 20 (unat (n :: u64))) = 20"
proof -
  have "unat n < 2 ^ 64"
    using unsigned_less [of n] by simp
  then have "unat n < 10 ^ Suc 19"
    by simp
  then have "length (natDec (unat n)) \<le> 20"
    using length_natDec [of "unat n" 19] by simp
  then show ?thesis
    by (simp add: padDec_def Let_def)
qed

lemma recordKey_inject:
  assumes "recordKey i n d = recordKey j m e" and "length i = length j"
  shows "i = j \<and> n = m \<and> d = e"
proof -
  let ?x = "padDec 20 (unat n)" and ?y = "padDec 20 (unat m)"
  have k: "hexEncode i @ CHR ''/'' # ?x @ CHR ''/'' # hexEncode d = hexEncode j @ CHR ''/'' # ?y @ CHR ''/'' # hexEncode e"
    using assms(1) unfolding recordKey_def by (simp only: append_Cons append_Nil same_append_eq)
  have l: "length (hexEncode i) = length (hexEncode j)" "length ?x = length ?y"
    using assms(2) by (simp_all only: length_hexEncode length_padDec_u64)
  have i: "hexEncode i = hexEncode j" and r: "CHR ''/'' # ?x @ CHR ''/'' # hexEncode d = CHR ''/'' # ?y @ CHR ''/'' # hexEncode e"
    using k by (simp_all only: append_eq_append_conv [OF disjI1 [OF l(1)]])
  have x: "?x = ?y" and d: "hexEncode d = hexEncode e"
    using r by (simp_all only: list.inject append_eq_append_conv [OF disjI1 [OF l(2)]])
  have "Some (unat n) = Some (unat m)"
    unfolding padDec_val [symmetric, of _ 20] by (simp only: x)
  then have "n = m"
    unfolding option.inject by (rule unsigned_word_eqI)
  then show ?thesis
    using hex.enc_eqD [OF i TrueI TrueI] hex.enc_eqD [OF d TrueI TrueI] by blast
qed

lemma recordKey_prefix [simp]: "take (length VaultKeyPrefix) (stateKey cr v st) = VaultKeyPrefix"
  by (simp add: stateKey_def recordKey_def)

subsection \<open>What is verified\<close>

text \<open>
  \<open>facts i\<close> are the facts of a channel the chain may report in the course of a run; a channel that is
  topped up has several. Whatever reader the vault is given, it answers with one of them or fails.
  \<open>verified\<close> is what a submission passed the checks with.
\<close>

definition answers :: "(bytes32 \<Rightarrow> Facts set) \<Rightarrow> address \<Rightarrow> reader \<Rightarrow> bool" where
  "answers facts contract rd \<longleftrightarrow> (\<forall>i occ. rd contract i = Inr occ \<longrightarrow>
     \<lparr> fa_PartyA = oc_PartyA occ, fa_PartyB = oc_PartyB occ,
        fa_DepositA = oc_DepositA occ, fa_DepositB = oc_DepositB occ \<rparr> \<in> facts i)"

definition verified :: "crypto \<Rightarrow> (bytes32 \<Rightarrow> Facts set) \<Rightarrow> Vault \<Rightarrow> SignedState \<Rightarrow> bool" where
  "verified cr facts v s \<longleftrightarrow> Complete s \<and>
     (\<exists>fa \<in> facts (st_Channel (ss_State s)). verifyState cr v fa s = Inr ())"

definition entryFacts :: "VaultEntry \<Rightarrow> Facts" where
  "entryFacts e = \<lparr> fa_PartyA = ve_PartyA e, fa_PartyB = ve_PartyB e,
     fa_DepositA = ve_DepositA e, fa_DepositB = ve_DepositB e \<rparr>"

lemma facts_eta [simp]:
  "\<lparr> fa_PartyA = fa_PartyA fa, fa_PartyB = fa_PartyB fa, fa_DepositA = fa_DepositA fa, fa_DepositB = fa_DepositB fa \<rparr> = fa"
  by (cases fa) simp

lemma entryFacts_more [simp]:
  "entryFacts (e\<lparr>ve_Rejected := r\<rparr>) = entryFacts e" "entryFacts (e\<lparr>ve_Accepted := a\<rparr>) = entryFacts e"
  "entryFacts (e\<lparr>ve_Signed := s\<rparr>) = entryFacts e"
  by (simp_all add: entryFacts_def)

definition readableRec ::
  "crypto \<Rightarrow> record_json \<Rightarrow> (bytes32 \<Rightarrow> Facts set) \<Rightarrow> Vault \<Rightarrow> string \<Rightarrow> bool" where
  \<comment> \<open>the backend has a record under this key that opens to a verified state of this key\<close>
  "readableRec cr js facts v key \<longleftrightarrow>
     (\<exists>blobs s. va_backend v = Some blobs \<and> loadOne cr js (\<lambda>_. True) blobs v key = Some s \<and> verified cr facts v s)"

definition custody :: "crypto \<Rightarrow> record_json \<Rightarrow> (bytes32 \<Rightarrow> Facts set) \<Rightarrow> Vault \<Rightarrow> SignedState \<Rightarrow> bool" where
  "custody cr js facts v s \<longleftrightarrow> va_backend v \<noteq> None \<longrightarrow> readableRec cr js facts v (stateKey cr v (ss_State s))"

definition entryOK :: "crypto \<Rightarrow> record_json \<Rightarrow> (bytes32 \<Rightarrow> Facts set) \<Rightarrow> Vault \<Rightarrow> bytes32 \<Rightarrow> VaultEntry \<Rightarrow> bool" where
  "entryOK cr js facts v i e \<longleftrightarrow> ve_Channel e = i \<and> st_Channel (ss_State (ve_Signed e)) = i \<and>
     entryFacts e \<in> facts i \<and>
     wireOK (ss_State (ve_Signed e)) \<and> verified cr facts v (ve_Signed e) \<and> custody cr js facts v (ve_Signed e)"

lemma entryOK_more [simp]:
  "entryOK cr js facts v i (e\<lparr>ve_Rejected := r\<rparr>) = entryOK cr js facts v i e"
  "entryOK cr js facts v i (e\<lparr>ve_Accepted := r\<rparr>) = entryOK cr js facts v i e"
  by (simp_all add: entryOK_def)

text \<open>What the code relies on in AES-GCM, the JSON package and the random source.\<close>

definition sealLaws :: "record_json \<Rightarrow> aead \<Rightarrow> bool" where
  "sealLaws js a \<longleftrightarrow>
     (\<forall>nonce plain. length nonce = ae_NonceSize a \<longrightarrow> ae_Open a nonce (ae_Seal a nonce plain) = Some plain) \<and>
     (\<forall>rec. \<exists>plain. rj_Marshal js rec = Some plain \<and> rj_Unmarshal js plain = Some rec)"

definition rndOK :: "aead \<Rightarrow> bytes option \<Rightarrow> bool" where
  "rndOK a rnd \<longleftrightarrow> (\<forall>nonce. rnd = Some nonce \<longrightarrow> length nonce = ae_NonceSize a)"

lemma open_seal:
  "sealLaws js a \<Longrightarrow> rndOK a rnd \<Longrightarrow> sealRecord js rnd a rec = Inr blob \<Longrightarrow> openRecord js a blob = Inr rec"
proof -
  assume laws: "sealLaws js a" and r: "rndOK a rnd" and s: "sealRecord js rnd a rec = Inr blob"
  obtain plain where p: "rj_Marshal js rec = Some plain" "rj_Unmarshal js plain = Some rec"
    using laws unfolding sealLaws_def by blast
  obtain nonce where n: "rnd = Some nonce" and b: "blob = nonce @ ae_Seal a nonce plain"
    using s p(1) by (auto simp: sealRecord_def split: option.splits)
  have l: "length nonce = ae_NonceSize a"
    using r n by (simp add: rndOK_def)
  then have "ae_Open a nonce (ae_Seal a nonce plain) = Some plain"
    using laws by (simp add: sealLaws_def)
  then show ?thesis
    using l p(2) by (simp add: openRecord_def b)
qed

text \<open>The invariant.\<close>

definition vaultInv :: "crypto \<Rightarrow> record_json \<Rightarrow> (bytes32 \<Rightarrow> Facts set) \<Rightarrow> Vault \<Rightarrow> bool" where
  "vaultInv cr js facts v \<longleftrightarrow>
     (\<forall>i e. entryOf v i = Some e \<longrightarrow> entryOK cr js facts v i e) \<and>
     (\<forall>rd. va_Chain v = Some rd \<longrightarrow> answers facts (va_Contract v) rd) \<and>
     (va_backend v \<noteq> None \<longrightarrow> (\<exists>a. va_aead v = Some a \<and> sealLaws js a))"

lemma verified_cong:
  "va_ChainID v' = va_ChainID v \<Longrightarrow> va_Contract v' = va_Contract v \<Longrightarrow> verified cr facts v' s = verified cr facts v s"
  unfolding verified_def by (simp add: verifyState_cong [of v' v])

lemma loadOne_cong:
  "va_ChainID v' = va_ChainID v \<Longrightarrow> va_Contract v' = va_Contract v \<Longrightarrow> va_aead v' = va_aead v \<Longrightarrow>
   loadOne cr js got blobs v' key = loadOne cr js got blobs v key"
proof -
  assume v: "va_ChainID v' = va_ChainID v" "va_Contract v' = va_Contract v" "va_aead v' = va_aead v"
  have "stateKey cr v' = stateKey cr v"
    by (rule ext) (rule stateKey_cong [OF v(1,2)])
  then show ?thesis
    unfolding loadOne_def v(3) by (simp only:)
qed

lemma readable_cong:
  "sameVault v v' \<Longrightarrow> va_backend v' = va_backend v \<Longrightarrow> readableRec cr js facts v' key = readableRec cr js facts v key"
  unfolding readableRec_def sameVault_def by (metis loadOne_cong verified_cong)

lemma factsFor_inv:
  assumes "vaultInv cr js facts v" "factsFor v i = Inr fa"
  shows "fa \<in> facts i"
  using assms
  by (auto simp: vaultInv_def factsFor_def entryOK_def entryFacts_def answers_def split: option.splits sum.splits)

lemma checked_verified:
  assumes "vaultInv cr js facts v" "submitCheck cr v s = (Inr fa, e, v')"
  shows "fa \<in> facts (st_Channel (ss_State s)) \<and> verified cr facts v s \<and> v' = v"
  using submitCheck_Inr [OF assms(2)] factsFor_inv [OF assms(1)] by (auto simp: verified_def)

lemma verified_normSigned: "verified cr facts v (normSigned s) = verified cr facts v s"
proof -
  have "Conserved (ss_State (normSigned s)) = Conserved (ss_State s)"
    by (rule ext)+ (simp add: Conserved_def stateTotal_def normSigned_def normState_def lockedTotal_def clonePending_def comp_def)
  then show ?thesis
    by (simp add: verified_def verifyState_def requireBothParties_def Complete_def normSigned_def)
qed

text \<open>Writing a verified canonical state keeps every readable record readableRec and makes its own so.\<close>

lemma persist_readable:
  assumes "persistRecord cr js rnd w v s = (r, v')" "va_backend v \<noteq> None" "va_aead v = Some a" "sealLaws js a"
    "rndOK a rnd" "wireOK (ss_State s)" "verified cr facts v s"
  shows "(readableRec cr js facts v key \<longrightarrow> readableRec cr js facts v' key) \<and>
    (r = Inr () \<longrightarrow> readableRec cr js facts v' (stateKey cr v (ss_State s)))"
proof -
  obtain blobs where b: "va_backend v = Some blobs"
    using assms(2) by blast
  let ?k = "stateKey cr v (ss_State s)"
  have stored: "loadOne cr js (\<lambda>_. True) (blobs(?k \<mapsto> blob)) v key =
      (if key = ?k then Some (normSigned s) else loadOne cr js (\<lambda>_. True) blobs v key)"
    if "sealRecord js rnd a (recordOf s) = Inr blob" for blob key
  proof (cases "key = ?k")
    case True
    have "stateKey cr v (normState (ss_State s)) = ?k"
      by (simp add: stateKey_def)
    with True show ?thesis
      using open_seal [OF assms(4,5) that] decode_encode_state [OF assms(6)] assms(3)
      by (simp add: loadOne_def recordOf_def normSigned_def)
  next
    case False
    then show ?thesis by (simp add: loadOne_def)
  qed
  have v: "v' = v \<and> r \<noteq> Inr () \<or> (\<exists>blob. sealRecord js rnd a (recordOf s) = Inr blob \<and>
      v' = v\<lparr>va_backend := Some (blobs(?k \<mapsto> blob))\<rparr>)"
    using assms(1,3) b by (auto simp: persistRecord_def Let_def split: sum.splits WriteFault.splits)
  then show ?thesis
  proof (elim disjE exE conjE)
    fix blob assume s: "sealRecord js rnd a (recordOf s) = Inr blob" and v': "v' = v\<lparr>va_backend := Some (blobs(?k \<mapsto> blob))\<rparr>"
    have l: "loadOne cr js (\<lambda>_. True) (blobs(?k \<mapsto> blob)) v' key = loadOne cr js (\<lambda>_. True) (blobs(?k \<mapsto> blob)) v key" for key
      by (rule loadOne_cong) (simp_all add: v')
    have ver: "verified cr facts v' x = verified cr facts v x" for x
      by (rule verified_cong) (simp_all add: v')
    have "readableRec cr js facts v' ?k"
      unfolding readableRec_def ver using stored [OF s, of ?k] l [of ?k] assms(7) v' by (simp add: verified_normSigned)
    moreover have "readableRec cr js facts v key \<longrightarrow> readableRec cr js facts v' key" for key
      unfolding readableRec_def ver using stored [OF s, of key] l [of key] assms(7) v' b
      by (auto simp: verified_normSigned)
    ultimately show ?thesis by blast
  qed auto
qed

subsection \<open>The steps of concurrent submissions\<close>

text \<open>
  Submissions interleave at their three steps. \<open>vs_checked\<close> holds those that passed the checks,
  \<open>vs_written\<close> those whose record is stored; what they carry may be acted on at any later time. The
  chain reader may be replaced and may fail. Submitted states are canonical, as states read off the
  wire are (\<open>decodeStateWire_strict\<close>).
\<close>

record VaultRun =
  vs_vault :: Vault
  vs_checked :: "(Facts \<times> SignedState) set"
  vs_written :: "(Facts \<times> SignedState) set"

inductive vaultStep ::
  "crypto \<Rightarrow> record_json \<Rightarrow> (bytes32 \<Rightarrow> Facts set) \<Rightarrow> VaultRun \<Rightarrow> VaultRun \<Rightarrow> bool"
  for cr js facts where
  check: "wireOK (ss_State s) \<Longrightarrow> submitCheck cr v s = (Inr fa, e, v') \<Longrightarrow>
    vaultStep cr js facts \<lparr>vs_vault = v, vs_checked = C, vs_written = W\<rparr>
      \<lparr>vs_vault = v', vs_checked = insert (fa, s) C, vs_written = W\<rparr>"
| refused: "submitCheck cr v s = (Inl err, e, v') \<Longrightarrow>
    vaultStep cr js facts \<lparr>vs_vault = v, vs_checked = C, vs_written = W\<rparr>
      \<lparr>vs_vault = v', vs_checked = C, vs_written = W\<rparr>"
| store_ok: "(fa, s) \<in> C \<Longrightarrow> (\<And>a. va_aead v = Some a \<Longrightarrow> rndOK a rnd) \<Longrightarrow> persistRecord cr js rnd w v s = (Inr (), v') \<Longrightarrow>
    vaultStep cr js facts \<lparr>vs_vault = v, vs_checked = C, vs_written = W\<rparr>
      \<lparr>vs_vault = v', vs_checked = C, vs_written = insert (fa, s) W\<rparr>"
| store_fails: "(fa, s) \<in> C \<Longrightarrow> (\<And>a. va_aead v = Some a \<Longrightarrow> rndOK a rnd) \<Longrightarrow> persistRecord cr js rnd w v s = (Inl err, v') \<Longrightarrow>
    vaultStep cr js facts \<lparr>vs_vault = v, vs_checked = C, vs_written = W\<rparr>
      \<lparr>vs_vault = v', vs_checked = C, vs_written = W\<rparr>"
| adopt: "(fa, s) \<in> W \<Longrightarrow> activate fa s v = (r, e, v') \<Longrightarrow>
    vaultStep cr js facts \<lparr>vs_vault = v, vs_checked = C, vs_written = W\<rparr>
      \<lparr>vs_vault = v', vs_checked = C, vs_written = W\<rparr>"
| chain: "(\<And>rd. c = Some rd \<Longrightarrow> answers facts (va_Contract v) rd) \<Longrightarrow>
    vaultStep cr js facts \<lparr>vs_vault = v, vs_checked = C, vs_written = W\<rparr>
      \<lparr>vs_vault = v\<lparr>va_Chain := c\<rparr>, vs_checked = C, vs_written = W\<rparr>"

definition inFlight :: "crypto \<Rightarrow> (bytes32 \<Rightarrow> Facts set) \<Rightarrow> Vault \<Rightarrow> Facts \<times> SignedState \<Rightarrow> bool" where
  "inFlight cr facts v x \<longleftrightarrow> (case x of (fa, s) \<Rightarrow>
     fa \<in> facts (st_Channel (ss_State s)) \<and> verified cr facts v s \<and> wireOK (ss_State s))"

definition runInv :: "crypto \<Rightarrow> record_json \<Rightarrow> (bytes32 \<Rightarrow> Facts set) \<Rightarrow> VaultRun \<Rightarrow> bool" where
  "runInv cr js facts x \<longleftrightarrow> vaultInv cr js facts (vs_vault x) \<and>
     (\<forall>p \<in> vs_checked x \<union> vs_written x. inFlight cr facts (vs_vault x) p) \<and>
     (\<forall>p \<in> vs_written x. custody cr js facts (vs_vault x) (snd p))"

lemma entry_frame:
  assumes "sameVault v v'" "va_backend v' = va_backend v"
  shows "entryOK cr js facts v' = entryOK cr js facts v" "inFlight cr facts v' = inFlight cr facts v"
    "custody cr js facts v' = custody cr js facts v"
proof -
  have r: "readableRec cr js facts v' = readableRec cr js facts v" "verified cr facts v' = verified cr facts v"
    "stateKey cr v' = stateKey cr v"
    using readable_cong [OF assms] verified_cong [of v' v] stateKey_cong [of v' v] assms(1)
    by (auto simp: fun_eq_iff sameVault_def)
  show c: "custody cr js facts v' = custody cr js facts v"
    by (simp add: fun_eq_iff custody_def r assms(2))
  show "entryOK cr js facts v' = entryOK cr js facts v" "inFlight cr facts v' = inFlight cr facts v"
    by (simp_all add: fun_eq_iff entryOK_def inFlight_def r c)
qed

lemma vaultInv_refused:
  assumes "vaultInv cr js facts v" "entryOf v i = Some held"
  shows "vaultInv cr js facts (putEntry i (held\<lparr>ve_Rejected := n\<rparr>) v)"
proof -
  let ?v = "putEntry i (held\<lparr>ve_Rejected := n\<rparr>) v"
  have "entryOK cr js facts ?v = entryOK cr js facts v"
    by (rule entry_frame) (simp_all add: sameVault_def)
  then show ?thesis
    using assms by (auto simp: vaultInv_def)
qed

lemma submitCheck_inv:
  assumes "vaultInv cr js facts v" "submitCheck cr v s = (r, e, v')"
  shows "vaultInv cr js facts v' \<and> sameVault v v' \<and> va_backend v' = va_backend v"
  using submitCheck_vault [OF assms(2)] vaultInv_refused [OF assms(1)] assms(1)
  by (auto simp: sameVault_def)

lemma persist_inv:
  assumes "vaultInv cr js facts v" "inFlight cr facts v (fa, s)" "\<And>a. va_aead v = Some a \<Longrightarrow> rndOK a rnd"
    "persistRecord cr js rnd w v s = (r, v')"
  shows "vaultInv cr js facts v' \<and> inFlight cr facts v' = inFlight cr facts v \<and>
    (\<forall>x. custody cr js facts v x \<longrightarrow> custody cr js facts v' x) \<and>
    (r = Inr () \<longrightarrow> custody cr js facts v' s)"
proof -
  have sv: "sameVault v v'" and ent: "\<And>i. entryOf v' i = entryOf v i"
    using persist_vault [OF assms(4)] persist_entryOf [OF assms(4)] by auto
  have ver: "verified cr facts v' = verified cr facts v"
    using verified_cong [of v' v] sv by (auto simp: fun_eq_iff sameVault_def)
  have key: "stateKey cr v' = stateKey cr v"
    using stateKey_cong [of v' v] sv by (auto simp: fun_eq_iff sameVault_def)
  have fl: "inFlight cr facts v' = inFlight cr facts v"
    by (simp add: fun_eq_iff inFlight_def ver)
  have cus: "(\<forall>x. custody cr js facts v x \<longrightarrow> custody cr js facts v' x) \<and> (r = Inr () \<longrightarrow> custody cr js facts v' s)"
  proof (cases "va_backend v = None")
    case True
    then have "v' = v"
      using assms(4) by (auto simp: persistRecord_def)
    with True show ?thesis by (simp add: custody_def)
  next
    case False
    then obtain a where a: "va_aead v = Some a" "sealLaws js a"
      using assms(1) unfolding vaultInv_def by blast
    have i: "wireOK (ss_State s)" "verified cr facts v s"
      using assms(2) by (auto simp: inFlight_def)
    note p = persist_readable [OF assms(4) False a assms(3) [OF a(1)] i]
    show ?thesis
      unfolding custody_def key using p False by blast
  qed
  have "vaultInv cr js facts v'"
    unfolding vaultInv_def
  proof (intro conjI allI impI)
    fix i e assume "entryOf v' i = Some e"
    then have "entryOK cr js facts v i e"
      using assms(1) by (simp add: vaultInv_def ent)
    then show "entryOK cr js facts v' i e"
      using cus by (simp add: entryOK_def ver)
  next
    show "\<exists>a. va_aead v' = Some a \<and> sealLaws js a" if "va_backend v' \<noteq> None"
      using that assms(1,4) sv by (auto simp: vaultInv_def sameVault_def persistRecord_def split: option.splits)
  qed (use assms(1) sv in \<open>auto simp: vaultInv_def sameVault_def\<close>)
  then show ?thesis
    using fl cus by blast
qed

lemma activate_inv:
  assumes "vaultInv cr js facts v" "inFlight cr facts v (fa, s)" "custody cr js facts v s"
    "activate fa s v = (r, e, v')"
  shows "vaultInv cr js facts v' \<and> sameVault v v' \<and> va_backend v' = va_backend v"
proof -
  let ?i = "st_Channel (ss_State s)"
  have fr: "sameVault v v'" "va_backend v' = va_backend v"
    using activate_vault [OF assms(4)] by auto
  have f: "fa \<in> facts ?i" "verified cr facts v s" "wireOK (ss_State s)"
    using assms(2) by (auto simp: inFlight_def)
  have "entryOK cr js facts v i' e'" if "entryOf v' i' = Some e'" for i' e'
  proof (cases "i' = ?i")
    case False
    then have "entryOf v i' = Some e'"
      using that assms(4) by (auto simp: activate_def refuse_def Let_def split: option.splits if_splits)
    then show ?thesis using assms(1) by (simp add: vaultInv_def)
  next
    case True
    show ?thesis
    proof (cases "entryOf v ?i")
      case None
      then show ?thesis
        using that True assms(3,4) f
        by (auto simp: activate_def Let_def entryOK_def entryFacts_def)
    next
      case (Some held)
      then have "entryOK cr js facts v ?i held"
        using assms(1) by (simp add: vaultInv_def)
      then show ?thesis
        using that True Some assms(3,4) f
        by (auto simp: activate_def refuse_def Let_def entryOK_def entryFacts_def split: if_splits)
    qed
  qed
  then have "vaultInv cr js facts v'"
    unfolding vaultInv_def entry_frame [OF fr] using assms(1) fr by (auto simp: vaultInv_def sameVault_def)
  then show ?thesis using fr by blast
qed

lemma vaultStep_inv: "vaultStep cr js facts x y \<Longrightarrow> runInv cr js facts x \<Longrightarrow> runInv cr js facts y"
proof (induction rule: vaultStep.induct)
  case (check s v fa e v' C W)
  then have v: "vaultInv cr js facts v"
    by (simp add: runInv_def)
  show ?case
    using checked_verified [OF v check(2)] check by (auto simp: runInv_def inFlight_def)
next
  case (refused v s err e v' C W)
  then have v: "vaultInv cr js facts v"
    by (simp add: runInv_def)
  note i = submitCheck_inv [OF v refused(1)]
  show ?case
    using refused(2) i entry_frame [OF conjunct1 [OF conjunct2 [OF i]] conjunct2 [OF conjunct2 [OF i]]] by (simp add: runInv_def)
next
  case (store_ok fa s C v rnd w v' W)
  then have "vaultInv cr js facts v" "inFlight cr facts v (fa, s)"
    by (auto simp: runInv_def)
  note i = persist_inv [OF this store_ok(2,3)]
  show ?case
    using store_ok(1,4) i by (auto simp: runInv_def)
next
  case (store_fails fa s C v rnd w err v' W)
  then have "vaultInv cr js facts v" "inFlight cr facts v (fa, s)"
    by (auto simp: runInv_def)
  note i = persist_inv [OF this store_fails(2,3)]
  show ?case
    using store_fails(4) i by (auto simp: runInv_def)
next
  case (adopt fa s W v r e v' C)
  then have "vaultInv cr js facts v" "inFlight cr facts v (fa, s)" "custody cr js facts v s"
    by (auto simp: runInv_def)
  note i = activate_inv [OF this adopt(2)]
  show ?case
    using adopt(3) i entry_frame [OF conjunct1 [OF conjunct2 [OF i]] conjunct2 [OF conjunct2 [OF i]]] by (simp add: runInv_def)
next
  case (chain c v C W)
  let ?v = "v\<lparr>va_Chain := c\<rparr>"
  have e: "verified cr facts ?v = verified cr facts v" "stateKey cr ?v = stateKey cr v"
    using verified_cong [of ?v v] stateKey_cong [of ?v v] by (auto simp: fun_eq_iff)
  have l: "loadOne cr js got b ?v k = loadOne cr js got b v k" for got b k
    by (rule loadOne_cong) simp_all
  have c: "custody cr js facts ?v = custody cr js facts v"
    by (simp add: fun_eq_iff custody_def readableRec_def e l)
  have "inFlight cr facts ?v = inFlight cr facts v" "entryOK cr js facts ?v = entryOK cr js facts v"
    by (simp_all add: fun_eq_iff inFlight_def entryOK_def e c)
  then show ?case
    using chain by (simp add: runInv_def vaultInv_def c)
qed

subsection \<open>Loading\<close>

text \<open>A submission carried through without interruption, and the loop of \<^verbatim>\<open>Load\<close> over the keys.\<close>

definition heldAt :: "Vault \<Rightarrow> bytes32 \<Rightarrow> u64 \<Rightarrow> bool" where
  "heldAt v i n \<longleftrightarrow> (\<exists>e. entryOf v i = Some e \<and> n \<le> EntryNonce e)"

lemma activate_held:
  "activate fa s v = (r, e, v') \<Longrightarrow> heldAt v' (st_Channel (ss_State s)) (st_Nonce (ss_State s)) \<and> (heldAt v i n \<longrightarrow> heldAt v' i n)"
  by (auto simp: activate_def refuse_def heldAt_def Let_def EntryNonce_def not_le split: option.splits if_splits)

lemma submitCheck_held: "submitCheck cr v s = (r, e, v') \<Longrightarrow> heldAt v i n \<Longrightarrow> heldAt v' i n"
  using submitCheck_vault [of cr v s r e v'] by (auto simp: heldAt_def split: if_splits)

lemma submitVerified_inv:
  assumes "vaultInv cr js facts v" "wireOK (ss_State s)" "\<And>a. va_aead v = Some a \<Longrightarrow> rndOK a rnd"
    "submitVerified cr js rnd w v s = (r, e, v')"
  shows "vaultInv cr js facts v' \<and> sameVault v v' \<and> (va_backend v' = None) = (va_backend v = None) \<and>
    (\<forall>x. custody cr js facts v x \<longrightarrow> custody cr js facts v' x) \<and> (\<forall>i n. heldAt v i n \<longrightarrow> heldAt v' i n) \<and>
    (r = Inr () \<longrightarrow> heldAt v' (st_Channel (ss_State s)) (st_Nonce (ss_State s)))"
proof (cases "submitCheck cr v s")
  case (fields rc ec v1)
  note i1 = submitCheck_inv [OF assms(1) fields]
  show ?thesis
  proof (cases rc)
    case (Inl err)
    then have "v' = v1" "r = Inl err"
      using assms(4) fields by (auto simp: submitVerified_def)
    moreover have "custody cr js facts v1 = custody cr js facts v"
      by (rule entry_frame) (use i1 in blast)+
    ultimately show ?thesis
      using i1 submitCheck_held [OF fields] by simp
  next
    case (Inr fa)
    have c: "fa \<in> facts (st_Channel (ss_State s))" "verified cr facts v s" "v1 = v"
      using checked_verified [OF assms(1), of s fa ec v1] fields Inr by auto
    then have fl: "inFlight cr facts v (fa, s)"
      using assms(2) by (simp add: inFlight_def)
    obtain rp v2 where p: "persistRecord cr js rnd w v s = (rp, v2)"
      by fastforce
    note i2 = persist_inv [OF assms(1) fl assms(3) p]
    have s2: "sameVault v v2" "\<And>i n. heldAt v2 i n = heldAt v i n"
      using persist_vault [OF p] by (auto simp: heldAt_def entryOf_def)
    have b2: "(va_backend v2 = None) = (va_backend v = None)"
      by (rule persist_backend [OF p])
    show ?thesis
    proof (cases rp)
      case (Inl err)
      then have "v' = v2" "r = Inl err"
        using assms(4) fields Inr p c(3) by (auto simp: submitVerified_def)
      then show ?thesis using i2 s2 b2 by simp
    next
      case (Inr u)
      then have act: "activate fa s v2 = (r, e, v')"
        using assms(4) p unfolding submitVerified_def fields \<open>rc = Inr fa\<close> c(3) by simp
      have "inFlight cr facts v2 (fa, s)" "custody cr js facts v2 s" "vaultInv cr js facts v2"
        using i2 fl Inr by auto
      note i3 = activate_inv [OF this(3,1,2) act]
      have cus: "custody cr js facts v' = custody cr js facts v2"
        by (rule entry_frame) (use i3 in blast)+
      show ?thesis
      proof (intro conjI allI impI)
        show "vaultInv cr js facts v'" "sameVault v v'" "(va_backend v' = None) = (va_backend v = None)"
          using i3 b2 sameVault_trans [OF s2(1)] by auto
        show "heldAt v' (st_Channel (ss_State s)) (st_Nonce (ss_State s))"
          using activate_held [OF act] by blast
        show "custody cr js facts v' x" if "custody cr js facts v x" for x
          using i2 cus that by simp
        show "heldAt v' i n" if "heldAt v i n" for i n
          using activate_held [OF act, of i n] s2(2) that by simp
      qed
    qed
  qed
qed


lemma Best_heldAt: "heldAt v i n \<Longrightarrow> \<exists>s. Best v i = Some s \<and> n \<le> st_Nonce (ss_State s)"
  by (auto simp: heldAt_def Best_def EntryNonce_def)

text \<open>When nothing fails and the chain answers, a verified state is held afterwards.\<close>

lemma submitVerified_done:
  assumes "vaultInv cr js facts v" "va_Chain v = Some rd" "verified cr facts v s"
    and only: "facts (st_Channel (ss_State s)) \<subseteq> {fa}"
    and "entryOf v (st_Channel (ss_State s)) = None \<longrightarrow> (\<exists>occ. rd (va_Contract v) (st_Channel (ss_State s)) = Inr occ)"
    "\<And>a. va_aead v = Some a \<Longrightarrow> rndOK a rnd \<and> rnd \<noteq> None"
    "submitVerified cr js rnd WriteOK v s = (r, e, v')"
  shows "heldAt v' (st_Channel (ss_State s)) (st_Nonce (ss_State s)) \<and> (r = Inr () \<or> r = Inl ErrStaleDeposit)"
proof -
  let ?i = "st_Channel (ss_State s)"
  have f: "facts ?i = {fa}" "verifyState cr v fa s = Inr ()" "Complete s"
    using assms(3) only by (auto simp: verified_def)
  have ff: "factsFor v ?i = Inr fa"
  proof (cases "entryOf v ?i")
    case None
    then obtain occ where "rd (va_Contract v) ?i = Inr occ"
      using assms(5) by blast
    then show ?thesis
      using None assms(1,2) f(1) by (auto simp: factsFor_def vaultInv_def answers_def)
  next
    case (Some held)
    then have "entryFacts held \<in> facts ?i"
      using assms(1) by (auto simp: vaultInv_def entryOK_def)
    then show ?thesis
      using Some f(1) by (simp add: factsFor_def entryFacts_def)
  qed
  show ?thesis
  proof (cases "\<exists>held. entryOf v ?i = Some held \<and> st_Nonce (ss_State s) \<le> EntryNonce held")
    case True
    then obtain held where h: "entryOf v ?i = Some held" "st_Nonce (ss_State s) \<le> EntryNonce held"
      by blast
    then have "submitCheck cr v s = (Inl ErrStaleDeposit, refuse ?i held v)"
      using assms(2) f ff by (simp add: submitCheck_def)
    then show ?thesis
      using assms(7) h by (auto simp: submitVerified_def refuse_def Let_def heldAt_def)
  next
    case False
    then have c: "submitCheck cr v s = (Inr fa, emptyEntry, v)"
      using assms(2) f ff by (auto simp: submitCheck_def Let_def split: option.splits)
    obtain v2 where p: "persistRecord cr js rnd WriteOK v s = (Inr (), v2)"
    proof (cases "va_backend v")
      case None
      then show ?thesis using that by (simp add: persistRecord_def)
    next
      case (Some b)
      then obtain a where a: "va_aead v = Some a" "sealLaws js a"
        using assms(1) by (auto simp: vaultInv_def)
      moreover obtain plain where "rj_Marshal js (recordOf s) = Some plain"
        using a(2) unfolding sealLaws_def by blast
      moreover obtain nonce where "rnd = Some nonce"
        using assms(6) [OF a(1)] by blast
      ultimately show ?thesis
        using Some that by (simp add: persistRecord_def sealRecord_def)
    qed
    then have act: "activate fa s v2 = (r, e, v')"
      using assms(7) c by (simp add: submitVerified_def)
    have "r = Inr () \<or> r = Inl ErrStaleDeposit"
      using act by (auto simp: activate_def Let_def split: option.splits if_splits)
    then show ?thesis
      using activate_held [OF act] by blast
  qed
qed


lemma loadOne_Some:
  assumes "loadOne cr js got blobs v key = Some s"
  shows "key = stateKey cr v (ss_State s) \<and> wireOK (ss_State s) \<and> got key \<and> key \<in> dom blobs"
  using assms decodeStateWire_D
  by (auto simp: loadOne_def split: if_splits option.splits sum.splits)

lemma loadOne_got: "got key \<Longrightarrow> loadOne cr js got blobs v key = loadOne cr js (\<lambda>_. True) blobs v key"
  by (simp add: loadOne_def)

definition quietLoad :: "aead \<Rightarrow> LoadFaults \<Rightarrow> bool" where
  \<comment> \<open>no call of the backend or the random source fails\<close>
  "quietLoad a lf \<longleftrightarrow> (\<forall>key. lf_got lf key \<and> lf_put lf key = WriteOK \<and>
     (\<exists>nonce. lf_rnd lf key = Some nonce \<and> length nonce = ae_NonceSize a))"

lemma loadStep_inv:
  assumes inv: "vaultInv cr js facts v" and a: "va_aead v = Some a" "quietLoad a lf" and b: "va_backend v \<noteq> None"
    and step: "loadStep cr js lf key (v, k) = (v', k')"
  shows "vaultInv cr js facts v' \<and> sameVault v v' \<and> va_backend v' \<noteq> None \<and>
    (\<forall>x. custody cr js facts v x \<longrightarrow> custody cr js facts v' x) \<and> (\<forall>i n. heldAt v i n \<longrightarrow> heldAt v' i n)"
proof -
  obtain blobs where b': "va_backend v = Some blobs"
    using b by blast
  show ?thesis
  proof (cases "loadOne cr js (lf_got lf) blobs v key")
    case None
    then show ?thesis
      using step inv b' by (simp add: loadStep_def)
  next
    case (Some s)
    obtain r e v1 where s: "submitVerified cr js (lf_rnd lf key) (lf_put lf key) v s = (r, e, v1)"
      using prod_cases3 by blast
    then have v1: "v' = v1"
      using step Some b' by (simp add: loadStep_def split: sum.splits)
    have rnd: "rndOK a' (lf_rnd lf key)" if "va_aead v = Some a'" for a'
      using a that by (auto simp: quietLoad_def rndOK_def) (metis option.inject)
    have w: "wireOK (ss_State s)"
      using loadOne_Some [OF Some] by blast
    show ?thesis
      using submitVerified_inv [OF inv w rnd s] b v1 by simp
  qed
qed

lemma loadStep_holds:
  assumes inv: "vaultInv cr js facts v" and a: "va_aead v = Some a" "quietLoad a lf"
    and rd: "va_Chain v = Some rd" "rd (va_Contract v) (st_Channel (ss_State s)) = Inr occ"
    and s: "custody cr js facts v s" "va_backend v \<noteq> None" "wireOK (ss_State s)"
    and only: "facts (st_Channel (ss_State s)) \<subseteq> {fa}"
    and step: "loadStep cr js lf (stateKey cr v (ss_State s)) (v, k) = (v', k')"
  shows "heldAt v' (st_Channel (ss_State s)) (st_Nonce (ss_State s))"
proof -
  let ?k = "stateKey cr v (ss_State s)"
  obtain blobs s' where b: "va_backend v = Some blobs" "loadOne cr js (\<lambda>_. True) blobs v ?k = Some s'" "verified cr facts v s'"
    using s(1,2) by (auto simp: custody_def readableRec_def)
  have "?k = stateKey cr v (ss_State s')" "wireOK (ss_State s')"
    using loadOne_Some [OF b(2)] by blast+
  then have same: "st_Channel (ss_State s') = st_Channel (ss_State s)" "st_Nonce (ss_State s') = st_Nonce (ss_State s)"
    using s(3) recordKey_inject by (auto simp: stateKey_def wireOK_def) metis+
  have q: "lf_got lf ?k" "lf_put lf ?k = WriteOK"
    using a(2) by (simp_all add: quietLoad_def)
  have rnd: "rndOK a' (lf_rnd lf ?k) \<and> lf_rnd lf ?k \<noteq> None" if "va_aead v = Some a'" for a'
    using a that by (auto simp: quietLoad_def rndOK_def) (metis option.inject)+
  obtain r e v1 where sub: "submitVerified cr js (lf_rnd lf ?k) WriteOK v s' = (r, e, v1)"
    using prod_cases3 by blast
  have "loadOne cr js (lf_got lf) blobs v ?k = Some s'"
    using b(2) loadOne_got q(1) by metis
  then have "v' = v1"
    using step b(1) sub q(2) by (simp add: loadStep_def split: sum.splits)
  moreover have "heldAt v1 (st_Channel (ss_State s')) (st_Nonce (ss_State s'))"
    using submitVerified_done [OF inv rd(1) b(3) _ _ rnd sub] rd(2) same(1) only by auto
  ultimately show ?thesis
    by (simp add: same)
qed


lemma loadFold:
  assumes "vaultInv cr js facts v" "va_aead v = Some a" "quietLoad a lf" "va_backend v \<noteq> None"
    "fold (loadStep cr js lf) keys (v, k) = (v', k')"
  shows "vaultInv cr js facts v' \<and> (\<forall>i n. heldAt v i n \<longrightarrow> heldAt v' i n) \<and>
    (\<forall>s rd occ fa. va_Chain v = Some rd \<longrightarrow> rd (va_Contract v) (st_Channel (ss_State s)) = Inr occ \<longrightarrow>
       facts (st_Channel (ss_State s)) \<subseteq> {fa} \<longrightarrow> custody cr js facts v s \<longrightarrow> wireOK (ss_State s) \<longrightarrow> stateKey cr v (ss_State s) \<in> set keys \<longrightarrow>
       heldAt v' (st_Channel (ss_State s)) (st_Nonce (ss_State s)))"
  using assms
proof (induction keys arbitrary: v k)
  case (Cons key keys)
  obtain v1 k1 where st: "loadStep cr js lf key (v, k) = (v1, k1)"
    by fastforce
  note i = loadStep_inv [OF Cons.prems(1-4) st]
  have eq: "va_Chain v1 = va_Chain v" "va_Contract v1 = va_Contract v" "va_ChainID v1 = va_ChainID v" "va_aead v1 = va_aead v"
    using i by (auto simp: sameVault_def)
  have key: "stateKey cr v1 = stateKey cr v"
    using stateKey_cong [OF eq(3,2)] by (simp add: fun_eq_iff)
  have rest: "fold (loadStep cr js lf) keys (v1, k1) = (v', k')"
    using Cons.prems(5) st by simp
  have a1: "vaultInv cr js facts v1" "va_aead v1 = Some a" "va_backend v1 \<noteq> None"
    using i Cons.prems(2) eq(4) by auto
  note ih = Cons.IH [OF a1(1,2) Cons.prems(3) a1(3) rest, unfolded eq key]
  have "heldAt v' (st_Channel (ss_State s)) (st_Nonce (ss_State s))"
    if h: "va_Chain v = Some rd" "rd (va_Contract v) (st_Channel (ss_State s)) = Inr occ"
      "custody cr js facts v s" "wireOK (ss_State s)" "stateKey cr v (ss_State s) \<in> set (key # keys)"
      and only: "facts (st_Channel (ss_State s)) \<subseteq> {fa}" for s rd occ fa
  proof (cases "stateKey cr v (ss_State s) = key")
    case True
    then show ?thesis
      using loadStep_holds [OF Cons.prems(1-3) h(1,2,3) Cons.prems(4) h(4) only] st ih by simp
  next
    case False
    then show ?thesis
      using ih i h only by auto
  qed
  then show ?case
    using ih i by blast
qed simp

subsection \<open>Properties\<close>

definition newVault :: "(bytes \<Rightarrow> string + aead) \<Rightarrow> bytes \<Rightarrow> (string \<rightharpoonup> bytes) \<Rightarrow> reader option \<Rightarrow> bigint \<Rightarrow> address \<Rightarrow> (chan_error + unit) \<times> Vault" where
  \<comment> \<open>a vault as a process starts it: \<^verbatim>\<open>NewVault\<close>, then \<^verbatim>\<open>SetBackend\<close>\<close>
  "newVault newGCM key blobs chain chainID contract = SetBackend newGCM (Some blobs) key (NewVault chain chainID contract)"

lemma newVault_sel:
  assumes "newVault newGCM key blobs chain chainID contract = (Inr (), v)"
  shows "va_Chain v = chain" "va_Contract v = contract" "va_ChainID v = chainID" "va_backend v = Some blobs"
    "va_entries v = []" "\<exists>a. newGCM key = Inr a \<and> va_aead v = Some a"
  using assms by (auto simp: newVault_def SetBackend_def NewVault_def split: if_splits sum.splits)

lemma newVault_inv:
  assumes "newVault newGCM key blobs chain chainID contract = (Inr (), v)" "\<And>a. newGCM key = Inr a \<Longrightarrow> sealLaws js a"
    "\<And>rd. chain = Some rd \<Longrightarrow> answers facts contract rd"
  shows "vaultInv cr js facts v"
  using newVault_sel [OF assms(1)] assms(2,3) by (auto simp: vaultInv_def entryOf_def)

abbreviation startRun :: "Vault \<Rightarrow> VaultRun" where
  "startRun v \<equiv> \<lparr>vs_vault = v, vs_checked = {}, vs_written = {}\<rparr>"

lemma vaultStep_held: "vaultStep cr js facts x y \<Longrightarrow> heldAt (vs_vault x) i n \<Longrightarrow> heldAt (vs_vault y) i n"
proof (induction rule: vaultStep.induct)
  case (check s v fa e v' C W)
  then show ?case using submitCheck_held by fastforce
next
  case (refused v s err e v' C W)
  then show ?case using submitCheck_held by fastforce
next
  case (store_ok fa s C v rnd w v' W)
  then show ?case using persist_entryOf by (fastforce simp: heldAt_def)
next
  case (store_fails fa s C v rnd w err v' W)
  then show ?case using persist_entryOf by (fastforce simp: heldAt_def)
next
  case (adopt fa s W v r e v' C)
  then show ?case using activate_held by fastforce
qed (simp add: heldAt_def)

definition sameSetup :: "Vault \<Rightarrow> Vault \<Rightarrow> bool" where
  \<comment> \<open>what no step changes\<close>
  "sameSetup v v' \<longleftrightarrow> va_Contract v' = va_Contract v \<and> va_ChainID v' = va_ChainID v \<and> va_aead v' = va_aead v \<and>
     (va_backend v' = None) = (va_backend v = None)"

lemma sameSetup_persist: "persistRecord cr js rnd w v s = (r, v') \<Longrightarrow> sameSetup v v'"
  using persist_vault [of cr js rnd w v s r v'] persist_backend [of cr js rnd w v s r v']
  by (simp add: sameSetup_def sameVault_def)

lemma vaultStep_setup: "vaultStep cr js facts x y \<Longrightarrow> sameSetup (vs_vault x) (vs_vault y)"
proof (induction rule: vaultStep.induct)
  case (check s v fa e v' C W)
  then show ?case using submitCheck_Inr [OF check(2)] by (simp add: sameSetup_def)
next
  case (refused v s err e v' C W)
  then show ?case using submitCheck_vault [OF refused] by (auto simp: sameSetup_def)
next
  case (store_ok fa s C v rnd w v' W)
  then show ?case using sameSetup_persist by simp
next
  case (store_fails fa s C v rnd w err v' W)
  then show ?case using sameSetup_persist by simp
next
  case (adopt fa s W v r e v' C)
  then show ?case using activate_vault [OF adopt(2)] by (simp add: sameSetup_def sameVault_def)
qed (simp add: sameSetup_def)

lemma vaultRun_setup: "(vaultStep cr js facts)\<^sup>*\<^sup>* x y \<Longrightarrow> sameSetup (vs_vault x) (vs_vault y)"
proof (induction rule: rtranclp_induct)
  case (step y z)
  then show ?case using vaultStep_setup [OF step(2)] unfolding sameSetup_def by (elim conjE) (simp only:)
qed (simp add: sameSetup_def)

lemma vaultRun_inv: "(vaultStep cr js facts)\<^sup>*\<^sup>* x y \<Longrightarrow> runInv cr js facts x \<Longrightarrow> runInv cr js facts y"
  by (induction rule: rtranclp_induct) (assumption, rule vaultStep_inv)

lemma vaultRun_held:
  "(vaultStep cr js facts)\<^sup>*\<^sup>* x y \<Longrightarrow> heldAt (vs_vault x) i n \<Longrightarrow> heldAt (vs_vault y) i n"
  by (induction rule: rtranclp_induct) (assumption, rule vaultStep_held)


text \<open>A state the two parties of \<open>fa\<close> signed, each in its place, and that conserves the deposits of \<open>fa\<close>.\<close>

definition agreedUnder :: "crypto \<Rightarrow> bigint \<Rightarrow> address \<Rightarrow> Facts \<Rightarrow> SignedState \<Rightarrow> bool" where
  "agreedUnder cr chainID contract fa s \<longleftrightarrow> (let digest = Digest cr (ss_State s) chainID contract in
     Conserved (ss_State s) (fa_DepositA fa) (fa_DepositB fa) \<and>
     RecoverSigner cr digest (ss_SigA s) = Inr (fa_PartyA fa) \<and> RecoverSigner cr digest (ss_SigB s) = Inr (fa_PartyB fa))"

lemma entryOK_signed:
  assumes "entryOK cr js facts v i e"
  shows "ve_Channel e = i \<and> st_Channel (ss_State (ve_Signed e)) = i \<and> Complete (ve_Signed e) \<and> entryFacts e \<in> facts i \<and>
    (\<exists>fa \<in> facts i. agreedUnder cr (va_ChainID v) (va_Contract v) fa (ve_Signed e))"
  using assms
  by (auto simp: entryOK_def verified_def agreedUnder_def Let_def verifyState_def requireBothParties_def bindR_Inr
      split: if_splits)

lemma vault_entryOK:
  assumes start: "newVault newGCM key Map.empty chain chainID contract = (Inr (), v0)" "\<And>a. newGCM key = Inr a \<Longrightarrow> sealLaws js a"
      "\<And>rd. chain = Some rd \<Longrightarrow> answers facts contract rd"
    and run: "(vaultStep cr js facts)\<^sup>*\<^sup>* (startRun v0) x" "entryOf (vs_vault x) i = Some e"
  shows "entryOK cr js facts (vs_vault x) i e"
    "va_Contract (vs_vault x) = contract" "va_ChainID (vs_vault x) = chainID" "va_aead (vs_vault x) = va_aead v0"
proof -
  have "runInv cr js facts (startRun v0)"
    using newVault_inv [OF start] by (simp add: runInv_def)
  then have "vaultInv cr js facts (vs_vault x)"
    using vaultRun_inv [OF run(1)] by (simp add: runInv_def)
  then show "entryOK cr js facts (vs_vault x) i e"
    using run(2) by (simp add: vaultInv_def)
  show "va_Contract (vs_vault x) = contract" "va_ChainID (vs_vault x) = chainID" "va_aead (vs_vault x) = va_aead v0"
    using vaultRun_setup [OF run(1)] newVault_sel [OF start(1)] by (simp_all add: sameSetup_def)
qed

text \<open>
  (C21) What a vault holds is what the parties agreed. \<open>facts\<close> collects what the chain may report about each
  channel in the course of the run: deposits that grow by top-ups give a channel several facts, and the chain
  reader may come, go, fail and change its answer at any point. Whatever the order in which concurrent
  submissions are checked, stored and activated, and whichever writes fail, every entry is a complete state of
  its own channel; it conserves the deposits of a fact the chain reported and is signed by the two parties of
  that fact, each in its place; the parties and deposits recorded in the entry are a reported fact too; and
  from then on the channel's entry never falls back to a lower nonce. Where the chain only ever reported one
  fact, the two are that one. That they may differ is a race: two first submissions checked on either side of a
  top-up; and \<open>topup_refused\<close> shows what a top-up does to the states that follow it.
\<close>

theorem vault_entry_sound:
  assumes start: "newVault newGCM key Map.empty chain chainID contract = (Inr (), v0)" "\<And>a. newGCM key = Inr a \<Longrightarrow> sealLaws js a"
      "\<And>rd. chain = Some rd \<Longrightarrow> answers facts contract rd"
    and run: "(vaultStep cr js facts)\<^sup>*\<^sup>* (startRun v0) x" "entryOf (vs_vault x) i = Some e"
  shows "ve_Channel e = i \<and> st_Channel (ss_State (ve_Signed e)) = i \<and> Complete (ve_Signed e) \<and>
    entryFacts e \<in> facts i \<and> (\<exists>fa \<in> facts i. agreedUnder cr chainID contract fa (ve_Signed e)) \<and>
    (\<forall>y. (vaultStep cr js facts)\<^sup>*\<^sup>* x y \<longrightarrow> (\<exists>e'. entryOf (vs_vault y) i = Some e' \<and> EntryNonce e \<le> EntryNonce e'))"
proof -
  have ok: "entryOK cr js facts (vs_vault x) i e"
    and su: "va_Contract (vs_vault x) = contract" "va_ChainID (vs_vault x) = chainID"
    by (rule vault_entryOK [OF start run]; assumption)+
  have "heldAt (vs_vault x) i (EntryNonce e)"
    using run(2) by (simp add: heldAt_def)
  then have "\<forall>y. (vaultStep cr js facts)\<^sup>*\<^sup>* x y \<longrightarrow> (\<exists>e'. entryOf (vs_vault y) i = Some e' \<and> EntryNonce e \<le> EntryNonce e')"
    using vaultRun_held unfolding heldAt_def by blast
  then show ?thesis
    using entryOK_signed [OF ok, unfolded su] by blast
qed

text \<open>
  An acknowledged state survives the process. Once a vault with a backend holds an entry for a
  channel, a new vault opened later with the same key over what the backend then contains, and loaded,
  holds a state of that channel at least as new, provided the backend lists and returns what was put,
  the chain still answers for the channel as it always did (after a top-up the old states no longer conserve
  what it reports), and nothing fails during the load.
\<close>

theorem vault_survives_restart:
  assumes start: "newVault newGCM key Map.empty chain chainID contract = (Inr (), v0)" "\<And>a. newGCM key = Inr a \<Longrightarrow> sealLaws js a"
      "\<And>rd. chain = Some rd \<Longrightarrow> answers facts contract rd"
    and run: "(vaultStep cr js facts)\<^sup>*\<^sup>* (startRun v0) x" "entryOf (vs_vault x) i = Some e"
    and reopened: "va_backend (vs_vault x) = Some blobs" "newVault newGCM key blobs (Some rd) chainID contract = (Inr (), v1)"
      "answers facts contract rd" "rd contract i = Inr occ" "facts i \<subseteq> {fa}"
    and quiet: "lf_list lf = Inr keys" "dom blobs \<subseteq> set keys" "\<And>a. newGCM key = Inr a \<Longrightarrow> quietLoad a lf"
  shows "\<exists>n k v'. Load cr js lf v1 = (Inr (n, k), v') \<and> (\<exists>s. Best v' i = Some s \<and> EntryNonce e \<le> st_Nonce (ss_State s))"
proof -
  have ok: "entryOK cr js facts (vs_vault x) i e"
    and setups: "va_Contract (vs_vault x) = contract" "va_ChainID (vs_vault x) = chainID" "va_aead (vs_vault x) = va_aead v0"
    by (rule vault_entryOK [OF start run]; assumption)+
  let ?s = "ve_Signed e"
  note v1 = newVault_sel [OF reopened(2)]
  obtain a where a: "newGCM key = Inr a" "va_aead v1 = Some a"
    using v1(6) by blast
  have same: "va_ChainID v1 = va_ChainID (vs_vault x)" "va_Contract v1 = va_Contract (vs_vault x)" "va_aead v1 = va_aead (vs_vault x)"
    using setups newVault_sel [OF start(1)] v1 by auto
  have k: "stateKey cr v1 = stateKey cr (vs_vault x)" "verified cr facts v1 = verified cr facts (vs_vault x)"
    using stateKey_cong [OF same(1,2)] verified_cong [OF same(1,2)] by (simp_all add: fun_eq_iff)
  have l: "loadOne cr js g b v1 = loadOne cr js g b (vs_vault x)" for g b
    using loadOne_cong [OF same] by (simp add: fun_eq_iff)
  have cus: "custody cr js facts v1 ?s"
    using ok reopened(1) v1(4) by (simp add: entryOK_def custody_def readableRec_def k l)
  have i: "st_Channel (ss_State ?s) = i" "wireOK (ss_State ?s)"
    using ok by (simp_all add: entryOK_def)
  have "stateKey cr v1 (ss_State ?s) \<in> dom blobs"
    using cus v1(4) loadOne_Some by (fastforce simp: custody_def readableRec_def)
  then have mem: "stateKey cr v1 (ss_State ?s) \<in> set (sort keys)"
    using quiet(2) by auto
  obtain v' skipped where f: "fold (loadStep cr js lf) (sort keys) (v1, 0) = (v', skipped)"
    by fastforce
  have inv1: "vaultInv cr js facts v1"
    by (rule newVault_inv [OF reopened(2) start(2)]) (use reopened(3) in auto)
  have b: "va_backend v1 \<noteq> None"
    using v1(4) by simp
  have "rd (va_Contract v1) (st_Channel (ss_State ?s)) = Inr occ"
    using reopened(4) i(1) v1(2) by simp
  then have "heldAt v' (st_Channel (ss_State ?s)) (st_Nonce (ss_State ?s))"
    using loadFold [OF inv1 a(2) quiet(3) [OF a(1)] b f] cus i mem v1(1) reopened(5) by blast
  moreover have "Load cr js lf v1 = (Inr (length (VaultIDs v'), skipped), v')"
    using v1(4) quiet(1) f by (simp add: Load_def)
  ultimately show ?thesis
    using Best_heldAt i(1) by (auto simp: EntryNonce_def)
qed

text \<open>
  The deposits of a held channel are never read again. Once a channel's deposits have changed on chain (a
  top-up), the vault refuses every state the parties sign from then on as one that does not conserve value.
\<close>

theorem topup_refused:
  assumes held: "entryOf v (st_Channel (ss_State s)) = Some held" "va_Chain v = Some rd"
    and newer: "EntryNonce held < st_Nonce (ss_State s)" "Complete s"
    and now: "rd (va_Contract v) (st_Channel (ss_State s)) = Inr occ" "Conserved (ss_State s) (oc_DepositA occ) (oc_DepositB occ)"
      "orZero (oc_DepositA occ) + orZero (oc_DepositB occ) \<noteq> orZero (ve_DepositA held) + orZero (ve_DepositB held)"
  shows "Submit cr js rnd w v s = (Inl (ErrText ''the state does not conserve the deposited value''), emptyEntry, v)"
proof -
  have "\<not> Conserved (ss_State s) (ve_DepositA held) (ve_DepositB held)"
    using now(2,3) by (simp add: Conserved_def)
  moreover have "\<not> st_Nonce (ss_State s) \<le> EntryNonce held"
    using newer(1) by simp
  ultimately show ?thesis
    using held newer(2) by (simp add: Submit_def submitVerified_def submitCheck_def factsFor_def verifyState_def Let_def)
qed

text \<open>
  Loading writes every current record again, under its old key and with a fresh nonce, so the blob under a key
  changes although \<^verbatim>\<open>VaultBackend\<close> promises that a key is never reused for different content.
\<close>

theorem Load_rewrites_key:
  assumes v: "vaultInv cr js facts v" "va_Chain v = Some rd" "va_aead v = Some a" "va_backend v = Some blobs"
    and s: "loadOne cr js (lf_got lf) blobs v key = Some s" "verified cr facts v s" "entryOf v (st_Channel (ss_State s)) = None"
      "rd (va_Contract v) (st_Channel (ss_State s)) = Inr occ" "facts (st_Channel (ss_State s)) \<subseteq> {fa}"
    and put: "lf_list lf = Inr [key]" "lf_put lf key = WriteOK" "lf_rnd lf key = Some nonce"
  shows "\<exists>plain n k v'. Load cr js lf v = (Inr (n, k), v') \<and>
    va_backend v' = Some (blobs(key \<mapsto> nonce @ ae_Seal a nonce plain))"
proof -
  let ?i = "st_Channel (ss_State s)"
  have key: "key = stateKey cr v (ss_State s)"
    using loadOne_Some [OF s(1)] by blast
  obtain plain where m: "rj_Marshal js (recordOf s) = Some plain"
  proof -
    have "sealLaws js a"
      using v(1,3,4) by (auto simp: vaultInv_def)
    then show ?thesis
      using that unfolding sealLaws_def by blast
  qed
  have f: "facts ?i = {fa}" "verifyState cr v fa s = Inr ()" "Complete s"
    using s(2,5) by (auto simp: verified_def)
  have "factsFor v ?i = Inr fa"
    using s(3,4) v(1,2) f(1) by (auto simp: factsFor_def vaultInv_def answers_def)
  then have c: "submitCheck cr v s = (Inr fa, emptyEntry, v)"
    using v(2) s(3) f by (simp add: submitCheck_def Let_def)
  let ?v2 = "v\<lparr>va_backend := Some (blobs(key \<mapsto> nonce @ ae_Seal a nonce plain))\<rparr>"
  have p: "persistRecord cr js (Some nonce) WriteOK v s = (Inr (), ?v2)"
    using v(3,4) m by (simp add: persistRecord_def sealRecord_def key)
  obtain r e v' where act: "activate fa s ?v2 = (r, e, v')"
    using prod_cases3 by blast
  have "r = Inr ()"
    using act s(3) by (auto simp: activate_def Let_def)
  then have sub: "submitVerified cr js (Some nonce) WriteOK v s = (Inr (), e, v')"
    using c p act by (simp add: submitVerified_def)
  have "loadStep cr js lf key (v, 0) = (v', 0)"
    using v(4) s(1) put(2,3) sub by (simp add: loadStep_def)
  then have "Load cr js lf v = (Inr (length (VaultIDs v'), 0), v')"
    using v(4) put(1) by (simp add: Load_def)
  moreover have "va_backend v' = va_backend ?v2"
    using activate_vault [OF act] by simp
  ultimately show ?thesis by auto
qed

subsection \<open>A vault with concrete parts\<close>

text \<open>
  For the witnesses: a text form of a record (its strings, then five strings for each lock, every string a
  run of marked characters), a cipher that hides nothing, a chain that knows one channel.
\<close>

fun demoBytes :: "string list \<Rightarrow> bytes" where
  "demoBytes [] = []"
| "demoBytes ([] # r) = 0 # demoBytes r"
| "demoBytes ((c # cs) # r) = 1 # of_nat (of_char c) # demoBytes (cs # r)"

fun demoWords :: "bytes \<Rightarrow> string \<Rightarrow> string list" where
  "demoWords (b # c # r) acc = (if b = 0 then rev acc # demoWords (c # r) [] else demoWords r (char_of (unat c) # acc))"
| "demoWords [b] acc = [rev acc]"
| "demoWords [] acc = []"

lemma char_of_byte: "char_of (unat (of_nat (of_char c) :: byte)) = c"
proof -
  have "of_char c < (256 :: nat)"
    using nat_of_char_less_256 [of c] by simp
  then show ?thesis
    by (simp add: unat_of_nat)
qed

lemma demoWords_bytes: "demoWords (demoBytes (cs # r)) acc = (rev acc @ cs) # demoWords (demoBytes r) []"
proof (induction cs arbitrary: acc)
  case Nil
  then show ?case by (cases "demoBytes r") simp_all
next
  case (Cons c cs)
  then show ?case by (simp add: char_of_byte)
qed

lemma demoWords_all: "demoWords (demoBytes ws) [] = ws"
  by (induction ws) (simp_all add: demoWords_bytes)

fun demoLockWords :: "storedHTLC list \<Rightarrow> string list" where
  "demoLockWords [] = []"
| "demoLockWords (h # hs) = sh_ID h # sh_Hash h # sh_Amount h # decimal (sh_Expiry h) #
     (if sh_PayerIsA h then ''a'' else []) # demoLockWords hs"

fun demoLocks :: "string list \<Rightarrow> storedHTLC list" where
  "demoLocks (a # b # c # d # e # r) = \<lparr> sh_ID = a, sh_Hash = b, sh_Amount = c, sh_Expiry = the (setString d),
     sh_PayerIsA = (e \<noteq> []) \<rparr> # demoLocks r"
| "demoLocks _ = []"

lemma demoLocks_words: "demoLocks (demoLockWords hs) = hs"
  by (induction hs) auto

definition demoMarshal :: "vaultRecord \<Rightarrow> bytes option" where
  "demoMarshal r = (let s = vr_State r in
     Some (demoBytes ([vr_Channel r, vr_SigA r, vr_SigB r, sw_Channel s, decimal (uint (sw_Nonce s)), sw_BalanceA s,
       sw_BalanceB s, sw_WithdrawA s, sw_WithdrawB s, decimal (uint (sw_Op s))] @ demoLockWords (sw_Pending s))))"

definition demoParse :: "bytes \<Rightarrow> vaultRecord option" where
  "demoParse b = (case demoWords b [] of
     a # x # y # c # n # ba # bb # wa # wb # p # locks \<Rightarrow>
       Some \<lparr> vr_Channel = a, vr_State = \<lparr> sw_Channel = c, sw_Nonce = of_int (the (setString n)), sw_BalanceA = ba,
                sw_BalanceB = bb, sw_Pending = demoLocks locks, sw_WithdrawA = wa, sw_WithdrawB = wb,
                sw_Op = of_int (the (setString p)) \<rparr>,
              vr_SigA = x, vr_SigB = y \<rparr>
   | _ \<Rightarrow> None)"

lemma demoParse_marshal: "\<exists>plain. demoMarshal r = Some plain \<and> demoParse plain = Some r"
  by (simp add: demoMarshal_def demoParse_def Let_def demoWords_all demoLocks_words del: demoBytes.simps)

definition demoJson :: record_json where
  "demoJson = \<lparr> rj_Marshal = demoMarshal, rj_Unmarshal = demoParse \<rparr>"

definition demoAead :: aead where
  "demoAead = \<lparr> ae_NonceSize = 2, ae_Seal = (\<lambda>nonce plain. plain), ae_Open = (\<lambda>nonce sealed. Some sealed) \<rparr>"

lemma demo_sealLaws: "sealLaws demoJson demoAead"
  using demoParse_marshal by (simp add: sealLaws_def demoJson_def demoAead_def)

definition demoReader :: reader where
  "demoReader = (\<lambda>contract i. if i = demoKey then Inr demoOcc else Inl ErrChannelNotOnChain)"

text \<open>The facts of the concrete channel: as opened, and after party A put in another 50.\<close>

definition demoFact :: "int \<Rightarrow> Facts" where
  "demoFact dep = \<lparr> fa_PartyA = demoA, fa_PartyB = demoB, fa_DepositA = Some dep, fa_DepositB = Some 50 \<rparr>"

definition demoFacts :: "int set \<Rightarrow> bytes32 \<Rightarrow> Facts set" where
  "demoFacts deps i = (if i = demoKey then demoFact ` deps else {})"

lemma demo_answers: "100 \<in> deps \<Longrightarrow> answers (demoFacts deps) contract demoReader"
  by (simp add: answers_def demoFacts_def demoReader_def demoOcc_def demoFact_def rev_image_eqI)

definition demoToppedUp :: reader where
  "demoToppedUp = (\<lambda>contract i. if i = demoKey then Inr (demoOcc\<lparr>oc_DepositA := Some 150\<rparr>) else Inl ErrChannelNotOnChain)"

lemma demo_topped: "150 \<in> deps \<Longrightarrow> answers (demoFacts deps) contract demoToppedUp"
  by (simp add: answers_def demoFacts_def demoToppedUp_def demoOcc_def demoFact_def rev_image_eqI)

definition demoOpenVault :: "(string \<rightharpoonup> bytes) \<Rightarrow> Vault" where
  "demoOpenVault blobs = \<lparr> va_Chain = Some demoReader, va_Contract = demoB, va_ChainID = Some 1, va_entries = [],
     va_backend = Some blobs, va_aead = Some demoAead \<rparr>"

lemma demo_newVault:
  "newVault (\<lambda>_. Inr demoAead) (replicate 32 0) blobs (Some demoReader) (Some 1) demoB = (Inr (), demoOpenVault blobs)"
  by (simp add: newVault_def SetBackend_def NewVault_def demoOpenVault_def)

lemma demo_verify: "va_ChainID v = Some 1 \<Longrightarrow> verifyState demoCrypto v (demoFact 100) (demoSigned demoStateB) = Inr ()"
  by (simp add: verifyState_def Conserved_def stateTotal_def lockedTotal_def requireBothParties_def demoSigned_def demoFact_def)
    (simp add: demoStateB_def)

lemma demoStateB_wire: "wireOK demoStateB"
  by (simp add: wireOK_def demoStateB_def demoKey_def demoA_def canonical_def st_op_def Op_defs)

text \<open>A submission carried through is a run.\<close>

lemma submit_run:
  assumes "wireOK (ss_State s)" "\<And>a. va_aead v = Some a \<Longrightarrow> rndOK a rnd"
    "submitVerified cr js rnd w v s = (Inr u, e, v')"
  shows "\<exists>C W. (vaultStep cr js facts)\<^sup>*\<^sup>* (startRun v) \<lparr>vs_vault = v', vs_checked = C, vs_written = W\<rparr>"
proof -
  obtain fa e1 v1 where c: "submitCheck cr v s = (Inr fa, e1, v1)"
    using assms(3) by (auto simp: submitVerified_def split: prod.splits sum.splits)
  have v1: "v1 = v"
    using submitCheck_Inr [OF c] by blast
  obtain v2 where p: "persistRecord cr js rnd w v s = (Inr (), v2)" and act: "activate fa s v2 = (Inr u, e, v')"
    using assms(3) unfolding submitVerified_def c v1 by (auto split: prod.splits sum.splits)
  let ?C = "{(fa, s)}"
  have "(vaultStep cr js facts)\<^sup>*\<^sup>* (startRun v) \<lparr>vs_vault = v, vs_checked = ?C, vs_written = {}\<rparr>"
    by (rule r_into_rtranclp) (rule vaultStep.check [OF assms(1) c [unfolded v1]])
  also have "vaultStep cr js facts \<lparr>vs_vault = v, vs_checked = ?C, vs_written = {}\<rparr>
      \<lparr>vs_vault = v2, vs_checked = ?C, vs_written = ?C\<rparr>"
    by (rule vaultStep.store_ok [OF _ assms(2) p]) simp_all
  also have "vaultStep cr js facts \<lparr>vs_vault = v2, vs_checked = ?C, vs_written = ?C\<rparr>
      \<lparr>vs_vault = v', vs_checked = ?C, vs_written = ?C\<rparr>"
    by (rule vaultStep.adopt [OF _ act]) simp
  finally show ?thesis by blast
qed

lemma demo_submitted:
  "\<exists>x e blob. (vaultStep demoCrypto demoJson facts)\<^sup>*\<^sup>* (startRun (demoOpenVault Map.empty)) x \<and>
     entryOf (vs_vault x) demoKey = Some e \<and> EntryNonce e = 1 \<and>
     va_backend (vs_vault x) = Some [stateKey demoCrypto (demoOpenVault Map.empty) demoStateB \<mapsto> blob]"
proof -
  let ?v = "demoOpenVault Map.empty" and ?s = "demoSigned demoStateB"
  have sel: "va_Chain ?v = Some demoReader" "va_aead ?v = Some demoAead" "va_backend ?v = Some Map.empty"
      "va_ChainID ?v = Some 1" "va_Contract ?v = demoB" "entryOf ?v i = None" for i
    by (simp_all add: demoOpenVault_def entryOf_def)
  have st: "st_Channel demoStateB = demoKey" "st_Nonce demoStateB = 1"
    by (simp_all add: demoStateB_def)
  let ?fa = "demoFact 100"
  have "factsFor ?v demoKey = Inr ?fa"
    by (simp add: factsFor_def sel demoReader_def demoFact_def demoOcc_def)
  then have check: "submitCheck demoCrypto ?v ?s = (Inr ?fa, emptyEntry, ?v)"
    using demo_verify [OF sel(4)] by (simp add: submitCheck_def sel st)
  obtain plain where "demoMarshal (recordOf ?s) = Some plain"
    using demoParse_marshal by blast
  then have seal: "sealRecord demoJson (Some [0, 0]) demoAead (recordOf ?s) = Inr ([0, 0] @ plain)"
    by (simp add: sealRecord_def demoJson_def demoAead_def)
  let ?v2 = "?v\<lparr>va_backend := Some [stateKey demoCrypto ?v demoStateB \<mapsto> [0, 0] @ plain]\<rparr>"
  have store: "persistRecord demoCrypto demoJson (Some [0, 0]) WriteOK ?v ?s = (Inr (), ?v2)"
    by (simp add: persistRecord_def sel seal)
  obtain r e v' where act: "activate ?fa ?s ?v2 = (r, e, v')"
    using prod_cases3 by blast
  then have fin: "r = Inr ()" "entryOf v' demoKey = Some e" "EntryNonce e = 1"
    by (auto simp: activate_def st sel Let_def EntryNonce_def)
  have sub: "submitVerified demoCrypto demoJson (Some [0, 0]) WriteOK ?v ?s = (Inr (), e, v')"
    using check store act fin(1) by (simp add: submitVerified_def)
  have "\<And>a. va_aead ?v = Some a \<Longrightarrow> rndOK a (Some [0, 0])" "wireOK (ss_State ?s)"
    using demoStateB_wire sel(2) by (auto simp: rndOK_def demoAead_def)
  then obtain C W where "(vaultStep demoCrypto demoJson facts)\<^sup>*\<^sup>* (startRun ?v) \<lparr>vs_vault = v', vs_checked = C, vs_written = W\<rparr>"
    using submit_run [OF _ _ sub] by blast
  moreover have "va_backend v' = va_backend ?v2"
    using activate_vault [OF act] by simp
  ultimately show ?thesis
    using fin by fastforce
qed

theorem vault_entry_sound_witness:
  "\<exists>x e. (vaultStep demoCrypto demoJson (demoFacts {100, 150}))\<^sup>*\<^sup>* (startRun (demoOpenVault Map.empty)) x \<and>
     va_Chain (vs_vault x) = Some demoToppedUp \<and> entryOf (vs_vault x) demoKey = Some e \<and> EntryNonce e = 1 \<and>
     Complete (ve_Signed e) \<and>
     (agreedUnder demoCrypto (Some 1) demoB (demoFact 100) (ve_Signed e) \<or> agreedUnder demoCrypto (Some 1) demoB (demoFact 150) (ve_Signed e))"
proof -
  let ?F = "demoFacts {100, 150}"
  obtain x e where x: "(vaultStep demoCrypto demoJson ?F)\<^sup>*\<^sup>* (startRun (demoOpenVault Map.empty)) x"
      "entryOf (vs_vault x) demoKey = Some e" "EntryNonce e = 1"
    using demo_submitted [of ?F] by blast
  obtain v C W where v: "x = \<lparr>vs_vault = v, vs_checked = C, vs_written = W\<rparr>"
    by (cases x) auto
  let ?y = "\<lparr>vs_vault = v\<lparr>va_Chain := Some demoToppedUp\<rparr>, vs_checked = C, vs_written = W\<rparr>"
  have "vaultStep demoCrypto demoJson ?F x ?y"
    unfolding v by (rule vaultStep.chain) (simp add: demo_topped)
  then have y: "(vaultStep demoCrypto demoJson ?F)\<^sup>*\<^sup>* (startRun (demoOpenVault Map.empty)) ?y"
    using x(1) by (rule rtranclp.rtrancl_into_rtrancl [rotated])
  have e: "entryOf (vs_vault ?y) demoKey = Some e"
    using x(2) by (simp add: v)
  have "Complete (ve_Signed e) \<and> (\<exists>fa \<in> ?F demoKey. agreedUnder demoCrypto (Some 1) demoB fa (ve_Signed e))"
    using vault_entry_sound [OF demo_newVault _ _ y e] demo_sealLaws demo_answers [of "{100, 150}"] by auto
  then have "Complete (ve_Signed e)" "agreedUnder demoCrypto (Some 1) demoB (demoFact 100) (ve_Signed e) \<or>
      agreedUnder demoCrypto (Some 1) demoB (demoFact 150) (ve_Signed e)"
    by (auto simp: demoFacts_def)
  then show ?thesis using y e x(3) by (intro exI [of _ ?y] exI [of _ e]) simp
qed

theorem vault_survives_restart_witness:
  "\<exists>blobs lf n k v' s. blobs \<noteq> Map.empty \<and> Load demoCrypto demoJson lf (demoOpenVault blobs) = (Inr (n, k), v') \<and>
     Best v' demoKey = Some s \<and> 1 \<le> st_Nonce (ss_State s)"
proof -
  obtain x e blob where x: "(vaultStep demoCrypto demoJson (demoFacts {100}))\<^sup>*\<^sup>* (startRun (demoOpenVault Map.empty)) x"
      "entryOf (vs_vault x) demoKey = Some e" "EntryNonce e = 1"
      "va_backend (vs_vault x) = Some [stateKey demoCrypto (demoOpenVault Map.empty) demoStateB \<mapsto> blob]"
    using demo_submitted [of "demoFacts {100}"] by blast
  let ?k = "stateKey demoCrypto (demoOpenVault Map.empty) demoStateB"
  let ?lf = "\<lparr> lf_list = Inr [?k], lf_got = (\<lambda>_. True), lf_rnd = (\<lambda>_. Some [7, 7]), lf_put = (\<lambda>_. WriteOK) \<rparr>"
  have "\<exists>n k v'. Load demoCrypto demoJson ?lf (demoOpenVault [?k \<mapsto> blob]) = (Inr (n, k), v') \<and>
      (\<exists>s. Best v' demoKey = Some s \<and> EntryNonce e \<le> st_Nonce (ss_State s))"
    by (rule vault_survives_restart [OF demo_newVault _ _ x(1,2,4) demo_newVault, where keys = "[?k]" and occ = demoOcc and fa = "demoFact 100"])
      (use demo_sealLaws demo_answers [of "{100}"] in \<open>auto simp: demoFacts_def demoReader_def quietLoad_def demoAead_def\<close>)
  then show ?thesis
    using x(3) by (metis map_upd_nonempty)
qed

end
