(* ===== verification/Watchtower_Props.thy ===== *)
theory Watchtower_Props
  imports Watchtower Vault_Props
begin

text \<open>
  What the watchtower promises: the exact conditions under which it challenges and what it then sends; that
  the recommended period and the default margin leave it enough time; and that over a vault it can only send
  states both parties signed.
\<close>

subsection \<open>The decision\<close>

text \<open>
  When the watchtower acts. With the chain read and the remaining time within range, a challenge is
  broadcast exactly when the channel is closing, the held state is complete and of a strictly higher nonce
  than the one on chain, time is left and no less than the margin, and there is a sender; it is the held
  state, sent to the tower's own contract, once. The outcome says which of these failed: a stale close that
  was not beaten is always reported as failed, an honest one never is.
\<close>

theorem Check_decides:
  assumes run: "Check w su Get m i = (r, m', calls)"
    and seen: "Get i = Some ch" "su_Chain su (wt_Contract w) i = Inr occ"
    and range: "- (2 ^ 63) \<le> oc_ChallengeEnds occ - su_Now su" "oc_ChallengeEnds occ - su_Now su < 2 ^ 33"
  defines "remaining \<equiv> oc_ChallengeEnds occ - su_Now su"
    and "call \<equiv> ChallengeTx (wt_Contract w) (ch_Latest ch)"
  defines "stale \<equiv> oc_Status occ = StatusClosing \<and> Complete (ch_Latest ch) \<and> oc_Nonce occ < latestNonce ch"
    and "enough \<equiv> 0 < remaining \<and> watchMargin w \<le> remaining * Second"
  shows "calls = (if stale \<and> enough \<and> wt_Sender w \<noteq> None then [call] else []) \<and>
    (wa_Outcome r = WatchChallenged \<longleftrightarrow> stale \<and> enough \<and> (\<exists>send tx. wt_Sender w = Some send \<and> send call = Inr tx)) \<and>
    (wa_Outcome r = WatchFailed \<longleftrightarrow> stale \<and> wa_Outcome r \<noteq> WatchChallenged) \<and>
    (wa_Outcome r = WatchHonest \<longleftrightarrow> oc_Status occ = StatusClosing \<and> \<not> stale) \<and>
    (wa_Outcome r = WatchSettled \<longleftrightarrow> oc_Status occ = StatusSettled) \<and>
    (wa_Outcome r \<in> {WatchFailed, WatchHonest, WatchChallenged} \<longrightarrow> wa_Remaining r = remaining)"
proof -
  have rem: "i64 (oc_ChallengeEnds occ - su_Now su) = remaining"
    using range unfolding remaining_def by (intro i64_id) simp_all
  have sec: "i64 (remaining * Second) = remaining * Second" if "0 < remaining"
    using range that unfolding remaining_def by (intro i64_id) (simp_all add: Second_def)
  have st: "StatusClosing \<noteq> StatusSettled"
    by (simp add: Status_defs)
  show ?thesis
  proof (cases "stale")
    case False
    then show ?thesis
      using run seen st unfolding Check_def Let_def stale_def
      by (auto simp: not_less rem split: if_splits)
  next
    case True
    then have nl: "\<not> latestNonce ch \<le> oc_Nonce occ" and c: "oc_Status occ = StatusClosing" "Complete (ch_Latest ch)"
      by (auto simp: stale_def)
    show ?thesis
    proof (cases enough)
      case False
      then have "remaining \<le> 0 \<or> i64 (remaining * Second) < watchMargin w"
        using sec by (cases "0 < remaining") (auto simp: enough_def)
      then show ?thesis
        using run seen st nl c False True unfolding Check_def Let_def
        by (auto simp: rem split: if_splits)
    next
      case enough: True
      then have "\<not> remaining \<le> 0" "\<not> i64 (remaining * Second) < watchMargin w"
        using sec by (auto simp: enough_def)
      then show ?thesis
        using run seen st nl c enough True unfolding Check_def Let_def call_def
        by (auto simp: rem split: option.splits sum.splits)
    qed
  qed
qed

lemma Check_challenges:
  assumes "Get i = Some ch" "su_Chain su (wt_Contract w) i = Inr occ"
    "- (2 ^ 63) \<le> oc_ChallengeEnds occ - su_Now su" "oc_ChallengeEnds occ - su_Now su < 2 ^ 33"
    "oc_Status occ = StatusClosing" "Complete (ch_Latest ch)" "oc_Nonce occ < latestNonce ch"
    "0 < oc_ChallengeEnds occ - su_Now su" "watchMargin w \<le> (oc_ChallengeEnds occ - su_Now su) * Second"
    "wt_Sender w = Some send" "send (ChallengeTx (wt_Contract w) (ch_Latest ch)) = Inr tx"
  shows "\<exists>r m'. Check w su Get m i = (r, m', [ChallengeTx (wt_Contract w) (ch_Latest ch)]) \<and> wa_Channel r = i \<and>
    wa_Outcome r = WatchChallenged \<and> wa_Remaining r = oc_ChallengeEnds occ - su_Now su"
proof -
  obtain r m' calls where c: "Check w su Get m i = (r, m', calls)"
    using prod_cases3 by blast
  have "wa_Channel r = i"
    using c by (auto simp: Check_def Let_def split: option.splits sum.splits if_splits)
  then show ?thesis
    using Check_decides [OF c assms(1-4)] c assms(5-11) by auto
qed

lemma Check_only_challenges:
  "Check w su Get m i = (r, m', calls) \<Longrightarrow> call \<in> set calls \<Longrightarrow>
   \<exists>ch occ. call = ChallengeTx (wt_Contract w) (ch_Latest ch) \<and> Get i = Some ch \<and> Complete (ch_Latest ch) \<and>
     su_Chain su (wt_Contract w) i = Inr occ \<and> oc_Status occ = StatusClosing \<and> oc_Nonce occ < latestNonce ch"
  by (auto simp: Check_def Let_def not_le split: option.splits sum.splits if_splits)

subsection \<open>Sweeps\<close>

lemma sweepEach_has:
  assumes "i \<in> set ids" "\<And>m. \<exists>r m'. Check w su Get m i = (r, m', cs) \<and> P r"
  shows "\<exists>rs m' calls. sweepEach w su Get m ids = (rs, m', calls) \<and> (\<exists>r \<in> set rs. P r) \<and> set cs \<subseteq> set calls"
  using assms(1)
proof (induction ids arbitrary: m)
  case (Cons j rest)
  obtain r m1 c1 where j: "Check w su Get (WatchtowerObservation m) j = (r, m1, c1)"
    using prod_cases3 by blast
  obtain rs m2 c2 where rest: "sweepEach w su Get m1 rest = (rs, m2, c2)"
    using prod_cases3 by blast
  show ?case
  proof (cases "j = i")
    case True
    then have "P r" "c1 = cs"
      using assms(2) [of "WatchtowerObservation m"] j by auto
    then show ?thesis using j rest by simp
  next
    case False
    then obtain rs' m' calls where "sweepEach w su Get m1 rest = (rs', m', calls)" "\<exists>r \<in> set rs'. P r" "set cs \<subseteq> set calls"
      using Cons.IH [of m1] Cons.prems by auto
    then show ?thesis using j rest by auto
  qed
qed simp

lemma sweepEach_calls:
  "sweepEach w su Get m ids = (rs, m', calls) \<Longrightarrow> call \<in> set calls \<Longrightarrow>
   \<exists>i \<in> set ids. \<exists>m r m' cs. Check w su Get m i = (r, m', cs) \<and> call \<in> set cs"
proof (induction ids arbitrary: m rs m' calls)
  case (Cons j rest)
  obtain r m1 c1 where j: "Check w su Get (WatchtowerObservation m) j = (r, m1, c1)"
    using prod_cases3 by blast
  obtain rs2 m2 c2 where rest: "sweepEach w su Get m1 rest = (rs2, m2, c2)"
    using prod_cases3 by blast
  have "calls = c1 @ c2"
    using Cons.prems(1) j rest by simp
  then consider "call \<in> set c1" | "call \<in> set c2"
    using Cons.prems(2) by auto
  then show ?case
  proof cases
    case 1
    then show ?thesis using j by (intro bexI [of _ j]) auto
  next
    case 2
    then show ?thesis using Cons.IH [OF rest] by (meson list.set_intros(2))
  qed
qed simp

lemma runTicks_has:
  assumes "k < length ticks" "\<And>j. j \<le> k \<Longrightarrow> \<not> fst (ticks ! j)"
    and "\<And>m. \<exists>rs m' calls. Sweep w (snd (ticks ! k)) m = (rs, m', calls) \<and> (\<exists>r \<in> set rs. P r) \<and> C \<subseteq> set calls"
  shows "\<exists>rss m' calls. runTicks w m ticks = (rss, m', calls) \<and> (\<exists>r \<in> set (concat rss). P r) \<and> C \<subseteq> set calls"
  using assms
proof (induction ticks arbitrary: k m)
  case (Cons t rest)
  obtain stopped su where t: "t = (stopped, su)"
    by fastforce
  have go: "\<not> stopped"
    using Cons.prems(2) [of 0] t by simp
  obtain rs m1 c1 where sw: "Sweep w su m = (rs, m1, c1)"
    using prod_cases3 by blast
  show ?case
  proof (cases k)
    case 0
    obtain rss m2 c2 where r: "runTicks w m1 rest = (rss, m2, c2)"
      using prod_cases3 by blast
    show ?thesis
      using Cons.prems(3) [of m] 0 t sw r go by auto
  next
    case (Suc k')
    have p: "k' < length rest"
      using Cons.prems(1) Suc by simp
    have p': "\<not> fst (rest ! j)" if "j \<le> k'" for j
      using Cons.prems(2) [of "Suc j"] Suc that by simp
    have q: "\<And>m. \<exists>rs m' calls. Sweep w (snd (rest ! k')) m = (rs, m', calls) \<and> (\<exists>r \<in> set rs. P r) \<and> C \<subseteq> set calls"
      using Cons.prems(3) Suc by simp
    obtain rss m2 c2 where "runTicks w m1 rest = (rss, m2, c2)" "\<exists>r \<in> set (concat rss). P r" "C \<subseteq> set c2"
      using Cons.IH [of k' m1, OF p p' q] by blast
    then show ?thesis
      using t sw go by auto
  qed
qed simp

text \<open>
  (C22) The recommended period leaves time to act. If a channel's stale close started the recommended
  challenge period, the tower holds a newer complete state, uses the default margin and can send, and any of
  its sweeps sees the close no later than the detection and outage terms of the budget after it started,
  then the run broadcasts the held state, reports the channel as challenged, and did so with three and a half
  hours left - more than the margin the remaining terms of the budget add up to.
\<close>

theorem stale_close_beaten:
  assumes tick: "k < length ticks" "\<And>j. j \<le> k \<Longrightarrow> \<not> fst (ticks ! j)" "snd (ticks ! k) = su"
    and held: "su_Store su = Some src" "i \<in> set (src_IDs src)" "src_Get src i = Some ch" "Complete (ch_Latest ch)"
    and closing: "su_Chain su (wt_Contract w) i = Inr occ" "oc_Status occ = StatusClosing" "oc_Nonce occ < latestNonce ch"
      "oc_ChallengeEnds occ = closedAt + RecommendedChallengePeriod"
    and seen: "closedAt \<le> su_Now su"
      "(su_Now su - closedAt) * Second \<le> bu_Detection MainnetChallengeBudget + bu_Outage MainnetChallengeBudget"
    and tower: "wt_Margin w \<le> 0" "wt_Sender w = Some send" "send (ChallengeTx (wt_Contract w) (ch_Latest ch)) = Inr tx"
  shows "\<exists>rss m' calls. Run w su0 ticks m = (rss, m', calls) \<and> ChallengeTx (wt_Contract w) (ch_Latest ch) \<in> set calls \<and>
    (\<exists>r \<in> set (concat rss). wa_Channel r = i \<and> wa_Outcome r = WatchChallenged \<and> 12600 \<le> wa_Remaining r)"
proof -
  let ?call = "ChallengeTx (wt_Contract w) (ch_Latest ch)"
  let ?P = "\<lambda>r. wa_Channel r = i \<and> wa_Outcome r = WatchChallenged \<and> 12600 \<le> wa_Remaining r"
  have "su_Now su - closedAt \<le> 16200"
    using seen(2) by (simp add: MainnetChallengeBudget_def duration_defs)
  then have rem: "12600 \<le> oc_ChallengeEnds occ - su_Now su" "oc_ChallengeEnds occ - su_Now su \<le> 28800"
    using closing(4) seen(1) RecommendedChallengePeriod_value by simp_all
  have margin: "watchMargin w = 2 * Hour + Minute"
    using tower(1) by (simp add: watchMargin_def DefaultWatchMargin_def WatchMarginFor_value Recommend_mainnet)
      (simp add: duration_defs)
  have "\<exists>r m'. Check w su (src_Get src) m i = (r, m', [?call]) \<and> ?P r" for m
  proof -
    have "watchMargin w \<le> (oc_ChallengeEnds occ - su_Now su) * Second"
      using rem(1) unfolding margin by (simp add: duration_defs)
    then show ?thesis
      using Check_challenges [where Get = "src_Get src" and m = m, OF held(3) closing(1) _ _ closing(2) held(4) closing(3) _ _ tower(2,3)] rem
      by auto
  qed
  then have "\<exists>rs m' calls. sweepEach w su (src_Get src) m (src_IDs src) = (rs, m', calls) \<and> (\<exists>r \<in> set rs. ?P r) \<and> set [?call] \<subseteq> set calls" for m
    by (rule sweepEach_has [OF held(2)])
  then have "\<exists>rs m' calls. Sweep w (snd (ticks ! k)) m = (rs, m', calls) \<and> (\<exists>r \<in> set rs. ?P r) \<and> {?call} \<subseteq> set calls" for m
    by (simp add: Sweep_def tick(3) held(1))
  note ticked = runTicks_has [OF tick(1,2) this]
  obtain rs m1 c1 where first: "Sweep w su0 m = (rs, m1, c1)"
    using prod_cases3 by blast
  obtain rss m2 c2 where rest: "runTicks w m1 ticks = (rss, m2, c2)" "\<exists>r \<in> set (concat rss). ?P r" "{?call} \<subseteq> set c2"
    using ticked [of m1] by blast
  then have "Run w su0 ticks m = (rs # rss, m2, c1 @ c2)"
    using first by (simp add: Run_def)
  then show ?thesis
    using rest(2,3) by auto
qed

text \<open>
  (C23) Over a vault the tower can only repeat what the parties agreed. Whatever a sweep broadcasts for a
  channel the vault reached in any run of submissions, it is the state of the channel's entry: complete,
  signed by the two parties of a fact the chain reported about the channel, each in its place, conserving the
  deposits of that fact (which may have grown since, \<open>facts\<close> collects what the chain may report in the run),
  and of a higher nonce than the close on chain.
\<close>

theorem vault_tower_sends_agreed:
  assumes start: "newVault newGCM key Map.empty chain chainID contract = (Inr (), v0)" "\<And>a. newGCM key = Inr a \<Longrightarrow> sealLaws js a"
      "\<And>rd. chain = Some rd \<Longrightarrow> answers facts contract rd"
    and run: "(vaultStep cr js facts)\<^sup>*\<^sup>* (startRun v0) x"
    and sweep: "su_Store su = Some (VaultSource (vs_vault x))" "Sweep w su m = (rs, m', calls)" "call \<in> set calls"
  shows "\<exists>i e occ. call = ChallengeTx (wt_Contract w) (ve_Signed e) \<and> entryOf (vs_vault x) i = Some e \<and>
    entryFacts e \<in> facts i \<and> st_Channel (ss_State (ve_Signed e)) = i \<and> Complete (ve_Signed e) \<and>
    (\<exists>fa \<in> facts i. agreedUnder cr chainID contract fa (ve_Signed e)) \<and>
    su_Chain su (wt_Contract w) i = Inr occ \<and> oc_Status occ = StatusClosing \<and> oc_Nonce occ < EntryNonce e"
proof -
  let ?v = "vs_vault x"
  have "sweepEach w su (VaultStoreGet ?v) m (VaultIDs ?v) = (rs, m', calls)"
    using sweep(1,2) by (simp add: Sweep_def VaultSource_def)
  then obtain i m1 r m2 cs where c: "Check w su (VaultStoreGet ?v) m1 i = (r, m2, cs)" "call \<in> set cs"
    using sweepEach_calls sweep(3) by blast
  obtain ch occ where ch: "call = ChallengeTx (wt_Contract w) (ch_Latest ch)" "VaultStoreGet ?v i = Some ch"
      "su_Chain su (wt_Contract w) i = Inr occ" "oc_Status occ = StatusClosing" "oc_Nonce occ < latestNonce ch"
    using Check_only_challenges [OF c] by blast
  then obtain e where e: "entryOf ?v i = Some e" "ch_Latest ch = ve_Signed e"
    by (auto simp: VaultStoreGet_def)
  have ok: "entryOK cr js facts ?v i e" and su: "va_Contract ?v = contract" "va_ChainID ?v = chainID"
    by (rule vault_entryOK [OF start run e(1)]; assumption)+
  note signed = entryOK_signed [OF ok, unfolded su]
  show ?thesis
    using ch e signed by (intro exI [of _ i] exI [of _ e] exI [of _ occ]) (simp add: EntryNonce_def)
qed

text \<open>
  For a period too short for the budget the margin is the whole period, so that every challenge is refused,
  says the source; but the comparison is strict, and a close seen within the second it happened is challenged.
\<close>

theorem short_period_still_attempts:
  assumes p: "0 < seconds" "seconds \<le> 7260" "wt_Margin w = WatchMarginFor (seconds * Second)"
    and held: "Get i = Some ch" "Complete (ch_Latest ch)" "wt_Sender w = Some send"
      "send (ChallengeTx (wt_Contract w) (ch_Latest ch)) = Inr tx"
    and closing: "su_Chain su (wt_Contract w) i = Inr occ" "oc_Status occ = StatusClosing" "oc_Nonce occ < latestNonce ch"
      "oc_ChallengeEnds occ = su_Now su + seconds"
  shows "wt_Margin w = seconds * Second \<and> (\<exists>r m'. Check w su Get m i = (r, m', [ChallengeTx (wt_Contract w) (ch_Latest ch)]))"
proof -
  have m: "wt_Margin w = seconds * Second"
    using p by (simp add: WatchMarginFor_value duration_defs)
  then have "watchMargin w = seconds * Second"
    using p(1) by (simp add: watchMargin_def Second_def)
  then have "watchMargin w \<le> (oc_ChallengeEnds occ - su_Now su) * Second" "0 < oc_ChallengeEnds occ - su_Now su"
    "- (2 ^ 63) \<le> oc_ChallengeEnds occ - su_Now su" "oc_ChallengeEnds occ - su_Now su < 2 ^ 33"
    using p(1,2) closing(4) by simp_all
  then show ?thesis
    using Check_challenges [where Get = Get and m = m and su = su, OF held(1) closing(1) _ _ closing(2) held(2) closing(3) _ _ held(3,4)] m
    by blast
qed

subsection \<open>Witnesses\<close>

definition demoTower :: Watchtower where
  "demoTower = \<lparr> wt_Contract = demoB, wt_Sender = Some (\<lambda>call. Inr ''0xaa''), wt_Interval = 0, wt_Margin = 0 \<rparr>"

definition demoHeld :: Channel where
  "demoHeld = demoChannel\<lparr>ch_Latest := demoSigned demoStateB\<rparr>"

definition demoClosing :: OnChainChannel where
  "demoClosing = demoOcc\<lparr>oc_Status := StatusClosing, oc_ChallengeEnds := 1000 + RecommendedChallengePeriod\<rparr>"

definition demoView :: "ChannelSource \<Rightarrow> Surroundings" where
  "demoView src = \<lparr> su_Store = Some src, su_Chain = (\<lambda>contract i. Inr demoClosing), su_Now = 5000 \<rparr>"

lemma demo_margin: "watchMargin demoTower = 7260 * Second"
  by (simp add: watchMargin_def demoTower_def DefaultWatchMargin_def WatchMarginFor_value Recommend_mainnet)
    (simp add: duration_defs)

lemma demo_view:
  "su_Chain (demoView src) c i = Inr demoClosing" "su_Store (demoView src) = Some src" "su_Now (demoView src) = 5000"
  "oc_Status demoClosing = StatusClosing" "oc_Nonce demoClosing = 0" "oc_ChallengeEnds demoClosing = 29800"
  "wt_Sender demoTower = Some (\<lambda>call. Inr ''0xaa'')" "wt_Contract demoTower = demoB" "\<not> wt_Margin demoTower > 0"
  by (simp_all add: demoView_def demoClosing_def demoOcc_def RecommendedChallengePeriod_value demoTower_def)

lemma demo_held: "ch_Latest demoHeld = demoSigned demoStateB" "Complete (ch_Latest demoHeld)" "latestNonce demoHeld = 1" "st_Nonce demoStateB = 1"
  by (simp_all add: demoHeld_def) (simp_all add: demoStateB_def)

theorem Check_decides_witness:
  "\<exists>r m'. Check demoTower (demoView \<lparr>src_IDs = [], src_Get = (\<lambda>_. None)\<rparr>) (\<lambda>_. Some demoHeld) None demoID
     = (r, m', [ChallengeTx demoB (demoSigned demoStateB)]) \<and> wa_Outcome r = WatchChallenged"
proof -
  let ?su = "demoView \<lparr>src_IDs = [], src_Get = (\<lambda>_. None)\<rparr>"
  obtain r m' calls where c: "Check demoTower ?su (\<lambda>_. Some demoHeld) None demoID = (r, m', calls)"
    using prod_cases3 by blast
  have "calls = [ChallengeTx demoB (demoSigned demoStateB)] \<and> wa_Outcome r = WatchChallenged"
    using Check_decides [OF c refl demo_view(1)] demo_margin by (simp add: demo_view demo_held Second_def)
  then show ?thesis using c by blast
qed

theorem stale_close_beaten_witness:
  "\<exists>rss m' calls. Run demoTower (demoView \<lparr>src_IDs = [], src_Get = (\<lambda>_. None)\<rparr>)
      [(False, demoView \<lparr>src_IDs = [demoID], src_Get = [demoID \<mapsto> demoHeld]\<rparr>)] None = (rss, m', calls) \<and>
    ChallengeTx demoB (demoSigned demoStateB) \<in> set calls \<and>
    (\<exists>r \<in> set (concat rss). wa_Channel r = demoID \<and> wa_Outcome r = WatchChallenged \<and> 12600 \<le> wa_Remaining r)"
proof -
  let ?src = "\<lparr>src_IDs = [demoID], src_Get = [demoID \<mapsto> demoHeld]\<rparr>"
  have "\<exists>rss m' calls. Run demoTower (demoView \<lparr>src_IDs = [], src_Get = (\<lambda>_. None)\<rparr>) [(False, demoView ?src)] None = (rss, m', calls) \<and>
    ChallengeTx (wt_Contract demoTower) (ch_Latest demoHeld) \<in> set calls \<and>
    (\<exists>r \<in> set (concat rss). wa_Channel r = demoID \<and> wa_Outcome r = WatchChallenged \<and> 12600 \<le> wa_Remaining r)"
    by (rule stale_close_beaten [where k = 0 and su = "demoView ?src" and src = ?src and closedAt = 1000 and occ = demoClosing])
      (simp_all add: demo_view demo_held RecommendedChallengePeriod_value MainnetChallengeBudget_def duration_defs not_less [symmetric])
  then show ?thesis by (simp add: demo_held demo_view)
qed

theorem vault_tower_sends_agreed_witness:
  "\<exists>x e rs m' calls. (vaultStep demoCrypto demoJson (demoFacts {100, 150}))\<^sup>*\<^sup>* (startRun (demoOpenVault Map.empty)) x \<and>
    Sweep demoTower (demoView (VaultSource (vs_vault x))) None = (rs, m', calls) \<and> ChallengeTx demoB (ve_Signed e) \<in> set calls \<and>
    Complete (ve_Signed e) \<and> 0 < EntryNonce e"
proof -
  obtain x e where x: "(vaultStep demoCrypto demoJson (demoFacts {100, 150}))\<^sup>*\<^sup>* (startRun (demoOpenVault Map.empty)) x"
      "entryOf (vs_vault x) demoKey = Some e" "EntryNonce e = 1"
    using demo_submitted [of "demoFacts {100, 150}"] by blast
  let ?v = "vs_vault x" and ?su = "demoView (VaultSource (vs_vault x))"
  obtain ch where ch: "VaultStoreGet ?v demoKey = Some ch" "ch_Latest ch = ve_Signed e"
    using x(2) by (auto simp: VaultStoreGet_def)
  have "entryOK demoCrypto demoJson (demoFacts {100, 150}) ?v demoKey e"
    by (rule vault_entryOK(1) [OF demo_newVault _ _ x(1,2)]) (use demo_sealLaws demo_answers [of "{100, 150}"] in auto)
  then have com: "Complete (ve_Signed e)"
    using entryOK_signed by blast
  have "\<exists>r m'. Check demoTower ?su (VaultStoreGet ?v) m demoKey = (r, m', [ChallengeTx demoB (ve_Signed e)]) \<and> True" for m
  proof -
    have "watchMargin demoTower \<le> (oc_ChallengeEnds demoClosing - su_Now ?su) * Second" "latestNonce ch = 1"
      using x(3) demo_margin by (simp_all add: demo_view ch(2) EntryNonce_def Second_def)
    then show ?thesis
      using Check_challenges [where Get = "VaultStoreGet ?v" and m = m and su = ?su, OF ch(1) demo_view(1) _ _ demo_view(4) _ _ _ _ demo_view(7) refl] com
      by (simp add: demo_view ch(2)) blast
  qed
  moreover have "demoKey \<in> set (VaultIDs ?v)"
    using x(2) by (auto simp: entryOf_def VaultIDs_def dest!: map_of_SomeD intro: rev_image_eqI)
  ultimately obtain rs m' calls where sw: "sweepEach demoTower ?su (VaultStoreGet ?v) None (VaultIDs ?v) = (rs, m', calls)"
      "set [ChallengeTx demoB (ve_Signed e)] \<subseteq> set calls"
    using sweepEach_has [where P = "\<lambda>_. True"] by blast
  then have s: "Sweep demoTower ?su None = (rs, m', calls)"
    by (simp add: Sweep_def demo_view VaultSource_def)
  have call: "ChallengeTx demoB (ve_Signed e) \<in> set calls"
    using sw(2) by simp
  have laws: "sealLaws demoJson a" if "Inr demoAead = (Inr a :: string + aead)" for a
    using that demo_sealLaws by simp
  have reads: "answers (demoFacts {100, 150}) demoB rd" if "Some demoReader = Some rd" for rd
    using that demo_answers by simp
  note sent = vault_tower_sends_agreed [OF demo_newVault _ _ x(1) demo_view(2) s call]
  obtain e' :: VaultEntry where "ChallengeTx demoB (ve_Signed e) = ChallengeTx (wt_Contract demoTower) (ve_Signed e')"
      "Complete (ve_Signed e')"
    using sent laws reads by blast
  then have "Complete (ve_Signed e)" "0 < EntryNonce e"
    using x(3) by simp_all
  then show ?thesis
    using x s call by blast
qed

end
