(* ===== verification/Validation.thy ===== *)
theory Validation
  imports Challenge_Budget
begin

text \<open>
  The deployment gate, \<^verbatim>\<open>src/internal/channel/validation.go\<close>: what evidence a budget term takes, what a
  deployment must state, and when a challenge period may be deployed. Errors carry a tag for their text.
\<close>

record Evidence =
  ev_Term :: string
  ev_Measured :: duration
  ev_Samples :: int
  ev_ChainID :: int
  ev_Method :: string
  ev_TakenAt :: int
  ev_AtChannels :: int

definition MinEvidenceSamples :: int where
  "MinEvidenceSamples = 30"

definition MinReorgSamples :: int where
  "MinReorgSamples = 18"

definition reorgTerm :: string where
  "reorgTerm = ''reorg depth''"

definition minSamplesFor :: "string \<Rightarrow> int" where
  "minSamplesFor term = (if term = reorgTerm then MinReorgSamples else MinEvidenceSamples)"

definition EvidenceMaxAge :: duration where
  "EvidenceMaxAge = 90 * 24 * Hour"

definition termsNeedingEvidence :: "string list" where
  \<comment> \<open>the keys of the map; the reasons are text for a human\<close>
  "termsNeedingEvidence = [''detection'', ''watchtower outage'', ''inclusion'', ''repricing'', ''rpc failure'', ''reorg depth'']"

record OperatingEnvelope =
  oe_Channels :: int
  oe_Watchtowers :: int
  oe_SweepInterval :: duration
  oe_OnCall :: string
  oe_OnCallResponse :: duration

definition isSpace :: "char \<Rightarrow> bool" where
  \<comment> \<open>\<^verbatim>\<open>unicode.IsSpace\<close> on single-byte characters\<close>
  "isSpace c \<longleftrightarrow> c \<in> {CHR '' '', CHR 0x09, CHR 0x0A, CHR 0x0B, CHR 0x0C, CHR 0x0D}"

definition blank :: "string \<Rightarrow> bool" where
  \<comment> \<open>\<^verbatim>\<open>strings.TrimSpace(s) == ""\<close>\<close>
  "blank s \<longleftrightarrow> list_all isSpace s"

datatype validation_error =
    ErrNoChannelCount | ErrNoWatchtowers | ErrNoSweepInterval | ErrNoOnCall
  | ErrVerifiedByNothing | ErrNoAnchor | ErrRiskUnsigned | ErrUnverified
  | ErrNotATerm | ErrTakesNoEvidence | ErrOtherChain | ErrTooFewSamples | ErrNoMethod
  | ErrSmallWorkload | ErrPromiseTooLong | ErrRefuted | ErrStillUnvalidated "string list"

definition Stated :: "OperatingEnvelope \<Rightarrow> validation_error + unit" where
  "Stated e =
     (if oe_Channels e \<le> 0 then Inl ErrNoChannelCount
      else if oe_Watchtowers e \<le> 0 then Inl ErrNoWatchtowers
      else if oe_SweepInterval e \<le> 0 then Inl ErrNoSweepInterval
      else if blank (oe_OnCall e) \<or> oe_OnCallResponse e \<le> 0 then Inl ErrNoOnCall
      else Inr ())"

datatype Canonicality = CanonicalityUnverified | CanonicalityVerified | CanonicalityAcceptedRisk | CanonicalityOther string

record HeaderTrust =
  ht_Status :: Canonicality
  ht_Implementation :: string
  ht_Anchor :: string
  ht_AcceptedBy :: string
  ht_Reason :: string

definition HeaderCheck :: "HeaderTrust \<Rightarrow> validation_error + unit" where
  "HeaderCheck h =
     (case ht_Status h of
        CanonicalityVerified \<Rightarrow>
          if blank (ht_Implementation h) then Inl ErrVerifiedByNothing
          else if blank (ht_Anchor h) then Inl ErrNoAnchor
          else Inr ()
      | CanonicalityAcceptedRisk \<Rightarrow>
          if blank (ht_AcceptedBy h) \<or> blank (ht_Reason h) then Inl ErrRiskUnsigned else Inr ()
      | _ \<Rightarrow> Inl ErrUnverified)"

record ValidatedBudget =
  vb_Budget :: ChallengeBudget
  vb_ChainID :: int
  vb_Envelope :: OperatingEnvelope
  vb_Headers :: HeaderTrust
  vb_Evidence :: "string \<rightharpoonup> Evidence"

definition NewValidatedBudget :: "int \<Rightarrow> ChallengeBudget \<Rightarrow> OperatingEnvelope \<Rightarrow> ValidatedBudget" where
  "NewValidatedBudget chainID budget envelope = \<lparr> vb_Budget = budget, vb_ChainID = chainID, vb_Envelope = envelope,
     vb_Headers = \<lparr> ht_Status = CanonicalityOther [], ht_Implementation = [], ht_Anchor = [], ht_AcceptedBy = [],
                    ht_Reason = [] \<rparr>,
     vb_Evidence = Map.empty \<rparr>"

definition budgeted :: "ValidatedBudget \<Rightarrow> string \<Rightarrow> duration option" where
  "budgeted v term = map_of (Terms (vb_Budget v)) term"

definition budgetedOr :: "ValidatedBudget \<Rightarrow> string \<Rightarrow> duration" where
  "budgetedOr v term = (case budgeted v term of None \<Rightarrow> 0 | Some d \<Rightarrow> d)"

definition RecordEvidence :: "ValidatedBudget \<Rightarrow> Evidence \<Rightarrow> (validation_error + unit) \<times> ValidatedBudget" where
  "RecordEvidence v e =
     (let refuse = (\<lambda>err. (Inl err, v)); term = ev_Term e in
      if term \<notin> set termsNeedingEvidence
      then (if budgeted v term = None then refuse ErrNotATerm else refuse ErrTakesNoEvidence)
      else if ev_ChainID e \<noteq> vb_ChainID v then refuse ErrOtherChain
      else if ev_Samples e < minSamplesFor term then refuse ErrTooFewSamples
      else if ev_Method e = [] then refuse ErrNoMethod
      else
        (case Stated (vb_Envelope v) of
           Inl err \<Rightarrow> refuse err
         | Inr _ \<Rightarrow>
             if term = ''detection'' \<and> ev_AtChannels e < oe_Channels (vb_Envelope v) then refuse ErrSmallWorkload
             else if term = ''watchtower outage'' \<and> oe_OnCallResponse (vb_Envelope v) > budgetedOr v term
               then refuse ErrPromiseTooLong
             else if ev_Measured e > budgetedOr v term then refuse ErrRefuted
             else (Inr (), v\<lparr>vb_Evidence := (vb_Evidence v)(term \<mapsto> e)\<rparr>)))"

definition unvalidatedTerm :: "ValidatedBudget \<Rightarrow> int \<Rightarrow> string \<Rightarrow> string option" where
  \<comment> \<open>one turn of the loop of \<^verbatim>\<open>Unvalidated\<close>\<close>
  "unvalidatedTerm v now term =
     (case vb_Evidence v term of
        None \<Rightarrow> Some term
      | Some e \<Rightarrow>
          if now > 0 \<and> i64 (i64 (now - ev_TakenAt e) * Second) > EvidenceMaxAge
          then Some (term @ '' (evidence expired)'') else None)"

definition Unvalidated :: "ValidatedBudget \<Rightarrow> int \<Rightarrow> string list" where
  "Unvalidated v now = sort (List.map_filter (unvalidatedTerm v now) termsNeedingEvidence)"

definition DeployableChallengePeriod :: "ValidatedBudget \<Rightarrow> int \<Rightarrow> validation_error + int" where
  "DeployableChallengePeriod v now =
     (case HeaderCheck (vb_Headers v) of
        Inl e \<Rightarrow> Inl e
      | Inr _ \<Rightarrow>
          let missing = Unvalidated v now in
          if missing \<noteq> [] then Inl (ErrStillUnvalidated missing)
          else Inr (Recommend (vb_Budget v) div Second))"

subsection \<open>What a filed measurement says\<close>

definition supports :: "ValidatedBudget \<Rightarrow> string \<Rightarrow> Evidence \<Rightarrow> bool" where
  "supports v term e \<longleftrightarrow> ev_Term e = term \<and> ev_ChainID e = vb_ChainID v \<and> minSamplesFor term \<le> ev_Samples e \<and>
     ev_Method e \<noteq> [] \<and> (\<exists>d. (term, d) \<in> set (Terms (vb_Budget v)) \<and> ev_Measured e \<le> d) \<and>
     Stated (vb_Envelope v) = Inr () \<and> (term = ''detection'' \<longrightarrow> oe_Channels (vb_Envelope v) \<le> ev_AtChannels e) \<and>
     (term = ''watchtower outage'' \<longrightarrow> oe_OnCallResponse (vb_Envelope v) \<le> bu_Outage (vb_Budget v))"

definition evidenceOK :: "ValidatedBudget \<Rightarrow> bool" where
  "evidenceOK v \<longleftrightarrow> (\<forall>term e. vb_Evidence v term = Some e \<longrightarrow> supports v term e)"

lemma needing_budgeted: "term \<in> set termsNeedingEvidence \<Longrightarrow> \<exists>d. budgeted v term = Some d \<and> (term, d) \<in> set (Terms (vb_Budget v))"
  by (auto simp: termsNeedingEvidence_def budgeted_def Terms_def)

lemma RecordEvidence_D:
  assumes "RecordEvidence v e = (r, v')"
  shows "v' = v \<and> r \<noteq> Inr () \<or> r = Inr () \<and> v' = v\<lparr>vb_Evidence := (vb_Evidence v)(ev_Term e \<mapsto> e)\<rparr> \<and> supports v (ev_Term e) e"
proof (cases "r = Inr ()")
  case False
  then show ?thesis
    using assms by (auto simp: RecordEvidence_def Let_def split: if_splits sum.splits)
next
  case True
  then have ok: "ev_Term e \<in> set termsNeedingEvidence" "ev_ChainID e = vb_ChainID v"
      "minSamplesFor (ev_Term e) \<le> ev_Samples e" "ev_Method e \<noteq> []" "Stated (vb_Envelope v) = Inr ()"
      "ev_Term e = ''detection'' \<longrightarrow> oe_Channels (vb_Envelope v) \<le> ev_AtChannels e"
      "ev_Term e = ''watchtower outage'' \<longrightarrow> oe_OnCallResponse (vb_Envelope v) \<le> budgetedOr v (ev_Term e)"
      "ev_Measured e \<le> budgetedOr v (ev_Term e)"
      "v' = v\<lparr>vb_Evidence := (vb_Evidence v)(ev_Term e \<mapsto> e)\<rparr>"
    using assms by (simp_all add: RecordEvidence_def Let_def not_less split: if_splits sum.splits)
  obtain d where d: "budgeted v (ev_Term e) = Some d" "(ev_Term e, d) \<in> set (Terms (vb_Budget v))"
    using needing_budgeted [OF ok(1)] by blast
  moreover have "budgetedOr v ''watchtower outage'' = bu_Outage (vb_Budget v)"
    by (simp add: budgetedOr_def budgeted_def Terms_def)
  ultimately show ?thesis
    using ok True by (auto simp: supports_def budgetedOr_def)
qed

definition filed :: "Evidence list \<Rightarrow> ValidatedBudget \<Rightarrow> ValidatedBudget" where
  \<comment> \<open>every measurement is offered to \<^verbatim>\<open>Record\<close>, in order\<close>
  "filed es v = fold (\<lambda>e v. snd (RecordEvidence v e)) es v"

lemma RecordEvidence_frame:
  "vb_Budget (snd (RecordEvidence v e)) = vb_Budget v" "vb_ChainID (snd (RecordEvidence v e)) = vb_ChainID v"
  "vb_Envelope (snd (RecordEvidence v e)) = vb_Envelope v"
  using RecordEvidence_D [of v e "fst (RecordEvidence v e)" "snd (RecordEvidence v e)"] by auto

lemma supports_cong:
  "vb_Budget v' = vb_Budget v \<Longrightarrow> vb_ChainID v' = vb_ChainID v \<Longrightarrow> vb_Envelope v' = vb_Envelope v \<Longrightarrow>
   supports v' key e = supports v key e"
  by (simp add: supports_def)

lemma filed_evidence:
  "vb_Budget (filed es v) = vb_Budget v \<and> vb_ChainID (filed es v) = vb_ChainID v \<and> vb_Envelope (filed es v) = vb_Envelope v \<and>
   (\<forall>key e. vb_Evidence (filed es v) key = Some e \<longrightarrow>
      vb_Evidence v key = Some e \<or> e \<in> set es \<and> supports v key e)"
proof (induction es arbitrary: v)
  case (Cons x es)
  let ?v = "snd (RecordEvidence v x)"
  have f: "filed (x # es) v = filed es ?v"
    by (simp add: filed_def)
  have s: "supports ?v key e = supports v key e" for key e
    by (rule supports_cong) (simp_all add: RecordEvidence_frame)
  have "vb_Evidence ?v key = Some e \<Longrightarrow> vb_Evidence v key = Some e \<or> e = x \<and> supports v key e" for key e
    using RecordEvidence_D [of v x "fst (RecordEvidence v x)" ?v] by (auto split: if_splits)
  then show ?case
    using Cons.IH [of ?v] unfolding f s by (fastforce simp: RecordEvidence_frame)
qed (simp add: filed_def)

lemma Unvalidated_none:
  assumes "Unvalidated v now = []" "key \<in> set termsNeedingEvidence"
  shows "\<exists>e. vb_Evidence v key = Some e \<and> (now > 0 \<longrightarrow> i64 (i64 (now - ev_TakenAt e) * Second) \<le> EvidenceMaxAge)"
proof -
  have "sort xs = [] \<longleftrightarrow> xs = []" for xs :: "string list"
    by (metis length_0_conv length_sort)
  then have "List.map_filter (unvalidatedTerm v now) termsNeedingEvidence = []"
    using assms(1) by (simp add: Unvalidated_def)
  then have "unvalidatedTerm v now key = None"
    using assms(2) by (fastforce simp: List.map_filter_def filter_empty_conv)
  then show ?thesis
    by (auto simp: unvalidatedTerm_def not_less split: option.splits if_splits)
qed

subsection \<open>Properties\<close>

text \<open>
  No number without evidence. Whatever measurements are filed, if the gate yields a challenge period
  then the headers are trusted on the record, the operating envelope is stated, and each of the six terms that
  claim something about the world rests on a filed measurement taken on this chain, with enough samples and a
  method, not refuting the term, not expired, and within the envelope. For a budget that does not overflow the
  period covers the worst measured delays together with the local and safety terms.
\<close>

theorem deployable_means_validated:
  assumes v: "v = (filed es (NewValidatedBudget chainID budget envelope))\<lparr>vb_Headers := h\<rparr>"
    and gate: "DeployableChallengePeriod v now = Inr seconds" "0 < now" "budgetOK budget"
  shows "HeaderCheck h = Inr () \<and> Stated envelope = Inr () \<and>
    (\<exists>ev. (\<forall>key \<in> set termsNeedingEvidence. ev key \<in> set es \<and> supports v key (ev key) \<and>
           i64 (i64 (now - ev_TakenAt (ev key)) * Second) \<le> EvidenceMaxAge) \<and>
       sum_list (map (\<lambda>key. ev_Measured (ev key)) termsNeedingEvidence) + bu_Local budget + bu_Safety budget
         \<le> seconds * Second)"
proof -
  let ?new = "NewValidatedBudget chainID budget envelope"
  have f: "vb_Budget v = budget" "vb_Envelope v = envelope" "vb_Evidence v = vb_Evidence (filed es ?new)" "vb_Headers v = h"
    using filed_evidence [of es ?new] by (simp_all add: v NewValidatedBudget_def)
  have s: "supports v key e = supports ?new key e" for key e
    by (rule supports_cong) (use filed_evidence [of es ?new] v in \<open>simp_all add: NewValidatedBudget_def\<close>)
  have head: "HeaderCheck h = Inr ()" and none: "Unvalidated v now = []" and sec: "seconds = Recommend budget div Second"
    using gate(1) f by (auto simp: DeployableChallengePeriod_def Let_def split: sum.splits if_splits)
  have "\<forall>key. \<exists>e. key \<in> set termsNeedingEvidence \<longrightarrow> e \<in> set es \<and> supports v key e \<and>
      i64 (i64 (now - ev_TakenAt e) * Second) \<le> EvidenceMaxAge"
  proof (intro allI)
    fix key
    show "\<exists>e. key \<in> set termsNeedingEvidence \<longrightarrow> e \<in> set es \<and> supports v key e \<and>
      i64 (i64 (now - ev_TakenAt e) * Second) \<le> EvidenceMaxAge"
    proof (cases "key \<in> set termsNeedingEvidence")
      case True
      then obtain e where e: "vb_Evidence (filed es ?new) key = Some e" "i64 (i64 (now - ev_TakenAt e) * Second) \<le> EvidenceMaxAge"
        using Unvalidated_none [OF none] gate(2) f(3) by auto
      have "e \<in> set es \<and> supports v key e"
        using filed_evidence [of es ?new] e(1) unfolding s by (auto simp: NewValidatedBudget_def)
      then show ?thesis
        using e(2) by blast
    qed simp
  qed
  then obtain ev where ev: "\<And>key. key \<in> set termsNeedingEvidence \<Longrightarrow> ev key \<in> set es \<and> supports v key (ev key) \<and>
      i64 (i64 (now - ev_TakenAt (ev key)) * Second) \<le> EvidenceMaxAge"
    by metis
  have sup: "supports v key (ev key)" if "key \<in> set termsNeedingEvidence" for key
    using ev that by blast
  have "ev_Measured (ev ''detection'') \<le> bu_Detection budget" "ev_Measured (ev ''watchtower outage'') \<le> bu_Outage budget"
    "ev_Measured (ev ''inclusion'') \<le> bu_Inclusion budget" "ev_Measured (ev ''repricing'') \<le> bu_Repricing budget"
    "ev_Measured (ev ''rpc failure'') \<le> bu_RPCFailure budget" "ev_Measured (ev ''reorg depth'') \<le> bu_Reorg budget"
    using sup [of "''detection''"] sup [of "''watchtower outage''"] sup [of "''inclusion''"] sup [of "''repricing''"]
      sup [of "''rpc failure''"] sup [of "''reorg depth''"]
    by (auto simp: supports_def termsNeedingEvidence_def Terms_def f(1))
  then have "sum_list (map (\<lambda>key. ev_Measured (ev key)) termsNeedingEvidence) + bu_Local budget + bu_Safety budget \<le> Total budget"
    using Total_exact [OF gate(3)] by (simp add: termsNeedingEvidence_def Terms_def)
  moreover obtain k where "Recommend budget = k * Hour" "Total budget \<le> Recommend budget"
    using Recommend_least [OF gate(3)] by blast
  moreover have "k * Hour div Second * Second = k * Hour"
    by (simp add: Hour_def Minute_def Second_def)
  moreover have "Stated envelope = Inr ()"
    using sup [of "''detection''"] f(2) by (simp add: supports_def termsNeedingEvidence_def)
  ultimately show ?thesis
    using head ev sec by (intro conjI exI [of _ ev]) auto
qed

definition demoEvidence :: "string \<Rightarrow> Evidence" where
  "demoEvidence key = \<lparr> ev_Term = key, ev_Measured = 20 * 60 * 1000000000, ev_Samples = 40, ev_ChainID = 1, ev_Method = ''observed'',
     ev_TakenAt = 900, ev_AtChannels = 100 \<rparr>"

definition demoEnvelope :: OperatingEnvelope where
  "demoEnvelope = \<lparr> oe_Channels = 50, oe_Watchtowers = 2, oe_SweepInterval = 30 * 1000000000, oe_OnCall = ''pager'',
     oe_OnCallResponse = 3600 * 1000000000 \<rparr>"

definition demoTrust :: HeaderTrust where
  "demoTrust = \<lparr> ht_Status = CanonicalityAcceptedRisk, ht_Implementation = [], ht_Anchor = [], ht_AcceptedBy = ''a name'',
     ht_Reason = ''a reason'' \<rparr>"

definition demoValidated :: ValidatedBudget where
  "demoValidated = (filed (map demoEvidence termsNeedingEvidence) (NewValidatedBudget 1 MainnetChallengeBudget demoEnvelope))
     \<lparr>vb_Headers := demoTrust\<rparr>"

lemma demo_record:
  assumes "key \<in> set termsNeedingEvidence" "vb_Budget v = MainnetChallengeBudget" "vb_ChainID v = 1" "vb_Envelope v = demoEnvelope"
  shows "RecordEvidence v (demoEvidence key) = (Inr (), v\<lparr>vb_Evidence := (vb_Evidence v)(key \<mapsto> demoEvidence key)\<rparr>)"
proof -
  have "1200 * Second \<le> budgetedOr v key" "budgetedOr v ''watchtower outage'' = 14400 * Second"
    using assms(1,2)
    by (auto simp: termsNeedingEvidence_def budgetedOr_def budgeted_def Terms_def MainnetChallengeBudget_def duration_defs)
  moreover have "Stated demoEnvelope = Inr ()"
    by (simp add: Stated_def demoEnvelope_def blank_def isSpace_def)
  moreover have "minSamplesFor key \<le> 40"
    by (simp add: minSamplesFor_def MinReorgSamples_def MinEvidenceSamples_def)
  ultimately show ?thesis
    using assms by (auto simp: RecordEvidence_def Let_def demoEvidence_def demoEnvelope_def Second_def)
qed

lemma demo_filed:
  assumes "set keys \<subseteq> set termsNeedingEvidence" "vb_Budget v = MainnetChallengeBudget" "vb_ChainID v = 1" "vb_Envelope v = demoEnvelope"
  shows "vb_Evidence (filed (map demoEvidence keys) v) key = (if key \<in> set keys then Some (demoEvidence key) else vb_Evidence v key)"
  using assms
proof (induction keys arbitrary: v)
  case (Cons k keys)
  let ?v = "v\<lparr>vb_Evidence := (vb_Evidence v)(k \<mapsto> demoEvidence k)\<rparr>"
  have "filed (map demoEvidence (k # keys)) v = filed (map demoEvidence keys) ?v"
    using demo_record [of k v] Cons.prems by (simp add: filed_def)
  then show ?case
    using Cons.IH [of ?v] Cons.prems by simp
qed (simp add: filed_def)

lemma demo_deployable: "DeployableChallengePeriod demoValidated 1000 = Inr 28800"
proof -
  let ?new = "NewValidatedBudget 1 MainnetChallengeBudget demoEnvelope"
  have n: "vb_Budget ?new = MainnetChallengeBudget" "vb_ChainID ?new = 1" "vb_Envelope ?new = demoEnvelope"
    by (simp_all add: NewValidatedBudget_def)
  have b: "vb_Budget demoValidated = MainnetChallengeBudget" "vb_Headers demoValidated = demoTrust"
    using filed_evidence [of "map demoEvidence termsNeedingEvidence" ?new] n by (simp_all add: demoValidated_def)
  have "vb_Evidence demoValidated key = Some (demoEvidence key)" if "key \<in> set termsNeedingEvidence" for key
    using demo_filed [OF order.refl n, of key] that by (simp add: demoValidated_def)
  then have "unvalidatedTerm demoValidated 1000 key = None" if "key \<in> set termsNeedingEvidence" for key
    using that by (simp add: unvalidatedTerm_def demoEvidence_def EvidenceMaxAge_def duration_defs)
  then have "List.map_filter (unvalidatedTerm demoValidated 1000) termsNeedingEvidence = []"
    by (simp add: List.map_filter_def filter_empty_conv)
  then have "Unvalidated demoValidated 1000 = []"
    by (simp add: Unvalidated_def)
  moreover have "HeaderCheck demoTrust = Inr ()"
    by (simp add: HeaderCheck_def demoTrust_def blank_def isSpace_def)
  ultimately show ?thesis
    using RecommendedChallengePeriod_value by (simp add: DeployableChallengePeriod_def b RecommendedChallengePeriod_def)
qed

theorem deployable_means_validated_witness:
  "DeployableChallengePeriod demoValidated 1000 = Inr 28800 \<and>
   (\<exists>ev. \<forall>key \<in> set termsNeedingEvidence. supports demoValidated key (ev key))"
proof -
  have "budgetOK MainnetChallengeBudget"
    by (simp add: budgetOK_def Terms_def MainnetChallengeBudget_def duration_defs)
  then show ?thesis
    using deployable_means_validated [OF demoValidated_def demo_deployable] demo_deployable by auto
qed

end
