(* ===== verification/Spend_Guard.thy ===== *)
theory Spend_Guard
  imports Prelude
begin

text \<open>
  The spend ceiling of a measurement run, \<^verbatim>\<open>src/internal/channel/spendguard.go\<close>. Every method holds the
  mutex for its whole body, so concurrent callers are some sequence of calls. The pointer receiver may be
  nil (\<open>None\<close>), and the zero value has nil big integers. Each formatted error is a constructor carrying
  the numbers it prints; a nil dereference is \<open>None\<close> in the result of \<open>Spent\<close>.
\<close>

datatype spend_error =
    NoTotalCeiling | NoPerTxCeiling | NoCountLimit | PerTxAboveTotal int int
  | NoBudget | ErrDryRun | NoCeilingConfigured | NoStatedCost | CountReached int int
  | OverPerTx int int | OverTotal int int | BalanceUnknown | Underfunded int int

record SpendBudget =
  sb_maxTotal :: bigint
  sb_maxPerTx :: bigint
  sb_maxCount :: int
  sb_spent :: bigint
  sb_count :: int
  sb_dryRun :: bool

definition zeroBudget :: SpendBudget where
  \<comment> \<open>Go's \<^verbatim>\<open>SpendBudget{}\<close>\<close>
  "zeroBudget = \<lparr> sb_maxTotal = None, sb_maxPerTx = None, sb_maxCount = 0, sb_spent = None,
     sb_count = 0, sb_dryRun = False \<rparr>"

definition NewSpendBudget :: "bigint \<Rightarrow> bigint \<Rightarrow> int \<Rightarrow> spend_error + SpendBudget" where
  "NewSpendBudget maxTotalWei maxPerTxWei maxCount =
     (if maxTotalWei = None \<or> orZero maxTotalWei \<le> 0 then Inl NoTotalCeiling
      else if maxPerTxWei = None \<or> orZero maxPerTxWei \<le> 0 then Inl NoPerTxCeiling
      else if maxCount \<le> 0 then Inl NoCountLimit
      else if orZero maxPerTxWei > orZero maxTotalWei
      then Inl (PerTxAboveTotal (orZero maxPerTxWei) (orZero maxTotalWei))
      else Inr \<lparr> sb_maxTotal = maxTotalWei, sb_maxPerTx = maxPerTxWei, sb_maxCount = maxCount,
                 sb_spent = Some 0, sb_count = 0, sb_dryRun = False \<rparr>)"

definition DryRun :: SpendBudget where
  "DryRun = zeroBudget\<lparr>sb_dryRun := True, sb_spent := Some 0\<rparr>"

definition Authorise :: "SpendBudget option \<Rightarrow> bigint \<Rightarrow> (spend_error + unit) \<times> SpendBudget option" where
  "Authorise mb maxCostWei =
     (case mb of
        None \<Rightarrow> (Inl NoBudget, None)
      | Some b \<Rightarrow>
          if sb_dryRun b
          then (Inl ErrDryRun, Some (b\<lparr>sb_count := i64 (sb_count b + 1),
                  sb_spent := (case maxCostWei of None \<Rightarrow> sb_spent b | Some v \<Rightarrow> Some (orZero (sb_spent b) + v))\<rparr>))
          else if sb_maxTotal b = None \<or> orZero (sb_maxTotal b) \<le> 0 then (Inl NoCeilingConfigured, Some b)
          else if maxCostWei = None \<or> orZero maxCostWei < 0 then (Inl NoStatedCost, Some b)
          else if sb_count b \<ge> sb_maxCount b then (Inl (CountReached (sb_count b) (sb_maxCount b)), Some b)
          else if orZero maxCostWei > orZero (sb_maxPerTx b)
          then (Inl (OverPerTx (orZero maxCostWei) (orZero (sb_maxPerTx b))), Some b)
          else
            let after = orZero (sb_spent b) + orZero maxCostWei in
            if after > orZero (sb_maxTotal b) then (Inl (OverTotal after (orZero (sb_maxTotal b))), Some b)
            else (Inr (), Some (b\<lparr>sb_spent := Some after, sb_count := i64 (sb_count b + 1)\<rparr>)))"

definition Spent :: "SpendBudget \<Rightarrow> (int \<times> int) option" where
  \<comment> \<open>copying a nil number panics\<close>
  "Spent b = map_option (\<lambda>s. (s, sb_count b)) (sb_spent b)"

definition Remaining :: "SpendBudget \<Rightarrow> int" where
  "Remaining b =
     (case sb_maxTotal b of
        None \<Rightarrow> 0
      | Some ceiling \<Rightarrow> let left = ceiling - orZero (sb_spent b) in if left < 0 then 0 else left)"

definition CheckBalance :: "SpendBudget \<Rightarrow> bigint \<Rightarrow> spend_error + unit" where
  "CheckBalance b balanceWei =
     (case balanceWei of
        None \<Rightarrow> Inl BalanceUnknown
      | Some balance \<Rightarrow>
          if sb_maxTotal b = None \<or> orZero (sb_maxTotal b) \<le> 0 then Inl NoCeilingConfigured
          else if balance < orZero (sb_maxTotal b) then Inl (Underfunded balance (orZero (sb_maxTotal b)))
          else Inr ())"

subsection \<open>A run of requests\<close>

fun authoriseAll :: "SpendBudget option \<Rightarrow> bigint list \<Rightarrow> (spend_error + unit) list \<times> SpendBudget option" where
  "authoriseAll mb [] = ([], mb)"
| "authoriseAll mb (c # cs) =
     (case Authorise mb c of (r, mb1) \<Rightarrow> case authoriseAll mb1 cs of (rs, mb2) \<Rightarrow> (r # rs, mb2))"

fun granted :: "(spend_error + unit) list \<Rightarrow> bigint list \<Rightarrow> int list" where
  "granted (r # rs) (c # cs) = (if isl r then granted rs cs else orZero c # granted rs cs)"
| "granted _ _ = []"

definition budgetOK :: "SpendBudget \<Rightarrow> bool" where
  "budgetOK b \<longleftrightarrow> \<not> sb_dryRun b \<and> 0 < orZero (sb_maxTotal b) \<and> sb_spent b \<noteq> None \<and>
     0 \<le> orZero (sb_spent b) \<and> orZero (sb_spent b) \<le> orZero (sb_maxTotal b) \<and>
     0 \<le> sb_count b \<and> sb_count b \<le> sb_maxCount b \<and> sb_maxCount b < 2 ^ 63"

lemma Authorise_cases:
  assumes "budgetOK b" "Authorise (Some b) c = (r, mb')"
  obtains (refused) e where "r = Inl e" "mb' = Some b"
  | (granted) b' where "r = Inr ()" "mb' = Some b'" "budgetOK b'"
      "0 \<le> orZero c" "orZero c \<le> orZero (sb_maxPerTx b)"
      "sb_spent b' = Some (orZero (sb_spent b) + orZero c)" "sb_count b' = sb_count b + 1"
      "sb_maxTotal b' = sb_maxTotal b" "sb_maxPerTx b' = sb_maxPerTx b" "sb_maxCount b' = sb_maxCount b"
proof -
  have live: "\<not> sb_dryRun b" "\<not> (sb_maxTotal b = None \<or> orZero (sb_maxTotal b) \<le> 0)"
    using assms(1) by (cases "sb_maxTotal b"; simp add: budgetOK_def)+
  show thesis
  proof (cases "isl r")
    case True
    then have "mb' = Some b"
      using assms(2) live by (auto simp: Authorise_def Let_def split: if_splits)
    with True show thesis by (auto elim: refused simp: isl_def)
  next
    case False
    define b' where "b' = b\<lparr>sb_spent := Some (orZero (sb_spent b) + orZero c), sb_count := i64 (sb_count b + 1)\<rparr>"
    from False have facts: "r = Inr ()" "mb' = Some b'" "0 \<le> orZero c" "orZero c \<le> orZero (sb_maxPerTx b)"
        "sb_count b < sb_maxCount b" "orZero (sb_spent b) + orZero c \<le> orZero (sb_maxTotal b)"
      using assms(2) live by (auto simp: Authorise_def Let_def b'_def not_less not_le split: if_splits)
    moreover have "i64 (sb_count b + 1) = sb_count b + 1"
      using assms(1) facts(5) by (intro i64_id) (auto simp: budgetOK_def)
    ultimately show thesis
      using assms(1) by (intro granted [of b']) (auto simp: b'_def budgetOK_def)
  qed
qed

lemma authoriseAll_bounds:
  assumes "budgetOK b" "authoriseAll (Some b) cs = (rs, mb)"
  shows "\<exists>b'. mb = Some b' \<and> budgetOK b' \<and> sb_maxTotal b' = sb_maxTotal b \<and> sb_maxCount b' = sb_maxCount b \<and>
    sb_maxPerTx b' = sb_maxPerTx b \<and> orZero (sb_spent b') = orZero (sb_spent b) + sum_list (granted rs cs) \<and>
    sb_count b' = sb_count b + int (length (granted rs cs)) \<and>
    (\<forall>v \<in> set (granted rs cs). 0 \<le> v \<and> v \<le> orZero (sb_maxPerTx b))"
  using assms
proof (induction cs arbitrary: b rs)
  case (Cons c cs)
  obtain r mb1 where one: "Authorise (Some b) c = (r, mb1)" by fastforce
  obtain rs' where rest: "authoriseAll mb1 cs = (rs', mb)" "rs = r # rs'"
    using Cons.prems(2) one by (auto split: prod.splits)
  from Cons.prems(1) one show ?case
  proof (cases rule: Authorise_cases)
    case (refused e)
    with Cons.IH [OF Cons.prems(1)] rest show ?thesis by simp
  next
    case (granted b1)
    with Cons.IH [OF granted(3)] rest show ?thesis by fastforce
  qed
qed auto

subsection \<open>Properties\<close>

text \<open>
  (C24) The ceiling holds. Once a budget was stated, whatever costs are asked for and in whatever order
  - refused requests and failed transactions included - the granted ones sum to at most the total,
  number at most the count limit, and are each non-negative and within the per-transaction limit; what
  is reported as spent and as remaining is exact at every point.
\<close>

theorem ceiling_holds:
  assumes "NewSpendBudget ceiling perTx maxCount = Inr b" "maxCount < 2 ^ 63"
    and "authoriseAll (Some b) costs = (rs, mb)"
  shows "sum_list (granted rs costs) \<le> orZero ceiling \<and> int (length (granted rs costs)) \<le> maxCount \<and>
    (\<forall>v \<in> set (granted rs costs). 0 \<le> v \<and> v \<le> orZero perTx) \<and>
    (\<exists>b'. mb = Some b' \<and> Spent b' = Some (sum_list (granted rs costs), int (length (granted rs costs))) \<and>
      Remaining b' = orZero ceiling - sum_list (granted rs costs))"
proof -
  have b: "b = \<lparr> sb_maxTotal = ceiling, sb_maxPerTx = perTx, sb_maxCount = maxCount, sb_spent = Some 0,
      sb_count = 0, sb_dryRun = False \<rparr>" and "0 < orZero ceiling" "0 < maxCount"
    using assms(1) by (auto simp: NewSpendBudget_def split: if_splits)
  then have "budgetOK b"
    using assms(2) by (simp add: budgetOK_def)
  from authoriseAll_bounds [OF this assms(3)] obtain b' where b': "mb = Some b'" "budgetOK b'"
      "sb_maxTotal b' = ceiling" "sb_maxCount b' = maxCount"
      "orZero (sb_spent b') = sum_list (granted rs costs)" "sb_count b' = int (length (granted rs costs))"
    and each: "\<forall>v \<in> set (granted rs costs). 0 \<le> v \<and> v \<le> orZero perTx"
    by (auto simp: b)
  moreover have "Spent b' = Some (sum_list (granted rs costs), int (length (granted rs costs)))"
    using b' by (auto simp: Spent_def budgetOK_def)
  moreover have "Remaining b' = orZero ceiling - sum_list (granted rs costs)"
    using b' \<open>0 < orZero ceiling\<close> by (cases ceiling) (auto simp: Remaining_def Let_def budgetOK_def)
  ultimately show ?thesis
    by (auto simp: budgetOK_def)
qed

theorem ceiling_holds_witness:
  "\<exists>b rs mb. NewSpendBudget (Some 100) (Some 60) 3 = Inr b \<and>
     authoriseAll (Some b) [Some 60, Some 70, Some 50, Some 40] = (rs, mb) \<and> granted rs [Some 60, Some 70, Some 50, Some 40] = [60, 40] \<and>
     (\<exists>b'. mb = Some b' \<and> Remaining b' = 0)"
proof -
  obtain b where b: "NewSpendBudget (Some 100) (Some 60) 3 = Inr b"
    by (simp add: NewSpendBudget_def)
  obtain rs mb where run: "authoriseAll (Some b) [Some 60, Some 70, Some 50, Some 40] = (rs, mb)"
    by fastforce
  have "granted rs [Some 60, Some 70, Some 50, Some 40] = [60, 40]"
    using b run by (auto simp: NewSpendBudget_def Authorise_def Let_def)
  with ceiling_holds [OF b _ run] b run show ?thesis
    by auto
qed

text \<open>
  A rehearsal grants nothing, and neither does a budget nobody configured.
\<close>

lemma no_grant_without_ceiling:
  assumes "mb = None \<or> (\<exists>b. mb = Some b \<and> (sb_dryRun b \<or> sb_maxTotal b = None))"
  shows "granted (fst (authoriseAll mb costs)) costs = []"
  using assms
proof (induction costs arbitrary: mb)
  case (Cons c cs)
  obtain r mb1 where one: "Authorise mb c = (r, mb1)" by fastforce
  then have "isl r" "mb1 = None \<or> (\<exists>b. mb1 = Some b \<and> (sb_dryRun b \<or> sb_maxTotal b = None))"
    using Cons.prems by (auto simp: Authorise_def split: if_splits)
  with Cons.IH [of mb1] one show ?case by (cases "authoriseAll mb1 cs") simp
qed simp

text \<open>
  The zero value refuses every request as its comment promises, but it cannot be asked what it spent: its
  \<^verbatim>\<open>spent\<close> is nil and \<^verbatim>\<open>Spent\<close> copies it without looking.
\<close>

theorem zero_budget_cannot_report:
  "Spent zeroBudget = None \<and> Remaining zeroBudget = 0 \<and>
   (\<forall>c. Authorise (Some zeroBudget) c = (Inl NoCeilingConfigured, Some zeroBudget))"
  by (simp add: zeroBudget_def Spent_def Remaining_def Authorise_def)

end
