(* ===== verification/Payout.thy ===== *)
theory Payout
  imports Coordinator
begin

text \<open>
  The payout worker, \<^verbatim>\<open>src/internal/channel/payout.go\<close>: settling a channel by asking the chain first, and
  resolving locks. A pass sees one clock reading; the chain reader, the transaction writer and the fate of
  each channel's record write are arguments, and the transactions broadcast are the trace of the result.
  The pair \<^verbatim>\<open>(PayoutOutcome, error)\<close> is kept as a pair, because the code returns both at once in places.
\<close>

subsection \<open>The worker\<close>

record PayoutWorker =
  pw_contract :: address
  pw_now :: int

datatype PayoutOutcome =
    OutcomeEmpty | OutcomeNotDue | OutcomeNothingToDo | OutcomeSubmitted | OutcomeConfirmed
  | OutcomeAlreadyOnChain | OutcomeAwaitingWindow | OutcomeLocksPending | OutcomeFailed | OutcomeStopped

datatype payout_error =
    PayoutStore chan_error | PayoutRead chan_error | UnexpectedStatus Status | ErrLocksUnresolved
  | LatestIsCheckpoint | WriterFailed string | BroadcastUnrecorded string chan_error

definition DefaultPayoutPolicy :: PayoutPolicy where
  "DefaultPayoutPolicy = \<lparr> py_Mode = PayoutOnClose, py_IntervalSeconds = 0 \<rparr>"

definition freshPayout :: "PayoutPolicy \<Rightarrow> PayoutRecord" where
  "freshPayout policy = \<lparr> po_Policy = policy, po_Phase = PhaseNone, po_TxHash = [], po_Nonce = 0,
     po_SubmittedAt = 0, po_ConfirmedAt = 0, po_LastAttemptAt = 0, po_Attempts = 0, po_LastError = [], po_DueAt = 0 \<rparr>"

definition zeroPolicy :: PayoutPolicy where
  \<comment> \<open>the policy field of \<^verbatim>\<open>PayoutRecord{Phase: PhaseNone}\<close>\<close>
  "zeroPolicy = \<lparr> py_Mode = PayoutModeOther [], py_IntervalSeconds = 0 \<rparr>"

definition setPolicyOn :: "PayoutWorker \<Rightarrow> PayoutPolicy \<Rightarrow> Channel \<Rightarrow> chan_error + Channel" where
  "setPolicyOn w policy c =
     (let r = (case ch_Payout c of None \<Rightarrow> freshPayout zeroPolicy | Some r \<Rightarrow> r);
          due = (if py_Mode policy = PayoutOnInterval \<and> py_IntervalSeconds policy > 0
                 then i64 (pw_now w + py_IntervalSeconds policy) else 0)
      in Inr (c\<lparr>ch_Payout := Some (r\<lparr>po_Policy := policy, po_DueAt := due\<rparr>)\<rparr>))"

definition SetPolicy ::
  "PayoutWorker \<Rightarrow> WriteFault \<Rightarrow> Store \<Rightarrow> bytes32 \<Rightarrow> PayoutPolicy \<Rightarrow> (chan_error + unit) \<times> Store" where
  "SetPolicy w f s i policy = StoreUpdate f s i (setPolicyOn w policy)"

definition onPayout :: "(PayoutRecord \<Rightarrow> PayoutRecord) \<Rightarrow> Channel \<Rightarrow> chan_error + Channel" where
  \<comment> \<open>the mutation of \<^verbatim>\<open>mark\<close>: the record is created with the default policy when there is none\<close>
  "onPayout fn c =
     Inr (c\<lparr>ch_Payout := Some (fn (case ch_Payout c of None \<Rightarrow> freshPayout DefaultPayoutPolicy | Some r \<Rightarrow> r))\<rparr>)"

definition RequestClose :: "WriteFault \<Rightarrow> Store \<Rightarrow> bytes32 \<Rightarrow> (chan_error + unit) \<times> Store" where
  "RequestClose f s i = StoreUpdate f s i (onPayout (\<lambda>r. r\<lparr>po_DueAt := 1\<rparr>))"

definition mark ::
  "WriteFault \<Rightarrow> Store \<Rightarrow> bytes32 \<Rightarrow> (PayoutRecord \<Rightarrow> PayoutRecord) \<Rightarrow> (chan_error + unit) \<times> Store" where
  "mark f s i fn = StoreUpdate f s i (onPayout fn)"

definition hasWithdrawal :: "State \<Rightarrow> bool" where
  "hasWithdrawal st \<longleftrightarrow> orZero (st_WithdrawA st) > 0 \<or> orZero (st_WithdrawB st) > 0"

definition due :: "PayoutWorker \<Rightarrow> Channel \<Rightarrow> bool" where
  \<comment> \<open>both branches of the switch on the mode are the same test\<close>
  "due w ch = (case ch_Payout ch of None \<Rightarrow> False | Some r \<Rightarrow> po_DueAt r > 0 \<and> pw_now w \<ge> po_DueAt r)"

subsection \<open>Submitting\<close>

definition markFailed :: "PayoutWorker \<Rightarrow> string \<Rightarrow> PayoutRecord \<Rightarrow> PayoutRecord" where
  "markFailed w text r = r\<lparr>po_Phase := PhaseFailed, po_Attempts := i64 (po_Attempts r + 1),
     po_LastAttemptAt := pw_now w, po_LastError := text\<rparr>"

definition markSubmitted :: "PayoutWorker \<Rightarrow> Channel \<Rightarrow> string \<Rightarrow> PayoutRecord \<Rightarrow> PayoutRecord" where
  "markSubmitted w ch txHash r = r\<lparr>po_Phase := PhaseSubmitted, po_TxHash := txHash, po_Nonce := latestNonce ch,
     po_SubmittedAt := pw_now w, po_LastAttemptAt := pw_now w, po_Attempts := i64 (po_Attempts r + 1),
     po_LastError := []\<rparr>"

type_synonym settle_result = "(PayoutOutcome \<times> payout_error option) \<times> ChainCall list \<times> Store"

definition afterSubmit ::
  "PayoutWorker \<Rightarrow> WriteFault \<Rightarrow> Store \<Rightarrow> bytes32 \<Rightarrow> Channel \<Rightarrow> string + string
    \<Rightarrow> (PayoutOutcome \<times> payout_error option) \<times> Store" where
  \<comment> \<open>a failed record of a failed broadcast is ignored\<close>
  "afterSubmit w f s i ch sent =
     (case sent of
        Inl text \<Rightarrow> ((OutcomeFailed, Some (WriterFailed text)), snd (mark f s i (markFailed w text)))
      | Inr txHash \<Rightarrow>
          (case mark f s i (markSubmitted w ch txHash) of
             (Inl e, s') \<Rightarrow> ((OutcomeSubmitted, Some (BroadcastUnrecorded txHash e)), s')
           | (Inr _, s') \<Rightarrow> ((OutcomeSubmitted, None), s')))"

definition submitCall ::
  "PayoutWorker \<Rightarrow> WriteFault \<Rightarrow> writer \<Rightarrow> Store \<Rightarrow> bytes32 \<Rightarrow> Channel \<Rightarrow> ChainCall \<Rightarrow> settle_result" where
  "submitCall w f Send s i ch call = (case afterSubmit w f s i ch (Send call) of (r, s') \<Rightarrow> (r, [call], s'))"

definition intervalMode :: "Channel \<Rightarrow> bool" where
  "intervalMode ch = (case ch_Payout ch of None \<Rightarrow> False | Some r \<Rightarrow> py_Mode (po_Policy r) = PayoutOnInterval)"

definition trySubmit :: "PayoutWorker \<Rightarrow> WriteFault \<Rightarrow> writer \<Rightarrow> Store \<Rightarrow> bytes32 \<Rightarrow> settle_result" where
  "trySubmit w f Send s i =
     (case StoreGet s i of
        None \<Rightarrow> ((OutcomeEmpty, Some (PayoutStore ErrNoSuchChannel)), [], s)
      | Some ch \<Rightarrow>
          if \<not> due w ch then ((OutcomeNotDue, None), [], s)
          else if \<not> Complete (ch_Latest ch) then ((OutcomeNothingToDo, None), [], s)
          else
            let drawing = hasWithdrawal (latestState ch) in
            if drawing \<and> intervalMode ch then submitCall w f Send s i ch (CheckpointTx (pw_contract w) ch)
            else if st_Pending (latestState ch) \<noteq> [] then ((OutcomeLocksPending, Some ErrLocksUnresolved), [], s)
            else if drawing then ((OutcomeFailed, Some LatestIsCheckpoint), [], s)
            else submitCall w f Send s i ch (CloseCooperativeTx (pw_contract w) ch))"

definition markConfirmed :: "PayoutWorker \<Rightarrow> PayoutRecord \<Rightarrow> PayoutRecord" where
  "markConfirmed w r = r\<lparr>po_Phase := PhaseConfirmed,
     po_ConfirmedAt := (if po_ConfirmedAt r = 0 then pw_now w else po_ConfirmedAt r), po_LastError := []\<rparr>"

definition confirmedAlready :: "Channel \<Rightarrow> bool" where
  "confirmedAlready ch = (case ch_Payout ch of None \<Rightarrow> False | Some r \<Rightarrow> po_Phase r = PhaseConfirmed)"

definition Settle ::
  "PayoutWorker \<Rightarrow> WriteFault \<Rightarrow> reader \<Rightarrow> writer \<Rightarrow> Store \<Rightarrow> bytes32 \<Rightarrow> settle_result" where
  "Settle w f ReadChannel Send s i =
     (case StoreGet s i of
        None \<Rightarrow> ((OutcomeEmpty, Some (PayoutStore ErrNoSuchChannel)), [], s)
      | Some ch \<Rightarrow>
          if ch_Conflict ch \<noteq> None then ((OutcomeStopped, None), [], s)
          else
            (case ReadChannel (pw_contract w) i of
               Inl e \<Rightarrow> ((OutcomeEmpty, Some (PayoutRead e)), [], s)
             | Inr occ \<Rightarrow>
                 if oc_Status occ = StatusSettled
                 then (case mark f s i (markConfirmed w) of
                         (Inl e, s') \<Rightarrow> ((OutcomeEmpty, Some (PayoutStore e)), [], s')
                       | (Inr _, s') \<Rightarrow>
                           ((if confirmedAlready ch then OutcomeAlreadyOnChain else OutcomeConfirmed, None), [], s'))
                 else if oc_Status occ = StatusClosing
                 then (case mark f s i (\<lambda>r. r\<lparr>po_Phase := PhaseSubmitted\<rparr>) of
                         (Inl e, s') \<Rightarrow> ((OutcomeEmpty, Some (PayoutStore e)), [], s')
                       | (Inr _, s') \<Rightarrow> ((OutcomeAwaitingWindow, None), [], s'))
                 else if oc_Status occ = StatusOpen then trySubmit w f Send s i
                 else ((OutcomeEmpty, Some (UnexpectedStatus (oc_Status occ))), [], s)))"

fun passEach ::
  "PayoutWorker \<Rightarrow> (bytes32 \<Rightarrow> WriteFault) \<Rightarrow> reader \<Rightarrow> writer \<Rightarrow> Store \<Rightarrow> bytes32 list
    \<Rightarrow> (bytes32 \<times> (payout_error + PayoutOutcome)) list \<times> ChainCall list \<times> Store" where
  "passEach w f ReadChannel Send s [] = ([], [], s)"
| "passEach w f ReadChannel Send s (i # rest) =
     (case Settle w (f i) ReadChannel Send s i of
        ((outcome, err), calls, s1) \<Rightarrow>
          (case passEach w f ReadChannel Send s1 rest of
             (out, calls', s2) \<Rightarrow>
               ((i, case err of Some e \<Rightarrow> Inl e | None \<Rightarrow> Inr outcome) # out, calls @ calls', s2)))"

definition Pass ::
  "PayoutWorker \<Rightarrow> (bytes32 \<Rightarrow> WriteFault) \<Rightarrow> reader \<Rightarrow> writer \<Rightarrow> Store
    \<Rightarrow> (bytes32 \<times> (payout_error + PayoutOutcome)) list \<times> ChainCall list \<times> Store" where
  \<comment> \<open>one entry per channel, in the order of \<^verbatim>\<open>Store.IDs\<close>\<close>
  "Pass w f ReadChannel Send s = passEach w f ReadChannel Send s (StoreIDs s)"

subsection \<open>Locks\<close>

fun resolveFrom ::
  "crypto \<Rightarrow> PayoutWorker \<Rightarrow> writer \<Rightarrow> bytes32 \<Rightarrow> HTLC list \<Rightarrow> (bytes32 \<rightharpoonup> bytes32) \<Rightarrow> nat \<Rightarrow> HTLC list
    \<Rightarrow> (nat \<times> nat) \<times> string option \<times> ChainCall list" where
  \<comment> \<open>the loop of \<^verbatim>\<open>ResolveLocks\<close> from index \<open>k\<close> on; the counts are of the rest of the list\<close>
  "resolveFrom cr w Send i locks preimages k [] = ((0, 0), None, [])"
| "resolveFrom cr w Send i locks preimages k (lock # rest) =
     (let claim = (case preimages (h_Hash lock) of
                     Some secret \<Rightarrow> if HTLC_Matches cr lock secret \<and> h_Expiry lock > pw_now w then Some secret else None
                   | None \<Rightarrow> None) in
      case claim of
        Some secret \<Rightarrow>
          (let call = ClaimLockTx (pw_contract w) i locks k secret in
           case Send call of
             Inl text \<Rightarrow> ((0, 0), Some text, [call])
           | Inr _ \<Rightarrow>
               (case resolveFrom cr w Send i locks preimages (Suc k) rest of
                  ((c, r), err, calls) \<Rightarrow> ((Suc c, r), err, call # calls)))
      | None \<Rightarrow>
          if h_Expiry lock \<le> pw_now w
          then (let call = ExpireLockTx (pw_contract w) i locks k in
                case Send call of
                  Inl text \<Rightarrow> ((0, 0), Some text, [call])
                | Inr _ \<Rightarrow>
                    (case resolveFrom cr w Send i locks preimages (Suc k) rest of
                       ((c, r), err, calls) \<Rightarrow> ((c, Suc r), err, call # calls)))
          else resolveFrom cr w Send i locks preimages (Suc k) rest)"

definition ResolveLocks ::
  "crypto \<Rightarrow> PayoutWorker \<Rightarrow> writer \<Rightarrow> Store \<Rightarrow> bytes32 \<Rightarrow> (bytes32 \<rightharpoonup> bytes32)
    \<Rightarrow> chan_error + (nat \<times> nat) \<times> string option \<times> ChainCall list" where
  "ResolveLocks cr w Send s i preimages =
     (case StoreGet s i of
        None \<Rightarrow> Inl ErrNoSuchChannel
      | Some ch \<Rightarrow>
          let locks = st_Pending (latestState ch) in Inr (resolveFrom cr w Send i locks preimages 0 locks))"

subsection \<open>Reporting\<close>

record PayoutStatus =
  pu_ChannelID :: string
  pu_Mode :: PayoutMode
  pu_Phase :: PayoutPhase
  pu_TxHash :: string
  pu_Nonce :: u64
  pu_DueAt :: int
  pu_Attempts :: int
  pu_LastError :: string
  pu_Locked :: string

definition PayoutStatusOf :: "Store \<Rightarrow> bytes32 \<Rightarrow> chan_error + PayoutStatus" where
  "PayoutStatusOf s i =
     (case StoreGet s i of
        None \<Rightarrow> Inl ErrNoSuchChannel
      | Some ch \<Rightarrow>
          let out = \<lparr> pu_ChannelID = hexEncode (ch_ID ch), pu_Mode = PayoutOnClose, pu_Phase = PhaseNone,
                pu_TxHash = [], pu_Nonce = 0, pu_DueAt = 0, pu_Attempts = 0, pu_LastError = [],
                pu_Locked = decString (Some (lockedTotal (latestState ch))) \<rparr>
          in Inr (case ch_Payout ch of
                    None \<Rightarrow> out
                  | Some r \<Rightarrow> out\<lparr>pu_Mode := py_Mode (po_Policy r), pu_Phase := po_Phase r, pu_TxHash := po_TxHash r,
                      pu_Nonce := po_Nonce r, pu_DueAt := po_DueAt r, pu_Attempts := po_Attempts r,
                      pu_LastError := po_LastError r\<rparr>))"

end
