(* ===== verification/Payout_Props.thy ===== *)
theory Payout_Props
  imports Payout Store_Props Coordinator_Props
begin

text \<open>
  What the payout worker guarantees: a transaction leaves only after a chain read that calls for it, a
  channel is confirmed only by the chain, one channel's trouble is not another's, and a lock is claimed or
  expired only when the chain would honour it.
\<close>

subsection \<open>Writing the payout record\<close>

definition payoutOr :: "Channel \<Rightarrow> PayoutRecord" where
  "payoutOr ch = (case ch_Payout ch of None \<Rightarrow> freshPayout DefaultPayoutPolicy | Some r \<Rightarrow> r)"

lemma onPayout_eq: "onPayout fn c = Inr (c\<lparr>ch_Payout := Some (fn (payoutOr c))\<rparr>)"
  by (simp add: onPayout_def payoutOr_def)

lemma mark_cases:
  assumes "mark f s i fn = (r, s')" "StoreGet s i = Some ch"
  obtains (ok) "r = Inr ()" "f = WriteOK" "StoreGet s' i = Some (ch\<lparr>ch_Payout := Some (fn (payoutOr ch))\<rparr>)"
  | (bad) e where "r = Inl e" "f \<noteq> WriteOK" "StoreGet s' i = Some ch"
proof -
  obtain c where c: "lookupCh s i = Some c" "ch = c\<lparr>ch_NeedsReconcile := i \<in> sto_unreconciled s\<rparr>"
    using assms(2) by (auto simp: StoreGet_def)
  then have st: "commitCh f s i (c\<lparr>ch_Payout := Some (fn (payoutOr c))\<rparr>) = (r, s')"
    using assms(1) by (simp add: mark_def StoreUpdate_def onPayout_eq)
  have p: "payoutOr ch = payoutOr c"
    by (simp add: c(2) payoutOr_def)
  show thesis
  proof (cases f)
    case WriteOK
    then have "r = Inr ()" "lookupCh s' = (lookupCh s)(i \<mapsto> c\<lparr>ch_Payout := Some (fn (payoutOr c))\<rparr>)"
      "sto_unreconciled s' = sto_unreconciled s"
      using lookup_commitCh [OF st] st by (auto simp: commitCh_def persist_def Let_def)
    with WriteOK p show thesis
      by (intro ok) (simp_all add: StoreGet_def c(2))
  qed (use st c in \<open>auto simp: commitCh_def persist_def Let_def StoreGet_def lookupCh_def intro: bad\<close>)
qed

lemma mark_other: "mark f s i fn = (r, s') \<Longrightarrow> j \<noteq> i \<Longrightarrow> StoreGet s' j = StoreGet s j"
  unfolding mark_def
  by (cases r) (auto dest: sto.snapshot_failed elim: sto.snapshot_done [where j = j])

lemma mark_unchanged_or:
  assumes "mark f s i fn = (r, s')"
  shows "StoreGet s' j = StoreGet s j \<or>
    j = i \<and> (\<exists>ch. StoreGet s i = Some ch \<and> StoreGet s' i = Some (ch\<lparr>ch_Payout := Some (fn (payoutOr ch))\<rparr>))"
proof (cases "j = i \<and> StoreGet s i \<noteq> None")
  case True
  then obtain ch where "StoreGet s i = Some ch" by auto
  with True show ?thesis by (cases rule: mark_cases [OF assms]) auto
next
  case False
  then show ?thesis
    using assms mark_other [OF assms]
    by (cases "j = i") (auto simp: mark_def StoreUpdate_def StoreGet_def)
qed

subsection \<open>One submission\<close>

lemma afterSubmit_cases:
  assumes "afterSubmit w f s i ch sent = ((out, err), s')"
  obtains (failed) msg where "sent = Inl msg" "out = OutcomeFailed" "s' = snd (mark f s i (markFailed w msg))"
  | (sent) tx where "sent = Inr tx" "out = OutcomeSubmitted" "s' = snd (mark f s i (markSubmitted w ch tx))"
  using assms by (cases sent) (auto simp: afterSubmit_def split: prod.splits sum.splits)

definition toSubmit :: "PayoutWorker \<Rightarrow> Channel \<Rightarrow> ChainCall \<Rightarrow> bool" where
  \<comment> \<open>the transaction the channel's state calls for\<close>
  "toSubmit w ch call \<longleftrightarrow> due w ch \<and> Complete (ch_Latest ch) \<and>
     (if hasWithdrawal (latestState ch)
      then intervalMode ch \<and> call = CheckpointTx (pw_contract w) ch
      else st_Pending (latestState ch) = [] \<and> call = CloseCooperativeTx (pw_contract w) ch)"

lemma trySubmit_call:
  assumes "StoreGet s i = Some ch" "toSubmit w ch call"
  shows "trySubmit w f Send s i = submitCall w f Send s i ch call"
  using assms by (auto simp: trySubmit_def toSubmit_def Let_def split: if_splits)

lemma trySubmit_quiet:
  assumes "StoreGet s i = Some ch" "\<nexists>call. toSubmit w ch call"
  shows "\<exists>out err. trySubmit w f Send s i = ((out, err), [], s) \<and>
    out \<in> {OutcomeNotDue, OutcomeNothingToDo, OutcomeLocksPending, OutcomeFailed}"
  using assms by (auto simp: trySubmit_def toSubmit_def Let_def split: if_splits)

text \<open>The seven ways a call of \<open>Settle\<close> goes.\<close>

lemma Settle_cases:
  assumes "Settle w f R Send s i = ((out, err), calls, s')"
  obtains (quiet) "calls = []" "s' = s" "out \<notin> {OutcomeSubmitted, OutcomeConfirmed, OutcomeAlreadyOnChain}"
  | (marked) ch occ fn r where "StoreGet s i = Some ch" "ch_Conflict ch = None" "R (pw_contract w) i = Inr occ"
      "calls = []" "mark f s i fn = (r, s')" "out \<noteq> OutcomeSubmitted"
      "oc_Status occ = StatusSettled \<and> fn = markConfirmed w \<or>
       oc_Status occ = StatusClosing \<and> fn = (\<lambda>r. r\<lparr>po_Phase := PhaseSubmitted\<rparr>) \<and>
         out \<notin> {OutcomeConfirmed, OutcomeAlreadyOnChain}"
  | (sent) ch occ call where "StoreGet s i = Some ch" "ch_Conflict ch = None" "R (pw_contract w) i = Inr occ"
      "oc_Status occ = StatusOpen" "toSubmit w ch call" "calls = [call]"
      "afterSubmit w f s i ch (Send call) = ((out, err), s')"
proof (cases "StoreGet s i")
  case None
  with assms show thesis by (intro quiet) (auto simp: Settle_def)
next
  case (Some ch)
  note get = this
  show thesis
  proof (cases "ch_Conflict ch = None")
    case False
    with assms get show thesis by (intro quiet) (auto simp: Settle_def)
  next
    case True
    note live = this
    show thesis
    proof (cases "R (pw_contract w) i")
      case (Inl e)
      with assms get live show thesis by (intro quiet) (auto simp: Settle_def)
    next
      case (Inr occ)
      note read = this
      consider (s) "oc_Status occ = StatusSettled" | (c) "oc_Status occ = StatusClosing" | (o) "oc_Status occ = StatusOpen"
        | (x) "oc_Status occ \<notin> {StatusSettled, StatusClosing, StatusOpen}" by blast
      then show thesis
      proof cases
        case s
        obtain r s1 where m: "mark f s i (markConfirmed w) = (r, s1)" by fastforce
        with assms get live read s show thesis
          by (intro marked [OF get live read, where r = r and fn = "markConfirmed w"])
            (auto simp: Settle_def split: sum.splits if_splits)
      next
        case c
        obtain r s1 where m: "mark f s i (\<lambda>r. r\<lparr>po_Phase := PhaseSubmitted\<rparr>) = (r, s1)" by fastforce
        with assms get live read c show thesis
          by (intro marked [OF get live read, where r = r and fn = "\<lambda>r. r\<lparr>po_Phase := PhaseSubmitted\<rparr>"])
            (auto simp: Settle_def Status_defs split: sum.splits)
      next
        case o
        then have st: "trySubmit w f Send s i = ((out, err), calls, s')"
          using assms get live read by (simp add: Settle_def Status_defs)
        show thesis
        proof (cases "\<exists>call. toSubmit w ch call")
          case True
          then obtain call where call: "toSubmit w ch call" ..
          with st trySubmit_call [OF get call] show thesis
            by (intro sent [OF get live read o call]) (auto simp: submitCall_def split: prod.splits)
        next
          case False
          with st trySubmit_quiet [OF get, of w f Send] show thesis by (intro quiet) auto
        qed
      next
        case x
        with assms get live read show thesis by (intro quiet) (auto simp: Settle_def)
      qed
    qed
  qed
qed

lemma Settle_other:
  assumes "Settle w f R Send s i = ((out, err), calls, s')" "j \<noteq> i"
  shows "StoreGet s' j = StoreGet s j"
  using assms(1)
proof (cases rule: Settle_cases)
  case (sent ch occ call)
  from sent(7) show ?thesis
    by (cases rule: afterSubmit_cases) (auto intro: mark_other [OF surjective_pairing assms(2)])
qed (auto dest: mark_other [OF _ assms(2)])

text \<open>What \<open>Settle\<close> answers depends on the snapshot of its own channel only.\<close>

lemma mark_fst_local: "StoreGet s1 i = StoreGet s i \<Longrightarrow> fst (mark f s1 i fn) = fst (mark f s i fn)"
  by (cases "StoreGet s i"; cases f) (auto simp: mark_def StoreUpdate_def StoreGet_def onPayout_def commitCh_def persist_def Let_def)

lemma afterSubmit_fst_local:
  "StoreGet s1 i = StoreGet s i \<Longrightarrow> fst (afterSubmit w f s1 i ch sent) = fst (afterSubmit w f s i ch sent)"
  using mark_fst_local [of s1 i s f]
  by (cases sent) (auto simp: afterSubmit_def split: prod.splits sum.splits, (metis fst_conv sum.distinct sum.inject)+)

lemma Settle_local:
  assumes "StoreGet s1 i = StoreGet s i"
  shows "fst (Settle w f R Send s1 i) = fst (Settle w f R Send s i) \<and>
    fst (snd (Settle w f R Send s1 i)) = fst (snd (Settle w f R Send s i))"
proof -
  have m: "fst (mark f s1 i fn) = fst (mark f s i fn)" for fn
    by (rule mark_fst_local [OF assms])
  have a: "fst (afterSubmit w f s1 i ch sent) = fst (afterSubmit w f s i ch sent)" for ch sent
    by (rule afterSubmit_fst_local [OF assms])
  have marked: "\<exists>r x y. mark f s1 i fn = (r, x) \<and> mark f s i fn = (r, y)" for fn
    using m [of fn] by (cases "mark f s1 i fn"; cases "mark f s i fn") auto
  have sub: "fst (submitCall w f Send s1 i ch call) = fst (submitCall w f Send s i ch call) \<and>
      fst (snd (submitCall w f Send s1 i ch call)) = fst (snd (submitCall w f Send s i ch call))" for ch call
    using a [of ch "Send call"] by (auto simp: submitCall_def split: prod.splits)
  have try': "fst (trySubmit w f Send s1 i) = fst (trySubmit w f Send s i) \<and>
      fst (snd (trySubmit w f Send s1 i)) = fst (snd (trySubmit w f Send s i))"
    using sub by (cases "StoreGet s i") (simp_all add: trySubmit_def assms Let_def)
  obtain ra xa ya where A: "mark f s1 i (markConfirmed w) = (ra, xa)" "mark f s i (markConfirmed w) = (ra, ya)"
    using marked by blast
  obtain rb xb yb where B: "mark f s1 i (\<lambda>r. r\<lparr>po_Phase := PhaseSubmitted\<rparr>) = (rb, xb)"
      "mark f s i (\<lambda>r. r\<lparr>po_Phase := PhaseSubmitted\<rparr>) = (rb, yb)"
    using marked by blast
  show ?thesis
    unfolding Settle_def assms using try'
    by (cases "StoreGet s i"; cases "R (pw_contract w) i"; cases ra; cases rb) (simp_all add: A B)
qed

subsection \<open>What one call may do\<close>

lemma Settle_calls:
  assumes "Settle w f ReadChannel Send s i = ((out, err), calls, s')"
  shows "calls = [] \<or> (\<exists>ch occ call. calls = [call] \<and> StoreGet s i = Some ch \<and> ch_Conflict ch = None \<and>
    ReadChannel (pw_contract w) i = Inr occ \<and> oc_Status occ = StatusOpen \<and> toSubmit w ch call)"
  using assms by (cases rule: Settle_cases) auto

lemma Settle_submitted:
  assumes "Settle w f ReadChannel Send s i = ((OutcomeSubmitted, err), calls, s')"
  shows "\<exists>call tx. calls = [call] \<and> Send call = Inr tx"
  using assms
proof (cases rule: Settle_cases)
  case (sent ch occ call)
  from sent(7) sent(6) show ?thesis by (cases rule: afterSubmit_cases) auto
qed auto

lemma Settle_confirmed:
  assumes "Settle w f ReadChannel Send s i = ((out, err), calls, s')" "out \<in> {OutcomeConfirmed, OutcomeAlreadyOnChain}"
  shows "\<exists>occ. ReadChannel (pw_contract w) i = Inr occ \<and> oc_Status occ = StatusSettled"
  using assms(1)
proof (cases rule: Settle_cases)
  case (sent ch occ call)
  from sent(7) assms(2) show ?thesis by (cases rule: afterSubmit_cases) auto
qed (use assms(2) in auto)

lemma Settle_phase:
  assumes "Settle w f ReadChannel Send s i = ((out, err), calls, s')"
    and "StoreGet s' j = Some ch'" "confirmedAlready ch'"
  shows "(\<exists>ch. StoreGet s j = Some ch \<and> confirmedAlready ch) \<or>
    j = i \<and> (\<exists>occ. ReadChannel (pw_contract w) i = Inr occ \<and> oc_Status occ = StatusSettled)"
proof -
  have phases: "po_Phase (markFailed w msg r) \<noteq> PhaseConfirmed" "po_Phase (markSubmitted w ch tx r) \<noteq> PhaseConfirmed"
    for msg r ch tx
    by (simp_all add: markFailed_def markSubmitted_def)
  from assms(1) show ?thesis
  proof (cases rule: Settle_cases)
    case (marked ch occ fn r)
    from mark_unchanged_or [OF marked(5), of j] marked(3,7) assms(2,3) show ?thesis
      by (auto simp: confirmedAlready_def)
  next
    case (sent ch occ call)
    from sent(7) show ?thesis
    proof (cases rule: afterSubmit_cases)
      case (failed msg)
      from mark_unchanged_or [OF surjective_pairing, of f s i "markFailed w msg" j] failed(3) assms(2,3) phases
      show ?thesis by (auto simp: confirmedAlready_def)
    next
      case (sent tx)
      from mark_unchanged_or [OF surjective_pairing, of f s i "markSubmitted w ch tx" j] sent(3) assms(2,3) phases
      show ?thesis by (auto simp: confirmedAlready_def)
    qed
  qed (use assms(2,3) in auto)
qed

subsection \<open>A whole pass\<close>

definition answerOf :: "settle_result \<Rightarrow> payout_error + PayoutOutcome" where
  "answerOf r = (case snd (fst r) of Some e \<Rightarrow> Inl e | None \<Rightarrow> Inr (fst (fst r)))"

abbreviation callsOf :: "settle_result \<Rightarrow> ChainCall list" where
  "callsOf r \<equiv> fst (snd r)"

lemma answerOf_simp: "answerOf ((out, err), rest) = (case err of Some e \<Rightarrow> Inl e | None \<Rightarrow> Inr out)"
  by (cases err) (simp_all add: answerOf_def)

lemma passEach_local:
  assumes "distinct ids" "\<forall>j \<in> set ids. StoreGet s1 j = StoreGet s j"
  shows "fst (passEach w f R Send s1 ids) = map (\<lambda>i. (i, answerOf (Settle w (f i) R Send s i))) ids \<and>
    fst (snd (passEach w f R Send s1 ids)) = concat (map (\<lambda>i. callsOf (Settle w (f i) R Send s i)) ids)"
  using assms
proof (induction ids arbitrary: s1)
  case (Cons i rest)
  obtain out err calls s2 where one: "Settle w (f i) R Send s1 i = ((out, err), calls, s2)"
    by (metis prod.exhaust)
  have here: "answerOf (Settle w (f i) R Send s i) = (case err of Some e \<Rightarrow> Inl e | None \<Rightarrow> Inr out)"
    "callsOf (Settle w (f i) R Send s i) = calls"
  proof -
    have "fst (Settle w (f i) R Send s i) = (out, err)" "callsOf (Settle w (f i) R Send s i) = calls"
      using Settle_local [of s1 i s w "f i" R Send] Cons.prems(2) by (simp_all add: one)
    then show "answerOf (Settle w (f i) R Send s i) = (case err of Some e \<Rightarrow> Inl e | None \<Rightarrow> Inr out)"
      "callsOf (Settle w (f i) R Send s i) = calls"
      by (simp_all add: answerOf_def split: option.split)
  qed
  have "\<forall>j \<in> set rest. StoreGet s2 j = StoreGet s j"
    using Cons.prems Settle_other [OF one] by (metis distinct.simps(2) list.set_intros(2))
  with Cons.IH [of s2] Cons.prems(1) here show ?case
    by (cases "passEach w f R Send s2 rest") (simp add: one)
qed simp

lemma set_StoreIDs: "set (StoreIDs s) = fst ` set (sto_channels s)"
  by (simp add: StoreIDs_def)

lemma distinct_StoreIDs: "distinct (map fst (sto_channels s)) \<Longrightarrow> distinct (StoreIDs s)"
  by (simp add: StoreIDs_def)

subsection \<open>Which locks are worth a transaction\<close>

definition lockCall ::
  "crypto \<Rightarrow> PayoutWorker \<Rightarrow> bytes32 \<Rightarrow> HTLC list \<Rightarrow> (bytes32 \<rightharpoonup> bytes32) \<Rightarrow> nat \<Rightarrow> ChainCall option" where
  \<comment> \<open>claim a live lock whose secret is known, expire a lock past its expiry, leave every other one\<close>
  "lockCall cr w i locks preimages k =
     (if h_Expiry (locks ! k) \<le> pw_now w then Some (ExpireLockTx (pw_contract w) i locks k)
      else case preimages (h_Hash (locks ! k)) of
             Some secret \<Rightarrow>
               if HTLC_Matches cr (locks ! k) secret then Some (ClaimLockTx (pw_contract w) i locks k secret) else None
           | None \<Rightarrow> None)"

definition lockPlan :: "crypto \<Rightarrow> PayoutWorker \<Rightarrow> bytes32 \<Rightarrow> HTLC list \<Rightarrow> (bytes32 \<rightharpoonup> bytes32) \<Rightarrow> nat list \<Rightarrow> ChainCall list" where
  "lockPlan cr w i locks preimages ks = List.map_filter (lockCall cr w i locks preimages) ks"

lemma lockPlan_simps [simp]:
  "lockPlan cr w i locks pre [] = []"
  "lockPlan cr w i locks pre (k # ks) = (case lockCall cr w i locks pre k of None \<Rightarrow> lockPlan cr w i locks pre ks
     | Some call \<Rightarrow> call # lockPlan cr w i locks pre ks)"
  by (cases "lockCall cr w i locks pre k"; simp add: lockPlan_def map_filter_simps)+

definition isClaim :: "ChainCall \<Rightarrow> bool" where
  "isClaim call = (case call of ClaimLockTx _ _ _ _ _ \<Rightarrow> True | _ \<Rightarrow> False)"

definition follows :: "writer \<Rightarrow> ChainCall list \<Rightarrow> (nat \<times> nat) \<times> string option \<times> ChainCall list \<Rightarrow> bool" where
  \<comment> \<open>the plan carried out in order up to the first failure, with the right counts\<close>
  "follows Send plan r = (case r of ((c, e), err, calls) \<Rightarrow>
     let sent = take (c + e) plan in
     c = length (filter isClaim sent) \<and> c + e \<le> length plan \<and> list_all (\<lambda>call. \<not> isl (Send call)) sent \<and>
     (case err of
        None \<Rightarrow> calls = plan \<and> c + e = length plan
      | Some msg \<Rightarrow> c + e < length plan \<and> calls = sent @ [plan ! (c + e)] \<and> Send (plan ! (c + e)) = Inl msg))"

lemma follows_step:
  assumes "follows Send plan ((c, e), err, calls)" "Send call = Inr tx"
  shows "follows Send (call # plan)
    ((if isClaim call then Suc c else c, if isClaim call then e else Suc e), err, call # calls)"
  using assms by (auto simp: follows_def Let_def split: option.splits)

lemma resolveFrom_follows:
  assumes "locks = prev @ rest" "k = length prev"
  shows "follows Send (lockPlan cr w i locks pre [k..<length locks]) (resolveFrom cr w Send i locks pre k rest)"
  using assms
proof (induction rest arbitrary: prev k)
  case Nil
  then show ?case by (simp add: follows_def)
next
  case (Cons lock rest)
  have k: "k < length locks" "locks ! k = lock"
    using Cons.prems by simp_all
  note k = k upt_conv_Cons [OF k(1)]
  obtain c e err calls where rec: "resolveFrom cr w Send i locks pre (Suc k) rest = ((c, e), err, calls)"
    by (metis prod.exhaust)
  with Cons.IH [of "prev @ [lock]" "Suc k"] Cons.prems
  have ih: "follows Send (lockPlan cr w i locks pre [Suc k..<length locks]) ((c, e), err, calls)"
    by simp
  consider (expire) "h_Expiry lock \<le> pw_now w"
    | (claim) secret where "\<not> h_Expiry lock \<le> pw_now w" "pre (h_Hash lock) = Some secret" "HTLC_Matches cr lock secret"
    | (leave) "\<not> h_Expiry lock \<le> pw_now w" "\<And>secret. pre (h_Hash lock) = Some secret \<Longrightarrow> \<not> HTLC_Matches cr lock secret"
    by blast
  then show ?case
  proof cases
    case expire
    let ?call = "ExpireLockTx (pw_contract w) i locks k"
    from expire have plan: "lockCall cr w i locks pre k = Some ?call"
      by (simp add: lockCall_def k)
    show ?thesis
    proof (cases "Send ?call")
      case (Inl msg)
      with expire plan k show ?thesis
        by (cases "pre (h_Hash lock)") (auto simp: follows_def Let_def)
    next
      case (Inr tx)
      with follows_step [OF ih, of ?call tx] expire plan k rec show ?thesis
        by (cases "pre (h_Hash lock)") (simp_all add: Let_def isClaim_def)
    qed
  next
    case (claim secret)
    let ?call = "ClaimLockTx (pw_contract w) i locks k secret"
    from claim have plan: "lockCall cr w i locks pre k = Some ?call"
      by (simp add: lockCall_def k)
    show ?thesis
    proof (cases "Send ?call")
      case (Inl msg)
      with claim plan k show ?thesis
        by (simp add: follows_def Let_def)
    next
      case (Inr tx)
      with follows_step [OF ih, of ?call tx] claim plan k rec show ?thesis
        by (simp add: Let_def isClaim_def)
    qed
  next
    case leave
    then have "lockCall cr w i locks pre k = None"
      by (auto simp: lockCall_def k split: option.splits)
    with leave ih rec k show ?thesis
      by (cases "pre (h_Hash lock)") (simp_all add: Let_def)
  qed
qed

subsection \<open>Properties\<close>

text \<open>
  The chain decides. A settlement attempt broadcasts at most one transaction, and only when a chain
  read made in that very call reports the channel open, no conflict is recorded, the payout is due and both
  parties signed the latest state: a checkpoint for a state that withdraws under an interval policy, a
  cooperative close for a state with no withdrawal and no lock. "Submitted" is reported only for a broadcast
  that returned a hash, "confirmed" only when the chain reports the channel settled, and no record reaches
  the confirmed phase any other way.
\<close>

theorem Settle_asks_chain:
  assumes "Settle w f ReadChannel Send s i = ((out, err), calls, s')"
  shows "(calls = [] \<or> (\<exists>ch occ call. calls = [call] \<and> StoreGet s i = Some ch \<and> ch_Conflict ch = None \<and>
      ReadChannel (pw_contract w) i = Inr occ \<and> oc_Status occ = StatusOpen \<and> due w ch \<and> Complete (ch_Latest ch) \<and>
      (if hasWithdrawal (latestState ch) then intervalMode ch \<and> call = CheckpointTx (pw_contract w) ch
       else st_Pending (latestState ch) = [] \<and> call = CloseCooperativeTx (pw_contract w) ch))) \<and>
    (out = OutcomeSubmitted \<longrightarrow> (\<exists>call tx. calls = [call] \<and> Send call = Inr tx)) \<and>
    (out \<in> {OutcomeConfirmed, OutcomeAlreadyOnChain} \<longrightarrow>
      (\<exists>occ. ReadChannel (pw_contract w) i = Inr occ \<and> oc_Status occ = StatusSettled)) \<and>
    (\<forall>j ch'. StoreGet s' j = Some ch' \<longrightarrow> confirmedAlready ch' \<longrightarrow>
      (\<exists>ch. StoreGet s j = Some ch \<and> confirmedAlready ch) \<or>
      j = i \<and> (\<exists>occ. ReadChannel (pw_contract w) i = Inr occ \<and> oc_Status occ = StatusSettled))"
  using Settle_calls [OF assms] Settle_submitted [of w f ReadChannel Send s i err calls s'] Settle_confirmed [OF assms]
    Settle_phase [OF assms] assms
  by (auto simp: toSubmit_def)

definition demoPayoutStore :: Store where
  \<comment> \<open>the tracked demo channel with a signed opening state and a close requested\<close>
  "demoPayoutStore = demoTracked\<lparr>sto_channels := [(demoKey,
     (trackedChannel (Some 1) demoB demoOcc)\<lparr>ch_Latest := demoSigned demoOpening,
       ch_Payout := Some ((freshPayout DefaultPayoutPolicy)\<lparr>po_DueAt := 1\<rparr>)\<rparr>)]\<rparr>"

definition demoWorker :: PayoutWorker where
  "demoWorker = \<lparr> pw_contract = demoB, pw_now = 500 \<rparr>"

theorem Settle_asks_chain_witness:
  "\<exists>err calls s' ch. Settle demoWorker WriteOK (\<lambda>_ _. Inr demoOcc) (\<lambda>_. Inr ''0xab'') demoPayoutStore demoKey
      = ((OutcomeSubmitted, err), calls, s') \<and> calls = [CloseCooperativeTx demoB ch] \<and>
    StoreGet demoPayoutStore demoKey = Some ch"
proof -
  obtain ch where ch: "StoreGet demoPayoutStore demoKey = Some ch" "ch_Conflict ch = None" "latestState ch = demoOpening"
      "ch_Latest ch = demoSigned demoOpening"
      "ch_Payout ch = Some ((freshPayout DefaultPayoutPolicy)\<lparr>po_DueAt := 1\<rparr>)"
    by (simp add: demoPayoutStore_def StoreGet_def lookupCh_def trackedChannel_def)
  have call: "toSubmit demoWorker ch (CloseCooperativeTx demoB ch)"
    by (simp add: toSubmit_def due_def ch demoWorker_def freshPayout_def hasWithdrawal_def demoOpening_def emptyState_def)
  obtain r s1 where m: "mark WriteOK demoPayoutStore demoKey (markSubmitted demoWorker ch ''0xab'') = (r, s1)"
    by fastforce
  obtain err s' where run: "Settle demoWorker WriteOK (\<lambda>_ _. Inr demoOcc) (\<lambda>_. Inr ''0xab'') demoPayoutStore demoKey
      = ((OutcomeSubmitted, err), [CloseCooperativeTx demoB ch], s')"
    using trySubmit_call [OF ch(1) call]
    by (cases r) (auto simp: Settle_def ch demoOcc_def Status_defs submitCall_def afterSubmit_def m)
  from Settle_asks_chain [OF run] obtain ch' where "[CloseCooperativeTx demoB ch] = [CheckpointTx demoB ch'] \<or>
      StoreGet demoPayoutStore demoKey = Some ch' \<and> [CloseCooperativeTx demoB ch] = [CloseCooperativeTx demoB ch']"
    by (auto simp: demoWorker_def split: if_splits)
  with run show ?thesis by auto
qed

text \<open>
  One channel's trouble is its own. Whatever fails for a channel in a pass - its chain read, its
  broadcast, its record write - every other channel gets the answer and the transactions it would have
  got had the pass run for it alone on the store the pass began with.
\<close>

theorem Pass_isolates:
  assumes "distinct (map fst (sto_channels s))"
  shows "fst (Pass w f ReadChannel Send s) =
      map (\<lambda>i. (i, answerOf (Settle w (f i) ReadChannel Send s i))) (StoreIDs s) \<and>
    fst (snd (Pass w f ReadChannel Send s)) = concat (map (\<lambda>i. callsOf (Settle w (f i) ReadChannel Send s i)) (StoreIDs s))"
  unfolding Pass_def by (rule passEach_local) (simp_all add: distinct_StoreIDs assms)

theorem Pass_isolates_witness:
  "fst (Pass demoWorker (\<lambda>_. FailBeforeRename) (\<lambda>_ _. Inl ErrIO) (\<lambda>_. Inr []) demoPayoutStore)
     = [(demoKey, Inl (PayoutRead ErrIO))]"
proof -
  have ids: "StoreIDs demoPayoutStore = [demoKey]"
    by (simp add: StoreIDs_def demoPayoutStore_def)
  have d: "distinct (map fst (sto_channels demoPayoutStore))"
    by (simp add: demoPayoutStore_def)
  have "answerOf (Settle demoWorker FailBeforeRename (\<lambda>_ _. Inl ErrIO) (\<lambda>_. Inr []) demoPayoutStore demoKey)
      = Inl (PayoutRead ErrIO)"
    by (simp add: Settle_def demoPayoutStore_def StoreGet_def lookupCh_def trackedChannel_def answerOf_def)
  with Pass_isolates [OF d] ids show ?thesis by simp
qed

text \<open>
  Locks are resolved in order, and only where the chain would honour it. The transactions sent for a
  channel are the plan of its locks - a claim for every live lock whose secret is known, an expiry for
  every lock past its expiry, nothing for the rest, once each and in order - carried out up to the first
  refusal of the writer; the two counts are exactly the claims and the expiries that went through.
\<close>

theorem ResolveLocks_follows_plan:
  "case ResolveLocks cr w Send s i preimages of
     Inl e \<Rightarrow> e = ErrNoSuchChannel \<and> StoreGet s i = None
   | Inr r \<Rightarrow> \<exists>ch. StoreGet s i = Some ch \<and>
       follows Send (lockPlan cr w i (st_Pending (latestState ch)) preimages [0..<length (st_Pending (latestState ch))]) r"
  using resolveFrom_follows [of _ "[]" _ 0]
  by (auto simp: ResolveLocks_def Let_def split: option.split)

text \<open>
  A due time is never moved forward. Once the checkpoint of an interval policy is out, the channel stays
  open on chain and stays due, so the same checkpoint is sent again at the next pass, and at every one
  after it until the parties sign another state.
\<close>

theorem checkpoint_sent_again:
  assumes "Settle w f ReadChannel Send s i = ((out, err), [CheckpointTx contract ch], s')"
    and "ReadAgain (pw_contract w') i = Inr occ'" "oc_Status occ' = StatusOpen"
    and "pw_now w \<le> pw_now w'" "pw_contract w' = pw_contract w"
  shows "\<exists>ch' out' err' s''. Settle w' f' ReadAgain Send' s' i = ((out', err'), [CheckpointTx contract ch'], s'') \<and>
    ch_Latest ch' = ch_Latest ch"
proof -
  from assms(1) obtain occ where get: "StoreGet s i = Some ch" "ch_Conflict ch = None"
    and call: "toSubmit w ch (CheckpointTx (pw_contract w) ch)" "contract = pw_contract w"
    and after: "afterSubmit w f s i ch (Send (CheckpointTx (pw_contract w) ch)) = ((out, err), s')"
    by (cases rule: Settle_cases) (auto simp: toSubmit_def split: if_splits)
  have "\<exists>ch'. StoreGet s' i = Some ch' \<and> ch_Conflict ch' = None \<and> ch_Latest ch' = ch_Latest ch \<and>
      toSubmit w' ch' (CheckpointTx (pw_contract w) ch')"
  proof -
    have keep: "toSubmit w' (ch\<lparr>ch_Payout := Some (fn (payoutOr ch))\<rparr>)
        (CheckpointTx (pw_contract w) (ch\<lparr>ch_Payout := Some (fn (payoutOr ch))\<rparr>))"
      if "po_DueAt (fn (payoutOr ch)) = po_DueAt (payoutOr ch)" "po_Policy (fn (payoutOr ch)) = po_Policy (payoutOr ch)" for fn
      using call(1) that assms(4,5)
      by (auto simp: toSubmit_def due_def intervalMode_def payoutOr_def split: option.splits if_splits)
    have same: "toSubmit w' ch (CheckpointTx (pw_contract w) ch)"
      using call(1) assms(4,5) by (auto simp: toSubmit_def due_def split: option.splits if_splits)
    have step: "\<exists>ch'. StoreGet (snd (mark f s i fn)) i = Some ch' \<and> ch_Conflict ch' = None \<and> ch_Latest ch' = ch_Latest ch \<and>
        toSubmit w' ch' (CheckpointTx (pw_contract w) ch')"
      if "po_DueAt (fn (payoutOr ch)) = po_DueAt (payoutOr ch)" "po_Policy (fn (payoutOr ch)) = po_Policy (payoutOr ch)" for fn
    proof -
      have "toSubmit w' (ch\<lparr>ch_Payout := Some (fn (payoutOr ch))\<rparr>)
          (CheckpointTx (pw_contract w) (ch\<lparr>ch_Payout := Some (fn (payoutOr ch))\<rparr>))"
        by (rule keep) (use that in simp_all)
      then show ?thesis
        using get same by (cases rule: mark_cases [OF surjective_pairing get(1), of f fn]) auto
    qed
    from after show ?thesis
      by (cases rule: afterSubmit_cases) (auto intro!: step simp: markFailed_def markSubmitted_def)
  qed
  then obtain ch' where ch': "StoreGet s' i = Some ch'" "ch_Conflict ch' = None" "ch_Latest ch' = ch_Latest ch"
    "toSubmit w' ch' (CheckpointTx (pw_contract w) ch')" by blast
  then show ?thesis
    using trySubmit_call [OF ch'(1,4), of f' Send'] assms(2,3,5) call(2)
    by (auto simp: Settle_def Status_defs submitCall_def split: prod.splits)
qed

end
