(* ===== verification/Lock_View.thy ===== *)
theory Lock_View
  imports Coordinator_Props
begin

text \<open>
  Conditional payments as an operator sees them, \<^verbatim>\<open>src/internal/channel/locks.go\<close>: the status of each lock
  and the division of a channel's value. The coordinator's clock and its optional preimage vault are
  arguments. The properties tie the two views to the state machine: what is called claimable can be settled
  by \<open>Apply\<close>, and the parts of an exposure add up to the deposits.
\<close>

datatype LockStatus = LockWaiting | LockClaimable | LockLapsed | LockOffered | LockRefundable | LockSettling

record LockView =
  lv_Channel :: bytes32
  lv_ID :: bytes32
  lv_Amount :: string
  lv_Expiry :: int
  lv_Incoming :: bool
  lv_Status :: LockStatus
  lv_ExpiresIn :: int

record Exposure =
  ex_Available :: string
  ex_Incoming :: string
  ex_Outgoing :: string
  ex_Total :: string

definition lockStatus :: "bool \<Rightarrow> bool \<Rightarrow> bool \<Rightarrow> LockStatus" where
  "lockStatus incoming secretKnown expired =
     (if incoming
      then (if expired then LockLapsed else if secretKnown then LockClaimable else LockWaiting)
      else (if secretKnown then LockSettling else if expired then LockRefundable else LockOffered))"

definition lockView :: "address \<Rightarrow> PreimageVault option \<Rightarrow> int \<Rightarrow> bytes32 \<Rightarrow> Channel \<Rightarrow> HTLC \<Rightarrow> LockView" where
  \<comment> \<open>one round of the loop\<close>
  "lockView self vault now i ch lock =
     (let incoming = Party ch (h_PayerIsA lock) \<noteq> self;
          known = (case vault of None \<Rightarrow> False | Some v \<Rightarrow> Lookup v (h_Hash lock) \<noteq> None)
      in \<lparr> lv_Channel = i, lv_ID = h_ID lock, lv_Amount = decString (h_Amount lock), lv_Expiry = h_Expiry lock,
           lv_Incoming = incoming, lv_Status = lockStatus incoming known (h_Expiry lock \<le> now),
           lv_ExpiresIn = i64 (h_Expiry lock - now) \<rparr>)"

definition Locks :: "Coordinator \<Rightarrow> PreimageVault option \<Rightarrow> Store \<Rightarrow> bytes32 \<Rightarrow> chan_error + LockView list" where
  "Locks c vault s i =
     (case StoreGet s i of
        None \<Rightarrow> Inl ErrChannelNotAdopted
      | Some ch \<Rightarrow> Inr (map (lockView (co_self c) vault (co_now c) i ch) (st_Pending (latestState ch))))"

fun addLocks :: "Channel \<Rightarrow> address \<Rightarrow> HTLC list \<Rightarrow> int \<times> int \<Rightarrow> int \<times> int" where
  "addLocks ch self [] acc = acc"
| "addLocks ch self (lock # rest) (incoming, outgoing) =
     addLocks ch self rest
       (if Party ch (h_PayerIsA lock) = self then (incoming, outgoing + orZero (h_Amount lock))
        else (incoming + orZero (h_Amount lock), outgoing))"

definition lockTotals :: "Channel \<Rightarrow> address \<Rightarrow> int \<times> int" where
  "lockTotals ch self = addLocks ch self (st_Pending (latestState ch)) (0, 0)"

definition ExposureOf :: "Coordinator \<Rightarrow> Store \<Rightarrow> bytes32 \<Rightarrow> chan_error + Exposure" where
  "ExposureOf c s i =
     (case StoreGet s i of
        None \<Rightarrow> Inl ErrChannelNotAdopted
      | Some ch \<Rightarrow>
          (case lockTotals ch (co_self c) of
             (incoming, outward) \<Rightarrow>
               let available = BalanceOf ch (co_self c) in
               Inr \<lparr> ex_Available = decString (Some available), ex_Incoming = decString (Some incoming),
                     ex_Outgoing = decString (Some outward), ex_Total = decString (Some (available + incoming)) \<rparr>))"

subsection \<open>Totals\<close>

lemma addLocks_sum:
  "addLocks ch self locks (a, b) = (a', b') \<Longrightarrow> a' + b' = a + b + sum_list (map (\<lambda>h. orZero (h_Amount h)) locks)"
  by (induction locks arbitrary: a b) (auto split: if_splits)

lemma lockTotals_sum: "lockTotals ch self = (a, b) \<Longrightarrow> a + b = lockedTotal (latestState ch)"
  using addLocks_sum [of ch self "st_Pending (latestState ch)" 0 0 a b]
  by (simp add: lockTotals_def lockedTotal_def)

lemma addLocks_swap:
  assumes "ch_PartyA ch \<noteq> ch_PartyB ch"
  shows "addLocks ch (ch_PartyA ch) locks (a, b) = (x, y) \<longleftrightarrow> addLocks ch (ch_PartyB ch) locks (b, a) = (y, x)"
  using assms by (induction locks arbitrary: a b) (auto simp: Party_def)

subsection \<open>From a claimable lock to a settlement\<close>

definition settleWith :: "bytes32 \<Rightarrow> bytes32 \<Rightarrow> StateTransition" where
  \<comment> \<open>the transition that presents a secret\<close>
  "settleWith lockID secret = \<lparr> tr_Kind = KindLockSettle, tr_Amount = None, tr_LockID = lockID, tr_Hash = zero32,
     tr_Expiry = 0, tr_Preimage = secret \<rparr>"

lemma findLock_distinct:
  "distinct (map h_ID hs) \<Longrightarrow> lock \<in> set hs \<Longrightarrow> \<exists>k. findLock hs (h_ID lock) = Some k \<and> k < length hs \<and> hs ! k = lock"
proof (induction hs)
  case (Cons h hs)
  then show ?case
    by (cases "h = lock") (force simp: image_iff)+
qed simp

lemma settle_applies:
  assumes "self \<in> {ch_PartyA ch, ch_PartyB ch}" "ch_PartyA ch \<noteq> ch_PartyB ch"
    and "distinct (map h_ID (st_Pending (latestState ch)))" "lock \<in> set (st_Pending (latestState ch))"
    and "Party ch (h_PayerIsA lock) \<noteq> self" "HTLC_Matches cr lock secret" "\<not> isFirst ch"
  shows "\<exists>nxt. Apply cr (settleWith (h_ID lock) secret) ch self = Inr nxt \<and>
    balance nxt (IsA ch self) = BalanceOf ch self + orZero (h_Amount lock) \<and>
    h_ID lock \<notin> h_ID ` set (st_Pending nxt)"
proof -
  let ?locks = "clonePending (st_Pending (latestState ch))"
  have "map h_ID ?locks = map h_ID (st_Pending (latestState ch))"
    by (simp add: clonePending_def)
  then have d: "distinct (map h_ID ?locks)"
    using assms(3) by simp
  let ?lock = "lock\<lparr>h_Amount := Some (orZero (h_Amount lock))\<rparr>"
  have m: "?lock \<in> set ?locks"
    using assms(4) by (auto simp: clonePending_def)
  obtain k where k: "findLock ?locks (h_ID lock) = Some k" "k < length ?locks" "?locks ! k = ?lock"
    using findLock_distinct [OF d m] by auto
  have "HTLC_Matches cr ?lock secret"
    using assms(6) by (simp add: HTLC_Matches_def)
  then have run: "applyKind cr (settleWith (h_ID lock) secret) (baseState ch) (IsA ch self) =
      Inr ((give (baseState ch) (\<not> h_PayerIsA lock) (orZero (h_Amount lock)))\<lparr>st_Pending := removeAt ?locks k\<rparr>)"
    using k by (simp add: applyKind_def settleWith_def baseState_def Let_def give_def setBalance_def)
  have side: "IsA ch self = (\<not> h_PayerIsA lock)"
    using assms(1,2,5) by (auto simp: IsA_def Party_def split: if_splits)
  have gone: "h_ID lock \<notin> h_ID ` set (removeAt ?locks k)"
  proof -
    have "?locks = take k ?locks @ ?lock # drop (Suc k) ?locks"
      using id_take_nth_drop [OF k(2)] k(3) by simp
    then have "distinct (map h_ID (take k ?locks @ ?lock # drop (Suc k) ?locks))"
      using d by simp
    then show ?thesis
      by (auto simp: removeAt_def)
  qed
  have "self = ch_PartyA ch \<or> self = ch_PartyB ch"
    using assms(1) by simp
  then have "Apply cr (settleWith (h_ID lock) secret) ch self =
      Inr ((give (baseState ch) (\<not> h_PayerIsA lock) (orZero (h_Amount lock)))\<lparr>st_Pending := removeAt ?locks k,
        st_Op := opForKind KindLockSettle\<rparr>)"
    using run by (auto simp: Apply_def settleWith_def)
  with gone side assms(7) show ?thesis
    by (auto simp: give_def balance_def setBalance_def baseState_def BalanceOf_def Let_def)
qed

subsection \<open>Properties\<close>

text \<open>
  Claimable means it. Every lock reported claimable was put up by the other party, has not expired, and
  the vault holds a secret with which the settlement applies: it credits this node with the whole amount and
  removes the lock. (The channel has an agreed state; the vault holds what it learned.)
\<close>

theorem claimable_settles:
  assumes "StoreGet s i = Some ch" "co_self c \<in> {ch_PartyA ch, ch_PartyB ch}" "ch_PartyA ch \<noteq> ch_PartyB ch"
    and "distinct (map h_ID (st_Pending (latestState ch)))" "\<not> isFirst ch" "vaultOK cr v"
    and "Locks c (Some v) s i = Inr views" "view \<in> set views" "lv_Status view = LockClaimable"
  shows "\<exists>lock secret nxt. lock \<in> set (st_Pending (latestState ch)) \<and> h_ID lock = lv_ID view \<and>
    h_Expiry lock > co_now c \<and> Lookup v (h_Hash lock) = Some secret \<and>
    Apply cr (settleWith (h_ID lock) secret) ch (co_self c) = Inr nxt \<and>
    balance nxt (IsA ch (co_self c)) = BalanceOf ch (co_self c) + orZero (h_Amount lock) \<and>
    h_ID lock \<notin> h_ID ` set (st_Pending nxt)"
proof -
  from assms(1,7,8) obtain lock where lock: "lock \<in> set (st_Pending (latestState ch))"
      "view = lockView (co_self c) (Some v) (co_now c) i ch lock"
    by (auto simp: Locks_def)
  with assms(9) obtain secret where st: "Party ch (h_PayerIsA lock) \<noteq> co_self c" "h_Expiry lock > co_now c"
      "Lookup v (h_Hash lock) = Some secret"
    by (auto simp: lockView_def lockStatus_def Let_def split: if_splits)
  then have "HTLC_Matches cr lock secret"
    using assms(6) by (auto simp: vaultOK_def entriesOK_def Lookup_def HTLC_Matches_def keccak32_def dest!: map_of_SomeD)
  from settle_applies [OF assms(2,3,4) lock(1) st(1) this assms(5)] lock st show ?thesis
    by (auto simp: lockView_def Let_def)
qed

definition demoLocked :: State where
  "demoLocked = demoOpening\<lparr>st_Pending := [\<lparr> h_ID = demoID, h_Hash = demoID, h_Amount = Some 30, h_Expiry = 5000,
     h_PayerIsA = True \<rparr>], st_BalanceA := Some 70\<rparr>"

definition demoLockedChannel :: Channel where
  "demoLockedChannel = (trackedChannel (Some 1) demoB demoOcc)\<lparr>ch_Latest := demoSigned demoLocked\<rparr>"

definition demoLockedStore :: Store where
  "demoLockedStore = demoEmpty\<lparr>sto_channels := [(demoKey, demoLockedChannel)]\<rparr>"

theorem claimable_settles_witness:
  "\<exists>nxt secret. Apply demoCrypto (settleWith demoID secret) demoLockedChannel demoB = Inr nxt \<and>
     balance nxt False = 80 \<and> demoID \<notin> h_ID ` set (st_Pending nxt)"
proof -
  let ?v = "\<lparr> pv_known = [(demoID, demoID)], pv_file = Some (encodeVault [(demoID, demoID)]) \<rparr> :: PreimageVault"
  let ?c = "demoCoordinator demoB"
  have len: "length demoID = 32"
    by (simp add: demoID_def)
  have v: "vaultOK demoCrypto ?v"
    unfolding vaultOK_def
    by (auto intro!: exI [of _ "[(demoID, demoID)]"]
        simp: entriesOK_def keccak32_def keccak_def demoCrypto_def len)
  have ch: "StoreGet demoLockedStore demoKey = Some demoLockedChannel"
    by (simp add: StoreGet_def lookupCh_def demoLockedStore_def demoEmpty_def demoLockedChannel_def trackedChannel_def)
  have parties: "ch_PartyA demoLockedChannel = demoA" "ch_PartyB demoLockedChannel = demoB" "demoA \<noteq> demoB"
    by (simp_all add: demoLockedChannel_def trackedChannel_def demoOcc_def demoA_def demoB_def)
  have st: "latestState demoLockedChannel = demoLocked" "\<not> isFirst demoLockedChannel"
    by (simp_all add: demoLockedChannel_def isFirst_def)
  have self: "co_self ?c = demoB" "co_now ?c = 1000"
    by (simp_all add: demoCoordinator_def NewCoordinator_def)
  let ?lock = "hd (st_Pending demoLocked)"
  let ?view = "lockView demoB (Some ?v) 1000 demoKey demoLockedChannel ?lock"
  have views: "Locks ?c (Some ?v) demoLockedStore demoKey = Inr [?view]"
    unfolding Locks_def ch self by (simp add: st demoLocked_def)
  have side: "Party demoLockedChannel (h_PayerIsA ?lock) \<noteq> demoB" "h_Expiry ?lock = 5000" "h_Hash ?lock = demoID"
      "h_ID ?lock = demoID"
    using parties by (simp_all add: demoLocked_def Party_def)
  have claimable: "lv_Status ?view = LockClaimable" "lv_ID ?view = demoID"
    using side by (simp_all add: lockView_def lockStatus_def Let_def Lookup_def)
  have facts: "co_self ?c \<in> {ch_PartyA demoLockedChannel, ch_PartyB demoLockedChannel}"
      "ch_PartyA demoLockedChannel \<noteq> ch_PartyB demoLockedChannel"
      "distinct (map h_ID (st_Pending (latestState demoLockedChannel)))" "?view \<in> set [?view]"
    using parties self by (simp_all add: st demoLocked_def)
  from claimable_settles [OF ch facts(1,2,3) st(2) v views facts(4) claimable(1)]
  obtain lock secret nxt where res: "lock \<in> set (st_Pending demoLocked)"
      "Apply demoCrypto (settleWith (h_ID lock) secret) demoLockedChannel demoB = Inr nxt"
      "balance nxt (IsA demoLockedChannel demoB) = BalanceOf demoLockedChannel demoB + orZero (h_Amount lock)"
      "h_ID lock \<notin> h_ID ` set (st_Pending nxt)"
    unfolding self st(1) by blast
  have "IsA demoLockedChannel demoB = False" "BalanceOf demoLockedChannel demoB = 50"
    using parties(1) parties(3) [symmetric] by (simp_all add: IsA_def BalanceOf_def st demoLocked_def demoOpening_def)
  with res show ?thesis
    by (auto simp: demoLocked_def)
qed

text \<open>
  An exposure divides the whole channel. For a channel whose latest state conserves its deposits, the
  available, incoming and outgoing amounts shown to a party, the other party's balance and what the
  state withdraws add up to the two deposits; what one party is shown as incoming the other is shown as
  outgoing.
\<close>

theorem exposure_divides:
  assumes "StoreGet s i = Some ch" "ch_PartyA ch \<noteq> ch_PartyB ch" "co_self c = ch_PartyA ch" "co_self d = ch_PartyB ch"
    and "Conserved (latestState ch) (ch_DepositA ch) (ch_DepositB ch)"
  shows "\<exists>incoming outgoing.
    ExposureOf c s i = Inr \<lparr> ex_Available = decString (Some (BalanceOf ch (ch_PartyA ch))),
      ex_Incoming = decString (Some incoming), ex_Outgoing = decString (Some outgoing),
      ex_Total = decString (Some (BalanceOf ch (ch_PartyA ch) + incoming)) \<rparr> \<and>
    ExposureOf d s i = Inr \<lparr> ex_Available = decString (Some (BalanceOf ch (ch_PartyB ch))),
      ex_Incoming = decString (Some outgoing), ex_Outgoing = decString (Some incoming),
      ex_Total = decString (Some (BalanceOf ch (ch_PartyB ch) + outgoing)) \<rparr> \<and>
    BalanceOf ch (ch_PartyA ch) + BalanceOf ch (ch_PartyB ch) + incoming + outgoing +
      orZero (st_WithdrawA (latestState ch)) + orZero (st_WithdrawB (latestState ch))
      = orZero (ch_DepositA ch) + orZero (ch_DepositB ch)"
proof -
  obtain a b where ab: "lockTotals ch (ch_PartyA ch) = (a, b)" by fastforce
  then have "lockTotals ch (ch_PartyB ch) = (b, a)"
    using addLocks_swap [OF assms(2)] by (simp add: lockTotals_def)
  moreover have "a + b = lockedTotal (latestState ch)"
    using ab by (rule lockTotals_sum)
  ultimately show ?thesis
    using assms ab
    by (intro exI [of _ a] exI [of _ b]) (auto simp: ExposureOf_def Conserved_def stateTotal_def BalanceOf_def IsA_def Let_def)
qed

text \<open>
  The status of a lock is worked out without the tolerance the settlement rule applies: inside it a lock is
  reported claimable although the settlement is refused as expired.
\<close>

theorem claimable_but_refused:
  assumes "StoreGet s i = Some ch" "lock \<in> set (st_Pending (latestState ch))"
    and "distinct (map h_ID (st_Pending (latestState ch)))"
    and "Party ch (h_PayerIsA lock) \<noteq> co_self c" "Lookup v (h_Hash lock) \<noteq> None"
    and "co_now c < h_Expiry lock" "h_Expiry lock \<le> i64 (ps_now ps + ps_skew ps)"
  shows "\<exists>views view. Locks c (Some v) s i = Inr views \<and> view \<in> set views \<and> lv_ID view = h_ID lock \<and>
    lv_Status view = LockClaimable \<and> checkTiming ps ch (settleWith (h_ID lock) secret) = Some RejectLockExpired"
proof -
  obtain k where k: "findLock (st_Pending (latestState ch)) (h_ID lock) = Some k" "st_Pending (latestState ch) ! k = lock"
    using findLock_distinct [OF assms(3,2)] by blast
  let ?view = "lockView (co_self c) (Some v) (co_now c) i ch lock"
  have "lv_ID ?view = h_ID lock" "lv_Status ?view = LockClaimable"
    using assms(4-6) by (simp_all add: lockView_def Let_def lockStatus_def)
  moreover have "checkTiming ps ch (settleWith (h_ID lock) secret) = Some RejectLockExpired"
    using k assms(7) by (simp add: checkTiming_def settleWith_def)
  moreover have "Locks c (Some v) s i = Inr (map (lockView (co_self c) (Some v) (co_now c) i ch) (st_Pending (latestState ch)))"
    by (simp add: Locks_def assms(1))
  ultimately show ?thesis
    using assms(2) by fastforce
qed

end
