(* ===== verification/Derive.thy ===== *)
theory Derive
  imports Encoding
begin

text \<open>
  The one hashing primitive of the private payment layer, \<open>derive\<close> of \<^verbatim>\<open>src/internal/channel/note.go\<close>, with
  the integer encodings of \<^verbatim>\<open>blinded.go\<close>. HMAC-SHA256 is an argument \<open>mac\<close>: a function of the key and the
  message. The length prefixes make the message a faithful encoding of the list of parts, so that two different
  lists have one digest only where \<open>mac\<close> collides on their two encodings.
\<close>

type_synonym mac = "bytes \<Rightarrow> bytes \<Rightarrow> bytes"

text \<open>The types of \<^verbatim>\<open>adapter.go\<close>.\<close>

type_synonym NodeID = string
type_synonym ChannelID = string
type_synonym Amount = int

definition strBytes :: "string \<Rightarrow> bytes" where
  \<comment> \<open>\<^verbatim>\<open>[]byte(s)\<close>\<close>
  "strBytes s = map (\<lambda>c. of_nat (of_char c)) s"

subsection \<open>Eight bytes\<close>

fun putBytes :: "nat \<Rightarrow> u64 \<Rightarrow> bytes \<Rightarrow> bytes" where
  \<comment> \<open>the loop from the last byte down, the bytes written so far after it\<close>
  "putBytes 0 v out = out"
| "putBytes (Suc i) v out = putBytes i (drop_bit 8 v) (ucast v # out)"

definition uint64Bytes :: "u64 \<Rightarrow> bytes" where
  "uint64Bytes v = putBytes 8 v []"

definition amountBytes :: "Amount \<Rightarrow> bytes" where
  "amountBytes a = uint64Bytes (of_int a)"

lemma length_putBytes [simp]: "length (putBytes i v out) = i + length out"
  by (induction i arbitrary: v out) simp_all

lemma length_uint64Bytes [simp, bytes_len]: "length (uint64Bytes v) = 8"
  by (simp add: uint64Bytes_def)

lemma length_amountBytes [simp, bytes_len]: "length (amountBytes a) = 8"
  by (simp add: amountBytes_def)

lemma bytesNat_Cons: "bytesNat (b # bs) = unat b * 256 ^ length bs + bytesNat bs"
proof (induction bs rule: rev_induct)
  case (snoc x xs)
  then show ?case
    using bytesNat_snoc [of "b # xs" x] by (simp add: algebra_simps)
qed (simp add: bytesNat_def)

lemma bytesNat_putBytes:
  "bytesNat (putBytes i v out) = (unat v mod 256 ^ i) * 256 ^ length out + bytesNat out"
proof (induction i arbitrary: v out)
  case (Suc i)
  have b: "unat (ucast v :: byte) = unat v mod 256"
    by (simp add: unsigned_ucast_eq take_bit_eq_mod)
  have d: "unat (drop_bit 8 v) = unat v div 256"
    by (simp add: drop_bit_eq_div unat_div)
  have m: "unat v mod (256 * 256 ^ i) = 256 * (unat v div 256 mod 256 ^ i) + unat v mod 256"
    by (simp add: mod_mult2_eq)
  show ?case
    using Suc by (simp add: bytesNat_Cons b d m algebra_simps)
qed simp

lemma bytesNat_uint64Bytes [simp]: "bytesNat (uint64Bytes v) = unat v"
proof -
  have "unat v < 256 ^ 8"
    using unsigned_less [of v] by simp
  then show ?thesis
    by (simp add: uint64Bytes_def bytesNat_putBytes)
qed

lemma uint64Bytes_inj: "uint64Bytes v = uint64Bytes w \<Longrightarrow> v = w"
  by (metis bytesNat_uint64Bytes word_unat_eq_iff)

interpretation fw_bytes8: fixed_width uint64Bytes 8 "\<lambda>_. True"
  by unfold_locales (simp, rule uint64Bytes_inj)

lemma of_int_word_inj:
  assumes "- (2 ^ 63) \<le> (a :: int)" "a < 2 ^ 63" "- (2 ^ 63) \<le> b" "b < 2 ^ 63"
    "(of_int a :: u64) = of_int b"
  shows "a = b"
proof -
  have "a mod 2 ^ 64 = b mod 2 ^ 64"
    using arg_cong [OF assms(5), of uint] by (simp add: uint_word_of_int)
  then have "i64 a = i64 b"
    unfolding i64_def by (metis mod_add_cong)
  with assms show ?thesis by simp
qed

subsection \<open>Domain-separated, length-prefixed hashing\<close>

definition frame :: "bytes \<Rightarrow> bytes" where
  \<comment> \<open>what one round of the loop writes\<close>
  "frame p = uint64Bytes (of_nat (length p)) @ p"

definition derive :: "mac \<Rightarrow> string \<Rightarrow> bytes list \<Rightarrow> bytes32" where
  "derive mac domain parts = copyArr 32 (mac (strBytes domain) (concat (map frame parts)))"

lemma length_derive [simp, bytes_len]: "length (derive mac d ps) = 32"
  by (simp add: derive_def)

definition fitsFrame :: "bytes \<Rightarrow> bool" where
  \<comment> \<open>a slice that a machine can hold\<close>
  "fitsFrame p \<longleftrightarrow> length p < 2 ^ 64"

lemma fitsFrame_small [simp]: "length b \<le> 64 \<Longrightarrow> fitsFrame b"
  by (simp add: fitsFrame_def)

lemma frame_split:
  assumes "fitsFrame p" "fitsFrame q" "frame p @ r = frame q @ s"
  shows "p = q \<and> r = s"
proof -
  have "uint64Bytes (of_nat (length p)) @ (p @ r) = uint64Bytes (of_nat (length q)) @ (q @ s)"
    using assms(3) by (simp add: frame_def)
  then have "(of_nat (length p) :: u64) = of_nat (length q)" and rest: "p @ r = q @ s"
    using fw_bytes8.field_split by blast+
  from this(1) have "unat (of_nat (length p) :: u64) = unat (of_nat (length q) :: u64)"
    by simp
  then have "length p = length q"
    using assms(1,2) by (simp add: fitsFrame_def unat_of_nat)
  with rest show ?thesis by simp
qed

lemma frames_inj:
  "list_all fitsFrame ps \<Longrightarrow> list_all fitsFrame qs \<Longrightarrow> concat (map frame ps) = concat (map frame qs) \<Longrightarrow> ps = qs"
proof (induction ps arbitrary: qs)
  case Nil
  then show ?case by (cases qs) (auto simp: frame_def dest: arg_cong [where f = length])
next
  case (Cons p ps)
  from Cons.prems(3) have "frame p @ concat (map frame ps) = concat (map frame qs)" by simp
  moreover have "frame p \<noteq> []"
    using length_uint64Bytes [of "of_nat (length p)"] by (auto simp: frame_def simp del: length_uint64Bytes)
  ultimately obtain q qs' where qs: "qs = q # qs'" by (cases qs) auto
  with Cons.prems have "p = q \<and> concat (map frame ps) = concat (map frame qs')"
    by (intro frame_split) simp_all
  with Cons.IH [of qs'] Cons.prems qs show ?case by simp
qed

lemma power2_len8: "(256 :: nat) = 2 ^ LENGTH(8)"
  by simp

lemma strBytes_inj: "strBytes s = strBytes t \<Longrightarrow> s = t"
proof (induction s arbitrary: t)
  case (Cons c s)
  then obtain d t' where t: "t = d # t'" by (cases t) (auto simp: strBytes_def)
  have "(of_char c :: nat) < 256" "(of_char d :: nat) < 256" by simp_all
  moreover have "(of_nat (of_char c) :: byte) = of_nat (of_char d)"
    using Cons.prems t by (simp add: strBytes_def)
  ultimately have "c = d"
    by (metis of_char_eq_iff unat_of_nat mod_less power2_len8)
  with Cons t show ?case by (simp add: strBytes_def)
qed (simp add: strBytes_def)

definition macInput :: "string \<times> bytes list \<Rightarrow> bytes \<times> bytes" where
  \<comment> \<open>the key and message that a domain and its parts give the keyed hash\<close>
  "macInput x = (strBytes (fst x), concat (map frame (snd x)))"

definition separates :: "mac \<Rightarrow> (string \<times> bytes list) set \<Rightarrow> bool" where
  \<comment> \<open>the keyed hash has no collision on the inputs that these derivations give it\<close>
  "separates mac S \<longleftrightarrow> inj_on (\<lambda>(k, m). copyArr 32 (mac k m)) (macInput ` S)"

text \<open>
  Derivations that are equal have equal domains and equal parts, unless the keyed hash collides on just
  their inputs.
\<close>

lemma derive_binds:
  assumes "separates mac S" "(d, ps) \<in> S" "(d', qs) \<in> S"
    and "derive mac d ps = derive mac d' qs" "list_all fitsFrame ps" "list_all fitsFrame qs"
  shows "d = d' \<and> ps = qs"
proof -
  have "macInput (d, ps) = macInput (d', qs)"
  proof (rule inj_onD [OF assms(1) [unfolded separates_def]])
    show "macInput (d, ps) \<in> macInput ` S" "macInput (d', qs) \<in> macInput ` S"
      using assms(2,3) by simp_all
  qed (use assms(4) in \<open>simp add: macInput_def derive_def\<close>)
  then show ?thesis
    using frames_inj [OF assms(5,6)] strBytes_inj by (simp add: macInput_def)
qed

lemma separatesI:
  assumes "\<And>x y. x \<in> S \<Longrightarrow> y \<in> S \<Longrightarrow> derive mac (fst x) (snd x) = derive mac (fst y) (snd y) \<Longrightarrow> x = y"
  shows "separates mac S"
  unfolding separates_def
proof (rule inj_onI)
  fix a b assume "a \<in> macInput ` S" "b \<in> macInput ` S" and eq: "(case a of (k, m) \<Rightarrow> copyArr 32 (mac k m)) = (case b of (k, m) \<Rightarrow> copyArr 32 (mac k m))"
  then obtain x y where xy: "x \<in> S" "y \<in> S" "a = macInput x" "b = macInput y" by blast
  with eq have "derive mac (fst x) (snd x) = derive mac (fst y) (snd y)"
    by (simp add: macInput_def derive_def)
  with assms [OF xy(1,2)] xy(3,4) show "a = b" by simp
qed

end
