(* ===== verification/Private_Note.thy ===== *)
theory Private_Note
  imports Derive Channel_Types
begin

text \<open>
  The private payment note and the blinded invoice, \<^verbatim>\<open>src/internal/channel/note.go\<close> and \<^verbatim>\<open>blinded.go\<close>. A
  \<^verbatim>\<open>time.Time\<close> is the number of nanoseconds since the epoch, an \<open>instant\<close>; the random source is an argument
  that may fail; a nil pointer is \<open>None\<close>.
\<close>

type_synonym instant = int

definition Unix :: "instant \<Rightarrow> int" where
  "Unix t = t div 1000000000"

definition timeSub :: "instant \<Rightarrow> instant \<Rightarrow> int" where
  \<comment> \<open>\<^verbatim>\<open>Time.Sub\<close> saturates\<close>
  "timeSub a b = max (- (2 ^ 63)) (min (2 ^ 63 - 1) (a - b))"

abbreviation unix64 :: "instant \<Rightarrow> u64" where
  \<comment> \<open>\<^verbatim>\<open>uint64(now.Unix())\<close>\<close>
  "unix64 t \<equiv> of_int (Unix t)"

datatype note_error =
    ErrNoteExpired | ErrNoteVersion | ErrNoteMalformed | ErrNotHomomorphic | ErrBalanceUnimplemented
  | ErrInvoiceExpired | ErrInvoiceReused | ErrAmountOutOfRange | ErrInvoiceMalformed | ErrEntropy

subsection \<open>Notes\<close>

definition NoteVersion :: "16 word" where
  "NoteVersion = 1"

definition domainNullifier :: string where "domainNullifier = ''rabbiit/note/nullifier/v1''"
definition domainOwner :: string where "domainOwner = ''rabbiit/note/owner/v1''"
definition domainKeyHint :: string where "domainKeyHint = ''rabbiit/note/keyhint/v1''"
definition domainValue :: string where "domainValue = ''rabbiit/note/value/v1''"
definition domainContext :: string where "domainContext = ''rabbiit/note/context/v1''"
definition domainRoute :: string where "domainRoute = ''rabbiit/note/route/v1''"

record PrivatePaymentNote =
  nt_Version :: "16 word"
  nt_AssetID :: bytes32
  nt_ValueCommitment :: bytes32
  nt_OwnerCommitment :: bytes32
  nt_RecipientKeyHint :: bytes32
  nt_NullifierSeed :: bytes32
  nt_RouteCommitment :: bytes32
  nt_ContextCommitment :: bytes32
  nt_CreatedAt :: u64
  nt_ExpiresAt :: u64
  nt_Nonce :: bytes32
  nt_Ciphertext :: bytes

definition Nullifier :: "mac \<Rightarrow> PrivatePaymentNote \<Rightarrow> bytes32 \<Rightarrow> bytes32" where
  "Nullifier mac n spendingKey = derive mac domainNullifier [nt_NullifierSeed n, spendingKey]"

definition OwnerCommitmentFor :: "mac \<Rightarrow> bytes32 \<Rightarrow> bytes32 \<Rightarrow> bytes32" where
  "OwnerCommitmentFor mac spendingKey nonce = derive mac domainOwner [spendingKey, nonce]"

definition KeyHintFor :: "mac \<Rightarrow> bytes32 \<Rightarrow> bytes32 \<Rightarrow> bytes32" where
  "KeyHintFor mac sharedSecret nonce = derive mac domainKeyHint [sharedSecret, nonce]"

definition ContextCommitmentFor :: "mac \<Rightarrow> string \<Rightarrow> bytes32 \<Rightarrow> bytes32" where
  "ContextCommitmentFor mac purpose opening = derive mac domainContext [strBytes purpose, opening]"

definition RouteCommitmentFor :: "mac \<Rightarrow> bytes32 list \<Rightarrow> bytes32" where
  "RouteCommitmentFor mac secrets = derive mac domainRoute secrets"

definition HashCommit :: "mac \<Rightarrow> u64 \<Rightarrow> bytes32 \<Rightarrow> bytes32" where
  "HashCommit mac v blinding = derive mac domainValue [uint64Bytes v, blinding]"

definition CheckNoteBalance :: "bool option \<Rightarrow> note_error + unit" where
  \<comment> \<open>\<^verbatim>\<open>CheckBalance\<close>: of the scheme it looks at \<^verbatim>\<open>IsHomomorphic\<close> only (\<open>None\<close> for a nil scheme)\<close>
  "CheckNoteBalance scheme =
     (case scheme of
        None \<Rightarrow> Inl ErrNotHomomorphic
      | Some homomorphic \<Rightarrow> if \<not> homomorphic then Inl ErrNotHomomorphic else Inl ErrBalanceUnimplemented)"

definition NoteValidate :: "PrivatePaymentNote \<Rightarrow> instant \<Rightarrow> note_error + unit" where
  "NoteValidate n now =
     (if nt_Version n \<noteq> NoteVersion then Inl ErrNoteVersion
      else if nt_ExpiresAt n = 0 \<or> nt_CreatedAt n = 0 then Inl ErrNoteMalformed
      else if nt_ExpiresAt n \<le> nt_CreatedAt n then Inl ErrNoteMalformed
      else if nt_Nonce n = zero32 then Inl ErrNoteMalformed
      else if unix64 now \<ge> nt_ExpiresAt n then Inl ErrNoteExpired
      else Inr ())"

definition NoteExpired :: "PrivatePaymentNote \<Rightarrow> instant \<Rightarrow> bool" where
  "NoteExpired n now \<longleftrightarrow> unix64 now \<ge> nt_ExpiresAt n"

text \<open>A router that repeats the cheap check at every hop refuses every note that has expired since.\<close>

lemma NoteValidate_not_expired: "NoteValidate n now = Inr () \<Longrightarrow> \<not> NoteExpired n now"
  by (auto simp: NoteValidate_def NoteExpired_def split: if_splits)

subsection \<open>Blinded invoices\<close>

definition domainInvoice :: string where "domainInvoice = ''rabbiit/invoice/id/v1''"
definition domainEndpoint :: string where "domainEndpoint = ''rabbiit/invoice/endpoint/v1''"
definition domainInvCommit :: string where "domainInvCommit = ''rabbiit/invoice/commit/v1''"

record BlindedInvoice =
  iv_InvoiceID :: bytes32
  iv_IntroductionNode :: NodeID
  iv_BlindedEndpoint :: bytes32
  iv_FinalHopCiphertext :: bytes
  iv_RecipientEphemeralKey :: bytes32
  iv_Commitment :: bytes32
  iv_IssuedAt :: u64
  iv_ExpiresAt :: u64
  iv_MinAmount :: Amount
  iv_MaxAmount :: Amount
  iv_Streaming :: bool

record InvoiceRequest =
  iq_SettlementKey :: bytes32
  iq_IntroductionNode :: NodeID
  iq_MinAmount :: Amount
  iq_MaxAmount :: Amount
  iq_TTL :: int
  iq_Streaming :: bool

definition invoiceCommit :: "mac \<Rightarrow> BlindedInvoice \<Rightarrow> bytes32" where
  "invoiceCommit mac i = derive mac domainInvCommit
     [iv_InvoiceID i, iv_BlindedEndpoint i, amountBytes (iv_MinAmount i), amountBytes (iv_MaxAmount i),
      uint64Bytes (iv_ExpiresAt i)]"

definition invoiceParts :: "BlindedInvoice \<Rightarrow> string \<times> bytes list" where
  "invoiceParts i = (domainInvCommit, [iv_InvoiceID i, iv_BlindedEndpoint i, amountBytes (iv_MinAmount i),
     amountBytes (iv_MaxAmount i), uint64Bytes (iv_ExpiresAt i)])"

definition NewInvoice ::
  "mac \<Rightarrow> bytes32 option \<Rightarrow> bytes32 option \<Rightarrow> InvoiceRequest \<Rightarrow> instant \<Rightarrow> note_error + BlindedInvoice" where
  \<comment> \<open>the two random draws come first\<close>
  "NewInvoice mac entropyRead ephemeralRead req now =
     (if iq_IntroductionNode req = [] then Inl ErrInvoiceMalformed
      else if iq_MaxAmount req \<le> 0 \<or> iq_MinAmount req < 0 \<or> iq_MinAmount req > iq_MaxAmount req then Inl ErrInvoiceMalformed
      else if iq_TTL req \<le> 0 then Inl ErrInvoiceMalformed
      else
        (case entropyRead of
           None \<Rightarrow> Inl ErrEntropy
         | Some entropy \<Rightarrow>
             (case ephemeralRead of
                None \<Rightarrow> Inl ErrEntropy
              | Some ephemeral \<Rightarrow>
                  let inv = \<lparr> iv_InvoiceID = derive mac domainInvoice [entropy, iq_SettlementKey req],
                        iv_IntroductionNode = iq_IntroductionNode req,
                        iv_BlindedEndpoint = derive mac domainEndpoint
                          [iq_SettlementKey req, entropy, strBytes (iq_IntroductionNode req)],
                        iv_FinalHopCiphertext = [],
                        iv_RecipientEphemeralKey = ephemeral,
                        iv_Commitment = zero32,
                        iv_IssuedAt = unix64 now,
                        iv_ExpiresAt = unix64 (now + iq_TTL req),
                        iv_MinAmount = iq_MinAmount req,
                        iv_MaxAmount = iq_MaxAmount req,
                        iv_Streaming = iq_Streaming req \<rparr>
                  in Inr (inv\<lparr>iv_Commitment := invoiceCommit mac inv\<rparr>))))"

definition InvoiceValidate :: "mac \<Rightarrow> BlindedInvoice option \<Rightarrow> instant \<Rightarrow> note_error + unit" where
  "InvoiceValidate mac invoice now =
     (case invoice of
        None \<Rightarrow> Inl ErrInvoiceMalformed
      | Some i \<Rightarrow>
          if iv_IntroductionNode i = [] then Inl ErrInvoiceMalformed
          else if iv_ExpiresAt i \<le> iv_IssuedAt i then Inl ErrInvoiceMalformed
          else if iv_MaxAmount i \<le> 0 \<or> iv_MinAmount i > iv_MaxAmount i then Inl ErrInvoiceMalformed
          else if iv_Commitment i \<noteq> invoiceCommit mac i then Inl ErrInvoiceMalformed
          else if unix64 now \<ge> iv_ExpiresAt i then Inl ErrInvoiceExpired
          else Inr ())"

definition AcceptsAmount :: "BlindedInvoice \<Rightarrow> Amount \<Rightarrow> note_error + unit" where
  "AcceptsAmount i a = (if a < iv_MinAmount i \<or> a > iv_MaxAmount i then Inl ErrAmountOutOfRange else Inr ())"

record ExitView =
  xv_BlindedEndpoint :: bytes32
  xv_FinalHopCiphertext :: bytes
  xv_Expiry :: u64

definition ViewForExit :: "BlindedInvoice \<Rightarrow> ExitView" where
  "ViewForExit i = \<lparr> xv_BlindedEndpoint = iv_BlindedEndpoint i, xv_FinalHopCiphertext = iv_FinalHopCiphertext i,
     xv_Expiry = iv_ExpiresAt i \<rparr>"

type_synonym InvoiceLedger = "bytes32 set"

definition InvoiceClaim :: "InvoiceLedger \<Rightarrow> BlindedInvoice \<Rightarrow> (note_error + unit) \<times> InvoiceLedger" where
  "InvoiceClaim paid i =
     (if iv_InvoiceID i \<in> paid \<and> \<not> iv_Streaming i then (Inl ErrInvoiceReused, paid)
      else (Inr (), insert (iv_InvoiceID i) paid))"

subsection \<open>What an invoice's commitment binds\<close>

definition int64 :: "int \<Rightarrow> bool" where
  "int64 v \<longleftrightarrow> - (2 ^ 63) \<le> v \<and> v < 2 ^ 63"

lemma amountBytes_inj: "int64 a \<Longrightarrow> int64 b \<Longrightarrow> amountBytes a = amountBytes b \<Longrightarrow> a = b"
  unfolding amountBytes_def int64_def using of_int_word_inj uint64Bytes_inj by blast

text \<open>
  Two valid invoices with one commitment agree on the identifier, the endpoint, the amount range and the
  expiry, unless the keyed hash collides on just these two.
\<close>

lemma invoice_terms_bound:
  assumes "InvoiceValidate mac (Some i) now = Inr ()" "InvoiceValidate mac (Some j) now' = Inr ()"
    and "iv_Commitment i = iv_Commitment j" "separates mac {invoiceParts i, invoiceParts j}"
    and "length (iv_InvoiceID i) = 32" "length (iv_InvoiceID j) = 32"
    and "length (iv_BlindedEndpoint i) = 32" "length (iv_BlindedEndpoint j) = 32"
    and "int64 (iv_MinAmount i)" "int64 (iv_MinAmount j)" "int64 (iv_MaxAmount i)" "int64 (iv_MaxAmount j)"
  shows "iv_InvoiceID i = iv_InvoiceID j \<and> iv_BlindedEndpoint i = iv_BlindedEndpoint j \<and>
    iv_MinAmount i = iv_MinAmount j \<and> iv_MaxAmount i = iv_MaxAmount j \<and> iv_ExpiresAt i = iv_ExpiresAt j"
proof -
  have "invoiceCommit mac i = invoiceCommit mac j"
    using assms(1-3) by (simp add: InvoiceValidate_def split: if_splits)
  then have "invoiceParts i = invoiceParts j"
    using derive_binds [OF assms(4), of domainInvCommit "snd (invoiceParts i)" domainInvCommit "snd (invoiceParts j)"] assms(5-8)
    by (simp add: invoiceCommit_def invoiceParts_def)
  then show ?thesis
    using amountBytes_inj assms(9-12) uint64Bytes_inj by (simp add: invoiceParts_def)
qed

text \<open>
  The commitment is said to bind the terms of the invoice. It leaves out whether the invoice may be paid
  more than once and through which node it is reached: both can be changed on an invoice that still
  validates.
\<close>

theorem streaming_not_bound:
  assumes "InvoiceValidate mac (Some i) now = Inr ()" "node \<noteq> []"
  shows "InvoiceValidate mac (Some (i\<lparr>iv_Streaming := True, iv_IntroductionNode := node\<rparr>)) now = Inr () \<and>
    (\<forall>paid. fst (InvoiceClaim paid (i\<lparr>iv_Streaming := True, iv_IntroductionNode := node\<rparr>)) = Inr ())"
  using assms by (auto simp: InvoiceValidate_def invoiceCommit_def InvoiceClaim_def split: if_splits)

text \<open>A freshly issued invoice validates until it expires, when its lifetime is at least a second.\<close>

lemma NewInvoice_validates:
  assumes "NewInvoice mac e k req now = Inr i" "0 \<le> now" "iq_TTL req \<ge> 1000000000" "now + iq_TTL req < 2 ^ 63"
    and "now \<le> t" "Unix t < Unix (now + iq_TTL req)"
  shows "InvoiceValidate mac (Some i) t = Inr ()"
proof -
  have lt: "Unix now < Unix (now + iq_TTL req)" "0 \<le> Unix now" "Unix now \<le> Unix t" "Unix (now + iq_TTL req) < 2 ^ 63"
    using assms(2-5) by (auto simp: Unix_def intro!: zdiv_mono1 pos_imp_zdiv_nonneg_iff [THEN iffD2])
  have "(of_int a :: u64) < of_int b" if "0 \<le> a" "a < b" "b < 2 ^ 63" for a b :: int
    using that by (simp add: word_less_def uint_word_of_int)
  then have "unix64 now < unix64 (now + iq_TTL req)" "unix64 t < unix64 (now + iq_TTL req)"
    using lt assms(6) by simp_all
  with assms(1) show ?thesis
    by (auto simp: NewInvoice_def InvoiceValidate_def invoiceCommit_def Let_def not_le not_less
        split: if_splits option.splits)
qed

text \<open>A single-use invoice is claimed at most once.\<close>

lemma InvoiceClaim_once:
  "\<not> iv_Streaming i \<Longrightarrow> InvoiceClaim paid i = (Inr (), paid') \<Longrightarrow>
   iv_InvoiceID i \<notin> paid \<and> iv_InvoiceID i \<in> paid'"
  by (auto simp: InvoiceClaim_def split: if_splits)

end
