(* ===== verification/Settlement.thy ===== *)
theory Settlement
  imports Private_Note
begin

text \<open>
  Receipts, the settlement audit and the escrow of the private payment layer,
  \<^verbatim>\<open>src/internal/channel/settlement.go\<close> and \<^verbatim>\<open>escrow.go\<close>. Every method holds its mutex, so concurrent callers
  are a sequence of calls. The map of pointers of an escrow book is a map of values: the pointers never leave
  the book.
\<close>

datatype settle_error = ErrDoubleSettled | ErrWrongEpoch | ErrCommitmentBad

datatype escrow_error = ErrEscrowUnknown | ErrEscrowSettled | ErrEscrowLive | ErrNotTheArbiter | ErrDisclosureBad

subsection \<open>Receipts\<close>

definition domainSettlePseudonym :: string where "domainSettlePseudonym = ''rabbiit/settle/pseudonym/v1''"
definition domainSettleCommit :: string where "domainSettleCommit = ''rabbiit/settle/commitment/v1''"

datatype SettlementMode = SettleEpoch | SettleChannel | SettlePrivateChannel

record ReceiptLink =
  rl_PaymentCommitment :: bytes32
  rl_SettlementPseudonym :: bytes32
  rl_Mode :: SettlementMode
  rl_PrivacyVersion :: "16 word"

definition PseudonymFor :: "mac \<Rightarrow> ChannelID \<Rightarrow> u64 \<Rightarrow> bytes32" where
  "PseudonymFor mac ch epoch = derive mac domainSettlePseudonym [strBytes ch, uint64Bytes epoch]"

definition CommitPayment :: "mac \<Rightarrow> ChannelID \<Rightarrow> u64 \<Rightarrow> Amount \<Rightarrow> bytes32 \<Rightarrow> bytes32" where
  "CommitPayment mac ch nonce amount secret =
     derive mac domainSettleCommit [strBytes ch, uint64Bytes nonce, amountBytes amount, secret]"

definition OpenPayment :: "mac \<Rightarrow> ReceiptLink \<Rightarrow> ChannelID \<Rightarrow> u64 \<Rightarrow> Amount \<Rightarrow> bytes32 \<Rightarrow> settle_error + unit" where
  "OpenPayment mac link ch nonce amount secret =
     (if CommitPayment mac ch nonce amount secret \<noteq> rl_PaymentCommitment link then Inl ErrCommitmentBad else Inr ())"

definition NewReceiptLink ::
  "mac \<Rightarrow> ChannelID \<Rightarrow> u64 \<Rightarrow> u64 \<Rightarrow> Amount \<Rightarrow> bytes32 \<Rightarrow> SettlementMode \<Rightarrow> ReceiptLink" where
  "NewReceiptLink mac ch epoch nonce amount secret mode =
     \<lparr> rl_PaymentCommitment = CommitPayment mac ch nonce amount secret,
       rl_SettlementPseudonym = PseudonymFor mac ch epoch, rl_Mode = mode, rl_PrivacyVersion = 1 \<rparr>"

definition Linkable :: "ReceiptLink \<Rightarrow> ReceiptLink \<Rightarrow> bool" where
  "Linkable a b \<longleftrightarrow> rl_SettlementPseudonym a = rl_SettlementPseudonym b"

record SettlementAudit =
  au_epoch :: u64
  au_seen :: "bytes32 list"
    \<comment> \<open>the keys of the map, each once\<close>

definition NewSettlementAudit :: "u64 \<Rightarrow> SettlementAudit" where
  "NewSettlementAudit epoch = \<lparr> au_epoch = epoch, au_seen = [] \<rparr>"

definition AuditRecord ::
  "mac \<Rightarrow> SettlementAudit \<Rightarrow> ReceiptLink \<Rightarrow> ChannelID \<Rightarrow> (settle_error + unit) \<times> SettlementAudit" where
  "AuditRecord mac a link ch =
     (if rl_SettlementPseudonym link \<noteq> PseudonymFor mac ch (au_epoch a) then (Inl ErrWrongEpoch, a)
      else if rl_PaymentCommitment link \<in> set (au_seen a) then (Inl ErrDoubleSettled, a)
      else (Inr (), a\<lparr>au_seen := rl_PaymentCommitment link # au_seen a\<rparr>))"

definition Settled :: "SettlementAudit \<Rightarrow> nat" where
  "Settled a = length (au_seen a)"

fun auditAll ::
  "mac \<Rightarrow> SettlementAudit \<Rightarrow> (ReceiptLink \<times> ChannelID) list \<Rightarrow> (ReceiptLink \<times> ChannelID) list \<times> SettlementAudit" where
  \<comment> \<open>a run of \<^verbatim>\<open>Record\<close> calls: the ones that were accepted, and the audit after it\<close>
  "auditAll mac a [] = ([], a)"
| "auditAll mac a ((link, ch) # rest) =
     (case AuditRecord mac a link ch of
        (r, a1) \<Rightarrow> (case auditAll mac a1 rest of (ok, a2) \<Rightarrow> (if isl r then ok else (link, ch) # ok, a2)))"

definition auditOK :: "mac \<Rightarrow> SettlementAudit \<Rightarrow> (ReceiptLink \<times> ChannelID) list \<Rightarrow> SettlementAudit \<Rightarrow> bool" where
  \<comment> \<open>the given receipts were accepted, each commitment for the first time, between the two audits\<close>
  "auditOK mac a ok a' \<longleftrightarrow> au_epoch a' = au_epoch a \<and>
     set (au_seen a') = set (au_seen a) \<union> set (map (rl_PaymentCommitment \<circ> fst) ok) \<and>
     length (au_seen a') = length (au_seen a) + length ok \<and>
     distinct (map (rl_PaymentCommitment \<circ> fst) ok) \<and>
     set (au_seen a) \<inter> set (map (rl_PaymentCommitment \<circ> fst) ok) = {} \<and>
     (\<forall>(link, ch) \<in> set ok. rl_SettlementPseudonym link = PseudonymFor mac ch (au_epoch a))"

lemma auditAll_OK: "auditAll mac a xs = (ok, a') \<Longrightarrow> auditOK mac a ok a'"
proof (induction xs arbitrary: a ok a')
  case (Cons x xs)
  obtain link ch where x: "x = (link, ch)" by force
  obtain r a1 where one: "AuditRecord mac a link ch = (r, a1)" by force
  obtain ok1 a2 where rest: "auditAll mac a1 xs = (ok1, a2)" by force
  have run: "a' = a2" "ok = (if isl r then ok1 else (link, ch) # ok1)"
    using Cons.prems by (simp_all add: x one rest)
  have "isl r \<and> a1 = a \<or> r = Inr () \<and> rl_PaymentCommitment link \<notin> set (au_seen a) \<and>
      rl_SettlementPseudonym link = PseudonymFor mac ch (au_epoch a) \<and>
      a1 = a\<lparr>au_seen := rl_PaymentCommitment link # au_seen a\<rparr>"
    using one by (auto simp: AuditRecord_def split: if_splits)
  with Cons.IH [OF rest] run show ?case
    by (fastforce simp: auditOK_def disjoint_iff)
qed (auto simp: auditOK_def)

subsection \<open>Escrow\<close>

definition domainEscrowOpen :: string where "domainEscrowOpen = ''rabbiit/escrow/opening/v1''"

datatype EscrowState = EscrowOpen | EscrowReleased | EscrowRefunded | EscrowDisputed

record Escrow =
  es_ID :: bytes32
  es_Buyer :: NodeID
  es_Seller :: NodeID
  es_Amount :: Amount
  es_Commitment :: bytes32
  es_Deadline :: instant
  es_State :: EscrowState

definition OpeningFor :: "mac \<Rightarrow> bytes32 \<Rightarrow> u64 \<Rightarrow> bytes32" where
  "OpeningFor mac master i = derive mac domainEscrowOpen [master, uint64Bytes i]"

record Disclosure =
  dc_Index :: u64
  dc_Opening :: bytes32
  dc_Amount :: Amount
  dc_Channel :: ChannelID
  dc_Nonce :: u64

definition DisclosureVerify :: "mac \<Rightarrow> Disclosure \<Rightarrow> bytes32 \<Rightarrow> escrow_error + unit" where
  "DisclosureVerify mac d commitment =
     (if CommitPayment mac (dc_Channel d) (dc_Nonce d) (dc_Amount d) (dc_Opening d) \<noteq> commitment
      then Inl ErrDisclosureBad else Inr ())"

record EscrowBook =
  bk_arbiter :: NodeID
  bk_items :: "bytes32 \<rightharpoonup> Escrow"

definition NewEscrowBook :: "NodeID \<Rightarrow> EscrowBook" where
  "NewEscrowBook arbiter = \<lparr> bk_arbiter = arbiter, bk_items = Map.empty \<rparr>"

definition EscrowOpenOp :: "EscrowBook \<Rightarrow> Escrow \<Rightarrow> (escrow_error + unit) \<times> EscrowBook" where
  "EscrowOpenOp b e =
     (if es_Amount e \<le> 0 \<or> es_Buyer e = [] \<or> es_Seller e = [] then (Inl ErrEscrowUnknown, b)
      else (Inr (), b\<lparr>bk_items := (bk_items b)(es_ID e \<mapsto> e\<lparr>es_State := EscrowOpen\<rparr>)\<rparr>))"

definition setState :: "EscrowBook \<Rightarrow> bytes32 \<Rightarrow> Escrow \<Rightarrow> EscrowState \<Rightarrow> EscrowBook" where
  "setState b i e st = b\<lparr>bk_items := (bk_items b)(i \<mapsto> e\<lparr>es_State := st\<rparr>)\<rparr>"

definition EscrowConfirm :: "EscrowBook \<Rightarrow> bytes32 \<Rightarrow> (escrow_error + unit) \<times> EscrowBook" where
  "EscrowConfirm b i =
     (case bk_items b i of
        None \<Rightarrow> (Inl ErrEscrowUnknown, b)
      | Some e \<Rightarrow>
          if es_State e \<noteq> EscrowOpen then (Inl ErrEscrowSettled, b)
          else (Inr (), setState b i e EscrowReleased))"

definition EscrowExpire :: "EscrowBook \<Rightarrow> bytes32 \<Rightarrow> instant \<Rightarrow> (escrow_error + unit) \<times> EscrowBook" where
  "EscrowExpire b i now =
     (case bk_items b i of
        None \<Rightarrow> (Inl ErrEscrowUnknown, b)
      | Some e \<Rightarrow>
          if es_State e \<noteq> EscrowOpen then (Inl ErrEscrowSettled, b)
          else if now < es_Deadline e then (Inl ErrEscrowLive, b)
          else (Inr (), setState b i e EscrowReleased))"

definition EscrowDispute :: "EscrowBook \<Rightarrow> bytes32 \<Rightarrow> instant \<Rightarrow> (escrow_error + unit) \<times> EscrowBook" where
  "EscrowDispute b i now =
     (case bk_items b i of
        None \<Rightarrow> (Inl ErrEscrowUnknown, b)
      | Some e \<Rightarrow>
          if es_State e \<noteq> EscrowOpen then (Inl ErrEscrowSettled, b)
          else if \<not> now < es_Deadline e then (Inl ErrEscrowSettled, b)
          else (Inr (), setState b i e EscrowDisputed))"

definition EscrowResolve ::
  "mac \<Rightarrow> EscrowBook \<Rightarrow> bytes32 \<Rightarrow> NodeID \<Rightarrow> Disclosure \<Rightarrow> bool \<Rightarrow> (escrow_error + unit) \<times> EscrowBook" where
  "EscrowResolve mac b i by d refund =
     (if by \<noteq> bk_arbiter b then (Inl ErrNotTheArbiter, b)
      else
        (case bk_items b i of
           None \<Rightarrow> (Inl ErrEscrowUnknown, b)
         | Some e \<Rightarrow>
             if es_State e \<noteq> EscrowDisputed then (Inl ErrEscrowSettled, b)
             else
               (case DisclosureVerify mac d (es_Commitment e) of
                  Inl err \<Rightarrow> (Inl err, b)
                | Inr _ \<Rightarrow> (Inr (), setState b i e (if refund then EscrowRefunded else EscrowReleased)))))"

definition EscrowStateOf :: "EscrowBook \<Rightarrow> bytes32 \<Rightarrow> escrow_error + EscrowState" where
  "EscrowStateOf b i = (case bk_items b i of None \<Rightarrow> Inl ErrEscrowUnknown | Some e \<Rightarrow> Inr (es_State e))"

subsection \<open>Runs of an escrow book\<close>

datatype EscrowCall =
    CallOpen Escrow | CallConfirm bytes32 | CallExpire bytes32 instant | CallDispute bytes32 instant
  | CallResolve bytes32 NodeID Disclosure bool

definition escrowCall :: "mac \<Rightarrow> EscrowBook \<Rightarrow> EscrowCall \<Rightarrow> (escrow_error + unit) \<times> EscrowBook" where
  "escrowCall mac b c = (case c of
      CallOpen e \<Rightarrow> EscrowOpenOp b e
    | CallConfirm i \<Rightarrow> EscrowConfirm b i
    | CallExpire i now \<Rightarrow> EscrowExpire b i now
    | CallDispute i now \<Rightarrow> EscrowDispute b i now
    | CallResolve i who d refund \<Rightarrow> EscrowResolve mac b i who d refund)"

definition escrowRun :: "mac \<Rightarrow> EscrowBook \<Rightarrow> EscrowCall list \<Rightarrow> EscrowBook" where
  "escrowRun mac b calls = foldl (\<lambda>b c. snd (escrowCall mac b c)) b calls"

lemma escrowRun_simps [simp]:
  "escrowRun mac b [] = b" "escrowRun mac b (calls @ [c]) = snd (escrowCall mac (escrowRun mac b calls) c)"
  by (simp_all add: escrowRun_def)

definition opens :: "bytes32 \<Rightarrow> EscrowCall \<Rightarrow> bool" where
  "opens i c \<longleftrightarrow> (\<exists>e. c = CallOpen e \<and> es_ID e = i)"

definition disclosed :: "mac \<Rightarrow> Escrow \<Rightarrow> Disclosure \<Rightarrow> bool" where
  "disclosed mac e d \<longleftrightarrow> CommitPayment mac (dc_Channel d) (dc_Nonce d) (dc_Amount d) (dc_Opening d) = es_Commitment e"

definition earned :: "mac \<Rightarrow> NodeID \<Rightarrow> bytes32 \<Rightarrow> Escrow \<Rightarrow> EscrowCall set \<Rightarrow> EscrowState \<Rightarrow> bool" where
  \<comment> \<open>what must have been called for an escrow that was open to be in the given state\<close>
  "earned mac arbiter i e calls st = (case st of
      EscrowOpen \<Rightarrow> True
    | EscrowDisputed \<Rightarrow> \<exists>t < es_Deadline e. CallDispute i t \<in> calls
    | EscrowRefunded \<Rightarrow> (\<exists>t < es_Deadline e. CallDispute i t \<in> calls) \<and>
        (\<exists>d. CallResolve i arbiter d True \<in> calls \<and> disclosed mac e d)
    | EscrowReleased \<Rightarrow> CallConfirm i \<in> calls \<or> (\<exists>t \<ge> es_Deadline e. CallExpire i t \<in> calls) \<or>
        (\<exists>t < es_Deadline e. CallDispute i t \<in> calls) \<and>
        (\<exists>d. CallResolve i arbiter d False \<in> calls \<and> disclosed mac e d))"

lemma earned_mono: "earned mac a i e calls st \<Longrightarrow> calls \<subseteq> calls' \<Longrightarrow> earned mac a i e calls' st"
  by (cases st) (auto simp: earned_def)

lemma escrowCall_arbiter [simp]: "bk_arbiter (snd (escrowCall mac b c)) = bk_arbiter b"
  by (auto simp: escrowCall_def EscrowOpenOp_def EscrowConfirm_def EscrowExpire_def EscrowDispute_def
      EscrowResolve_def setState_def split: EscrowCall.split option.split sum.split)

lemma escrowRun_arbiter [simp]: "bk_arbiter (escrowRun mac b calls) = bk_arbiter b"
  by (induction calls rule: rev_induct) simp_all

text \<open>One call: the state of another escrow stays, and a move of this one is one of five.\<close>

lemma escrowCall_moves:
  assumes "bk_items b i = Some e" "\<not> opens i c"
  shows "\<exists>st. bk_items (snd (escrowCall mac b c)) i = Some (e\<lparr>es_State := st\<rparr>) \<and>
    (st = es_State e \<or>
     es_State e = EscrowOpen \<and> st = EscrowReleased \<and> (c = CallConfirm i \<or> (\<exists>t \<ge> es_Deadline e. c = CallExpire i t)) \<or>
     es_State e = EscrowOpen \<and> st = EscrowDisputed \<and> (\<exists>t < es_Deadline e. c = CallDispute i t) \<or>
     es_State e = EscrowDisputed \<and> (\<exists>d refund. c = CallResolve i (bk_arbiter b) d refund \<and> disclosed mac e d \<and>
       st = (if refund then EscrowRefunded else EscrowReleased)))"
proof (cases c)
  case (CallOpen e')
  then show ?thesis
    using assms by (intro exI [of _ "es_State e"]) (auto simp: escrowCall_def EscrowOpenOp_def opens_def)
next
  case (CallConfirm j)
  then show ?thesis
    using assms
    by (cases "j = i \<and> es_State e = EscrowOpen"; intro exI [of _ "if j = i \<and> es_State e = EscrowOpen then EscrowReleased else es_State e"])
      (auto simp: escrowCall_def EscrowConfirm_def setState_def split: option.split)
next
  case (CallExpire j t)
  let ?m = "j = i \<and> es_State e = EscrowOpen \<and> es_Deadline e \<le> t"
  show ?thesis
    using assms CallExpire
    by (cases ?m; intro exI [of _ "if ?m then EscrowReleased else es_State e"])
      (auto simp: escrowCall_def EscrowExpire_def setState_def split: option.split)
next
  case (CallDispute j t)
  let ?m = "j = i \<and> es_State e = EscrowOpen \<and> t < es_Deadline e"
  show ?thesis
    using assms CallDispute
    by (cases ?m; intro exI [of _ "if ?m then EscrowDisputed else es_State e"])
      (auto simp: escrowCall_def EscrowDispute_def setState_def split: option.split)
next
  case (CallResolve j who d refund)
  let ?m = "j = i \<and> who = bk_arbiter b \<and> es_State e = EscrowDisputed \<and> disclosed mac e d"
  show ?thesis
    using assms CallResolve
    by (cases ?m; intro exI [of _ "if ?m then (if refund then EscrowRefunded else EscrowReleased) else es_State e"])
      (auto simp: escrowCall_def EscrowResolve_def DisclosureVerify_def disclosed_def setState_def split: option.split)
qed

lemma escrowRun_earned:
  assumes "bk_items b i = Some e" "es_State e = EscrowOpen" "\<forall>c \<in> set calls. \<not> opens i c"
  shows "\<exists>st. bk_items (escrowRun mac b calls) i = Some (e\<lparr>es_State := st\<rparr>) \<and>
    earned mac (bk_arbiter b) i e (set calls) st"
  using assms(3)
proof (induction calls rule: rev_induct)
  case Nil
  then show ?case
    using assms(1,2) by (intro exI [of _ EscrowOpen]) (simp add: earned_def)
next
  case (snoc c calls)
  then obtain st where st: "bk_items (escrowRun mac b calls) i = Some (e\<lparr>es_State := st\<rparr>)"
      "earned mac (bk_arbiter b) i e (set calls) st"
    by auto
  have "\<not> opens i c" using snoc.prems by simp
  from escrowCall_moves [OF st(1) this, of mac] obtain st' where st':
      "bk_items (escrowRun mac b (calls @ [c])) i = Some (e\<lparr>es_State := st'\<rparr>)"
      "st' = st \<or>
       st = EscrowOpen \<and> st' = EscrowReleased \<and> (c = CallConfirm i \<or> (\<exists>t \<ge> es_Deadline e. c = CallExpire i t)) \<or>
       st = EscrowOpen \<and> st' = EscrowDisputed \<and> (\<exists>t < es_Deadline e. c = CallDispute i t) \<or>
       st = EscrowDisputed \<and> (\<exists>d refund. c = CallResolve i (bk_arbiter b) d refund \<and> disclosed mac e d \<and>
         st' = (if refund then EscrowRefunded else EscrowReleased))"
    by (auto simp: disclosed_def)
  have "earned mac (bk_arbiter b) i e (set (calls @ [c])) st'"
    using st'(2)
  proof (elim disjE conjE exE)
    assume "st' = st"
    then show ?thesis using st(2) by (auto elim: earned_mono)
  qed (use st(2) in \<open>auto simp: earned_def\<close>)
  with st'(1) show ?case by blast
qed

lemma settled_final:
  assumes "bk_items b i = Some e" "es_State e \<in> {EscrowReleased, EscrowRefunded}" "\<forall>c \<in> set calls. \<not> opens i c"
  shows "bk_items (escrowRun mac b calls) i = Some e"
  using assms(3)
proof (induction calls rule: rev_induct)
  case (snoc c calls)
  then have "bk_items (escrowRun mac b calls) i = Some e" "\<not> opens i c" by simp_all
  from escrowCall_moves [OF this, of mac] assms(2) show ?case by auto
qed (simp add: assms(1))

definition pseudonymParts :: "ChannelID \<Rightarrow> u64 \<Rightarrow> string \<times> bytes list" where
  "pseudonymParts ch epoch = (domainSettlePseudonym, [strBytes ch, uint64Bytes epoch])"

subsection \<open>Properties\<close>

text \<open>
  The audit counts every payment once. However receipts are presented in an epoch, the accepted ones
  carry pairwise different payment commitments and the pseudonym of their channel in that very epoch, the
  reported count is their number, and a receipt that the code made is accepted only for its own epoch and
  channel, unless the keyed hash collides on the two pseudonyms.
\<close>

theorem audit_counts_once:
  assumes "auditAll mac (NewSettlementAudit epoch) receipts = (accepted, a)"
  shows "distinct (map (rl_PaymentCommitment \<circ> fst) accepted) \<and> Settled a = length accepted \<and>
    (\<forall>(link, ch) \<in> set accepted. rl_SettlementPseudonym link = PseudonymFor mac ch epoch) \<and>
    (\<forall>ch ch' epoch' nonce amount secret mode. (NewReceiptLink mac ch epoch' nonce amount secret mode, ch') \<in> set accepted \<longrightarrow>
       separates mac {pseudonymParts ch epoch', pseudonymParts ch' epoch} \<longrightarrow>
       length ch < 2 ^ 64 \<longrightarrow> length ch' < 2 ^ 64 \<longrightarrow> epoch' = epoch \<and> ch' = ch)"
proof -
  note facts = auditAll_OK [OF assms, unfolded auditOK_def]
  have other: "epoch' = epoch \<and> ch' = ch"
    if "(NewReceiptLink mac ch epoch' nonce amount secret mode, ch') \<in> set accepted"
      "separates mac {pseudonymParts ch epoch', pseudonymParts ch' epoch}"
      "length ch < 2 ^ 64" "length ch' < 2 ^ 64" for ch ch' epoch' nonce amount secret mode
  proof -
    have "PseudonymFor mac ch epoch' = PseudonymFor mac ch' epoch"
      using facts that(1) by (fastforce simp: NewSettlementAudit_def NewReceiptLink_def)
    then have "[strBytes ch, uint64Bytes epoch'] = [strBytes ch', uint64Bytes epoch]"
      using derive_binds [OF that(2), of domainSettlePseudonym "[strBytes ch, uint64Bytes epoch']" domainSettlePseudonym
          "[strBytes ch', uint64Bytes epoch]"] that(3,4)
      by (simp add: PseudonymFor_def pseudonymParts_def fitsFrame_def strBytes_def)
    then show ?thesis
      using uint64Bytes_inj strBytes_inj by auto
  qed
  have "\<forall>(link, ch) \<in> set accepted. rl_SettlementPseudonym link = PseudonymFor mac ch epoch"
    using facts by (simp add: NewSettlementAudit_def)
  moreover have "Settled a = length accepted"
    using facts by (simp add: Settled_def NewSettlementAudit_def)
  ultimately show ?thesis
    using facts other by auto
qed

theorem audit_counts_once_witness:
  "\<exists>accepted a. auditAll (\<lambda>k m. m) (NewSettlementAudit 7)
      [(NewReceiptLink (\<lambda>k m. m) ''ch'' 7 1 5 zero32 SettleChannel, ''ch''),
       (NewReceiptLink (\<lambda>k m. m) ''ch'' 7 1 5 zero32 SettleChannel, ''ch'')] = (accepted, a) \<and> Settled a = 1"
proof -
  let ?link = "NewReceiptLink (\<lambda>k m. m) ''ch'' 7 1 5 zero32 SettleChannel"
  obtain accepted a where run: "auditAll (\<lambda>k m. m) (NewSettlementAudit 7) [(?link, ''ch''), (?link, ''ch'')] = (accepted, a)"
    by fastforce
  then have "accepted = [(?link, ''ch'')]"
    by (auto simp: AuditRecord_def NewSettlementAudit_def NewReceiptLink_def split: if_splits)
  with audit_counts_once [OF run] run show ?thesis by auto
qed

text \<open>
  An escrow settles once, and for a reason. From the moment an escrow is open, and as long as its id is
  not opened again, no sequence of calls changes anything of it but its state; it is released only by a
  confirmation, by an expiry at or after the deadline, or by the arbiter, refunded only by the arbiter, and
  the arbiter rules only on a dispute raised before the deadline and with a disclosure that opens the
  escrow's own commitment. What is released or refunded stays so.
\<close>

theorem escrow_settles_once:
  assumes "bk_items b i = Some e" "es_State e = EscrowOpen" "\<forall>c \<in> set (before @ after). \<not> opens i c"
  shows "\<exists>st. bk_items (escrowRun mac b before) i = Some (e\<lparr>es_State := st\<rparr>) \<and>
    earned mac (bk_arbiter b) i e (set before) st \<and>
    (st \<in> {EscrowReleased, EscrowRefunded} \<longrightarrow>
       bk_items (escrowRun mac b (before @ after)) i = Some (e\<lparr>es_State := st\<rparr>))"
proof -
  obtain st where st: "bk_items (escrowRun mac b before) i = Some (e\<lparr>es_State := st\<rparr>)"
      "earned mac (bk_arbiter b) i e (set before) st"
    using escrowRun_earned [OF assms(1,2), of before mac] assms(3) by auto
  have "bk_items (escrowRun mac (escrowRun mac b before) after) i = Some (e\<lparr>es_State := st\<rparr>)"
    if "st \<in> {EscrowReleased, EscrowRefunded}"
    using settled_final [OF st(1)] that assms(3) by simp
  with st show ?thesis
    by (auto simp: escrowRun_def)
qed

theorem escrow_settles_once_witness:
  "\<exists>e. bk_items (escrowRun (\<lambda>k m. m) ((NewEscrowBook ''dao'')\<lparr>bk_items := [zero32 \<mapsto> e]\<rparr>)
      [CallDispute zero32 5, CallConfirm zero32, CallExpire zero32 20]) zero32 = Some (e\<lparr>es_State := EscrowDisputed\<rparr>)"
proof -
  define e where "e = \<lparr> es_ID = zero32, es_Buyer = ''b'', es_Seller = ''s'', es_Amount = 5, es_Commitment = zero32,
    es_Deadline = 10, es_State = EscrowOpen \<rparr>"
  let ?b = "(NewEscrowBook ''dao'')\<lparr>bk_items := [zero32 \<mapsto> e]\<rparr>"
  let ?calls = "[CallDispute zero32 5, CallConfirm zero32, CallExpire zero32 20]"
  have "bk_items ?b zero32 = Some e" "es_State e = EscrowOpen" "\<forall>c \<in> set (?calls @ []). \<not> opens zero32 c"
    by (simp_all add: e_def opens_def)
  from escrow_settles_once [OF this] obtain st where
    "bk_items (escrowRun (\<lambda>k m. m) ?b ?calls) zero32 = Some (e\<lparr>es_State := st\<rparr>)" by blast
  moreover have "map_option es_State (bk_items (escrowRun (\<lambda>k m. m) ?b ?calls) zero32) = Some EscrowDisputed"
    by (simp add: escrowRun_def escrowCall_def EscrowDispute_def EscrowConfirm_def EscrowExpire_def setState_def e_def)
  ultimately show ?thesis by auto
qed

text \<open>
  A settled escrow is said to be final, but \<^verbatim>\<open>Open\<close> does not look whether its id is taken: it puts a
  released, refunded or disputed escrow back to open, with other terms.
\<close>

theorem settled_escrow_reopened:
  assumes "bk_items b i = Some old" "es_State old = EscrowRefunded"
    and "es_ID e = i" "0 < es_Amount e" "es_Buyer e \<noteq> []" "es_Seller e \<noteq> []"
  shows "\<exists>b'. EscrowOpenOp b e = (Inr (), b') \<and> EscrowStateOf b' i = Inr EscrowOpen \<and>
    EscrowStateOf (snd (EscrowConfirm b' i)) i = Inr EscrowReleased"
  using assms by (simp add: EscrowOpenOp_def EscrowStateOf_def EscrowConfirm_def setState_def)

end
