(* ===== verification/Voucher.thy ===== *)
theory Voucher
  imports Private_Note
begin

text \<open>
  Streaming payments, \<^verbatim>\<open>src/internal/channel/voucher.go\<close>: cumulative vouchers and the session that accepts
  them. An \<^verbatim>\<open>Amount\<close> is an \<^verbatim>\<open>int64\<close>, its subtraction is wrapped.
\<close>

datatype voucher_error = ErrVoucherStale | ErrVoucherRegressed | ErrVoucherSession | ErrVoucherExceeds | ErrSessionClosed

record Voucher =
  vc_Session :: bytes32
  vc_Sequence :: u64
  vc_CumulativeAmount :: Amount
  vc_Commitment :: bytes32
  vc_IssuedAt :: u64

record VSession =
  vs_ID :: bytes32
  vs_Deposit :: Amount
  vs_newest :: Voucher
  vs_seen :: bool
  vs_closed :: bool

definition domainVoucher :: string where "domainVoucher = ''rabbiit/voucher/commit/v1''"

definition zeroVoucher :: Voucher where
  "zeroVoucher = \<lparr> vc_Session = zero32, vc_Sequence = 0, vc_CumulativeAmount = 0, vc_Commitment = zero32, vc_IssuedAt = 0 \<rparr>"

definition NewSession :: "bytes32 \<Rightarrow> Amount \<Rightarrow> voucher_error + VSession" where
  "NewSession i deposit =
     (if deposit \<le> 0 then Inl ErrVoucherExceeds
      else Inr \<lparr> vs_ID = i, vs_Deposit = deposit, vs_newest = zeroVoucher, vs_seen = False, vs_closed = False \<rparr>)"

definition voucherCommit :: "mac \<Rightarrow> Voucher \<Rightarrow> bytes32" where
  "voucherCommit mac v = derive mac domainVoucher
     [vc_Session v, uint64Bytes (vc_Sequence v), amountBytes (vc_CumulativeAmount v)]"

definition NewVoucher :: "mac \<Rightarrow> bytes32 \<Rightarrow> u64 \<Rightarrow> Amount \<Rightarrow> instant \<Rightarrow> Voucher" where
  "NewVoucher mac session seqNo tot now =
     (let v = \<lparr> vc_Session = session, vc_Sequence = seqNo, vc_CumulativeAmount = tot, vc_Commitment = zero32,
                vc_IssuedAt = unix64 now \<rparr>
      in v\<lparr>vc_Commitment := voucherCommit mac v\<rparr>)"

definition VoucherValid :: "mac \<Rightarrow> Voucher \<Rightarrow> bool" where
  "VoucherValid mac v \<longleftrightarrow> vc_Commitment v = voucherCommit mac v"

definition SessionTotal :: "VSession \<Rightarrow> Amount" where
  "SessionTotal s = (if \<not> vs_seen s then 0 else vc_CumulativeAmount (vs_newest s))"

definition VoucherAccept :: "mac \<Rightarrow> VSession \<Rightarrow> Voucher \<Rightarrow> (voucher_error + Amount) \<times> VSession" where
  "VoucherAccept mac s v =
     (if vs_closed s then (Inl ErrSessionClosed, s)
      else if vc_Session v \<noteq> vs_ID s then (Inl ErrVoucherSession, s)
      else if \<not> VoucherValid mac v then (Inl ErrVoucherRegressed, s)
      else if vc_CumulativeAmount v < 0 \<or> vc_CumulativeAmount v > vs_Deposit s then (Inl ErrVoucherExceeds, s)
      else if vs_seen s \<and> vc_Sequence v < vc_Sequence (vs_newest s) then (Inl ErrVoucherStale, s)
      else if vs_seen s \<and> vc_Sequence v = vc_Sequence (vs_newest s)
      then (if vc_CumulativeAmount v \<noteq> vc_CumulativeAmount (vs_newest s) then (Inl ErrVoucherRegressed, s)
            else (Inr 0, s))
      else if vs_seen s \<and> vc_CumulativeAmount v < vc_CumulativeAmount (vs_newest s) then (Inl ErrVoucherRegressed, s)
      else
        let previous = (if vs_seen s then vc_CumulativeAmount (vs_newest s) else 0) in
        (Inr (i64 (vc_CumulativeAmount v - previous)), s\<lparr>vs_newest := v, vs_seen := True\<rparr>))"

definition SessionRemaining :: "VSession \<Rightarrow> Amount" where
  "SessionRemaining s = i64 (vs_Deposit s - SessionTotal s)"

definition Newest :: "VSession \<Rightarrow> Voucher \<times> bool" where
  "Newest s = (vs_newest s, vs_seen s)"

definition SessionClose :: "VSession \<Rightarrow> Amount \<times> VSession" where
  "SessionClose s = (let s' = s\<lparr>vs_closed := True\<rparr> in (SessionTotal s', s'))"

definition NeedsProof :: "VSession \<Rightarrow> instant \<Rightarrow> instant \<Rightarrow> int \<Rightarrow> Amount \<Rightarrow> Amount \<Rightarrow> bool" where
  "NeedsProof s lastProofAt now epoch sinceProof threshold =
     (if \<not> vs_seen s \<or> vs_closed s then vs_seen s \<and> vs_closed s
      else if timeSub now lastProofAt \<ge> epoch then True
      else sinceProof \<ge> threshold)"

subsection \<open>A session receives\<close>

fun acceptAll :: "mac \<Rightarrow> VSession \<Rightarrow> Voucher list \<Rightarrow> Amount list \<times> VSession" where
  \<comment> \<open>a run of \<open>Accept\<close>: what the accepted vouchers earned\<close>
  "acceptAll mac s [] = ([], s)"
| "acceptAll mac s (v # vs) =
     (case VoucherAccept mac s v of
        (r, s1) \<Rightarrow> (case acceptAll mac s1 vs of
           (earned, s2) \<Rightarrow> ((case r of Inl _ \<Rightarrow> earned | Inr a \<Rightarrow> a # earned), s2)))"

definition sessionOK :: "VSession \<Rightarrow> bool" where
  "sessionOK s \<longleftrightarrow> 0 < vs_Deposit s \<and> vs_Deposit s < 2 ^ 63 \<and> 0 \<le> SessionTotal s \<and> SessionTotal s \<le> vs_Deposit s"

lemma VoucherAccept_step:
  assumes "sessionOK s" "VoucherAccept mac s v = (r, s')"
  obtains (refused) e where "r = Inl e" "s' = s"
  | (again) "r = Inr 0" "s' = s" "vs_seen s" "vc_Sequence v = vc_Sequence (vs_newest s)"
      "vc_CumulativeAmount v = SessionTotal s"
  | (newer) "r = Inr (vc_CumulativeAmount v - SessionTotal s)" "s' = s\<lparr>vs_newest := v, vs_seen := True\<rparr>"
      "SessionTotal s \<le> vc_CumulativeAmount v" "vc_CumulativeAmount v \<le> vs_Deposit s" "sessionOK s'"
      "vs_seen s \<Longrightarrow> vc_Sequence (vs_newest s) < vc_Sequence v" "VoucherValid mac v" "vc_Session v = vs_ID s"
proof (cases r)
  case (Inl e)
  with assms(2) show thesis
    by (intro refused) (auto simp: VoucherAccept_def Let_def split: if_splits)
next
  case (Inr a)
  have pass: "\<not> vs_closed s" "vc_Session v = vs_ID s" "VoucherValid mac v" "0 \<le> vc_CumulativeAmount v"
      "vc_CumulativeAmount v \<le> vs_Deposit s" "vs_seen s \<Longrightarrow> vc_Sequence (vs_newest s) \<le> vc_Sequence v"
    using assms(2) Inr by (auto simp: VoucherAccept_def not_less split: if_splits)
  show thesis
  proof (cases "vs_seen s \<and> vc_Sequence v = vc_Sequence (vs_newest s)")
    case True
    with assms(2) Inr pass show thesis
      by (intro again) (auto simp: VoucherAccept_def SessionTotal_def split: if_splits)
  next
    case False
    have lt: "vc_Sequence (vs_newest s) < vc_Sequence v" if "vs_seen s"
      using False pass(6) that by simp
    have le: "SessionTotal s \<le> vc_CumulativeAmount v"
      using assms(2) Inr pass False by (auto simp: VoucherAccept_def SessionTotal_def not_less split: if_splits)
    have "i64 (vc_CumulativeAmount v - SessionTotal s) = vc_CumulativeAmount v - SessionTotal s"
      using le pass assms(1) by (intro i64_id) (auto simp: sessionOK_def)
    then have "r = Inr (vc_CumulativeAmount v - SessionTotal s)" "s' = s\<lparr>vs_newest := v, vs_seen := True\<rparr>"
      using assms(2) Inr pass False le by (auto simp: VoucherAccept_def SessionTotal_def Let_def split: if_splits)
    with lt le pass assms(1) show thesis
      by (intro newer) (auto simp: sessionOK_def SessionTotal_def)
  qed
qed

lemma acceptAll_facts:
  assumes "sessionOK s" "acceptAll mac s vs = (earned, s')"
  shows "sessionOK s' \<and> vs_Deposit s' = vs_Deposit s \<and> vs_ID s' = vs_ID s \<and> vs_closed s' = vs_closed s \<and>
    SessionTotal s' = SessionTotal s + sum_list earned \<and> (\<forall>a \<in> set earned. 0 \<le> a) \<and>
    (vs_seen s \<longrightarrow> vs_seen s' \<and> vc_Sequence (vs_newest s) \<le> vc_Sequence (vs_newest s'))"
  using assms
proof (induction vs arbitrary: s earned)
  case (Cons v vs)
  obtain r s1 where one: "VoucherAccept mac s v = (r, s1)" by force
  obtain earned1 where rest: "acceptAll mac s1 vs = (earned1, s')"
    "earned = (case r of Inl _ \<Rightarrow> earned1 | Inr a \<Rightarrow> a # earned1)"
    using Cons.prems(2) one by (auto split: prod.splits)
  from Cons.prems(1) one show ?case
  proof (cases rule: VoucherAccept_step)
    case newer
    from Cons.IH [OF newer(5) rest(1)] newer rest(2) show ?thesis
      by (auto simp: SessionTotal_def)
  qed (use Cons.IH Cons.prems(1) rest in auto)
qed simp

subsection \<open>Properties\<close>

text \<open>
  (C25) A session never counts a payment twice. For whatever vouchers arrive - lost, repeated, reordered,
  altered - the amounts reported as newly earned are non-negative and add up to the session's total, which is
  within the deposit, and what remains is the rest; the total is that of the newest voucher, and a voucher
  that was accepted with a new sequence number alone decides it, whichever earlier ones were lost.
\<close>

theorem voucher_accounting:
  assumes "NewSession i deposit = Inr s" "deposit < 2 ^ 63" "acceptAll mac s vouchers = (earned, s')"
  shows "sum_list earned = SessionTotal s' \<and> (\<forall>a \<in> set earned. 0 \<le> a) \<and> SessionTotal s' \<le> deposit \<and>
    SessionRemaining s' = deposit - sum_list earned \<and> 0 \<le> SessionRemaining s' \<and>
    (\<forall>v a s''. VoucherAccept mac s' v = (Inr a, s'') \<longrightarrow>
       SessionTotal s'' = vc_CumulativeAmount v \<and> a = vc_CumulativeAmount v - SessionTotal s' \<and>
       (vs_seen s' \<longrightarrow> vc_Sequence (vs_newest s') \<le> vc_Sequence v))"
proof -
  have s: "sessionOK s" "SessionTotal s = 0" "vs_Deposit s = deposit"
    using assms(1,2) by (auto simp: NewSession_def sessionOK_def SessionTotal_def split: if_splits)
  note facts = acceptAll_facts [OF s(1) assms(3)]
  have "SessionTotal s'' = vc_CumulativeAmount v \<and> a = vc_CumulativeAmount v - SessionTotal s' \<and>
      (vs_seen s' \<longrightarrow> vc_Sequence (vs_newest s') \<le> vc_Sequence v)"
    if "VoucherAccept mac s' v = (Inr a, s'')" for v a s''
    using conjunct1 [OF facts] that
    by (cases rule: VoucherAccept_step) (auto simp: SessionTotal_def intro: less_imp_le)
  moreover have "SessionRemaining s' = deposit - sum_list earned"
    using facts s by (simp add: SessionRemaining_def sessionOK_def)
  ultimately show ?thesis
    using facts s by (auto simp: sessionOK_def)
qed

theorem voucher_accounting_witness:
  "\<exists>s earned s'. NewSession zero32 100 = Inr s \<and>
     acceptAll (\<lambda>k m. m) s [NewVoucher (\<lambda>k m. m) zero32 1 10 0, NewVoucher (\<lambda>k m. m) zero32 3 40 0,
       NewVoucher (\<lambda>k m. m) zero32 2 20 0, NewVoucher (\<lambda>k m. m) zero32 3 40 0] = (earned, s') \<and>
     earned = [10, 30, 0] \<and> SessionRemaining s' = 60"
proof -
  obtain s where s: "NewSession zero32 100 = Inr s"
    by (simp add: NewSession_def)
  let ?vs = "[NewVoucher (\<lambda>k m. m) zero32 1 10 0, NewVoucher (\<lambda>k m. m) zero32 3 40 0,
       NewVoucher (\<lambda>k m. m) zero32 2 20 0, NewVoucher (\<lambda>k m. m) zero32 3 40 0]"
  obtain earned s' where run: "acceptAll (\<lambda>k m. m) s ?vs = (earned, s')" by fastforce
  have c: "VoucherValid mac (NewVoucher mac j n t u)" for mac j n t u
    by (simp add: VoucherValid_def NewVoucher_def voucherCommit_def Let_def)
  have f: "vc_Session (NewVoucher mac j n t u) = j" "vc_Sequence (NewVoucher mac j n t u) = n"
    "vc_CumulativeAmount (NewVoucher mac j n t u) = t" for mac j n t u
    by (simp_all add: NewVoucher_def Let_def)
  have "earned = [10, 30, 0]"
    using s run by (auto simp: NewSession_def VoucherAccept_def c f Let_def)
  with voucher_accounting [OF s _ run] s run show ?thesis
    by auto
qed

end
