(* ===== verification/Hub.thy ===== *)
theory Hub
  imports Complex_Main Private_Note "HOL-Library.AList" "HOL-Library.Product_Lexorder" "HOL-Library.Char_ord"
begin

text \<open>
  The viewer hub, \<^verbatim>\<open>src/internal/channel/hub.go\<close>, and the rebalancing plan of \<^verbatim>\<open>rebalance.go\<close>. A map is an
  association list with one entry per key; a method holds the mutex for its whole body. Sums of \<^verbatim>\<open>Amount\<close>s
  are 64-bit. The rounding of a floating-point operation is an argument \<open>rnd\<close>.
\<close>

datatype hub_error =
    ErrNoOutbound | ErrHubExhausted | ErrUnknownReader | ErrReaderShort | ErrNotReserved
  | HubInsufficient | ErrDoubleSpend | ErrPointMismatch

record Reservation =
  rv_Reader :: NodeID
  rv_Recipient :: NodeID
  rv_Amount :: Amount
  rv_Condition :: bytes32

record Hub =
  hb_readers :: "(NodeID \<times> Amount) list"
  hb_recipients :: "(NodeID \<times> Amount) list"
    \<comment> \<open>the outbound capacity of each recipient\<close>
  hb_reserved :: "(bytes32 \<times> Reservation) list"
  hb_Delivered :: u64
  hb_Failed :: u64

definition NewHub :: Hub where
  "NewHub = \<lparr> hb_readers = [], hb_recipients = [], hb_reserved = [], hb_Delivered = 0, hb_Failed = 0 \<rparr>"

definition amountAt :: "(NodeID \<times> Amount) list \<Rightarrow> NodeID \<Rightarrow> Amount" where
  \<comment> \<open>indexing a Go map: the zero value for an absent key\<close>
  "amountAt m k = (case map_of m k of None \<Rightarrow> 0 | Some v \<Rightarrow> v)"

definition HashOf :: "mac \<Rightarrow> bytes32 \<Rightarrow> bytes32" where
  "HashOf mac secret = derive mac ''rabbiit/hub/condition/v1'' [secret]"

definition OpenReader :: "Hub \<Rightarrow> NodeID \<Rightarrow> Amount \<Rightarrow> (hub_error + unit) \<times> Hub" where
  "OpenReader h reader deposit =
     (if deposit \<le> 0 then (Inl HubInsufficient, h)
      else (Inr (), h\<lparr>hb_readers := AList.update reader (i64 (amountAt (hb_readers h) reader + deposit)) (hb_readers h)\<rparr>))"

definition FundRecipient :: "Hub \<Rightarrow> NodeID \<Rightarrow> Amount \<Rightarrow> Hub" where
  "FundRecipient h i outbound =
     (case map_of (hb_recipients h) i of
        Some r \<Rightarrow> h\<lparr>hb_recipients := AList.update i (i64 (r + outbound)) (hb_recipients h)\<rparr>
      | None \<Rightarrow> h\<lparr>hb_recipients := AList.update i outbound (hb_recipients h)\<rparr>)"

definition Reserve ::
  "Hub \<Rightarrow> NodeID \<Rightarrow> NodeID \<Rightarrow> Amount \<Rightarrow> bytes32 \<Rightarrow> (hub_error + Reservation) \<times> Hub" where
  "Reserve h reader recipient amount condition =
     (if amount \<le> 0 then (Inl HubInsufficient, h)
      else
        (case map_of (hb_readers h) reader of
           None \<Rightarrow> (Inl ErrUnknownReader, h)
         | Some available \<Rightarrow>
             if available < amount then (Inl ErrReaderShort, h)
             else
               (case map_of (hb_recipients h) recipient of
                  None \<Rightarrow> (Inl ErrNoOutbound, h)
                | Some outbound \<Rightarrow>
                    if outbound < amount then (Inl ErrHubExhausted, h\<lparr>hb_Failed := hb_Failed h + 1\<rparr>)
                    else if map_of (hb_reserved h) condition \<noteq> None then (Inl ErrDoubleSpend, h)
                    else
                      let res = \<lparr> rv_Reader = reader, rv_Recipient = recipient, rv_Amount = amount, rv_Condition = condition \<rparr> in
                      (Inr res, h\<lparr>hb_readers := AList.update reader (i64 (available - amount)) (hb_readers h),
                         hb_recipients := AList.update recipient (i64 (outbound - amount)) (hb_recipients h),
                         hb_reserved := AList.update condition res (hb_reserved h)\<rparr>))))"

definition Deliver :: "mac \<Rightarrow> Hub \<Rightarrow> bytes32 \<Rightarrow> bytes32 \<Rightarrow> (hub_error + unit) \<times> Hub" where
  "Deliver mac h condition secret =
     (if HashOf mac secret \<noteq> condition then (Inl ErrPointMismatch, h)
      else if map_of (hb_reserved h) condition = None then (Inl ErrNotReserved, h)
      else (Inr (), h\<lparr>hb_reserved := AList.delete condition (hb_reserved h), hb_Delivered := hb_Delivered h + 1\<rparr>))"

definition Cancel :: "Hub \<Rightarrow> bytes32 \<Rightarrow> (hub_error + unit) \<times> Hub" where
  "Cancel h condition =
     (case map_of (hb_reserved h) condition of
        None \<Rightarrow> (Inl ErrNotReserved, h)
      | Some res \<Rightarrow>
          let h1 = h\<lparr>hb_readers := AList.update (rv_Reader res)
                 (i64 (amountAt (hb_readers h) (rv_Reader res) + rv_Amount res)) (hb_readers h)\<rparr>;
              h2 = (case map_of (hb_recipients h1) (rv_Recipient res) of
                      None \<Rightarrow> h1
                    | Some outbound \<Rightarrow> h1\<lparr>hb_recipients := AList.update (rv_Recipient res)
                        (i64 (outbound + rv_Amount res)) (hb_recipients h1)\<rparr>)
          in (Inr (), h2\<lparr>hb_reserved := AList.delete condition (hb_reserved h2), hb_Failed := hb_Failed h2 + 1\<rparr>))"

definition ReaderBalance :: "Hub \<Rightarrow> NodeID \<Rightarrow> Amount" where
  "ReaderBalance h reader = amountAt (hb_readers h) reader"

definition OutboundTo :: "Hub \<Rightarrow> NodeID \<Rightarrow> Amount" where
  "OutboundTo h i = amountAt (hb_recipients h) i"

definition HubInFlight :: "Hub \<Rightarrow> Amount" where
  "HubInFlight h = fold (\<lambda>(_, r) tot. i64 (tot + rv_Amount r)) (hb_reserved h) 0"

definition HubHoldings :: "Hub \<Rightarrow> Amount" where
  "HubHoldings h = 0"

subsection \<open>Rebalancing\<close>

definition StarvationThreshold :: rat where
  "StarvationThreshold = 1 / 5"

record RebalanceAction =
  ra_Recipient :: NodeID
  ra_Need :: Amount
  ra_Method :: string
  ra_OnChain :: bool

definition fillRatio :: "(rat \<Rightarrow> rat) \<Rightarrow> Amount \<Rightarrow> Amount \<Rightarrow> rat" where
  \<comment> \<open>\<^verbatim>\<open>float64(have) / float64(funded)\<close>\<close>
  "fillRatio rnd have funded = rnd (rnd (of_int have) / rnd (of_int funded))"

definition starvedOf ::
  "(rat \<Rightarrow> rat) \<Rightarrow> Hub \<Rightarrow> (NodeID \<rightharpoonup> Amount) \<Rightarrow> (NodeID \<times> Amount \<times> Amount) list" where
  \<comment> \<open>the loop over the recipients: id, capacity held, capacity funded\<close>
  "starvedOf rnd h original =
     List.map_filter (\<lambda>(i, outbound). case original i of
         None \<Rightarrow> None
       | Some funded \<Rightarrow> if funded \<le> 0 then None
           else if fillRatio rnd outbound funded < rnd StarvationThreshold then Some (i, outbound, funded) else None)
       (hb_recipients h)"

definition PlanRebalance ::
  "(rat \<Rightarrow> rat) \<Rightarrow> Hub \<Rightarrow> (NodeID \<rightharpoonup> Amount) \<Rightarrow> bool \<Rightarrow> RebalanceAction list" where
  "PlanRebalance rnd h original circularAvailable =
     map (\<lambda>(i, held, want).
         if circularAvailable
         then \<lparr> ra_Recipient = i, ra_Need = i64 (want - held), ra_Method = ''circular'', ra_OnChain = False \<rparr>
         else \<lparr> ra_Recipient = i, ra_Need = i64 (want - held), ra_Method = ''on-chain'', ra_OnChain = True \<rparr>)
       (sort_key (\<lambda>(i, held, want). (fillRatio rnd held want, i)) (starvedOf rnd h original))"

definition CanStillPay :: "Hub \<Rightarrow> NodeID \<Rightarrow> Amount" where
  "CanStillPay h recipient = OutboundTo h recipient"

record HealthSummary =
  hs_Recipients :: nat
  hs_Starved :: nat
  hs_TotalOutbound :: Amount
  hs_TotalInbound :: Amount
  hs_InFlight :: Amount

definition Health :: "(rat \<Rightarrow> rat) \<Rightarrow> Hub \<Rightarrow> (NodeID \<rightharpoonup> Amount) \<Rightarrow> HealthSummary" where
  "Health rnd h original =
     \<lparr> hs_Recipients = length (hb_recipients h), hs_Starved = length (starvedOf rnd h original),
       hs_TotalOutbound = fold (\<lambda>(_, v) tot. i64 (tot + v)) (hb_recipients h) 0,
       hs_TotalInbound = fold (\<lambda>(_, v) tot. i64 (tot + v)) (hb_readers h) 0,
       hs_InFlight = HubInFlight h \<rparr>"

subsection \<open>The books of a hub\<close>

text \<open>
  A ledger kept beside the hub, by no code: what every reader put in, what every recipient's channel was
  funded with in all, how much of that was taken back by fundings with a negative amount, and the reservations
  that were delivered.
\<close>

record Ledger =
  lg_deposited :: "NodeID \<Rightarrow> int"
  lg_funded :: "NodeID \<Rightarrow> int"
  lg_withdrawn :: "NodeID \<Rightarrow> int"
  lg_paid :: "Reservation list"

definition held :: "(Reservation \<Rightarrow> NodeID) \<Rightarrow> (bytes32 \<times> Reservation) list \<Rightarrow> NodeID \<Rightarrow> int" where
  "held side rs x = sum_list (map (\<lambda>(_, r). if side r = x then rv_Amount r else 0) rs)"

definition paid :: "(Reservation \<Rightarrow> NodeID) \<Rightarrow> Reservation list \<Rightarrow> NodeID \<Rightarrow> int" where
  "paid side rs x = sum_list (map (\<lambda>r. if side r = x then rv_Amount r else 0) rs)"

definition hubLocksOK ::
  "(NodeID \<times> Amount) list \<Rightarrow> (NodeID \<times> Amount) list \<Rightarrow> (bytes32 \<times> Reservation) list \<Rightarrow> bool" where
  \<comment> \<open>every reservation is positive, under its own condition, and its two channels exist\<close>
  "hubLocksOK readers recipients rs \<longleftrightarrow> distinct (map fst rs) \<and> (\<forall>(c, r) \<in> set rs. 0 < rv_Amount r \<and> rv_Condition r = c \<and>
     rv_Reader r \<in> dom (map_of readers) \<and> rv_Recipient r \<in> dom (map_of recipients))"

definition aboveFloor :: "(NodeID \<Rightarrow> int) \<Rightarrow> (NodeID \<times> Amount) list \<Rightarrow> bool" where
  \<comment> \<open>a capacity is below zero by no more than what was taken back\<close>
  "aboveFloor w m \<longleftrightarrow> (\<forall>x. 0 \<le> w x \<and> w x < 2 ^ 63 \<and> - w x \<le> amountAt m x)"

definition balanced :: "Hub \<Rightarrow> Ledger \<Rightarrow> bool" where
  "balanced h g \<longleftrightarrow>
     distinct (map fst (hb_readers h)) \<and> distinct (map fst (hb_recipients h)) \<and>
     hubLocksOK (hb_readers h) (hb_recipients h) (hb_reserved h) \<and>
     aboveFloor (lg_withdrawn g) (hb_recipients h) \<and> (\<forall>x. 0 \<le> amountAt (hb_readers h) x) \<and>
     (\<forall>x. amountAt (hb_readers h) x = lg_deposited g x - held rv_Reader (hb_reserved h) x - paid rv_Reader (lg_paid g) x) \<and>
     (\<forall>x. amountAt (hb_recipients h) x = lg_funded g x - held rv_Recipient (hb_reserved h) x - paid rv_Recipient (lg_paid g) x) \<and>
     (\<forall>r \<in> set (lg_paid g). 0 < rv_Amount r) \<and>
     (\<forall>x. lg_deposited g x < 2 ^ 63 \<and> lg_funded g x + lg_withdrawn g x < 2 ^ 63)"

definition book :: "Ledger \<Rightarrow> NodeID \<Rightarrow> Amount \<Rightarrow> Ledger" where
  \<comment> \<open>a funding of either sign\<close>
  "book g i v = g\<lparr>lg_funded := (lg_funded g)(i := lg_funded g i + v),
     lg_withdrawn := (lg_withdrawn g)(i := lg_withdrawn g i + max 0 (- v))\<rparr>"

definition booksFit :: "Ledger \<Rightarrow> NodeID \<Rightarrow> bool" where
  \<comment> \<open>neither what was committed to the recipient nor what was taken back reaches 2^63\<close>
  "booksFit g i \<longleftrightarrow> lg_funded g i + lg_withdrawn g i < 2 ^ 63 \<and> lg_withdrawn g i < 2 ^ 63"

inductive hubStep :: "mac \<Rightarrow> Hub \<times> Ledger \<Rightarrow> Hub \<times> Ledger \<Rightarrow> bool" for mac where
  deposit: "OpenReader h reader v = (Inr (), h') \<Longrightarrow> lg_deposited g reader + v < 2 ^ 63 \<Longrightarrow>
    hubStep mac (h, g) (h', g\<lparr>lg_deposited := (lg_deposited g)(reader := lg_deposited g reader + v)\<rparr>)"
| fund: "booksFit (book g i v) i \<Longrightarrow> hubStep mac (h, g) (FundRecipient h i v, book g i v)"
| reserve: "hubStep mac (h, g) (snd (Reserve h reader recipient v c), g)"
| deliver: "Deliver mac h c secret = (Inr (), h') \<Longrightarrow> map_of (hb_reserved h) c = Some r \<Longrightarrow>
    hubStep mac (h, g) (h', g\<lparr>lg_paid := r # lg_paid g\<rparr>)"
| refuse: "Deliver mac h c secret = (Inl e, h') \<Longrightarrow> hubStep mac (h, g) (h', g)"
| cancel: "hubStep mac (h, g) (snd (Cancel h c), g)"

lemma amountAt_update [simp]: "amountAt (AList.update k v m) x = (if x = k then v else amountAt m x)"
  by (simp add: amountAt_def update_conv')

lemma aboveFloor_update:
  "aboveFloor w m \<Longrightarrow> - w k \<le> v \<Longrightarrow> aboveFloor w (AList.update k v m)"
  "aboveFloor w m \<Longrightarrow> - u \<le> v \<Longrightarrow> 0 \<le> u \<Longrightarrow> u < 2 ^ 63 \<Longrightarrow> aboveFloor (w(k := u)) (AList.update k v m)"
  by (simp_all add: aboveFloor_def)

lemma amountAt_Some: "map_of m k = Some v \<Longrightarrow> amountAt m k = v"
  by (simp add: amountAt_def)

lemma amountAt_None: "map_of m k = None \<Longrightarrow> amountAt m k = 0"
  by (simp add: amountAt_def)

lemma AList_update_fresh: "map_of al k = None \<Longrightarrow> AList.update k v al = al @ [(k, v)]"
  by (induction al) (auto split: if_splits)

lemma held_new [simp]: "held side (rs @ [(c, r)]) x = held side rs x + (if side r = x then rv_Amount r else 0)"
  by (simp add: held_def)

lemma held_delete:
  "distinct (map fst rs) \<Longrightarrow> map_of rs c = Some r \<Longrightarrow>
   held side (AList.delete c rs) x = held side rs x - (if side r = x then rv_Amount r else 0)"
proof (induction rs)
  case (Cons e rs)
  obtain k s where e: "e = (k, s)" by force
  show ?case
  proof (cases "k = c")
    case True
    then have "map_of rs c = None" using Cons.prems(1) by (auto simp: e map_of_eq_None_iff image_iff)
    then have "AList.delete c rs = rs"
      by (simp add: delete_id map_of_eq_None_iff)
    with Cons.prems(2) True show ?thesis by (simp add: e held_def)
  next
    case False
    with Cons show ?thesis by (simp add: e held_def)
  qed
qed simp

lemma held_nonneg: "\<forall>(c, r) \<in> set rs. 0 < rv_Amount r \<Longrightarrow> 0 \<le> held side rs x"
  unfolding held_def by (rule sum_list_nonneg) (auto split: if_splits)

lemma paid_nonneg: "\<forall>r \<in> set rs. 0 < rv_Amount r \<Longrightarrow> 0 \<le> paid side rs x"
  unfolding paid_def by (rule sum_list_nonneg) (auto split: if_splits)

lemma paid_Cons [simp]: "paid side (r # rs) x = (if side r = x then rv_Amount r else 0) + paid side rs x"
  by (simp add: paid_def)

lemma hubLocksOK_facts:
  assumes "hubLocksOK readers recipients rs"
  shows "distinct (map fst rs)" "\<forall>(c, r) \<in> set rs. 0 < rv_Amount r"
  using assms by (auto simp: hubLocksOK_def)

lemma hubLocksOK_delete: "hubLocksOK readers recipients rs \<Longrightarrow> hubLocksOK readers recipients (AList.delete c rs)"
  by (auto simp: hubLocksOK_def AList.delete_eq distinct_map_filter)

lemma hubLocksOK_grow:
  "hubLocksOK readers recipients rs \<Longrightarrow> hubLocksOK (AList.update x v readers) recipients rs"
  "hubLocksOK readers recipients rs \<Longrightarrow> hubLocksOK readers (AList.update y w recipients) rs"
  by (auto simp: hubLocksOK_def update_conv')

lemma hubLocksOK_snoc:
  assumes "hubLocksOK readers recipients rs" "c \<notin> fst ` set rs" "0 < rv_Amount r" "rv_Condition r = c"
    "rv_Reader r \<in> dom (map_of readers)" "rv_Recipient r \<in> dom (map_of recipients)"
  shows "hubLocksOK readers recipients (rs @ [(c, r)])"
  using assms by (auto simp: hubLocksOK_def)

lemma hubLocksOK_member:
  assumes "hubLocksOK readers recipients rs" "map_of rs c = Some r"
  shows "0 < rv_Amount r" "map_of readers (rv_Reader r) \<noteq> None" "map_of recipients (rv_Recipient r) \<noteq> None"
  using assms by (auto simp: hubLocksOK_def dest!: map_of_SomeD)

lemma balanced_bounds:
  assumes "balanced h g"
  shows "0 \<le> held side (hb_reserved h) x" "0 \<le> paid side (lg_paid g) x"
  using assms by (auto simp: balanced_def intro!: held_nonneg paid_nonneg dest: hubLocksOK_facts)

lemma balanced_room:
  assumes "balanced h g"
  shows "amountAt (hb_readers h) x \<le> lg_deposited g x \<and> amountAt (hb_recipients h) x \<le> lg_funded g x \<and>
    amountAt (hb_readers h) x + held rv_Reader (hb_reserved h) x \<le> lg_deposited g x \<and>
    amountAt (hb_recipients h) x + held rv_Recipient (hb_reserved h) x \<le> lg_funded g x"
proof -
  have "amountAt (hb_readers h) x = lg_deposited g x - held rv_Reader (hb_reserved h) x - paid rv_Reader (lg_paid g) x"
    "amountAt (hb_recipients h) x = lg_funded g x - held rv_Recipient (hb_reserved h) x - paid rv_Recipient (lg_paid g) x"
    using assms by (simp_all add: balanced_def)
  then show ?thesis
    using balanced_bounds [OF assms, of rv_Reader x] balanced_bounds [OF assms, of rv_Recipient x] by simp
qed

lemma balanced_floor:
  assumes "balanced h g"
  shows "0 \<le> lg_withdrawn g x \<and> - lg_withdrawn g x \<le> amountAt (hb_recipients h) x \<and> lg_withdrawn g x < 2 ^ 63 \<and>
    lg_funded g x + lg_withdrawn g x < 2 ^ 63 \<and> lg_funded g x < 2 ^ 63"
proof -
  have "0 \<le> lg_withdrawn g x" "- lg_withdrawn g x \<le> amountAt (hb_recipients h) x" "lg_withdrawn g x < 2 ^ 63"
    "lg_funded g x + lg_withdrawn g x < 2 ^ 63"
    using assms unfolding balanced_def aboveFloor_def by blast+
  then show ?thesis by linarith
qed

lemma held_at_least:
  assumes "distinct (map fst rs)" "map_of rs c = Some r" "\<forall>(c, r) \<in> set rs. 0 < rv_Amount r"
  shows "rv_Amount r \<le> held side rs (side r)"
proof -
  have "\<forall>(c, r) \<in> set (AList.delete c rs). 0 < rv_Amount r"
    using assms(3) by (auto simp: AList.delete_eq)
  from held_nonneg [OF this, of side "side r"] show ?thesis
    using held_delete [OF assms(1,2), of side "side r"] by simp
qed

lemma i64_amount: "0 \<le> v \<Longrightarrow> v < 2 ^ 63 \<Longrightarrow> i64 v = v"
  by (rule i64_id) simp_all

lemma balanced_open:
  assumes "balanced h g" "OpenReader h reader v = (Inr (), h')" "lg_deposited g reader + v < 2 ^ 63"
  shows "balanced h' (g\<lparr>lg_deposited := (lg_deposited g)(reader := lg_deposited g reader + v)\<rparr>)"
proof -
  have v: "0 < v" and h': "h' = h\<lparr>hb_readers := AList.update reader (i64 (amountAt (hb_readers h) reader + v)) (hb_readers h)\<rparr>"
    using assms(2) by (auto simp: OpenReader_def split: if_splits)
  have "0 \<le> amountAt (hb_readers h) reader" "amountAt (hb_readers h) reader \<le> lg_deposited g reader"
    using assms(1) balanced_room [OF assms(1)] by (auto simp: balanced_def)
  then have "i64 (amountAt (hb_readers h) reader + v) = amountAt (hb_readers h) reader + v"
    using v assms(3) by (intro i64_amount) simp_all
  then show ?thesis
    using assms(1,3) v unfolding h'
    by (auto simp: balanced_def distinct_update hubLocksOK_grow)
qed

lemma balanced_fund:
  assumes "balanced h g" "booksFit (book g i v) i"
  shows "balanced (FundRecipient h i v) (book g i v)"
proof -
  have a: "- lg_withdrawn g i \<le> amountAt (hb_recipients h) i" "amountAt (hb_recipients h) i \<le> lg_funded g i" "0 \<le> lg_withdrawn g i"
    using balanced_floor [OF assms(1)] balanced_room [OF assms(1)] by blast+
  have w: "lg_funded g i + lg_withdrawn g i + max 0 v < 2 ^ 63" "lg_withdrawn g i + max 0 (- v) < 2 ^ 63"
    using assms(2) by (auto simp: booksFit_def book_def max_def split: if_splits)
  then have "i64 (amountAt (hb_recipients h) i + v) = amountAt (hb_recipients h) i + v"
    using a by (intro i64_id) (auto simp: max_def split: if_splits)
  then have "FundRecipient h i v = h\<lparr>hb_recipients := AList.update i (amountAt (hb_recipients h) i + v) (hb_recipients h)\<rparr>"
    by (auto simp: FundRecipient_def amountAt_def split: option.split)
  then show ?thesis
    using assms a w by (auto simp: balanced_def book_def booksFit_def distinct_update hubLocksOK_grow intro!: aboveFloor_update(2))
qed

lemma balanced_reserve:
  assumes "balanced h g"
  shows "balanced (snd (Reserve h reader recipient v c)) g"
proof (cases "isl (fst (Reserve h reader recipient v c))")
  case True
  then have "snd (Reserve h reader recipient v c) \<in> {h, h\<lparr>hb_Failed := hb_Failed h + 1\<rparr>}"
    by (auto simp: Reserve_def Let_def split: option.splits if_splits)
  then show ?thesis
    using assms by (auto simp: balanced_def)
next
  case False
  let ?r = "\<lparr> rv_Reader = reader, rv_Recipient = recipient, rv_Amount = v, rv_Condition = c \<rparr>"
  from False obtain a b where ab: "0 < v" "map_of (hb_readers h) reader = Some a" "v \<le> a"
      "map_of (hb_recipients h) recipient = Some b" "v \<le> b" "map_of (hb_reserved h) c = None"
    by (auto simp: Reserve_def Let_def not_less not_le split: option.splits if_splits)
  have "a \<le> lg_deposited g reader" "b \<le> lg_funded g recipient"
    using balanced_room [OF assms, of reader] balanced_room [OF assms, of recipient]
      amountAt_Some [OF ab(2)] amountAt_Some [OF ab(4)] by simp_all
  moreover have "lg_deposited g reader < 2 ^ 63" "lg_funded g recipient < 2 ^ 63"
    using assms balanced_floor [OF assms] by (simp_all add: balanced_def)
  ultimately have w: "i64 (a - v) = a - v" "i64 (b - v) = b - v"
    using ab by (intro i64_amount; simp)+
  have "snd (Reserve h reader recipient v c) = h\<lparr>hb_readers := AList.update reader (a - v) (hb_readers h),
      hb_recipients := AList.update recipient (b - v) (hb_recipients h), hb_reserved := hb_reserved h @ [(c, ?r)]\<rparr>"
    using ab by (simp add: Reserve_def w AList_update_fresh Let_def)
  moreover have "c \<notin> fst ` set (hb_reserved h)"
    using ab by (simp add: map_of_eq_None_iff)
  ultimately show ?thesis
    using assms ab amountAt_Some [OF ab(2)] amountAt_Some [OF ab(4)]
      balanced_floor [OF assms, of recipient]
    by (auto simp: balanced_def distinct_update intro!: hubLocksOK_snoc hubLocksOK_grow aboveFloor_update(1))
qed

lemma balanced_deliver:
  assumes "balanced h g" "Deliver mac h c secret = (Inr (), h')" "map_of (hb_reserved h) c = Some r"
  shows "balanced h' (g\<lparr>lg_paid := r # lg_paid g\<rparr>)"
proof -
  have h': "h' = h\<lparr>hb_reserved := AList.delete c (hb_reserved h), hb_Delivered := hb_Delivered h + 1\<rparr>"
    using assms(2) by (auto simp: Deliver_def split: if_splits)
  have locks: "hubLocksOK (hb_readers h) (hb_recipients h) (hb_reserved h)"
    using assms(1) by (simp add: balanced_def)
  show ?thesis
    using assms(1) hubLocksOK_member(1) [OF locks assms(3)] unfolding h'
    by (auto simp: balanced_def held_delete [OF hubLocksOK_facts(1) [OF locks] assms(3)] hubLocksOK_delete)
qed

lemma balanced_cancel:
  assumes "balanced h g"
  shows "balanced (snd (Cancel h c)) g"
proof (cases "map_of (hb_reserved h) c")
  case None
  with assms show ?thesis by (simp add: Cancel_def)
next
  case (Some r)
  have locks: "hubLocksOK (hb_readers h) (hb_recipients h) (hb_reserved h)"
    using assms by (simp add: balanced_def)
  note d = hubLocksOK_facts(1) [OF locks] and pos = hubLocksOK_facts(2) [OF locks]
  note r = hubLocksOK_member(1) [OF locks Some] and known = hubLocksOK_member(2,3) [OF locks Some]
  let ?a = "amountAt (hb_readers h) (rv_Reader r)" and ?b = "amountAt (hb_recipients h) (rv_Recipient r)"
  have "?a + rv_Amount r \<le> lg_deposited g (rv_Reader r)" "?b + rv_Amount r \<le> lg_funded g (rv_Recipient r)"
    using balanced_room [OF assms] held_at_least [OF d Some pos, of rv_Reader]
      held_at_least [OF d Some pos, of rv_Recipient] by (smt (verit))+
  moreover have "lg_deposited g (rv_Reader r) < 2 ^ 63" "lg_funded g (rv_Recipient r) < 2 ^ 63" "0 \<le> ?a" "- (2 ^ 63) < ?b"
    using assms balanced_floor [OF assms, of "rv_Recipient r"] unfolding balanced_def by (blast, linarith, blast, linarith)
  ultimately have w: "i64 (?a + rv_Amount r) = ?a + rv_Amount r" "i64 (?b + rv_Amount r) = ?b + rv_Amount r"
    using r by (intro i64_id; linarith)+
  obtain b where b: "map_of (hb_recipients h) (rv_Recipient r) = Some b" "b = ?b"
    using known(2) by (auto simp: amountAt_def)
  have "snd (Cancel h c) = h\<lparr>hb_readers := AList.update (rv_Reader r) (?a + rv_Amount r) (hb_readers h),
      hb_recipients := AList.update (rv_Recipient r) (?b + rv_Amount r) (hb_recipients h),
      hb_reserved := AList.delete c (hb_reserved h), hb_Failed := hb_Failed h + 1\<rparr>"
    using Some b w by (simp add: Cancel_def Let_def)
  then show ?thesis
    using assms r balanced_floor [OF assms, of "rv_Recipient r"]
    by (auto simp: balanced_def held_delete [OF d Some] distinct_update intro!: hubLocksOK_delete hubLocksOK_grow aboveFloor_update(1))
qed

lemma hubStep_balanced: "hubStep mac (h, g) (h', g') \<Longrightarrow> balanced h g \<Longrightarrow> balanced h' g'"
proof (induction "(h, g)" "(h', g')" rule: hubStep.induct)
  case (refuse c secret e)
  then show ?case by (auto simp: Deliver_def split: if_splits)
qed (auto intro: balanced_open balanced_fund balanced_reserve balanced_deliver balanced_cancel)

definition emptyLedger :: Ledger where
  "emptyLedger = \<lparr> lg_deposited = (\<lambda>_. 0), lg_funded = (\<lambda>_. 0), lg_withdrawn = (\<lambda>_. 0), lg_paid = [] \<rparr>"

lemma balanced_new: "balanced NewHub emptyLedger"
  by (simp add: balanced_def aboveFloor_def NewHub_def emptyLedger_def held_def paid_def amountAt_def hubLocksOK_def)

lemma i64_add: "i64 (i64 a + b) = i64 (a + b)"
proof -
  have "i64 a + b + 2 ^ 63 = (a + 2 ^ 63) mod 2 ^ 64 + b"
    by (simp add: i64_def)
  then have "(i64 a + b + 2 ^ 63) mod 2 ^ 64 = (a + 2 ^ 63 + b) mod 2 ^ 64"
    by (metis mod_add_left_eq)
  then show ?thesis
    by (simp add: i64_def algebra_simps)
qed

lemma HubInFlight_sum: "HubInFlight h = i64 (sum_list (map (\<lambda>(_, r). rv_Amount r) (hb_reserved h)))"
proof -
  have "fold (\<lambda>(_, r) tot. i64 (tot + rv_Amount r)) rs (i64 a) = i64 (a + sum_list (map (\<lambda>(_, r). rv_Amount r) rs))" for rs a
    by (induction rs arbitrary: a) (auto simp: i64_add add.assoc)
  from this [of "hb_reserved h" 0] show ?thesis
    by (simp add: HubInFlight_def)
qed

definition revealed :: "mac \<Rightarrow> Ledger \<Rightarrow> bool" where
  \<comment> \<open>every delivered reservation was opened by its secret\<close>
  "revealed mac g \<longleftrightarrow> (\<forall>r \<in> set (lg_paid g). \<exists>secret. HashOf mac secret = rv_Condition r)"

lemma hubStep_revealed: "hubStep mac (h, g) (h', g') \<Longrightarrow> balanced h g \<Longrightarrow> revealed mac g \<Longrightarrow> revealed mac g'"
proof (induction "(h, g)" "(h', g')" rule: hubStep.induct)
  case (deliver c secret r)
  then have "rv_Condition r = c"
    by (auto simp: balanced_def hubLocksOK_def dest!: map_of_SomeD)
  with deliver show ?case
    by (auto simp: revealed_def Deliver_def split: if_splits)
qed (auto simp: revealed_def book_def)

lemma hubRun_kept:
  "(hubStep mac)\<^sup>*\<^sup>* s t \<Longrightarrow> balanced (fst s) (snd s) \<Longrightarrow> revealed mac (snd s) \<Longrightarrow> balanced (fst t) (snd t) \<and> revealed mac (snd t)"
proof (induction rule: rtranclp_induct)
  case (step t u)
  then show ?case using hubStep_balanced hubStep_revealed by (metis prod.collapse)
qed simp

subsection \<open>Properties\<close>

text \<open>
  (C26) The hub keeps nothing. However deposits, fundings of either sign, reservations, deliveries and cancellations
  interleave, every reader's balance is exactly what it put in less what is locked for it in flight and what
  was delivered on its behalf, and never negative; every recipient's outbound capacity is what the hub committed
  less the same, below zero by no more than fundings with a negative amount took back, so never without one; every
  delivered reservation was opened by a secret of its condition; and the total in flight is the sum of the
  reservations, in 64 bits. What a reader put in, what was committed to a recipient and what was taken back stay
  below 2^63.
\<close>

theorem hub_books_balance:
  assumes "(hubStep mac)\<^sup>*\<^sup>* (NewHub, emptyLedger) (h, g)"
  shows "ReaderBalance h x + held rv_Reader (hb_reserved h) x + paid rv_Reader (lg_paid g) x = lg_deposited g x \<and>
    OutboundTo h x + held rv_Recipient (hb_reserved h) x + paid rv_Recipient (lg_paid g) x = lg_funded g x \<and>
    0 \<le> ReaderBalance h x \<and> - lg_withdrawn g x \<le> OutboundTo h x \<and>
    (\<forall>r \<in> set (lg_paid g). \<exists>secret. HashOf mac secret = rv_Condition r) \<and>
    HubInFlight h = i64 (sum_list (map (\<lambda>(_, r). rv_Amount r) (hb_reserved h)))"
  using hubRun_kept [OF assms] balanced_new HubInFlight_sum [of h]
  by (auto simp: balanced_def aboveFloor_def ReaderBalance_def OutboundTo_def revealed_def emptyLedger_def)

theorem hub_books_balance_witness:
  "\<exists>h g. (hubStep (\<lambda>k m. m))\<^sup>*\<^sup>* (NewHub, emptyLedger) (h, g) \<and> ReaderBalance h ''r'' = 6 \<and> HubInFlight h = 4 \<and>
     OutboundTo h ''p'' = - 3 \<and> lg_withdrawn g ''p'' = 19"
proof -
  let ?mac = "\<lambda>k m :: bytes. m"
  define h1 where "h1 = snd (OpenReader NewHub ''r'' 10)"
  define h2 where "h2 = FundRecipient h1 ''p'' 20"
  define h3 where "h3 = snd (Reserve h2 ''r'' ''p'' 4 zero32)"
  define h4 where "h4 = FundRecipient h3 ''p'' (- 19)"
  let ?g1 = "emptyLedger\<lparr>lg_deposited := (lg_deposited emptyLedger)(''r'' := lg_deposited emptyLedger ''r'' + 10)\<rparr>"
  let ?g2 = "book ?g1 ''p'' 20"
  let ?g3 = "book ?g2 ''p'' (- 19)"
  have "OpenReader NewHub ''r'' 10 = (Inr (), h1)"
    by (simp add: h1_def OpenReader_def)
  then have "hubStep ?mac (NewHub, emptyLedger) (h1, ?g1)"
    by (rule hubStep.deposit) (simp add: emptyLedger_def)
  moreover have "hubStep ?mac (h1, ?g1) (h2, ?g2)"
    unfolding h2_def by (rule hubStep.fund) (simp add: emptyLedger_def booksFit_def book_def)
  moreover have "hubStep ?mac (h2, ?g2) (h3, ?g2)"
    unfolding h3_def by (rule hubStep.reserve)
  moreover have "hubStep ?mac (h3, ?g2) (h4, ?g3)"
    unfolding h4_def by (rule hubStep.fund) (simp add: emptyLedger_def booksFit_def book_def)
  ultimately have run: "(hubStep ?mac)\<^sup>*\<^sup>* (NewHub, emptyLedger) (h4, ?g3)"
    by (meson rtranclp.rtrancl_refl rtranclp.rtrancl_into_rtrancl)
  have r: "hb_reserved h4 = [(zero32, \<lparr> rv_Reader = ''r'', rv_Recipient = ''p'', rv_Amount = 4, rv_Condition = zero32 \<rparr>)]"
    by (simp add: h4_def h3_def h2_def h1_def Reserve_def FundRecipient_def OpenReader_def NewHub_def amountAt_def Let_def)
  have "held rv_Reader (hb_reserved h4) ''r'' = 4" "held rv_Recipient (hb_reserved h4) ''p'' = 4"
    by (simp_all add: held_def r)
  moreover have "lg_deposited ?g3 ''r'' = 10" "lg_funded ?g3 ''p'' = 1" "lg_withdrawn ?g3 ''p'' = 19" "lg_paid ?g3 = []"
    by (simp_all add: emptyLedger_def book_def)
  ultimately have "ReaderBalance h4 ''r'' = 6" "HubInFlight h4 = 4" "OutboundTo h4 ''p'' = - 3" "lg_withdrawn ?g3 ''p'' = 19"
    using hub_books_balance [OF run, of "''r''"] hub_books_balance [OF run, of "''p''"] by (simp_all add: paid_def r)
  then show ?thesis
    using run by blast
qed

text \<open>
  A funding may have a negative amount, and then takes capacity back with no look at what is there: a recipient
  not yet known gets a negative capacity.
\<close>

lemma fund_goes_negative: "v < 0 \<Longrightarrow> map_of (hb_recipients h) i = None \<Longrightarrow> OutboundTo (FundRecipient h i v) i = v"
  by (simp add: FundRecipient_def OutboundTo_def)

text \<open>
  A condition is said to be per payment. Only a condition in flight is refused: after a delivery has revealed
  the secret, the same condition can be reserved again, and the revealed secret delivers it at once.
\<close>

theorem condition_reused:
  assumes "balanced h g" "Deliver mac h c secret = (Inr (), h')" "0 < v"
    and "map_of (hb_readers h) reader = Some a" "v \<le> a" "map_of (hb_recipients h) recipient = Some b" "v \<le> b"
  shows "\<exists>res h''. Reserve h' reader recipient v c = (Inr res, h'') \<and> (\<exists>h3. Deliver mac h'' c secret = (Inr (), h3))"
proof -
  have h': "h' = h\<lparr>hb_reserved := AList.delete c (hb_reserved h), hb_Delivered := hb_Delivered h + 1\<rparr>" "HashOf mac secret = c"
    using assms(2) by (auto simp: Deliver_def split: if_splits)
  have "map_of (AList.delete c (hb_reserved h)) c = None"
    by (simp add: delete_conv')
  with h' assms(3-7) show ?thesis
    by (auto simp: Reserve_def Let_def Deliver_def update_conv')
qed

end
