(* ===== verification/Atomic_Locks.thy ===== *)
theory Atomic_Locks
  imports Encoding
begin

text \<open>
  The per-hop locks of a routed payment, \<^verbatim>\<open>src/internal/channel/atomic.go\<close>, and the Pedersen commitments of
  \<^verbatim>\<open>pedersen.go\<close>. The curve is an interface of the source (\<^verbatim>\<open>crypto/elliptic\<close> or the third-party secp256k1):
  it is the record \<open>curve\<close>, an argument of everything that uses it, and what the code relies on about it is
  the hypothesis \<open>curveLaws\<close>: multiples of the base point add by adding scalars modulo the order. Random
  draws are arguments, \<open>None\<close> for a source that fails.
\<close>

type_synonym Point = "bigint \<times> bigint"

datatype lock_error = ErrBadScalar | ErrPointMismatch | ErrTooManyLocks | ErrRandom

record curve =
  cv_N :: int
  cv_ScalarBaseMult :: "bytes \<Rightarrow> int \<times> int"
  cv_Add :: "int \<times> int \<Rightarrow> int \<times> int \<Rightarrow> int \<times> int"

definition MaxHops :: nat where
  "MaxHops = 3"

definition point :: "int \<times> int \<Rightarrow> Point" where
  "point p = (Some (fst p), Some (snd p))"

definition PointEqual :: "Point \<Rightarrow> Point \<Rightarrow> bool" where
  "PointEqual p q \<longleftrightarrow> fst p \<noteq> None \<and> snd p \<noteq> None \<and> fst q \<noteq> None \<and> snd q \<noteq> None \<and> p = q"

record LockChain =
  lc_Locks :: "Point list"
  lc_blindings :: "int list"

definition baseMult :: "curve \<Rightarrow> int \<Rightarrow> int \<times> int" where
  \<comment> \<open>\<^verbatim>\<open>c.ScalarBaseMult(k.Bytes())\<close>\<close>
  "baseMult c k = cv_ScalarBaseMult c (bigBytes k)"

definition nonZero :: "int \<Rightarrow> int" where
  "nonZero z = (if z = 0 then 1 else z)"

definition NewSecret :: "curve \<Rightarrow> int option \<Rightarrow> lock_error + int \<times> Point" where
  "NewSecret c draw =
     (case draw of
        None \<Rightarrow> Inl ErrRandom
      | Some z0 \<Rightarrow> let z = nonZero z0 in Inr (z, point (baseMult c z)))"

fun buildFrom :: "curve \<Rightarrow> Point \<Rightarrow> int \<Rightarrow> int option list \<Rightarrow> lock_error + Point list \<times> int list" where
  \<comment> \<open>the loop from the exit to the entry: one draw per hop, the exit's first; what it has written so far is
      at the end of the two slices\<close>
  "buildFrom c recipient accumulated [] = Inr ([], [])"
| "buildFrom c recipient accumulated (draw # draws) =
     (case draw of
        None \<Rightarrow> Inl ErrRandom
      | Some b0 \<Rightarrow>
          let b = nonZero b0;
              acc = (accumulated + b) mod cv_N c;
              lock = point (cv_Add c (orZero (fst recipient), orZero (snd recipient)) (baseMult c acc))
          in bindR (buildFrom c recipient acc draws) (\<lambda>(locks, blindings). Inr (locks @ [lock], blindings @ [b])))"

definition BuildLocks :: "curve \<Rightarrow> Point \<Rightarrow> nat \<Rightarrow> (nat \<Rightarrow> int option) \<Rightarrow> lock_error + LockChain" where
  \<comment> \<open>the draw for hop \<open>i\<close> is \<open>draws i\<close>\<close>
  "BuildLocks c recipient hops draws =
     (if hops \<le> 0 \<or> hops > MaxHops then Inl ErrTooManyLocks
      else bindR (buildFrom c recipient 0 (map draws (rev [0..<hops]))) (\<lambda>(locks, blindings).
        Inr \<lparr> lc_Locks = locks, lc_blindings = blindings \<rparr>))"

definition BlindingFor :: "LockChain \<Rightarrow> int \<Rightarrow> lock_error + int" where
  "BlindingFor l hop =
     (if hop < 0 \<or> hop \<ge> int (length (lc_blindings l)) then Inl ErrBadScalar else Inr (lc_blindings l ! nat hop))"

definition Unwind :: "curve \<Rightarrow> int \<Rightarrow> int \<Rightarrow> int" where
  "Unwind c downstream blinding = (downstream + blinding) mod cv_N c"

definition Satisfies :: "curve \<Rightarrow> Point \<Rightarrow> bigint \<Rightarrow> lock_error + unit" where
  "Satisfies c lock scalar =
     (case scalar of
        None \<Rightarrow> Inl ErrBadScalar
      | Some s \<Rightarrow>
          if s < 0 \<or> s \<ge> cv_N c then Inl ErrBadScalar
          else if \<not> PointEqual (point (baseMult c s)) lock then Inl ErrPointMismatch
          else Inr ())"

fun unwindFrom :: "curve \<Rightarrow> int \<Rightarrow> int list \<Rightarrow> int list" where
  \<comment> \<open>the loop of \<^verbatim>\<open>SettleRoute\<close> over the blindings, the exit's first; the slice is filled from its end\<close>
  "unwindFrom c current [] = []"
| "unwindFrom c current (b # bs) = (let s = Unwind c current b in unwindFrom c s bs @ [s])"

definition SettleRoute :: "curve \<Rightarrow> LockChain option \<Rightarrow> int \<Rightarrow> lock_error + int list" where
  "SettleRoute c chain z =
     (case chain of
        None \<Rightarrow> Inl ErrTooManyLocks
      | Some l \<Rightarrow> if lc_Locks l = [] then Inl ErrTooManyLocks
          else Inr (unwindFrom c z (rev (take (length (lc_Locks l)) (lc_blindings l)))))"

subsection \<open>Pedersen commitments\<close>

text \<open>
  The second generator enters through \<open>hMult\<close>, the multiples of it; the digest that serialises a point is
  not needed to compare points.
\<close>

definition CommitPoint :: "curve \<Rightarrow> (bytes \<Rightarrow> int \<times> int) \<Rightarrow> u64 \<Rightarrow> bytes32 \<Rightarrow> Point" where
  "CommitPoint c hMult v blinding =
     (let vp = baseMult c (uint v); hp = hMult blinding in
      if v = 0 then point hp else point (cv_Add c vp hp))"

definition addPoint :: "curve \<Rightarrow> Point \<Rightarrow> Point \<Rightarrow> Point" where
  "addPoint c p q = point (cv_Add c (orZero (fst p), orZero (snd p)) (orZero (fst q), orZero (snd q)))"

definition SumPoints :: "curve \<Rightarrow> Point list \<Rightarrow> Point" where
  "SumPoints c ps = (case ps of [] \<Rightarrow> (None, None) | p # rest \<Rightarrow> foldl (addPoint c) p rest)"

definition CheckBalancePoints :: "curve \<Rightarrow> Point list \<Rightarrow> Point list \<Rightarrow> Point \<Rightarrow> bool" where
  "CheckBalancePoints c inputs outputs fee = PointEqual (SumPoints c inputs) (SumPoints c (outputs @ [fee]))"

subsection \<open>What the code relies on about the curve\<close>

definition curveLaws :: "curve \<Rightarrow> bool" where
  "curveLaws c \<longleftrightarrow> 1 < cv_N c \<and>
     (\<forall>a b. 0 \<le> a \<longrightarrow> a < cv_N c \<longrightarrow> 0 \<le> b \<longrightarrow> b < cv_N c \<longrightarrow>
        cv_Add c (baseMult c a) (baseMult c b) = baseMult c ((a + b) mod cv_N c))"

definition freeOrder :: "curve \<Rightarrow> bool" where
  \<comment> \<open>different scalars below the order have different multiples\<close>
  "freeOrder c \<longleftrightarrow> inj_on (baseMult c) {0..<cv_N c}"

subsection \<open>Unwinding\<close>

lemma point_simps [simp]: "fst (point p) = Some (fst p)" "snd (point p) = Some (snd p)"
  by (simp_all add: point_def)

lemma PointEqual_point [simp]: "PointEqual (point p) (point q) \<longleftrightarrow> p = q"
  by (auto simp: PointEqual_def point_def prod_eq_iff)

text \<open>The scalar of each hop is the recipient's plus every blinding from that hop to the exit.\<close>

definition scalarAt :: "curve \<Rightarrow> int \<Rightarrow> int list \<Rightarrow> nat \<Rightarrow> int" where
  "scalarAt c z bs i = (z + sum_list (drop i bs)) mod cv_N c"

lemma length_unwindFrom [simp]: "length (unwindFrom c s bs) = length bs"
  by (induction bs arbitrary: s) (simp_all add: Let_def)

lemma unwindFrom_eq:
  "unwindFrom c s bs = rev (map (\<lambda>k. (s + sum_list (take (Suc k) bs)) mod cv_N c) [0..<length bs])"
proof (induction bs arbitrary: s)
  case (Cons b bs)
  have "((s + b) mod cv_N c + x) mod cv_N c = (s + (b + x)) mod cv_N c" for x
    by (simp add: mod_add_left_eq add.assoc)
  then show ?case
    by (simp add: Cons.IH Unwind_def Let_def upt_conv_Cons map_Suc_upt [symmetric] del: upt_Suc)
qed simp

lemma unwindFrom_nth:
  assumes "i < length bs"
  shows "unwindFrom c z (rev bs) ! i = scalarAt c z bs i"
proof -
  let ?n = "length bs"
  have "take (?n - i) (rev bs) = rev (drop i bs)"
    by (simp add: rev_drop)
  then have "sum_list (take (Suc (?n - Suc i)) (rev bs)) = sum_list (drop i bs)"
    using assms by (simp add: sum_list_rev Suc_diff_Suc)
  moreover have "[0..<?n] ! (?n - Suc i) = ?n - Suc i"
    using assms by (intro nth_upt [where i = 0, simplified]) simp
  ultimately show ?thesis
    using assms by (simp add: unwindFrom_eq rev_nth scalarAt_def)
qed

text \<open>What \<open>buildFrom\<close> writes, in the order of the hops.\<close>

lemma buildFrom_facts:
  assumes "buildFrom c Z acc draws = Inr (locks, bs)"
  shows "length locks = length draws \<and> length bs = length draws \<and>
    (\<forall>i < length draws. locks ! i = point (cv_Add c (orZero (fst Z), orZero (snd Z)) (baseMult c
       ((acc + sum_list (drop i bs)) mod cv_N c)))) \<and>
    (\<forall>b \<in> set bs. b \<noteq> 0)"
  using assms
proof (induction draws arbitrary: acc locks bs)
  case (Cons draw draws)
  then obtain b0 where draw: "draw = Some b0" by (auto split: option.splits)
  let ?b = "nonZero b0" and ?acc = "(acc + nonZero b0) mod cv_N c"
  obtain ls rs where rest: "buildFrom c Z ?acc draws = Inr (ls, rs)"
    and eq: "locks = ls @ [point (cv_Add c (orZero (fst Z), orZero (snd Z)) (baseMult c ?acc))]" "bs = rs @ [?b]"
    using Cons.prems by (auto simp: draw Let_def bindR_Inr)
  note ih = Cons.IH [OF rest]
  have m: "(?acc + x) mod cv_N c = (acc + (x + ?b)) mod cv_N c" for x
    by (simp add: mod_simps ac_simps)
  have "locks ! i = point (cv_Add c (orZero (fst Z), orZero (snd Z)) (baseMult c ((acc + sum_list (drop i bs)) mod cv_N c)))"
    if "i < Suc (length draws)" for i
  proof (cases "i < length draws")
    case True
    then show ?thesis using ih m by (simp add: eq nth_append)
  next
    case False
    with that ih have "i = length ls" "i = length rs" by simp_all
    then show ?thesis by (simp add: eq nth_append)
  qed
  moreover have "?b \<noteq> 0"
    by (simp add: nonZero_def)
  ultimately show ?case
    using ih by (auto simp: eq)
qed simp

lemma BuildLocks_facts:
  assumes "BuildLocks c Z hops draws = Inr chain"
  shows "0 < hops \<and> hops \<le> MaxHops \<and> length (lc_Locks chain) = hops \<and> length (lc_blindings chain) = hops \<and>
    (\<forall>i < hops. lc_Locks chain ! i = point (cv_Add c (orZero (fst Z), orZero (snd Z))
       (baseMult c (sum_list (drop i (lc_blindings chain)) mod cv_N c))))"
proof -
  obtain locks bs where run: "buildFrom c Z 0 (map draws (rev [0..<hops])) = Inr (locks, bs)"
    and chain: "chain = \<lparr> lc_Locks = locks, lc_blindings = bs \<rparr>" and "0 < hops" "hops \<le> MaxHops"
    using assms by (auto simp: BuildLocks_def bindR_Inr split: if_splits)
  with buildFrom_facts [OF run] show ?thesis by simp
qed

lemma scalarAt_range: "curveLaws c \<Longrightarrow> 0 \<le> scalarAt c z bs i \<and> scalarAt c z bs i < cv_N c"
  by (simp add: scalarAt_def curveLaws_def)

lemma lock_is_scalar:
  assumes "curveLaws c" "0 \<le> z" "z < cv_N c" "BuildLocks c (point (baseMult c z)) hops draws = Inr chain" "i < hops"
  shows "lc_Locks chain ! i = point (baseMult c (scalarAt c z (lc_blindings chain) i))"
proof -
  let ?s = "sum_list (drop i (lc_blindings chain))"
  have "cv_Add c (baseMult c z) (baseMult c (?s mod cv_N c)) = baseMult c ((z + ?s mod cv_N c) mod cv_N c)"
    using assms(1-3) by (simp add: curveLaws_def)
  with BuildLocks_facts [OF assms(4)] assms(5) show ?thesis
    by (simp add: scalarAt_def mod_add_right_eq)
qed

lemma route_settles:
  assumes "curveLaws c" "0 \<le> z" "z < cv_N c" "BuildLocks c (point (baseMult c z)) hops draws = Inr chain"
  shows "\<exists>scalars. SettleRoute c (Some chain) z = Inr scalars \<and> length scalars = hops \<and>
    (\<forall>i < hops. scalars ! i = scalarAt c z (lc_blindings chain) i \<and>
       Satisfies c (lc_Locks chain ! i) (Some (scalars ! i)) = Inr ())"
proof -
  let ?scalars = "unwindFrom c z (rev (lc_blindings chain))"
  have len: "length (lc_blindings chain) = hops" "length (lc_Locks chain) = hops" "0 < hops"
    using BuildLocks_facts [OF assms(4)] by simp_all
  have nth: "?scalars ! i = scalarAt c z (lc_blindings chain) i" if "i < hops" for i
    using that len by (simp add: unwindFrom_nth)
  have "SettleRoute c (Some chain) z = Inr ?scalars"
    using len by (auto simp: SettleRoute_def)
  moreover have "Satisfies c (lc_Locks chain ! i) (Some (?scalars ! i)) = Inr ()" if "i < hops" for i
    using nth [OF that] lock_is_scalar [OF assms that] scalarAt_range [OF assms(1), of z "lc_blindings chain" i]
    by (simp add: Satisfies_def not_less not_le)
  ultimately show ?thesis
    using nth len by auto
qed

subsection \<open>Properties\<close>

text \<open>
  The route settles from the recipient's secret, backwards. For a secret and the locks built for its
  point, settling yields one scalar per hop, each opens its own hop's lock, and each is the downstream
  scalar (the secret itself at the exit) plus that hop's blinding: a hop opens its lock once it has been
  given what opened the next one. Where multiples determine scalars, nothing else opens the lock, and two
  hops hold the same lock only if the blindings between them cancel modulo the order.
\<close>

theorem settle_opens_every_lock:
  assumes "curveLaws c" "0 \<le> z" "z < cv_N c" "BuildLocks c (point (baseMult c z)) hops draws = Inr chain"
  shows "\<exists>scalars. SettleRoute c (Some chain) z = Inr scalars \<and> length scalars = hops \<and>
    (\<forall>i < hops. Satisfies c (lc_Locks chain ! i) (Some (scalars ! i)) = Inr () \<and>
       scalars ! i = Unwind c (if Suc i = hops then z else scalars ! Suc i) (lc_blindings chain ! i)) \<and>
    (freeOrder c \<longrightarrow> (\<forall>i < hops. \<forall>s. Satisfies c (lc_Locks chain ! i) (Some s) = Inr () \<longrightarrow> s = scalars ! i) \<and>
       (\<forall>i j. i < j \<longrightarrow> j < hops \<longrightarrow> lc_Locks chain ! i = lc_Locks chain ! j \<longrightarrow>
          cv_N c dvd sum_list (drop i (lc_blindings chain)) - sum_list (drop j (lc_blindings chain))))"
proof -
  let ?bs = "lc_blindings chain"
  note facts = BuildLocks_facts [OF assms(4)]
  have len: "length ?bs = hops" "length (lc_Locks chain) = hops" "0 < hops"
    using facts by simp_all
  obtain scalars where settled: "SettleRoute c (Some chain) z = Inr scalars" "length scalars = hops"
    and each: "\<forall>i < hops. scalars ! i = scalarAt c z ?bs i \<and> Satisfies c (lc_Locks chain ! i) (Some (scalars ! i)) = Inr ()"
    using route_settles [OF assms] by blast
  have nth: "scalars ! i = scalarAt c z ?bs i" if "i < hops" for i
    using that each by simp
  have lock: "lc_Locks chain ! i = point (baseMult c (scalars ! i))" if "i < hops" for i
    using lock_is_scalar [OF assms that] nth [OF that] by simp
  have rng: "0 \<le> scalars ! i \<and> scalars ! i < cv_N c" if "i < hops" for i
    using nth [OF that] scalarAt_range [OF assms(1)] by simp
  have "\<forall>i < hops. Satisfies c (lc_Locks chain ! i) (Some (scalars ! i)) = Inr ()"
    using each by blast
  moreover have "scalars ! i = Unwind c (if Suc i = hops then z else scalars ! Suc i) (?bs ! i)" if "i < hops" for i
  proof -
    have "drop i ?bs = ?bs ! i # drop (Suc i) ?bs"
      using that len by (simp add: Cons_nth_drop_Suc)
    then have "scalars ! i = (z + sum_list (drop (Suc i) ?bs) + ?bs ! i) mod cv_N c"
      using nth [OF that] by (simp add: scalarAt_def ac_simps)
    also have "\<dots> = ((z + sum_list (drop (Suc i) ?bs)) mod cv_N c + ?bs ! i) mod cv_N c"
      by (simp add: mod_add_left_eq)
    finally show ?thesis
      using that len nth [of "Suc i"] assms(2,3)
      by (cases "Suc i = hops") (simp_all add: Unwind_def scalarAt_def mod_pos_pos_trivial)
  qed
  moreover have "s = scalars ! i"
    if "freeOrder c" "i < hops" "Satisfies c (lc_Locks chain ! i) (Some s) = Inr ()" for i s
    using that rng [of i] lock [of i] inj_onD [of "baseMult c" "{0..<cv_N c}" s "scalars ! i"]
    by (auto simp: Satisfies_def freeOrder_def split: if_splits)
  moreover have "cv_N c dvd sum_list (drop i ?bs) - sum_list (drop j ?bs)"
    if "freeOrder c" "i < j" "j < hops" "lc_Locks chain ! i = lc_Locks chain ! j" for i j
  proof -
    have "i < hops" using that by simp
    then have "baseMult c (scalars ! i) = baseMult c (scalars ! j)"
      using that lock by (simp add: point_def prod_eq_iff)
    then have "scalars ! i = scalars ! j"
      using that rng \<open>i < hops\<close> inj_onD [of "baseMult c" "{0..<cv_N c}"] by (auto simp: freeOrder_def)
    then have "(z + sum_list (drop i ?bs)) mod cv_N c = (z + sum_list (drop j ?bs)) mod cv_N c"
      using nth that \<open>i < hops\<close> by (simp add: scalarAt_def)
    then show ?thesis
      by (simp add: mod_eq_dvd_iff)
  qed
  ultimately show ?thesis
    using settled by blast
qed

definition demoCurve :: curve where
  \<comment> \<open>the integers modulo 7, standing in for the group\<close>
  "demoCurve = \<lparr> cv_N = 7, cv_ScalarBaseMult = (\<lambda>k. (int (bytesNat k) mod 7, 0)),
     cv_Add = (\<lambda>p q. ((fst p + fst q) mod 7, 0)) \<rparr>"

lemma demoCurve_laws: "curveLaws demoCurve" "freeOrder demoCurve"
proof -
  have b: "baseMult demoCurve k = (k mod 7, 0)" if "0 \<le> k" for k
    using that by (simp add: baseMult_def demoCurve_def bigBytes_def)
  then show "freeOrder demoCurve"
    by (auto simp: freeOrder_def demoCurve_def [THEN arg_cong [where f = cv_N]] inj_on_def)
  show "curveLaws demoCurve"
    unfolding curveLaws_def using b by (simp add: demoCurve_def mod_add_eq)
qed

theorem settle_opens_every_lock_witness:
  "\<exists>chain scalars. BuildLocks demoCurve (point (baseMult demoCurve 4)) 3 (\<lambda>i. Some (int i)) = Inr chain \<and>
     SettleRoute demoCurve (Some chain) 4 = Inr scalars \<and> Satisfies demoCurve (lc_Locks chain ! 0) (Some (scalars ! 0)) = Inr ()"
proof -
  obtain chain where chain: "BuildLocks demoCurve (point (baseMult demoCurve 4)) 3 (\<lambda>i. Some (int i)) = Inr chain"
    by (auto simp: BuildLocks_def MaxHops_def bindR_def upt_rec Let_def)
  have n: "cv_N demoCurve = 7"
    by (simp add: demoCurve_def)
  have "(0 :: int) \<le> 4" "4 < cv_N demoCurve" "(0 :: nat) < 3"
    by (simp_all add: n)
  with settle_opens_every_lock [OF demoCurve_laws(1) _ _ chain] chain show ?thesis
    by blast
qed

text \<open>
  What balances adds up: where both generators multiply by adding scalars, commitments to values whose sums
  agree modulo the order, with blindings whose sums agree, pass the balance check.
\<close>

lemma foldl_addPoint:
  assumes "\<And>a b. cv_Add c (f a) (f b) = f ((a :: 'a :: comm_monoid_add) + b)"
  shows "foldl (addPoint c) (point (f a)) (map (\<lambda>x. point (f x)) xs) = point (f (a + sum_list xs))"
  by (induction xs arbitrary: a) (simp_all add: addPoint_def assms ac_simps)

lemma balanced_commitments_pass:
  assumes "\<And>a b. cv_Add c (f a) (f b) = f ((a :: 'a :: comm_monoid_add) + b)"
    and "ins \<noteq> []" "sum_list ins = sum_list outs + fee"
  shows "CheckBalancePoints c (map (\<lambda>x. point (f x)) ins) (map (\<lambda>x. point (f x)) outs) (point (f fee))"
proof -
  have sum: "SumPoints c (map (\<lambda>x. point (f x)) xs) = point (f (sum_list xs))" if "xs \<noteq> []" for xs
    using that foldl_addPoint [OF assms(1)] by (cases xs) (simp_all add: SumPoints_def)
  have "map (\<lambda>x. point (f x)) outs @ [point (f fee)] = map (\<lambda>x. point (f x)) (outs @ [fee])"
    by simp
  then show ?thesis
    unfolding CheckBalancePoints_def using sum [OF assms(2)] sum [of "outs @ [fee]"] assms(3) by simp
qed

end
