(* ===== verification/Route.thy ===== *)
theory Route
  imports Complex_Main Derive Atomic_Locks "HOL-Library.Product_Lexorder" "HOL-Library.Char_ord"
begin

text \<open>
  Choosing the routers of a private payment, \<^verbatim>\<open>src/internal/channel/route.go\<close>. A finite \<^verbatim>\<open>float64\<close> is a rational
  and the rounding of a floating-point operation an argument \<open>rnd\<close>. The ranking of \<^verbatim>\<open>sort.Slice\<close> is the
  sorting of the pairs of the negated score and the node id; the source leaves the order of two candidates
  with the same pair open, here it is the order they came in.
\<close>

record Candidate =
  cd_NodeID :: NodeID
  cd_Operator :: string
  cd_FaultDomain :: string
  cd_CapacityBucket :: int
  cd_SuccessRate :: rat
  cd_LatencyMS :: int
  cd_PrivacyVersion :: "16 word"
  cd_Jurisdiction :: string

record RouteRequest =
  rr_Hops :: int
  rr_MinCapacityBucket :: int
  rr_MinSuccessRate :: rat
  rr_PrivacyVersion :: "16 word"
  rr_AvoidNodes :: "NodeID \<Rightarrow> bool"
  rr_RequireDistinctFaultDomains :: bool

datatype refusal_reason = NotEnoughOperators | NotEnoughFaultDomains

record RouteRefusal =
  rf_Reason :: refusal_reason
  rf_OperatorsFound :: nat
  rf_OperatorsNeeded :: nat
  rf_CandidatesBefore :: nat
  rf_CandidatesAfter :: nat

definition usableCandidate :: "RouteRequest \<Rightarrow> Candidate \<Rightarrow> bool" where
  \<comment> \<open>no \<open>continue\<close> of the filter applies\<close>
  "usableCandidate req c \<longleftrightarrow>
     \<not> (cd_NodeID c = [] \<or> cd_Operator c = []) \<and> \<not> rr_AvoidNodes req (cd_NodeID c) \<and>
     \<not> cd_CapacityBucket c < rr_MinCapacityBucket req \<and> \<not> cd_SuccessRate c < rr_MinSuccessRate req \<and>
     \<not> (rr_PrivacyVersion req \<noteq> 0 \<and> cd_PrivacyVersion c \<noteq> rr_PrivacyVersion req)"

definition score :: "(rat \<Rightarrow> rat) \<Rightarrow> mac \<Rightarrow> Candidate \<Rightarrow> bytes32 \<Rightarrow> rat" where
  "score rnd mac c seed =
     (let s0 = rnd (cd_SuccessRate c * 100);
          s1 = (if cd_LatencyMS c > 0 then rnd (s0 - rnd (rnd (of_int (cd_LatencyMS c)) / 100)) else s0);
          j = derive mac ''rabbiit/route/jitter/v1'' [strBytes (cd_NodeID c), seed]
      in rnd (s1 + rnd (of_nat (unat (j ! 0)) / 255)))"

definition rankKey :: "(rat \<Rightarrow> rat) \<Rightarrow> mac \<Rightarrow> bytes32 \<Rightarrow> Candidate \<Rightarrow> rat \<times> NodeID" where
  "rankKey rnd mac seed c = (- score rnd mac c seed, cd_NodeID c)"

fun pick ::
  "nat \<Rightarrow> bool \<Rightarrow> Candidate list \<Rightarrow> string set \<Rightarrow> string set \<Rightarrow> Candidate list \<Rightarrow> Candidate list option" where
  \<comment> \<open>the greedy loop, with what it has chosen and the operators and domains it has used\<close>
  "pick hops strict chosen usedOperator usedDomain [] = None"
| "pick hops strict chosen usedOperator usedDomain (c # cs) =
     (if cd_Operator c \<in> usedOperator then pick hops strict chosen usedOperator usedDomain cs
      else if strict \<and> cd_FaultDomain c \<noteq> [] \<and> cd_FaultDomain c \<in> usedDomain
        then pick hops strict chosen usedOperator usedDomain cs
      else
        let chosen' = chosen @ [c] in
        if length chosen' = hops then Some chosen'
        else pick hops strict chosen' (insert (cd_Operator c) usedOperator)
               (if cd_FaultDomain c \<noteq> [] then insert (cd_FaultDomain c) usedDomain else usedDomain) cs)"

definition operatorsOf :: "Candidate list \<Rightarrow> string set" where
  "operatorsOf cs = set (map cd_Operator cs)"

definition hopsOf :: "RouteRequest \<Rightarrow> nat" where
  "hopsOf req = (if rr_Hops req \<le> 0 then MaxHops else nat (rr_Hops req))"

definition SelectRoute ::
  "(rat \<Rightarrow> rat) \<Rightarrow> mac \<Rightarrow> Candidate list \<Rightarrow> RouteRequest \<Rightarrow> bytes32 \<Rightarrow> RouteRefusal + Candidate list" where
  "SelectRoute rnd mac candidates req seed =
     (let hops = hopsOf req;
          usable = filter (usableCandidate req) candidates;
          found = card (operatorsOf usable);
          refusal = (\<lambda>reason. Inl \<lparr> rf_Reason = reason, rf_OperatorsFound = found, rf_OperatorsNeeded = hops,
                       rf_CandidatesBefore = length candidates, rf_CandidatesAfter = length usable \<rparr>)
      in if found < hops then refusal NotEnoughOperators
         else
           (case pick hops (rr_RequireDistinctFaultDomains req) [] {} {} (sort_key (rankKey rnd mac seed) usable) of
              Some chosen \<Rightarrow> Inr chosen
            | None \<Rightarrow> refusal NotEnoughFaultDomains))"

definition DiversityOf :: "Candidate list \<Rightarrow> nat" where
  "DiversityOf candidates = card (operatorsOf (filter (\<lambda>c. cd_Operator c \<noteq> []) candidates))"

subsection \<open>The greedy loop\<close>

definition domainsOf :: "Candidate list \<Rightarrow> string list" where
  "domainsOf cs = filter (\<lambda>d. d \<noteq> []) (map cd_FaultDomain cs)"

definition diverse :: "bool \<Rightarrow> Candidate list \<Rightarrow> bool" where
  \<comment> \<open>different operators, and different declared fault domains where they are demanded\<close>
  "diverse strict cs \<longleftrightarrow> distinct (map cd_Operator cs) \<and> (strict \<longrightarrow> distinct (domainsOf cs))"

lemma domainsOf_snoc: "domainsOf (cs @ [c]) = domainsOf cs @ (if cd_FaultDomain c \<noteq> [] then [cd_FaultDomain c] else [])"
  by (simp add: domainsOf_def)

lemma diverse_snoc:
  "diverse strict cs \<Longrightarrow> cd_Operator c \<notin> operatorsOf cs \<Longrightarrow>
   \<not> (strict \<and> cd_FaultDomain c \<noteq> [] \<and> cd_FaultDomain c \<in> set (domainsOf cs)) \<Longrightarrow> diverse strict (cs @ [c])"
  by (auto simp: diverse_def operatorsOf_def domainsOf_snoc)

lemma operatorsOf_snoc: "operatorsOf (cs @ [c]) = insert (cd_Operator c) (operatorsOf cs)"
  by (simp add: operatorsOf_def)

lemma pick_sound:
  assumes "pick hops strict chosen (operatorsOf chosen) (set (domainsOf chosen)) cs = Some r" "diverse strict chosen"
  shows "length r = hops \<and> diverse strict r \<and> set r \<subseteq> set chosen \<union> set cs"
  using assms
proof (induction cs arbitrary: chosen)
  case (Cons c cs)
  have dom: "(if cd_FaultDomain c \<noteq> [] then insert (cd_FaultDomain c) (set (domainsOf chosen)) else set (domainsOf chosen))
      = set (domainsOf (chosen @ [c]))"
    by (simp add: domainsOf_snoc)
  show ?case
  proof (cases "cd_Operator c \<in> operatorsOf chosen \<or>
      strict \<and> cd_FaultDomain c \<noteq> [] \<and> cd_FaultDomain c \<in> set (domainsOf chosen)")
    case True
    then have "pick hops strict chosen (operatorsOf chosen) (set (domainsOf chosen)) cs = Some r"
      using Cons.prems(1) by (auto split: if_splits)
    from Cons.IH [OF this Cons.prems(2)] show ?thesis by auto
  next
    case False
    then have div: "diverse strict (chosen @ [c])"
      using Cons.prems(2) by (intro diverse_snoc) auto
    show ?thesis
    proof (cases "length (chosen @ [c]) = hops")
      case True
      with False Cons.prems(1) have "r = chosen @ [c]" by auto
      with True div show ?thesis by auto
    next
      case new: False
      have "pick hops strict (chosen @ [c]) (operatorsOf (chosen @ [c])) (set (domainsOf (chosen @ [c]))) cs = Some r"
        using False new Cons.prems(1) unfolding operatorsOf_snoc dom [symmetric] by (auto simp: Let_def split: if_splits)
      from Cons.IH [OF this div] show ?thesis by auto
    qed
  qed
qed simp

lemma pick_complete:
  assumes "length chosen < hops" "hops \<le> length chosen + card (operatorsOf cs - used)"
  shows "pick hops False chosen used domains cs \<noteq> None"
  using assms
proof (induction cs arbitrary: chosen used domains)
  case Nil
  then show ?case by (simp add: operatorsOf_def)
next
  case (Cons c cs)
  have ops: "operatorsOf (c # cs) = insert (cd_Operator c) (operatorsOf cs)"
    by (simp add: operatorsOf_def)
  show ?case
  proof (cases "cd_Operator c \<in> used")
    case True
    with Cons.prems(2) have "hops \<le> length chosen + card (operatorsOf cs - used)"
      by (simp add: ops insert_Diff_if)
    with Cons.IH [OF Cons.prems(1) this] True show ?thesis by simp
  next
    case False
    let ?used = "insert (cd_Operator c) used"
    have "card (operatorsOf (c # cs) - used) \<le> Suc (card (operatorsOf cs - ?used))"
    proof -
      have "operatorsOf (c # cs) - used \<subseteq> insert (cd_Operator c) (operatorsOf cs - ?used)"
        by (auto simp: ops)
      then have "card (operatorsOf (c # cs) - used) \<le> card (insert (cd_Operator c) (operatorsOf cs - ?used))"
        by (intro card_mono) (simp_all add: operatorsOf_def)
      also have "\<dots> \<le> Suc (card (operatorsOf cs - ?used))"
        by (rule card_insert_le_m1) simp_all
      finally show ?thesis .
    qed
    then have more: "hops \<le> length (chosen @ [c]) + card (operatorsOf cs - ?used)"
      using Cons.prems(2) by simp
    show ?thesis
    proof (cases "length (chosen @ [c]) = hops")
      case True
      with False show ?thesis by simp
    next
      case new: False
      with Cons.prems(1) have "length (chosen @ [c]) < hops" by simp
      from Cons.IH [OF this more] False new show ?thesis by (simp add: Let_def)
    qed
  qed
qed

lemma hopsOf_pos: "0 < hopsOf req"
  by (simp add: hopsOf_def MaxHops_def)

lemma operatorsOf_sort [simp]: "operatorsOf (sort_key f cs) = operatorsOf cs"
  by (simp add: operatorsOf_def)

subsection \<open>Properties\<close>

lemma SelectRoute_diverse:
  assumes "SelectRoute rnd mac candidates req seed = Inr route"
  shows "length route = hopsOf req \<and> diverse (rr_RequireDistinctFaultDomains req) route \<and>
    set route \<subseteq> set (filter (usableCandidate req) candidates)"
proof -
  let ?sorted = "sort_key (rankKey rnd mac seed) (filter (usableCandidate req) candidates)"
  have "pick (hopsOf req) (rr_RequireDistinctFaultDomains req) [] {} {} ?sorted = Some route"
    using assms by (auto simp: SelectRoute_def Let_def split: if_splits option.splits)
  then have "pick (hopsOf req) (rr_RequireDistinctFaultDomains req) [] (operatorsOf []) (set (domainsOf [])) ?sorted = Some route"
    by (simp add: operatorsOf_def domainsOf_def)
  from pick_sound [OF this] show ?thesis
    by (auto simp: diverse_def operatorsOf_def domainsOf_def)
qed

text \<open>
  A route that is drawn is diverse: it has exactly the hops asked for, no operator twice, no declared
  fault domain twice when that is demanded, and every hop is an offered candidate with a node id and an
  operator that passes each filter of the request.
\<close>

theorem route_diverse:
  assumes "SelectRoute rnd mac candidates req seed = Inr route"
  shows "length route = hopsOf req \<and> distinct (map cd_Operator route) \<and>
    (rr_RequireDistinctFaultDomains req \<longrightarrow> distinct (domainsOf route)) \<and>
    set route \<subseteq> set candidates \<and> list_all (usableCandidate req) route"
  using SelectRoute_diverse [OF assms] by (auto simp: diverse_def list_all_iff)

text \<open>
  Without the fault-domain demand the selection is complete: it refuses exactly when the usable
  candidates name fewer operators than hops, and the refusal says how many there were.
\<close>

theorem route_refused_iff:
  assumes "\<not> rr_RequireDistinctFaultDomains req"
  shows "(\<exists>route. SelectRoute rnd mac candidates req seed = Inr route) \<longleftrightarrow>
    hopsOf req \<le> card (operatorsOf (filter (usableCandidate req) candidates))"
proof -
  let ?usable = "filter (usableCandidate req) candidates"
  have "pick (hopsOf req) False [] {} {} (sort_key (rankKey rnd mac seed) ?usable) \<noteq> None"
    if "hopsOf req \<le> card (operatorsOf ?usable)"
    using that hopsOf_pos by (intro pick_complete) simp_all
  note complete = this
  show ?thesis
  proof (cases "hopsOf req \<le> card (operatorsOf ?usable)")
    case True
    with complete obtain r where "pick (hopsOf req) False [] {} {} (sort_key (rankKey rnd mac seed) ?usable) = Some r"
      by blast
    with True assms show ?thesis by (simp add: SelectRoute_def Let_def)
  next
    case False
    then show ?thesis by (simp add: SelectRoute_def Let_def)
  qed
qed

subsection \<open>Concrete routes\<close>

definition demoCandidate :: "string \<Rightarrow> string \<Rightarrow> string \<Rightarrow> rat \<Rightarrow> Candidate" where
  "demoCandidate n op d rate = \<lparr> cd_NodeID = n, cd_Operator = op, cd_FaultDomain = d, cd_CapacityBucket = 1,
     cd_SuccessRate = rate, cd_LatencyMS = 0, cd_PrivacyVersion = 1, cd_Jurisdiction = [] \<rparr>"

definition demoRequest :: "int \<Rightarrow> bool \<Rightarrow> RouteRequest" where
  "demoRequest hops strict = \<lparr> rr_Hops = hops, rr_MinCapacityBucket = 0, rr_MinSuccessRate = 0, rr_PrivacyVersion = 1,
     rr_AvoidNodes = (\<lambda>_. False), rr_RequireDistinctFaultDomains = strict \<rparr>"

definition zeroMac :: mac where
  "zeroMac key m = []"

lemma demoCandidate_sel [simp]:
  "cd_Operator (demoCandidate n op d rate) = op" "cd_FaultDomain (demoCandidate n op d rate) = d"
  by (simp_all add: demoCandidate_def)

lemma demo_candidate_usable [simp]: "usableCandidate (demoRequest hops strict) (demoCandidate n op d rate) \<longleftrightarrow> n \<noteq> [] \<and> op \<noteq> [] \<and> 0 \<le> rate"
  by (auto simp: usableCandidate_def demoRequest_def demoCandidate_def)

lemma demo_hops [simp]: "hopsOf (demoRequest hops strict) = (if hops \<le> 0 then 3 else nat hops)"
  "rr_RequireDistinctFaultDomains (demoRequest hops strict) = strict"
  by (simp_all add: hopsOf_def demoRequest_def MaxHops_def)

lemma demo_rank [simp]: "rankKey (\<lambda>x. x) zeroMac seed (demoCandidate n op d rate) = (- (rate * 100), n)"
  by (simp add: rankKey_def score_def demoCandidate_def derive_def zeroMac_def copyArr_def)

lemma operatorsOf_Cons [simp]: "operatorsOf [] = {}" "operatorsOf (c # cs) = insert (cd_Operator c) (operatorsOf cs)"
  by (simp_all add: operatorsOf_def)

lemmas demo_select = SelectRoute_def Let_def sort_key_def

definition demoCandidates :: "Candidate list" where
  "demoCandidates = [demoCandidate ''c'' ''C'' ''Z'' (1/4), demoCandidate ''a'' ''A'' ''X'' (3/4),
     demoCandidate ''d'' ''A'' ''W'' (2/3), demoCandidate ''b'' ''B'' ''Y'' (1/2)]"

lemma demo_route:
  "SelectRoute (\<lambda>x. x) zeroMac demoCandidates (demoRequest 2 True) zero32
    = Inr [demoCandidate ''a'' ''A'' ''X'' (3/4), demoCandidate ''b'' ''B'' ''Y'' (1/2)]"
  by (simp add: demo_select demoCandidates_def)

theorem route_diverse_witness:
  "SelectRoute (\<lambda>x. x) zeroMac demoCandidates (demoRequest 2 True) zero32
     = Inr [demoCandidate ''a'' ''A'' ''X'' (3/4), demoCandidate ''b'' ''B'' ''Y'' (1/2)] \<and>
   list_all (usableCandidate (demoRequest 2 True)) [demoCandidate ''a'' ''A'' ''X'' (3/4), demoCandidate ''b'' ''B'' ''Y'' (1/2)]"
  using route_diverse [OF demo_route] demo_route by blast

theorem route_refused_iff_witness:
  "\<exists>route. SelectRoute (\<lambda>x. x) zeroMac demoCandidates (demoRequest 3 False) zero32 = Inr route"
proof -
  have "\<not> rr_RequireDistinctFaultDomains (demoRequest 3 False)"
    by simp
  from route_refused_iff [OF this, of "\<lambda>x. x" zeroMac demoCandidates zero32] show ?thesis
    by (simp add: demoCandidates_def)
qed

text \<open>
  With the fault-domain demand the greedy pick may refuse although a route exists: the best candidate of an
  operator takes the only domain another operator has, and its second-best candidate is never tried.
\<close>

theorem greedy_refuses_existing_route:
  "let cs = [demoCandidate ''a'' ''A'' ''X'' (3/4), demoCandidate ''d'' ''A'' ''Y'' (1/2), demoCandidate ''b'' ''B'' ''X'' (1/4)];
       route = [demoCandidate ''d'' ''A'' ''Y'' (1/2), demoCandidate ''b'' ''B'' ''X'' (1/4)]
   in set route \<subseteq> set cs \<and> length route = 2 \<and> diverse True route \<and> list_all (usableCandidate (demoRequest 2 True)) route \<and>
      SelectRoute (\<lambda>x. x) zeroMac cs (demoRequest 2 True) zero32
        = Inl \<lparr> rf_Reason = NotEnoughFaultDomains, rf_OperatorsFound = 2, rf_OperatorsNeeded = 2,
                rf_CandidatesBefore = 3, rf_CandidatesAfter = 3 \<rparr>"
  by (simp add: demo_select diverse_def domainsOf_def)

text \<open>
  One machine offered under two operator labels is two hops of one route: only labels are compared, not node ids.
\<close>

theorem one_node_twice:
  "SelectRoute (\<lambda>x. x) zeroMac [demoCandidate ''a'' ''A'' ''X'' (3/4), demoCandidate ''a'' ''B'' ''Y'' (1/2)] (demoRequest 2 True) zero32
    = Inr [demoCandidate ''a'' ''A'' ''X'' (3/4), demoCandidate ''a'' ''B'' ''Y'' (1/2)]"
  by (simp add: demo_select)

end
