(* ===== verification/Onion.thy ===== *)
theory Onion
  imports Private_Note Atomic_Locks "HOL-Library.Multiset"
begin

text \<open>
  The fixed-slot onion, \<^verbatim>\<open>src/internal/channel/onion.go\<close>. AES-GCM and the JSON text of an instruction are
  arguments (the records \<open>aesgcm\<close> and \<open>hop_json\<close>); the random nonces and fillers too, \<open>None\<close> for a source
  that fails. A slot not yet written is \<open>None\<close>.
\<close>

datatype onion_error =
    ErrNotForUs | ErrTooManyHops | ErrHopTooLarge | ErrExpiryOrdering | ErrBadPacket | ErrOnionIO

definition SlotSize :: nat where "SlotSize = 1024"

definition domainHopKey :: string where "domainHopKey = ''rabbiit/onion/hopkey/v1''"
definition domainReplay :: string where "domainReplay = ''rabbiit/onion/replay/v1''"
definition domainPermute :: string where "domainPermute = ''rabbiit/onion/permute/v1''"
definition domainFailureKey :: string where "domainFailureKey = ''rabbiit/onion/failure/v1''"

record HopInstruction =
  hi_NextHop :: NodeID
  hi_BlindedEndpoint :: string
  hi_OutgoingCommitment :: bytes32
  hi_FeeCommitment :: bytes32
  hi_OutgoingExpiry :: u64
  hi_ReplayGuard :: bytes32

record Packet =
  pk_EphemeralPublicKey :: bytes32
  pk_Slots :: "bytes list"
  pk_PaymentCommitment :: bytes32
  pk_ProofReference :: bytes32
  pk_Expiry :: u64

record aesgcm =
  gcm_Seal :: "bytes32 \<Rightarrow> bytes \<Rightarrow> bytes \<Rightarrow> bytes"
    \<comment> \<open>key, nonce, plaintext\<close>
  gcm_Open :: "bytes32 \<Rightarrow> bytes \<Rightarrow> bytes \<Rightarrow> bytes option"

definition NonceSize :: nat where "NonceSize = 12"

record hop_json =
  hj_Marshal :: "HopInstruction \<Rightarrow> bytes"
  hj_Unmarshal :: "bytes \<Rightarrow> HopInstruction option"

definition hopKey :: "mac \<Rightarrow> bytes32 \<Rightarrow> bytes32" where
  "hopKey mac shared = derive mac domainHopKey [shared]"

definition replayGuardFor :: "mac \<Rightarrow> bytes32 \<Rightarrow> bytes32 \<Rightarrow> bytes32" where
  "replayGuardFor mac shared ephemeral = derive mac domainReplay [shared, ephemeral]"

subsection \<open>The permutation of the slots\<close>

definition swapAt :: "'a list \<Rightarrow> nat \<Rightarrow> nat \<Rightarrow> 'a list" where
  \<comment> \<open>both indices are in range wherever it is called\<close>
  "swapAt xs i j = xs[i := xs ! j, j := xs ! i]"

fun permuteFrom :: "mac \<Rightarrow> bytes32 \<Rightarrow> nat \<Rightarrow> nat list \<Rightarrow> nat list" where
  \<comment> \<open>the loop from \<open>i\<close> down to 1\<close>
  "permuteFrom mac stream 0 order = order"
| "permuteFrom mac stream (Suc k) order =
     (let i = Suc k;
          stream' = (if i mod 8 = 0 then derive mac domainPermute [stream] else stream);
          j = bytesNat (take 4 (drop (i mod 8 * 4) stream')) mod (i + 1)
      in permuteFrom mac stream' k (swapAt order i j))"

definition permutation :: "mac \<Rightarrow> bytes32 \<Rightarrow> nat \<Rightarrow> nat list" where
  "permutation mac ephemeral n = permuteFrom mac (derive mac domainPermute [ephemeral]) (n - 1) [0..<n]"

subsection \<open>Sealing and padding\<close>

definition seal :: "aesgcm \<Rightarrow> bytes32 \<Rightarrow> bytes option \<Rightarrow> bytes \<Rightarrow> onion_error + bytes" where
  "seal g key rnd plaintext =
     (case rnd of None \<Rightarrow> Inl ErrOnionIO | Some nonce \<Rightarrow> Inr (nonce @ gcm_Seal g key nonce plaintext))"

definition openSlot :: "aesgcm \<Rightarrow> bytes32 \<Rightarrow> bytes \<Rightarrow> bytes option" where
  "openSlot g key sealed =
     (if length sealed < NonceSize then None else gcm_Open g key (take NonceSize sealed) (drop NonceSize sealed))"

definition put32 :: "nat \<Rightarrow> bytes" where
  \<comment> \<open>\<^verbatim>\<open>binary.BigEndian.PutUint32\<close> of \<^verbatim>\<open>uint32(n)\<close>\<close>
  "put32 n = map (\<lambda>k. of_nat (n div 256 ^ k mod 256)) [3, 2, 1, 0]"

definition padTo :: "bytes \<Rightarrow> nat \<Rightarrow> onion_error + bytes" where
  "padTo b width =
     (if length b + 4 > width then Inl ErrHopTooLarge
      else Inr (put32 (length b) @ b @ replicate (width - 4 - length b) 0))"

definition unpad :: "bytes \<Rightarrow> onion_error + bytes" where
  "unpad padded =
     (if length padded < 4 then Inl ErrBadPacket
      else
        let n = bytesNat (take 4 padded) in
        if n > length padded - 4 then Inl ErrBadPacket else Inr (take n (drop 4 padded)))"

subsection \<open>Building and peeling\<close>

fun expiriesDecrease :: "u64 list \<Rightarrow> bool" where
  "expiriesDecrease (a # b # rest) \<longleftrightarrow> b < a \<and> expiriesDecrease (b # rest)"
| "expiriesDecrease _ \<longleftrightarrow> True"

definition guarded :: "mac \<Rightarrow> bytes32 \<Rightarrow> HopInstruction \<Rightarrow> bytes32 \<Rightarrow> HopInstruction" where
  "guarded mac ephemeral hop shared = hop\<lparr>hi_ReplayGuard := replayGuardFor mac shared ephemeral\<rparr>"

definition sealedSlot ::
  "mac \<Rightarrow> aesgcm \<Rightarrow> hop_json \<Rightarrow> bytes32 \<Rightarrow> bytes option \<Rightarrow> HopInstruction \<Rightarrow> bytes32 \<Rightarrow> onion_error + bytes" where
  \<comment> \<open>one round of the loop over the hops\<close>
  "sealedSlot mac g js ephemeral rnd hop shared =
     bindR (padTo (hj_Marshal js (guarded mac ephemeral hop shared)) SlotSize) (\<lambda>padded.
       seal g (hopKey mac shared) rnd padded)"

fun fillSlots ::
  "mac \<Rightarrow> aesgcm \<Rightarrow> hop_json \<Rightarrow> bytes32 \<Rightarrow> (nat \<Rightarrow> bytes option) \<Rightarrow> nat list \<Rightarrow> nat
    \<Rightarrow> (HopInstruction \<times> bytes32) list \<Rightarrow> bytes option list \<Rightarrow> onion_error + bytes option list" where
  "fillSlots mac g js ephemeral nonces order i [] slots = Inr slots"
| "fillSlots mac g js ephemeral nonces order i ((hop, shared) # rest) slots =
     bindR (sealedSlot mac g js ephemeral (nonces i) hop shared) (\<lambda>s.
       fillSlots mac g js ephemeral nonces order (Suc i) rest (slots[order ! i := Some s]))"

fun fillRandom :: "(nat \<Rightarrow> nat \<Rightarrow> bytes option) \<Rightarrow> nat \<Rightarrow> nat \<Rightarrow> bytes option list \<Rightarrow> onion_error + bytes list" where
  \<comment> \<open>slot number \<open>i\<close>, if unused, gets a filler of length \<open>width\<close>\<close>
  "fillRandom fillers width i [] = Inr []"
| "fillRandom fillers width i (slot # rest) =
     (case slot of
        Some s \<Rightarrow> bindR (fillRandom fillers width (Suc i) rest) (\<lambda>r. Inr (s # r))
      | None \<Rightarrow>
          (case fillers i width of
             None \<Rightarrow> Inl ErrOnionIO
           | Some f \<Rightarrow> bindR (fillRandom fillers width (Suc i) rest) (\<lambda>r. Inr (f # r))))"

definition Build ::
  "mac \<Rightarrow> aesgcm \<Rightarrow> hop_json \<Rightarrow> (nat \<Rightarrow> bytes option) \<Rightarrow> (nat \<Rightarrow> nat \<Rightarrow> bytes option) \<Rightarrow> bytes32
    \<Rightarrow> HopInstruction list \<Rightarrow> bytes32 list \<Rightarrow> onion_error + Packet" where
  "Build mac g js nonces fillers ephemeral hops sharedSecrets =
     (if length hops > MaxHops \<or> length hops \<noteq> length sharedSecrets then Inl ErrTooManyHops
      else if hops = [] then Inl ErrBadPacket
      else if \<not> expiriesDecrease (map hi_OutgoingExpiry hops) then Inl ErrExpiryOrdering
      else
        let order = permutation mac ephemeral MaxHops in
        bindR (fillSlots mac g js ephemeral nonces order 0 (zip hops sharedSecrets) (replicate MaxHops None)) (\<lambda>slots.
        bindR (fillRandom fillers (case slots ! (order ! 0) of None \<Rightarrow> 0 | Some s \<Rightarrow> length s) 0 slots) (\<lambda>full.
          Inr \<lparr> pk_EphemeralPublicKey = ephemeral, pk_Slots = full, pk_PaymentCommitment = zero32,
                pk_ProofReference = zero32, pk_Expiry = 0 \<rparr>)))"

fun peelSlots :: "mac \<Rightarrow> aesgcm \<Rightarrow> hop_json \<Rightarrow> bytes32 \<Rightarrow> bytes32 \<Rightarrow> bytes list \<Rightarrow> onion_error + HopInstruction" where
  "peelSlots mac g js ephemeral shared [] = Inl ErrNotForUs"
| "peelSlots mac g js ephemeral shared (slot # rest) =
     (case openSlot g (hopKey mac shared) slot of
        None \<Rightarrow> peelSlots mac g js ephemeral shared rest
      | Some plaintext \<Rightarrow>
          bindR (unpad plaintext) (\<lambda>encoded.
            case hj_Unmarshal js encoded of
              None \<Rightarrow> Inl ErrBadPacket
            | Some hop \<Rightarrow>
                if hi_ReplayGuard hop \<noteq> replayGuardFor mac shared ephemeral then Inl ErrBadPacket else Inr hop))"

definition Peel :: "mac \<Rightarrow> aesgcm \<Rightarrow> hop_json \<Rightarrow> Packet option \<Rightarrow> bytes32 \<Rightarrow> onion_error + HopInstruction" where
  "Peel mac g js packet shared =
     (case packet of
        None \<Rightarrow> Inl ErrBadPacket
      | Some p \<Rightarrow> if pk_Slots p = [] then Inl ErrBadPacket
          else peelSlots mac g js (pk_EphemeralPublicKey p) shared (pk_Slots p))"

definition PacketSize :: "Packet option \<Rightarrow> nat" where
  "PacketSize packet =
     (case packet of None \<Rightarrow> 0 | Some p \<Rightarrow> 32 + 32 + 32 + 8 + sum_list (map length (pk_Slots p)))"

definition SealFailure :: "mac \<Rightarrow> aesgcm \<Rightarrow> bytes option \<Rightarrow> bytes32 \<Rightarrow> string \<Rightarrow> onion_error + bytes" where
  "SealFailure mac g rnd shared reason = seal g (derive mac domainFailureKey [shared]) rnd (strBytes reason)"

definition OpenFailure :: "mac \<Rightarrow> aesgcm \<Rightarrow> bytes32 \<Rightarrow> bytes \<Rightarrow> bytes option" where
  "OpenFailure mac g shared sealed = openSlot g (derive mac domainFailureKey [shared]) sealed"

subsection \<open>What the code relies on\<close>

definition gcmLaws :: "aesgcm \<Rightarrow> bool" where
  \<comment> \<open>opening undoes sealing under the same key and nonce; the tag makes the overhead constant\<close>
  "gcmLaws g \<longleftrightarrow> (\<forall>key nonce plain. gcm_Open g key nonce (gcm_Seal g key nonce plain) = Some plain \<and>
     length (gcm_Seal g key nonce plain) = length plain + 16)"

definition plainText :: "string \<Rightarrow> bool" where
  \<comment> \<open>text that JSON keeps; invalid UTF-8 would be replaced\<close>
  "plainText s \<longleftrightarrow> (\<forall>c \<in> set s. of_char c < (128 :: nat))"

definition jsonLaws :: "hop_json \<Rightarrow> bool" where
  "jsonLaws js \<longleftrightarrow> (\<forall>hop. plainText (hi_NextHop hop) \<and> plainText (hi_BlindedEndpoint hop) \<longrightarrow> hj_Unmarshal js (hj_Marshal js hop) = Some hop)"

definition noncesOK :: "(nat \<Rightarrow> bytes option) \<Rightarrow> bool" where
  "noncesOK nonces \<longleftrightarrow> (\<forall>i nonce. nonces i = Some nonce \<longrightarrow> length nonce = NonceSize)"

definition fillersOK :: "(nat \<Rightarrow> nat \<Rightarrow> bytes option) \<Rightarrow> bool" where
  "fillersOK fillers \<longleftrightarrow> (\<forall>i n f. fillers i n = Some f \<longrightarrow> length f = n)"

subsection \<open>The permutation is one\<close>

lemma length_swapAt [simp]: "length (swapAt xs i j) = length xs"
  by (simp add: swapAt_def)

lemma mset_swapAt: "i < length xs \<Longrightarrow> j < length xs \<Longrightarrow> mset (swapAt xs i j) = mset xs"
  unfolding swapAt_def by (rule mset_swap)

lemma mset_permuteFrom: "k < length order \<Longrightarrow> mset (permuteFrom mac stream k order) = mset order"
proof (induction k arbitrary: stream order)
  case (Suc k)
  have "x mod Suc (Suc k) < length order" for x
    using Suc.prems mod_less_divisor [of "Suc (Suc k)" x] by linarith
  then show ?case
    using Suc by (simp add: Let_def mset_swapAt)
qed simp

lemma permutation_perm:
  assumes "0 < n"
  shows "distinct (permutation mac e n) \<and> set (permutation mac e n) = {0..<n} \<and> length (permutation mac e n) = n"
proof -
  have m: "mset (permutation mac e n) = mset [0..<n]"
    unfolding permutation_def by (rule mset_permuteFrom) (use assms in simp)
  have "distinct (permutation mac e n)"
    using mset_eq_imp_distinct_iff [OF m] by simp
  moreover have "set (permutation mac e n) = {0..<n}"
    using mset_eq_setD [OF m] by simp
  moreover have "length (permutation mac e n) = n"
    using mset_eq_length [OF m] by simp
  ultimately show ?thesis by simp
qed

subsection \<open>One slot\<close>

lemma bytesNat_put32: "n < 2 ^ 32 \<Longrightarrow> bytesNat (put32 n) = n"
proof -
  assume n: "n < 2 ^ 32"
  have b: "unat (of_nat (x mod 256) :: byte) = x mod 256" for x
    by (simp add: unat_of_nat)
  have "bytesNat (put32 n) = ((n div 256 ^ 3 mod 256 * 256 + n div 256 ^ 2 mod 256) * 256 + n div 256 mod 256) * 256 + n mod 256"
    by (simp add: put32_def bytesNat_def b)
  also have "\<dots> = n"
  proof -
    have "n div 256 ^ 2 = n div 256 div 256" "n div 256 ^ 3 = n div 256 div 256 div 256"
      by (simp_all add: div_mult2_eq [symmetric])
    moreover have "n div 256 div 256 div 256 < 256"
      using n by (simp add: div_mult2_eq [symmetric] less_mult_imp_div_less)
    ultimately show ?thesis
      by (metis div_mod_decomp mod_less)
  qed
  finally show ?thesis .
qed

lemma length_put32 [simp]: "length (put32 n) = 4"
  by (simp add: put32_def)

lemma unpad_padTo: "padTo b SlotSize = Inr p \<Longrightarrow> unpad p = Inr b \<and> length p = SlotSize"
proof -
  assume "padTo b SlotSize = Inr p"
  then have l: "length b + 4 \<le> SlotSize" and p: "p = put32 (length b) @ b @ replicate (SlotSize - 4 - length b) 0"
    by (auto simp: padTo_def split: if_splits)
  from l have "bytesNat (put32 (length b)) = length b"
    by (intro bytesNat_put32) (simp add: SlotSize_def)
  with l show ?thesis
    by (simp add: p unpad_def SlotSize_def)
qed

definition slotLength :: nat where
  \<comment> \<open>nonce, padded plaintext, tag\<close>
  "slotLength = NonceSize + SlotSize + 16"

lemma sealedSlot_opens:
  assumes "gcmLaws g" "jsonLaws js" "noncesOK nonces" "plainText (hi_NextHop hop)" "plainText (hi_BlindedEndpoint hop)"
    and "sealedSlot mac g js e (nonces i) hop shared = Inr s"
  shows "peelSlots mac g js e shared (s # rest) = Inr (guarded mac e hop shared) \<and> length s = slotLength"
proof -
  obtain nonce p where nonce: "nonces i = Some nonce" and p: "padTo (hj_Marshal js (guarded mac e hop shared)) SlotSize = Inr p"
    and s: "s = nonce @ gcm_Seal g (hopKey mac shared) nonce p"
    using assms(6) by (auto simp: sealedSlot_def seal_def bindR_Inr split: option.splits)
  have n: "length nonce = NonceSize"
    using assms(3) nonce by (simp add: noncesOK_def)
  have up: "unpad p = Inr (hj_Marshal js (guarded mac e hop shared))" "length p = SlotSize"
    using unpad_padTo [OF p] by simp_all
  have open_s: "openSlot g (hopKey mac shared) s = Some p"
    using assms(1) n by (simp add: openSlot_def s gcmLaws_def)
  have "hj_Unmarshal js (hj_Marshal js (guarded mac e hop shared)) = Some (guarded mac e hop shared)"
    using assms(2,4,5) by (simp add: jsonLaws_def guarded_def)
  then have "peelSlots mac g js e shared (s # rest) = Inr (guarded mac e hop shared)"
    by (simp add: open_s up(1)) (simp add: guarded_def)
  moreover have "length s = slotLength"
    using assms(1) n up(2) by (simp add: s gcmLaws_def slotLength_def)
  ultimately show ?thesis ..
qed

lemma fillSlots_facts:
  assumes "fillSlots mac g js e nonces order i hs slots = Inr out"
    and "distinct order" "i + length hs \<le> length order" "set order \<subseteq> {0..<length slots}"
  shows "length out = length slots \<and>
    (\<forall>k < length hs. \<exists>s. out ! (order ! (i + k)) = Some s \<and>
       sealedSlot mac g js e (nonces (i + k)) (fst (hs ! k)) (snd (hs ! k)) = Inr s) \<and>
    (\<forall>m < length slots. m \<notin> (\<lambda>k. order ! (i + k)) ` {0..<length hs} \<longrightarrow> out ! m = slots ! m)"
  using assms
proof (induction hs arbitrary: i slots)
  case (Cons h hs)
  obtain hop shared where h: "h = (hop, shared)" by force
  obtain s where s: "sealedSlot mac g js e (nonces i) hop shared = Inr s"
    and rest: "fillSlots mac g js e nonces order (Suc i) hs (slots[order ! i := Some s]) = Inr out"
    using Cons.prems(1) by (auto simp: h bindR_Inr)
  have ih: "length out = length slots"
    "\<forall>k < length hs. \<exists>s. out ! (order ! (Suc i + k)) = Some s \<and>
       sealedSlot mac g js e (nonces (Suc i + k)) (fst (hs ! k)) (snd (hs ! k)) = Inr s"
    "\<forall>m < length slots. m \<notin> (\<lambda>k. order ! (Suc i + k)) ` {0..<length hs} \<longrightarrow> out ! m = slots[order ! i := Some s] ! m"
    using Cons.IH [OF rest] Cons.prems by simp_all
  have "order ! i \<in> set order"
    using Cons.prems(3) by (intro nth_mem) simp
  then have in_range: "order ! i < length slots"
    using Cons.prems(4) by auto
  have fresh: "order ! i \<notin> (\<lambda>k. order ! (Suc i + k)) ` {0..<length hs}"
    using Cons.prems(2,3) by (auto simp: nth_eq_iff_index_eq)
  have first: "out ! (order ! i) = Some s"
    using ih(3) in_range fresh by simp
  have "\<exists>s. out ! (order ! (i + k)) = Some s \<and>
      sealedSlot mac g js e (nonces (i + k)) (fst ((h # hs) ! k)) (snd ((h # hs) ! k)) = Inr s"
    if "k < length (h # hs)" for k
    using that first s ih(2) by (cases k) (auto simp: h)
  moreover have "out ! m = slots ! m"
    if "m < length slots" "m \<notin> (\<lambda>k. order ! (i + k)) ` {0..<length (h # hs)}" for m
  proof -
    have "m \<noteq> order ! i"
      using that(2) by (force simp: image_iff)
    moreover have "m \<notin> (\<lambda>k. order ! (Suc i + k)) ` {0..<length hs}"
    proof
      assume "m \<in> (\<lambda>k. order ! (Suc i + k)) ` {0..<length hs}"
      then obtain k where "k < length hs" "m = order ! (i + Suc k)" by auto
      then have "m \<in> (\<lambda>k. order ! (i + k)) ` {0..<length (h # hs)}"
        by (intro image_eqI [of _ _ "Suc k"]) simp_all
      with that(2) show False ..
    qed
    ultimately show ?thesis
      using ih(3) that(1) by simp
  qed
  ultimately show ?case
    using ih(1) by blast
qed simp

lemma fillRandom_facts:
  assumes "fillRandom fillers width i slots = Inr full" "fillersOK fillers"
  shows "length full = length slots \<and>
    (\<forall>m < length slots. case slots ! m of Some s \<Rightarrow> full ! m = s | None \<Rightarrow> length (full ! m) = width)"
  using assms
proof (induction slots arbitrary: i full)
  case (Cons slot slots)
  obtain x rest where x: "full = x # rest" "fillRandom fillers width (Suc i) slots = Inr rest"
    "case slot of Some s \<Rightarrow> x = s | None \<Rightarrow> length x = width"
    using Cons.prems by (auto simp: bindR_Inr fillersOK_def split: option.splits)
  note ih = Cons.IH [OF x(2) Cons.prems(2)]
  have "case (slot # slots) ! m of Some s \<Rightarrow> full ! m = s | None \<Rightarrow> length (full ! m) = width"
    if "m < length (slot # slots)" for m
  proof (cases m)
    case 0
    with x(1,3) show ?thesis by (cases slot) simp_all
  next
    case (Suc k)
    then show ?thesis using that ih x(1) by (cases "slots ! k") fastforce+
  qed
  with ih x(1) show ?case by simp
qed simp

lemma peelSlots_skip:
  assumes "\<forall>slot \<in> set before. openSlot g (hopKey mac shared) slot = None"
  shows "peelSlots mac g js e shared (before @ slots) = peelSlots mac g js e shared slots"
  using assms by (induction before) simp_all

subsection \<open>What a built packet holds\<close>

definition hopsReadable :: "HopInstruction list \<Rightarrow> bool" where
  "hopsReadable hops \<longleftrightarrow> list_all (\<lambda>hop. plainText (hi_NextHop hop) \<and> plainText (hi_BlindedEndpoint hop)) hops"

lemma Build_parts:
  assumes "Build mac g js nonces fillers e hops secrets = Inr packet"
  obtains slots full where "length hops \<le> MaxHops" "length secrets = length hops" "hops \<noteq> []"
    and "fillSlots mac g js e nonces (permutation mac e MaxHops) 0 (zip hops secrets) (replicate MaxHops None) = Inr slots"
    and "fillRandom fillers (case slots ! (permutation mac e MaxHops ! 0) of None \<Rightarrow> 0 | Some s \<Rightarrow> length s) 0 slots = Inr full"
    and "pk_EphemeralPublicKey packet = e" "pk_Slots packet = full"
proof -
  let ?fill = "fillSlots mac g js e nonces (permutation mac e MaxHops) 0 (zip hops secrets) (replicate MaxHops None)"
  let ?full = "\<lambda>slots. fillRandom fillers
      (case slots ! (permutation mac e MaxHops ! 0) of None \<Rightarrow> 0 | Some s \<Rightarrow> length s) 0 slots"
  have ok: "length hops \<le> MaxHops" "length secrets = length hops" "hops \<noteq> []" "expiriesDecrease (map hi_OutgoingExpiry hops)"
    using assms unfolding Build_def by (auto split: if_split_asm)
  then have "bindR ?fill (\<lambda>slots. bindR (?full slots) (\<lambda>full.
      Inr \<lparr> pk_EphemeralPublicKey = e, pk_Slots = full, pk_PaymentCommitment = zero32,
            pk_ProofReference = zero32, pk_Expiry = 0 \<rparr>)) = Inr packet"
    using assms unfolding Build_def Let_def by simp
  then obtain slots full where "?fill = Inr slots" "?full slots = Inr full" "pk_EphemeralPublicKey packet = e" "pk_Slots packet = full"
    by (auto simp: bindR_Inr)
  with ok show ?thesis by (intro that)
qed

lemma permutation_MaxHops:
  "distinct (permutation mac e MaxHops)" "set (permutation mac e MaxHops) = {0..<MaxHops}"
  "length (permutation mac e MaxHops) = MaxHops"
  using permutation_perm [of MaxHops mac e] by (simp_all add: MaxHops_def)

lemma permutation_in_range: "i < MaxHops \<Longrightarrow> permutation mac e MaxHops ! i < MaxHops"
  using permutation_MaxHops nth_mem [of i "permutation mac e MaxHops"] by auto

lemma Build_slots:
  assumes "gcmLaws g" "jsonLaws js" "noncesOK nonces" "fillersOK fillers" "hopsReadable hops"
    and "Build mac g js nonces fillers e hops secrets = Inr packet"
  shows "length (pk_Slots packet) = MaxHops"
    and "\<forall>m < MaxHops. length (pk_Slots packet ! m) = slotLength"
    and "\<forall>k < length hops. \<forall>rest. peelSlots mac g js e (secrets ! k) (pk_Slots packet ! (permutation mac e MaxHops ! k) # rest)
           = Inr (guarded mac e (hops ! k) (secrets ! k))"
proof -
  let ?order = "permutation mac e MaxHops"
  obtain slots full where len: "length hops \<le> MaxHops" "length secrets = length hops" "hops \<noteq> []"
    and fill: "fillSlots mac g js e nonces ?order 0 (zip hops secrets) (replicate MaxHops None) = Inr slots"
    and rnd: "fillRandom fillers (case slots ! (?order ! 0) of None \<Rightarrow> 0 | Some s \<Rightarrow> length s) 0 slots = Inr full"
    and packet: "pk_Slots packet = full"
    using assms(6) by (rule Build_parts)
  have n: "length (zip hops secrets) = length hops"
    using len by simp
  have slots: "length slots = MaxHops"
    "\<forall>k < length hops. \<exists>s. slots ! (?order ! k) = Some s \<and> sealedSlot mac g js e (nonces k) (hops ! k) (secrets ! k) = Inr s"
    "\<forall>m < MaxHops. m \<notin> (\<lambda>k. ?order ! k) ` {0..<length hops} \<longrightarrow> slots ! m = None"
    using fillSlots_facts [OF fill permutation_MaxHops(1)] permutation_MaxHops(2,3) [of mac e] len n by simp_all
  have opens: "\<exists>s. slots ! (?order ! k) = Some s \<and>
      (\<forall>rest. peelSlots mac g js e (secrets ! k) (s # rest) = Inr (guarded mac e (hops ! k) (secrets ! k))) \<and>
      length s = slotLength" if k: "k < length hops" for k
  proof -
    obtain s where s: "slots ! (?order ! k) = Some s" "sealedSlot mac g js e (nonces k) (hops ! k) (secrets ! k) = Inr s"
      using slots(2) k by blast
    have "plainText (hi_NextHop (hops ! k))" "plainText (hi_BlindedEndpoint (hops ! k))"
      using assms(5) k by (simp_all add: hopsReadable_def list_all_length)
    from sealedSlot_opens [OF assms(1-3) this s(2)] s(1) show ?thesis by blast
  qed
  have "(case slots ! (?order ! 0) of None \<Rightarrow> 0 | Some s \<Rightarrow> length s) = slotLength"
    using opens [of 0] len(3) by fastforce
  from fillRandom_facts [OF rnd [unfolded this] assms(4)]
  have full: "length full = MaxHops"
    "\<And>m. m < MaxHops \<Longrightarrow> case slots ! m of Some s \<Rightarrow> full ! m = s | None \<Rightarrow> length (full ! m) = slotLength"
    using slots(1) by auto
  have at_hop: "\<exists>s. full ! (?order ! k) = s \<and>
      (\<forall>rest. peelSlots mac g js e (secrets ! k) (s # rest) = Inr (guarded mac e (hops ! k) (secrets ! k))) \<and>
      length s = slotLength" if k: "k < length hops" for k
    using opens [OF k] full(2) [of "?order ! k"] permutation_in_range [of k mac e] k len(1) by fastforce
  show "length (pk_Slots packet) = MaxHops"
    by (simp add: packet full)
  show "\<forall>k < length hops. \<forall>rest. peelSlots mac g js e (secrets ! k) (pk_Slots packet ! (?order ! k) # rest)
      = Inr (guarded mac e (hops ! k) (secrets ! k))"
    using at_hop by (auto simp: packet)
  show "\<forall>m < MaxHops. length (pk_Slots packet ! m) = slotLength"
  proof (intro allI impI)
    fix m assume m: "m < MaxHops"
    show "length (pk_Slots packet ! m) = slotLength"
    proof (cases "m \<in> (\<lambda>k. ?order ! k) ` {0..<length hops}")
      case True
      then obtain k where k: "k < length hops" "m = ?order ! k" by auto
      with at_hop [OF k(1)] show ?thesis by (auto simp: packet)
    next
      case False
      with slots(3) m have "slots ! m = None" by simp
      with full(2) [OF m] show ?thesis by (simp add: packet)
    qed
  qed
qed

lemma PacketSize_uniform:
  assumes "\<forall>m < length (pk_Slots p). length (pk_Slots p ! m) = n"
  shows "PacketSize (Some p) = 104 + length (pk_Slots p) * n"
proof -
  have "map length (pk_Slots p) = replicate (length (pk_Slots p)) n"
    using assms by (auto intro: nth_equalityI)
  then show ?thesis
    by (simp add: PacketSize_def sum_list_replicate)
qed

lemma Peel_at:
  assumes "m < length (pk_Slots p)"
    and "\<forall>m' < m. openSlot g (hopKey mac shared) (pk_Slots p ! m') = None"
    and "\<forall>rest. peelSlots mac g js (pk_EphemeralPublicKey p) shared (pk_Slots p ! m # rest) = r"
  shows "Peel mac g js (Some p) shared = r"
proof -
  have split: "pk_Slots p = take m (pk_Slots p) @ pk_Slots p ! m # drop (Suc m) (pk_Slots p)"
    using assms(1) by (simp add: id_take_nth_drop)
  have "\<forall>slot \<in> set (take m (pk_Slots p)). openSlot g (hopKey mac shared) slot = None"
    using assms(1,2) by (auto simp: in_set_conv_nth)
  then have "peelSlots mac g js (pk_EphemeralPublicKey p) shared (pk_Slots p) = r"
    using peelSlots_skip assms(3) split by metis
  then show ?thesis
    using assms(1) by (auto simp: Peel_def)
qed

lemma Build_peels:
  assumes "gcmLaws g" "jsonLaws js" "noncesOK nonces" "fillersOK fillers" "hopsReadable hops"
    and "Build mac g js nonces fillers e hops secrets = Inr packet" "i < length hops"
    and "\<forall>m < permutation mac e MaxHops ! i. openSlot g (hopKey mac (secrets ! i)) (pk_Slots packet ! m) = None"
  shows "Peel mac g js (Some packet) (secrets ! i) = Inr (guarded mac e (hops ! i) (secrets ! i))"
proof (rule Peel_at)
  note built = Build_slots [OF assms(1-6)]
  have e: "pk_EphemeralPublicKey packet = e" and n: "length hops \<le> MaxHops"
    using assms(6) by (auto elim: Build_parts)
  show "permutation mac e MaxHops ! i < length (pk_Slots packet)"
    using built(1) permutation_in_range [of i mac e] assms(7) n by simp
  show "\<forall>rest. peelSlots mac g js (pk_EphemeralPublicKey packet) (secrets ! i)
      (pk_Slots packet ! (permutation mac e MaxHops ! i) # rest) = Inr (guarded mac e (hops ! i) (secrets ! i))"
    using built(3) e assms(7) by simp
qed (use assms(8) in simp)

subsection \<open>Properties\<close>

text \<open>
  (C27) The onion delivers, and says nothing by its size. A packet built for a route has exactly
  \<^verbatim>\<open>MaxHops\<close> slots, all of one length whatever the route's; each hop that peels it with its secret gets
  its own instruction, unchanged but for the replay guard bound to this payment, provided that no earlier slot
  authenticates under its key. The slots are assigned by a permutation for every ephemeral key.
\<close>

theorem onion_delivers:
  assumes "gcmLaws g" "jsonLaws js" "noncesOK nonces" "fillersOK fillers" "hopsReadable hops"
    and "Build mac g js nonces fillers e hops secrets = Inr packet"
  shows "length (pk_Slots packet) = MaxHops \<and> (\<forall>m < MaxHops. length (pk_Slots packet ! m) = slotLength) \<and>
    PacketSize (Some packet) = 104 + MaxHops * slotLength \<and>
    distinct (permutation mac e MaxHops) \<and> set (permutation mac e MaxHops) = {0..<MaxHops} \<and>
    (\<forall>i < length hops.
       (\<forall>m < permutation mac e MaxHops ! i. openSlot g (hopKey mac (secrets ! i)) (pk_Slots packet ! m) = None) \<longrightarrow>
       Peel mac g js (Some packet) (secrets ! i) = Inr (guarded mac e (hops ! i) (secrets ! i)))"
proof -
  note built = Build_slots [OF assms]
  show ?thesis
    using built permutation_MaxHops [of mac e] PacketSize_uniform [of packet slotLength] Build_peels [OF assms] by simp
qed

text \<open>
  Building succeeds whenever the route is admissible, every instruction fits its slot and the random source answers.
\<close>

lemma fillSlots_succeeds:
  assumes "\<forall>k < length hs. \<exists>s. sealedSlot mac g js e (nonces (i + k)) (fst (hs ! k)) (snd (hs ! k)) = Inr s"
  shows "\<exists>out. fillSlots mac g js e nonces order i hs slots = Inr out"
  using assms
proof (induction hs arbitrary: i slots)
  case (Cons h hs)
  obtain hop shared where h: "h = (hop, shared)" by force
  obtain s where "sealedSlot mac g js e (nonces i) hop shared = Inr s"
    using Cons.prems [rule_format, of 0] by (auto simp: h)
  moreover have "\<exists>s. sealedSlot mac g js e (nonces (Suc i + k)) (fst (hs ! k)) (snd (hs ! k)) = Inr s" if "k < length hs" for k
    using Cons.prems [rule_format, of "Suc k"] that by simp
  ultimately show ?case
    using Cons.IH [of "Suc i"] by (simp add: h)
qed simp

lemma fillRandom_succeeds:
  assumes "\<forall>i n. fillers i n \<noteq> None"
  shows "\<exists>full. fillRandom fillers width i slots = Inr full"
proof (induction slots arbitrary: i)
  case (Cons slot slots)
  obtain f where "fillers i width = Some f"
    using assms by blast
  moreover obtain rest where "fillRandom fillers width (Suc i) slots = Inr rest"
    using Cons.IH by blast
  ultimately show ?case
    by (cases slot) simp_all
qed simp

lemma Build_succeeds:
  assumes "length hops \<le> MaxHops" "length secrets = length hops" "hops \<noteq> []" "expiriesDecrease (map hi_OutgoingExpiry hops)"
    and "\<forall>i. nonces i \<noteq> None" "\<forall>i n. fillers i n \<noteq> None"
    and "\<forall>i < length hops. length (hj_Marshal js (guarded mac e (hops ! i) (secrets ! i))) + 4 \<le> SlotSize"
  shows "\<exists>packet. Build mac g js nonces fillers e hops secrets = Inr packet"
proof -
  have "\<exists>s. sealedSlot mac g js e (nonces (0 + k)) (fst (zip hops secrets ! k)) (snd (zip hops secrets ! k)) = Inr s"
    if "k < length (zip hops secrets)" for k
  proof -
    obtain nonce where "nonces k = Some nonce"
      using assms(5) by blast
    then show ?thesis
      using that assms(2,7) by (auto simp: sealedSlot_def padTo_def seal_def not_less)
  qed
  from fillSlots_succeeds [OF allI [OF impI [OF this]]]
  obtain slots where "fillSlots mac g js e nonces (permutation mac e MaxHops) 0 (zip hops secrets) (replicate MaxHops None) = Inr slots"
    by metis
  then show ?thesis
    using assms(1-4) fillRandom_succeeds [OF assms(6)]
    by (simp add: Build_def Let_def) (metis bindR_simps(2))
qed

subsection \<open>A concrete instance\<close>

text \<open>
  An encoding of instructions that satisfies \<open>jsonLaws\<close> (every byte is escaped, every field ends in a 1), a
  cipher that prepends its key, and a keyed hash that returns the data after its length.
\<close>

fun escB :: "bytes \<Rightarrow> bytes" where
  "escB [] = [1]"
| "escB (b # bs) = 0 # b # escB bs"

fun unescB :: "bytes \<Rightarrow> (bytes \<times> bytes) option" where
  "unescB (x # rest) =
     (if x = 1 then Some ([], rest)
      else (case rest of [] \<Rightarrow> None
            | b # tail \<Rightarrow> (case unescB tail of None \<Rightarrow> None | Some (bs, left) \<Rightarrow> Some (b # bs, left))))"
| "unescB [] = None"

lemma unescB_escB [simp]: "unescB (escB bs @ rest) = Some (bs, rest)"
  by (induction bs) simp_all

definition bytesStr :: "bytes \<Rightarrow> string" where
  "bytesStr bs = map (\<lambda>b. char_of (unat b)) bs"

lemma bytesStr_strBytes [simp]: "bytesStr (strBytes s) = s"
proof (induction s)
  case (Cons c s)
  have "unat (of_nat (of_char c) :: byte) = of_char c"
    by (simp add: unat_of_nat)
  with Cons show ?case by (simp add: bytesStr_def strBytes_def)
qed (simp add: bytesStr_def strBytes_def)

definition demoHopMarshal :: "HopInstruction \<Rightarrow> bytes" where
  "demoHopMarshal h = escB (strBytes (hi_NextHop h)) @ escB (strBytes (hi_BlindedEndpoint h)) @
     escB (hi_OutgoingCommitment h) @ escB (hi_FeeCommitment h) @ escB (uint64Bytes (hi_OutgoingExpiry h)) @
     escB (hi_ReplayGuard h)"

definition nextField :: "bytes \<Rightarrow> (bytes \<Rightarrow> bytes \<Rightarrow> 'a option) \<Rightarrow> 'a option" where
  "nextField b f = (case unescB b of None \<Rightarrow> None | Some (x, rest) \<Rightarrow> f x rest)"

definition demoHopUnmarshal :: "bytes \<Rightarrow> HopInstruction option" where
  "demoHopUnmarshal b0 =
     nextField b0 (\<lambda>n b1. nextField b1 (\<lambda>ep b2. nextField b2 (\<lambda>oc b3. nextField b3 (\<lambda>fc b4.
     nextField b4 (\<lambda>x b5. nextField b5 (\<lambda>g b6.
       Some \<lparr> hi_NextHop = bytesStr n, hi_BlindedEndpoint = bytesStr ep, hi_OutgoingCommitment = oc,
             hi_FeeCommitment = fc, hi_OutgoingExpiry = of_nat (bytesNat x), hi_ReplayGuard = g \<rparr>))))))"

definition demoHopJson :: hop_json where
  "demoHopJson = \<lparr> hj_Marshal = demoHopMarshal, hj_Unmarshal = demoHopUnmarshal \<rparr>"

lemma demoHopJson_laws: "jsonLaws demoHopJson"
proof -
  have "demoHopUnmarshal (demoHopMarshal hop) = Some hop" for hop
    using unescB_escB [where rest = "[]"]
    by (simp add: demoHopUnmarshal_def demoHopMarshal_def nextField_def)
  then show ?thesis
    by (simp add: jsonLaws_def demoHopJson_def)
qed

definition demoGcm :: aesgcm where
  "demoGcm = \<lparr> gcm_Seal = (\<lambda>key nonce plain. copyArr 16 key @ plain),
     gcm_Open = (\<lambda>key nonce c. if take 16 c = copyArr 16 key then Some (drop 16 c) else None) \<rparr>"

lemma demoGcm_laws: "gcmLaws demoGcm"
  by (auto simp: gcmLaws_def demoGcm_def)

definition demoMac :: mac where
  "demoMac key m = drop 8 m"

definition demoHop :: HopInstruction where
  "demoHop = \<lparr> hi_NextHop = [], hi_BlindedEndpoint = ''ab'', hi_OutgoingCommitment = [], hi_FeeCommitment = [],
     hi_OutgoingExpiry = 1060, hi_ReplayGuard = [] \<rparr>"

definition demoEphemeral :: bytes32 where
  "demoEphemeral = [0, 0, 0, 0, 0, 0, 0, 1, 0, 0, 0, 2] @ replicate 20 0"

definition demoNonces :: "nat \<Rightarrow> bytes option" where
  "demoNonces i = Some (replicate NonceSize 0)"

definition demoFillers :: "nat \<Rightarrow> nat \<Rightarrow> bytes option" where
  "demoFillers i n = Some (replicate n 0)"

lemma length_escB [simp]: "length (escB bs) = 2 * length bs + 1"
  by (induction bs) simp_all

lemma demo_first: "permutation demoMac demoEphemeral MaxHops ! 0 = 0"
  by code_simp

theorem onion_delivers_witness:
  "\<exists>packet. Build demoMac demoGcm demoHopJson demoNonces demoFillers demoEphemeral [demoHop] [replicate 32 7] = Inr packet \<and>
     length (pk_Slots packet) = MaxHops \<and> PacketSize (Some packet) = 104 + MaxHops * slotLength \<and>
     Peel demoMac demoGcm demoHopJson (Some packet) (replicate 32 7) = Inr (guarded demoMac demoEphemeral demoHop (replicate 32 7))"
proof -
  have guard: "length (replayGuardFor demoMac (replicate 32 7) demoEphemeral) = 32"
    by (simp add: replayGuardFor_def)
  have "\<exists>packet. Build demoMac demoGcm demoHopJson demoNonces demoFillers demoEphemeral [demoHop] [replicate 32 7] = Inr packet"
    by (rule Build_succeeds)
       (simp_all add: MaxHops_def demoNonces_def demoFillers_def demoHopJson_def demoHopMarshal_def guarded_def demoHop_def
         SlotSize_def guard strBytes_def)
  then obtain packet where p: "Build demoMac demoGcm demoHopJson demoNonces demoFillers demoEphemeral [demoHop] [replicate 32 7] = Inr packet"
    by blast
  have "noncesOK demoNonces" "fillersOK demoFillers" "hopsReadable [demoHop]"
    by (simp_all add: noncesOK_def demoNonces_def fillersOK_def demoFillers_def hopsReadable_def demoHop_def plainText_def)
  from onion_delivers [OF demoGcm_laws demoHopJson_laws this p] demo_first p show ?thesis
    by simp
qed

end
