(* ===== verification/Router.thy ===== *)
theory Router
  imports Onion "HOL-Library.AList"
begin

text \<open>
  A forwarding router, \<^verbatim>\<open>src/internal/channel/router.go\<close>. A time is in nanoseconds, \<^verbatim>\<open>Time.Sub\<close> saturates. The
  mutex is held twice during \<^verbatim>\<open>Forward\<close>, once to look (\<open>screen\<close>) and once to record (\<open>admit\<close>), and not in
  between; both sections and the checks between them (\<open>checkHop\<close>) are definitions of their own, so that
  interleaved calls can be stated, and \<open>Forward\<close> is their composition by one undisturbed call.
\<close>

datatype router_error =
    ErrReplayed | ErrExpiredHop | ErrExpiryTooTight | ErrFeeUnacceptable | ErrNoLiquidity | ErrTooManyInFlight
  | RouterPeel onion_error

record RouterPolicy =
  rp_MinTimelockMargin :: int
  rp_MaxInFlight :: int
  rp_MaxHTLCValue :: Amount
  rp_BaseFee :: Amount
  rp_PrivateOnly :: bool

record InFlight =
  fl_ReplayGuard :: bytes32
  fl_OutgoingCommitment :: bytes32
  fl_Expiry :: instant

record Router =
  rt_policy :: RouterPolicy
  rt_inFlight :: "(bytes32 \<times> InFlight) list"
  rt_seen :: "bytes32 set"
  rt_Forwarded :: u64
  rt_Refused :: u64

definition defaultMargin :: int where
  "defaultMargin = 10 * 60 * 1000000000"

definition NewRouter :: "RouterPolicy \<Rightarrow> Router" where
  "NewRouter policy =
     (let policy = (if rp_MinTimelockMargin policy \<le> 0 then policy\<lparr>rp_MinTimelockMargin := defaultMargin\<rparr> else policy);
          policy = (if rp_MaxInFlight policy \<le> 0 then policy\<lparr>rp_MaxInFlight := 20\<rparr> else policy)
      in \<lparr> rt_policy = policy, rt_inFlight = [], rt_seen = {}, rt_Forwarded = 0, rt_Refused = 0 \<rparr>)"

definition countR :: "bool \<Rightarrow> Router \<Rightarrow> Router" where
  "countR ok r = (if ok then r\<lparr>rt_Forwarded := rt_Forwarded r + 1\<rparr> else r\<lparr>rt_Refused := rt_Refused r + 1\<rparr>)"

definition unixTime :: "u64 \<Rightarrow> instant" where
  \<comment> \<open>\<^verbatim>\<open>time.Unix(int64(x), 0)\<close>\<close>
  "unixTime x = i64 (uint x) * 1000000000"

definition screen :: "Router \<Rightarrow> HopInstruction \<Rightarrow> router_error + unit" where
  \<comment> \<open>the first critical section\<close>
  "screen r hop =
     (if hi_ReplayGuard hop \<in> rt_seen r then Inl ErrReplayed
      else if int (length (rt_inFlight r)) \<ge> rp_MaxInFlight (rt_policy r) then Inl ErrTooManyInFlight
      else Inr ())"

definition checkHop :: "RouterPolicy \<Rightarrow> Packet \<Rightarrow> HopInstruction \<Rightarrow> Amount \<Rightarrow> instant \<Rightarrow> router_error + InFlight" where
  "checkHop policy packet hop outboundAvailable now =
     (let outgoing = unixTime (hi_OutgoingExpiry hop);
          incoming = unixTime (pk_Expiry packet)
      in if \<not> outgoing > now then Inl ErrExpiredHop
         else if timeSub incoming outgoing < rp_MinTimelockMargin policy then Inl ErrExpiryTooTight
         else if rp_MaxHTLCValue policy > 0 \<and> outboundAvailable < rp_MaxHTLCValue policy \<and> outboundAvailable \<le> 0
           then Inl ErrNoLiquidity
         else if outboundAvailable \<le> 0 then Inl ErrNoLiquidity
         else Inr \<lparr> fl_ReplayGuard = hi_ReplayGuard hop, fl_OutgoingCommitment = hi_OutgoingCommitment hop,
                    fl_Expiry = outgoing \<rparr>)"

definition admit :: "Router \<Rightarrow> InFlight \<Rightarrow> Router" where
  \<comment> \<open>the second critical section\<close>
  "admit r lock = r\<lparr>rt_inFlight := AList.update (fl_ReplayGuard lock) lock (rt_inFlight r),
                    rt_seen := insert (fl_ReplayGuard lock) (rt_seen r)\<rparr>"

definition onwardPacket :: "Packet \<Rightarrow> HopInstruction \<Rightarrow> Packet" where
  "onwardPacket packet hop = \<lparr> pk_EphemeralPublicKey = pk_EphemeralPublicKey packet, pk_Slots = pk_Slots packet,
     pk_PaymentCommitment = pk_PaymentCommitment packet, pk_ProofReference = pk_ProofReference packet,
     pk_Expiry = hi_OutgoingExpiry hop \<rparr>"

definition Forward ::
  "mac \<Rightarrow> aesgcm \<Rightarrow> hop_json \<Rightarrow> Router \<Rightarrow> Packet \<Rightarrow> bytes32 \<Rightarrow> Amount \<Rightarrow> instant
    \<Rightarrow> (router_error + Packet \<times> InFlight) \<times> Router" where
  "Forward mac g js r packet shared outboundAvailable now =
     (case Peel mac g js (Some packet) shared of
        Inl e \<Rightarrow> (Inl (RouterPeel e), countR False r)
      | Inr hop \<Rightarrow>
          (case screen r hop of
             Inl e \<Rightarrow> (Inl e, countR False r)
           | Inr _ \<Rightarrow>
               (case checkHop (rt_policy r) packet hop outboundAvailable now of
                  Inl e \<Rightarrow> (Inl e, countR False r)
                | Inr lock \<Rightarrow> (Inr (onwardPacket packet hop, lock), countR True (admit r lock)))))"

definition RouterResolve :: "Router \<Rightarrow> bytes32 \<Rightarrow> Router" where
  "RouterResolve r guard = r\<lparr>rt_inFlight := AList.delete guard (rt_inFlight r)\<rparr>"

definition Outstanding :: "Router \<Rightarrow> InFlight list" where
  "Outstanding r = map snd (rt_inFlight r)"

definition ExpireStale :: "Router \<Rightarrow> instant \<Rightarrow> nat \<times> Router" where
  "ExpireStale r now =
     (let keep = filter (\<lambda>(_, f). fl_Expiry f > now) (rt_inFlight r)
      in (length (rt_inFlight r) - length keep, r\<lparr>rt_inFlight := keep\<rparr>))"

subsection \<open>One call\<close>

lemma countR_simps [simp]:
  "rt_policy (countR ok r) = rt_policy r" "rt_inFlight (countR ok r) = rt_inFlight r" "rt_seen (countR ok r) = rt_seen r"
  "rt_Forwarded (countR ok r) = rt_Forwarded r + (if ok then 1 else 0)"
  "rt_Refused (countR ok r) = rt_Refused r + (if ok then 0 else 1)"
  by (simp_all add: countR_def)

lemma Forward_refused: "Forward mac g js r p shared avail now = (Inl e, r') \<Longrightarrow> r' = countR False r"
  by (auto simp: Forward_def split: sum.splits)

lemma Forward_carried:
  assumes "Forward mac g js r p shared avail now = (Inr (onward, lock), r')"
  obtains hop where "Peel mac g js (Some p) shared = Inr hop" "screen r hop = Inr ()"
    and "checkHop (rt_policy r) p hop avail now = Inr lock" "onward = onwardPacket p hop" "r' = countR True (admit r lock)"
  using assms by (auto simp: Forward_def split: sum.splits)

lemma checkHop_ok:
  "checkHop policy p hop avail now = Inr lock \<longleftrightarrow>
     unixTime (hi_OutgoingExpiry hop) > now \<and>
     timeSub (unixTime (pk_Expiry p)) (unixTime (hi_OutgoingExpiry hop)) \<ge> rp_MinTimelockMargin policy \<and> avail > 0 \<and>
     lock = \<lparr> fl_ReplayGuard = hi_ReplayGuard hop, fl_OutgoingCommitment = hi_OutgoingCommitment hop,
              fl_Expiry = unixTime (hi_OutgoingExpiry hop) \<rparr>"
  by (auto simp: checkHop_def Let_def)

lemma timeSub_ge: "0 < m \<Longrightarrow> m \<le> timeSub a b \<Longrightarrow> m \<le> a - b"
  by (auto simp: timeSub_def)

lemma PacketSize_onward [simp]: "PacketSize (Some (onwardPacket p hop)) = PacketSize (Some p)"
  by (simp add: PacketSize_def onwardPacket_def)

text \<open>
  The configured limit on the value of a lock decides nothing: whether and how a packet is forwarded is the
  same under every value of \<^verbatim>\<open>MaxHTLCValue\<close>, \<^verbatim>\<open>BaseFee\<close> and \<^verbatim>\<open>PrivateOnly\<close>.
\<close>

lemma policy_fields_ignored:
  "fst (Forward mac g js (r\<lparr>rt_policy := rt_policy r\<lparr>rp_MaxHTLCValue := v, rp_BaseFee := f, rp_PrivateOnly := b\<rparr>\<rparr>) p shared avail now)
   = fst (Forward mac g js r p shared avail now)"
  by (auto simp: Forward_def screen_def checkHop_def Let_def split: sum.splits)

subsection \<open>Every run of a router\<close>

datatype router_op =
    OpForward Packet bytes32 Amount instant
  | OpResolve bytes32
  | OpExpire instant

fun routerStep :: "mac \<Rightarrow> aesgcm \<Rightarrow> hop_json \<Rightarrow> Router \<Rightarrow> router_op \<Rightarrow> bytes32 list \<times> Router" where
  \<comment> \<open>the replay guards of what it forwarded\<close>
  "routerStep mac g js r (OpForward p shared avail now) =
     (case Forward mac g js r p shared avail now of
        (Inl _, r') \<Rightarrow> ([], r')
      | (Inr (_, lock), r') \<Rightarrow> ([fl_ReplayGuard lock], r'))"
| "routerStep mac g js r (OpResolve guard) = ([], RouterResolve r guard)"
| "routerStep mac g js r (OpExpire now) = ([], snd (ExpireStale r now))"

fun routerRun :: "mac \<Rightarrow> aesgcm \<Rightarrow> hop_json \<Rightarrow> Router \<Rightarrow> router_op list \<Rightarrow> bytes32 list \<times> Router" where
  "routerRun mac g js r [] = ([], r)"
| "routerRun mac g js r (op # ops) =
     (let (now, r') = routerStep mac g js r op; (later, r'') = routerRun mac g js r' ops in (now @ later, r''))"

definition isForward :: "router_op \<Rightarrow> bool" where
  "isForward op = (case op of OpForward _ _ _ _ \<Rightarrow> True | _ \<Rightarrow> False)"

definition routerInv :: "Router \<Rightarrow> bool" where
  "routerInv r \<longleftrightarrow> distinct (map fst (rt_inFlight r)) \<and> set (map fst (rt_inFlight r)) \<subseteq> rt_seen r \<and>
     int (length (rt_inFlight r)) \<le> rp_MaxInFlight (rt_policy r) \<and>
     list_all (\<lambda>(k, f). fl_ReplayGuard f = k) (rt_inFlight r)"

lemma routerInv_New: "routerInv (NewRouter policy)"
  by (simp add: routerInv_def NewRouter_def Let_def)

lemma routerInv_count [simp]: "routerInv (countR ok r) = routerInv r"
  by (simp add: routerInv_def)

lemma length_update: "length (AList.update k v al) = (if k \<in> set (map fst al) then length al else Suc (length al))"
  by (induction al) auto

lemma set_update: "set (AList.update k v al) \<subseteq> insert (k, v) (set al)"
  by (induction al) auto

lemma routerInv_filter: "routerInv r \<Longrightarrow> routerInv (r\<lparr>rt_inFlight := filter P (rt_inFlight r)\<rparr>)"
proof -
  assume inv: "routerInv r"
  have "length (filter P (rt_inFlight r)) \<le> length (rt_inFlight r)"
    by (rule length_filter_le)
  then have "int (length (filter P (rt_inFlight r))) \<le> rp_MaxInFlight (rt_policy r)"
    using inv unfolding routerInv_def by linarith
  with inv show ?thesis
    by (auto simp: routerInv_def list_all_iff distinct_map_filter)
qed

lemma outstanding_seen:
  assumes "routerInv r" shows "fl_ReplayGuard ` set (Outstanding r) \<subseteq> rt_seen r"
proof
  fix guard assume "guard \<in> fl_ReplayGuard ` set (Outstanding r)"
  then obtain kf where "kf \<in> set (rt_inFlight r)" "guard = fl_ReplayGuard (snd kf)"
    by (auto simp: Outstanding_def)
  with assms show "guard \<in> rt_seen r"
    by (force simp: routerInv_def list_all_iff)
qed

lemma routerStep_effect:
  assumes "routerInv r" "routerStep mac g js r op = (gs, r')"
  shows "routerInv r' \<and> distinct gs \<and> set gs \<inter> rt_seen r = {} \<and> rt_seen r' = rt_seen r \<union> set gs \<and>
    rt_policy r' = rt_policy r \<and> rt_Forwarded r' = rt_Forwarded r + of_nat (length gs) \<and>
    rt_Forwarded r' + rt_Refused r' = rt_Forwarded r + rt_Refused r + (if isForward op then 1 else 0)"
proof (cases op)
  case (OpForward p shared avail now)
  show ?thesis
  proof (cases "Forward mac g js r p shared avail now")
    case (Pair res r1)
    show ?thesis
    proof (cases res)
      case (Inl e)
      with Pair Forward_refused have "r1 = countR False r" by blast
      moreover have "gs = []" "r' = r1"
        using Inl Pair assms(2) OpForward by simp_all
      ultimately show ?thesis
        using assms(1) OpForward by (simp add: routerInv_def isForward_def)
    next
      case (Inr ol)
      obtain onward lock where ol: "ol = (onward, lock)" by force
      with Pair Inr obtain hop where hop: "screen r hop = Inr ()" "checkHop (rt_policy r) p hop avail now = Inr lock"
        "r1 = countR True (admit r lock)"
        using Forward_carried [of mac g js r p shared avail now onward lock r1] by metis
      from hop(2) have guard: "fl_ReplayGuard lock = hi_ReplayGuard hop"
        by (simp add: checkHop_ok)
      from hop(1) have new: "fl_ReplayGuard lock \<notin> rt_seen r"
        and room: "int (length (rt_inFlight r)) < rp_MaxInFlight (rt_policy r)"
        by (auto simp: screen_def guard split: if_splits)
      have absent: "fl_ReplayGuard lock \<notin> set (map fst (rt_inFlight r))"
        using new assms(1) by (auto simp: routerInv_def)
      have "list_all (\<lambda>(k, f). fl_ReplayGuard f = k) (AList.update (fl_ReplayGuard lock) lock (rt_inFlight r))"
        using assms(1) set_update [of "fl_ReplayGuard lock" lock "rt_inFlight r"]
        by (fastforce simp: routerInv_def list_all_iff)
      then have "routerInv (admit r lock)"
        using assms(1) absent room
        by (auto simp: routerInv_def admit_def length_update distinct_update dom_update)
      moreover have "gs = [fl_ReplayGuard lock]" "r' = countR True (admit r lock)"
        using assms(2) OpForward Pair Inr ol hop(3) by simp_all
      ultimately show ?thesis
        using new OpForward by (simp add: isForward_def) (simp add: admit_def)
    qed
  qed
next
  case (OpResolve guard)
  with assms routerInv_filter [OF assms(1)] show ?thesis
    by (auto simp: RouterResolve_def AList.delete_eq isForward_def)
next
  case (OpExpire now)
  with assms routerInv_filter [OF assms(1)] show ?thesis
    by (auto simp: ExpireStale_def Let_def isForward_def)
qed

lemma routerRun_effect:
  assumes "routerInv r" "routerRun mac g js r ops = (gs, r')"
  shows "routerInv r' \<and> distinct gs \<and> set gs \<inter> rt_seen r = {} \<and> rt_seen r' = rt_seen r \<union> set gs \<and>
    rt_policy r' = rt_policy r \<and> rt_Forwarded r' = rt_Forwarded r + of_nat (length gs) \<and>
    rt_Forwarded r' + rt_Refused r' = rt_Forwarded r + rt_Refused r + of_nat (length (filter isForward ops))"
  using assms
proof (induction ops arbitrary: r gs)
  case (Cons op ops)
  obtain g1 r1 where one: "routerStep mac g js r op = (g1, r1)" by force
  obtain g2 where rest: "routerRun mac g js r1 ops = (g2, r')" and gs: "gs = g1 @ g2"
    using Cons.prems(2) one by (auto split: prod.splits)
  note a = routerStep_effect [OF Cons.prems(1) one]
  note b = Cons.IH [OF conjunct1 [OF a] rest]
  from a b show ?case
    by (auto simp: gs)
qed simp

subsection \<open>Properties\<close>

text \<open>
  (C28) A router carries a payment at most once and keeps within its limit. Over any sequence of forwards,
  resolutions and expiries on a new router, no replay guard is forwarded twice, even after its lock is gone;
  the locks held are never more than \<^verbatim>\<open>MaxInFlight\<close>; and the two counters count the calls.
\<close>

theorem router_forwards_once:
  "let (gs, r) = routerRun mac g js (NewRouter policy) ops in
     distinct gs \<and> rt_seen r = set gs \<and> int (length (Outstanding r)) \<le> rp_MaxInFlight (rt_policy (NewRouter policy)) \<and>
     fl_ReplayGuard ` set (Outstanding r) \<subseteq> set gs \<and> rt_Forwarded r = of_nat (length gs) \<and>
     rt_Forwarded r + rt_Refused r = of_nat (length (filter isForward ops))"
proof -
  obtain gs r where run: "routerRun mac g js (NewRouter policy) ops = (gs, r)" by force
  note eff = routerRun_effect [OF routerInv_New run]
  have new: "rt_seen (NewRouter policy) = {}" "rt_Forwarded (NewRouter policy) = 0" "rt_Refused (NewRouter policy) = 0"
    by (simp_all add: NewRouter_def Let_def)
  have guards: "fl_ReplayGuard ` set (Outstanding r) \<subseteq> set gs"
    using eff new outstanding_seen [of r] by simp
  have "int (length (Outstanding r)) \<le> rp_MaxInFlight (rt_policy (NewRouter policy))"
    using eff by (auto simp: routerInv_def Outstanding_def)
  then show ?thesis
    using eff new guards by (auto simp: run)
qed

text \<open>
  (C29) What a router forwards it can claim: the lock it takes on has not expired, ends at least the policy's
  margin before the incoming one, so the onward packet expires strictly earlier; nothing else of the packet
  changes, its size included; and a refusal changes nothing but the counter.
\<close>

theorem forward_is_safe:
  assumes "Forward mac g js r p shared avail now = (res, r')" "0 < rp_MinTimelockMargin (rt_policy r)"
  shows "case res of
      Inl e \<Rightarrow> r' = countR False r
    | Inr (onward, lock) \<Rightarrow>
        fl_Expiry lock > now \<and> avail > 0 \<and>
        unixTime (pk_Expiry p) - unixTime (pk_Expiry onward) \<ge> rp_MinTimelockMargin (rt_policy r) \<and>
        fl_Expiry lock = unixTime (pk_Expiry onward) \<and> fl_ReplayGuard lock \<notin> rt_seen r \<and> fl_ReplayGuard lock \<in> rt_seen r' \<and>
        pk_Slots onward = pk_Slots p \<and> PacketSize (Some onward) = PacketSize (Some p)"
proof (cases res)
  case (Inl e)
  with assms Forward_refused show ?thesis by fastforce
next
  case (Inr ol)
  obtain onward lock where ol: "ol = (onward, lock)" by force
  with assms(1) Inr obtain hop where hop: "screen r hop = Inr ()" "checkHop (rt_policy r) p hop avail now = Inr lock"
    "onward = onwardPacket p hop" "r' = countR True (admit r lock)"
    using Forward_carried [of mac g js r p shared avail now onward lock r'] by metis
  have "fl_ReplayGuard lock \<notin> rt_seen r"
    using hop(1,2) by (auto simp: screen_def checkHop_ok split: if_splits)
  then show ?thesis
    using hop(2) assms(2) timeSub_ge [OF assms(2)]
    by (simp add: Inr ol hop(3,4) checkHop_ok onwardPacket_def admit_def PacketSize_def)
qed

text \<open>
  Between the two critical sections another call may run. Two calls carrying the same instruction then both
  pass the screen, and both are forwarded: the replay check and its record are not one step.
\<close>

theorem concurrent_forwards_both_pass:
  assumes "screen r hop = Inr ()" "checkHop (rt_policy r) p hop avail now = Inr lock"
  shows "\<comment> \<open>call 1 and call 2 look\<close> screen r hop = Inr () \<and> screen r hop = Inr () \<and>
    \<comment> \<open>call 1 records, then call 2, having looked, goes on\<close>
    checkHop (rt_policy (countR True (admit r lock))) p hop avail now = Inr lock \<and>
    rt_Forwarded (countR True (admit (countR True (admit r lock)) lock)) = rt_Forwarded r + 2 \<and>
    screen (admit r lock) hop = Inl ErrReplayed"
proof -
  have "fl_ReplayGuard lock = hi_ReplayGuard hop"
    using assms(2) by (simp add: checkHop_ok)
  with assms show ?thesis
    by (simp add: admit_def screen_def)
qed

subsection \<open>A concrete forward\<close>

definition demoPolicy :: RouterPolicy where
  "demoPolicy = \<lparr> rp_MinTimelockMargin = 0, rp_MaxInFlight = 0, rp_MaxHTLCValue = 0, rp_BaseFee = 0, rp_PrivateOnly = False \<rparr>"

definition demoPacket :: "bytes \<Rightarrow> Packet" where
  "demoPacket s = \<lparr> pk_EphemeralPublicKey = demoEphemeral, pk_Slots = [s], pk_PaymentCommitment = zero32,
     pk_ProofReference = zero32, pk_Expiry = 5000 \<rparr>"

lemma demo_peels: "\<exists>s. Peel demoMac demoGcm demoHopJson (Some (demoPacket s)) (replicate 32 7)
    = Inr (guarded demoMac demoEphemeral demoHop (replicate 32 7))"
proof -
  have "length (replayGuardFor demoMac (replicate 32 7) demoEphemeral) = 32"
    by (simp add: replayGuardFor_def)
  then obtain s where s: "sealedSlot demoMac demoGcm demoHopJson demoEphemeral (demoNonces 0) demoHop (replicate 32 7) = Inr s"
    by (simp add: sealedSlot_def seal_def padTo_def demoNonces_def demoHopJson_def demoHopMarshal_def guarded_def demoHop_def
        SlotSize_def strBytes_def)
  have "noncesOK demoNonces" "plainText (hi_NextHop demoHop)" "plainText (hi_BlindedEndpoint demoHop)"
    by (simp_all add: noncesOK_def demoNonces_def demoHop_def plainText_def)
  from sealedSlot_opens [OF demoGcm_laws demoHopJson_laws this s] show ?thesis
    by (auto simp: Peel_def demoPacket_def)
qed

lemma demo_forwards: "\<exists>s onward lock r. Forward demoMac demoGcm demoHopJson (NewRouter demoPolicy) (demoPacket s) (replicate 32 7) 9 0
    = (Inr (onward, lock), r)"
proof -
  obtain s where "Peel demoMac demoGcm demoHopJson (Some (demoPacket s)) (replicate 32 7)
      = Inr (guarded demoMac demoEphemeral demoHop (replicate 32 7))"
    using demo_peels by blast
  then have "\<exists>onward lock r. Forward demoMac demoGcm demoHopJson (NewRouter demoPolicy) (demoPacket s) (replicate 32 7) 9 0
      = (Inr (onward, lock), r)"
    by (simp add: Forward_def screen_def NewRouter_def demoPolicy_def checkHop_def demoHop_def guarded_def demoPacket_def
        unixTime_def timeSub_def defaultMargin_def Let_def)
  then show ?thesis by blast
qed

theorem forward_is_safe_witness:
  "\<exists>s onward lock r. Forward demoMac demoGcm demoHopJson (NewRouter demoPolicy) (demoPacket s) (replicate 32 7) 9 0
      = (Inr (onward, lock), r) \<and> fl_Expiry lock > 0 \<and> pk_Slots onward = [s] \<and>
     unixTime 5000 - unixTime (pk_Expiry onward) \<ge> defaultMargin"
proof -
  obtain s onward lock r where f: "Forward demoMac demoGcm demoHopJson (NewRouter demoPolicy) (demoPacket s) (replicate 32 7) 9 0
      = (Inr (onward, lock), r)"
    using demo_forwards by blast
  have margin: "rp_MinTimelockMargin (rt_policy (NewRouter demoPolicy)) = defaultMargin" "0 < defaultMargin"
    by (simp_all add: NewRouter_def demoPolicy_def defaultMargin_def)
  have p: "pk_Slots (demoPacket s) = [s]" "pk_Expiry (demoPacket s) = 5000"
    by (simp_all add: demoPacket_def)
  from forward_is_safe [OF f] margin f show ?thesis
    by (simp add: p) blast
qed

end
