(* ===== verification/Payment_Plan.thy ===== *)
theory Payment_Plan
  imports Route Router Private_Note
begin

text \<open>
  A private payment put together from its parts, \<^verbatim>\<open>src/internal/channel/payment.go\<close>: invoice, route, locks and
  onion in the order of the code. The clock that a request without a time reads is the argument \<open>clock\<close>; the
  arguments of the parts (hash, cipher, JSON, rounding, random draws) are collected in the record
  \<open>plan_env\<close>.
\<close>

datatype plan_error =
    ErrNoCurve | PlanInvoice note_error | PlanRoute RouteRefusal | PlanLock lock_error | PlanOnion onion_error

record plan_env =
  pe_mac :: mac
  pe_gcm :: aesgcm
  pe_json :: hop_json
  pe_rnd :: "rat \<Rightarrow> rat"
  pe_secretDraw :: "int option"
  pe_blindDraws :: "nat \<Rightarrow> int option"
  pe_nonces :: "nat \<Rightarrow> bytes option"
  pe_fillers :: "nat \<Rightarrow> nat \<Rightarrow> bytes option"
  pe_clock :: instant

record Plan =
  pn_Amount :: Amount
  pn_Route :: "Candidate list"
  pn_Locks :: LockChain
  pn_Packet :: Packet
  pn_Secret :: bytes
  pn_Invoice :: BlindedInvoice

record PlanRequest =
  pq_Invoice :: "BlindedInvoice option"
  pq_Amount :: Amount
  pq_Candidates :: "Candidate list"
  pq_Routing :: RouteRequest
  pq_Curve :: "curve option"
  pq_Seed :: bytes32
  pq_Now :: "instant option"
    \<comment> \<open>\<open>None\<close> is the zero time\<close>

definition HopSharedSecret :: "mac \<Rightarrow> bytes32 \<Rightarrow> bytes32 \<Rightarrow> NodeID \<Rightarrow> bytes32" where
  "HopSharedSecret mac seed ephemeral node = derive mac ''rabbiit/payment/hopsecret/v2'' [seed, ephemeral, strBytes node]"

definition coordBytes :: "bigint \<Rightarrow> bytes" where
  "coordBytes x = bigBytes (orZero x)"

definition hopCommitment :: "mac \<Rightarrow> Point \<Rightarrow> bytes32" where
  "hopCommitment mac lock = derive mac ''rabbiit/payment/hopcommit/v1'' [coordBytes (fst lock), coordBytes (snd lock)]"

definition hopAt :: "mac \<Rightarrow> BlindedInvoice \<Rightarrow> Candidate list \<Rightarrow> Point list \<Rightarrow> u64 \<Rightarrow> nat \<Rightarrow> HopInstruction" where
  \<comment> \<open>one round of the loop over the route\<close>
  "hopAt mac invoice route locks base i =
     \<lparr> hi_NextHop = (if i + 1 < length route then cd_NodeID (route ! (i + 1)) else []),
       hi_BlindedEndpoint = (if i + 1 < length route then [] else hexEncode (iv_BlindedEndpoint invoice)),
       hi_OutgoingCommitment = hopCommitment mac (locks ! i),
       hi_FeeCommitment = zero32,
       hi_OutgoingExpiry = base - of_nat (i * 60),
       hi_ReplayGuard = zero32 \<rparr>"

definition planBase :: "instant \<Rightarrow> u64" where
  \<comment> \<open>\<^verbatim>\<open>uint64(now.Add(10 * time.Minute).Unix())\<close>\<close>
  "planBase now = unix64 (now + 10 * 60 * 1000000000)"

definition planNow :: "plan_env \<Rightarrow> PlanRequest \<Rightarrow> instant" where
  "planNow env req = (case pq_Now req of None \<Rightarrow> pe_clock env | Some t \<Rightarrow> t)"

definition hopsAndSecrets ::
  "mac \<Rightarrow> BlindedInvoice \<Rightarrow> Candidate list \<Rightarrow> Point list \<Rightarrow> u64 \<Rightarrow> bytes32 \<Rightarrow> bytes32 \<Rightarrow> HopInstruction list \<times> bytes32 list" where
  "hopsAndSecrets mac invoice route locks base seed ephemeral =
     (map (hopAt mac invoice route locks base) [0..<length route],
      map (\<lambda>c. HopSharedSecret mac seed ephemeral (cd_NodeID c)) route)"

definition liftErr :: "('e \<Rightarrow> 'f) \<Rightarrow> 'e + 'a \<Rightarrow> 'f + 'a" where
  "liftErr f r = (case r of Inl e \<Rightarrow> Inl (f e) | Inr x \<Rightarrow> Inr x)"

definition PlanPayment :: "plan_env \<Rightarrow> PlanRequest \<Rightarrow> plan_error + Plan" where
  "PlanPayment env req =
     (case pq_Curve req of
        None \<Rightarrow> Inl ErrNoCurve
      | Some c \<Rightarrow>
     (case pq_Invoice req of
        None \<Rightarrow> Inl (PlanInvoice ErrInvoiceMalformed)
      | Some invoice \<Rightarrow>
     let now = planNow env req; mac = pe_mac env in
     bindR (liftErr PlanInvoice (InvoiceValidate mac (Some invoice) now)) (\<lambda>_.
     bindR (liftErr PlanInvoice (AcceptsAmount invoice (pq_Amount req))) (\<lambda>_.
     bindR (liftErr PlanRoute (SelectRoute (pe_rnd env) mac (pq_Candidates req) (pq_Routing req) (pq_Seed req))) (\<lambda>route.
     bindR (liftErr PlanLock (NewSecret c (pe_secretDraw env))) (\<lambda>(z, Z).
     bindR (liftErr PlanLock (BuildLocks c Z (length route) (pe_blindDraws env))) (\<lambda>locks.
     let base = planBase now;
         ephemeral = derive mac ''rabbiit/payment/ephemeral/v1'' [pq_Seed req, bigBytes z];
         (hops, secrets) = hopsAndSecrets mac invoice route (lc_Locks locks) base (pq_Seed req) ephemeral
     in bindR (liftErr PlanOnion (Build mac (pe_gcm env) (pe_json env) (pe_nonces env) (pe_fillers env) ephemeral hops secrets)) (\<lambda>packet.
       Inr \<lparr> pn_Amount = pq_Amount req, pn_Route = route, pn_Locks = locks,
             pn_Packet = packet\<lparr>pk_Expiry := base\<rparr>, pn_Secret = bigBytes z, pn_Invoice = invoice \<rparr>))))))))"

definition PlanHops :: "Plan option \<Rightarrow> nat" where
  "PlanHops p = (case p of None \<Rightarrow> 0 | Some q \<Rightarrow> length (pn_Route q))"

fun operatorsFrom :: "string set \<Rightarrow> Candidate list \<Rightarrow> string list" where
  "operatorsFrom seen [] = []"
| "operatorsFrom seen (c # cs) =
     (if cd_Operator c \<noteq> [] \<and> cd_Operator c \<notin> seen then cd_Operator c # operatorsFrom (insert (cd_Operator c) seen) cs
      else operatorsFrom seen cs)"

definition Operators :: "Plan \<Rightarrow> string list" where
  "Operators p = operatorsFrom {} (pn_Route p)"

subsection \<open>The parts of a plan\<close>

lemma liftErr_Inr [simp]: "liftErr f r = Inr x \<longleftrightarrow> r = Inr x"
  by (cases r) (simp_all add: liftErr_def)

lemma liftErr_ok [simp]: "liftErr f (Inr x) = Inr x"
  by (simp add: liftErr_def)

definition planSecrets :: "plan_env \<Rightarrow> PlanRequest \<Rightarrow> Plan \<Rightarrow> bytes32 list" where
  "planSecrets env req p = map (\<lambda>c. HopSharedSecret (pe_mac env) (pq_Seed req) (pk_EphemeralPublicKey (pn_Packet p)) (cd_NodeID c)) (pn_Route p)"

definition planHop :: "plan_env \<Rightarrow> PlanRequest \<Rightarrow> Plan \<Rightarrow> nat \<Rightarrow> HopInstruction" where
  \<comment> \<open>what hop \<open>i\<close> of the plan is told\<close>
  "planHop env req p i = guarded (pe_mac env) (pk_EphemeralPublicKey (pn_Packet p))
     (hopAt (pe_mac env) (pn_Invoice p) (pn_Route p) (lc_Locks (pn_Locks p)) (planBase (planNow env req)) i)
     (planSecrets env req p ! i)"

lemma PlanPayment_parts:
  assumes "PlanPayment env req = Inr plan"
  obtains c z packet where "pq_Curve req = Some c" "pq_Invoice req = Some (pn_Invoice plan)"
    and "InvoiceValidate (pe_mac env) (Some (pn_Invoice plan)) (planNow env req) = Inr ()"
    and "AcceptsAmount (pn_Invoice plan) (pq_Amount req) = Inr ()" "pn_Amount plan = pq_Amount req"
    and "SelectRoute (pe_rnd env) (pe_mac env) (pq_Candidates req) (pq_Routing req) (pq_Seed req) = Inr (pn_Route plan)"
    and "NewSecret c (pe_secretDraw env) = Inr (z, point (baseMult c z))" "pn_Secret plan = bigBytes z"
    and "BuildLocks c (point (baseMult c z)) (length (pn_Route plan)) (pe_blindDraws env) = Inr (pn_Locks plan)"
    and "Build (pe_mac env) (pe_gcm env) (pe_json env) (pe_nonces env) (pe_fillers env) (pk_EphemeralPublicKey (pn_Packet plan))
           (map (hopAt (pe_mac env) (pn_Invoice plan) (pn_Route plan) (lc_Locks (pn_Locks plan)) (planBase (planNow env req)))
              [0..<length (pn_Route plan)])
           (planSecrets env req plan) = Inr packet"
    and "pn_Packet plan = packet\<lparr>pk_Expiry := planBase (planNow env req)\<rparr>"
proof -
  obtain c invoice where c: "pq_Curve req = Some c" and invoice: "pq_Invoice req = Some invoice"
    using assms unfolding PlanPayment_def by (auto split: option.split_asm)
  obtain route z Z locks packet
    where v: "InvoiceValidate (pe_mac env) (Some invoice) (planNow env req) = Inr ()"
      "AcceptsAmount invoice (pq_Amount req) = Inr ()"
      "SelectRoute (pe_rnd env) (pe_mac env) (pq_Candidates req) (pq_Routing req) (pq_Seed req) = Inr route"
      "NewSecret c (pe_secretDraw env) = Inr (z, Z)"
      "BuildLocks c Z (length route) (pe_blindDraws env) = Inr locks"
      "Build (pe_mac env) (pe_gcm env) (pe_json env) (pe_nonces env) (pe_fillers env)
         (derive (pe_mac env) ''rabbiit/payment/ephemeral/v1'' [pq_Seed req, bigBytes z])
         (map (hopAt (pe_mac env) invoice route (lc_Locks locks) (planBase (planNow env req))) [0..<length route])
         (map (\<lambda>c. HopSharedSecret (pe_mac env) (pq_Seed req)
            (derive (pe_mac env) ''rabbiit/payment/ephemeral/v1'' [pq_Seed req, bigBytes z]) (cd_NodeID c)) route) = Inr packet"
    and plan: "plan = \<lparr> pn_Amount = pq_Amount req, pn_Route = route, pn_Locks = locks,
        pn_Packet = packet\<lparr>pk_Expiry := planBase (planNow env req)\<rparr>, pn_Secret = bigBytes z, pn_Invoice = invoice \<rparr>"
    using assms unfolding PlanPayment_def c invoice
    by (auto simp: Let_def bindR_Inr hopsAndSecrets_def)
  have Z: "Z = point (baseMult c z)"
    using v(4) by (auto simp: NewSecret_def Let_def split: option.splits)
  have e: "pk_EphemeralPublicKey packet = derive (pe_mac env) ''rabbiit/payment/ephemeral/v1'' [pq_Seed req, bigBytes z]"
    using v(6) by (auto elim: Build_parts)
  show ?thesis
    by (rule that) (use c invoice v e Z in \<open>simp_all add: plan planSecrets_def\<close>)
qed

lemma Peel_expiry [simp]: "Peel mac g js (Some (p\<lparr>pk_Expiry := x\<rparr>)) shared = Peel mac g js (Some p) shared"
  by (simp add: Peel_def)

lemma hexNibble_plain: "n < 16 \<Longrightarrow> of_char (hexNibble n) < (128 :: nat)"
  by (auto simp: hexNibble_def)

lemma hexEncode_plain: "plainText (hexEncode bs)"
proof (induction bs)
  case (Cons b bs)
  have "unat b div 16 < 16" "unat b mod 16 < 16"
    using unsigned_less [of b, where 'a = nat] by (simp_all add: less_mult_imp_div_less)
  with Cons hexNibble_plain show ?case by (simp add: plainText_def)
qed (simp add: plainText_def)

lemma operatorsFrom_distinct:
  "distinct (map cd_Operator cs) \<Longrightarrow> \<forall>c \<in> set cs. cd_Operator c \<noteq> [] \<and> cd_Operator c \<notin> seen \<Longrightarrow>
   operatorsFrom seen cs = map cd_Operator cs"
proof (induction cs arbitrary: seen)
  case (Cons c cs)
  have "operatorsFrom (insert (cd_Operator c) seen) cs = map cd_Operator cs"
  proof (rule Cons.IH)
    show "\<forall>ca \<in> set cs. cd_Operator ca \<noteq> [] \<and> cd_Operator ca \<notin> insert (cd_Operator c) seen"
    proof
      fix ca assume "ca \<in> set cs"
      then have "cd_Operator ca \<in> set (map cd_Operator cs)" by simp
      then have "cd_Operator ca \<noteq> cd_Operator c" using Cons.prems(1) by auto
      with \<open>ca \<in> set cs\<close> show "cd_Operator ca \<noteq> [] \<and> cd_Operator ca \<notin> insert (cd_Operator c) seen"
        using Cons.prems(2) by simp
    qed
  qed (use Cons.prems(1) in simp)
  with Cons.prems show ?case by simp
qed simp

lemma bytesNat_bigBytes: "0 \<le> z \<Longrightarrow> int (bytesNat (bigBytes z)) = z"
  by (simp add: bigBytes_def)

subsection \<open>Properties\<close>

definition planLaws :: "plan_env \<Rightarrow> PlanRequest \<Rightarrow> bool" where
  \<comment> \<open>what the libraries promise, and node ids of the candidates that JSON keeps\<close>
  "planLaws env req \<longleftrightarrow> gcmLaws (pe_gcm env) \<and> jsonLaws (pe_json env) \<and> noncesOK (pe_nonces env) \<and> fillersOK (pe_fillers env) \<and>
     list_all (\<lambda>c. plainText (cd_NodeID c)) (pq_Candidates req)"

definition curveOK :: "plan_env \<Rightarrow> PlanRequest \<Rightarrow> bool" where
  \<comment> \<open>the group law, and a draw below the order\<close>
  "curveOK env req \<longleftrightarrow> (case (pq_Curve req, pe_secretDraw env) of
     (Some c, Some d) \<Rightarrow> curveLaws c \<and> 0 \<le> d \<and> d < cv_N c | _ \<Rightarrow> True)"

definition noEarlierSlot :: "plan_env \<Rightarrow> PlanRequest \<Rightarrow> Plan \<Rightarrow> nat \<Rightarrow> bool" where
  \<comment> \<open>no slot before hop \<open>i\<close>'s authenticates under its key\<close>
  "noEarlierSlot env req p i \<longleftrightarrow>
     (\<forall>m < permutation (pe_mac env) (pk_EphemeralPublicKey (pn_Packet p)) MaxHops ! i.
        openSlot (pe_gcm env) (hopKey (pe_mac env) (planSecrets env req p ! i)) (pk_Slots (pn_Packet p) ! m) = None)"

lemma plan_peels:
  assumes "PlanPayment env req = Inr plan" "planLaws env req" "i < length (pn_Route plan)" "noEarlierSlot env req plan i"
  shows "Peel (pe_mac env) (pe_gcm env) (pe_json env) (Some (pn_Packet plan)) (planSecrets env req plan ! i)
    = Inr (planHop env req plan i)"
proof -
  obtain packet where route: "SelectRoute (pe_rnd env) (pe_mac env) (pq_Candidates req) (pq_Routing req) (pq_Seed req) = Inr (pn_Route plan)"
    and built: "Build (pe_mac env) (pe_gcm env) (pe_json env) (pe_nonces env) (pe_fillers env) (pk_EphemeralPublicKey (pn_Packet plan))
           (map (hopAt (pe_mac env) (pn_Invoice plan) (pn_Route plan) (lc_Locks (pn_Locks plan)) (planBase (planNow env req)))
              [0..<length (pn_Route plan)])
           (planSecrets env req plan) = Inr packet"
    and packet: "pn_Packet plan = packet\<lparr>pk_Expiry := planBase (planNow env req)\<rparr>"
    using assms(1) by (rule PlanPayment_parts)
  let ?hops = "map (hopAt (pe_mac env) (pn_Invoice plan) (pn_Route plan) (lc_Locks (pn_Locks plan)) (planBase (planNow env req)))
              [0..<length (pn_Route plan)]"
  have subset: "set (pn_Route plan) \<subseteq> set (pq_Candidates req)"
    using SelectRoute_diverse [OF route] by auto
  have "plainText (cd_NodeID (pn_Route plan ! k))" if "k < length (pn_Route plan)" for k
    using subset nth_mem [OF that] assms(2) by (auto simp: planLaws_def list_all_iff)
  then have readable: "hopsReadable ?hops"
    using hexEncode_plain by (auto simp: hopsReadable_def list_all_iff hopAt_def plainText_def)
  have laws: "gcmLaws (pe_gcm env)" "jsonLaws (pe_json env)" "noncesOK (pe_nonces env)" "fillersOK (pe_fillers env)"
    using assms(2) by (simp_all add: planLaws_def)
  show ?thesis
    using Build_peels [OF laws readable built, of i] assms(3,4)
    by (simp add: packet noEarlierSlot_def planHop_def)
qed

text \<open>
  A planned payment is what its parts promise, together. The invoice was valid at that time and accepts
  the amount; the route has the hops asked for, all of different operators, and \<^verbatim>\<open>Operators\<close> lists exactly
  those; each hop peels the instruction for its place: the next node, or at the exit the invoice's endpoint,
  the commitment of its own lock and its expiry; and the secret of the plan settles the locks at every hop.
\<close>

theorem plan_is_consistent:
  assumes "PlanPayment env req = Inr plan" "planLaws env req" "curveOK env req"
  shows "InvoiceValidate (pe_mac env) (pq_Invoice req) (planNow env req) = Inr () \<and> pq_Invoice req = Some (pn_Invoice plan) \<and>
    iv_MinAmount (pn_Invoice plan) \<le> pn_Amount plan \<and> pn_Amount plan \<le> iv_MaxAmount (pn_Invoice plan) \<and>
    PlanHops (Some plan) = hopsOf (pq_Routing req) \<and> PlanHops (Some plan) \<le> MaxHops \<and>
    Operators plan = map cd_Operator (pn_Route plan) \<and> distinct (Operators plan) \<and>
    (\<forall>i < PlanHops (Some plan). noEarlierSlot env req plan i \<longrightarrow>
       Peel (pe_mac env) (pe_gcm env) (pe_json env) (Some (pn_Packet plan)) (planSecrets env req plan ! i) = Inr (planHop env req plan i)) \<and>
    (\<exists>c scalars. pq_Curve req = Some c \<and> SettleRoute c (Some (pn_Locks plan)) (int (bytesNat (pn_Secret plan))) = Inr scalars \<and>
       (\<forall>i < PlanHops (Some plan). Satisfies c (lc_Locks (pn_Locks plan) ! i) (Some (scalars ! i)) = Inr ()))"
proof -
  obtain c z packet where parts: "pq_Curve req = Some c" "pq_Invoice req = Some (pn_Invoice plan)"
    "InvoiceValidate (pe_mac env) (Some (pn_Invoice plan)) (planNow env req) = Inr ()"
    "AcceptsAmount (pn_Invoice plan) (pq_Amount req) = Inr ()" "pn_Amount plan = pq_Amount req"
    "SelectRoute (pe_rnd env) (pe_mac env) (pq_Candidates req) (pq_Routing req) (pq_Seed req) = Inr (pn_Route plan)"
    "NewSecret c (pe_secretDraw env) = Inr (z, point (baseMult c z))" "pn_Secret plan = bigBytes z"
    "BuildLocks c (point (baseMult c z)) (length (pn_Route plan)) (pe_blindDraws env) = Inr (pn_Locks plan)"
    using assms(1) by (rule PlanPayment_parts)
  have div: "length (pn_Route plan) = hopsOf (pq_Routing req)" "distinct (map cd_Operator (pn_Route plan))"
    "\<forall>c \<in> set (pn_Route plan). cd_Operator c \<noteq> []"
    using SelectRoute_diverse [OF parts(6)] by (auto simp: diverse_def usableCandidate_def)
  have ops: "Operators plan = map cd_Operator (pn_Route plan)"
    unfolding Operators_def using div(2,3) by (intro operatorsFrom_distinct) simp_all
  have n: "length (pn_Route plan) \<le> MaxHops"
    using BuildLocks_facts [OF parts(9)] by simp
  have z: "0 \<le> z" "z < cv_N c" "curveLaws c"
    using parts(1,7) assms(3) by (auto simp: NewSecret_def Let_def nonZero_def curveOK_def curveLaws_def split: option.splits if_splits)
  obtain scalars where "SettleRoute c (Some (pn_Locks plan)) z = Inr scalars"
    "\<forall>i < length (pn_Route plan). Satisfies c (lc_Locks (pn_Locks plan) ! i) (Some (scalars ! i)) = Inr ()"
    using route_settles [OF z(3,1,2) parts(9)] by blast
  then have settle: "\<exists>c scalars. pq_Curve req = Some c \<and> SettleRoute c (Some (pn_Locks plan)) (int (bytesNat (pn_Secret plan))) = Inr scalars \<and>
       (\<forall>i < PlanHops (Some plan). Satisfies c (lc_Locks (pn_Locks plan) ! i) (Some (scalars ! i)) = Inr ())"
    using parts(1,8) bytesNat_bigBytes [OF z(1)] by (auto simp: PlanHops_def)
  have amount: "iv_MinAmount (pn_Invoice plan) \<le> pn_Amount plan" "pn_Amount plan \<le> iv_MaxAmount (pn_Invoice plan)"
    using parts(4,5) by (auto simp: AcceptsAmount_def split: if_splits)
  show ?thesis
    using parts(2,3) div(1,2) ops n amount plan_peels [OF assms(1,2)] settle by (simp add: PlanHops_def)
qed

text \<open>
  (C30) Plans and routers do not fit. The packet of a plan carries the expiry of the first hop's own outgoing
  lock, so at the entry the margin between the incoming and the outgoing expiry is zero: a router with any
  positive margin, and \<^verbatim>\<open>NewRouter\<close> makes no other, refuses every planned payment, whatever its state, and counts
  the refusal. It has to be the entry hop's own instruction that the entry node opens: no slot that the node tries
  before the first hop's authenticates under its key (\<open>noEarlierSlot\<close>). A route that names one machine twice, which
  \<open>one_node_twice\<close> shows is possible, can break that, the later hop's slot being opened first. The
  libraries are what they are documented to be and the node ids are plain text (\<open>planLaws\<close>).
\<close>

theorem entry_refuses_every_plan:
  assumes "PlanPayment env req = Inr plan" "planLaws env req" "noEarlierSlot env req plan 0"
    and "0 < rp_MinTimelockMargin (rt_policy r)"
  shows "\<exists>e. Forward (pe_mac env) (pe_gcm env) (pe_json env) r (pn_Packet plan) (planSecrets env req plan ! 0) avail now
    = (Inl e, countR False r)"
proof -
  obtain c z where locks: "BuildLocks c (point (baseMult c z)) (length (pn_Route plan)) (pe_blindDraws env) = Inr (pn_Locks plan)"
    and expiry: "pk_Expiry (pn_Packet plan) = planBase (planNow env req)"
    using assms(1) by (rule PlanPayment_parts) simp
  have "0 < length (pn_Route plan)"
    using BuildLocks_facts [OF locks] by simp
  note peel = plan_peels [OF assms(1,2) this assms(3)]
  have "hi_OutgoingExpiry (planHop env req plan 0) = planBase (planNow env req)"
    by (simp add: planHop_def guarded_def hopAt_def)
  then have "checkHop (rt_policy r) (pn_Packet plan) (planHop env req plan 0) avail now \<noteq> Inr lock" for lock
    using assms(4) by (simp add: checkHop_ok expiry timeSub_def)
  then obtain e where "checkHop (rt_policy r) (pn_Packet plan) (planHop env req plan 0) avail now = Inl e"
    by (cases "checkHop (rt_policy r) (pn_Packet plan) (planHop env req plan 0) avail now") auto
  then show ?thesis
    by (auto simp: Forward_def peel split: sum.split)
qed

lemma NewRouter_margin: "0 < rp_MinTimelockMargin (rt_policy (NewRouter policy))"
  by (simp add: NewRouter_def Let_def defaultMargin_def)

subsection \<open>A concrete plan\<close>

definition demoInvoice0 :: BlindedInvoice where
  "demoInvoice0 = \<lparr> iv_InvoiceID = zero32, iv_IntroductionNode = ''n'', iv_BlindedEndpoint = zero32, iv_FinalHopCiphertext = [],
     iv_RecipientEphemeralKey = zero32, iv_Commitment = zero32, iv_IssuedAt = 0, iv_ExpiresAt = 100, iv_MinAmount = 1,
     iv_MaxAmount = 9, iv_Streaming = False \<rparr>"

definition demoInvoice :: BlindedInvoice where
  "demoInvoice = demoInvoice0\<lparr>iv_Commitment := invoiceCommit demoMac demoInvoice0\<rparr>"

definition demoEnv :: plan_env where
  "demoEnv = \<lparr> pe_mac = demoMac, pe_gcm = demoGcm, pe_json = demoHopJson, pe_rnd = (\<lambda>x. x), pe_secretDraw = Some 4,
     pe_blindDraws = (\<lambda>i. Some (int i)), pe_nonces = demoNonces, pe_fillers = demoFillers, pe_clock = 0 \<rparr>"

definition demoRoute :: "Candidate list" where
  "demoRoute = [demoCandidate ''a'' ''A'' ''X'' (3/4)]"

definition demoPlanRequest :: PlanRequest where
  "demoPlanRequest = \<lparr> pq_Invoice = Some demoInvoice, pq_Amount = 5, pq_Candidates = demoRoute, pq_Routing = demoRequest 1 True,
     pq_Curve = Some demoCurve, pq_Seed = demoEphemeral, pq_Now = Some 0 \<rparr>"

lemma demo_plan_derive: "derive demoMac d (demoEphemeral # ps) = demoEphemeral"
  by (simp add: derive_def demoMac_def frame_def copyArr_def demoEphemeral_def)

lemma demo_fits:
  "length (demoHopMarshal (guarded demoMac e (hopAt demoMac demoInvoice demoRoute locks base 0) shared)) + 4 \<le> SlotSize"
proof -
  have "length (hexEncode bs) = 2 * length bs" for bs
    by (induction bs) simp_all
  then have "length (strBytes (hexEncode (iv_BlindedEndpoint demoInvoice))) = 64"
    by (simp add: demoInvoice_def demoInvoice0_def strBytes_def)
  moreover have "length (hopCommitment demoMac l) = 32" "length (replayGuardFor demoMac shared e) = 32" for l
    by (simp_all add: hopCommitment_def replayGuardFor_def)
  ultimately show ?thesis
    by (simp add: demoHopMarshal_def guarded_def hopAt_def demoRoute_def SlotSize_def strBytes_def)
qed

lemma demo_plan: "\<exists>plan. PlanPayment demoEnv demoPlanRequest = Inr plan \<and> pn_Route plan = demoRoute \<and>
    pk_EphemeralPublicKey (pn_Packet plan) = demoEphemeral"
proof -
  have now: "planNow demoEnv demoPlanRequest = 0"
    by (simp add: planNow_def demoPlanRequest_def)
  have invoice: "InvoiceValidate demoMac (Some demoInvoice) 0 = Inr ()" "AcceptsAmount demoInvoice 5 = Inr ()"
    by (simp_all add: InvoiceValidate_def demoInvoice_def demoInvoice0_def invoiceCommit_def Unix_def AcceptsAmount_def)
  have route: "SelectRoute (\<lambda>x. x) demoMac demoRoute (demoRequest 1 True) demoEphemeral = Inr demoRoute"
    by (simp add: demo_select demoRoute_def)
  have secret: "NewSecret demoCurve (Some 4) = Inr (4, point (baseMult demoCurve 4))"
    by (simp add: NewSecret_def nonZero_def Let_def)
  obtain locks where locks: "BuildLocks demoCurve (point (baseMult demoCurve 4)) (length demoRoute) (\<lambda>i. Some (int i)) = Inr locks"
    by (auto simp: BuildLocks_def MaxHops_def bindR_def demoRoute_def Let_def)
  let ?hops = "map (hopAt demoMac demoInvoice demoRoute (lc_Locks locks) (planBase 0)) [0..<length demoRoute]"
  let ?secrets = "map (\<lambda>c. HopSharedSecret demoMac demoEphemeral demoEphemeral (cd_NodeID c)) demoRoute"
  have "\<exists>packet. Build demoMac demoGcm demoHopJson demoNonces demoFillers demoEphemeral ?hops ?secrets = Inr packet"
    using demo_fits
    by (intro Build_succeeds) (simp_all add: demoRoute_def MaxHops_def demoNonces_def demoFillers_def demoHopJson_def)
  then obtain packet where packet: "Build demoMac demoGcm demoHopJson demoNonces demoFillers demoEphemeral ?hops ?secrets = Inr packet"
    by blast
  have "pk_EphemeralPublicKey packet = demoEphemeral"
    using packet by (auto elim: Build_parts)
  with invoice route secret locks packet now show ?thesis
    by (simp add: PlanPayment_def hopsAndSecrets_def demo_plan_derive Let_def)
       (simp add: demoPlanRequest_def demoEnv_def Let_def hopsAndSecrets_def demo_plan_derive)
qed

lemma demo_plan_laws: "planLaws demoEnv demoPlanRequest" "curveOK demoEnv demoPlanRequest"
  using demoGcm_laws demoHopJson_laws demoCurve_laws
  by (simp_all add: planLaws_def curveOK_def demoEnv_def demoPlanRequest_def demoRoute_def demoCandidate_def plainText_def
      noncesOK_def demoNonces_def fillersOK_def demoFillers_def demoCurve_def)

lemma demo_no_earlier:
  "pk_EphemeralPublicKey (pn_Packet plan) = demoEphemeral \<Longrightarrow> noEarlierSlot demoEnv demoPlanRequest plan 0"
  by (simp add: noEarlierSlot_def demoEnv_def demo_first)

theorem plan_is_consistent_witness:
  "\<exists>plan. PlanPayment demoEnv demoPlanRequest = Inr plan \<and> PlanHops (Some plan) = 1 \<and> Operators plan = [''A''] \<and>
     Peel demoMac demoGcm demoHopJson (Some (pn_Packet plan)) (planSecrets demoEnv demoPlanRequest plan ! 0)
       = Inr (planHop demoEnv demoPlanRequest plan 0)"
proof -
  obtain plan where plan: "PlanPayment demoEnv demoPlanRequest = Inr plan" "pn_Route plan = demoRoute"
    "pk_EphemeralPublicKey (pn_Packet plan) = demoEphemeral"
    using demo_plan by blast
  have "PlanHops (Some plan) = 1" "pe_mac demoEnv = demoMac" "pe_gcm demoEnv = demoGcm" "pe_json demoEnv = demoHopJson"
    by (simp_all add: PlanHops_def plan(2) demoRoute_def demoEnv_def)
  with plan_is_consistent [OF plan(1) demo_plan_laws] demo_no_earlier [OF plan(3)] plan(1,2) show ?thesis
    by (auto simp: demoRoute_def)
qed

theorem entry_refuses_every_plan_witness:
  "\<exists>plan e. PlanPayment demoEnv demoPlanRequest = Inr plan \<and>
     fst (Forward demoMac demoGcm demoHopJson (NewRouter demoPolicy) (pn_Packet plan) (planSecrets demoEnv demoPlanRequest plan ! 0) 9 0) = Inl e"
proof -
  obtain plan where plan: "PlanPayment demoEnv demoPlanRequest = Inr plan" "pk_EphemeralPublicKey (pn_Packet plan) = demoEphemeral"
    using demo_plan by blast
  have "pe_mac demoEnv = demoMac" "pe_gcm demoEnv = demoGcm" "pe_json demoEnv = demoHopJson"
    by (simp_all add: demoEnv_def)
  with entry_refuses_every_plan [OF plan(1) demo_plan_laws(1) demo_no_earlier [OF plan(2)] NewRouter_margin, of demoPolicy 9 0] plan(1)
  show ?thesis by auto
qed

end
