(* ===== verification/Multipath.thy ===== *)
theory Multipath
  imports Route "HOL-Library.Signed_Division"
begin

text \<open>
  Splitting a payment over independent routes, \<^verbatim>\<open>src/internal/channel/multipath.go\<close>. Amounts are 64-bit; the
  random weights are draws below 1000, \<open>None\<close> for a source that fails; division is Go's, towards zero.
\<close>

datatype split_error = ErrTooSmallToSplit | ErrNotEnoughRoutes | ErrFragmentSum | SplitRandom | SplitLock lock_error

definition MinFragment :: Amount where "MinFragment = 1000"

record Fragment =
  fg_Amount :: Amount
  fg_Route :: "Candidate list"
  fg_Locks :: LockChain

record SplitPlan =
  sp_Total :: Amount
  sp_Fragments :: "Fragment list"


definition routeClash :: "string set \<Rightarrow> Candidate list \<Rightarrow> bool" where
  "routeClash used route \<longleftrightarrow> list_ex (\<lambda>hop. cd_Operator hop = [] \<or> cd_Operator hop \<in> used) route"

fun independentFrom :: "string set \<Rightarrow> Candidate list list \<Rightarrow> Candidate list list" where
  \<comment> \<open>the loop over the routes, with the operators used so far\<close>
  "independentFrom used [] = []"
| "independentFrom used (route # routes) =
     (if routeClash used route then independentFrom used routes
      else route # independentFrom (used \<union> operatorsOf route) routes)"


fun drawWeights :: "nat \<Rightarrow> (nat \<Rightarrow> int option) \<Rightarrow> nat \<Rightarrow> int list option" where
  \<comment> \<open>weight \<open>i\<close> is draw \<open>i\<close> plus one\<close>
  "drawWeights 0 draws i = Some []"
| "drawWeights (Suc k) draws i =
     (case draws i of None \<Rightarrow> None
      | Some w \<Rightarrow> map_option (\<lambda>ws. i64 (w + 1) # ws) (drawWeights k draws (Suc i)))"

definition shares :: "int \<Rightarrow> int list \<Rightarrow> int list" where
  \<comment> \<open>the loop that fills \<open>out\<close>\<close>
  "shares spare ws = map (\<lambda>w. i64 (MinFragment + (i64 (spare * w) sdiv fold (\<lambda>v s. i64 (s + v)) ws 0))) ws"

definition largestIndex :: "int list \<Rightarrow> nat" where
  "largestIndex out = fold (\<lambda>i largest. if out ! i > out ! largest then i else largest) [0..<length out] 0"

definition addRemainder :: "int list \<Rightarrow> int \<Rightarrow> int list" where
  "addRemainder out r = (let k = largestIndex out in out[k := i64 (out ! k + r)])"

definition unevenSplit :: "Amount \<Rightarrow> nat \<Rightarrow> (nat \<Rightarrow> int option) \<Rightarrow> split_error + Amount list" where
  "unevenSplit total0 n draws =
     (if n < 2 then Inl ErrTooSmallToSplit
      else
        let reserved = i64 (MinFragment * int n) in
        if reserved > total0 then Inl ErrTooSmallToSplit
        else
          (case drawWeights n draws 0 of
             None \<Rightarrow> Inl SplitRandom
           | Some ws \<Rightarrow>
               let out = shares (i64 (total0 - reserved)) ws;
                   remainder = i64 (total0 - fold (\<lambda>a s. i64 (s + a)) out 0)
               in Inr (if remainder \<noteq> 0 then addRemainder out remainder else out)))"

fun verifyRoute :: "string set \<Rightarrow> Candidate list \<Rightarrow> string set option" where
  \<comment> \<open>the inner loop of \<^verbatim>\<open>Verify\<close>: \<open>None\<close> at an operator seen before\<close>
  "verifyRoute seen [] = Some seen"
| "verifyRoute seen (hop # hops) = (if cd_Operator hop \<in> seen then None else verifyRoute (insert (cd_Operator hop) seen) hops)"

fun verifyFrom :: "int \<Rightarrow> string set \<Rightarrow> Fragment list \<Rightarrow> split_error + int" where
  "verifyFrom s seen [] = Inr s"
| "verifyFrom s seen (f # fs) =
     (if fg_Amount f < MinFragment then Inl ErrTooSmallToSplit
      else (case verifyRoute seen (fg_Route f) of
              None \<Rightarrow> Inl ErrNotEnoughRoutes
            | Some seen' \<Rightarrow> verifyFrom (i64 (s + fg_Amount f)) seen' fs))"

definition SplitVerify :: "SplitPlan option \<Rightarrow> split_error + unit" where
  "SplitVerify plan =
     (case plan of
        None \<Rightarrow> Inl ErrNotEnoughRoutes
      | Some p \<Rightarrow>
          if length (sp_Fragments p) < 2 then Inl ErrNotEnoughRoutes
          else bindR (verifyFrom 0 {} (sp_Fragments p)) (\<lambda>s. if s \<noteq> sp_Total p then Inl ErrFragmentSum else Inr ()))"



definition AllEqual :: "SplitPlan option \<Rightarrow> bool" where
  "AllEqual plan =
     (case plan of
        None \<Rightarrow> False
      | Some p \<Rightarrow> if length (sp_Fragments p) < 2 then False
          else list_all (\<lambda>f. fg_Amount f = fg_Amount (hd (sp_Fragments p))) (tl (sp_Fragments p)))"

definition Sizes :: "SplitPlan \<Rightarrow> Amount list" where
  "Sizes p = sort (map fg_Amount (sp_Fragments p))"

subsection \<open>The weights and shares\<close>













subsection \<open>Independence and verification\<close>

definition planOperators :: "Fragment list \<Rightarrow> string list" where
  "planOperators fs = concat (map (\<lambda>f. map cd_Operator (fg_Route f)) fs)"






lemma independentFrom_clean:
  "r \<in> set (independentFrom used routes) \<Longrightarrow> operatorsOf r \<inter> used = {}"
  by (induction routes arbitrary: used) (auto simp: routeClash_def list_ex_iff operatorsOf_def split: if_splits)


lemma planOperators_routes: "set (planOperators fs) = \<Union> (operatorsOf ` set (map fg_Route fs))"
  by (auto simp: planOperators_def operatorsOf_def)






subsection \<open>Properties\<close>













text \<open>
  Above that bound the product overflows: a payment of 2^62 is divided into one fragment of everything and one
  of nothing, which the plan's own verification then refuses as too small to split.
\<close>

theorem huge_split_overflows:
  "unevenSplit (2 ^ 62) 2 (\<lambda>_. Some 999) = Inr [2 ^ 62, 0] \<and>
   SplitVerify (Some \<lparr> sp_Total = 2 ^ 62, sp_Fragments =
      [\<lparr> fg_Amount = 2 ^ 62, fg_Route = r, fg_Locks = l \<rparr>, \<lparr> fg_Amount = 0, fg_Route = r', fg_Locks = l' \<rparr>] \<rparr>) \<noteq> Inr ()"
  by (auto simp: unevenSplit_def MinFragment_def i64_def shares_def numeral_2_eq_2 addRemainder_def largestIndex_def
      SplitVerify_def bindR_def split: option.splits)

end
