(* ===== verification/Multipath_Exec.thy ===== *)
theory Multipath_Exec
  imports Multipath Coordinator Wire_Props
begin

text \<open>
  Executing a split payment over channels, \<^verbatim>\<open>src/internal/channel/multipath_exec.go\<close>. The executor works on the
  coordinator's state; \<open>exec_env\<close> holds, for each leg of a pass, the fate of the writes, the chain reader and
  the transport. The journal is a map from payment ids to the values the JSON struct holds, where amounts are
  decimal text.
\<close>

datatype mp_error =
    ErrNegativeFragment nat int | ErrPlanNotConserving int int | ErrFragmentExpiryUnsafe nat int int | ErrNoFragments
  | ErrDuplicateFragmentChannel | PlanUnverified split_error | ErrPlanChannelMismatch | ErrPerHopWindow | ErrNoFragment
  | ErrJournal | JournalParse chan_error

record MultipathLeg =
  ml_Index :: int
  ml_Channel :: bytes32
  ml_Amount :: bigint
  ml_Expiry :: int
  ml_Intent :: bytes32
  ml_Hash :: bytes32
  ml_LockID :: bytes32

record MultipathPay =
  mp_ID :: bytes32
  mp_Total :: bigint
  mp_Deadline :: int
  mp_Legs :: "MultipathLeg list"

definition FragmentIntent :: "mac \<Rightarrow> bytes32 \<Rightarrow> int \<Rightarrow> bytes32 \<Rightarrow> bigint \<Rightarrow> bytes32" where
  "FragmentIntent mac paymentID index channel amount =
     derive mac ''rabbiit/multipath/intent/v1'' [paymentID, u64word (of_int index), channel, bigBytes (orZero amount)]"

definition FragmentPreimage :: "mac \<Rightarrow> bytes32 \<Rightarrow> bytes32 \<Rightarrow> bytes32" where
  "FragmentPreimage mac secret intent = derive mac ''rabbiit/multipath/preimage/v2'' [secret, intent]"

definition FragmentHash :: "mac \<Rightarrow> crypto \<Rightarrow> bytes32 \<Rightarrow> bytes32 \<Rightarrow> bytes32" where
  "FragmentHash mac cr secret intent = copyArr 32 (keccak cr [FragmentPreimage mac secret intent])"

definition legFor :: "mac \<Rightarrow> crypto \<Rightarrow> bytes32 \<Rightarrow> bytes32 \<Rightarrow> nat \<Rightarrow> bytes32 \<Rightarrow> int \<Rightarrow> int \<Rightarrow> MultipathLeg" where
  "legFor mac cr pid secret i channel amt expiry =
     (let intent = FragmentIntent mac pid (int i) channel (Some amt) in
      \<lparr> ml_Index = int i, ml_Channel = channel, ml_Amount = Some amt, ml_Expiry = expiry, ml_Intent = intent,
        ml_Hash = FragmentHash mac cr secret intent,
        ml_LockID = derive mac ''rabbiit/multipath/lock/v1'' [intent] \<rparr>)"

fun buildLegs ::
  "mac \<Rightarrow> crypto \<Rightarrow> bytes32 \<Rightarrow> bytes32 \<Rightarrow> int \<Rightarrow> nat \<Rightarrow> bytes32 set \<Rightarrow> (bytes32 \<times> bigint \<times> int) list
    \<Rightarrow> mp_error + MultipathLeg list \<times> int" where
  \<comment> \<open>the loop over the channels: the legs built and the sum of their amounts\<close>
  "buildLegs mac cr pid secret deadline i seen [] = Inr ([], 0)"
| "buildLegs mac cr pid secret deadline i seen ((channel, amount, expiry) # rest) =
     (let amt = orZero amount in
      if amt \<le> 0 then Inl (ErrNegativeFragment i amt)
      else if channel \<in> seen then Inl ErrDuplicateFragmentChannel
      else if expiry \<le> 0 \<or> expiry > deadline then Inl (ErrFragmentExpiryUnsafe i expiry deadline)
      else bindR (buildLegs mac cr pid secret deadline (Suc i) (insert channel seen) rest) (\<lambda>(legs, total').
        Inr (legFor mac cr pid secret i channel amt expiry # legs, amt + total')))"

definition BuildPayment ::
  "mac \<Rightarrow> crypto \<Rightarrow> bytes32 \<Rightarrow> bytes32 \<Rightarrow> bigint \<Rightarrow> int \<Rightarrow> bytes32 list \<Rightarrow> bigint list \<Rightarrow> int list
    \<Rightarrow> mp_error + MultipathPay" where
  "BuildPayment mac cr pid secret total0 deadline channels amounts expiries =
     (if length channels < 2 \<or> length channels \<noteq> length amounts \<or> length channels \<noteq> length expiries then Inl ErrNoFragments
      else bindR (buildLegs mac cr pid secret deadline 0 {} (zip channels (zip amounts expiries))) (\<lambda>(legs, s).
        if s \<noteq> orZero total0 then Inl (ErrPlanNotConserving s (orZero total0))
        else Inr \<lparr> mp_ID = pid, mp_Total = Some (orZero total0), mp_Deadline = deadline, mp_Legs = legs \<rparr>))"

subsection \<open>What the channels say\<close>

datatype leg_error = LegPeer string | LegPay chan_error | LegRefused RejectCode string

definition asLegError :: "chan_error + PaymentResult \<Rightarrow> leg_error option" where
  "asLegError r =
     (case r of
        Inl e \<Rightarrow> Some (LegPay e)
      | Inr res \<Rightarrow> (case pt_Rejected res of Some code \<Rightarrow> Some (LegRefused code (pt_Detail res)) | None \<Rightarrow> None))"

record LegState =
  ls_Index :: int
  ls_Locked :: bool
  ls_Settled :: bool
  ls_Refunded :: bool
  ls_Nonce :: u64

definition Terminal :: "LegState \<Rightarrow> bool" where
  "Terminal l \<longleftrightarrow> ls_Settled l \<or> ls_Refunded l"

definition settleIntent :: "mac \<Rightarrow> bytes32 \<Rightarrow> bytes32" where
  "settleIntent mac lockIntent = derive mac ''rabbiit/multipath/settle/v1'' [lockIntent]"

definition refundIntent :: "mac \<Rightarrow> bytes32 \<Rightarrow> bytes32" where
  "refundIntent mac lockIntent = derive mac ''rabbiit/multipath/refund/v1'' [lockIntent]"

definition legState :: "mac \<Rightarrow> Store \<Rightarrow> MultipathLeg \<Rightarrow> LegState" where
  \<comment> \<open>one round of the loop of \<^verbatim>\<open>Status\<close>\<close>
  "legState mac s leg =
     (case StoreGet s (ml_Channel leg) of
        None \<Rightarrow> \<lparr> ls_Index = ml_Index leg, ls_Locked = False, ls_Settled = False, ls_Refunded = False, ls_Nonce = 0 \<rparr>
      | Some ch \<Rightarrow>
          \<lparr> ls_Index = ml_Index leg, ls_Locked = AppliedAt ch (ml_Intent leg) \<noteq> None,
            ls_Settled = AppliedAt ch (settleIntent mac (ml_Intent leg)) \<noteq> None,
            ls_Refunded = AppliedAt ch (refundIntent mac (ml_Intent leg)) \<noteq> None,
            ls_Nonce = (case AppliedAt ch (ml_Intent leg) of None \<Rightarrow> 0 | Some n \<Rightarrow> n) \<rparr>)"

definition MpStatus :: "mac \<Rightarrow> Store \<Rightarrow> MultipathPay \<Rightarrow> LegState list" where
  "MpStatus mac s pay = sort_key ls_Index (map (legState mac s) (mp_Legs pay))"

record Outcome =
  oc_Locked :: nat
  oc_Settled :: nat
  oc_Refunded :: nat
  oc_Pending :: nat
  oc_SettledAmount :: int
  oc_Legs :: "LegState list"

fun summariseFrom :: "nat \<Rightarrow> MultipathLeg list \<Rightarrow> LegState list \<Rightarrow> Outcome \<Rightarrow> Outcome" where
  \<comment> \<open>the loop; a nil amount would be a nil dereference\<close>
  "summariseFrom i legs [] out = out"
| "summariseFrom i legs (st # rest) out =
     summariseFrom (Suc i) legs rest
       (if ls_Settled st then out\<lparr>oc_Settled := oc_Settled out + 1,
            oc_SettledAmount := oc_SettledAmount out + orZero (ml_Amount (legs ! i))\<rparr>
        else if ls_Refunded st then out\<lparr>oc_Refunded := oc_Refunded out + 1\<rparr>
        else if ls_Locked st then out\<lparr>oc_Locked := oc_Locked out + 1\<rparr>
        else out\<lparr>oc_Pending := oc_Pending out + 1\<rparr>)"

definition Summarise :: "mac \<Rightarrow> Store \<Rightarrow> MultipathPay \<Rightarrow> Outcome" where
  "Summarise mac s pay =
     (let legs = MpStatus mac s pay in
      summariseFrom 0 (mp_Legs pay) legs
        \<lparr> oc_Locked = 0, oc_Settled = 0, oc_Refunded = 0, oc_Pending = 0, oc_SettledAmount = 0, oc_Legs = legs \<rparr>)"

definition Complete_outcome :: "Outcome \<Rightarrow> MultipathPay \<Rightarrow> bool" where
  "Complete_outcome o' pay \<longleftrightarrow> oc_Settled o' = length (mp_Legs pay) \<and> oc_SettledAmount o' = orZero (mp_Total pay)"

subsection \<open>The journal\<close>

record journalEntry =
  je_Payment :: MultipathPay
    \<comment> \<open>the amounts are excluded from the JSON\<close>
  je_Total :: string
  je_Amounts :: "string list"

record Executor =
  ex_dir :: bool
    \<comment> \<open>whether a directory was given\<close>
  ex_journal :: "bytes32 \<Rightarrow> journalEntry option"

definition journalEntryOf :: "MultipathPay \<Rightarrow> journalEntry" where
  "journalEntryOf pay =
     \<lparr> je_Payment = pay\<lparr>mp_Total := None, mp_Legs := map (\<lambda>l. l\<lparr>ml_Amount := None\<rparr>) (mp_Legs pay)\<rparr>,
       je_Total = decString (mp_Total pay), je_Amounts = map (\<lambda>l. decString (ml_Amount l)) (mp_Legs pay) \<rparr>"

definition Journal :: "bool \<Rightarrow> Executor \<Rightarrow> MultipathPay \<Rightarrow> (mp_error + unit) \<times> Executor" where
  \<comment> \<open>the first argument says whether the write and the rename succeed\<close>
  "Journal ok x pay =
     (if \<not> ex_dir x then (Inr (), x)
      else if ok then (Inr (), x\<lparr>ex_journal := (ex_journal x)(mp_ID pay \<mapsto> journalEntryOf pay)\<rparr>)
      else (Inl ErrJournal, x))"

fun restoreAmounts :: "MultipathLeg list \<Rightarrow> string list \<Rightarrow> mp_error + MultipathLeg list" where
  "restoreAmounts [] ds = Inr []"
| "restoreAmounts (l # ls) [] = Inr (l # ls)"
| "restoreAmounts (l # ls) (d # ds) =
     (case parseDec d of
        Inl e \<Rightarrow> Inl (JournalParse e)
      | Inr amt \<Rightarrow> bindR (restoreAmounts ls ds) (\<lambda>ls'. Inr (l\<lparr>ml_Amount := amt\<rparr> # ls')))"

definition LoadJournal :: "Executor \<Rightarrow> bytes32 \<Rightarrow> mp_error + MultipathPay" where
  "LoadJournal x pid =
     (case ex_journal x pid of
        None \<Rightarrow> Inl ErrJournal
      | Some e \<Rightarrow>
          (case parseDec (je_Total e) of
             Inl err \<Rightarrow> Inl (JournalParse err)
           | Inr total' \<Rightarrow> bindR (restoreAmounts (mp_Legs (je_Payment e)) (je_Amounts e)) (\<lambda>legs.
               Inr ((je_Payment e)\<lparr>mp_Total := total', mp_Legs := legs\<rparr>))))"

subsection \<open>Driving the legs\<close>

record exec_env =
  xe_faults :: "nat \<Rightarrow> CoordFaults"
  xe_reader :: "nat \<Rightarrow> reader"
  xe_peers :: "nat \<Rightarrow> bytes32 \<Rightarrow> string + exchange"

definition noteFailure :: "leg_error option \<Rightarrow> CoordState \<Rightarrow> CoordState" where
  "noteFailure e cs = (if e \<noteq> None then cs\<lparr>cs_metrics := ExecutorFailure (cs_metrics cs)\<rparr> else cs)"

definition payLeg ::
  "crypto \<Rightarrow> Coordinator \<Rightarrow> exec_env \<Rightarrow> nat \<Rightarrow> exchange \<Rightarrow> CoordState \<Rightarrow> bytes32 \<Rightarrow> bytes32 \<Rightarrow> StateTransition
    \<Rightarrow> leg_error option \<times> CoordState" where
  "payLeg cr c env i ex cs channel intent tr =
     (case Pay cr c (xe_faults env i) (xe_reader env i) ex cs channel intent tr of
        (r, cs') \<Rightarrow> (asLegError r, noteFailure (asLegError r) cs'))"

definition lockTransition :: "MultipathLeg \<Rightarrow> StateTransition" where
  "lockTransition leg = \<lparr> tr_Kind = KindLockAdd, tr_Amount = Some (orZero (ml_Amount leg)), tr_LockID = ml_LockID leg,
     tr_Hash = ml_Hash leg, tr_Expiry = ml_Expiry leg, tr_Preimage = zero32 \<rparr>"

definition settleTransition :: "mac \<Rightarrow> bytes32 \<Rightarrow> MultipathLeg \<Rightarrow> StateTransition" where
  "settleTransition mac secret leg = \<lparr> tr_Kind = KindLockSettle, tr_Amount = None, tr_LockID = ml_LockID leg,
     tr_Hash = zero32, tr_Expiry = 0, tr_Preimage = FragmentPreimage mac secret (ml_Intent leg) \<rparr>"

definition refundTransition :: "MultipathLeg \<Rightarrow> StateTransition" where
  "refundTransition leg = \<lparr> tr_Kind = KindLockRefund, tr_Amount = None, tr_LockID = ml_LockID leg,
     tr_Hash = zero32, tr_Expiry = 0, tr_Preimage = zero32 \<rparr>"

fun lockFrom ::
  "crypto \<Rightarrow> Coordinator \<Rightarrow> exec_env \<Rightarrow> nat \<Rightarrow> MultipathLeg list \<Rightarrow> CoordState \<Rightarrow> leg_error option list \<times> CoordState" where
  "lockFrom cr c env i [] cs = ([], cs)"
| "lockFrom cr c env i (leg # legs) cs =
     (let (e, cs1) = (case xe_peers env i (ml_Channel leg) of
            Inl t \<Rightarrow> (Some (LegPeer t), noteFailure (Some (LegPeer t)) cs)
          | Inr ex \<Rightarrow> payLeg cr c env i ex cs (ml_Channel leg) (ml_Intent leg) (lockTransition leg));
          (es, cs2) = lockFrom cr c env (Suc i) legs cs1
      in (e # es, cs2))"

definition ExecLock ::
  "crypto \<Rightarrow> Coordinator \<Rightarrow> exec_env \<Rightarrow> bool \<Rightarrow> Executor \<Rightarrow> MultipathPay \<Rightarrow> CoordState
    \<Rightarrow> (mp_error + leg_error option list) \<times> Executor \<times> CoordState" where
  "ExecLock cr c env ok x pay cs =
     (case Journal ok x pay of
        (Inl e, x') \<Rightarrow> (Inl e, x', cs)
      | (Inr _, x') \<Rightarrow>
          (case lockFrom cr c env 0 (mp_Legs pay)
                  (cs\<lparr>cs_metrics := MultipathPayment (int (length (mp_Legs pay))) (cs_metrics cs)\<rparr>) of
             (es, cs') \<Rightarrow> (Inr es, x', cs')))"

fun resolveLegs ::
  "crypto \<Rightarrow> Coordinator \<Rightarrow> exec_env \<Rightarrow> (MultipathLeg \<Rightarrow> bytes32 \<times> StateTransition) \<Rightarrow> nat
    \<Rightarrow> MultipathLeg list \<Rightarrow> LegState list \<Rightarrow> CoordState \<Rightarrow> leg_error option list \<times> CoordState" where
  \<comment> \<open>the loop that \<^verbatim>\<open>Settle\<close> and \<^verbatim>\<open>Refund\<close> share, with the state of each leg at the start of the pass\<close>
  "resolveLegs cr c env step i (leg # legs) (st # sts) cs =
     (let (e, cs1) =
            (if \<not> ls_Locked st \<or> Terminal st then (None, cs)
             else (case xe_peers env i (ml_Channel leg) of
                     Inl t \<Rightarrow> (Some (LegPeer t), cs)
                   | Inr ex \<Rightarrow> payLeg cr c env i ex cs (ml_Channel leg) (fst (step leg)) (snd (step leg))));
          (es, cs2) = resolveLegs cr c env step (Suc i) legs sts cs1
      in (e # es, cs2))"
| "resolveLegs cr c env step i legs sts cs = ([], cs)"

definition ExecSettle ::
  "mac \<Rightarrow> crypto \<Rightarrow> Coordinator \<Rightarrow> exec_env \<Rightarrow> bytes32 \<Rightarrow> MultipathPay \<Rightarrow> CoordState \<Rightarrow> leg_error option list \<times> CoordState" where
  "ExecSettle mac cr c env secret pay cs =
     (case resolveLegs cr c env (\<lambda>leg. (settleIntent mac (ml_Intent leg), settleTransition mac secret leg)) 0
             (mp_Legs pay) (MpStatus mac (nd_store (cs_node cs)) pay) cs of
        (es, cs') \<Rightarrow>
          (let out = Summarise mac (nd_store (cs_node cs')) pay in
           (es, if oc_Settled out > 0 then cs'\<lparr>cs_metrics := TipCompleted (Some (oc_SettledAmount out)) (cs_metrics cs')\<rparr> else cs')))"

definition ExecRefund ::
  "mac \<Rightarrow> crypto \<Rightarrow> Coordinator \<Rightarrow> exec_env \<Rightarrow> MultipathPay \<Rightarrow> CoordState \<Rightarrow> leg_error option list \<times> CoordState" where
  "ExecRefund mac cr c env pay cs =
     resolveLegs cr c env (\<lambda>leg. (refundIntent mac (ml_Intent leg), refundTransition leg)) 0
       (mp_Legs pay) (MpStatus mac (nd_store (cs_node cs)) pay) cs"

definition ExecResume ::
  "mac \<Rightarrow> crypto \<Rightarrow> Coordinator \<Rightarrow> exec_env \<Rightarrow> exec_env \<Rightarrow> bool \<Rightarrow> Executor \<Rightarrow> bytes32 \<Rightarrow> bytes32 option \<Rightarrow> CoordState
    \<Rightarrow> (mp_error + Outcome \<times> leg_error option list) \<times> Executor \<times> CoordState" where
  \<comment> \<open>one environment for the locking pass, one for the other\<close>
  "ExecResume mac cr c envL envR ok x pid secret cs =
     (case LoadJournal x pid of
        Inl e \<Rightarrow> (Inl e, x, cs)
      | Inr pay \<Rightarrow>
          (case secret of
             Some sec \<Rightarrow>
               (case ExecLock cr c envL ok x pay cs of
                  (Inl e, x1, cs1) \<Rightarrow> (Inl e, x1, cs1)
                | (Inr lockErrs, x1, cs1) \<Rightarrow>
                    (case ExecSettle mac cr c envR sec pay cs1 of
                       (settleErrs, cs2) \<Rightarrow>
                         (Inr (Summarise mac (nd_store (cs_node cs2)) pay, lockErrs @ settleErrs), x1, cs2)))
           | None \<Rightarrow>
               (case ExecRefund mac cr c envR pay cs of
                  (errs, cs1) \<Rightarrow> (Inr (Summarise mac (nd_store (cs_node cs1)) pay, errs), x, cs1))))"

subsection \<open>From a split plan\<close>

fun planExpiries :: "int \<Rightarrow> int \<Rightarrow> Fragment list \<Rightarrow> mp_error + int list" where
  "planExpiries now perHop [] = Inr []"
| "planExpiries now perHop (f # fs) =
     (let hops = length (fg_Route f) in
      if hops = 0 then Inl ErrPlanChannelMismatch
      else bindR (planExpiries now perHop fs) (\<lambda>es. Inr (i64 (now + i64 (perHop * int (hops + 1))) # es)))"

definition PaymentFromSplitPlan ::
  "mac \<Rightarrow> crypto \<Rightarrow> SplitPlan option \<Rightarrow> bytes32 \<Rightarrow> bytes32 \<Rightarrow> bytes32 list \<Rightarrow> int \<Rightarrow> int \<Rightarrow> int \<Rightarrow> mp_error + MultipathPay" where
  "PaymentFromSplitPlan mac cr plan pid secret channels now perHopSeconds deadline =
     (case SplitVerify plan of
        Inl e \<Rightarrow> Inl (PlanUnverified e)
      | Inr _ \<Rightarrow>
          (case plan of
             None \<Rightarrow> Inl (PlanUnverified ErrNotEnoughRoutes)
           | Some p \<Rightarrow>
               if length channels \<noteq> length (sp_Fragments p) then Inl ErrPlanChannelMismatch
               else if perHopSeconds \<le> 0 then Inl ErrPerHopWindow
               else bindR (planExpiries now perHopSeconds (sp_Fragments p)) (\<lambda>expiries.
                 BuildPayment mac cr pid secret (Some (sum_list (map fg_Amount (sp_Fragments p)))) deadline channels
                   (map (\<lambda>f. Some (fg_Amount f)) (sp_Fragments p)) expiries)))"

definition RoutingLocksFor :: "SplitPlan option \<Rightarrow> int \<Rightarrow> mp_error + LockChain" where
  "RoutingLocksFor plan index =
     (case plan of
        None \<Rightarrow> Inl ErrNoFragment
      | Some p \<Rightarrow> if index < 0 \<or> index \<ge> int (length (sp_Fragments p)) then Inl ErrNoFragment
          else Inr (fg_Locks (sp_Fragments p ! nat index)))"

subsection \<open>What a built payment fixes\<close>

definition intentParts :: "bytes32 \<Rightarrow> MultipathLeg \<Rightarrow> string \<times> bytes list" where
  "intentParts pid leg = (''rabbiit/multipath/intent/v1'',
     [pid, u64word (of_int (ml_Index leg)), ml_Channel leg, bigBytes (orZero (ml_Amount leg))])"

definition preimageParts :: "bytes32 \<Rightarrow> MultipathLeg \<Rightarrow> string \<times> bytes list" where
  "preimageParts secret leg = (''rabbiit/multipath/preimage/v2'', [secret, ml_Intent leg])"

definition legInputs :: "bytes32 \<Rightarrow> MultipathPay \<Rightarrow> (string \<times> bytes list) set" where
  "legInputs secret pay = (\<Union>leg \<in> set (mp_Legs pay). {intentParts (mp_ID pay) leg, preimageParts secret leg})"

definition legPreimages :: "mac \<Rightarrow> bytes32 \<Rightarrow> MultipathPay \<Rightarrow> bytes set" where
  "legPreimages mac secret pay = (\<lambda>leg. FragmentPreimage mac secret (ml_Intent leg)) ` set (mp_Legs pay)"

definition hashSeparates :: "crypto \<Rightarrow> bytes set \<Rightarrow> bool" where
  \<comment> \<open>Keccak-256 has no collision on these inputs\<close>
  "hashSeparates cr X \<longleftrightarrow> inj_on (\<lambda>x. copyArr 32 (keccak256 cr x)) X"

lemma bigBytes_small: "0 \<le> v \<Longrightarrow> v < 2 ^ 256 \<Longrightarrow> length (bigBytes v) \<le> 32"
  unfolding bigBytes_def by (rule length_natBytes) (simp add: nat_less_iff)

lemma bigBytes_inj: "0 \<le> v \<Longrightarrow> 0 \<le> w \<Longrightarrow> bigBytes v = bigBytes w \<Longrightarrow> v = w"
  unfolding bigBytes_def by (metis abs_of_nonneg bytesNat_natBytes int_nat_eq)

lemma word_of_nat_inj: "i < 2 ^ 64 \<Longrightarrow> j < 2 ^ 64 \<Longrightarrow> (of_int (int i) :: u64) = of_int (int j) \<Longrightarrow> i = j"
proof -
  assume b: "i < 2 ^ 64" "j < 2 ^ 64" and eq: "(of_int (int i) :: u64) = of_int (int j)"
  have "unat (of_nat i :: u64) = unat (of_nat j :: u64)"
    using eq by simp
  with b show ?thesis by (simp add: unat_of_nat)
qed

lemma length_intent [simp]: "length (FragmentIntent mac p i ch a) = 32"
  by (simp add: FragmentIntent_def)

definition wfLegInput :: "bytes32 \<times> bigint \<times> int \<Rightarrow> bool" where
  "wfLegInput x \<longleftrightarrow> length (fst x) = 32 \<and> orZero (fst (snd x)) < 2 ^ 256"

lemma buildLegs_facts:
  assumes "buildLegs mac cr pid secret deadline i seen xs = Inr (legs, total')" "list_all wfLegInput xs"
  shows "length legs = length xs \<and> total' = sum_list (map (\<lambda>l. orZero (ml_Amount l)) legs) \<and>
    distinct (map ml_Channel legs) \<and> set (map ml_Channel legs) \<inter> seen = {} \<and>
    (\<forall>k < length legs. \<exists>amt expiry. legs ! k = legFor mac cr pid secret (i + k) (ml_Channel (legs ! k)) amt expiry \<and>
       0 < amt \<and> amt < 2 ^ 256 \<and> 0 < expiry \<and> expiry \<le> deadline \<and> length (ml_Channel (legs ! k)) = 32)"
  using assms
proof (induction xs arbitrary: i seen legs total')
  case (Cons x xs)
  obtain ch am ex where x: "x = (ch, am, ex)" by (cases x) auto
  obtain ls t where rest: "buildLegs mac cr pid secret deadline (Suc i) (insert ch seen) xs = Inr (ls, t)"
    and legs: "legs = legFor mac cr pid secret i ch (orZero am) ex # ls" "total' = orZero am + t"
    and ok: "0 < orZero am" "ch \<notin> seen" "0 < ex" "ex \<le> deadline"
    using Cons.prems(1) by (auto simp: x Let_def bindR_Inr split: if_splits)
  have len: "length ch = 32" "orZero am < 2 ^ 256"
    using Cons.prems(2) by (simp_all add: x wfLegInput_def)
  have ih: "length ls = length xs" "t = sum_list (map (\<lambda>l. orZero (ml_Amount l)) ls)"
    "distinct (map ml_Channel ls)" "set (map ml_Channel ls) \<inter> insert ch seen = {}"
    "\<forall>k < length ls. \<exists>amt expiry. ls ! k = legFor mac cr pid secret (Suc i + k) (ml_Channel (ls ! k)) amt expiry \<and>
       0 < amt \<and> amt < 2 ^ 256 \<and> 0 < expiry \<and> expiry \<le> deadline \<and> length (ml_Channel (ls ! k)) = 32"
    using Cons.IH [OF rest] Cons.prems(2) by simp_all
  have sel: "ml_Channel (legFor mac cr pid secret i ch (orZero am) ex) = ch"
    "ml_Amount (legFor mac cr pid secret i ch (orZero am) ex) = Some (orZero am)"
    by (simp_all add: legFor_def Let_def)
  have "\<exists>amt expiry. legs ! k = legFor mac cr pid secret (i + k) (ml_Channel (legs ! k)) amt expiry \<and>
       0 < amt \<and> amt < 2 ^ 256 \<and> 0 < expiry \<and> expiry \<le> deadline \<and> length (ml_Channel (legs ! k)) = 32"
    if "k < length legs" for k
  proof (cases k)
    case 0
    then show ?thesis using ok len sel by (auto simp: legs)
  next
    case (Suc m)
    with that ih(5) show ?thesis by (auto simp: legs)
  qed
  with ih(1-4) ok(2) sel show ?case
    by (auto simp: legs)
qed simp

lemma BuildPayment_facts:
  assumes "BuildPayment mac cr pid secret total0 deadline channels amounts expiries = Inr pay"
    and "\<forall>ch \<in> set channels. length ch = 32" "\<forall>a \<in> set amounts. orZero a < 2 ^ 256"
  shows "mp_ID pay = pid \<and> mp_Total pay = Some (orZero total0) \<and> mp_Deadline pay = deadline \<and>
    length (mp_Legs pay) = length channels \<and> 2 \<le> length channels \<and>
    sum_list (map (\<lambda>l. orZero (ml_Amount l)) (mp_Legs pay)) = orZero total0 \<and> distinct (map ml_Channel (mp_Legs pay)) \<and>
    (\<forall>k < length (mp_Legs pay). \<exists>amt expiry.
       mp_Legs pay ! k = legFor mac cr pid secret k (ml_Channel (mp_Legs pay ! k)) amt expiry \<and>
       0 < amt \<and> amt < 2 ^ 256 \<and> 0 < expiry \<and> expiry \<le> deadline \<and> length (ml_Channel (mp_Legs pay ! k)) = 32)"
proof -
  let ?xs = "zip channels (zip amounts expiries)"
  have n: "2 \<le> length channels" "length channels = length amounts" "length channels = length expiries"
    using assms(1) unfolding BuildPayment_def by (simp_all split: if_splits)
  then have "bindR (buildLegs mac cr pid secret deadline 0 {} ?xs) (\<lambda>(legs, s).
        if s \<noteq> orZero total0 then Inl (ErrPlanNotConserving s (orZero total0))
        else Inr \<lparr> mp_ID = pid, mp_Total = Some (orZero total0), mp_Deadline = deadline, mp_Legs = legs \<rparr>) = Inr pay"
    using assms(1) by (simp add: BuildPayment_def)
  then obtain legs where legs: "buildLegs mac cr pid secret deadline 0 {} ?xs = Inr (legs, orZero total0)"
    and pay: "pay = \<lparr> mp_ID = pid, mp_Total = Some (orZero total0), mp_Deadline = deadline, mp_Legs = legs \<rparr>"
    by (auto simp: bindR_Inr split: if_splits)
  have "list_all wfLegInput ?xs"
    unfolding list_all_iff
  proof
    fix x assume mem: "x \<in> set ?xs"
    obtain ch am ex where x: "x = (ch, am, ex)" by (rule prod_cases3)
    with mem have "ch \<in> set channels" "(am, ex) \<in> set (zip amounts expiries)"
      by (auto dest: set_zip_leftD set_zip_rightD)
    then show "wfLegInput x"
      using assms(2,3) by (auto simp: x wfLegInput_def dest: set_zip_leftD)
  qed
  note facts = buildLegs_facts [OF legs this]
  moreover have "length ?xs = length channels"
    using n by simp
  ultimately show ?thesis
    using n(1) by (simp add: pay)
qed

subsection \<open>What a pass may change\<close>

lemma settled_leg_skipped:
  assumes "Terminal st"
  shows "resolveLegs cr c env step i (leg # legs) (st # sts) cs =
    (None # fst (resolveLegs cr c env step (Suc i) legs sts cs), snd (resolveLegs cr c env step (Suc i) legs sts cs))"
  using assms by (simp add: split_beta)

lemma resolveLegs_terminal:
  "list_all Terminal sts \<Longrightarrow> snd (resolveLegs cr c env step i legs sts cs) = cs"
  by (induction cr c env step i legs sts cs rule: resolveLegs.induct) (auto simp: Let_def split_beta)

definition legsCounted :: "Outcome \<Rightarrow> nat" where
  "legsCounted out = oc_Locked out + oc_Settled out + oc_Refunded out + oc_Pending out"

lemma legsCounted_update [simp]:
  "legsCounted (out\<lparr>oc_Settled := Suc (oc_Settled out), oc_SettledAmount := a\<rparr>) = Suc (legsCounted out)"
  "legsCounted (out\<lparr>oc_Refunded := Suc (oc_Refunded out)\<rparr>) = Suc (legsCounted out)"
  "legsCounted (out\<lparr>oc_Locked := Suc (oc_Locked out)\<rparr>) = Suc (legsCounted out)"
  "legsCounted (out\<lparr>oc_Pending := Suc (oc_Pending out)\<rparr>) = Suc (legsCounted out)"
  by (simp_all add: legsCounted_def)

lemma summariseFrom_facts:
  assumes "i + length sts \<le> length legs"
  shows "let out' = summariseFrom i legs sts out; paid = filter (\<lambda>p. ls_Settled (snd p)) (zip (drop i legs) sts) in
    oc_Legs out' = oc_Legs out \<and>
    oc_Settled out' = oc_Settled out + length paid \<and>
    oc_SettledAmount out' = oc_SettledAmount out + sum_list (map (\<lambda>p. orZero (ml_Amount (fst p))) paid) \<and>
    legsCounted out' = legsCounted out + length sts"
  using assms
proof (induction sts arbitrary: i out)
  case (Cons st sts)
  have i: "i < length legs" using Cons.prems by simp
  then have "drop i legs = legs ! i # drop (Suc i) legs"
    by (simp add: Cons_nth_drop_Suc)
  with Cons.IH [of "Suc i"] Cons.prems show ?case
    by (simp add: Let_def)
qed (simp add: Let_def)

definition inOrder :: "MultipathPay \<Rightarrow> bool" where
  "inOrder pay \<longleftrightarrow> sorted (map ml_Index (mp_Legs pay))"

lemma MpStatus_inOrder: "inOrder pay \<Longrightarrow> MpStatus mac s pay = map (legState mac s) (mp_Legs pay)"
proof -
  assume "inOrder pay"
  moreover have "ls_Index (legState mac s leg) = ml_Index leg" for leg
    by (simp add: legState_def split: option.split)
  ultimately show ?thesis
    by (simp add: MpStatus_def inOrder_def sort_key_id_if_sorted comp_def)
qed

definition legSettled :: "mac \<Rightarrow> Store \<Rightarrow> MultipathLeg \<Rightarrow> bool" where
  \<comment> \<open>the leg's channel has applied its settle intent\<close>
  "legSettled mac s leg \<longleftrightarrow> (\<exists>ch. StoreGet s (ml_Channel leg) = Some ch \<and> AppliedAt ch (settleIntent mac (ml_Intent leg)) \<noteq> None)"

lemma legState_settled: "ls_Settled (legState mac s leg) \<longleftrightarrow> legSettled mac s leg"
  by (simp add: legState_def legSettled_def split: option.split)

lemma filter_zip_map: "filter (\<lambda>p. P (snd p)) (zip xs (map f xs)) = map (\<lambda>x. (x, f x)) (filter (\<lambda>x. P (f x)) xs)"
  by (induction xs) simp_all

lemma Summarise_facts:
  assumes "inOrder pay"
  shows "oc_Settled (Summarise mac s pay) = length (filter (legSettled mac s) (mp_Legs pay))"
    and "oc_SettledAmount (Summarise mac s pay) = sum_list (map (\<lambda>l. orZero (ml_Amount l)) (filter (legSettled mac s) (mp_Legs pay)))"
    and "legsCounted (Summarise mac s pay) = length (mp_Legs pay)"
    and "oc_Legs (Summarise mac s pay) = map (legState mac s) (mp_Legs pay)"
  using summariseFrom_facts [of 0 "map (legState mac s) (mp_Legs pay)" "mp_Legs pay"
      "\<lparr> oc_Locked = 0, oc_Settled = 0, oc_Refunded = 0, oc_Pending = 0, oc_SettledAmount = 0,
         oc_Legs = map (legState mac s) (mp_Legs pay) \<rparr>"]
  by (simp_all add: Summarise_def MpStatus_inOrder [OF assms] Let_def filter_zip_map legState_settled comp_def)
     (simp_all add: legsCounted_def)

lemma built_inOrder:
  assumes "BuildPayment mac cr pid secret total0 deadline channels amounts expiries = Inr pay"
    and "\<forall>ch \<in> set channels. length ch = 32" "\<forall>a \<in> set amounts. orZero a < 2 ^ 256"
  shows "inOrder pay"
proof -
  have "ml_Index (mp_Legs pay ! k) = int k" if k: "k < length (mp_Legs pay)" for k
  proof -
    obtain amt expiry where "mp_Legs pay ! k = legFor mac cr pid secret k (ml_Channel (mp_Legs pay ! k)) amt expiry"
      using BuildPayment_facts [OF assms] k by blast
    moreover have "ml_Index (legFor mac cr pid secret k ch amt expiry) = int k" for ch
      by (simp add: legFor_def Let_def)
    ultimately show ?thesis by metis
  qed
  then have "map ml_Index (mp_Legs pay) = map int [0..<length (mp_Legs pay)]"
    by (auto intro: nth_equalityI)
  then show ?thesis
    unfolding inOrder_def by (simp add: sorted_iff_nth_mono)
qed

subsection \<open>Properties\<close>

definition fitsPayment :: "bytes32 \<Rightarrow> bytes32 \<Rightarrow> bytes32 list \<Rightarrow> bigint list \<Rightarrow> bool" where
  \<comment> \<open>32-byte identifiers, amounts of 256 bits, fewer legs than an index can number\<close>
  "fitsPayment pid secret channels amounts \<longleftrightarrow> length pid = 32 \<and> length secret = 32 \<and>
     list_all (\<lambda>ch. length ch = 32) channels \<and> list_all (\<lambda>a. orZero a < 2 ^ 256) amounts \<and> length channels < 2 ^ 64"

text \<open>What the legs of a built payment share with \<open>legFor\<close>.\<close>

definition wfLeg :: "mac \<Rightarrow> crypto \<Rightarrow> bytes32 \<Rightarrow> bytes32 \<Rightarrow> nat \<Rightarrow> MultipathLeg \<Rightarrow> bool" where
  "wfLeg mac cr pid secret k leg \<longleftrightarrow> ml_Index leg = int k \<and> 0 < orZero (ml_Amount leg) \<and> orZero (ml_Amount leg) < 2 ^ 256 \<and>
     length (ml_Channel leg) = 32 \<and> length (ml_Intent leg) = 32 \<and>
     ml_Intent leg = derive mac (fst (intentParts pid leg)) (snd (intentParts pid leg)) \<and>
     ml_Hash leg = FragmentHash mac cr secret (ml_Intent leg)"

lemma legFor_intent: "ml_Intent (legFor mac cr pid s k ch a e) = FragmentIntent mac pid (int k) ch (Some a)"
  by (simp add: legFor_def Let_def)

lemma legFor_index: "ml_Index (legFor mac cr pid s k ch a e) = int k"
  by (simp add: legFor_def Let_def)

lemma legFor_wf:
  "0 < amt \<Longrightarrow> amt < 2 ^ 256 \<Longrightarrow> length ch = 32 \<Longrightarrow> wfLeg mac cr pid secret k (legFor mac cr pid secret k ch amt expiry) \<and>
   ml_Expiry (legFor mac cr pid secret k ch amt expiry) = expiry \<and> ml_Channel (legFor mac cr pid secret k ch amt expiry) = ch"
  by (simp add: wfLeg_def legFor_def Let_def intentParts_def FragmentIntent_def)

lemma built_wfLeg:
  assumes "BuildPayment mac cr pid secret total0 deadline channels amounts expiries = Inr pay" "fitsPayment pid secret channels amounts"
    and "k < length (mp_Legs pay)"
  shows "wfLeg mac cr pid secret k (mp_Legs pay ! k) \<and> 0 < ml_Expiry (mp_Legs pay ! k) \<and> ml_Expiry (mp_Legs pay ! k) \<le> deadline"
proof -
  have fits: "\<forall>ch \<in> set channels. length ch = 32" "\<forall>a \<in> set amounts. orZero a < 2 ^ 256"
    using assms(2) by (auto simp: fitsPayment_def list_all_iff)
  obtain amt expiry where "mp_Legs pay ! k = legFor mac cr pid secret k (ml_Channel (mp_Legs pay ! k)) amt expiry"
    "0 < amt" "amt < 2 ^ 256" "0 < expiry" "expiry \<le> deadline" "length (ml_Channel (mp_Legs pay ! k)) = 32"
    using BuildPayment_facts [OF assms(1) fits] assms(3) by blast
  then show ?thesis
    using legFor_wf by metis
qed

text \<open>
  (C32) A built payment conserves, and its legs are separate. The amounts are positive and add up to the
  total, no channel carries two legs, every leg expires by the deadline; each leg's own preimage opens its
  lock, and opens no other leg's, neither of this payment nor of any other, one made again under the same id and
  secret with other amounts or channels included: the two legs would have to agree in secret, payment, place, channel
  and amount. Unless HMAC or Keccak-256 collides on the very inputs of these legs.
\<close>

theorem payment_legs_separate:
  assumes "BuildPayment mac cr pid secret total0 deadline channels amounts expiries = Inr pay" "fitsPayment pid secret channels amounts"
    and "BuildPayment mac cr pid' secret' total1 deadline' channels' amounts' expiries' = Inr pay'" "fitsPayment pid' secret' channels' amounts'"
    and "separates mac (legInputs secret pay \<union> legInputs secret' pay')"
    and "hashSeparates cr (legPreimages mac secret pay \<union> legPreimages mac secret' pay')"
  shows "sum_list (map (\<lambda>l. orZero (ml_Amount l)) (mp_Legs pay)) = orZero total0 \<and> distinct (map ml_Channel (mp_Legs pay)) \<and>
    list_all (\<lambda>l. 0 < orZero (ml_Amount l) \<and> 0 < ml_Expiry l \<and> ml_Expiry l \<le> deadline) (mp_Legs pay) \<and>
    (\<forall>i < length (mp_Legs pay). \<forall>j < length (mp_Legs pay'). \<forall>h.
       h_Hash h = ml_Hash (mp_Legs pay' ! j) \<and> HTLC_Matches cr h (FragmentPreimage mac secret (ml_Intent (mp_Legs pay ! i)))
         \<longrightarrow> secret = secret' \<and> pid = pid' \<and> i = j \<and> ml_Channel (mp_Legs pay ! i) = ml_Channel (mp_Legs pay' ! j) \<and>
           orZero (ml_Amount (mp_Legs pay ! i)) = orZero (ml_Amount (mp_Legs pay' ! j))) \<and>
    (\<forall>i < length (mp_Legs pay). \<forall>h. h_Hash h = ml_Hash (mp_Legs pay ! i)
         \<longrightarrow> HTLC_Matches cr h (FragmentPreimage mac secret (ml_Intent (mp_Legs pay ! i))))"
proof -
  have fits: "\<forall>ch \<in> set channels. length ch = 32" "\<forall>a \<in> set amounts. orZero a < 2 ^ 256"
    "\<forall>ch \<in> set channels'. length ch = 32" "\<forall>a \<in> set amounts'. orZero a < 2 ^ 256"
    and len: "length pid = 32" "length pid' = 32" "length secret = 32" "length secret' = 32" "length channels < 2 ^ 64" "length channels' < 2 ^ 64"
    using assms(2,4) by (auto simp: fitsPayment_def list_all_iff)
  note f = BuildPayment_facts [OF assms(1) fits(1,2)] and f' = BuildPayment_facts [OF assms(3) fits(3,4)]
  have ids: "mp_ID pay = pid" "mp_ID pay' = pid'"
    using f f' by simp_all
  note leg = built_wfLeg [OF assms(1,2)] and leg' = built_wfLeg [OF assms(3,4)]
  have "secret = secret' \<and> pid = pid' \<and> i = j \<and> ml_Channel (mp_Legs pay ! i) = ml_Channel (mp_Legs pay' ! j) \<and>
      orZero (ml_Amount (mp_Legs pay ! i)) = orZero (ml_Amount (mp_Legs pay' ! j))"
    if ij: "i < length (mp_Legs pay)" "j < length (mp_Legs pay')"
      and h: "h_Hash h = ml_Hash (mp_Legs pay' ! j)" "HTLC_Matches cr h (FragmentPreimage mac secret (ml_Intent (mp_Legs pay ! i)))"
    for i j h
  proof -
    let ?l = "mp_Legs pay ! i" and ?l' = "mp_Legs pay' ! j"
    have mem: "?l \<in> set (mp_Legs pay)" "?l' \<in> set (mp_Legs pay')"
      using ij by simp_all
    have wf: "wfLeg mac cr pid secret i ?l" "wfLeg mac cr pid' secret' j ?l'"
      using leg [OF ij(1)] leg' [OF ij(2)] by simp_all
    have "copyArr 32 (keccak256 cr (FragmentPreimage mac secret (ml_Intent ?l)))
        = copyArr 32 (keccak256 cr (FragmentPreimage mac secret' (ml_Intent ?l')))"
      using h wf(2) by (simp add: HTLC_Matches_def FragmentHash_def wfLeg_def keccak_def)
    then have "FragmentPreimage mac secret (ml_Intent ?l) = FragmentPreimage mac secret' (ml_Intent ?l')"
      using assms(6) mem by (auto simp: hashSeparates_def legPreimages_def dest!: inj_onD)
    moreover have "preimageParts secret ?l \<in> legInputs secret pay \<union> legInputs secret' pay'"
      "preimageParts secret' ?l' \<in> legInputs secret pay \<union> legInputs secret' pay'"
      "intentParts pid ?l \<in> legInputs secret pay \<union> legInputs secret' pay'"
      "intentParts pid' ?l' \<in> legInputs secret pay \<union> legInputs secret' pay'"
      using mem ids by (auto simp: legInputs_def)
    note inputs = this
    ultimately have same: "secret = secret'" "ml_Intent ?l = ml_Intent ?l'"
      using derive_binds [OF assms(5) inputs(1,2) [unfolded preimageParts_def]] len(3,4) wf
      by (simp_all add: FragmentPreimage_def wfLeg_def)
    moreover have "list_all fitsFrame (snd (intentParts pid ?l))" "list_all fitsFrame (snd (intentParts pid' ?l'))"
      using wf len(1,2) bigBytes_small [of "orZero (ml_Amount ?l)"] bigBytes_small [of "orZero (ml_Amount ?l')"]
      by (simp_all add: intentParts_def wfLeg_def)
    ultimately have "snd (intentParts pid ?l) = snd (intentParts pid' ?l')"
      using derive_binds [OF assms(5), of "fst (intentParts pid ?l)" "snd (intentParts pid ?l)" "fst (intentParts pid' ?l')"
          "snd (intentParts pid' ?l')"] inputs(3,4) wf
      by (simp add: wfLeg_def)
    then have parts: "pid = pid'" "(of_int (int i) :: u64) = of_int (int j)" "ml_Channel ?l = ml_Channel ?l'"
      "bigBytes (orZero (ml_Amount ?l)) = bigBytes (orZero (ml_Amount ?l'))"
      using wf u64word_inj by (auto simp: intentParts_def wfLeg_def)
    moreover have "orZero (ml_Amount ?l) = orZero (ml_Amount ?l')"
      using wf by (intro bigBytes_inj [OF _ _ parts(4)]) (simp_all add: wfLeg_def)
    moreover have "i = j"
      using word_of_nat_inj [OF _ _ parts(2)] ij f f' len(5,6) by simp
    ultimately show ?thesis
      using same(1) by blast
  qed
  moreover have "HTLC_Matches cr h (FragmentPreimage mac secret (ml_Intent (mp_Legs pay ! i)))"
    if "i < length (mp_Legs pay)" "h_Hash h = ml_Hash (mp_Legs pay ! i)" for i h
    using leg [OF that(1)] that(2) by (simp add: HTLC_Matches_def FragmentHash_def wfLeg_def)
  moreover have "list_all (\<lambda>l. 0 < orZero (ml_Amount l) \<and> 0 < ml_Expiry l \<and> ml_Expiry l \<le> deadline) (mp_Legs pay)"
    unfolding list_all_length using leg by (simp add: wfLeg_def)
  ultimately show ?thesis
    using f by blast
qed

text \<open>
  The outcome is what the channels say. Every leg is counted once; the settled amount is the sum over
  exactly the legs whose channel has applied the settle intent; it never exceeds the total, and the payment
  is complete exactly when every leg has settled.
\<close>

theorem outcome_is_what_channels_say:
  assumes "BuildPayment mac cr pid secret total0 deadline channels amounts expiries = Inr pay" "fitsPayment pid secret channels amounts"
  shows "let o' = Summarise mac s pay in
    legsCounted o' = length channels \<and>
    oc_SettledAmount o' = sum_list (map (\<lambda>l. orZero (ml_Amount l)) (filter (legSettled mac s) (mp_Legs pay))) \<and>
    oc_SettledAmount o' \<le> orZero total0 \<and>
    (Complete_outcome o' pay \<longleftrightarrow> list_all (legSettled mac s) (mp_Legs pay))"
proof -
  have fits: "\<forall>ch \<in> set channels. length ch = 32" "\<forall>a \<in> set amounts. orZero a < 2 ^ 256"
    using assms(2) by (auto simp: fitsPayment_def list_all_iff)
  note f = BuildPayment_facts [OF assms(1) fits]
  note sm = Summarise_facts [OF built_inOrder [OF assms(1) fits], of mac s]
  have pos: "0 < orZero (ml_Amount l)" if "l \<in> set (mp_Legs pay)" for l
  proof -
    obtain k where "k < length (mp_Legs pay)" "l = mp_Legs pay ! k"
      using \<open>l \<in> set (mp_Legs pay)\<close> by (auto simp: in_set_conv_nth)
    with f obtain amt e where "l = legFor mac cr pid secret k (ml_Channel l) amt e" "0 < amt"
      by metis
    then show ?thesis
      by (metis (no_types, lifting) legFor_def MultipathLeg.select_convs(3) orZero_simps(2))
  qed
  have le: "sum_list (map (\<lambda>l. orZero (ml_Amount l)) (filter P legs)) \<le> sum_list (map (\<lambda>l. orZero (ml_Amount l)) legs)"
    if "\<forall>l \<in> set legs. 0 < orZero (ml_Amount l)" for P legs
    using that by (induction legs) auto
  have all: "length (filter P legs) = length legs \<longleftrightarrow> list_all P legs" for P and legs :: "MultipathLeg list"
    by (metis filter_True filter_id_conv length_filter_less less_irrefl list_all_iff)
  have "filter P legs = legs" if "list_all P legs" for P and legs :: "MultipathLeg list"
    using that by (simp add: filter_id_conv list_all_iff)
  then show ?thesis
    using sm f le [of "mp_Legs pay" "legSettled mac s"] pos all [of "legSettled mac s" "mp_Legs pay"]
    by (auto simp: Let_def Complete_outcome_def)
qed

text \<open>
  The journal gives back the attempt. What \<^verbatim>\<open>LoadJournal\<close> reads after a successful \<^verbatim>\<open>Journal\<close> is the
  payment itself, amounts included, although the JSON carries them as text; a write that fails leaves what was
  there, and without a directory nothing is kept and nothing found.
\<close>

lemma restoreAmounts_journal:
  "restoreAmounts (map (\<lambda>l. l\<lparr>ml_Amount := None\<rparr>) legs) (map (\<lambda>l. decString (ml_Amount l)) legs)
    = Inr (map (\<lambda>l. l\<lparr>ml_Amount := Some (orZero (ml_Amount l))\<rparr>) legs)"
  by (induction legs) simp_all

theorem journal_roundtrip:
  assumes "BuildPayment mac cr pid secret total0 deadline channels amounts expiries = Inr pay" "fitsPayment pid secret channels amounts"
    and "Journal ok x pay = (r, x')" "ex_dir x"
  shows "case r of
      Inr _ \<Rightarrow> LoadJournal x' (mp_ID pay) = Inr pay \<and> (\<forall>other. other \<noteq> mp_ID pay \<longrightarrow> LoadJournal x' other = LoadJournal x other)
    | Inl _ \<Rightarrow> x' = x"
proof -
  have fits: "\<forall>ch \<in> set channels. length ch = 32" "\<forall>a \<in> set amounts. orZero a < 2 ^ 256"
    using assms(2) by (auto simp: fitsPayment_def list_all_iff)
  note f = BuildPayment_facts [OF assms(1) fits]
  have "l\<lparr>ml_Amount := Some (orZero (ml_Amount l))\<rparr> = l" if l: "l \<in> set (mp_Legs pay)" for l
  proof -
    obtain k where "k < length (mp_Legs pay)" "l = mp_Legs pay ! k"
      using l by (auto simp: in_set_conv_nth)
    with f obtain ch amt e where leg: "l = legFor mac cr pid secret k ch amt e"
      by metis
    show ?thesis
      unfolding leg by (simp add: legFor_def Let_def)
  qed
  then have legs: "map (\<lambda>l. l\<lparr>ml_Amount := Some (orZero (ml_Amount l))\<rparr>) (mp_Legs pay) = mp_Legs pay"
    by (simp add: map_idI)
  have total': "Some (orZero (mp_Total pay)) = mp_Total pay"
    using f by simp
  show ?thesis
  proof (cases ok)
    case True
    then have x': "r = Inr ()" "x' = x\<lparr>ex_journal := (ex_journal x)(mp_ID pay \<mapsto> journalEntryOf pay)\<rparr>"
      using assms(3,4) by (auto simp: Journal_def)
    have "LoadJournal x' (mp_ID pay) = Inr pay"
      using legs total' restoreAmounts_journal [of "mp_Legs pay"]
      by (simp add: x' LoadJournal_def journalEntryOf_def)
    then show ?thesis
      by (simp add: x' LoadJournal_def)
  next
    case False
    with assms(3,4) show ?thesis by (auto simp: Journal_def)
  qed
qed

text \<open>
  A peer may answer a proposal with its latest state. When the intent is not applied then, \<^verbatim>\<open>Pay\<close> returns a
  result that is neither done nor rejected, and the executor takes the leg for one without an error.
\<close>

theorem unapplied_leg_without_error:
  assumes "Pay cr c (xe_faults env i) (xe_reader env i) ex cs ch intent tr = (Inr noResult, cs')"
  shows "payLeg cr c env i ex cs ch intent tr = (None, cs') \<and> \<not> pt_Done noResult"
  using assms by (simp add: payLeg_def asLegError_def noteFailure_def noResult_def)

lemma payReply_neither:
  assumes "msgType reply = MsgStateResponse" "HandleResponse cr (co_sess c) (cf_commit w) (nd_store (cs_node cs)) reply = (Inr out, s')"
    and "\<forall>e. out \<noteq> ResyncRejected e" "StoreGet s' i = Some fresh" "AppliedAt fresh intent = None"
  shows "fst (payReply cr c w cs i intent tr reply) = Inr noResult"
  using assms by (cases out) (simp_all add: payReply_def Let_def)

text \<open>
  Settling a payment whose legs have all settled touches no channel, and adds its whole value to the metrics
  once more, as does every repetition and every \<^verbatim>\<open>Resume\<close>.
\<close>

theorem settle_counts_again:
  assumes "BuildPayment mac cr pid secret total0 deadline channels amounts expiries = Inr pay" "fitsPayment pid secret channels amounts"
    and "list_all (legSettled mac (nd_store (cs_node cs))) (mp_Legs pay)"
  shows "snd (ExecSettle mac cr c env secret pay cs) = cs\<lparr>cs_metrics := TipCompleted (Some (orZero total0)) (cs_metrics cs)\<rparr>"
proof -
  have fits: "\<forall>ch \<in> set channels. length ch = 32" "\<forall>a \<in> set amounts. orZero a < 2 ^ 256"
    using assms(2) by (auto simp: fitsPayment_def list_all_iff)
  note order = built_inOrder [OF assms(1) fits]
  let ?s = "nd_store (cs_node cs)"
  have "list_all Terminal (MpStatus mac ?s pay)"
    using assms(3) by (auto simp: MpStatus_inOrder [OF order] Terminal_def list_all_iff legState_settled)
  then have pass: "snd (resolveLegs cr c env step 0 (mp_Legs pay) (MpStatus mac ?s pay) cs) = cs" for step
    by (rule resolveLegs_terminal)
  have all: "filter (legSettled mac ?s) (mp_Legs pay) = mp_Legs pay"
    using assms(3) by (simp add: filter_id_conv list_all_iff)
  have "oc_Settled (Summarise mac ?s pay) > 0" "oc_SettledAmount (Summarise mac ?s pay) = orZero total0"
    using Summarise_facts [OF order, of mac ?s] BuildPayment_facts [OF assms(1) fits] all by auto
  then show ?thesis
    using pass by (simp add: ExecSettle_def split_beta Let_def)
qed

subsection \<open>A concrete payment\<close>

definition demoChannelA :: bytes32 where "demoChannelA = replicate 32 1"
definition demoChannelB :: bytes32 where "demoChannelB = replicate 32 2"

definition legMac :: mac where
  \<comment> \<open>the second part of the message, with the length of the domain in its first byte\<close>
  "legMac k m = of_nat (length k) # take 31 (drop 49 m)"

lemma demo_payment:
  "\<exists>pay. BuildPayment mac cr zero32 zero32 (Some 12) 100 [demoChannelA, demoChannelB] [Some 5, Some 7] [90, 100] = Inr pay \<and>
     mp_Legs pay = [legFor mac cr zero32 zero32 0 demoChannelA 5 90, legFor mac cr zero32 zero32 1 demoChannelB 7 100] \<and> mp_ID pay = zero32"
  by (simp add: BuildPayment_def Let_def demoChannelA_def demoChannelB_def)

lemma demo_payment_fits: "fitsPayment zero32 zero32 [demoChannelA, demoChannelB] [Some 5, Some 7]"
  by (simp add: fitsPayment_def demoChannelA_def demoChannelB_def)

lemma derive_legMac:
  "length p = 32 \<Longrightarrow> length q = 32 \<Longrightarrow> derive legMac d (p # q # ps) = of_nat (length d) # drop 1 q"
  by (simp add: derive_def legMac_def frame_def strBytes_def copyArr_def)

definition demoLeg0 :: MultipathLeg where
  "demoLeg0 = legFor legMac demoCrypto zero32 zero32 0 demoChannelA 5 90"
definition demoLeg1 :: MultipathLeg where
  "demoLeg1 = legFor legMac demoCrypto zero32 zero32 1 demoChannelB 7 100"

definition idx0 :: bytes where "idx0 = replicate 31 0"
definition idx1 :: bytes where "idx1 = replicate 30 0 @ [1]"

lemma idx_simps [simp]: "length idx0 = 31" "length idx1 = 31" "idx0 \<noteq> idx1" "idx1 \<noteq> idx0"
  by (simp_all add: idx0_def idx1_def) (auto simp: numeral_eq_Suc)

lemma index_words: "u64word (of_int (int 0)) = 0 # idx0" "u64word (of_int (int 1)) = 0 # idx1"
  by (simp_all add: u64word_def abiWord_def natBytes.simps [of 0] natBytes.simps [of "Suc 0"] idx0_def idx1_def)
     (simp_all add: numeral_eq_Suc)

lemma demo_intent:
  assumes "length ch = 32"
  shows "ml_Intent (legFor legMac cr zero32 s k ch a e) = 27 # drop 1 (u64word (of_int (int k)))"
proof -
  have "length zero32 = (32 :: nat)" by simp
  then show ?thesis
    unfolding legFor_intent FragmentIntent_def by (subst derive_legMac) simp_all
qed

lemma demo_channels [simp]: "length demoChannelA = 32" "length demoChannelB = 32"
  by (simp_all add: demoChannelA_def demoChannelB_def)

lemma demo_legs:
  "ml_Intent demoLeg0 = 27 # idx0" "ml_Intent demoLeg1 = 27 # idx1"
  using index_words demo_intent [OF demo_channels(1)] demo_intent [OF demo_channels(2)]
  unfolding demoLeg0_def demoLeg1_def by (simp_all only: drop_Suc_Cons drop0 One_nat_def)

lemma demo_leg_preimage: "length x = 31 \<Longrightarrow> FragmentPreimage legMac zero32 (27 # x) = 29 # x"
proof -
  assume "length x = 31"
  then have "length zero32 = (32 :: nat)" "length (27 # x) = 32" by simp_all
  then show ?thesis
    unfolding FragmentPreimage_def by (subst derive_legMac) simp_all
qed

lemma demo_inputs:
  "x \<in> legInputs zero32 pay \<Longrightarrow> mp_Legs pay = [demoLeg0, demoLeg1] \<Longrightarrow> mp_ID pay = zero32 \<Longrightarrow>
   (x = intentParts zero32 demoLeg0 \<and> derive legMac (fst x) (snd x) = 27 # idx0) \<or>
   (x = intentParts zero32 demoLeg1 \<and> derive legMac (fst x) (snd x) = 27 # idx1) \<or>
   (x = preimageParts zero32 demoLeg0 \<and> derive legMac (fst x) (snd x) = 29 # idx0) \<or>
   (x = preimageParts zero32 demoLeg1 \<and> derive legMac (fst x) (snd x) = 29 # idx1)"
proof -
  assume x: "x \<in> legInputs zero32 pay" "mp_Legs pay = [demoLeg0, demoLeg1]" "mp_ID pay = zero32"
  have wf: "wfLeg legMac demoCrypto zero32 zero32 0 demoLeg0" "wfLeg legMac demoCrypto zero32 zero32 1 demoLeg1"
    using legFor_wf [of 5 demoChannelA] legFor_wf [of 7 demoChannelB] unfolding demoLeg0_def demoLeg1_def by simp_all
  have "derive legMac (fst (intentParts zero32 demoLeg0)) (snd (intentParts zero32 demoLeg0)) = 27 # idx0"
    "derive legMac (fst (intentParts zero32 demoLeg1)) (snd (intentParts zero32 demoLeg1)) = 27 # idx1"
    using wf demo_legs unfolding wfLeg_def by metis+
  moreover have "derive legMac (fst (preimageParts zero32 demoLeg0)) (snd (preimageParts zero32 demoLeg0)) = 29 # idx0"
    "derive legMac (fst (preimageParts zero32 demoLeg1)) (snd (preimageParts zero32 demoLeg1)) = 29 # idx1"
    using demo_leg_preimage [of idx0] demo_leg_preimage [of idx1] demo_legs
    unfolding preimageParts_def FragmentPreimage_def fst_conv snd_conv by simp_all
  ultimately show ?thesis
    using x by (auto simp: legInputs_def)
qed

definition partsOf :: "bytes32 \<Rightarrow> string \<times> bytes list" where
  \<comment> \<open>the input behind each digest\<close>
  "partsOf d = (if hd d = 27 then (if tl d = idx0 then intentParts zero32 demoLeg0 else intentParts zero32 demoLeg1)
     else (if tl d = idx0 then preimageParts zero32 demoLeg0 else preimageParts zero32 demoLeg1))"

lemma demo_parts:
  assumes "x \<in> legInputs zero32 pay" "mp_Legs pay = [demoLeg0, demoLeg1]" "mp_ID pay = zero32"
  shows "x = partsOf (derive legMac (fst x) (snd x))"
  using demo_inputs [OF assms]
proof (elim disjE conjE)
  assume "x = intentParts zero32 demoLeg0" "derive legMac (fst x) (snd x) = 27 # idx0"
  then show ?thesis by (simp only: partsOf_def list.sel simp_thms if_True)
next
  assume "x = intentParts zero32 demoLeg1" "derive legMac (fst x) (snd x) = 27 # idx1"
  then show ?thesis by (simp only: partsOf_def list.sel idx_simps simp_thms if_True if_False)
next
  have n: "(29 :: byte) \<noteq> 27" by simp
  assume "x = preimageParts zero32 demoLeg0" "derive legMac (fst x) (snd x) = 29 # idx0"
  then show ?thesis by (simp only: partsOf_def list.sel n simp_thms if_True if_False)
next
  have n: "(29 :: byte) \<noteq> 27" by simp
  assume "x = preimageParts zero32 demoLeg1" "derive legMac (fst x) (snd x) = 29 # idx1"
  then show ?thesis by (simp only: partsOf_def list.sel idx_simps n if_True if_False)
qed

theorem payment_legs_separate_witness:
  "\<exists>pay. BuildPayment legMac demoCrypto zero32 zero32 (Some 12) 100 [demoChannelA, demoChannelB] [Some 5, Some 7] [90, 100] = Inr pay \<and>
     sum_list (map (\<lambda>l. orZero (ml_Amount l)) (mp_Legs pay)) = 12 \<and>
     (\<forall>h. h_Hash h = ml_Hash (mp_Legs pay ! 1) \<longrightarrow>
        \<not> HTLC_Matches demoCrypto h (FragmentPreimage legMac zero32 (ml_Intent (mp_Legs pay ! 0))))"
proof -
  obtain pay where pay: "BuildPayment legMac demoCrypto zero32 zero32 (Some 12) 100 [demoChannelA, demoChannelB] [Some 5, Some 7] [90, 100] = Inr pay"
    "mp_Legs pay = [demoLeg0, demoLeg1]" "mp_ID pay = zero32"
    using demo_payment unfolding demoLeg0_def demoLeg1_def by blast
  have "separates legMac (legInputs zero32 pay)"
  proof (rule separatesI)
    fix x y assume xy: "x \<in> legInputs zero32 pay" "y \<in> legInputs zero32 pay"
      and eq: "derive legMac (fst x) (snd x) = derive legMac (fst y) (snd y)"
    show "x = y"
      using demo_parts [OF xy(1) pay(2,3)] demo_parts [OF xy(2) pay(2,3)] eq by simp
  qed
  moreover have "hashSeparates demoCrypto (legPreimages legMac zero32 pay)"
    unfolding hashSeparates_def legPreimages_def pay(2)
    using demo_legs demo_leg_preimage [of idx0] demo_leg_preimage [of idx1] by (simp add: demoCrypto_def copyArr_def)
  ultimately have sep: "separates legMac (legInputs zero32 pay \<union> legInputs zero32 pay)"
    "hashSeparates demoCrypto (legPreimages legMac zero32 pay \<union> legPreimages legMac zero32 pay)"
    by simp_all
  note conclusion = payment_legs_separate [OF pay(1) demo_payment_fits pay(1) demo_payment_fits sep]
  have n: "0 < length (mp_Legs pay)" "1 < length (mp_Legs pay)"
    by (simp_all add: pay(2))
  have "\<not> HTLC_Matches demoCrypto h (FragmentPreimage legMac zero32 (ml_Intent (mp_Legs pay ! 0)))"
    if "h_Hash h = ml_Hash (mp_Legs pay ! 1)" for h
    using conclusion n that by (metis zero_neq_one)
  moreover have "sum_list (map (\<lambda>l. orZero (ml_Amount l)) (mp_Legs pay)) = 12"
    using conjunct1 [OF conclusion] by simp
  ultimately show ?thesis
    using pay(1) by blast
qed

theorem outcome_is_what_channels_say_witness:
  "\<exists>pay. BuildPayment legMac demoCrypto zero32 zero32 (Some 12) 100 [demoChannelA, demoChannelB] [Some 5, Some 7] [90, 100] = Inr pay \<and>
     legsCounted (Summarise legMac demoEmpty pay) = 2 \<and> oc_SettledAmount (Summarise legMac demoEmpty pay) \<le> 12"
proof -
  obtain pay where pay: "BuildPayment legMac demoCrypto zero32 zero32 (Some 12) 100 [demoChannelA, demoChannelB] [Some 5, Some 7] [90, 100] = Inr pay"
    using demo_payment by blast
  show ?thesis
    using outcome_is_what_channels_say [OF pay demo_payment_fits, of demoEmpty] pay by (auto simp: Let_def)
qed

theorem journal_roundtrip_witness:
  "\<exists>pay x. BuildPayment legMac demoCrypto zero32 zero32 (Some 12) 100 [demoChannelA, demoChannelB] [Some 5, Some 7] [90, 100] = Inr pay \<and>
     LoadJournal x (mp_ID pay) = Inr pay"
proof -
  obtain pay where pay: "BuildPayment legMac demoCrypto zero32 zero32 (Some 12) 100 [demoChannelA, demoChannelB] [Some 5, Some 7] [90, 100] = Inr pay"
    using demo_payment by blast
  obtain x' where j: "Journal True \<lparr> ex_dir = True, ex_journal = Map.empty \<rparr> pay = (Inr (), x')"
    by (simp add: Journal_def)
  show ?thesis
    using journal_roundtrip [OF pay demo_payment_fits j] pay by auto
qed

end
