(* ===== verification/Forwarding.thy ===== *)
theory Forwarding
  imports Lock_View Derive Coordinator_Props
begin

text \<open>
  Multi-hop forwarding over channels, \<^verbatim>\<open>src/internal/channel/routing.go\<close>. The forwarder works on the
  coordinator's state and the preimage vault; \<open>fwd_env\<close> holds, for each payment of a pass, the fate of the
  writes, the chain reader and the transport of a channel. The clock is read once per call.
\<close>

record Forwarder =
  fw_self :: address
  fw_now :: int
  fw_margin :: int

record Incoming =
  ic_Channel :: bytes32
  ic_Lock :: HTLC

datatype forward_error =
    ErrNoMargin int int | ErrNoSuchIncoming | ErrSecretUnknown | ErrNotTheForwarder | FwdUnknownChannel
  | FwdPeer string | FwdPay bytes32 chan_error | FwdRefused bytes32 "RejectCode option" string

definition DefaultHopMargin :: int where
  \<comment> \<open>in seconds\<close>
  "DefaultHopMargin = 2 * 60 * 60"

definition refundSkewMargin :: int where
  "refundSkewMargin = 120"

definition NewForwarder :: "address \<Rightarrow> int \<Rightarrow> Forwarder" where
  "NewForwarder self now = \<lparr> fw_self = self, fw_now = now, fw_margin = DefaultHopMargin \<rparr>"

definition SetClock :: "Forwarder \<Rightarrow> int \<Rightarrow> int \<Rightarrow> Forwarder" where
  "SetClock f now marginSeconds = f\<lparr>fw_now := now, fw_margin := marginSeconds\<rparr>"

definition pendingOf :: "Forwarder \<Rightarrow> bytes32 \<Rightarrow> Channel \<Rightarrow> Incoming list" where
  \<comment> \<open>the inner loop of \<^verbatim>\<open>Pending\<close>\<close>
  "pendingOf f i ch =
     map (\<lambda>lock. \<lparr> ic_Channel = i, ic_Lock = lock \<rparr>)
       (filter (\<lambda>lock. Party ch (h_PayerIsA lock) \<noteq> fw_self f) (st_Pending (latestState ch)))"

definition PendingLocks :: "Forwarder \<Rightarrow> Store \<Rightarrow> Incoming list" where
  "PendingLocks f s = concat (map (\<lambda>i. case StoreGet s i of None \<Rightarrow> [] | Some ch \<Rightarrow> pendingOf f i ch) (Channels s))"

definition outgoingLock :: "Forwarder \<Rightarrow> HTLC \<Rightarrow> StateTransition" where
  "outgoingLock f lock = \<lparr> tr_Kind = KindLockAdd, tr_Amount = Some (orZero (h_Amount lock)), tr_LockID = h_ID lock,
     tr_Hash = h_Hash lock, tr_Expiry = i64 (h_Expiry lock - fw_margin f), tr_Preimage = zero32 \<rparr>"

definition liftPay :: "bytes32 \<Rightarrow> chan_error + PaymentResult \<Rightarrow> forward_error + PaymentResult" where
  "liftPay i r = (case r of Inl e \<Rightarrow> Inl (FwdPay i e) | Inr res \<Rightarrow> Inr res)"

definition ForwardLock ::
  "crypto \<Rightarrow> Coordinator \<Rightarrow> Forwarder \<Rightarrow> CoordFaults \<Rightarrow> reader \<Rightarrow> exchange \<Rightarrow> CoordState \<Rightarrow> Incoming \<Rightarrow> bytes32 \<Rightarrow> bytes32
    \<Rightarrow> (forward_error + PaymentResult) \<times> CoordState" where
  "ForwardLock cr c f w rd ex cs inc outChannel intent =
     (case StoreGet (nd_store (cs_node cs)) (ic_Channel inc) of
        None \<Rightarrow> (Inl FwdUnknownChannel, cs)
      | Some upstream \<Rightarrow>
          if Party upstream (h_PayerIsA (ic_Lock inc)) = fw_self f then (Inl ErrNotTheForwarder, cs)
          else if findLock (st_Pending (latestState upstream)) (h_ID (ic_Lock inc)) = None then (Inl ErrNoSuchIncoming, cs)
          else if i64 (h_Expiry (ic_Lock inc) - fw_margin f) \<le> fw_now f
            then (Inl (ErrNoMargin (i64 (h_Expiry (ic_Lock inc) - fw_now f)) (fw_margin f)), cs)
          else
            (case Pay cr c w rd ex (cs\<lparr>cs_metrics := RoutedPayment (cs_metrics cs)\<rparr>) outChannel intent (outgoingLock f (ic_Lock inc)) of
               (r, cs') \<Rightarrow> (liftPay outChannel r, cs')))"

definition ClaimUpstream ::
  "crypto \<Rightarrow> Coordinator \<Rightarrow> PreimageVault \<Rightarrow> CoordFaults \<Rightarrow> reader \<Rightarrow> exchange \<Rightarrow> CoordState \<Rightarrow> Incoming \<Rightarrow> bytes32
    \<Rightarrow> (forward_error + PaymentResult) \<times> CoordState" where
  "ClaimUpstream cr c v w rd ex cs inc intent =
     (case Lookup v (h_Hash (ic_Lock inc)) of
        None \<Rightarrow> (Inl ErrSecretUnknown, cs)
      | Some preimage \<Rightarrow>
          (case Pay cr c w rd ex cs (ic_Channel inc) intent (settleWith (h_ID (ic_Lock inc)) preimage) of
             (r, cs') \<Rightarrow> (liftPay (ic_Channel inc) r, cs')))"

definition claimParts :: "Incoming \<Rightarrow> string \<times> bytes list" where
  "claimParts inc = (''rabbiit/routing/claim-upstream/v2'', [ic_Channel inc, h_ID (ic_Lock inc), h_Hash (ic_Lock inc),
     bigBytes (orZero (h_Amount (ic_Lock inc))), u64word (of_int (h_Expiry (ic_Lock inc)))])"

definition claimUpstreamIntent :: "mac \<Rightarrow> Incoming \<Rightarrow> bytes32" where
  "claimUpstreamIntent mac inc = derive mac (fst (claimParts inc)) (snd (claimParts inc))"

record fwd_env =
  fe_faults :: "nat \<Rightarrow> CoordFaults"
  fe_reader :: "nat \<Rightarrow> reader"
  fe_peer :: "nat \<Rightarrow> bytes32 \<Rightarrow> string + exchange"

definition doneOr :: "bytes32 \<Rightarrow> forward_error + PaymentResult \<Rightarrow> forward_error list" where
  \<comment> \<open>what a sweep reports about one payment\<close>
  "doneOr lockID r =
     (case r of
        Inl e \<Rightarrow> [e]
      | Inr res \<Rightarrow> if \<not> pt_Done res then [FwdRefused lockID (pt_Rejected res) (pt_Detail res)] else [])"

definition claimOne ::
  "mac \<Rightarrow> crypto \<Rightarrow> Coordinator \<Rightarrow> PreimageVault \<Rightarrow> fwd_env \<Rightarrow> nat \<Rightarrow> Incoming \<Rightarrow> CoordState \<Rightarrow> forward_error list \<times> CoordState" where
  \<comment> \<open>the body of the loop of \<^verbatim>\<open>SweepClaimable\<close>\<close>
  "claimOne mac cr c v env n inc cs =
     (if Lookup v (h_Hash (ic_Lock inc)) = None then ([], cs)
      else (case fe_peer env n (ic_Channel inc) of
              Inl t \<Rightarrow> ([FwdPeer t], cs)
            | Inr ex \<Rightarrow>
                (case ClaimUpstream cr c v (fe_faults env n) (fe_reader env n) ex cs inc (claimUpstreamIntent mac inc) of
                   (r, cs') \<Rightarrow> (doneOr (h_ID (ic_Lock inc)) r, cs'))))"

fun sweepFrom ::
  "mac \<Rightarrow> crypto \<Rightarrow> Coordinator \<Rightarrow> PreimageVault \<Rightarrow> fwd_env \<Rightarrow> nat \<Rightarrow> Incoming list \<Rightarrow> CoordState \<Rightarrow> forward_error list \<times> CoordState" where
  "sweepFrom mac cr c v env n [] cs = ([], cs)"
| "sweepFrom mac cr c v env n (inc # rest) cs =
     (let (p, cs1) = claimOne mac cr c v env n inc cs;
          (ps, cs2) = sweepFrom mac cr c v env (Suc n) rest cs1
      in (p @ ps, cs2))"

definition SweepClaimable ::
  "mac \<Rightarrow> crypto \<Rightarrow> Coordinator \<Rightarrow> Forwarder \<Rightarrow> PreimageVault \<Rightarrow> fwd_env \<Rightarrow> CoordState \<Rightarrow> forward_error list \<times> CoordState" where
  "SweepClaimable mac cr c f v env cs = sweepFrom mac cr c v env 0 (PendingLocks f (nd_store (cs_node cs))) cs"

definition refundIntentFor :: "crypto \<Rightarrow> bytes32 \<Rightarrow> bytes32" where
  "refundIntentFor cr lockID = copyArr 32 (keccak cr [strBytes ''refund-expired'', lockID])"

definition refundTr :: "bytes32 \<Rightarrow> StateTransition" where
  "refundTr lockID = \<lparr> tr_Kind = KindLockRefund, tr_Amount = None, tr_LockID = lockID,
     tr_Hash = zero32, tr_Expiry = 0, tr_Preimage = zero32 \<rparr>"

definition refundable :: "Forwarder \<Rightarrow> PreimageVault \<Rightarrow> Channel \<Rightarrow> HTLC \<Rightarrow> bool" where
  \<comment> \<open>no \<open>continue\<close> applies: the lock is this node's, well past its expiry, and its secret unknown\<close>
  "refundable f v ch lock \<longleftrightarrow> \<not> Party ch (h_PayerIsA lock) \<noteq> fw_self f \<and>
     \<not> h_Expiry lock > i64 (fw_now f - refundSkewMargin) \<and> Lookup v (h_Hash lock) = None"

fun refundLocks ::
  "crypto \<Rightarrow> Coordinator \<Rightarrow> Forwarder \<Rightarrow> PreimageVault \<Rightarrow> fwd_env \<Rightarrow> bytes32 \<Rightarrow> Channel \<Rightarrow> nat \<Rightarrow> HTLC list \<Rightarrow> CoordState
    \<Rightarrow> forward_error list \<times> nat \<times> CoordState" where
  \<comment> \<open>the locks of one channel as it was read; \<open>n\<close> numbers the payments of the pass\<close>
  "refundLocks cr c f v env i ch n [] cs = ([], n, cs)"
| "refundLocks cr c f v env i ch n (lock # rest) cs =
     (let (p, cs1) =
            (if \<not> refundable f v ch lock then ([], cs)
             else (case fe_peer env n i of
                     Inl t \<Rightarrow> ([FwdPeer t], cs)
                   | Inr ex \<Rightarrow>
                       (case Pay cr c (fe_faults env n) (fe_reader env n) ex cs i (refundIntentFor cr (h_ID lock)) (refundTr (h_ID lock)) of
                          (r, cs') \<Rightarrow> (doneOr (h_ID lock) (liftPay i r), cs'))));
          (ps, m, cs2) = refundLocks cr c f v env i ch (Suc n) rest cs1
      in (p @ ps, m, cs2))"

fun refundChannels ::
  "crypto \<Rightarrow> Coordinator \<Rightarrow> Forwarder \<Rightarrow> PreimageVault \<Rightarrow> fwd_env \<Rightarrow> nat \<Rightarrow> bytes32 list \<Rightarrow> CoordState \<Rightarrow> forward_error list \<times> CoordState" where
  "refundChannels cr c f v env n [] cs = ([], cs)"
| "refundChannels cr c f v env n (i # rest) cs =
     (case StoreGet (nd_store (cs_node cs)) i of
        None \<Rightarrow> refundChannels cr c f v env n rest cs
      | Some ch \<Rightarrow>
          (let (p, m, cs1) = refundLocks cr c f v env i ch n (st_Pending (latestState ch)) cs;
               (ps, cs2) = refundChannels cr c f v env m rest cs1
           in (p @ ps, cs2)))"

definition RefundExpired ::
  "crypto \<Rightarrow> Coordinator \<Rightarrow> Forwarder \<Rightarrow> PreimageVault \<Rightarrow> fwd_env \<Rightarrow> CoordState \<Rightarrow> forward_error list \<times> CoordState" where
  "RefundExpired cr c f v env cs = refundChannels cr c f v env 0 (Channels (nd_store (cs_node cs))) cs"

subsection \<open>Properties\<close>

definition collectable :: "crypto \<Rightarrow> address \<Rightarrow> Channel \<Rightarrow> HTLC \<Rightarrow> StateTransition \<Rightarrow> bool" where
  \<comment> \<open>whatever secret opens the offered lock also settles the held one, for the same amount\<close>
  "collectable cr self up lock tr \<longleftrightarrow>
     (\<forall>secret. copyArr 32 (keccak cr [secret]) = tr_Hash tr \<longrightarrow>
        (\<exists>nxt. Apply cr (settleWith (h_ID lock) secret) up self = Inr nxt \<and>
           balance nxt (IsA up self) = BalanceOf up self + orZero (tr_Amount tr)))"

definition forwardsOn :: "Forwarder \<Rightarrow> Channel \<Rightarrow> bool" where
  \<comment> \<open>the forwarder is one of the two parties of a channel that has a signed state, whose live locks have their own ids\<close>
  "forwardsOn f up \<longleftrightarrow> fw_self f \<in> {ch_PartyA up, ch_PartyB up} \<and> ch_PartyA up \<noteq> ch_PartyB up \<and>
     distinct (map h_ID (st_Pending (latestState up))) \<and> \<not> isFirst up"

definition sameOffer :: "HTLC \<Rightarrow> HTLC \<Rightarrow> bool" where
  "sameOffer x y \<longleftrightarrow> h_ID x = h_ID y \<and> h_Hash x = h_Hash y \<and> orZero (h_Amount x) = orZero (h_Amount y) \<and> h_PayerIsA x = h_PayerIsA y"

lemma findLock_member: "findLock locks i \<noteq> None \<Longrightarrow> \<exists>l \<in> set locks. h_ID l = i"
  by (induction locks) (auto split: if_splits)

lemma distinct_ids: "distinct (map h_ID ls) \<Longrightarrow> x \<in> set ls \<Longrightarrow> y \<in> set ls \<Longrightarrow> h_ID x = h_ID y \<Longrightarrow> x = y"
  by (simp add: distinct_map inj_on_def)

lemma PendingLocks_live:
  assumes "inc \<in> set (PendingLocks f s)" "StoreGet s (ic_Channel inc) = Some up"
  shows "ic_Lock inc \<in> set (st_Pending (latestState up))"
  using assms by (auto simp: PendingLocks_def pendingOf_def split: option.splits)

text \<open>
  (C33) A forwarder offers no more than it is offered. \<^verbatim>\<open>Forward\<close> refuses and changes nothing unless the channel
  has, now, a live lock with the id it was given; else it makes one payment: a lock of the given amount under the
  given hash that has not expired and ends the margin earlier. Where the live lock is the one given, in hash, amount
  and payer, as every lock is that \<^verbatim>\<open>Pending\<close> reports, whatever secret takes the money downstream settles it upstream and brings the
  forwarder exactly what it offered. The code compares the id alone: for a lock that is gone and another with its id
  nothing more holds (\<open>forward_trusts_stale_lock\<close>). The channel is between the forwarder and one other party,
  has a signed state, and its live locks have their own ids; expiry and margin are 64-bit times.
\<close>

theorem forward_is_covered:
  assumes "StoreGet (nd_store (cs_node cs)) i = Some up" "forwardsOn f up" "0 \<le> fw_margin f" "fw_margin f < 2 ^ 63"
    and "0 \<le> h_Expiry lock" "h_Expiry lock < 2 ^ 63"
    and "ForwardLock cr c f w rd ex cs \<lparr> ic_Channel = i, ic_Lock = lock \<rparr> out intent = (r, cs')"
  shows "(\<exists>e. r = Inl e \<and> cs' = cs) \<or>
    (\<exists>live \<in> set (st_Pending (latestState up)). \<exists>tr. h_ID live = h_ID lock \<and>
       tr_Kind tr = KindLockAdd \<and> tr_Hash tr = h_Hash lock \<and> orZero (tr_Amount tr) = orZero (h_Amount lock) \<and>
       fw_now f < tr_Expiry tr \<and> tr_Expiry tr + fw_margin f = h_Expiry lock \<and>
       (case Pay cr c w rd ex (cs\<lparr>cs_metrics := RoutedPayment (cs_metrics cs)\<rparr>) out intent tr of
          (p, cs1) \<Rightarrow> r = liftPay out p \<and> cs' = cs1) \<and>
       (sameOffer live lock \<longrightarrow> collectable cr (fw_self f) up live tr) \<and>
       (\<lparr> ic_Channel = i, ic_Lock = lock \<rparr> \<in> set (PendingLocks f (nd_store (cs_node cs))) \<longrightarrow> live = lock))"
proof (cases "\<exists>e. r = Inl e \<and> cs' = cs")
  case False
  have e: "i64 (h_Expiry lock - fw_margin f) = h_Expiry lock - fw_margin f"
    using assms(3-6) by simp
  have ok: "Party up (h_PayerIsA lock) \<noteq> fw_self f" "fw_now f < h_Expiry lock - fw_margin f"
    "findLock (st_Pending (latestState up)) (h_ID lock) \<noteq> None"
    using False assms(1,7) by (auto simp: ForwardLock_def e split: if_splits)
  then have run: "(case Pay cr c w rd ex (cs\<lparr>cs_metrics := RoutedPayment (cs_metrics cs)\<rparr>) out intent (outgoingLock f lock) of
      (p, cs1) \<Rightarrow> r = liftPay out p \<and> cs' = cs1)"
    using False assms(1,7) by (auto simp: ForwardLock_def e split: if_splits prod.splits)
  obtain live where live: "live \<in> set (st_Pending (latestState up))" "h_ID live = h_ID lock"
    using findLock_member [OF ok(3)] by blast
  have "collectable cr (fw_self f) up live (outgoingLock f lock)" if same: "sameOffer live lock"
    unfolding collectable_def
  proof (intro allI impI)
    fix secret assume "copyArr 32 (keccak cr [secret]) = tr_Hash (outgoingLock f lock)"
    then have m: "HTLC_Matches cr live secret" and payer: "Party up (h_PayerIsA live) \<noteq> fw_self f"
      using same ok(1) by (simp_all add: HTLC_Matches_def outgoingLock_def sameOffer_def)
    from settle_applies [OF _ _ _ live(1) payer m] assms(2)
    show "\<exists>nxt. Apply cr (settleWith (h_ID live) secret) up (fw_self f) = Inr nxt \<and>
        balance nxt (IsA up (fw_self f)) = BalanceOf up (fw_self f) + orZero (tr_Amount (outgoingLock f lock))"
      using same by (auto simp: forwardsOn_def outgoingLock_def sameOffer_def)
  qed
  moreover have "live = lock"
    if "\<lparr> ic_Channel = i, ic_Lock = lock \<rparr> \<in> set (PendingLocks f (nd_store (cs_node cs)))"
  proof -
    have "lock \<in> set (st_Pending (latestState up))"
      using PendingLocks_live [OF that, of up] assms(1) by simp
    then show ?thesis
      using distinct_ids [OF _ live(1) _ live(2)] assms(2) by (auto simp: forwardsOn_def)
  qed
  ultimately show ?thesis
    using run ok e live
    by (intro disjI2 bexI [of _ live] exI [of _ "outgoingLock f lock"]) (simp_all add: outgoingLock_def)
qed blast

text \<open>
  Only the id of the incoming lock is looked for. Given a lock that is gone, while another lock with its id is
  live, the forwarder offers downstream what the old one was worth.
\<close>

theorem forward_trusts_stale_lock:
  assumes "StoreGet (nd_store (cs_node cs)) i = Some up" "st_Pending (latestState up) = [new]" "h_ID new = h_ID old"
    and "Party up (h_PayerIsA old) \<noteq> fw_self f" "fw_now f < i64 (h_Expiry old - fw_margin f)"
  shows "ForwardLock cr c f w rd ex cs \<lparr> ic_Channel = i, ic_Lock = old \<rparr> out intent =
    (case Pay cr c w rd ex (cs\<lparr>cs_metrics := RoutedPayment (cs_metrics cs)\<rparr>) out intent (outgoingLock f old) of
       (r, cs') \<Rightarrow> (liftPay out r, cs')) \<and>
    tr_Amount (outgoingLock f old) = Some (orZero (h_Amount old)) \<and> tr_Hash (outgoingLock f old) = h_Hash old"
  using assms by (simp add: ForwardLock_def outgoingLock_def)

text \<open>
  What done means. A payment that reports done, its replies being about its own channel, leaves the intent
  recorded as applied there. (\<open>Pay_believes_other_channel\<close> is the other case.)
\<close>

lemma HandleAccept_applies:
  assumes "HandleAccept cr ps w s m = (Inr (), s')" "parseBytes32 (ms_Channel m) = Inr i"
    and "StoreGet s i = Some ch" "ch_Pending ch = Some p"
  shows "\<exists>ch'. StoreGet s' i = Some ch' \<and> AppliedAt ch' (pp_Intent p) \<noteq> None"
proof -
  obtain complete where up: "StoreUpdate w s i (completeMutate cr ps p complete) = (Inr (), s')"
    using assms by (auto simp: HandleAccept_def split: Body.splits if_splits sum.splits)
  obtain c c' where c: "completeMutate cr ps p complete c = Inr c'" "StoreGet s' i = Some (c'\<lparr>ch_NeedsReconcile := NeedsReconcile s i\<rparr>)"
    using sto.snapshot_done [OF up] by blast
  then show ?thesis
    by (auto simp: completeMutate_def bindR_Inr NoteApplied_def AppliedAt_def)
qed

definition repliesAbout :: "bytes32 \<Rightarrow> exchange \<Rightarrow> bool" where
  "repliesAbout i ex \<longleftrightarrow> (\<forall>m reply. ex m = Inr reply \<longrightarrow> parseBytes32 (ms_Channel reply) = Inr i)"

lemma Pay_done_applied:
  assumes "Pay cr c w rd ex cs i intent tr = (Inr res, cs')" "pt_Done res" "repliesAbout i ex"
  shows "\<exists>ch. StoreGet (nd_store (cs_node cs')) i = Some ch \<and> AppliedAt ch intent \<noteq> None"
proof -
  let ?put = "\<lambda>s'. cs\<lparr>cs_node := (cs_node cs)\<lparr>nd_store := s'\<rparr>\<rparr>"
  obtain s1 ch where a: "Adopt cr c (cf_adopt w) rd (nd_store (cs_node cs)) i = (Inr (), s1)" "StoreGet s1 i = Some ch" "ch_Conflict ch = None"
    using assms(1) by (auto simp: Pay_def Let_def split: prod.splits sum.splits option.splits if_splits)
  show ?thesis
  proof (cases "AppliedAt ch intent")
    case (Some n)
    with a assms(1) show ?thesis
      by (auto simp: Pay_def Let_def)
  next
    case None
    then obtain msg s2 reply where pr: "Propose cr (co_sess c) (cf_commit w) s1 i intent tr = (Inr msg, s2)"
      and reply: "ex msg = Inr reply"
      and run: "payReply cr c w ((?put s2)\<lparr>cs_metrics := TipAttempted (cs_metrics cs)\<rparr>) i intent tr reply = (Inr res, cs')"
      using a assms(1) by (auto simp: Pay_def Let_def split: prod.splits sum.splits)
    obtain ch2 p where p: "StoreGet s2 i = Some ch2" "ch_Pending ch2 = Some p" "pp_Intent p = intent"
      using Propose_outcome [OF pr] by blast
    have on: "parseBytes32 (ms_Channel reply) = Inr i"
      using assms(3) reply by (simp add: repliesAbout_def)
    show ?thesis
    proof (cases "msgType reply")
      case MsgStateAccept
      then obtain s3 where acc: "HandleAccept cr (co_sess c) (cf_commit w) s2 reply = (Inr (), s3)" and cs': "nd_store (cs_node cs') = s3"
        using run by (auto simp: payReply_def Let_def split: prod.splits sum.splits option.splits)
      show ?thesis
        using HandleAccept_applies [OF acc on p(1,2)] p(3) cs' by simp
    next
      case MsgStateResponse
      then show ?thesis
        using run assms(2) by (auto simp: payReply_def Let_def noResult_def split: prod.splits sum.splits option.splits ResyncOutcome.splits)
    qed (use run assms(2) in \<open>auto simp: payReply_def Let_def noResult_def split: prod.splits sum.splits\<close>)
  qed
qed

definition claimed ::
  "mac \<Rightarrow> crypto \<Rightarrow> Coordinator \<Rightarrow> PreimageVault \<Rightarrow> fwd_env \<Rightarrow> nat \<Rightarrow> Incoming \<Rightarrow> CoordState \<Rightarrow> CoordState \<Rightarrow> bool" where
  \<comment> \<open>payment \<open>n\<close> of a pass takes the state from \<open>cs\<close> to \<open>cs'\<close>: it is the lock's claim, and it was done\<close>
  "claimed mac cr c v env n inc cs cs' \<longleftrightarrow>
     (\<exists>ex res. fe_peer env n (ic_Channel inc) = Inr ex \<and> pt_Done res \<and>
        ClaimUpstream cr c v (fe_faults env n) (fe_reader env n) ex cs inc (claimUpstreamIntent mac inc) = (Inr res, cs') \<and>
        (repliesAbout (ic_Channel inc) ex \<longrightarrow>
          (\<exists>ch. StoreGet (nd_store (cs_node cs')) (ic_Channel inc) = Some ch \<and> AppliedAt ch (claimUpstreamIntent mac inc) \<noteq> None)))"

lemma claimOne_clean:
  assumes "claimOne mac cr c v env n inc cs = ([], cs')"
  shows "if Lookup v (h_Hash (ic_Lock inc)) = None then cs' = cs else claimed mac cr c v env n inc cs cs'"
proof (cases "Lookup v (h_Hash (ic_Lock inc))")
  case None
  with assms show ?thesis by (simp add: claimOne_def)
next
  case (Some preimage)
  then obtain ex res where run: "fe_peer env n (ic_Channel inc) = Inr ex" "pt_Done res"
    "ClaimUpstream cr c v (fe_faults env n) (fe_reader env n) ex cs inc (claimUpstreamIntent mac inc) = (Inr res, cs')"
    using assms by (auto simp: claimOne_def doneOr_def split: sum.splits prod.splits if_splits)
  then have pay: "Pay cr c (fe_faults env n) (fe_reader env n) ex cs (ic_Channel inc) (claimUpstreamIntent mac inc)
      (settleWith (h_ID (ic_Lock inc)) preimage) = (Inr res, cs')"
    using Some by (auto simp: ClaimUpstream_def liftPay_def split: prod.splits sum.splits)
  then show ?thesis
    using run Some Pay_done_applied [OF pay run(2)] unfolding claimed_def by simp
qed

lemma sweepFrom_clean:
  "sweepFrom mac cr c v env n incs cs = ([], cs') \<Longrightarrow>
   \<exists>css. length css = Suc (length incs) \<and> css ! 0 = cs \<and> css ! length incs = cs' \<and>
     (\<forall>k < length incs. if Lookup v (h_Hash (ic_Lock (incs ! k))) = None then css ! Suc k = css ! k
        else claimed mac cr c v env (n + k) (incs ! k) (css ! k) (css ! Suc k))"
proof (induction incs arbitrary: n cs)
  case Nil
  then show ?case by (intro exI [of _ "[cs]"]) simp
next
  case (Cons inc incs)
  obtain cs1 where step: "claimOne mac cr c v env n inc cs = ([], cs1)"
    and rest: "sweepFrom mac cr c v env (Suc n) incs cs1 = ([], cs')"
    using Cons.prems by (auto split: prod.splits)
  obtain css where css: "length css = Suc (length incs)" "css ! 0 = cs1" "css ! length incs = cs'"
    "\<forall>k < length incs. if Lookup v (h_Hash (ic_Lock (incs ! k))) = None then css ! Suc k = css ! k
        else claimed mac cr c v env (Suc n + k) (incs ! k) (css ! k) (css ! Suc k)"
    using Cons.IH [OF rest] by blast
  have "if Lookup v (h_Hash (ic_Lock ((inc # incs) ! k))) = None then (cs # css) ! Suc k = (cs # css) ! k
        else claimed mac cr c v env (n + k) ((inc # incs) ! k) ((cs # css) ! k) ((cs # css) ! Suc k)"
    if "k < length (inc # incs)" for k
    using claimOne_clean [OF step] css(2,4) that by (cases k) auto
  moreover have "length (cs # css) = Suc (length (inc # incs))" "(cs # css) ! 0 = cs" "(cs # css) ! length (inc # incs) = cs'"
    using css by simp_all
  ultimately show ?case by blast
qed

definition fitsIncoming :: "Incoming \<Rightarrow> bool" where
  "fitsIncoming inc \<longleftrightarrow> length (ic_Channel inc) = 32 \<and> length (h_ID (ic_Lock inc)) = 32 \<and> length (h_Hash (ic_Lock inc)) = 32 \<and>
     0 \<le> orZero (h_Amount (ic_Lock inc)) \<and> orZero (h_Amount (ic_Lock inc)) < 2 ^ 256 \<and>
     0 \<le> h_Expiry (ic_Lock inc) \<and> h_Expiry (ic_Lock inc) < 2 ^ 63"

text \<open>Two claims with one intent are claims of one lock: what the keyed hash separates, the sweep does.\<close>

lemma claim_intent_binds:
  assumes "claimUpstreamIntent mac x = claimUpstreamIntent mac y" "separates mac {claimParts x, claimParts y}"
    and "fitsIncoming x" "fitsIncoming y"
  shows "ic_Channel x = ic_Channel y \<and> h_ID (ic_Lock x) = h_ID (ic_Lock y) \<and> h_Hash (ic_Lock x) = h_Hash (ic_Lock y) \<and>
    orZero (h_Amount (ic_Lock x)) = orZero (h_Amount (ic_Lock y)) \<and> h_Expiry (ic_Lock x) = h_Expiry (ic_Lock y)"
proof -
  have len: "length (bigBytes (orZero (h_Amount (ic_Lock z)))) \<le> 64" if "fitsIncoming z" for z
  proof -
    have "length (natBytes (nat \<bar>orZero (h_Amount (ic_Lock z))\<bar>)) \<le> 32"
      using that by (intro length_natBytes) (simp add: fitsIncoming_def nat_less_iff)
    then show ?thesis by (simp add: bigBytes_def)
  qed
  have "claimParts x = claimParts y"
    using derive_binds [OF assms(2), of "fst (claimParts x)" "snd (claimParts x)" "fst (claimParts y)" "snd (claimParts y)"]
      assms(1,3,4) len by (simp add: claimUpstreamIntent_def claimParts_def fitsIncoming_def)
  then have parts: "ic_Channel x = ic_Channel y" "h_ID (ic_Lock x) = h_ID (ic_Lock y)" "h_Hash (ic_Lock x) = h_Hash (ic_Lock y)"
    "bigBytes (orZero (h_Amount (ic_Lock x))) = bigBytes (orZero (h_Amount (ic_Lock y)))"
    "(of_int (h_Expiry (ic_Lock x)) :: u64) = of_int (h_Expiry (ic_Lock y))"
    using u64word_inj by (simp_all add: claimParts_def)
  have "orZero (h_Amount (ic_Lock x)) = orZero (h_Amount (ic_Lock y))"
    using arg_cong [OF parts(4), of bytesNat] assms(3,4) by (simp add: bigBytes_def fitsIncoming_def eq_nat_nat_iff)
  moreover have "h_Expiry (ic_Lock x) = h_Expiry (ic_Lock y)"
    using of_int_word_inj [OF _ _ _ _ parts(5)] assms(3,4) by (simp add: fitsIncoming_def)
  ultimately show ?thesis using parts by simp
qed

text \<open>
  (C34) A sweep that reports nothing has claimed everything. When \<^verbatim>\<open>SweepClaimable\<close> returns no problem, the pass went
  from the state it found to the one it left through one step for each lock that was offered to this node: nothing
  for a lock whose secret is unknown, and for every other the lock's own claim, made on the state the steps before
  had left, and answered as done; where the peer's replies are about the channel they were asked on, that claim's intent is
  then recorded there as applied. It is its own claim: a lock whose claim has the same intent is the same in channel, id, hash, amount
  and expiry, so no earlier lock's record stands in for it, as long as the keyed hash separates the two claims.
\<close>

theorem sweep_claims_everything:
  assumes "SweepClaimable mac cr c f v env cs = ([], cs')"
  shows "\<exists>css. length css = Suc (length (PendingLocks f (nd_store (cs_node cs)))) \<and> css ! 0 = cs \<and>
    css ! length (PendingLocks f (nd_store (cs_node cs))) = cs' \<and>
    (\<forall>k < length (PendingLocks f (nd_store (cs_node cs))).
       let inc = PendingLocks f (nd_store (cs_node cs)) ! k in
       (if Lookup v (h_Hash (ic_Lock inc)) = None then css ! Suc k = css ! k
        else claimed mac cr c v env k inc (css ! k) (css ! Suc k)) \<and>
       (\<forall>x. claimUpstreamIntent mac x = claimUpstreamIntent mac inc \<and> separates mac {claimParts x, claimParts inc} \<and>
            fitsIncoming x \<and> fitsIncoming inc \<longrightarrow>
          ic_Channel x = ic_Channel inc \<and> h_ID (ic_Lock x) = h_ID (ic_Lock inc) \<and> h_Hash (ic_Lock x) = h_Hash (ic_Lock inc) \<and>
          orZero (h_Amount (ic_Lock x)) = orZero (h_Amount (ic_Lock inc)) \<and> h_Expiry (ic_Lock x) = h_Expiry (ic_Lock inc)))"
  using sweepFrom_clean [OF assms [unfolded SweepClaimable_def]] claim_intent_binds
  unfolding Let_def add_0 by blast

text \<open>
  The refund of a lock is lost when its id was refunded before. The intent of a refund is made from the
  lock's id alone, and ids are free again once a lock is gone: for a second lock with the id, expired and
  unclaimed, \<^verbatim>\<open>Pay\<close> answers from the record of the first refund, so \<^verbatim>\<open>RefundExpired\<close> reports no problem and
  changes nothing, now and in every later pass.
\<close>

lemma Pay_applied:
  assumes "StoreGet (nd_store (cs_node cs)) i = Some ch" "ch_Conflict ch = None" "AppliedAt ch intent = Some n"
  shows "Pay cr c w rd ex cs i intent tr = (Inr (paidResult n), cs)"
  using assms Adopt_known [of "nd_store (cs_node cs)" i cr c "cf_adopt w" rd]
  by (simp add: Pay_def Let_def)

theorem refund_lost_on_reuse:
  assumes "Channels (nd_store (cs_node cs)) = [i]" "StoreGet (nd_store (cs_node cs)) i = Some ch" "ch_Conflict ch = None"
    and "st_Pending (latestState ch) = [lock]" "refundable f v ch lock"
    and "AppliedAt ch (refundIntentFor cr (h_ID lock)) = Some n" "fe_peer env 0 i = Inr ex"
  shows "RefundExpired cr c f v env cs = ([], cs)"
  using assms Pay_applied [OF assms(2,3,6)]
  by (simp add: RefundExpired_def doneOr_def liftPay_def paidResult_def)

subsection \<open>The properties on concrete inputs\<close>

definition demoForwarder :: Forwarder where
  "demoForwarder = \<lparr> fw_self = demoB, fw_now = 1000, fw_margin = 500 \<rparr>"

definition demoForwardState :: CoordState where
  "demoForwardState = \<lparr> cs_node = \<lparr> nd_store = demoLockedStore, nd_vault = None \<rparr>, cs_metrics = Some NewMetrics \<rparr>"

definition demoOffered :: HTLC where
  "demoOffered = \<lparr> h_ID = demoID, h_Hash = demoID, h_Amount = Some 30, h_Expiry = 5000, h_PayerIsA = True \<rparr>"

lemma demo_locked:
  "StoreGet (nd_store (cs_node demoForwardState)) demoKey = Some demoLockedChannel"
  "ch_PartyA demoLockedChannel = demoA" "ch_PartyB demoLockedChannel = demoB" "demoA \<noteq> demoB"
  "st_Pending (latestState demoLockedChannel) = [demoOffered]" "\<not> isFirst demoLockedChannel"
proof -
  show "StoreGet (nd_store (cs_node demoForwardState)) demoKey = Some demoLockedChannel"
    by (simp add: demoForwardState_def StoreGet_def lookupCh_def demoLockedStore_def demoEmpty_def demoLockedChannel_def
        trackedChannel_def)
  show "ch_PartyA demoLockedChannel = demoA" "ch_PartyB demoLockedChannel = demoB"
    by (simp_all add: demoLockedChannel_def trackedChannel_def demoOcc_def)
  show "demoA \<noteq> demoB"
    by (simp add: demoA_def demoB_def)
  show "st_Pending (latestState demoLockedChannel) = [demoOffered]" "\<not> isFirst demoLockedChannel"
    by (simp_all add: demoLockedChannel_def isFirst_def demoLocked_def demoOffered_def)
qed

lemma RoutedPayment_other: "RoutedPayment (Some m) \<noteq> Some m"
  by (cases m) (simp add: RoutedPayment_def)

lemma Pay_unknown:
  assumes "StoreGet (nd_store (cs_node cs)) i = None" "\<And>a j. rd a j = Inl e"
  shows "Pay cr c w rd ex cs i intent tr = (Inl e, cs)"
  using assms by (simp add: Pay_def Adopt_def Let_def)

theorem forward_is_covered_witness:
  "\<exists>r cs' tr. ForwardLock demoCrypto (demoCoordinator demoB) demoForwarder allWritesOK (\<lambda>_ _. Inl ErrIO) (\<lambda>_. Inl '''')
      demoForwardState \<lparr> ic_Channel = demoKey, ic_Lock = demoOffered \<rparr> (replicate 32 9) demoID = (r, cs') \<and>
    tr_Expiry tr = 4500 \<and> orZero (tr_Amount tr) = 30 \<and> collectable demoCrypto demoB demoLockedChannel demoOffered tr"
proof -
  let ?f = "ForwardLock demoCrypto (demoCoordinator demoB) demoForwarder allWritesOK (\<lambda>_ _. Inl ErrIO) (\<lambda>_. Inl '''')
      demoForwardState \<lparr> ic_Channel = demoKey, ic_Lock = demoOffered \<rparr> (replicate 32 9) demoID"
  have on: "forwardsOn demoForwarder demoLockedChannel"
    using demo_locked by (simp add: forwardsOn_def demoForwarder_def)
  have "hd (replicate 32 (9 :: byte)) \<noteq> hd demoKey"
    by (simp add: demoKey_def)
  then have "replicate 32 (9 :: byte) \<noteq> demoKey"
    by metis
  then have other: "StoreGet (nd_store (cs_node demoForwardState)) (replicate 32 9) = None"
    by (simp add: demoForwardState_def StoreGet_def lookupCh_def demoLockedStore_def demoEmpty_def)
  have "i64 (4500 :: int) = 4500"
    by simp
  then have run: "?f = (Inl (FwdPay (replicate 32 9) ErrIO),
      demoForwardState\<lparr>cs_metrics := RoutedPayment (cs_metrics demoForwardState)\<rparr>)"
    using demo_locked(1-4) demo_locked(5) other
    by (simp add: ForwardLock_def Pay_unknown liftPay_def demoForwarder_def demoOffered_def Party_def)
  have moved: "demoForwardState\<lparr>cs_metrics := RoutedPayment (cs_metrics demoForwardState)\<rparr> \<noteq> demoForwardState"
    using RoutedPayment_other [of NewMetrics] by (simp add: demoForwardState_def)
  obtain live tr where live: "live \<in> set (st_Pending (latestState demoLockedChannel))" and tr: "tr_Expiry tr + 500 = 5000"
    "orZero (tr_Amount tr) = 30" and col: "sameOffer live demoOffered \<longrightarrow> collectable demoCrypto demoB demoLockedChannel live tr"
    using forward_is_covered [OF demo_locked(1) on _ _ _ _ run] moved by (auto simp: demoForwarder_def demoOffered_def)
  have "live = demoOffered"
    using live demo_locked(5) by simp
  then have "tr_Expiry tr = 4500" "collectable demoCrypto demoB demoLockedChannel demoOffered tr"
    using tr(1) col by (simp_all add: sameOffer_def)
  with run tr(2) show ?thesis by blast
qed

definition demoClaim :: bytes32 where
  "demoClaim = claimUpstreamIntent (\<lambda>_. take 32) \<lparr> ic_Channel = demoKey, ic_Lock = demoOffered \<rparr>"

lemma demo_valid: "validState demoCrypto demoLockedChannel (demoSigned demoLocked)"
proof -
  have "st_Channel demoLocked = ch_ID demoLockedChannel" "Conserved demoLocked (ch_DepositA demoLockedChannel) (ch_DepositB demoLockedChannel)"
    by (simp_all add: demoLockedChannel_def trackedChannel_def demoOcc_def demoLocked_def demoOpening_def Conserved_def stateTotal_def
        emptyState_def lockedTotal_def)
  moreover have "locksOK (st_Pending demoLocked)" "0 \<le> orZero (st_BalanceA demoLocked)" "0 \<le> orZero (st_BalanceB demoLocked)"
    by (simp_all add: demoLocked_def demoOpening_def locksOK_def)
  ultimately show ?thesis
    using demo_locked(2,3) by (simp add: validState_def)
qed

text \<open>The claim of the lock on the demo channel runs: B proposes to settle, A agrees.\<close>

lemma demo_claim_ready:
  "\<exists>nxt. readyToPay demoCrypto (demoCoordinator demoB) (demoCoordinator demoA) demoKey demoClaim (settleWith demoID demoID)
     demoLockedChannel demoLockedChannel nxt"
proof -
  let ?c = demoLockedChannel and ?t = "settleWith demoID demoID"
  have sel: "co_self (demoCoordinator x) = x" "ps_self (co_sess (demoCoordinator x)) = x" "ps_now (co_sess (demoCoordinator x)) = 1000"
    "ps_skew (co_sess (demoCoordinator x)) = 30" for x
    by (simp_all add: demoCoordinator_def NewCoordinator_def)
  have sign: "signs demoCrypto (co_sess (demoCoordinator demoA))" "signs demoCrypto (co_sess (demoCoordinator demoB))"
    using demo_sig_len by (simp_all add: signs_def demoCoordinator_def NewCoordinator_def)
  have len: "length demoID = 32" "length demoClaim = 32" "length demoKey = 32"
    by (simp_all add: demoID_def demoClaim_def claimUpstreamIntent_def demoKey_def demoA_def)
  have latest: "ch_Latest ?c = demoSigned demoLocked" "latestNonce ?c = 1"
    by (simp_all add: demoLockedChannel_def demoLocked_def demoOpening_def)
  have base: "settledBase demoCrypto ?c"
    using demo_valid demo_locked(6) by (simp add: settledBase_def latest) (simp add: demoLocked_def demoOpening_def emptyState_def)
  have rest: "ch_ID ?c = demoKey" "ch_Pending ?c = None" "ch_Conflict ?c = None" "ch_Status ?c = StatusOpen" "\<not> ch_NeedsReconcile ?c"
    "ch_Signed ?c = Map.empty" "ch_Applied ?c = Map.empty" "ch_History ?c = []"
    by (simp_all add: demoLockedChannel_def trackedChannel_def demoOcc_def)
  have wire: "wireOK demoLocked"
    using len by (simp add: wireOK_def demoLocked_def demoOpening_def emptyState_def canonical_def st_op_def Op_defs)
  have wf: "wfChannel ?c"
    using wire len(3) demo_locked(2,3) by (simp add: wfChannel_def rest latest) (simp add: demoLockedChannel_def trackedChannel_def demoA_def demoB_def wfAddr_def)
  have "HTLC_Matches demoCrypto demoOffered demoID"
    using len(1) by (simp add: HTLC_Matches_def demoOffered_def keccak_def demoCrypto_def copyArr_def)
  then obtain nxt where ap: "Apply demoCrypto ?t ?c demoB = Inr nxt"
    using settle_applies [of demoB ?c demoOffered demoCrypto demoID] demo_locked
    by (auto simp: demoOffered_def Party_def)
  have time: "checkTiming (co_sess (demoCoordinator x)) ?c ?t = None" "checkTiming (co_sess (demoCoordinator x)) ?c (normTransition ?t) = None" for x
    using demo_locked(5) by (simp_all add: checkTiming_def settleWith_def normTransition_def sel demoOffered_def)
  have "wfTransition ?t"
    using len(1) by (simp add: wfTransition_def settleWith_def)
  moreover have "{demoB, demoA} = {ch_PartyA ?c, ch_PartyB ?c}" "twins ?c ?c" "freeAt ?c n" "AppliedAt ?c k = None" for n k
    using demo_locked(2,3) by (auto simp: twins_def AppliedAt_def freeAt_def HasSigned_def rest)
  ultimately show ?thesis
    using sign base wf ap time len demo_locked(2-4) latest(2) rest
    by (intro exI [of _ nxt]) (simp add: readyToPay_def sel)
qed

theorem sweep_claims_everything_witness:
  "\<exists>env cs'. SweepClaimable (\<lambda>_. take 32) demoCrypto (demoCoordinator demoB) demoForwarder \<lparr> pv_known = [(demoID, demoID)], pv_file = None \<rparr>
      env demoForwardState = ([], cs') \<and>
    claimed (\<lambda>_. take 32) demoCrypto (demoCoordinator demoB) \<lparr> pv_known = [(demoID, demoID)], pv_file = None \<rparr> env 0
      \<lparr> ic_Channel = demoKey, ic_Lock = demoOffered \<rparr> demoForwardState cs' \<and> AppliedAt demoLockedChannel demoClaim = None"
proof -
  let ?v = "\<lparr> pv_known = [(demoID, demoID)], pv_file = None \<rparr> :: PreimageVault"
  let ?rd = "(\<lambda>_ _. Inl ErrIO) :: reader"
  let ?ex = "answeredBy demoCrypto (demoCoordinator demoA) ?rd demoForwardState"
  let ?env = "\<lparr> fe_faults = \<lambda>_. allWritesOK, fe_reader = \<lambda>_. ?rd, fe_peer = \<lambda>_ _. Inr ?ex \<rparr>"
  let ?inc = "\<lparr> ic_Channel = demoKey, ic_Lock = demoOffered \<rparr>"
  obtain nxt where ready: "readyToPay demoCrypto (demoCoordinator demoB) (demoCoordinator demoA) demoKey demoClaim (settleWith demoID demoID)
     demoLockedChannel demoLockedChannel nxt"
    using demo_claim_ready by blast
  obtain cs' where paid: "Pay demoCrypto (demoCoordinator demoB) allWritesOK ?rd ?ex demoForwardState demoKey demoClaim (settleWith demoID demoID)
      = (Inr (paidResult (st_Nonce nxt)), cs')"
    using payment_runs [OF demo_locked(1) demo_locked(1) ready] by blast
  have "Channels (nd_store (cs_node demoForwardState)) = [demoKey]"
    by (simp add: Channels_def StoreIDs_def demoForwardState_def demoLockedStore_def demoEmpty_def)
  then have pending: "PendingLocks demoForwarder (nd_store (cs_node demoForwardState)) = [?inc]"
    using demo_locked by (simp add: PendingLocks_def pendingOf_def demoForwarder_def demoOffered_def Party_def)
  have known: "Lookup ?v (h_Hash demoOffered) = Some demoID" "h_ID demoOffered = demoID"
    by (simp_all add: Lookup_def demoOffered_def)
  have run: "SweepClaimable (\<lambda>_. take 32) demoCrypto (demoCoordinator demoB) demoForwarder ?v ?env demoForwardState = ([], cs')"
    using paid known by (simp add: SweepClaimable_def pending claimOne_def ClaimUpstream_def demoClaim_def [symmetric] doneOr_def liftPay_def paidResult_def)
  obtain css where css: "css ! 0 = demoForwardState" "css ! 1 = cs'"
    "claimed (\<lambda>_. take 32) demoCrypto (demoCoordinator demoB) ?v ?env 0 ?inc (css ! 0) (css ! 1)"
    using sweep_claims_everything [OF run] known by (auto simp: pending Let_def)
  have "AppliedAt demoLockedChannel demoClaim = None"
    by (simp add: AppliedAt_def demoLockedChannel_def trackedChannel_def)
  then show ?thesis
    using run css by metis
qed

end
