(* ===== verification/Rlp.thy ===== *)
theory Rlp
  imports Text_Codec
begin

text \<open>
  RLP, \<^verbatim>\<open>src/internal/ethproof/rlp.go\<close> and \<^verbatim>\<open>rlpencode.go\<close>. A Go \<^verbatim>\<open>int\<close> is an \<open>int\<close> wrapped by \<open>i64\<close>; a slice
  expression whose bounds are out of range is the outcome \<open>RlpPanic\<close>. The decoder and the loop over the items
  of a list are mutually recursive; that every item uses at least one byte is what makes them end.
\<close>

datatype rlp_error = ErrMalformedRLP | RlpPanic

datatype rlpItem = RlpBytes (itemOctets: bytes) | RlpList (itemList: "rlpItem list")
where
  "itemOctets (RlpList xs) = []"
| "itemList (RlpBytes b) = []"

definition IsList :: "rlpItem \<Rightarrow> bool" where
  "IsList item = (case item of RlpBytes b \<Rightarrow> False | RlpList xs \<Rightarrow> True)"

lemma IsList_simps [simp]: "\<not> IsList (RlpBytes b)" "IsList (RlpList xs)"
  by (simp_all add: IsList_def)

subsection \<open>Decoding\<close>

definition slice :: "bytes \<Rightarrow> int \<Rightarrow> int \<Rightarrow> bytes" where
  \<comment> \<open>\<^verbatim>\<open>b[i:j]\<close> within range\<close>
  "slice b i j = take (nat (j - i)) (drop (nat i) b)"

lemma length_slice_le: "length (slice b i j) \<le> nat (j - i)"
  by (simp add: slice_def)

definition readLength :: "bytes \<Rightarrow> int \<Rightarrow> rlp_error + int" where
  \<comment> \<open>the low eight bits of \<^verbatim>\<open>size<<8\<close> are zero, so \<^verbatim>\<open>|\<close> adds\<close>
  "readLength b lenOfLen =
     (if lenOfLen < 1 \<or> lenOfLen > 8 \<or> int (length b) < 1 + lenOfLen then Inl ErrMalformedRLP
      else if b ! 1 = 0 then Inl ErrMalformedRLP
      else let size' = foldl (\<lambda>sz c. i64 (sz * 256) + uint c) 0 (slice b 1 (1 + lenOfLen)) in
           if size' < 0 then Inl ErrMalformedRLP else Inr size')"

lemma foldl_range:
  "- (2 ^ 63) \<le> sz \<Longrightarrow> sz < 2 ^ 63 \<Longrightarrow>
   - (2 ^ 63) \<le> foldl (\<lambda>sz c. i64 (sz * 256) + uint (c :: byte)) sz bs \<and>
   foldl (\<lambda>sz c. i64 (sz * 256) + uint c) sz bs < 2 ^ 63"
proof (induction bs arbitrary: sz)
  case (Cons c bs)
  have "(2 :: int) ^ 64 = 256 * 2 ^ 56"
    by simp
  then have "i64 (sz * 256) = 256 * ((sz + 2 ^ 55) mod 2 ^ 56 - 2 ^ 55)"
    unfolding i64_def using mod_mult_mult1 [of 256 "sz + 2 ^ 55" "2 ^ 56"] by (simp add: algebra_simps)
  moreover have "(sz + 2 ^ 55) mod 2 ^ 56 < 2 ^ 56" "0 \<le> (sz + 2 ^ 55) mod 2 ^ 56"
    by simp_all
  ultimately have i: "- (2 ^ 63) \<le> i64 (sz * 256)" "i64 (sz * 256) \<le> 2 ^ 63 - 256"
    by simp_all
  have c: "0 \<le> uint c" "uint c < 256"
    using unsigned_less [of c] by simp_all
  have "- (2 ^ 63) \<le> i64 (sz * 256) + uint c" "i64 (sz * 256) + uint c < 2 ^ 63"
    using i c by linarith+
  then show ?case
    unfolding foldl_Cons by (rule Cons.IH)
qed simp

lemma slice_nat: "slice b (int i) (int j) = take (j - i) (drop i b)"
  by (simp add: slice_def flip: of_nat_diff) (simp add: nat_diff_distrib')

lemma readLength_range: "readLength b k = Inr n \<Longrightarrow> 1 \<le> k \<and> k \<le> 8 \<and> 0 \<le> n \<and> n < 2 ^ 63 \<and> 1 + k \<le> int (length b)"
  using foldl_range [of 0 "slice b 1 (1 + k)"] by (auto simp: readLength_def Let_def split: if_splits)

function (sequential) decodeRLP :: "bytes \<Rightarrow> rlp_error + rlpItem \<times> int"
  and decodeList :: "bytes \<Rightarrow> int \<Rightarrow> int \<Rightarrow> rlp_error + rlpItem \<times> int"
  and decodeItems :: "bytes \<Rightarrow> int \<Rightarrow> int \<Rightarrow> rlp_error + rlpItem list" where
  "decodeRLP [] = Inl ErrMalformedRLP"
| "decodeRLP (prefix # rest) =
     (let b = prefix # rest in
      if prefix < 0x80 then Inr (RlpBytes (take 1 b), 1)
      else if prefix \<le> 0xB7 then
        (let sz = uint prefix - 0x80 in
         if int (length b) < 1 + sz then Inl ErrMalformedRLP
         else if sz = 1 \<and> b ! 1 < 0x80 then Inl ErrMalformedRLP
         else Inr (RlpBytes (slice b 1 (1 + sz)), 1 + sz))
      else if prefix \<le> 0xBF then
        (let lenOfLen = uint prefix - 0xB7; start = 1 + lenOfLen in
         case readLength b lenOfLen of
           Inl e \<Rightarrow> Inl e
         | Inr sz \<Rightarrow>
             if int (length b) < i64 (start + sz) then Inl ErrMalformedRLP
             else if i64 (start + sz) < start then Inl RlpPanic
             else Inr (RlpBytes (slice b start (i64 (start + sz))), i64 (start + sz)))
      else if prefix \<le> 0xF7 then decodeList b 1 (uint prefix - 0xC0)
      else
        (let lenOfLen = uint prefix - 0xF7 in
         case readLength b lenOfLen of
           Inl e \<Rightarrow> Inl e
         | Inr sz \<Rightarrow> decodeList b (1 + lenOfLen) sz))"
| "decodeList b start sz =
     (if sz < 0 \<or> int (length b) < i64 (start + sz) then Inl ErrMalformedRLP
      else (case decodeItems b start (i64 (start + sz)) of
              Inl e \<Rightarrow> Inl e
            | Inr xs \<Rightarrow> Inr (RlpList xs, i64 (start + sz))))"
  \<comment> \<open>the loop: a position that does not advance has wrapped below zero, and the slice from there panics\<close>
| "decodeItems b pos end' =
     (if \<not> pos < end' then Inr []
      else if pos < 0 then Inl RlpPanic
      else (case decodeRLP (slice b pos end') of
              Inl e \<Rightarrow> Inl e
            | Inr (item, used) \<Rightarrow>
                if i64 (pos + used) < pos then Inl RlpPanic
                else (case decodeItems b (i64 (pos + used)) end' of
                        Inl e \<Rightarrow> Inl e
                      | Inr xs \<Rightarrow> Inr (item # xs))))"
  by pat_completeness auto


lemma i64_sum_cases:
  assumes "0 \<le> a" "a < 2 ^ 63" "0 \<le> n" "n < 2 ^ 63"
  shows "i64 (a + n) = a + n \<or> i64 (a + n) < 0"
proof (cases "a + n < 2 ^ 63")
  case False
  have "(a + n + 2 ^ 63) mod 2 ^ 64 = ((a + n - 2 ^ 63) + 2 ^ 64) mod 2 ^ 64"
    by (simp add: algebra_simps)
  also have "\<dots> = a + n - 2 ^ 63"
    by (subst mod_add_self2, rule mod_pos_pos_trivial) (use assms False in simp_all)
  finally show ?thesis
    using assms by (simp add: i64_def)
qed (use assms in simp)

lemma i64_fix:
  assumes "i64 (pos + used) = pos" "- (2 ^ 63) \<le> used" "used < 2 ^ 63"
  shows "used = 0"
proof -
  have "- (2 ^ 63) \<le> pos" "pos < 2 ^ 63"
    using i64_range [of "pos + used"] assms(1) by simp_all
  then have "(pos + used + 2 ^ 63) mod 2 ^ 64 = (pos + 2 ^ 63) mod 2 ^ 64"
    using assms(1) by (simp add: i64_def)
  then have "2 ^ 64 dvd used"
    by (simp add: mod_eq_dvd_iff)
  then show ?thesis
    using dvd_imp_le_int [of used "2 ^ 64"] assms(2,3) by (cases "used = 0") simp_all
qed

definition usedOK :: "int \<Rightarrow> bool" where
  "usedOK used \<longleftrightarrow> used \<noteq> 0 \<and> - (2 ^ 63) \<le> used \<and> used < 2 ^ 63"

lemma usedOK_sum: "1 \<le> start \<Longrightarrow> start \<le> 9 \<Longrightarrow> 0 \<le> sz \<Longrightarrow> sz < 2 ^ 63 \<Longrightarrow> usedOK (i64 (start + sz))"
  using i64_sum_cases [of start sz] i64_range [of "start + sz"] by (auto simp: usedOK_def)

lemma used_partial:
  "decodeRLP_decodeList_decodeItems_dom (Inl b) \<Longrightarrow> decodeRLP b = Inr (item, used) \<Longrightarrow> usedOK used"
  "decodeRLP_decodeList_decodeItems_dom (Inr (Inl (b, start, sz))) \<Longrightarrow>
     1 \<le> start \<and> start \<le> 9 \<and> sz < 2 ^ 63 \<longrightarrow> decodeList b start sz = Inr (item, used) \<longrightarrow> usedOK used"
  "decodeRLP_decodeList_decodeItems_dom (Inr (Inr (b, pos, end'))) \<Longrightarrow> True"
proof (induction b and b start sz and b pos end' arbitrary: item used and item used rule: decodeRLP_decodeList_decodeItems.pinduct)
  case 1
  then show ?case by (simp add: decodeRLP.psimps)
next
  case (2 prefix rest)
  note dom = "2.hyps" and eq = "2.prems"
  consider "prefix < 0x80" | "\<not> prefix < 0x80" "prefix \<le> 0xB7" | "\<not> prefix \<le> 0xB7" "prefix \<le> 0xBF"
    | "\<not> prefix \<le> 0xBF" "prefix \<le> 0xF7" | "\<not> prefix \<le> 0xF7"
    by argo
  then show ?case
  proof cases
    case 1
    then show ?thesis using eq by (simp add: decodeRLP.psimps(2) [OF dom] usedOK_def)
  next
    case 2
    have "0x80 \<le> uint prefix" "uint prefix \<le> 0xB7"
      using 2 by (simp_all add: word_less_def word_le_def)
    then show ?thesis using eq 2 by (auto simp: decodeRLP.psimps(2) [OF dom] usedOK_def Let_def split: if_splits)
  next
    case 3
    have low: "\<not> prefix < 0x80" "\<not> prefix \<le> 0xB7"
      using 3 by (auto simp: word_less_def word_le_def)
    show ?thesis
    proof (cases "readLength (prefix # rest) (uint prefix - 0xB7)")
      case (Inr sz)
      have "usedOK (i64 (1 + (uint prefix - 0xB7) + sz))"
        using readLength_range [OF Inr] by (intro usedOK_sum) simp_all
      with eq low 3 Inr show ?thesis
        by (auto simp: decodeRLP.psimps(2) [OF dom] Let_def algebra_simps split: if_splits)
    qed (use eq low 3 in \<open>simp add: decodeRLP.psimps(2) [OF dom] Let_def\<close>)
  next
    case 4
    then have low: "\<not> prefix < 0x80" "\<not> prefix \<le> 0xB7"
      by (auto simp: word_less_def word_le_def)
    have "uint prefix - 0xC0 < 2 ^ 63"
      using 4 by (simp add: word_le_def)
    then show ?thesis
      using "2.IH"(1) eq low 4 by (simp add: decodeRLP.psimps(2) [OF dom] Let_def)
  next
    case 5
    then have low: "\<not> prefix < 0x80" "\<not> prefix \<le> 0xB7" "\<not> prefix \<le> 0xBF"
      by (auto simp: word_less_def word_le_def)
    show ?thesis
    proof (cases "readLength (prefix # rest) (uint prefix - 0xF7)")
      case (Inr sz)
      then show ?thesis
        using "2.IH"(2) [OF refl low 5 refl Inr] readLength_range [OF Inr] eq low 5
        by (simp add: decodeRLP.psimps(2) [OF dom] Let_def)
    qed (use eq low 5 in \<open>simp add: decodeRLP.psimps(2) [OF dom] Let_def\<close>)
  qed
next
  case (3 b start sz)
  then show ?case
    using usedOK_sum [of start sz] by (auto simp: decodeList.psimps split: if_splits sum.splits)
next
  case (4 b pos end')
  then show ?case by simp
qed

definition rlpMeasure :: "bytes + bytes \<times> int \<times> int + bytes \<times> int \<times> int \<Rightarrow> nat" where
  \<comment> \<open>three times the bytes left, so that a list counts for more than its loop and the loop for more than an item\<close>
  "rlpMeasure = case_sum (\<lambda>b. 3 * length b)
     (case_sum (\<lambda>(b, start, sz). 3 * nat (int (length b) - start) + 2) (\<lambda>(b, pos, end'). 3 * nat (end' - pos) + 1))"

termination decodeRLP
proof (relation "measure rlpMeasure", goal_cases)
  case (3 prefix rest b k sz)
  then have "1 \<le> k" "k \<le> int (length rest)"
    using readLength_range [of b k sz] by simp_all
  with 3 show ?case by (simp add: rlpMeasure_def)
next
  case (6 b pos end' r item used)
  then have "usedOK used"
    using used_partial(1) by auto
  then have "i64 (pos + used) \<noteq> pos"
    using i64_fix [of pos used] by (auto simp: usedOK_def)
  with 6 show ?case by (simp add: rlpMeasure_def)
qed (use length_slice_le in \<open>auto simp: rlpMeasure_def less_Suc_eq_le\<close>)

declare decodeRLP.simps [simp del] decodeList.simps [simp del] decodeItems.simps [simp del]

definition DecodeRLP :: "bytes \<Rightarrow> rlp_error + rlpItem" where
  "DecodeRLP b =
     (case decodeRLP b of
        Inl e \<Rightarrow> Inl e
      | Inr (item, used) \<Rightarrow> if used \<noteq> int (length b) then Inl ErrMalformedRLP else Inr item)"

subsection \<open>Encoding\<close>

definition rlpLengthPrefix :: "byte \<Rightarrow> nat \<Rightarrow> bytes" where
  "rlpLengthPrefix base n =
     (if n \<le> 55 then [base + of_nat n]
      else let be = natBytes n in (base + 55 + of_nat (length be)) # be)"

definition EncodeRLPBytes :: "bytes \<Rightarrow> bytes" where
  "EncodeRLPBytes b = (if length b = 1 \<and> hd b < 0x80 then b else rlpLengthPrefix 0x80 (length b) @ b)"

definition EncodeRLPList :: "bytes list \<Rightarrow> bytes" where
  \<comment> \<open>the items are encoded already\<close>
  "EncodeRLPList items = rlpLengthPrefix 0xC0 (sum_list (map length items)) @ concat items"

definition EncodeRLPUint :: "u64 \<Rightarrow> bytes" where
  "EncodeRLPUint v = (if v = 0 then [0x80] else EncodeRLPBytes (natBytes (unat v)))"

definition EncodeRLPBig :: "bigint \<Rightarrow> bytes" where
  "EncodeRLPBig v = (case v of None \<Rightarrow> [0x80] | Some n \<Rightarrow> if n \<le> 0 then [0x80] else EncodeRLPBytes (bigBytes n))"

text \<open>The canonical encoding of an item, put together from the encoders the way their callers do.\<close>

fun rlpEnc :: "rlpItem \<Rightarrow> bytes" where
  "rlpEnc (RlpBytes b) = EncodeRLPBytes b"
| "rlpEnc (RlpList xs) = EncodeRLPList (map rlpEnc xs)"

subsection \<open>Decoding what was encoded\<close>

lemma uint_base: "b + n < 256 \<Longrightarrow> uint (of_nat b + of_nat n :: byte) = int b + int n"
proof -
  assume "b + n < 256"
  then have "uint (of_nat (b + n) :: byte) = int (b + n)"
    by (simp add: unsigned_of_nat take_bit_eq_mod del: of_nat_add)
  then show ?thesis by (simp only: of_nat_add)
qed

lemma uint_short: "n \<le> 55 \<Longrightarrow> uint (0x80 + of_nat n :: byte) = 128 + int n" "n \<le> 55 \<Longrightarrow> uint (0xC0 + of_nat n :: byte) = 192 + int n"
  using uint_base [of 128 n] uint_base [of 192 n] by simp_all

lemma uint_long: "n \<le> 8 \<Longrightarrow> uint (0x80 + 55 + of_nat n :: byte) = 183 + int n" "n \<le> 8 \<Longrightarrow> uint (0xC0 + 55 + of_nat n :: byte) = 247 + int n"
  using uint_base [of 183 n] uint_base [of 247 n] by simp_all

lemma natBytes_hd: "0 < n \<Longrightarrow> natBytes n \<noteq> [] \<and> hd (natBytes n) \<noteq> 0"
proof (induction n rule: natBytes.induct)
  case (1 n)
  show ?case
  proof (cases "n < 256")
    case True
    then have "unat (of_nat n :: byte) = n"
      by (simp add: unat_of_nat)
    then have "(of_nat n :: byte) \<noteq> 0"
      using "1.prems" by (metis unsigned_0 less_irrefl)
    with True "1.prems" show ?thesis
      by (simp add: natBytes.simps [of n] natBytes.simps [of 0])
  next
    case False
    then have "0 < n div 256"
      by (simp add: div_greater_zero_iff)
    with "1.IH" "1.prems" show ?thesis
      by (simp add: natBytes.simps [of n])
  qed
qed

lemma foldl_length: "bytesNat bs < 2 ^ 63 \<Longrightarrow> foldl (\<lambda>sz c. i64 (sz * 256) + uint c) 0 bs = int (bytesNat bs)"
proof (induction bs rule: rev_induct)
  case (snoc b bs)
  then have le: "256 * bytesNat bs + unat b < 2 ^ 63"
    by simp
  then have "int (256 * bytesNat bs + unat b) < 2 ^ 63"
    by (simp only: of_nat_less_numeral_power_cancel_iff)
  then have "int (bytesNat bs) * 256 < 2 ^ 63"
    by (simp only: of_nat_add of_nat_mult of_nat_numeral)
  then have "i64 (int (bytesNat bs) * 256) = int (bytesNat bs) * 256"
    by (intro i64_id) simp_all
  moreover have "bytesNat bs < 2 ^ 63"
    using le by linarith
  moreover have "uint b = int (unat b)"
    by simp
  ultimately show ?case
    using snoc.IH by simp
qed simp

lemma readLength_natBytes:
  assumes "0 < n" "n < 2 ^ 63"
  shows "readLength (p # natBytes n @ rest) (int (length (natBytes n))) = Inr (int n)"
proof -
  have len: "length (natBytes n) \<le> 8"
    using assms(2) by (intro length_natBytes) simp
  moreover have "natBytes n \<noteq> []" "(natBytes n @ rest) ! 0 \<noteq> 0"
    using natBytes_hd [OF assms(1)] by (auto simp: hd_conv_nth nth_append)
  moreover have "slice (p # natBytes n @ rest) 1 (1 + int (length (natBytes n))) = natBytes n"
    by (simp add: slice_def)
  ultimately show ?thesis
    using foldl_length [of "natBytes n"] assms(2) by (auto simp: readLength_def Let_def Suc_le_eq)
qed

lemma decodeRLP_string:
  assumes "length b < 2 ^ 62"
  shows "decodeRLP (EncodeRLPBytes b @ rest) = Inr (RlpBytes b, int (length (EncodeRLPBytes b)))"
proof -
  consider x where "b = [x]" "x < 0x80" | "\<not> (length b = 1 \<and> hd b < 0x80)" "length b \<le> 55"
    | "\<not> (length b = 1 \<and> hd b < 0x80)" "\<not> length b \<le> 55"
    by (cases "length b = 1 \<and> hd b < 0x80") (auto simp: length_Suc_conv)
  then show ?thesis
  proof cases
    case 1
    then show ?thesis by (simp add: EncodeRLPBytes_def decodeRLP.simps)
  next
    case 2
    let ?p = "0x80 + of_nat (length b) :: byte"
    have enc: "EncodeRLPBytes b @ rest = ?p # b @ rest" "length (EncodeRLPBytes b) = Suc (length b)"
      using 2 by (auto simp: EncodeRLPBytes_def rlpLengthPrefix_def)
    have u: "uint ?p = 128 + int (length b)"
      using 2 by (simp add: uint_short)
    then have "\<not> ?p < 0x80" "?p \<le> 0xB7"
      using 2 by (simp_all add: word_less_def word_le_def)
    moreover have "b = [x] \<Longrightarrow> \<not> x < 0x80" for x
      using 2(1) by auto
    then have "length b = 1 \<Longrightarrow> \<not> (?p # b @ rest) ! 1 < 0x80"
      by (cases b) auto
    moreover have "slice (?p # b @ rest) 1 (1 + int (length b)) = b"
      by (simp add: slice_def)
    ultimately show ?thesis
      unfolding enc by (simp add: decodeRLP.simps u Let_def)
  next
    case 3
    let ?be = "natBytes (length b)"
    let ?p = "0x80 + 55 + of_nat (length ?be) :: byte"
    have enc: "EncodeRLPBytes b @ rest = ?p # ?be @ b @ rest" "length (EncodeRLPBytes b) = 1 + length ?be + length b"
      using 3 by (auto simp: EncodeRLPBytes_def rlpLengthPrefix_def Let_def)
    have be: "length ?be \<le> 8"
      using assms by (intro length_natBytes) simp
    have rl: "readLength (?p # ?be @ b @ rest) (int (length ?be)) = Inr (int (length b))"
      using 3(2) assms power_strict_increasing [of 62 63 "2 :: nat"] by (intro readLength_natBytes) linarith+
    have u: "uint ?p = 183 + int (length ?be)"
      using be by (rule uint_long)
    moreover have "0 < length b"
      using 3(2) by linarith
    then have "?be \<noteq> []"
      by (simp add: natBytes_hd)
    ultimately have "\<not> ?p < 0x80" "\<not> ?p \<le> 0xB7" "?p \<le> 0xBF"
      using be by (simp_all add: word_less_def word_le_def)
    moreover have "i64 (1 + int (length ?be) + int (length b)) = 1 + int (length ?be) + int (length b)"
      using assms be by (intro i64_id) simp_all
    moreover have "slice (?p # ?be @ b @ rest) (1 + int (length ?be)) (1 + int (length ?be) + int (length b)) = b"
      by (simp add: slice_def nat_add_distrib)
    ultimately show ?thesis
      unfolding enc using rl u by (simp add: decodeRLP.simps Let_def)
  qed
qed

lemma EncodeRLPBytes_nonempty: "EncodeRLPBytes b \<noteq> []"
  by (auto simp: EncodeRLPBytes_def rlpLengthPrefix_def Let_def)

lemma rlpEnc_nonempty: "rlpEnc x \<noteq> []"
  by (cases x) (auto simp: EncodeRLPBytes_nonempty EncodeRLPList_def rlpLengthPrefix_def Let_def)

lemma decodeItems_encoded:
  assumes "\<And>x rest. x \<in> set xs \<Longrightarrow> decodeRLP (rlpEnc x @ rest) = Inr (x, int (length (rlpEnc x)))"
    and "slice b (int pos) (int end') = concat (map rlpEnc xs)" "int end' = int pos + int (length (concat (map rlpEnc xs)))"
    and "end' \<le> length b" "end' < 2 ^ 62"
  shows "decodeItems b (int pos) (int end') = Inr xs"
  using assms
proof (induction xs arbitrary: pos)
  case Nil
  then show ?case by (simp add: decodeItems.simps)
next
  case (Cons x xs)
  let ?n = "length (rlpEnc x)"
  have n: "0 < ?n" "pos + ?n \<le> end'"
    using Cons.prems(3) rlpEnc_nonempty [of x] by simp_all
  then have less: "pos < end'"
    by linarith
  have item: "decodeRLP (slice b (int pos) (int end')) = Inr (x, int ?n)"
    using Cons.prems(1) [of x "concat (map rlpEnc xs)"] Cons.prems(2) by simp
  have next_pos: "i64 (int pos + int ?n) = int (pos + ?n)"
    using n Cons.prems(5) by simp
  have "slice b (int (pos + ?n)) (int end') = drop ?n (slice b (int pos) (int end'))"
    unfolding slice_nat by (simp add: drop_take add.commute)
  then have "slice b (int (pos + ?n)) (int end') = concat (map rlpEnc xs)"
    using Cons.prems(2) by simp
  then have "decodeItems b (int (pos + ?n)) (int end') = Inr xs"
    using Cons.prems(3) by (intro Cons.IH Cons.prems(1,4,5)) simp_all
  then show ?case
    using less item next_pos by (simp add: decodeItems.simps [of b "int pos"])
qed

lemma decodeList_encoded:
  assumes "\<And>x rest. x \<in> set xs \<Longrightarrow> decodeRLP (rlpEnc x @ rest) = Inr (x, int (length (rlpEnc x)))"
    and "length hdr + length (concat (map rlpEnc xs)) < 2 ^ 62"
  shows "decodeList (hdr @ concat (map rlpEnc xs) @ rest) (int (length hdr)) (int (length (concat (map rlpEnc xs))))
    = Inr (RlpList xs, int (length hdr + length (concat (map rlpEnc xs))))"
proof -
  let ?c = "concat (map rlpEnc xs)"
  have e: "i64 (int (length hdr) + int (length ?c)) = int (length hdr + length ?c)"
    using assms(2) by simp
  have "decodeItems (hdr @ ?c @ rest) (int (length hdr)) (int (length hdr + length ?c)) = Inr xs"
    using assms by (intro decodeItems_encoded) (simp_all add: slice_def)
  then show ?thesis
    unfolding decodeList.simps e by simp
qed

lemma decodeRLP_encoded:
  "length (rlpEnc x) < 2 ^ 62 \<Longrightarrow> decodeRLP (rlpEnc x @ rest) = Inr (x, int (length (rlpEnc x)))"
proof (induction x arbitrary: rest)
  case (RlpBytes b)
  have "length b \<le> length (EncodeRLPBytes b)"
    by (auto simp: EncodeRLPBytes_def)
  with RlpBytes show ?case by (simp add: decodeRLP_string)
next
  case (RlpList xs)
  let ?c = "concat (map rlpEnc xs)"
  have len: "sum_list (map length (map rlpEnc xs)) = length ?c"
    by (simp add: length_concat)
  have enc: "rlpEnc (RlpList xs) = rlpLengthPrefix 0xC0 (length ?c) @ ?c"
    by (simp only: rlpEnc.simps EncodeRLPList_def len)
  have small: "length (rlpLengthPrefix 0xC0 (length ?c)) + length ?c < 2 ^ 62"
    using RlpList.prems by (simp only: enc length_append)
  have items: "decodeRLP (rlpEnc x @ rest) = Inr (x, int (length (rlpEnc x)))" if "x \<in> set xs" for x rest
  proof (rule RlpList.IH [OF that])
    have "length (rlpEnc x) \<le> length ?c"
      using that by (simp add: length_concat member_le_sum_list)
    with small show "length (rlpEnc x) < 2 ^ 62" by linarith
  qed
  show ?case
  proof (cases "length ?c \<le> 55")
    case True
    let ?p = "0xC0 + of_nat (length ?c) :: byte"
    have u: "uint ?p = 192 + int (length ?c)"
      using True by (simp add: uint_short)
    then have "\<not> ?p < 0x80" "\<not> ?p \<le> 0xB7" "\<not> ?p \<le> 0xBF" "?p \<le> 0xF7"
      using True by (simp_all add: word_less_def word_le_def)
    moreover have "rlpLengthPrefix 0xC0 (length ?c) = [?p]"
      using True by (simp add: rlpLengthPrefix_def)
    moreover note decodeList_encoded [OF items, of xs "[?p]" rest]
    ultimately show ?thesis
      using small u unfolding enc by (simp add: decodeRLP.simps Let_def)
  next
    case False
    let ?be = "natBytes (length ?c)"
    let ?p = "0xC0 + 55 + of_nat (length ?be) :: byte"
    have be: "length ?be \<le> 8"
      using small by (intro length_natBytes) simp
    have rl: "readLength (?p # ?be @ ?c @ rest) (int (length ?be)) = Inr (int (length ?c))"
      using False small power_strict_increasing [of 62 63 "2 :: nat"] by (intro readLength_natBytes) linarith+
    have u: "uint ?p = 247 + int (length ?be)"
      using be by (rule uint_long)
    moreover have "0 < length ?c"
      using False by linarith
    then have "?be \<noteq> []"
      using natBytes_hd by blast
    ultimately have "\<not> ?p < 0x80" "\<not> ?p \<le> 0xB7" "\<not> ?p \<le> 0xBF" "\<not> ?p \<le> 0xF7"
      using be by (simp_all add: word_less_def word_le_def)
    moreover have "rlpLengthPrefix 0xC0 (length ?c) = ?p # ?be"
      using False by (simp add: rlpLengthPrefix_def Let_def)
    moreover note decodeList_encoded [OF items, of xs "?p # ?be" rest]
    ultimately show ?thesis
      using small u rl unfolding enc by (simp add: decodeRLP.simps Let_def)
  qed
qed

text \<open>
  (C35) Decoding gives back what was encoded. The canonical encoding of any item, nested lists included, decodes
  to that item and is used up, whatever follows it; so no two sequences of encoded items read the same.
\<close>

theorem rlp_roundtrip:
  assumes "length (rlpEnc x) < 2 ^ 62"
  shows "DecodeRLP (rlpEnc x) = Inr x \<and>
    (\<forall>y rest rest'. length (rlpEnc y) < 2 ^ 62 \<longrightarrow> rlpEnc x @ rest = rlpEnc y @ rest' \<longrightarrow> x = y \<and> rest = rest')"
proof -
  have "DecodeRLP (rlpEnc x) = Inr x"
    using decodeRLP_encoded [OF assms, of "[]"] by (simp add: DecodeRLP_def)
  moreover have "x = y \<and> rest = rest'" if "length (rlpEnc y) < 2 ^ 62" "rlpEnc x @ rest = rlpEnc y @ rest'" for y rest rest'
    using decodeRLP_encoded [OF assms, of rest] decodeRLP_encoded [OF that(1), of rest'] that(2) by auto
  ultimately show ?thesis by blast
qed

lemma rlp_roundtrip_witness:
  "DecodeRLP (rlpEnc (RlpList [RlpBytes [0x80], RlpList [RlpBytes [], RlpBytes [5]]])) = Inr (RlpList [RlpBytes [0x80], RlpList [RlpBytes [], RlpBytes [5]]])"
  using rlp_roundtrip [of "RlpList [RlpBytes [0x80], RlpList [RlpBytes [], RlpBytes [5]]]"]
  by (simp add: EncodeRLPList_def EncodeRLPBytes_def rlpLengthPrefix_def)

lemma rlpEnc_inj: "length (rlpEnc x) < 2 ^ 62 \<Longrightarrow> rlpEnc x = rlpEnc y \<Longrightarrow> x = y"
  using decodeRLP_encoded [of x "[]"] decodeRLP_encoded [of y "[]"] by simp

lemma DecodeRLP_encoded: "length (rlpEnc x) < 2 ^ 62 \<Longrightarrow> DecodeRLP (rlpEnc x) = Inr x"
  using decodeRLP_encoded [of x "[]"] by (simp add: DecodeRLP_def)

subsection \<open>Progress\<close>

lemma decodeList_used:
  assumes "decodeList b start sz = Inr (item, used)" "1 \<le> start" "start \<le> 9" "sz < 2 ^ 63"
  shows "0 < used \<and> used \<le> int (length b) \<or> used < 0 \<and> IsList item"
  using assms i64_sum_cases [of start sz] by (auto simp: decodeList.simps split: if_splits sum.splits)

text \<open>
  Every item takes at least one byte and none that is not there. This is what makes the loop over the items
  of a list end: the position grows with every round, or has wrapped below zero, where the next slice panics.
\<close>

theorem decode_consumes:
  assumes "decodeRLP b = Inr (item, used)"
  shows "0 < used \<and> used \<le> int (length b) \<or> used < 0 \<and> IsList item"
proof (cases b)
  case (Cons prefix rest)
  consider "prefix < 0x80" | "\<not> prefix < 0x80" "prefix \<le> 0xB7" | "\<not> prefix \<le> 0xB7" "prefix \<le> 0xBF"
    | "\<not> prefix \<le> 0xBF"
    by argo
  then show ?thesis
  proof cases
    case 1
    then show ?thesis using assms Cons by (auto simp: decodeRLP.simps)
  next
    case 2
    then have "0x80 \<le> uint prefix" by (simp add: word_less_def)
    then show ?thesis using 2 assms Cons by (auto simp: decodeRLP.simps Let_def split: if_splits)
  next
    case 3
    then have "\<not> prefix < 0x80" by (auto simp: word_less_def word_le_def)
    with 3 assms Cons show ?thesis
      by (auto simp: decodeRLP.simps Let_def dest!: readLength_range split: if_splits sum.splits)
  next
    case 4
    then have "\<not> prefix < 0x80" "\<not> prefix \<le> 0xB7" by (auto simp: word_less_def word_le_def)
    moreover have "uint prefix - 192 < 2 ^ 63"
      using uint_bounded [of prefix] by simp
    ultimately show ?thesis
      using 4 assms Cons decodeList_used [of b 1 "uint prefix - 0xC0"]
      by (auto simp: decodeRLP.simps Let_def dest!: readLength_range dest: decodeList_used split: if_splits sum.splits)
  qed
qed (use assms in \<open>simp add: decodeRLP.simps\<close>)

lemma decode_consumes_witness: "decodeRLP [0xC2, 0x81, 0x80, 7] = Inr (RlpList [RlpBytes [0x80]], 3) \<and> (0 :: int) < 3"
proof -
  have "decodeRLP [0xC2, 0x81, 0x80, 7] = Inr (RlpList [RlpBytes [0x80]], 3)"
    by (simp add: decodeRLP.simps decodeList.simps decodeItems.simps slice_def)
  from this and decode_consumes [OF this] show ?thesis by simp
qed

text \<open>
  The length of a long string may be as large as the largest \<^verbatim>\<open>int\<close>; the sum with the header then wraps to a
  negative number, passes the test for an overrun and makes the slice expression panic.
\<close>

theorem huge_length_panics: "DecodeRLP [0xBF, 0x7F, 0xFF, 0xFF, 0xFF, 0xFF, 0xFF, 0xFF, 0xFF] = Inl RlpPanic"
  by (simp add: DecodeRLP_def decodeRLP.simps readLength_def slice_def i64_def)

text \<open>
  A string of up to 55 bytes is also accepted in the long form, so one value has two encodings.
\<close>

theorem long_form_accepted: "DecodeRLP [0xB8, 1, 0x80] = Inr (RlpBytes [0x80])" "DecodeRLP [0x81, 0x80] = Inr (RlpBytes [0x80])"
  by (simp_all add: DecodeRLP_def decodeRLP.simps readLength_def slice_def i64_def)

end
