(* ===== verification/Trie.thy ===== *)
theory Trie
  imports Rlp
begin

unbundle bit_operations_syntax

text \<open>
  Merkle-Patricia tries, \<^verbatim>\<open>src/internal/ethproof/proof.go\<close> (verification of one path) and \<^verbatim>\<open>triebuild.go\<close>
  (construction of the whole trie). Keccak-256 is an argument \<open>kec\<close>. A nibble is a byte below 16. The proof of a
  key is followed for at most 65 nodes, the bound of the code, which is the fuel of \<open>walk\<close>.
\<close>

type_synonym hasher = "bytes \<Rightarrow> bytes"

datatype proof_error = ErrProofInvalid | ErrProofIncomplete | ProofPanic

definition Keccak256 :: "hasher \<Rightarrow> bytes list \<Rightarrow> bytes" where
  "Keccak256 kec parts = kec (concat parts)"

definition nibbles :: "bytes \<Rightarrow> bytes" where
  "nibbles b = concat (map (\<lambda>c. [drop_bit 4 c, c AND 0x0F]) b)"

definition hexPrefix :: "bytes \<Rightarrow> proof_error + bytes \<times> bool" where
  "hexPrefix b =
     (if b = [] then Inl ErrProofInvalid
      else let all = nibbles b; flag = all ! 0; isLeaf = (flag AND 2 \<noteq> 0) in
           if flag AND 1 \<noteq> 0 then Inr (drop 1 all, isLeaf)
           else if length all < 2 \<or> all ! 1 \<noteq> 0 then Inl ErrProofInvalid
           else Inr (drop 2 all, isLeaf))"

definition follow :: "rlpItem \<Rightarrow> proof_error + bytes" where
  \<comment> \<open>an inlined list is refused (\<^verbatim>\<open>errInlineList\<close>), so the second result of the code is always nil\<close>
  "follow ref =
     (if IsList ref then Inl ErrProofInvalid
      else if length (itemOctets ref) = 32 then Inr (itemOctets ref) else Inl ErrProofInvalid)"

definition valueOf :: "rlpItem \<Rightarrow> bytes option" where
  \<comment> \<open>the field \<^verbatim>\<open>Bytes\<close> as a result: nil for a list\<close>
  "valueOf item = (case item of RlpBytes b \<Rightarrow> Some b | RlpList xs \<Rightarrow> None)"

definition byHashOf :: "hasher \<Rightarrow> bytes list \<Rightarrow> bytes \<rightharpoonup> bytes" where
  "byHashOf kec nodes = foldl (\<lambda>m node. m(Keccak256 kec [node] \<mapsto> node)) Map.empty nodes"

definition nodeItem :: "bytes \<Rightarrow> proof_error + rlpItem" where
  "nodeItem raw =
     (case DecodeRLP raw of
        Inl e \<Rightarrow> Inl (if e = RlpPanic then ProofPanic else ErrProofInvalid)
      | Inr item \<Rightarrow> if \<not> IsList item then Inl ErrProofInvalid else Inr item)"

fun walk :: "(bytes \<rightharpoonup> bytes) \<Rightarrow> nat \<Rightarrow> bytes \<Rightarrow> bytes \<Rightarrow> proof_error + bytes option" where
  "walk byHash 0 ref path = Inl ErrProofInvalid"
| "walk byHash (Suc n) ref path =
     (case byHash ref of
        None \<Rightarrow> Inl ErrProofIncomplete
      | Some raw \<Rightarrow>
          bindR (nodeItem raw) (\<lambda>item.
            if length (itemList item) = 17 then
              (if path = [] then Inr (valueOf (itemList item ! 16))
               else let next' = itemList item ! unat (hd path) in
                    if itemOctets next' = [] \<and> \<not> IsList next' then Inr None
                    else bindR (follow next') (\<lambda>ref'. walk byHash n ref' (tl path)))
            else if length (itemList item) = 2 then
              bindR (hexPrefix (itemOctets (itemList item ! 0))) (\<lambda>(prefix, isLeaf).
                if length path < length prefix \<or> take (length prefix) path \<noteq> prefix then Inr None
                else let path' = drop (length prefix) path in
                  if isLeaf then
                    (if path' \<noteq> [] then Inr None else Inr (valueOf (itemList item ! 1)))
                  else bindR (follow (itemList item ! 1)) (\<lambda>ref'. walk byHash n ref' path'))
            else Inl ErrProofInvalid))"

definition maxNodes :: nat where "maxNodes = 65"

definition VerifyProof :: "hasher \<Rightarrow> bytes \<Rightarrow> bytes \<Rightarrow> bytes list \<Rightarrow> proof_error + bytes option" where
  "VerifyProof kec root key nodes =
     (if length root \<noteq> 32 then Inl ErrProofInvalid
      else walk (byHashOf kec nodes) maxNodes root (nibbles (Keccak256 kec [key])))"

subsection \<open>Accounts and slots\<close>

definition StorageSlotKey :: "hasher \<Rightarrow> bytes32 \<Rightarrow> u64 \<Rightarrow> bytes32" where
  "StorageSlotKey kec key position =
     (let pos = replicate 24 0 @ map (\<lambda>i. ucast (drop_bit (8 * i) position)) (rev [0..<8]);
          h = Keccak256 kec [key, pos]
      in take 32 h @ replicate (32 - length h) 0)"

fun addCarry :: "bytes \<Rightarrow> u64 \<Rightarrow> bytes" where
  \<comment> \<open>the loop of \<^verbatim>\<open>SlotAt\<close> on the bytes in reverse order\<close>
  "addCarry [] carry = []"
| "addCarry (b # bs) carry =
     (if carry > 0
      then let s = ucast b + (carry AND 0xFF) in ucast s # addCarry bs (drop_bit 8 carry + drop_bit 8 s)
      else b # bs)"

definition SlotAt :: "bytes32 \<Rightarrow> u64 \<Rightarrow> bytes32" where
  "SlotAt base n = rev (addCarry (rev base) n)"

datatype account_error = AccountProof proof_error | AccountRlp rlp_error

definition AccountStorageRoot :: "bytes \<Rightarrow> account_error + bytes" where
  "AccountStorageRoot accountRLP =
     (if accountRLP = [] then Inl (AccountProof ErrProofIncomplete)
      else (case DecodeRLP accountRLP of
              Inl e \<Rightarrow> Inl (AccountRlp e)
            | Inr item \<Rightarrow>
                if \<not> IsList item \<or> length (itemList item) \<noteq> 4 then Inl (AccountProof ErrProofInvalid)
                else if length (itemOctets (itemList item ! 2)) \<noteq> 32 then Inl (AccountProof ErrProofInvalid)
                else Inr (itemOctets (itemList item ! 2))))"

definition DecodeSlotValue :: "bytes \<Rightarrow> account_error + bytes32" where
  "DecodeSlotValue raw =
     (if raw = [] then Inr zero32
      else (case DecodeRLP raw of
              Inl e \<Rightarrow> Inl (AccountRlp e)
            | Inr item \<Rightarrow>
                if IsList item then Inl (AccountProof ErrProofInvalid)
                else if length (itemOctets item) > 32 then Inl (AccountProof ErrProofInvalid)
                else Inr (replicate (32 - length (itemOctets item)) 0 @ itemOctets item)))"

lemma low_digit_mod: "a < n \<Longrightarrow> (a + n * b) mod (n * k) = a + n * (b mod k :: nat)"
  by (simp add: mod_mult2_eq)

lemma addCarry_value:
  "bytesNat (rev (addCarry bs c)) = (bytesNat (rev bs) + unat c) mod 256 ^ length bs \<and> length (addCarry bs c) = length bs"
proof (induction bs c rule: addCarry.induct)
  case (2 b bs c)
  show ?case
  proof (cases "c > 0")
    case True
    let ?s = "ucast b + (c AND 0xFF)" and ?k = "256 ^ length bs :: nat"
    have low: "unat (c AND 0xFF) = unat c mod 256"
    proof -
      have "c AND 0xFF = take_bit 8 c"
        by (simp add: take_bit_eq_mask mask_eq_exp_minus_1)
      then show ?thesis
        by (simp add: take_bit_eq_mod unat_mod)
    qed
    have b: "unat (ucast b :: u64) = unat b" "unat b < 256"
      using unat_byte_less [of b] by (simp_all add: unsigned_ucast_eq take_bit_eq_mod)
    then have s: "unat ?s = unat b + unat c mod 256"
      using low by (simp add: unat_word_ariths)
    have lowbyte: "unat (ucast ?s :: byte) = (unat b + unat c mod 256) mod 256"
      unfolding s [symmetric] by (simp add: unsigned_ucast_eq take_bit_eq_mod)
    have high: "unat (drop_bit 8 c + drop_bit 8 ?s) = unat c div 256 + (unat b + unat c mod 256) div 256"
    proof -
      have "unat c < 2 ^ 64"
        using unsigned_less [of c] by simp
      then have "unat c div 256 < 2 ^ 56"
        by (simp add: div_less_iff_less_mult)
      moreover have "(unat b + unat c mod 256) div 256 < 2"
        using b(2) by (simp add: div_less_iff_less_mult)
      ultimately have "unat c div 256 + (unat b + unat c mod 256) div 256 < 2 ^ 64"
        by simp
      then show ?thesis
        unfolding s [symmetric] by (simp add: unat_word_ariths drop_bit_eq_div unat_div)
    qed
    have "bytesNat (rev (b # bs)) + unat c =
        (unat b + unat c mod 256) mod 256 + 256 * (bytesNat (rev bs) + (unat c div 256 + (unat b + unat c mod 256) div 256))"
      by (simp add: algebra_simps)
    then have "(bytesNat (rev (b # bs)) + unat c) mod 256 ^ length (b # bs) =
        (unat b + unat c mod 256) mod 256 + 256 * ((bytesNat (rev bs) + (unat c div 256 + (unat b + unat c mod 256) div 256)) mod ?k)"
      by (simp only: power_Suc length_Cons low_digit_mod mod_less_divisor zero_less_numeral)
    then show ?thesis
      using True 2 lowbyte high by (simp add: Let_def)
  next
    case False
    then have "c = 0" by (simp add: word_gt_0)
    then show ?thesis
      using bytesNat_bound [of "rev (b # bs)"] by simp
  qed
qed simp

text \<open>The nth slot of a struct is its first slot plus n, with the carry of 256-bit arithmetic.\<close>

theorem SlotAt_adds: "length base = 32 \<Longrightarrow> bytesNat (SlotAt base n) = (bytesNat base + unat n) mod 2 ^ 256 \<and> length (SlotAt base n) = 32"
  using addCarry_value [of "rev base" n] by (simp add: SlotAt_def)

subsection \<open>Building a trie\<close>

record TrieEntry =
  te_Key :: bytes
  te_Value :: bytes

record triePath =
  tp_path :: bytes
  tp_value :: bytes

fun packPairs :: "bytes \<Rightarrow> bytes" where
  "packPairs (a # b # r) = (push_bit 4 a OR b) # packPairs r"
| "packPairs _ = []"

definition packHexPrefix :: "bytes \<Rightarrow> bool \<Rightarrow> bytes" where
  "packHexPrefix path isLeaf =
     (let flag = (if isLeaf then 2 else 0) in
      packPairs (if length path mod 2 = 1 then (flag + 1) # path else flag # 0 # path))"

definition trieNodeRef :: "hasher \<Rightarrow> bytes \<Rightarrow> bytes" where
  "trieNodeRef kec encoded = (if length encoded < 32 then encoded else EncodeRLPBytes (Keccak256 kec [encoded]))"

function sharedEnd :: "bytes \<Rightarrow> triePath list \<Rightarrow> nat \<Rightarrow> nat" where
  \<comment> \<open>how far the first path is shared, from \<open>end\<close> on\<close>
  "sharedEnd p rest end' =
     (if end' < length p \<and> list_all (\<lambda>n. end' < length (tp_path n) \<and> tp_path n ! end' = p ! end') rest
      then sharedEnd p rest (Suc end') else end')"
  by pat_completeness auto
termination
  by (relation "measure (\<lambda>(p, rest, end'). length p - end')") auto

declare sharedEnd.simps [simp del]

definition groupOf :: "triePath list \<Rightarrow> nat \<Rightarrow> nat \<Rightarrow> triePath list" where
  \<comment> \<open>the nodes whose path goes on with nibble \<open>i\<close>\<close>
  "groupOf nodes depth i = filter (\<lambda>n. depth < length (tp_path n) \<and> tp_path n ! depth = of_nat i) nodes"

definition endingHere :: "triePath list \<Rightarrow> nat \<Rightarrow> triePath list" where
  "endingHere nodes depth = filter (\<lambda>n. length (tp_path n) = depth) nodes"

definition leafNode :: "triePath \<Rightarrow> nat \<Rightarrow> bytes" where
  "leafNode n depth =
     EncodeRLPList [EncodeRLPBytes (packHexPrefix (drop depth (tp_path n)) True), EncodeRLPBytes (tp_value n)]"

lemma sharedEnd_ge: "end' \<le> sharedEnd p rest end'"
  by (induction p rest end' rule: sharedEnd.induct) (subst sharedEnd.simps, auto)

lemma sharedEnd_le: "end' \<le> length p \<Longrightarrow> sharedEnd p rest end' \<le> length p"
  by (induction p rest end' rule: sharedEnd.induct) (subst sharedEnd.simps, auto)

lemma sharedEnd_shared:
  "end' \<le> i \<Longrightarrow> i < sharedEnd p rest end' \<Longrightarrow> n \<in> set rest \<Longrightarrow> i < length (tp_path n) \<and> tp_path n ! i = p ! i"
proof (induction p rest end' rule: sharedEnd.induct)
  case (1 p rest end')
  show ?case
  proof (cases "end' < length p \<and> list_all (\<lambda>n. end' < length (tp_path n) \<and> tp_path n ! end' = p ! end') rest")
    case True
    with 1 show ?thesis
      by (cases "i = end'") (simp_all add: sharedEnd.simps [of p rest end'] list_all_iff)
  next
    case False
    with 1 show ?thesis by (simp only: sharedEnd.simps [of p rest end'] if_False)
  qed
qed

lemma sharedEnd_first: "end' \<le> i \<Longrightarrow> i < sharedEnd p rest end' \<Longrightarrow> i < length p"
proof (induction p rest end' rule: sharedEnd.induct)
  case (1 p rest end')
  show ?case
  proof (cases "end' < length p \<and> list_all (\<lambda>n. end' < length (tp_path n) \<and> tp_path n ! end' = p ! end') rest")
    case True
    with 1 show ?thesis
      by (cases "i = end'") (simp_all add: sharedEnd.simps [of p rest end'])
  next
    case False
    with 1 show ?thesis by (simp only: sharedEnd.simps [of p rest end'] if_False)
  qed
qed

lemma shared_length:
  assumes "depth < sharedEnd (tp_path n) rest depth" "m \<in> set (n # rest)"
  shows "sharedEnd (tp_path n) rest depth \<le> length (tp_path m)"
proof -
  let ?e = "sharedEnd (tp_path n) rest depth"
  have "?e - 1 < length (tp_path m)"
    using assms sharedEnd_first [of depth "?e - 1" "tp_path n" rest] sharedEnd_shared [of depth "?e - 1" "tp_path n" rest m]
    by (cases "m = n") auto
  then show ?thesis using assms(1) by linarith
qed

definition leftOver :: "triePath list \<Rightarrow> nat \<Rightarrow> nat" where
  "leftOver nodes depth = sum_list (map (\<lambda>n. length (tp_path n) - depth) nodes)"

lemma leftOver_filter: "leftOver (filter P nodes) depth \<le> leftOver nodes depth"
  by (induction nodes) (auto simp: leftOver_def)

lemma leftOver_deeper:
  assumes "nodes \<noteq> []" "\<forall>n \<in> set nodes. depth < length (tp_path n)" "depth < deeper"
  shows "leftOver nodes deeper < leftOver nodes depth"
  using assms
proof (induction nodes)
  case (Cons n nodes)
  then have "length (tp_path n) - deeper < length (tp_path n) - depth"
    by auto
  moreover have "leftOver nodes deeper \<le> leftOver nodes depth"
    using Cons by (cases "nodes = []") (simp_all add: leftOver_def less_imp_le)
  ultimately show ?case by (simp add: leftOver_def)
qed simp

function encodeTrieSubtree :: "hasher \<Rightarrow> triePath list \<Rightarrow> nat \<Rightarrow> bytes" where
  "encodeTrieSubtree kec nodes depth =
     (case nodes of
        [] \<Rightarrow> []
      | [n] \<Rightarrow> leafNode n depth
      | n # rest \<Rightarrow>
          let end' = sharedEnd (tp_path n) rest depth in
          if depth < end'
          then EncodeRLPList
                 [EncodeRLPBytes (packHexPrefix (take (end' - depth) (drop depth (tp_path n))) False),
                  trieNodeRef kec (encodeTrieSubtree kec nodes end')]
          else EncodeRLPList
                 (map (\<lambda>i. if groupOf nodes depth i = [] then [0x80]
                            else trieNodeRef kec (encodeTrieSubtree kec (groupOf nodes depth i) (Suc depth))) [0..<16] @
                  [if endingHere nodes depth = [] then [0x80]
                   else EncodeRLPBytes (tp_value (last (endingHere nodes depth)))]))"
  by pat_completeness auto
lemma leftOver_shared:
  assumes "depth < sharedEnd (tp_path n) rest depth"
  shows "leftOver (n # rest) (sharedEnd (tp_path n) rest depth) < leftOver (n # rest) depth"
  using assms shared_length [OF assms] by (intro leftOver_deeper) (auto dest: order.strict_trans2)

lemma leftOver_group: "groupOf nodes depth i \<noteq> [] \<Longrightarrow> leftOver (groupOf nodes depth i) (Suc depth) < leftOver nodes depth"
  using leftOver_deeper [of "groupOf nodes depth i" depth "Suc depth"] leftOver_filter [of _ nodes depth]
  unfolding groupOf_def by (fastforce intro: order.strict_trans2)

termination encodeTrieSubtree
  by (relation "measure (\<lambda>(kec, nodes, depth). leftOver nodes depth)") (simp_all add: leftOver_shared leftOver_group)

declare encodeTrieSubtree.simps [simp del]

definition EmptyTrieRoot :: "hasher \<Rightarrow> bytes" where
  "EmptyTrieRoot kec = Keccak256 kec [[0x80]]"

definition triePaths :: "TrieEntry list \<Rightarrow> triePath list" where
  "triePaths entries = sort_key tp_path (map (\<lambda>e. \<lparr> tp_path = nibbles (te_Key e), tp_value = te_Value e \<rparr>) entries)"

definition BuildMPT :: "hasher \<Rightarrow> TrieEntry list \<Rightarrow> bytes" where
  "BuildMPT kec entries =
     (if entries = [] then EmptyTrieRoot kec else Keccak256 kec [encodeTrieSubtree kec (triePaths entries) 0])"

subsection \<open>Nibbles and packed paths\<close>

definition nibble :: "byte \<Rightarrow> bool" where
  "nibble x \<longleftrightarrow> x < 16"

lemma nibble_cases: "nibble x \<Longrightarrow> x \<in> {0, 1, 2, 3, 4, 5, 6, 7, 8, 9, 10, 11, 12, 13, 14, 15}"
proof -
  assume "nibble x"
  then have "unat x < 16"
    by (simp add: nibble_def word_less_nat_alt)
  then have "unat x \<in> {0, 1, 2, 3, 4, 5, 6, 7, 8, 9, 10, 11, 12, 13, 14, 15}"
    unfolding insert_iff empty_iff by presburger
  then show ?thesis
    by (auto simp: word_unat_eq_iff)
qed

lemma nibbles_Cons: "nibbles (x # r) = drop_bit 4 x # (x AND 15) # nibbles r"
  by (simp add: nibbles_def)

lemma pack_unpack:
  assumes "nibble a" "nibble b"
  shows "drop_bit 4 (push_bit 4 a OR b) = a" "(push_bit 4 a OR b) AND 15 = b"
  using nibble_cases [OF assms(1)] nibble_cases [OF assms(2)] by auto

lemma nibbles_packPairs: "even (length xs) \<Longrightarrow> list_all nibble xs \<Longrightarrow> nibbles (packPairs xs) = xs"
proof (induction xs rule: packPairs.induct)
  case (1 a b r)
  then have "nibble a" "nibble b" "nibbles (packPairs r) = r"
    by simp_all
  then show ?case
    by (simp only: packPairs.simps nibbles_Cons pack_unpack)
qed (simp_all add: nibbles_def)

lemma nibbles_nibble: "list_all nibble (nibbles b)"
proof -
  have "drop_bit 4 c < (16 :: byte)" "c AND 15 < 16" for c :: byte
  proof -
    have "unat c < 256"
      by (rule unat_byte_less)
    moreover have "unat (drop_bit 4 c) = unat c div 16"
      by (simp add: drop_bit_eq_div unat_div)
    ultimately show "drop_bit 4 c < (16 :: byte)"
      by (simp add: word_less_nat_alt)
    have "c AND mask 4 < 2 ^ 4"
      by (rule and_mask_less') simp
    then show "c AND 15 < 16"
      by (simp add: mask_eq_exp_minus_1)
  qed
  then show ?thesis
    by (induction b) (simp_all add: nibbles_def nibble_def)
qed

lemma length_nibbles [simp]: "length (nibbles b) = 2 * length b"
  by (induction b) (simp_all add: nibbles_def)

lemma packPairs_nibbles: "packPairs (nibbles b) = b"
proof -
  have "push_bit 4 (drop_bit 4 c) OR (c AND 15) = c" for c :: byte
  proof -
    have "c AND 15 = take_bit 4 c"
      by (simp add: take_bit_eq_mask mask_eq_exp_minus_1)
    then show ?thesis
      by (auto simp: bit_eq_iff bit_simps not_less)
  qed
  then show ?thesis
    by (induction b) (simp_all add: nibbles_Cons, simp add: nibbles_def)
qed

lemma nibbles_inj: "nibbles a = nibbles b \<Longrightarrow> a = b"
  by (metis packPairs_nibbles)

lemma hexPrefix_pack:
  assumes "list_all nibble path"
  shows "hexPrefix (packHexPrefix path isLeaf) = Inr (path, isLeaf)"
proof -
  let ?f = "if isLeaf then 2 else 0 :: byte"
  have f: "nibble ?f" "nibble (?f + 1)" "?f AND 1 = 0" "(?f AND 2 \<noteq> 0) = isLeaf" "(?f + 1) AND 1 \<noteq> 0" "((?f + 1) AND 2 \<noteq> 0) = isLeaf"
    by (simp_all add: nibble_def)
  show ?thesis
  proof (cases "length path mod 2 = 1")
    case True
    let ?n = "(?f + 1) # path"
    have nib: "nibbles (packPairs ?n) = ?n"
      using assms f True by (intro nibbles_packPairs) (auto simp: odd_iff_mod_2_eq_one)
    then have "packPairs ?n \<noteq> []"
      by (auto simp: nibbles_def)
    with nib f True show ?thesis
      by (simp add: hexPrefix_def packHexPrefix_def Let_def)
  next
    case False
    let ?n = "?f # 0 # path"
    have nib: "nibbles (packPairs ?n) = ?n"
      using assms f False by (intro nibbles_packPairs) (auto simp: even_iff_mod_2_eq_zero nibble_def)
    with f False show ?thesis
      by (simp add: hexPrefix_def packHexPrefix_def Let_def)
  qed
qed

subsection \<open>The nodes of a trie as items\<close>

definition refItem :: "hasher \<Rightarrow> rlpItem \<Rightarrow> rlpItem" where
  "refItem kec x = (if length (rlpEnc x) < 32 then x else RlpBytes (kec (rlpEnc x)))"

lemma trieNodeRef_enc: "trieNodeRef kec (rlpEnc x) = rlpEnc (refItem kec x)"
  by (simp add: trieNodeRef_def refItem_def Keccak256_def)

function trieItem :: "hasher \<Rightarrow> triePath list \<Rightarrow> nat \<Rightarrow> rlpItem" where
  "trieItem kec nodes depth =
     (case nodes of
        [] \<Rightarrow> RlpBytes []
      | [n] \<Rightarrow> RlpList [RlpBytes (packHexPrefix (drop depth (tp_path n)) True), RlpBytes (tp_value n)]
      | n # rest \<Rightarrow>
          let end' = sharedEnd (tp_path n) rest depth in
          if depth < end'
          then RlpList
                 [RlpBytes (packHexPrefix (take (end' - depth) (drop depth (tp_path n))) False),
                  refItem kec (trieItem kec nodes end')]
          else RlpList
                 (map (\<lambda>i. if groupOf nodes depth i = [] then RlpBytes []
                            else refItem kec (trieItem kec (groupOf nodes depth i) (Suc depth))) [0..<16] @
                  [if endingHere nodes depth = [] then RlpBytes [] else RlpBytes (tp_value (last (endingHere nodes depth)))]))"
  by pat_completeness auto
termination
  by (relation "measure (\<lambda>(kec, nodes, depth). leftOver nodes depth)") (simp_all add: leftOver_shared leftOver_group)

declare trieItem.simps [simp del]

lemma EncodeRLPBytes_Nil: "EncodeRLPBytes [] = [0x80]"
  by (simp add: EncodeRLPBytes_def rlpLengthPrefix_def)

lemma encodeTrieSubtree_item: "nodes \<noteq> [] \<Longrightarrow> encodeTrieSubtree kec nodes depth = rlpEnc (trieItem kec nodes depth)"
proof (induction kec nodes depth rule: encodeTrieSubtree.induct)
  case (1 kec nodes depth)
  then obtain n rest where nodes: "nodes = n # rest"
    by (cases nodes) auto
  show ?case
  proof (cases rest)
    case Nil
    then show ?thesis
      by (simp add: nodes encodeTrieSubtree.simps [of kec "[n]"] trieItem.simps [of kec "[n]"] leafNode_def)
  next
    case (Cons m ms)
    let ?e = "sharedEnd (tp_path n) (m # ms) depth"
    let ?f = "\<lambda>i. if groupOf nodes depth i = [] then [0x80]
      else trieNodeRef kec (encodeTrieSubtree kec (groupOf nodes depth i) (Suc depth))"
    let ?g = "\<lambda>i. if groupOf nodes depth i = [] then RlpBytes []
      else refItem kec (trieItem kec (groupOf nodes depth i) (Suc depth))"
    let ?last = "if endingHere nodes depth = [] then RlpBytes [] else RlpBytes (tp_value (last (endingHere nodes depth)))"
    show ?thesis
    proof (cases "depth < ?e")
      case True
      have "encodeTrieSubtree kec nodes ?e = rlpEnc (trieItem kec nodes ?e)"
        using "1.IH"(1) [OF nodes Cons refl True] nodes by simp
      with True Cons show ?thesis
        by (simp add: nodes encodeTrieSubtree.simps [of kec "n # m # ms" depth] trieItem.simps [of kec "n # m # ms" depth]
            trieNodeRef_enc Let_def)
    next
      case False
      have "encodeTrieSubtree kec (groupOf nodes depth i) (Suc depth) = rlpEnc (trieItem kec (groupOf nodes depth i) (Suc depth))"
        if "groupOf nodes depth i \<noteq> []" "i \<in> set [0..<16]" for i
        using "1.IH"(2) [OF nodes Cons refl False that(2,1)] that(1) by simp
      then have eq: "?f i = rlpEnc (?g i)" if "i \<in> set [0..<16]" for i
        using that by (simp add: trieNodeRef_enc EncodeRLPBytes_Nil)
      have "map ?f [0..<16] = map rlpEnc (map ?g [0..<16])"
        unfolding map_map by (rule map_cong [OF refl]) (simp only: eq comp_apply)
      moreover have "encodeTrieSubtree kec nodes depth = EncodeRLPList (map ?f [0..<16] @ [rlpEnc ?last])"
        using False unfolding nodes Cons
        by (simp add: encodeTrieSubtree.simps [of kec "n # m # ms" depth] EncodeRLPBytes_Nil Let_def del: upt_Suc)
      moreover have "trieItem kec nodes depth = RlpList (map ?g [0..<16] @ [?last])"
        using False unfolding nodes Cons by (simp add: trieItem.simps [of kec "n # m # ms" depth] Let_def del: upt_Suc)
      ultimately show ?thesis
        by (simp only: rlpEnc.simps map_append list.map)
    qed
  qed
qed

inductive subtrie :: "triePath list \<Rightarrow> triePath list \<Rightarrow> nat \<Rightarrow> bool" for root where
  root: "subtrie root root 0"
| extension: "subtrie root (n # rest) depth \<Longrightarrow> rest \<noteq> [] \<Longrightarrow> end' = sharedEnd (tp_path n) rest depth \<Longrightarrow> depth < end'
    \<Longrightarrow> subtrie root (n # rest) end'"
| branch: "subtrie root (n # rest) depth \<Longrightarrow> rest \<noteq> [] \<Longrightarrow> \<not> depth < sharedEnd (tp_path n) rest depth \<Longrightarrow> i < 16
    \<Longrightarrow> groupOf (n # rest) depth i \<noteq> [] \<Longrightarrow> subtrie root (groupOf (n # rest) depth i) (Suc depth)"

definition trieNodes :: "hasher \<Rightarrow> TrieEntry list \<Rightarrow> bytes set" where
  \<comment> \<open>the encodings of the nodes of the trie of these entries\<close>
  "trieNodes kec entries =
     (if entries = [] then {[0x80]}
      else {encodeTrieSubtree kec nodes depth | nodes depth. subtrie (triePaths entries) nodes depth})"

definition pathsOK :: "triePath list \<Rightarrow> nat \<Rightarrow> bool" where
  \<comment> \<open>nodes with different paths of nibbles that agree up to \<open>depth\<close>\<close>
  "pathsOK nodes depth \<longleftrightarrow> nodes \<noteq> [] \<and> distinct (map tp_path nodes) \<and> (\<forall>n \<in> set nodes. list_all nibble (tp_path n)) \<and>
     (\<exists>pre. length pre = depth \<and> (\<forall>n \<in> set nodes. take depth (tp_path n) = pre))"

lemma pathsOK_group: "pathsOK nodes depth \<Longrightarrow> groupOf nodes depth i \<noteq> [] \<Longrightarrow> pathsOK (groupOf nodes depth i) (Suc depth)"
proof -
  assume ok: "pathsOK nodes depth" and ne: "groupOf nodes depth i \<noteq> []"
  obtain pre where pre: "length pre = depth" "\<forall>n \<in> set nodes. take depth (tp_path n) = pre"
    using ok by (auto simp: pathsOK_def)
  have "take (Suc depth) (tp_path n) = pre @ [of_nat i]" if "n \<in> set (groupOf nodes depth i)" for n
    using that pre by (auto simp: groupOf_def take_Suc_conv_app_nth)
  with ok ne pre(1) show ?thesis
    unfolding pathsOK_def by (intro conjI exI [of _ "pre @ [of_nat i]"]) (auto simp: groupOf_def distinct_map_filter)
qed

lemma pathsOK_extension:
  "pathsOK (n # rest) depth \<Longrightarrow> pathsOK (n # rest) (sharedEnd (tp_path n) rest depth)"
proof -
  let ?e = "sharedEnd (tp_path n) rest depth"
  assume ok: "pathsOK (n # rest) depth"
  have "take ?e (tp_path m) = take ?e (tp_path n)" if "m \<in> set (n # rest)" "depth < ?e" for m
  proof (rule nth_equalityI)
    have len: "?e \<le> length (tp_path m)" "?e \<le> length (tp_path n)"
      using shared_length [OF that(2)] that(1) by auto
    then show "length (take ?e (tp_path m)) = length (take ?e (tp_path n))"
      by simp
    fix j assume j: "j < length (take ?e (tp_path m))"
    have "take depth (tp_path m) = take depth (tp_path n)"
      using ok that(1) by (auto simp: pathsOK_def)
    then have "tp_path m ! j = tp_path n ! j" if "j < depth"
      using that by (metis nth_take)
    moreover have "tp_path m ! j = tp_path n ! j" if "depth \<le> j"
      using sharedEnd_shared [of depth j "tp_path n" rest m] that j len \<open>m \<in> set (n # rest)\<close> by (cases "m = n") auto
    ultimately show "take ?e (tp_path m) ! j = take ?e (tp_path n) ! j"
      using j len by (cases "j < depth") auto
  qed
  then have "depth < ?e \<Longrightarrow> \<forall>m \<in> set (n # rest). take ?e (tp_path m) = take ?e (tp_path n)"
    by blast
  moreover have "depth < ?e \<Longrightarrow> length (take ?e (tp_path n)) = ?e"
    using shared_length [of depth n rest n] by simp
  moreover have "depth = ?e \<or> depth < ?e"
    using sharedEnd_ge [of depth "tp_path n" rest] by linarith
  ultimately show ?thesis
    using ok unfolding pathsOK_def by metis
qed

lemma pathsOK_subtrie: "subtrie root nodes depth \<Longrightarrow> pathsOK root 0 \<Longrightarrow> pathsOK nodes depth"
  by (induction rule: subtrie.induct) (auto intro: pathsOK_group pathsOK_extension)

subsection \<open>Following a path through a trie\<close>

definition entryAt :: "triePath list \<Rightarrow> bytes \<Rightarrow> bytes option" where
  "entryAt nodes p = map_of (map (\<lambda>n. (tp_path n, tp_value n)) nodes) p"

lemma entryAt_group:
  "depth < length p \<Longrightarrow> p ! depth = of_nat i \<Longrightarrow> entryAt (groupOf nodes depth i) p = entryAt nodes p"
  by (induction nodes) (auto simp: entryAt_def groupOf_def)

lemma entryAt_None: "(\<And>n. n \<in> set nodes \<Longrightarrow> tp_path n \<noteq> p) \<Longrightarrow> entryAt nodes p = None"
  by (force simp: entryAt_def map_of_eq_None_iff)

definition childStep :: "hasher \<Rightarrow> (bytes \<rightharpoonup> bytes) \<Rightarrow> nat \<Rightarrow> triePath list \<Rightarrow> nat \<Rightarrow> bytes \<Rightarrow> proof_error + bytes option" where
  \<comment> \<open>what following the reference to a subtree gives\<close>
  "childStep kec m k nodes depth q =
     (if length (encodeTrieSubtree kec nodes depth) < 32 then Inl ErrProofInvalid
      else walk m k (kec (encodeTrieSubtree kec nodes depth)) q)"

lemma trieItem_leaf: "trieItem kec [n] depth = RlpList [RlpBytes (packHexPrefix (drop depth (tp_path n)) True), RlpBytes (tp_value n)]"
  by (simp add: trieItem.simps [of kec "[n]"])

lemma trieItem_extension:
  assumes "rest \<noteq> []" "end' = sharedEnd (tp_path n) rest depth" "depth < end'"
  shows "trieItem kec (n # rest) depth =
    RlpList [RlpBytes (packHexPrefix (take (end' - depth) (drop depth (tp_path n))) False), refItem kec (trieItem kec (n # rest) end')]"
proof -
  obtain m ms where r: "rest = m # ms"
    using assms(1) by (cases rest) auto
  show ?thesis
    using assms(2,3) unfolding r by (simp add: trieItem.simps [of kec "n # m # ms" depth] Let_def)
qed

lemma trieItem_branch:
  assumes "rest \<noteq> []" "\<not> depth < sharedEnd (tp_path n) rest depth"
  shows "trieItem kec (n # rest) depth =
    RlpList
     (map (\<lambda>i. if groupOf (n # rest) depth i = [] then RlpBytes []
                else refItem kec (trieItem kec (groupOf (n # rest) depth i) (Suc depth))) [0..<16] @
      [if endingHere (n # rest) depth = [] then RlpBytes [] else RlpBytes (tp_value (last (endingHere (n # rest) depth)))])"
proof -
  obtain m ms where r: "rest = m # ms"
    using assms(1) by (cases rest) auto
  show ?thesis
    using assms(2) unfolding r by (simp add: trieItem.simps [of kec "n # m # ms" depth] Let_def del: upt_Suc)
qed

lemma IsList_trieItem: "nodes \<noteq> [] \<Longrightarrow> IsList (trieItem kec nodes depth)"
  by (cases nodes; cases "tl nodes") (auto simp: trieItem_leaf trieItem.simps [of kec "_ # _"] Let_def)

lemma nodeItem_trie:
  assumes "nodes \<noteq> []" "length (encodeTrieSubtree kec nodes depth) < 2 ^ 62"
  shows "nodeItem (encodeTrieSubtree kec nodes depth) = Inr (trieItem kec nodes depth)"
  using assms DecodeRLP_encoded [of "trieItem kec nodes depth"] IsList_trieItem [OF assms(1)]
  by (simp add: nodeItem_def encodeTrieSubtree_item)

lemma follow_child:
  assumes "nodes \<noteq> []" "\<And>x. length (kec x) = 32"
  shows "bindR (follow (refItem kec (trieItem kec nodes depth))) (\<lambda>r. walk m k r q) = childStep kec m k nodes depth q"
  using assms IsList_trieItem [OF assms(1), of kec depth]
  by (simp add: follow_def refItem_def childStep_def encodeTrieSubtree_item)

lemma refItem_not_empty:
  assumes "nodes \<noteq> []" "\<And>x. length (kec x) = 32"
  shows "\<not> (itemOctets (refItem kec (trieItem kec nodes depth)) = [] \<and> \<not> IsList (refItem kec (trieItem kec nodes depth)))"
  using IsList_trieItem [OF assms(1), of kec depth] assms(2) [of "rlpEnc (trieItem kec nodes depth)"]
  by (auto simp: refItem_def)

lemma walk_leaf:
  assumes "m ref = Some (encodeTrieSubtree kec [n] depth)" "length (encodeTrieSubtree kec [n] depth) < 2 ^ 62" "list_all nibble (tp_path n)"
  shows "walk m (Suc k) ref q = Inr (if q = drop depth (tp_path n) then Some (tp_value n) else None)"
proof -
  have "list_all nibble (drop depth (tp_path n))"
    using assms(3) by (auto simp: list_all_iff dest: in_set_dropD)
  then show ?thesis
    using assms(1) nodeItem_trie [OF _ assms(2)]
    by (auto simp: trieItem_leaf hexPrefix_pack valueOf_def Let_def)
qed

lemma walk_extension:
  assumes "m ref = Some (encodeTrieSubtree kec (n # rest) depth)" "length (encodeTrieSubtree kec (n # rest) depth) < 2 ^ 62"
    and "list_all nibble (tp_path n)" "rest \<noteq> []" "end' = sharedEnd (tp_path n) rest depth" "depth < end'" "\<And>x. length (kec x) = 32"
  shows "walk m (Suc k) ref q =
    (if take (end' - depth) q \<noteq> take (end' - depth) (drop depth (tp_path n)) then Inr None
     else childStep kec m k (n # rest) end' (drop (end' - depth) q))"
proof -
  let ?p = "take (end' - depth) (drop depth (tp_path n))"
  have len: "length ?p = end' - depth"
    using shared_length [of depth n rest n] assms(5,6) by simp
  have "list_all nibble ?p"
    using assms(3) by (auto simp: list_all_iff dest: in_set_takeD in_set_dropD)
  then have hp: "hexPrefix (packHexPrefix ?p False) = Inr (?p, False)"
    by (rule hexPrefix_pack)
  have short: "(length q < end' - depth \<or> take (end' - depth) q \<noteq> ?p) = (take (end' - depth) q \<noteq> ?p)"
    using len by auto
  show ?thesis
    using assms(1) nodeItem_trie [OF _ assms(2)] len follow_child [of "n # rest" kec end' m k "drop (end' - depth) q", OF _ assms(7)]
    by (simp add: trieItem_extension [OF assms(4-6)] hp short Let_def)
qed

lemma walk_branch:
  assumes "m ref = Some (encodeTrieSubtree kec (n # rest) depth)" "length (encodeTrieSubtree kec (n # rest) depth) < 2 ^ 62"
    and "rest \<noteq> []" "\<not> depth < sharedEnd (tp_path n) rest depth" "nibble c" "\<And>x. length (kec x) = 32"
  shows "walk m (Suc k) ref (c # q) =
    (if groupOf (n # rest) depth (unat c) = [] then Inr None
     else childStep kec m k (groupOf (n # rest) depth (unat c)) (Suc depth) q)"
proof -
  have c: "unat c < 16"
    using assms(5) by (simp add: nibble_def word_less_nat_alt)
  let ?g = "\<lambda>i. if groupOf (n # rest) depth i = [] then RlpBytes []
                else refItem kec (trieItem kec (groupOf (n # rest) depth i) (Suc depth))"
  have "(map ?g [0..<16] @ [x]) ! unat c = ?g (unat c)" for x
    using c by (simp add: nth_append del: upt_Suc)
  moreover have "length (map ?g [0..<16] @ [x]) = 17" for x
    by simp
  ultimately have step: "walk m (Suc k) ref (c # q) =
      (if itemOctets (?g (unat c)) = [] \<and> \<not> IsList (?g (unat c)) then Inr None
       else bindR (follow (?g (unat c))) (\<lambda>r. walk m k r q))"
    using assms(1) nodeItem_trie [OF _ assms(2)] by (simp add: trieItem_branch [OF assms(3,4)] Let_def del: upt_Suc)
  show ?thesis
  proof (cases "groupOf (n # rest) depth (unat c) = []")
    case False
    from follow_child [OF False assms(6)] refItem_not_empty [OF False assms(6)] False show ?thesis
      unfolding step by (simp only: if_False)
  next
    case True
    then show ?thesis unfolding step by simp
  qed
qed

lemma subtrie_subset: "subtrie root nodes depth \<Longrightarrow> set nodes \<subseteq> set root"
  by (induction rule: subtrie.induct) (auto simp: groupOf_def)

definition agreeAt :: "triePath list \<Rightarrow> nat \<Rightarrow> bytes \<Rightarrow> bool" where
  \<comment> \<open>the path has come to this subtree\<close>
  "agreeAt nodes depth full \<longleftrightarrow> (\<forall>n \<in> set nodes. take depth (tp_path n) = take depth full)"

lemma pathsOK_agree: "pathsOK nodes depth \<Longrightarrow> n \<in> set nodes \<Longrightarrow> m \<in> set nodes \<Longrightarrow> take depth (tp_path n) = take depth (tp_path m)"
  by (auto simp: pathsOK_def)

text \<open>
  One round of \<^verbatim>\<open>VerifyProof\<close> at a subtree whose keys have one length: it ends with the right answer, or goes on
  at a smaller subtree that holds the same answer.
\<close>

lemma walk_step:
  assumes "pathsOK nodes depth" "\<forall>n \<in> set nodes. length (tp_path n) = length full" "agreeAt nodes depth full" "list_all nibble full"
    and "m ref = Some (encodeTrieSubtree kec nodes depth)" "length (encodeTrieSubtree kec nodes depth) < 2 ^ 62"
    and "\<And>x. length (kec x) = 32" "subtrie root nodes depth"
  shows "walk m (Suc k) ref (drop depth full) = Inr (entryAt nodes full) \<or>
    (\<exists>nodes' depth'. subtrie root nodes' depth' \<and> depth < depth' \<and> agreeAt nodes' depth' full \<and>
       entryAt nodes' full = entryAt nodes full \<and> depth' \<le> length full \<and>
       walk m (Suc k) ref (drop depth full) = childStep kec m k nodes' depth' (drop depth' full))"
proof -
  obtain n rest where nodes: "nodes = n # rest"
    using assms(1) by (cases nodes) (auto simp: pathsOK_def)
  have nib: "list_all nibble (tp_path n)" and len: "length (tp_path n) = length full" and pre: "take depth (tp_path n) = take depth full"
    using assms(1-3) by (auto simp: nodes pathsOK_def agreeAt_def)
  note here = assms(5,6) [unfolded nodes]
  have same: "drop depth full = drop depth (tp_path n) \<longleftrightarrow> tp_path n = full"
    using pre by (metis append_take_drop_id)
  consider "rest = []" | "rest \<noteq> []" "depth < sharedEnd (tp_path n) rest depth" | "rest \<noteq> []" "\<not> depth < sharedEnd (tp_path n) rest depth"
    by blast
  then show ?thesis
  proof cases
    case 1
    have "walk m (Suc k) ref (drop depth full) = Inr (if drop depth full = drop depth (tp_path n) then Some (tp_value n) else None)"
      using here nib unfolding 1 by (rule walk_leaf [where m = m and ref = ref])
    then show ?thesis
      using same by (auto simp: nodes 1 entryAt_def simp del: walk.simps)
  next
    case 2
    let ?e = "sharedEnd (tp_path n) rest depth"
    note step = walk_extension [where m = m and ref = ref and k = k and q = "drop depth full", OF here nib 2(1) refl 2(2) assms(7)]
    have agree: "take ?e (tp_path n') = take ?e (tp_path n)" if "n' \<in> set nodes" for n'
      using that pathsOK_agree [OF pathsOK_extension, of n rest depth n' n] assms(1) by (simp add: nodes)
    have ends: "take ?e full = take depth full @ take (?e - depth) (drop depth full)"
      "take ?e (tp_path n) = take depth (tp_path n) @ take (?e - depth) (drop depth (tp_path n))"
      using take_add [of depth "?e - depth" full] take_add [of depth "?e - depth" "tp_path n"] 2(2) by simp_all
    show ?thesis
    proof (cases "take (?e - depth) (drop depth full) = take (?e - depth) (drop depth (tp_path n))")
      case True
      then have "agreeAt nodes ?e full"
        using agree ends pre by (auto simp: agreeAt_def)
      moreover have "subtrie root nodes ?e"
        using subtrie.extension [OF assms(8) [unfolded nodes] 2(1) refl 2(2)] by (simp add: nodes)
      moreover have "?e \<le> length full"
        using shared_length [OF 2(2), of n] len by simp
      moreover have "drop (?e - depth) (drop depth full) = drop ?e full"
        using 2(2) by simp
      ultimately show ?thesis
        using True 2(2) by (intro disjI2 exI [of _ nodes] exI [of _ ?e]) (simp add: step nodes del: walk.simps)
    next
      case False
      then have "take ?e full \<noteq> take ?e (tp_path n)"
        using ends pre by auto
      then have "entryAt nodes full = None"
        using agree by (intro entryAt_None) force
      with False show ?thesis
        by (intro disjI1) (simp add: step del: walk.simps)
    qed
  next
    case 3
    have "depth < length full"
    proof (rule ccontr)
      assume "\<not> depth < length full"
      then have "tp_path n' = full" if "n' \<in> set nodes" for n'
        using bspec [OF assms(2) that] bspec [OF assms(3) [unfolded agreeAt_def] that] by simp
      then have "tp_path (hd rest) = tp_path n"
        using 3(1) by (simp add: nodes)
      moreover have "tp_path n \<notin> tp_path ` set rest"
        using assms(1) by (simp add: nodes pathsOK_def)
      ultimately show False
        using 3(1) by (metis hd_in_set imageI)
    qed
    then obtain c q where c: "drop depth full = c # q" "c = full ! depth" "q = drop (Suc depth) full"
      using Cons_nth_drop_Suc [of depth full] by metis
    have "nibble c"
      using assms(4) c(2) \<open>depth < length full\<close> by (simp add: list_all_length)
    note step = walk_branch [where m = m and ref = ref and k = k and q = q, OF here 3 \<open>nibble c\<close> assms(7)]
    let ?g = "groupOf (n # rest) depth (unat c)"
    have entry: "entryAt ?g full = entryAt nodes full"
      using entryAt_group [of depth full "unat c" nodes] \<open>depth < length full\<close> c(2) by (simp add: nodes)
    show ?thesis
    proof (cases "?g = []")
      case True
      then have "entryAt nodes full = None"
        using entry by (simp add: entryAt_def)
      with True show ?thesis
        by (intro disjI1) (simp add: step c(1) del: walk.simps)
    next
      case False
      have "unat c < 16"
        using \<open>nibble c\<close> by (simp add: nibble_def word_less_nat_alt)
      then have "subtrie root ?g (Suc depth)"
        using subtrie.branch [OF assms(8) [unfolded nodes] 3 _ False] by blast
      moreover have "agreeAt ?g (Suc depth) full"
        using assms(3) c(2) \<open>depth < length full\<close> by (auto simp: agreeAt_def groupOf_def nodes take_Suc_conv_app_nth)
      moreover have "walk m (Suc k) ref (drop depth full) = childStep kec m k ?g (Suc depth) (drop (Suc depth) full)"
        using step False unfolding c(1) c(3) [symmetric] by (simp only: if_False)
      ultimately show ?thesis
        using entry \<open>depth < length full\<close> by (metis Suc_leI lessI)
    qed
  qed
qed

subsection \<open>What a proof proves\<close>

lemma byHash_Some: "byHashOf kec nodes r = Some node \<Longrightarrow> node \<in> set nodes \<and> kec node = r"
  unfolding byHashOf_def by (induction nodes rule: rev_induct) (auto simp: Keccak256_def split: if_splits)

lemma byHash_in: "node \<in> set nodes \<Longrightarrow> \<exists>node'. byHashOf kec nodes (kec node) = Some node'"
  unfolding byHashOf_def by (induction nodes rule: rev_induct) (auto simp: Keccak256_def)

lemma byHash_known: "inj_on kec S \<Longrightarrow> set nodes \<subseteq> S \<Longrightarrow> node \<in> S \<Longrightarrow> byHashOf kec nodes (kec node) \<in> {None, Some node}"
  by (cases "byHashOf kec nodes (kec node)") (auto dest!: byHash_Some dest: inj_onD)

lemma walk_unique:
  assumes "inj_on kec (set p \<union> set p')"
  shows "walk (byHashOf kec p) k ref path = Inr v \<Longrightarrow> walk (byHashOf kec p') k ref path = Inr v' \<Longrightarrow> v = v'"
proof (induction k arbitrary: ref path)
  case (Suc k)
  from Suc.prems obtain raw raw' where raw: "byHashOf kec p ref = Some raw" "byHashOf kec p' ref = Some raw'"
    by (auto split: option.splits)
  then have same: "raw' = raw"
    using assms by (auto dest!: byHash_Some dest: inj_onD)
  obtain item where item: "nodeItem raw = Inr item"
    using Suc.prems(1) raw by (cases "nodeItem raw") auto
  show ?case
    using Suc.prems Suc.IH raw item same
    by (auto simp: Let_def bindR_Inr split: if_splits prod.splits)
qed simp

lemma walk_sound:
  assumes "pathsOK root 0" "\<forall>n \<in> set root. length (tp_path n) = length full" "list_all nibble full" "\<And>x. length (kec x) = 32"
    and "\<And>nodes depth. subtrie root nodes depth \<Longrightarrow> length (encodeTrieSubtree kec nodes depth) < 2 ^ 62 \<and>
      m (kec (encodeTrieSubtree kec nodes depth)) \<in> {None, Some (encodeTrieSubtree kec nodes depth)}"
  shows "subtrie root nodes depth \<Longrightarrow> agreeAt nodes depth full \<Longrightarrow>
    walk m k (kec (encodeTrieSubtree kec nodes depth)) (drop depth full) = Inr v \<Longrightarrow> v = entryAt nodes full"
proof (induction k arbitrary: nodes depth)
  case (Suc k)
  let ?E = "encodeTrieSubtree kec nodes depth"
  have "m (kec ?E) = Some ?E"
    using assms(5) [OF Suc.prems(1)] Suc.prems(3) by auto
  moreover have "\<forall>n \<in> set nodes. length (tp_path n) = length full"
    using assms(2) subtrie_subset [OF Suc.prems(1)] by blast
  ultimately consider "walk m (Suc k) (kec ?E) (drop depth full) = Inr (entryAt nodes full)"
    | nodes' depth' where "subtrie root nodes' depth'" "agreeAt nodes' depth' full" "entryAt nodes' full = entryAt nodes full"
      "walk m (Suc k) (kec ?E) (drop depth full) = childStep kec m k nodes' depth' (drop depth' full)"
    using walk_step [of nodes depth full m "kec ?E" kec root k] pathsOK_subtrie [OF Suc.prems(1) assms(1)]
      Suc.prems(1,2) assms(3-5) by blast
  then show ?case
  proof cases
    case 2
    then show ?thesis
      using Suc.prems(3) Suc.IH [OF 2(1,2)] by (auto simp: childStep_def simp del: walk.simps split: if_splits)
  qed (use Suc.prems(3) in simp)
qed simp

lemma walk_complete:
  assumes "pathsOK root 0" "\<forall>n \<in> set root. length (tp_path n) = length full" "list_all nibble full" "\<And>x. length (kec x) = 32"
    and "\<And>nodes depth. subtrie root nodes depth \<Longrightarrow> length (encodeTrieSubtree kec nodes depth) < 2 ^ 62 \<and>
      m (kec (encodeTrieSubtree kec nodes depth)) = Some (encodeTrieSubtree kec nodes depth) \<and>
      (0 < depth \<longrightarrow> 32 \<le> length (encodeTrieSubtree kec nodes depth))"
  shows "subtrie root nodes depth \<Longrightarrow> agreeAt nodes depth full \<Longrightarrow> depth \<le> length full \<Longrightarrow> length full < k + depth \<Longrightarrow>
    walk m k (kec (encodeTrieSubtree kec nodes depth)) (drop depth full) = Inr (entryAt nodes full)"
proof (induction k arbitrary: nodes depth)
  case (Suc k)
  let ?E = "encodeTrieSubtree kec nodes depth"
  have "\<forall>n \<in> set nodes. length (tp_path n) = length full"
    using assms(2) subtrie_subset [OF Suc.prems(1)] by blast
  then consider "walk m (Suc k) (kec ?E) (drop depth full) = Inr (entryAt nodes full)"
    | nodes' depth' where "subtrie root nodes' depth'" "agreeAt nodes' depth' full" "entryAt nodes' full = entryAt nodes full"
      "depth < depth'" "depth' \<le> length full"
      "walk m (Suc k) (kec ?E) (drop depth full) = childStep kec m k nodes' depth' (drop depth' full)"
    using walk_step [of nodes depth full m "kec ?E" kec root k] pathsOK_subtrie [OF Suc.prems(1) assms(1)]
      Suc.prems(1,2) assms(3-5) by blast
  then show ?case
  proof cases
    case 2
    then show ?thesis
      using Suc.prems(4) Suc.IH [OF 2(1,2,5)] assms(5) [OF 2(1)] by (simp add: childStep_def del: walk.simps)
  qed simp
qed simp

definition secureEntries :: "TrieEntry list \<Rightarrow> bool" where
  \<comment> \<open>what a secure trie holds: different keys of 32 bytes\<close>
  "secureEntries entries \<longleftrightarrow> distinct (map te_Key entries) \<and> (\<forall>e \<in> set entries. length (te_Key e) = 32)"

definition smallNodes :: "bytes set \<Rightarrow> bool" where
  "smallNodes S \<longleftrightarrow> (\<forall>node \<in> S. length node < 2 ^ 62)"

definition entryOf :: "TrieEntry list \<Rightarrow> bytes \<Rightarrow> bytes option" where
  "entryOf entries key = map_of (map (\<lambda>e. (te_Key e, te_Value e)) entries) key"

lemma set_triePaths: "set (triePaths entries) = (\<lambda>e. \<lparr> tp_path = nibbles (te_Key e), tp_value = te_Value e \<rparr>) ` set entries"
  by (simp add: triePaths_def)

lemma distinct_triePaths: "distinct (map te_Key entries) \<Longrightarrow> distinct (map tp_path (triePaths entries))"
proof -
  assume d: "distinct (map te_Key entries)"
  then have "distinct (map (\<lambda>e. \<lparr> tp_path = nibbles (te_Key e), tp_value = te_Value e \<rparr>) entries)"
    by (auto simp: distinct_map inj_on_def dest!: nibbles_inj)
  then have "distinct (triePaths entries)"
    by (simp add: triePaths_def)
  moreover have "inj_on tp_path (set (triePaths entries))"
    using d by (auto simp: set_triePaths distinct_map inj_on_def dest!: nibbles_inj)
  ultimately show ?thesis
    by (simp add: distinct_map)
qed

lemma pathsOK_triePaths: "distinct (map te_Key entries) \<Longrightarrow> entries \<noteq> [] \<Longrightarrow> pathsOK (triePaths entries) 0"
  using distinct_triePaths [of entries] nibbles_nibble set_triePaths [of entries]
  unfolding pathsOK_def by (auto simp flip: set_empty)

lemma entryAt_triePaths:
  assumes "distinct (map te_Key entries)"
  shows "entryAt (triePaths entries) (nibbles key) = entryOf entries key"
proof -
  have "entryAt (triePaths entries) (nibbles key) = Some v \<longleftrightarrow> entryOf entries key = Some v" for v
  proof -
    have "entryAt (triePaths entries) (nibbles key) = Some v \<longleftrightarrow> (nibbles key, v) \<in> set (map (\<lambda>n. (tp_path n, tp_value n)) (triePaths entries))"
      unfolding entryAt_def using distinct_triePaths [OF assms] by (intro map_of_eq_Some_iff) (simp add: comp_def)
    also have "\<dots> \<longleftrightarrow> (key, v) \<in> set (map (\<lambda>e. (te_Key e, te_Value e)) entries)"
      using nibbles_inj by (force simp: set_triePaths)
    also have "\<dots> \<longleftrightarrow> entryOf entries key = Some v"
      unfolding entryOf_def using assms by (intro map_of_eq_Some_iff [symmetric]) (simp add: comp_def)
    finally show ?thesis .
  qed
  then show ?thesis
    by (metis not_Some_eq option.exhaust)
qed

definition demoKec :: hasher where "demoKec x = replicate 32 (of_nat (length x))"

definition demoEntries :: "TrieEntry list" where "demoEntries = [\<lparr> te_Key = replicate 32 1, te_Value = [5] \<rparr>]"

definition demoNode :: bytes where
  "demoNode = EncodeRLPList [EncodeRLPBytes (0x20 # replicate 32 1), EncodeRLPBytes [5]]"

lemma demo_encode: "encodeTrieSubtree kec (triePaths demoEntries) 0 = demoNode"
proof -
  have "packHexPrefix (nibbles (replicate 32 1)) True = 0x20 # replicate 32 1"
    by (simp add: packHexPrefix_def packPairs_nibbles)
  then show ?thesis
    by (subst encodeTrieSubtree.simps) (simp add: triePaths_def demoEntries_def insort_key.simps leafNode_def demoNode_def)
qed

lemma demo_subtrie: "subtrie (triePaths demoEntries) ns depth \<Longrightarrow> ns = triePaths demoEntries \<and> depth = 0"
  by (induction rule: subtrie.induct) (auto simp: triePaths_def demoEntries_def)

lemma demo_trieNodes: "trieNodes kec demoEntries = {demoNode}"
proof -
  have "{encodeTrieSubtree kec ns depth | ns depth. subtrie (triePaths demoEntries) ns depth} = {demoNode}"
    using demo_subtrie subtrie.root [of "triePaths demoEntries"] demo_encode [of kec] by (auto; metis)
  then show ?thesis
    by (simp add: trieNodes_def demoEntries_def)
qed

lemma demo_secure: "secureEntries demoEntries" "smallNodes {demoNode}" "demoEntries \<noteq> []"
  by (simp_all add: secureEntries_def smallNodes_def demoEntries_def demoNode_def EncodeRLPList_def EncodeRLPBytes_def rlpLengthPrefix_def)

lemma demo_verifies: "VerifyProof demoKec (BuildMPT demoKec demoEntries) [9] [demoNode] = Inr (Some [5])"
proof -
  have "nodeItem demoNode = Inr (RlpList [RlpBytes (0x20 # replicate 32 1), RlpBytes [5]])"
    using DecodeRLP_encoded [of "RlpList [RlpBytes (0x20 # replicate 32 1), RlpBytes [5]]"] demo_secure(2)
    by (simp add: nodeItem_def demoNode_def smallNodes_def)
  moreover have "hexPrefix (0x20 # replicate 32 1) = Inr (nibbles (replicate 32 1), True)"
    by (simp add: hexPrefix_def nibbles_def Let_def)
  moreover have "BuildMPT demoKec demoEntries = demoKec demoNode"
    using demo_encode demo_secure(3) by (simp add: BuildMPT_def Keccak256_def)
  ultimately show ?thesis
    by (simp add: VerifyProof_def maxNodes_def eval_nat_numeral byHashOf_def Keccak256_def demoKec_def Let_def valueOf_def)
qed

text \<open>
  A root answers a key once. Two proofs that verify against one root for one key give the same value, or
  the same absence, whoever made them, as long as the hash separates the nodes of the two.
\<close>

theorem proof_unique:
  assumes "VerifyProof kec root key p = Inr v" "VerifyProof kec root key p' = Inr v'" "inj_on kec (set p \<union> set p')"
  shows "v = v'"
  using assms walk_unique [OF assms(3)] by (auto simp: VerifyProof_def split: if_splits)

lemma proof_unique_witness:
  "VerifyProof demoKec (BuildMPT demoKec demoEntries) [9] [demoNode] = Inr (Some [5]) \<and>
   VerifyProof demoKec (BuildMPT demoKec demoEntries) [9] [demoNode, demoNode] \<noteq> Inr None"
  using demo_verifies proof_unique [OF demo_verifies, where p' = "[demoNode, demoNode]" and v' = None] by auto

text \<open>
  (C9) A verified proof tells what the trie holds. Whatever nodes a provider sends, if they verify against the
  root that \<^verbatim>\<open>BuildMPT\<close> computes for a set of entries, the answer is the value of the entry under the hashed key,
  or absence when there is none, as long as the hash separates the nodes sent and the nodes of the trie.
\<close>

theorem proof_tells_trie:
  assumes "secureEntries entries" "\<And>x. length (kec x) = 32" "inj_on kec (set nodes \<union> trieNodes kec entries)"
    and "smallNodes (trieNodes kec entries)" "VerifyProof kec (BuildMPT kec entries) key nodes = Inr v"
  shows "v = entryOf entries (kec key)"
proof (cases "entries = []")
  case True
  then have "byHashOf kec nodes (kec [0x80]) \<in> {None, Some [0x80]}"
    using byHash_known [OF assms(3) Un_upper1, of "[0x80]"] by (simp add: trieNodes_def)
  moreover have "nodeItem [0x80] = Inl ErrProofInvalid"
    using DecodeRLP_encoded [of "RlpBytes []"] by (simp add: nodeItem_def EncodeRLPBytes_Nil)
  ultimately show ?thesis
    using assms(5) True by (auto simp: VerifyProof_def BuildMPT_def EmptyTrieRoot_def Keccak256_def maxNodes_def eval_nat_numeral split: if_splits)
next
  case False
  let ?root = "triePaths entries" and ?full = "nibbles (kec key)"
  have d: "distinct (map te_Key entries)" "\<forall>n \<in> set ?root. length (tp_path n) = length ?full"
    using assms(1,2) by (auto simp: secureEntries_def set_triePaths)
  have nodes: "length (encodeTrieSubtree kec ns depth) < 2 ^ 62 \<and>
      byHashOf kec nodes (kec (encodeTrieSubtree kec ns depth)) \<in> {None, Some (encodeTrieSubtree kec ns depth)}"
    if "subtrie ?root ns depth" for ns depth
  proof -
    have "encodeTrieSubtree kec ns depth \<in> trieNodes kec entries"
      using that False by (auto simp: trieNodes_def)
    then show ?thesis
      using assms(4) byHash_known [OF assms(3), of nodes "encodeTrieSubtree kec ns depth"] by (simp add: smallNodes_def)
  qed
  have "walk (byHashOf kec nodes) maxNodes (kec (encodeTrieSubtree kec ?root 0)) (drop 0 ?full) = Inr v"
    using assms(5) False by (simp add: VerifyProof_def BuildMPT_def Keccak256_def del: walk.simps split: if_splits)
  then have "v = entryAt ?root ?full"
    using walk_sound [OF pathsOK_triePaths [OF d(1) False] d(2) nibbles_nibble assms(2) nodes subtrie.root]
    by (simp add: agreeAt_def)
  then show ?thesis
    by (simp add: entryAt_triePaths [OF d(1)])
qed

lemma proof_tells_trie_witness:
  "VerifyProof demoKec (BuildMPT demoKec demoEntries) [9] [demoNode] = Inr (Some [5]) \<and> entryOf demoEntries (demoKec [9]) = Some [5]"
  using proof_tells_trie [OF demo_secure(1) _ _ _ demo_verifies] demo_verifies demo_secure(2) demo_trieNodes
  by (simp add: demoKec_def)

text \<open>
  (C36) The nodes of a trie prove it. Given all nodes of a trie with at least one entry, none of which is so
  small that its parent holds it inline, \<^verbatim>\<open>VerifyProof\<close> answers every key: it never runs out of nodes, and its
  bound of 65 rounds is enough for the 64 nibbles of a hashed key.
\<close>

theorem trie_proves_entries:
  assumes "secureEntries entries" "entries \<noteq> []" "\<And>x. length (kec x) = 32" "inj_on kec (set nodes)"
    and "trieNodes kec entries \<subseteq> set nodes" "smallNodes (trieNodes kec entries)"
    and "\<And>ns depth. subtrie (triePaths entries) ns depth \<Longrightarrow> 0 < depth \<Longrightarrow> 32 \<le> length (encodeTrieSubtree kec ns depth)"
  shows "VerifyProof kec (BuildMPT kec entries) key nodes = Inr (entryOf entries (kec key))"
proof -
  let ?root = "triePaths entries" and ?full = "nibbles (kec key)"
  have d: "distinct (map te_Key entries)" "\<forall>n \<in> set ?root. length (tp_path n) = length ?full"
    using assms(1,3) by (auto simp: secureEntries_def set_triePaths)
  have nodes: "length (encodeTrieSubtree kec ns depth) < 2 ^ 62 \<and>
      byHashOf kec nodes (kec (encodeTrieSubtree kec ns depth)) = Some (encodeTrieSubtree kec ns depth) \<and>
      (0 < depth \<longrightarrow> 32 \<le> length (encodeTrieSubtree kec ns depth))"
    if "subtrie ?root ns depth" for ns depth
  proof -
    have "encodeTrieSubtree kec ns depth \<in> trieNodes kec entries"
      using that assms(2) by (auto simp: trieNodes_def)
    then show ?thesis
      using assms(5,6) assms(7) [OF that] byHash_known [OF assms(4), of nodes "encodeTrieSubtree kec ns depth"]
        byHash_in [of "encodeTrieSubtree kec ns depth" nodes kec] by (fastforce simp: smallNodes_def)
  qed
  have "walk (byHashOf kec nodes) maxNodes (kec (encodeTrieSubtree kec ?root 0)) (drop 0 ?full) = Inr (entryAt ?root ?full)"
    by (rule walk_complete [OF pathsOK_triePaths [OF d(1) assms(2)] d(2) nibbles_nibble assms(3) nodes subtrie.root])
      (simp_all add: agreeAt_def assms(3) maxNodes_def)
  then show ?thesis
    using assms(2,3) by (simp add: VerifyProof_def BuildMPT_def Keccak256_def entryAt_triePaths [OF d(1)] del: walk.simps)
qed

lemma trie_proves_entries_witness: "VerifyProof demoKec (BuildMPT demoKec demoEntries) [9] [demoNode] = Inr (Some [5])"
proof -
  have "demoKec [9] = replicate 32 1"
    by (simp add: demoKec_def)
  then show ?thesis
    using trie_proves_entries [of demoEntries demoKec "[demoNode]" "[9]"] demo_secure demo_trieNodes demo_subtrie
    by (fastforce simp: demoKec_def entryOf_def demoEntries_def)
qed

subsection \<open>Two entries under one key\<close>

lemma sharedEnd_same: "sharedEnd p [\<lparr> tp_path = p, tp_value = w \<rparr>] i = max i (length p)"
  by (induction p "[\<lparr> tp_path = p, tp_value = w \<rparr>]" i rule: sharedEnd.induct) (subst sharedEnd.simps, auto)

lemma encode_pair_end:
  "encodeTrieSubtree kec [\<lparr> tp_path = p, tp_value = v \<rparr>, \<lparr> tp_path = p, tp_value = w \<rparr>] (length p)
   = EncodeRLPList (replicate 16 [0x80] @ [EncodeRLPBytes w])"
  by (subst encodeTrieSubtree.simps) (simp add: sharedEnd_same groupOf_def endingHere_def Let_def eval_nat_numeral)

lemma encode_pair_start:
  "p \<noteq> [] \<Longrightarrow> encodeTrieSubtree kec [\<lparr> tp_path = p, tp_value = v \<rparr>, \<lparr> tp_path = p, tp_value = w \<rparr>] 0 =
     EncodeRLPList [EncodeRLPBytes (packHexPrefix p False),
       trieNodeRef kec (encodeTrieSubtree kec [\<lparr> tp_path = p, tp_value = v \<rparr>, \<lparr> tp_path = p, tp_value = w \<rparr>] (length p))]"
  by (subst encodeTrieSubtree.simps) (simp add: sharedEnd_same Let_def)

text \<open>
  Two entries under one key are merged without a trace: the value of the first has no part in the root, which
  the comment on \<^verbatim>\<open>BuildMPT\<close> says does not happen.
\<close>

theorem duplicate_key_merged:
  "BuildMPT kec [\<lparr> te_Key = k, te_Value = v \<rparr>, \<lparr> te_Key = k, te_Value = w \<rparr>]
   = BuildMPT kec [\<lparr> te_Key = k, te_Value = v' \<rparr>, \<lparr> te_Key = k, te_Value = w \<rparr>]"
proof -
  let ?p = "nibbles k"
  let ?pair = "\<lambda>v. [\<lparr> tp_path = ?p, tp_value = v \<rparr>, \<lparr> tp_path = ?p, tp_value = w \<rparr>]"
  have "encodeTrieSubtree kec (?pair v) 0 = encodeTrieSubtree kec (?pair v') 0"
  proof (cases "?p = []")
    case True
    then show ?thesis
      using encode_pair_end [of kec ?p v w] encode_pair_end [of kec ?p v' w] by simp
  next
    case False
    then show ?thesis
      by (simp only: encode_pair_start encode_pair_end not_False_eq_True)
  qed
  then show ?thesis
    by (simp add: BuildMPT_def triePaths_def insort_key.simps)
qed

end
