(* ===== verification/Trie_Root.thy ===== *)
theory Trie_Root
  imports Trie
begin

text \<open>
  What a trie root says, for the roots that are rebuilt rather than proven into (\<^verbatim>\<open>triebuild.go\<close>, used by
  \<^verbatim>\<open>receipts.go\<close>): two sets of entries with one root are equal. The keys may have any length here.
\<close>

definition relPaths :: "nat \<Rightarrow> triePath list \<Rightarrow> (bytes \<times> bytes) set" where
  "relPaths depth nodes = (\<lambda>n. (drop depth (tp_path n), tp_value n)) ` set nodes"

definition prefixed :: "bytes \<Rightarrow> (bytes \<times> bytes) set \<Rightarrow> (bytes \<times> bytes) set" where
  "prefixed x S = (\<lambda>(q, v). (x @ q, v)) ` S"

lemma pathsOK_length: "pathsOK nodes depth \<Longrightarrow> n \<in> set nodes \<Longrightarrow> depth \<le> length (tp_path n)"
  by (auto simp: pathsOK_def min_def split: if_splits) (metis length_take min_def nat_le_linear)

lemma relPaths_extension:
  assumes "pathsOK (n # rest) e" "depth \<le> e"
  shows "relPaths depth (n # rest) = prefixed (take (e - depth) (drop depth (tp_path n))) (relPaths e (n # rest))"
proof -
  have "drop depth (tp_path m) = take (e - depth) (drop depth (tp_path n)) @ drop e (tp_path m)" if "m \<in> set (n # rest)" for m
  proof -
    have "drop depth (take e (tp_path m)) = drop depth (take e (tp_path n))"
      using pathsOK_agree [OF assms(1) that, of n] by simp
    then have "take (e - depth) (drop depth (tp_path m)) = take (e - depth) (drop depth (tp_path n))"
      by (simp add: drop_take)
    moreover have "drop e (tp_path m) = drop (e - depth) (drop depth (tp_path m))"
      using assms(2) by simp
    ultimately show ?thesis
      by (metis append_take_drop_id)
  qed
  then show ?thesis
    unfolding relPaths_def prefixed_def by (simp add: image_image del: set_simps)
qed

definition endValue :: "triePath list \<Rightarrow> nat \<Rightarrow> bytes" where
  "endValue nodes depth = (if endingHere nodes depth = [] then [] else tp_value (last (endingHere nodes depth)))"

lemma endingHere_one: "pathsOK nodes depth \<Longrightarrow> n \<in> set (endingHere nodes depth) \<Longrightarrow> n = last (endingHere nodes depth)"
proof -
  assume ok: "pathsOK nodes depth" and n: "n \<in> set (endingHere nodes depth)"
  let ?l = "last (endingHere nodes depth)"
  have l: "?l \<in> set (endingHere nodes depth)"
    using n by (intro last_in_set) auto
  then have "tp_path n = tp_path ?l"
    using n pathsOK_agree [OF ok, of n ?l] by (simp add: endingHere_def)
  moreover have "inj_on tp_path (set nodes)"
    using ok by (simp add: pathsOK_def distinct_map)
  ultimately show ?thesis
    using n l by (auto simp: endingHere_def dest: inj_onD)
qed

lemma relPaths_branch:
  assumes "pathsOK nodes depth" "\<forall>n \<in> set nodes. tp_value n \<noteq> []"
  shows "relPaths depth nodes =
    (\<Union>i < 16. prefixed [of_nat i] (relPaths (Suc depth) (groupOf nodes depth i))) \<union>
    (if endValue nodes depth = [] then {} else {([], endValue nodes depth)})" (is "?L = ?R")
proof
  show "?L \<subseteq> ?R"
  proof
    fix qv assume "qv \<in> ?L"
    then obtain n where n: "n \<in> set nodes" "qv = (drop depth (tp_path n), tp_value n)"
      by (auto simp: relPaths_def)
    show "qv \<in> ?R"
    proof (cases "length (tp_path n) = depth")
      case True
      then have e: "n \<in> set (endingHere nodes depth)"
        using n(1) by (simp add: endingHere_def)
      then have "endValue nodes depth = tp_value n"
        using endingHere_one [OF assms(1) e] by (auto simp: endValue_def)
      then show ?thesis
        using n assms(2) True by auto
    next
      case False
      then have d: "depth < length (tp_path n)"
        using pathsOK_length [OF assms(1) n(1)] by simp
      let ?i = "unat (tp_path n ! depth)"
      have "nibble (tp_path n ! depth)"
        using assms(1) n(1) d by (auto simp: pathsOK_def list_all_iff)
      then have "?i < 16"
        by (simp add: nibble_def word_less_nat_alt)
      moreover have "n \<in> set (groupOf nodes depth ?i)"
        using n(1) d by (simp add: groupOf_def)
      moreover have "drop depth (tp_path n) = [of_nat ?i] @ drop (Suc depth) (tp_path n)"
        using d by (simp add: Cons_nth_drop_Suc)
      ultimately show ?thesis
        unfolding n(2) prefixed_def relPaths_def by force
    qed
  qed
  show "?R \<subseteq> ?L"
  proof
    fix qv assume "qv \<in> ?R"
    then consider i n where "n \<in> set (groupOf nodes depth i)" "qv = (of_nat i # drop (Suc depth) (tp_path n), tp_value n)"
      | "endValue nodes depth \<noteq> []" "qv = ([], endValue nodes depth)"
      by (auto simp: prefixed_def relPaths_def split: if_splits)
    then show "qv \<in> ?L"
    proof cases
      case 1
      then have "drop depth (tp_path n) = of_nat i # drop (Suc depth) (tp_path n)" "n \<in> set nodes"
        by (auto simp: groupOf_def Cons_nth_drop_Suc [symmetric])
      with 1 show ?thesis
        unfolding relPaths_def by (intro image_eqI [of _ _ n]) simp_all
    next
      case 2
      then have "endingHere nodes depth \<noteq> []"
        by (auto simp: endValue_def)
      then have "last (endingHere nodes depth) \<in> set (endingHere nodes depth)"
        by (rule last_in_set)
      with 2 show ?thesis
        by (auto simp: relPaths_def endValue_def endingHere_def intro!: rev_image_eqI split: if_splits)
    qed
  qed
qed

subsection \<open>Equal items\<close>

lemma hexPrefix_inj:
  "list_all nibble p \<Longrightarrow> list_all nibble q \<Longrightarrow> packHexPrefix p a = packHexPrefix q b \<Longrightarrow> p = q \<and> a = b"
  by (metis hexPrefix_pack prod.inject sum.inject(2))

definition itemsApart :: "hasher \<Rightarrow> rlpItem set \<Rightarrow> bool" where
  \<comment> \<open>small enough to be read, and told apart by their hashes\<close>
  "itemsApart kec S \<longleftrightarrow> inj_on kec (rlpEnc ` S) \<and> (\<forall>x \<in> S. length (rlpEnc x) < 2 ^ 62)"

lemma itemsApartD:
  assumes "itemsApart kec S" "x \<in> S" "y \<in> S" "kec (rlpEnc x) = kec (rlpEnc y)"
  shows "x = y"
proof -
  have "rlpEnc x = rlpEnc y"
    using assms by (auto simp: itemsApart_def dest: inj_onD)
  then show ?thesis
    using assms(1,2) by (intro rlpEnc_inj) (auto simp: itemsApart_def)
qed

lemma refItem_inj:
  assumes "itemsApart kec S" "x \<in> S" "y \<in> S" "IsList x" "IsList y" "refItem kec x = refItem kec y"
  shows "x = y"
proof (cases "length (rlpEnc x) < 32"; cases "length (rlpEnc y) < 32")
  assume "\<not> length (rlpEnc x) < 32" "\<not> length (rlpEnc y) < 32"
  then show ?thesis
    using assms(6) itemsApartD [OF assms(1-3)] by (simp add: refItem_def)
qed (use assms(4-6) in \<open>auto simp: refItem_def\<close>)

definition trieItems :: "hasher \<Rightarrow> triePath list \<Rightarrow> rlpItem set" where
  "trieItems kec root = {trieItem kec nodes depth | nodes depth. subtrie root nodes depth}"

lemma in_trieItems: "subtrie root nodes depth \<Longrightarrow> trieItem kec nodes depth \<in> trieItems kec root"
  by (auto simp: trieItems_def)

definition slot :: "hasher \<Rightarrow> triePath list \<Rightarrow> nat \<Rightarrow> rlpItem" where
  "slot kec g d = (if g = [] then RlpBytes [] else refItem kec (trieItem kec g d))"

lemma slot_not_empty:
  assumes "\<And>x. length (kec x) = 32" "h \<noteq> []"
  shows "slot kec h e \<noteq> RlpBytes []"
proof
  assume "slot kec h e = RlpBytes []"
  with assms(2) have "refItem kec (trieItem kec h e) = RlpBytes []"
    by (simp add: slot_def)
  then show False
    using refItem_not_empty [where kec = kec, OF assms(2) assms(1), of e] by simp
qed

lemma slot_inj:
  assumes "itemsApart kec S" "\<And>x. length (kec x) = 32" "g \<noteq> [] \<Longrightarrow> trieItem kec g d \<in> S" "g' \<noteq> [] \<Longrightarrow> trieItem kec g' d' \<in> S"
    and "slot kec g d = slot kec g' d'"
  shows "g = [] \<and> g' = [] \<or> g \<noteq> [] \<and> g' \<noteq> [] \<and> trieItem kec g d = trieItem kec g' d'"
proof (cases "g = []"; cases "g' = []")
  assume ne: "g \<noteq> []" "g' \<noteq> []"
  then have "refItem kec (trieItem kec g d) = refItem kec (trieItem kec g' d')"
    using assms(5) by (simp add: slot_def)
  from refItem_inj [OF assms(1) assms(3) [OF ne(1)] assms(4) [OF ne(2)] _ _ this] ne show ?thesis
    by (simp add: IsList_trieItem)
next
  assume "g = []" "g' \<noteq> []"
  then show ?thesis
    using assms(5) slot_not_empty [where kec = kec, OF assms(2), of g' d'] by (simp add: slot_def)
next
  assume "g \<noteq> []" "g' = []"
  then show ?thesis
    using assms(5) slot_not_empty [where kec = kec, OF assms(2), of g d] by (simp add: slot_def)
qed simp

text \<open>The three shapes of a node.\<close>

definition leafAt :: "hasher \<Rightarrow> triePath list \<Rightarrow> nat \<Rightarrow> bool" where
  "leafAt kec nodes depth \<longleftrightarrow> (\<exists>n. nodes = [n] \<and> trieItem kec nodes depth =
     RlpList [RlpBytes (packHexPrefix (drop depth (tp_path n)) True), RlpBytes (tp_value n)])"

definition extAt :: "hasher \<Rightarrow> triePath list \<Rightarrow> nat \<Rightarrow> bool" where
  "extAt kec nodes depth \<longleftrightarrow> (\<exists>n rest e. nodes = n # rest \<and> rest \<noteq> [] \<and> e = sharedEnd (tp_path n) rest depth \<and> depth < e \<and>
     trieItem kec nodes depth = RlpList [RlpBytes (packHexPrefix (take (e - depth) (drop depth (tp_path n))) False), slot kec nodes e])"

definition branchNodeAt :: "hasher \<Rightarrow> triePath list \<Rightarrow> nat \<Rightarrow> bool" where
  "branchNodeAt kec nodes depth \<longleftrightarrow> (\<exists>n rest. nodes = n # rest \<and> rest \<noteq> [] \<and> \<not> depth < sharedEnd (tp_path n) rest depth \<and>
     trieItem kec nodes depth = RlpList (map (\<lambda>i. slot kec (groupOf nodes depth i) (Suc depth)) [0..<16] @ [RlpBytes (endValue nodes depth)]))"

lemma trie_shapes: "nodes \<noteq> [] \<Longrightarrow> leafAt kec nodes depth \<or> extAt kec nodes depth \<or> branchNodeAt kec nodes depth"
proof -
  assume "nodes \<noteq> []"
  then obtain n rest where nodes: "nodes = n # rest"
    by (cases nodes) auto
  show ?thesis
  proof (cases "rest = []")
    case True
    then show ?thesis by (simp add: nodes leafAt_def trieItem_leaf)
  next
    case False
    show ?thesis
    proof (cases "depth < sharedEnd (tp_path n) rest depth")
      case True
      then have "extAt kec nodes depth"
        using False trieItem_extension [OF False refl True, of kec] by (simp add: extAt_def nodes slot_def)
      then show ?thesis by simp
    next
      case branch: False
      have "branchNodeAt kec nodes depth"
        using False branch trieItem_branch [OF False branch, of kec]
        by (simp add: branchNodeAt_def nodes slot_def endValue_def if_distrib [of RlpBytes] del: upt_Suc cong: map_cong)
      then show ?thesis by simp
    qed
  qed
qed

subsection \<open>One root, one set of entries\<close>

lemma itemsApart_sub: "itemsApart kec S \<Longrightarrow> T \<subseteq> S \<Longrightarrow> itemsApart kec T"
  unfolding itemsApart_def by (meson image_mono inj_on_subset subset_iff)

lemma nibbles_take_drop: "list_all nibble p \<Longrightarrow> list_all nibble (take i (drop j p))" "list_all nibble p \<Longrightarrow> list_all nibble (drop j p)"
  by (auto simp: list_all_iff dest: in_set_takeD in_set_dropD)

lemma pathsOK_nibble: "pathsOK nodes depth \<Longrightarrow> n \<in> set nodes \<Longrightarrow> list_all nibble (tp_path n)"
  by (simp add: pathsOK_def)

lemma packHexPrefix_path_inj:
  "pathsOK nodes d \<Longrightarrow> n \<in> set nodes \<Longrightarrow> pathsOK nodes' d' \<Longrightarrow> n' \<in> set nodes' \<Longrightarrow>
   packHexPrefix (take i (drop j (tp_path n))) a = packHexPrefix (take i' (drop j' (tp_path n'))) b \<Longrightarrow>
   take i (drop j (tp_path n)) = take i' (drop j' (tp_path n')) \<and> a = b"
  by (rule hexPrefix_inj) (simp_all add: nibbles_take_drop pathsOK_nibble)

lemma take_all_drop: "drop j p = take (length p) (drop j p)"
  by simp

lemma leafAt_shape: "leafAt kec nodes d \<Longrightarrow> pathsOK nodes d \<Longrightarrow> \<exists>p v. list_all nibble p \<and> trieItem kec nodes d = RlpList [RlpBytes (packHexPrefix p True), v]"
  unfolding leafAt_def using pathsOK_nibble nibbles_take_drop(2) by (metis list.set_intros(1))

lemma extAt_shape: "extAt kec nodes d \<Longrightarrow> pathsOK nodes d \<Longrightarrow> \<exists>p v. list_all nibble p \<and> trieItem kec nodes d = RlpList [RlpBytes (packHexPrefix p False), v]"
  unfolding extAt_def using pathsOK_nibble nibbles_take_drop(1) by (metis list.set_intros(1))

lemma branchNodeAt_shape: "branchNodeAt kec nodes d \<Longrightarrow> \<exists>xs. length xs = 17 \<and> trieItem kec nodes d = RlpList xs"
  unfolding branchNodeAt_def by (metis length_append_singleton length_map length_upt diff_zero eval_nat_numeral)

lemma trie_kind:
  assumes "nodes \<noteq> []" "nodes' \<noteq> []" "pathsOK nodes d" "pathsOK nodes' d'" "trieItem kec nodes d = trieItem kec nodes' d'"
  shows "leafAt kec nodes d \<and> leafAt kec nodes' d' \<or> extAt kec nodes d \<and> extAt kec nodes' d' \<or> branchNodeAt kec nodes d \<and> branchNodeAt kec nodes' d'"
proof -
  have le: "False" if h: "leafAt kec a i" "extAt kec b j" "pathsOK a i" "pathsOK b j" "trieItem kec a i = trieItem kec b j" for a b i j
  proof -
    obtain p v where p: "list_all nibble p" "trieItem kec a i = RlpList [RlpBytes (packHexPrefix p True), v]"
      using leafAt_shape [OF h(1,3)] by blast
    obtain q w where q: "list_all nibble q" "trieItem kec b j = RlpList [RlpBytes (packHexPrefix q False), w]"
      using extAt_shape [OF h(2,4)] by blast
    have "packHexPrefix p True = packHexPrefix q False"
      using h(5) unfolding p(2) q(2) by (simp only: rlpItem.inject list.inject)
    then show False
      using hexPrefix_inj [OF p(1) q(1)] by blast
  qed
  have two: "False" if h: "leafAt kec a i \<or> extAt kec a i" "branchNodeAt kec b j" "pathsOK a i" "trieItem kec a i = trieItem kec b j" for a b i j
  proof -
    obtain x y where x: "trieItem kec a i = RlpList [x, y]"
      using h(1) leafAt_shape [OF _ h(3)] extAt_shape [OF _ h(3)] by blast
    obtain xs where "length xs = 17" "trieItem kec b j = RlpList xs"
      using branchNodeAt_shape [OF h(2)] by blast
    then show False
      using h(4) x by auto
  qed
  from trie_shapes [OF assms(1), of kec d] trie_shapes [OF assms(2), of kec d'] show ?thesis
    using le [OF _ _ assms(3,4,5)] le [OF _ _ assms(4,3) assms(5) [symmetric]] two [OF _ _ assms(3,5)] two [OF _ _ assms(4) assms(5) [symmetric]]
    by argo
qed

lemma trie_unique:
  assumes ok: "pathsOK root 0" "pathsOK root' 0"
    and vals: "\<forall>n \<in> set root \<union> set root'. tp_value n \<noteq> []"
    and apart: "itemsApart kec (trieItems kec root \<union> trieItems kec root')" "\<And>x. length (kec x) = 32"
  shows "subtrie root nodes d \<Longrightarrow> subtrie root' nodes' d' \<Longrightarrow> trieItem kec nodes d = trieItem kec nodes' d' \<Longrightarrow>
    relPaths d nodes = relPaths d' nodes'"
proof (induction "leftOver nodes d" arbitrary: nodes d nodes' d' rule: less_induct)
  case less
  note ok1 = pathsOK_subtrie [OF less.prems(1) ok(1)] and ok2 = pathsOK_subtrie [OF less.prems(2) ok(2)]
  have v: "\<forall>n \<in> set nodes. tp_value n \<noteq> []" "\<forall>n \<in> set nodes'. tp_value n \<noteq> []"
    using vals subtrie_subset [OF less.prems(1)] subtrie_subset [OF less.prems(2)] by blast+
  have ne: "nodes \<noteq> []" "nodes' \<noteq> []"
    using ok1 ok2 by (auto simp: pathsOK_def)
  consider "leafAt kec nodes d" "leafAt kec nodes' d'" | "extAt kec nodes d" "extAt kec nodes' d'"
    | "branchNodeAt kec nodes d" "branchNodeAt kec nodes' d'"
    using trie_kind [OF ne ok1 ok2 less.prems(3)] by blast
  then show ?case
  proof cases
    case 1
    then obtain n n' where n: "nodes = [n]" "nodes' = [n']"
      and eq: "packHexPrefix (drop d (tp_path n)) True = packHexPrefix (drop d' (tp_path n')) True" "tp_value n = tp_value n'"
      using less.prems(3) unfolding leafAt_def by (auto simp only: rlpItem.inject list.inject)
    then show ?thesis
      using hexPrefix_inj [OF _ _ eq(1)] pathsOK_nibble [OF ok1] pathsOK_nibble [OF ok2] by (simp add: relPaths_def nibbles_take_drop)
  next
    case 2
    obtain n rest e where n: "nodes = n # rest" "rest \<noteq> []" "e = sharedEnd (tp_path n) rest d" "d < e"
      and item: "trieItem kec nodes d = RlpList [RlpBytes (packHexPrefix (take (e - d) (drop d (tp_path n))) False), slot kec nodes e]"
      using 2(1) unfolding extAt_def by blast
    obtain n' rest' e' where n': "nodes' = n' # rest'" "rest' \<noteq> []" "e' = sharedEnd (tp_path n') rest' d'" "d' < e'"
      and item': "trieItem kec nodes' d' = RlpList [RlpBytes (packHexPrefix (take (e' - d') (drop d' (tp_path n'))) False), slot kec nodes' e']"
      using 2(2) unfolding extAt_def by blast
    have eq: "packHexPrefix (take (e - d) (drop d (tp_path n))) False = packHexPrefix (take (e' - d') (drop d' (tp_path n'))) False"
        "slot kec nodes e = slot kec nodes' e'"
      using less.prems(3) unfolding item item' by (simp_all only: rlpItem.inject list.inject)
    have sub: "subtrie root nodes e" "subtrie root' nodes' e'"
      unfolding n(1) n'(1) using subtrie.extension [OF _ n(2-4)] subtrie.extension [OF _ n'(2-4)] less.prems(1,2) n(1) n'(1) by simp_all
    have "trieItem kec nodes e = trieItem kec nodes' e'"
      using slot_inj [where kec = kec, OF apart _ _ eq(2)] in_trieItems [OF sub(1), of kec] in_trieItems [OF sub(2), of kec] ne by simp
    moreover have "leftOver nodes e < leftOver nodes d"
      using leftOver_shared [of d n rest] n by simp
    ultimately have "relPaths e nodes = relPaths e' nodes'"
      by (intro less.hyps sub)
    moreover have "take (e - d) (drop d (tp_path n)) = take (e' - d') (drop d' (tp_path n'))"
      using packHexPrefix_path_inj [OF ok1 _ ok2 _ eq(1)] n(1) n'(1) by simp
    moreover have "pathsOK (n # rest) e" "pathsOK (n' # rest') e'"
      using pathsOK_subtrie [OF sub(1) ok(1)] pathsOK_subtrie [OF sub(2) ok(2)] n(1) n'(1) by simp_all
    ultimately show ?thesis
      using relPaths_extension [of n rest e d] relPaths_extension [of n' rest' e' d'] n(1,4) n'(1,4) by simp
  next
    case 3
    obtain n rest where n: "nodes = n # rest" "rest \<noteq> []" "\<not> d < sharedEnd (tp_path n) rest d"
      and item: "trieItem kec nodes d = RlpList (map (\<lambda>i. slot kec (groupOf nodes d i) (Suc d)) [0..<16] @ [RlpBytes (endValue nodes d)])"
      using 3(1) unfolding branchNodeAt_def by blast
    obtain n' rest' where n': "nodes' = n' # rest'" "rest' \<noteq> []" "\<not> d' < sharedEnd (tp_path n') rest' d'"
      and item': "trieItem kec nodes' d' = RlpList (map (\<lambda>i. slot kec (groupOf nodes' d' i) (Suc d')) [0..<16] @ [RlpBytes (endValue nodes' d')])"
      using 3(2) unfolding branchNodeAt_def by blast
    have items: "map (\<lambda>i. slot kec (groupOf nodes d i) (Suc d)) [0..<16] @ [RlpBytes (endValue nodes d)] =
        map (\<lambda>i. slot kec (groupOf nodes' d' i) (Suc d')) [0..<16] @ [RlpBytes (endValue nodes' d')]"
      using less.prems(3) unfolding item item' by (simp only: rlpItem.inject)
    from items have slots: "map (\<lambda>i. slot kec (groupOf nodes d i) (Suc d)) [0..<16] = map (\<lambda>i. slot kec (groupOf nodes' d' i) (Suc d')) [0..<16]"
      and ends: "endValue nodes d = endValue nodes' d'"
      by (simp_all only: append1_eq_conv rlpItem.inject)
    have "relPaths (Suc d) (groupOf nodes d i) = relPaths (Suc d') (groupOf nodes' d' i)" if "i < 16" for i
    proof -
      let ?g = "groupOf nodes d i" and ?g' = "groupOf nodes' d' i"
      have sub: "?g \<noteq> [] \<Longrightarrow> subtrie root ?g (Suc d)" "?g' \<noteq> [] \<Longrightarrow> subtrie root' ?g' (Suc d')"
        unfolding n(1) n'(1)
        using subtrie.branch [OF _ n(2,3) that] subtrie.branch [OF _ n'(2,3) that] less.prems(1,2) n(1) n'(1) by simp_all
      have "slot kec ?g (Suc d) = slot kec ?g' (Suc d')"
        using slots that by (simp only: map_eq_conv set_upt atLeastLessThan_iff zero_le)
      then have "?g = [] \<and> ?g' = [] \<or> ?g \<noteq> [] \<and> ?g' \<noteq> [] \<and> trieItem kec ?g (Suc d) = trieItem kec ?g' (Suc d')"
        using in_trieItems [OF sub(1), of kec] in_trieItems [OF sub(2), of kec] by (intro slot_inj [where kec = kec, OF apart]) simp_all
      then show ?thesis
      proof
        assume "?g = [] \<and> ?g' = []"
        then show ?thesis by (simp add: relPaths_def)
      next
        assume "?g \<noteq> [] \<and> ?g' \<noteq> [] \<and> trieItem kec ?g (Suc d) = trieItem kec ?g' (Suc d')"
        then show ?thesis
          by (intro less.hyps sub leftOver_group) simp_all
      qed
    qed
    then show ?thesis
      using ends by (simp add: relPaths_branch [OF ok1 v(1)] relPaths_branch [OF ok2 v(2)])
  qed
qed

lemma trieNodes_items: "entries \<noteq> [] \<Longrightarrow> distinct (map te_Key entries) \<Longrightarrow> trieNodes kec entries = rlpEnc ` trieItems kec (triePaths entries)"
proof -
  assume e: "entries \<noteq> []" "distinct (map te_Key entries)"
  have "encodeTrieSubtree kec nodes depth = rlpEnc (trieItem kec nodes depth)" if "subtrie (triePaths entries) nodes depth" for nodes depth
    using pathsOK_subtrie [OF that pathsOK_triePaths [OF e(2,1)]] by (intro encodeTrieSubtree_item) (auto simp: pathsOK_def)
  then show ?thesis
    using e(1) by (auto simp: trieNodes_def trieItems_def) metis+
qed

lemma BuildMPT_item: "entries \<noteq> [] \<Longrightarrow> BuildMPT kec entries = kec (rlpEnc (trieItem kec (triePaths entries) 0))"
  using encodeTrieSubtree_item [of "triePaths entries" kec 0] by (simp add: BuildMPT_def Keccak256_def set_triePaths flip: set_empty)

lemma BuildMPT_Nil: "BuildMPT kec [] = kec (rlpEnc (RlpBytes []))"
  by (simp add: BuildMPT_def EmptyTrieRoot_def Keccak256_def EncodeRLPBytes_Nil)

lemma root_item_list: "entries \<noteq> [] \<Longrightarrow> IsList (trieItem kec (triePaths entries) 0)"
  by (intro IsList_trieItem) (simp add: set_triePaths flip: set_empty)

definition rootItem :: "hasher \<Rightarrow> TrieEntry list \<Rightarrow> rlpItem" where
  "rootItem kec entries = (if entries = [] then RlpBytes [] else trieItem kec (triePaths entries) 0)"

lemma IsList_rootItem: "IsList (rootItem kec entries) \<longleftrightarrow> entries \<noteq> []"
  by (simp add: rootItem_def root_item_list)

definition allItems :: "hasher \<Rightarrow> TrieEntry list \<Rightarrow> rlpItem set" where
  "allItems kec entries = (if entries = [] then {RlpBytes []} else trieItems kec (triePaths entries))"

lemma trieNodes_allItems: "distinct (map te_Key entries) \<Longrightarrow> trieNodes kec entries = rlpEnc ` allItems kec entries"
  using trieNodes_items [of entries kec] by (cases "entries = []") (simp_all add: allItems_def trieNodes_def EncodeRLPBytes_Nil)

lemma rootItem_in: "rootItem kec entries \<in> allItems kec entries"
  using in_trieItems [OF subtrie.root] by (simp add: rootItem_def allItems_def)

lemma relPaths_triePaths: "relPaths 0 (triePaths entries) = (\<lambda>e. (nibbles (te_Key e), te_Value e)) ` set entries"
  by (simp add: relPaths_def set_triePaths image_image)

theorem BuildMPT_inj:
  assumes "distinct (map te_Key entries)" "distinct (map te_Key entries')" "\<forall>e \<in> set entries \<union> set entries'. te_Value e \<noteq> []"
    and "\<And>x. length (kec x) = 32" "inj_on kec (trieNodes kec entries \<union> trieNodes kec entries')"
    and "smallNodes (trieNodes kec entries \<union> trieNodes kec entries')" "BuildMPT kec entries = BuildMPT kec entries'"
  shows "set entries = set entries'"
proof -
  have apart: "itemsApart kec (allItems kec entries \<union> allItems kec entries')"
    using assms(5,6) by (auto simp: itemsApart_def smallNodes_def trieNodes_allItems assms(1,2) image_Un)
  have "kec (rlpEnc (rootItem kec entries)) = kec (rlpEnc (rootItem kec entries'))"
    using assms(7) by (auto simp: rootItem_def BuildMPT_item BuildMPT_Nil)
  then have same: "rootItem kec entries = rootItem kec entries'"
    using itemsApartD [OF apart] rootItem_in by blast
  show ?thesis
  proof (cases "entries = []"; cases "entries' = []")
    assume ne: "entries \<noteq> []" "entries' \<noteq> []"
    have "relPaths 0 (triePaths entries) = relPaths 0 (triePaths entries')"
    proof (rule trie_unique [where kec = kec, OF pathsOK_triePaths [OF assms(1) ne(1)] pathsOK_triePaths [OF assms(2) ne(2)]])
      show "\<forall>n \<in> set (triePaths entries) \<union> set (triePaths entries'). tp_value n \<noteq> []"
        using assms(3) by (auto simp: set_triePaths)
      show "itemsApart kec (trieItems kec (triePaths entries) \<union> trieItems kec (triePaths entries'))"
        using apart ne by (simp add: allItems_def)
      show "trieItem kec (triePaths entries) 0 = trieItem kec (triePaths entries') 0"
        using same ne by (simp add: rootItem_def)
    qed (rule assms(4) subtrie.root)+
    then have eq: "(\<lambda>e. (nibbles (te_Key e), te_Value e)) ` set entries = (\<lambda>e. (nibbles (te_Key e), te_Value e)) ` set entries'"
      by (simp only: relPaths_triePaths)
    have "inj (\<lambda>e :: TrieEntry. (nibbles (te_Key e), te_Value e))"
      by (rule injI) (auto intro!: TrieEntry.equality dest: nibbles_inj)
    with eq show ?thesis
      by (simp add: inj_image_eq_iff)
  qed (use arg_cong [OF same, of IsList] in \<open>simp_all add: IsList_rootItem\<close>)
qed

end
