(* ===== verification/Receipts.thy ===== *)
theory Receipts
  imports Trie_Root
begin

unbundle bit_operations_syntax

text \<open>
  Receipts and logs, \<^verbatim>\<open>src/internal/ethproof/receipts.go\<close> and \<^verbatim>\<open>bloom.go\<close>: the encoding of a receipt, the trie
  rebuilt from a provider's receipts, the gate that compares its root with the authenticated one, the decoding
  of the provider's JSON (from the strings of its objects on), and the bloom filter of a block.
\<close>

datatype receipt_error = ErrReceiptsRootMismatch | ErrReceiptMalformed

record Log =
  lg_Address :: bytes
  lg_Topics :: "bytes32 list"
  lg_Data :: bytes

record Receipt =
  rc_TxIndex :: u64
  rc_Type :: u64
  rc_Status :: u64
  rc_PostState :: bytes
  rc_CumulativeGasUsed :: u64
  rc_Bloom :: bytes
  rc_Logs :: "Log list"

subsection \<open>Encoding\<close>

definition encodeLog :: "Log \<Rightarrow> bytes" where
  "encodeLog l = EncodeRLPList
     [EncodeRLPBytes (lg_Address l), EncodeRLPList (map EncodeRLPBytes (lg_Topics l)), EncodeRLPBytes (lg_Data l)]"

definition receiptBody :: "Receipt \<Rightarrow> bytes" where
  "receiptBody r = EncodeRLPList
     [if length (rc_PostState r) = 32 then EncodeRLPBytes (rc_PostState r) else EncodeRLPUint (rc_Status r),
      EncodeRLPUint (rc_CumulativeGasUsed r), EncodeRLPBytes (rc_Bloom r), EncodeRLPList (map encodeLog (rc_Logs r))]"

definition EncodeReceipt :: "Receipt \<Rightarrow> receipt_error + bytes" where
  "EncodeReceipt r =
     (if rc_Type r > 0xFF then Inl ErrReceiptMalformed
      else if length (rc_PostState r) \<noteq> 0 \<and> length (rc_PostState r) \<noteq> 32 then Inl ErrReceiptMalformed
      else if length (rc_PostState r) = 0 \<and> rc_Status r > 1 then Inl ErrReceiptMalformed
      else if rc_Type r = 0 then Inr (receiptBody r)
      else Inr (ucast (rc_Type r) # receiptBody r))"

fun receiptEntries :: "u64 set \<Rightarrow> Receipt list \<Rightarrow> receipt_error + TrieEntry list" where
  "receiptEntries seen [] = Inr []"
| "receiptEntries seen (r # rs) =
     (if rc_TxIndex r \<in> seen then Inl ErrReceiptMalformed
      else bindR (EncodeReceipt r) (\<lambda>value.
        bindR (receiptEntries (insert (rc_TxIndex r) seen) rs) (\<lambda>es.
          Inr (\<lparr> te_Key = EncodeRLPUint (rc_TxIndex r), te_Value = value \<rparr> # es))))"

definition ReceiptsRoot :: "hasher \<Rightarrow> Receipt list \<Rightarrow> receipt_error + bytes" where
  "ReceiptsRoot kec receipts = bindR (receiptEntries {} receipts) (\<lambda>entries. Inr (BuildMPT kec entries))"

definition AuthenticateReceipts :: "hasher \<Rightarrow> bytes32 \<Rightarrow> Receipt list \<Rightarrow> receipt_error + Receipt list" where
  "AuthenticateReceipts kec authenticated receipts =
     bindR (ReceiptsRoot kec receipts) (\<lambda>got.
       if length got \<noteq> 32 \<or> got \<noteq> authenticated then Inl ErrReceiptsRootMismatch else Inr receipts)"

subsection \<open>The provider's JSON\<close>

record rpcLog =
  rl_Address :: string
  rl_Topics :: "string list"
  rl_Data :: string

record rpcReceipt =
  rr_Type :: string
  rr_Status :: string
  rr_Root :: string
  rr_CumulativeGas :: string
  rr_LogsBloom :: string
  rr_TransactionIndex :: string
  rr_Logs :: "rpcLog list"

definition trimPrefix0x :: "string \<Rightarrow> string" where
  "trimPrefix0x s = (if take 2 s = ''0x'' then drop 2 s else s)"

fun hexVal :: "nat \<Rightarrow> string \<Rightarrow> nat option" where
  "hexVal acc [] = Some acc"
| "hexVal acc (c # r) = (case fromHexChar c of None \<Rightarrow> None | Some d \<Rightarrow> hexVal (16 * acc + d) r)"

definition hexQuantity :: "string \<Rightarrow> receipt_error + u64" where
  \<comment> \<open>\<^verbatim>\<open>ParseUint\<close> in base 16 refuses the empty string, other characters and what does not fit 64 bits\<close>
  "hexQuantity s =
     (if s = [] then Inl ErrReceiptMalformed
      else (let digits = trimPrefix0x s in
        if digits = [] then Inl ErrReceiptMalformed
        else case hexVal 0 digits of
               None \<Rightarrow> Inl ErrReceiptMalformed
             | Some v \<Rightarrow> if v < 2 ^ 64 then Inr (of_nat v) else Inl ErrReceiptMalformed))"

definition hexData :: "string \<Rightarrow> nat option \<Rightarrow> receipt_error + bytes" where
  \<comment> \<open>\<open>None\<close> for a wanted length of -1\<close>
  "hexData s wantLen =
     (case hexDecode (trimPrefix0x s) of
        None \<Rightarrow> Inl ErrReceiptMalformed
      | Some b \<Rightarrow> if (case wantLen of None \<Rightarrow> False | Some n \<Rightarrow> length b \<noteq> n) then Inl ErrReceiptMalformed else Inr b)"

definition decodeLog :: "rpcLog \<Rightarrow> receipt_error + Log" where
  "decodeLog l =
     bindR (hexData (rl_Address l) (Some 20)) (\<lambda>addr.
     bindR (mapR (\<lambda>tp. hexData tp (Some 32)) (rl_Topics l)) (\<lambda>topics.
     bindR (hexData (rl_Data l) None) (\<lambda>data.
     Inr \<lparr> lg_Address = addr, lg_Topics = topics, lg_Data = data \<rparr>)))"

definition decodeReceipt :: "rpcReceipt \<Rightarrow> receipt_error + Receipt" where
  "decodeReceipt r =
     bindR (hexQuantity (rr_TransactionIndex r)) (\<lambda>idx.
     bindR (if rr_Type r \<noteq> [] then hexQuantity (rr_Type r) else Inr 0) (\<lambda>ty.
     bindR (hexQuantity (rr_CumulativeGas r)) (\<lambda>gas.
     bindR (if rr_Root r \<noteq> [] then bindR (hexData (rr_Root r) (Some 32)) (\<lambda>root. Inr (0, root))
            else bindR (hexQuantity (rr_Status r)) (\<lambda>st. Inr (st, []))) (\<lambda>(st, root).
     bindR (hexData (rr_LogsBloom r) (Some 256)) (\<lambda>bloom.
     bindR (mapR decodeLog (rr_Logs r)) (\<lambda>logs.
     Inr \<lparr> rc_TxIndex = idx, rc_Type = ty, rc_Status = st, rc_PostState = root, rc_CumulativeGasUsed = gas,
           rc_Bloom = bloom, rc_Logs = logs \<rparr>))))))"

definition DecodeRPCReceipts :: "rpcReceipt list option \<Rightarrow> receipt_error + Receipt list" where
  \<comment> \<open>the argument is what \<^verbatim>\<open>json.Unmarshal\<close> makes of the bytes\<close>
  "DecodeRPCReceipts raw = (case raw of None \<Rightarrow> Inl ErrReceiptMalformed | Some rs \<Rightarrow> mapR decodeReceipt rs)"

subsection \<open>The bloom filter\<close>

definition bloomPositions :: "hasher \<Rightarrow> bytes \<Rightarrow> nat list" where
  "bloomPositions kec item =
     (let h = Keccak256 kec [item] in
      map (\<lambda>i. unat ((push_bit 8 (ucast (h ! (2 * i))) OR ucast (h ! (2 * i + 1))) AND (0x7FF :: u64))) [0..<3])"

definition bloomBit :: "bytes \<Rightarrow> nat \<Rightarrow> bool" where
  "bloomBit bloom b \<longleftrightarrow> bloom ! (255 - b div 8) AND push_bit (b mod 8) 1 \<noteq> 0"

definition MayContain :: "hasher \<Rightarrow> bytes \<Rightarrow> bytes \<Rightarrow> bool" where
  "MayContain kec bloom item = list_all (bloomBit bloom) (bloomPositions kec item)"

definition setBloomBit :: "bytes \<Rightarrow> nat \<Rightarrow> bytes" where
  "setBloomBit bloom b = bloom[255 - b div 8 := bloom ! (255 - b div 8) OR push_bit (b mod 8) 1]"

definition AddToBloom :: "hasher \<Rightarrow> bytes \<Rightarrow> bytes \<Rightarrow> bytes" where
  "AddToBloom kec bloom item = foldl setBloomBit bloom (bloomPositions kec item)"

definition BloomFromLogs :: "hasher \<Rightarrow> Log list \<Rightarrow> bytes" where
  "BloomFromLogs kec logs =
     foldl (\<lambda>out l. foldl (AddToBloom kec) (AddToBloom kec out (lg_Address l)) (lg_Topics l)) (replicate 256 0) logs"

definition BloomBitsSet :: "bytes \<Rightarrow> nat" where
  "BloomBitsSet bloom = sum_list (map (\<lambda>b. sum_list (map (\<lambda>i. unat (drop_bit i b) mod 2) [0..<8])) bloom)"

definition unionBloom :: "Receipt list \<Rightarrow> bytes" where
  "unionBloom receipts = foldl (\<lambda>out r. map2 (OR) out (rc_Bloom r)) (replicate 256 0) receipts"

subsection \<open>One root, one set of receipts\<close>

definition uintOctets :: "u64 \<Rightarrow> bytes" where
  "uintOctets v = (if v = 0 then [] else natBytes (unat v))"

lemma EncodeRLPUint_item: "EncodeRLPUint v = EncodeRLPBytes (uintOctets v)"
  by (simp add: EncodeRLPUint_def uintOctets_def EncodeRLPBytes_Nil)

lemma bytesNat_uintOctets [simp]: "bytesNat (uintOctets v) = unat v"
  by (simp add: uintOctets_def)

lemma uintOctets_inj: "uintOctets v = uintOctets w \<Longrightarrow> v = w"
  by (metis bytesNat_uintOctets word_unat_eq_iff)

lemma length_uintOctets: "length (uintOctets v) \<le> 8"
proof -
  have "unat v < 256 ^ 8"
    using unsigned_less [of v] by simp
  then show ?thesis
    using length_natBytes by (simp add: uintOctets_def)
qed

definition logItem :: "Log \<Rightarrow> rlpItem" where
  "logItem l = RlpList [RlpBytes (lg_Address l), RlpList (map RlpBytes (lg_Topics l)), RlpBytes (lg_Data l)]"

definition receiptItem :: "Receipt \<Rightarrow> rlpItem" where
  "receiptItem r = RlpList
     [RlpBytes (if length (rc_PostState r) = 32 then rc_PostState r else uintOctets (rc_Status r)),
      RlpBytes (uintOctets (rc_CumulativeGasUsed r)), RlpBytes (rc_Bloom r), RlpList (map logItem (rc_Logs r))]"

lemma encodeLog_item: "encodeLog = (\<lambda>l. rlpEnc (logItem l))"
  by (simp add: fun_eq_iff encodeLog_def logItem_def comp_def)

lemma receiptBody_item: "receiptBody r = rlpEnc (receiptItem r)"
  by (simp add: receiptBody_def receiptItem_def EncodeRLPUint_item encodeLog_item comp_def)

lemma logItem_inj: "logItem l = logItem m \<Longrightarrow> l = m"
  by (auto simp: logItem_def inj_map_eq_map inj_def)

definition receiptOK :: "Receipt \<Rightarrow> bool" where
  \<comment> \<open>a transaction type of EIP-2718, and no status beside a state root\<close>
  "receiptOK r \<longleftrightarrow> rc_Type r < 0x80 \<and> (rc_PostState r \<noteq> [] \<longrightarrow> rc_Status r = 0)"

lemma receiptItem_inj:
  assumes "receiptItem r = receiptItem s" "rc_PostState r \<noteq> [] \<longrightarrow> length (rc_PostState r) = 32 \<and> rc_Status r = 0"
    "rc_PostState s \<noteq> [] \<longrightarrow> length (rc_PostState s) = 32 \<and> rc_Status s = 0" "rc_TxIndex r = rc_TxIndex s" "rc_Type r = rc_Type s"
  shows "r = s"
proof -
  have "map logItem (rc_Logs r) = map logItem (rc_Logs s)"
    and f: "(if length (rc_PostState r) = 32 then rc_PostState r else uintOctets (rc_Status r)) =
         (if length (rc_PostState s) = 32 then rc_PostState s else uintOctets (rc_Status s))"
    and "rc_CumulativeGasUsed r = rc_CumulativeGasUsed s" "rc_Bloom r = rc_Bloom s"
    using assms(1) by (auto simp: receiptItem_def dest: uintOctets_inj)
  moreover from this have "rc_Logs r = rc_Logs s"
    using logItem_inj by (metis (mono_tags, lifting) injI inj_map_eq_map)
  moreover have "rc_PostState r = rc_PostState s \<and> rc_Status r = rc_Status s"
    using f assms(2,3) length_uintOctets [of "rc_Status r"] length_uintOctets [of "rc_Status s"]
    by (cases "rc_PostState r = []"; cases "rc_PostState s = []") (auto dest: uintOctets_inj)
  ultimately show ?thesis
    using assms(4,5) by (intro Receipt.equality) simp_all
qed

lemma list_prefix_byte:
  assumes "length (rlpEnc (RlpList xs)) < 2 ^ 62"
  shows "0xC0 \<le> hd (rlpEnc (RlpList xs))"
proof -
  let ?n = "sum_list (map length (map rlpEnc xs))"
  have n: "?n < 2 ^ 62"
    using assms by (simp add: EncodeRLPList_def length_concat)
  show ?thesis
  proof (cases "?n \<le> 55")
    case True
    then show ?thesis
      using uint_short(2) [OF True] by (simp add: EncodeRLPList_def rlpLengthPrefix_def word_le_def)
  next
    case False
    have "length (natBytes ?n) \<le> 8"
      using n by (intro length_natBytes) simp
    then show ?thesis
      using False uint_long(2) [of "length (natBytes ?n)"] by (simp add: EncodeRLPList_def rlpLengthPrefix_def Let_def word_le_def)
  qed
qed

lemma EncodeReceipt_inj:
  assumes "EncodeReceipt r = Inr v" "EncodeReceipt s = Inr v" "receiptOK r" "receiptOK s" "rc_TxIndex r = rc_TxIndex s" "length v < 2 ^ 62"
  shows "r = s"
proof -
  let ?b = "rlpEnc (receiptItem r)" and ?c = "rlpEnc (receiptItem s)"
  have v: "v = (if rc_Type r = 0 then ?b else ucast (rc_Type r) # ?b)" "v = (if rc_Type s = 0 then ?c else ucast (rc_Type s) # ?c)"
    using assms(1,2) by (auto simp: EncodeReceipt_def receiptBody_item split: if_splits)
  have t: "unat (rc_Type r) < 128" "unat (rc_Type s) < 128"
    using assms(3,4) by (simp_all add: receiptOK_def word_less_nat_alt)
  then have u: "unat (ucast (rc_Type r) :: byte) = unat (rc_Type r)" "unat (ucast (rc_Type s) :: byte) = unat (rc_Type s)"
    by (simp_all add: unsigned_ucast_eq take_bit_eq_mod)
  have "length ?b \<le> length v" "length ?c \<le> length v"
    by (subst v(1), simp) (subst v(2), simp)
  then have len: "length ?b < 2 ^ 62" "length ?c < 2 ^ 62"
    using assms(6) by linarith+
  have u192: "unat (0xC0 :: byte) = 192"
    by simp
  have hd: "192 \<le> unat (hd ?b)" "192 \<le> unat (hd ?c)"
    using len list_prefix_byte unfolding receiptItem_def by (metis u192 word_le_nat_alt)+
  have ne: "?b \<noteq> []" "?c \<noteq> []"
    by (rule rlpEnc_nonempty)+
  have ty: "rc_Type r = rc_Type s"
  proof (cases "rc_Type r = 0"; cases "rc_Type s = 0")
    assume "rc_Type r \<noteq> 0" "rc_Type s \<noteq> 0"
    then have "(ucast (rc_Type r) :: byte) = ucast (rc_Type s)"
      using v by simp
    then show ?thesis
      using u by (metis word_unat_eq_iff)
  next
    assume "rc_Type r = 0" "rc_Type s \<noteq> 0"
    then have "hd ?b = ucast (rc_Type s)"
      using v by (metis list.sel(1))
    then show ?thesis using hd t u by simp
  next
    assume "rc_Type r \<noteq> 0" "rc_Type s = 0"
    then have "hd ?c = ucast (rc_Type r)"
      using v by (metis list.sel(1))
    then show ?thesis using hd t u by simp
  qed simp
  then have "?b = ?c"
    using v by (auto split: if_splits)
  with len(1) have "receiptItem r = receiptItem s"
    by (rule rlpEnc_inj)
  then show ?thesis
    using assms(1-5) ty by (intro receiptItem_inj) (auto simp: EncodeReceipt_def receiptOK_def split: if_splits)
qed

definition entryFor :: "Receipt \<Rightarrow> TrieEntry \<Rightarrow> bool" where
  "entryFor r e \<longleftrightarrow> te_Key e = EncodeRLPUint (rc_TxIndex r) \<and> EncodeReceipt r = Inr (te_Value e)"

lemma EncodeRLPBytes_inj: "length b < 2 ^ 61 \<Longrightarrow> EncodeRLPBytes b = EncodeRLPBytes c \<Longrightarrow> length c < 2 ^ 61 \<Longrightarrow> b = c"
  using decodeRLP_string [of b "[]"] decodeRLP_string [of c "[]"] by simp

lemma EncodeRLPUint_inj: "EncodeRLPUint v = EncodeRLPUint w \<Longrightarrow> v = w"
proof -
  assume eq: "EncodeRLPUint v = EncodeRLPUint w"
  have "length (uintOctets v) < 2 ^ 61" "length (uintOctets w) < 2 ^ 61"
    using length_uintOctets [of v] length_uintOctets [of w] by simp_all
  then show "v = w"
    using eq EncodeRLPBytes_inj uintOctets_inj by (metis EncodeRLPUint_item)
qed

lemma receiptEntries_ok:
  "receiptEntries seen rs = Inr es \<Longrightarrow>
   list_all2 entryFor rs es \<and> distinct (map rc_TxIndex rs) \<and> (\<forall>r \<in> set rs. rc_TxIndex r \<notin> seen)"
  by (induction seen rs arbitrary: es rule: receiptEntries.induct) (auto simp: bindR_Inr entryFor_def split: if_splits)

lemma list_all2_right: "list_all2 P xs ys \<Longrightarrow> y \<in> set ys \<Longrightarrow> \<exists>x \<in> set xs. P x y"
  by (induction rule: list_all2_induct) auto

lemma list_all2_left: "list_all2 P xs ys \<Longrightarrow> x \<in> set xs \<Longrightarrow> \<exists>y \<in> set ys. P x y"
  by (induction rule: list_all2_induct) auto

lemma entries_distinct: "list_all2 entryFor rs es \<Longrightarrow> distinct (map rc_TxIndex rs) \<Longrightarrow> distinct (map te_Key es)"
proof (induction rule: list_all2_induct)
  case (Cons r rs e es)
  have "te_Key e \<notin> te_Key ` set es"
  proof
    assume "te_Key e \<in> te_Key ` set es"
    then obtain e' where "e' \<in> set es" "te_Key e' = te_Key e"
      by auto
    moreover from this obtain r' where "r' \<in> set rs" "entryFor r' e'"
      using list_all2_right [OF Cons.hyps(2)] by blast
    ultimately have "rc_TxIndex r' = rc_TxIndex r" "r' \<in> set rs"
      using Cons.hyps(1) by (auto simp: entryFor_def intro!: EncodeRLPUint_inj)
    then show False
      using Cons.prems by (metis distinct.simps(2) image_eqI list.set_map list.simps(9))
  qed
  then show ?case using Cons by simp
qed simp

lemma entryFor_nonempty: "entryFor r e \<Longrightarrow> te_Value e \<noteq> []"
  using rlpEnc_nonempty by (auto simp: entryFor_def EncodeReceipt_def receiptBody_item split: if_splits)

definition receiptNodes :: "hasher \<Rightarrow> Receipt list \<Rightarrow> bytes set" where
  "receiptNodes kec rs = (case receiptEntries {} rs of Inl e \<Rightarrow> {} | Inr es \<Rightarrow> trieNodes kec es \<union> te_Value ` set es)"

lemma receipts_subset:
  assumes "list_all2 entryFor rs es" "list_all2 entryFor rs' es'" "set es = set es'"
    "\<forall>r \<in> set rs \<union> set rs'. receiptOK r" "\<forall>e \<in> set es. length (te_Value e) < 2 ^ 62"
  shows "set rs \<subseteq> set rs'"
proof
  fix r assume r: "r \<in> set rs"
  then obtain e where e: "e \<in> set es" "entryFor r e"
    using list_all2_left [OF assms(1)] by blast
  then obtain r' where r': "r' \<in> set rs'" "entryFor r' e"
    using list_all2_right [OF assms(2)] assms(3) by blast
  have "r = r'"
    using e r' r assms(4,5) EncodeRLPUint_inj by (intro EncodeReceipt_inj [of r "te_Value e" r']) (auto simp: entryFor_def)
  with r'(1) show "r \<in> set rs'" by simp
qed

lemma AuthenticateReceipts_Inr:
  "AuthenticateReceipts kec root rs = Inr out \<Longrightarrow> \<exists>es. receiptEntries {} rs = Inr es \<and> out = rs \<and> BuildMPT kec es = root"
  by (auto simp: AuthenticateReceipts_def ReceiptsRoot_def bindR_Inr split: if_splits)

lemma receipts_values: "list_all2 entryFor rs es \<Longrightarrow> \<forall>e \<in> set es. te_Value e \<noteq> []"
proof
  fix e assume "list_all2 entryFor rs es" "e \<in> set es"
  then obtain r where "entryFor r e"
    using list_all2_right [of entryFor rs es e] by auto
  then show "te_Value e \<noteq> []"
    by (rule entryFor_nonempty)
qed

lemma receipts_same:
  assumes "AuthenticateReceipts kec root rs = Inr out" "AuthenticateReceipts kec root rs' = Inr out'"
    and "\<forall>r \<in> set rs \<union> set rs'. receiptOK r" "\<And>x. length (kec x) = 32"
    and "inj_on kec (receiptNodes kec rs \<union> receiptNodes kec rs')" "smallNodes (receiptNodes kec rs \<union> receiptNodes kec rs')"
  shows "set out = set out' \<and> distinct (map rc_TxIndex out) \<and> distinct (map rc_TxIndex out')"
proof -
  obtain es where es: "receiptEntries {} rs = Inr es" "out = rs" "BuildMPT kec es = root"
    using AuthenticateReceipts_Inr [OF assms(1)] by blast
  obtain es' where es': "receiptEntries {} rs' = Inr es'" "out' = rs'" "BuildMPT kec es' = root"
    using AuthenticateReceipts_Inr [OF assms(2)] by blast
  note ok = receiptEntries_ok [OF es(1)] and ok' = receiptEntries_ok [OF es'(1)]
  have nodes: "receiptNodes kec rs = trieNodes kec es \<union> te_Value ` set es" "receiptNodes kec rs' = trieNodes kec es' \<union> te_Value ` set es'"
    using es es' by (simp_all add: receiptNodes_def)
  have vals: "\<forall>e \<in> set es \<union> set es'. te_Value e \<noteq> []"
    using receipts_values [OF conjunct1 [OF ok]] receipts_values [OF conjunct1 [OF ok']] by blast
  have inj: "inj_on kec (trieNodes kec es \<union> trieNodes kec es')"
    using assms(5) unfolding nodes by (rule inj_on_subset) blast
  have small: "smallNodes (trieNodes kec es \<union> trieNodes kec es')" "\<forall>e \<in> set es. length (te_Value e) < 2 ^ 62" "\<forall>e \<in> set es'. length (te_Value e) < 2 ^ 62"
    using assms(6) unfolding nodes smallNodes_def by blast+
  have d: "distinct (map te_Key es)" "distinct (map te_Key es')"
    using ok ok' by (blast intro: entries_distinct)+
  have "BuildMPT kec es = BuildMPT kec es'"
    by (simp only: es(3) es'(3))
  then have same: "set es = set es'"
    by (rule BuildMPT_inj [where kec = kec, OF d vals assms(4) inj small(1)])
  have "set rs \<subseteq> set rs'"
    by (rule receipts_subset [OF conjunct1 [OF ok] conjunct1 [OF ok'] same assms(3) small(2)])
  moreover have "set rs' \<subseteq> set rs"
    by (rule receipts_subset [OF conjunct1 [OF ok'] conjunct1 [OF ok] same [symmetric] _ small(3)]) (use assms(3) in blast)
  ultimately show ?thesis
    using ok ok' es(2) es'(2) by blast
qed

text \<open>
  (C10) A provider of receipts cannot add, remove, alter or renumber one. Two answers that pass the gate for one
  authenticated root hold the same receipts, each once, as long as the hash separates the nodes of the two tries;
  only the order in which they come is the provider's.
\<close>

theorem receipts_bound:
  assumes "AuthenticateReceipts kec root rs = Inr out" "AuthenticateReceipts kec root rs' = Inr out'"
    and "\<forall>r \<in> set rs \<union> set rs'. receiptOK r" "\<And>x. length (kec x) = 32"
    and "inj_on kec (receiptNodes kec rs \<union> receiptNodes kec rs')" "smallNodes (receiptNodes kec rs \<union> receiptNodes kec rs')"
  shows "set out = set out' \<and> distinct (map rc_TxIndex out) \<and> distinct (map rc_TxIndex out')"
  by (rule receipts_same [where kec = kec, OF assms])

lemma subtrie_single: "subtrie [n] ns depth \<Longrightarrow> ns = [n] \<and> depth = 0"
  by (induction rule: subtrie.induct) auto

lemma trieNodes_single: "trieNodes kec [e] = {rlpEnc (RlpList [RlpBytes (packHexPrefix (nibbles (te_Key e)) True), RlpBytes (te_Value e)])}"
proof -
  let ?n = "\<lparr> tp_path = nibbles (te_Key e), tp_value = te_Value e \<rparr>"
  have "triePaths [e] = [?n]"
    by (simp add: triePaths_def)
  moreover have "{encodeTrieSubtree kec ns depth | ns depth. subtrie [?n] ns depth} = {encodeTrieSubtree kec [?n] 0}"
    using subtrie_single subtrie.root [of "[?n]"] by (auto; metis)
  moreover have "encodeTrieSubtree kec [?n] 0 = rlpEnc (trieItem kec [?n] 0)"
    by (rule encodeTrieSubtree_item) simp
  ultimately show ?thesis
    by (simp add: trieNodes_def trieItem_leaf)
qed

definition demoReceipt :: Receipt where
  "demoReceipt = \<lparr> rc_TxIndex = 0, rc_Type = 2, rc_Status = 1, rc_PostState = [], rc_CumulativeGasUsed = 21000,
     rc_Bloom = replicate 256 0, rc_Logs = [] \<rparr>"

definition demoValue :: bytes where "demoValue = 2 # receiptBody demoReceipt"

lemma demo_entries: "receiptEntries {} [demoReceipt] = Inr [\<lparr> te_Key = [0x80], te_Value = demoValue \<rparr>]"
  by (simp add: demoReceipt_def demoValue_def EncodeReceipt_def EncodeRLPUint_def word_less_nat_alt)

lemma demo_value_length: "length demoValue = 268"
proof -
  have "natBytes 21000 = [82, 8]" "natBytes 256 = [1, 0]" "natBytes 264 = [1, 8]"
    by (simp_all add: natBytes.simps)
  then show ?thesis
    by (simp add: demoValue_def receiptBody_def demoReceipt_def EncodeRLPList_def EncodeRLPBytes_def EncodeRLPUint_def rlpLengthPrefix_def natBytes.simps Let_def)
qed

lemma demo_receipt_nodes:
  "\<exists>leaf. receiptNodes demoKec [demoReceipt] = {leaf, demoValue} \<and> length leaf = 277 \<and> length demoValue = 268"
proof -
  let ?leaf = "rlpEnc (RlpList [RlpBytes (packHexPrefix (nibbles [0x80]) True), RlpBytes demoValue])"
  have "receiptNodes demoKec [demoReceipt] = {?leaf, demoValue}"
    by (simp add: receiptNodes_def demo_entries trieNodes_single insert_commute del: rlpEnc.simps receiptEntries.simps)
  moreover have "natBytes 268 = [1, 12]" "natBytes 274 = [1, 18]"
    by (simp_all add: natBytes.simps)
  then have "length ?leaf = 277"
    by (simp add: EncodeRLPList_def EncodeRLPBytes_def rlpLengthPrefix_def demo_value_length packHexPrefix_def packPairs_nibbles Let_def
        natBytes.simps)
  ultimately show ?thesis
    using demo_value_length by blast
qed

lemma demo_receipt_facts:
  "inj_on demoKec (receiptNodes demoKec [demoReceipt])" "smallNodes (receiptNodes demoKec [demoReceipt])" "receiptOK demoReceipt"
proof -
  obtain leaf where l: "receiptNodes demoKec [demoReceipt] = {leaf, demoValue}" "length leaf = 277" "length demoValue = 268"
    using demo_receipt_nodes by blast
  have "demoKec leaf \<noteq> demoKec demoValue"
    by (simp add: demoKec_def l(2,3))
  then show "inj_on demoKec (receiptNodes demoKec [demoReceipt])"
    unfolding l(1) by (auto simp: inj_on_def)
  show "smallNodes (receiptNodes demoKec [demoReceipt])"
    unfolding l(1) by (simp add: smallNodes_def l(2,3))
  show "receiptOK demoReceipt"
    by (simp add: receiptOK_def demoReceipt_def)
qed

lemma demo_authenticates:
  "AuthenticateReceipts demoKec (BuildMPT demoKec [\<lparr> te_Key = [0x80], te_Value = demoValue \<rparr>]) [demoReceipt] = Inr [demoReceipt]"
  by (simp add: AuthenticateReceipts_def ReceiptsRoot_def demo_entries BuildMPT_def Keccak256_def demoKec_def del: receiptEntries.simps)

lemma receipts_bound_witness:
  "AuthenticateReceipts demoKec (BuildMPT demoKec [\<lparr> te_Key = [0x80], te_Value = demoValue \<rparr>]) [demoReceipt] = Inr [demoReceipt] \<and>
   distinct (map rc_TxIndex [demoReceipt])"
  using receipts_bound [OF demo_authenticates demo_authenticates] demo_receipt_facts demo_authenticates
  by (simp add: demoKec_def)

subsection \<open>The filter has no false negatives\<close>

lemma bloomPositions_bound: "b \<in> set (bloomPositions kec item) \<Longrightarrow> b < 2048"
proof -
  have "unat (x AND 0x7FF) < 2048" for x :: u64
  proof -
    have "x AND 0x7FF \<le> 0x7FF"
      by (rule word_and_le1)
    then show ?thesis
      by (simp add: word_le_nat_alt)
  qed
  then show "b \<in> set (bloomPositions kec item) \<Longrightarrow> b < 2048"
    by (auto simp: bloomPositions_def Let_def)
qed

lemma bloomBit_bit: "bloomBit bloom b \<longleftrightarrow> bit (bloom ! (255 - b div 8)) (b mod 8)"
proof -
  have "bloom ! (255 - b div 8) AND push_bit (b mod 8) 1 \<noteq> 0 \<longleftrightarrow> bit (bloom ! (255 - b div 8)) (b mod 8)"
    by (simp add: push_bit_eq_mult and_exp_eq_0_iff_not_bit)
  then show ?thesis by (simp add: bloomBit_def)
qed

lemma bloomBit_set:
  assumes "length bloom = 256" "b < 2048" "c < 2048"
  shows "bloomBit (setBloomBit bloom b) c \<longleftrightarrow> bloomBit bloom c \<or> b = c" and "length (setBloomBit bloom b) = 256"
proof -
  show "length (setBloomBit bloom b) = 256"
    using assms(1) by (simp add: setBloomBit_def)
  have "b div 8 < 256" "c div 8 < 256"
    using assms(2,3) by (simp_all add: div_less_iff_less_mult)
  then have idx: "255 - b div 8 = 255 - c div 8 \<longleftrightarrow> b div 8 = c div 8" "255 - c div 8 < 256"
    by auto
  have "b = c \<longleftrightarrow> b div 8 = c div 8 \<and> b mod 8 = c mod 8"
    by (metis div_mod_decomp)
  then show "bloomBit (setBloomBit bloom b) c \<longleftrightarrow> bloomBit bloom c \<or> b = c"
    using assms(1) idx by (auto simp: bloomBit_bit setBloomBit_def bit_or_iff nth_list_update bit_exp_iff possible_bit_word)
qed

lemma bloomBit_foldl:
  "length bloom = 256 \<Longrightarrow> \<forall>b \<in> set bs. b < 2048 \<Longrightarrow> c < 2048 \<Longrightarrow>
   length (foldl setBloomBit bloom bs) = 256 \<and> (bloomBit (foldl setBloomBit bloom bs) c \<longleftrightarrow> bloomBit bloom c \<or> c \<in> set bs)"
  by (induction bs arbitrary: bloom) (auto simp: bloomBit_set)

lemma AddToBloom_bits:
  assumes "length bloom = 256" "c < 2048"
  shows "bloomBit (AddToBloom kec bloom item) c \<longleftrightarrow> bloomBit bloom c \<or> c \<in> set (bloomPositions kec item)"
    and "length (AddToBloom kec bloom item) = 256"
  using bloomBit_foldl [OF assms(1) _ assms(2)] bloomPositions_bound unfolding AddToBloom_def by blast+

definition logItems :: "Log list \<Rightarrow> bytes list" where
  "logItems logs = concat (map (\<lambda>l. lg_Address l # lg_Topics l) logs)"

lemma BloomFromLogs_items: "BloomFromLogs kec logs = foldl (AddToBloom kec) (replicate 256 0) (logItems logs)"
proof -
  have "foldl (\<lambda>out l. foldl (AddToBloom kec) (AddToBloom kec out (lg_Address l)) (lg_Topics l)) b logs
    = foldl (AddToBloom kec) b (logItems logs)" for b
    by (induction logs arbitrary: b) (simp_all add: logItems_def)
  then show ?thesis by (simp add: BloomFromLogs_def)
qed

lemma AddToBloom_all:
  "length bloom = 256 \<Longrightarrow> c < 2048 \<Longrightarrow> length (foldl (AddToBloom kec) bloom items) = 256 \<and>
   (bloomBit (foldl (AddToBloom kec) bloom items) c \<longleftrightarrow> bloomBit bloom c \<or> (\<exists>i \<in> set items. c \<in> set (bloomPositions kec i)))"
  by (induction items arbitrary: bloom) (auto simp: AddToBloom_bits)

lemma BloomFromLogs_bit: "c < 2048 \<Longrightarrow> bloomBit (BloomFromLogs kec logs) c \<longleftrightarrow> (\<exists>i \<in> set (logItems logs). c \<in> set (bloomPositions kec i))"
proof -
  assume c: "c < 2048"
  then have "c div 8 < 256"
    by (simp add: div_less_iff_less_mult)
  then have "\<not> bloomBit (replicate 256 0) c"
    by (simp add: bloomBit_bit del: replicate.simps)
  then show ?thesis
    using AddToBloom_all [of "replicate 256 0" c kec "logItems logs"] c by (simp add: BloomFromLogs_items del: replicate.simps)
qed

lemma no_false_negative: "item \<in> set (logItems logs) \<Longrightarrow> MayContain kec (BloomFromLogs kec logs) item"
  unfolding MayContain_def list_all_iff using BloomFromLogs_bit bloomPositions_bound by blast

lemma length_BloomFromLogs: "length (BloomFromLogs kec logs) = 256"
  using AddToBloom_all [of "replicate 256 0" 0 kec "logItems logs"] by (simp add: BloomFromLogs_items del: replicate.simps)

lemma unionBloom_bit:
  assumes "\<forall>r \<in> set rs. length (rc_Bloom r) = 256" "c < 2048"
  shows "length (unionBloom rs) = 256 \<and> (bloomBit (unionBloom rs) c \<longleftrightarrow> (\<exists>r \<in> set rs. bloomBit (rc_Bloom r) c))"
proof -
  have "c div 8 < 256"
    using assms(2) by (simp add: div_less_iff_less_mult)
  then have i: "255 - c div 8 < 256" by simp
  have "length bloom = 256 \<Longrightarrow> \<forall>r \<in> set rs. length (rc_Bloom r) = 256 \<Longrightarrow>
      length (foldl (\<lambda>out r. map2 (OR) out (rc_Bloom r)) bloom rs) = 256 \<and>
      (bloomBit (foldl (\<lambda>out r. map2 (OR) out (rc_Bloom r)) bloom rs) c \<longleftrightarrow> bloomBit bloom c \<or> (\<exists>r \<in> set rs. bloomBit (rc_Bloom r) c))" for bloom
    using i by (induction rs arbitrary: bloom) (auto simp: bloomBit_bit bit_or_iff)
  from this [of "replicate 256 0"] assms(1) i show ?thesis
    by (simp add: unionBloom_def bloomBit_bit del: replicate.simps)
qed

end
