(* ===== verification/Blocks.thy ===== *)
theory Blocks
  imports Receipts Encoding
begin

text \<open>
  Execution headers and authenticated blocks, \<^verbatim>\<open>src/internal/ethproof/headerrlp.go\<close> and \<^verbatim>\<open>blockscan.go\<close>. A pointer
  field of a header is an option. A block carries the flag \<open>ab_authentic\<close>, which only the two constructors set.
\<close>

datatype ExecutionFork = ForkUnknown | ForkLondon | ForkShanghai | ForkCancun | ForkPrague

datatype header_error = ErrForkUnrecorded | ErrHeaderIncomplete | ErrHeaderHashMismatch

fun forkRank :: "ExecutionFork \<Rightarrow> nat" where
  "forkRank ForkUnknown = 0"
| "forkRank ForkLondon = 1"
| "forkRank ForkShanghai = 2"
| "forkRank ForkCancun = 3"
| "forkRank ForkPrague = 4"

definition mainnetLondonTime :: u64 where "mainnetLondonTime = 1628166822"
definition mainnetShanghaiTime :: u64 where "mainnetShanghaiTime = 1681338455"
definition mainnetCancunTime :: u64 where "mainnetCancunTime = 1710338135"
definition mainnetPragueTime :: u64 where "mainnetPragueTime = 1746612311"

definition ExecutionForkAt :: "u64 \<Rightarrow> u64 \<Rightarrow> header_error + ExecutionFork" where
  "ExecutionForkAt chainID timestamp =
     (if chainID \<noteq> 1 then Inl ErrForkUnrecorded
      else if timestamp \<ge> mainnetPragueTime then Inr ForkPrague
      else if timestamp \<ge> mainnetCancunTime then Inr ForkCancun
      else if timestamp \<ge> mainnetShanghaiTime then Inr ForkShanghai
      else if timestamp \<ge> mainnetLondonTime then Inr ForkLondon
      else Inl ErrForkUnrecorded)"

record ExecutionHeader =
  eh_ParentHash :: bytes32
  eh_UncleHash :: bytes32
  eh_Coinbase :: bytes
  eh_StateRoot :: bytes32
  eh_TxRoot :: bytes32
  eh_ReceiptRoot :: bytes32
  eh_Bloom :: bytes
  eh_Difficulty :: bigint
  eh_Number :: bigint
  eh_GasLimit :: u64
  eh_GasUsed :: u64
  eh_Time :: u64
  eh_Extra :: bytes
  eh_MixDigest :: bytes32
  eh_Nonce :: bytes
  eh_BaseFee :: bigint
  eh_WithdrawalsRoot :: "bytes32 option"
  eh_BlobGasUsed :: "u64 option"
  eh_ExcessBlobGas :: "u64 option"
  eh_ParentBeaconBlockRoot :: "bytes32 option"
  eh_RequestsHash :: "bytes32 option"

definition commonFields :: "ExecutionHeader \<Rightarrow> bytes list" where
  "commonFields h =
     [EncodeRLPBytes (eh_ParentHash h), EncodeRLPBytes (eh_UncleHash h), EncodeRLPBytes (eh_Coinbase h),
      EncodeRLPBytes (eh_StateRoot h), EncodeRLPBytes (eh_TxRoot h), EncodeRLPBytes (eh_ReceiptRoot h),
      EncodeRLPBytes (eh_Bloom h), EncodeRLPBig (eh_Difficulty h), EncodeRLPBig (eh_Number h),
      EncodeRLPUint (eh_GasLimit h), EncodeRLPUint (eh_GasUsed h), EncodeRLPUint (eh_Time h),
      EncodeRLPBytes (eh_Extra h), EncodeRLPBytes (eh_MixDigest h), EncodeRLPBytes (eh_Nonce h)]"

definition need :: "'a option \<Rightarrow> ('a \<Rightarrow> header_error + 'b) \<Rightarrow> header_error + 'b" where
  "need field k = (case field of None \<Rightarrow> Inl ErrHeaderIncomplete | Some v \<Rightarrow> k v)"

definition londonFields :: "ExecutionHeader \<Rightarrow> ExecutionFork \<Rightarrow> header_error + bytes list" where
  "londonFields h fork =
     (if forkRank fork \<ge> forkRank ForkLondon
      then need (eh_BaseFee h) (\<lambda>v. Inr [EncodeRLPBig (Some v)]) else Inr [])"

definition shanghaiFields :: "ExecutionHeader \<Rightarrow> ExecutionFork \<Rightarrow> header_error + bytes list" where
  "shanghaiFields h fork =
     (if forkRank fork \<ge> forkRank ForkShanghai
      then need (eh_WithdrawalsRoot h) (\<lambda>v. Inr [EncodeRLPBytes v]) else Inr [])"

definition cancunFields :: "ExecutionHeader \<Rightarrow> ExecutionFork \<Rightarrow> header_error + bytes list" where
  "cancunFields h fork =
     (if forkRank fork \<ge> forkRank ForkCancun
      then need (eh_BlobGasUsed h) (\<lambda>used. need (eh_ExcessBlobGas h) (\<lambda>excess.
             need (eh_ParentBeaconBlockRoot h) (\<lambda>root.
               Inr [EncodeRLPUint used, EncodeRLPUint excess, EncodeRLPBytes root])))
      else Inr [])"

definition pragueFields :: "ExecutionHeader \<Rightarrow> ExecutionFork \<Rightarrow> header_error + bytes list" where
  "pragueFields h fork =
     (if forkRank fork \<ge> forkRank ForkPrague
      then need (eh_RequestsHash h) (\<lambda>v. Inr [EncodeRLPBytes v]) else Inr [])"

definition EncodeExecutionHeader :: "ExecutionHeader \<Rightarrow> ExecutionFork \<Rightarrow> header_error + bytes" where
  "EncodeExecutionHeader h fork =
     (if fork = ForkUnknown then Inl ErrForkUnrecorded
      else bindR (londonFields h fork) (\<lambda>london. bindR (shanghaiFields h fork) (\<lambda>shanghai.
           bindR (cancunFields h fork) (\<lambda>cancun. bindR (pragueFields h fork) (\<lambda>prague.
             Inr (EncodeRLPList (commonFields h @ london @ shanghai @ cancun @ prague)))))))"

definition AuthenticateHeader :: "hasher \<Rightarrow> ExecutionHeader \<Rightarrow> ExecutionFork \<Rightarrow> bytes32 \<Rightarrow> header_error + bytes32" where
  "AuthenticateHeader kec h fork authenticated =
     bindR (EncodeExecutionHeader h fork) (\<lambda>encoded.
       let got = copyArr 32 (Keccak256 kec [encoded]) in
       if got \<noteq> authenticated then Inl ErrHeaderHashMismatch else Inr got)"

subsection \<open>Authenticated blocks\<close>

datatype block_error = BlockHeader header_error | BlockReceipts receipt_error | ErrBlockNotAuthenticated

record AuthenticatedBlock =
  ab_Number :: u64
  ab_Hash :: bytes32
  ab_ParentHash :: bytes32
  ab_ReceiptsRoot :: bytes32
  ab_LogsBloom :: bytes
  ab_Timestamp :: u64
  ab_authentic :: bool

definition bigUint64 :: "int \<Rightarrow> u64" where
  \<comment> \<open>the low 64 bits of the absolute value\<close>
  "bigUint64 n = of_int \<bar>n\<bar>"

definition BlockFromParentLink :: "hasher \<Rightarrow> ExecutionHeader \<Rightarrow> ExecutionFork \<Rightarrow> bytes32 \<Rightarrow> header_error + AuthenticatedBlock" where
  "BlockFromParentLink kec h fork childParentHash =
     bindR (AuthenticateHeader kec h fork childParentHash) (\<lambda>hash.
       case eh_Number h of
         None \<Rightarrow> Inl ErrHeaderIncomplete
       | Some n \<Rightarrow>
           Inr \<lparr> ab_Number = bigUint64 n, ab_Hash = hash, ab_ParentHash = eh_ParentHash h,
                 ab_ReceiptsRoot = copyArr 32 (eh_ReceiptRoot h), ab_LogsBloom = eh_Bloom h,
                 ab_Timestamp = eh_Time h, ab_authentic = True \<rparr>)"

definition MayContainAddress :: "hasher \<Rightarrow> AuthenticatedBlock \<Rightarrow> bytes \<Rightarrow> bool" where
  "MayContainAddress kec b addr = MayContain kec (ab_LogsBloom b) addr"

definition logsOf :: "bytes \<Rightarrow> Receipt list \<Rightarrow> Log list" where
  "logsOf addr receipts = concat (map (\<lambda>r. filter (\<lambda>l. lg_Address l = addr) (rc_Logs r)) receipts)"

definition AuthenticatedLogsFrom :: "hasher \<Rightarrow> AuthenticatedBlock \<Rightarrow> bytes \<Rightarrow> Receipt list \<Rightarrow> block_error + Log list" where
  "AuthenticatedLogsFrom kec b addr receipts =
     (if \<not> ab_authentic b then Inl ErrBlockNotAuthenticated
      else (case AuthenticateReceipts kec (ab_ReceiptsRoot b) receipts of
              Inl e \<Rightarrow> Inl (BlockReceipts e)
            | Inr verified \<Rightarrow>
                if unionBloom verified \<noteq> ab_LogsBloom b then Inl (BlockReceipts ErrReceiptsRootMismatch)
                else Inr (logsOf addr verified)))"

subsection \<open>A header is its encoding\<close>

definition bigOctets :: "bigint \<Rightarrow> bytes" where
  "bigOctets v = (case v of None \<Rightarrow> [] | Some n \<Rightarrow> if n \<le> 0 then [] else bigBytes n)"

lemma EncodeRLPBig_item: "EncodeRLPBig v = EncodeRLPBytes (bigOctets v)"
  by (simp add: EncodeRLPBig_def bigOctets_def EncodeRLPBytes_Nil split: option.split)

definition commonOctets :: "ExecutionHeader \<Rightarrow> bytes list" where
  "commonOctets h =
     [eh_ParentHash h, eh_UncleHash h, eh_Coinbase h, eh_StateRoot h, eh_TxRoot h, eh_ReceiptRoot h, eh_Bloom h,
      bigOctets (eh_Difficulty h), bigOctets (eh_Number h), uintOctets (eh_GasLimit h), uintOctets (eh_GasUsed h),
      uintOctets (eh_Time h), eh_Extra h, eh_MixDigest h, eh_Nonce h]"

lemma commonFields_item: "commonFields h = map EncodeRLPBytes (commonOctets h)"
  by (simp add: commonFields_def commonOctets_def EncodeRLPBig_item EncodeRLPUint_item)

definition encodedOctets :: "bytes list \<Rightarrow> bool" where
  "encodedOctets xs \<longleftrightarrow> (\<exists>os. xs = map EncodeRLPBytes os)"

lemma encodedOctets_simps [simp]: "encodedOctets []" "encodedOctets (EncodeRLPBytes x # xs) \<longleftrightarrow> encodedOctets xs"
  by (auto simp: encodedOctets_def Cons_eq_map_conv)

lemma encodedOctets_append: "encodedOctets xs \<Longrightarrow> encodedOctets ys \<Longrightarrow> encodedOctets (xs @ ys)"
  by (auto simp: encodedOctets_def) (metis map_append)

lemma fork_fields_octets:
  "londonFields h fork = Inr xs \<Longrightarrow> encodedOctets xs" "shanghaiFields h fork = Inr xs \<Longrightarrow> encodedOctets xs"
  "cancunFields h fork = Inr xs \<Longrightarrow> encodedOctets xs" "pragueFields h fork = Inr xs \<Longrightarrow> encodedOctets xs"
  by (auto simp: londonFields_def shanghaiFields_def cancunFields_def pragueFields_def need_def EncodeRLPBig_item EncodeRLPUint_item
      split: if_splits option.splits)

lemma EncodeExecutionHeader_item:
  "EncodeExecutionHeader h fork = Inr enc \<Longrightarrow> \<exists>more. enc = rlpEnc (RlpList (map RlpBytes (commonOctets h @ more)))"
proof -
  assume "EncodeExecutionHeader h fork = Inr enc"
  then obtain xs where enc: "enc = EncodeRLPList (commonFields h @ xs)" "encodedOctets xs"
    unfolding EncodeExecutionHeader_def by (fastforce simp: bindR_Inr split: if_splits dest: fork_fields_octets intro: encodedOctets_append)
  then obtain os where "xs = map EncodeRLPBytes os"
    by (auto simp: encodedOctets_def)
  with enc have "enc = rlpEnc (RlpList (map RlpBytes (commonOctets h @ os)))"
    by (simp add: commonFields_item comp_def)
  then show ?thesis ..
qed

definition separatesEnc :: "hasher \<Rightarrow> bytes \<Rightarrow> bytes \<Rightarrow> bool" where
  "separatesEnc kec enc enc' \<longleftrightarrow> (copyArr 32 (kec enc) = copyArr 32 (kec enc') \<longrightarrow> enc = enc')"

definition headerOK :: "ExecutionHeader \<Rightarrow> bool" where
  "headerOK h \<longleftrightarrow> (\<forall>n. eh_Number h = Some n \<longrightarrow> 0 \<le> n)"

lemma bigOctets_inj: "bigOctets (Some m) = bigOctets (Some n) \<Longrightarrow> 0 \<le> m \<Longrightarrow> 0 \<le> n \<Longrightarrow> m = n"
proof -
  assume eq: "bigOctets (Some m) = bigOctets (Some n)" and nonneg: "0 \<le> m" "0 \<le> n"
  have "bytesNat (bigOctets (Some k)) = nat k" if "0 \<le> k" for k
    using that by (auto simp: bigOctets_def bigBytes_def)
  from this [OF nonneg(1)] this [OF nonneg(2)] eq nonneg show "m = n"
    by simp
qed

text \<open>The block a header describes is determined by the encoding, whatever fork it was encoded for.\<close>

definition blockView :: "ExecutionHeader \<Rightarrow> bytes32 \<times> bytes32 \<times> bytes \<times> u64 \<times> bytes" where
  "blockView h = (eh_ParentHash h, eh_ReceiptRoot h, eh_Bloom h, eh_Time h, bigOctets (eh_Number h))"

lemma header_determines_block:
  assumes "EncodeExecutionHeader h fork = Inr enc" "EncodeExecutionHeader h' fork' = Inr enc" "length enc < 2 ^ 62"
  shows "blockView h = blockView h'"
proof -
  obtain more where m: "enc = rlpEnc (RlpList (map RlpBytes (commonOctets h @ more)))"
    using EncodeExecutionHeader_item [OF assms(1)] by blast
  obtain more' where m': "enc = rlpEnc (RlpList (map RlpBytes (commonOctets h' @ more')))"
    using EncodeExecutionHeader_item [OF assms(2)] by blast
  have "RlpList (map RlpBytes (commonOctets h @ more)) = RlpList (map RlpBytes (commonOctets h' @ more'))"
    using m m' assms(3) by (intro rlpEnc_inj) simp_all
  then have "map RlpBytes (commonOctets h @ more) = map RlpBytes (commonOctets h' @ more')"
    by (simp only: rlpItem.inject)
  then show ?thesis
    by (auto simp: commonOctets_def blockView_def dest: uintOctets_inj)
qed

definition encodesWithin :: "bytes set \<Rightarrow> ExecutionHeader \<Rightarrow> bool" where
  \<comment> \<open>every encoding of the header is in the set\<close>
  "encodesWithin S h \<longleftrightarrow> headerOK h \<and> (\<forall>fork enc. EncodeExecutionHeader h fork = Inr enc \<longrightarrow> enc \<in> S)"

definition hashesApart :: "hasher \<Rightarrow> bytes set \<Rightarrow> bool" where
  "hashesApart kec S \<longleftrightarrow> inj_on (\<lambda>x. copyArr 32 (kec x)) S \<and> (\<forall>x \<in> S. length x < 2 ^ 62)"

lemma link_Inr:
  assumes "BlockFromParentLink kec h fork p = Inr b"
  obtains enc n where "EncodeExecutionHeader h fork = Inr enc" "copyArr 32 (kec enc) = p" "eh_Number h = Some n"
    "b = \<lparr> ab_Number = bigUint64 n, ab_Hash = p, ab_ParentHash = eh_ParentHash h, ab_ReceiptsRoot = copyArr 32 (eh_ReceiptRoot h),
       ab_LogsBloom = eh_Bloom h, ab_Timestamp = eh_Time h, ab_authentic = True \<rparr>"
  using assms by (auto simp: BlockFromParentLink_def AuthenticateHeader_def Keccak256_def bindR_Inr Let_def split: if_splits option.splits)

lemma link_determines_block:
  assumes "BlockFromParentLink kec h fork p = Inr b" "BlockFromParentLink kec h' fork' p = Inr b'"
    and "encodesWithin S h" "encodesWithin S h'" "hashesApart kec S"
  shows "b = b'"
proof -
  obtain enc n where e: "EncodeExecutionHeader h fork = Inr enc" "copyArr 32 (kec enc) = p" "eh_Number h = Some n"
    and b: "b = \<lparr> ab_Number = bigUint64 n, ab_Hash = p, ab_ParentHash = eh_ParentHash h, ab_ReceiptsRoot = copyArr 32 (eh_ReceiptRoot h),
       ab_LogsBloom = eh_Bloom h, ab_Timestamp = eh_Time h, ab_authentic = True \<rparr>"
    using link_Inr [OF assms(1)] by metis
  obtain enc' n' where e': "EncodeExecutionHeader h' fork' = Inr enc'" "copyArr 32 (kec enc') = p" "eh_Number h' = Some n'"
    and b': "b' = \<lparr> ab_Number = bigUint64 n', ab_Hash = p, ab_ParentHash = eh_ParentHash h', ab_ReceiptsRoot = copyArr 32 (eh_ReceiptRoot h'),
       ab_LogsBloom = eh_Bloom h', ab_Timestamp = eh_Time h', ab_authentic = True \<rparr>"
    using link_Inr [OF assms(2)] by metis
  have S: "enc \<in> S" "enc' \<in> S" "0 \<le> n" "0 \<le> n'"
    using assms(3,4) e e' by (auto simp: encodesWithin_def headerOK_def)
  then have "enc = enc'"
    using assms(5) e(2) e'(2) by (auto simp: hashesApart_def dest: inj_onD)
  then have "blockView h = blockView h'"
    using header_determines_block [OF e(1)] e'(1) S(1) assms(5) by (simp add: hashesApart_def)
  then show ?thesis
    using b b' S(3,4) e(3) e'(3) bigOctets_inj [of n n'] by (auto simp: blockView_def)
qed

subsection \<open>Logs of a block\<close>

text \<open>What the consensus rules say of a receipt: its filter is that of its logs.\<close>

definition honestBlooms :: "hasher \<Rightarrow> Receipt list \<Rightarrow> bool" where
  "honestBlooms kec rs \<longleftrightarrow> (\<forall>r \<in> set rs. rc_Bloom r = BloomFromLogs kec (rc_Logs r))"

lemma logsOf_in: "l \<in> set (logsOf addr rs) \<longleftrightarrow> lg_Address l = addr \<and> (\<exists>r \<in> set rs. l \<in> set (rc_Logs r))"
  by (auto simp: logsOf_def)

lemma skipped_has_no_logs:
  assumes "\<not> MayContainAddress kec b addr" "honestBlooms kec rs" "unionBloom rs = ab_LogsBloom b"
  shows "logsOf addr rs = []"
proof (rule ccontr)
  assume "logsOf addr rs \<noteq> []"
  then obtain l r where l: "r \<in> set rs" "l \<in> set (rc_Logs r)" "lg_Address l = addr"
    using logsOf_in by (metis list.set_intros(1) neq_Nil_conv)
  have len: "\<forall>r \<in> set rs. length (rc_Bloom r) = 256"
    using assms(2) by (simp add: honestBlooms_def length_BloomFromLogs)
  have "addr \<in> set (logItems (rc_Logs r))"
    using l by (auto simp: logItems_def)
  then have "MayContain kec (rc_Bloom r) addr"
    using assms(2) l(1) no_false_negative by (simp add: honestBlooms_def)
  then have "MayContain kec (unionBloom rs) addr"
    unfolding MayContain_def list_all_iff using unionBloom_bit [OF len] bloomPositions_bound l(1) by blast
  then show False
    using assms(1,3) by (simp add: MayContainAddress_def)
qed

end
