(* ===== verification/Follower.thy ===== *)
theory Follower
  imports Blocks
begin

text \<open>
  Following the finalised chain, \<^verbatim>\<open>src/internal/ethproof/chainfollower.go\<close>. The header source, the receipt source,
  the beacon client, the handler and the disk are arguments (\<open>sources\<close>): what they answer is unconstrained. The
  state holds the stored checkpoint and the blocks whose handler has returned without an error.
\<close>

datatype follow_error =
    ErrNoAuthenticatedCheckpoint | ErrReorgBeyondCheckpoint | ErrCatchUpTooLarge | ErrSource | ErrShortBatch
  | FollowHeader header_error | FollowBlock block_error | ErrHandler | ErrStore

record FollowerCheckpoint =
  cp_BlockNumber :: u64
  cp_BlockHash :: bytes32

record sources =
  src_Headers :: "u64 \<Rightarrow> int \<Rightarrow> ExecutionHeader list option"
  src_Receipts :: "u64 \<Rightarrow> Receipt list option"
  src_Finalized :: "AuthenticatedBlock option"
  src_LoadOK :: bool
  src_Save :: "FollowerCheckpoint \<Rightarrow> bool"
  src_Handle :: "AuthenticatedBlock \<Rightarrow> Log list \<Rightarrow> bool"

record ChainFollower =
  cf_ChainID :: u64
  cf_Contract :: bytes
  cf_MaxCatchUp :: int
  cf_BatchSize :: int

record FollowProgress =
  pg_From :: u64
  pg_To :: u64
  pg_BlocksExamined :: nat
  pg_BlocksSkipped :: nat
  pg_BlocksFetched :: nat
  pg_LogsFound :: nat

record FollowState =
  fs_Checkpoint :: "FollowerCheckpoint option"
  fs_Delivered :: "(AuthenticatedBlock \<times> Log list) list"

subsection \<open>Walking back\<close>

fun linkHeaders ::
  "hasher \<Rightarrow> u64 \<Rightarrow> ExecutionHeader list \<Rightarrow> AuthenticatedBlock list \<Rightarrow> bytes32 \<Rightarrow> u64
   \<Rightarrow> follow_error + AuthenticatedBlock list \<times> bytes32 \<times> u64" where
  "linkHeaders kec chainID [] chain expected next' = Inr (chain, expected, next')"
| "linkHeaders kec chainID (h # hs) chain expected next' =
     (case ExecutionForkAt chainID (eh_Time h) of
        Inl e \<Rightarrow> Inl (FollowHeader e)
      | Inr fork \<Rightarrow>
          (case BlockFromParentLink kec h fork expected of
             Inl e \<Rightarrow> Inl (FollowHeader e)
           | Inr b \<Rightarrow>
               if ab_Number b \<noteq> next' then Inl (FollowHeader ErrHeaderHashMismatch)
               else linkHeaders kec chainID hs (chain @ [b]) (ab_ParentHash b) (next' - 1)))"

definition batchCount :: "ChainFollower \<Rightarrow> u64 \<Rightarrow> u64 \<Rightarrow> int" where
  "batchCount f cpNumber next' =
     (let batch = (if cf_BatchSize f \<le> 0 then 100 else cf_BatchSize f);
          remaining = i64 (uint (next' - cpNumber))
      in if remaining < batch then remaining else batch)"

lemma linkHeaders_next: "linkHeaders kec chainID hs chain expected n = Inr (chain', expected', n') \<Longrightarrow> n' = n - of_nat (length hs)"
  by (induction kec chainID hs chain expected n rule: linkHeaders.induct) (auto simp: algebra_simps split: sum.splits if_splits)

lemma i64_upper_half:
  assumes "2 ^ 63 \<le> x" "x < 2 ^ 64"
  shows "i64 x < 0"
proof -
  have "(x + 2 ^ 63) mod 2 ^ 64 = ((x - 2 ^ 63) + 2 ^ 64) mod 2 ^ 64"
    by (simp add: algebra_simps)
  also have "\<dots> = x - 2 ^ 63"
    by (subst mod_add_self2, rule mod_pos_pos_trivial) (use assms in simp_all)
  finally show ?thesis
    using assms by (simp add: i64_def)
qed

lemma unat_minus_nat: "k \<le> unat (n :: u64) \<Longrightarrow> unat (n - of_nat k) = unat n - k"
proof -
  assume k: "k \<le> unat n"
  have "unat n < 2 ^ 64"
    using unsigned_less [of n] by simp
  with k have "unat (of_nat k :: u64) = k"
    by (simp add: unat_of_nat)
  then show ?thesis
    using k by (subst unat_sub) (simp_all add: word_le_nat_alt)
qed

lemma smaller_count:
  "R = int d \<or> R < 0 \<Longrightarrow> 0 < d \<Longrightarrow>
   int k = (if R < (if B \<le> 0 then 100 else B) then R else (if B \<le> 0 then 100 else B)) \<Longrightarrow> 0 < k \<and> k \<le> d"
  by (auto split: if_splits)

lemma batchCount_positive:
  assumes "cpNumber < n" "int k = batchCount f cpNumber n"
  shows "0 < k \<and> k \<le> unat n - unat cpNumber"
proof -
  have lt: "unat cpNumber < unat n" and nat_sub: "unat (n - cpNumber) = unat n - unat cpNumber"
    using assms(1) by (simp_all add: word_less_nat_alt unat_sub word_le_nat_alt)
  have "uint (n - cpNumber) = int (unat (n - cpNumber))"
    by simp
  then have sub: "uint (n - cpNumber) = int (unat n - unat cpNumber)"
    by (simp only: nat_sub)
  have "i64 (uint (n - cpNumber)) = uint (n - cpNumber) \<or> i64 (uint (n - cpNumber)) < 0"
  proof (cases "uint (n - cpNumber) < 2 ^ 63")
    case False
    have "uint (n - cpNumber) < 2 ^ 64"
      using uint_bounded [of "n - cpNumber"] by simp
    then have "i64 (uint (n - cpNumber)) < 0"
      using False by (intro i64_upper_half) simp_all
    then show ?thesis ..
  next
    case True
    moreover have "0 \<le> uint (n - cpNumber)"
      by (rule unsigned_greater_eq)
    ultimately have "i64 (uint (n - cpNumber)) = uint (n - cpNumber)"
      by (intro i64_id) linarith+
    then show ?thesis ..
  qed
  then show ?thesis
    using smaller_count [of "i64 (uint (n - cpNumber))" "unat n - unat cpNumber" k "cf_BatchSize f"] assms(2) lt
    unfolding sub batchCount_def Let_def by linarith
qed

function walkLoop ::
  "hasher \<Rightarrow> ChainFollower \<Rightarrow> sources \<Rightarrow> u64 \<Rightarrow> AuthenticatedBlock list \<Rightarrow> bytes32 \<Rightarrow> u64
   \<Rightarrow> follow_error + AuthenticatedBlock list \<times> bytes32" where
  "walkLoop kec f s cpNumber chain expected next' =
     (if next' > cpNumber
      then (let count = batchCount f cpNumber next' in
        case src_Headers s next' count of
          None \<Rightarrow> Inl ErrSource
        | Some hs \<Rightarrow>
            if int (length hs) \<noteq> count then Inl ErrShortBatch
            else (case linkHeaders kec (cf_ChainID f) hs chain expected next' of
                    Inl e \<Rightarrow> Inl e
                  | Inr (chain', expected', next'') \<Rightarrow> walkLoop kec f s cpNumber chain' expected' next''))
      else Inr (chain, expected))"
  by pat_completeness auto
termination walkLoop
proof (relation "measure (\<lambda>(kec, f, s, cpNumber, chain, expected, n). unat n)", goal_cases)
  case (2 kec f s cpNumber chain expected n count hs r chain' y expected' n')
  then have n': "n' = n - of_nat (length hs)"
    using linkHeaders_next [of kec "cf_ChainID f" hs chain expected n chain' expected' n'] by auto
  have k: "0 < length hs" "length hs \<le> unat n - unat cpNumber"
    using batchCount_positive [of cpNumber n "length hs" f] 2 by simp_all
  then have "unat n' = unat n - length hs"
    unfolding n' by (intro unat_minus_nat) simp
  with k 2 show ?case by (auto simp: word_less_nat_alt)
qed simp

declare walkLoop.simps [simp del]

definition walkBack ::
  "hasher \<Rightarrow> ChainFollower \<Rightarrow> sources \<Rightarrow> AuthenticatedBlock \<Rightarrow> FollowerCheckpoint \<Rightarrow> follow_error + AuthenticatedBlock list" where
  "walkBack kec f s head cp =
     (case walkLoop kec f s (cp_BlockNumber cp) [head] (ab_ParentHash head) (ab_Number head - 1) of
        Inl e \<Rightarrow> Inl e
      | Inr (chain, expected) \<Rightarrow> if expected \<noteq> cp_BlockHash cp then Inl ErrReorgBeyondCheckpoint else Inr chain)"

subsection \<open>Advancing\<close>

definition blockLogs ::
  "hasher \<Rightarrow> ChainFollower \<Rightarrow> sources \<Rightarrow> AuthenticatedBlock \<Rightarrow> FollowProgress \<Rightarrow> follow_error + Log list \<times> FollowProgress" where
  "blockLogs kec f s b pg =
     (if \<not> MayContainAddress kec b (cf_Contract f)
      then Inr ([], pg\<lparr>pg_BlocksSkipped := Suc (pg_BlocksSkipped pg)\<rparr>)
      else (case src_Receipts s (ab_Number b) of
              None \<Rightarrow> Inl ErrSource
            | Some receipts \<Rightarrow>
                (case AuthenticatedLogsFrom kec b (cf_Contract f) receipts of
                   Inl e \<Rightarrow> Inl (FollowBlock e)
                 | Inr logs \<Rightarrow> Inr (logs, pg\<lparr>pg_BlocksFetched := Suc (pg_BlocksFetched pg),
                                          pg_LogsFound := pg_LogsFound pg + length logs\<rparr>))))"

definition checkpointOf :: "AuthenticatedBlock \<Rightarrow> FollowerCheckpoint" where
  "checkpointOf b = \<lparr> cp_BlockNumber = ab_Number b, cp_BlockHash = ab_Hash b \<rparr>"

fun processBlocks ::
  "hasher \<Rightarrow> ChainFollower \<Rightarrow> sources \<Rightarrow> AuthenticatedBlock list \<Rightarrow> FollowState \<Rightarrow> FollowProgress
   \<Rightarrow> FollowState \<times> FollowProgress \<times> (follow_error + unit)" where
  "processBlocks kec f s [] st pg = (st, pg, Inr ())"
| "processBlocks kec f s (b # bs) st pg =
     (let pg1 = pg\<lparr>pg_BlocksExamined := Suc (pg_BlocksExamined pg)\<rparr> in
      case blockLogs kec f s b pg1 of
        Inl e \<Rightarrow> (st, pg1, Inl e)
      | Inr (logs, pg2) \<Rightarrow>
          if \<not> src_Handle s b logs then (st, pg2, Inl ErrHandler)
          else let st1 = st\<lparr>fs_Delivered := fs_Delivered st @ [(b, logs)]\<rparr> in
            if \<not> src_Save s (checkpointOf b) then (st1, pg2, Inl ErrStore)
            else processBlocks kec f s bs (st1\<lparr>fs_Checkpoint := Some (checkpointOf b)\<rparr>) pg2)"

definition noProgress :: FollowProgress where
  "noProgress = \<lparr> pg_From = 0, pg_To = 0, pg_BlocksExamined = 0, pg_BlocksSkipped = 0, pg_BlocksFetched = 0, pg_LogsFound = 0 \<rparr>"

definition Advance ::
  "hasher \<Rightarrow> ChainFollower \<Rightarrow> sources \<Rightarrow> FollowState \<Rightarrow> FollowState \<times> FollowProgress \<times> (follow_error + unit)" where
  "Advance kec f s st =
     (if \<not> src_LoadOK s then (st, noProgress, Inl ErrStore)
      else (case fs_Checkpoint st of
        None \<Rightarrow> (st, noProgress, Inl ErrNoAuthenticatedCheckpoint)
      | Some cp \<Rightarrow>
          (case src_Finalized s of
             None \<Rightarrow> (st, noProgress, Inl ErrSource)
           | Some head \<Rightarrow>
               if \<not> ab_authentic head then (st, noProgress, Inl (FollowBlock ErrBlockNotAuthenticated))
               else let pg = noProgress\<lparr>pg_From := cp_BlockNumber cp, pg_To := ab_Number head\<rparr> in
                 if ab_Number head = cp_BlockNumber cp then
                   (if ab_Hash head \<noteq> cp_BlockHash cp then (st, pg, Inl ErrReorgBeyondCheckpoint) else (st, pg, Inr ()))
                 else if ab_Number head < cp_BlockNumber cp then (st, pg, Inl ErrReorgBeyondCheckpoint)
                 else if cf_MaxCatchUp f > 0 \<and> i64 (uint (ab_Number head - cp_BlockNumber cp)) > cf_MaxCatchUp f
                   then (st, pg, Inl ErrCatchUpTooLarge)
                 else (case walkBack kec f s head cp of
                         Inl e \<Rightarrow> (st, pg, Inl e)
                       | Inr chain \<Rightarrow> processBlocks kec f s (rev chain) st pg))))"

definition Initialize :: "sources \<Rightarrow> FollowState \<Rightarrow> FollowState \<times> (follow_error + FollowerCheckpoint)" where
  "Initialize s st =
     (case src_Finalized s of
        None \<Rightarrow> (st, Inl ErrSource)
      | Some head \<Rightarrow>
          if \<not> ab_authentic head then (st, Inl (FollowBlock ErrBlockNotAuthenticated))
          else if \<not> src_Save s (checkpointOf head) then (st, Inl ErrStore)
          else (st\<lparr>fs_Checkpoint := Some (checkpointOf head)\<rparr>, Inr (checkpointOf head)))"

definition InitializeAt :: "sources \<Rightarrow> FollowerCheckpoint \<Rightarrow> FollowState \<Rightarrow> FollowState \<times> (follow_error + unit)" where
  "InitializeAt s cp st =
     (if cp_BlockNumber cp = 0 \<or> cp_BlockHash cp = zero32 then (st, Inl ErrNoAuthenticatedCheckpoint)
      else if \<not> src_Save s cp then (st, Inl ErrStore)
      else (st\<lparr>fs_Checkpoint := Some cp\<rparr>, Inr ()))"

subsection \<open>The checkpoint file\<close>

datatype checkpointFile = NoFile | BadFile | CheckpointJson u64 string

definition trimHexPrefix :: "string \<Rightarrow> string" where
  "trimHexPrefix s = (if length s \<ge> 2 \<and> (take 2 s = ''0x'' \<or> take 2 s = ''0X'') then drop 2 s else s)"

definition LoadCheckpoint :: "checkpointFile \<Rightarrow> follow_error + FollowerCheckpoint option" where
  \<comment> \<open>\<open>BadFile\<close> stands for a read error other than an absent file and for what \<^verbatim>\<open>json.Unmarshal\<close> refuses\<close>
  "LoadCheckpoint file =
     (case file of
        NoFile \<Rightarrow> Inr None
      | BadFile \<Rightarrow> Inl ErrStore
      | CheckpointJson n h \<Rightarrow>
          (case hexDecode (trimHexPrefix h) of
             None \<Rightarrow> Inl ErrStore
           | Some raw \<Rightarrow> if length raw \<noteq> 32 then Inl ErrStore
               else Inr (Some \<lparr> cp_BlockNumber = n, cp_BlockHash = raw \<rparr>)))"

definition SaveCheckpoint :: "bool \<Rightarrow> FollowerCheckpoint \<Rightarrow> checkpointFile \<Rightarrow> checkpointFile \<times> (follow_error + unit)" where
  \<comment> \<open>the file is replaced by the rename, the last step; an earlier failure leaves the old one\<close>
  "SaveCheckpoint renamed cp file =
     (if renamed then (CheckpointJson (cp_BlockNumber cp) (''0x'' @ hexEncode (cp_BlockHash cp)), Inr ())
      else (file, Inl ErrStore))"

lemma checkpoint_roundtrip:
  "length (cp_BlockHash cp) = 32 \<Longrightarrow> LoadCheckpoint (fst (SaveCheckpoint True cp file)) = Inr (Some cp)"
  by (simp add: LoadCheckpoint_def SaveCheckpoint_def trimHexPrefix_def)

lemma save_fails_old_stays: "LoadCheckpoint (fst (SaveCheckpoint False cp file)) = LoadCheckpoint file"
  by (simp add: SaveCheckpoint_def)

end
