(* ===== verification/Follower_Props.thy ===== *)
theory Follower_Props
  imports Follower "HOL-Library.Multiset"
begin

text \<open>What the follower of \<^verbatim>\<open>chainfollower.go\<close> delivers: the walk back is one chain, and every log in it is handed over.\<close>

subsection \<open>The walk is one chain\<close>

fun linked :: "AuthenticatedBlock list \<Rightarrow> bool" where
  "linked (b # c # r) \<longleftrightarrow> ab_ParentHash b = ab_Hash c \<and> ab_Number c = ab_Number b - 1 \<and> ab_authentic c \<and> linked (c # r)"
| "linked _ \<longleftrightarrow> True"

lemma linked_snoc:
  "bs \<noteq> [] \<Longrightarrow> linked (bs @ [c]) \<longleftrightarrow>
   linked bs \<and> ab_ParentHash (last bs) = ab_Hash c \<and> ab_Number c = ab_Number (last bs) - 1 \<and> ab_authentic c"
  by (induction bs rule: linked.induct) auto

definition walking :: "AuthenticatedBlock \<Rightarrow> AuthenticatedBlock list \<Rightarrow> bytes32 \<Rightarrow> u64 \<Rightarrow> bool" where
  \<comment> \<open>the invariant of the walk\<close>
  "walking head chain expected next' \<longleftrightarrow>
     chain \<noteq> [] \<and> hd chain = head \<and> linked chain \<and> ab_ParentHash (last chain) = expected \<and> next' = ab_Number (last chain) - 1"

lemma link_facts: "BlockFromParentLink kec h fork p = Inr b \<Longrightarrow> ab_Hash b = p \<and> ab_authentic b"
  using link_Inr [of kec h fork p b] by (metis AuthenticatedBlock.select_convs(2,7))

lemma linkHeaders_walking:
  "linkHeaders kec chainID hs chain expected n = Inr (chain', expected', n') \<Longrightarrow> walking head chain expected n \<Longrightarrow>
   walking head chain' expected' n'"
proof (induction kec chainID hs chain expected n rule: linkHeaders.induct)
  case (2 kec chainID h hs chain expected n)
  from "2.prems"(1) obtain fork b where f: "ExecutionForkAt chainID (eh_Time h) = Inr fork"
    and b: "BlockFromParentLink kec h fork expected = Inr b" "ab_Number b = n"
    and rest: "linkHeaders kec chainID hs (chain @ [b]) (ab_ParentHash b) (n - 1) = Inr (chain', expected', n')"
    by (auto split: sum.splits if_splits)
  have "walking head (chain @ [b]) (ab_ParentHash b) (n - 1)"
    using "2.prems"(2) link_facts [OF b(1)] b(2) by (auto simp: walking_def linked_snoc)
  then show ?case
    using "2.IH" [OF f b(1)] b(2) rest by simp
qed simp

lemma walkLoop_walking:
  "walkLoop kec f s cpN chain expected n = Inr (chain', expected') \<Longrightarrow> walking head chain expected n \<Longrightarrow> cpN \<le> n \<Longrightarrow>
   walking head chain' expected' cpN"
proof (induction kec f s cpN chain expected n rule: walkLoop.induct)
  case (1 kec f s cpN chain expected n)
  show ?case
  proof (cases "cpN < n")
    case True
    then obtain hs c e m where hs: "src_Headers s n (batchCount f cpN n) = Some hs" "int (length hs) = batchCount f cpN n"
      and l: "linkHeaders kec (cf_ChainID f) hs chain expected n = Inr (c, e, m)"
      and rest: "walkLoop kec f s cpN c e m = Inr (chain', expected')"
      using "1.prems"(1) unfolding walkLoop.simps [of kec f s cpN chain expected n]
      by (auto simp: Let_def split: option.splits sum.splits if_splits)
    have k: "length hs \<le> unat n - unat cpN"
      using batchCount_positive [OF True hs(2)] by simp
    have "unat m = unat n - length hs"
      using k unfolding linkHeaders_next [OF l] by (intro unat_minus_nat) simp
    then have "cpN \<le> m"
      using k True by (simp add: word_le_nat_alt word_less_nat_alt)
    then show ?thesis
      using "1.IH" [OF True refl hs(1) _ l refl refl rest] hs(2) linkHeaders_walking [OF l "1.prems"(2)] by simp
  next
    case False
    then have "n = cpN"
      using "1.prems"(3) by simp
    with 1 False show ?thesis
      by (simp add: walkLoop.simps [of kec f s cpN chain expected cpN])
  qed
qed

lemma less_pred: "(a :: u64) < b \<Longrightarrow> a \<le> b - 1"
  using unat_minus_nat [of 1 b] by (simp add: word_less_nat_alt word_le_nat_alt)

theorem walk_is_linked:
  assumes "walkBack kec f s head cp = Inr chain" "cp_BlockNumber cp < ab_Number head"
  shows "hd chain = head \<and> linked chain \<and> chain \<noteq> [] \<and> ab_ParentHash (last chain) = cp_BlockHash cp \<and>
    cp_BlockNumber cp = ab_Number (last chain) - 1"
proof -
  obtain expected where w: "walkLoop kec f s (cp_BlockNumber cp) [head] (ab_ParentHash head) (ab_Number head - 1) = Inr (chain, expected)"
    "expected = cp_BlockHash cp"
    using assms(1) by (auto simp: walkBack_def split: sum.splits if_splits)
  have "walking head chain expected (cp_BlockNumber cp)"
    by (rule walkLoop_walking [OF w(1)]) (simp_all add: walking_def less_pred [OF assms(2)])
  with w(2) show ?thesis
    by (auto simp: walking_def)
qed

subsection \<open>The chain does not depend on who sends the headers\<close>

definition sourceWithin :: "bytes set \<Rightarrow> sources \<Rightarrow> bool" where
  "sourceWithin S s \<longleftrightarrow> (\<forall>from count hs. src_Headers s from count = Some hs \<longrightarrow> (\<forall>h \<in> set hs. encodesWithin S h))"

inductive hashedFrom :: "hasher \<Rightarrow> bytes set \<Rightarrow> AuthenticatedBlock \<Rightarrow> AuthenticatedBlock list \<Rightarrow> bool"
  for kec S head where
  start: "hashedFrom kec S head [head]"
| step: "hashedFrom kec S head chain \<Longrightarrow> BlockFromParentLink kec h fork (ab_ParentHash (last chain)) = Inr b \<Longrightarrow>
    encodesWithin S h \<Longrightarrow> hashedFrom kec S head (chain @ [b])"

lemma hashedFrom_nonempty: "hashedFrom kec S head chain \<Longrightarrow> chain \<noteq> []"
  by (induction rule: hashedFrom.induct) simp_all

lemma linkHeaders_hashed:
  "linkHeaders kec chainID hs chain expected n = Inr (chain', expected', n') \<Longrightarrow> \<forall>h \<in> set hs. encodesWithin S h \<Longrightarrow>
   hashedFrom kec S head chain \<Longrightarrow> ab_ParentHash (last chain) = expected \<Longrightarrow>
   hashedFrom kec S head chain' \<and> ab_ParentHash (last chain') = expected' \<and> length chain' = length chain + length hs"
proof (induction kec chainID hs chain expected n rule: linkHeaders.induct)
  case (2 kec chainID h hs chain expected n)
  from "2.prems"(1) obtain fork b where f: "ExecutionForkAt chainID (eh_Time h) = Inr fork"
    and b: "BlockFromParentLink kec h fork expected = Inr b" "ab_Number b = n"
    and rest: "linkHeaders kec chainID hs (chain @ [b]) (ab_ParentHash b) (n - 1) = Inr (chain', expected', n')"
    by (auto split: sum.splits if_splits)
  have "hashedFrom kec S head (chain @ [b])"
    using hashedFrom.step [OF "2.prems"(3)] b(1) "2.prems"(2,4) by simp
  then show ?case
    using "2.IH" [OF f b(1) _ rest] b(2) "2.prems"(2) by simp
qed simp

lemma walkLoop_hashed:
  "walkLoop kec f s cpN chain expected n = Inr (chain', expected') \<Longrightarrow> sourceWithin S s \<Longrightarrow> hashedFrom kec S head chain \<Longrightarrow>
   ab_ParentHash (last chain) = expected \<Longrightarrow> cpN \<le> n \<Longrightarrow>
   hashedFrom kec S head chain' \<and> length chain' = length chain + (unat n - unat cpN)"
proof (induction kec f s cpN chain expected n rule: walkLoop.induct)
  case (1 kec f s cpN chain expected n)
  show ?case
  proof (cases "cpN < n")
    case True
    then obtain hs c e m where hs: "src_Headers s n (batchCount f cpN n) = Some hs" "int (length hs) = batchCount f cpN n"
      and l: "linkHeaders kec (cf_ChainID f) hs chain expected n = Inr (c, e, m)"
      and rest: "walkLoop kec f s cpN c e m = Inr (chain', expected')"
      using "1.prems"(1) unfolding walkLoop.simps [of kec f s cpN chain expected n]
      by (auto simp: Let_def split: option.splits sum.splits if_splits)
    have k: "length hs \<le> unat n - unat cpN"
      using batchCount_positive [OF True hs(2)] by simp
    have m: "unat m = unat n - length hs"
      using k unfolding linkHeaders_next [OF l] by (intro unat_minus_nat) simp
    then have le: "cpN \<le> m"
      using k True by (simp add: word_le_nat_alt word_less_nat_alt)
    have c: "hashedFrom kec S head c \<and> ab_ParentHash (last c) = e \<and> length c = length chain + length hs"
      using linkHeaders_hashed [OF l _ "1.prems"(3,4)] "1.prems"(2) hs(1) by (auto simp: sourceWithin_def)
    then have "hashedFrom kec S head chain' \<and> length chain' = length c + (unat m - unat cpN)"
      using "1.IH" [OF True refl hs(1) _ l refl refl rest] hs(2) "1.prems"(2) le by simp
    then show ?thesis
      using c m k by simp
  next
    case False
    then have "n = cpN"
      using "1.prems"(5) by simp
    with 1 False show ?thesis
      by (simp add: walkLoop.simps [of kec f s cpN chain expected cpN])
  qed
qed

lemma hashed_unique:
  "hashedFrom kec S head chain \<Longrightarrow> hashesApart kec S \<Longrightarrow> hashedFrom kec S head chain' \<Longrightarrow> length chain' = length chain \<Longrightarrow> chain' = chain"
proof (induction arbitrary: chain' rule: hashedFrom.induct)
  case start
  then show ?case
    using hashedFrom_nonempty [of kec S head] by (cases rule: hashedFrom.cases [OF start.prems(2)]) auto
next
  case (step chain h fork b)
  from step.prems(2) show ?case
  proof (cases rule: hashedFrom.cases)
    case start
    then show ?thesis
      using step.prems(3) hashedFrom_nonempty [OF step.hyps(1)] by simp
  next
    case (step chain1 h1 fork1 b1)
    then have "chain1 = chain"
      using step.IH \<open>hashesApart kec S\<close> \<open>length chain' = length (chain @ [b])\<close> by simp
    then show ?thesis
      using link_determines_block [OF \<open>BlockFromParentLink kec h fork (ab_ParentHash (last chain)) = Inr b\<close>] step \<open>encodesWithin S h\<close> \<open>hashesApart kec S\<close>
      by metis
  qed
qed

text \<open>
  (C37) A walk back finds one chain. From one finalised head to one checkpoint, whoever sends the headers and
  in whatever batches, the walk returns the same blocks or an error: consecutive, each bound to the next by hash,
  the oldest naming the checkpoint as its parent, as long as the hash separates the headers sent.
\<close>

theorem walkBack_unique:
  assumes "walkBack kec f s head cp = Inr chain" "walkBack kec f' s' head cp = Inr chain'" "cp_BlockNumber cp < ab_Number head"
    and "sourceWithin S s" "sourceWithin S s'" "hashesApart kec S"
  shows "chain = chain' \<and> hd chain = head \<and> linked chain \<and> ab_ParentHash (last chain) = cp_BlockHash cp \<and>
    length chain = unat (ab_Number head) - unat (cp_BlockNumber cp)"
proof -
  note le = less_pred [OF assms(3)]
  have n: "unat (ab_Number head - 1) = unat (ab_Number head) - 1" "unat (cp_BlockNumber cp) < unat (ab_Number head)"
    using assms(3) unat_minus_nat [of 1 "ab_Number head"] by (simp_all add: word_less_nat_alt)
  have one: "hashedFrom kec S head c \<and> length c = unat (ab_Number head) - unat (cp_BlockNumber cp)"
    if w: "walkBack kec g t head cp = Inr c" "sourceWithin S t" for g t c
  proof -
    obtain expected where "walkLoop kec g t (cp_BlockNumber cp) [head] (ab_ParentHash head) (ab_Number head - 1) = Inr (c, expected)"
      using w(1) by (auto simp: walkBack_def split: sum.splits if_splits)
    from walkLoop_hashed [OF this w(2) hashedFrom.start _ le] n show ?thesis
      by simp
  qed
  have "chain' = chain"
    using hashed_unique [of kec S head chain chain'] one [OF assms(1,4)] one [OF assms(2,5)] assms(6) by simp
  then show ?thesis
    using walk_is_linked [OF assms(1,3)] one [OF assms(1,4)] by simp
qed

subsection \<open>Nothing is missed\<close>

definition fairLogs :: "hasher \<Rightarrow> ChainFollower \<Rightarrow> sources \<Rightarrow> AuthenticatedBlock \<Rightarrow> Log list \<Rightarrow> bool" where
  \<comment> \<open>where the logs handed over with a block come from\<close>
  "fairLogs kec f s b logs \<longleftrightarrow>
     \<not> MayContainAddress kec b (cf_Contract f) \<and> logs = [] \<or>
     (\<exists>rs. src_Receipts s (ab_Number b) = Some rs \<and> AuthenticatedLogsFrom kec b (cf_Contract f) rs = Inr logs)"

lemma blockLogs_fair: "blockLogs kec f s b pg = Inr (logs, pg') \<Longrightarrow> fairLogs kec f s b logs"
  by (auto simp: blockLogs_def fairLogs_def split: if_splits option.splits sum.splits)

definition handedOver ::
  "hasher \<Rightarrow> ChainFollower \<Rightarrow> sources \<Rightarrow> AuthenticatedBlock list \<Rightarrow> FollowState \<Rightarrow> FollowState \<Rightarrow> (AuthenticatedBlock \<times> Log list) list \<Rightarrow> nat \<Rightarrow> bool" where
  \<comment> \<open>a prefix of the blocks has been handed over, and the checkpoint stands at its end or one block before\<close>
  "handedOver kec f s bs st st' ds k \<longleftrightarrow>
     fs_Delivered st' = fs_Delivered st @ ds \<and> map fst ds = take (length ds) bs \<and> length ds \<le> length bs \<and>
     (\<forall>d \<in> set ds. fairLogs kec f s (fst d) (snd d)) \<and> (length ds = k \<or> length ds = Suc k) \<and>
     fs_Checkpoint st' = (if k = 0 then fs_Checkpoint st else Some (checkpointOf (bs ! (k - 1))))"

lemma handedOver_none: "handedOver kec f s bs st st [] 0"
  by (simp add: handedOver_def)

lemma processBlocks_handed:
  "processBlocks kec f s bs st pg = (st', pg', r) \<Longrightarrow>
   \<exists>ds k. handedOver kec f s bs st st' ds k \<and> (r = Inr () \<longrightarrow> k = length bs)"
proof (induction kec f s bs st pg rule: processBlocks.induct)
  case (1 kec f s st pg)
  then show ?case
    using handedOver_none [of kec f s "[]" st] by auto
next
  case (2 kec f s b bs st pg)
  let ?pg1 = "pg\<lparr>pg_BlocksExamined := Suc (pg_BlocksExamined pg)\<rparr>"
  show ?case
  proof (cases "blockLogs kec f s b ?pg1")
    case (Inl e)
    with "2.prems" handedOver_none [of kec f s "b # bs" st] show ?thesis
      by (auto simp: Let_def)
  next
    case (Inr lp)
    then obtain logs pg2 where lp: "blockLogs kec f s b ?pg1 = Inr (logs, pg2)"
      by (cases lp) auto
    let ?st1 = "st\<lparr>fs_Delivered := fs_Delivered st @ [(b, logs)]\<rparr>"
    consider "\<not> src_Handle s b logs" | "src_Handle s b logs" "\<not> src_Save s (checkpointOf b)"
      | "src_Handle s b logs" "src_Save s (checkpointOf b)"
      by blast
    then show ?thesis
    proof cases
      case 1
      with "2.prems" lp handedOver_none [of kec f s "b # bs" st] show ?thesis
        by (auto simp: Let_def)
    next
      case 2
      with "2.prems" lp have "st' = ?st1" "r = Inl ErrStore"
        by (auto simp: Let_def)
      moreover have "handedOver kec f s (b # bs) st ?st1 [(b, logs)] 0"
        using blockLogs_fair [OF lp] by (simp add: handedOver_def)
      ultimately show ?thesis by blast
    next
      case 3
      let ?st2 = "?st1\<lparr>fs_Checkpoint := Some (checkpointOf b)\<rparr>"
      have "processBlocks kec f s bs ?st2 pg2 = (st', pg', r)"
        using "2.prems" lp 3 by (simp add: Let_def)
      then obtain ds k where d: "handedOver kec f s bs ?st2 st' ds k" "r = Inr () \<longrightarrow> k = length bs"
        using "2.IH" [OF refl lp refl] 3 by auto
      have "handedOver kec f s (b # bs) st st' ((b, logs) # ds) (Suc k)"
        using d(1) blockLogs_fair [OF lp] by (auto simp: handedOver_def nth_Cons')
      with d(2) show ?thesis
        by auto
    qed
  qed
qed

definition trueReceipts :: "hasher \<Rightarrow> sources \<Rightarrow> AuthenticatedBlock \<Rightarrow> Receipt list \<Rightarrow> bool" where
  \<comment> \<open>the receipts of the block: its root and filter commit to them, their filters are those of their logs, and the
      hash separates their trie from the one of what the provider sends\<close>
  "trueReceipts kec s b real \<longleftrightarrow>
     AuthenticateReceipts kec (ab_ReceiptsRoot b) real = Inr real \<and> unionBloom real = ab_LogsBloom b \<and> honestBlooms kec real \<and>
     (\<forall>rs. src_Receipts s (ab_Number b) = Some rs \<longrightarrow>
        (\<forall>r \<in> set rs \<union> set real. receiptOK r) \<and> inj_on kec (receiptNodes kec rs \<union> receiptNodes kec real) \<and>
        smallNodes (receiptNodes kec rs \<union> receiptNodes kec real))"

definition contractLogs :: "bytes \<Rightarrow> Receipt list \<Rightarrow> Log list \<Rightarrow> bool" where
  \<comment> \<open>the contract's logs, receipt after receipt; only the order of the receipts is the provider's\<close>
  "contractLogs addr real logs \<longleftrightarrow> (\<exists>rs. mset rs = mset real \<and> logs = logsOf addr rs)"

lemma contractLogs_mset: "contractLogs addr real logs \<Longrightarrow> mset logs = mset (logsOf addr real)"
proof -
  have one: "mset (logsOf addr rs) = (\<Sum>r\<in>#mset rs. mset (filter (\<lambda>l. lg_Address l = addr) (rc_Logs r)))" for rs
    by (induction rs) (simp_all add: logsOf_def)
  then show "contractLogs addr real logs \<Longrightarrow> mset logs = mset (logsOf addr real)"
    by (auto simp: contractLogs_def one)
qed

lemma fairLogs_true:
  assumes "fairLogs kec f s b logs" "trueReceipts kec s b real" "\<And>x. length (kec x) = 32"
  shows "contractLogs (cf_Contract f) real logs"
proof (cases "\<not> MayContainAddress kec b (cf_Contract f) \<and> logs = []")
  case True
  then have "logs = logsOf (cf_Contract f) real"
    using skipped_has_no_logs [of kec b "cf_Contract f" real] assms(2) by (simp add: trueReceipts_def)
  then show ?thesis
    unfolding contractLogs_def by blast
next
  case False
  then obtain rs where rs: "src_Receipts s (ab_Number b) = Some rs" "AuthenticatedLogsFrom kec b (cf_Contract f) rs = Inr logs"
    using assms(1) by (auto simp: fairLogs_def)
  then obtain out where out: "AuthenticateReceipts kec (ab_ReceiptsRoot b) rs = Inr out" "logs = logsOf (cf_Contract f) out"
    by (auto simp: AuthenticatedLogsFrom_def split: if_splits sum.splits)
  have "set out = set real \<and> distinct (map rc_TxIndex out) \<and> distinct (map rc_TxIndex real)"
    using receipts_same [where kec = kec, OF out(1) _ _ assms(3)] assms(2) rs(1) unfolding trueReceipts_def by blast
  then have "mset out = mset real"
    using set_eq_iff_mset_eq_distinct [of out real] by (simp add: distinct_map)
  then show ?thesis
    using out(2) unfolding contractLogs_def by blast
qed

fun follows :: "bytes32 \<Rightarrow> u64 \<Rightarrow> AuthenticatedBlock list \<Rightarrow> bool" where
  \<comment> \<open>oldest first: each block names the one before it as its parent, the first the block \<open>h\<close> of height \<open>n\<close>\<close>
  "follows h n [] \<longleftrightarrow> True"
| "follows h n (b # bs) \<longleftrightarrow>
     ab_ParentHash b = h \<and> ab_Number b = n + 1 \<and> ab_authentic b \<and> follows (ab_Hash b) (ab_Number b) bs"

lemma follows_append:
  "follows h n (bs @ cs) \<longleftrightarrow> follows h n bs \<and>
     follows (if bs = [] then h else ab_Hash (last bs)) (if bs = [] then n else ab_Number (last bs)) cs"
  by (induction h n bs rule: follows.induct) auto

lemma follows_take: "follows h n bs \<Longrightarrow> follows h n (take k bs)"
  using follows_append [of h n "take k bs" "drop k bs"] by simp

lemma linked_follows:
  "linked chain \<Longrightarrow> chain \<noteq> [] \<Longrightarrow> ab_authentic (hd chain) \<Longrightarrow> ab_ParentHash (last chain) = h \<Longrightarrow> ab_Number (last chain) = n + 1 \<Longrightarrow>
   follows h n (rev chain)"
  by (induction chain rule: linked.induct) (auto simp: follows_append)

lemma Advance_cases:
  assumes "Advance kec f s st = (st', pg, r)" "fs_Checkpoint st = Some cp" "src_Finalized s = Some head" "cp_BlockNumber cp < ab_Number head"
  shows "st' = st \<and> r \<noteq> Inr () \<or>
    (\<exists>chain pg0. ab_authentic head \<and> walkBack kec f s head cp = Inr chain \<and> processBlocks kec f s (rev chain) st pg0 = (st', pg, r))"
  using assms by (auto simp: Advance_def Let_def split: if_splits sum.splits)

text \<open>
  (C7) The follower misses nothing. Whatever one run of \<^verbatim>\<open>Advance\<close> comes to, the blocks it has handed over follow
  one another from the checkpoint on, each naming the one before it as its parent, and each came with exactly the
  logs the contract emitted in it: every log, as often as it was emitted, in the order of its receipt, the empty
  list for a block the filter excludes. The stored checkpoint is the last of those blocks or the one before it, so
  what an interruption loses is delivered again, and a run that ends without an error has reached the finalised head.
\<close>

theorem advance_misses_nothing:
  assumes "Advance kec f s st = (st', pg, r)" "fs_Checkpoint st = Some cp" "src_Finalized s = Some head"
    and "cp_BlockNumber cp < ab_Number head"
    and "\<And>chain b. walkBack kec f s head cp = Inr chain \<Longrightarrow> b \<in> set chain \<Longrightarrow> trueReceipts kec s b (real b)"
    and "\<And>x. length (kec x) = 32"
  shows "\<exists>ds k. fs_Delivered st' = fs_Delivered st @ ds \<and> follows (cp_BlockHash cp) (cp_BlockNumber cp) (map fst ds) \<and>
    (\<forall>d \<in> set ds. contractLogs (cf_Contract f) (real (fst d)) (snd d) \<and>
       mset (snd d) = mset (logsOf (cf_Contract f) (real (fst d)))) \<and> (length ds = k \<or> length ds = Suc k) \<and>
    fs_Checkpoint st' = (if k = 0 then Some cp else Some (checkpointOf (fst (ds ! (k - 1))))) \<and>
    (r = Inr () \<longrightarrow> length ds = k \<and> ds \<noteq> [] \<and> fst (last ds) = head)"
proof (cases "st' = st \<and> r \<noteq> Inr ()")
  case True
  then show ?thesis
    using assms(2) by (intro exI [of _ "[]"] exI [of _ 0]) simp
next
  case False
  then obtain chain pg0 where w: "ab_authentic head" "walkBack kec f s head cp = Inr chain"
    and run: "processBlocks kec f s (rev chain) st pg0 = (st', pg, r)"
    using Advance_cases [OF assms(1-4)] by blast
  note walk = walk_is_linked [OF w(2) assms(4)]
  obtain ds k where d: "handedOver kec f s (rev chain) st st' ds k" "r = Inr () \<longrightarrow> k = length chain"
    using processBlocks_handed [OF run] by auto
  note h = d(1) [unfolded handedOver_def]
  have fst: "fst (ds ! i) = rev chain ! i" if "i < length ds" for i
    using h that by (metis nth_map nth_take)
  have "follows (cp_BlockHash cp) (cp_BlockNumber cp) (rev chain)"
    by (rule linked_follows) (use walk w(1) in auto)
  then have "follows (cp_BlockHash cp) (cp_BlockNumber cp) (map fst ds)"
    using h follows_take by metis
  moreover have "contractLogs (cf_Contract f) (real (fst d)) (snd d)" if "d \<in> set ds" for d
  proof -
    have "fst d \<in> set (take (length ds) (rev chain))"
      using h that by (metis image_eqI list.set_map)
    then have "fst d \<in> set chain"
      by (auto dest: in_set_takeD)
    then show ?thesis
      using fairLogs_true [where kec = kec, OF _ assms(5) [OF w(2)] assms(6)] h that by blast
  qed
  moreover have "r = Inr () \<longrightarrow> length ds = k \<and> ds \<noteq> [] \<and> fst (last ds) = head"
  proof
    assume "r = Inr ()"
    then have k: "length ds = k" "k = length chain" "ds \<noteq> []"
      using d(2) h walk by auto
    then have "fst (last ds) = rev chain ! (length chain - 1)"
      using fst [of "length ds - 1"] k walk by (simp add: last_conv_nth)
    also have "\<dots> = head"
      using walk by (auto simp: rev_nth hd_conv_nth)
    finally show "length ds = k \<and> ds \<noteq> [] \<and> fst (last ds) = head"
      using k by simp
  qed
  moreover have "fs_Checkpoint st' = (if k = 0 then Some cp else Some (checkpointOf (fst (ds ! (k - 1)))))"
    using h fst [of "k - 1"] assms(2) by auto
  ultimately show ?thesis
    using h contractLogs_mset by (intro exI [of _ ds] exI [of _ k]) blast
qed

definition demoHead :: AuthenticatedBlock where
  "demoHead = \<lparr> ab_Number = 2, ab_Hash = replicate 32 2, ab_ParentHash = replicate 32 1,
     ab_ReceiptsRoot = BuildMPT demoKec [\<lparr> te_Key = [0x80], te_Value = demoValue \<rparr>], ab_LogsBloom = replicate 256 0,
     ab_Timestamp = 1800000000, ab_authentic = True \<rparr>"

definition demoFollower :: ChainFollower where
  "demoFollower = \<lparr> cf_ChainID = 1, cf_Contract = replicate 20 7, cf_MaxCatchUp = 10, cf_BatchSize = 0 \<rparr>"

definition demoSources :: sources where
  "demoSources = \<lparr> src_Headers = (\<lambda>from count. None), src_Receipts = (\<lambda>n. None), src_Finalized = Some demoHead, src_LoadOK = True,
     src_Save = (\<lambda>cp. True), src_Handle = (\<lambda>b logs. True) \<rparr>"

definition demoFollowState :: FollowState where
  "demoFollowState = \<lparr> fs_Checkpoint = Some \<lparr> cp_BlockNumber = 1, cp_BlockHash = replicate 32 1 \<rparr>, fs_Delivered = [] \<rparr>"

lemma demo_walk:
  "walkBack demoKec demoFollower demoSources demoHead \<lparr> cp_BlockNumber = 1, cp_BlockHash = replicate 32 1 \<rparr> = Inr [demoHead]"
  by (simp add: walkBack_def walkLoop.simps demoHead_def)

lemma demo_true: "trueReceipts demoKec demoSources demoHead [demoReceipt]"
  using demo_authenticates
  by (simp add: trueReceipts_def demoSources_def demoHead_def honestBlooms_def BloomFromLogs_def demoReceipt_def unionBloom_def zip_replicate
      del: replicate.simps)

lemma zero_bloom: "\<not> MayContain kec (replicate 256 0) item"
proof
  assume m: "MayContain kec (replicate 256 0) item"
  have "bloomPositions kec item \<noteq> []"
    by (simp add: bloomPositions_def Let_def)
  then obtain c where c: "c \<in> set (bloomPositions kec item)"
    by (cases "bloomPositions kec item") auto
  then have "c div 8 < 256"
    using bloomPositions_bound [OF c] by (simp add: div_less_iff_less_mult)
  then have "\<not> bloomBit (replicate 256 0) c"
    by (simp add: bloomBit_bit del: replicate.simps)
  with m c show False
    by (auto simp: MayContain_def list_all_iff)
qed

lemma demo_selectors [simp]:
  "ab_Number demoHead = 2" "ab_authentic demoHead" "ab_LogsBloom demoHead = replicate 256 0"
  "fs_Checkpoint demoFollowState = Some \<lparr> cp_BlockNumber = 1, cp_BlockHash = replicate 32 1 \<rparr>" "fs_Delivered demoFollowState = []"
  "src_Finalized demoSources = Some demoHead" "src_LoadOK demoSources" "src_Save demoSources cp" "src_Handle demoSources b logs"
  "cf_MaxCatchUp demoFollower = 10"
  by (simp_all add: demoHead_def demoFollowState_def demoSources_def demoFollower_def)

lemma demo_process:
  "processBlocks demoKec demoFollower demoSources [demoHead] demoFollowState pg =
    (demoFollowState\<lparr>fs_Delivered := [(demoHead, [])], fs_Checkpoint := Some (checkpointOf demoHead)\<rparr>,
     pg\<lparr>pg_BlocksExamined := Suc (pg_BlocksExamined pg), pg_BlocksSkipped := Suc (pg_BlocksSkipped pg)\<rparr>, Inr ())"
  by (simp add: blockLogs_def MayContainAddress_def zero_bloom Let_def del: replicate.simps)

lemma demo_follow:
  "\<exists>pg. Advance demoKec demoFollower demoSources demoFollowState =
    (demoFollowState\<lparr>fs_Delivered := [(demoHead, [])], fs_Checkpoint := Some (checkpointOf demoHead)\<rparr>, pg, Inr ())"
  by (simp add: Advance_def demo_walk demo_process Let_def del: processBlocks.simps replicate.simps)

lemma advance_misses_nothing_witness:
  "\<exists>pg st'. Advance demoKec demoFollower demoSources demoFollowState = (st', pg, Inr ()) \<and>
     follows (replicate 32 1) 1 (map fst (fs_Delivered st')) \<and> fst (last (fs_Delivered st')) = demoHead"
proof -
  obtain pg st' where a: "Advance demoKec demoFollower demoSources demoFollowState = (st', pg, Inr ())"
    using demo_follow by blast
  have true: "trueReceipts demoKec demoSources b [demoReceipt]"
    if "walkBack demoKec demoFollower demoSources demoHead \<lparr> cp_BlockNumber = 1, cp_BlockHash = replicate 32 1 \<rparr> = Inr chain" "b \<in> set chain" for chain b
    using that demo_true by (auto simp: demo_walk)
  from advance_misses_nothing [where kec = demoKec and real = "\<lambda>b. [demoReceipt]", OF a demo_selectors(4,6) _ true]
  show ?thesis
    using a by (auto simp: demoKec_def)
qed

lemma walkBack_unique_witness:
  "walkBack demoKec demoFollower demoSources demoHead \<lparr> cp_BlockNumber = 1, cp_BlockHash = replicate 32 1 \<rparr> = Inr [demoHead] \<and>
   linked [demoHead] \<and> ab_ParentHash demoHead = replicate 32 1"
  using walkBack_unique [OF demo_walk demo_walk, of "{}"] demo_walk
  by (simp add: sourceWithin_def demoSources_def hashesApart_def)

end
