(* ===== verification/Ssz.thy ===== *)
theory Ssz
  imports Encoding
begin

unbundle bit_operations_syntax

text \<open>
  SSZ merkleisation, \<^verbatim>\<open>src/internal/ethproof/ssz.go\<close>. SHA-256 is an argument \<open>sha\<close>. A root is a list of 32 bytes;
  a Go \<^verbatim>\<open>int\<close> is an \<open>int\<close>. A loop that does not end is the outcome \<open>SszLoops\<close>, which the theorems exclude for
  every number of chunks a slice can have. The reference is a perfect binary tree over the chunks and zero
  leaves (\<open>treeRoot\<close>), with the siblings on the way down to a leaf as its branch (\<open>branchOf\<close>).
\<close>

type_synonym sha = "bytes \<Rightarrow> bytes"
type_synonym root = bytes32

datatype ssz_error = ErrLimit | ErrNotPowerOfTwo | ErrBranchInvalid | ErrBranchLength | SszLoops

definition BytesPerChunk :: nat where "BytesPerChunk = 32"

definition sha256Pair :: "sha \<Rightarrow> bytes \<Rightarrow> bytes \<Rightarrow> root" where
  "sha256Pair sha left right = copyArr 32 (sha (left @ right))"

fun zeroHashFrom :: "sha \<Rightarrow> root \<Rightarrow> nat \<Rightarrow> root list" where
  "zeroHashFrom sha prev 0 = []"
| "zeroHashFrom sha prev (Suc n) = (let h = sha256Pair sha prev prev in h # zeroHashFrom sha h n)"

definition zeroHashes :: "sha \<Rightarrow> root list" where
  "zeroHashes sha = zero32 # zeroHashFrom sha zero32 63"

definition ZeroHash :: "sha \<Rightarrow> int \<Rightarrow> root" where
  "ZeroHash sha depth = (if depth < 0 \<or> depth \<ge> int (length (zeroHashes sha)) then zero32 else zeroHashes sha ! nat depth)"

partial_function (option) doubleTo :: "int \<Rightarrow> int \<Rightarrow> int option" where
  "doubleTo n p = (if p < n then doubleTo n (i64 (p * 2)) else Some p)"

definition nextPowerOfTwo :: "int \<Rightarrow> int option" where
  "nextPowerOfTwo n = (if n \<le> 1 then Some 1 else doubleTo n 1)"

definition nextLayer :: "sha \<Rightarrow> root list \<Rightarrow> nat \<Rightarrow> int \<Rightarrow> root list" where
  "nextLayer sha layer width depth =
     map (\<lambda>k. let i = 2 * k;
                left = (if i < length layer then layer ! i else ZeroHash sha depth);
                right = (if i + 1 < length layer then layer ! (i + 1) else ZeroHash sha depth)
             in sha256Pair sha left right) [0..<(width + 1) div 2]"

function layersUp :: "sha \<Rightarrow> root list \<Rightarrow> nat \<Rightarrow> int \<Rightarrow> root list" where
  "layersUp sha layer width depth =
     (if width > 1 then layersUp sha (nextLayer sha layer width depth) (width div 2) (depth + 1) else layer)"
  by pat_completeness auto
termination
  by (relation "measure (\<lambda>(sha, layer, width, depth). width)") auto

declare layersUp.simps [simp del]

definition Merkleize :: "sha \<Rightarrow> root list \<Rightarrow> int \<Rightarrow> ssz_error + root" where
  "Merkleize sha chunks limit0 =
     (case (if limit0 = 0 then nextPowerOfTwo (int (length chunks)) else Some limit0) of
        None \<Rightarrow> Inl SszLoops
      | Some limit \<Rightarrow>
          if limit < int (length chunks) then Inl ErrLimit
          else if limit AND (limit - 1) \<noteq> 0 then Inl ErrNotPowerOfTwo
          else if limit = 0 then Inr zero32
          else if limit = 1 then (case chunks of [] \<Rightarrow> Inr zero32 | c # _ \<Rightarrow> Inr c)
          else Inr (layersUp sha chunks (nat limit) 0 ! 0))"

definition putUint64LE :: "u64 \<Rightarrow> bytes" where
  "putUint64LE v = map (\<lambda>i. ucast (drop_bit (8 * i) v)) [0..<8]"

definition Uint64Root :: "u64 \<Rightarrow> root" where
  "Uint64Root v = putUint64LE v @ replicate 24 0"

definition MixInLength :: "sha \<Rightarrow> root \<Rightarrow> u64 \<Rightarrow> root" where
  "MixInLength sha root length' = sha256Pair sha root (putUint64LE length' @ replicate 24 0)"

function chunksOf :: "bytes \<Rightarrow> root list" where
  "chunksOf b = (if b = [] then [] else copyArr BytesPerChunk b # chunksOf (drop BytesPerChunk b))"
  by pat_completeness auto
termination
  by (relation "measure length") (auto simp: BytesPerChunk_def)

declare chunksOf.simps [simp del]

definition BytesRoot :: "sha \<Rightarrow> bytes \<Rightarrow> ssz_error + root" where
  "BytesRoot sha b = Merkleize sha (if chunksOf b = [] then [zero32] else chunksOf b) 0"

definition ContainerRoot :: "sha \<Rightarrow> root list \<Rightarrow> ssz_error + root" where
  "ContainerRoot sha fieldRoots = Merkleize sha fieldRoots 0"

function GeneralizedIndexDepth :: "u64 \<Rightarrow> nat" where
  "GeneralizedIndexDepth index = (if index > 1 then Suc (GeneralizedIndexDepth (drop_bit 1 index)) else 0)"
  by pat_completeness auto
termination
proof (relation "measure unat", goal_cases)
  case (2 index)
  then have "1 < unat index" by (simp add: word_less_nat_alt)
  then show ?case by (simp add: unat_div drop_bit_eq_div)
qed simp

declare GeneralizedIndexDepth.simps [simp del]

fun climb :: "sha \<Rightarrow> root \<Rightarrow> root list \<Rightarrow> u64 \<Rightarrow> root" where
  \<comment> \<open>the loop of \<^verbatim>\<open>VerifyBranch\<close>, the index shifted along\<close>
  "climb sha node [] index = node"
| "climb sha node (sibling # branch) index =
     climb sha (if index AND 1 = 1 then sha256Pair sha sibling node else sha256Pair sha node sibling) branch (drop_bit 1 index)"

definition VerifyBranch :: "sha \<Rightarrow> root \<Rightarrow> root list \<Rightarrow> u64 \<Rightarrow> root \<Rightarrow> ssz_error + unit" where
  "VerifyBranch sha leaf branch index root =
     (if index = 0 then Inl ErrBranchLength
      else if length branch \<noteq> GeneralizedIndexDepth index then Inl ErrBranchLength
      else if climb sha leaf branch index \<noteq> root then Inl ErrBranchInvalid
      else Inr ())"

record BeaconBlockHeader =
  bh_Slot :: u64
  bh_ProposerIndex :: u64
  bh_ParentRoot :: root
  bh_StateRoot :: root
  bh_BodyRoot :: root

definition HeaderRoot :: "sha \<Rightarrow> BeaconBlockHeader \<Rightarrow> ssz_error + root" where
  "HeaderRoot sha h = ContainerRoot sha [Uint64Root (bh_Slot h), Uint64Root (bh_ProposerIndex h), bh_ParentRoot h, bh_StateRoot h, bh_BodyRoot h]"

subsection \<open>The reference tree\<close>

fun treeRoot :: "sha \<Rightarrow> nat \<Rightarrow> root list \<Rightarrow> root" where
  "treeRoot sha 0 leaves = hd leaves"
| "treeRoot sha (Suc d) leaves = sha256Pair sha (treeRoot sha d (take (2 ^ d) leaves)) (treeRoot sha d (drop (2 ^ d) leaves))"

definition padded :: "nat \<Rightarrow> root list \<Rightarrow> root list" where
  "padded d chunks = chunks @ replicate (2 ^ d - length chunks) zero32"

lemma length_sha256Pair [simp]: "length (sha256Pair sha l r) = 32"
  by (simp add: sha256Pair_def)

lemma zeroHashFrom_nth:
  "i < n \<Longrightarrow> prev = treeRoot sha d (replicate (2 ^ d) zero32) \<Longrightarrow>
   zeroHashFrom sha prev n ! i = treeRoot sha (d + i + 1) (replicate (2 ^ (d + i + 1)) zero32)"
proof (induction n arbitrary: prev d i)
  case (Suc n)
  have step: "sha256Pair sha prev prev = treeRoot sha (Suc d) (replicate (2 ^ Suc d) zero32)"
    using Suc.prems(2) by (simp)
  show ?case
  proof (cases i)
    case 0
    then show ?thesis using step by (simp add: Let_def)
  next
    case (Suc j)
    then show ?thesis
      using Suc.IH [of j "sha256Pair sha prev prev" "Suc d"] Suc.prems step by (simp add: Let_def)
  qed
qed simp

lemma length_zeroHashFrom [simp]: "length (zeroHashFrom sha prev n) = n"
  by (induction n arbitrary: prev) (simp_all add: Let_def)

lemma ZeroHash_tree: "d < 64 \<Longrightarrow> ZeroHash sha (int d) = treeRoot sha d (replicate (2 ^ d) zero32)"
  using zeroHashFrom_nth [of "d - 1" 63 zero32 sha 0]
  by (cases d) (simp_all add: ZeroHash_def zeroHashes_def nat_add_distrib)

definition block :: "nat \<Rightarrow> nat \<Rightarrow> root list \<Rightarrow> root list" where
  "block d i leaves = take (2 ^ d) (drop (i * 2 ^ d) leaves)"

lemma block_halves:
  "take (2 ^ d) (block (Suc d) i leaves) = block d (2 * i) leaves" "drop (2 ^ d) (block (Suc d) i leaves) = block d (2 * i + 1) leaves"
  by (simp_all add: block_def min_def drop_take algebra_simps)

definition covers :: "sha \<Rightarrow> root list \<Rightarrow> nat \<Rightarrow> nat \<Rightarrow> root list \<Rightarrow> bool" where
  \<comment> \<open>the nodes of one layer, the missing ones being roots of empty trees\<close>
  "covers sha layer d k leaves \<longleftrightarrow>
     (\<forall>i < 2 ^ k. treeRoot sha d (block d i leaves) = (if i < length layer then layer ! i else ZeroHash sha (int d)))"

lemma length_nextLayer: "length (nextLayer sha layer (2 ^ Suc k) d) = 2 ^ k"
  by (simp add: nextLayer_def)

lemma covers_nextLayer:
  assumes "covers sha layer d (Suc k) leaves"
  shows "covers sha (nextLayer sha layer (2 ^ Suc k) (int d)) (Suc d) k leaves"
  unfolding covers_def
proof (intro allI impI)
  fix i :: nat
  assume i: "i < 2 ^ k"
  then have "2 * i < 2 ^ Suc k" "2 * i + 1 < 2 ^ Suc k"
    by simp_all
  then have "treeRoot sha d (block d (2 * i) leaves) = (if 2 * i < length layer then layer ! (2 * i) else ZeroHash sha (int d))"
    "treeRoot sha d (block d (2 * i + 1) leaves) = (if 2 * i + 1 < length layer then layer ! (2 * i + 1) else ZeroHash sha (int d))"
    using assms unfolding covers_def by blast+
  then show "treeRoot sha (Suc d) (block (Suc d) i leaves) =
      (if i < length (nextLayer sha layer (2 ^ Suc k) (int d)) then nextLayer sha layer (2 ^ Suc k) (int d) ! i
       else ZeroHash sha (int (Suc d)))"
    using i by (simp add: block_halves length_nextLayer del: power_Suc) (simp add: nextLayer_def Let_def)
qed

lemma layersUp_tree:
  "covers sha layer d (Suc k) leaves \<Longrightarrow> layersUp sha layer (2 ^ Suc k) (int d) ! 0 = treeRoot sha (d + Suc k) (block (d + Suc k) 0 leaves)"
proof (induction k arbitrary: layer d)
  case 0
  have "layersUp sha layer (2 ^ Suc 0) (int d) = nextLayer sha layer (2 ^ Suc 0) (int d)"
    by (subst layersUp.simps) (simp add: layersUp.simps [of _ _ "Suc 0"])
  moreover note covers_nextLayer [OF 0]
  ultimately show ?case
    unfolding covers_def length_nextLayer by simp
next
  case (Suc k)
  have "layersUp sha layer (2 ^ Suc (Suc k)) (int d) = layersUp sha (nextLayer sha layer (2 ^ Suc (Suc k)) (int d)) (2 ^ Suc k) (int (Suc d))"
    using one_less_power [of "2 :: nat" "Suc (Suc k)"] by (subst layersUp.simps) (simp add: add.commute)
  then show ?case
    using Suc.IH [OF covers_nextLayer [OF Suc.prems]] by simp
qed

lemma length_padded [simp]: "length chunks \<le> 2 ^ d \<Longrightarrow> length (padded d chunks) = 2 ^ d"
  by (simp add: padded_def)

lemma covers_padded: "length chunks \<le> 2 ^ k \<Longrightarrow> covers sha chunks 0 k (padded k chunks)"
  by (auto simp: covers_def block_def padded_def hd_drop_conv_nth nth_append ZeroHash_def zeroHashes_def)

lemma power_and: "(2 ^ k :: int) AND (2 ^ k - 1) = 0"
proof -
  have "(2 ^ k :: int) AND (2 ^ k - 1) = take_bit k (2 ^ k)"
    by (simp add: take_bit_eq_mask mask_eq_exp_minus_1)
  then show ?thesis by simp
qed

lemma Merkleize_limit:
  assumes "length chunks \<le> 2 ^ k"
  shows "Merkleize sha chunks (2 ^ k) = Inr (treeRoot sha k (padded k chunks))"
proof (cases k)
  case 0
  then show ?thesis
    using assms by (cases chunks) (simp_all add: Merkleize_def padded_def)
next
  case (Suc m)
  have "int (length chunks) \<le> 2 ^ k"
    using assms by (metis of_nat_le_iff of_nat_numeral of_nat_power)
  moreover have "(2 :: int) ^ k \<noteq> 1"
    using one_less_power [of "2 :: int" k] Suc by simp
  moreover have "nat (2 ^ k) = 2 ^ k"
    by (simp add: nat_power_eq)
  moreover have "layersUp sha chunks (2 ^ k) 0 ! 0 = treeRoot sha k (padded k chunks)"
    using layersUp_tree [OF covers_padded, of chunks m sha] assms Suc by (simp add: block_def)
  ultimately show ?thesis
    using power_and [of k] unfolding Merkleize_def by (simp add: nat_power_eq split del: if_split)
qed

lemma i64_double: "j < 62 \<Longrightarrow> i64 (2 ^ j * 2) = 2 ^ Suc j"
proof -
  assume "j < 62"
  then have "(2 :: int) ^ Suc j \<le> 2 ^ 62"
    by (intro power_increasing) simp_all
  moreover have "(0 :: int) < 2 ^ Suc j" "(2 :: int) ^ 62 < 2 ^ 63"
    by simp_all
  ultimately have "i64 (2 ^ Suc j) = 2 ^ Suc j"
    by (intro i64_id) linarith+
  then show ?thesis
    by (simp only: power_Suc mult.commute)
qed

lemma doubleTo_power:
  assumes "n \<le> 2 ^ 62"
  shows "j \<le> k \<Longrightarrow> k \<le> 62 \<Longrightarrow> n \<le> 2 ^ k \<Longrightarrow> \<exists>m. doubleTo n (2 ^ j) = Some (2 ^ m) \<and> j \<le> m \<and> m \<le> k \<and> n \<le> 2 ^ m \<and> (j < m \<longrightarrow> 2 ^ (m - 1) < n)"
proof (induction "k - j" arbitrary: j)
  case 0
  then have "j = k" by simp
  with 0 show ?case by (intro exI [of _ k]) (simp add: doubleTo.simps [of n "2 ^ k"])
next
  case (Suc d)
  show ?case
  proof (cases "2 ^ j < n")
    case True
    then have "j < k" using Suc.prems by (metis le_neq_implies_less not_less)
    then have "i64 (2 ^ j * 2) = 2 ^ Suc j"
      using Suc.prems(2) by (intro i64_double) simp
    then have "doubleTo n (2 ^ j) = doubleTo n (2 ^ Suc j)"
      using True by (subst doubleTo.simps) simp
    moreover have "d = k - Suc j" "Suc j \<le> k"
      using Suc.hyps(2) \<open>j < k\<close> by simp_all
    from Suc.hyps(1) [OF this Suc.prems(2,3)]
    obtain m where m: "doubleTo n (2 ^ Suc j) = Some (2 ^ m)" "Suc j \<le> m" "m \<le> k" "n \<le> 2 ^ m" "Suc j < m \<longrightarrow> 2 ^ (m - 1) < n"
      by blast
    moreover have "2 ^ (m - 1) < n"
      using m True by (cases "m = Suc j") simp_all
    ultimately show ?thesis
      using m by (intro exI [of _ m]) simp
  next
    case False
    then show ?thesis
      using Suc.prems by (intro exI [of _ j]) (simp add: doubleTo.simps [of n "2 ^ j"])
  qed
qed

function depthFor :: "nat \<Rightarrow> nat" where
  \<comment> \<open>the depth of the smallest perfect tree with so many leaves\<close>
  "depthFor n = (if n \<le> 1 then 0 else Suc (depthFor ((n + 1) div 2)))"
  by pat_completeness auto
termination
  by (relation "measure id") auto

declare depthFor.simps [simp del]

lemma depthFor_least: "n \<le> 2 ^ depthFor n \<and> (\<forall>j < depthFor n. 2 ^ j < n)"
proof (induction n rule: depthFor.induct)
  case (1 n)
  show ?case
  proof (cases "n \<le> 1")
    case True
    then show ?thesis by (subst (1 2) depthFor.simps) simp
  next
    case False
    let ?m = "(n + 1) div 2"
    have ih: "?m \<le> 2 ^ depthFor ?m" "\<And>j. j < depthFor ?m \<Longrightarrow> 2 ^ j < ?m"
      using 1 False by auto
    have d: "depthFor n = Suc (depthFor ?m)"
      using False by (subst depthFor.simps) simp
    have "2 ^ j < n" if "j < Suc (depthFor ?m)" for j
      using False ih(2) [of "j - 1"] that by (cases j) auto
    moreover have "n \<le> 2 ^ Suc (depthFor ?m)"
      using ih(1) by simp
    ultimately show ?thesis
      unfolding d by blast
  qed
qed

lemma depthFor_unique: "n \<le> 2 ^ k \<Longrightarrow> \<forall>j < k. 2 ^ j < n \<Longrightarrow> k = depthFor n"
  using depthFor_least [of n] by (metis linorder_neqE_nat linorder_not_less)

lemma Merkleize_next:
  assumes "length chunks \<le> 2 ^ 62"
  shows "Merkleize sha chunks 0 = Inr (treeRoot sha (depthFor (length chunks)) (padded (depthFor (length chunks)) chunks))"
proof -
  have len: "int (length chunks) \<le> 2 ^ 62"
    using assms by (metis of_nat_le_iff of_nat_numeral of_nat_power)
  have "\<exists>k. nextPowerOfTwo (int (length chunks)) = Some (2 ^ k) \<and> int (length chunks) \<le> 2 ^ k \<and> (0 < k \<longrightarrow> 2 ^ (k - 1) < int (length chunks))"
  proof (cases "int (length chunks) \<le> 1")
    case True
    then show ?thesis by (intro exI [of _ 0]) (simp add: nextPowerOfTwo_def)
  next
    case False
    then show ?thesis
      using doubleTo_power [OF len, of 0 62] len by (auto simp: nextPowerOfTwo_def)
  qed
  then obtain k where k: "nextPowerOfTwo (int (length chunks)) = Some (2 ^ k)" "length chunks \<le> 2 ^ k"
    "0 < k \<longrightarrow> 2 ^ (k - 1) < length chunks"
    by (metis of_nat_le_iff of_nat_less_iff of_nat_numeral of_nat_power)
  have "Merkleize sha chunks 0 = Merkleize sha chunks (2 ^ k)"
    by (simp add: Merkleize_def k(1))
  moreover have "2 ^ j < length chunks" if "j < k" for j
  proof -
    have "(2 :: nat) ^ j \<le> 2 ^ (k - 1)"
      using that by (intro power_increasing) simp_all
    then show ?thesis using k(3) that by linarith
  qed
  then have "k = depthFor (length chunks)"
    using k(2) by (intro depthFor_unique) blast+
  ultimately show ?thesis
    using Merkleize_limit [OF k(2)] by simp
qed

text \<open>
  (C38) The merkleisation ends and computes the perfect tree. Padded to the next power of two, the least one that
  holds the chunks, or to any given one that does, the layer-by-layer loop with its precomputed hashes of empty
  trees gives the root of the binary tree over the chunks and as many zero leaves as are missing.
\<close>

theorem Merkleize_is_tree:
  assumes "length chunks \<le> 2 ^ k" "length chunks \<le> 2 ^ 62"
  shows "Merkleize sha chunks (2 ^ k) = Inr (treeRoot sha k (padded k chunks)) \<and>
    Merkleize sha chunks 0 = Inr (treeRoot sha (depthFor (length chunks)) (padded (depthFor (length chunks)) chunks)) \<and>
    length chunks \<le> 2 ^ depthFor (length chunks) \<and> (\<forall>j < depthFor (length chunks). 2 ^ j < length chunks)"
  using Merkleize_limit [OF assms(1)] Merkleize_next [OF assms(2)] depthFor_least by blast

lemma Merkleize_is_tree_witness:
  "Merkleize (\<lambda>x. x) [[1], [2], [3]] (2 ^ 3) = Inr (treeRoot (\<lambda>x. x) 3 (padded 3 [[1], [2], [3]])) \<and>
   Merkleize (\<lambda>x. x) [[1], [2], [3]] 0 = Inr (treeRoot (\<lambda>x. x) 2 [[1], [2], [3], zero32])"
proof -
  have "depthFor (Suc (Suc (Suc 0))) = 2"
    by (simp add: depthFor.simps)
  then show ?thesis
    using Merkleize_is_tree [of "[[1], [2], [3]]" 3 "\<lambda>x. x"] by (simp add: padded_def)
qed

subsection \<open>Branches\<close>

fun branchOf :: "sha \<Rightarrow> nat \<Rightarrow> root list \<Rightarrow> nat \<Rightarrow> root list" where
  "branchOf sha 0 leaves i = []"
| "branchOf sha (Suc d) leaves i =
     (if i < 2 ^ d then branchOf sha d (take (2 ^ d) leaves) i @ [treeRoot sha d (drop (2 ^ d) leaves)]
      else branchOf sha d (drop (2 ^ d) leaves) (i - 2 ^ d) @ [treeRoot sha d (take (2 ^ d) leaves)])"

fun climbPairs :: "sha \<Rightarrow> root \<Rightarrow> root list \<Rightarrow> u64 \<Rightarrow> (root \<times> root) set" where
  \<comment> \<open>what is hashed on the way up\<close>
  "climbPairs sha node [] index = {}"
| "climbPairs sha node (sibling # branch) index =
     (let pair = (if index AND 1 = 1 then (sibling, node) else (node, sibling)) in
      insert pair (climbPairs sha (sha256Pair sha (fst pair) (snd pair)) branch (drop_bit 1 index)))"

definition separatesPairs :: "sha \<Rightarrow> (root \<times> root) set \<Rightarrow> bool" where
  "separatesPairs sha S \<longleftrightarrow> inj_on (\<lambda>(l, r). sha256Pair sha l r) S"

lemma separatesPairsD: "separatesPairs sha S \<Longrightarrow> (a, b) \<in> S \<Longrightarrow> (c, d) \<in> S \<Longrightarrow> sha256Pair sha a b = sha256Pair sha c d \<Longrightarrow> a = c \<and> b = d"
  using inj_onD [of "\<lambda>(l, r). sha256Pair sha l r" S "(a, b)" "(c, d)"] by (simp add: separatesPairs_def)

lemma separatesPairs_mono: "separatesPairs sha S \<Longrightarrow> T \<subseteq> S \<Longrightarrow> separatesPairs sha T"
  unfolding separatesPairs_def by (rule inj_on_subset)

definition upPair :: "root \<Rightarrow> root \<Rightarrow> u64 \<Rightarrow> root \<times> root" where
  "upPair node s idx = (if idx AND 1 = 1 then (s, node) else (node, s))"

definition hashPair :: "sha \<Rightarrow> root \<times> root \<Rightarrow> root" where
  "hashPair sha p = sha256Pair sha (fst p) (snd p)"

lemma upPair_inj: "upPair node s idx = upPair node' s' idx \<Longrightarrow> node = node' \<and> s = s'"
  by (auto simp: upPair_def split: if_splits)

lemma climb_Cons: "climb sha node (s # b) idx = climb sha (hashPair sha (upPair node s idx)) b (drop_bit 1 idx)"
  by (simp add: hashPair_def upPair_def)

lemma climbPairs_Cons:
  "climbPairs sha node (s # b) idx = insert (upPair node s idx) (climbPairs sha (hashPair sha (upPair node s idx)) b (drop_bit 1 idx))"
  unfolding hashPair_def upPair_def climbPairs.simps Let_def by (rule refl)

lemma climb_unique:
  "climb sha node b idx = climb sha node' b' idx \<Longrightarrow> length b = length b' \<Longrightarrow>
   separatesPairs sha (climbPairs sha node b idx \<union> climbPairs sha node' b' idx) \<Longrightarrow> node = node' \<and> b = b'"
proof (induction b arbitrary: b' node node' idx)
  case (Cons s b)
  from Cons.prems(2) obtain s' r where b': "b' = s' # r" "length b = length r"
    by (cases b') auto
  let ?p = "upPair node s idx" and ?p' = "upPair node' s' idx"
  have sep: "separatesPairs sha (climbPairs sha (hashPair sha ?p) b (drop_bit 1 idx) \<union> climbPairs sha (hashPair sha ?p') r (drop_bit 1 idx))"
    using Cons.prems(3) unfolding b'(1) climbPairs_Cons by (rule separatesPairs_mono) blast
  have "hashPair sha ?p = hashPair sha ?p' \<and> b = r"
    by (rule Cons.IH [OF _ b'(2) sep]) (use Cons.prems(1) in \<open>simp only: b'(1) climb_Cons\<close>)
  moreover from this have "?p = ?p'"
    using separatesPairsD [OF Cons.prems(3), of "fst ?p" "snd ?p" "fst ?p'" "snd ?p'"]
    unfolding b'(1) climbPairs_Cons hashPair_def by (simp add: prod_eq_iff)
  ultimately show ?case
    using b'(1) by (blast dest: upPair_inj)
qed simp

lemma and_one_bit: "(index :: u64) AND 1 = 1 \<longleftrightarrow> bit index 0"
  by (simp add: bit_0 and_one_eq odd_iff_mod_2_eq_one)

lemma climb_snoc:
  "climb sha node (b @ [s]) idx =
     (if bit idx (length b) then sha256Pair sha s (climb sha node b idx) else sha256Pair sha (climb sha node b idx) s)"
  by (induction b arbitrary: node idx) (simp_all add: and_one_bit bit_drop_bit_eq)

lemma length_branchOf [simp]: "length (branchOf sha d leaves i) = d"
  by (induction d arbitrary: leaves i) simp_all

lemma climb_branchOf:
  "length leaves = 2 ^ d \<Longrightarrow> take_bit d (unat idx) = i \<Longrightarrow>
   climb sha (leaves ! i) (branchOf sha d leaves i) idx = treeRoot sha d leaves"
proof (induction d arbitrary: leaves i)
  case 0
  then show ?case by (cases leaves) simp_all
next
  case (Suc d)
  have i: "i = 2 ^ d * of_bool (bit idx d) + take_bit d (unat idx)" "take_bit d (unat idx) < 2 ^ d"
    using Suc.prems(2) by (simp_all add: take_bit_Suc_from_most bit_unsigned_iff)
  show ?case
  proof (cases "bit idx d")
    case True
    then have "leaves ! i = drop (2 ^ d) leaves ! (i - 2 ^ d)" "\<not> i < 2 ^ d" "take_bit d (unat idx) = i - 2 ^ d"
      using i Suc.prems(1) by simp_all
    then show ?thesis
      using True Suc.IH [of "drop (2 ^ d) leaves" "i - 2 ^ d"] Suc.prems(1) by (simp add: climb_snoc)
  next
    case False
    then have "leaves ! i = take (2 ^ d) leaves ! i" "i < 2 ^ d" "take_bit d (unat idx) = i"
      using i by simp_all
    then show ?thesis
      using False Suc.IH [of "take (2 ^ d) leaves" i] Suc.prems(1) by (simp add: climb_snoc)
  qed
qed

lemma GeneralizedIndexDepth_range: "2 ^ d \<le> unat idx \<Longrightarrow> unat idx < 2 ^ Suc d \<Longrightarrow> GeneralizedIndexDepth idx = d"
proof (induction d arbitrary: idx)
  case 0
  then show ?case by (subst GeneralizedIndexDepth.simps) (simp add: word_less_nat_alt)
next
  case (Suc d)
  have "1 < (2 :: nat) ^ Suc d"
    by (rule one_less_power) simp_all
  then have "1 < idx"
    using Suc.prems(1) by (simp add: word_less_nat_alt)
  moreover have half: "unat (drop_bit 1 idx) = unat idx div 2"
    by (simp add: drop_bit_eq_div unat_div)
  have "GeneralizedIndexDepth (drop_bit 1 idx) = d"
    using Suc.prems by (intro Suc.IH; unfold half) simp_all
  ultimately show ?case
    by (subst GeneralizedIndexDepth.simps) simp
qed

lemma index_facts:
  assumes "i < 2 ^ d" "d < 64"
  shows "unat (of_nat (2 ^ d + i) :: u64) = 2 ^ d + i" "of_nat (2 ^ d + i) \<noteq> (0 :: u64)"
    "GeneralizedIndexDepth (of_nat (2 ^ d + i)) = d"
proof -
  have "(2 :: nat) ^ Suc d \<le> 2 ^ 64"
    using assms(2) by (intro power_increasing) simp_all
  then have "2 ^ d + i < 2 ^ 64"
    using assms(1) by (simp only: power_Suc)
  then show u: "unat (of_nat (2 ^ d + i) :: u64) = 2 ^ d + i"
    by (simp add: unat_of_nat del: of_nat_add of_nat_power)
  then show "of_nat (2 ^ d + i) \<noteq> (0 :: u64)"
    by (metis add_is_0 power_not_zero unsigned_0 zero_neq_numeral)
  show "GeneralizedIndexDepth (of_nat (2 ^ d + i)) = d"
    using assms(1) by (intro GeneralizedIndexDepth_range; unfold u) simp_all
qed

text \<open>
  (C39) A branch names the field at its index. The siblings of a leaf verify at the index of its position, and, as
  long as the hash separates the pairs hashed on the two ways up, no other leaf and no other branch does.
\<close>

theorem branch_names_leaf:
  assumes "length leaves = 2 ^ d" "i < 2 ^ d" "d < 64"
  shows "VerifyBranch sha (leaves ! i) (branchOf sha d leaves i) (of_nat (2 ^ d + i)) (treeRoot sha d leaves) = Inr () \<and>
    (VerifyBranch sha leaf branch (of_nat (2 ^ d + i)) (treeRoot sha d leaves) = Inr () \<longrightarrow>
     separatesPairs sha (climbPairs sha leaf branch (of_nat (2 ^ d + i)) \<union> climbPairs sha (leaves ! i) (branchOf sha d leaves i) (of_nat (2 ^ d + i))) \<longrightarrow>
     leaf = leaves ! i \<and> branch = branchOf sha d leaves i)"
proof -
  note idx = index_facts [OF assms(2,3)]
  have c: "climb sha (leaves ! i) (branchOf sha d leaves i) (of_nat (2 ^ d + i)) = treeRoot sha d leaves"
    using assms(1,2) by (intro climb_branchOf) (simp_all only: idx(1) take_bit_eq_mod mod_add_self1 mod_less)
  moreover have "leaf = leaves ! i \<and> branch = branchOf sha d leaves i"
    if "VerifyBranch sha leaf branch (of_nat (2 ^ d + i)) (treeRoot sha d leaves) = Inr ()"
      "separatesPairs sha (climbPairs sha leaf branch (of_nat (2 ^ d + i)) \<union> climbPairs sha (leaves ! i) (branchOf sha d leaves i) (of_nat (2 ^ d + i)))"
    using that c idx by (intro climb_unique) (auto simp: VerifyBranch_def simp del: of_nat_add of_nat_power split: if_splits)
  ultimately show ?thesis
    using idx by (auto simp: VerifyBranch_def simp del: of_nat_add of_nat_power)
qed

lemma branch_names_leaf_witness:
  "VerifyBranch (\<lambda>x. x) [3] (branchOf (\<lambda>x. x) 2 [[1], [2], [3], [4]] 2) (of_nat (2 ^ 2 + 2)) (treeRoot (\<lambda>x. x) 2 [[1], [2], [3], [4]]) = Inr ()"
  using branch_names_leaf [of "[[1], [2], [3], [4]]" 2 2 "\<lambda>x. x"] by simp

text \<open>Two branches that verify at one index under one root are for one leaf.\<close>

lemma VerifyBranch_unique:
  "VerifyBranch sha leaf branch index root = Inr () \<Longrightarrow> VerifyBranch sha leaf' branch' index root = Inr () \<Longrightarrow>
   separatesPairs sha (climbPairs sha leaf branch index \<union> climbPairs sha leaf' branch' index) \<Longrightarrow> leaf = leaf' \<and> branch = branch'"
  by (rule climb_unique) (auto simp: VerifyBranch_def split: if_splits)

fun treePairs :: "sha \<Rightarrow> nat \<Rightarrow> root list \<Rightarrow> (root \<times> root) set" where
  "treePairs sha 0 leaves = {}"
| "treePairs sha (Suc d) leaves =
     insert (treeRoot sha d (take (2 ^ d) leaves), treeRoot sha d (drop (2 ^ d) leaves))
       (treePairs sha d (take (2 ^ d) leaves) \<union> treePairs sha d (drop (2 ^ d) leaves))"

lemma treeRoot_inj:
  "length xs = 2 ^ d \<Longrightarrow> length ys = 2 ^ d \<Longrightarrow> treeRoot sha d xs = treeRoot sha d ys \<Longrightarrow>
   separatesPairs sha (treePairs sha d xs \<union> treePairs sha d ys) \<Longrightarrow> xs = ys"
proof (induction d arbitrary: xs ys)
  case 0
  then show ?case by (auto simp: length_Suc_conv)
next
  case (Suc d)
  let ?l = "take (2 ^ d)" and ?r = "drop (2 ^ d)"
  have "treeRoot sha d (?l xs) = treeRoot sha d (?l ys) \<and> treeRoot sha d (?r xs) = treeRoot sha d (?r ys)"
    using Suc.prems(3) by (intro separatesPairsD [OF Suc.prems(4)]) simp_all
  moreover have "separatesPairs sha (treePairs sha d (?l xs) \<union> treePairs sha d (?l ys))"
    "separatesPairs sha (treePairs sha d (?r xs) \<union> treePairs sha d (?r ys))"
    using Suc.prems(4) by (auto elim!: separatesPairs_mono)
  ultimately have "?l xs = ?l ys" "?r xs = ?r ys"
    using Suc.IH [of "?l xs" "?l ys"] Suc.IH [of "?r xs" "?r ys"] Suc.prems(1,2) by simp_all
  then show ?case
    by (metis append_take_drop_id)
qed

definition fieldPairs :: "sha \<Rightarrow> root list \<Rightarrow> (root \<times> root) set" where
  "fieldPairs sha fs = treePairs sha (depthFor (length fs)) (padded (depthFor (length fs)) fs)"

lemma ContainerRoot_inj:
  assumes "ContainerRoot sha fs = ContainerRoot sha gs" "length fs = length gs" "length fs \<le> 2 ^ 62"
    and "separatesPairs sha (fieldPairs sha fs \<union> fieldPairs sha gs)"
  shows "fs = gs"
proof -
  let ?d = "depthFor (length gs)"
  have "length gs \<le> 2 ^ ?d"
    using depthFor_least by blast
  moreover have "treeRoot sha ?d (padded ?d fs) = treeRoot sha ?d (padded ?d gs)"
    using assms(1-3) Merkleize_next [of fs sha] Merkleize_next [of gs sha] by (simp add: ContainerRoot_def)
  moreover have "separatesPairs sha (treePairs sha ?d (padded ?d fs) \<union> treePairs sha ?d (padded ?d gs))"
    using assms(2,4) by (simp add: fieldPairs_def)
  ultimately have "padded ?d fs = padded ?d gs"
    using assms(2) by (intro treeRoot_inj) simp_all
  then show ?thesis
    using assms(2) by (simp add: padded_def)
qed

lemma ContainerRoot_total: "length fs \<le> 2 ^ 62 \<Longrightarrow> \<exists>r. ContainerRoot sha fs = Inr r"
  using Merkleize_next [of fs sha] by (simp add: ContainerRoot_def)

lemma putUint64LE_inj: "putUint64LE v = putUint64LE w \<Longrightarrow> v = w"
proof -
  assume eq: "putUint64LE v = putUint64LE w"
  show "v = w"
  proof (rule bit_word_eqI)
    fix n assume "n < LENGTH(64)"
    then have n: "n div 8 < 8" by (simp add: div_less_iff_less_mult)
    have "putUint64LE v ! (n div 8) = putUint64LE w ! (n div 8)"
      using eq by simp
    then have "(ucast (drop_bit (8 * (n div 8)) v) :: byte) = ucast (drop_bit (8 * (n div 8)) w)"
      using n by (simp add: putUint64LE_def del: upt_Suc)
    then have "bit (ucast (drop_bit (8 * (n div 8)) v) :: byte) (n mod 8) = bit (ucast (drop_bit (8 * (n div 8)) w) :: byte) (n mod 8)"
      by simp
    then show "bit v n = bit w n"
      by (simp add: bit_ucast_iff bit_drop_bit_eq)
  qed
qed

lemma Uint64Root_inj: "Uint64Root v = Uint64Root w \<longleftrightarrow> v = w"
  using putUint64LE_inj by (auto simp: Uint64Root_def)

definition headerFields :: "BeaconBlockHeader \<Rightarrow> root list" where
  "headerFields h = [Uint64Root (bh_Slot h), Uint64Root (bh_ProposerIndex h), bh_ParentRoot h, bh_StateRoot h, bh_BodyRoot h]"

lemma HeaderRoot_inj:
  "HeaderRoot sha h = HeaderRoot sha k \<Longrightarrow> separatesPairs sha (fieldPairs sha (headerFields h) \<union> fieldPairs sha (headerFields k)) \<Longrightarrow> h = k"
  using ContainerRoot_inj [of sha "headerFields h" "headerFields k"]
  by (simp add: HeaderRoot_def headerFields_def Uint64Root_inj)

end
