(* ===== verification/Light_Client.thy ===== *)
theory Light_Client
  imports Ssz
begin

unbundle bit_operations_syntax

text \<open>
  The beacon light client, \<^verbatim>\<open>src/internal/ethproof/checkpoint.go\<close>, \<^verbatim>\<open>lightclient.go\<close>, \<^verbatim>\<open>rotation.go\<close>,
  \<^verbatim>\<open>finality.go\<close>, \<^verbatim>\<open>execution.go\<close> and \<^verbatim>\<open>lightclient_verifier.go\<close>. SHA-256 is the argument \<open>sha\<close>; the signature check
  behind the interface \<^verbatim>\<open>SyncCommitteeVerifier\<close> is an argument \<open>v\<close>, \<open>None\<close> for a nil verifier. A method that
  changes its receiver returns the new state; an error leaves it as it was, for the code writes last.
\<close>

datatype lc_error =
    LcSsz ssz_error | LcCommitteeSize | ErrCheckpointIncomplete | ErrAnchorSealed | ErrUpdateStale | LcAttestedBeforeFinalised
  | LcSignatureSlot | ErrInsufficientParticipation | ErrBranchWrongField | ErrCommitteeUnknown | LcNoVerifier | LcBadSignature
  | ErrWrongPeriod | ErrNextCommitteeUnknown | ErrCommitteeConflict | ErrFinalityRegression | ErrFinalityConflict
  | ErrNoFinalityProof | ErrSpecUnsupported | ErrNotFinalized | ErrPayloadNotAuthenticated | LcByteList | LcConflictingExecution
  | ErrNotAuthenticated

definition ssz :: "ssz_error + 'a \<Rightarrow> lc_error + 'a" where
  "ssz r = (case r of Inl e \<Rightarrow> Inl (LcSsz e) | Inr x \<Rightarrow> Inr x)"

subsection \<open>The anchor\<close>

record Checkpoint =
  ck_Slot :: u64
  ck_BlockRoot :: root
  ck_SyncCommitteeRoot :: root
  ck_GenesisValidatorsRoot :: root
  ck_ForkVersion :: bytes
  ck_Source :: string
  ck_Note :: string

definition isSpace :: "char \<Rightarrow> bool" where
  "isSpace c \<longleftrightarrow> c \<in> {CHR '' '', CHR 0x09, CHR 0x0A, CHR 0x0B, CHR 0x0C, CHR 0x0D}"

definition ValidateCheckpoint :: "Checkpoint \<Rightarrow> lc_error + unit" where
  "ValidateCheckpoint c =
     (if ck_BlockRoot c = zero32 then Inl ErrCheckpointIncomplete
      else if ck_SyncCommitteeRoot c = zero32 then Inl ErrCheckpointIncomplete
      else if ck_GenesisValidatorsRoot c = zero32 then Inl ErrCheckpointIncomplete
      else if ck_ForkVersion c = [0, 0, 0, 0] then Inl ErrCheckpointIncomplete
      else if list_all isSpace (ck_Source c) then Inl ErrCheckpointIncomplete
      else Inr ())"

record SealedAnchor =
  sa_checkpoint :: Checkpoint
  sa_sealed :: bool

definition Seal :: "SealedAnchor \<Rightarrow> Checkpoint \<Rightarrow> lc_error + SealedAnchor" where
  "Seal a c =
     (if sa_sealed a then Inl ErrAnchorSealed
      else bindR (ValidateCheckpoint c) (\<lambda>_. Inr (a\<lparr>sa_checkpoint := c, sa_sealed := True\<rparr>)))"

definition ComputeDomain :: "sha \<Rightarrow> Checkpoint \<Rightarrow> lc_error + root" where
  "ComputeDomain sha c =
     bindR (ssz (ContainerRoot sha [take 4 (ck_ForkVersion c) @ replicate 28 0, ck_GenesisValidatorsRoot c])) (\<lambda>forkData.
       Inr ([7, 0, 0, 0] @ take 28 forkData))"

definition SigningRoot :: "sha \<Rightarrow> root \<Rightarrow> root \<Rightarrow> lc_error + root" where
  "SigningRoot sha headerRoot domain = ssz (ContainerRoot sha [headerRoot, domain])"

subsection \<open>Committees and periods\<close>

definition SyncCommitteeSize :: nat where "SyncCommitteeSize = 512"
definition MinParticipation :: nat where "MinParticipation = SyncCommitteeSize * 2 div 3"

record SyncCommittee =
  sc_Pubkeys :: "bytes list"
  sc_AggregatePubkey :: bytes

definition CommitteeRoot :: "sha \<Rightarrow> SyncCommittee \<Rightarrow> lc_error + root" where
  "CommitteeRoot sha c =
     (if length (sc_Pubkeys c) \<noteq> SyncCommitteeSize then Inl LcCommitteeSize
      else bindR (ssz (mapR (BytesRoot sha) (sc_Pubkeys c))) (\<lambda>leaves.
           bindR (ssz (Merkleize sha leaves (int SyncCommitteeSize))) (\<lambda>keysRoot.
           bindR (ssz (BytesRoot sha (sc_AggregatePubkey c))) (\<lambda>aggregateRoot.
             ssz (ContainerRoot sha [keysRoot, aggregateRoot])))))"

definition participationCount :: "bytes \<Rightarrow> nat" where
  "participationCount p = sum_list (map (\<lambda>b. length (filter (\<lambda>i. b AND push_bit i 1 \<noteq> 0) [0..<8])) p)"

definition participationMembers :: "bytes \<Rightarrow> nat list" where
  "participationMembers p =
     filter (\<lambda>i. p ! (i div 8) AND push_bit (i mod 8) 1 \<noteq> 0) [0..<min (length p * 8) SyncCommitteeSize]"

definition SlotsPerSyncCommitteePeriod :: u64 where "SlotsPerSyncCommitteePeriod = 8192"

definition SyncCommitteePeriod :: "u64 \<Rightarrow> u64" where "SyncCommitteePeriod slot = slot div SlotsPerSyncCommitteePeriod"

definition SlotsPerEpoch :: u64 where "SlotsPerEpoch = 32"

definition EpochAtSlot :: "u64 \<Rightarrow> u64" where "EpochAtSlot slot = slot div SlotsPerEpoch"

datatype SpecVersion = SpecAltair | SpecElectra | SpecFulu | SpecOther string

definition MainnetElectraForkEpoch :: u64 where "MainnetElectraForkEpoch = 364032"

record ForkIndices =
  fi_FinalizedRoot :: u64
  fi_NextSyncCommittee :: u64
  fi_CurrentSyncCommittee :: u64

definition altairIndices :: ForkIndices where
  "altairIndices = \<lparr> fi_FinalizedRoot = 105, fi_NextSyncCommittee = 55, fi_CurrentSyncCommittee = 54 \<rparr>"

definition electraIndices :: ForkIndices where
  "electraIndices = \<lparr> fi_FinalizedRoot = 169, fi_NextSyncCommittee = 87, fi_CurrentSyncCommittee = 86 \<rparr>"

definition IndicesFor :: "SpecVersion \<Rightarrow> lc_error + ForkIndices" where
  "IndicesFor ver =
     (case ver of SpecAltair \<Rightarrow> Inr altairIndices | SpecElectra \<Rightarrow> Inr electraIndices | SpecFulu \<Rightarrow> Inr electraIndices
      | SpecOther t \<Rightarrow> Inl ErrSpecUnsupported)"

definition IndicesAtSlot :: "u64 \<Rightarrow> ForkIndices" where
  "IndicesAtSlot slot = (if EpochAtSlot slot \<ge> MainnetElectraForkEpoch then electraIndices else altairIndices)"

definition mainnetForks :: "(u64 \<times> bytes) list" where
  "mainnetForks =
     [(411392, [6, 0, 0, 0]), (364032, [5, 0, 0, 0]), (269568, [4, 0, 0, 0]), (194048, [3, 0, 0, 0]),
      (144896, [2, 0, 0, 0]), (74240, [1, 0, 0, 0]), (0, [0, 0, 0, 0])]"

fun versionIn :: "(u64 \<times> bytes) list \<Rightarrow> u64 \<Rightarrow> bytes" where
  "versionIn [] epoch = snd (last mainnetForks)"
| "versionIn ((e, ver) # fs) epoch = (if epoch \<ge> e then ver else versionIn fs epoch)"

definition ForkVersionAtSlot :: "u64 \<Rightarrow> bytes" where
  "ForkVersionAtSlot slot = versionIn mainnetForks (EpochAtSlot slot)"

subsection \<open>The state and an update\<close>

record ExecutionPayloadHeader =
  xp_ParentHash :: root
  xp_FeeRecipient :: bytes
  xp_StateRoot :: root
  xp_ReceiptsRoot :: root
  xp_LogsBloom :: bytes
  xp_PrevRandao :: root
  xp_BlockNumber :: u64
  xp_GasLimit :: u64
  xp_GasUsed :: u64
  xp_Timestamp :: u64
  xp_ExtraData :: bytes
  xp_BaseFeePerGas :: bytes
  xp_BlockHash :: root
  xp_TxRoot :: root
  xp_WithdrawalsRoot :: root
  xp_BlobGasUsed :: u64
  xp_ExcessBlobGas :: u64

record LightClientState =
  ls_FinalizedHeader :: BeaconBlockHeader
  ls_CurrentCommittee :: "SyncCommittee option"
  ls_NextCommittee :: "SyncCommittee option"
  ls_Checkpoint :: Checkpoint
  ls_Anchor :: SealedAnchor
  ls_optimistic :: "BeaconBlockHeader option"
  ls_Spec :: SpecVersion

record Update =
  up_AttestedHeader :: BeaconBlockHeader
  up_FinalizedHeader :: BeaconBlockHeader
  up_FinalityBranch :: "root list"
  up_NextCommittee :: "SyncCommittee option"
  up_NextCommitteeBranch :: "root list"
  up_FinalizedExecution :: "ExecutionPayloadHeader option"
  up_FinalizedExecutionBranch :: "root list"
  up_Participation :: bytes
  up_Signature :: bytes
  up_SignatureSlot :: u64

type_synonym verifier = "root \<Rightarrow> SyncCommittee \<Rightarrow> bytes \<Rightarrow> bytes \<Rightarrow> bool"

definition Period :: "LightClientState \<Rightarrow> u64" where
  "Period s = SyncCommitteePeriod (bh_Slot (ls_FinalizedHeader s))"

definition committeeFor :: "LightClientState \<Rightarrow> u64 \<Rightarrow> lc_error + SyncCommittee" where
  "committeeFor s period =
     (if period = Period s then ofOpt ErrCommitteeUnknown (ls_CurrentCommittee s)
      else if period = Period s + 1 then ofOpt ErrNextCommitteeUnknown (ls_NextCommittee s)
      else Inl ErrWrongPeriod)"

definition branchAt :: "sha \<Rightarrow> root \<Rightarrow> root list \<Rightarrow> u64 \<Rightarrow> root \<Rightarrow> lc_error + unit" where
  \<comment> \<open>\<^verbatim>\<open>VerifyBranch\<close> with its error wrapped\<close>
  "branchAt sha leaf branch index root = (case VerifyBranch sha leaf branch index root of Inl e \<Rightarrow> Inl ErrBranchWrongField | Inr _ \<Rightarrow> Inr ())"

definition validateStructureWith :: "sha \<Rightarrow> LightClientState \<Rightarrow> Update \<Rightarrow> ForkIndices \<Rightarrow> lc_error + unit" where
  "validateStructureWith sha s u indices =
     (if bh_Slot (up_FinalizedHeader u) \<le> bh_Slot (ls_FinalizedHeader s) then Inl ErrUpdateStale
      else if bh_Slot (up_AttestedHeader u) < bh_Slot (up_FinalizedHeader u) then Inl LcAttestedBeforeFinalised
      else if up_SignatureSlot u \<le> bh_Slot (up_AttestedHeader u) then Inl LcSignatureSlot
      else if participationCount (up_Participation u) < MinParticipation then Inl ErrInsufficientParticipation
      else
        bindR (ssz (HeaderRoot sha (up_FinalizedHeader u))) (\<lambda>finalizedRoot.
        bindR (branchAt sha finalizedRoot (up_FinalityBranch u) (fi_FinalizedRoot indices) (bh_StateRoot (up_AttestedHeader u))) (\<lambda>_.
        case up_NextCommittee u of
          None \<Rightarrow> Inr ()
        | Some c \<Rightarrow>
            bindR (CommitteeRoot sha c) (\<lambda>committeeRoot.
              branchAt sha committeeRoot (up_NextCommitteeBranch u) (fi_NextSyncCommittee indices) (bh_StateRoot (up_AttestedHeader u))))))"

definition ValidateStructure :: "sha \<Rightarrow> LightClientState \<Rightarrow> Update \<Rightarrow> lc_error + unit" where
  "ValidateStructure sha s u = validateStructureWith sha s u altairIndices"

definition SigningRootFor :: "sha \<Rightarrow> LightClientState \<Rightarrow> Update \<Rightarrow> lc_error + root" where
  "SigningRootFor sha s u =
     bindR (ssz (HeaderRoot sha (up_AttestedHeader u))) (\<lambda>attestedRoot.
     bindR (ComputeDomain sha ((ls_Checkpoint s)\<lparr>ck_ForkVersion := ForkVersionAtSlot (up_SignatureSlot u)\<rparr>)) (\<lambda>domain.
       SigningRoot sha attestedRoot domain))"

definition verifySignature :: "verifier \<Rightarrow> root \<Rightarrow> SyncCommittee \<Rightarrow> bytes \<Rightarrow> bytes \<Rightarrow> lc_error + unit" where
  "verifySignature v signingRoot committee participation sig =
     (if v signingRoot committee participation sig then Inr () else Inl LcBadSignature)"

definition ApplyUpdate :: "sha \<Rightarrow> verifier option \<Rightarrow> LightClientState \<Rightarrow> Update \<Rightarrow> lc_error + LightClientState" where
  "ApplyUpdate sha v s u =
     bindR (ValidateStructure sha s u) (\<lambda>_.
     case v of
       None \<Rightarrow> Inl LcNoVerifier
     | Some verify \<Rightarrow>
         bindR (ofOpt ErrCommitteeUnknown (ls_CurrentCommittee s)) (\<lambda>committee.
         bindR (SigningRootFor sha s u) (\<lambda>signingRoot.
         bindR (verifySignature verify signingRoot committee (up_Participation u) (up_Signature u)) (\<lambda>_.
           Inr (s\<lparr>ls_FinalizedHeader := up_FinalizedHeader u,
                  ls_NextCommittee := (if up_NextCommittee u \<noteq> None then up_NextCommittee u else ls_NextCommittee s)\<rparr>)))))"

definition committeeAgrees :: "sha \<Rightarrow> LightClientState \<Rightarrow> Update \<Rightarrow> u64 \<Rightarrow> lc_error + unit" where
  \<comment> \<open>step 3 of \<^verbatim>\<open>ApplyRotatingUpdate\<close>\<close>
  "committeeAgrees sha s u signaturePeriod =
     (case (up_NextCommittee u, ls_NextCommittee s) of
        (Some offered, Some known) \<Rightarrow>
          if signaturePeriod = Period s then
            bindR (CommitteeRoot sha known) (\<lambda>k. bindR (CommitteeRoot sha offered) (\<lambda>ofd.
              if k \<noteq> ofd then Inl ErrCommitteeConflict else Inr ()))
          else Inr ()
      | _ \<Rightarrow> Inr ())"

definition rotate :: "LightClientState \<Rightarrow> Update \<Rightarrow> LightClientState" where
  \<comment> \<open>step 5, the writes\<close>
  "rotate s u =
     (let previousPeriod = Period s;
          s1 = s\<lparr>ls_FinalizedHeader := up_FinalizedHeader u\<rparr>;
          s2 = (if (case ls_optimistic s1 of None \<Rightarrow> True | Some h \<Rightarrow> bh_Slot (up_AttestedHeader u) > bh_Slot h)
                then s1\<lparr>ls_optimistic := Some (up_AttestedHeader u)\<rparr> else s1);
          newPeriod = Period s2;
          s3 = (if newPeriod > previousPeriod \<and> newPeriod = previousPeriod + 1 \<and> ls_NextCommittee s2 \<noteq> None
                then s2\<lparr>ls_CurrentCommittee := ls_NextCommittee s2, ls_NextCommittee := None\<rparr> else s2)
      in if up_NextCommittee u \<noteq> None then s3\<lparr>ls_NextCommittee := up_NextCommittee u\<rparr> else s3)"

definition ApplyRotatingUpdate :: "sha \<Rightarrow> verifier option \<Rightarrow> LightClientState \<Rightarrow> Update \<Rightarrow> lc_error + LightClientState" where
  "ApplyRotatingUpdate sha v s u =
     (case v of
        None \<Rightarrow> Inl LcNoVerifier
      | Some verify \<Rightarrow>
          bindR (validateStructureWith sha s u (IndicesAtSlot (bh_Slot (up_AttestedHeader u)))) (\<lambda>_.
          bindR (committeeFor s (SyncCommitteePeriod (up_SignatureSlot u))) (\<lambda>committee.
          bindR (committeeAgrees sha s u (SyncCommitteePeriod (up_SignatureSlot u))) (\<lambda>_.
          bindR (SigningRootFor sha s u) (\<lambda>signingRoot.
          bindR (verifySignature verify signingRoot committee (up_Participation u) (up_Signature u)) (\<lambda>_.
            Inr (rotate s u)))))))"

definition ApplyOptimisticUpdate ::
  "sha \<Rightarrow> verifier option \<Rightarrow> LightClientState \<Rightarrow> BeaconBlockHeader \<Rightarrow> u64 \<Rightarrow> bytes \<Rightarrow> bytes \<Rightarrow> lc_error + LightClientState" where
  "ApplyOptimisticUpdate sha v s attested signatureSlot participation sig =
     (case v of
        None \<Rightarrow> Inl LcNoVerifier
      | Some verify \<Rightarrow>
          if signatureSlot \<le> bh_Slot attested then Inl LcSignatureSlot
          else if participationCount participation < MinParticipation then Inl ErrInsufficientParticipation
          else if (case ls_optimistic s of None \<Rightarrow> False | Some h \<Rightarrow> bh_Slot attested \<le> bh_Slot h) then Inl ErrUpdateStale
          else
            bindR (committeeFor s (SyncCommitteePeriod signatureSlot)) (\<lambda>committee.
            bindR (ssz (HeaderRoot sha attested)) (\<lambda>attestedRoot.
            bindR (ComputeDomain sha (ls_Checkpoint s)) (\<lambda>domain.
            bindR (SigningRoot sha attestedRoot domain) (\<lambda>signingRoot.
            bindR (verifySignature verify signingRoot committee participation sig) (\<lambda>_.
              Inr (s\<lparr>ls_optimistic := Some attested\<rparr>)))))))"

definition ApplyFinalityUpdate :: "sha \<Rightarrow> verifier option \<Rightarrow> LightClientState \<Rightarrow> Update \<Rightarrow> lc_error + LightClientState" where
  "ApplyFinalityUpdate sha v s u =
     (if v = None then Inl LcNoVerifier
      else if up_FinalityBranch u = [] then Inl ErrNoFinalityProof
      else if bh_Slot (up_FinalizedHeader u) < bh_Slot (ls_FinalizedHeader s) then Inl ErrFinalityRegression
      else if bh_Slot (up_FinalizedHeader u) = bh_Slot (ls_FinalizedHeader s) \<and> bh_Slot (ls_FinalizedHeader s) \<noteq> 0 then
        bindR (ssz (HeaderRoot sha (ls_FinalizedHeader s))) (\<lambda>known.
        bindR (ssz (HeaderRoot sha (up_FinalizedHeader u))) (\<lambda>offered.
          if known \<noteq> offered then Inl ErrFinalityConflict else Inr s))
      else ApplyRotatingUpdate sha v s u)"

datatype TrustLevel = HeaderObserved | HeaderVerified | HeaderFinalized

definition hasFinalized :: "LightClientState \<Rightarrow> bool" where
  "hasFinalized s \<longleftrightarrow> bh_Slot (ls_FinalizedHeader s) \<noteq> 0 \<or> bh_BodyRoot (ls_FinalizedHeader s) \<noteq> zero32"

definition TrustLevelOf :: "sha \<Rightarrow> LightClientState \<Rightarrow> BeaconBlockHeader \<Rightarrow> lc_error + TrustLevel" where
  "TrustLevelOf sha s h =
     bindR (ssz (HeaderRoot sha h)) (\<lambda>want.
     bindR (if hasFinalized s then bindR (ssz (HeaderRoot sha (ls_FinalizedHeader s))) (\<lambda>final. Inr (final = want)) else Inr False) (\<lambda>isFinal.
     if isFinal then Inr HeaderFinalized
     else (case ls_optimistic s of
             None \<Rightarrow> Inr HeaderObserved
           | Some h' \<Rightarrow> bindR (ssz (HeaderRoot sha h')) (\<lambda>opt. Inr (if opt = want then HeaderVerified else HeaderObserved)))))"

subsection \<open>The execution bridge\<close>

definition ExecutionPayloadIndex :: u64 where "ExecutionPayloadIndex = 25"

definition byteListRoot :: "sha \<Rightarrow> bytes \<Rightarrow> nat \<Rightarrow> lc_error + root" where
  "byteListRoot sha b limitBytes =
     (if length b > limitBytes then Inl LcByteList
      else
        (let chunkLimit = (if (limitBytes + BytesPerChunk - 1) div BytesPerChunk = 0 then 1
                           else (limitBytes + BytesPerChunk - 1) div BytesPerChunk) in
         case nextPowerOfTwo (int chunkLimit) of
           None \<Rightarrow> Inl (LcSsz SszLoops)
         | Some limit \<Rightarrow>
             bindR (ssz (Merkleize sha (chunksOf b) limit)) (\<lambda>root. Inr (MixInLength sha root (of_nat (length b))))))"

definition PayloadRoot :: "sha \<Rightarrow> ExecutionPayloadHeader \<Rightarrow> SpecVersion \<Rightarrow> lc_error + root" where
  "PayloadRoot sha p spec =
     bindR (byteListRoot sha (xp_ExtraData p) 32) (\<lambda>extraData.
     bindR (ssz (BytesRoot sha (xp_LogsBloom p))) (\<lambda>logsBloom.
       let fieldRoots =
         [xp_ParentHash p, copyArr 32 (xp_FeeRecipient p), xp_StateRoot p, xp_ReceiptsRoot p, logsBloom,
          xp_PrevRandao p, Uint64Root (xp_BlockNumber p), Uint64Root (xp_GasLimit p), Uint64Root (xp_GasUsed p),
          Uint64Root (xp_Timestamp p), extraData, copyArr 32 (xp_BaseFeePerGas p), xp_BlockHash p, xp_TxRoot p]
       in case spec of
            SpecOther t \<Rightarrow> Inl ErrSpecUnsupported
          | _ \<Rightarrow> ssz (ContainerRoot sha (fieldRoots @ [xp_WithdrawalsRoot p, Uint64Root (xp_BlobGasUsed p), Uint64Root (xp_ExcessBlobGas p)]))))"

definition AuthenticatedStateRoot ::
  "sha \<Rightarrow> LightClientState \<Rightarrow> ExecutionPayloadHeader \<Rightarrow> root list \<Rightarrow> lc_error + root \<times> u64 \<times> root" where
  "AuthenticatedStateRoot sha s payload executionBranch =
     (if \<not> hasFinalized s then Inl ErrNotFinalized
      else
        bindR (TrustLevelOf sha s (ls_FinalizedHeader s)) (\<lambda>level.
        if level \<noteq> HeaderFinalized then Inl ErrNotFinalized
        else
          bindR (PayloadRoot sha payload (ls_Spec s)) (\<lambda>payloadRoot.
          case VerifyBranch sha payloadRoot executionBranch ExecutionPayloadIndex (bh_BodyRoot (ls_FinalizedHeader s)) of
            Inl e \<Rightarrow> Inl ErrPayloadNotAuthenticated
          | Inr _ \<Rightarrow> Inr (xp_StateRoot payload, xp_BlockNumber payload, xp_BlockHash payload))))"

record LightClient =
  lt_state :: LightClientState
  lt_execution :: "u64 \<rightharpoonup> root \<times> root"

definition NewLightClient :: "LightClientState \<Rightarrow> LightClient" where
  "NewLightClient state = \<lparr> lt_state = state, lt_execution = Map.empty \<rparr>"

definition AdoptExecutionPayload :: "sha \<Rightarrow> LightClient \<Rightarrow> ExecutionPayloadHeader \<Rightarrow> root list \<Rightarrow> lc_error + LightClient" where
  "AdoptExecutionPayload sha c payload executionBranch =
     bindR (AuthenticatedStateRoot sha (lt_state c) payload executionBranch) (\<lambda>(stateRoot, number, hash).
       case lt_execution c number of
         Some (existingRoot, existingHash) \<Rightarrow>
           if existingRoot \<noteq> stateRoot \<or> existingHash \<noteq> hash then Inl LcConflictingExecution else Inr c
       | None \<Rightarrow> Inr (c\<lparr>lt_execution := (lt_execution c)(number \<mapsto> (stateRoot, hash))\<rparr>))"

definition AuthenticatedExecution :: "LightClient \<Rightarrow> u64 \<Rightarrow> (root \<times> root) option" where
  "AuthenticatedExecution c number = lt_execution c number"

definition trimBoth :: "string \<Rightarrow> string" where
  "trimBoth s = (let t = (if take 2 s = ''0x'' then drop 2 s else s) in if take 2 t = ''0X'' then drop 2 t else t)"

definition decodeHex32 :: "string \<Rightarrow> root option" where
  "decodeHex32 s =
     (let t = trimBoth s; padded = (if length t mod 2 = 1 then CHR ''0'' # t else t) in
      case hexDecode padded of None \<Rightarrow> None | Some raw \<Rightarrow> if length raw \<noteq> 32 then None else Some raw)"

definition VerifyExecutionHeader :: "LightClient \<Rightarrow> u64 \<Rightarrow> string \<Rightarrow> string \<Rightarrow> lc_error + unit" where
  \<comment> \<open>the header's number as its method \<^verbatim>\<open>BlockNumber\<close> gives it, its state root and its hash\<close>
  "VerifyExecutionHeader c number stateRootText hashText =
     (case AuthenticatedExecution c number of
        None \<Rightarrow> Inl ErrNotAuthenticated
      | Some (stateRoot, blockHash) \<Rightarrow>
          (case decodeHex32 stateRootText of
             None \<Rightarrow> Inl ErrNotAuthenticated
           | Some claimedState \<Rightarrow>
               if claimedState \<noteq> stateRoot then Inl ErrNotAuthenticated
               else if hashText = [] then Inr ()
               else (case decodeHex32 hashText of
                       None \<Rightarrow> Inl ErrNotAuthenticated
                     | Some claimedHash \<Rightarrow> if claimedHash \<noteq> blockHash then Inl ErrNotAuthenticated else Inr ())))"

end
