(* ===== verification/Light_Client_Props.thy ===== *)
theory Light_Client_Props
  imports Light_Client
begin

text \<open>
  What the light client of \<^verbatim>\<open>src/internal/ethproof\<close> believes, and why: the committees and headers it may hold are
  defined by rules that mention signatures and branches only, and every sequence of updates stays within them.
\<close>

subsection \<open>Chains of trust\<close>

definition signedUnder :: "sha \<Rightarrow> verifier \<Rightarrow> Checkpoint \<Rightarrow> SyncCommittee \<Rightarrow> BeaconBlockHeader \<Rightarrow> bool" where
  \<comment> \<open>a supermajority of the committee signed the header in a domain of the anchor's chain\<close>
  "signedUnder sha v ck c h \<longleftrightarrow>
     (\<exists>forkVersion hr dom signingRoot participation sig.
        HeaderRoot sha h = Inr hr \<and> ComputeDomain sha (ck\<lparr>ck_ForkVersion := forkVersion\<rparr>) = Inr dom \<and>
        SigningRoot sha hr dom = Inr signingRoot \<and> MinParticipation \<le> participationCount participation \<and>
        v signingRoot c participation sig)"

definition provenIn :: "sha \<Rightarrow> u64 set \<Rightarrow> root \<Rightarrow> BeaconBlockHeader \<Rightarrow> bool" where
  "provenIn sha idx leaf h \<longleftrightarrow> (\<exists>i branch. i \<in> idx \<and> VerifyBranch sha leaf branch i (bh_StateRoot h) = Inr ())"

inductive trustedCommittee :: "sha \<Rightarrow> verifier \<Rightarrow> LightClientState \<Rightarrow> SyncCommittee \<Rightarrow> bool" for sha v s0 where
  anchored: "ls_CurrentCommittee s0 = Some c \<or> ls_NextCommittee s0 = Some c \<Longrightarrow> trustedCommittee sha v s0 c"
| handed_on: "trustedCommittee sha v s0 c \<Longrightarrow> signedUnder sha v (ls_Checkpoint s0) c h \<Longrightarrow> CommitteeRoot sha c' = Inr r \<Longrightarrow>
    provenIn sha {55, 87} r h \<Longrightarrow> trustedCommittee sha v s0 c'"

definition attestedHeader :: "sha \<Rightarrow> verifier \<Rightarrow> LightClientState \<Rightarrow> BeaconBlockHeader \<Rightarrow> bool" where
  "attestedHeader sha v s0 h \<longleftrightarrow> (\<exists>c. trustedCommittee sha v s0 c \<and> signedUnder sha v (ls_Checkpoint s0) c h)"

definition finalHeader :: "sha \<Rightarrow> verifier \<Rightarrow> LightClientState \<Rightarrow> BeaconBlockHeader \<Rightarrow> bool" where
  "finalHeader sha v s0 h \<longleftrightarrow>
     h = ls_FinalizedHeader s0 \<or>
     (\<exists>a r. attestedHeader sha v s0 a \<and> HeaderRoot sha h = Inr r \<and> provenIn sha {105, 169} r a \<and> bh_Slot h \<le> bh_Slot a)"

inductive lcStep :: "sha \<Rightarrow> verifier \<Rightarrow> LightClientState \<Rightarrow> LightClientState \<Rightarrow> bool" for sha v where
  plain: "ApplyUpdate sha (Some v) s u = Inr s' \<Longrightarrow> lcStep sha v s s'"
| rotating: "ApplyRotatingUpdate sha (Some v) s u = Inr s' \<Longrightarrow> lcStep sha v s s'"
| finality: "ApplyFinalityUpdate sha (Some v) s u = Inr s' \<Longrightarrow> lcStep sha v s s'"
| optimistic: "ApplyOptimisticUpdate sha (Some v) s h slot participation sig = Inr s' \<Longrightarrow> lcStep sha v s s'"

inductive lcReach :: "sha \<Rightarrow> verifier \<Rightarrow> LightClientState \<Rightarrow> LightClientState \<Rightarrow> bool" for sha v s0 where
  start: "lcReach sha v s0 s0"
| step: "lcReach sha v s0 s \<Longrightarrow> lcStep sha v s s' \<Longrightarrow> lcReach sha v s0 s'"

definition lcInv :: "sha \<Rightarrow> verifier \<Rightarrow> LightClientState \<Rightarrow> LightClientState \<Rightarrow> bool" where
  "lcInv sha v s0 s \<longleftrightarrow>
     ls_Checkpoint s = ls_Checkpoint s0 \<and> ls_Anchor s = ls_Anchor s0 \<and>
     (\<forall>c. ls_CurrentCommittee s = Some c \<or> ls_NextCommittee s = Some c \<longrightarrow> trustedCommittee sha v s0 c) \<and>
     finalHeader sha v s0 (ls_FinalizedHeader s) \<and>
     (\<forall>h. ls_optimistic s = Some h \<longrightarrow> ls_optimistic s0 = Some h \<or> attestedHeader sha v s0 h) \<and>
     bh_Slot (ls_FinalizedHeader s0) \<le> bh_Slot (ls_FinalizedHeader s)"

lemma ssz_Inr: "ssz r = Inr x \<longleftrightarrow> r = Inr x"
  by (simp add: ssz_def split: sum.split)

lemma branchAt_Inr: "branchAt sha leaf branch i root = Inr u \<longleftrightarrow> VerifyBranch sha leaf branch i root = Inr ()"
  by (simp add: branchAt_def split: sum.split)

lemma validate_Inr:
  assumes "validateStructureWith sha s u idx = Inr ()"
  obtains r where "bh_Slot (ls_FinalizedHeader s) < bh_Slot (up_FinalizedHeader u)"
    "bh_Slot (up_FinalizedHeader u) \<le> bh_Slot (up_AttestedHeader u)" "bh_Slot (up_AttestedHeader u) < up_SignatureSlot u"
    "MinParticipation \<le> participationCount (up_Participation u)" "HeaderRoot sha (up_FinalizedHeader u) = Inr r"
    "VerifyBranch sha r (up_FinalityBranch u) (fi_FinalizedRoot idx) (bh_StateRoot (up_AttestedHeader u)) = Inr ()"
    "\<And>c. up_NextCommittee u = Some c \<Longrightarrow> \<exists>cr. CommitteeRoot sha c = Inr cr \<and>
       VerifyBranch sha cr (up_NextCommitteeBranch u) (fi_NextSyncCommittee idx) (bh_StateRoot (up_AttestedHeader u)) = Inr ()"
proof -
  obtain r where "HeaderRoot sha (up_FinalizedHeader u) = Inr r"
    "VerifyBranch sha r (up_FinalityBranch u) (fi_FinalizedRoot idx) (bh_StateRoot (up_AttestedHeader u)) = Inr ()"
    "\<And>c. up_NextCommittee u = Some c \<Longrightarrow> \<exists>cr. CommitteeRoot sha c = Inr cr \<and>
       VerifyBranch sha cr (up_NextCommitteeBranch u) (fi_NextSyncCommittee idx) (bh_StateRoot (up_AttestedHeader u)) = Inr ()"
    using assms by (auto simp: validateStructureWith_def bindR_Inr ssz_Inr branchAt_Inr split: if_splits option.splits)
  moreover have "bh_Slot (ls_FinalizedHeader s) < bh_Slot (up_FinalizedHeader u)"
    "bh_Slot (up_FinalizedHeader u) \<le> bh_Slot (up_AttestedHeader u)" "bh_Slot (up_AttestedHeader u) < up_SignatureSlot u"
    "MinParticipation \<le> participationCount (up_Participation u)"
    using assms by (auto simp: validateStructureWith_def split: if_splits)
  ultimately show ?thesis using that by blast
qed

lemma SigningRootFor_signed:
  assumes "SigningRootFor sha s u = Inr signingRoot" "ls_Checkpoint s = ck" "MinParticipation \<le> participationCount (up_Participation u)"
    "v signingRoot c (up_Participation u) (up_Signature u)"
  shows "signedUnder sha v ck c (up_AttestedHeader u)"
  using assms unfolding signedUnder_def SigningRootFor_def bindR_Inr ssz_Inr by blast

lemma committeeFor_trusted:
  "lcInv sha v s0 s \<Longrightarrow> committeeFor s period = Inr c \<Longrightarrow> trustedCommittee sha v s0 c"
  by (auto simp: lcInv_def committeeFor_def ofOpt_Inr split: if_splits)

lemma indices_known: "fi_FinalizedRoot (IndicesAtSlot slot) \<in> {105, 169}" "fi_NextSyncCommittee (IndicesAtSlot slot) \<in> {55, 87}"
  "fi_FinalizedRoot altairIndices \<in> {105, 169}" "fi_NextSyncCommittee altairIndices \<in> {55, 87}"
  by (simp_all add: IndicesAtSlot_def altairIndices_def electraIndices_def)

lemma update_trust:
  assumes inv: "lcInv sha v s0 s" and val: "validateStructureWith sha s u idx = Inr ()"
    and idx: "fi_FinalizedRoot idx \<in> {105, 169}" "fi_NextSyncCommittee idx \<in> {55, 87}"
    and c: "trustedCommittee sha v s0 c" "SigningRootFor sha s u = Inr signingRoot" "v signingRoot c (up_Participation u) (up_Signature u)"
  shows "finalHeader sha v s0 (up_FinalizedHeader u)" "attestedHeader sha v s0 (up_AttestedHeader u)"
    "up_NextCommittee u = Some c' \<Longrightarrow> trustedCommittee sha v s0 c'"
    "bh_Slot (ls_FinalizedHeader s) < bh_Slot (up_FinalizedHeader u)"
proof -
  from val obtain r where st: "bh_Slot (ls_FinalizedHeader s) < bh_Slot (up_FinalizedHeader u)"
    "bh_Slot (up_FinalizedHeader u) \<le> bh_Slot (up_AttestedHeader u)" "MinParticipation \<le> participationCount (up_Participation u)"
    "HeaderRoot sha (up_FinalizedHeader u) = Inr r"
    "VerifyBranch sha r (up_FinalityBranch u) (fi_FinalizedRoot idx) (bh_StateRoot (up_AttestedHeader u)) = Inr ()"
    and nc: "\<And>c. up_NextCommittee u = Some c \<Longrightarrow> \<exists>cr. CommitteeRoot sha c = Inr cr \<and>
       VerifyBranch sha cr (up_NextCommitteeBranch u) (fi_NextSyncCommittee idx) (bh_StateRoot (up_AttestedHeader u)) = Inr ()"
    by (rule validate_Inr) blast
  have ck: "ls_Checkpoint s = ls_Checkpoint s0"
    using inv by (simp add: lcInv_def)
  have signed: "signedUnder sha v (ls_Checkpoint s0) c (up_AttestedHeader u)"
    by (rule SigningRootFor_signed [where v = v, OF c(2) ck st(3) c(3)])
  then show att: "attestedHeader sha v s0 (up_AttestedHeader u)"
    using c(1) by (auto simp: attestedHeader_def)
  show "finalHeader sha v s0 (up_FinalizedHeader u)"
    using att st idx(1) unfolding finalHeader_def provenIn_def by blast
  show "trustedCommittee sha v s0 c'" if nxt: "up_NextCommittee u = Some c'"
  proof -
    obtain cr where "CommitteeRoot sha c' = Inr cr"
      "VerifyBranch sha cr (up_NextCommitteeBranch u) (fi_NextSyncCommittee idx) (bh_StateRoot (up_AttestedHeader u)) = Inr ()"
      using nc [OF nxt] by blast
    then show ?thesis
      using trustedCommittee.handed_on [OF c(1) signed] idx(2) unfolding provenIn_def by blast
  qed
  show "bh_Slot (ls_FinalizedHeader s) < bh_Slot (up_FinalizedHeader u)"
    by (rule st(1))
qed

lemma rotate_fields:
  "ls_Checkpoint (rotate s u) = ls_Checkpoint s" "ls_Anchor (rotate s u) = ls_Anchor s"
  "ls_FinalizedHeader (rotate s u) = up_FinalizedHeader u"
  "ls_CurrentCommittee (rotate s u) = Some c \<Longrightarrow> ls_CurrentCommittee s = Some c \<or> ls_NextCommittee s = Some c"
  "ls_NextCommittee (rotate s u) = Some c \<Longrightarrow> ls_NextCommittee s = Some c \<or> up_NextCommittee u = Some c"
  "ls_optimistic (rotate s u) = Some h \<Longrightarrow> ls_optimistic s = Some h \<or> h = up_AttestedHeader u"
  by (auto simp: rotate_def Let_def split: if_splits option.splits)

lemma rotating_inv:
  assumes "lcInv sha v s0 s" "ApplyRotatingUpdate sha (Some v) s u = Inr s'"
  shows "lcInv sha v s0 s' \<and> bh_Slot (ls_FinalizedHeader s) < bh_Slot (ls_FinalizedHeader s')"
proof -
  obtain c signingRoot where s: "validateStructureWith sha s u (IndicesAtSlot (bh_Slot (up_AttestedHeader u))) = Inr ()"
    "committeeFor s (SyncCommitteePeriod (up_SignatureSlot u)) = Inr c" "SigningRootFor sha s u = Inr signingRoot"
    "v signingRoot c (up_Participation u) (up_Signature u)" "s' = rotate s u"
    using assms(2) by (auto simp: ApplyRotatingUpdate_def bindR_Inr verifySignature_def split: if_splits)
  note t = update_trust [OF assms(1) s(1) indices_known(1,2) committeeFor_trusted [OF assms(1) s(2)] s(3,4)]
  have "bh_Slot (ls_FinalizedHeader s0) \<le> bh_Slot (up_FinalizedHeader u)"
    using assms(1) t(4) by (auto simp: lcInv_def)
  then show ?thesis
    using assms(1) t unfolding s(5) lcInv_def rotate_fields(1-3)
    by (auto dest: rotate_fields(4-6))
qed

lemma lcStep_inv: "lcStep sha v s s' \<Longrightarrow> lcInv sha v s0 s \<Longrightarrow> lcInv sha v s0 s'"
proof (induction rule: lcStep.induct)
  case (plain s u s')
  from plain.hyps obtain c signingRoot where s: "validateStructureWith sha s u altairIndices = Inr ()"
    "ls_CurrentCommittee s = Some c" "SigningRootFor sha s u = Inr signingRoot" "v signingRoot c (up_Participation u) (up_Signature u)"
    "s' = s\<lparr>ls_FinalizedHeader := up_FinalizedHeader u,
            ls_NextCommittee := (if up_NextCommittee u \<noteq> None then up_NextCommittee u else ls_NextCommittee s)\<rparr>"
    by (auto simp: ApplyUpdate_def ValidateStructure_def bindR_Inr ofOpt_Inr verifySignature_def split: if_splits)
  have "trustedCommittee sha v s0 c"
    using plain.prems s(2) by (simp add: lcInv_def)
  note t = update_trust [OF plain.prems s(1) indices_known(3,4) this s(3,4)]
  have "bh_Slot (ls_FinalizedHeader s0) \<le> bh_Slot (up_FinalizedHeader u)"
    using plain.prems t(4) by (auto simp: lcInv_def)
  then show ?case
    using plain.prems t unfolding s(5) lcInv_def by (auto split: if_splits)
next
  case (rotating s u s')
  then show ?case using rotating_inv by blast
next
  case (finality s u s')
  then consider "s' = s" | "ApplyRotatingUpdate sha (Some v) s u = Inr s'"
    by (auto simp: ApplyFinalityUpdate_def bindR_Inr split: if_splits)
  then show ?case
    using finality.prems rotating_inv by cases blast+
next
  case (optimistic s h slot participation sig s')
  from optimistic.hyps obtain c hr dom signingRoot where s: "committeeFor s (SyncCommitteePeriod slot) = Inr c"
    "MinParticipation \<le> participationCount participation" "HeaderRoot sha h = Inr hr" "ComputeDomain sha (ls_Checkpoint s) = Inr dom"
    "SigningRoot sha hr dom = Inr signingRoot" "v signingRoot c participation sig" "s' = s\<lparr>ls_optimistic := Some h\<rparr>"
    by (auto simp: ApplyOptimisticUpdate_def bindR_Inr ssz_Inr verifySignature_def split: if_splits)
  have "ComputeDomain sha ((ls_Checkpoint s)\<lparr>ck_ForkVersion := ck_ForkVersion (ls_Checkpoint s)\<rparr>) = Inr dom"
    using s(4) by simp
  then have "signedUnder sha v (ls_Checkpoint s) c h"
    using s(2,3,5,6) unfolding signedUnder_def by blast
  then have "attestedHeader sha v s0 h"
    using committeeFor_trusted [OF optimistic.prems s(1)] optimistic.prems by (auto simp: attestedHeader_def lcInv_def)
  then show ?case
    using optimistic.prems unfolding s(7) lcInv_def by simp
qed

text \<open>
  (C6) Whatever updates a provider sends, the light client holds only what its anchor leads to. Every committee
  it trusts was there at the start or is proven into a header that a supermajority of an earlier trusted committee
  signed in a domain of the anchor's chain; the finalised header is proven into such a header at the position of
  finality, and its slot is not below that of the anchor; a verified header is signed by such a committee.
\<close>

theorem light_client_sound:
  assumes "lcReach sha v s0 s"
  shows "lcInv sha v s0 s"
  using assms
proof (induction rule: lcReach.induct)
  case start
  then show ?case
    by (auto simp: lcInv_def finalHeader_def intro: trustedCommittee.anchored)
next
  case (step s s')
  then show ?case by (blast intro: lcStep_inv)
qed

subsection \<open>A chain to try things on\<close>

definition flatSha :: sha where "flatSha x = []"

definition demoCommittee :: SyncCommittee where
  "demoCommittee = \<lparr> sc_Pubkeys = replicate 512 (replicate 48 1), sc_AggregatePubkey = replicate 48 2 \<rparr>"

definition demoCheckpoint :: Checkpoint where
  "demoCheckpoint = \<lparr> ck_Slot = 8190, ck_BlockRoot = replicate 32 1, ck_SyncCommitteeRoot = replicate 32 2,
     ck_GenesisValidatorsRoot = replicate 32 3, ck_ForkVersion = [6, 0, 0, 0], ck_Source = ''three explorers'', ck_Note = [] \<rparr>"

definition demoHeader :: "u64 \<Rightarrow> BeaconBlockHeader" where
  "demoHeader slot = \<lparr> bh_Slot = slot, bh_ProposerIndex = 4, bh_ParentRoot = replicate 32 5, bh_StateRoot = zero32, bh_BodyRoot = zero32 \<rparr>"

definition demoState :: LightClientState where
  "demoState = \<lparr> ls_FinalizedHeader = demoHeader 8190, ls_CurrentCommittee = Some demoCommittee, ls_NextCommittee = Some demoCommittee,
     ls_Checkpoint = demoCheckpoint, ls_Anchor = \<lparr> sa_checkpoint = demoCheckpoint, sa_sealed = True \<rparr>, ls_optimistic = None, ls_Spec = SpecFulu \<rparr>"

definition demoUpdate :: Update where
  "demoUpdate = \<lparr> up_AttestedHeader = demoHeader 8200, up_FinalizedHeader = demoHeader 8192, up_FinalityBranch = replicate 6 zero32,
     up_NextCommittee = Some demoCommittee, up_NextCommitteeBranch = replicate 5 zero32, up_FinalizedExecution = None,
     up_FinalizedExecutionBranch = [], up_Participation = replicate 64 0xFF, up_Signature = [], up_SignatureSlot = 8201 \<rparr>"

lemma flat_pair: "sha256Pair flatSha l r = zero32"
  by (simp add: sha256Pair_def flatSha_def copyArr_def)

lemma flat_container: "2 \<le> length fs \<Longrightarrow> length fs \<le> 2 ^ 62 \<Longrightarrow> ContainerRoot flatSha fs = Inr zero32"
proof -
  assume fs: "2 \<le> length fs" "length fs \<le> 2 ^ 62"
  obtain d where "depthFor (length fs) = Suc d"
    using fs(1) by (subst (asm) depthFor.simps) auto
  then show ?thesis
    using Merkleize_next [OF fs(2), of flatSha] by (simp add: ContainerRoot_def flat_pair)
qed

lemma flat_header: "HeaderRoot flatSha h = Inr zero32"
  by (simp add: HeaderRoot_def flat_container)

lemma mapR_replicate: "f x = Inr y \<Longrightarrow> mapR f (replicate n x) = Inr (replicate n y)"
  by (induction n) simp_all

lemma flat_bytes: "\<exists>r. BytesRoot flatSha (replicate 48 k) = Inr r"
proof -
  have "chunksOf (replicate 48 k) = [replicate 32 k, replicate 16 k @ replicate 16 0]"
    by (simp add: chunksOf.simps BytesPerChunk_def copyArr_def min_def)
  then show ?thesis
    using ContainerRoot_total [of "[replicate 32 k, replicate 16 k @ replicate 16 0]" flatSha] by (simp add: BytesRoot_def ContainerRoot_def)
qed

lemma flat_committee: "CommitteeRoot flatSha demoCommittee = Inr zero32"
proof -
  obtain r r' where r: "BytesRoot flatSha (replicate 48 1) = Inr r" "BytesRoot flatSha (replicate 48 2) = Inr r'"
    using flat_bytes by metis
  have m: "Merkleize flatSha (replicate 512 r) 512 = Inr (treeRoot flatSha 9 (padded 9 (replicate 512 r)))"
    using Merkleize_limit [of "replicate 512 r" 9 flatSha] by (simp del: replicate.simps)
  show ?thesis
    using r m by (simp add: CommitteeRoot_def demoCommittee_def SyncCommitteeSize_def ssz_def mapR_replicate flat_container del: replicate.simps)
qed

lemma flat_climb: "branch \<noteq> [] \<Longrightarrow> climb flatSha n branch i = zero32"
proof -
  have "climb flatSha zero32 b i = zero32" for b i
    by (induction b arbitrary: i) (simp_all add: flat_pair)
  then show "branch \<noteq> [] \<Longrightarrow> climb flatSha n branch i = zero32"
    by (cases branch) (simp_all add: flat_pair)
qed

lemma flat_branch: "branch \<noteq> [] \<Longrightarrow> length branch = GeneralizedIndexDepth i \<Longrightarrow> i \<noteq> 0 \<Longrightarrow> VerifyBranch flatSha leaf branch i zero32 = Inr ()"
  by (simp add: VerifyBranch_def flat_climb)

lemma demo_depths: "GeneralizedIndexDepth 105 = 6" "GeneralizedIndexDepth 55 = 5"
  by (intro GeneralizedIndexDepth_range; simp)+

lemma demo_count: "participationCount (replicate 64 0xFF) = 512"
proof -
  have "length (filter (\<lambda>i. (0xFF :: byte) AND push_bit i 1 \<noteq> 0) [0..<8]) = 8"
    by (simp add: upt_rec)
  then show ?thesis
    by (simp add: participationCount_def sum_list_replicate map_replicate_const del: replicate.simps)
qed
lemma demo_update: "ApplyRotatingUpdate flatSha (Some (\<lambda>root c p sig. True)) demoState demoUpdate = Inr (rotate demoState demoUpdate)"
proof -
  have "validateStructureWith flatSha demoState demoUpdate altairIndices = Inr ()"
    by (simp add: validateStructureWith_def demoState_def demoUpdate_def demoHeader_def demo_count MinParticipation_def SyncCommitteeSize_def
        ssz_def flat_header branchAt_def altairIndices_def flat_branch demo_depths flat_committee word_less_nat_alt word_le_nat_alt del: replicate.simps)
  moreover have "IndicesAtSlot (bh_Slot (up_AttestedHeader demoUpdate)) = altairIndices"
    by (simp add: IndicesAtSlot_def EpochAtSlot_def SlotsPerEpoch_def MainnetElectraForkEpoch_def demoUpdate_def demoHeader_def word_le_nat_alt unat_div)
  moreover have "committeeFor demoState (SyncCommitteePeriod (up_SignatureSlot demoUpdate)) = Inr demoCommittee"
    by (simp add: committeeFor_def SyncCommitteePeriod_def SlotsPerSyncCommitteePeriod_def Period_def demoState_def demoUpdate_def demoHeader_def)
  moreover have "SyncCommitteePeriod (up_SignatureSlot demoUpdate) \<noteq> Period demoState"
    by (simp add: SyncCommitteePeriod_def SlotsPerSyncCommitteePeriod_def Period_def demoState_def demoUpdate_def demoHeader_def)
  then have "committeeAgrees flatSha demoState demoUpdate (SyncCommitteePeriod (up_SignatureSlot demoUpdate)) = Inr ()"
    by (simp add: committeeAgrees_def split: option.split)
  moreover have "\<exists>r. SigningRootFor flatSha demoState demoUpdate = Inr r"
    by (simp add: SigningRootFor_def ssz_def flat_header ComputeDomain_def SigningRoot_def flat_container)
  ultimately show ?thesis
    by (auto simp: ApplyRotatingUpdate_def verifySignature_def)
qed

lemma light_client_sound_witness:
  "lcInv flatSha (\<lambda>root c p sig. True) demoState (rotate demoState demoUpdate) \<and>
   bh_Slot (ls_FinalizedHeader (rotate demoState demoUpdate)) = 8192"
  using light_client_sound [OF lcReach.step [OF lcReach.start lcStep.rotating [OF demo_update]]]
  by (simp add: rotate_fields(3)) (simp add: demoUpdate_def demoHeader_def)

subsection \<open>Rotation and the schedule of committees\<close>

text \<open>
  \<open>com\<close> is the real schedule, the committee of every period. An honest update carries the committee of the period
  after the one of its attested header, which is what the branch into the attested state proves.
\<close>

definition onSchedule :: "(u64 \<Rightarrow> SyncCommittee) \<Rightarrow> LightClientState \<Rightarrow> bool" where
  "onSchedule com s \<longleftrightarrow> ls_CurrentCommittee s = Some (com (Period s)) \<and> (\<forall>c. ls_NextCommittee s = Some c \<longrightarrow> c = com (Period s + 1))"

definition attestedPeriod :: "Update \<Rightarrow> u64" where
  "attestedPeriod u = SyncCommitteePeriod (bh_Slot (up_AttestedHeader u))"

definition finalisedPeriod :: "Update \<Rightarrow> u64" where
  "finalisedPeriod u = SyncCommitteePeriod (bh_Slot (up_FinalizedHeader u))"

definition honestUpdate :: "(u64 \<Rightarrow> SyncCommittee) \<Rightarrow> Update \<Rightarrow> bool" where
  "honestUpdate com u \<longleftrightarrow> (\<forall>c. up_NextCommittee u = Some c \<longrightarrow> c = com (attestedPeriod u + 1))"

lemma period_nat: "unat (SyncCommitteePeriod slot) = unat slot div 8192"
  by (simp add: SyncCommitteePeriod_def SlotsPerSyncCommitteePeriod_def unat_div)

lemma period_mono: "a \<le> b \<Longrightarrow> SyncCommitteePeriod a \<le> SyncCommitteePeriod b"
  by (simp add: word_le_nat_alt period_nat div_le_mono)

lemma period_next: "Period s < Period s + 1" "unat (Period s + 1) = unat (Period s) + 1"
proof -
  have "unat (bh_Slot (ls_FinalizedHeader s)) < 2 ^ 64"
    using unsigned_less [of "bh_Slot (ls_FinalizedHeader s)"] by simp
  then have "unat (Period s) + 1 < 2 ^ 64"
    by (simp add: Period_def period_nat)
  then show "unat (Period s + 1) = unat (Period s) + 1"
    by (simp add: unat_word_ariths)
  then show "Period s < Period s + 1"
    by (simp add: word_less_nat_alt)
qed

lemma rotating_periods:
  assumes "ApplyRotatingUpdate sha v s u = Inr s'"
  shows "s' = rotate s u" "Period s \<le> finalisedPeriod u" "finalisedPeriod u \<le> attestedPeriod u"
    "attestedPeriod u \<le> SyncCommitteePeriod (up_SignatureSlot u)"
    "SyncCommitteePeriod (up_SignatureSlot u) = Period s \<or> SyncCommitteePeriod (up_SignatureSlot u) = Period s + 1 \<and> ls_NextCommittee s \<noteq> None"
proof -
  obtain c where c: "validateStructureWith sha s u (IndicesAtSlot (bh_Slot (up_AttestedHeader u))) = Inr ()"
    "committeeFor s (SyncCommitteePeriod (up_SignatureSlot u)) = Inr c" "s' = rotate s u"
    using assms by (auto simp: ApplyRotatingUpdate_def bindR_Inr split: option.splits)
  from c(3) show "s' = rotate s u" .
  have o: "bh_Slot (ls_FinalizedHeader s) < bh_Slot (up_FinalizedHeader u)"
    "bh_Slot (up_FinalizedHeader u) \<le> bh_Slot (up_AttestedHeader u)" "bh_Slot (up_AttestedHeader u) < up_SignatureSlot u"
    using c(1) by (rule validate_Inr; blast)+
  then show "Period s \<le> finalisedPeriod u" "finalisedPeriod u \<le> attestedPeriod u"
    "attestedPeriod u \<le> SyncCommitteePeriod (up_SignatureSlot u)"
    by (auto simp: Period_def finalisedPeriod_def attestedPeriod_def intro!: period_mono)
  show "SyncCommitteePeriod (up_SignatureSlot u) = Period s \<or> SyncCommitteePeriod (up_SignatureSlot u) = Period s + 1 \<and> ls_NextCommittee s \<noteq> None"
    using c(2) by (auto simp: committeeFor_def ofOpt_Inr split: if_splits)
qed

lemma rotate_same:
  "finalisedPeriod u = Period s \<Longrightarrow> ls_CurrentCommittee (rotate s u) = ls_CurrentCommittee s \<and>
   ls_NextCommittee (rotate s u) = (if up_NextCommittee u = None then ls_NextCommittee s else up_NextCommittee u) \<and> Period (rotate s u) = Period s"
  by (auto simp: rotate_def Let_def Period_def finalisedPeriod_def split: option.split)

lemma rotate_next:
  "finalisedPeriod u = Period s + 1 \<Longrightarrow> ls_NextCommittee s \<noteq> None \<Longrightarrow>
   ls_CurrentCommittee (rotate s u) = ls_NextCommittee s \<and> ls_NextCommittee (rotate s u) = up_NextCommittee u \<and>
   Period (rotate s u) = Period s + 1"
  using period_next(1) [of s] by (auto simp: rotate_def Let_def Period_def finalisedPeriod_def split: option.split)

text \<open>
  (C40) Rotation follows the schedule. As long as the header an update finalises lies in the period of the header
  it attests, an accepted honest update leaves the client with the committee of the period of its head as the
  current one and with that of the period after as the next, if any; the head moves by at most one period, and
  when it does, the committee it rotates to was known.
\<close>

theorem rotation_follows_schedule:
  assumes "onSchedule com s" "ApplyRotatingUpdate sha v s u = Inr s'" "honestUpdate com u" "attestedPeriod u = finalisedPeriod u"
  shows "onSchedule com s' \<and> (Period s' = Period s \<or> Period s' = Period s + 1 \<and> ls_CurrentCommittee s' = ls_NextCommittee s)"
proof -
  note p = rotating_periods [OF assms(2)]
  have "finalisedPeriod u = Period s \<or> finalisedPeriod u = Period s + 1 \<and> ls_NextCommittee s \<noteq> None"
    using p(2-5) period_next(2) [of s] by (auto simp: word_le_nat_alt intro!: word_unat_eq_iff [THEN iffD2])
  then show ?thesis
  proof
    assume "finalisedPeriod u = Period s"
    with rotate_same [OF this] assms show ?thesis
      by (auto simp: p(1) onSchedule_def honestUpdate_def split: if_splits)
  next
    assume "finalisedPeriod u = Period s + 1 \<and> ls_NextCommittee s \<noteq> None"
    then show ?thesis
      using rotate_next [of u s] assms by (auto simp: p(1) onSchedule_def honestUpdate_def)
  qed
qed

lemma rotation_follows_schedule_witness:
  "onSchedule (\<lambda>p. demoCommittee) (rotate demoState demoUpdate) \<and> Period (rotate demoState demoUpdate) = 1"
proof -
  have "onSchedule (\<lambda>p. demoCommittee) demoState" "honestUpdate (\<lambda>p. demoCommittee) demoUpdate"
    by (simp_all add: onSchedule_def demoState_def honestUpdate_def demoUpdate_def)
  moreover have "attestedPeriod demoUpdate = 1" "finalisedPeriod demoUpdate = 1"
    by (simp_all add: attestedPeriod_def finalisedPeriod_def demoUpdate_def demoHeader_def SyncCommitteePeriod_def SlotsPerSyncCommitteePeriod_def)
  moreover have "Period (rotate demoState demoUpdate) = 1"
    by (simp add: Period_def rotate_fields(3)) (simp add: demoUpdate_def demoHeader_def SyncCommitteePeriod_def SlotsPerSyncCommitteePeriod_def)
  ultimately show ?thesis
    using rotation_follows_schedule [OF _ demo_update] by simp
qed

text \<open>
  At a boundary it does not. Finality lags behind the head, so the first updates of a period attest a header of
  the new period and finalise one of the old. Such an update, honest in every part and signed by the right
  committee, leaves the client with the committee of the period after next in the place of the next one: the
  committee that has just signed is gone, and what it signs next is refused.
\<close>

theorem boundary_update_replaces_next:
  assumes "onSchedule com s" "ApplyRotatingUpdate sha v s u = Inr s'" "honestUpdate com u" "up_NextCommittee u = Some c"
    and "finalisedPeriod u = Period s" "attestedPeriod u = Period s + 1"
  shows "ls_NextCommittee s = Some (com (Period s + 1)) \<and> committeeFor s' (Period s + 1) = Inr (com (Period s + 2))"
proof -
  note p = rotating_periods [OF assms(2)]
  have "ls_NextCommittee s \<noteq> None"
    using p(4,5) assms(6) period_next(1) [of s] by auto
  moreover have "c = com (Period s + 2)"
    using assms(3,4,6) by (simp add: honestUpdate_def add.assoc)
  ultimately show ?thesis
    using rotate_same [OF assms(5)] assms(1,4) period_next(1) [of s] by (auto simp: p(1) committeeFor_def onSchedule_def)
qed

subsection \<open>Trust levels and the anchor\<close>

lemma sealed_stays: "sa_sealed a \<Longrightarrow> Seal a c = Inl ErrAnchorSealed"
  by (simp add: Seal_def)

text \<open>An optimistic update signed in another era than the anchor's is checked in the anchor's domain.\<close>

theorem optimistic_uses_anchor_fork:
  assumes "ApplyOptimisticUpdate sha (Some v) s h slot participation sig = Inr s'"
  shows "\<exists>c hr dom signingRoot. HeaderRoot sha h = Inr hr \<and> ComputeDomain sha (ls_Checkpoint s) = Inr dom \<and>
    SigningRoot sha hr dom = Inr signingRoot \<and> v signingRoot c participation sig"
  using assms by (auto simp: ApplyOptimisticUpdate_def bindR_Inr ssz_Inr verifySignature_def split: if_splits)

end
