(* ===== verification/Axon_Bytes.thy ===== *)
theory Axon_Bytes
  imports Prelude
begin

text \<open>
  Go's \<^verbatim>\<open>encoding/binary\<close> as the overlay uses it: fixed-width unsigned integers in little-endian and big-endian
  order, on natural numbers (a word goes through \<open>unat\<close> and comes back through \<open>of_nat\<close>).
\<close>

primrec leBytes :: "nat \<Rightarrow> nat \<Rightarrow> bytes" where
  "leBytes 0 n = []"
| "leBytes (Suc k) n = of_nat n # leBytes k (n div 256)"

primrec leNat :: "bytes \<Rightarrow> nat" where
  "leNat [] = 0"
| "leNat (b # bs) = unat b + 256 * leNat bs"

definition beBytes :: "nat \<Rightarrow> nat \<Rightarrow> bytes" where
  "beBytes k n = rev (leBytes k n)"

definition beNat :: "bytes \<Rightarrow> nat" where
  "beNat bs = leNat (rev bs)"

lemma length_leBytes [simp]: "length (leBytes k n) = k"
  by (induction k arbitrary: n) auto

lemma length_beBytes [simp]: "length (beBytes k n) = k"
  by (simp add: beBytes_def)

lemma leNat_leBytes: "leNat (leBytes k n) = n mod 256 ^ k"
proof (induction k arbitrary: n)
  case (Suc k)
  have "n mod (256 * 256 ^ k) = 256 * (n div 256 mod 256 ^ k) + n mod 256"
    by (rule mod_mult2_eq)
  then show ?case
    by (simp add: Suc unat_of_nat)
qed simp

lemma leNat_bound: "leNat bs < 256 ^ length bs"
proof (induction bs)
  case (Cons b bs)
  have "unat b < 256"
    using unsigned_less [of b] by simp
  with Cons show ?case by simp
qed simp

lemma leBytes_leNat [simp]: "leBytes (length bs) (leNat bs) = bs"
proof (induction bs)
  case (Cons b bs)
  have "unat b < 256"
    using unsigned_less [of b] by simp
  then have "(unat b + 256 * leNat bs) div 256 = leNat bs" "unat (of_nat (unat b + 256 * leNat bs) :: byte) = unat b"
    by (simp, subst unat_of_nat, simp)
  with Cons show ?case
    by (simp only: leNat.simps leBytes.simps length_Cons list.inject word_unat_eq_iff)
qed simp

lemma beNat_beBytes: "beNat (beBytes k n) = n mod 256 ^ k"
  by (simp add: beNat_def beBytes_def leNat_leBytes)

lemma beNat_bound: "beNat bs < 256 ^ length bs"
  using leNat_bound [of "rev bs"] by (simp add: beNat_def)

lemma beBytes_beNat [simp]: "beBytes (length bs) (beNat bs) = bs"
  using leBytes_leNat [of "rev bs"] by (simp add: beNat_def beBytes_def)

lemma leNat_word [simp]:
  "leNat (leBytes 8 (unat (w :: u64))) = unat w"
  "leNat (leBytes 4 (unat (x :: 32 word))) = unat x"
  "leNat (leBytes 2 (unat (y :: 16 word))) = unat y"
  using unsigned_less [of w, where ?'a = nat] unsigned_less [of x, where ?'a = nat] unsigned_less [of y, where ?'a = nat]
  by (simp_all add: leNat_leBytes)

lemma beNat_word [simp]:
  "beNat (beBytes 8 (unat (w :: u64))) = unat w"
  "beNat (beBytes 4 (unat (x :: 32 word))) = unat x"
  "beNat (beBytes 2 (unat (y :: 16 word))) = unat y"
  using unsigned_less [of w, where ?'a = nat] unsigned_less [of x, where ?'a = nat] unsigned_less [of y, where ?'a = nat]
  by (simp_all add: beNat_beBytes)

lemma leBytes_eqD: "leBytes k m = leBytes k n \<Longrightarrow> m < 256 ^ k \<Longrightarrow> n < 256 ^ k \<Longrightarrow> m = n"
  by (metis leNat_leBytes mod_less)

lemma beBytes_eqD: "beBytes k m = beBytes k n \<Longrightarrow> m < 256 ^ k \<Longrightarrow> n < 256 ^ k \<Longrightarrow> m = n"
  by (metis beNat_beBytes mod_less)

text \<open>A field of a fixed layout: the \<open>n\<close> bytes from an offset.\<close>

definition field :: "nat \<Rightarrow> nat \<Rightarrow> bytes \<Rightarrow> bytes" where
  "field off n bs = take n (drop off bs)"

lemma length_field: "off + n \<le> length bs \<Longrightarrow> length (field off n bs) = n"
  by (simp add: field_def)

lemma field_skip [simp]: "length xs \<le> off \<Longrightarrow> field off n (xs @ ys) = field (off - length xs) n ys"
  by (simp add: field_def)

lemma field_hit [simp]: "length xs = n \<Longrightarrow> field 0 n (xs @ ys) = xs"
  by (simp add: field_def)

lemma field_whole [simp]: "length xs = n \<Longrightarrow> field 0 n xs = xs"
  by (simp add: field_def)

lemma field_Cons [simp]: "0 < off \<Longrightarrow> field off n (x # xs) = field (off - 1) n xs"
  by (cases off) (simp_all add: field_def)

end
