(* ===== verification/Axon_Packet.thy ===== *)
theory Axon_Packet
  imports Axon_Bytes
begin

unbundle bit_operations_syntax

text \<open>
  Session packets, \<^verbatim>\<open>src/internal/axon/session/packet.go\<close>: the cleartext header, the sealed frame and the replay
  window. The AEAD (\<^verbatim>\<open>golang.org/x/crypto/chacha20poly1305\<close>) is the record \<open>cipher\<close>, an argument; a key is its 32
  bytes.
\<close>

record cipher =
  cp_Seal :: "bytes \<Rightarrow> bytes \<Rightarrow> bytes \<Rightarrow> bytes \<Rightarrow> bytes" \<comment> \<open>key, nonce, plaintext, additional data\<close>
  cp_Open :: "bytes \<Rightarrow> bytes \<Rightarrow> bytes \<Rightarrow> bytes \<Rightarrow> bytes option"

type_synonym u16 = "16 word"
type_synonym u32 = "32 word"

datatype packet_error = ErrPacketSize | ErrPacketVersion | ErrAuth | ErrReplay | ErrStaleKey | ErrFrame | PacketPanic

definition packetVersion :: byte where "packetVersion = 1"
definition headerSize :: nat where "headerSize = 13"
definition tagSize :: nat where "tagSize = 16"
definition SessPacketSize :: nat where "SessPacketSize = 984"
definition PlainSize :: nat where "PlainSize = SessPacketSize - headerSize - tagSize"
definition frameHeaderSize :: nat where "frameHeaderSize = 23"
definition MaxData :: nat where "MaxData = PlainSize - frameHeaderSize"

lemmas size_defs = headerSize_def tagSize_def SessPacketSize_def PlainSize_def frameHeaderSize_def MaxData_def

subsection \<open>Frames\<close>

definition ftAck :: byte where "ftAck = 0x00"
definition ftPing :: byte where "ftPing = 0x01"
definition ftOpen :: byte where "ftOpen = 0x10"
definition ftData :: byte where "ftData = 0x11"
definition ftFin :: byte where "ftFin = 0x12"
definition ftReset :: byte where "ftReset = 0x13"
definition ftWindow :: byte where "ftWindow = 0x14"
definition ftClose :: byte where "ftClose = 0x20"

lemmas ft_defs = ftAck_def ftPing_def ftOpen_def ftData_def ftFin_def ftReset_def ftWindow_def ftClose_def

definition reliable :: "byte \<Rightarrow> bool" where
  "reliable t \<longleftrightarrow> t \<ge> ftOpen"

definition validType :: "byte \<Rightarrow> bool" where
  "validType t \<longleftrightarrow> t \<in> {ftAck, ftPing, ftOpen, ftData, ftFin, ftReset, ftWindow, ftClose}"

record sessFrame =
  fr_ack :: u64
  fr_seq :: u64
  fr_typ :: byte
  fr_stream :: u32
  fr_data :: bytes

record header =
  hd_gen :: u16
  hd_epoch :: u16
  hd_pn :: u64

definition parseHeader :: "bytes \<Rightarrow> packet_error + header" where
  "parseHeader p =
     (if length p \<noteq> SessPacketSize then Inl ErrPacketSize
      else if p ! 0 \<noteq> packetVersion then Inl ErrPacketVersion
      else Inr \<lparr> hd_gen = of_nat (leNat (field 1 2 p)), hd_epoch = of_nat (leNat (field 3 2 p)), hd_pn = of_nat (leNat (field 5 8 p)) \<rparr>)"

definition headerBytes :: "header \<Rightarrow> bytes" where
  "headerBytes h = packetVersion # leBytes 2 (unat (hd_gen h)) @ leBytes 2 (unat (hd_epoch h)) @ leBytes 8 (unat (hd_pn h))"

definition nonceFor :: "u64 \<Rightarrow> bytes" where
  "nonceFor pn = leBytes 8 (unat pn) @ replicate 4 0"

definition plainOf :: "sessFrame \<Rightarrow> bytes" where
  "plainOf f =
     leBytes 8 (unat (fr_ack f)) @ leBytes 8 (unat (fr_seq f)) @ [fr_typ f] @ leBytes 4 (unat (fr_stream f)) @
     leBytes 2 (length (fr_data f)) @ fr_data f @ replicate (MaxData - length (fr_data f)) 0"

definition sealPacket :: "cipher \<Rightarrow> bytes \<Rightarrow> header \<Rightarrow> sessFrame \<Rightarrow> packet_error + bytes" where
  "sealPacket ae key h f =
     (if length (fr_data f) > MaxData then Inl ErrFrame
      else Inr (headerBytes h @ cp_Seal ae key (nonceFor (hd_pn h)) (plainOf f) (headerBytes h)))"

definition openPacket :: "cipher \<Rightarrow> bytes \<Rightarrow> header \<Rightarrow> bytes \<Rightarrow> packet_error + sessFrame" where
  \<comment> \<open>a plaintext shorter than the frame header cannot come from a packet of the right size; Go would panic\<close>
  "openPacket ae key h p =
     (case cp_Open ae key (nonceFor (hd_pn h)) (drop headerSize p) (take headerSize p) of
        None \<Rightarrow> Inl ErrAuth
      | Some plain \<Rightarrow>
          if length plain < frameHeaderSize then Inl PacketPanic
          else
            (let f = \<lparr> fr_ack = of_nat (leNat (field 0 8 plain)), fr_seq = of_nat (leNat (field 8 8 plain)), fr_typ = plain ! 16,
                       fr_stream = of_nat (leNat (field 17 4 plain)), fr_data = [] \<rparr>;
                 n = leNat (field 21 2 plain)
             in if n > MaxData \<or> \<not> validType (fr_typ f) \<or> reliable (fr_typ f) \<noteq> (fr_seq f \<noteq> 0) then Inl ErrFrame
                else if length plain < frameHeaderSize + n then Inl PacketPanic
                else Inr (f\<lparr>fr_data := field frameHeaderSize n plain\<rparr>)))"

definition frameOK :: "sessFrame \<Rightarrow> bool" where
  "frameOK f \<longleftrightarrow> length (fr_data f) \<le> MaxData \<and> validType (fr_typ f) \<and> (reliable (fr_typ f) \<longleftrightarrow> fr_seq f \<noteq> 0)"

lemma length_headerBytes [simp]: "length (headerBytes h) = headerSize"
  by (simp add: headerBytes_def headerSize_def)

lemma length_plainOf: "length (fr_data f) \<le> MaxData \<Longrightarrow> length (plainOf f) = PlainSize"
  by (simp add: plainOf_def size_defs)

lemma parse_headerBytes: "length rest = SessPacketSize - headerSize \<Longrightarrow> parseHeader (headerBytes h @ rest) = Inr h"
  by (simp add: parseHeader_def headerBytes_def size_defs)

text \<open>What an AEAD promises: opening undoes sealing, and the ciphertext is the tag longer than the plaintext.\<close>

definition aeadCorrect :: "cipher \<Rightarrow> bool" where
  "aeadCorrect ae \<longleftrightarrow> (\<forall>k n plain ad.
     cp_Open ae k n (cp_Seal ae k n plain ad) ad = Some plain \<and> length (cp_Seal ae k n plain ad) = length plain + tagSize)"

lemma sealed_size:
  assumes "aeadCorrect ae" "sealPacket ae k h f = Inr p"
  shows "length p = SessPacketSize"
  using assms by (auto simp: sealPacket_def aeadCorrect_def length_plainOf split: if_splits) (simp add: size_defs)

lemma sealed_header:
  assumes "aeadCorrect ae" "sealPacket ae k h f = Inr p"
  shows "parseHeader p = Inr h"
proof -
  have "length (fr_data f) \<le> MaxData" "p = headerBytes h @ cp_Seal ae k (nonceFor (hd_pn h)) (plainOf f) (headerBytes h)"
    using assms(2) by (auto simp: sealPacket_def split: if_splits)
  moreover have "length (cp_Seal ae k (nonceFor (hd_pn h)) (plainOf f) (headerBytes h)) = SessPacketSize - headerSize"
    using assms(1) calculation(1) by (simp add: aeadCorrect_def length_plainOf size_defs)
  ultimately show ?thesis
    by (simp add: parse_headerBytes)
qed

lemma packet_roundtrip:
  assumes "aeadCorrect ae" "sealPacket ae k h f = Inr p" "frameOK f"
  shows "openPacket ae k h p = Inr f"
proof -
  have d: "length (fr_data f) \<le> MaxData" and p: "p = headerBytes h @ cp_Seal ae k (nonceFor (hd_pn h)) (plainOf f) (headerBytes h)"
    using assms(2) by (auto simp: sealPacket_def split: if_splits)
  have "length (fr_data f) < 65536"
    using d by (simp add: size_defs)
  then have n: "leNat (field 21 2 (plainOf f)) = length (fr_data f)"
    by (simp add: plainOf_def leNat_leBytes)
  have t: "plainOf f ! 16 = fr_typ f"
    by (simp add: plainOf_def nth_append)
  have fs: "field 0 8 (plainOf f) = leBytes 8 (unat (fr_ack f))" "field 8 8 (plainOf f) = leBytes 8 (unat (fr_seq f))"
    "field 17 4 (plainOf f) = leBytes 4 (unat (fr_stream f))" "field frameHeaderSize (length (fr_data f)) (plainOf f) = fr_data f"
    by (simp_all add: plainOf_def frameHeaderSize_def)
  have l: "length (plainOf f) = PlainSize" "\<not> PlainSize < frameHeaderSize" "\<not> PlainSize < frameHeaderSize + length (fr_data f)"
    using d by (simp_all add: length_plainOf size_defs)
  have "cp_Open ae k (nonceFor (hd_pn h)) (drop headerSize p) (take headerSize p) = Some (plainOf f)"
    using assms(1) by (simp add: p aeadCorrect_def)
  then show ?thesis
    using assms(3) d by (simp add: openPacket_def Let_def n t fs l frameOK_def)
qed

subsection \<open>The replay window\<close>

record replayWindow =
  rw_top :: u64
  rw_bits :: "u64 list"

definition newReplay :: replayWindow where
  "newReplay = \<lparr> rw_top = 0, rw_bits = replicate 16 0 \<rparr>"

definition replayWidth :: u64 where "replayWidth = 1024"

definition seenBit :: "u64 list \<Rightarrow> nat \<Rightarrow> bool" where
  "seenBit bits d \<longleftrightarrow> bits ! (d div 64) AND push_bit (d mod 64) 1 \<noteq> 0"

definition check :: "replayWindow \<Rightarrow> u64 \<Rightarrow> packet_error + unit" where
  "check w pn =
     (if pn = 0 then Inl ErrReplay
      else if pn > rw_top w then Inr ()
      else let d = rw_top w - pn in
        if d \<ge> replayWidth then Inl ErrReplay
        else if seenBit (rw_bits w) (unat d) then Inl ErrReplay
        else Inr ())"

definition shiftWord :: "u64 list \<Rightarrow> nat \<Rightarrow> nat \<Rightarrow> nat \<Rightarrow> u64" where
  "shiftWord bits words k i =
     (if i < words then 0
      else let src = i - words; v = push_bit k (bits ! src)
           in if k \<noteq> 0 \<and> src \<ge> 1 then v OR drop_bit (64 - k) (bits ! (src - 1)) else v)"

definition shift :: "u64 list \<Rightarrow> nat \<Rightarrow> u64 list" where
  "shift bits n = map (shiftWord bits (n div 64) (n mod 64)) [0..<16]"

definition setSeen :: "u64 list \<Rightarrow> nat \<Rightarrow> u64 list" where
  "setSeen bits d = bits[d div 64 := bits ! (d div 64) OR push_bit (d mod 64) 1]"

definition markSeen :: "replayWindow \<Rightarrow> u64 \<Rightarrow> packet_error + replayWindow" where
  \<comment> \<open>a number too old for the window indexes past the array, a panic\<close>
  "markSeen w pn =
     (if pn > rw_top w then
        let n = pn - rw_top w;
            bits = (if n \<ge> replayWidth then replicate 16 0 else shift (rw_bits w) (unat n))
        in Inr \<lparr> rw_top = pn, rw_bits = setSeen bits 0 \<rparr>
      else let d = unat (rw_top w - pn) in
        if d div 64 \<ge> 16 then Inl PacketPanic
        else Inr (w\<lparr>rw_bits := setSeen (rw_bits w) d\<rparr>))"

definition seen :: "u64 list \<Rightarrow> nat \<Rightarrow> bool" where
  "seen bits d \<longleftrightarrow> bit (bits ! (d div 64)) (d mod 64)"

lemma seenBit_seen: "seenBit bits d = seen bits d"
proof -
  have "(w AND push_bit k 1 \<noteq> 0) = bit w k" if "k < 64" for w :: u64 and k
  proof -
    have "bit (w AND push_bit k 1) n \<longleftrightarrow> n = k \<and> bit w k" for n
      using that by (auto simp: bit_simps)
    then show ?thesis
      by (metis bit_0_eq bot_apply bot_bool_def bit_eqI)
  qed
  then show ?thesis
    by (simp add: seenBit_def seen_def)
qed

lemma seen_zero [simp]: "d < 1024 \<Longrightarrow> \<not> seen (replicate 16 0) d"
  by (simp add: seen_def nth_replicate div_less_iff_less_mult)

lemma seen_setSeen:
  assumes "length bits = 16" "d < 1024" "e < 1024"
  shows "seen (setSeen bits d) e \<longleftrightarrow> e = d \<or> seen bits e"
proof -
  have b: "d div 64 < 16" "e div 64 < 16"
    using assms by (simp_all add: div_less_iff_less_mult)
  have eq: "e = d" if "d div 64 = e div 64" "d mod 64 = e mod 64"
    using that by (metis div_mult_mod_eq)
  show ?thesis
    using b assms(1) eq by (auto simp: seen_def setSeen_def nth_list_update bit_simps)
qed

lemma seen_shift:
  assumes "n < 1024" "d < 1024"
  shows "seen (shift bits n) d \<longleftrightarrow> n \<le> d \<and> seen bits (d - n)"
proof -
  define i where "i = d div 64"
  define j where "j = d mod 64"
  define w where "w = n div 64"
  define k where "k = n mod 64"
  have d: "d = 64 * i + j" "j < 64" and n: "n = 64 * w + k" "k < 64" and i: "i < 16"
    using assms by (simp_all add: i_def j_def w_def k_def div_less_iff_less_mult)
  have "seen (shift bits n) d \<longleftrightarrow> bit (shiftWord bits w k i) j"
    using i by (simp add: seen_def shift_def i_def j_def w_def k_def)
  also have "\<dots> \<longleftrightarrow> w \<le> i \<and> (k \<le> j \<and> bit (bits ! (i - w)) (j - k) \<or> k \<noteq> 0 \<and> 1 \<le> i - w \<and> bit (bits ! (i - w - 1)) (64 - k + j))"
    using d(2) n(2) by (auto simp: shiftWord_def Let_def bit_simps)
  also have "\<dots> \<longleftrightarrow> n \<le> d \<and> seen bits (d - n)"
  proof (cases "k \<le> j")
    case True
    then have "n \<le> d \<longleftrightarrow> w \<le> i"
      using d n by auto
    moreover have "(d - n) div 64 = i - w" "(d - n) mod 64 = j - k" if "w \<le> i"
    proof -
      have "d - n = 64 * (i - w) + (j - k)"
        using d n True that by (simp add: diff_mult_distrib2)
      then show "(d - n) div 64 = i - w" "(d - n) mod 64 = j - k"
        using d(2) by simp_all
    qed
    moreover have "\<not> bit (bits ! (i - w - 1)) (64 - k + j)"
      using True n(2) by (simp add: bit_word_iff_drop_bit_and)
    ultimately show ?thesis
      using True by (auto simp: seen_def)
  next
    case False
    then have "n \<le> d \<longleftrightarrow> w + 1 \<le> i"
      using d n by auto
    moreover have "(d - n) div 64 = i - w - 1" "(d - n) mod 64 = 64 - k + j" if "w + 1 \<le> i"
    proof -
      have "d - n = 64 * (i - w - 1) + (64 - k + j)"
        using d n False that by (simp add: diff_mult_distrib2)
      then show "(d - n) div 64 = i - w - 1" "(d - n) mod 64 = 64 - k + j"
        using False d(2) by simp_all
    qed
    ultimately show ?thesis
      using False by (auto simp: seen_def)
  qed
  finally show ?thesis .
qed

text \<open>The window stands for the set of numbers accepted so far.\<close>

definition windowFor :: "u64 set \<Rightarrow> replayWindow \<Rightarrow> bool" where
  "windowFor S w \<longleftrightarrow> length (rw_bits w) = 16 \<and> 0 \<notin> S \<and> (\<forall>x \<in> S. x \<le> rw_top w) \<and> (rw_top w = 0 \<or> rw_top w \<in> S) \<and>
     (\<forall>d < 1024. seen (rw_bits w) d \<longleftrightarrow> d < unat (rw_top w) \<and> rw_top w - of_nat d \<in> S)"

definition tooOld :: "u64 set \<Rightarrow> u64 \<Rightarrow> bool" where
  "tooOld S pn \<longleftrightarrow> (\<exists>x \<in> S. unat pn + 1024 \<le> unat x)"

lemma windowFor_new: "windowFor {} newReplay"
  by (simp add: windowFor_def newReplay_def del: replicate.simps)

lemma unat_distance: "pn \<le> hi \<Longrightarrow> unat (hi - pn) = unat hi - unat (pn :: u64)"
  by (simp add: unat_sub word_le_nat_alt)

lemma of_nat_distance: "pn \<le> (hi :: u64) \<Longrightarrow> hi - of_nat (unat hi - unat pn) = pn"
  by (simp add: unat_distance [symmetric])

lemma check_spec:
  assumes "windowFor S w"
  shows "check w pn = (if pn = 0 \<or> pn \<in> S \<or> tooOld S pn then Inl ErrReplay else Inr ())"
proof (cases "pn > rw_top w")
  case True
  then have "pn \<notin> S" "\<not> tooOld S pn"
    using assms by (auto simp: windowFor_def tooOld_def word_le_nat_alt word_less_nat_alt dest!: bspec)
  with True show ?thesis
    by (simp add: check_def)
next
  case False
  then have le: "pn \<le> rw_top w"
    by simp
  let ?d = "unat (rw_top w - pn)"
  have d: "?d = unat (rw_top w) - unat pn"
    using le by (rule unat_distance)
  have old: "tooOld S pn \<longleftrightarrow> 1024 \<le> ?d" if "pn \<noteq> 0"
    using assms le that unfolding windowFor_def tooOld_def d
    by (auto simp: word_le_nat_alt unat_eq_0 [symmetric] intro!: bexI [of _ "rw_top w"])
  have wide: "rw_top w - pn \<ge> replayWidth \<longleftrightarrow> 1024 \<le> ?d"
    by (simp add: replayWidth_def word_le_nat_alt)
  have hit: "seenBit (rw_bits w) ?d \<longleftrightarrow> pn \<in> S" if "?d < 1024" "pn \<noteq> 0"
  proof -
    have "0 < unat pn"
      using that(2) by (simp add: unat_gt_0)
    then have "?d < unat (rw_top w)"
      using le d by (simp add: word_le_nat_alt)
    then show ?thesis
      using assms that(1) le unfolding seenBit_seen windowFor_def d by (simp add: of_nat_distance)
  qed
  show ?thesis
    using False old wide hit by (auto simp: check_def Let_def)
qed

lemma top_least: "windowFor S w \<Longrightarrow> pn > rw_top w \<Longrightarrow> x \<in> S \<Longrightarrow> x < pn"
  unfolding windowFor_def by force

lemma mark_newer:
  assumes "windowFor S w" "pn > rw_top w"
  shows "windowFor (insert pn S) (\<lparr> rw_top = pn,
    rw_bits = setSeen (if pn - rw_top w \<ge> replayWidth then replicate 16 0 else shift (rw_bits w) (unat (pn - rw_top w))) 0 \<rparr>)"
    (is "windowFor _ \<lparr> rw_top = pn, rw_bits = setSeen ?b 0 \<rparr>")
proof -
  let ?n = "unat (pn - rw_top w)"
  have n: "?n = unat pn - unat (rw_top w)" "unat (rw_top w) < unat pn"
    using unat_distance [OF less_imp_le [OF assms(2)]] assms(2) by (simp_all add: word_less_nat_alt)
  have len: "length ?b = 16"
    using assms(1) by (simp add: shift_def windowFor_def)
  have b: "seen ?b d \<longleftrightarrow> ?n \<le> d \<and> seen (rw_bits w) (d - ?n)" if "d < 1024" for d
    using that seen_shift [of ?n d "rw_bits w"]
    by (auto simp: replayWidth_def word_le_nat_alt not_le simp del: replicate.simps)
  have main: "seen ?b d \<longleftrightarrow> d < unat pn \<and> pn - of_nat d \<in> S" if d: "d < 1024" "d \<noteq> 0" for d
  proof (cases "?n \<le> d")
    case True
    have "rw_top w - of_nat (d - ?n) = pn - of_nat d"
      using True by (simp add: of_nat_diff algebra_simps)
    moreover have "d - ?n < unat (rw_top w) \<longleftrightarrow> d < unat pn"
      using True n by linarith
    ultimately show ?thesis
      using b [OF d(1)] True d(1) assms(1) by (simp add: windowFor_def)
  next
    case False
    have "pn - of_nat d \<notin> S" if "d < unat pn"
    proof
      assume "pn - of_nat d \<in> S"
      then have "unat (pn - of_nat d) \<le> unat (rw_top w)"
        using assms(1) by (auto simp: windowFor_def word_le_nat_alt)
      moreover have "unat (pn - of_nat d) = unat pn - d"
        using that d(1) by (subst unat_distance) (simp_all add: word_le_nat_alt unat_of_nat)
      ultimately show False
        using False n that by linarith
    qed
    then show ?thesis
      using b [OF d(1)] False by blast
  qed
  have zero: "seen (setSeen ?b 0) d \<longleftrightarrow> d = 0 \<or> seen ?b d" if "d < 1024" for d
    by (rule seen_setSeen [OF len _ that]) simp
  have pn: "0 < unat pn"
    using assms(2) by (simp add: word_less_nat_alt)
  have new: "seen (setSeen ?b 0) d \<longleftrightarrow> d < unat pn \<and> pn - of_nat d \<in> insert pn S" if d: "d < 1024" for d
  proof (cases "d = 0")
    case False
    have "pn - of_nat d = pn \<longleftrightarrow> unat (of_nat d :: u64) = 0"
      by (simp add: unat_eq_0)
    then have "pn - of_nat d \<noteq> pn"
      using False d by (simp add: unat_of_nat)
    then show ?thesis
      using zero [OF d] main [OF d False] False by blast
  qed (use zero [of 0] pn in simp)
  have "length (setSeen ?b 0) = 16"
    using len by (simp add: setSeen_def del: replicate.simps)
  moreover have "0 \<notin> insert pn S"
    using pn assms(1) by (auto simp: windowFor_def)
  moreover have "\<forall>x \<in> insert pn S. x \<le> pn"
    using top_least [OF assms] by (auto intro: less_imp_le)
  ultimately show ?thesis
    using new unfolding windowFor_def by (simp del: replicate.simps)
qed

lemma mark_older:
  assumes "windowFor S w" "pn \<le> rw_top w" "pn \<noteq> 0" "unat (rw_top w - pn) < 1024"
  shows "windowFor (insert pn S) (w\<lparr>rw_bits := setSeen (rw_bits w) (unat (rw_top w - pn))\<rparr>)"
proof -
  let ?d = "unat (rw_top w - pn)"
  have "0 < unat pn"
    using assms(3) by (simp add: unat_gt_0)
  then have d: "?d = unat (rw_top w) - unat pn" "?d < unat (rw_top w)"
    using assms(2) by (simp_all add: unat_distance word_le_nat_alt)
  have here: "rw_top w - of_nat e = pn \<longleftrightarrow> e = ?d" if "e < 1024" for e
  proof -
    have "rw_top w - of_nat e = pn \<longleftrightarrow> of_nat e = rw_top w - pn"
      by (auto simp: algebra_simps)
    also have "\<dots> \<longleftrightarrow> unat (of_nat e :: u64) = ?d"
      by (simp only: word_unat_eq_iff)
    finally show ?thesis
      using that by (simp add: unat_of_nat)
  qed
  have "seen (setSeen (rw_bits w) ?d) e \<longleftrightarrow> e < unat (rw_top w) \<and> rw_top w - of_nat e \<in> insert pn S" if "e < 1024" for e
    using assms(1) d(2) here [OF that] seen_setSeen [of "rw_bits w" ?d e] assms(4) that
    by (auto simp: windowFor_def)
  then show ?thesis
    using assms unfolding windowFor_def by (auto simp: setSeen_def)
qed

lemma mark_spec:
  assumes "windowFor S w" "check w pn = Inr ()"
  shows "\<exists>w'. markSeen w pn = Inr w' \<and> windowFor (insert pn S) w'"
proof (cases "pn > rw_top w")
  case True
  then show ?thesis
    using mark_newer [OF assms(1) True] by (simp add: markSeen_def Let_def)
next
  case False
  then have "pn \<noteq> 0" "unat (rw_top w - pn) < 1024"
    using assms(2) by (auto simp: check_def Let_def replayWidth_def word_le_nat_alt split: if_splits)
  with False show ?thesis
    using mark_older [OF assms(1), of pn] by (simp add: markSeen_def Let_def div_less_iff_less_mult not_le)
qed

text \<open>What \<^verbatim>\<open>Receive\<close> does with the numbers of authentic packets, and the same by the set of those accepted.\<close>

fun admitted :: "replayWindow \<Rightarrow> u64 list \<Rightarrow> packet_error + bool list" where
  "admitted w [] = Inr []"
| "admitted w (pn # pns) =
     (case check w pn of
        Inl e \<Rightarrow> bindR (admitted w pns) (\<lambda>bs. Inr (False # bs))
      | Inr _ \<Rightarrow> bindR (markSeen w pn) (\<lambda>w'. bindR (admitted w' pns) (\<lambda>bs. Inr (True # bs))))"

fun firstTimes :: "u64 set \<Rightarrow> u64 list \<Rightarrow> bool list" where
  "firstTimes S [] = []"
| "firstTimes S (pn # pns) =
     (let ok = pn \<noteq> 0 \<and> pn \<notin> S \<and> \<not> tooOld S pn in ok # firstTimes (if ok then insert pn S else S) pns)"

lemma admitted_spec: "windowFor S w \<Longrightarrow> admitted w pns = Inr (firstTimes S pns)"
proof (induction pns arbitrary: S w)
  case (Cons pn pns)
  show ?case
  proof (cases "pn = 0 \<or> pn \<in> S \<or> tooOld S pn")
    case True
    then show ?thesis
      using Cons check_spec [OF Cons.prems, of pn] by auto
  next
    case False
    then have "check w pn = Inr ()"
      using check_spec [OF Cons.prems, of pn] by simp
    then show ?thesis
      using mark_spec [OF Cons.prems, of pn] Cons.IH False by auto
  qed
qed simp

text \<open>
  (C12) The replay window is the set it stands for. Over any sequence of packet numbers the sixteen words and
  their shifts accept exactly the numbers that are not zero, were not accepted before and are less than 1024
  behind the highest accepted one; the array is never indexed past its end.
\<close>

theorem window_is_a_set: "admitted newReplay pns = Inr (firstTimes {} pns)"
  by (rule admitted_spec [OF windowFor_new])

end
