(* ===== verification/Axon_Keys.thy ===== *)
theory Axon_Keys
  imports Axon_Packet
begin

text \<open>
  The key schedule of a session, \<^verbatim>\<open>src/internal/axon/session/keys.go\<close>. HKDF-SHA256
  (\<^verbatim>\<open>golang.org/x/crypto/hkdf\<close>), SHA-256 and HMAC-SHA256 are the record \<open>kdf\<close>, an argument.
\<close>

record kdf =
  kd_hkdf :: "bytes \<Rightarrow> bytes \<Rightarrow> bytes \<Rightarrow> nat \<Rightarrow> bytes" \<comment> \<open>salt, input key, info, length\<close>
  kd_sha256 :: "bytes \<Rightarrow> bytes"
  kd_hmac :: "bytes \<Rightarrow> bytes \<Rightarrow> bytes"

definition textBytes :: "string \<Rightarrow> bytes" where
  "textBytes t = map (\<lambda>c. of_nat (of_char c)) t"

record keyState =
  ks_root :: bytes
  ks_kf :: bytes
  ks_kb :: bytes
  ks_resume :: bytes
  ks_rpid :: bytes

definition hkdf32 :: "kdf \<Rightarrow> bytes \<Rightarrow> bytes \<Rightarrow> bytes list \<Rightarrow> bytes" where
  "hkdf32 H salt ikm info = kd_hkdf H salt ikm (concat info) 32"

definition deriveKeys :: "kdf \<Rightarrow> bytes \<Rightarrow> keyState" where
  "deriveKeys H root =
     (let buf = kd_hkdf H [] root (textBytes ''axon:sess:keys:v1'') 96 in
      \<lparr> ks_root = root, ks_kf = field 0 32 buf, ks_kb = field 32 32 buf, ks_resume = field 64 32 buf,
        ks_rpid = hkdf32 H [] root [textBytes ''axon:sess:rpid:v1''] \<rparr>)"

definition rootFromSeed :: "kdf \<Rightarrow> bytes \<Rightarrow> bytes \<Rightarrow> bytes" where
  "rootFromSeed H keySeed sid = hkdf32 H [] keySeed [textBytes ''axon:sess:root:v1'', sid]"

definition ratchetRoot :: "kdf \<Rightarrow> bytes \<Rightarrow> bytes \<Rightarrow> bytes" where
  "ratchetRoot H root newSeed = hkdf32 H root newSeed [textBytes ''axon:sess:ratchet:v1'']"

definition rekey :: "kdf \<Rightarrow> bytes \<Rightarrow> u16 \<Rightarrow> bytes" where
  "rekey H k epoch = hkdf32 H [] k [textBytes ''axon:sess:rekey:v1'', leBytes 4 (unat epoch)]"

definition ResumeCommit :: "kdf \<Rightarrow> bytes \<Rightarrow> u32 \<Rightarrow> bytes" where
  "ResumeCommit H preimage counter = kd_sha256 H (textBytes ''axon:rp:resume:v1'' @ preimage @ leBytes 4 (unat counter))"

definition resumeProof :: "kdf \<Rightarrow> bytes \<Rightarrow> bytes \<Rightarrow> u32 \<Rightarrow> bytes \<Rightarrow> bytes \<Rightarrow> bytes" where
  "resumeProof H secret sid counter cookie rpRoutingID =
     kd_hmac H secret (textBytes ''axon:sess:resume-svc:v1'' @ sid @ leBytes 4 (unat counter) @ cookie @ rpRoutingID)"

definition wipedKeys :: keyState where
  "wipedKeys = \<lparr> ks_root = zero32, ks_kf = zero32, ks_kb = zero32, ks_resume = zero32, ks_rpid = zero32 \<rparr>"

record dirKey =
  dk_gen :: u16
  dk_epoch :: u16
  dk_key :: bytes
  dk_live :: bool \<comment> \<open>the AEAD is not nil\<close>
  dk_started :: int
  dk_count :: u64

definition newDirKey :: "u16 \<Rightarrow> bytes \<Rightarrow> int \<Rightarrow> dirKey" where
  "newDirKey gen k now = \<lparr> dk_gen = gen, dk_epoch = 0, dk_key = k, dk_live = True, dk_started = now, dk_count = 0 \<rparr>"

definition noDirKey :: dirKey where
  "noDirKey = \<lparr> dk_gen = 0, dk_epoch = 0, dk_key = zero32, dk_live = False, dk_started = 0, dk_count = 0 \<rparr>"

definition wipeDir :: "dirKey \<Rightarrow> dirKey" where
  "wipeDir d = d\<lparr>dk_key := zero32, dk_live := False\<rparr>"

function rekeyTo :: "kdf \<Rightarrow> bytes \<Rightarrow> u16 \<Rightarrow> u16 \<Rightarrow> bytes" where
  \<comment> \<open>the loop of \<^verbatim>\<open>openDirLocked\<close> from one epoch to another, both included\<close>
  "rekeyTo H k e last' = (let k' = rekey H k e in if e = last' then k' else rekeyTo H k' (e + 1) last')"
  by pat_completeness auto
termination rekeyTo
proof (relation "measure (\<lambda>(H, k, e, l). unat (l - e))", goal_cases)
  case (2 H k e l k')
  then have "l - e \<noteq> 0" by simp
  then have "unat (l - e - 1) < unat (l - e)"
    by (simp add: measure_unat)
  moreover have "l - e - 1 = l - (e + 1)"
    by (simp only: diff_diff_eq)
  ultimately show ?case by simp
qed simp

declare rekeyTo.simps [simp del]

definition openDirLocked ::
  "cipher \<Rightarrow> kdf \<Rightarrow> int \<Rightarrow> dirKey \<Rightarrow> dirKey option \<Rightarrow> header \<Rightarrow> bytes \<Rightarrow> packet_error + sessFrame \<times> dirKey \<times> dirKey option" where
  \<comment> \<open>the frame with the two keys as the returned commit leaves them\<close>
  "openDirLocked ae H now cur prev h p =
     (if hd_epoch h = dk_epoch cur then
        (if \<not> dk_live cur then Inl PacketPanic
         else bindR (openPacket ae (dk_key cur) h p) (\<lambda>f. Inr (f, cur, prev)))
      else if (case prev of None \<Rightarrow> False | Some q \<Rightarrow> dk_live q \<and> hd_epoch h = dk_epoch q \<and> hd_epoch h + 1 = dk_epoch cur) then
        bindR (openPacket ae (dk_key (the prev)) h p) (\<lambda>f. Inr (f, cur, prev))
      else if hd_epoch h > dk_epoch cur \<and> hd_epoch h - dk_epoch cur \<le> 8 then
        (let k = rekeyTo H (dk_key cur) (dk_epoch cur + 1) (hd_epoch h);
             next' = \<lparr> dk_gen = dk_gen cur, dk_epoch = hd_epoch h, dk_key = k, dk_live = True, dk_started = now, dk_count = 0 \<rparr>
         in bindR (openPacket ae k h p) (\<lambda>f. Inr (f, next', if prev = None then None else Some cur)))
      else Inl ErrStaleKey)"

end
