(* ===== verification/Axon_Session.thy ===== *)
theory Axon_Session
  imports Axon_Keys "HOL-Library.Signed_Division"
begin

text \<open>
  Overlay sessions, \<^verbatim>\<open>src/internal/axon/session/session.go\<close>, with the parts of \<^verbatim>\<open>stream.go\<close> that inbound frames
  reach. Every method holds the session's mutex for its whole body and is one step; \<^verbatim>\<open>run\<close> is a sequence of
  \<open>tick\<close>s, whose packets the caller sends. A time is in nanoseconds of the monotonic clock, the zero time \<open>None\<close>;
  a carrier is a number. Streams are objects on a heap (\<open>mx_objs\<close>) that the table \<open>mx_streams\<close> refers to, because
  a caller may hold a stream that the table has forgotten. The counters of \<^verbatim>\<open>Stats\<close>, the wake-ups and the
  callbacks are left out. Two fields are ghosts: \<open>rl_queued\<close>, the reliable frames in the order of their numbers, and
  \<open>rl_delivered\<close>, those handed to the streams; \<open>ss_sealed\<close> is the log of what was sealed.
\<close>

datatype sess_error =
    SessClosed | ErrSessionLost | ErrLifetime | ErrIdle | ErrPeerClosed | ErrCarrierHostile | ErrCarrierSilent
  | ErrCarrierDead | ErrDegraded | ErrGoingAway | ErrStreamIDs | ErrResumeCounter | ErrResumeProof | ErrWrongRole
  | ErrStreamReset | ErrStreamClosed | ErrDeadlineExceeded | EndOfStream | SessPacket packet_error

datatype Role = Client | Service
datatype sessState = Attached | Orphaned | Closed

definition CloseNormal :: byte where "CloseNormal = 0"
definition CloseGoingAway :: byte where "CloseGoingAway = 1"
definition CloseLifetime :: byte where "CloseLifetime = 2"
definition CloseIdle :: byte where "CloseIdle = 3"
definition ResetCancel :: nat where "ResetCancel = 0"
definition ResetFlowControl :: nat where "ResetFlowControl = 1"

record sessConfig =
  cg_OrphanRetention :: int
  cg_IdleTimeout :: int
  cg_HardLifetime :: int
  cg_RekeyPackets :: u64
  cg_RekeyInterval :: int
  cg_MinRTO :: int
  cg_MaxRTO :: int
  cg_ProbeTimeout :: int
  cg_StreamWindow :: int
  cg_SendBuffer :: int
  cg_HostileLimit :: int
  cg_AckDelay :: int
  cg_MaxInFlight :: int

record outFrame =
  of_f :: sessFrame
  of_sent :: bool
  of_sentAt :: "int option"
  of_retx :: nat
  of_size :: int

record stream =
  sm_id :: u32
  sm_meta :: bytes
  sm_recvBuf :: bytes
  sm_recvOff :: u64
  sm_readOff :: u64
  sm_recvLimit :: u64
  sm_recvFin :: bool
  sm_peerReset :: bool
  sm_resetCode :: u16
  sm_readClosed :: bool
  sm_sendOff :: u64
  sm_sendLimit :: u64
  sm_sendFin :: bool
  sm_localReset :: bool
  sm_rdl :: "int option"
  sm_wdl :: "int option"

record sessTimes =
  tm_created :: int
  tm_activity :: int
  tm_orphanedAt :: "int option"
  tm_attachedAt :: "int option"
  tm_lastRecv :: int

record sessKeys =
  sk_keys :: keyState
  sk_gen :: u16
  sk_pending :: "keyState option"
  sk_pendingGen :: u16
  sk_tx :: dirKey
  sk_rx :: dirKey
  sk_rxPrev :: dirKey
  sk_prx :: dirKey
  sk_pn :: u64
  sk_replay :: replayWindow

record reliability =
  rl_nextSeq :: u64
  rl_unacked :: "outFrame list"
  rl_unackedBytes :: int
  rl_peerAck :: u64
  rl_recvNext :: u64
  rl_reorder :: "u64 \<rightharpoonup> sessFrame"
  rl_ackOwed :: bool
  rl_ackOwedAt :: int
  rl_ackNow :: bool
  rl_pingOwed :: bool
  rl_srtt :: int
  rl_rttvar :: int
  rl_rto :: int
  rl_queued :: "sessFrame list"
  rl_delivered :: "sessFrame list"

record mux =
  mx_objs :: "stream list"
  mx_streams :: "u32 \<rightharpoonup> nat"
  mx_nextStream :: u32
  mx_acceptQ :: "nat list"
  mx_degraded :: bool
  mx_goingAway :: bool
  mx_retryAfter :: int

record Sess =
  ss_role :: Role
  ss_id :: bytes
  ss_cfg :: sessConfig
  ss_state :: sessState
  ss_closeErr :: "sess_error option"
  ss_tm :: sessTimes
  ss_sk :: sessKeys
  ss_rl :: reliability
  ss_mx :: mux
  ss_carrier :: "nat option"
  ss_carrierHostile :: int
  ss_final :: "bytes list"
  ss_rpCounter :: u32
  ss_svcCounter :: u32
  ss_sealed :: "(header \<times> sessFrame \<times> bytes) list"

definition onTm :: "(sessTimes \<Rightarrow> sessTimes) \<Rightarrow> Sess \<Rightarrow> Sess" where "onTm f s = s\<lparr>ss_tm := f (ss_tm s)\<rparr>"
definition onSk :: "(sessKeys \<Rightarrow> sessKeys) \<Rightarrow> Sess \<Rightarrow> Sess" where "onSk f s = s\<lparr>ss_sk := f (ss_sk s)\<rparr>"
definition onRl :: "(reliability \<Rightarrow> reliability) \<Rightarrow> Sess \<Rightarrow> Sess" where "onRl f s = s\<lparr>ss_rl := f (ss_rl s)\<rparr>"
definition onMx :: "(mux \<Rightarrow> mux) \<Rightarrow> Sess \<Rightarrow> Sess" where "onMx f s = s\<lparr>ss_mx := f (ss_mx s)\<rparr>"

lemmas on_defs = onTm_def onSk_def onRl_def onMx_def

subsection \<open>A new session\<close>

definition installKeys :: "Role \<Rightarrow> int \<Rightarrow> sessKeys \<Rightarrow> sessKeys" where
  \<comment> \<open>\<^verbatim>\<open>installKeysLocked\<close>\<close>
  "installKeys role now k =
     (let ks = sk_keys k; g = sk_gen k in
      case role of
        Client \<Rightarrow> k\<lparr>sk_tx := newDirKey g (ks_kf ks) now, sk_rx := newDirKey g (ks_kb ks) now, sk_rxPrev := noDirKey\<rparr>
      | Service \<Rightarrow> k\<lparr>sk_tx := newDirKey g (ks_kb ks) now, sk_rx := newDirKey g (ks_kf ks) now, sk_rxPrev := noDirKey\<rparr>)"

definition newSession :: "kdf \<Rightarrow> Role \<Rightarrow> bytes \<Rightarrow> bytes \<Rightarrow> sessConfig \<Rightarrow> int \<Rightarrow> Sess" where
  "newSession H role sid keySeed cfg now =
     \<lparr> ss_role = role, ss_id = sid, ss_cfg = cfg, ss_state = Orphaned, ss_closeErr = None,
       ss_tm = \<lparr> tm_created = now, tm_activity = now, tm_orphanedAt = Some now, tm_attachedAt = None, tm_lastRecv = now \<rparr>,
       ss_sk = installKeys role now
         \<lparr> sk_keys = deriveKeys H (rootFromSeed H keySeed sid), sk_gen = 0, sk_pending = None, sk_pendingGen = 0, sk_tx = noDirKey,
           sk_rx = noDirKey, sk_rxPrev = noDirKey, sk_prx = noDirKey, sk_pn = 0, sk_replay = newReplay \<rparr>,
       ss_rl = \<lparr> rl_nextSeq = 1, rl_unacked = [], rl_unackedBytes = 0, rl_peerAck = 0, rl_recvNext = 1, rl_reorder = Map.empty,
         rl_ackOwed = False, rl_ackOwedAt = 0, rl_ackNow = False, rl_pingOwed = False, rl_srtt = 0, rl_rttvar = 0,
         rl_rto = cg_MinRTO cfg, rl_queued = [], rl_delivered = [] \<rparr>,
       ss_mx = \<lparr> mx_objs = [], mx_streams = Map.empty, mx_nextStream = (if role = Client then 1 else 2), mx_acceptQ = [],
         mx_degraded = False, mx_goingAway = False, mx_retryAfter = 0 \<rparr>,
       ss_carrier = None, ss_carrierHostile = 0, ss_final = [], ss_rpCounter = 0, ss_svcCounter = 0, ss_sealed = [] \<rparr>"

subsection \<open>Carriers\<close>

definition unsendAll :: "outFrame list \<Rightarrow> outFrame list" where
  "unsendAll ofs = map (\<lambda>q. q\<lparr>of_sent := False\<rparr>) ofs"

definition attachLocked :: "nat \<Rightarrow> int \<Rightarrow> Sess \<Rightarrow> Sess" where
  "attachLocked c now s =
     onTm (\<lambda>t. t\<lparr>tm_attachedAt := Some now, tm_orphanedAt := None\<rparr>)
       (onRl (\<lambda>r. r\<lparr>rl_unacked := unsendAll (rl_unacked r), rl_pingOwed := True\<rparr>)
         (s\<lparr>ss_carrier := Some c, ss_carrierHostile := 0, ss_state := Attached\<rparr>))"

definition Attach :: "nat \<Rightarrow> int \<Rightarrow> Sess \<Rightarrow> sess_error + Sess" where
  "Attach c now s = (if ss_state s = Closed then Inl SessClosed else Inr (attachLocked c now s))"

definition orphanLocked :: "int \<Rightarrow> Sess \<Rightarrow> Sess" where
  "orphanLocked now s =
     (if ss_state s \<noteq> Attached then s
      else onTm (\<lambda>t. t\<lparr>tm_orphanedAt := Some now\<rparr>)
             (onRl (\<lambda>r. r\<lparr>rl_unacked := unsendAll (rl_unacked r)\<rparr>) (s\<lparr>ss_state := Orphaned, ss_carrier := None\<rparr>)))"

definition CarrierLost :: "nat \<Rightarrow> int \<Rightarrow> Sess \<Rightarrow> Sess" where
  "CarrierLost c now s = (if ss_carrier s \<noteq> Some c \<or> ss_state s \<noteq> Attached then s else orphanLocked now s)"

definition SetDegraded :: "bool \<Rightarrow> Sess \<Rightarrow> Sess" where
  "SetDegraded d s = onMx (\<lambda>m. m\<lparr>mx_degraded := d\<rparr>) s"

definition hostileLocked :: "nat option \<Rightarrow> int \<Rightarrow> Sess \<Rightarrow> Sess" where
  "hostileLocked c now s =
     (if c \<noteq> None \<and> c = ss_carrier s \<and> ss_state s = Attached then
        let s' = s\<lparr>ss_carrierHostile := ss_carrierHostile s + 1\<rparr>
        in if ss_carrierHostile s' \<ge> cg_HostileLimit (ss_cfg s) then orphanLocked now s' else s'
      else s)"

subsection \<open>Outbound frames\<close>

definition queueRl :: "byte \<Rightarrow> u32 \<Rightarrow> bytes \<Rightarrow> reliability \<Rightarrow> reliability" where
  "queueRl typ sid d r =
     (let f = \<lparr> fr_ack = 0, fr_seq = rl_nextSeq r, fr_typ = typ, fr_stream = sid, fr_data = d \<rparr>;
          size = int (length d + frameHeaderSize)
      in r\<lparr>rl_nextSeq := rl_nextSeq r + 1,
           rl_unacked := rl_unacked r @ [\<lparr> of_f = f, of_sent = False, of_sentAt = None, of_retx = 0, of_size = size \<rparr>],
           rl_unackedBytes := rl_unackedBytes r + size, rl_queued := rl_queued r @ [f]\<rparr>)"

definition queueLocked :: "int \<Rightarrow> byte \<Rightarrow> u32 \<Rightarrow> bytes \<Rightarrow> Sess \<Rightarrow> Sess" where
  "queueLocked now typ sid d s = onTm (\<lambda>t. t\<lparr>tm_activity := now\<rparr>) (onRl (queueRl typ sid d) s)"

definition rekeyTx :: "kdf \<Rightarrow> sessConfig \<Rightarrow> int \<Rightarrow> dirKey \<Rightarrow> dirKey" where
  "rekeyTx H cfg now d =
     (if dk_count d \<ge> cg_RekeyPackets cfg \<or> now - dk_started d \<ge> cg_RekeyInterval cfg
      then (newDirKey (dk_gen d) (rekey H (dk_key d) (dk_epoch d + 1)) now)\<lparr>dk_epoch := dk_epoch d + 1\<rparr>
      else d)"

definition sealLocked :: "cipher \<Rightarrow> kdf \<Rightarrow> sessFrame \<Rightarrow> int \<Rightarrow> Sess \<Rightarrow> Sess \<times> (packet_error + bytes)" where
  "sealLocked ae H f now s =
     (let d = rekeyTx H (ss_cfg s) now (sk_tx (ss_sk s));
          f' = f\<lparr>fr_ack := rl_recvNext (ss_rl s) - 1\<rparr>;
          pn = sk_pn (ss_sk s) + 1;
          h = \<lparr> hd_gen = dk_gen d, hd_epoch = dk_epoch d, hd_pn = pn \<rparr>;
          s' = onSk (\<lambda>k. k\<lparr>sk_tx := d\<lparr>dk_count := dk_count d + 1\<rparr>, sk_pn := pn\<rparr>) s
      in case sealPacket ae (dk_key d) h f' of
           Inl e \<Rightarrow> (s', Inl e)
         | Inr p \<Rightarrow> (s'\<lparr>ss_sealed := ss_sealed s' @ [(h, f', p)]\<rparr>, Inr p))"

subsection \<open>Closing\<close>

definition wipeBuffers :: "mux \<Rightarrow> mux" where
  \<comment> \<open>a stream in the table is there under its own id\<close>
  "wipeBuffers m = m\<lparr>mx_objs := map (\<lambda>i. let st = mx_objs m ! i in if mx_streams m (sm_id st) = Some i then st\<lparr>sm_recvBuf := []\<rparr> else st)
     [0..<length (mx_objs m)]\<rparr>"

definition tellClose :: "cipher \<Rightarrow> kdf \<Rightarrow> sess_error \<Rightarrow> int \<Rightarrow> Sess \<Rightarrow> Sess" where
  \<comment> \<open>the farewell of \<^verbatim>\<open>closeLocked\<close>, sealed while the keys are there\<close>
  "tellClose ae H why now s =
     (let reason = (case why of ErrLifetime \<Rightarrow> CloseLifetime | ErrIdle \<Rightarrow> CloseIdle | _ \<Rightarrow> CloseNormal);
          f = \<lparr> fr_ack = 0, fr_seq = rl_nextSeq (ss_rl s), fr_typ = ftClose, fr_stream = 0, fr_data = [reason, 0, 0, 0, 0] \<rparr>;
          s1 = onRl (\<lambda>r. r\<lparr>rl_nextSeq := rl_nextSeq r + 1, rl_queued := rl_queued r @ [f]\<rparr>) s
      in case sealLocked ae H f now s1 of
           (s2, Inl e) \<Rightarrow> s2
         | (s2, Inr p) \<Rightarrow> s2\<lparr>ss_final := ss_final s2 @ [p]\<rparr>)"

definition closeLocked :: "cipher \<Rightarrow> kdf \<Rightarrow> sess_error \<Rightarrow> bool \<Rightarrow> int \<Rightarrow> Sess \<Rightarrow> Sess" where
  "closeLocked ae H why tell now s =
     (if ss_state s = Closed then s
      else
        (let s1 = (if tell \<and> ss_state s = Attached \<and> ss_carrier s \<noteq> None then tellClose ae H why now s else s)
         in onSk (\<lambda>k. k\<lparr>sk_keys := wipedKeys, sk_pending := None, sk_tx := wipeDir (sk_tx k), sk_rx := wipeDir (sk_rx k),
                          sk_rxPrev := wipeDir (sk_rxPrev k), sk_prx := wipeDir (sk_prx k)\<rparr>)
              (onRl (\<lambda>r. r\<lparr>rl_unacked := [], rl_unackedBytes := 0, rl_reorder := Map.empty\<rparr>)
                (onMx wipeBuffers (s1\<lparr>ss_state := Closed, ss_closeErr := Some why\<rparr>)))))"

subsection \<open>Streams\<close>

definition getStream :: "Sess \<Rightarrow> nat \<Rightarrow> stream" where
  "getStream s i = mx_objs (ss_mx s) ! i"

definition putStream :: "nat \<Rightarrow> stream \<Rightarrow> Sess \<Rightarrow> Sess" where
  "putStream i st s = onMx (\<lambda>m. m\<lparr>mx_objs := (mx_objs m)[i := st]\<rparr>) s"

definition newStreamLocked :: "u32 \<Rightarrow> bytes \<Rightarrow> Sess \<Rightarrow> Sess \<times> nat" where
  "newStreamLocked sid meta s =
     (let w = of_int (cg_StreamWindow (ss_cfg s));
          st = \<lparr> sm_id = sid, sm_meta = meta, sm_recvBuf = [], sm_recvOff = 0, sm_readOff = 0, sm_recvLimit = w, sm_recvFin = False,
                 sm_peerReset = False, sm_resetCode = 0, sm_readClosed = False, sm_sendOff = 0, sm_sendLimit = w, sm_sendFin = False,
                 sm_localReset = False, sm_rdl = None, sm_wdl = None \<rparr>;
          i = length (mx_objs (ss_mx s))
      in (onMx (\<lambda>m. m\<lparr>mx_objs := mx_objs m @ [st], mx_streams := (mx_streams m)(sid \<mapsto> i)\<rparr>) s, i))"

definition forget :: "u32 \<Rightarrow> Sess \<Rightarrow> Sess" where
  "forget sid s = onMx (\<lambda>m. m\<lparr>mx_streams := (mx_streams m)(sid := None)\<rparr>) s"

definition resetLocked :: "nat \<Rightarrow> nat \<Rightarrow> int \<Rightarrow> Sess \<Rightarrow> Sess" where
  "resetLocked i code now s =
     (let st = getStream s i in
      forget (sm_id st) (queueLocked now ftReset (sm_id st) (leBytes 2 code)
        (putStream i (st\<lparr>sm_localReset := True, sm_recvBuf := []\<rparr>) s)))"

definition maybeForgetLocked :: "nat \<Rightarrow> Sess \<Rightarrow> Sess" where
  "maybeForgetLocked i s =
     (let st = getStream s i in
      if sm_sendFin st \<and> (sm_recvFin st \<or> sm_readClosed st) \<and> sm_recvBuf st = [] then forget (sm_id st) s else s)"

definition regrant :: "nat \<Rightarrow> int \<Rightarrow> Sess \<Rightarrow> Sess" where
  \<comment> \<open>the window extended once half of it is used\<close>
  "regrant i now s =
     (let st = getStream s i; w = of_int (cg_StreamWindow (ss_cfg s)) in
      if sm_recvLimit st - sm_readOff st \<le> w div 2
      then queueLocked now ftWindow (sm_id st) (leBytes 8 (unat (sm_readOff st + w))) (putStream i (st\<lparr>sm_recvLimit := sm_readOff st + w\<rparr>) s)
      else s)"

definition isOdd :: "u32 \<Rightarrow> bool" where
  "isOdd sid \<longleftrightarrow> sid mod 2 = 1"

definition refuseLocked :: "u32 \<Rightarrow> int \<Rightarrow> Sess \<Rightarrow> Sess" where
  "refuseLocked sid now s =
     (let ours = (isOdd sid = (ss_role s = Client)) in
      if sid = 0 \<or> (ours \<and> sid \<ge> mx_nextStream (ss_mx s)) then s
      else queueLocked now ftReset sid (leBytes 2 ResetCancel) s)"

subsection \<open>Delivery\<close>

definition deliverData :: "sessFrame \<Rightarrow> int \<Rightarrow> Sess \<Rightarrow> Sess" where
  "deliverData f now s =
     (case mx_streams (ss_mx s) (fr_stream f) of
        None \<Rightarrow> refuseLocked (fr_stream f) now s
      | Some i \<Rightarrow>
          (let st = getStream s i; n = of_nat (length (fr_data f)) in
           if sm_recvOff st + n > sm_recvLimit st then resetLocked i ResetFlowControl now s
           else
             (let st1 = st\<lparr>sm_recvOff := sm_recvOff st + n\<rparr> in
              if sm_readClosed st1 then regrant i now (putStream i (st1\<lparr>sm_readOff := sm_recvOff st1\<rparr>) s)
              else putStream i (st1\<lparr>sm_recvBuf := sm_recvBuf st1 @ fr_data f\<rparr>) s)))"

definition deliverReset :: "sessFrame \<Rightarrow> Sess \<Rightarrow> Sess" where
  "deliverReset f s =
     (case mx_streams (ss_mx s) (fr_stream f) of
        None \<Rightarrow> s
      | Some i \<Rightarrow>
          (let st = getStream s i; code = (if length (fr_data f) \<ge> 2 then of_nat (leNat (take 2 (fr_data f))) else sm_resetCode st) in
           forget (sm_id st) (putStream i (st\<lparr>sm_peerReset := True, sm_resetCode := code\<rparr>) s)))"

definition deliverWindow :: "sessFrame \<Rightarrow> Sess \<Rightarrow> Sess" where
  "deliverWindow f s =
     (case mx_streams (ss_mx s) (fr_stream f) of
        None \<Rightarrow> s
      | Some i \<Rightarrow>
          (let st = getStream s i; lim = of_nat (leNat (fr_data f)) in
           if length (fr_data f) = 8 \<and> lim > sm_sendLimit st then putStream i (st\<lparr>sm_sendLimit := lim\<rparr>) s else s))"

definition deliverClose :: "cipher \<Rightarrow> kdf \<Rightarrow> sessFrame \<Rightarrow> int \<Rightarrow> Sess \<Rightarrow> Sess" where
  "deliverClose ae H f now s =
     (let reason = (case fr_data f of [] \<Rightarrow> CloseNormal | b # _ \<Rightarrow> b) in
      if reason = CloseGoingAway
      then onMx (\<lambda>m. m\<lparr>mx_goingAway := True,
             mx_retryAfter := (if length (fr_data f) \<ge> 5 then int (leNat (field 1 4 (fr_data f))) * 10 ^ 9 else mx_retryAfter m)\<rparr>) s
      else closeLocked ae H ErrPeerClosed False now s)"

definition deliverOpen :: "sessFrame \<Rightarrow> Sess \<Rightarrow> Sess" where
  "deliverOpen f s =
     (if isOdd (fr_stream f) \<noteq> (ss_role s = Service) \<or> fr_stream f = 0 then s
      else if mx_streams (ss_mx s) (fr_stream f) \<noteq> None then s
      else (case newStreamLocked (fr_stream f) (fr_data f) s of
              (s', i) \<Rightarrow> onMx (\<lambda>m. m\<lparr>mx_acceptQ := mx_acceptQ m @ [i]\<rparr>) s'))"

definition deliverFin :: "sessFrame \<Rightarrow> Sess \<Rightarrow> Sess" where
  "deliverFin f s =
     (case mx_streams (ss_mx s) (fr_stream f) of
        None \<Rightarrow> s
      | Some i \<Rightarrow> maybeForgetLocked i (putStream i ((getStream s i)\<lparr>sm_recvFin := True\<rparr>) s))"

definition noteDelivered :: "sessFrame \<Rightarrow> reliability \<Rightarrow> reliability" where
  "noteDelivered f r = r\<lparr>rl_delivered := rl_delivered r @ [f]\<rparr>"

definition deliverLocked :: "cipher \<Rightarrow> kdf \<Rightarrow> sessFrame \<Rightarrow> int \<Rightarrow> Sess \<Rightarrow> Sess" where
  "deliverLocked ae H f now s0 =
     (let s = onRl (noteDelivered f) s0 in
      if fr_typ f = ftOpen then deliverOpen f s
      else if fr_typ f = ftData then deliverData f now s
      else if fr_typ f = ftFin then deliverFin f s
      else if fr_typ f = ftReset then deliverReset f s
      else if fr_typ f = ftWindow then deliverWindow f s
      else if fr_typ f = ftClose then deliverClose ae H f now s
      else s)"

subsection \<open>Inbound packets\<close>

definition commitPending :: "sessKeys \<Rightarrow> sessKeys" where
  \<comment> \<open>\<^verbatim>\<open>commitPendingLocked\<close>\<close>
  "commitPending k =
     (case sk_pending k of
        None \<Rightarrow> k
      | Some ks \<Rightarrow> k\<lparr>sk_keys := ks, sk_pending := None, sk_gen := sk_pendingGen k, sk_rx := sk_prx k, sk_prx := noDirKey, sk_rxPrev := noDirKey\<rparr>)"

definition openLocked :: "cipher \<Rightarrow> kdf \<Rightarrow> int \<Rightarrow> header \<Rightarrow> bytes \<Rightarrow> sessKeys \<Rightarrow> packet_error + sessFrame \<times> sessKeys" where
  \<comment> \<open>the keys as the commit leaves them; the caller runs it at once\<close>
  "openLocked ae H now h p k =
     (if hd_gen h = sk_gen k then
        bindR (openDirLocked ae H now (sk_rx k) (Some (sk_rxPrev k)) h p) (\<lambda>(f, cur, prev).
          Inr (f, k\<lparr>sk_rx := cur, sk_rxPrev := the prev\<rparr>))
      else if sk_pending k \<noteq> None \<and> hd_gen h = sk_pendingGen k then
        bindR (openDirLocked ae H now (sk_prx k) None h p) (\<lambda>(f, cur, prev). Inr (f, commitPending (k\<lparr>sk_prx := cur\<rparr>)))
      else Inl ErrAuth)"

definition clampRTO :: "sessConfig \<Rightarrow> int \<Rightarrow> int" where
  "clampRTO cfg r0 =
     (let r = (if r0 < cg_MinRTO cfg then cg_MinRTO cfg else r0) in if r > cg_MaxRTO cfg then cg_MaxRTO cfg else r)"

definition smoothed :: "int \<Rightarrow> int \<Rightarrow> int \<Rightarrow> int \<times> int" where
  "smoothed srtt rttvar sample =
     (if sample > 0 then
        (if srtt = 0 then (sample, sample sdiv 2)
         else (i64 (7 * srtt + sample) sdiv 8, i64 (3 * rttvar + \<bar>srtt - sample\<bar>) sdiv 4))
      else (srtt, rttvar))"

definition ackSample :: "int \<Rightarrow> outFrame list \<Rightarrow> int" where
  \<comment> \<open>the round trip of the last acknowledged frame that was sent exactly once, else 0\<close>
  "ackSample now acked =
     fold (\<lambda>q sample. if of_sent q \<and> of_retx q = 0 then now - (case of_sentAt q of None \<Rightarrow> 0 | Some t \<Rightarrow> t) else sample) acked 0"

definition ackLocked :: "u64 \<Rightarrow> int \<Rightarrow> Sess \<Rightarrow> Sess" where
  "ackLocked ack now s =
     onRl (\<lambda>r.
       if ack \<le> rl_peerAck r \<or> ack \<ge> rl_nextSeq r then r
       else
         (let acked = takeWhile (\<lambda>q. fr_seq (of_f q) \<le> ack) (rl_unacked r);
              est = smoothed (rl_srtt r) (rl_rttvar r) (ackSample now acked)
          in r\<lparr>rl_peerAck := ack, rl_unacked := drop (length acked) (rl_unacked r),
               rl_unackedBytes := rl_unackedBytes r - sum_list (map of_size acked),
               rl_srtt := fst est, rl_rttvar := snd est, rl_rto := clampRTO (ss_cfg s) (i64 (fst est + 4 * snd est))\<rparr>)) s"

definition oweAckNow :: "Sess \<Rightarrow> Sess" where
  "oweAckNow s = onRl (\<lambda>r. r\<lparr>rl_ackOwed := True, rl_ackNow := True\<rparr>) s"

definition nextRecv :: "Sess \<Rightarrow> Sess" where
  "nextRecv s = onRl (\<lambda>r. r\<lparr>rl_recvNext := rl_recvNext r + 1\<rparr>) s"

definition recvNext :: "Sess \<Rightarrow> u64" where
  "recvNext s = rl_recvNext (ss_rl s)"

text \<open>What a delivery does to the reliability state: at most one frame is queued, or the session closes.\<close>

lemma onRl_simps [simp]:
  "ss_rl (onRl g s) = g (ss_rl s)" "ss_mx (onRl g s) = ss_mx s" "ss_sk (onRl g s) = ss_sk s" "ss_tm (onRl g s) = ss_tm s"
  "ss_state (onRl g s) = ss_state s" "ss_cfg (onRl g s) = ss_cfg s" "ss_role (onRl g s) = ss_role s" "ss_carrier (onRl g s) = ss_carrier s"
  "ss_sealed (onRl g s) = ss_sealed s" "ss_final (onRl g s) = ss_final s"
  by (simp_all add: onRl_def)

lemma onMx_simps [simp]:
  "ss_rl (onMx g s) = ss_rl s" "ss_mx (onMx g s) = g (ss_mx s)" "ss_sk (onMx g s) = ss_sk s" "ss_tm (onMx g s) = ss_tm s"
  "ss_state (onMx g s) = ss_state s" "ss_cfg (onMx g s) = ss_cfg s" "ss_role (onMx g s) = ss_role s" "ss_carrier (onMx g s) = ss_carrier s"
  "ss_sealed (onMx g s) = ss_sealed s" "ss_final (onMx g s) = ss_final s"
  by (simp_all add: onMx_def)

lemma onSk_simps [simp]:
  "ss_rl (onSk g s) = ss_rl s" "ss_mx (onSk g s) = ss_mx s" "ss_sk (onSk g s) = g (ss_sk s)" "ss_tm (onSk g s) = ss_tm s"
  "ss_state (onSk g s) = ss_state s" "ss_cfg (onSk g s) = ss_cfg s" "ss_role (onSk g s) = ss_role s" "ss_carrier (onSk g s) = ss_carrier s"
  "ss_sealed (onSk g s) = ss_sealed s" "ss_final (onSk g s) = ss_final s"
  by (simp_all add: onSk_def)

lemma onTm_simps [simp]:
  "ss_rl (onTm g s) = ss_rl s" "ss_mx (onTm g s) = ss_mx s" "ss_sk (onTm g s) = ss_sk s" "ss_tm (onTm g s) = g (ss_tm s)"
  "ss_state (onTm g s) = ss_state s" "ss_cfg (onTm g s) = ss_cfg s" "ss_role (onTm g s) = ss_role s" "ss_carrier (onTm g s) = ss_carrier s"
  "ss_sealed (onTm g s) = ss_sealed s" "ss_final (onTm g s) = ss_final s"
  by (simp_all add: onTm_def)

text \<open>The parts of a session that the handling of streams leaves alone.\<close>

definition outer :: "Sess \<Rightarrow> sessState \<times> sessConfig \<times> sessKeys \<times> nat option \<times> (header \<times> sessFrame \<times> bytes) list \<times> Role \<times> bytes list" where
  "outer s = (ss_state s, ss_cfg s, ss_sk s, ss_carrier s, ss_sealed s, ss_role s, ss_final s)"

definition queuesOne :: "reliability \<Rightarrow> reliability \<Rightarrow> bool" where
  "queuesOne r r' \<longleftrightarrow> r' = r \<or> (\<exists>t i d. r' = queueRl t i d r \<and> length d \<le> MaxData \<and> reliable t \<and> validType t)"

lemma queuesOneI: "r' = r \<Longrightarrow> queuesOne r r'"
  by (simp add: queuesOne_def)

lemma ft_reliable [simp]:
  "reliable ftOpen" "reliable ftData" "reliable ftFin" "reliable ftReset" "reliable ftWindow" "reliable ftClose"
  "validType ftOpen" "validType ftData" "validType ftFin" "validType ftReset" "validType ftWindow" "validType ftClose"
  "validType ftPing" "validType ftAck" "\<not> reliable ftPing" "\<not> reliable ftAck"
  by (simp_all add: reliable_def validType_def ft_defs word_le_nat_alt)

lemma queuesOne_queue: "length d \<le> MaxData \<Longrightarrow> reliable t \<Longrightarrow> validType t \<Longrightarrow> queuesOne r (queueRl t i d r)"
  by (auto simp: queuesOne_def)

lemma small_data [simp]: "2 \<le> MaxData" "8 \<le> MaxData" "5 \<le> MaxData" "0 < MaxData"
  by (simp_all add: size_defs)

lemma putStream_rl [simp]: "ss_rl (putStream i st s) = ss_rl s" "outer (putStream i st s) = outer s"
  by (simp_all add: putStream_def outer_def)

lemma forget_rl [simp]: "ss_rl (forget sid s) = ss_rl s" "outer (forget sid s) = outer s"
  by (simp_all add: forget_def outer_def)

lemma queueLocked_rl [simp]: "ss_rl (queueLocked now t i d s) = queueRl t i d (ss_rl s)" "outer (queueLocked now t i d s) = outer s"
  by (simp_all add: queueLocked_def outer_def)

lemma maybeForget_rl [simp]: "ss_rl (maybeForgetLocked i s) = ss_rl s" "outer (maybeForgetLocked i s) = outer s"
  by (simp_all add: maybeForgetLocked_def Let_def)

lemma resetLocked_rl: "queuesOne (ss_rl s) (ss_rl (resetLocked i code now s))" "outer (resetLocked i code now s) = outer s"
  by (simp_all add: resetLocked_def Let_def queuesOne_queue)

lemma regrant_rl: "queuesOne (ss_rl s) (ss_rl (regrant i now s))" "outer (regrant i now s) = outer s"
  by (simp_all add: regrant_def Let_def queuesOne_queue queuesOneI)

lemma refuseLocked_rl: "queuesOne (ss_rl s) (ss_rl (refuseLocked sid now s))" "outer (refuseLocked sid now s) = outer s"
  by (simp_all add: refuseLocked_def Let_def queuesOne_queue queuesOneI)

lemma deliverData_rl: "queuesOne (ss_rl s) (ss_rl (deliverData f now s))" "outer (deliverData f now s) = outer s"
  using regrant_rl resetLocked_rl refuseLocked_rl
  by (auto simp: deliverData_def Let_def queuesOneI split: option.split) (metis putStream_rl(1))+

lemma newStream_rl [simp]: "ss_rl (fst (newStreamLocked sid meta s)) = ss_rl s" "outer (fst (newStreamLocked sid meta s)) = outer s"
  by (simp_all add: newStreamLocked_def Let_def outer_def)

lemma onMx_outer [simp]: "outer (onMx g s) = outer s"
  by (simp add: outer_def)

lemma deliverOthers_rl [simp]:
  "ss_rl (deliverOpen f s) = ss_rl s" "outer (deliverOpen f s) = outer s"
  "ss_rl (deliverFin f s) = ss_rl s" "outer (deliverFin f s) = outer s"
  "ss_rl (deliverReset f s) = ss_rl s" "outer (deliverReset f s) = outer s"
  "ss_rl (deliverWindow f s) = ss_rl s" "outer (deliverWindow f s) = outer s"
  by (auto simp: deliverOpen_def newStreamLocked_def deliverFin_def deliverReset_def deliverWindow_def Let_def split: option.split prod.split)

definition wipedRl :: "reliability \<Rightarrow> reliability" where
  "wipedRl r = r\<lparr>rl_unacked := [], rl_unackedBytes := 0, rl_reorder := Map.empty\<rparr>"

lemma closeLocked_quiet:
  "ss_rl (closeLocked ae H why False now s) = (if ss_state s = Closed then ss_rl s else wipedRl (ss_rl s))"
  "ss_state (closeLocked ae H why False now s) = Closed"
  "ss_sealed (closeLocked ae H why False now s) = ss_sealed s"
  "sk_pn (ss_sk (closeLocked ae H why False now s)) = sk_pn (ss_sk s)"
  by (simp_all add: closeLocked_def Let_def wipedRl_def)

lemma deliverClose_rl:
  "ss_rl (deliverClose ae H f now s) = ss_rl s \<and> outer (deliverClose ae H f now s) = outer s \<or>
   ss_rl (deliverClose ae H f now s) = wipedRl (ss_rl s) \<and> ss_state (deliverClose ae H f now s) = Closed \<and>
     ss_sealed (deliverClose ae H f now s) = ss_sealed s \<and> sk_pn (ss_sk (deliverClose ae H f now s)) = sk_pn (ss_sk s) \<and> ss_state s \<noteq> Closed"
proof (cases "ss_state s = Closed")
  case True
  then have "closeLocked ae H ErrPeerClosed False now s = s"
    by (simp add: closeLocked_def)
  then show ?thesis
    by (simp add: deliverClose_def Let_def)
next
  case False
  then show ?thesis
    using closeLocked_quiet [of ae H ErrPeerClosed now s] by (simp add: deliverClose_def Let_def)
qed

lemma onRl_outer [simp]: "outer (onRl g s) = outer s"
  by (simp add: outer_def)

lemma deliverLocked_rl:
  "queuesOne (noteDelivered f (ss_rl s)) (ss_rl (deliverLocked ae H f now s)) \<and> outer (deliverLocked ae H f now s) = outer s \<or>
   ss_rl (deliverLocked ae H f now s) = wipedRl (noteDelivered f (ss_rl s)) \<and> ss_state (deliverLocked ae H f now s) = Closed \<and>
     ss_sealed (deliverLocked ae H f now s) = ss_sealed s \<and> sk_pn (ss_sk (deliverLocked ae H f now s)) = sk_pn (ss_sk s) \<and> ss_state s \<noteq> Closed"
  using deliverData_rl [where s = "onRl (noteDelivered f) s" and f = f and now = now]
    deliverClose_rl [where s = "onRl (noteDelivered f) s" and f = f and now = now and ae = ae and H = H]
  by (auto simp: deliverLocked_def Let_def queuesOneI)

lemma queuesOne_reorder: "queuesOne r r' \<Longrightarrow> rl_reorder r' = rl_reorder r \<and> rl_recvNext r' = rl_recvNext r \<and> rl_delivered r' = rl_delivered r"
  by (auto simp: queuesOne_def queueRl_def Let_def)

lemma deliverLocked_reorder:
  "rl_reorder (ss_rl (deliverLocked ae H f now s)) = rl_reorder (ss_rl s) \<or> rl_reorder (ss_rl (deliverLocked ae H f now s)) = Map.empty"
  using deliverLocked_rl [where s = s and f = f and now = now and ae = ae and H = H] queuesOne_reorder
  by (fastforce simp: noteDelivered_def wipedRl_def)

text \<open>The frames held back that have become the next ones.\<close>

definition takeReorder :: "Sess \<Rightarrow> Sess" where
  "takeReorder s = onRl (\<lambda>r. r\<lparr>rl_reorder := (rl_reorder r)(rl_recvNext r := None)\<rparr>) s"

lemma nextRecv_reorder [simp]: "rl_reorder (ss_rl (nextRecv s)) = rl_reorder (ss_rl s)"
  by (simp add: nextRecv_def)

function drain :: "cipher \<Rightarrow> kdf \<Rightarrow> int \<Rightarrow> Sess \<Rightarrow> Sess" where
  "drain ae H now s =
     (case rl_reorder (ss_rl s) (rl_recvNext (ss_rl s)) of
        None \<Rightarrow> s
      | Some nf \<Rightarrow> drain ae H now (nextRecv (deliverLocked ae H nf now (takeReorder s))))"
  by pat_completeness auto
termination drain
proof (relation "measure (\<lambda>(ae, H, now, s). card (dom (rl_reorder (ss_rl s))))", goal_cases)
  case (2 ae H now s nf)
  let ?r = "rl_reorder (ss_rl s)"
  have "dom (rl_reorder (ss_rl (nextRecv (deliverLocked ae H nf now (takeReorder s))))) \<subseteq> dom ?r - {rl_recvNext (ss_rl s)}"
    using deliverLocked_reorder [of ae H nf now "takeReorder s"] by (auto simp: takeReorder_def split: if_splits)
  also have "\<dots> \<subset> dom ?r"
    using 2 by auto
  finally have "card (dom (rl_reorder (ss_rl (nextRecv (deliverLocked ae H nf now (takeReorder s)))))) < card (dom ?r)"
    by (rule psubset_card_mono [OF finite])
  then show ?case
    by (simp only: in_measure prod.case)
qed simp

declare drain.simps [simp del]

definition holdBack :: "sessFrame \<Rightarrow> Sess \<Rightarrow> Sess" where
  "holdBack f s =
     (let r = ss_rl s; gap = of_int (4 * cg_MaxInFlight (ss_cfg s)) in
      if fr_seq f - rl_recvNext r \<le> gap \<and> rl_reorder r (fr_seq f) = None
      then onRl (\<lambda>r. r\<lparr>rl_reorder := (rl_reorder r)(fr_seq f \<mapsto> f)\<rparr>) s else s)"

definition receiveFrame :: "cipher \<Rightarrow> kdf \<Rightarrow> sessFrame \<Rightarrow> int \<Rightarrow> Sess \<Rightarrow> Sess" where
  \<comment> \<open>the part of \<^verbatim>\<open>Receive\<close> after the acknowledgement\<close>
  "receiveFrame ae H f now s0 =
     (if fr_seq f = 0 then
        (if fr_typ f = ftPing then oweAckNow (onRl (\<lambda>r. r\<lparr>rl_unacked := unsendAll (rl_unacked r)\<rparr>) s0) else s0)
      else
        (let s = onTm (\<lambda>t. t\<lparr>tm_activity := now\<rparr>) s0 in
         if fr_seq f < recvNext s then oweAckNow s
         else if fr_seq f = recvNext s then
           (let s1 = drain ae H now (nextRecv (deliverLocked ae H f now s)) in
            if rl_ackOwed (ss_rl s1) then s1 else onRl (\<lambda>r. r\<lparr>rl_ackOwed := True, rl_ackOwedAt := now\<rparr>) s1)
         else oweAckNow (holdBack f s)))"

definition Receive :: "cipher \<Rightarrow> kdf \<Rightarrow> nat option \<Rightarrow> bytes \<Rightarrow> int \<Rightarrow> Sess \<Rightarrow> Sess \<times> (sess_error + unit)" where
  "Receive ae H c p now s =
     (if ss_state s = Closed then (s, Inl SessClosed)
      else (case parseHeader p of
        Inl e \<Rightarrow> (hostileLocked c now s, Inl (SessPacket e))
      | Inr h \<Rightarrow>
          (case check (sk_replay (ss_sk s)) (hd_pn h) of
             Inl e \<Rightarrow> (hostileLocked c now s, Inl (SessPacket e))
           | Inr _ \<Rightarrow>
               (case openLocked ae H now h p (ss_sk s) of
                  Inl e \<Rightarrow> (if e = ErrAuth then hostileLocked c now s else s, Inl (SessPacket e))
                | Inr (f, k) \<Rightarrow>
                    (case markSeen (sk_replay k) (hd_pn h) of
                       Inl e \<Rightarrow> (s, Inl (SessPacket e))
                     | Inr w \<Rightarrow>
                         (let s1 = s\<lparr>ss_sk := k\<lparr>sk_replay := w\<rparr>\<rparr>;
                              s2 = (if ss_state s1 = Orphaned \<and> c \<noteq> None then attachLocked (the c) now s1 else s1);
                              s3 = ackLocked (fr_ack f) now (onTm (\<lambda>t. t\<lparr>tm_lastRecv := now\<rparr>) s2)
                          in (receiveFrame ae H f now s3, Inr ())))))))"

subsection \<open>Sending\<close>

definition expireOldest :: "int \<Rightarrow> sessConfig \<Rightarrow> reliability \<Rightarrow> reliability" where
  \<comment> \<open>on a timeout only the oldest frame is sent again\<close>
  "expireOldest now cfg r =
     (case rl_unacked r of
        [] \<Rightarrow> r
      | q # qs \<Rightarrow>
          if of_sent q \<and> now - (case of_sentAt q of None \<Rightarrow> 0 | Some t \<Rightarrow> t) \<ge> rl_rto r
          then r\<lparr>rl_unacked := q\<lparr>of_sent := False\<rparr> # qs,
                 rl_rto := (let d = i64 (rl_rto r * 2) in if d > cg_MaxRTO cfg then cg_MaxRTO cfg else d)\<rparr>
          else r)"

fun sendFrames :: "cipher \<Rightarrow> kdf \<Rightarrow> int \<Rightarrow> outFrame list \<Rightarrow> int \<Rightarrow> Sess \<Rightarrow> Sess \<times> outFrame list \<times> bytes list" where
  "sendFrames ae H now [] inflight s = (s, [], [])"
| "sendFrames ae H now (q # qs) inflight s =
     (if of_sent q then (case sendFrames ae H now qs inflight s of (s', qs', ps) \<Rightarrow> (s', q # qs', ps))
      else if inflight \<ge> cg_MaxInFlight (ss_cfg s) then (s, q # qs, [])
      else (case sealLocked ae H (of_f q) now s of
              (s1, Inl e) \<Rightarrow> (case sendFrames ae H now qs inflight s1 of (s', qs', ps) \<Rightarrow> (s', q # qs', ps))
            | (s1, Inr p) \<Rightarrow>
                (let q' = q\<lparr>of_retx := (if of_sentAt q = None then of_retx q else Suc (of_retx q)), of_sent := True, of_sentAt := Some now\<rparr>
                 in case sendFrames ae H now qs (inflight + 1) s1 of (s', qs', ps) \<Rightarrow> (s', q' # qs', p # ps))))"

definition bareFrame :: "byte \<Rightarrow> sessFrame" where
  "bareFrame t = \<lparr> fr_ack = 0, fr_seq = 0, fr_typ = t, fr_stream = 0, fr_data = [] \<rparr>"

definition sendBare :: "cipher \<Rightarrow> kdf \<Rightarrow> byte \<Rightarrow> int \<Rightarrow> Sess \<Rightarrow> Sess \<times> bytes list" where
  "sendBare ae H t now s = (case sealLocked ae H (bareFrame t) now s of (s', Inl e) \<Rightarrow> (s', []) | (s', Inr p) \<Rightarrow> (s', [p]))"

definition clearAck :: "Sess \<Rightarrow> Sess" where
  "clearAck s = onRl (\<lambda>r. r\<lparr>rl_ackOwed := False, rl_ackNow := False\<rparr>) s"

definition collectLocked :: "cipher \<Rightarrow> kdf \<Rightarrow> int \<Rightarrow> Sess \<Rightarrow> Sess \<times> bytes list \<times> nat option" where
  "collectLocked ae H now s0 =
     (if ss_state s0 \<noteq> Attached \<or> ss_carrier s0 = None then (s0, [], None)
      else
        (let s1 = onRl (expireOldest now (ss_cfg s0)) s0;
             inflight = int (length (filter of_sent (rl_unacked (ss_rl s1))))
         in case sendFrames ae H now (rl_unacked (ss_rl s1)) inflight s1 of
              (s2, qs, ps) \<Rightarrow>
                (let s3 = onRl (\<lambda>r. r\<lparr>rl_unacked := qs\<rparr>) s2;
                     (s4, pings) = (if rl_pingOwed (ss_rl s3) then sendBare ae H ftPing now s3 else (s3, []));
                     s5 = onRl (\<lambda>r. r\<lparr>rl_pingOwed := False\<rparr>) s4;
                     out = ps @ pings; r = ss_rl s5
                 in if out \<noteq> [] then (clearAck s5, out, ss_carrier s0)
                    else if rl_ackOwed r \<and> (rl_ackNow r \<or> now - rl_ackOwedAt r \<ge> cg_AckDelay (ss_cfg s0)) then
                      (case sendBare ae H ftAck now s5 of (s6, acks) \<Rightarrow> (clearAck s6, acks, ss_carrier s0))
                    else (s5, out, ss_carrier s0))))"

definition sinceZero :: "int \<Rightarrow> int option \<Rightarrow> int \<Rightarrow> bool" where
  \<comment> \<open>at least \<open>d\<close> since \<open>t\<close>; the zero time is longer ago than any\<close>
  "sinceZero now t d = (case t of None \<Rightarrow> True | Some x \<Rightarrow> now - x \<ge> d)"

definition checkTimersLocked :: "cipher \<Rightarrow> kdf \<Rightarrow> int \<Rightarrow> Sess \<Rightarrow> Sess" where
  "checkTimersLocked ae H now s =
     (let t = ss_tm s; cfg = ss_cfg s in
      if ss_state s = Closed then s
      else if now - tm_created t \<ge> cg_HardLifetime cfg then closeLocked ae H ErrLifetime True now s
      else if now - tm_activity t \<ge> cg_IdleTimeout cfg then closeLocked ae H ErrIdle True now s
      else if ss_state s = Orphaned \<and> sinceZero now (tm_orphanedAt t) (cg_OrphanRetention cfg) then closeLocked ae H ErrSessionLost False now s
      else if ss_state s = Attached then
        (let heard = (case tm_attachedAt t of None \<Rightarrow> tm_lastRecv t | Some a \<Rightarrow> max (tm_lastRecv t) a) in
         if list_ex of_sent (rl_unacked (ss_rl s)) \<and> now - heard \<ge> cg_ProbeTimeout cfg then orphanLocked now s else s)
      else s)"

definition tick :: "cipher \<Rightarrow> kdf \<Rightarrow> int \<Rightarrow> Sess \<Rightarrow> Sess \<times> bytes list \<times> nat option" where
  \<comment> \<open>one round of \<^verbatim>\<open>run\<close> under the lock: the packets to send and the carrier to send them on\<close>
  "tick ae H now s =
     (case collectLocked ae H now (checkTimersLocked ae H now s) of
        (s', out, c) \<Rightarrow>
          if ss_state s' = Closed then (s'\<lparr>ss_final := [], ss_carrier := None\<rparr>, ss_final s', ss_carrier s') else (s', out, c))"

end
