(* ===== verification/Axon_Stream.thy ===== *)
theory Axon_Stream
  imports Axon_Session
begin

unbundle bit_operations_syntax

text \<open>
  What the owner of a session and the holders of its streams call: closing and resuming in \<^verbatim>\<open>session.go\<close>, and
  \<^verbatim>\<open>src/internal/axon/session/stream.go\<close>. A call that would wait on the condition variable answers \<open>Waits\<close>; the wait
  gives up the mutex, and the call goes on when something has changed.
\<close>

datatype 'a attempt = Answers 'a | Fails sess_error | Waits

definition Close :: "cipher \<Rightarrow> kdf \<Rightarrow> int \<Rightarrow> Sess \<Rightarrow> Sess" where
  "Close ae H now s = (if ss_state s = Closed then s else closeLocked ae H SessClosed True now s)"

definition GoAway :: "int \<Rightarrow> int \<Rightarrow> Sess \<Rightarrow> Sess" where
  "GoAway retryAfter now s =
     (if ss_state s = Closed then s
      else queueLocked now ftClose 0 (CloseGoingAway # leBytes 4 (nat (retryAfter sdiv 10 ^ 9 mod 2 ^ 32)))
             (onMx (\<lambda>m. m\<lparr>mx_goingAway := True\<rparr>) s))"

definition RetryAfter :: "Sess \<Rightarrow> int \<times> bool" where
  "RetryAfter s = (mx_retryAfter (ss_mx s), mx_goingAway (ss_mx s))"

subsection \<open>Resumption\<close>

definition RPResumeID :: "Sess \<Rightarrow> bytes" where
  "RPResumeID s = ks_rpid (sk_keys (ss_sk s))"

definition NextResumeCommit :: "kdf \<Rightarrow> Sess \<Rightarrow> sess_error + Sess \<times> u32 \<times> bytes" where
  "NextResumeCommit H s =
     (if ss_role s \<noteq> Client then Inl ErrWrongRole
      else if ss_state s = Closed then Inl SessClosed
      else let n = ss_rpCounter s + 1 in Inr (s\<lparr>ss_rpCounter := n\<rparr>, n, ResumeCommit H (RPResumeID s) n))"

definition ResumeRendezvous :: "Sess \<Rightarrow> sess_error + u32 \<times> bytes" where
  "ResumeRendezvous s =
     (if ss_role s \<noteq> Client then Inl ErrWrongRole
      else if ss_state s = Closed then Inl SessClosed
      else Inr (ss_rpCounter s, RPResumeID s))"

definition ResumeIntro :: "kdf \<Rightarrow> bytes \<Rightarrow> bytes \<Rightarrow> Sess \<Rightarrow> sess_error + Sess \<times> bytes \<times> u32 \<times> bytes" where
  "ResumeIntro H cookie rpRoutingID s =
     (if ss_role s \<noteq> Client then Inl ErrWrongRole
      else if ss_state s = Closed then Inl SessClosed
      else let n = ss_svcCounter s + 1
           in Inr (s\<lparr>ss_svcCounter := n\<rparr>, ss_id s, n, resumeProof H (ks_resume (sk_keys (ss_sk s))) (ss_id s) n cookie rpRoutingID))"

definition hmacEqual :: "bytes \<Rightarrow> bytes \<Rightarrow> bool" where
  "hmacEqual a b \<longleftrightarrow> fold (\<lambda>(x, y) v. v OR (x XOR y)) (zip a b) 0 = 0"

definition AcceptResume :: "kdf \<Rightarrow> u32 \<Rightarrow> bytes \<Rightarrow> bytes \<Rightarrow> bytes \<Rightarrow> Sess \<Rightarrow> sess_error + Sess" where
  "AcceptResume H counter proof' cookie rpRoutingID s =
     (if ss_role s \<noteq> Service then Inl ErrWrongRole
      else if ss_state s = Closed then Inl SessClosed
      else if counter \<le> ss_svcCounter s then Inl ErrResumeCounter
      else
        (let want = (\<lambda>ks. resumeProof H (ks_resume ks) (ss_id s) counter cookie rpRoutingID) in
         if hmacEqual (want (sk_keys (ss_sk s))) proof' then Inr (s\<lparr>ss_svcCounter := counter\<rparr>)
         else (case sk_pending (ss_sk s) of
                 None \<Rightarrow> Inl ErrResumeProof
               | Some ks \<Rightarrow>
                   if hmacEqual (want ks) proof' then Inr ((onSk commitPending s)\<lparr>ss_svcCounter := counter\<rparr>)
                   else Inl ErrResumeProof)))"

definition Ratchet :: "kdf \<Rightarrow> bytes \<Rightarrow> int \<Rightarrow> Sess \<Rightarrow> sess_error + Sess" where
  "Ratchet H newSeed now s =
     (if ss_state s = Closed then Inl SessClosed
      else
        (let k = ss_sk s; ks = deriveKeys H (ratchetRoot H (ks_root (sk_keys k)) newSeed) in
         if ss_role s = Client then
           Inr ((onSk (\<lambda>k. installKeys Client now (k\<lparr>sk_keys := ks, sk_gen := sk_gen k + 1\<rparr>)) s)\<lparr>ss_rpCounter := 0\<rparr>)
         else
           Inr (onSk (\<lambda>k. k\<lparr>sk_pending := Some ks, sk_pendingGen := sk_gen k + 1,
                             sk_prx := newDirKey (sk_gen k + 1) (ks_kf ks) now, sk_tx := newDirKey (sk_gen k + 1) (ks_kb ks) now\<rparr>) s)))"

subsection \<open>Opening and accepting streams\<close>

definition OpenStream :: "bytes \<Rightarrow> int \<Rightarrow> Sess \<Rightarrow> sess_error + Sess \<times> nat" where
  "OpenStream meta now s =
     (if length meta > MaxData then Inl (SessPacket ErrFrame)
      else if ss_state s = Closed then Inl (case ss_closeErr s of None \<Rightarrow> SessClosed | Some e \<Rightarrow> e)
      else if mx_degraded (ss_mx s) then Inl ErrDegraded
      else if mx_goingAway (ss_mx s) then Inl ErrGoingAway
      else if mx_nextStream (ss_mx s) > 2 ^ 31 then Inl ErrStreamIDs
      else
        (let sid = mx_nextStream (ss_mx s) in
         case newStreamLocked sid meta (onMx (\<lambda>m. m\<lparr>mx_nextStream := sid + 2\<rparr>) s) of
           (s1, i) \<Rightarrow> Inr (queueLocked now ftOpen sid meta s1, i)))"

definition AcceptStream :: "Sess \<Rightarrow> Sess \<times> nat attempt" where
  \<comment> \<open>the context's own error is not modelled\<close>
  "AcceptStream s =
     (case mx_acceptQ (ss_mx s) of
        [] \<Rightarrow> (s, if ss_state s = Closed then Fails (case ss_closeErr s of None \<Rightarrow> SessClosed | Some e \<Rightarrow> e) else Waits)
      | i # q \<Rightarrow> (onMx (\<lambda>m. m\<lparr>mx_acceptQ := q\<rparr>) s, Answers i))"

subsection \<open>Reading and writing\<close>

definition past :: "int \<Rightarrow> int option \<Rightarrow> bool" where
  "past now deadline = (case deadline of None \<Rightarrow> False | Some d \<Rightarrow> \<not> now < d)"

definition closedWith :: "Sess \<Rightarrow> sess_error" where
  "closedWith s = (case ss_closeErr s of None \<Rightarrow> SessClosed | Some e \<Rightarrow> e)"

definition Read :: "nat \<Rightarrow> nat \<Rightarrow> int \<Rightarrow> Sess \<Rightarrow> Sess \<times> bytes attempt" where
  \<comment> \<open>into a buffer of \<open>n\<close> bytes\<close>
  "Read i n now s =
     (let st = getStream s i in
      if n = 0 then (s, Answers [])
      else if sm_recvBuf st = [] then
        (s, if sm_peerReset st then Fails ErrStreamReset
            else if sm_readClosed st \<or> sm_localReset st then Fails ErrStreamClosed
            else if sm_recvFin st then Fails EndOfStream
            else if ss_state s = Closed then Fails (closedWith s)
            else if past now (sm_rdl st) then Fails ErrDeadlineExceeded
            else Waits)
      else
        (let d = take n (sm_recvBuf st);
             s1 = putStream i (st\<lparr>sm_recvBuf := drop n (sm_recvBuf st), sm_readOff := sm_readOff st + of_nat (length d)\<rparr>) s
         in (if ss_state s \<noteq> Closed \<and> \<not> sm_recvFin st then regrant i now s1 else s1, Answers d)))"

definition writeBlock :: "nat \<Rightarrow> int \<Rightarrow> Sess \<Rightarrow> unit attempt" where
  \<comment> \<open>the inner loop of \<^verbatim>\<open>Write\<close>: may a chunk be queued now?\<close>
  "writeBlock i now s =
     (let st = getStream s i in
      if ss_state s = Closed then Fails (closedWith s)
      else if sm_peerReset st then Fails ErrStreamReset
      else if sm_localReset st \<or> sm_sendFin st then Fails ErrStreamClosed
      else if past now (sm_wdl st) then Fails ErrDeadlineExceeded
      else if sm_sendOff st < sm_sendLimit st \<and> rl_unackedBytes (ss_rl s) < cg_SendBuffer (ss_cfg s) then Answers ()
      else Waits)"

definition chunkSize :: "stream \<Rightarrow> nat \<Rightarrow> nat" where
  "chunkSize st len = min (min len MaxData) (unat (sm_sendLimit st - sm_sendOff st))"

definition writeChunk :: "nat \<Rightarrow> bytes \<Rightarrow> int \<Rightarrow> Sess \<Rightarrow> Sess" where
  "writeChunk i d now s =
     (let st = getStream s i in
      putStream i (st\<lparr>sm_sendOff := sm_sendOff st + of_nat (length d)\<rparr>) (queueLocked now ftData (sm_id st) d s))"

function Write :: "nat \<Rightarrow> bytes \<Rightarrow> int \<Rightarrow> Sess \<Rightarrow> Sess \<times> nat \<times> unit attempt" where
  \<comment> \<open>up to the end or the first wait, with the number of bytes written\<close>
  "Write i p now s =
     (if p = [] then (s, 0, Answers ())
      else (case writeBlock i now s of
              Answers u \<Rightarrow>
                (let n = chunkSize (getStream s i) (length p) in
                 if n = 0 then (s, 0, Waits)
                 else (case Write i (drop n p) now (writeChunk i (take n p) now s) of (s', m, r) \<Rightarrow> (s', n + m, r)))
            | Fails e \<Rightarrow> (s, 0, Fails e)
            | Waits \<Rightarrow> (s, 0, Waits)))"
  by pat_completeness auto
termination Write
  by (relation "measure (\<lambda>(i, p, now, s). length p)") auto

declare Write.simps [simp del]

lemma chunk_positive: "writeBlock i now s = Answers () \<Longrightarrow> p \<noteq> [] \<Longrightarrow> chunkSize (getStream s i) (length p) \<noteq> 0"
proof -
  assume w: "writeBlock i now s = Answers ()" and p: "p \<noteq> []"
  have "sm_sendOff (getStream s i) < sm_sendLimit (getStream s i)"
    using w by (auto simp: writeBlock_def Let_def split: if_splits)
  then have "0 < unat (sm_sendLimit (getStream s i) - sm_sendOff (getStream s i))"
    by (simp add: unat_gt_0 )
  with p show ?thesis
    by (simp add: chunkSize_def)
qed

definition CloseWrite :: "nat \<Rightarrow> int \<Rightarrow> Sess \<Rightarrow> sess_error + Sess" where
  "CloseWrite i now s =
     (let st = getStream s i in
      if ss_state s = Closed then Inl (closedWith s)
      else if sm_sendFin st \<or> sm_localReset st \<or> sm_peerReset st then Inr s
      else Inr (maybeForgetLocked i (queueLocked now ftFin (sm_id st) [] (putStream i (st\<lparr>sm_sendFin := True\<rparr>) s))))"

definition closeWriting :: "nat \<Rightarrow> int \<Rightarrow> Sess \<Rightarrow> Sess" where
  "closeWriting i now s =
     (let st = getStream s i in
      if sm_sendFin st then s else queueLocked now ftFin (sm_id st) [] (putStream i (st\<lparr>sm_sendFin := True\<rparr>) s))"

definition CloseStream :: "nat \<Rightarrow> int \<Rightarrow> Sess \<Rightarrow> Sess" where
  \<comment> \<open>\<^verbatim>\<open>Stream.Close\<close>\<close>
  "CloseStream i now s =
     (let st = getStream s i in
      if ss_state s = Closed then s
      else if sm_localReset st \<or> sm_peerReset st then forget (sm_id st) s
      else
        (let s1 = closeWriting i now s
         in maybeForgetLocked i (putStream i ((getStream s1 i)\<lparr>sm_readClosed := True, sm_recvBuf := []\<rparr>) s1)))"

definition Reset :: "nat \<Rightarrow> u16 \<Rightarrow> int \<Rightarrow> Sess \<Rightarrow> Sess" where
  "Reset i code now s =
     (let st = getStream s i in
      if ss_state s \<noteq> Closed \<and> \<not> sm_localReset st \<and> \<not> sm_peerReset st then resetLocked i (unat code) now s else s)"

definition SetReadDeadline :: "nat \<Rightarrow> int option \<Rightarrow> Sess \<Rightarrow> Sess" where
  "SetReadDeadline i t s = putStream i ((getStream s i)\<lparr>sm_rdl := t\<rparr>) s"

definition SetWriteDeadline :: "nat \<Rightarrow> int option \<Rightarrow> Sess \<Rightarrow> Sess" where
  "SetWriteDeadline i t s = putStream i ((getStream s i)\<lparr>sm_wdl := t\<rparr>) s"

definition SetDeadline :: "nat \<Rightarrow> int option \<Rightarrow> Sess \<Rightarrow> Sess" where
  "SetDeadline i t s = SetWriteDeadline i t (SetReadDeadline i t s)"

end
