(* ===== verification/Axon_Session_Props.thy ===== *)
theory Axon_Session_Props
  imports Axon_Stream
begin

text \<open>
  What a session delivers. A session is looked at through its \<open>view\<close>, the fields that carry reliability; every
  operation moves the view by small steps (\<open>vstep\<close>), and the invariants are proved once for those. Two sessions
  joined by carriers that lose, duplicate, reorder and forge packets make the system; the one thing assumed of the
  AEAD there is that a packet which opens was sealed by the other end.
\<close>

subsection \<open>Views\<close>

record view =
  vw_nextSeq :: u64
  vw_unacked :: "sessFrame list"
  vw_peerAck :: u64
  vw_recvNext :: u64
  vw_reorder :: "u64 \<rightharpoonup> sessFrame"
  vw_queued :: "sessFrame list"
  vw_delivered :: "sessFrame list"
  vw_sealed :: "(header \<times> sessFrame \<times> bytes) list"
  vw_pn :: u64
  vw_open :: bool

definition viewOf :: "Sess \<Rightarrow> view" where
  "viewOf s =
     (let r = ss_rl s in
      \<lparr> vw_nextSeq = rl_nextSeq r, vw_unacked = map of_f (rl_unacked r), vw_peerAck = rl_peerAck r, vw_recvNext = rl_recvNext r,
        vw_reorder = rl_reorder r, vw_queued = rl_queued r, vw_delivered = rl_delivered r, vw_sealed = ss_sealed s,
        vw_pn = sk_pn (ss_sk s), vw_open = (ss_state s \<noteq> Closed) \<rparr>)"

definition sealedFrames :: "(header \<times> sessFrame \<times> bytes) list \<Rightarrow> sessFrame set" where
  "sealedFrames l = (fst \<circ> snd) ` set l"

definition nextFrame :: "view \<Rightarrow> byte \<Rightarrow> u32 \<Rightarrow> bytes \<Rightarrow> sessFrame" where
  "nextFrame v t i d = \<lparr> fr_ack = 0, fr_seq = vw_nextSeq v, fr_typ = t, fr_stream = i, fr_data = d \<rparr>"

text \<open>The steps of a view; \<open>F\<close> are the frames the other end has sealed.\<close>

inductive vstep :: "sessFrame set \<Rightarrow> view \<Rightarrow> view \<Rightarrow> bool" for F where
  queue: "length d \<le> MaxData \<Longrightarrow> f = nextFrame v t i d \<Longrightarrow>
    vstep F v (v\<lparr>vw_nextSeq := vw_nextSeq v + 1, vw_unacked := vw_unacked v @ [f], vw_queued := vw_queued v @ [f]\<rparr>)"
| last: "length d \<le> MaxData \<Longrightarrow> f = nextFrame v t i d \<Longrightarrow>
    vstep F v (v\<lparr>vw_nextSeq := vw_nextSeq v + 1, vw_unacked := [f], vw_queued := vw_queued v @ [f], vw_open := False\<rparr>)"
| seal: "f \<in> set (vw_unacked v) \<or> fr_seq f = 0 \<and> fr_data f = [] \<Longrightarrow> hd_pn h = vw_pn v + 1 \<Longrightarrow>
    vstep F v (v\<lparr>vw_sealed := vw_sealed v @ [(h, f\<lparr>fr_ack := vw_recvNext v - 1\<rparr>, p)], vw_pn := vw_pn v + 1\<rparr>)"
| unsealed: "f \<in> set (vw_unacked v) \<or> fr_data f = [] \<Longrightarrow> MaxData < length (fr_data f) \<Longrightarrow> vstep F v (v\<lparr>vw_pn := vw_pn v + 1\<rparr>)"
| ack: "f \<in> F \<Longrightarrow> vw_peerAck v < fr_ack f \<Longrightarrow> fr_ack f < vw_nextSeq v \<Longrightarrow>
    vstep F v (v\<lparr>vw_peerAck := fr_ack f, vw_unacked := dropWhile (\<lambda>g. fr_seq g \<le> fr_ack f) (vw_unacked v)\<rparr>)"
| deliver: "f \<in> F \<or> vw_reorder v (vw_recvNext v) = Some f \<Longrightarrow> fr_seq f = vw_recvNext v \<Longrightarrow>
    vstep F v (v\<lparr>vw_delivered := vw_delivered v @ [f], vw_recvNext := vw_recvNext v + 1\<rparr>)"
| take: "vstep F v (v\<lparr>vw_reorder := (vw_reorder v)(n := None)\<rparr>)"
| hold: "f \<in> F \<Longrightarrow> fr_seq f \<noteq> 0 \<Longrightarrow> vstep F v (v\<lparr>vw_reorder := (vw_reorder v)(fr_seq f \<mapsto> f)\<rparr>)"
| wipe: "vstep F v (v\<lparr>vw_unacked := [], vw_reorder := Map.empty, vw_open := False\<rparr>)"

abbreviation vsteps :: "sessFrame set \<Rightarrow> view \<Rightarrow> view \<Rightarrow> bool" where
  "vsteps F \<equiv> (vstep F)\<^sup>*\<^sup>*"

lemma vstep_mono: "vstep F v v' \<Longrightarrow> F \<subseteq> G \<Longrightarrow> vstep G v v'"
  by (induction rule: vstep.induct) (auto intro: vstep.intros)

subsection \<open>The invariants of a view\<close>

definition strip :: "sessFrame \<Rightarrow> sessFrame" where
  "strip f = f\<lparr>fr_ack := 0\<rparr>"

definition numbered :: "sessFrame list \<Rightarrow> bool" where
  "numbered fs \<longleftrightarrow> (\<forall>i < length fs. fr_seq (fs ! i) = of_nat (Suc i) \<and> fr_ack (fs ! i) = 0 \<and> length (fr_data (fs ! i)) \<le> MaxData)"

definition small :: "view \<Rightarrow> bool" where
  \<comment> \<open>the sequence numbers have not run out\<close>
  "small v \<longleftrightarrow> length (vw_queued v) + 1 < 2 ^ 64"

definition sentFrom :: "sessFrame list \<Rightarrow> sessFrame \<Rightarrow> bool" where
  "sentFrom fs f \<longleftrightarrow> 0 < unat (fr_seq f) \<and> unat (fr_seq f) \<le> length fs \<and> strip f = fs ! (unat (fr_seq f) - 1)"

definition sendInv :: "view \<Rightarrow> bool" where
  "sendInv v \<longleftrightarrow>
     numbered (vw_queued v) \<and> vw_nextSeq v = of_nat (Suc (length (vw_queued v))) \<and>
     set (vw_unacked v) \<subseteq> set (vw_queued v) \<and>
     unat (vw_peerAck v) \<le> length (vw_queued v) \<and>
     (vw_open v \<longrightarrow> vw_unacked v = drop (unat (vw_peerAck v)) (vw_queued v)) \<and>
     map (hd_pn \<circ> fst) (vw_sealed v) = map of_nat [1..<Suc (length (vw_sealed v))] \<and> vw_pn v = of_nat (length (vw_sealed v)) \<and>
     (\<forall>f \<in> sealedFrames (vw_sealed v). fr_seq f = 0 \<or> sentFrom (vw_queued v) f)"

definition recvInv :: "sessFrame list \<Rightarrow> view \<Rightarrow> bool" where
  "recvInv Q v \<longleftrightarrow>
     vw_recvNext v = of_nat (Suc (length (vw_delivered v))) \<and> length (vw_delivered v) \<le> length Q \<and>
     map strip (vw_delivered v) = take (length (vw_delivered v)) Q \<and>
     (\<forall>n f. vw_reorder v n = Some f \<longrightarrow> fr_seq f = n \<and> sentFrom Q f) \<and>
     (\<forall>f \<in> sealedFrames (vw_sealed v). unat (fr_ack f) \<le> length (vw_delivered v))"

lemma unat_next: "n + 1 < 2 ^ 64 \<Longrightarrow> unat (of_nat (Suc n) :: u64) = Suc n"
  by (subst unat_of_nat) simp

lemma numbered_snoc:
  "numbered (fs @ [f]) \<longleftrightarrow> numbered fs \<and> fr_seq f = of_nat (Suc (length fs)) \<and> fr_ack f = 0 \<and> length (fr_data f) \<le> MaxData"
  by (auto simp: numbered_def nth_append less_Suc_eq)

lemma sentFrom_append: "sentFrom fs f \<Longrightarrow> sentFrom (fs @ gs) f"
  by (auto simp: sentFrom_def nth_append)

lemma sentFrom_mem:
  assumes "numbered fs" "length fs + 1 < 2 ^ 64" "g \<in> set fs"
  shows "sentFrom fs (g\<lparr>fr_ack := a\<rparr>)"
proof -
  obtain i where i: "i < length fs" "g = fs ! i"
    using assms(3) by (auto simp: in_set_conv_nth)
  then have "fr_seq g = of_nat (Suc i)" "fr_ack g = 0"
    using assms(1) by (auto simp: numbered_def)
  moreover have "unat (of_nat (Suc i) :: u64) = Suc i"
    using i(1) assms(2) by (subst unat_of_nat) simp
  ultimately show ?thesis
    using i by (simp add: sentFrom_def strip_def)
qed

lemma sealedFrames_simps [simp]:
  "sealedFrames [] = {}" "sealedFrames (l @ [(h, f, p)]) = insert f (sealedFrames l)"
  by (auto simp: sealedFrames_def)

lemma drop_acked:
  assumes "numbered fs" "length fs + 1 < 2 ^ 64" "unat a \<le> length fs" "k \<le> unat a"
  shows "dropWhile (\<lambda>g. fr_seq g \<le> a) (drop k fs) = drop (unat a) fs"
  using assms(4)
proof (induction "unat a - k" arbitrary: k)
  case 0
  then have "drop k fs = drop (unat a) fs"
    by simp
  moreover have "\<not> fr_seq (fs ! unat a) \<le> a" if "unat a < length fs"
  proof -
    have "fr_seq (fs ! unat a) = of_nat (Suc (unat a))"
      using assms(1) that by (auto simp: numbered_def)
    moreover have "unat (of_nat (Suc (unat a)) :: u64) = Suc (unat a)"
      using that assms(2) by (subst unat_of_nat) simp
    ultimately show ?thesis
      by (simp add: word_le_nat_alt)
  qed
  ultimately show ?case
    by (cases "unat a < length fs") (simp_all add: Cons_nth_drop_Suc [symmetric])
next
  case (Suc n)
  then have k: "k < length fs" "k < unat a"
    using assms(3) by linarith+
  have "fr_seq (fs ! k) = of_nat (Suc k)"
    using assms(1) k by (auto simp: numbered_def)
  moreover have "unat (of_nat (Suc k) :: u64) = Suc k"
    using k assms(2) by (subst unat_of_nat) simp
  ultimately have "fr_seq (fs ! k) \<le> a"
    using k by (simp add: word_le_nat_alt)
  then have "dropWhile (\<lambda>g. fr_seq g \<le> a) (drop k fs) = dropWhile (\<lambda>g. fr_seq g \<le> a) (drop (Suc k) fs)"
    using k by (simp add: Cons_nth_drop_Suc [symmetric])
  also have "\<dots> = drop (unat a) fs"
    using Suc k by (intro Suc.hyps(1)) linarith+
  finally show ?case .
qed

lemma queued_grows: "vstep F v v' \<Longrightarrow> \<exists>fs. vw_queued v' = vw_queued v @ fs"
  by (induction rule: vstep.induct) auto

lemma small_back: "vstep F v v' \<Longrightarrow> small v' \<Longrightarrow> small v"
  using queued_grows [of F v v'] by (auto simp: small_def)

lemma upt_snoc_map: "map of_nat [1..<Suc (Suc n)] = map of_nat [1..<Suc n] @ [of_nat (Suc n) :: u64]"
  by simp

lemma sendInv_queue:
  assumes "sendInv v" "small v" "length d \<le> MaxData" "f = nextFrame v t i d"
  shows "numbered (vw_queued v @ [f]) \<and> vw_nextSeq v + 1 = of_nat (Suc (length (vw_queued v @ [f]))) \<and> set (vw_unacked v) \<subseteq> set (vw_queued v @ [f]) \<and>
    unat (vw_peerAck v) \<le> length (vw_queued v @ [f]) \<and>
    (\<forall>g \<in> sealedFrames (vw_sealed v). fr_seq g = 0 \<or> sentFrom (vw_queued v @ [f]) g)"
  using assms sentFrom_append by (auto simp: sendInv_def numbered_snoc nextFrame_def)

lemma numbered_data: "numbered fs \<Longrightarrow> g \<in> set fs \<Longrightarrow> length (fr_data g) \<le> MaxData"
  by (auto simp: numbered_def in_set_conv_nth)

lemma sendInv_vstep:
  assumes "vstep F v v'" "small v'" "sendInv v"
  shows "sendInv v'"
  using assms
proof (induction rule: vstep.induct)
  case (queue d f v t i)
  then have "small v"
    by (auto simp: small_def)
  from sendInv_queue [OF queue(4) this queue(1,2)] queue(4) show ?case
    by (simp add: sendInv_def)
next
  case (last d f v t i)
  then have "small v"
    by (auto simp: small_def)
  from sendInv_queue [OF last(4) this last(1,2)] last(4) show ?case
    by (simp add: sendInv_def)
next
  case (seal f v h p)
  have "fr_seq f = 0 \<or> sentFrom (vw_queued v) (f\<lparr>fr_ack := vw_recvNext v - 1\<rparr>)"
    using seal sentFrom_mem [of "vw_queued v" f "vw_recvNext v - 1"] by (auto simp: sendInv_def small_def)
  moreover have "map (hd_pn \<circ> fst) (vw_sealed v) @ [hd_pn h] = map of_nat [1..<Suc (Suc (length (vw_sealed v)))]"
    using seal unfolding upt_snoc_map sendInv_def by simp
  ultimately show ?case
    using seal unfolding sendInv_def by (simp add: algebra_simps)
next
  case (unsealed f v)
  have "length (fr_data f) \<le> MaxData"
    using unsealed numbered_data [of "vw_queued v" f] by (auto simp: sendInv_def)
  with unsealed show ?case by simp
next
  case (ack f v)
  have n: "unat (vw_nextSeq v) = Suc (length (vw_queued v))"
    using ack unat_next [of "length (vw_queued v)"] by (simp add: sendInv_def small_def del: of_nat_Suc)
  then have a: "unat (fr_ack f) \<le> length (vw_queued v)" "unat (vw_peerAck v) \<le> unat (fr_ack f)"
    using ack by (simp_all add: word_less_nat_alt)
  have "dropWhile (\<lambda>g. fr_seq g \<le> fr_ack f) (drop (unat (vw_peerAck v)) (vw_queued v)) = drop (unat (fr_ack f)) (vw_queued v)"
    using ack a by (intro drop_acked) (auto simp: sendInv_def small_def)
  moreover have "set (dropWhile (\<lambda>g. fr_seq g \<le> fr_ack f) (vw_unacked v)) \<subseteq> set (vw_queued v)"
    using ack set_dropWhileD by (fastforce simp: sendInv_def)
  ultimately show ?case
    using ack a by (auto simp: sendInv_def)
qed (simp_all add: sendInv_def)

lemma recvInv_more: "recvInv Q v \<Longrightarrow> recvInv (Q @ R) v"
  unfolding recvInv_def using sentFrom_append [of Q _ R] by auto

lemma recvInv_vstep:
  assumes "vstep F v v'" "\<forall>f \<in> F. fr_seq f = 0 \<or> sentFrom Q f" "length Q + 1 < 2 ^ 64" "recvInv Q v"
  shows "recvInv Q v'"
  using assms
proof (induction rule: vstep.induct)
  case (seal f v h p)
  have "unat (vw_recvNext v - 1) \<le> length (vw_delivered v)"
    using seal by (simp add: recvInv_def unat_of_nat)
  with seal show ?case
    by (auto simp: recvInv_def)
next
  case (deliver f v)
  let ?n = "length (vw_delivered v)"
  have n: "unat (fr_seq f) = Suc ?n"
    using deliver unat_next [of ?n] by (simp add: recvInv_def del: of_nat_Suc)
  then have "fr_seq f \<noteq> 0"
    by (auto simp: unat_eq_0)
  then have "sentFrom Q f"
    using deliver by (auto simp: recvInv_def)
  then have "?n < length Q" "strip f = Q ! ?n"
    using n by (simp_all add: sentFrom_def)
  with deliver show ?case
    by (auto simp: recvInv_def take_Suc_conv_app_nth)
next
  case (hold f v)
  then show ?case
    by (auto simp: recvInv_def)
qed (auto simp: recvInv_def split: if_splits)

subsection \<open>Operations are steps of the view\<close>

definition quiet :: "reliability \<Rightarrow> reliability \<Rightarrow> bool" where
  \<comment> \<open>timers, flags and the marks of what was sent do not show in the view\<close>
  "quiet r r' \<longleftrightarrow> rl_nextSeq r' = rl_nextSeq r \<and> map of_f (rl_unacked r') = map of_f (rl_unacked r) \<and> rl_peerAck r' = rl_peerAck r \<and>
     rl_recvNext r' = rl_recvNext r \<and> rl_reorder r' = rl_reorder r \<and> rl_queued r' = rl_queued r \<and> rl_delivered r' = rl_delivered r"

lemma viewOf_eqI:
  "quiet (ss_rl s) (ss_rl s') \<Longrightarrow> ss_sealed s' = ss_sealed s \<Longrightarrow> sk_pn (ss_sk s') = sk_pn (ss_sk s) \<Longrightarrow>
   (ss_state s' = Closed \<longleftrightarrow> ss_state s = Closed) \<Longrightarrow> viewOf s' = viewOf s"
  by (simp add: viewOf_def Let_def quiet_def)

lemma unsendAll_frames [simp]: "map of_f (unsendAll qs) = map of_f qs"
  by (simp add: unsendAll_def)

lemma quiet_refl [simp]: "quiet r r"
  by (simp add: quiet_def)

lemma viewOf_onMx [simp]: "viewOf (onMx g s) = viewOf s"
  by (simp add: viewOf_def)

lemma viewOf_onTm [simp]: "viewOf (onTm g s) = viewOf s"
  by (simp add: viewOf_def)

lemma viewOf_putStream [simp]: "viewOf (putStream i st s) = viewOf s"
  by (simp add: putStream_def)

lemma viewOf_forget [simp]: "viewOf (forget sid s) = viewOf s"
  by (simp add: forget_def)

lemma viewOf_maybeForget [simp]: "viewOf (maybeForgetLocked i s) = viewOf s"
  by (simp add: maybeForgetLocked_def Let_def)

lemma viewOf_attach: "ss_state s \<noteq> Closed \<Longrightarrow> viewOf (attachLocked c now s) = viewOf s"
  by (simp add: attachLocked_def viewOf_def Let_def)

lemma viewOf_orphan [simp]: "viewOf (orphanLocked now s) = viewOf s"
  by (simp add: orphanLocked_def viewOf_def Let_def)

lemma viewOf_lost [simp]: "viewOf (CarrierLost c now s) = viewOf s"
  by (simp add: CarrierLost_def)

lemma viewOf_hostile [simp]: "viewOf (hostileLocked c now s) = viewOf s"
  by (simp add: hostileLocked_def Let_def) (simp add: viewOf_def)

lemma viewOf_degraded [simp]: "viewOf (SetDegraded d s) = viewOf s"
  by (simp add: SetDegraded_def)

lemma vsteps_queue:
  assumes "queuesOne (ss_rl s) (ss_rl s')" "outer s' = outer s"
  shows "vsteps F (viewOf s) (viewOf s')"
proof -
  have o: "ss_sealed s' = ss_sealed s" "ss_sk s' = ss_sk s" "ss_state s' = ss_state s"
    using assms(2) by (simp_all add: outer_def)
  from assms(1) show ?thesis
    unfolding queuesOne_def
  proof (elim disjE exE conjE)
    fix t i d assume "ss_rl s' = queueRl t i d (ss_rl s)" "length d \<le> MaxData"
    then have "vstep F (viewOf s) (viewOf s')"
      using vstep.queue [of d _ "viewOf s" t i F] by (simp add: viewOf_def queueRl_def nextFrame_def Let_def o)
    then show ?thesis by blast
  qed (simp add: viewOf_def o)
qed

lemma vsteps_queueLocked:
  "length d \<le> MaxData \<Longrightarrow> reliable t \<Longrightarrow> validType t \<Longrightarrow> vsteps F (viewOf s) (viewOf (queueLocked now t i d s))"
  by (rule vsteps_queue) (simp_all add: queuesOne_queue)

lemma vsteps_reset: "vsteps F (viewOf s) (viewOf (resetLocked i code now s))"
  by (rule vsteps_queue) (rule resetLocked_rl)+

lemma vsteps_regrant: "vsteps F (viewOf s) (viewOf (regrant i now s))"
  by (rule vsteps_queue) (rule regrant_rl)+

text \<open>Sealing.\<close>

lemma sealLocked_frame [simp]:
  "ss_rl (fst (sealLocked ae H f now s)) = ss_rl s" "ss_state (fst (sealLocked ae H f now s)) = ss_state s"
  "ss_cfg (fst (sealLocked ae H f now s)) = ss_cfg s"
  by (simp_all add: sealLocked_def Let_def split: sum.split)

lemma vsteps_seal:
  assumes "f \<in> set (vw_unacked v) \<or> fr_seq f = 0 \<and> fr_data f = []"
    and "vw_sealed v = ss_sealed s" "vw_pn v = sk_pn (ss_sk s)" "vw_recvNext v = rl_recvNext (ss_rl s)"
  shows "vsteps F v (v\<lparr>vw_sealed := ss_sealed (fst (sealLocked ae H f now s)), vw_pn := sk_pn (ss_sk (fst (sealLocked ae H f now s)))\<rparr>)"
proof (cases "length (fr_data f) \<le> MaxData")
  case True
  then show ?thesis
    using vstep.seal [OF assms(1), of "\<lparr> hd_gen = dk_gen (rekeyTx H (ss_cfg s) now (sk_tx (ss_sk s))),
        hd_epoch = dk_epoch (rekeyTx H (ss_cfg s) now (sk_tx (ss_sk s))), hd_pn = vw_pn v + 1 \<rparr>" F] assms(2-)
    by (auto simp: sealLocked_def sealPacket_def Let_def intro!: r_into_rtranclp)
next
  case False
  have "vstep F v (v\<lparr>vw_pn := vw_pn v + 1\<rparr>)"
    by (rule vstep.unsealed [of f]) (use assms(1) False in auto)
  moreover have "v\<lparr>vw_sealed := ss_sealed s, vw_pn := vw_pn v + 1\<rparr> = v\<lparr>vw_pn := vw_pn v + 1\<rparr>"
    by (rule view.equality) (use assms(2) in simp_all)
  ultimately show ?thesis
    using False assms(3) by (simp add: sealLocked_def sealPacket_def Let_def r_into_rtranclp)
qed

lemma vsteps_sealLocked:
  assumes "f \<in> set (vw_unacked (viewOf s)) \<or> fr_seq f = 0 \<and> fr_data f = []"
  shows "vsteps F (viewOf s) (viewOf (fst (sealLocked ae H f now s)))"
proof -
  have "viewOf (fst (sealLocked ae H f now s)) = (viewOf s)\<lparr>vw_sealed := ss_sealed (fst (sealLocked ae H f now s)),
      vw_pn := sk_pn (ss_sk (fst (sealLocked ae H f now s)))\<rparr>"
    by (simp add: viewOf_def Let_def)
  then show ?thesis
    using vsteps_seal [OF assms, of s F] by (simp add: viewOf_def Let_def)
qed

text \<open>Delivering.\<close>

lemma viewOf_outer: "ss_rl s' = ss_rl s \<Longrightarrow> outer s' = outer s \<Longrightarrow> viewOf s' = viewOf s"
  by (simp add: viewOf_def outer_def)

lemma viewOf_closed:
  "ss_rl s' = wipedRl (ss_rl s) \<Longrightarrow> ss_state s' = Closed \<Longrightarrow> ss_sealed s' = ss_sealed s \<Longrightarrow> sk_pn (ss_sk s') = sk_pn (ss_sk s) \<Longrightarrow>
   viewOf s' = (viewOf s)\<lparr>vw_unacked := [], vw_reorder := Map.empty, vw_open := False\<rparr>"
  by (simp add: viewOf_def wipedRl_def Let_def)

lemma nextRecv_parts [simp]: "ss_rl (nextRecv s) = (ss_rl s)\<lparr>rl_recvNext := rl_recvNext (ss_rl s) + 1\<rparr>" "outer (nextRecv s) = outer s"
  by (simp_all add: nextRecv_def)

lemma queueRl_recvNext: "(queueRl t i d r)\<lparr>rl_recvNext := x\<rparr> = queueRl t i d (r\<lparr>rl_recvNext := x\<rparr>)"
  by (simp add: queueRl_def Let_def)

lemma queuesOne_nextRecv: "queuesOne r r' \<Longrightarrow> queuesOne (r\<lparr>rl_recvNext := x\<rparr>) (r'\<lparr>rl_recvNext := x\<rparr>)"
  unfolding queuesOne_def using queueRl_recvNext by metis

definition noted :: "sessFrame \<Rightarrow> Sess \<Rightarrow> Sess" where
  "noted f s = nextRecv (onRl (noteDelivered f) s)"

lemma viewOf_noted:
  "viewOf (noted f s) = (viewOf s)\<lparr>vw_delivered := vw_delivered (viewOf s) @ [f], vw_recvNext := vw_recvNext (viewOf s) + 1\<rparr>"
  by (simp add: noted_def nextRecv_def noteDelivered_def viewOf_def Let_def)

lemma vsteps_handled: "vsteps F (viewOf (noted f s)) (viewOf (nextRecv (deliverLocked ae H f now s)))"
proof -
  let ?s = "deliverLocked ae H f now s"
  consider (one) "queuesOne (noteDelivered f (ss_rl s)) (ss_rl ?s)" "outer ?s = outer s"
    | (shut) "ss_rl ?s = wipedRl (noteDelivered f (ss_rl s))" "ss_state ?s = Closed" "ss_sealed ?s = ss_sealed s"
      "sk_pn (ss_sk ?s) = sk_pn (ss_sk s)"
    using deliverLocked_rl by blast
  then show ?thesis
  proof cases
    case one
    from queuesOne_reorder [OF one(1)] have n: "rl_recvNext (ss_rl ?s) = rl_recvNext (noteDelivered f (ss_rl s))"
      by blast
    show ?thesis
      using queuesOne_nextRecv [OF one(1), of "rl_recvNext (noteDelivered f (ss_rl s)) + 1"] one(2)
      by (intro vsteps_queue) (simp_all add: n noted_def)
  next
    case shut
    have "viewOf (nextRecv ?s) = (viewOf (noted f s))\<lparr>vw_unacked := [], vw_reorder := Map.empty, vw_open := False\<rparr>"
      by (rule viewOf_closed) (simp_all add: shut noted_def nextRecv_def wipedRl_def)
    then show ?thesis
      by (metis r_into_rtranclp vstep.wipe)
  qed
qed

lemma vsteps_deliver:
  assumes "f \<in> F \<or> rl_reorder (ss_rl s) (rl_recvNext (ss_rl s)) = Some f" "fr_seq f = rl_recvNext (ss_rl s)"
  shows "vsteps F (viewOf s) (viewOf (nextRecv (deliverLocked ae H f now s)))"
proof (rule converse_rtranclp_into_rtranclp [OF _ vsteps_handled])
  show "vstep F (viewOf s) (viewOf (noted f s))"
    unfolding viewOf_noted by (rule vstep.deliver) (use assms in \<open>simp_all add: viewOf_def Let_def\<close>)
qed

definition keyed :: "(u64 \<rightharpoonup> sessFrame) \<Rightarrow> bool" where
  "keyed m \<longleftrightarrow> (\<forall>n f. m n = Some f \<longrightarrow> fr_seq f = n)"

lemma keyed_upd: "keyed m \<Longrightarrow> keyed (m(n := None))" "keyed m \<Longrightarrow> keyed (m(fr_seq f \<mapsto> f))" "keyed Map.empty"
  by (auto simp: keyed_def)

lemma keyed_deliver: "keyed (rl_reorder (ss_rl s)) \<Longrightarrow> keyed (rl_reorder (ss_rl (deliverLocked ae H f now s)))"
  using deliverLocked_reorder [of ae H f now s] keyed_upd(3) by metis

lemma vsteps_drained:
  assumes "rl_reorder (ss_rl s) (rl_recvNext (ss_rl s)) = Some f" "fr_seq f = rl_recvNext (ss_rl s)"
  shows "vsteps F (viewOf s) (viewOf (nextRecv (deliverLocked ae H f now (takeReorder s))))"
proof -
  let ?v = "viewOf (noted f s)"
  have "vstep F (viewOf s) ?v"
    unfolding viewOf_noted by (rule vstep.deliver) (use assms in \<open>simp_all add: viewOf_def Let_def\<close>)
  moreover have "vstep F ?v (viewOf (noted f (takeReorder s)))"
    using vstep.take [of F ?v "rl_recvNext (ss_rl s)"]
    by (simp add: noted_def nextRecv_def noteDelivered_def takeReorder_def viewOf_def Let_def)
  ultimately show ?thesis
    using vsteps_handled by (meson converse_rtranclp_into_rtranclp)
qed

lemma vsteps_drain: "keyed (rl_reorder (ss_rl s)) \<Longrightarrow> vsteps F (viewOf s) (viewOf (drain ae H now s))"
proof (induction ae H now s rule: drain.induct)
  case (1 ae H now s)
  show ?case
  proof (cases "rl_reorder (ss_rl s) (rl_recvNext (ss_rl s))")
    case None
    then show ?thesis by (simp add: drain.simps [of ae H now s])
  next
    case (Some f)
    let ?s = "nextRecv (deliverLocked ae H f now (takeReorder s))"
    have "fr_seq f = rl_recvNext (ss_rl s)"
      using 1(2) Some by (simp add: keyed_def)
    then have "vsteps F (viewOf s) (viewOf ?s)"
      by (rule vsteps_drained [OF Some])
    moreover have "keyed (rl_reorder (ss_rl ?s))"
      using keyed_deliver [of "takeReorder s"] keyed_upd(1) [OF 1(2)] by (simp add: takeReorder_def)
    then have "vsteps F (viewOf ?s) (viewOf (drain ae H now ?s))"
      by (rule 1(1) [OF Some])
    ultimately show ?thesis
      using Some by (simp add: drain.simps [of ae H now s])
  qed
qed

text \<open>Receiving.\<close>

lemma unackedFrames: "map of_f (drop (length (takeWhile (\<lambda>q. fr_seq (of_f q) \<le> a) qs)) qs) = dropWhile (\<lambda>g. fr_seq g \<le> a) (map of_f qs)"
  by (simp add: dropWhile_eq_drop [symmetric] dropWhile_map o_def)

lemma vsteps_ack:
  assumes "f \<in> F"
  shows "vsteps F (viewOf s) (viewOf (ackLocked (fr_ack f) now s))"
proof (cases "fr_ack f \<le> rl_peerAck (ss_rl s) \<or> fr_ack f \<ge> rl_nextSeq (ss_rl s)")
  case True
  then show ?thesis
    by (auto simp: ackLocked_def viewOf_def)
next
  case False
  then have "vstep F (viewOf s) (viewOf (ackLocked (fr_ack f) now s))"
    using False vstep.ack [OF assms, of "viewOf s"] by (simp add: not_le [symmetric] viewOf_def ackLocked_def Let_def unackedFrames)
  then show ?thesis by blast
qed

lemma viewOf_oweAck [simp]: "viewOf (oweAckNow s) = viewOf s"
  by (simp add: oweAckNow_def viewOf_def Let_def)

lemma viewOf_unsend: "viewOf (onRl (\<lambda>r. r\<lparr>rl_unacked := unsendAll (rl_unacked r)\<rparr>) s) = viewOf s"
  by (simp add: viewOf_def Let_def)

lemma viewOf_oweAt: "viewOf (onRl (\<lambda>r. r\<lparr>rl_ackOwed := b, rl_ackOwedAt := t\<rparr>) s) = viewOf s"
  by (simp add: viewOf_def Let_def)

lemma vsteps_hold:
  assumes "f \<in> F" "fr_seq f \<noteq> 0"
  shows "vsteps F (viewOf s) (viewOf (holdBack f s))"
proof -
  have "vstep F (viewOf s) (viewOf (onRl (\<lambda>r. r\<lparr>rl_reorder := (rl_reorder r)(fr_seq f \<mapsto> f)\<rparr>) s))"
    using vstep.hold [OF assms, of "viewOf s"] by (simp add: viewOf_def Let_def)
  then show ?thesis
    by (auto simp: holdBack_def Let_def)
qed

lemma vsteps_receiveFrame:
  assumes "f \<in> F" "keyed (rl_reorder (ss_rl s))"
  shows "vsteps F (viewOf s) (viewOf (receiveFrame ae H f now s))"
proof -
  let ?s = "onTm (\<lambda>t. t\<lparr>tm_activity := now\<rparr>) s"
  consider "fr_seq f = 0" | (old) "fr_seq f \<noteq> 0" "fr_seq f < recvNext ?s" | (due) "fr_seq f \<noteq> 0" "fr_seq f = recvNext ?s"
    | (early) "fr_seq f \<noteq> 0" "recvNext ?s < fr_seq f"
    by fastforce
  then show ?thesis
  proof cases
    case due
    let ?t = "nextRecv (deliverLocked ae H f now ?s)"
    have "vsteps F (viewOf ?s) (viewOf ?t)"
      by (rule vsteps_deliver) (use assms(1) due in \<open>simp_all add: recvNext_def\<close>)
    moreover have "keyed (rl_reorder (ss_rl ?t))"
      using keyed_deliver [of ?s] assms(2) by simp
    then have "vsteps F (viewOf ?t) (viewOf (drain ae H now ?t))"
      by (rule vsteps_drain)
    moreover have "recvNext s = recvNext ?s"
      by (simp add: recvNext_def)
    ultimately show ?thesis
      using due by (simp add: receiveFrame_def Let_def viewOf_oweAt)
  next
    case early
    then have "viewOf (receiveFrame ae H f now s) = viewOf (holdBack f ?s)"
      by (simp add: receiveFrame_def Let_def)
    then show ?thesis
      using vsteps_hold [OF assms(1) early(1), of ?s] by simp
  qed (simp_all add: receiveFrame_def Let_def viewOf_unsend)
qed

lemma commitPending_pn [simp]: "sk_pn (commitPending k) = sk_pn k"
  by (simp add: commitPending_def split: option.split)

lemma openLocked_pn: "openLocked ae H now h p k = Inr (f, k') \<Longrightarrow> sk_pn k' = sk_pn k"
  by (auto simp: openLocked_def bindR_def split: if_splits sum.splits prod.splits)

definition authentic :: "cipher \<Rightarrow> kdf \<Rightarrow> sessFrame set \<Rightarrow> Sess \<Rightarrow> bytes \<Rightarrow> int \<Rightarrow> bool" where
  \<comment> \<open>the promise of the AEAD: if the packet opens, the other end sealed its frame\<close>
  "authentic ae H F s p now \<longleftrightarrow>
     (case parseHeader p of
        Inl e \<Rightarrow> True
      | Inr h \<Rightarrow> (case openLocked ae H now h p (ss_sk s) of Inl e \<Rightarrow> True | Inr (f, k) \<Rightarrow> f \<in> F))"

lemma vsteps_Receive:
  assumes "authentic ae H F s p now" "keyed (rl_reorder (ss_rl s))"
  shows "vsteps F (viewOf s) (viewOf (fst (Receive ae H c p now s)))"
proof -
  consider (refused) "viewOf (fst (Receive ae H c p now s)) = viewOf s"
    | (opened) h f k w where "ss_state s \<noteq> Closed" "parseHeader p = Inr h" "check (sk_replay (ss_sk s)) (hd_pn h) = Inr ()"
      "openLocked ae H now h p (ss_sk s) = Inr (f, k)" "markSeen (sk_replay k) (hd_pn h) = Inr w"
    by (cases "ss_state s = Closed"; cases "parseHeader p"; cases "check (sk_replay (ss_sk s)) (hd_pn (projr (parseHeader p)))";
        cases "openLocked ae H now (projr (parseHeader p)) p (ss_sk s)";
        cases "markSeen (sk_replay (snd (projr (openLocked ae H now (projr (parseHeader p)) p (ss_sk s))))) (hd_pn (projr (parseHeader p)))")
       (auto simp: Receive_def)
  then show ?thesis
  proof cases
    case opened
    define s1 where "s1 = s\<lparr>ss_sk := k\<lparr>sk_replay := w\<rparr>\<rparr>"
    define s2 where "s2 = onTm (\<lambda>t. t\<lparr>tm_lastRecv := now\<rparr>) (if ss_state s1 = Orphaned \<and> c \<noteq> None then attachLocked (the c) now s1 else s1)"
    have F: "f \<in> F"
      using assms(1) opened by (simp add: authentic_def)
    have "viewOf s1 = viewOf s"
      by (rule viewOf_eqI) (simp_all add: s1_def openLocked_pn [OF opened(4)])
    then have v: "viewOf s2 = viewOf s"
      by (simp add: s2_def viewOf_attach)
    have "rl_reorder (ss_rl s2) = rl_reorder (ss_rl s)"
      by (simp add: s2_def s1_def attachLocked_def)
    then have "keyed (rl_reorder (ss_rl (ackLocked (fr_ack f) now s2)))"
      using assms(2) by (simp add: ackLocked_def Let_def)
    from vsteps_receiveFrame [OF F this] vsteps_ack [OF F, of s2 now]
    have "vsteps F (viewOf s) (viewOf (receiveFrame ae H f now (ackLocked (fr_ack f) now s2)))"
      unfolding v by (rule rtranclp_trans [rotated])
    moreover have "fst (Receive ae H c p now s) = receiveFrame ae H f now (ackLocked (fr_ack f) now s2)"
      using opened by (auto simp: Receive_def s1_def s2_def Let_def)
    ultimately show ?thesis by simp
  qed simp
qed

text \<open>Closing.\<close>

lemma sealLocked_log:
  "ss_sealed (fst (sealLocked ae H f now (onRl g s))) = ss_sealed (fst (sealLocked ae H f now (s\<lparr>ss_rl := g (ss_rl s)\<rparr>)))"
  by (simp add: onRl_def)

lemma vsteps_closeLocked: "vsteps F (viewOf s) (viewOf (closeLocked ae H why tell now s))"
proof -
  let ?wiped = "\<lambda>v. v\<lparr>vw_unacked := [], vw_reorder := Map.empty, vw_open := False\<rparr>"
  consider (closed) "closeLocked ae H why tell now s = s"
    | (quiet) "viewOf (closeLocked ae H why tell now s) = ?wiped (viewOf s)"
    | (told) "viewOf (closeLocked ae H why tell now s) = ?wiped (viewOf (tellClose ae H why now s))"
  proof (cases "ss_state s = Closed")
    case True
    then show ?thesis
      by (intro closed) (simp add: closeLocked_def)
  next
    case False
    let ?b = "tell \<and> ss_state s = Attached \<and> ss_carrier s \<noteq> None"
    have e: "viewOf (closeLocked ae H why tell now s) = ?wiped (viewOf (if ?b then tellClose ae H why now s else s))"
      unfolding closeLocked_def Let_def viewOf_def if_not_P [OF False] by (simp only: onRl_simps onMx_simps onSk_simps) simp
    show ?thesis
    proof (cases ?b)
      case True
      show ?thesis by (rule told) (use e in \<open>simp only: if_P [OF True]\<close>)
    next
      case False
      show ?thesis by (rule quiet) (use e in \<open>simp only: if_not_P [OF False]\<close>)
    qed
  qed
  then show ?thesis
  proof cases
    case quiet
    then show ?thesis
      by (metis r_into_rtranclp vstep.wipe)
  next
    case told
    let ?d = "[case why of ErrLifetime \<Rightarrow> CloseLifetime | ErrIdle \<Rightarrow> CloseIdle | _ \<Rightarrow> CloseNormal, 0, 0, 0, 0 :: byte]"
    define f where "f = nextFrame (viewOf s) ftClose 0 ?d"
    define s1 where "s1 = onRl (\<lambda>r. r\<lparr>rl_nextSeq := rl_nextSeq r + 1, rl_queued := rl_queued r @ [f]\<rparr>) s"
    define v where "v = (viewOf s)\<lparr>vw_nextSeq := vw_nextSeq (viewOf s) + 1, vw_unacked := [f], vw_queued := vw_queued (viewOf s) @ [f], vw_open := False\<rparr>"
    let ?t = "fst (sealLocked ae H f now s1)"
    have f: "f = \<lparr> fr_ack = 0, fr_seq = rl_nextSeq (ss_rl s), fr_typ = ftClose, fr_stream = 0, fr_data = ?d \<rparr>"
      by (simp add: f_def nextFrame_def viewOf_def Let_def)
    have "tellClose ae H why now s =
        (case sealLocked ae H f now s1 of (s2, Inl e) \<Rightarrow> s2 | (s2, Inr p) \<Rightarrow> s2\<lparr>ss_final := ss_final s2 @ [p]\<rparr>)"
      by (simp only: tellClose_def Let_def s1_def f)
    then have t: "viewOf (tellClose ae H why now s) = viewOf ?t"
      by (cases "sealLocked ae H f now s1"; cases "snd (sealLocked ae H f now s1)") (simp_all add: viewOf_def Let_def)
    have "vstep F (viewOf s) v"
      unfolding v_def by (rule vstep.last) (simp_all add: f_def size_defs)
    moreover have "vsteps F v (v\<lparr>vw_sealed := ss_sealed ?t, vw_pn := sk_pn (ss_sk ?t)\<rparr>)"
      by (rule vsteps_seal) (simp_all add: v_def s1_def viewOf_def Let_def)
    moreover have "?wiped (viewOf (tellClose ae H why now s)) = ?wiped (v\<lparr>vw_sealed := ss_sealed ?t, vw_pn := sk_pn (ss_sk ?t)\<rparr>)"
      unfolding t by (simp add: viewOf_def Let_def v_def s1_def)
    moreover have "vsteps F u (?wiped u)" for u
      by (rule r_into_rtranclp) (rule vstep.wipe)
    ultimately show ?thesis
      unfolding told by (metis (no_types) converse_rtranclp_into_rtranclp rtranclp_trans)
  qed simp
qed

text \<open>Sending.\<close>

lemma sendFrames_kept:
  "ss_rl (fst (sendFrames ae H now qs n s)) = ss_rl s \<and> ss_state (fst (sendFrames ae H now qs n s)) = ss_state s \<and>
   map of_f (fst (snd (sendFrames ae H now qs n s))) = map of_f qs"
proof (induction ae H now qs n s rule: sendFrames.induct)
  case (2 ae H now q qs n s)
  obtain s1 r where r: "sealLocked ae H (of_f q) now s = (s1, r)"
    by fastforce
  have s1: "ss_rl s1 = ss_rl s" "ss_state s1 = ss_state s"
    using sealLocked_frame [of ae H "of_f q" now s] r by simp_all
  consider "of_sent q" | "\<not> of_sent q" "n \<ge> cg_MaxInFlight (ss_cfg s)"
    | (failed) e where "\<not> of_sent q" "\<not> n \<ge> cg_MaxInFlight (ss_cfg s)" "r = Inl e"
    | (sealed) p where "\<not> of_sent q" "\<not> n \<ge> cg_MaxInFlight (ss_cfg s)" "r = Inr p"
    by (cases r) blast+
  then show ?case
  proof cases
    case failed
    from 2(2) [OF failed(1,2) r [symmetric] failed(3)] show ?thesis
      using failed r s1 by (simp add: case_prod_beta)
  next
    case sealed
    from 2(3) [OF sealed(1,2) r [symmetric] sealed(3) refl] show ?thesis
      using sealed r s1 by (simp add: case_prod_beta Let_def)
  qed (use 2 in \<open>simp_all add: case_prod_beta\<close>)
qed simp

lemma vsteps_sendFrames:
  "set (map of_f qs) \<subseteq> set (vw_unacked (viewOf s)) \<Longrightarrow> vsteps F (viewOf s) (viewOf (fst (sendFrames ae H now qs n s)))"
proof (induction ae H now qs n s rule: sendFrames.induct)
  case (2 ae H now q qs n s)
  obtain s1 r where r: "sealLocked ae H (of_f q) now s = (s1, r)"
    by fastforce
  have one: "vsteps F (viewOf s) (viewOf s1)"
    using vsteps_sealLocked [of "of_f q" s F ae H now] 2(4) r by simp
  have "ss_rl s1 = ss_rl s"
    using sealLocked_frame(1) [of ae H "of_f q" now s] r by simp
  then have "vw_unacked (viewOf s1) = vw_unacked (viewOf s)"
    by (simp add: viewOf_def Let_def)
  then have sub: "set (map of_f qs) \<subseteq> set (vw_unacked (viewOf s1))"
    using 2(4) by simp
  consider "of_sent q" | "\<not> of_sent q" "n \<ge> cg_MaxInFlight (ss_cfg s)"
    | (failed) e where "\<not> of_sent q" "\<not> n \<ge> cg_MaxInFlight (ss_cfg s)" "r = Inl e"
    | (sealed) p where "\<not> of_sent q" "\<not> n \<ge> cg_MaxInFlight (ss_cfg s)" "r = Inr p"
    by (cases r) blast+
  then show ?case
  proof cases
    case failed
    have "vsteps F (viewOf s1) (viewOf (fst (sendFrames ae H now qs n s1)))"
      by (rule 2(2) [OF failed(1,2) r [symmetric] failed(3) sub])
    with one show ?thesis
      using failed r by (simp add: case_prod_beta)
  next
    case sealed
    have "vsteps F (viewOf s1) (viewOf (fst (sendFrames ae H now qs (n + 1) s1)))"
      by (rule 2(3) [OF sealed(1,2) r [symmetric] sealed(3) refl sub])
    with one show ?thesis
      using sealed r by (simp add: case_prod_beta Let_def)
  qed (use 2 in \<open>auto simp: case_prod_beta\<close>)
qed simp

lemma bareFrame_fields [simp]: "fr_seq (bareFrame t) = 0" "fr_data (bareFrame t) = []"
  by (simp_all add: bareFrame_def)

lemma sendBare_seal: "fst (sendBare ae H t now s) = fst (sealLocked ae H (bareFrame t) now s)"
  by (simp add: sendBare_def split: prod.split sum.split)

lemma vsteps_sendBare: "vsteps F (viewOf s) (viewOf (fst (sendBare ae H t now s)))"
  unfolding sendBare_seal by (rule vsteps_sealLocked) simp

lemma viewOf_clearAck [simp]: "viewOf (clearAck s) = viewOf s"
  by (simp add: clearAck_def viewOf_def Let_def)

lemma expireOldest_quiet: "quiet r (expireOldest now cfg r)"
  by (simp add: expireOldest_def quiet_def Let_def split: list.split)

lemma vsteps_collect: "vsteps F (viewOf s0) (viewOf (fst (collectLocked ae H now s0)))"
proof (cases "ss_state s0 \<noteq> Attached \<or> ss_carrier s0 = None")
  case True
  then show ?thesis
    by (simp add: collectLocked_def)
next
  case False
  define s1 where "s1 = onRl (expireOldest now (ss_cfg s0)) s0"
  define n where "n = int (length (filter of_sent (rl_unacked (ss_rl s1))))"
  obtain s2 qs ps where sent: "sendFrames ae H now (rl_unacked (ss_rl s1)) n s1 = (s2, qs, ps)"
    by (metis prod_cases3)
  define s3 where "s3 = onRl (\<lambda>r. r\<lparr>rl_unacked := qs\<rparr>) s2"
  define s4 where "s4 = (if rl_pingOwed (ss_rl s3) then sendBare ae H ftPing now s3 else (s3, []))"
  define s5 where "s5 = onRl (\<lambda>r. r\<lparr>rl_pingOwed := False\<rparr>) (fst s4)"
  define s6 where "s6 = sendBare ae H ftAck now s5"
  have v1: "viewOf s1 = viewOf s0"
    by (rule viewOf_eqI) (simp_all add: s1_def expireOldest_quiet)
  have "vsteps F (viewOf s1) (viewOf s2)"
    using vsteps_sendFrames [of "rl_unacked (ss_rl s1)" s1 F ae H now n] sent by (simp add: viewOf_def Let_def)
  moreover have "viewOf s3 = viewOf s2"
    using sendFrames_kept [of ae H now "rl_unacked (ss_rl s1)" n s1] sent by (simp add: s3_def viewOf_def Let_def)
  moreover have "vsteps F (viewOf s3) (viewOf (fst s4))"
    using vsteps_sendBare by (simp add: s4_def)
  moreover have "viewOf s5 = viewOf (fst s4)"
    by (simp add: s5_def viewOf_def Let_def)
  ultimately have v5: "vsteps F (viewOf s0) (viewOf s5)"
    by (simp add: v1)
  have out: "collectLocked ae H now s0 =
      (let out = ps @ snd s4; r = ss_rl s5 in
       if out \<noteq> [] then (clearAck s5, out, ss_carrier s0)
       else if rl_ackOwed r \<and> (rl_ackNow r \<or> now - rl_ackOwedAt r \<ge> cg_AckDelay (ss_cfg s0)) then
         (clearAck (fst s6), snd s6, ss_carrier s0)
       else (s5, out, ss_carrier s0))"
    using False sent unfolding collectLocked_def s6_def s5_def s4_def s3_def n_def s1_def
    by (simp only: Let_def prod.case case_prod_beta if_False fst_conv snd_conv)
  have "viewOf (fst (collectLocked ae H now s0)) \<in> {viewOf s5, viewOf (fst s6)}"
    unfolding out by (simp add: Let_def)
  then consider "viewOf (fst (collectLocked ae H now s0)) = viewOf s5" | "viewOf (fst (collectLocked ae H now s0)) = viewOf (fst s6)"
    by blast
  then show ?thesis
  proof cases
    case 2
    have "vsteps F (viewOf s5) (viewOf (fst s6))"
      unfolding s6_def by (rule vsteps_sendBare)
    with 2 v5 show ?thesis by simp
  qed (use v5 in simp)
qed

lemma vsteps_timers: "vsteps F (viewOf s) (viewOf (checkTimersLocked ae H now s))"
  using vsteps_closeLocked by (simp add: checkTimersLocked_def Let_def)

lemma vsteps_tick: "vsteps F (viewOf s) (viewOf (fst (tick ae H now s)))"
proof -
  let ?s = "fst (collectLocked ae H now (checkTimersLocked ae H now s))"
  have "viewOf (fst (tick ae H now s)) = viewOf ?s"
    by (auto simp: tick_def viewOf_def Let_def split: prod.split)
  then show ?thesis
    using vsteps_timers [of F s ae H now] vsteps_collect [of F "checkTimersLocked ae H now s" ae H now] by simp
qed

text \<open>The calls of the owner and of the holders of streams.\<close>

lemma viewOf_newStream: "viewOf (fst (newStreamLocked i m s)) = viewOf s"
  by (simp add: newStreamLocked_def Let_def)

lemma vsteps_OpenStream: "OpenStream meta now s = Inr (s', i) \<Longrightarrow> vsteps F (viewOf s) (viewOf s')"
  using vsteps_queueLocked [of meta ftOpen F _ now "mx_nextStream (ss_mx s)"] viewOf_newStream
  by (auto simp: OpenStream_def Let_def split: if_splits prod.splits) (metis fst_conv not_le viewOf_onMx)

lemma vsteps_Read: "vsteps F (viewOf s) (viewOf (fst (Read i n now s)))"
  using vsteps_regrant by (simp add: Read_def Let_def) (metis viewOf_putStream)

lemma vsteps_writeChunk: "length d \<le> MaxData \<Longrightarrow> vsteps F (viewOf s) (viewOf (writeChunk i d now s))"
  by (simp add: writeChunk_def Let_def vsteps_queueLocked)

lemma vsteps_Write: "vsteps F (viewOf s) (viewOf (fst (Write i p now s)))"
proof (induction i p now s rule: Write.induct)
  case (1 i p now s)
  let ?n = "chunkSize (getStream s i) (length p)"
  consider "viewOf (fst (Write i p now s)) = viewOf s" | (some) "p \<noteq> []" "writeBlock i now s = Answers ()" "?n \<noteq> 0"
    by (cases "p = []"; cases "writeBlock i now s"; cases "?n = 0") (simp_all add: Write.simps [of i p] Write.simps [of i "[]"] Let_def)
  then show ?case
  proof cases
    case some
    have "vsteps F (viewOf s) (viewOf (writeChunk i (take ?n p) now s))"
      by (rule vsteps_writeChunk) (simp add: chunkSize_def)
    moreover have "vsteps F (viewOf (writeChunk i (take ?n p) now s)) (viewOf (fst (Write i (drop ?n p) now (writeChunk i (take ?n p) now s))))"
      by (rule 1) (use some in simp_all)
    ultimately show ?thesis
      using some by (simp add: Write.simps [of i p now s] Let_def case_prod_beta)
  qed simp
qed

lemma vsteps_CloseWrite: "CloseWrite i now s = Inr s' \<Longrightarrow> vsteps F (viewOf s) (viewOf s')"
  using vsteps_queueLocked [of "[]" ftFin F "putStream i ((getStream s i)\<lparr>sm_sendFin := True\<rparr>) s" now]
  by (auto simp: CloseWrite_def Let_def split: if_splits)

lemma vsteps_CloseStream: "vsteps F (viewOf s) (viewOf (CloseStream i now s))"
  using vsteps_queueLocked [of "[]" ftFin F "putStream i ((getStream s i)\<lparr>sm_sendFin := True\<rparr>) s" now]
  by (simp add: CloseStream_def closeWriting_def Let_def)

end
