(* ===== verification/Axon_Delivery.thy ===== *)
theory Axon_Delivery
  imports Axon_Session_Props
begin

text \<open>
  Two sessions joined by carriers. Each end does any of its operations at any time; the carriers may lose, repeat,
  reorder and invent packets, and the one thing that holds them is \<open>authentic\<close>. The system keeps what a session
  promises: the reliable frames arrive once and in order, and no packet number is used twice.
\<close>

inductive endStep :: "cipher \<Rightarrow> kdf \<Rightarrow> sessFrame set \<Rightarrow> Sess \<Rightarrow> Sess \<Rightarrow> bool" for ae H F where
  attach: "Attach c now s = Inr s' \<Longrightarrow> endStep ae H F s s'"
| lost: "endStep ae H F s (CarrierLost c now s)"
| degraded: "endStep ae H F s (SetDegraded d s)"
| receive: "authentic ae H F s p now \<Longrightarrow> endStep ae H F s (fst (Receive ae H c p now s))"
| tick: "endStep ae H F s (fst (tick ae H now s))"
| shut: "endStep ae H F s (Close ae H now s)"
| goAway: "endStep ae H F s (GoAway after now s)"
| commit: "NextResumeCommit H s = Inr (s', n, c) \<Longrightarrow> endStep ae H F s s'"
| resume: "ResumeIntro H cookie rp s = Inr (s', r) \<Longrightarrow> endStep ae H F s s'"
| acceptResume: "AcceptResume H n pr cookie rp s = Inr s' \<Longrightarrow> endStep ae H F s s'"
| ratchet: "Ratchet H seed now s = Inr s' \<Longrightarrow> endStep ae H F s s'"
| openStream: "OpenStream meta now s = Inr (s', i) \<Longrightarrow> endStep ae H F s s'"
| accept: "endStep ae H F s (fst (AcceptStream s))"
| read: "endStep ae H F s (fst (Read i n now s))"
| write': "endStep ae H F s (fst (Write i d now s))"
| closeWrite: "CloseWrite i now s = Inr s' \<Longrightarrow> endStep ae H F s s'"
| closeStream: "endStep ae H F s (CloseStream i now s)"
| reset: "endStep ae H F s (Reset i code now s)"
| readDeadline: "endStep ae H F s (SetReadDeadline i t s)"
| writeDeadline: "endStep ae H F s (SetWriteDeadline i t s)"
| bothDeadlines: "endStep ae H F s (SetDeadline i t s)"

inductive sysReach :: "cipher \<Rightarrow> kdf \<Rightarrow> Sess \<Rightarrow> Sess \<Rightarrow> bool" for ae H where
  start: "sysReach ae H (newSession H Client sid seed ca ta) (newSession H Service sid seed cb tb)"
| client: "sysReach ae H A B \<Longrightarrow> endStep ae H (sealedFrames (ss_sealed B)) A A' \<Longrightarrow> sysReach ae H A' B"
| service: "sysReach ae H A B \<Longrightarrow> endStep ae H (sealedFrames (ss_sealed A)) B B' \<Longrightarrow> sysReach ae H A B'"

subsection \<open>Every operation moves the view\<close>

lemma viewOf_quietly: "ss_rl s' = ss_rl s \<Longrightarrow> ss_sealed s' = ss_sealed s \<Longrightarrow> sk_pn (ss_sk s') = sk_pn (ss_sk s) \<Longrightarrow>
  ss_state s' = ss_state s \<Longrightarrow> viewOf s' = viewOf s"
  by (rule viewOf_eqI) simp_all

lemma installKeys_pn [simp]: "sk_pn (installKeys role now k) = sk_pn k"
  by (simp add: installKeys_def Let_def split: Role.split)

lemma viewOf_resuming:
  "NextResumeCommit H s = Inr (s', n, c) \<Longrightarrow> viewOf s' = viewOf s"
  "ResumeIntro H cookie rp s = Inr (s', r) \<Longrightarrow> viewOf s' = viewOf s"
  "AcceptResume H n' pr cookie rp s = Inr s' \<Longrightarrow> viewOf s' = viewOf s"
  "Ratchet H seed now s = Inr s' \<Longrightarrow> viewOf s' = viewOf s"
  by (auto simp: NextResumeCommit_def ResumeIntro_def AcceptResume_def Ratchet_def Let_def intro!: viewOf_quietly
      split: if_splits option.splits)

lemma vsteps_GoAway: "vsteps F (viewOf s) (viewOf (GoAway after now s))"
  using vsteps_queueLocked [of "CloseGoingAway # leBytes 4 (nat (after sdiv 10 ^ 9 mod 2 ^ 32))" ftClose F
      "onMx (\<lambda>m. m\<lparr>mx_goingAway := True\<rparr>) s" now 0]
  by (simp add: GoAway_def size_defs)

lemma viewOf_AcceptStream: "viewOf (fst (AcceptStream s)) = viewOf s"
  by (simp add: AcceptStream_def split: list.split)

lemma endStep_vsteps:
  assumes "endStep ae H F s s'" "keyed (vw_reorder (viewOf s))"
  shows "vsteps F (viewOf s) (viewOf s')"
  using assms
proof (induction rule: endStep.induct)
  case (receive s p now c)
  then show ?case
    by (intro vsteps_Receive) (simp_all add: viewOf_def Let_def)
next
  case (attach c now s s')
  then show ?case
    by (auto simp: Attach_def viewOf_attach split: if_splits)
next
  case (shut s now)
  show ?case
    using vsteps_closeLocked by (simp add: Close_def)
next
  case (reset s i code now)
  show ?case
    using vsteps_reset by (simp add: Reset_def Let_def)
qed (simp_all add: viewOf_resuming vsteps_tick vsteps_GoAway vsteps_OpenStream viewOf_AcceptStream vsteps_Read vsteps_Write
      vsteps_CloseWrite vsteps_CloseStream SetReadDeadline_def SetWriteDeadline_def SetDeadline_def)

subsection \<open>The invariant of the system\<close>

definition sysInv :: "view \<Rightarrow> view \<Rightarrow> bool" where
  "sysInv a b \<longleftrightarrow> sendInv a \<and> sendInv b \<and> recvInv (vw_queued a) b \<and> recvInv (vw_queued b) a \<and>
     unat (vw_peerAck a) \<le> length (vw_delivered b) \<and> unat (vw_peerAck b) \<le> length (vw_delivered a)"

lemma sysInv_sym: "sysInv a b \<longleftrightarrow> sysInv b a"
  by (auto simp: sysInv_def)

lemma keyed_vstep: "vstep F v v' \<Longrightarrow> keyed (vw_reorder v) \<Longrightarrow> keyed (vw_reorder v')"
  by (induction rule: vstep.induct) (simp_all add: keyed_upd)

lemma keyed_vsteps: "vsteps F v v' \<Longrightarrow> keyed (vw_reorder v) \<Longrightarrow> keyed (vw_reorder v')"
  by (induction rule: rtranclp_induct) (auto intro: keyed_vstep)

lemma delivered_grows: "vstep F v v' \<Longrightarrow> length (vw_delivered v) \<le> length (vw_delivered v')"
  by (induction rule: vstep.induct) simp_all

lemma peerAck_vstep:
  "vstep F v v' \<Longrightarrow> \<forall>f \<in> F. unat (fr_ack f) \<le> n \<Longrightarrow> unat (vw_peerAck v) \<le> n \<Longrightarrow> unat (vw_peerAck v') \<le> n"
  by (induction rule: vstep.induct) auto

lemma sysInv_vstep:
  assumes "vstep (sealedFrames (vw_sealed b)) a a'" "small a'" "small b" "sysInv a b"
  shows "sysInv a' b"
proof -
  have "recvInv (vw_queued b) a'"
    by (rule recvInv_vstep [OF assms(1)]) (use assms in \<open>auto simp: sysInv_def sendInv_def small_def\<close>)
  moreover have "recvInv (vw_queued a') b"
    using queued_grows [OF assms(1)] assms(4) recvInv_more by (auto simp: sysInv_def)
  moreover have "unat (vw_peerAck a') \<le> length (vw_delivered b)"
    by (rule peerAck_vstep [OF assms(1)]) (use assms(4) in \<open>auto simp: sysInv_def recvInv_def\<close>)
  moreover have "sendInv a'"
    using sendInv_vstep [OF assms(1,2)] assms(4) by (simp add: sysInv_def)
  ultimately show ?thesis
    using delivered_grows [OF assms(1)] assms(4) by (auto simp: sysInv_def)
qed

lemma sysInv_vsteps:
  "vsteps (sealedFrames (vw_sealed b)) a a' \<Longrightarrow> small a' \<Longrightarrow> small b \<Longrightarrow> sysInv a b \<Longrightarrow> sysInv a' b"
  by (induction rule: rtranclp_induct) (auto intro: sysInv_vstep small_back)

lemma small_vsteps: "vsteps F v v' \<Longrightarrow> small v' \<Longrightarrow> small v"
  by (induction rule: rtranclp_induct) (auto intro: small_back)

lemma newSession_view:
  "viewOf (newSession H role sid seed cfg now) =
     \<lparr> vw_nextSeq = 1, vw_unacked = [], vw_peerAck = 0, vw_recvNext = 1, vw_reorder = Map.empty, vw_queued = [], vw_delivered = [],
       vw_sealed = [], vw_pn = 0, vw_open = True \<rparr>"
  by (simp add: newSession_def viewOf_def)

lemma sysReach_keyed: "sysReach ae H A B \<Longrightarrow> keyed (vw_reorder (viewOf A)) \<and> keyed (vw_reorder (viewOf B))"
proof (induction rule: sysReach.induct)
  case (client A B A')
  then show ?case
    using endStep_vsteps keyed_vsteps by blast
next
  case (service A B B')
  then show ?case
    using endStep_vsteps keyed_vsteps by blast
qed (simp add: newSession_view keyed_upd)

lemma vw_sealed_viewOf: "vw_sealed (viewOf s) = ss_sealed s"
  by (simp add: viewOf_def Let_def)

lemma sysReach_inv: "sysReach ae H A B \<Longrightarrow> small (viewOf A) \<Longrightarrow> small (viewOf B) \<Longrightarrow> sysInv (viewOf A) (viewOf B)"
proof (induction rule: sysReach.induct)
  case start
  then show ?case
    by (simp add: newSession_view sysInv_def sendInv_def recvInv_def numbered_def)
next
  case (client A B A')
  then have v: "vsteps (sealedFrames (vw_sealed (viewOf B))) (viewOf A) (viewOf A')"
    using endStep_vsteps sysReach_keyed by (simp add: vw_sealed_viewOf)
  with client show ?case
    using sysInv_vsteps small_vsteps by blast
next
  case (service A B B')
  then have v: "vsteps (sealedFrames (vw_sealed (viewOf A))) (viewOf B) (viewOf B')"
    using endStep_vsteps sysReach_keyed by (simp add: vw_sealed_viewOf)
  with service show ?case
    using sysInv_vsteps small_vsteps sysInv_sym by blast
qed

subsection \<open>What a session promises\<close>

definition flow :: "Sess \<Rightarrow> Sess \<Rightarrow> bool" where
  \<comment> \<open>from the first to the second: delivered is a prefix of queued, and while the first end has not closed, which
      discards what it had not had acknowledged, the rest is still there to be sent\<close>
  "flow A B \<longleftrightarrow>
     map strip (rl_delivered (ss_rl B)) = take (length (rl_delivered (ss_rl B))) (rl_queued (ss_rl A)) \<and>
     length (rl_delivered (ss_rl B)) \<le> length (rl_queued (ss_rl A)) \<and>
     (ss_state A \<noteq> Closed \<longrightarrow>
       unat (rl_peerAck (ss_rl A)) \<le> length (rl_delivered (ss_rl B)) \<and>
       map of_f (rl_unacked (ss_rl A)) = drop (unat (rl_peerAck (ss_rl A))) (rl_queued (ss_rl A)))"

lemma sysInv_flow: "sysInv (viewOf A) (viewOf B) \<Longrightarrow> flow A B"
  by (auto simp: sysInv_def flow_def sendInv_def recvInv_def viewOf_def Let_def)

text \<open>
  (C8) A session delivers exactly once and in order. Whatever the carriers do to packets and whatever the two ends
  call, the reliable frames an end has handed to its streams are a prefix of those the other end has queued; and as
  long as the sending end has not closed, every frame not yet delivered is still kept for sending. Closing discards
  what is not yet acknowledged (\<open>goodbye_unheard\<close>), so after it the frames delivered remain a prefix and no more is
  promised. The sequence numbers must not have run out.
\<close>

theorem session_delivers_once:
  assumes "sysReach ae H A B" "length (rl_queued (ss_rl A)) + 1 < 2 ^ 64" "length (rl_queued (ss_rl B)) + 1 < 2 ^ 64"
  shows "flow A B \<and> flow B A"
proof -
  have "sysInv (viewOf A) (viewOf B)"
    by (rule sysReach_inv [OF assms(1)]) (use assms in \<open>simp_all add: small_def viewOf_def Let_def\<close>)
  then show ?thesis
    using sysInv_flow sysInv_sym by blast
qed

definition packetNumbers :: "Sess \<Rightarrow> nat list" where
  "packetNumbers s = map (\<lambda>(h, f, p). unat (hd_pn h)) (ss_sealed s)"

lemma sendInv_numbers:
  assumes "sendInv (viewOf s)" "length (ss_sealed s) < 2 ^ 64"
  shows "packetNumbers s = [1..<Suc (length (ss_sealed s))]"
proof -
  have "map (hd_pn \<circ> fst) (ss_sealed s) = map of_nat [1..<Suc (length (ss_sealed s))]"
    using assms(1) by (simp add: sendInv_def vw_sealed_viewOf)
  then have "map unat (map (hd_pn \<circ> fst) (ss_sealed s)) = map unat (map (of_nat :: nat \<Rightarrow> u64) [1..<Suc (length (ss_sealed s))])"
    by (rule arg_cong)
  moreover have "map unat (map (of_nat :: nat \<Rightarrow> u64) [1..<Suc (length (ss_sealed s))]) = [1..<Suc (length (ss_sealed s))]"
    unfolding map_map by (rule map_idI) (use assms(2) in \<open>auto simp: unat_of_nat\<close>)
  ultimately show ?thesis
    by (simp add: packetNumbers_def case_prod_beta' o_def)
qed

text \<open>
  (C11) No packet number is used twice. The packets an end has sealed carry the numbers 1, 2, 3 and so on, across
  rekeying, ratchets, lost carriers and the closing packet, so no key ever meets one nonce twice.
\<close>

theorem packet_numbers_count_up:
  assumes "sysReach ae H A B" "length (rl_queued (ss_rl A)) + 1 < 2 ^ 64" "length (rl_queued (ss_rl B)) + 1 < 2 ^ 64"
    and "length (ss_sealed A) < 2 ^ 64" "length (ss_sealed B) < 2 ^ 64"
  shows "packetNumbers A = [1..<Suc (length (ss_sealed A))] \<and> packetNumbers B = [1..<Suc (length (ss_sealed B))]"
proof -
  have "sysInv (viewOf A) (viewOf B)"
    by (rule sysReach_inv [OF assms(1)]) (use assms in \<open>simp_all add: small_def viewOf_def Let_def\<close>)
  then show ?thesis
    using sendInv_numbers assms(4,5) by (simp add: sysInv_def)
qed

subsection \<open>A run\<close>

text \<open>
  A client attaches a carrier, opens a stream and sends; the service hears the packet. The ciphers are stand-ins
  that hide nothing.
\<close>

definition demoSessAead :: cipher where
  "demoSessAead = \<lparr> cp_Seal = (\<lambda>k n plain ad. plain @ replicate tagSize 0),
     cp_Open = (\<lambda>k n c ad. if length c < tagSize then None else Some (take (length c - tagSize) c)) \<rparr>"

definition demoKdf :: kdf where
  "demoKdf = \<lparr> kd_hkdf = (\<lambda>salt k i n. replicate n 0), kd_sha256 = (\<lambda>_. zero32), kd_hmac = (\<lambda>_ _. zero32) \<rparr>"

definition demoCfg :: sessConfig where
  "demoCfg = \<lparr> cg_OrphanRetention = 10 ^ 11, cg_IdleTimeout = 10 ^ 12, cg_HardLifetime = 10 ^ 13, cg_RekeyPackets = 1000,
     cg_RekeyInterval = 10 ^ 12, cg_MinRTO = 10 ^ 8, cg_MaxRTO = 10 ^ 10, cg_ProbeTimeout = 10 ^ 10, cg_StreamWindow = 65536,
     cg_SendBuffer = 65536, cg_HostileLimit = 8, cg_AckDelay = 10 ^ 7, cg_MaxInFlight = 64 \<rparr>"

definition demoClient :: Sess where
  "demoClient = attachLocked 0 1 (newSession demoKdf Client zero32 zero32 demoCfg 0)"

definition demoOpened :: Sess where
  "demoOpened = fst (projr (OpenStream [7] 2 demoClient))"

definition demoTick :: "Sess \<times> bytes list \<times> nat option" where
  "demoTick = tick demoSessAead demoKdf 3 demoOpened"

definition demoSent :: Sess where "demoSent = fst demoTick"

definition demoService :: Sess where
  "demoService = newSession demoKdf Service zero32 zero32 demoCfg 0"

definition hears :: "bytes list \<Rightarrow> Sess" where
  "hears ps = fst (Receive demoSessAead demoKdf (Some 0) (hd ps) 4 demoService)"

definition demoHeard :: Sess where
  "demoHeard = hears (fst (snd demoTick))"

lemma demo_authentic: "authentic demoSessAead demoKdf (sealedFrames (ss_sealed demoSent)) demoService (hd (fst (snd demoTick))) 4"
  by code_simp

lemma demo_opened: "OpenStream [7] 2 demoClient = Inr (demoOpened, 0)"
  by code_simp

lemma demo_session_reach: "sysReach demoSessAead demoKdf demoSent demoHeard"
proof -
  have "sysReach demoSessAead demoKdf (newSession demoKdf Client zero32 zero32 demoCfg 0) demoService"
    unfolding demoService_def by (rule sysReach.start)
  then have "sysReach demoSessAead demoKdf demoClient demoService"
    by (rule sysReach.client) (rule endStep.attach [of 0 1], simp add: demoClient_def Attach_def newSession_def)
  then have "sysReach demoSessAead demoKdf demoOpened demoService"
    by (rule sysReach.client) (rule endStep.openStream [OF demo_opened])
  then have "sysReach demoSessAead demoKdf demoSent demoService"
    by (rule sysReach.client) (unfold demoSent_def demoTick_def, rule endStep.tick)
  then show ?thesis
    by (rule sysReach.service) (unfold demoHeard_def hears_def, rule endStep.receive [OF demo_authentic])
qed

lemma demo_sizes:
  "length (rl_queued (ss_rl demoSent)) = 1" "length (rl_queued (ss_rl demoHeard)) = 0" "length (ss_sealed demoSent) = 2"
  "length (ss_sealed demoHeard) = 0" "length (rl_delivered (ss_rl demoHeard)) = 1"
  by code_simp+

text \<open>
  The farewell of a session is a frame like any other, numbered after those still waiting, which closing discards.
  A client that opens a stream and closes before the next tick says goodbye with number 2; the service has not
  heard number 1 and never will, so it holds the goodbye back and stays open until a timer ends it.
\<close>

definition demoClosed :: "Sess \<times> bytes list \<times> nat option" where
  "demoClosed = tick demoSessAead demoKdf 4 (Close demoSessAead demoKdf 3 demoOpened)"

lemma goodbye_unheard:
  "length (fst (snd demoClosed)) = 1" "ss_state (fst demoClosed) = Closed" "rl_unacked (ss_rl (fst demoClosed)) = []"
  "ss_state (hears (fst (snd demoClosed))) = Attached" "rl_delivered (ss_rl (hears (fst (snd demoClosed)))) = []"
  by code_simp+

lemma session_delivers_once_witness:
  "flow demoSent demoHeard \<and> flow demoHeard demoSent \<and> length (rl_delivered (ss_rl demoHeard)) = 1"
  using session_delivers_once [OF demo_session_reach] by (simp add: demo_sizes)

lemma packet_numbers_count_up_witness: "packetNumbers demoSent = [1, 2] \<and> packetNumbers demoHeard = []"
  using packet_numbers_count_up [OF demo_session_reach] by (simp add: demo_sizes upt_rec)

end
