(* ===== verification/Spec2Isabelle.thy ===== *)
theory Spec2Isabelle
  imports Reconcile Watchtower_Props Validation Spend_Guard Payout_Props Lock_View
    Settlement Voucher Hub Payment_Plan Multipath_Exec Forwarding Follower_Props Light_Client_Props
    Axon_Delivery
begin

text \<open>
  Verification library for two parts of the node that decide about money and about what the chain said, the
  payment channels (\<^verbatim>\<open>src/internal/channel\<close>) and the authentication of chain data (\<^verbatim>\<open>src/internal/ethproof\<close>), and for
  the sessions of its overlay network (\<^verbatim>\<open>src/internal/axon/session\<close>), which carry its traffic.

  The program. Two parties lock deposits in a contract and exchange signed states off the chain. A payment is an
  intent: the payer's engine applies a transition to the latest state, signs it and sends it; the payee's engine
  derives the same state from the intent, countersigns and answers. Every accepted state is written to the store
  before it is acknowledged, and a copy goes to a vault. A watchtower compares what the chain shows with what the
  vault holds and challenges a stale close; a payout worker settles and resolves locks by asking the chain first.
  Above single channels lie the private payments (notes, blinded invoices, routes, onions, vouchers, escrow, the
  hub) and payments over several channels (splitting, forwarding). The second part answers where the facts about
  the chain come from: a light client follows the beacon chain from a sealed checkpoint by the signatures of sync
  committees, a finalised header carries the root of an execution block, a follower walks from there back to its
  own checkpoint along parent hashes, and the logs of a block are those of receipts that rebuild its receipts root.
  The third part is a reliable transport: a session numbers its frames, seals each transmission into a packet of one
  size under a fresh packet number, and survives the circuits it runs on, whose replacement resends what the peer
  has not acknowledged; streams with windows are multiplexed on it, and its keys move on by epochs and ratchets.

  How the code appears. A struct is a record with the source's field names behind a short prefix, a set of constants
  or a tagged union a datatype, a function a definition of the same name; a method takes its receiver as an argument
  and returns the new one. A \<^verbatim>\<open>uint64\<close> is a 64-bit word, an \<^verbatim>\<open>int64\<close> (an amount, a duration, an \<^verbatim>\<open>int\<close>) an integer
  wrapped by \<open>i64\<close> where the code computes with it, a \<^verbatim>\<open>*big.Int\<close> an integer option, bytes a list of 8-bit words, a Go
  string a list of characters. \<^verbatim>\<open>(T, error)\<close> is a sum whose left side is an error datatype; a runtime panic and a
  loop without end are values of that datatype, so that a theorem about the result excludes them. A method that
  holds its mutex is one step; where a lock is released in between (\<open>Router.Forward\<close>, \<open>Vault.submit\<close>, the engine's
  \<open>Propose\<close>, \<open>HandlePropose\<close> and the handlers of replies) the sections are definitions of their own and interleavings
  are stated. A file is the value
  its JSON text encodes; a write succeeds, fails before the rename or fails after it.

  Parameters. Code that is not in the repository is an argument of the definitions: Keccak-256 and public key
  recovery (the record \<open>crypto\<close>, or \<open>kec\<close>), SHA-256 (\<open>sha\<close>), HMAC (\<open>mac\<close>), HKDF (\<open>kdf\<close>), AES-GCM and
  ChaCha20-Poly1305 (\<open>aead\<close>, \<open>cipher\<close>), JSON texts, the curve, the BLS
  check of a sync committee's signature, random sources, the rounding of floating-point operations; and so is the
  world outside the process: the chain reader, the transaction writer, the exchange with a peer, the header and
  receipt sources, the disk. What they answer is unconstrained. Where a statement needs a hash to have no
  collision, it says so for the inputs at hand only (\<open>inj_on kec nodes\<close>, \<open>separatesPairs\<close>, \<open>hashesApart\<close>), and its
  witness has a concrete function.
\<close>

text \<open>
  Theories of the payment channels, in the order of their imports.

  \<^item> \<^verbatim>\<open>Prelude\<close>, \<^verbatim>\<open>Text_Codec\<close>: machine types, results, hexadecimal and decimal text; the locales \<open>codec\<close> and
    \<open>fixed_width\<close>, the contracts of encoders. \<^verbatim>\<open>Encoding\<close>: addresses, ABI words, the signed digests (\<^verbatim>\<open>state.go\<close>);
    both locales are interpreted on its encoders.
  \<^item> \<^verbatim>\<open>Channel_Types\<close>, \<^verbatim>\<open>Channel_State\<close>, \<^verbatim>\<open>Channel_Props\<close>: the channel and \<open>Accept\<close> (\<^verbatim>\<open>state.go\<close>); exactly which states
    are taken, and that the digest determines the state.
  \<^item> \<^verbatim>\<open>Transition\<close>, \<^verbatim>\<open>Transition_Props\<close>: \<open>Apply\<close> (\<^verbatim>\<open>transition.go\<close>); conservation, only the proposer pays, a lock that is
    settled is a payment. \<^verbatim>\<open>Demo\<close>: concrete inputs of the witnesses.
  \<^item> \<^verbatim>\<open>Wire\<close>, \<^verbatim>\<open>Wire_Props\<close>: messages and frames (\<^verbatim>\<open>scpp.go\<close>). \<^verbatim>\<open>History\<close>: the payment log (\<^verbatim>\<open>history.go\<close>). \<^verbatim>\<open>Chain\<close>: reads
    of the contract (\<^verbatim>\<open>chain.go\<close>), with the locale \<open>chain_reader\<close>.
  \<^item> \<^verbatim>\<open>Store\<close>, \<^verbatim>\<open>Preimages\<close>, \<^verbatim>\<open>Store_Props\<close>: channels and preimages on disk (\<^verbatim>\<open>store.go\<close>, \<^verbatim>\<open>preimages.go\<close>). The store
    refines a durable map; the locales \<open>durable\<close> and \<open>durable_steps\<close> carry an invariant of channels through any
    mixture of operations, failed writes and restarts, with mutations of \<open>Update\<close> that never lower what was agreed
    (\<open>advancing\<close>, which every mutation of the engine is), and \<open>committer\<close> is what the engine needs of it.
  \<^item> \<^verbatim>\<open>Session\<close>, \<^verbatim>\<open>Session_Props\<close>, \<^verbatim>\<open>Protocol_Props\<close>, \<^verbatim>\<open>Protocol_Limits\<close>: the engine (\<^verbatim>\<open>session.go\<close>). \<open>nodeStep\<close> is a run
    of its sections, in which a call reads and signs in one step and commits in a later one, with any other steps,
    failed writes and restarts between them; \<open>anyStep\<close> adds the operations of the store. One signature per
    nonce in every run in which no two signing calls overlap on a channel (\<open>Propose_race\<close> is what happens when they do),
    an acknowledged state is never lost, nothing is lost by countersigning, and the windows for settling and refunding
    are disjoint.
  \<^item> \<^verbatim>\<open>Metrics\<close>, \<^verbatim>\<open>Coordinator\<close>, \<^verbatim>\<open>Coordinator_Props\<close>: running a payment (\<^verbatim>\<open>coordinator.go\<close>, \<^verbatim>\<open>metrics.go\<close>). \<^verbatim>\<open>Vault\<close>,
    \<^verbatim>\<open>Vault_Props\<close>, \<^verbatim>\<open>Reconcile\<close>: custody of states (\<^verbatim>\<open>vault.go\<close>, \<^verbatim>\<open>vaultstore.go\<close>, \<^verbatim>\<open>reconcile.go\<close>).
  \<^item> \<^verbatim>\<open>Challenge_Budget\<close>, \<^verbatim>\<open>Watchtower\<close>, \<^verbatim>\<open>Watchtower_Props\<close>, \<^verbatim>\<open>Validation\<close>, \<^verbatim>\<open>Spend_Guard\<close>: \<^verbatim>\<open>challengebudget.go\<close>,
    \<^verbatim>\<open>watchtower.go\<close>, \<^verbatim>\<open>validation.go\<close>, \<^verbatim>\<open>spendguard.go\<close>. \<^verbatim>\<open>Payout\<close>, \<^verbatim>\<open>Payout_Props\<close>, \<^verbatim>\<open>Lock_View\<close>: \<^verbatim>\<open>payout.go\<close>,
    \<^verbatim>\<open>locks.go\<close>.
  \<^item> \<^verbatim>\<open>Derive\<close>, \<^verbatim>\<open>Private_Note\<close>, \<^verbatim>\<open>Settlement\<close>, \<^verbatim>\<open>Voucher\<close>, \<^verbatim>\<open>Hub\<close>, \<^verbatim>\<open>Atomic_Locks\<close>, \<^verbatim>\<open>Onion\<close>, \<^verbatim>\<open>Route\<close>, \<^verbatim>\<open>Router\<close>,
    \<^verbatim>\<open>Payment_Plan\<close>: the private payment layer (\<^verbatim>\<open>note.go\<close>, \<^verbatim>\<open>blinded.go\<close>, \<^verbatim>\<open>settlement.go\<close>, \<^verbatim>\<open>escrow.go\<close>, \<^verbatim>\<open>voucher.go\<close>,
    \<^verbatim>\<open>hub.go\<close>, \<^verbatim>\<open>rebalance.go\<close>, \<^verbatim>\<open>atomic.go\<close>, \<^verbatim>\<open>pedersen.go\<close>, \<^verbatim>\<open>onion.go\<close>, \<^verbatim>\<open>route.go\<close>, \<^verbatim>\<open>router.go\<close>, \<^verbatim>\<open>payment.go\<close>).
  \<^item> \<^verbatim>\<open>Multipath\<close>, \<^verbatim>\<open>Multipath_Exec\<close>, \<^verbatim>\<open>Forwarding\<close>: payments over several channels (\<^verbatim>\<open>multipath.go\<close>,
    \<^verbatim>\<open>multipath_exec.go\<close>, \<^verbatim>\<open>routing.go\<close>).

  Theories of the chain data.

  \<^item> \<^verbatim>\<open>Rlp\<close>: decoder and encoder (\<^verbatim>\<open>rlp.go\<close>, \<^verbatim>\<open>rlpencode.go\<close>); canonical encodings decode to what was encoded. \<^verbatim>\<open>Trie\<close>,
    \<^verbatim>\<open>Trie_Root\<close>: Merkle-Patricia proofs and whole tries (\<^verbatim>\<open>proof.go\<close>, \<^verbatim>\<open>triebuild.go\<close>); a proof against the root of a
    trie gives the trie's entry, every entry has one, and one root has one set of entries.
  \<^item> \<^verbatim>\<open>Receipts\<close>, \<^verbatim>\<open>Blocks\<close>: receipts, blooms, headers (\<^verbatim>\<open>receipts.go\<close>, \<^verbatim>\<open>bloom.go\<close>, \<^verbatim>\<open>headerrlp.go\<close>, \<^verbatim>\<open>blockscan.go\<close>).
    \<^verbatim>\<open>Follower\<close>, \<^verbatim>\<open>Follower_Props\<close>: the follower (\<^verbatim>\<open>chainfollower.go\<close>); one walk per head and checkpoint, and no log
    missed by a run, however it ends.
  \<^item> \<^verbatim>\<open>Ssz\<close>, \<^verbatim>\<open>Light_Client\<close>, \<^verbatim>\<open>Light_Client_Props\<close>: merkleisation and branches (\<^verbatim>\<open>ssz.go\<close>), checkpoints, updates, rotation,
    finality, the execution payload (\<^verbatim>\<open>checkpoint.go\<close>, \<^verbatim>\<open>lightclient.go\<close>, \<^verbatim>\<open>rotation.go\<close>, \<^verbatim>\<open>finality.go\<close>, \<^verbatim>\<open>execution.go\<close>,
    \<^verbatim>\<open>lightclient_verifier.go\<close>). What the client may hold is defined by inductive rules about signatures and
    branches, and every sequence of updates stays within them.

  Theories of the overlay sessions.

  \<^item> \<^verbatim>\<open>Axon_Bytes\<close>, \<^verbatim>\<open>Axon_Packet\<close>: packets and the replay window (\<^verbatim>\<open>packet.go\<close>); the window is the set of numbers it
    stands for. \<^verbatim>\<open>Axon_Keys\<close>: the key schedule (\<^verbatim>\<open>keys.go\<close>).
  \<^item> \<^verbatim>\<open>Axon_Session\<close>, \<^verbatim>\<open>Axon_Stream\<close>: the session and its streams (\<^verbatim>\<open>session.go\<close>, \<^verbatim>\<open>stream.go\<close>), one definition per
    method. Two ghost fields record what was queued and what was delivered, a third what was sealed.
  \<^item> \<^verbatim>\<open>Axon_Session_Props\<close>, \<^verbatim>\<open>Axon_Delivery\<close>: a session seen as its reliability state moves by nine small steps, which
    every method is a sequence of; two sessions with any network between them deliver once and in order, and use no
    packet number twice. What is assumed of the AEAD there is that a packet which opens was sealed by the peer.

  The theorems that show where the code falls short of its comments stand beside those that show what it keeps:
  they are named after the behaviour (\<open>entry_refuses_every_plan\<close>, \<open>boundary_update_replaces_next\<close>,
  \<open>Accept_negative_withdrawal\<close>) and say in their text which comment they contradict.
\<close>

text \<open>
  Loops and bounds. Structural loops are \<^theory_text>\<open>fun\<close>; the others have a termination proof: the RLP decoder because
  an item uses a byte or more (\<open>decode_consumes\<close>), the walk back because a batch is not empty and the height falls,
  the merkleisation because the width halves, a trie because a group of entries moves on by a nibble. The proof
  walk has the code's own bound of 65 nodes as its fuel; \<open>trie_proves_entries\<close> shows that it is enough for hashed
  keys. The doubling of \<open>nextPowerOfTwo\<close> may run forever when it overflows: it is a partial function, and
  \<open>Merkleize_is_tree\<close> shows that it ends for up to \<open>2 ^ 62\<close> chunks. The frames held back by a session are drained
  while their number falls, the epochs of a key are walked while the distance falls, and \<open>Write\<close> runs over the bytes
  left to its next wait. The sequence numbers of a session are 64-bit words: its theorems ask that fewer than
  \<open>2 ^ 64\<close> frames were queued. A run of the watchtower or the payout worker
  is a list of passes.

  Not modelled. Texts for humans, the console and the HTTP interfaces of the channels; transports and mailboxes; the
  RPC and beacon clients (their answers are unconstrained parameters); key files and signing processes; the pools
  of \<^verbatim>\<open>pool.go\<close>; metric callbacks of the follower; the counters, wake-ups and callbacks of a session; floating-point readings of \<^verbatim>\<open>metrics.go\<close>. Of the rest of the
  repository, the rest of the overlay network (\<^verbatim>\<open>internal/axon\<close>: links, circuits, rendezvous, names), storage, the peer-to-peer node, compute, deployments, the
  gateway, facilitation and the configuration are subsystems of their own and not part of this library, nor are
  the Solidity contracts: what the contract does enters only through what a chain read returns.
\<close>

end
